(* ===== verification/Prelude.thy ===== *)
theory Prelude
  imports Main "HOL-Library.Word"
begin

text \<open>
  Shared base of the development: names for the kernel's integer types, the error
  numbers of \<^verbatim>\<open>include/kernel/types.h\<close>, the collections of rewrite rules the
  component theories fill, and the generic facts on lists, options and words that
  several components use.
\<close>

unbundle bit_operations_syntax

section \<open>Machine types\<close>

type_synonym u8 = "8 word"
type_synonym u16 = "16 word"
type_synonym u32 = "32 word"
type_synonym u64 = "64 word"

text \<open>
  A C \<^verbatim>\<open>int\<close>, \<^verbatim>\<open>s64\<close> or \<^verbatim>\<open>pid_t\<close> whose range is never left by the
  modelled code is an \<^typ>\<open>int\<close>; a system call returns a non-negative value or
  minus an error number, as in the source.
\<close>

abbreviation (input) EPERM :: int where "EPERM \<equiv> 1"
abbreviation (input) ENOENT :: int where "ENOENT \<equiv> 2"
abbreviation (input) ESRCH :: int where "ESRCH \<equiv> 3"
abbreviation (input) EINTR :: int where "EINTR \<equiv> 4"
abbreviation (input) EIO :: int where "EIO \<equiv> 5"
abbreviation (input) EBADF :: int where "EBADF \<equiv> 9"
abbreviation (input) EAGAIN :: int where "EAGAIN \<equiv> 11"
abbreviation (input) ENOMEM :: int where "ENOMEM \<equiv> 12"
abbreviation (input) EFAULT :: int where "EFAULT \<equiv> 14"
abbreviation (input) EINVAL :: int where "EINVAL \<equiv> 22"
abbreviation (input) EMFILE :: int where "EMFILE \<equiv> 24"
abbreviation (input) ENOTTY :: int where "ENOTTY \<equiv> 25"
abbreviation (input) EPIPE :: int where "EPIPE \<equiv> 32"
abbreviation (input) ENOSYS :: int where "ENOSYS \<equiv> 38"
abbreviation (input) ENOTEMPTY :: int where "ENOTEMPTY \<equiv> 39"

section \<open>Collections of rewrite rules\<close>

named_theorems ring_simps \<open>contents and counters of the ring buffers\<close>
named_theorems mem_simps \<open>byte memory after the routines of lib/string.c\<close>
named_theorems rq_simps \<open>fields of a run queue after one operation\<close>

section \<open>Words\<close>

text \<open>A ring whose size is a power of two reduces its index with a mask.\<close>

lemma mask_index_word:
  fixes w sz :: "'a::len word"
  assumes "unat sz = 2 ^ k"
  shows "unat (w AND (sz - 1)) = unat w mod 2 ^ k"
proof -
  have k: "k < LENGTH('a)"
  proof (rule ccontr)
    assume "\<not> k < LENGTH('a)"
    then have "(2::nat) ^ LENGTH('a) \<le> 2 ^ k" by simp
    moreover have "unat sz < 2 ^ LENGTH('a)" by (rule unsigned_less)
    ultimately show False using assms by simp
  qed
  have "sz = word_of_nat (unat sz)" by simp
  also have "\<dots> = 2 ^ k" by (simp add: assms)
  finally have "sz - 1 = mask k" by (simp add: mask_eq_exp_minus_1)
  then have "w AND (sz - 1) = take_bit k w" by (simp add: take_bit_eq_mask)
  then show ?thesis
    using k by (simp only: unsigned_take_bit_eq take_bit_eq_mod [of k "unat w"])
qed

text \<open>Setting and clearing one bit of a bitmap word.\<close>

lemma bit_or_exp:
  "i < LENGTH('a) \<Longrightarrow> bit (w OR 2 ^ n :: 'a::len word) i \<longleftrightarrow> bit w i \<or> i = n"
  by (auto simp: bit_simps)

lemma bit_and_not_exp:
  "i < LENGTH('a) \<Longrightarrow> bit (w AND NOT (2 ^ n) :: 'a::len word) i \<longleftrightarrow> bit w i \<and> i \<noteq> n"
  by (auto simp: bit_simps)

lemma unat_exp_word:
  assumes "k < LENGTH('a)"
  shows "unat ((2::'a::len word) ^ k) = 2 ^ k"
proof -
  have "unat ((2::'a word) ^ k) = unat (word_of_nat (2 ^ k) :: 'a word)" by simp
  also have "\<dots> = 2 ^ k"
    using assms by (simp only: unsigned_of_nat) (simp add: take_bit_nat_eq_self)
  finally show ?thesis .
qed

lemma unat_Suc_word:
  fixes w :: "'a::len word"
  assumes "unat w < m" "m < 2 ^ LENGTH('a)"
  shows "unat (w + 1) = Suc (unat w)"
  using assms by (subst unat_add_lem [THEN iffD1]) auto

lemma unat_pred_word:
  fixes w :: "'a::len word"
  assumes "0 < unat w"
  shows "unat (w - 1) = unat w - 1"
  using assms by (metis One_nat_def unat_minus_one unsigned_0 less_irrefl)

text \<open>A 64-bit value read as a signed number.\<close>

lemma sint_of_nat_u64: "n < 2 ^ 63 \<Longrightarrow> sint (of_nat n :: u64) = int n"
  by (simp add: signed_of_nat signed_take_bit_int_eq_self)

lemma sint_uint_pos:
  fixes w :: u64
  assumes "0 \<le> sint w"
  shows "uint w = sint w"
proof -
  have "uint w = uint (word_of_int (sint w) :: u64)" by simp
  also have "\<dots> = take_bit 64 (sint w)" by (simp only: unsigned_of_int) simp
  also have "\<dots> = sint w" using assms sint_less [of w] by (intro take_bit_int_eq_self) auto
  finally show ?thesis .
qed

lemma sint_unat_pos: "0 \<le> sint (w :: u64) \<Longrightarrow> w = of_nat (nat (sint w)) \<and> nat (sint w) < 2 ^ 63"
  using sint_less [of w] by auto

text \<open>\<^verbatim>\<open>__builtin_ctzll\<close>: the index of the lowest set bit of a word that is not zero.\<close>

definition ctz64 :: "u64 \<Rightarrow> nat" where
  "ctz64 w = length (takeWhile (\<lambda>i. \<not> bit w i) [0..<64])"

lemma ctz64_correct:
  assumes "w \<noteq> 0"
  shows "ctz64 w < 64" "bit w (ctz64 w)" "i < ctz64 w \<Longrightarrow> \<not> bit w i"
proof -
  let ?P = "\<lambda>i. \<not> bit w i"
  have le: "ctz64 w \<le> 64"
    using length_takeWhile_le [of ?P "[0..<64]"] by (simp add: ctz64_def)
  show "\<not> bit w i" if "i < ctz64 w" for i
  proof -
    have i: "i < length (takeWhile ?P [0..<64])" using that by (simp add: ctz64_def)
    have "takeWhile ?P [0..<64] ! i = i"
      using takeWhile_nth [OF i] that le by simp
    then show ?thesis using nth_mem [OF i] by (auto dest: set_takeWhileD)
  qed
  note none = this
  show lt: "ctz64 w < 64"
  proof (rule ccontr)
    assume "\<not> ctz64 w < 64"
    then have "\<not> bit w i" if "i < 64" for i using none [of i] that by simp
    then have "w = 0" by (intro bit_eqI) (simp add: bit_imp_le_length)
    then show False using assms by simp
  qed
  show "bit w (ctz64 w)"
    using nth_length_takeWhile [of ?P "[0..<64]"] lt by (simp add: ctz64_def)
qed

section \<open>Lists\<close>

lemma Some_nth_map: "i < length xs \<Longrightarrow> map f xs ! i = f (xs ! i)"
  by simp

lemma take_Suc_append_nth:
  "i < length xs \<Longrightarrow> take (Suc i) xs = take i xs @ [xs ! i]"
  by (rule take_Suc_conv_app_nth)

lemma length_filter_change:
  assumes "distinct xs" "t \<in> set xs" "\<And>u. u \<in> set xs \<Longrightarrow> u \<noteq> t \<Longrightarrow> P u = Q u"
  shows "length (filter P xs) + (if Q t then 1 else 0) = length (filter Q xs) + (if P t then 1 else 0)"
  using assms
proof (induction xs)
  case (Cons x xs)
  show ?case
  proof (cases "x = t")
    case True
    then have "filter P xs = filter Q xs" using Cons.prems by (intro filter_cong) auto
    then show ?thesis using True by simp
  next
    case False
    then show ?thesis using Cons by simp
  qed
qed simp

end
