(* ===== verification/Fifo.thy ===== *)
theory Fifo
  imports Prelude
begin

text \<open>
  The kernel keeps bytes in four hand-written ring buffers (the pipe buffer of
  \<^verbatim>\<open>fs/pipe.c\<close>, the two TTY buffers of \<^verbatim>\<open>drivers/tty\<close>, and others built the same
  way). This theory has what they share: the list a ring stands for, the effect of one
  store and one fetch on it, and the interface of a bounded first-in first-out queue
  (locale \<open>bounded_fifo\<close>) with the lemmas every client of such a queue relies on. Each
  ring of the kernel is an interpretation of that locale.
\<close>

section \<open>The list a ring stands for\<close>

definition ring_contents :: "'a list \<Rightarrow> nat \<Rightarrow> nat \<Rightarrow> 'a list" where
  "ring_contents d t n = map (\<lambda>i. d ! ((t + i) mod length d)) [0..<n]"

definition ring_ok :: "'a list \<Rightarrow> nat \<Rightarrow> nat \<Rightarrow> nat \<Rightarrow> bool" where
  "ring_ok d h t n \<longleftrightarrow>
     0 < length d \<and> t < length d \<and> n \<le> length d \<and> h = (t + n) mod length d"

lemma length_ring_contents [simp]: "length (ring_contents d t n) = n"
  by (simp add: ring_contents_def)

lemma ring_okD:
  assumes "ring_ok d h t n"
  shows "h < length d" "t < length d" "n \<le> length d" "0 < length d"
  using assms by (auto simp: ring_ok_def)

lemma mod_add_inj:
  fixes i j n t :: nat
  assumes "(t + i) mod n = (t + j) mod n" "i < n" "j < n"
  shows "i = j"
proof -
  have "i mod n = j mod n"
    using assms(1) by (simp add: nat_mod_eq_iff)
  then show ?thesis using assms(2,3) by simp
qed

lemma ring_store:
  assumes "ring_ok d h t n" "n < length d"
  shows "ring_contents (d[h := c]) t (Suc n) = ring_contents d t n @ [c]"
    and "ring_ok (d[h := c]) (Suc h mod length d) t (Suc n)"
proof -
  have h: "h = (t + n) mod length d" "h < length d"
    using assms by (auto simp: ring_ok_def)
  have "d[h := c] ! ((t + i) mod length d) = d ! ((t + i) mod length d)" if "i < n" for i
  proof -
    have "h \<noteq> (t + i) mod length d"
      using mod_add_inj [of t n "length d" i] that assms h by auto
    then show ?thesis by simp
  qed
  then show "ring_contents (d[h := c]) t (Suc n) = ring_contents d t n @ [c]"
    using h by (simp add: ring_contents_def)
  show "ring_ok (d[h := c]) (Suc h mod length d) t (Suc n)"
    using assms h by (auto simp: ring_ok_def mod_Suc_eq)
qed

lemma ring_fetch:
  assumes "ring_ok d h t (Suc n)"
  shows "ring_contents d t (Suc n) = d ! t # ring_contents d (Suc t mod length d) n"
    and "ring_ok d h (Suc t mod length d) n"
proof -
  have t: "t < length d" using assms by (simp add: ring_ok_def)
  have shift: "(Suc t mod length d + i) mod length d = (t + Suc i) mod length d" for i
    by (metis add_Suc_right add_Suc mod_add_left_eq)
  show "ring_contents d t (Suc n) = d ! t # ring_contents d (Suc t mod length d) n"
    unfolding ring_contents_def
    using t by (simp add: upt_conv_Cons map_Suc_upt [symmetric] shift del: upt_Suc)
  show "ring_ok d h (Suc t mod length d) n"
    using assms shift [of n] by (auto simp: ring_ok_def)
qed

section \<open>Bulk transfer\<close>

text \<open>
  A loop that stores bytes until the source or the room runs out, and one that fetches
  until the count is reached or the queue is empty.
\<close>

fun put_some :: "('b \<Rightarrow> 'a \<Rightarrow> 'b option) \<Rightarrow> 'b \<Rightarrow> 'a list \<Rightarrow> nat \<times> 'b" where
  "put_some put b [] = (0, b)"
| "put_some put b (x # xs) =
     (case put b x of None \<Rightarrow> (0, b)
      | Some b' \<Rightarrow> (case put_some put b' xs of (n, b'') \<Rightarrow> (Suc n, b'')))"

fun get_some :: "('b \<Rightarrow> ('a \<times> 'b) option) \<Rightarrow> 'b \<Rightarrow> nat \<Rightarrow> 'a list \<times> 'b" where
  "get_some get b 0 = ([], b)"
| "get_some get b (Suc n) =
     (case get b of None \<Rightarrow> ([], b)
      | Some (x, b') \<Rightarrow> (case get_some get b' n of (xs, b'') \<Rightarrow> (x # xs, b'')))"

text \<open>A client's history: transfers in both directions, in any order.\<close>

datatype 'a xfer = Put "'a list" | Get nat

fun run_xfers ::
  "('b \<Rightarrow> 'a \<Rightarrow> 'b option) \<Rightarrow> ('b \<Rightarrow> ('a \<times> 'b) option) \<Rightarrow> 'b \<Rightarrow> 'a xfer list
    \<Rightarrow> 'a list \<times> 'a list \<times> 'b" where
  "run_xfers put get b [] = ([], [], b)"
| "run_xfers put get b (Put xs # ops) =
     (case put_some put b xs of (n, b') \<Rightarrow>
        (case run_xfers put get b' ops of (i, out, b'') \<Rightarrow> (take n xs @ i, out, b'')))"
| "run_xfers put get b (Get n # ops) =
     (case get_some get b n of (ys, b') \<Rightarrow>
        (case run_xfers put get b' ops of (i, out, b'') \<Rightarrow> (i, ys @ out, b'')))"

section \<open>Interface of a bounded queue\<close>

locale bounded_fifo =
  fixes put :: "'b \<Rightarrow> 'a \<Rightarrow> 'b option"
    and get :: "'b \<Rightarrow> ('a \<times> 'b) option"
    and contents :: "'b \<Rightarrow> 'a list"
    and cap :: "'b \<Rightarrow> nat"
    and inv :: "'b \<Rightarrow> bool"
  assumes contents_le_cap: "inv b \<Longrightarrow> length (contents b) \<le> cap b"
    and put_full: "inv b \<Longrightarrow> put b x = None \<longleftrightarrow> length (contents b) = cap b"
    and put_contents: "inv b \<Longrightarrow> put b x = Some b' \<Longrightarrow> contents b' = contents b @ [x]"
    and put_inv: "inv b \<Longrightarrow> put b x = Some b' \<Longrightarrow> inv b' \<and> cap b' = cap b"
    and get_empty: "inv b \<Longrightarrow> get b = None \<longleftrightarrow> contents b = []"
    and get_contents: "inv b \<Longrightarrow> get b = Some (x, b') \<Longrightarrow> contents b = x # contents b'"
    and get_inv: "inv b \<Longrightarrow> get b = Some (x, b') \<Longrightarrow> inv b' \<and> cap b' = cap b"
begin

lemma put_some_spec:
  assumes "inv b"
  shows "case put_some put b xs of (n, b') \<Rightarrow>
     n = min (length xs) (cap b - length (contents b)) \<and>
     contents b' = contents b @ take n xs \<and> inv b' \<and> cap b' = cap b"
  using assms
proof (induction xs arbitrary: b)
  case Nil
  then show ?case by simp
next
  case (Cons x xs)
  show ?case
  proof (cases "put b x")
    case None
    then show ?thesis using Cons.prems put_full [of b x] by simp
  next
    case (Some b1)
    have "length (contents b) < cap b"
      using Cons.prems Some put_full [of b x] contents_le_cap [of b] by fastforce
    then show ?thesis
      using Cons.IH [of b1] Cons.prems Some put_contents [OF _ Some] put_inv [OF _ Some]
      by (auto split: prod.splits)
  qed
qed

lemma get_some_spec:
  assumes "inv b"
  shows "case get_some get b n of (xs, b') \<Rightarrow>
     xs = take n (contents b) \<and> contents b' = drop n (contents b) \<and> inv b' \<and> cap b' = cap b"
  using assms
proof (induction n arbitrary: b)
  case 0
  then show ?case by simp
next
  case (Suc n)
  show ?case
  proof (cases "get b")
    case None
    then show ?thesis using Suc.prems get_empty [of b] by simp
  next
    case (Some p)
    obtain x b1 where p: "p = (x, b1)" by (cases p)
    then show ?thesis
      using Suc.IH [of b1] Suc.prems Some get_contents [of b x b1] get_inv [of b x b1]
      by (auto split: prod.splits)
  qed
qed

text \<open>
  Whatever the client does, in whatever order: the bytes that came out, followed by the
  bytes still queued, are the bytes that were queued at the start followed by the bytes
  that were accepted. Nothing is lost, duplicated or reordered.
\<close>

lemma run_xfers_stream:
  assumes "inv b" "run_xfers put get b ops = (i, out, b')"
  shows "out @ contents b' = contents b @ i \<and> inv b' \<and> cap b' = cap b"
  using assms
proof (induction ops arbitrary: b i out)
  case Nil
  then show ?case by simp
next
  case (Cons op ops)
  show ?case
  proof (cases op)
    case (Put xs)
    then show ?thesis
      using Cons.IH Cons.prems put_some_spec [OF Cons.prems(1), of xs]
      by (fastforce split: prod.splits)
  next
    case (Get n)
    then show ?thesis
      using Cons.IH Cons.prems get_some_spec [OF Cons.prems(1), of n]
      by (fastforce split: prod.splits)
  qed
qed

end

end
