(* ===== verification/Fdtable.thy ===== *)
theory Fdtable
  imports Prelude
begin

text \<open>
  The descriptor table of \<^verbatim>\<open>kernel/process.c\<close> (\<^verbatim>\<open>files_struct_t\<close>): reservation of a
  free slot, installation, lookup with reference taking, closing, and the copy made by
  \<^verbatim>\<open>fork\<close>. Open files are named by an identifier; the store maps the identifier of a
  live \<^verbatim>\<open>file_t\<close> to its reference count \<^verbatim>\<open>f_count\<close>, and a freed one to nothing. Each
  operation runs under \<^verbatim>\<open>files->lock\<close>, so it is one function on the table.
\<close>

section \<open>Data\<close>

type_synonym file_id = nat
type_synonym file_store = "file_id \<Rightarrow> int option"

record fd_entry =
  fe_file :: "file_id option"
  fe_flags :: u32

record files_struct =
  files_count :: int
  max_fds :: nat
  next_fd :: nat
  close_on_exec :: u64
  open_fds :: u64
  fd_array :: "fd_entry list"

definition fd_empty :: fd_entry where
  "fd_empty = \<lparr>fe_file = None, fe_flags = 0\<rparr>"

section \<open>Operations\<close>

definition files_alloc :: "bool \<Rightarrow> files_struct option" where
  "files_alloc mem_ok =
     (if \<not> mem_ok then None
      else Some \<lparr>files_count = 1, max_fds = 64, next_fd = 0, close_on_exec = 0, open_fds = 0,
                 fd_array = replicate 64 fd_empty\<rparr>)"

text \<open>\<^verbatim>\<open>files_free\<close> drops one reference to the table; the loop over the open files has
  an empty body in the source, so no file is released. The result is the table, or
  nothing once it is freed.\<close>

definition files_free :: "files_struct option \<Rightarrow> files_struct option" where
  "files_free files =
     (case files of None \<Rightarrow> None
      | Some fs \<Rightarrow>
          if files_count fs - 1 = 0 then None
          else Some (fs\<lparr>files_count := files_count fs - 1\<rparr>))"

function find_free_fd :: "fd_entry list \<Rightarrow> nat \<Rightarrow> nat \<Rightarrow> nat option" where
  "find_free_fd fds i n =
     (if i < n then (if fe_file (fds ! i) = None then Some i else find_free_fd fds (Suc i) n)
      else None)"
  by pat_completeness auto
termination
  by (relation "measure (\<lambda>(fds, i, n). n - i)") auto

declare find_free_fd.simps [simp del]

definition get_unused_fd :: "files_struct \<Rightarrow> int \<times> files_struct" where
  "get_unused_fd files =
     (case find_free_fd (fd_array files) (next_fd files) (max_fds files) of
        Some i \<Rightarrow> (int i, files\<lparr>next_fd := i + 1\<rparr>)
      | None \<Rightarrow>
          (case find_free_fd (fd_array files) 0 (next_fd files) of
             Some i \<Rightarrow> (int i, files\<lparr>next_fd := i + 1\<rparr>)
           | None \<Rightarrow> (- EMFILE, files)))"

definition fd_in_range :: "int \<Rightarrow> files_struct \<Rightarrow> bool" where
  "fd_in_range fd files \<longleftrightarrow> 0 \<le> fd \<and> fd < int (max_fds files)"

definition put_unused_fd :: "int \<Rightarrow> files_struct \<Rightarrow> files_struct" where
  "put_unused_fd fd files =
     (if fd_in_range fd files
      then let files1 = files\<lparr>fd_array := (fd_array files)[nat fd := fd_empty]\<rparr>
           in if nat fd < next_fd files then files1\<lparr>next_fd := nat fd\<rparr> else files1
      else files)"

definition fd_install :: "int \<Rightarrow> file_id \<Rightarrow> files_struct \<Rightarrow> files_struct" where
  "fd_install fd f files =
     (if fd_in_range fd files
      then files\<lparr>fd_array := (fd_array files)[nat fd := (fd_array files ! nat fd)\<lparr>fe_file := Some f\<rparr>],
                 open_fds := open_fds files OR push_bit (nat fd) 1\<rparr>
      else files)"

definition fget :: "int \<Rightarrow> files_struct \<Rightarrow> file_store \<Rightarrow> file_id option \<times> file_store" where
  "fget fd files st =
     (if fd_in_range fd files
      then (case fe_file (fd_array files ! nat fd) of
              None \<Rightarrow> (None, st)
            | Some f \<Rightarrow> (Some f, st(f := map_option (\<lambda>c. c + 1) (st f))))
      else (None, st))"

text \<open>\<^verbatim>\<open>fput\<close>: the file is freed when its last reference goes; its \<^verbatim>\<open>release\<close> method is
  not called (the call is commented out in the source).\<close>

definition fput :: "file_id option \<Rightarrow> file_store \<Rightarrow> file_store" where
  "fput file st =
     (case file of None \<Rightarrow> st
      | Some f \<Rightarrow> (case st f of None \<Rightarrow> st
                   | Some c \<Rightarrow> if c - 1 = 0 then st(f := None) else st(f \<mapsto> c - 1)))"

definition do_close :: "int \<Rightarrow> files_struct \<Rightarrow> file_store \<Rightarrow> int \<times> files_struct \<times> file_store" where
  "do_close fd files st =
     (if fd_in_range fd files
      then let file = fe_file (fd_array files ! nat fd);
               files1 = files\<lparr>fd_array := (fd_array files)[nat fd := fd_empty],
                              open_fds := open_fds files AND NOT (push_bit (nat fd) 1),
                              close_on_exec := close_on_exec files AND NOT (push_bit (nat fd) 1)\<rparr>
           in (case file of None \<Rightarrow> (- EBADF, files1, st)
               | Some f \<Rightarrow> (0, files1, fput (Some f) st))
      else (- EBADF, files, st))"

text \<open>The loop of \<^verbatim>\<open>files_copy\<close> over the old table's first 64 entries.\<close>

fun copy_fds :: "fd_entry list \<Rightarrow> file_store \<Rightarrow> fd_entry list \<times> file_store" where
  "copy_fds [] st = ([], st)"
| "copy_fds (e # es) st =
     (case fe_file e of
        None \<Rightarrow> (case copy_fds es st of (es', st') \<Rightarrow> (fd_empty # es', st'))
      | Some f \<Rightarrow> (case copy_fds es (st(f := map_option (\<lambda>c. c + 1) (st f))) of
                    (es', st') \<Rightarrow> (e # es', st')))"

definition files_copy ::
  "bool \<Rightarrow> files_struct \<Rightarrow> file_store \<Rightarrow> files_struct option \<times> file_store" where
  "files_copy mem_ok old st =
     (case files_alloc mem_ok of None \<Rightarrow> (None, st)
      | Some new \<Rightarrow>
          let n = min (max_fds old) 64 in
          (case copy_fds (take n (fd_array old)) st of
             (es, st') \<Rightarrow>
               (Some (new\<lparr>max_fds := (if 64 < max_fds old then 64 else max_fds old),
                          next_fd := next_fd old, close_on_exec := close_on_exec old,
                          open_fds := open_fds old,
                          fd_array := es @ drop n (fd_array new)\<rparr>), st')))"

section \<open>Well-formed tables\<close>

definition files_inv :: "files_struct \<Rightarrow> bool" where
  "files_inv fs \<longleftrightarrow>
     max_fds fs = 64 \<and> length (fd_array fs) = 64 \<and> next_fd fs \<le> 64 \<and>
     (\<forall>i\<in>{..<64}. bit (open_fds fs) i \<longleftrightarrow> fe_file (fd_array fs ! i) \<noteq> None)"

lemma files_invI:
  assumes "max_fds fs = 64" "length (fd_array fs) = 64" "next_fd fs \<le> 64"
    and "\<And>i. i < 64 \<Longrightarrow> bit (open_fds fs) i \<longleftrightarrow> fe_file (fd_array fs ! i) \<noteq> None"
  shows "files_inv fs"
  using assms by (simp add: files_inv_def)

lemma files_invD:
  assumes "files_inv fs"
  shows "max_fds fs = 64" "length (fd_array fs) = 64" "next_fd fs \<le> 64"
    and "i < 64 \<Longrightarrow> bit (open_fds fs) i \<longleftrightarrow> fe_file (fd_array fs ! i) \<noteq> None"
  using assms by (auto simp: files_inv_def)

lemma files_alloc_inv: "files_alloc ok = Some fs \<Longrightarrow> files_inv fs"
  by (auto simp: files_alloc_def files_inv_def fd_empty_def split: if_splits)

section \<open>The free-slot search\<close>

lemma find_free_fd_Some:
  "find_free_fd fds i n = Some j \<Longrightarrow>
     i \<le> j \<and> j < n \<and> fe_file (fds ! j) = None \<and> (\<forall>k. i \<le> k \<and> k < j \<longrightarrow> fe_file (fds ! k) \<noteq> None)"
proof (induction fds i n rule: find_free_fd.induct)
  case (1 fds i n)
  show ?case
  proof (cases "i < n \<and> fe_file (fds ! i) \<noteq> None")
    case True
    then have "Suc i \<le> j \<and> j < n \<and> fe_file (fds ! j) = None \<and>
       (\<forall>k. Suc i \<le> k \<and> k < j \<longrightarrow> fe_file (fds ! k) \<noteq> None)"
      using 1 by (auto simp: find_free_fd.simps [of fds i n])
    then show ?thesis
      using True by (metis Suc_leD le_antisym not_less_eq_eq)
  next
    case False
    then show ?thesis
      using 1 by (auto simp: find_free_fd.simps [of fds i n] split: if_splits)
  qed
qed

lemma find_free_fd_None:
  "find_free_fd fds i n = None \<longleftrightarrow> (\<forall>k. i \<le> k \<and> k < n \<longrightarrow> fe_file (fds ! k) \<noteq> None)"
proof (induction fds i n rule: find_free_fd.induct)
  case (1 fds i n)
  show ?case
  proof (cases "i < n \<and> fe_file (fds ! i) \<noteq> None")
    case True
    then show ?thesis
      using 1 by (simp add: find_free_fd.simps [of fds i n])
        (metis Suc_leD le_antisym not_less_eq_eq)
  next
    case False
    then show ?thesis by (auto simp: find_free_fd.simps [of fds i n])
  qed
qed

lemma get_unused_fd_cases:
  assumes "files_inv fs"
  shows "(\<exists>i<64. get_unused_fd fs = (int i, fs\<lparr>next_fd := i + 1\<rparr>) \<and> fe_file (fd_array fs ! i) = None)
    \<or> (get_unused_fd fs = (- EMFILE, fs) \<and> (\<forall>i<64. fe_file (fd_array fs ! i) \<noteq> None))"
proof (cases "find_free_fd (fd_array fs) (next_fd fs) (max_fds fs)")
  case None
  note high = None
  show ?thesis
  proof (cases "find_free_fd (fd_array fs) 0 (next_fd fs)")
    case None
    have "fe_file (fd_array fs ! i) \<noteq> None" if "i < 64" for i
      using that high None files_invD(1) [OF assms]
      by (cases "i < next_fd fs") (auto simp: find_free_fd_None)
    then show ?thesis using high None by (simp add: get_unused_fd_def)
  next
    case (Some j)
    then show ?thesis
      using high find_free_fd_Some [OF Some] files_invD(3) [OF assms]
      by (auto simp: get_unused_fd_def)
  qed
next
  case (Some j)
  then show ?thesis
    using find_free_fd_Some [OF Some] files_invD(1) [OF assms]
    by (auto simp: get_unused_fd_def)
qed

section \<open>Every operation keeps the table well formed\<close>

lemma files_inv_next_fd: "files_inv fs \<Longrightarrow> n \<le> 64 \<Longrightarrow> files_inv (fs\<lparr>next_fd := n\<rparr>)"
  by (simp add: files_inv_def)

lemma get_unused_fd_inv: "files_inv fs \<Longrightarrow> get_unused_fd fs = (r, fs') \<Longrightarrow> files_inv fs'"
  using get_unused_fd_cases [of fs] by (auto intro: files_inv_next_fd)

lemma fd_install_inv: "files_inv fs \<Longrightarrow> files_inv (fd_install fd f fs)"
  by (auto simp: fd_install_def fd_in_range_def bit_or_exp files_invD nth_list_update
      intro!: files_invI)

lemma do_close_inv: "files_inv fs \<Longrightarrow> do_close fd fs st = (r, fs', st') \<Longrightarrow> files_inv fs'"
  by (auto simp: do_close_def fd_in_range_def Let_def bit_and_not_exp files_invD nth_list_update
      fd_empty_def split: if_splits option.splits intro!: files_invI)

text \<open>\<^verbatim>\<open>put_unused_fd\<close> leaves the bitmap alone: it is meant for a reserved slot in which
  nothing was installed.\<close>

lemma put_unused_fd_inv:
  "files_inv fs \<Longrightarrow> fe_file (fd_array fs ! nat fd) = None \<Longrightarrow> files_inv (put_unused_fd fd fs)"
  by (auto simp: put_unused_fd_def fd_in_range_def Let_def files_invD nth_list_update
      fd_empty_def split: if_splits intro!: files_invI)

lemma copy_fds_files:
  "copy_fds es st = (es', st') \<Longrightarrow> map fe_file es' = map fe_file es"
  by (induction es arbitrary: st es' st')
    (auto simp: fd_empty_def split: option.splits prod.splits)

lemma copy_fds_length: "copy_fds es st = (es', st') \<Longrightarrow> length es' = length es"
  by (metis copy_fds_files length_map)

lemma files_copy_SomeD:
  assumes "files_inv old" "files_copy ok old st = (Some new, st')"
  obtains es where "copy_fds (fd_array old) st = (es, st')" "length es = 64"
    "new = old\<lparr>files_count := 1, fd_array := es\<rparr>"
  using assms files_invD [OF assms(1)] copy_fds_length
  by (cases "copy_fds (fd_array old) st")
    (fastforce simp: files_copy_def files_alloc_def split: if_splits)

lemma files_copy_inv:
  assumes "files_inv old" "files_copy ok old st = (Some new, st')"
  shows "files_inv new"
proof -
  obtain es where es: "copy_fds (fd_array old) st = (es, st')" "length es = 64"
    and new: "new = old\<lparr>files_count := 1, fd_array := es\<rparr>"
    using files_copy_SomeD [OF assms] .
  have "fe_file (es ! i) = fe_file (fd_array old ! i)" if "i < 64" for i
    using copy_fds_files [OF es(1)] that es(2) files_invD(2) [OF assms(1)] by (metis nth_map)
  then show ?thesis
    unfolding new using es(2) files_invD [OF assms(1)] by (auto intro!: files_invI)
qed

section \<open>Reference counts\<close>

definition fd_refs :: "files_struct \<Rightarrow> file_id \<Rightarrow> nat" where
  "fd_refs fs f = length (filter (\<lambda>e. fe_file e = Some f) (fd_array fs))"

text \<open>
  \<open>refs_ok\<close> says that the store is exact for a list of tables: a live file is counted
  once per slot that names it, and no slot names a freed file.
\<close>

primrec refs_total :: "files_struct list \<Rightarrow> file_id \<Rightarrow> nat" where
  "refs_total [] f = 0"
| "refs_total (fs # tabs) f = fd_refs fs f + refs_total tabs f"

definition refs_ok :: "files_struct list \<Rightarrow> file_store \<Rightarrow> bool" where
  "refs_ok tabs st \<longleftrightarrow>
     (\<forall>f. (case st f of None \<Rightarrow> refs_total tabs f = 0
           | Some c \<Rightarrow> 0 < c \<and> c = int (refs_total tabs f)))"

lemma refs_okD:
  assumes "refs_ok tabs st"
  shows "st f = None \<Longrightarrow> refs_total tabs f = 0"
    and "st f = Some c \<Longrightarrow> 0 < c \<and> c = int (refs_total tabs f)"
  using spec [OF assms [unfolded refs_ok_def], of f] by auto

lemma copy_fds_store:
  "copy_fds es st = (es', st') \<Longrightarrow>
     st' f = map_option (\<lambda>c. c + int (length (filter (\<lambda>e. fe_file e = Some f) es))) (st f)"
proof (induction es arbitrary: st es' st')
  case Nil
  then show ?case by (simp add: option.map_ident)
next
  case (Cons e es)
  show ?case
  proof (cases "fe_file e")
    case None
    then show ?thesis using Cons by (auto split: prod.splits)
  next
    case (Some g)
    then obtain es1 where "copy_fds es (st(g := map_option (\<lambda>c. c + 1) (st g))) = (es1, st')"
      using Cons.prems by (auto split: prod.splits)
    from Cons.IH [OF this] show ?thesis
      using Some by (auto simp: option.map_comp comp_def algebra_simps)
  qed
qed

lemma fd_refs_map: "fd_refs fs f = count_list (map fe_file (fd_array fs)) (Some f)"
  by (simp add: fd_refs_def count_list_eq_length_filter filter_map comp_def eq_commute)

lemma files_copy_refs:
  assumes "files_inv old" "files_copy ok old st = (Some new, st')"
  shows "fd_refs new f = fd_refs old f"
    and "st' f = map_option (\<lambda>c. c + int (fd_refs old f)) (st f)"
proof -
  obtain es where es: "copy_fds (fd_array old) st = (es, st')" "length es = 64"
    and new: "new = old\<lparr>files_count := 1, fd_array := es\<rparr>"
    using files_copy_SomeD [OF assms] .
  show "fd_refs new f = fd_refs old f"
    using copy_fds_files [OF es(1)] by (simp add: fd_refs_map new)
  show "st' f = map_option (\<lambda>c. c + int (fd_refs old f)) (st f)"
    using copy_fds_store [OF es(1)] by (simp add: fd_refs_def)
qed

lemma filter_length_update:
  "i < length xs \<Longrightarrow> \<not> P y \<Longrightarrow>
     length (filter P (xs[i := y])) + (if P (xs ! i) then 1 else 0) = length (filter P xs)"
proof (induction xs arbitrary: i)
  case Nil
  then show ?case by simp
next
  case (Cons x xs)
  then show ?case by (cases i) auto
qed

lemma do_close_refs:
  assumes "files_inv fs" "do_close fd fs st = (r, fs', st')"
  shows "fd_refs fs' f + (if r = 0 \<and> fe_file (fd_array fs ! nat fd) = Some f then 1 else 0)
    = fd_refs fs f"
  using assms(2) filter_length_update [of "nat fd" "fd_array fs" "\<lambda>e. fe_file e = Some f" fd_empty]
    files_invD(1,2) [OF assms(1)]
  by (auto simp: do_close_def fd_refs_def fd_in_range_def Let_def fd_empty_def
      split: if_splits option.splits)


lemma do_close_store:
  assumes "do_close fd fs st = (r, fs', st')"
  shows "st' = (if r = 0 then fput (fe_file (fd_array fs ! nat fd)) st else st)"
  using assms by (auto simp: do_close_def Let_def split: if_splits option.splits)

lemma refs_ok_entry:
  assumes "refs_ok (fs # tabs) st" "files_inv fs" "nat fd < 64"
    "fe_file (fd_array fs ! nat fd) = Some f"
  shows "\<exists>c>0. st f = Some c"
proof (cases "st f")
  case None
  then have "fd_refs fs f = 0" using refs_okD(1) [OF assms(1)] by simp
  then have "\<forall>e\<in>set (fd_array fs). fe_file e \<noteq> Some f"
    by (simp add: fd_refs_def filter_empty_conv)
  then show ?thesis using assms(3,4) files_invD(2) [OF assms(2)] nth_mem by metis
next
  case (Some c)
  then show ?thesis using refs_okD(2) [OF assms(1)] by simp
qed

section \<open>The files of a table\<close>

definition fd_files :: "files_struct \<Rightarrow> file_id option list" where
  "fd_files fs = map fe_file (fd_array fs)"

lemma fd_files_install:
  "fd_in_range fd fs \<Longrightarrow> fd_files (fd_install fd f fs) = (fd_files fs)[nat fd := Some f]"
  by (simp add: fd_files_def fd_install_def map_update)

lemma fd_files_close:
  "fd_in_range fd fs \<Longrightarrow> do_close fd fs st = (r, fs', st') \<Longrightarrow> fd_files fs' = (fd_files fs)[nat fd := None]"
  by (auto simp: fd_files_def do_close_def Let_def map_update fd_empty_def split: option.splits)

lemma fd_files_next_fd [simp]: "fd_files (fs\<lparr>next_fd := n\<rparr>) = fd_files fs"
  by (simp add: fd_files_def)

lemma close_on_exec_frame [simp]:
  "close_on_exec (fd_install fd f fs) = close_on_exec fs"
  "get_unused_fd fs = (r, fs') \<Longrightarrow> close_on_exec fs' = close_on_exec fs"
  by (auto simp: fd_install_def get_unused_fd_def split: option.splits)

lemma get_unused_fd_free:
  assumes "files_inv fs" "get_unused_fd fs = (r, fs')" "0 \<le> r"
  shows "r < 64" "fd_in_range r fs'" "fd_files fs ! nat r = None" "fd_files fs' = fd_files fs"
    "length (fd_files fs) = 64"
  using get_unused_fd_cases [OF assms(1)] assms(2,3) files_invD [OF assms(1)]
  by (auto simp: fd_in_range_def fd_files_def)

section \<open>Properties\<close>

text \<open>On a well-formed table \<^verbatim>\<open>get_unused_fd\<close> answers
  \<^verbatim>\<open>-EMFILE\<close> exactly when all 64 slots are taken, and then leaves the table alone;
  otherwise it answers the number of a free slot, changes nothing but the search hint, and
  the table stays well formed.\<close>

theorem get_unused_fd_correct:
  assumes "files_inv fs" "get_unused_fd fs = (r, fs')"
  shows "(r = - EMFILE \<longleftrightarrow> (\<forall>i<64. fe_file (fd_array fs ! i) \<noteq> None))
    \<and> (r = - EMFILE \<longrightarrow> fs' = fs)
    \<and> (r \<noteq> - EMFILE \<longrightarrow> 0 \<le> r \<and> r < 64 \<and> fe_file (fd_array fs ! nat r) = None
          \<and> fs' = fs\<lparr>next_fd := nat r + 1\<rparr>)
    \<and> files_inv fs'"
  using get_unused_fd_cases [OF assms(1)] get_unused_fd_inv [OF assms] assms(2)
  by (elim disjE exE conjE) auto

theorem get_unused_fd_correct_witness:
  "\<exists>fs fs'. files_alloc True = Some fs \<and> get_unused_fd fs = (0, fs') \<and> files_inv fs'"
proof -
  obtain fs where fs: "files_alloc True = Some fs" by (simp add: files_alloc_def)
  have g: "get_unused_fd fs = (0, fs\<lparr>next_fd := 1\<rparr>)"
    using fs by (auto simp: files_alloc_def get_unused_fd_def find_free_fd.simps [of _ 0 64]
        fd_empty_def)
  show ?thesis using fs g get_unused_fd_correct [OF files_alloc_inv [OF fs] g] by blast
qed

text \<open>Install, look up, close. A file installed in a freshly reserved slot is what
  \<^verbatim>\<open>fget\<close> finds there, with one more reference; closing the descriptor succeeds, empties
  the slot and drops a reference, and closing it again is \<^verbatim>\<open>-EBADF\<close>.\<close>

theorem fd_lifecycle:
  assumes "files_inv fs" "get_unused_fd fs = (fd, fs1)" "0 \<le> fd" "st f = Some c" "1 < c"
  shows "fst (fget fd (fd_install fd f fs1) st) = Some f
    \<and> snd (fget fd (fd_install fd f fs1) st) f = Some (c + 1)
    \<and> (\<exists>fs2. do_close fd (fd_install fd f fs1) st = (0, fs2, st(f \<mapsto> c - 1))
           \<and> fe_file (fd_array fs2 ! nat fd) = None \<and> fst (do_close fd fs2 st) = - EBADF)"
proof -
  have fd: "nat fd < 64" "fd_in_range fd fs1" "length (fd_array fs1) = 64" "max_fds fs1 = 64"
    using get_unused_fd_cases [OF assms(1)] assms(2,3) files_invD [OF assms(1)]
    by (auto simp: fd_in_range_def)
  show ?thesis
  proof (intro conjI)
  show "fst (fget fd (fd_install fd f fs1) st) = Some f"
    using fd by (simp add: fget_def fd_install_def fd_in_range_def)
  show "snd (fget fd (fd_install fd f fs1) st) f = Some (c + 1)"
    using fd assms(4) by (simp add: fget_def fd_install_def fd_in_range_def)
  show "\<exists>fs2. do_close fd (fd_install fd f fs1) st = (0, fs2, st(f \<mapsto> c - 1))
           \<and> fe_file (fd_array fs2 ! nat fd) = None \<and> fst (do_close fd fs2 st) = - EBADF"
    using fd assms(4,5)
    by (simp add: do_close_def fd_install_def fd_in_range_def fput_def Let_def fd_empty_def)
  qed
qed

theorem fd_lifecycle_witness:
  "\<exists>fs fs1. files_alloc True = Some fs \<and> get_unused_fd fs = (0, fs1)
     \<and> fst (fget 0 (fd_install 0 7 fs1) [7 \<mapsto> 2]) = Some 7"
proof -
  obtain fs where fs: "files_alloc True = Some fs" by (simp add: files_alloc_def)
  have g: "get_unused_fd fs = (0, fs\<lparr>next_fd := 1\<rparr>)"
    using fs by (auto simp: files_alloc_def get_unused_fd_def find_free_fd.simps [of _ 0 64]
        fd_empty_def)
  show ?thesis
    using fs g fd_lifecycle [OF files_alloc_inv [OF fs] g, of "[7 \<mapsto> 2]" 7 2] by auto
qed

text \<open>\<^emph>\<open>Fork.\<close> The copy of a descriptor table made by \<^verbatim>\<open>files_copy\<close> keeps all
  reference counts exact: if every live file was counted once per slot that names it, it
  still is with the new table added.\<close>

theorem files_copy_refs_ok:
  assumes "files_inv old" "refs_ok (old # tabs) st" "files_copy ok old st = (Some new, st')"
  shows "files_inv new \<and> refs_ok (new # old # tabs) st'"
proof -
  have "case st' f of None \<Rightarrow> refs_total (new # old # tabs) f = 0
      | Some c \<Rightarrow> 0 < c \<and> c = int (refs_total (new # old # tabs) f)" for f
    using refs_okD [OF assms(2), of f] files_copy_refs [OF assms(1,3), of f]
    by (cases "st f") auto
  then show ?thesis
    using files_copy_inv [OF assms(1,3)] by (simp add: refs_ok_def)
qed

theorem files_copy_refs_ok_witness:
  "\<exists>fs new st'. files_alloc True = Some fs \<and> files_copy True fs Map.empty = (Some new, st')
     \<and> refs_ok [new, fs] st'"
proof -
  obtain fs where fs: "files_alloc True = Some fs" by (simp add: files_alloc_def)
  have r: "refs_ok [fs] Map.empty"
    using fs by (auto simp: refs_ok_def fd_refs_def files_alloc_def fd_empty_def)
  obtain new st' where c: "files_copy True fs Map.empty = (Some new, st')"
    by (cases "files_copy True fs Map.empty")
      (auto simp: files_copy_def files_alloc_def Let_def split: prod.splits)
  show ?thesis using fs c files_copy_refs_ok [OF files_alloc_inv [OF fs] r c] by blast
qed

text \<open>C32 (close). Closing any descriptor number, valid or not, keeps the table well
  formed and all reference counts exact; in particular a file is freed exactly when the
  last slot naming it goes, so no slot ever names a freed file.\<close>

theorem do_close_refs_ok:
  assumes "files_inv fs" "refs_ok (fs # tabs) st" "do_close fd fs st = (r, fs', st')"
  shows "files_inv fs' \<and> refs_ok (fs' # tabs) st'"
proof -
  have "case st' f of None \<Rightarrow> refs_total (fs' # tabs) f = 0
      | Some c \<Rightarrow> 0 < c \<and> c = int (refs_total (fs' # tabs) f)" for f
  proof (cases "r = 0 \<and> fe_file (fd_array fs ! nat fd) = Some f")
    case True
    then have "nat fd < 64"
      using assms(3) files_invD(1) [OF assms(1)]
      by (auto simp: do_close_def fd_in_range_def split: if_splits)
    then obtain c where "st f = Some c" "0 < c"
      using refs_ok_entry [OF assms(2,1)] True by blast
    then show ?thesis
      using True refs_okD [OF assms(2), of f] do_close_refs [OF assms(1,3), of f]
        do_close_store [OF assms(3)]
      by (auto simp: fput_def)
  next
    case False
    then have "st' f = st f"
      using do_close_store [OF assms(3)] by (auto simp: fput_def split: option.splits)
    then show ?thesis
      using False refs_okD [OF assms(2), of f] do_close_refs [OF assms(1,3), of f]
      by (auto split: option.splits)
  qed
  then show ?thesis
    using do_close_inv [OF assms(1,3)] by (simp add: refs_ok_def)
qed

theorem do_close_refs_ok_witness:
  "\<exists>fs fs'. files_alloc True = Some fs \<and> do_close 5 fs Map.empty = (- EBADF, fs', Map.empty)
     \<and> refs_ok [fs'] Map.empty"
proof -
  obtain fs where fs: "files_alloc True = Some fs" by (simp add: files_alloc_def)
  have r: "refs_ok [fs] Map.empty"
    using fs by (auto simp: refs_ok_def fd_refs_def files_alloc_def fd_empty_def)
  obtain fs' where c: "do_close 5 fs Map.empty = (- EBADF, fs', Map.empty)"
    using fs by (auto simp: do_close_def files_alloc_def fd_in_range_def fd_empty_def Let_def)
  show ?thesis using fs c do_close_refs_ok [OF files_alloc_inv [OF fs] r c] by blast
qed

end
