(* ===== verification/Pipe.thy ===== *)
theory Pipe
  imports Fifo Fdtable
begin

text \<open>
  Anonymous pipes, \<^verbatim>\<open>fs/pipe.c\<close>: the byte ring, the blocking read and write loops, the
  release of either end, and the creation of a pipe in a process's descriptor table. A
  critical section under \<^verbatim>\<open>pi->lock\<close> is one function; a call that sleeps in
  \<^verbatim>\<open>pipe_wait\<close> ends in an outcome that says so and is resumed by a second function with
  the task's pending-signal flag, so that any other call may run in between.
\<close>

section \<open>The ring buffer\<close>

record pipe_buffer =
  pb_data :: "u8 list"
  pb_size :: u64
  pb_head :: u64
  pb_tail :: u64
  pb_count :: u64

definition pbuf_space :: "pipe_buffer \<Rightarrow> u64" where
  "pbuf_space pb = pb_size pb - pb_count pb"

definition pbuf_count :: "pipe_buffer \<Rightarrow> u64" where
  "pbuf_count pb = pb_count pb"

text \<open>One round of the loops of \<^verbatim>\<open>pbuf_write\<close> and \<^verbatim>\<open>pbuf_read\<close>, guard included.\<close>

definition pbuf_put :: "pipe_buffer \<Rightarrow> u8 \<Rightarrow> pipe_buffer option" where
  "pbuf_put pb c =
     (if pb_count pb < pb_size pb
      then Some (pb\<lparr>pb_data := (pb_data pb)[unat (pb_head pb) := c],
                    pb_head := (pb_head pb + 1) AND (pb_size pb - 1),
                    pb_count := pb_count pb + 1\<rparr>)
      else None)"

definition pbuf_get :: "pipe_buffer \<Rightarrow> (u8 \<times> pipe_buffer) option" where
  "pbuf_get pb =
     (if 0 < pb_count pb
      then Some (pb_data pb ! unat (pb_tail pb),
                 pb\<lparr>pb_tail := (pb_tail pb + 1) AND (pb_size pb - 1),
                    pb_count := pb_count pb - 1\<rparr>)
      else None)"

text \<open>The source bytes \<^verbatim>\<open>src[0..n)\<close> are the list argument; the result is the number of
  bytes written.\<close>

definition pbuf_write :: "pipe_buffer \<Rightarrow> u8 list \<Rightarrow> nat \<times> pipe_buffer" where
  "pbuf_write pb src = put_some pbuf_put pb src"

definition pbuf_read :: "pipe_buffer \<Rightarrow> nat \<Rightarrow> u8 list \<times> pipe_buffer" where
  "pbuf_read pb n = get_some pbuf_get pb n"

definition pbuf_inv :: "pipe_buffer \<Rightarrow> bool" where
  "pbuf_inv pb \<longleftrightarrow>
     (\<exists>k\<in>{..<64}. unat (pb_size pb) = 2 ^ k) \<and> length (pb_data pb) = unat (pb_size pb) \<and>
     ring_ok (pb_data pb) (unat (pb_head pb)) (unat (pb_tail pb)) (unat (pb_count pb))"

definition pbuf_contents :: "pipe_buffer \<Rightarrow> u8 list" where
  "pbuf_contents pb = ring_contents (pb_data pb) (unat (pb_tail pb)) (unat (pb_count pb))"

definition pbuf_cap :: "pipe_buffer \<Rightarrow> nat" where
  "pbuf_cap pb = unat (pb_size pb)"

lemma pbuf_index:
  assumes "pbuf_inv pb" "unat i < unat (pb_size pb)"
  shows "unat ((i + 1) AND (pb_size pb - 1)) = Suc (unat i) mod length (pb_data pb)"
proof -
  obtain k where k: "unat (pb_size pb) = 2 ^ k" using assms(1) by (auto simp: pbuf_inv_def)
  have "unat (i + 1) = Suc (unat i)"
    using assms(2) unsigned_less [of "pb_size pb"] by (intro unat_Suc_word) auto
  then show ?thesis
    using mask_index_word [OF k, of "i + 1"] k assms(1) by (simp add: pbuf_inv_def)
qed

lemma pbuf_put_ok:
  assumes "pbuf_inv pb" "pbuf_put pb c = Some pb'"
  shows "pbuf_contents pb' = pbuf_contents pb @ [c]" "pbuf_inv pb' \<and> pbuf_cap pb' = pbuf_cap pb"
proof -
  let ?d = "pb_data pb" and ?h = "unat (pb_head pb)" and ?t = "unat (pb_tail pb)"
    and ?n = "unat (pb_count pb)"
  have ok: "ring_ok ?d ?h ?t ?n" and len: "length ?d = unat (pb_size pb)"
    using assms(1) by (auto simp: pbuf_inv_def)
  have lt: "?n < length ?d" and pb': "pb' = pb\<lparr>pb_data := ?d[?h := c],
      pb_head := (pb_head pb + 1) AND (pb_size pb - 1), pb_count := pb_count pb + 1\<rparr>"
    using assms(2) len by (auto simp: pbuf_put_def word_less_nat_alt split: if_splits)
  have n: "unat (pb_count pb + 1) = Suc ?n"
    using lt len unsigned_less [of "pb_size pb"] by (intro unat_Suc_word) auto
  have h: "unat ((pb_head pb + 1) AND (pb_size pb - 1)) = Suc ?h mod length ?d"
    using pbuf_index [OF assms(1)] ring_okD(1) [OF ok] len by simp
  show "pbuf_contents pb' = pbuf_contents pb @ [c]"
    using ring_store(1) [OF ok lt] n by (simp add: pb' pbuf_contents_def)
  show "pbuf_inv pb' \<and> pbuf_cap pb' = pbuf_cap pb"
    using ring_store(2) [OF ok lt, of c] n h assms(1)
    by (auto simp: pb' pbuf_inv_def pbuf_cap_def)
qed

lemma pbuf_get_ok:
  assumes "pbuf_inv pb" "pbuf_get pb = Some (c, pb')"
  shows "pbuf_contents pb = c # pbuf_contents pb'" "pbuf_inv pb' \<and> pbuf_cap pb' = pbuf_cap pb"
proof -
  let ?d = "pb_data pb" and ?h = "unat (pb_head pb)" and ?t = "unat (pb_tail pb)"
    and ?n = "unat (pb_count pb)"
  have ok: "ring_ok ?d ?h ?t ?n" and len: "length ?d = unat (pb_size pb)"
    using assms(1) by (auto simp: pbuf_inv_def)
  have pos: "0 < ?n" and c: "c = ?d ! ?t" and pb': "pb' = pb\<lparr>
      pb_tail := (pb_tail pb + 1) AND (pb_size pb - 1), pb_count := pb_count pb - 1\<rparr>"
    using assms(2) by (auto simp: pbuf_get_def word_less_nat_alt split: if_splits)
  have n: "unat (pb_count pb - 1) = ?n - 1" using pos by (rule unat_pred_word)
  have t: "unat ((pb_tail pb + 1) AND (pb_size pb - 1)) = Suc ?t mod length ?d"
    using pbuf_index [OF assms(1)] ring_okD(2) [OF ok] len by simp
  have ok': "ring_ok ?d ?h ?t (Suc (?n - 1))" using ok pos by simp
  show "pbuf_contents pb = c # pbuf_contents pb'"
    using ring_fetch(1) [OF ok'] pos n t c by (simp add: pb' pbuf_contents_def)
  show "pbuf_inv pb' \<and> pbuf_cap pb' = pbuf_cap pb"
    using ring_fetch(2) [OF ok'] n t assms(1) by (auto simp: pb' pbuf_inv_def pbuf_cap_def)
qed

interpretation pq: bounded_fifo pbuf_put pbuf_get pbuf_contents pbuf_cap pbuf_inv
proof
  fix b x assume "pbuf_inv b"
  then show "length (pbuf_contents b) \<le> pbuf_cap b"
    and "(pbuf_put b x = None) = (length (pbuf_contents b) = pbuf_cap b)"
    by (auto simp: pbuf_inv_def ring_ok_def pbuf_contents_def pbuf_cap_def pbuf_put_def
        word_less_nat_alt)
  show "(pbuf_get b = None) = (pbuf_contents b = [])"
    by (auto simp: pbuf_contents_def ring_contents_def pbuf_get_def word_less_nat_alt
        unat_eq_0 word_gt_0)
qed (auto dest: pbuf_put_ok pbuf_get_ok)

lemma pbuf_space_unat:
  assumes "pbuf_inv pb"
  shows "unat (pbuf_space pb) = pbuf_cap pb - length (pbuf_contents pb)"
proof -
  have "unat (pb_count pb) \<le> unat (pb_size pb)"
    using assms by (auto simp: pbuf_inv_def ring_ok_def)
  then show ?thesis
    by (simp add: pbuf_space_def pbuf_cap_def pbuf_contents_def unat_sub word_le_nat_alt)
qed

lemma pbuf_write_ok:
  assumes "pbuf_inv pb" "pbuf_write pb src = (n, pb')"
  shows "n = min (length src) (pbuf_cap pb - length (pbuf_contents pb))"
    "pbuf_contents pb' = pbuf_contents pb @ take n src" "pbuf_inv pb'" "pbuf_cap pb' = pbuf_cap pb"
  using pq.put_some_spec [OF assms(1), of src] assms(2) by (auto simp: pbuf_write_def)

lemma pbuf_read_ok:
  assumes "pbuf_inv pb" "pbuf_read pb n = (xs, pb')"
  shows "xs = take n (pbuf_contents pb)" "pbuf_contents pb' = drop n (pbuf_contents pb)"
    "pbuf_inv pb'" "pbuf_cap pb' = pbuf_cap pb"
  using pq.get_some_spec [OF assms(1), of n] assms(2) by (auto simp: pbuf_read_def)


section \<open>The pipe object\<close>

type_synonym task_id = nat

record pipe_inode =
  pi_buf :: pipe_buffer
  pi_readers :: int
  pi_writers :: int
  pi_read_wait :: "task_id list"
  pi_write_wait :: "task_id list"
  pi_is_fifo :: bool
  pi_can_read :: bool
  pi_can_write :: bool

text \<open>What a call does to other tasks: the wake-ups it issues and the signals it sends.\<close>

datatype pipe_event = SchedWakeUp task_id | SendSignal task_id int

abbreviation (input) SIGPIPE :: int where "SIGPIPE \<equiv> 13"
abbreviation (input) PIPE_BUF_SIZE :: u64 where "PIPE_BUF_SIZE \<equiv> 65536"
abbreviation (input) PIPE_MAX_SIZE :: u64 where "PIPE_MAX_SIZE \<equiv> 1048576"

text \<open>The rounding loop \<^verbatim>\<open>while (sz < buf_size) sz <<= 1\<close>. It does not end when
  \<^verbatim>\<open>buf_size\<close> exceeds the largest power of two a \<^verbatim>\<open>size_t\<close> holds, hence the fuel; 64
  rounds shift every bit out.\<close>

fun pipe_round_up :: "nat \<Rightarrow> u64 \<Rightarrow> u64 \<Rightarrow> u64 option" where
  "pipe_round_up 0 sz buf_size = None"
| "pipe_round_up (Suc fuel) sz buf_size =
     (if sz < buf_size then pipe_round_up fuel (push_bit 1 sz) buf_size else Some sz)"

text \<open>\<^verbatim>\<open>pipe_alloc\<close>: \<open>kz\<close> is the answer of \<^verbatim>\<open>kzalloc\<close>, \<open>km\<close> that of \<^verbatim>\<open>kmalloc\<close> for the
  data area (its bytes are whatever the allocator hands out). The outer option is the
  rounding loop, the inner one the returned pointer.\<close>

definition pipe_alloc :: "bool \<Rightarrow> (nat \<Rightarrow> u8) option \<Rightarrow> u64 \<Rightarrow> pipe_inode option option" where
  "pipe_alloc kz km buf_size =
     (if \<not> kz then Some None
      else (case pipe_round_up 64 4096 buf_size of
              None \<Rightarrow> None
            | Some sz0 \<Rightarrow>
                let sz = (if PIPE_MAX_SIZE < sz0 then PIPE_MAX_SIZE else sz0) in
                (case km of None \<Rightarrow> Some None
                 | Some bytes \<Rightarrow>
                     Some (Some \<lparr>pi_buf = \<lparr>pb_data = map bytes [0..<unat sz], pb_size = sz,
                                          pb_head = 0, pb_tail = 0, pb_count = 0\<rparr>,
                                pi_readers = 0, pi_writers = 0,
                                pi_read_wait = [], pi_write_wait = [],
                                pi_is_fifo = False, pi_can_read = False, pi_can_write = False\<rparr>))))"

definition pipe_wake_queue :: "task_id list \<Rightarrow> pipe_event list" where
  "pipe_wake_queue wq = map SchedWakeUp wq"

definition pipe_wake_readers :: "pipe_inode \<Rightarrow> pipe_event list" where
  "pipe_wake_readers pi = pipe_wake_queue (pi_read_wait pi)"

definition pipe_wake_writers :: "pipe_inode \<Rightarrow> pipe_event list" where
  "pipe_wake_writers pi = pipe_wake_queue (pi_write_wait pi)"

text \<open>\<^verbatim>\<open>pipe_wait\<close>, up to the call of \<^verbatim>\<open>schedule\<close> and after it. \<open>cur\<close> is the current
  task.\<close>

definition pipe_wait_enter :: "task_id option \<Rightarrow> task_id list \<Rightarrow> int + task_id list" where
  "pipe_wait_enter cur wq = (case cur of None \<Rightarrow> Inl (- EINVAL) | Some me \<Rightarrow> Inr (wq @ [me]))"

definition pipe_wait_leave :: "task_id \<Rightarrow> bool \<Rightarrow> task_id list \<Rightarrow> int \<times> task_id list" where
  "pipe_wait_leave me sig_pending wq = ((if sig_pending then - EINTR else 0), remove1 me wq)"

section \<open>Reading\<close>

datatype rd_outcome = RdRet int "u8 list" | RdSleep

text \<open>One round of the loop of \<^verbatim>\<open>pipe_read\<close>: it returns, or goes to sleep.\<close>

definition pipe_read_iter ::
  "nat \<Rightarrow> bool \<Rightarrow> task_id option \<Rightarrow> pipe_inode \<Rightarrow> rd_outcome \<times> pipe_inode \<times> pipe_event list" where
  "pipe_read_iter count nonblock cur pi =
     (if 0 < pbuf_count (pi_buf pi)
      then (case pbuf_read (pi_buf pi) count of
              (xs, b) \<Rightarrow> (RdRet (int (length xs)) xs, pi\<lparr>pi_buf := b\<rparr>, pipe_wake_writers pi))
      else if pi_writers pi = 0 then (RdRet 0 [], pi, [])
      else if nonblock then (RdRet (- EAGAIN) [], pi, [])
      else (case pipe_wait_enter cur (pi_read_wait pi) of
              Inl e \<Rightarrow> (RdRet e [], pi, [])
            | Inr wq \<Rightarrow> (RdSleep, pi\<lparr>pi_read_wait := wq\<rparr>, [])))"

definition pipe_read_resume ::
  "nat \<Rightarrow> bool \<Rightarrow> task_id \<Rightarrow> bool \<Rightarrow> pipe_inode \<Rightarrow> rd_outcome \<times> pipe_inode \<times> pipe_event list" where
  "pipe_read_resume count nonblock me sig_pending pi =
     (case pipe_wait_leave me sig_pending (pi_read_wait pi) of
        (rerr, wq) \<Rightarrow>
          let pi1 = pi\<lparr>pi_read_wait := wq\<rparr> in
          if rerr \<noteq> 0 then (RdRet rerr [], pi1, []) else pipe_read_iter count nonblock (Some me) pi1)"

text \<open>\<open>file_ok\<close> and \<open>buf_ok\<close>: the pointer arguments are not \<^verbatim>\<open>NULL\<close>; \<open>priv\<close> is
  \<^verbatim>\<open>file->private_data\<close>.\<close>

abbreviation (input) O_NONBLOCK :: u32 where "O_NONBLOCK \<equiv> 0x800"
abbreviation (input) O_CLOEXEC :: u32 where "O_CLOEXEC \<equiv> 0x80000"

definition pipe_read ::
  "bool \<Rightarrow> bool \<Rightarrow> nat \<Rightarrow> u32 \<Rightarrow> task_id option \<Rightarrow> pipe_inode option
    \<Rightarrow> rd_outcome \<times> pipe_inode option \<times> pipe_event list" where
  "pipe_read file_ok buf_ok count f_flags cur priv =
     (if \<not> file_ok \<or> \<not> buf_ok then (RdRet (- EFAULT) [], priv, [])
      else if count = 0 then (RdRet 0 [], priv, [])
      else (case priv of None \<Rightarrow> (RdRet (- EINVAL) [], priv, [])
            | Some pi \<Rightarrow>
                (case pipe_read_iter count (f_flags AND O_NONBLOCK \<noteq> 0) cur pi of
                   (out, pi', ev) \<Rightarrow> (out, Some pi', ev))))"

section \<open>Writing\<close>

datatype wr_outcome = WrRet int | WrSleep nat

text \<open>The loop of \<^verbatim>\<open>pipe_write\<close>, from \<open>written\<close> bytes on, until it returns or sleeps
  (with the number of bytes already written). Every round that does neither writes at
  least one byte; the fuel bounds the rounds.\<close>

definition sigpipe :: "task_id option \<Rightarrow> pipe_event list" where
  "sigpipe cur = (case cur of None \<Rightarrow> [] | Some me \<Rightarrow> [SendSignal me SIGPIPE])"

fun pipe_write_loop ::
  "nat \<Rightarrow> u8 list \<Rightarrow> nat \<Rightarrow> bool \<Rightarrow> task_id option \<Rightarrow> pipe_inode \<Rightarrow> pipe_event list
    \<Rightarrow> (wr_outcome \<times> pipe_inode \<times> pipe_event list) option" where
  "pipe_write_loop 0 src written nonblock cur pi ev = None"
| "pipe_write_loop (Suc fuel) src written nonblock cur pi ev =
     (if \<not> written < length src then Some (WrRet (int written), pi, ev)
      else if pi_readers pi = 0
      then Some (WrRet (if 0 < written then int written else - EPIPE), pi, ev @ sigpipe cur)
      else
        let space = pbuf_space (pi_buf pi); must_be_atomic = (length src \<le> 4096) in
        if space = 0 \<or> (must_be_atomic \<and> unat space < length src)
        then if nonblock then Some (WrRet (if 0 < written then int written else - EAGAIN), pi, ev)
             else (case pipe_wait_enter cur (pi_write_wait pi) of
                     Inl e \<Rightarrow> Some (WrRet (if 0 < written then int written else e), pi, ev)
                   | Inr wq \<Rightarrow> Some (WrSleep written, pi\<lparr>pi_write_wait := wq\<rparr>, ev))
        else (case pbuf_write (pi_buf pi) (drop written src) of
                (n, b) \<Rightarrow>
                  let pi1 = pi\<lparr>pi_buf := b\<rparr> in
                  pipe_write_loop fuel src (written + n) nonblock cur pi1
                    (ev @ pipe_wake_readers pi1)))"

definition pipe_write ::
  "bool \<Rightarrow> bool \<Rightarrow> u8 list \<Rightarrow> u32 \<Rightarrow> task_id option \<Rightarrow> pipe_inode option
    \<Rightarrow> (wr_outcome \<times> pipe_inode option \<times> pipe_event list) option" where
  "pipe_write file_ok buf_ok src f_flags cur priv =
     (if \<not> file_ok \<or> \<not> buf_ok then Some (WrRet (- EFAULT), priv, [])
      else if src = [] then Some (WrRet 0, priv, [])
      else (case priv of None \<Rightarrow> Some (WrRet (- EINVAL), priv, [])
            | Some pi \<Rightarrow>
                if pi_readers pi = 0 then Some (WrRet (- EPIPE), priv, sigpipe cur)
                else map_option (\<lambda>(out, pi', ev). (out, Some pi', ev))
                       (pipe_write_loop (Suc (length src)) src 0 (f_flags AND O_NONBLOCK \<noteq> 0)
                          cur pi [])))"

definition pipe_write_resume ::
  "u8 list \<Rightarrow> nat \<Rightarrow> bool \<Rightarrow> task_id \<Rightarrow> bool \<Rightarrow> pipe_inode
    \<Rightarrow> (wr_outcome \<times> pipe_inode \<times> pipe_event list) option" where
  "pipe_write_resume src written nonblock me sig_pending pi =
     (case pipe_wait_leave me sig_pending (pi_write_wait pi) of
        (werr, wq) \<Rightarrow>
          let pi1 = pi\<lparr>pi_write_wait := wq\<rparr> in
          if werr \<noteq> 0 then Some (WrRet (if 0 < written then int written else werr), pi1, [])
          else pipe_write_loop (Suc (length src)) src written nonblock (Some me) pi1 [])"

section \<open>Release\<close>

text \<open>The result is the pipe that \<^verbatim>\<open>private_data\<close> points to afterwards: nothing once it
  is freed.\<close>

definition pipe_read_release :: "pipe_inode option \<Rightarrow> pipe_inode option \<times> pipe_event list" where
  "pipe_read_release priv =
     (case priv of None \<Rightarrow> (None, [])
      | Some pi \<Rightarrow>
          let pi1 = pi\<lparr>pi_readers := pi_readers pi - 1\<rparr> in
          ((if pi_readers pi1 = 0 \<and> pi_writers pi1 = 0 then None else Some pi1),
           pipe_wake_writers pi1))"

definition pipe_write_release :: "pipe_inode option \<Rightarrow> pipe_inode option \<times> pipe_event list" where
  "pipe_write_release priv =
     (case priv of None \<Rightarrow> (None, [])
      | Some pi \<Rightarrow>
          let pi1 = pi\<lparr>pi_writers := pi_writers pi - 1\<rparr> in
          ((if pi_readers pi1 = 0 \<and> pi_writers pi1 = 0 then None else Some pi1),
           pipe_wake_readers pi1))"


section \<open>Creation\<close>

record pipe_file =
  pf_read_end :: bool
  pf_flags :: u32
  pf_mode :: u32
  pf_pos :: u64

definition make_pipe_file :: "bool \<Rightarrow> u32 \<Rightarrow> pipe_file" where
  "make_pipe_file read_end flags =
     \<lparr>pf_read_end = read_end, pf_flags = flags, pf_mode = (if read_end then 1 else 2), pf_pos = 0\<rparr>"

text \<open>\<^verbatim>\<open>do_pipe\<close>. The answers of the allocators are arguments: \<open>pi\<close> that of
  \<^verbatim>\<open>pipe_alloc(PIPE_BUF_SIZE)\<close>, \<open>krf\<close> and \<open>kwf\<close> the two new file objects; \<open>files\<close> is the
  current task's table. The result has the return value, the two descriptors, the table,
  the reference counts and the objects that are left alive.\<close>

record pipe_made =
  pm_ret :: int
  pm_fds :: "(int \<times> int) option"
  pm_files :: "files_struct option"
  pm_store :: file_store
  pm_pipe :: "pipe_inode option"
  pm_objs :: "(file_id \<times> pipe_file) list"

definition pipe_fail :: "int \<Rightarrow> files_struct option \<Rightarrow> file_store \<Rightarrow> pipe_made" where
  "pipe_fail e files st =
     \<lparr>pm_ret = e, pm_fds = None, pm_files = files, pm_store = st, pm_pipe = None, pm_objs = []\<rparr>"

definition do_pipe ::
  "pipe_inode option \<Rightarrow> file_id option \<Rightarrow> file_id option \<Rightarrow> files_struct option \<Rightarrow> file_store
    \<Rightarrow> u32 \<Rightarrow> pipe_made" where
  "do_pipe pi krf kwf files st flags =
     (case pi of None \<Rightarrow> pipe_fail (- ENOMEM) files st
      | Some p \<Rightarrow>
        (case (krf, kwf) of
           (Some r, Some w) \<Rightarrow>
             let p1 = p\<lparr>pi_readers := 1, pi_writers := 1\<rparr>;
                 rfile = make_pipe_file True (0 OR flags);
                 wfile = make_pipe_file False (1 OR flags);
                 st1 = st(r \<mapsto> 1, w \<mapsto> 1) in
             (case files of None \<Rightarrow> pipe_fail (- EBADF) files (st1(r := None, w := None))
              | Some fs \<Rightarrow>
                (case get_unused_fd fs of (rfd, fs1) \<Rightarrow>
                   if rfd < 0 then pipe_fail (- EMFILE) (Some fs1) (st1(r := None, w := None))
                   else
                     let fs2 = fd_install rfd r fs1 in
                     (case get_unused_fd fs2 of (wfd, fs3) \<Rightarrow>
                        if wfd < 0
                        then (case do_close rfd fs3 st1 of (_, fs4, st2) \<Rightarrow>
                                pipe_fail (- EMFILE) (Some fs4) (st2(w := None)))
                        else \<lparr>pm_ret = 0, pm_fds = Some (rfd, wfd),
                              pm_files = Some (fd_install wfd w fs3), pm_store = st1,
                              pm_pipe = Some p1, pm_objs = [(r, rfile), (w, wfile)]\<rparr>)))
         | _ \<Rightarrow> pipe_fail (- ENOMEM) files st))"

definition sys_pipe ::
  "bool \<Rightarrow> pipe_inode option \<Rightarrow> file_id option \<Rightarrow> file_id option \<Rightarrow> files_struct option
    \<Rightarrow> file_store \<Rightarrow> pipe_made" where
  "sys_pipe pipefd_ok pi krf kwf files st =
     (if \<not> pipefd_ok then pipe_fail (- EFAULT) files st else do_pipe pi krf kwf files st 0)"

definition sys_pipe2 ::
  "bool \<Rightarrow> u32 \<Rightarrow> pipe_inode option \<Rightarrow> file_id option \<Rightarrow> file_id option \<Rightarrow> files_struct option
    \<Rightarrow> file_store \<Rightarrow> pipe_made" where
  "sys_pipe2 pipefd_ok flags pi krf kwf files st =
     (if \<not> pipefd_ok then pipe_fail (- EFAULT) files st
      else if flags AND NOT (O_CLOEXEC OR O_NONBLOCK) \<noteq> 0 then pipe_fail (- EINVAL) files st
      else do_pipe pi krf kwf files st flags)"

section \<open>Lemmas on reading and writing\<close>

abbreviation pi_bytes :: "pipe_inode \<Rightarrow> u8 list" where
  "pi_bytes pi \<equiv> pbuf_contents (pi_buf pi)"

definition pipe_inv :: "pipe_inode \<Rightarrow> bool" where
  "pipe_inv pi \<longleftrightarrow> pbuf_inv (pi_buf pi) \<and> 4096 \<le> pbuf_cap (pi_buf pi)"

text \<open>The number of bytes a write has put into the pipe, by its outcome.\<close>

fun accepted :: "wr_outcome \<Rightarrow> nat" where
  "accepted (WrRet r) = nat r"
| "accepted (WrSleep w) = w"

fun delivered :: "rd_outcome \<Rightarrow> u8 list" where
  "delivered (RdRet r xs) = xs"
| "delivered RdSleep = []"

lemma pbuf_count_zero: "(0 < pbuf_count pb) \<longleftrightarrow> pbuf_contents pb \<noteq> []"
  by (auto simp: pbuf_count_def pbuf_contents_def ring_contents_def unat_eq_0 word_gt_0)

lemma pipe_read_iter_ok:
  assumes "pipe_inv pi" "pipe_read_iter n nb cur pi = (out, pi', ev)"
  shows "delivered out @ pi_bytes pi' = pi_bytes pi" "pipe_inv pi'"
    "pi_readers pi' = pi_readers pi" "pi_writers pi' = pi_writers pi"
  using assms pbuf_read_ok [of "pi_buf pi" n]
  by (auto simp: pipe_read_iter_def pipe_inv_def split: if_splits prod.splits sum.splits)

text \<open>A round that neither returns nor sleeps makes progress.\<close>

lemma pipe_write_progress:
  assumes "pbuf_inv pb" "pbuf_space pb \<noteq> 0" "written < length src"
    "pbuf_write pb (drop written src) = (n, b)"
  shows "0 < n" "written + n \<le> length src"
  using pbuf_write_ok(1) [OF assms(1,4)] pbuf_space_unat [OF assms(1)] assms(2,3)
  by (auto simp: unat_eq_0 [symmetric])

lemma pipe_write_loop_ok:
  assumes "pipe_write_loop fuel src written nb cur pi ev = Some (out, pi', ev')"
    "pipe_inv pi"
  shows "written \<le> accepted out \<and> (written \<le> length src \<longrightarrow> accepted out \<le> length src) \<and>
    pipe_inv pi' \<and>
    pi_bytes pi' = pi_bytes pi @ take (accepted out - written) (drop written src)"
  using assms
proof (induction fuel arbitrary: written pi ev)
  case 0
  then show ?case by simp
next
  case (Suc fuel)
  let ?stop = "pbuf_space (pi_buf pi) = 0 \<or>
    (length src \<le> 4096 \<and> unat (pbuf_space (pi_buf pi)) < length src)"
  show ?case
  proof (cases "written < length src \<and> pi_readers pi \<noteq> 0 \<and> \<not> ?stop")
    case False
    then show ?thesis
      using Suc.prems
      by (auto simp: Let_def pipe_inv_def pipe_wait_enter_def split: if_splits option.splits)
  next
    case True
    obtain n b where nb: "pbuf_write (pi_buf pi) (drop written src) = (n, b)" by fastforce
    have inv: "pbuf_inv (pi_buf pi)" using Suc.prems(2) by (simp add: pipe_inv_def)
    note w = pbuf_write_ok [OF inv nb]
    have le: "written + n \<le> length src"
      using pipe_write_progress [OF inv _ _ nb] True by simp
    have "pipe_inv (pi\<lparr>pi_buf := b\<rparr>)" using w Suc.prems(2) by (simp add: pipe_inv_def)
    moreover have "pipe_write_loop fuel src (written + n) nb cur (pi\<lparr>pi_buf := b\<rparr>)
        (ev @ pipe_wake_readers (pi\<lparr>pi_buf := b\<rparr>)) = Some (out, pi', ev')"
      using Suc.prems(1) True nb by (auto simp: Let_def)
    ultimately have IH: "written + n \<le> accepted out" "accepted out \<le> length src" "pipe_inv pi'"
      "pi_bytes pi' = pbuf_contents b @ take (accepted out - (written + n)) (drop (written + n) src)"
      using Suc.IH [of "written + n" "pi\<lparr>pi_buf := b\<rparr>"] le by auto
    have "take (accepted out - written) (drop written src)
        = take n (drop written src) @ take (accepted out - (written + n)) (drop (written + n) src)"
      using IH(1) take_add [of n "accepted out - (written + n)" "drop written src"]
      by (simp add: add.commute)
    then show ?thesis using IH w(2) by simp
  qed
qed

lemma pipe_write_loop_returns:
  assumes "pipe_inv pi" "length src - written < fuel"
  shows "\<exists>res. pipe_write_loop fuel src written nb cur pi ev = Some res"
  using assms
proof (induction fuel arbitrary: written pi ev)
  case 0
  then show ?case by simp
next
  case (Suc fuel)
  let ?stop = "pbuf_space (pi_buf pi) = 0 \<or>
    (length src \<le> 4096 \<and> unat (pbuf_space (pi_buf pi)) < length src)"
  show ?case
  proof (cases "written < length src \<and> pi_readers pi \<noteq> 0 \<and> \<not> ?stop")
    case False
    then show ?thesis by (auto simp: Let_def split: sum.splits)
  next
    case True
    obtain n b where nb: "pbuf_write (pi_buf pi) (drop written src) = (n, b)" by fastforce
    have inv: "pbuf_inv (pi_buf pi)" using Suc.prems(1) by (simp add: pipe_inv_def)
    have "0 < n" using pipe_write_progress [OF inv _ _ nb] True by simp
    then have "length src - (written + n) < fuel"
      using Suc.prems(2) conjunct1 [OF True] by linarith
    moreover have "pipe_inv (pi\<lparr>pi_buf := b\<rparr>)"
      using pbuf_write_ok [OF inv nb] Suc.prems(1) by (simp add: pipe_inv_def)
    ultimately show ?thesis
      using Suc.IH [of "pi\<lparr>pi_buf := b\<rparr>" "written + n"] True nb by (auto simp: Let_def)
  qed
qed


lemma pipe_write_atomic_loop:
  assumes "pipe_inv pi" "src \<noteq> []" "length src \<le> 4096" "pi_readers pi \<noteq> 0"
    "pipe_write_loop (Suc (length src)) src 0 nb cur pi [] = Some (out, pi', ev)"
  shows "if pbuf_cap (pi_buf pi) - length (pi_bytes pi) \<ge> length src
     then out = WrRet (int (length src)) \<and> pi_bytes pi' = pi_bytes pi @ src
     else accepted out = 0 \<and> pi_buf pi' = pi_buf pi"
proof -
  have inv: "pbuf_inv (pi_buf pi)" using assms(1) by (simp add: pipe_inv_def)
  note space = pbuf_space_unat [OF inv]
  show ?thesis
  proof (cases "length src \<le> unat (pbuf_space (pi_buf pi))")
    case True
    obtain n b where nb: "pbuf_write (pi_buf pi) src = (n, b)" by fastforce
    note w = pbuf_write_ok [OF inv nb]
    have n: "n = length src" using w(1) True space by simp
    have "pbuf_space (pi_buf pi) \<noteq> 0" using True assms(2) by (cases src) auto
    then have "out = WrRet (int (length src)) \<and> pi' = pi\<lparr>pi_buf := b\<rparr>"
      using assms(2-5) True nb n by (cases "length src") (auto simp: Let_def)
    then show ?thesis using True space w(2) n by simp
  next
    case False
    then have "accepted out = 0 \<and> pi_buf pi' = pi_buf pi"
      using assms(2-5)
      by (auto simp: Let_def pipe_wait_enter_def split: if_splits option.splits)
    then show ?thesis using False space by simp
  qed
qed

lemma pipe_round_up_pow2:
  assumes "buf_size \<le> 2 ^ 63" "k < 64" "63 - k < fuel"
  shows "\<exists>j. k \<le> j \<and> j < 64 \<and> pipe_round_up fuel (2 ^ k) buf_size = Some (2 ^ j) \<and> buf_size \<le> 2 ^ j"
  using assms
proof (induction fuel arbitrary: k)
  case 0
  then show ?case by simp
next
  case (Suc fuel)
  show ?case
  proof (cases "(2::u64) ^ k < buf_size")
    case True
    then have "k \<noteq> 63" using Suc.prems(1) by (auto simp: not_less)
    then have "Suc k < 64" "63 - Suc k < fuel" using Suc.prems(2,3) by auto
    from Suc.IH [OF Suc.prems(1) this] True show ?thesis
      by (auto simp: push_bit_eq_mult mult.commute) (metis Suc_leD power_Suc)
  next
    case False
    then show ?thesis using Suc.prems(2) by auto
  qed
qed


section \<open>A history of calls\<close>

text \<open>Calls on one pipe in the order in which their critical sections run, resumed calls
  included. The run collects the bytes that entered and the bytes that were delivered.\<close>

datatype pipe_call =
    CallRead nat u32 "task_id option"
  | CallWrite "u8 list" u32 "task_id option"
  | ResumeRead nat bool task_id bool
  | ResumeWrite "u8 list" nat bool task_id bool

fun pipe_calls :: "pipe_inode \<Rightarrow> pipe_call list \<Rightarrow> (u8 list \<times> u8 list \<times> pipe_inode) option" where
  "pipe_calls pi [] = Some ([], [], pi)"
| "pipe_calls pi (CallRead n flags cur # cs) =
     (case pipe_read True True n flags cur (Some pi) of
        (out, Some pi', _) \<Rightarrow> map_option (\<lambda>(i, ys, p). (i, delivered out @ ys, p)) (pipe_calls pi' cs)
      | _ \<Rightarrow> None)"
| "pipe_calls pi (CallWrite src flags cur # cs) =
     (case pipe_write True True src flags cur (Some pi) of
        Some (out, Some pi', _) \<Rightarrow>
          map_option (\<lambda>(i, ys, p). (take (accepted out) src @ i, ys, p)) (pipe_calls pi' cs)
      | _ \<Rightarrow> None)"
| "pipe_calls pi (ResumeRead n nb me sig # cs) =
     (case pipe_read_resume n nb me sig pi of
        (out, pi', _) \<Rightarrow> map_option (\<lambda>(i, ys, p). (i, delivered out @ ys, p)) (pipe_calls pi' cs))"
| "pipe_calls pi (ResumeWrite src w nb me sig # cs) =
     (case pipe_write_resume src w nb me sig pi of
        Some (out, pi', _) \<Rightarrow>
          map_option (\<lambda>(i, ys, p). (take (accepted out - w) (drop w src) @ i, ys, p)) (pipe_calls pi' cs)
      | None \<Rightarrow> None)"

lemma pipe_read_step:
  assumes "pipe_inv pi"
  obtains out pi' ev where "pipe_read True True n flags cur (Some pi) = (out, Some pi', ev)"
    "delivered out @ pi_bytes pi' = pi_bytes pi" "pipe_inv pi'"
proof (cases "n = 0")
  case True
  then show ?thesis using that assms by (simp add: pipe_read_def)
next
  case False
  obtain out pi' ev where "pipe_read_iter n (flags AND O_NONBLOCK \<noteq> 0) cur pi = (out, pi', ev)"
    by (metis prod_cases3)
  then show ?thesis
    using that pipe_read_iter_ok [OF assms] False by (simp add: pipe_read_def)
qed

lemma pipe_write_step:
  assumes "pipe_inv pi"
  obtains out pi' ev where "pipe_write True True src flags cur (Some pi) = Some (out, Some pi', ev)"
    "pi_bytes pi' = pi_bytes pi @ take (accepted out) src" "pipe_inv pi'"
proof (cases "src = [] \<or> pi_readers pi = 0")
  case True
  then show ?thesis
    using that assms by (cases "src = []") (simp_all add: pipe_write_def)
next
  case False
  obtain out pi' ev where w: "pipe_write_loop (Suc (length src)) src 0
      (flags AND O_NONBLOCK \<noteq> 0) cur pi [] = Some (out, pi', ev)"
    using pipe_write_loop_returns [OF assms, of src 0 "Suc (length src)"] by fastforce
  show ?thesis
  proof (rule that)
    show "pipe_write True True src flags cur (Some pi) = Some (out, Some pi', ev)"
      using w False by (simp add: pipe_write_def del: pipe_write_loop.simps)
  qed (use pipe_write_loop_ok [OF w assms] in auto)
qed

lemma pipe_inv_wait [simp]:
  "pipe_inv (pi\<lparr>pi_read_wait := wq\<rparr>) = pipe_inv pi" "pipe_inv (pi\<lparr>pi_write_wait := wq\<rparr>) = pipe_inv pi"
  by (simp_all add: pipe_inv_def)

lemma pipe_read_resume_step:
  assumes "pipe_inv pi" "pipe_read_resume n nb me sig pi = (out, pi', ev)"
  shows "delivered out @ pi_bytes pi' = pi_bytes pi \<and> pipe_inv pi'"
  using assms pipe_read_iter_ok [of "pi\<lparr>pi_read_wait := remove1 me (pi_read_wait pi)\<rparr>"]
  by (auto simp: pipe_read_resume_def pipe_wait_leave_def Let_def split: if_splits)

lemma pipe_write_resume_step:
  assumes "pipe_inv pi"
  obtains out pi' ev where "pipe_write_resume src w nb me sig pi = Some (out, pi', ev)"
    "pi_bytes pi' = pi_bytes pi @ take (accepted out - w) (drop w src)" "pipe_inv pi'"
proof (cases sig)
  case True
  then show ?thesis
    using that assms by (auto simp: pipe_write_resume_def pipe_wait_leave_def)
next
  case False
  let ?pi = "pi\<lparr>pi_write_wait := remove1 me (pi_write_wait pi)\<rparr>"
  have inv: "pipe_inv ?pi" using assms by simp
  obtain out pi' ev where
    l: "pipe_write_loop (Suc (length src)) src w nb (Some me) ?pi [] = Some (out, pi', ev)"
    using pipe_write_loop_returns [OF inv, of src w "Suc (length src)"] by fastforce
  show ?thesis
  proof (rule that)
    show "pipe_write_resume src w nb me sig pi = Some (out, pi', ev)"
      using l False
      by (simp add: pipe_write_resume_def pipe_wait_leave_def del: pipe_write_loop.simps)
  qed (use pipe_write_loop_ok [OF l inv] in auto)
qed

section \<open>Properties\<close>

text \<open>C1 (stream integrity). Whatever calls run on a pipe, in whatever order, blocking
  or not, interrupted or resumed: every call comes back with a result, and the bytes
  delivered to readers followed by the bytes still in the ring are the bytes that were in
  the ring at the start followed by the bytes the writes accepted. Nothing is lost,
  duplicated or reordered, and the ring stays well formed.\<close>

theorem pipe_stream:
  assumes "pipe_inv pi"
  shows "\<exists>i out pi'. pipe_calls pi cs = Some (i, out, pi') \<and>
    out @ pi_bytes pi' = pi_bytes pi @ i \<and> pipe_inv pi'"
  using assms
proof (induction cs arbitrary: pi)
  case Nil
  then show ?case by simp
next
  case (Cons c cs)
  show ?case
  proof (cases c)
    case (CallRead n flags cur)
    obtain out pi1 ev where s: "pipe_read True True n flags cur (Some pi) = (out, Some pi1, ev)"
      "delivered out @ pi_bytes pi1 = pi_bytes pi" "pipe_inv pi1"
      using pipe_read_step [OF Cons.prems] .
    from Cons.IH [OF s(3)] show ?thesis using s(1,2) by (fastforce simp: CallRead)
  next
    case (CallWrite src flags cur)
    obtain out pi1 ev where
      s: "pipe_write True True src flags cur (Some pi) = Some (out, Some pi1, ev)"
      "pi_bytes pi1 = pi_bytes pi @ take (accepted out) src" "pipe_inv pi1"
      using pipe_write_step [OF Cons.prems] .
    from Cons.IH [OF s(3)] show ?thesis using s(1,2) by (fastforce simp: CallWrite)
  next
    case (ResumeRead n nb me sig)
    obtain out pi1 ev where s: "pipe_read_resume n nb me sig pi = (out, pi1, ev)"
      by (metis prod_cases3)
    note r = pipe_read_resume_step [OF Cons.prems s]
    from Cons.IH [OF conjunct2 [OF r]] show ?thesis using s r by (fastforce simp: ResumeRead)
  next
    case (ResumeWrite src w nb me sig)
    obtain out pi1 ev where s: "pipe_write_resume src w nb me sig pi = Some (out, pi1, ev)"
      "pi_bytes pi1 = pi_bytes pi @ take (accepted out - w) (drop w src)" "pipe_inv pi1"
      using pipe_write_resume_step [OF Cons.prems] .
    from Cons.IH [OF s(3)] show ?thesis using s(1,2) by (fastforce simp: ResumeWrite)
  qed
qed

definition demo_pipe :: pipe_inode where
  "demo_pipe = \<lparr>pi_buf = \<lparr>pb_data = replicate 4096 0, pb_size = 4096, pb_head = 0, pb_tail = 0,
       pb_count = 0\<rparr>, pi_readers = 1, pi_writers = 1, pi_read_wait = [], pi_write_wait = [],
     pi_is_fifo = False, pi_can_read = False, pi_can_write = False\<rparr>"

lemma demo_pipe_inv: "pipe_inv demo_pipe"
proof -
  have "\<exists>k\<in>{..<64}. (4096::nat) = 2 ^ k" by (rule bexI [of _ 12]) simp_all
  then show ?thesis
    by (simp add: demo_pipe_def pipe_inv_def pbuf_inv_def ring_ok_def pbuf_cap_def)
qed

theorem pipe_stream_witness:
  "\<exists>i out pi'. pipe_calls demo_pipe [CallWrite [1, 2, 3] 0 (Some 7), CallRead 2 0 (Some 8)]
     = Some (i, out, pi') \<and> out @ pi_bytes pi' = pi_bytes demo_pipe @ i"
  using pipe_stream [OF demo_pipe_inv] by blast

text \<open>\<^emph>\<open>Atomic writes.\<close> A write of at most \<^verbatim>\<open>PIPE_BUF\<close> = 4096 bytes is all or nothing:
  it either returns its full length with exactly its bytes appended, or leaves the ring
  untouched; and it goes through whenever the room is there.\<close>

theorem pipe_write_atomic:
  assumes "pipe_inv pi" "src \<noteq> []" "length src \<le> 4096" "pi_readers pi \<noteq> 0"
    "pipe_write True True src flags cur (Some pi) = Some (out, Some pi', ev)"
  shows "if length src \<le> pbuf_cap (pi_buf pi) - length (pi_bytes pi)
     then out = WrRet (int (length src)) \<and> pi_bytes pi' = pi_bytes pi @ src
     else accepted out = 0 \<and> pi_buf pi' = pi_buf pi"
proof -
  have "pipe_write_loop (Suc (length src)) src 0 (flags AND O_NONBLOCK \<noteq> 0) cur pi []
      = Some (out, pi', ev)"
    using assms(2,4,5) by (auto simp: pipe_write_def)
  from pipe_write_atomic_loop [OF assms(1-4) this] show ?thesis .
qed

theorem pipe_write_atomic_witness:
  "\<exists>out pi' ev. pipe_write True True [5, 6] 0 (Some 7) (Some demo_pipe) = Some (out, Some pi', ev)
     \<and> out = WrRet 2"
proof -
  obtain out pi' ev where
    s: "pipe_write True True [5, 6] 0 (Some 7) (Some demo_pipe) = Some (out, Some pi', ev)"
    using pipe_write_step [OF demo_pipe_inv] by metis
  have r: "pi_readers demo_pipe \<noteq> 0" by (simp add: demo_pipe_def)
  have c: "(2::nat) \<le> pbuf_cap (pi_buf demo_pipe) - length (pi_bytes demo_pipe)"
    by (simp add: demo_pipe_def pbuf_cap_def pbuf_contents_def)
  show ?thesis using s c pipe_write_atomic [OF demo_pipe_inv _ _ r s] by (auto split: if_splits)
qed

text \<open>\<^emph>\<open>Read.\<close> What \<^verbatim>\<open>pipe_read\<close> does in every situation: bytes available, end of file,
  non-blocking on an empty pipe, and going to sleep.\<close>

theorem pipe_read_behaviour:
  assumes "pipe_inv pi" "0 < n"
  shows "case pipe_read True True n flags (Some me) (Some pi) of (out, pi', ev) \<Rightarrow>
    if pi_bytes pi \<noteq> []
    then out = RdRet (int (min n (length (pi_bytes pi)))) (take n (pi_bytes pi)) \<and>
         map_option pi_bytes pi' = Some (drop n (pi_bytes pi)) \<and>
         ev = map SchedWakeUp (pi_write_wait pi)
    else if pi_writers pi = 0 then out = RdRet 0 [] \<and> pi' = Some pi
    else if flags AND O_NONBLOCK \<noteq> 0 then out = RdRet (- EAGAIN) [] \<and> pi' = Some pi
    else out = RdSleep \<and> pi' = Some (pi\<lparr>pi_read_wait := pi_read_wait pi @ [me]\<rparr>)"
proof -
  obtain xs b where r: "pbuf_read (pi_buf pi) n = (xs, b)" by fastforce
  have inv: "pbuf_inv (pi_buf pi)" using assms(1) by (simp add: pipe_inv_def)
  show ?thesis
    using pbuf_read_ok [OF inv r] assms(2) r
    by (auto simp: pipe_read_def pipe_read_iter_def pbuf_count_zero pipe_wait_enter_def
        pipe_wake_writers_def pipe_wake_queue_def min.commute)
qed

theorem pipe_read_behaviour_witness:
  "case pipe_read True True 4 0 (Some 9) (Some demo_pipe) of (out, pi', ev) \<Rightarrow> out = RdSleep"
  using pipe_read_behaviour [OF demo_pipe_inv, of 4 0 9]
  by (simp add: demo_pipe_def pbuf_contents_def ring_contents_def split: prod.splits)

text \<open>With no reader left, a write of at least one byte moves no data,
  sends \<^verbatim>\<open>SIGPIPE\<close> to the writer and returns \<^verbatim>\<open>-EPIPE\<close>.\<close>

theorem pipe_write_epipe:
  assumes "src \<noteq> []" "pi_readers pi = 0"
  shows "pipe_write True True src flags (Some me) (Some pi)
    = Some (WrRet (- EPIPE), Some pi, [SendSignal me SIGPIPE])"
  using assms by (simp add: pipe_write_def sigpipe_def)

theorem pipe_write_epipe_witness:
  "pipe_write True True [1] 0 (Some 3) (Some (demo_pipe\<lparr>pi_readers := 0\<rparr>))
    = Some (WrRet (- EPIPE), Some (demo_pipe\<lparr>pi_readers := 0\<rparr>), [SendSignal 3 SIGPIPE])"
  by (rule pipe_write_epipe) simp_all

text \<open>\<^emph>\<open>Allocation.\<close> For every request of at most \<open>2 ^ 63\<close> bytes the rounding loop of
  \<^verbatim>\<open>pipe_alloc\<close> ends, and the pipe it returns is empty and well formed, with a capacity
  that is a power of two between a page and \<^verbatim>\<open>PIPE_MAX_SIZE\<close> and at least the request
  where the limit allows it.\<close>

theorem pipe_alloc_correct:
  assumes "buf_size \<le> 2 ^ 63"
  shows "\<exists>pi. pipe_alloc True (Some bytes) buf_size = Some (Some pi) \<and> pipe_inv pi \<and>
    pi_bytes pi = [] \<and> pbuf_cap (pi_buf pi) \<le> 2 ^ 20 \<and>
    min (unat buf_size) (2 ^ 20) \<le> pbuf_cap (pi_buf pi)"
proof -
  obtain j where j: "12 \<le> j" "j < 64" "pipe_round_up 64 4096 buf_size = Some (2 ^ j)"
    "buf_size \<le> 2 ^ j"
    using pipe_round_up_pow2 [OF assms, of 12 64] by auto
  have unat_pow: "unat ((2::u64) ^ j) = 2 ^ j"
    using j(2) by (intro unat_exp_word) simp
  let ?sz = "if PIPE_MAX_SIZE < (2::u64) ^ j then PIPE_MAX_SIZE else 2 ^ j"
  have sz: "unat ?sz = 2 ^ min j 20"
  proof (cases "j \<le> 20")
    case True
    then have "(2::nat) ^ j \<le> 2 ^ 20" by (intro power_increasing) auto
    then show ?thesis using True unat_pow by (simp add: word_less_nat_alt min_def)
  next
    case False
    then have "(2::nat) ^ 20 < 2 ^ j" by (intro power_strict_increasing) auto
    then show ?thesis using False unat_pow by (simp add: word_less_nat_alt min_def)
  qed
  have ge: "(4096::nat) \<le> 2 ^ min j 20"
    using j(1) power_increasing [of 12 "min j 20" "2::nat"] by simp
  have le: "(2::nat) ^ min j 20 \<le> 2 ^ 20" by (intro power_increasing) auto
  have bs: "min (unat buf_size) (2 ^ 20) \<le> (2::nat) ^ min j 20"
    using j(4) unat_pow by (cases "j \<le> 20") (auto simp: word_le_nat_alt min_def)
  have pow: "\<exists>k\<in>{..<64}. unat ?sz = 2 ^ k" using sz j(2) by (intro bexI [of _ "min j 20"]) auto
  show ?thesis
    using sz ge le bs pow
    by (auto simp: pipe_alloc_def j(3) Let_def pipe_inv_def pbuf_inv_def pbuf_cap_def
        pbuf_contents_def ring_contents_def ring_ok_def)
qed

theorem pipe_alloc_correct_witness:
  "\<exists>pi. pipe_alloc True (Some (\<lambda>_. 0)) PIPE_BUF_SIZE = Some (Some pi) \<and> pipe_inv pi"
  using pipe_alloc_correct [of PIPE_BUF_SIZE "\<lambda>_. 0"] by auto


lemma do_pipe_success:
  assumes "files_inv fs" "get_unused_fd fs = (rfd, fs1)" "0 \<le> rfd"
    "get_unused_fd (fd_install rfd r fs1) = (wfd, fs3)" "0 \<le> wfd"
  shows "rfd \<noteq> wfd" "fd_files fs ! nat rfd = None" "fd_files fs ! nat wfd = None"
    "fd_files (fd_install wfd w fs3) = (fd_files fs)[nat rfd := Some r, nat wfd := Some w]"
    "files_inv (fd_install wfd w fs3)"
proof -
  have inv1: "files_inv (fd_install rfd r fs1)"
    using get_unused_fd_inv [OF assms(1,2)] by (rule fd_install_inv)
  note a = get_unused_fd_free [OF assms(1-3)] and b = get_unused_fd_free [OF inv1 assms(4,5)]
  have slots: "fd_files (fd_install rfd r fs1) = (fd_files fs)[nat rfd := Some r]"
    using a by (simp add: fd_files_install)
  show ne: "rfd \<noteq> wfd" using slots a b(3) by auto
  then have "nat rfd \<noteq> nat wfd" using assms(3,5) by (simp add: nat_eq_iff)
  then show "fd_files fs ! nat wfd = None" using slots b(3) by simp
  show "fd_files fs ! nat rfd = None" by (rule a(3))
  show "fd_files (fd_install wfd w fs3) = (fd_files fs)[nat rfd := Some r, nat wfd := Some w]"
    using b slots by (simp add: fd_files_install)
  show "files_inv (fd_install wfd w fs3)"
    using get_unused_fd_inv [OF inv1 assms(4)] by (rule fd_install_inv)
qed

lemma do_pipe_rollback:
  assumes "files_inv fs" "get_unused_fd fs = (rfd, fs1)" "0 \<le> rfd"
    "get_unused_fd (fd_install rfd r fs1) = (wfd, fs3)" "wfd < 0"
    "do_close rfd fs3 (st(r \<mapsto> 1, w \<mapsto> 1)) = (e, fs4, st2)" "r \<noteq> w" "st r = None" "st w = None"
  shows "fd_files fs4 = fd_files fs" "st2(w := None) = st" "files_inv fs4"
proof -
  have inv1: "files_inv (fd_install rfd r fs1)"
    using get_unused_fd_inv [OF assms(1,2)] by (rule fd_install_inv)
  note a = get_unused_fd_free [OF assms(1-3)]
  have fs3: "fs3 = fd_install rfd r fs1"
    using get_unused_fd_cases [OF inv1] assms(4,5) by auto
  have rng: "fd_in_range rfd fs3" using a(2) by (simp add: fs3 fd_install_def fd_in_range_def)
  have slots: "fd_files fs3 = (fd_files fs)[nat rfd := Some r]"
    using a by (simp add: fs3 fd_files_install)
  have "fd_files fs4 = (fd_files fs)[nat rfd := None]"
    using fd_files_close [OF rng assms(6)] slots by simp
  also have "\<dots> = fd_files fs" using a by (metis list_update_id)
  finally show "fd_files fs4 = fd_files fs" .
  have "fe_file (fd_array fs3 ! nat rfd) = Some r"
    using slots a(1,5) assms(3) by (metis fd_files_def length_list_update length_map nat_less_iff
        nth_list_update_eq nth_map of_nat_numeral)
  then have "e = 0 \<and> st2 = fput (Some r) (st(r \<mapsto> 1, w \<mapsto> 1))"
    using assms(6) rng by (simp add: do_close_def)
  then show "st2(w := None) = st" using assms(7-9) by (auto simp: fput_def)
  show "files_inv fs4" using do_close_inv [OF _ assms(6)] inv1 fs3 by simp
qed

text \<open>\<^emph>\<open>Creation.\<close> With the memory there, \<^verbatim>\<open>do_pipe\<close> either succeeds, with two different
  descriptors that were free before, the read end in the first and the write end in the
  second, every other slot unchanged and one reader and one writer on the pipe; or it
  answers \<^verbatim>\<open>-EMFILE\<close> and takes everything back: the same files in the same slots, the same
  reference counts, no pipe left.\<close>

theorem do_pipe_correct:
  assumes "files_inv fs" "r \<noteq> w" "st r = None" "st w = None"
  shows "case do_pipe (Some p) (Some r) (Some w) (Some fs) st flags of m \<Rightarrow>
    \<exists>fs'. pm_files m = Some fs' \<and> files_inv fs' \<and>
    (if pm_ret m = 0
     then \<exists>rfd wfd. pm_fds m = Some (rfd, wfd) \<and> rfd \<noteq> wfd \<and>
            fd_files fs ! nat rfd = None \<and> fd_files fs ! nat wfd = None \<and>
            fd_files fs' = (fd_files fs)[nat rfd := Some r, nat wfd := Some w] \<and>
            pm_pipe m = Some (p\<lparr>pi_readers := 1, pi_writers := 1\<rparr>) \<and>
            pm_store m = st(r \<mapsto> 1, w \<mapsto> 1)
     else pm_ret m = - EMFILE \<and> pm_fds m = None \<and> fd_files fs' = fd_files fs \<and>
          pm_store m = st \<and> pm_pipe m = None)"
proof -
  obtain rfd fs1 where g1: "get_unused_fd fs = (rfd, fs1)" by fastforce
  obtain wfd fs3 where g2: "get_unused_fd (fd_install rfd r fs1) = (wfd, fs3)" by fastforce
  obtain e fs4 st2 where c: "do_close rfd fs3 (st(r \<mapsto> 1, w \<mapsto> 1)) = (e, fs4, st2)"
    by (metis prod_cases3)
  show ?thesis
  proof (cases "rfd < 0")
    case True
    then have "fs1 = fs" using get_unused_fd_cases [OF assms(1)] g1 by auto
    then show ?thesis
      using True g1 assms by (auto simp: do_pipe_def pipe_fail_def Let_def)
  next
    case False
    then show ?thesis
      using g1 g2 c do_pipe_success [OF assms(1) g1 _ g2] do_pipe_rollback [OF assms(1) g1 _ g2 _ c]
        assms(2-4)
      by (cases "wfd < 0") (auto simp: do_pipe_def pipe_fail_def Let_def)
  qed
qed

theorem do_pipe_correct_witness:
  "\<exists>fs. files_alloc True = Some fs \<and>
     (let m = do_pipe (Some demo_pipe) (Some 10) (Some 11) (Some fs) Map.empty 0
      in pm_ret m = 0 \<or> pm_ret m = - EMFILE)"
proof -
  obtain fs where fs: "files_alloc True = Some fs" by (simp add: files_alloc_def)
  show ?thesis
    using fs do_pipe_correct [OF files_alloc_inv [OF fs], of 10 11 Map.empty demo_pipe 0]
    by (auto simp: Let_def split: if_splits)
qed

text \<open>\<^verbatim>\<open>pipe2\<close> accepts \<^verbatim>\<open>O_CLOEXEC\<close> but no path of \<^verbatim>\<open>do_pipe\<close> ever
  marks the new descriptors close-on-exec: the table's bitmap is the one it was, whatever
  the flags, on success.\<close>

theorem sys_pipe2_cloexec_ignored:
  assumes "pm_ret (sys_pipe2 True flags pi krf kwf (Some fs) st) = 0"
  shows "map_option close_on_exec (pm_files (sys_pipe2 True flags pi krf kwf (Some fs) st))
    = Some (close_on_exec fs)"
proof -
  have "do_pipe pi krf kwf (Some fs) st flags = m \<Longrightarrow> pm_ret m = 0 \<Longrightarrow>
      map_option close_on_exec (pm_files m) = Some (close_on_exec fs)" for m
    by (auto simp: do_pipe_def pipe_fail_def Let_def split: if_splits option.splits prod.splits)
  then show ?thesis using assms by (simp add: sys_pipe2_def pipe_fail_def split: if_splits)
qed

theorem sys_pipe2_cloexec_ignored_witness:
  "\<exists>fs. files_alloc True = Some fs \<and>
     map_option close_on_exec
       (pm_files (sys_pipe2 True 0x80000 (Some demo_pipe) (Some 10) (Some 11) (Some fs) Map.empty))
     = Some 0"
proof -
  obtain fs where fs: "files_alloc True = Some fs" by (simp add: files_alloc_def)
  have "close_on_exec fs = 0" using fs by (auto simp: files_alloc_def)
  moreover have "pm_ret (sys_pipe2 True 0x80000 (Some demo_pipe) (Some 10) (Some 11) (Some fs)
      Map.empty) = 0"
    using fs
    by (auto simp: files_alloc_def sys_pipe2_def do_pipe_def get_unused_fd_def fd_install_def
        find_free_fd.simps [of _ 0 64] find_free_fd.simps [of _ "Suc 0" 64] fd_empty_def
        fd_in_range_def Let_def)
  ultimately show ?thesis
    using fs sys_pipe2_cloexec_ignored [of "0x80000" "Some demo_pipe" "Some 10" "Some 11" fs]
    by auto
qed

text \<open>Releasing one end: closing one end takes one off its count and wakes the other side; the
  pipe is freed exactly when that was the last end of both kinds, and is otherwise
  unchanged.\<close>

lemma pipe_release:
  shows "pipe_write_release (Some pi) =
      ((if pi_readers pi = 0 \<and> pi_writers pi = 1 then None
        else Some (pi\<lparr>pi_writers := pi_writers pi - 1\<rparr>)), map SchedWakeUp (pi_read_wait pi))"
    and "pipe_read_release (Some pi) =
      ((if pi_readers pi = 1 \<and> pi_writers pi = 0 then None
        else Some (pi\<lparr>pi_readers := pi_readers pi - 1\<rparr>)), map SchedWakeUp (pi_write_wait pi))"
  by (auto simp: pipe_write_release_def pipe_read_release_def pipe_wake_readers_def
      pipe_wake_writers_def pipe_wake_queue_def Let_def)

end
