(* ===== verification/Signal.thy ===== *)
theory Signal
  imports Prelude
begin

text \<open>
  Signals: the sets of \<^verbatim>\<open>kernel/signal.c\<close>, the pending bitmap and the queue of a task,
  sending (\<^verbatim>\<open>__send_signal\<close> with its queue, and the bitmap-only \<^verbatim>\<open>send_signal\<close> of
  \<^verbatim>\<open>kernel/process.c\<close> that the system calls reach), the handler tables and the system
  calls that read and change them. A task is looked up in the task table by its number;
  the kernel's calls into the scheduler are recorded as the list of tasks enqueued.
\<close>

section \<open>Signal sets\<close>

record sigset =
  sg0 :: u64
  sg1 :: u64

abbreviation (input) NSIG :: int where "NSIG \<equiv> 64"
abbreviation (input) SIGKILL :: int where "SIGKILL \<equiv> 9"
abbreviation (input) SIGSTOP :: int where "SIGSTOP \<equiv> 19"
abbreviation (input) SIGRTMIN :: int where "SIGRTMIN \<equiv> 34"

text \<open>\<^verbatim>\<open>set->sig[i]\<close>, read and updated; the index is 0 or 1.\<close>

definition sig_word :: "sigset \<Rightarrow> nat \<Rightarrow> u64" where
  "sig_word s i = (if i = 0 then sg0 s else sg1 s)"

definition upd_sig_word :: "nat \<Rightarrow> (u64 \<Rightarrow> u64) \<Rightarrow> sigset \<Rightarrow> sigset" where
  "upd_sig_word i f s = (if i = 0 then s\<lparr>sg0 := f (sg0 s)\<rparr> else s\<lparr>sg1 := f (sg1 s)\<rparr>)"

definition sigemptyset :: sigset where
  "sigemptyset = \<lparr>sg0 = 0, sg1 = 0\<rparr>"

definition sigfillset :: sigset where
  "sigfillset = \<lparr>sg0 = NOT 0, sg1 = NOT 0\<rparr>"

definition sigaddset :: "sigset \<Rightarrow> int \<Rightarrow> sigset" where
  "sigaddset s sig =
     (if sig < 1 \<or> NSIG < sig then s
      else let k = nat (sig - 1) in upd_sig_word (k div 64) (\<lambda>w. w OR push_bit (k mod 64) 1) s)"

definition sigdelset :: "sigset \<Rightarrow> int \<Rightarrow> sigset" where
  "sigdelset s sig =
     (if sig < 1 \<or> NSIG < sig then s
      else let k = nat (sig - 1) in upd_sig_word (k div 64) (\<lambda>w. w AND NOT (push_bit (k mod 64) 1)) s)"

definition sigismember :: "sigset \<Rightarrow> int \<Rightarrow> bool" where
  "sigismember s sig \<longleftrightarrow>
     (if sig < 1 \<or> NSIG < sig then False
      else let k = nat (sig - 1) in sig_word s (k div 64) AND push_bit (k mod 64) 1 \<noteq> 0)"

definition sigisemptyset :: "sigset \<Rightarrow> bool" where
  "sigisemptyset s \<longleftrightarrow> sg0 s = 0 \<and> sg1 s = 0"

definition sigorset :: "sigset \<Rightarrow> sigset \<Rightarrow> sigset" where
  "sigorset a b = \<lparr>sg0 = sg0 a OR sg0 b, sg1 = sg1 a OR sg1 b\<rparr>"

definition sigandset :: "sigset \<Rightarrow> sigset \<Rightarrow> sigset" where
  "sigandset a b = \<lparr>sg0 = sg0 a AND sg0 b, sg1 = sg1 a AND sg1 b\<rparr>"

definition signandset :: "sigset \<Rightarrow> sigset \<Rightarrow> sigset" where
  "signandset a b = \<lparr>sg0 = sg0 a AND NOT (sg0 b), sg1 = sg1 a AND NOT (sg1 b)\<rparr>"

text \<open>The loop over the two words of the set.\<close>

fun next_signal_from :: "sigset \<Rightarrow> nat list \<Rightarrow> int" where
  "next_signal_from avail [] = 0"
| "next_signal_from avail (w # ws) =
     (if sig_word avail w \<noteq> 0 then int (w * 64 + ctz64 (sig_word avail w) + 1)
      else next_signal_from avail ws)"

definition next_signal :: "sigset \<Rightarrow> sigset \<Rightarrow> int" where
  "next_signal pending blocked = next_signal_from (signandset pending blocked) [0, 1]"

section \<open>Default actions\<close>

datatype sig_default_action = SIG_ACT_TERM | SIG_ACT_CORE | SIG_ACT_STOP | SIG_ACT_CONT | SIG_ACT_IGN

text \<open>The table is zero, that is \<^verbatim>\<open>SIG_ACT_TERM\<close>, where it has no entry.\<close>

definition sig_default :: "int \<Rightarrow> sig_default_action" where
  "sig_default sig =
     (if sig \<in> {3, 4, 5, 6, 7, 8, 11, 24, 25, 31} then SIG_ACT_CORE
      else if sig \<in> {17, 23, 28} then SIG_ACT_IGN
      else if sig = 18 then SIG_ACT_CONT
      else if sig \<in> {19, 20, 21, 22} then SIG_ACT_STOP
      else SIG_ACT_TERM)"

section \<open>Tasks, as far as signals see them\<close>

datatype task_state = TASK_RUNNING | TASK_INTERRUPTIBLE | TASK_UNINTERRUPTIBLE | TASK_STOPPED
  | TASK_TRACED | TASK_DEAD | TASK_ZOMBIE | TASK_PARKED | TASK_IDLE

record siginfo =
  si_signo :: int
  si_errno :: int
  si_code :: int
  si_payload :: "u8 list"

record sigaction =
  sa_handler :: u64
  sa_flags :: u64
  sa_mask :: sigset

record sighand_struct =
  sh_count :: int
  sh_action :: "sigaction list"

record sigtask =
  t_pid :: int
  t_state :: task_state
  t_on_rq :: bool
  t_pending :: sigset
  t_queue :: "siginfo list"
  t_blocked :: sigset
  t_pgrp :: "int option"
  t_sighand :: "sighand_struct option"

definition sigaction_dfl :: sigaction where
  "sigaction_dfl = \<lparr>sa_handler = 0, sa_flags = 0, sa_mask = \<lparr>sg0 = 0, sg1 = 0\<rparr>\<rparr>"

definition sighand_alloc :: "bool \<Rightarrow> sighand_struct option" where
  "sighand_alloc mem_ok =
     (if \<not> mem_ok then None
      else Some \<lparr>sh_count = 1, sh_action = replicate 64 sigaction_dfl\<rparr>)"

definition sighand_copy :: "bool \<Rightarrow> sighand_struct \<Rightarrow> sighand_struct option" where
  "sighand_copy mem_ok old =
     map_option (\<lambda>sh. sh\<lparr>sh_action := sh_action old\<rparr>) (sighand_alloc mem_ok)"

definition sighand_put :: "sighand_struct option \<Rightarrow> sighand_struct option" where
  "sighand_put sh =
     (case sh of None \<Rightarrow> None
      | Some h \<Rightarrow> if sh_count h - 1 = 0 then None else Some (h\<lparr>sh_count := sh_count h - 1\<rparr>))"

section \<open>Sending\<close>

text \<open>\<^verbatim>\<open>sched_enqueue_task\<close> does nothing for a task that is on a queue already; the
  Boolean says whether the task was enqueued.\<close>

definition sched_enqueue :: "sigtask \<Rightarrow> sigtask \<times> bool" where
  "sched_enqueue t = (if t_on_rq t then (t, False) else (t\<lparr>t_on_rq := True\<rparr>, True))"

definition wake_up_process :: "sigtask \<Rightarrow> sigtask \<times> bool" where
  "wake_up_process t = sched_enqueue (t\<lparr>t_state := TASK_RUNNING\<rparr>)"

definition sig_already_pending :: "sigtask \<Rightarrow> int \<Rightarrow> bool" where
  "sig_already_pending t sig = sigismember (t_pending t) sig"

abbreviation (input) SI_KERNEL :: int where "SI_KERNEL \<equiv> 128"

definition kernel_siginfo :: "int \<Rightarrow> siginfo" where
  "kernel_siginfo sig =
     \<lparr>si_signo = sig, si_errno = 0, si_code = SI_KERNEL, si_payload = replicate 116 0\<rparr>"

text \<open>\<^verbatim>\<open>__send_signal\<close>: \<open>mem_ok\<close> is the answer of the allocator for the queue entry. The
  result is the return value, the task and whether it was handed to the scheduler.\<close>

definition send_signal_queued ::
  "bool \<Rightarrow> sigtask \<Rightarrow> int \<Rightarrow> siginfo option \<Rightarrow> int \<times> sigtask \<times> bool" where
  "send_signal_queued mem_ok t sig info =
     (if sig < 1 \<or> NSIG < sig then (- EINVAL, t, False)
      else if sig < SIGRTMIN \<and> sig_already_pending t sig then (0, t, False)
      else
        let entry = (case info of Some i \<Rightarrow> i | None \<Rightarrow> kernel_siginfo sig);
            t1 = (if mem_ok then t\<lparr>t_queue := t_queue t @ [entry]\<rparr> else t);
            t2 = t1\<lparr>t_pending := sigaddset (t_pending t1) sig\<rparr> in
        if t_state t2 = TASK_INTERRUPTIBLE
        then (case sched_enqueue (t2\<lparr>t_state := TASK_RUNNING\<rparr>) of (t3, e) \<Rightarrow> (0, t3, e))
        else (0, t2, False))"

type_synonym task_table = "sigtask option list"

text \<open>\<^verbatim>\<open>find_task_by_pid\<close>, as the index of the first entry with that number.\<close>

fun find_task_by_pid :: "task_table \<Rightarrow> int \<Rightarrow> nat option" where
  "find_task_by_pid [] pid = None"
| "find_task_by_pid (e # es) pid =
     (case e of Some t \<Rightarrow> if t_pid t = pid then Some 0 else map_option Suc (find_task_by_pid es pid)
      | None \<Rightarrow> map_option Suc (find_task_by_pid es pid))"

definition signal_pending :: "sigtask \<Rightarrow> bool" where
  "signal_pending t \<longleftrightarrow> sg0 (t_pending t) \<noteq> 0 \<or> sg1 (t_pending t) \<noteq> 0"

definition set_pending :: "sigtask \<Rightarrow> int \<Rightarrow> sigtask" where
  "set_pending t sig =
     t\<lparr>t_pending :=
        (if sig \<le> 64 then upd_sig_word 0 (\<lambda>w. w OR push_bit (nat (sig - 1)) 1) (t_pending t)
         else upd_sig_word 1 (\<lambda>w. w OR push_bit (nat (sig - 65)) 1) (t_pending t))\<rparr>"

text \<open>\<^verbatim>\<open>send_signal\<close>: the return value, the table and the numbers of the tasks handed to
  the scheduler.\<close>

definition send_signal :: "task_table \<Rightarrow> int \<Rightarrow> int \<Rightarrow> int \<times> task_table \<times> int list" where
  "send_signal tab pid sig =
     (case find_task_by_pid tab pid of None \<Rightarrow> (- ESRCH, tab, [])
      | Some i \<Rightarrow>
          if sig < 1 \<or> NSIG < sig then (- EINVAL, tab, [])
          else
            let t1 = set_pending (the (tab ! i)) sig in
            if t_state t1 = TASK_INTERRUPTIBLE
            then (case wake_up_process t1 of
                    (t2, e) \<Rightarrow> (0, tab[i := Some t2], if e then [pid] else []))
            else (0, tab[i := Some t1], []))"

definition send_signal_info :: "task_table \<Rightarrow> int \<Rightarrow> int \<Rightarrow> int \<times> task_table \<times> int list" where
  "send_signal_info tab pid sig = send_signal tab pid sig"

section \<open>System calls\<close>

definition sys_kill :: "task_table \<Rightarrow> int \<Rightarrow> int \<Rightarrow> int \<times> task_table \<times> int list" where
  "sys_kill tab pid sig =
     (if sig < 0 \<or> NSIG \<le> sig then (- EINVAL, tab, []) else send_signal_info tab pid sig)"

definition sys_tkill :: "task_table \<Rightarrow> int \<Rightarrow> int \<Rightarrow> int \<times> task_table \<times> int list" where
  "sys_tkill tab tid sig = sys_kill tab tid sig"

definition sys_tgkill :: "task_table \<Rightarrow> int \<Rightarrow> int \<Rightarrow> int \<Rightarrow> int \<times> task_table \<times> int list" where
  "sys_tgkill tab tgid tid sig = sys_kill tab tid sig"

text \<open>The calls below act on the current task, \<open>None\<close> when there is none. The second
  component of the result is what is stored through the pointer of the caller, if anything.\<close>

definition sys_rt_sigaction ::
  "sigtask option \<Rightarrow> int \<Rightarrow> sigaction option \<Rightarrow> bool \<Rightarrow> int \<times> sigaction option \<times> sigtask option" where
  "sys_rt_sigaction cur sig act oact =
     (if sig \<le> 0 \<or> NSIG \<le> sig then (- EINVAL, None, cur)
      else (case cur of None \<Rightarrow> (- ESRCH, None, cur)
            | Some t \<Rightarrow>
                (case t_sighand t of None \<Rightarrow> (- ESRCH, None, cur)
                 | Some sh \<Rightarrow>
                     (0, (if oact then Some (sh_action sh ! nat sig) else None),
                      Some (case act of None \<Rightarrow> t
                            | Some a \<Rightarrow>
                                t\<lparr>t_sighand := Some (sh\<lparr>sh_action := (sh_action sh)[nat sig := a]\<rparr>)\<rparr>)))))"

abbreviation (input) SIG_BLOCK :: int where "SIG_BLOCK \<equiv> 0"
abbreviation (input) SIG_UNBLOCK :: int where "SIG_UNBLOCK \<equiv> 1"
abbreviation (input) SIG_SETMASK :: int where "SIG_SETMASK \<equiv> 2"

definition sys_rt_sigprocmask ::
  "sigtask option \<Rightarrow> int \<Rightarrow> sigset option \<Rightarrow> bool \<Rightarrow> int \<times> sigset option \<times> sigtask option" where
  "sys_rt_sigprocmask cur how set_p oset =
     (case cur of None \<Rightarrow> (- ESRCH, None, cur)
      | Some t \<Rightarrow>
          let old = (if oset then Some (t_blocked t) else None) in
          (case set_p of None \<Rightarrow> (0, old, cur)
           | Some s \<Rightarrow>
               if how = SIG_BLOCK then (0, old, Some (t\<lparr>t_blocked := sigorset (t_blocked t) s\<rparr>))
               else if how = SIG_UNBLOCK
               then (0, old, Some (t\<lparr>t_blocked := signandset (t_blocked t) s\<rparr>))
               else if how = SIG_SETMASK then (0, old, Some (t\<lparr>t_blocked := s\<rparr>))
               else (- EINVAL, old, cur)))"

definition sys_rt_sigpending :: "sigtask option \<Rightarrow> bool \<Rightarrow> int \<times> sigset option" where
  "sys_rt_sigpending cur set_ok =
     (case cur of None \<Rightarrow> (- EFAULT, None)
      | Some t \<Rightarrow> if \<not> set_ok then (- EFAULT, None)
                  else (0, Some (signandset (t_pending t) (t_blocked t))))"

definition sys_pause :: "sigtask option \<Rightarrow> int \<times> sigtask option" where
  "sys_pause cur = (- EINTR, map_option (\<lambda>t. t\<lparr>t_state := TASK_INTERRUPTIBLE\<rparr>) cur)"

definition do_signal :: "sigtask option \<Rightarrow> sigtask option" where
  "do_signal cur = map_option (\<lambda>t. t\<lparr>t_pending := \<lparr>sg0 = 0, sg1 = 0\<rparr>\<rparr>) cur"


section \<open>The set a pair of words stands for\<close>

definition sigset_abs :: "sigset \<Rightarrow> int set" where
  "sigset_abs s = {n. sigismember s n}"

lemma sigismember_bit:
  "sigismember s sig \<longleftrightarrow> 1 \<le> sig \<and> sig \<le> 64 \<and> bit (sg0 s) (nat (sig - 1))"
proof (cases "1 \<le> sig \<and> sig \<le> 64")
  case True
  then have "nat (sig - 1) div 64 = 0" "nat (sig - 1) mod 64 = nat (sig - 1)" by auto
  then show ?thesis
    using True by (auto simp: sigismember_def sig_word_def and_exp_eq_0_iff_not_bit)
next
  case False
  then show ?thesis by (auto simp: sigismember_def)
qed

lemma sigaddset_sg0:
  "1 \<le> sig \<Longrightarrow> sig \<le> 64 \<Longrightarrow> sigaddset s sig = s\<lparr>sg0 := sg0 s OR 2 ^ nat (sig - 1)\<rparr>"
  by (simp add: sigaddset_def upd_sig_word_def)

lemma sigdelset_sg0:
  "1 \<le> sig \<Longrightarrow> sig \<le> 64 \<Longrightarrow> sigdelset s sig = s\<lparr>sg0 := sg0 s AND NOT (2 ^ nat (sig - 1))\<rparr>"
  by (simp add: sigdelset_def upd_sig_word_def)

lemma sigismember_add: "sigismember (sigaddset s sig) n \<longleftrightarrow> sigismember s n \<or> (n = sig \<and> 1 \<le> n \<and> n \<le> 64)"
proof (cases "1 \<le> sig \<and> sig \<le> 64")
  case True
  then show ?thesis by (auto simp: sigaddset_sg0 sigismember_bit bit_or_exp nat_eq_iff2)
next
  case False
  then show ?thesis by (auto simp: sigaddset_def)
qed

lemma sigismember_del: "sigismember (sigdelset s sig) n \<longleftrightarrow> sigismember s n \<and> n \<noteq> sig"
proof (cases "1 \<le> sig \<and> sig \<le> 64")
  case True
  then show ?thesis by (auto simp: sigdelset_sg0 sigismember_bit bit_and_not_exp nat_eq_iff2)
next
  case False
  then show ?thesis by (auto simp: sigdelset_def sigismember_bit)
qed

lemma sigismember_ops:
  "sigismember (sigorset a b) n \<longleftrightarrow> sigismember a n \<or> sigismember b n"
  "sigismember (sigandset a b) n \<longleftrightarrow> sigismember a n \<and> sigismember b n"
  "sigismember (signandset a b) n \<longleftrightarrow> sigismember a n \<and> \<not> sigismember b n"
  by (auto simp: sigismember_bit sigorset_def sigandset_def signandset_def bit_simps)

text \<open>All 128 bits of the representation, numbered as signals are.\<close>

definition sig_bit :: "sigset \<Rightarrow> nat \<Rightarrow> bool" where
  "sig_bit s n \<longleftrightarrow> 1 \<le> n \<and> n \<le> 128 \<and> bit (sig_word s ((n - 1) div 64)) ((n - 1) mod 64)"

lemma sig_bit_word0: "1 \<le> n \<Longrightarrow> n \<le> 64 \<Longrightarrow> sig_bit s n \<longleftrightarrow> bit (sg0 s) (n - 1)"
  by (simp add: sig_bit_def sig_word_def)

lemma sig_bit_word1:
  assumes "64 < n" "n \<le> 128"
  shows "sig_bit s n \<longleftrightarrow> bit (sg1 s) (n - 65)"
proof -
  define k where "k = n - 65"
  then have n: "n = 65 + k" "k < 64" using assms by auto
  then have "(n - 1) div 64 = Suc (k div 64)" "(n - 1) mod 64 = k mod 64" by simp_all
  then show ?thesis using n by (simp add: sig_bit_def sig_word_def)
qed

lemma sig_bit_range: "sig_bit s n \<Longrightarrow> 1 \<le> n \<and> n \<le> 128"
  by (simp add: sig_bit_def)

lemma sig_bit_nand: "sig_bit (signandset p b) n \<longleftrightarrow> sig_bit p n \<and> \<not> sig_bit b n"
  by (auto simp: sig_bit_def sig_word_def signandset_def bit_simps)



text \<open>The least available signal, or none.\<close>

definition is_next :: "sigset \<Rightarrow> int \<Rightarrow> bool" where
  "is_next avail r \<longleftrightarrow>
     (if \<exists>n. sig_bit avail n then sig_bit avail (nat r) \<and> 0 < r \<and> (\<forall>n<nat r. \<not> sig_bit avail n)
      else r = 0)"

lemma is_nextI:
  "sig_bit avail r \<Longrightarrow> (\<And>n. n < r \<Longrightarrow> \<not> sig_bit avail n) \<Longrightarrow> is_next avail (int r)"
  using sig_bit_range [of avail r] by (auto simp: is_next_def)

lemma next_signal_from_is_next: "is_next s (next_signal_from s [0, 1])"
proof -
  consider "sg0 s \<noteq> 0" | "sg0 s = 0" "sg1 s \<noteq> 0" | "sg0 s = 0" "sg1 s = 0" by blast
  then show ?thesis
  proof cases
    case 1
    note c = ctz64_correct [OF 1]
    have "is_next s (int (ctz64 (sg0 s) + 1))"
    proof (rule is_nextI)
      show "sig_bit s (ctz64 (sg0 s) + 1)" using c(1,2) by (simp add: sig_bit_word0)
      fix n assume "n < ctz64 (sg0 s) + 1"
      then show "\<not> sig_bit s n" using c(1) c(3) [of "n - 1"]
        by (cases "n = 0") (auto simp: sig_bit_word0 dest: sig_bit_range)
    qed
    then show ?thesis using 1 by (simp add: sig_word_def)
  next
    case 2
    note c = ctz64_correct [OF 2(2)]
    have "is_next s (int (ctz64 (sg1 s) + 65))"
    proof (rule is_nextI)
      show "sig_bit s (ctz64 (sg1 s) + 65)" using c(1,2) by (simp add: sig_bit_word1)
      fix n assume n: "n < ctz64 (sg1 s) + 65"
      show "\<not> sig_bit s n"
      proof (cases "n \<le> 64")
        case True
        then show ?thesis using 2(1) by (cases "n = 0") (auto simp: sig_bit_word0 dest: sig_bit_range)
      next
        case False
        then show ?thesis using c(1) c(3) [of "n - 65"] n by (auto simp: sig_bit_word1)
      qed
    qed
    then show ?thesis using 2 by (simp add: sig_word_def add.commute)
  next
    case 3
    then have "\<not> sig_bit s n" for n by (auto simp: sig_bit_def sig_word_def)
    then show ?thesis using 3 by (simp add: is_next_def sig_word_def)
  qed
qed

section \<open>The task table\<close>

lemma find_task_by_pid_Some:
  "find_task_by_pid tab pid = Some i \<Longrightarrow>
     i < length tab \<and> (\<exists>t. tab ! i = Some t \<and> t_pid t = pid) \<and>
     (\<forall>j<i. \<forall>t. tab ! j = Some t \<longrightarrow> t_pid t \<noteq> pid)"
proof (induction tab arbitrary: i)
  case Nil
  then show ?case by simp
next
  case (Cons e es)
  then show ?case
    by (fastforce simp: less_Suc_eq_0_disj nth_Cons split: option.splits if_splits nat.splits)
qed

lemma find_task_by_pid_None:
  "find_task_by_pid tab pid = None \<longleftrightarrow> (\<forall>t. Some t \<in> set tab \<longrightarrow> t_pid t \<noteq> pid)"
  by (induction tab) (auto split: option.splits)

lemma set_pending_add:
  "1 \<le> sig \<Longrightarrow> sig \<le> 64 \<Longrightarrow> t_pending (set_pending t sig) = sigaddset (t_pending t) sig"
  by (simp add: set_pending_def sigaddset_sg0 upd_sig_word_def)

lemma set_pending_frame [simp]:
  "t_state (set_pending t sig) = t_state t" "t_pid (set_pending t sig) = t_pid t"
  "t_on_rq (set_pending t sig) = t_on_rq t" "t_blocked (set_pending t sig) = t_blocked t"
  by (simp_all add: set_pending_def)


section \<open>Queued signals\<close>

definition queued :: "sigtask \<Rightarrow> int \<Rightarrow> nat" where
  "queued t sig = length (filter (\<lambda>i. si_signo i = sig) (t_queue t))"

text \<open>A standard signal is in the queue at most once, and only while its bit is set.\<close>

definition queue_ok :: "sigtask \<Rightarrow> bool" where
  "queue_ok t \<longleftrightarrow>
     (\<forall>sig. 1 \<le> sig \<and> sig < SIGRTMIN \<longrightarrow>
        queued t sig \<le> (if sigismember (t_pending t) sig then 1 else 0))"

lemma queued_append:
  "queued (t\<lparr>t_queue := t_queue t @ [e]\<rparr>) sig = queued t sig + (if si_signo e = sig then 1 else 0)"
  by (simp add: queued_def)

lemma send_signal_queued_fields:
  assumes "send_signal_queued mem_ok t sig info = (r, t', e)" "1 \<le> sig" "sig \<le> 64"
    "\<not> (sig < SIGRTMIN \<and> sigismember (t_pending t) sig)"
  shows "r = 0" "t_pending t' = sigaddset (t_pending t) sig"
    "t_queue t' = (if mem_ok then t_queue t @ [case info of Some i \<Rightarrow> i | None \<Rightarrow> kernel_siginfo sig]
                   else t_queue t)"
  using assms
  by (auto simp: send_signal_queued_def sig_already_pending_def sched_enqueue_def Let_def
      split: if_splits)

section \<open>Properties\<close>

text \<open>The operations on signal sets are the set operations on the numbers 1 to
  64: empty, full, insertion, deletion, union, intersection and difference; a number
  outside that range changes nothing and is never a member.\<close>

theorem sigset_operations:
  "sigset_abs sigemptyset = {} \<and> sigset_abs sigfillset = {1..64}
   \<and> sigset_abs (sigaddset s sig) = sigset_abs s \<union> ({sig} \<inter> {1..64})
   \<and> sigset_abs (sigdelset s sig) = sigset_abs s - {sig}
   \<and> sigset_abs (sigorset a b) = sigset_abs a \<union> sigset_abs b
   \<and> sigset_abs (sigandset a b) = sigset_abs a \<inter> sigset_abs b
   \<and> sigset_abs (signandset a b) = sigset_abs a - sigset_abs b
   \<and> sigset_abs s \<subseteq> {1..64}"
proof -
  have "sigset_abs sigemptyset = {}" "sigset_abs sigfillset = {1..64}"
    by (auto simp: sigset_abs_def sigismember_bit sigemptyset_def sigfillset_def)
  moreover have "sigset_abs s \<subseteq> {1..64}"
    by (auto simp: sigset_abs_def sigismember_bit)
  moreover have "sigset_abs (sigaddset s sig) = sigset_abs s \<union> ({sig} \<inter> {1..64})"
    "sigset_abs (sigdelset s sig) = sigset_abs s - {sig}"
    by (auto simp: sigset_abs_def sigismember_add sigismember_del)
  ultimately show ?thesis by (auto simp: sigset_abs_def sigismember_ops)
qed

text \<open>\<^emph>\<open>Selection.\<close> \<^verbatim>\<open>next_signal\<close> answers the lowest-numbered pending signal that is
  not blocked, and 0 exactly when there is none.\<close>

theorem next_signal_correct:
  "(next_signal p b = 0 \<longleftrightarrow> \<not> (\<exists>n. sig_bit p n \<and> \<not> sig_bit b n))
   \<and> (next_signal p b \<noteq> 0 \<longrightarrow>
        next_signal p b = int (LEAST n. sig_bit p n \<and> \<not> sig_bit b n))"
proof -
  have nx: "is_next (signandset p b) (next_signal p b)"
    by (simp only: next_signal_def next_signal_from_is_next)
  show ?thesis
  proof (cases "\<exists>n. sig_bit (signandset p b) n")
    case False
    then show ?thesis using nx by (auto simp: is_next_def sig_bit_nand)
  next
    case True
    let ?r = "nat (next_signal p b)"
    have r: "sig_bit (signandset p b) ?r" "0 < next_signal p b" "\<And>n. n < ?r \<Longrightarrow> \<not> sig_bit (signandset p b) n"
      using nx True by (auto simp: is_next_def)
    have "(LEAST n. sig_bit (signandset p b) n) = ?r"
      using r(1,3) by (intro Least_equality) (auto simp: not_less [symmetric])
    then show ?thesis using r True by (auto simp: sig_bit_nand)
  qed
qed

theorem next_signal_correct_witness:
  "next_signal \<lparr>sg0 = 6, sg1 = 0\<rparr> \<lparr>sg0 = 2, sg1 = 0\<rparr> \<noteq> 0 \<and>
   next_signal \<lparr>sg0 = 6, sg1 = 0\<rparr> \<lparr>sg0 = 2, sg1 = 0\<rparr>
     = int (LEAST n. sig_bit \<lparr>sg0 = 6, sg1 = 0\<rparr> n \<and> \<not> sig_bit \<lparr>sg0 = 2, sg1 = 0\<rparr> n)"
proof -
  have "next_signal \<lparr>sg0 = 6, sg1 = 0\<rparr> \<lparr>sg0 = 2, sg1 = 0\<rparr> \<noteq> 0"
    by (simp add: next_signal_def signandset_def sig_word_def)
  then show ?thesis
    using next_signal_correct [of "\<lparr>sg0 = 6, sg1 = 0\<rparr>" "\<lparr>sg0 = 2, sg1 = 0\<rparr>"] by blast
qed

text \<open>\<^emph>\<open>Delivery to a task.\<close> \<^verbatim>\<open>send_signal\<close> fails with \<^verbatim>\<open>-ESRCH\<close> for an unknown
  number and with \<^verbatim>\<open>-EINVAL\<close> for an impossible signal, and then changes nothing;
  otherwise exactly the named task changes: the signal joins its pending set, and if it
  slept interruptibly it is running and on a run queue afterwards.\<close>

theorem send_signal_correct:
  assumes "send_signal tab pid sig = (r, tab', woken)"
  shows "(\<forall>t. Some t \<in> set tab \<longrightarrow> t_pid t \<noteq> pid) \<and> r = - ESRCH \<and> tab' = tab
    \<or> (\<exists>i t. i < length tab \<and> tab ! i = Some t \<and> t_pid t = pid \<and>
        (if sig < 1 \<or> 64 < sig then r = - EINVAL \<and> tab' = tab
         else r = 0 \<and> (\<exists>t'. tab' = tab[i := Some t'] \<and> t_pid t' = pid \<and>
                sigset_abs (t_pending t') = insert sig (sigset_abs (t_pending t)) \<and>
                (if t_state t = TASK_INTERRUPTIBLE then t_state t' = TASK_RUNNING \<and> t_on_rq t'
                 else t_state t' = t_state t \<and> t_on_rq t' = t_on_rq t))))"
proof (cases "find_task_by_pid tab pid")
  case None
  then show ?thesis
    using assms find_task_by_pid_None [of tab pid] by (simp add: send_signal_def)
next
  case (Some i)
  then obtain t where t: "i < length tab" "tab ! i = Some t" "t_pid t = pid"
    using find_task_by_pid_Some [OF Some] by blast
  show ?thesis
  proof (rule disjI2, intro exI conjI)
    show "if sig < 1 \<or> 64 < sig then r = - EINVAL \<and> tab' = tab
         else r = 0 \<and> (\<exists>t'. tab' = tab[i := Some t'] \<and> t_pid t' = pid \<and>
                sigset_abs (t_pending t') = insert sig (sigset_abs (t_pending t)) \<and>
                (if t_state t = TASK_INTERRUPTIBLE then t_state t' = TASK_RUNNING \<and> t_on_rq t'
                 else t_state t' = t_state t \<and> t_on_rq t' = t_on_rq t))"
      using assms Some t
      by (auto simp: send_signal_def wake_up_process_def sched_enqueue_def Let_def sigset_abs_def
          set_pending_add sigismember_add split: if_splits)
  qed (use t in auto)
qed

definition demo_task :: sigtask where
  "demo_task = \<lparr>t_pid = 42, t_state = TASK_INTERRUPTIBLE, t_on_rq = False,
     t_pending = sigemptyset, t_queue = [], t_blocked = sigemptyset, t_pgrp = Some 42,
     t_sighand = None\<rparr>"

theorem send_signal_correct_witness:
  "\<exists>r tab' woken. send_signal [None, Some demo_task] 42 15 = (r, tab', woken) \<and> r = 0"
proof -
  obtain r tab' woken where s: "send_signal [None, Some demo_task] 42 15 = (r, tab', woken)"
    by (metis prod_cases3)
  from send_signal_correct [OF s] show ?thesis using s by (auto simp: demo_task_def)
qed

text \<open>\<^emph>\<open>Coalescing.\<close> \<^verbatim>\<open>__send_signal\<close> keeps the queue disciplined: a standard signal
  (below \<^verbatim>\<open>SIGRTMIN\<close>) is queued at most once, and only while its pending bit is set,
  whatever the allocator answers; and every real-time signal for which there is memory
  adds an entry.\<close>

theorem send_signal_queue_ok:
  assumes "queue_ok t" "send_signal_queued mem_ok t sig info = (r, t', e)"
    "\<forall>i. info = Some i \<longrightarrow> si_signo i = sig"
  shows "queue_ok t' \<and> (SIGRTMIN \<le> sig \<and> sig \<le> 64 \<and> mem_ok \<longrightarrow> queued t' sig = Suc (queued t sig))"
proof (cases "1 \<le> sig \<and> sig \<le> 64 \<and> \<not> (sig < SIGRTMIN \<and> sigismember (t_pending t) sig)")
  case True
  note f = send_signal_queued_fields [OF assms(2)]
  have signo: "si_signo (case info of Some i \<Rightarrow> i | None \<Rightarrow> kernel_siginfo sig) = sig"
    using assms(3) by (simp add: kernel_siginfo_def split: option.splits)
  have q: "queued t' s = queued t s + (if mem_ok \<and> s = sig then 1 else 0)" for s
    using f(3) True signo by (auto simp: queued_def)
  have p: "sigismember (t_pending t') s \<longleftrightarrow> sigismember (t_pending t) s \<or> s = sig" for s
    using f(2) True by (auto simp: sigismember_add)
  have "queue_ok t'"
    unfolding queue_ok_def
  proof (intro allI impI)
    fix s :: int assume s: "1 \<le> s \<and> s < SIGRTMIN"
    then have "queued t s \<le> (if sigismember (t_pending t) s then 1 else 0)"
      using assms(1) by (simp only: queue_ok_def)
    then show "queued t' s \<le> (if sigismember (t_pending t') s then 1 else 0)"
      using True s by (auto simp: q p split: if_splits)
  qed
  then show ?thesis using q True by auto
next
  case False
  then have "t' = t" "sig < SIGRTMIN \<or> 64 < sig"
    using assms(2) by (auto simp: send_signal_queued_def sig_already_pending_def split: if_splits)
  then show ?thesis using assms(1) by auto
qed

theorem send_signal_queue_ok_witness:
  "\<exists>r t' e. send_signal_queued True demo_task 40 None = (r, t', e) \<and> queued t' 40 = 1"
proof -
  obtain r t' e where s: "send_signal_queued True demo_task 40 None = (r, t', e)"
    by (metis prod_cases3)
  have "queue_ok demo_task" by (simp add: queue_ok_def queued_def demo_task_def)
  from send_signal_queue_ok [OF this s] show ?thesis
    using s by (auto simp: queued_def demo_task_def)
qed

text \<open>\<^emph>\<open>Masking.\<close> Nothing in \<^verbatim>\<open>sys_rt_sigprocmask\<close> exempts \<^verbatim>\<open>SIGKILL\<close> and
  \<^verbatim>\<open>SIGSTOP\<close>: blocking them succeeds, and a pending \<^verbatim>\<open>SIGKILL\<close> of a task that blocks it
  is then never selected.\<close>

theorem sigkill_can_be_blocked:
  assumes "sys_rt_sigprocmask (Some t) SIG_BLOCK (Some s) oset = (r, old, Some t')"
    "sigismember s SIGKILL"
  shows "r = 0 \<and> sigismember (t_blocked t') SIGKILL \<and> next_signal (t_pending t') (t_blocked t') \<noteq> SIGKILL"
proof -
  have b: "r = 0" "sigismember (t_blocked t') SIGKILL"
    using assms by (auto simp: sys_rt_sigprocmask_def Let_def sigismember_ops)
  then have "sig_bit (t_blocked t') 9" by (simp add: sigismember_bit sig_bit_word0)
  moreover have "is_next (signandset (t_pending t') (t_blocked t')) (next_signal (t_pending t') (t_blocked t'))"
    by (simp only: next_signal_def next_signal_from_is_next)
  ultimately show ?thesis
    using b by (auto simp: is_next_def sig_bit_nand split: if_splits)
qed

theorem sigkill_can_be_blocked_witness:
  "\<exists>t'. sys_rt_sigprocmask (Some demo_task) SIG_BLOCK (Some sigfillset) False = (0, None, Some t')
     \<and> sigismember (t_blocked t') SIGKILL"
proof -
  obtain t' where s: "sys_rt_sigprocmask (Some demo_task) SIG_BLOCK (Some sigfillset) False
      = (0, None, Some t')"
    by (simp add: sys_rt_sigprocmask_def)
  show ?thesis
    using s sigkill_can_be_blocked [OF s] by (simp add: sigfillset_def sigismember_bit)
qed

end
