(* ===== verification/Sched.thy ===== *)
theory Sched
  imports Signal
begin

text \<open>
  The O(1) scheduler, \<^verbatim>\<open>kernel/sched.c\<close>: per-CPU run queues with an active and an expired
  array of 140 priority queues and a bitmap each, the scheduling decision, the tick,
  wake-up, sleep, yield, priority changes and the pull-based load balancer.

  Tasks and CPUs are numbers. An array of the C code that is indexed by a priority, a
  CPU or a bitmap word is a function on that index; the theorems state the range where it
  matters. The lists of a run queue are intrusive: \<^verbatim>\<open>list_del\<close> unlinks a task from the
  list that holds it, whichever that is, and so does \<open>sched_list_del\<close> below. The functions run
  with the queue's lock held, so each is one step on the scheduler's state; what
  \<^verbatim>\<open>schedule_impl\<close> loads into the CPU is its second result.
\<close>

section \<open>State\<close>

type_synonym tid = nat
type_synonym cpu_id = nat

record rtask =
  k_state :: task_state
  k_on_rq :: bool
  k_prio :: int
  k_static_prio :: int
  k_rt_priority :: u32
  k_policy :: int
  k_time_slice :: u64
  k_sum_exec :: u64
  k_cpus_allowed :: u64
  k_cpu :: cpu_id
  k_stack :: u64
  k_mm :: "u64 option"
  k_tls :: u64

record prio_queue =
  pq_tasks :: "tid list"
  pq_count :: int

record runqueue =
  rq_active :: "nat \<Rightarrow> prio_queue"
  rq_expired :: "nat \<Rightarrow> prio_queue"
  rq_active_bitmap :: "nat \<Rightarrow> u64"
  rq_expired_bitmap :: "nat \<Rightarrow> u64"
  rq_curr :: "tid option"
  rq_idle :: "tid option"
  rq_nr_running :: u64
  rq_nr_switches :: u64
  rq_nr_migrations :: u64
  rq_cpu :: cpu_id
  rq_load :: u64
  rq_clock :: u64

record sched =
  rqs :: "cpu_id \<Rightarrow> runqueue"
  tasks :: "tid \<Rightarrow> rtask"
  current_tasks :: "cpu_id \<Rightarrow> tid option"
  lb_next_balance :: "cpu_id \<Rightarrow> u64"
  jiffies :: u64
  load_avg_1 :: u64
  load_avg_5 :: u64
  load_avg_15 :: u64
  load_next_update :: u64

abbreviation (input) NR_CPUS :: nat where "NR_CPUS \<equiv> 256"
abbreviation (input) MAX_PRIO :: int where "MAX_PRIO \<equiv> 140"
abbreviation (input) MAX_RT_PRIO :: int where "MAX_RT_PRIO \<equiv> 100"
abbreviation (input) SCHED_NORMAL :: int where "SCHED_NORMAL \<equiv> 0"
abbreviation (input) SCHED_FIFO :: int where "SCHED_FIFO \<equiv> 1"
abbreviation (input) SCHED_RR :: int where "SCHED_RR \<equiv> 2"
abbreviation (input) SCHED_BATCH :: int where "SCHED_BATCH \<equiv> 3"
abbreviation (input) SCHED_IDLE :: int where "SCHED_IDLE \<equiv> 5"

definition upd_rq :: "cpu_id \<Rightarrow> (runqueue \<Rightarrow> runqueue) \<Rightarrow> sched \<Rightarrow> sched" where
  "upd_rq cpu f s = s\<lparr>rqs := (rqs s)(cpu := f (rqs s cpu))\<rparr>"

definition upd_task :: "tid \<Rightarrow> (rtask \<Rightarrow> rtask) \<Rightarrow> sched \<Rightarrow> sched" where
  "upd_task t f s = s\<lparr>tasks := (tasks s)(t := f (tasks s t))\<rparr>"

section \<open>Bitmaps\<close>

fun ffs_from :: "(nat \<Rightarrow> u64) \<Rightarrow> nat \<Rightarrow> nat \<Rightarrow> int" where
  "ffs_from bitmap i 0 = - 1"
| "ffs_from bitmap i (Suc n) =
     (if bitmap i \<noteq> 0 then int (i * 64 + ctz64 (bitmap i)) else ffs_from bitmap (Suc i) n)"

definition find_first_set_bit :: "(nat \<Rightarrow> u64) \<Rightarrow> int" where
  "find_first_set_bit bitmap = ffs_from bitmap 0 8"

definition set_prio_bit :: "(nat \<Rightarrow> u64) \<Rightarrow> nat \<Rightarrow> (nat \<Rightarrow> u64)" where
  "set_prio_bit bitmap prio =
     bitmap(prio div 64 := bitmap (prio div 64) OR push_bit (prio mod 64) 1)"

definition clear_prio_bit :: "(nat \<Rightarrow> u64) \<Rightarrow> nat \<Rightarrow> (nat \<Rightarrow> u64)" where
  "clear_prio_bit bitmap prio =
     bitmap(prio div 64 := bitmap (prio div 64) AND NOT (push_bit (prio mod 64) 1))"

definition test_prio_bit :: "(nat \<Rightarrow> u64) \<Rightarrow> nat \<Rightarrow> bool" where
  "test_prio_bit bitmap prio \<longleftrightarrow> drop_bit (prio mod 64) (bitmap (prio div 64)) AND 1 \<noteq> 0"

section \<open>Priorities and time slices\<close>

text \<open>\<^verbatim>\<open>MAX_RT_PRIO - 1 - task->rt_priority\<close> is computed unsigned and converted to
  \<^verbatim>\<open>int\<close>.\<close>

definition effective_prio :: "rtask \<Rightarrow> int" where
  "effective_prio t =
     (if k_policy t = SCHED_FIFO \<or> k_policy t = SCHED_RR then sint (99 - k_rt_priority t)
      else k_static_prio t)"

definition calculate_timeslice :: "rtask \<Rightarrow> u64" where
  "calculate_timeslice t =
     (let prio = k_prio t;
          timeslice = (if prio < MAX_RT_PRIO then 200
                       else let nice = prio - 120 in word_of_int (100 - nice * 5));
          timeslice1 = (if timeslice < 10 then 10 else timeslice)
      in if 200 < timeslice1 then 200 else timeslice1)"

section \<open>Queues\<close>

definition pq_add_tail :: "tid \<Rightarrow> prio_queue \<Rightarrow> prio_queue" where
  "pq_add_tail t q = q\<lparr>pq_tasks := pq_tasks q @ [t], pq_count := pq_count q + 1\<rparr>"

definition rq_list_del :: "tid \<Rightarrow> runqueue \<Rightarrow> runqueue" where
  "rq_list_del t rq =
     rq\<lparr>rq_active := \<lambda>p. (rq_active rq p)\<lparr>pq_tasks := removeAll t (pq_tasks (rq_active rq p))\<rparr>,
        rq_expired := \<lambda>p. (rq_expired rq p)\<lparr>pq_tasks := removeAll t (pq_tasks (rq_expired rq p))\<rparr>\<rparr>"

definition sched_list_del :: "tid \<Rightarrow> sched \<Rightarrow> sched" where
  "sched_list_del t s = s\<lparr>rqs := \<lambda>cpu. rq_list_del t (rqs s cpu)\<rparr>"

definition enqueue_task :: "cpu_id \<Rightarrow> tid \<Rightarrow> sched \<Rightarrow> sched" where
  "enqueue_task cpu t s =
     (let prio = k_prio (tasks s t); p = nat prio in
      upd_task t (\<lambda>x. x\<lparr>k_on_rq := True\<rparr>)
        (upd_rq cpu (\<lambda>rq. rq\<lparr>rq_active := (rq_active rq)(p := pq_add_tail t (rq_active rq p)),
                             rq_active_bitmap := set_prio_bit (rq_active_bitmap rq) p,
                             rq_nr_running := rq_nr_running rq + 1,
                             rq_load := rq_load rq + word_of_int (MAX_PRIO - prio)\<rparr>) s))"

text \<open>What \<^verbatim>\<open>dequeue_task\<close> does to the queue of its CPU besides unlinking: the count and
  the bitmap of the active array's queue at the task's priority, and the totals.\<close>

definition rq_uncount :: "int \<Rightarrow> runqueue \<Rightarrow> runqueue" where
  "rq_uncount prio rq =
     (let p = nat prio; q = rq_active rq p; n = pq_count q - 1 in
      rq\<lparr>rq_active := (rq_active rq)(p := q\<lparr>pq_count := n\<rparr>),
         rq_active_bitmap := (if n = 0 then clear_prio_bit (rq_active_bitmap rq) p
                              else rq_active_bitmap rq),
         rq_nr_running := rq_nr_running rq - 1,
         rq_load := rq_load rq - word_of_int (MAX_PRIO - prio)\<rparr>)"

definition dequeue_task :: "cpu_id \<Rightarrow> tid \<Rightarrow> sched \<Rightarrow> sched" where
  "dequeue_task cpu t s =
     upd_task t (\<lambda>x. x\<lparr>k_on_rq := False\<rparr>)
       (upd_rq cpu (rq_uncount (k_prio (tasks s t))) (sched_list_del t s))"

definition expire_task :: "cpu_id \<Rightarrow> tid \<Rightarrow> sched \<Rightarrow> sched" where
  "expire_task cpu t s =
     (let p = nat (k_prio (tasks s t)) in
      upd_task t (\<lambda>x. x\<lparr>k_on_rq := True, k_time_slice := calculate_timeslice x\<rparr>)
        (upd_rq cpu (\<lambda>rq. rq\<lparr>rq_expired := (rq_expired rq)(p := pq_add_tail t (rq_expired rq p)),
                             rq_expired_bitmap := set_prio_bit (rq_expired_bitmap rq) p,
                             rq_nr_running := rq_nr_running rq + 1\<rparr>) s))"

definition swap_arrays :: "runqueue \<Rightarrow> runqueue" where
  "swap_arrays rq =
     rq\<lparr>rq_active := rq_expired rq, rq_expired := rq_active rq,
        rq_active_bitmap := rq_expired_bitmap rq, rq_expired_bitmap := rq_active_bitmap rq\<rparr>"

definition sched_enqueue_task :: "tid option \<Rightarrow> sched \<Rightarrow> sched" where
  "sched_enqueue_task task s =
     (case task of None \<Rightarrow> s | Some t \<Rightarrow> if k_on_rq (tasks s t) then s else enqueue_task 0 t s)"

text \<open>The choice of a task from the active array once a priority is known, and
  \<^verbatim>\<open>pick_next_task\<close>.\<close>

definition pick_at :: "int \<Rightarrow> runqueue \<Rightarrow> tid option" where
  "pick_at prio rq =
     (if prio < 0 then rq_idle rq
      else (case pq_tasks (rq_active rq (nat prio)) of [] \<Rightarrow> rq_idle rq | t # _ \<Rightarrow> Some t))"

definition pick_next_task :: "runqueue \<Rightarrow> tid option \<times> runqueue" where
  "pick_next_task rq =
     (let prio = find_first_set_bit (rq_active_bitmap rq) in
      if prio < 0 \<and> 0 \<le> find_first_set_bit (rq_expired_bitmap rq)
      then let rq1 = swap_arrays rq in
           (pick_at (find_first_set_bit (rq_active_bitmap rq1)) rq1, rq1)
      else (pick_at prio rq, rq))"

section \<open>The scheduling decision\<close>

text \<open>What is loaded into the CPU on a switch. \<open>KernelPml4\<close> is the kernel's own page
  table; no entry means that \<^verbatim>\<open>CR3\<close> is not written.\<close>

datatype cr3_value = UserPgd u64 | KernelPml4

record switch =
  sw_prev :: "tid option"
  sw_next :: tid
  sw_rsp0 :: "u64 option"
  sw_cr3 :: "cr3_value option"
  sw_fs_base :: u64

definition switch_cr3 :: "rtask option \<Rightarrow> rtask \<Rightarrow> cr3_value option" where
  "switch_cr3 prev next =
     (case k_mm next of
        Some pgd \<Rightarrow>
          if (case prev of None \<Rightarrow> True
              | Some p \<Rightarrow> (case k_mm p of None \<Rightarrow> True | Some pgd' \<Rightarrow> pgd' \<noteq> pgd))
          then Some (UserPgd pgd) else None
      | None \<Rightarrow>
          if (case prev of None \<Rightarrow> False | Some p \<Rightarrow> k_mm p \<noteq> None) then Some KernelPml4 else None)"

text \<open>Taking the previous task off its queue, and putting it back.\<close>

definition put_prev :: "cpu_id \<Rightarrow> sched \<Rightarrow> sched" where
  "put_prev cpu s =
     (case rq_curr (rqs s cpu) of None \<Rightarrow> s
      | Some p \<Rightarrow> if Some p \<noteq> rq_idle (rqs s cpu) \<and> k_on_rq (tasks s p) then dequeue_task cpu p s else s)"

definition requeue_prev :: "cpu_id \<Rightarrow> tid option \<Rightarrow> sched \<Rightarrow> sched" where
  "requeue_prev cpu prev s =
     (case prev of None \<Rightarrow> s
      | Some p \<Rightarrow>
          if Some p \<noteq> rq_idle (rqs s cpu) \<and> k_state (tasks s p) = TASK_RUNNING
          then if k_time_slice (tasks s p) = 0
               then expire_task cpu p (upd_task p (\<lambda>x. x\<lparr>k_time_slice := 100\<rparr>) s)
               else enqueue_task cpu p s
          else s)"

text \<open>The end of \<^verbatim>\<open>schedule_impl\<close>, once the next task is known: the counters, the current
  task and what is loaded into the CPU. \<open>msr\<close> is the value of the \<^verbatim>\<open>FS.base\<close> register of
  the CPU at the call.\<close>

definition commit_next ::
  "cpu_id \<Rightarrow> u64 \<Rightarrow> tid option \<Rightarrow> tid option \<Rightarrow> sched \<Rightarrow> sched \<times> switch option" where
  "commit_next cpu msr prev nxt s2 =
     (let s3 = upd_rq cpu (\<lambda>rq. rq\<lparr>rq_nr_switches := rq_nr_switches rq + 1,
                                   rq_clock := rq_clock rq + 1\<rparr>) s2;
          idle = rq_idle (rqs s3 cpu) in
      (case nxt of
         None \<Rightarrow> (upd_rq cpu (\<lambda>rq. rq\<lparr>rq_curr := (if prev = None then idle else prev)\<rparr>) s3, None)
       | Some n \<Rightarrow>
           if Some n = idle
           then (upd_rq cpu (\<lambda>rq. rq\<lparr>rq_curr := (if prev = None then idle else prev)\<rparr>) s3, None)
           else if Some n \<noteq> prev
           then let s4 = upd_rq cpu (\<lambda>rq. rq\<lparr>rq_curr := Some n\<rparr>) s3;
                    s5 = s4\<lparr>current_tasks := (current_tasks s4)(cpu := Some n)\<rparr>;
                    s6 = (case prev of None \<Rightarrow> s5
                          | Some p \<Rightarrow> if k_mm (tasks s5 p) \<noteq> None
                                      then upd_task p (\<lambda>x. x\<lparr>k_tls := msr\<rparr>) s5 else s5);
                    nt = tasks s6 n in
                (s6, Some \<lparr>sw_prev = prev, sw_next = n,
                           sw_rsp0 = (if k_stack nt \<noteq> 0 then Some (k_stack nt) else None),
                           sw_cr3 = switch_cr3 (map_option (tasks s6) prev) nt,
                           sw_fs_base = k_tls nt\<rparr>)
           else (s3, None)))"

definition schedule_impl :: "cpu_id \<Rightarrow> u64 \<Rightarrow> sched \<Rightarrow> sched \<times> switch option" where
  "schedule_impl cpu msr s =
     (let prev = rq_curr (rqs s cpu);
          s1 = put_prev cpu s;
          (nxt, rq1) = pick_next_task (rqs s1 cpu)
      in commit_next cpu msr prev nxt (requeue_prev cpu prev (upd_rq cpu (\<lambda>_. rq1) s1)))"

section \<open>Wake-up, sleep, yield\<close>

definition sched_wake_up :: "tid option \<Rightarrow> sched \<Rightarrow> sched" where
  "sched_wake_up task s =
     (case task of None \<Rightarrow> s
      | Some t \<Rightarrow>
          let cpu = k_cpu (tasks s t) in
          if k_state (tasks s t) \<noteq> TASK_RUNNING
          then let s1 = upd_task t (\<lambda>x. x\<lparr>k_state := TASK_RUNNING\<rparr>) s;
                   s2 = upd_task t (\<lambda>x. x\<lparr>k_prio := effective_prio x\<rparr>) s1;
                   s3 = upd_task t (\<lambda>x. x\<lparr>k_time_slice := calculate_timeslice x\<rparr>) s2
               in enqueue_task cpu t s3
          else s)"

text \<open>\<^verbatim>\<open>sched_sleep\<close> is only called with a current task on the CPU.\<close>

definition sched_sleep :: "cpu_id \<Rightarrow> u64 \<Rightarrow> task_state \<Rightarrow> sched \<Rightarrow> sched \<times> switch option" where
  "sched_sleep cpu msr state s =
     schedule_impl cpu msr
       (case rq_curr (rqs s cpu) of None \<Rightarrow> s | Some t \<Rightarrow> upd_task t (\<lambda>x. x\<lparr>k_state := state\<rparr>) s)"

definition sched_yield_impl :: "cpu_id \<Rightarrow> u64 \<Rightarrow> sched \<Rightarrow> sched \<times> switch option" where
  "sched_yield_impl cpu msr s =
     schedule_impl cpu msr
       (case rq_curr (rqs s cpu) of None \<Rightarrow> s | Some t \<Rightarrow> upd_task t (\<lambda>x. x\<lparr>k_time_slice := 0\<rparr>) s)"

section \<open>Policy and priority\<close>

definition sched_setscheduler :: "tid option \<Rightarrow> int \<Rightarrow> int \<Rightarrow> sched \<Rightarrow> int \<times> sched" where
  "sched_setscheduler task policy prio s =
     (case task of None \<Rightarrow> (- EINVAL, s)
      | Some t \<Rightarrow>
          let cpu = k_cpu (tasks s t);
              on_rq = k_on_rq (tasks s t);
              s1 = (if on_rq then dequeue_task cpu t s else s);
              s2 = upd_task t (\<lambda>x. x\<lparr>k_policy := policy\<rparr>) s1 in
          if policy = SCHED_FIFO \<or> policy = SCHED_RR \<or> policy = SCHED_NORMAL \<or>
             policy = SCHED_BATCH \<or> policy = SCHED_IDLE
          then
            let s3 = (if policy = SCHED_FIFO \<or> policy = SCHED_RR
                      then upd_task t (\<lambda>x. x\<lparr>k_rt_priority := word_of_int prio,
                                             k_prio := MAX_RT_PRIO - 1 - prio\<rparr>) s2
                      else upd_task t (\<lambda>x. x\<lparr>k_prio := effective_prio x\<rparr>)
                             (upd_task t (\<lambda>x. x\<lparr>k_static_prio := 120 + prio\<rparr>) s2));
                s4 = upd_task t (\<lambda>x. x\<lparr>k_time_slice := calculate_timeslice x\<rparr>) s3
            in (0, if on_rq then enqueue_task cpu t s4 else s4)
          else (- EINVAL, s2))"

definition sched_set_nice :: "tid \<Rightarrow> int \<Rightarrow> sched \<Rightarrow> int \<times> sched" where
  "sched_set_nice t nice s =
     (let n1 = (if nice < - 20 then - 20 else nice);
          n2 = (if 19 < n1 then 19 else n1)
      in sched_setscheduler (Some t) (k_policy (tasks s t)) n2 s)"

section \<open>Load balancing\<close>

definition task_migrate :: "tid \<Rightarrow> cpu_id \<Rightarrow> cpu_id \<Rightarrow> sched \<Rightarrow> sched" where
  "task_migrate t src dst s =
     (let s1 = (if k_on_rq (tasks s t) then dequeue_task src t s else s);
          s2 = upd_task t (\<lambda>x. x\<lparr>k_cpu := rq_cpu (rqs s1 dst)\<rparr>) s1;
          s3 = enqueue_task dst t s2;
          s4 = upd_rq dst (\<lambda>rq. rq\<lparr>rq_nr_migrations := rq_nr_migrations rq + 1\<rparr>) s3
      in upd_rq src (\<lambda>rq. rq\<lparr>rq_nr_migrations := rq_nr_migrations rq + 1\<rparr>) s4)"

definition migratable :: "sched \<Rightarrow> cpu_id \<Rightarrow> cpu_id \<Rightarrow> tid \<Rightarrow> bool" where
  "migratable s src dst t \<longleftrightarrow>
     Some t \<noteq> rq_curr (rqs s src) \<and> Some t \<noteq> rq_idle (rqs s src) \<and>
     k_state (tasks s t) = TASK_RUNNING \<and>
     \<not> (k_cpus_allowed (tasks s t) \<noteq> 0 \<and> k_cpus_allowed (tasks s t) AND push_bit dst 1 = 0)"

text \<open>The walk from the lowest priority (139) to the highest.\<close>

fun find_migratable_from :: "sched \<Rightarrow> cpu_id \<Rightarrow> cpu_id \<Rightarrow> nat \<Rightarrow> tid option" where
  "find_migratable_from s src dst 0 = None"
| "find_migratable_from s src dst (Suc prio) =
     (let q = rq_active (rqs s src) prio in
      if pq_count q = 0 then find_migratable_from s src dst prio
      else (case find (migratable s src dst) (pq_tasks q) of
              Some t \<Rightarrow> Some t
            | None \<Rightarrow> find_migratable_from s src dst prio))"

definition find_migratable :: "sched \<Rightarrow> cpu_id \<Rightarrow> cpu_id \<Rightarrow> tid option" where
  "find_migratable s src dst = find_migratable_from s src dst 140"

definition busiest_step ::
  "sched \<Rightarrow> cpu_id \<Rightarrow> cpu_id \<Rightarrow> cpu_id option \<times> u64 \<Rightarrow> cpu_id option \<times> u64" where
  "busiest_step s this_cpu cpu acc =
     (let rq = rqs s cpu in
      if cpu = this_cpu then acc
      else if rq_idle rq = None then acc
      else if rq_nr_running rq \<le> 1 then acc
      else if snd acc < rq_load rq then (Some cpu, rq_load rq) else acc)"

definition find_busiest_queue :: "sched \<Rightarrow> cpu_id \<Rightarrow> cpu_id option" where
  "find_busiest_queue s this_cpu =
     fst (fold (busiest_step s this_cpu) [0..<NR_CPUS] (None, rq_load (rqs s this_cpu) + 20))"

text \<open>The pulling loop, at most \<open>n\<close> more rounds; the result counts the pulled tasks.\<close>

fun lb_pull :: "nat \<Rightarrow> cpu_id \<Rightarrow> cpu_id \<Rightarrow> sched \<Rightarrow> nat \<times> sched" where
  "lb_pull 0 src this_cpu s = (0, s)"
| "lb_pull (Suc n) src this_cpu s =
     (if rq_load (rqs s src) \<le> rq_load (rqs s this_cpu) + 20 then (0, s)
      else if rq_nr_running (rqs s src) \<le> 1 then (0, s)
      else (case find_migratable s src this_cpu of
              None \<Rightarrow> (0, s)
            | Some t \<Rightarrow>
                (case lb_pull n src this_cpu (task_migrate t src this_cpu s) of
                   (k, s') \<Rightarrow> (Suc k, s'))))"

definition sched_load_balance :: "cpu_id \<Rightarrow> sched \<Rightarrow> nat \<times> sched" where
  "sched_load_balance this_cpu s =
     (if sint (jiffies s - lb_next_balance s this_cpu) < 0 then (0, s)
      else
        let s1 = s\<lparr>lb_next_balance := (lb_next_balance s)(this_cpu :=
                    jiffies s + 200 + of_nat this_cpu * 7)\<rparr> in
        (case find_busiest_queue s1 this_cpu of
           None \<Rightarrow> (0, s1)
         | Some src \<Rightarrow> lb_pull 4 src this_cpu s1))"

section \<open>Load averages and the tick\<close>

definition nr_active_tasks :: "sched \<Rightarrow> u64" where
  "nr_active_tasks s =
     fold (\<lambda>i acc. if rq_idle (rqs s i) = None then acc
                   else if 0 < rq_nr_running (rqs s i) then acc + (rq_nr_running (rqs s i) - 1)
                   else acc) [0..<NR_CPUS] 0"

definition ewma :: "nat \<Rightarrow> u64 \<Rightarrow> u64 \<Rightarrow> u64" where
  "ewma shift n avg =
     avg + (if avg < n then drop_bit shift (n - avg) else - (drop_bit shift (avg - n)))"

definition update_load_averages :: "sched \<Rightarrow> sched" where
  "update_load_averages s =
     (if sint (jiffies s - load_next_update s) < 0 then s
      else let n = nr_active_tasks s * 2048 in
           s\<lparr>load_next_update := jiffies s + 5000,
             load_avg_1 := ewma 3 n (load_avg_1 s),
             load_avg_5 := ewma 6 n (load_avg_5 s),
             load_avg_15 := ewma 8 n (load_avg_15 s)\<rparr>)"

definition scheduler_tick :: "cpu_id \<Rightarrow> sched \<Rightarrow> sched" where
  "scheduler_tick cpu s =
     (case rq_curr (rqs s cpu) of
        None \<Rightarrow> snd (sched_load_balance cpu s)
      | Some t \<Rightarrow>
          if Some t = rq_idle (rqs s cpu) then snd (sched_load_balance cpu s)
          else
            let s1 = upd_task t (\<lambda>x. if 0 < k_time_slice x
                                     then x\<lparr>k_time_slice := k_time_slice x - 1\<rparr> else x) s;
                s2 = upd_task t (\<lambda>x. x\<lparr>k_sum_exec := k_sum_exec x + 1\<rparr>) s1;
                s3 = snd (sched_load_balance cpu s2)
            in update_load_averages s3)"

definition sched_get_cpu_nr_running :: "int \<Rightarrow> sched \<Rightarrow> u64" where
  "sched_get_cpu_nr_running cpu s =
     (if cpu < 0 \<or> 256 \<le> cpu \<or> rq_idle (rqs s (nat cpu)) = None then 0
      else rq_nr_running (rqs s (nat cpu)))"

definition sched_get_cpu_nr_switches :: "int \<Rightarrow> sched \<Rightarrow> u64" where
  "sched_get_cpu_nr_switches cpu s =
     (if cpu < 0 \<or> 256 \<le> cpu \<or> rq_idle (rqs s (nat cpu)) = None then 0
      else rq_nr_switches (rqs s (nat cpu)))"

definition sched_get_cpu_load :: "int \<Rightarrow> sched \<Rightarrow> u64" where
  "sched_get_cpu_load cpu s =
     (if cpu < 0 \<or> 256 \<le> cpu \<or> rq_idle (rqs s (nat cpu)) = None then 0
      else rq_load (rqs s (nat cpu)))"

definition sched_get_num_online_cpus :: "sched \<Rightarrow> nat" where
  "sched_get_num_online_cpus s =
     (let n = length (filter (\<lambda>i. rq_idle (rqs s i) \<noteq> None) [0..<NR_CPUS])
      in if n \<noteq> 0 then n else 1)"

section \<open>Initialisation\<close>

definition pq_init :: prio_queue where
  "pq_init = \<lparr>pq_tasks = [], pq_count = 0\<rparr>"

definition rq_init :: "cpu_id \<Rightarrow> runqueue" where
  "rq_init cpu =
     \<lparr>rq_active = \<lambda>_. pq_init, rq_expired = \<lambda>_. pq_init, rq_active_bitmap = \<lambda>_. 0,
      rq_expired_bitmap = \<lambda>_. 0, rq_curr = None, rq_idle = None, rq_nr_running = 0,
      rq_nr_switches = 0, rq_nr_migrations = 0, rq_cpu = cpu, rq_load = 0, rq_clock = 0\<rparr>"

definition sched_init_rq :: "cpu_id \<Rightarrow> sched \<Rightarrow> sched" where
  "sched_init_rq cpu s = upd_rq cpu (\<lambda>_. rq_init cpu) s"

definition sched_set_idle :: "cpu_id \<Rightarrow> tid \<Rightarrow> sched \<Rightarrow> sched" where
  "sched_set_idle cpu idle s = upd_rq cpu (\<lambda>rq. rq\<lparr>rq_idle := Some idle, rq_curr := Some idle\<rparr>) s"

definition o1_sched_init :: "sched \<Rightarrow> sched" where
  "o1_sched_init s = fold sched_init_rq [0..<NR_CPUS] s"

definition sched_init_ap :: "nat \<Rightarrow> sched \<Rightarrow> sched" where
  "sched_init_ap cpu s = (if NR_CPUS \<le> cpu then s else sched_init_rq cpu s)"

end
