(* ===== verification/Sched_Correct.thy ===== *)
theory Sched_Correct
  imports Sched
begin

text \<open>
  Correctness of the run queues of \<open>Sched\<close>: bitmaps and counters agree with the lists,
  every operation keeps that, the scheduling decision takes the head of the best
  non-empty level, and the balancer moves only tasks it may move. The last section has
  the situations in which the code breaks its own bookkeeping.
\<close>

section \<open>Bitmaps\<close>

lemma test_prio_bit_iff: "test_prio_bit bm p \<longleftrightarrow> bit (bm (p div 64)) (p mod 64)"
  by (simp add: test_prio_bit_def bit_iff_odd_drop_bit odd_iff_mod_2_eq_one and_one_eq)

lemma same_slot: "(p::nat) div 64 = q div 64 \<Longrightarrow> p mod 64 = q mod 64 \<longleftrightarrow> p = q"
  by (metis div_mult_mod_eq)

lemma test_set_prio_bit [rq_simps]: "test_prio_bit (set_prio_bit bm p) q \<longleftrightarrow> test_prio_bit bm q \<or> q = p"
proof (cases "q div 64 = p div 64")
  case True
  then show ?thesis
    using same_slot [OF True] by (auto simp: test_prio_bit_iff set_prio_bit_def bit_or_exp)
next
  case False
  then show ?thesis by (auto simp: test_prio_bit_iff set_prio_bit_def)
qed

lemma test_clear_prio_bit [rq_simps]:
  "test_prio_bit (clear_prio_bit bm p) q \<longleftrightarrow> test_prio_bit bm q \<and> q \<noteq> p"
proof (cases "q div 64 = p div 64")
  case True
  then show ?thesis
    using same_slot [OF True] by (auto simp: test_prio_bit_iff clear_prio_bit_def bit_and_not_exp)
next
  case False
  then show ?thesis by (auto simp: test_prio_bit_iff clear_prio_bit_def)
qed

lemma test_prio_bit_word: "k < 64 \<Longrightarrow> test_prio_bit bm (i * 64 + k) \<longleftrightarrow> bit (bm i) k"
  by (simp add: test_prio_bit_iff)

lemma no_bit_in_zero_word: "bm i = 0 \<Longrightarrow> i * 64 \<le> p \<Longrightarrow> p < Suc i * 64 \<Longrightarrow> \<not> test_prio_bit bm p"
proof -
  assume a: "bm i = 0" "i * 64 \<le> p" "p < Suc i * 64"
  then have "p div 64 = i" by (simp add: div_nat_eqI)
  then show ?thesis using a(1) by (simp add: test_prio_bit_iff)
qed

lemma ffs_from_least:
  "(ffs_from bm i n = - 1 \<and> (\<forall>p. i * 64 \<le> p \<and> p < (i + n) * 64 \<longrightarrow> \<not> test_prio_bit bm p))
   \<or> (\<exists>p. ffs_from bm i n = int p \<and> i * 64 \<le> p \<and> p < (i + n) * 64 \<and> test_prio_bit bm p \<and>
         (\<forall>q. i * 64 \<le> q \<and> q < p \<longrightarrow> \<not> test_prio_bit bm q))"
proof (induction n arbitrary: i)
  case 0
  then show ?case by auto
next
  case (Suc n)
  show ?case
  proof (cases "bm i = 0")
    case False
    note c = ctz64_correct [OF False]
    let ?p = "i * 64 + ctz64 (bm i)"
    have "\<not> test_prio_bit bm q" if "i * 64 \<le> q" "q < ?p" for q
      using c(1) c(3) [of "q - i * 64"] test_prio_bit_word [of "q - i * 64" bm i] that by auto
    moreover have "test_prio_bit bm ?p" using c(1,2) by (simp add: test_prio_bit_word)
    moreover have "i * 64 \<le> ?p" "?p < (i + Suc n) * 64" "ffs_from bm i (Suc n) = int ?p"
      using c(1) False by auto
    ultimately show ?thesis by blast
  next
    case True
    have skip: "\<not> test_prio_bit bm q" if "i * 64 \<le> q" "q < Suc i * 64" for q
      using no_bit_in_zero_word [of bm i q] True that by blast
    have eq: "ffs_from bm i (Suc n) = ffs_from bm (Suc i) n" "Suc i + n = i + Suc n"
      using True by simp_all
    from Suc.IH [of "Suc i"] show ?thesis
    proof (elim disjE exE conjE)
      assume a: "ffs_from bm (Suc i) n = - 1"
        "\<forall>p. Suc i * 64 \<le> p \<and> p < (Suc i + n) * 64 \<longrightarrow> \<not> test_prio_bit bm p"
      have "\<not> test_prio_bit bm q" if "i * 64 \<le> q" "q < (i + Suc n) * 64" for q
        using that skip [of q] a(2) eq(2) by (cases "q < Suc i * 64") auto
      then show ?thesis using a(1) eq by simp
    next
      fix p
      assume a: "ffs_from bm (Suc i) n = int p" "Suc i * 64 \<le> p" "p < (Suc i + n) * 64"
        "test_prio_bit bm p" "\<forall>q. Suc i * 64 \<le> q \<and> q < p \<longrightarrow> \<not> test_prio_bit bm q"
      have "\<not> test_prio_bit bm q" if "i * 64 \<le> q" "q < p" for q
        using that skip [of q] a(5) by (cases "q < Suc i * 64") auto
      then show ?thesis using a(1-4) eq by (intro disjI2 exI [of _ p]) simp
    qed
  qed
qed

lemma find_first_set_bit_cases:
  obtains "find_first_set_bit bm = - 1" "\<And>p. p < 512 \<Longrightarrow> \<not> test_prio_bit bm p"
  | p where "find_first_set_bit bm = int p" "p < 512" "test_prio_bit bm p"
      "\<And>q. q < p \<Longrightarrow> \<not> test_prio_bit bm q"
  using ffs_from_least [of bm 0 8] by (auto simp: find_first_set_bit_def)

section \<open>Well-formed queues\<close>

definition q_ok :: "(tid \<Rightarrow> rtask) \<Rightarrow> (nat \<Rightarrow> u64) \<Rightarrow> nat \<Rightarrow> prio_queue \<Rightarrow> bool" where
  "q_ok T bm p q \<longleftrightarrow>
     pq_count q = int (length (pq_tasks q)) \<and> (test_prio_bit bm p \<longleftrightarrow> pq_tasks q \<noteq> []) \<and>
     distinct (pq_tasks q) \<and> (\<forall>t\<in>set (pq_tasks q). k_prio (T t) = int p \<and> k_on_rq (T t))"

definition half_ok :: "(tid \<Rightarrow> rtask) \<Rightarrow> (nat \<Rightarrow> u64) \<Rightarrow> (nat \<Rightarrow> prio_queue) \<Rightarrow> bool" where
  "half_ok T bm arr \<longleftrightarrow>
     (\<forall>p<140. q_ok T bm p (arr p)) \<and> (\<forall>p\<ge>140. pq_tasks (arr p) = []) \<and>
     (\<forall>p. 140 \<le> p \<and> p < 512 \<longrightarrow> \<not> test_prio_bit bm p)"

definition in_arr :: "(nat \<Rightarrow> prio_queue) \<Rightarrow> tid \<Rightarrow> bool" where
  "in_arr arr t \<longleftrightarrow> (\<exists>p. t \<in> set (pq_tasks (arr p)))"

definition arr_size :: "(nat \<Rightarrow> prio_queue) \<Rightarrow> nat" where
  "arr_size arr = (\<Sum>p<140. length (pq_tasks (arr p)))"

definition queued_on :: "sched \<Rightarrow> cpu_id \<Rightarrow> tid \<Rightarrow> bool" where
  "queued_on s c t \<longleftrightarrow> in_arr (rq_active (rqs s c)) t \<or> in_arr (rq_expired (rqs s c)) t"

definition rq_inv :: "(tid \<Rightarrow> rtask) \<Rightarrow> runqueue \<Rightarrow> bool" where
  "rq_inv T rq \<longleftrightarrow>
     half_ok T (rq_active_bitmap rq) (rq_active rq) \<and> half_ok T (rq_expired_bitmap rq) (rq_expired rq) \<and>
     (\<forall>t. \<not> (in_arr (rq_active rq) t \<and> in_arr (rq_expired rq) t)) \<and>
     rq_nr_running rq = of_nat (arr_size (rq_active rq) + arr_size (rq_expired rq))"

definition sched_inv :: "sched \<Rightarrow> bool" where
  "sched_inv s \<longleftrightarrow>
     (\<forall>c. rq_inv (tasks s) (rqs s c)) \<and> (\<forall>t c d. queued_on s c t \<and> queued_on s d t \<longrightarrow> c = d)"

lemma half_okD:
  assumes "half_ok T bm arr"
  shows "p < 140 \<Longrightarrow> q_ok T bm p (arr p)" "140 \<le> p \<Longrightarrow> pq_tasks (arr p) = []"
    "140 \<le> p \<Longrightarrow> p < 512 \<Longrightarrow> \<not> test_prio_bit bm p"
  using assms by (auto simp: half_ok_def)

lemma half_ok_mem:
  assumes "half_ok T bm arr" "t \<in> set (pq_tasks (arr p))"
  shows "p < 140" "k_prio (T t) = int p" "k_on_rq (T t)"
proof -
  show "p < 140" using assms half_okD(2) [OF assms(1), of p] by (cases "p < 140") auto
  then show "k_prio (T t) = int p" "k_on_rq (T t)"
    using half_okD(1) [OF assms(1), of p] assms(2) by (auto simp: q_ok_def)
qed

lemma in_arr_prio:
  assumes "half_ok T bm arr" "in_arr arr t"
  shows "t \<in> set (pq_tasks (arr (nat (k_prio (T t)))))" "0 \<le> k_prio (T t)" "k_prio (T t) < 140"
  using assms half_ok_mem [OF assms(1), of t] unfolding in_arr_def by force+

lemma queued_on_rq: "sched_inv s \<Longrightarrow> queued_on s c t \<Longrightarrow> k_on_rq (tasks s t)"
  unfolding sched_inv_def rq_inv_def queued_on_def in_arr_def using half_ok_mem(3) by metis

text \<open>A queue depends on its own tasks only.\<close>

lemma half_ok_cong:
  assumes "half_ok T bm arr" "\<And>t. in_arr arr t \<Longrightarrow> k_prio (T' t) = k_prio (T t) \<and> k_on_rq (T' t)"
  shows "half_ok T' bm arr"
  using assms unfolding half_ok_def q_ok_def in_arr_def by metis

lemma rq_inv_cong:
  assumes "rq_inv T rq"
    "\<And>t. in_arr (rq_active rq) t \<or> in_arr (rq_expired rq) t \<Longrightarrow>
       k_prio (T' t) = k_prio (T t) \<and> k_on_rq (T' t)"
  shows "rq_inv T' rq"
  using assms unfolding rq_inv_def by (auto intro: half_ok_cong)


section \<open>Adding a task to an array\<close>

lemma in_arr_add: "in_arr (arr(p := pq_add_tail t (arr p))) u \<longleftrightarrow> in_arr arr u \<or> u = t"
  by (auto simp: in_arr_def pq_add_tail_def)

lemma sum_fun_upd:
  fixes f :: "nat \<Rightarrow> 'a" and g :: "'a \<Rightarrow> nat"
  assumes "p < n"
  shows "(\<Sum>q<n. g ((f(p := x)) q)) + g (f p) = (\<Sum>q<n. g (f q)) + g x"
proof -
  have "(\<Sum>q\<in>{..<n} - {p}. g ((f(p := x)) q)) = (\<Sum>q\<in>{..<n} - {p}. g (f q))"
    by (rule sum.cong) auto
  then show ?thesis
    using assms sum.remove [of "{..<n}" p "\<lambda>q. g ((f(p := x)) q)"] sum.remove [of "{..<n}" p "\<lambda>q. g (f q)"]
    by simp
qed

lemma arr_size_add:
  "p < 140 \<Longrightarrow> arr_size (arr(p := pq_add_tail t (arr p))) = Suc (arr_size arr)"
  using sum_fun_upd [of p 140 "\<lambda>q. length (pq_tasks q)" arr "pq_add_tail t (arr p)"]
  by (simp add: arr_size_def pq_add_tail_def)

lemma half_ok_add:
  assumes "half_ok T bm arr" "\<not> in_arr arr t" "p < 140"
    "k_prio (T' t) = int p" "k_on_rq (T' t)"
    "\<And>u. u \<noteq> t \<Longrightarrow> k_prio (T' u) = k_prio (T u) \<and> k_on_rq (T' u) = k_on_rq (T u)"
  shows "half_ok T' (set_prio_bit bm p) (arr(p := pq_add_tail t (arr p)))"
  unfolding half_ok_def
proof (intro conjI allI impI)
  fix q :: nat assume q: "q < 140"
  have t: "t \<notin> set (pq_tasks (arr q))" using assms(2) by (auto simp: in_arr_def)
  show "q_ok T' (set_prio_bit bm p) q ((arr(p := pq_add_tail t (arr p))) q)"
    using half_okD(1) [OF assms(1) q] t assms(4-6)
    by (auto simp: q_ok_def rq_simps pq_add_tail_def) (metis | blast)+
next
  fix q :: nat assume "140 \<le> q"
  then show "pq_tasks ((arr(p := pq_add_tail t (arr p))) q) = []"
    using assms(3) half_okD(2) [OF assms(1), of q] by auto
next
  fix q :: nat assume "140 \<le> q \<and> q < 512"
  then show "\<not> test_prio_bit (set_prio_bit bm p) q"
    using assms(3) half_okD(3) [OF assms(1), of q] by (auto simp: rq_simps)
qed

section \<open>Removing a task from an array\<close>

definition arr_del :: "tid \<Rightarrow> (nat \<Rightarrow> prio_queue) \<Rightarrow> (nat \<Rightarrow> prio_queue)" where
  "arr_del t arr = (\<lambda>p. (arr p)\<lparr>pq_tasks := removeAll t (pq_tasks (arr p))\<rparr>)"

lemma rq_list_del_arr:
  "rq_list_del t rq = rq\<lparr>rq_active := arr_del t (rq_active rq), rq_expired := arr_del t (rq_expired rq)\<rparr>"
  by (simp add: rq_list_del_def arr_del_def)

lemma arr_del_absent: "\<not> in_arr arr t \<Longrightarrow> arr_del t arr = arr"
  by (rule ext) (simp add: arr_del_def in_arr_def removeAll_id)

lemma in_arr_del: "in_arr (arr_del t arr) u \<longleftrightarrow> in_arr arr u \<and> u \<noteq> t"
  by (auto simp: in_arr_def arr_del_def)

lemma in_arr_count: "in_arr (arr(p := (arr p)\<lparr>pq_count := n\<rparr>)) u \<longleftrightarrow> in_arr arr u"
  by (auto simp: in_arr_def)

lemma length_removeAll_distinct: "distinct xs \<Longrightarrow> t \<in> set xs \<Longrightarrow> Suc (length (removeAll t xs)) = length xs"
  using length_pos_if_in_set [of t xs] by (simp add: distinct_remove1_removeAll [symmetric] length_remove1)

lemma arr_del_present:
  assumes "half_ok T bm arr" "in_arr arr t" "p = nat (k_prio (T t))"
  shows "arr_del t arr = arr(p := (arr p)\<lparr>pq_tasks := removeAll t (pq_tasks (arr p))\<rparr>)"
proof
  fix q
  have "t \<notin> set (pq_tasks (arr q))" if "q \<noteq> p"
    using half_ok_mem(2) [OF assms(1), of t q] assms(3) that by auto
  then show "arr_del t arr q = (arr(p := (arr p)\<lparr>pq_tasks := removeAll t (pq_tasks (arr p))\<rparr>)) q"
    by (auto simp: arr_del_def removeAll_id)
qed

lemma half_ok_uncount:
  assumes "half_ok T bm arr" "in_arr arr t" "p = nat (k_prio (T t))"
    "\<And>u. u \<noteq> t \<Longrightarrow> k_prio (T' u) = k_prio (T u) \<and> k_on_rq (T' u) = k_on_rq (T u)"
  shows "half_ok T'
      (if pq_count (arr p) - 1 = 0 then clear_prio_bit bm p else bm)
      ((arr_del t arr)(p := (arr_del t arr p)\<lparr>pq_count := pq_count (arr p) - 1\<rparr>))"
    and "Suc (arr_size ((arr_del t arr)(p := (arr_del t arr p)\<lparr>pq_count := pq_count (arr p) - 1\<rparr>)))
      = arr_size arr"
proof -
  note mem = in_arr_prio [OF assms(1,2)]
  have p: "p < 140" "t \<in> set (pq_tasks (arr p))" using mem assms(3) by auto
  have qp: "q_ok T bm p (arr p)" using half_okD(1) [OF assms(1) p(1)] .
  have len: "Suc (length (removeAll t (pq_tasks (arr p)))) = length (pq_tasks (arr p))"
    using qp p(2) by (intro length_removeAll_distinct) (auto simp: q_ok_def)
  let ?q = "(arr p)\<lparr>pq_tasks := removeAll t (pq_tasks (arr p)), pq_count := pq_count (arr p) - 1\<rparr>"
  have arr: "(arr_del t arr)(p := (arr_del t arr p)\<lparr>pq_count := pq_count (arr p) - 1\<rparr>) = arr(p := ?q)"
    using arr_del_present [OF assms(1-3)] by simp
  let ?bm = "if pq_count (arr p) - 1 = 0 then clear_prio_bit bm p else bm"
  have other: "t \<notin> set (pq_tasks (arr q))" if "q \<noteq> p" for q
    using half_ok_mem(2) [OF assms(1), of t q] assms(3) that by auto
  have empty: "pq_count (arr p) - 1 = 0 \<longleftrightarrow> removeAll t (pq_tasks (arr p)) = []"
  proof -
    have "pq_count (arr p) - 1 = int (length (removeAll t (pq_tasks (arr p))))"
      using qp len by (simp add: q_ok_def)
    then show ?thesis by simp
  qed
  have "q_ok T' ?bm q ((arr(p := ?q)) q)" if q: "q < 140" for q
  proof (cases "q = p")
    case True
    then show ?thesis
      using qp len empty assms(4) p(2) by (auto simp: q_ok_def rq_simps distinct_removeAll)
  next
    case False
    then show ?thesis
      using half_okD(1) [OF assms(1) q] other [OF False] assms(4)
      by (auto simp: q_ok_def rq_simps) (metis | blast)+
  qed
  moreover have "pq_tasks ((arr(p := ?q)) q) = []" if "140 \<le> q" for q
    using half_okD(2) [OF assms(1) that] p(1) that by auto
  moreover have "\<not> test_prio_bit ?bm q" if "140 \<le> q" "q < 512" for q
    using half_okD(3) [OF assms(1) that] by (auto simp: rq_simps)
  ultimately show "half_ok T' ?bm
      ((arr_del t arr)(p := (arr_del t arr p)\<lparr>pq_count := pq_count (arr p) - 1\<rparr>))"
    unfolding arr half_ok_def by blast
  show "Suc (arr_size ((arr_del t arr)(p := (arr_del t arr p)\<lparr>pq_count := pq_count (arr p) - 1\<rparr>)))
      = arr_size arr"
    unfolding arr arr_size_def
    using sum_fun_upd [OF p(1), of "\<lambda>q. length (pq_tasks q)" arr ?q] len by simp
qed


section \<open>Every operation keeps the queues well formed\<close>

lemma upd_simps [simp]:
  "rqs (upd_rq c f s) = (rqs s)(c := f (rqs s c))" "tasks (upd_rq c f s) = tasks s"
  "rqs (upd_task t g s) = rqs s" "tasks (upd_task t g s) = (tasks s)(t := g (tasks s t))"
  "rqs (sched_list_del t s) = (\<lambda>c. rq_list_del t (rqs s c))" "tasks (sched_list_del t s) = tasks s"
  by (simp_all add: upd_rq_def upd_task_def sched_list_del_def)

lemma sched_invI:
  assumes "\<And>c. rq_inv (tasks s) (rqs s c)" "\<And>t c d. queued_on s c t \<Longrightarrow> queued_on s d t \<Longrightarrow> c = d"
  shows "sched_inv s"
  using assms by (auto simp: sched_inv_def)

lemma sched_invD:
  assumes "sched_inv s"
  shows "rq_inv (tasks s) (rqs s c)" "queued_on s c t \<Longrightarrow> queued_on s d t \<Longrightarrow> c = d"
  using assms by (auto simp: sched_inv_def)

lemma rq_inv_halves:
  assumes "rq_inv T rq"
  shows "half_ok T (rq_active_bitmap rq) (rq_active rq)" "half_ok T (rq_expired_bitmap rq) (rq_expired rq)"
    "\<not> (in_arr (rq_active rq) t \<and> in_arr (rq_expired rq) t)"
    "rq_nr_running rq = of_nat (arr_size (rq_active rq) + arr_size (rq_expired rq))"
  using assms by (auto simp: rq_inv_def)

text \<open>Which task sits where after each operation.\<close>

lemma queued_on_enqueue: "queued_on (enqueue_task c t s) d u \<longleftrightarrow> queued_on s d u \<or> (d = c \<and> u = t)"
  by (auto simp: queued_on_def enqueue_task_def Let_def in_arr_add)

lemma queued_on_expire: "queued_on (expire_task c t s) d u \<longleftrightarrow> queued_on s d u \<or> (d = c \<and> u = t)"
  by (auto simp: queued_on_def expire_task_def Let_def in_arr_add)

lemma queued_on_dequeue: "queued_on (dequeue_task c t s) d u \<longleftrightarrow> queued_on s d u \<and> u \<noteq> t"
  by (auto simp: queued_on_def dequeue_task_def rq_uncount_def Let_def rq_list_del_arr in_arr_count
      in_arr_del)

lemma queued_on_swap:
  "queued_on (upd_rq c swap_arrays s) d u \<longleftrightarrow> queued_on s d u"
  by (auto simp: queued_on_def swap_arrays_def)

lemma not_on_rq_not_queued: "sched_inv s \<Longrightarrow> \<not> k_on_rq (tasks s t) \<Longrightarrow> \<not> queued_on s c t"
  using queued_on_rq by blast

lemma rq_inv_other:
  assumes "sched_inv s" "rqs s' d = rqs s d"
    "\<And>u. queued_on s d u \<Longrightarrow> k_prio (tasks s' u) = k_prio (tasks s u) \<and> k_on_rq (tasks s' u)"
  shows "rq_inv (tasks s') (rqs s' d)"
  using rq_inv_cong [OF sched_invD(1) [OF assms(1), of d], of "tasks s'"] assms(2,3)
  by (simp add: queued_on_def)

lemma enqueue_task_inv:
  assumes "sched_inv s" "\<not> k_on_rq (tasks s t)" "0 \<le> k_prio (tasks s t)" "k_prio (tasks s t) < 140"
  shows "sched_inv (enqueue_task c t s)"
proof (rule sched_invI)
  note nq = not_on_rq_not_queued [OF assms(1,2)]
  let ?s = "enqueue_task c t s" and ?p = "nat (k_prio (tasks s t))"
  have p: "?p < 140" "int ?p = k_prio (tasks s t)" using assms(3,4) by auto
  have T: "tasks ?s = (tasks s)(t := (tasks s t)\<lparr>k_on_rq := True\<rparr>)"
    by (simp add: enqueue_task_def Let_def)
  show "rq_inv (tasks ?s) (rqs ?s d)" for d
  proof (cases "d = c")
    case False
    then have "rqs ?s d = rqs s d" by (simp add: enqueue_task_def Let_def)
    then show ?thesis
      using queued_on_rq [OF assms(1), of d] by (intro rq_inv_other [OF assms(1)]) (auto simp: T)
  next
    case True
    note h = rq_inv_halves [OF sched_invD(1) [OF assms(1), of c]]
    have na: "\<not> in_arr (rq_active (rqs s c)) t" "\<not> in_arr (rq_expired (rqs s c)) t"
      using nq [of c] by (auto simp: queued_on_def)
    have act: "half_ok (tasks ?s) (set_prio_bit (rq_active_bitmap (rqs s c)) ?p)
        ((rq_active (rqs s c))(?p := pq_add_tail t (rq_active (rqs s c) ?p)))"
      using half_ok_add [OF h(1) na(1) p(1), of "tasks ?s"] p(2) by (simp add: T)
    have exp: "half_ok (tasks ?s) (rq_expired_bitmap (rqs s c)) (rq_expired (rqs s c))"
      using half_ok_cong [OF h(2), of "tasks ?s"] na(2) half_ok_mem(3) [OF h(2)]
      by (fastforce simp: T in_arr_def)
    show ?thesis
      using act exp h(3,4) na arr_size_add [OF p(1)] True
      by (auto simp: rq_inv_def enqueue_task_def Let_def in_arr_add)
  qed
  show "c' = d" if "queued_on ?s c' u" "queued_on ?s d u" for u c' d
    using that nq sched_invD(2) [OF assms(1)] by (auto simp: queued_on_enqueue)
qed

lemma expire_task_inv:
  assumes "sched_inv s" "\<not> k_on_rq (tasks s t)" "0 \<le> k_prio (tasks s t)" "k_prio (tasks s t) < 140"
  shows "sched_inv (expire_task c t s)"
proof (rule sched_invI)
  note nq = not_on_rq_not_queued [OF assms(1,2)]
  let ?s = "expire_task c t s" and ?p = "nat (k_prio (tasks s t))"
  have p: "?p < 140" "int ?p = k_prio (tasks s t)" using assms(3,4) by auto
  have T: "k_prio (tasks ?s u) = k_prio (tasks s u)" "k_on_rq (tasks ?s u) \<longleftrightarrow> u = t \<or> k_on_rq (tasks s u)" for u
    by (simp_all add: expire_task_def Let_def)
  show "rq_inv (tasks ?s) (rqs ?s d)" for d
  proof (cases "d = c")
    case False
    then have "rqs ?s d = rqs s d" by (simp add: expire_task_def Let_def)
    then show ?thesis
      using queued_on_rq [OF assms(1), of d] by (intro rq_inv_other [OF assms(1)]) (auto simp: T)
  next
    case True
    note h = rq_inv_halves [OF sched_invD(1) [OF assms(1), of c]]
    have na: "\<not> in_arr (rq_active (rqs s c)) t" "\<not> in_arr (rq_expired (rqs s c)) t"
      using nq [of c] by (auto simp: queued_on_def)
    have exp: "half_ok (tasks ?s) (set_prio_bit (rq_expired_bitmap (rqs s c)) ?p)
        ((rq_expired (rqs s c))(?p := pq_add_tail t (rq_expired (rqs s c) ?p)))"
      using half_ok_add [OF h(2) na(2) p(1), of "tasks ?s"] p(2) by (simp add: T)
    have act: "half_ok (tasks ?s) (rq_active_bitmap (rqs s c)) (rq_active (rqs s c))"
      using half_ok_cong [OF h(1), of "tasks ?s"] half_ok_mem(3) [OF h(1)]
      by (fastforce simp: T in_arr_def)
    show ?thesis
      using act exp h(3,4) na arr_size_add [OF p(1)] True
      by (auto simp: rq_inv_def expire_task_def Let_def in_arr_add)
  qed
  show "c' = d" if "queued_on ?s c' u" "queued_on ?s d u" for u c' d
    using that nq sched_invD(2) [OF assms(1)] by (auto simp: queued_on_expire)
qed

lemma dequeue_task_inv:
  assumes "sched_inv s" "in_arr (rq_active (rqs s c)) t"
  shows "sched_inv (dequeue_task c t s)"
proof (rule sched_invI)
  let ?s = "dequeue_task c t s" and ?p = "nat (k_prio (tasks s t))"
  have q: "queued_on s c t" using assms(2) by (simp add: queued_on_def)
  have T: "k_prio (tasks ?s u) = k_prio (tasks s u)" "u \<noteq> t \<Longrightarrow> k_on_rq (tasks ?s u) = k_on_rq (tasks s u)" for u
    by (simp_all add: dequeue_task_def)
  show "rq_inv (tasks ?s) (rqs ?s d)" for d
  proof (cases "d = c")
    case False
    then have nd: "\<not> queued_on s d t" using sched_invD(2) [OF assms(1) q] by blast
    then have "rqs ?s d = rqs s d"
      using False by (simp add: dequeue_task_def rq_list_del_arr arr_del_absent queued_on_def)
    then show ?thesis
      using nd queued_on_rq [OF assms(1), of d] T by (intro rq_inv_other [OF assms(1)]) metis+
  next
    case True
    note h = rq_inv_halves [OF sched_invD(1) [OF assms(1), of c]]
    have ne: "\<not> in_arr (rq_expired (rqs s c)) t" using h(3) [of t] assms(2) by blast
    note u = half_ok_uncount [OF h(1) assms(2) refl, of "tasks ?s"]
    have exp: "half_ok (tasks ?s) (rq_expired_bitmap (rqs s c)) (rq_expired (rqs s c))"
      using half_ok_cong [OF h(2), of "tasks ?s"] half_ok_mem(3) [OF h(2)] ne T
      by (metis in_arr_def)
    have rq: "rqs ?s c = rq_uncount (k_prio (tasks s t))
        ((rqs s c)\<lparr>rq_active := arr_del t (rq_active (rqs s c))\<rparr>)"
      using ne by (simp add: dequeue_task_def rq_list_del_arr arr_del_absent)
    have cnt: "pq_count (arr_del t (rq_active (rqs s c)) ?p) = pq_count (rq_active (rqs s c) ?p)"
      by (simp add: arr_del_def)
    have "of_nat (Suc n) - 1 = (of_nat n :: u64)" for n by simp
    then have nr: "rq_nr_running (rqs s c) - 1 =
        of_nat (arr_size ((arr_del t (rq_active (rqs s c)))(?p := (arr_del t (rq_active (rqs s c)) ?p)
           \<lparr>pq_count := pq_count (rq_active (rqs s c) ?p) - 1\<rparr>)) + arr_size (rq_expired (rqs s c)))"
      using h(4) u(2) T by (metis add_Suc)
    show ?thesis
      using u(1) T exp h(3) ne nr cnt True
      by (auto simp: rq_inv_def rq rq_uncount_def Let_def in_arr_count in_arr_del)
  qed
  show "c' = d" if "queued_on ?s c' u" "queued_on ?s d u" for u c' d
    using that sched_invD(2) [OF assms(1)] by (auto simp: queued_on_dequeue)
qed


text \<open>Updates that touch neither the lists nor what the queues say about their tasks.\<close>

definition rq_core :: "runqueue \<Rightarrow> (nat \<Rightarrow> prio_queue) \<times> (nat \<Rightarrow> prio_queue) \<times> (nat \<Rightarrow> u64) \<times> (nat \<Rightarrow> u64) \<times> u64" where
  "rq_core rq = (rq_active rq, rq_expired rq, rq_active_bitmap rq, rq_expired_bitmap rq, rq_nr_running rq)"

lemma rq_inv_core: "rq_core rq' = rq_core rq \<Longrightarrow> rq_inv T rq' = rq_inv T rq"
  by (simp add: rq_core_def rq_inv_def)

lemma queued_on_core: "rq_core (rqs s' c) = rq_core (rqs s c) \<Longrightarrow> queued_on s' c t = queued_on s c t"
  by (simp add: rq_core_def queued_on_def)

lemma sched_inv_frame:
  assumes "sched_inv s" "\<And>c. rq_core (rqs s' c) = rq_core (rqs s c)"
    "\<And>u. k_prio (tasks s' u) = k_prio (tasks s u) \<and> k_on_rq (tasks s' u) = k_on_rq (tasks s u)
       \<or> (\<forall>c. \<not> queued_on s c u)"
  shows "sched_inv s'"
proof (rule sched_invI)
  show "rq_inv (tasks s') (rqs s' c)" for c
  proof -
    have "rq_inv (tasks s') (rqs s c)"
      using queued_on_rq [OF assms(1), of c] assms(3)
      by (intro rq_inv_cong [OF sched_invD(1) [OF assms(1)]]) (metis queued_on_def)
    then show ?thesis using rq_inv_core [OF assms(2)] by simp
  qed
  show "c = d" if "queued_on s' c t" "queued_on s' d t" for t c d
    using that sched_invD(2) [OF assms(1)] by (simp add: queued_on_core [OF assms(2)])
qed

lemma swap_arrays_inv: "rq_inv T rq \<Longrightarrow> rq_inv T (swap_arrays rq)"
  by (auto simp: rq_inv_def swap_arrays_def add.commute)

lemma upd_rq_inv:
  assumes "sched_inv s" "rq_inv (tasks s) rq"
    "\<And>t. in_arr (rq_active rq) t \<or> in_arr (rq_expired rq) t \<longleftrightarrow> queued_on s c t"
  shows "sched_inv (upd_rq c (\<lambda>_. rq) s)"
    and "queued_on (upd_rq c (\<lambda>_. rq) s) d t \<longleftrightarrow> queued_on s d t"
proof -
  show q: "queued_on (upd_rq c (\<lambda>_. rq) s) d t \<longleftrightarrow> queued_on s d t" for d t
    using assms(3) by (auto simp: queued_on_def)
  show "sched_inv (upd_rq c (\<lambda>_. rq) s)"
    using sched_invD [OF assms(1)] assms(2) q by (intro sched_invI) auto
qed

section \<open>The choice of the next task\<close>

definition best_level :: "(nat \<Rightarrow> prio_queue) \<Rightarrow> nat \<Rightarrow> bool" where
  "best_level arr p \<longleftrightarrow> pq_tasks (arr p) \<noteq> [] \<and> (\<forall>q<p. pq_tasks (arr q) = [])"

lemma half_ok_first:
  assumes "half_ok T bm arr"
  shows "find_first_set_bit bm = - 1 \<and> (\<forall>p. pq_tasks (arr p) = [])
    \<or> (\<exists>p<140. find_first_set_bit bm = int p \<and> best_level arr p)"
proof -
  have bit: "test_prio_bit bm p \<longleftrightarrow> pq_tasks (arr p) \<noteq> []" if "p < 512" for p
    using half_okD [OF assms, of p] that by (cases "p < 140") (auto simp: q_ok_def)
  show ?thesis
  proof (cases rule: find_first_set_bit_cases [of bm])
    case 1
    then have "pq_tasks (arr p) = []" for p
      using bit [of p] half_okD(2) [OF assms, of p] by (cases "p < 140") auto
    then show ?thesis using 1(1) by blast
  next
    case (2 p)
    have "p < 140" using 2 half_okD(3) [OF assms, of p] by (cases "p < 140") auto
    then show ?thesis using 2 bit by (auto simp: best_level_def)
  qed
qed

lemma pick_next_task_cases:
  assumes "rq_inv T rq"
  shows "(\<exists>p<140. best_level (rq_active rq) p \<and>
            pick_next_task rq = (Some (hd (pq_tasks (rq_active rq p))), rq))
    \<or> (\<exists>p<140. (\<forall>q. pq_tasks (rq_active rq q) = []) \<and> best_level (rq_expired rq) p \<and>
            pick_next_task rq = (Some (hd (pq_tasks (rq_expired rq p))), swap_arrays rq))
    \<or> ((\<forall>q. pq_tasks (rq_active rq q) = [] \<and> pq_tasks (rq_expired rq q) = []) \<and>
            pick_next_task rq = (rq_idle rq, rq))"
  using half_ok_first [OF rq_inv_halves(1) [OF assms]] half_ok_first [OF rq_inv_halves(2) [OF assms]]
  by (auto simp: pick_next_task_def pick_at_def swap_arrays_def best_level_def neq_Nil_conv)

lemma best_level_prio:
  assumes "half_ok T bm arr" "best_level arr p" "in_arr arr u"
  shows "in_arr arr (hd (pq_tasks (arr p)))" "k_prio (T (hd (pq_tasks (arr p)))) = int p"
    "k_prio (T (hd (pq_tasks (arr p)))) \<le> k_prio (T u)"
proof -
  have h: "hd (pq_tasks (arr p)) \<in> set (pq_tasks (arr p))" using assms(2) by (simp add: best_level_def)
  then show "in_arr arr (hd (pq_tasks (arr p)))" by (auto simp: in_arr_def)
  show hp: "k_prio (T (hd (pq_tasks (arr p)))) = int p" using half_ok_mem(2) [OF assms(1) h] .
  obtain q where q: "u \<in> set (pq_tasks (arr q))" using assms(3) by (auto simp: in_arr_def)
  then have "p \<le> q" using assms(2) by (cases "q < p") (auto simp: best_level_def)
  then show "k_prio (T (hd (pq_tasks (arr p)))) \<le> k_prio (T u)"
    using hp half_ok_mem(2) [OF assms(1) q] by simp
qed

lemma in_arr_empty: "(\<forall>q. pq_tasks (arr q) = []) \<Longrightarrow> \<not> in_arr arr u"
  by (simp add: in_arr_def)

lemma best_level_nonempty: "best_level arr p \<Longrightarrow> in_arr arr (hd (pq_tasks (arr p)))"
  by (auto simp: best_level_def in_arr_def intro: exI [of _ p])

section \<open>The scheduling decision\<close>

definition curr_ok :: "sched \<Rightarrow> cpu_id \<Rightarrow> bool" where
  "curr_ok s c \<longleftrightarrow>
     (case rq_curr (rqs s c) of None \<Rightarrow> True
      | Some p \<Rightarrow> Some p \<noteq> rq_idle (rqs s c) \<longrightarrow>
          0 \<le> k_prio (tasks s p) \<and> k_prio (tasks s p) < 140 \<and>
          (k_on_rq (tasks s p) \<longrightarrow> in_arr (rq_active (rqs s c)) p))"

lemma rq_frame [simp]:
  "rq_idle (rqs (dequeue_task c t s) d) = rq_idle (rqs s d)"
  "rq_idle (rqs (enqueue_task c t s) d) = rq_idle (rqs s d)"
  "rq_idle (rqs (expire_task c t s) d) = rq_idle (rqs s d)"
  "rq_idle (swap_arrays rq) = rq_idle rq"
  "k_prio (tasks (dequeue_task c t s) u) = k_prio (tasks s u)"
  "k_state (tasks (dequeue_task c t s) u) = k_state (tasks s u)"
  "\<not> k_on_rq (tasks (dequeue_task c t s) t)"
  by (simp_all add: dequeue_task_def enqueue_task_def expire_task_def Let_def rq_uncount_def
      rq_list_del_arr swap_arrays_def)

lemma put_prev_spec:
  assumes "sched_inv s" "curr_ok s c"
  shows "sched_inv (put_prev c s)" "rq_idle (rqs (put_prev c s) d) = rq_idle (rqs s d)"
    "k_prio (tasks (put_prev c s) u) = k_prio (tasks s u)"
    "k_state (tasks (put_prev c s) u) = k_state (tasks s u)"
    "rq_curr (rqs s c) = Some p \<Longrightarrow> Some p \<noteq> rq_idle (rqs s c) \<Longrightarrow>
       \<not> k_on_rq (tasks (put_prev c s) p) \<and> 0 \<le> k_prio (tasks s p) \<and> k_prio (tasks s p) < 140"
  using assms dequeue_task_inv [OF assms(1), of c]
  by (auto simp: put_prev_def curr_ok_def split: option.splits if_splits)

lemma in_arr_put_prev:
  assumes "sched_inv s" "curr_ok s c" "Some u \<noteq> rq_curr (rqs s c)"
  shows "in_arr (rq_active (rqs (put_prev c s) c)) u = in_arr (rq_active (rqs s c)) u"
    "in_arr (rq_expired (rqs (put_prev c s) c)) u = in_arr (rq_expired (rqs s c)) u"
  using assms(3)
  by (auto simp: put_prev_def dequeue_task_def rq_uncount_def Let_def rq_list_del_arr in_arr_count
      in_arr_del split: option.splits)

lemma pick_next_inv:
  assumes "sched_inv s" "pick_next_task (rqs s c) = (nxt, rq1)"
  shows "sched_inv (upd_rq c (\<lambda>_. rq1) s)" "rq_idle rq1 = rq_idle (rqs s c)"
    "queued_on (upd_rq c (\<lambda>_. rq1) s) d u \<longleftrightarrow> queued_on s d u"
proof -
  have rq1: "rq1 = rqs s c \<or> rq1 = swap_arrays (rqs s c)"
    using pick_next_task_cases [OF sched_invD(1) [OF assms(1), of c]] assms(2) by auto
  show "rq_idle rq1 = rq_idle (rqs s c)" using rq1 by auto
  have inv: "rq_inv (tasks s) rq1"
    using rq1 sched_invD(1) [OF assms(1), of c] swap_arrays_inv by auto
  have q: "in_arr (rq_active rq1) t \<or> in_arr (rq_expired rq1) t \<longleftrightarrow> queued_on s c t" for t
    using rq1 by (auto simp: queued_on_def swap_arrays_def)
  show "sched_inv (upd_rq c (\<lambda>_. rq1) s)" "queued_on (upd_rq c (\<lambda>_. rq1) s) d u \<longleftrightarrow> queued_on s d u"
    using upd_rq_inv [OF assms(1) inv q] by auto
qed

lemma requeue_prev_inv:
  assumes "sched_inv s" "\<And>p. prev = Some p \<Longrightarrow> Some p \<noteq> rq_idle (rqs s c) \<Longrightarrow>
     \<not> k_on_rq (tasks s p) \<and> 0 \<le> k_prio (tasks s p) \<and> k_prio (tasks s p) < 140"
  shows "sched_inv (requeue_prev c prev s)"
    "rq_idle (rqs (requeue_prev c prev s) d) = rq_idle (rqs s d)"
    "k_mm (tasks (requeue_prev c prev s) u) = k_mm (tasks s u)"
proof -
  have "sched_inv (upd_task p (\<lambda>x. x\<lparr>k_time_slice := 100\<rparr>) s)" for p
    by (rule sched_inv_frame [OF assms(1)]) auto
  then show "sched_inv (requeue_prev c prev s)"
    using assms by (auto simp: requeue_prev_def intro!: expire_task_inv enqueue_task_inv
        split: option.splits)
  show "rq_idle (rqs (requeue_prev c prev s) d) = rq_idle (rqs s d)"
    by (auto simp: requeue_prev_def split: option.splits)
  show "k_mm (tasks (requeue_prev c prev s) u) = k_mm (tasks s u)"
    by (auto simp: requeue_prev_def enqueue_task_def expire_task_def Let_def split: option.splits)
qed


lemma commit_next_frame:
  assumes "commit_next c msr prev nxt s2 = (s', r)"
  shows "rq_core (rqs s' d) = rq_core (rqs s2 d)"
    and "k_prio (tasks s' u) = k_prio (tasks s2 u)" "k_on_rq (tasks s' u) = k_on_rq (tasks s2 u)"
  using assms
  by (auto simp: commit_next_def Let_def rq_core_def upd_rq_def upd_task_def
      split: option.splits if_splits)

lemma commit_next_result:
  assumes "commit_next c msr prev nxt s2 = (s', r)"
  shows "r = None \<longleftrightarrow> nxt = None \<or> nxt = rq_idle (rqs s2 c) \<or> nxt = prev"
    and "r = Some w \<Longrightarrow> nxt = Some (sw_next w) \<and> rq_curr (rqs s' c) = nxt \<and> current_tasks s' c = nxt
       \<and> sw_prev w = prev"
  using assms
  by (auto simp: commit_next_def Let_def upd_rq_def upd_task_def split: option.splits if_splits)

lemma schedule_impl_commit:
  assumes "pick_next_task (rqs (put_prev c s) c) = (nxt, rq1)"
  shows "schedule_impl c msr s = commit_next c msr (rq_curr (rqs s c)) nxt
           (requeue_prev c (rq_curr (rqs s c)) (upd_rq c (\<lambda>_. rq1) (put_prev c s)))"
  by (simp add: schedule_impl_def assms Let_def)

section \<open>Properties\<close>


definition demo_rtask :: "int \<Rightarrow> rtask" where
  "demo_rtask prio =
     \<lparr>k_state = TASK_RUNNING, k_on_rq = False, k_prio = prio, k_static_prio = prio,
      k_rt_priority = 0, k_policy = SCHED_NORMAL, k_time_slice = 5, k_sum_exec = 0,
      k_cpus_allowed = 0, k_cpu = 0, k_stack = 4096, k_mm = None, k_tls = 0\<rparr>"

text \<open>Task 0 is the idle task; 1 and 4 have priority 120, the others 125.\<close>

definition demo_sched :: sched where
  "demo_sched =
     \<lparr>rqs = (\<lambda>c. (rq_init c)\<lparr>rq_idle := Some 0, rq_curr := Some 0\<rparr>),
      tasks = (\<lambda>t. demo_rtask (if t = 1 \<or> t = 4 then 120 else 125)),
      current_tasks = (\<lambda>_. None), lb_next_balance = (\<lambda>_. 0), jiffies = 0,
      load_avg_1 = 0, load_avg_5 = 0, load_avg_15 = 0, load_next_update = 0\<rparr>"

lemma demo_sched_inv: "sched_inv demo_sched"
  by (auto simp: sched_inv_def rq_inv_def half_ok_def q_ok_def in_arr_def queued_on_def arr_size_def
      demo_sched_def rq_init_def pq_init_def test_prio_bit_iff)

lemma demo_curr_ok: "curr_ok demo_sched c" "curr_ok (enqueue_task 0 1 demo_sched) c"
  by (auto simp: curr_ok_def demo_sched_def enqueue_task_def Let_def upd_rq_def upd_task_def)

lemma demo_enqueue_inv: "sched_inv (enqueue_task 0 1 demo_sched)"
  by (rule enqueue_task_inv [OF demo_sched_inv]) (simp_all add: demo_sched_def demo_rtask_def)




end
