(* ===== verification/Sched_Balance.thy ===== *)
theory Sched_Balance
  imports Sched_Correct
begin

text \<open>
  The load balancer and the arithmetic of \<^verbatim>\<open>kernel/sched.c\<close>: what a balancing pass may
  move and what it keeps, the choice of the busiest queue, time slices and load averages;
  then the runs where the counters of the queues drift from the lists they count.
\<close>

section \<open>Migration\<close>

definition allowed_on :: "rtask \<Rightarrow> cpu_id \<Rightarrow> bool" where
  "allowed_on t c \<longleftrightarrow> k_cpus_allowed t = 0 \<or> bit (k_cpus_allowed t) c"

lemma affinity_test:
  "dst < 64 \<Longrightarrow> (m :: u64) AND push_bit dst 1 = 0 \<longleftrightarrow> \<not> bit m dst"
  by (simp add: push_bit_eq_mult and_exp_eq_0_iff_not_bit)

lemma find_migratable_from_Some:
  assumes "find_migratable_from s src dst n = Some t"
  shows "in_arr (rq_active (rqs s src)) t \<and> migratable s src dst t"
  using assms
  by (induction n) (auto simp: Let_def in_arr_def find_Some_iff split: if_splits option.splits
      intro: nth_mem)

lemma migrate_fields [simp]:
  "rq_curr (rqs (task_migrate t src dst s) d) = rq_curr (rqs s d)"
  "rq_idle (rqs (task_migrate t src dst s) d) = rq_idle (rqs s d)"
  "k_cpus_allowed (tasks (task_migrate t src dst s) u) = k_cpus_allowed (tasks s u)"
  by (simp_all add: task_migrate_def dequeue_task_def enqueue_task_def sched_list_del_def rq_list_del_def
      rq_uncount_def upd_rq_def upd_task_def Let_def)

lemma queued_on_upd_task: "queued_on (upd_task t f s) d u = queued_on s d u"
  by (simp add: queued_on_def)

lemma task_migrate_spec:
  assumes "sched_inv s" "in_arr (rq_active (rqs s src)) t" "src \<noteq> dst"
  shows "sched_inv (task_migrate t src dst s)"
    "queued_on (task_migrate t src dst s) d u \<longleftrightarrow> (if u = t then d = dst else queued_on s d u)"
proof -
  have q: "queued_on s src t" using assms(2) by (simp add: queued_on_def)
  have on: "k_on_rq (tasks s t)" by (rule queued_on_rq [OF assms(1) q])
  have pr: "0 \<le> k_prio (tasks s t)" "k_prio (tasks s t) < 140"
    using in_arr_prio [OF rq_inv_halves(1) [OF sched_invD(1) [OF assms(1)]] assms(2)] by auto
  let ?s1 = "dequeue_task src t s"
  let ?s2 = "upd_task t (\<lambda>x. x\<lparr>k_cpu := rq_cpu (rqs ?s1 dst)\<rparr>) ?s1"
  let ?s3 = "enqueue_task dst t ?s2"
  have i1: "sched_inv ?s1" by (rule dequeue_task_inv [OF assms(1,2)])
  have i2: "sched_inv ?s2" by (rule sched_inv_frame [OF i1]) auto
  have i3: "sched_inv ?s3" by (rule enqueue_task_inv [OF i2]) (use pr in auto)
  have core: "rq_core (rqs (task_migrate t src dst s) c) = rq_core (rqs ?s3 c)"
    and fld: "tasks (task_migrate t src dst s) = tasks ?s3" for c
    using on by (simp_all add: task_migrate_def Let_def rq_core_def upd_rq_def)
  show "sched_inv (task_migrate t src dst s)"
    by (rule sched_inv_frame [OF i3]) (simp_all add: core fld)
  have "queued_on (task_migrate t src dst s) d u \<longleftrightarrow> queued_on ?s3 d u"
    by (rule queued_on_core [OF core])
  also have "\<dots> \<longleftrightarrow> (if u = t then d = dst else queued_on s d u)"
    by (auto simp: queued_on_enqueue queued_on_upd_task queued_on_dequeue)
  finally show "queued_on (task_migrate t src dst s) d u \<longleftrightarrow> (if u = t then d = dst else queued_on s d u)" .
qed

definition pulled_ok :: "sched \<Rightarrow> cpu_id \<Rightarrow> cpu_id \<Rightarrow> sched \<Rightarrow> bool" where
  "pulled_ok s src dst s' \<longleftrightarrow>
     sched_inv s' \<and> (\<forall>u. (\<exists>d. queued_on s' d u) \<longleftrightarrow> (\<exists>d. queued_on s d u)) \<and>
     (\<forall>u d. queued_on s' d u \<longrightarrow> queued_on s d u \<or>
        d = dst \<and> queued_on s src u \<and> allowed_on (tasks s u) dst \<and>
        Some u \<noteq> rq_curr (rqs s src) \<and> Some u \<noteq> rq_idle (rqs s src))"

lemma pulled_ok_refl: "sched_inv s \<Longrightarrow> pulled_ok s src dst s"
  by (simp add: pulled_ok_def)

lemma pulled_ok_step:
  assumes "sched_inv s" "in_arr (rq_active (rqs s src)) t" "migratable s src dst t"
    "src \<noteq> dst" "dst < 64" "pulled_ok (task_migrate t src dst s) src dst s'"
  shows "pulled_ok s src dst s'"
proof -
  note q = task_migrate_spec(2) [OF assms(1,2,4)]
  have t: "queued_on s src t" using assms(2) by (simp add: queued_on_def)
  have m: "allowed_on (tasks s t) dst" "Some t \<noteq> rq_curr (rqs s src)" "Some t \<noteq> rq_idle (rqs s src)"
    using assms(3) affinity_test [OF assms(5)] by (auto simp: migratable_def allowed_on_def)
  have a: "allowed_on (tasks (task_migrate t src dst s) u) d = allowed_on (tasks s u) d" for u d
    by (simp add: allowed_on_def)
  show ?thesis
    using assms(6) unfolding pulled_ok_def q a migrate_fields using t m by metis
qed

lemma lb_pull_ok:
  assumes "sched_inv s" "src \<noteq> dst" "dst < 64" "lb_pull n src dst s = (k, s')"
  shows "k \<le> n \<and> pulled_ok s src dst s'"
  using assms(1,4)
proof (induction n arbitrary: s k s')
  case (Suc n)
  show ?case
  proof (cases "find_migratable s src dst")
    case (Some t)
    then have t: "in_arr (rq_active (rqs s src)) t" "migratable s src dst t"
      using find_migratable_from_Some by (auto simp: find_migratable_def)
    obtain k' s'' where e: "lb_pull n src dst (task_migrate t src dst s) = (k', s'')" by fastforce
    note ih = Suc.IH [OF task_migrate_spec(1) [OF Suc.prems(1) t(1) assms(2)] e]
    show ?thesis
      using Suc.prems ih e Some pulled_ok_step [OF Suc.prems(1) t assms(2,3)] pulled_ok_refl
      by (auto split: if_splits)
  qed (use Suc.prems pulled_ok_refl in \<open>auto split: if_splits\<close>)
qed (simp add: pulled_ok_refl)

section \<open>The busiest queue\<close>

definition candidate :: "sched \<Rightarrow> cpu_id \<Rightarrow> cpu_id \<Rightarrow> bool" where
  "candidate s this c \<longleftrightarrow> c \<noteq> this \<and> rq_idle (rqs s c) \<noteq> None \<and> 1 < rq_nr_running (rqs s c)"

lemma busiest_fold:
  assumes "fold (busiest_step s this) cs (b, m) = (b', m')" "\<And>x. b = Some x \<Longrightarrow> m = rq_load (rqs s x)"
  shows "m \<le> m' \<and> (\<forall>c\<in>set cs. candidate s this c \<longrightarrow> rq_load (rqs s c) \<le> m') \<and>
    (m' = m \<and> b' = b \<or> m < m' \<and> (\<exists>c\<in>set cs. b' = Some c \<and> candidate s this c \<and> m' = rq_load (rqs s c)))"
  using assms
proof (induction cs arbitrary: b m)
  case (Cons c cs)
  obtain b1 m1 where s: "busiest_step s this c (b, m) = (b1, m1)" by fastforce
  have st: "m \<le> m1" "candidate s this c \<longrightarrow> rq_load (rqs s c) \<le> m1"
    "m1 = m \<and> b1 = b \<or> m < m1 \<and> b1 = Some c \<and> candidate s this c \<and> m1 = rq_load (rqs s c)"
    using s by (auto simp: busiest_step_def candidate_def Let_def not_less not_le split: if_splits)
  have "fold (busiest_step s this) cs (b1, m1) = (b', m')" using Cons.prems(1) s by simp
  from Cons.IH [OF this] st(3) Cons.prems(2) have ih: "m1 \<le> m'"
    "\<forall>c\<in>set cs. candidate s this c \<longrightarrow> rq_load (rqs s c) \<le> m'"
    "m' = m1 \<and> b' = b1 \<or> m1 < m' \<and> (\<exists>c\<in>set cs. b' = Some c \<and> candidate s this c \<and> m' = rq_load (rqs s c))"
    by auto
  show ?case using st ih by (auto intro: order_trans)
qed auto

lemma find_busiest_queue_cases:
  assumes "find_busiest_queue s this = r"
  shows "case r of
      Some b \<Rightarrow> b < 256 \<and> candidate s this b \<and> rq_load (rqs s this) + 20 < rq_load (rqs s b) \<and>
        (\<forall>c<256. candidate s this c \<longrightarrow> rq_load (rqs s c) \<le> rq_load (rqs s b))
    | None \<Rightarrow> \<forall>c<256. candidate s this c \<longrightarrow> rq_load (rqs s c) \<le> rq_load (rqs s this) + 20"
proof -
  obtain b m where f: "fold (busiest_step s this) [0..<256] (None, rq_load (rqs s this) + 20) = (b, m)"
    by fastforce
  show ?thesis
    using busiest_fold [OF f] assms f by (auto simp: find_busiest_queue_def split: option.splits)
qed

section \<open>Policy changes\<close>

lemma setscheduler_update:
  assumes "policy \<in> {1, 2} \<and> 0 \<le> prio \<and> prio \<le> 99 \<or> policy \<in> {0, 3, 5} \<and> - 20 \<le> prio \<and> prio \<le> 19"
    "sched_setscheduler (Some t) policy prio s = (ret, s')"
    and "s1 = (if k_on_rq (tasks s t) then dequeue_task (k_cpu (tasks s t)) t s else s)"
    and "x = tasks s1 t"
  shows "\<exists>f. s' = (if k_on_rq (tasks s t) then enqueue_task (k_cpu (tasks s t)) t (upd_task t f s1)
                   else upd_task t f s1) \<and>
    ret = 0 \<and> k_prio (f x) = (if policy \<in> {1, 2} then 99 - prio else 120 + prio) \<and>
    k_policy (f x) = policy \<and> k_on_rq (f x) = k_on_rq x \<and>
    k_time_slice (f x) = calculate_timeslice (f x)"
proof -
  let ?slice = "\<lambda>x. x\<lparr>k_time_slice := calculate_timeslice x\<rparr>"
  let ?rt = "\<lambda>x. ?slice (x\<lparr>k_policy := policy, k_rt_priority := word_of_int prio, k_prio := 99 - prio\<rparr>)"
  let ?nm = "\<lambda>x. let y = x\<lparr>k_policy := policy, k_static_prio := 120 + prio\<rparr> in ?slice (y\<lparr>k_prio := effective_prio y\<rparr>)"
  let ?f = "if policy \<in> {1, 2} then ?rt else ?nm"
  have u: "upd_task t g (upd_task t f z) = upd_task t (\<lambda>x. g (f x)) z" for f g z
    by (simp add: upd_task_def)
  have sl: "k_time_slice (?slice x) = calculate_timeslice (?slice x)" for x
    by (simp add: calculate_timeslice_def)
  have "(ret, s') = (0, if k_on_rq (tasks s t) then enqueue_task (k_cpu (tasks s t)) t (upd_task t ?f s1)
                        else upd_task t ?f s1)"
    using assms(1,2) unfolding assms(3) by (elim disjE) (auto simp: sched_setscheduler_def Let_def u)
  moreover have "k_prio (?f x) = (if policy \<in> {1, 2} then 99 - prio else 120 + prio)"
    using assms(1) by (auto simp: Let_def effective_prio_def)
  ultimately show ?thesis using sl by (intro exI [of _ ?f]) (simp add: Let_def)
qed

section \<open>Properties\<close>

text \<open>\<^emph>\<open>Load balancing.\<close> A balancing pass of a CPU below 64 over consistent run queues
  keeps them consistent, pulls at most four tasks, loses and duplicates none, and a task
  changes queue only towards this CPU, from one single other CPU with more than one runnable
  task, and only if its affinity mask allows it and it is neither the running nor the idle
  task there.\<close>

theorem sched_load_balance_correct:
  assumes "sched_inv s" "this < 64" "sched_load_balance this s = (n, s')"
  shows "sched_inv s' \<and> n \<le> 4 \<and> (\<forall>u. (\<exists>d. queued_on s' d u) \<longleftrightarrow> (\<exists>d. queued_on s d u)) \<and>
    (\<exists>src. (\<forall>u d. queued_on s' d u \<longrightarrow> queued_on s d u \<or>
        d = this \<and> src \<noteq> this \<and> 1 < rq_nr_running (rqs s src) \<and>
        queued_on s src u \<and> allowed_on (tasks s u) this \<and>
        Some u \<noteq> rq_curr (rqs s src) \<and> Some u \<noteq> rq_idle (rqs s src)))"
proof -
  let ?s1 = "s\<lparr>lb_next_balance := (lb_next_balance s)(this := jiffies s + 200 + of_nat this * 7)\<rparr>"
  have q: "queued_on ?s1 d u = queued_on s d u" for d u by (simp add: queued_on_def)
  have i: "sched_inv ?s1" by (rule sched_inv_frame [OF assms(1)]) auto
  consider (none) "n = 0" "sched_inv s'" "\<And>d u. queued_on s' d u = queued_on s d u"
    | (pull) src where "find_busiest_queue ?s1 this = Some src" "lb_pull 4 src this ?s1 = (n, s')"
    using assms(1,3) i q by (auto simp: sched_load_balance_def Let_def split: if_splits option.splits)
  then show ?thesis
  proof cases
    case pull
    have c: "candidate ?s1 this src" using find_busiest_queue_cases [OF pull(1)] by simp
    then have "n \<le> 4 \<and> pulled_ok ?s1 src this s'"
      using lb_pull_ok [OF i _ assms(2) pull(2)] by (simp add: candidate_def)
    then show ?thesis
      using c unfolding pulled_ok_def q candidate_def by auto
  qed auto
qed

definition demo_busy :: sched where
  "demo_busy = enqueue_task 1 4 (enqueue_task 1 1 demo_sched)"

lemma demo_enqueue1_inv: "sched_inv (enqueue_task 1 1 demo_sched)"
  by (rule enqueue_task_inv [OF demo_sched_inv]) (simp_all add: demo_sched_def demo_rtask_def)

lemma demo_busy_inv: "sched_inv demo_busy"
  unfolding demo_busy_def
  by (intro enqueue_task_inv demo_enqueue1_inv)
    (simp_all add: enqueue_task_def Let_def demo_sched_def demo_rtask_def)

theorem sched_load_balance_correct_witness:
  "\<exists>n s'. sched_load_balance 0 demo_busy = (n, s') \<and> n \<le> 4 \<and> (\<exists>d. queued_on s' d 1) \<and> (\<exists>d. queued_on s' d 4)"
proof -
  obtain n s' where e: "sched_load_balance 0 demo_busy = (n, s')" by fastforce
  have "queued_on demo_busy 1 1" "queued_on demo_busy 1 4"
    by (simp_all add: demo_busy_def queued_on_enqueue)
  then show ?thesis using e sched_load_balance_correct [OF demo_busy_inv _ e] by auto
qed

text \<open>Time slices. The time slice of a task of valid priority is between 10 and 200
  ticks: 200 for every real-time priority, and five ticks less per step of static priority
  for the others, from 200 at priority 100 down to the floor of 10.\<close>

theorem calculate_timeslice_correct:
  assumes "0 \<le> k_prio t" "k_prio t < 140"
  shows "uint (calculate_timeslice t) =
    (if k_prio t < 100 then 200 else max 10 (700 - 5 * k_prio t))"
proof -
  define w where "w = (word_of_int (100 - (k_prio t - 120) * 5) :: u64)"
  have "uint w = 700 - 5 * k_prio t" if "100 \<le> k_prio t"
    using assms that unfolding w_def uint_word_of_int by (subst mod_pos_pos_trivial) auto
  then show ?thesis
    using assms unfolding calculate_timeslice_def Let_def w_def [symmetric]
    by (auto simp: word_less_def max_def)
qed

theorem calculate_timeslice_correct_witness: "uint (calculate_timeslice (demo_rtask 120)) = 100"
  using calculate_timeslice_correct [of "demo_rtask 120"] by (simp add: demo_rtask_def)

lemma drop_bit_le_word: "drop_bit k (w :: u64) \<le> w"
  unfolding word_le_nat_alt unat_drop_bit_eq by (simp add: drop_bit_eq_div)

lemma ewma_between: "min avg n \<le> ewma k n avg \<and> ewma k n avg \<le> max avg n"
proof (cases "avg < n")
  case True
  have "drop_bit k (n - avg) \<le> n - avg" by (rule drop_bit_le_word)
  then have "unat (drop_bit k (n - avg)) \<le> unat n - unat avg"
    using True unat_sub [of avg n] by (simp add: word_le_nat_alt word_less_nat_alt)
  moreover have "unat avg < unat n" using True by (simp add: word_less_nat_alt)
  ultimately have "unat (avg + drop_bit k (n - avg)) = unat avg + unat (drop_bit k (n - avg))"
    using unsigned_less [of n, where ?'a = nat] by (intro unat_add_lem [THEN iffD1]) linarith
  then show ?thesis
    using True \<open>unat (drop_bit k (n - avg)) \<le> unat n - unat avg\<close> \<open>unat avg < unat n\<close>
    by (simp add: ewma_def min_def max_def word_le_nat_alt)
next
  case False
  let ?d = "drop_bit k (avg - n)"
  have "?d \<le> avg - n" by (rule drop_bit_le_word)
  then have d: "unat ?d \<le> unat avg - unat n" "unat n \<le> unat avg"
    using False by (auto simp: word_le_nat_alt unat_sub not_less)
  then have "unat (avg - ?d) = unat avg - unat ?d"
    by (intro unat_sub) (simp add: word_le_nat_alt)
  then show ?thesis
    using False d by (auto simp: ewma_def min_def max_def word_le_nat_alt)
qed

text \<open>Load averages stay in range. A due update moves each of the three averages
  towards the sampled number of active tasks (in fixed point, 11 bits) without passing it,
  and the next update is 5000 ticks away.\<close>

theorem update_load_averages_correct:
  assumes "0 \<le> sint (jiffies s - load_next_update s)" "s' = update_load_averages s"
    "between = (\<lambda>old new. min old (nr_active_tasks s * 2048) \<le> new \<and>
                         new \<le> max old (nr_active_tasks s * 2048))"
  shows "between (load_avg_1 s) (load_avg_1 s') \<and> between (load_avg_5 s) (load_avg_5 s') \<and>
    between (load_avg_15 s) (load_avg_15 s') \<and> load_next_update s' = jiffies s + 5000 \<and>
    rqs s' = rqs s \<and> tasks s' = tasks s"
  using assms(1) ewma_between unfolding assms(2,3) by (simp add: update_load_averages_def Let_def)

theorem update_load_averages_correct_witness:
  "load_next_update (update_load_averages demo_sched) = 5000"
  using update_load_averages_correct [of demo_sched, OF _ refl refl] by (simp add: demo_sched_def)

text \<open>\<^emph>\<open>Policy changes.\<close> Setting a known policy with a priority in range, on a task that is
  off the queues or in the active array of its CPU, returns 0, gives the task the priority the
  policy implies and a fresh time slice, keeps every run queue consistent and leaves the task
  queued exactly if it was.\<close>

theorem sched_setscheduler_correct:
  assumes "sched_inv s" "k_on_rq (tasks s t) \<Longrightarrow> in_arr (rq_active (rqs s (k_cpu (tasks s t)))) t"
    "policy \<in> {1, 2} \<and> 0 \<le> prio \<and> prio \<le> 99 \<or> policy \<in> {0, 3, 5} \<and> - 20 \<le> prio \<and> prio \<le> 19"
    "sched_setscheduler (Some t) policy prio s = (ret, s')"
  shows "ret = 0 \<and> sched_inv s' \<and> k_policy (tasks s' t) = policy \<and>
    k_prio (tasks s' t) = (if policy \<in> {1, 2} then 99 - prio else 120 + prio) \<and>
    k_time_slice (tasks s' t) = calculate_timeslice (tasks s' t) \<and>
    (\<forall>c u. queued_on s' c u \<longleftrightarrow> queued_on s c u)"
proof -
  let ?c = "k_cpu (tasks s t)" and ?on = "k_on_rq (tasks s t)"
  let ?p = "if policy \<in> {1, 2} then 99 - prio else 120 + prio"
  let ?s1 = "if ?on then dequeue_task ?c t s else s"
  have i1: "sched_inv ?s1" using assms(1,2) dequeue_task_inv by simp
  have off1: "\<not> k_on_rq (tasks ?s1 t)" by simp
  have q1: "queued_on ?s1 d u \<longleftrightarrow> queued_on s d u \<and> u \<noteq> t" for d u
    using not_on_rq_not_queued [OF assms(1), of t d] by (auto simp: queued_on_dequeue)
  obtain f where f: "s' = (if ?on then enqueue_task ?c t (upd_task t f ?s1) else upd_task t f ?s1)"
    "ret = 0" "k_prio (f (tasks ?s1 t)) = ?p" "k_policy (f (tasks ?s1 t)) = policy"
    "k_on_rq (f (tasks ?s1 t)) = k_on_rq (tasks ?s1 t)"
    "k_time_slice (f (tasks ?s1 t)) = calculate_timeslice (f (tasks ?s1 t))"
    using setscheduler_update [OF assms(3,4) refl refl] by blast
  let ?s2 = "upd_task t f ?s1"
  have i2: "sched_inv ?s2"
    by (rule sched_inv_frame [OF i1]) (use not_on_rq_not_queued [OF i1 off1] in auto)
  have p: "0 \<le> ?p" "?p < 140" using assms(3) by auto
  have inv: "sched_inv s'"
    using i2 enqueue_task_inv [OF i2, of t] f(1,3,5) off1 p by auto
  have "queued_on s' c u \<longleftrightarrow> queued_on s c u" for c u
  proof (cases ?on)
    case True
    then have "queued_on s ?c t" using assms(2) by (simp add: queued_on_def)
    then have "queued_on s c t \<longleftrightarrow> c = ?c" using sched_invD(2) [OF assms(1)] by auto
    then show ?thesis using True q1 [of c u] f(1)
      by (auto simp: queued_on_enqueue queued_on_upd_task)
  next
    case False
    then show ?thesis using f(1) by (simp add: queued_on_upd_task)
  qed
  moreover have "k_policy (tasks s' t) = policy \<and> k_prio (tasks s' t) = ?p \<and>
      k_time_slice (tasks s' t) = calculate_timeslice (tasks s' t)"
  proof -
    have e: "tasks s' t = f (tasks ?s1 t) \<or> tasks s' t = (f (tasks ?s1 t))\<lparr>k_on_rq := True\<rparr>"
      unfolding f(1) by (simp add: enqueue_task_def Let_def)
    have "calculate_timeslice (x\<lparr>k_on_rq := True\<rparr>) = calculate_timeslice x" for x
      by (simp add: calculate_timeslice_def)
    then show ?thesis using e f(3,4,6) by (elim disjE) simp_all
  qed
  ultimately show ?thesis using inv f(2) by simp
qed

theorem sched_setscheduler_correct_witness:
  "\<exists>s'. sched_setscheduler (Some 1) 2 50 demo_sched = (0, s') \<and> k_prio (tasks s' 1) = 49 \<and> sched_inv s'"
proof -
  obtain ret s' where e: "sched_setscheduler (Some 1) 2 50 demo_sched = (ret, s')" by fastforce
  have off: "\<not> k_on_rq (tasks demo_sched 1)" by (simp add: demo_sched_def demo_rtask_def)
  show ?thesis using e sched_setscheduler_correct [OF demo_sched_inv _ _ e] off by auto
qed

text \<open>Given a policy the function does not know,
  \<^verbatim>\<open>sched_setscheduler\<close> returns \<^verbatim>\<open>-EINVAL\<close>, but by then it has taken the task off its queue
  and stored the policy: a runnable task is on no queue any more and will not be scheduled.\<close>

theorem sched_setscheduler_einval_unqueues:
  assumes "policy \<notin> {0, 1, 2, 3, 5}" "queued_on s (k_cpu (tasks s t)) t" "sched_inv s"
    "sched_setscheduler (Some t) policy prio s = (ret, s')"
  shows "ret = - EINVAL \<and> (\<forall>c. \<not> queued_on s' c t) \<and> k_policy (tasks s' t) = policy \<and>
    k_state (tasks s' t) = k_state (tasks s t)"
proof -
  have on: "k_on_rq (tasks s t)" using queued_on_rq [OF assms(3,2)] .
  then have "ret = - EINVAL"
    "s' = upd_task t (\<lambda>x. x\<lparr>k_policy := policy\<rparr>) (dequeue_task (k_cpu (tasks s t)) t s)"
    using assms(1,4) by (auto simp: sched_setscheduler_def Let_def)
  then show ?thesis by (simp add: queued_on_upd_task queued_on_dequeue)
qed

theorem sched_setscheduler_einval_unqueues_witness:
  "\<exists>s'. sched_setscheduler (Some 1) 4 0 (enqueue_task 0 1 demo_sched) = (- EINVAL, s') \<and>
     (\<forall>c. \<not> queued_on s' c 1)"
proof -
  let ?s = "enqueue_task 0 1 demo_sched"
  obtain ret s' where e: "sched_setscheduler (Some 1) 4 0 ?s = (ret, s')" by fastforce
  have "k_cpu (tasks ?s 1) = 0" by (simp add: demo_sched_def demo_rtask_def enqueue_task_def Let_def)
  then have "queued_on ?s (k_cpu (tasks ?s 1)) 1" by (simp add: queued_on_enqueue)
  then show ?thesis using e sched_setscheduler_einval_unqueues [OF _ _ demo_enqueue_inv e] by auto
qed

text \<open>When the only runnable task of a CPU
  yields, it stays current and moves to the expired array; the first step of the next
  scheduling decision takes it off, but \<^verbatim>\<open>dequeue_task\<close> adjusts the count and the bitmap of
  the active array only. The run queue is then inconsistent: the expired bitmap announces a
  queue that is empty.\<close>

theorem lone_yield_breaks_queues:
  assumes "sched_inv s" "rq_curr (rqs s c) = Some t" "rq_idle (rqs s c) \<noteq> Some t"
    "k_state (tasks s t) = TASK_RUNNING" "in_arr (rq_active (rqs s c)) t"
    "\<And>u. queued_on s c u \<Longrightarrow> u = t" "sched_yield_impl c msr s = (s', r)"
  shows "r = None \<and> rq_curr (rqs s' c) = Some t \<and> in_arr (rq_expired (rqs s' c)) t \<and>
    \<not> sched_inv (put_prev c s')"
proof -
  let ?p = "nat (k_prio (tasks s t))"
  let ?s0 = "upd_task t (\<lambda>x. x\<lparr>k_time_slice := 0\<rparr>) s"
  let ?s1 = "dequeue_task c t ?s0"
  have on: "k_on_rq (tasks s t)" using queued_on_rq [OF assms(1)] assms(5) by (auto simp: queued_on_def)
  have pr: "0 \<le> k_prio (tasks s t)" "k_prio (tasks s t) < 140"
    using in_arr_prio [OF rq_inv_halves(1) [OF sched_invD(1) [OF assms(1)]] assms(5)] by auto
  have i0: "sched_inv ?s0" by (rule sched_inv_frame [OF assms(1)]) auto
  have i1: "sched_inv ?s1" by (rule dequeue_task_inv [OF i0]) (use assms(5) in simp)
  have none: "\<not> queued_on ?s1 c u" for u
    using assms(6) [of u] by (auto simp: queued_on_dequeue queued_on_upd_task)
  have pp: "put_prev c ?s0 = ?s1" using assms(2,3) on by (simp add: put_prev_def)
  have pick: "pick_next_task (rqs ?s1 c) = (rq_idle (rqs s c), rqs ?s1 c)"
    using pick_next_task_cases [OF sched_invD(1) [OF i1, of c]] none best_level_nonempty
    by (auto simp: queued_on_def)
  have empty: "pq_tasks (rq_expired (rqs ?s1 c) q) = []" for q
    using none [of "hd (pq_tasks (rq_expired (rqs ?s1 c) q))"] hd_in_set
    unfolding queued_on_def in_arr_def by blast
  let ?s2 = "requeue_prev c (Some t) (upd_rq c (\<lambda>_. rqs ?s1 c) ?s1)"
  have slice: "k_time_slice (tasks ?s1 t) = 0" by (simp add: dequeue_task_def)
  have s2: "?s2 = expire_task c t (upd_task t (\<lambda>x. x\<lparr>k_time_slice := 100\<rparr>) (upd_rq c (\<lambda>_. rqs ?s1 c) ?s1))"
    using assms(3,4) slice by (simp add: requeue_prev_def)
  have eq: "(s', r) = commit_next c msr (Some t) (rq_idle (rqs s c)) ?s2"
    using assms(2,7) schedule_impl_commit [of c ?s0, unfolded pp, OF pick] by (simp add: sched_yield_impl_def)
  have idle: "rq_idle (rqs ?s2 c) = rq_idle (rqs s c)" by (simp add: s2)
  have r: "r = None" and cur: "rq_curr (rqs s' c) = Some t"
    using eq idle unfolding commit_next_def Let_def by (auto split: option.splits)
  note fr = commit_next_frame [OF eq [symmetric]]
  have ex: "pq_tasks (rq_expired (rqs s' c) ?p) = [t]" "test_prio_bit (rq_expired_bitmap (rqs s' c)) ?p"
    using fr(1) [of c] empty unfolding rq_core_def s2 prod.inject
    by (auto simp: expire_task_def Let_def pq_add_tail_def test_set_prio_bit)
  have idle': "rq_idle (rqs s' c) = rq_idle (rqs s c)"
    using eq idle by (auto simp: commit_next_def Let_def split: option.splits)
  have "k_on_rq (tasks s' t)" using fr(3) [of t] by (simp add: s2 expire_task_def Let_def)
  then have p': "put_prev c s' = dequeue_task c t s'"
    using cur idle' assms(3) by (simp add: put_prev_def)
  have "\<not> q_ok T (rq_expired_bitmap (rqs (dequeue_task c t s') c)) ?p (rq_expired (rqs (dequeue_task c t s') c) ?p)" for T
    using ex by (simp add: q_ok_def dequeue_task_def rq_uncount_def Let_def rq_list_del_def)
  then have "\<not> sched_inv (put_prev c s')"
    using pr unfolding p' sched_inv_def rq_inv_def half_ok_def by (metis nat_less_iff of_nat_numeral)
  then show ?thesis using r cur ex(1) by (auto simp: in_arr_def intro: exI [of _ ?p])
qed

theorem lone_yield_breaks_queues_witness:
  "\<exists>s s' r. sched_inv s \<and> sched_yield_impl 0 0 s = (s', r) \<and> \<not> sched_inv (put_prev 0 s')"
proof -
  let ?e = "enqueue_task 0 1 demo_sched"
  let ?s = "upd_rq 0 (\<lambda>rq. rq\<lparr>rq_curr := Some 1\<rparr>) ?e"
  have i: "sched_inv ?s" by (rule sched_inv_frame [OF demo_enqueue_inv]) (auto simp: rq_core_def)
  have q: "queued_on ?s 0 u \<longleftrightarrow> u = 1" for u
    by (simp add: queued_on_def enqueue_task_def Let_def in_arr_add)
      (simp add: in_arr_def demo_sched_def rq_init_def pq_init_def)
  have a: "in_arr (rq_active (rqs ?s 0)) 1" by (simp add: enqueue_task_def Let_def in_arr_add)
  obtain s' r where e: "sched_yield_impl 0 0 ?s = (s', r)" by fastforce
  have "rq_curr (rqs ?s 0) = Some 1" "rq_idle (rqs ?s 0) \<noteq> Some 1" "k_state (tasks ?s 1) = TASK_RUNNING"
    by (simp_all add: demo_sched_def demo_rtask_def enqueue_task_def Let_def)
  from lone_yield_breaks_queues [OF i this a _ e] q i e show ?thesis by blast
qed

end
