(* ===== verification/Cred.thy ===== *)
theory Cred
  imports Prelude
begin

text \<open>
  Credentials, \<^verbatim>\<open>kernel/cred.c\<close>. A credential block lives in a heap and is shared through a
  usage count; a task points to at most one. The allocator is the parameter \<open>alloc\<close>: it sees the
  heap and answers an address or nothing. The current task is the parameter \<open>cur\<close>.

  The lemmas show that the usage counts stay exact under every system call, that a call by
  one task never changes the credentials of another (copy on write), and what a task without
  the capability can reach.
\<close>

section \<open>State\<close>

record cred =
  c_usage :: int
  c_uid :: u32
  c_gid :: u32
  c_euid :: u32
  c_egid :: u32
  c_suid :: u32
  c_sgid :: u32
  c_fsuid :: u32
  c_fsgid :: u32
  c_ngroups :: int
  c_groups :: "u32 list"
  c_cap_permitted :: u64
  c_cap_effective :: u64
  c_cap_inheritable :: u64
  c_cap_bset :: u64

record cred_state =
  cs_heap :: "nat \<rightharpoonup> cred"
  cs_cred :: "nat \<rightharpoonup> nat"

type_synonym cred_allocator = "(nat \<rightharpoonup> cred) \<Rightarrow> nat option"

abbreviation (input) NGROUPS_MAX :: int where "NGROUPS_MAX \<equiv> 32"

definition CAP_SETGID :: u64 where "CAP_SETGID = push_bit 6 1"
definition CAP_SETUID :: u64 where "CAP_SETUID = push_bit 7 1"

definition cred_zero :: cred where
  "cred_zero =
     \<lparr>c_usage = 0, c_uid = 0, c_gid = 0, c_euid = 0, c_egid = 0, c_suid = 0, c_sgid = 0,
      c_fsuid = 0, c_fsgid = 0, c_ngroups = 0, c_groups = replicate 32 0,
      c_cap_permitted = 0, c_cap_effective = 0, c_cap_inheritable = 0, c_cap_bset = 0\<rparr>"

definition init_cred :: cred where
  "init_cred = cred_zero\<lparr>c_usage := 1, c_cap_permitted := - 1, c_cap_effective := - 1,
                          c_cap_bset := - 1\<rparr>"

section \<open>Blocks\<close>

definition cred_store :: "nat \<Rightarrow> cred \<Rightarrow> cred_state \<Rightarrow> cred_state" where
  "cred_store a c s = s\<lparr>cs_heap := (cs_heap s)(a \<mapsto> c)\<rparr>"

definition cred_kfree :: "nat \<Rightarrow> cred_state \<Rightarrow> cred_state" where
  "cred_kfree a s = s\<lparr>cs_heap := (cs_heap s)(a := None)\<rparr>"

definition cred_alloc :: "cred_allocator \<Rightarrow> cred_state \<Rightarrow> nat option \<times> cred_state" where
  "cred_alloc alloc s =
     (case alloc (cs_heap s) of
        None \<Rightarrow> (None, s)
      | Some a \<Rightarrow> (Some a, cred_store a (cred_zero\<lparr>c_usage := 1\<rparr>) s))"

definition cred_get :: "nat option \<Rightarrow> cred_state \<Rightarrow> nat option \<times> cred_state" where
  "cred_get c s =
     (case c of None \<Rightarrow> (None, s)
      | Some a \<Rightarrow> (Some a, s\<lparr>cs_heap := (cs_heap s)(a :=
                     map_option (\<lambda>x. x\<lparr>c_usage := c_usage x + 1\<rparr>) (cs_heap s a))\<rparr>))"

definition cred_put :: "nat option \<Rightarrow> cred_state \<Rightarrow> cred_state" where
  "cred_put c s =
     (case c of None \<Rightarrow> s
      | Some a \<Rightarrow>
          (case cs_heap s a of None \<Rightarrow> s
           | Some x \<Rightarrow>
               let x' = x\<lparr>c_usage := c_usage x - 1\<rparr> in
               if c_usage x' = 0 then cred_kfree a s else cred_store a x' s))"

definition cred_free :: "nat option \<Rightarrow> cred_state \<Rightarrow> cred_state" where
  "cred_free c s = cred_put c s"

definition cred_copy :: "cred_allocator \<Rightarrow> cred \<Rightarrow> cred_state \<Rightarrow> nat option \<times> cred_state" where
  "cred_copy alloc old s =
     (case cred_alloc alloc s of
        (None, s1) \<Rightarrow> (None, s1)
      | (Some a, s1) \<Rightarrow> (Some a, cred_store a (old\<lparr>c_usage := 1\<rparr>) s1))"

definition current_cred :: "nat option \<Rightarrow> cred_state \<Rightarrow> cred option" where
  "current_cred cur s =
     (case cur of None \<Rightarrow> None
      | Some t \<Rightarrow> (case cs_cred s t of None \<Rightarrow> None | Some a \<Rightarrow> cs_heap s a))"

definition prepare_cred :: "cred_allocator \<Rightarrow> nat option \<Rightarrow> cred_state \<Rightarrow> nat option \<times> cred_state" where
  "prepare_cred alloc cur s =
     (case current_cred cur s of None \<Rightarrow> (None, s) | Some c \<Rightarrow> cred_copy alloc c s)"

definition commit_cred :: "nat option \<Rightarrow> nat \<Rightarrow> cred_state \<Rightarrow> int \<times> cred_state" where
  "commit_cred cur new s =
     (case cur of None \<Rightarrow> (- ESRCH, s)
      | Some t \<Rightarrow> (0, cred_put (cs_cred s t) (s\<lparr>cs_cred := (cs_cred s)(t \<mapsto> new)\<rparr>)))"

section \<open>System calls\<close>

text \<open>The getters; nothing models a dereference of a null credential pointer.\<close>

definition sys_getid :: "(cred \<Rightarrow> u32) \<Rightarrow> nat option \<Rightarrow> cred_state \<Rightarrow> int option" where
  "sys_getid f cur s =
     (if cur = None then Some 0 else map_option (\<lambda>c. uint (f c)) (current_cred cur s))"

definition sys_getuid where "sys_getuid = sys_getid c_uid"
definition sys_geteuid where "sys_geteuid = sys_getid c_euid"
definition sys_getgid where "sys_getgid = sys_getid c_gid"
definition sys_getegid where "sys_getegid = sys_getid c_egid"

text \<open>The common frame of the setters: a private copy is prepared, changed by \<open>f\<close> and
  committed; where \<open>f\<close> refuses, the copy is freed and the call fails with \<^verbatim>\<open>-EPERM\<close>.\<close>

definition change_cred ::
  "(cred \<Rightarrow> cred option) \<Rightarrow> cred_allocator \<Rightarrow> nat option \<Rightarrow> cred_state \<Rightarrow> int \<times> cred_state" where
  "change_cred f alloc cur s =
     (case prepare_cred alloc cur s of
        (None, s1) \<Rightarrow> (- ENOMEM, s1)
      | (Some new, s1) \<Rightarrow>
          (case cs_heap s1 new of
             None \<Rightarrow> (- ENOMEM, s1)
           | Some c \<Rightarrow>
               (case f c of
                  None \<Rightarrow> (- EPERM, cred_kfree new s1)
                | Some c' \<Rightarrow> commit_cred cur new (cred_store new c' s1))))"

definition setuid_change :: "u32 \<Rightarrow> cred \<Rightarrow> cred option" where
  "setuid_change uid c =
     (if c_cap_effective c AND CAP_SETUID \<noteq> 0
      then Some (c\<lparr>c_uid := uid, c_euid := uid, c_suid := uid, c_fsuid := uid\<rparr>)
      else if uid \<noteq> c_uid c \<and> uid \<noteq> c_suid c then None
      else Some (c\<lparr>c_euid := uid, c_fsuid := uid\<rparr>))"

definition setgid_change :: "u32 \<Rightarrow> cred \<Rightarrow> cred option" where
  "setgid_change gid c =
     (if c_cap_effective c AND CAP_SETGID \<noteq> 0
      then Some (c\<lparr>c_gid := gid, c_egid := gid, c_sgid := gid, c_fsgid := gid\<rparr>)
      else if gid \<noteq> c_gid c \<and> gid \<noteq> c_sgid c then None
      else Some (c\<lparr>c_egid := gid, c_fsgid := gid\<rparr>))"

definition setresuid_change :: "u32 \<Rightarrow> u32 \<Rightarrow> u32 \<Rightarrow> cred \<Rightarrow> cred option" where
  "setresuid_change ruid euid suid c =
     (let bad = (\<lambda>x. x \<noteq> - 1 \<and> x \<noteq> c_uid c \<and> x \<noteq> c_euid c \<and> x \<noteq> c_suid c) in
      if c_cap_effective c AND CAP_SETUID = 0 \<and> (bad ruid \<or> bad euid \<or> bad suid) then None
      else
        Some (c\<lparr>c_uid := (if ruid \<noteq> - 1 then ruid else c_uid c),
                c_euid := (if euid \<noteq> - 1 then euid else c_euid c),
                c_fsuid := (if euid \<noteq> - 1 then euid else c_fsuid c),
                c_suid := (if suid \<noteq> - 1 then suid else c_suid c)\<rparr>))"

definition setresgid_change :: "u32 \<Rightarrow> u32 \<Rightarrow> u32 \<Rightarrow> cred \<Rightarrow> cred option" where
  "setresgid_change rgid egid sgid c =
     (let bad = (\<lambda>x. x \<noteq> - 1 \<and> x \<noteq> c_gid c \<and> x \<noteq> c_egid c \<and> x \<noteq> c_sgid c) in
      if c_cap_effective c AND CAP_SETGID = 0 \<and> (bad rgid \<or> bad egid \<or> bad sgid) then None
      else
        Some (c\<lparr>c_gid := (if rgid \<noteq> - 1 then rgid else c_gid c),
                c_egid := (if egid \<noteq> - 1 then egid else c_egid c),
                c_fsgid := (if egid \<noteq> - 1 then egid else c_fsgid c),
                c_sgid := (if sgid \<noteq> - 1 then sgid else c_sgid c)\<rparr>))"

definition setgroups_change :: "int \<Rightarrow> u32 list \<Rightarrow> cred \<Rightarrow> cred option" where
  "setgroups_change sz gids c =
     (if c_cap_effective c AND CAP_SETGID = 0 then None
      else Some (c\<lparr>c_groups := take (nat sz) gids @ drop (nat sz) (c_groups c),
                   c_ngroups := sz\<rparr>))"

definition sys_setuid where "sys_setuid uid = change_cred (setuid_change uid)"
definition sys_setgid where "sys_setgid gid = change_cred (setgid_change gid)"
definition sys_setresuid where "sys_setresuid r e s = change_cred (setresuid_change r e s)"
definition sys_setresgid where "sys_setresgid r e s = change_cred (setresgid_change r e s)"

definition sys_setgroups ::
  "int \<Rightarrow> u32 list \<Rightarrow> cred_allocator \<Rightarrow> nat option \<Rightarrow> cred_state \<Rightarrow> int \<times> cred_state" where
  "sys_setgroups sz gids alloc cur s =
     (if sz < 0 \<or> NGROUPS_MAX < sz then (- EINVAL, s)
      else change_cred (setgroups_change sz gids) alloc cur s)"

text \<open>The three results are stored through the pointers that are not null.\<close>

definition sys_getresuid ::
  "bool \<times> bool \<times> bool \<Rightarrow> nat option \<Rightarrow> cred_state \<Rightarrow> int \<times> u32 option \<times> u32 option \<times> u32 option" where
  "sys_getresuid ptrs cur s =
     (case cur of None \<Rightarrow> (- ESRCH, None, None, None)
      | Some t \<Rightarrow>
          let get = (\<lambda>p f. if p then map_option f (current_cred cur s) else None) in
          (0, get (fst ptrs) c_uid, get (fst (snd ptrs)) c_euid, get (snd (snd ptrs)) c_suid))"

definition sys_getresgid ::
  "bool \<times> bool \<times> bool \<Rightarrow> nat option \<Rightarrow> cred_state \<Rightarrow> int \<times> u32 option \<times> u32 option \<times> u32 option" where
  "sys_getresgid ptrs cur s =
     (case cur of None \<Rightarrow> (- ESRCH, None, None, None)
      | Some t \<Rightarrow>
          let get = (\<lambda>p f. if p then map_option f (current_cred cur s) else None) in
          (0, get (fst ptrs) c_gid, get (fst (snd ptrs)) c_egid, get (snd (snd ptrs)) c_sgid))"

definition sys_getgroups :: "int \<Rightarrow> nat option \<Rightarrow> cred_state \<Rightarrow> (int \<times> u32 list) option" where
  "sys_getgroups sz cur s =
     (case cur of None \<Rightarrow> Some (- ESRCH, [])
      | Some t \<Rightarrow>
          (case current_cred cur s of None \<Rightarrow> None
           | Some c \<Rightarrow>
               if sz = 0 then Some (c_ngroups c, [])
               else if sz < c_ngroups c then Some (- EINVAL, [])
               else Some (c_ngroups c, take (nat (c_ngroups c)) (c_groups c))))"

text \<open>Any of the calls that change credentials, and a history of them.\<close>

datatype cred_call =
    Setuid u32 | Setgid u32 | Setresuid u32 u32 u32 | Setresgid u32 u32 u32 | Setgroups int "u32 list"

fun do_cred_call :: "cred_allocator \<Rightarrow> nat \<times> cred_call \<Rightarrow> cred_state \<Rightarrow> int \<times> cred_state" where
  "do_cred_call alloc (t, Setuid u) s = sys_setuid u alloc (Some t) s"
| "do_cred_call alloc (t, Setgid g) s = sys_setgid g alloc (Some t) s"
| "do_cred_call alloc (t, Setresuid a b c) s = sys_setresuid a b c alloc (Some t) s"
| "do_cred_call alloc (t, Setresgid a b c) s = sys_setresgid a b c alloc (Some t) s"
| "do_cred_call alloc (t, Setgroups n l) s = sys_setgroups n l alloc (Some t) s"

definition run_cred_calls :: "cred_allocator \<Rightarrow> (nat \<times> cred_call) list \<Rightarrow> cred_state \<Rightarrow> cred_state" where
  "run_cred_calls alloc cs s = fold (\<lambda>c s. snd (do_cred_call alloc c s)) cs s"

section \<open>Exact usage counts\<close>

definition cred_refs :: "nat list \<Rightarrow> cred_state \<Rightarrow> nat \<Rightarrow> nat" where
  "cred_refs ts s a = length (filter (\<lambda>t. cs_cred s t = Some a) ts)"

definition creds_ok :: "nat list \<Rightarrow> cred_state \<Rightarrow> bool" where
  "creds_ok ts s \<longleftrightarrow> distinct ts \<and> dom (cs_cred s) \<subseteq> set ts \<and>
     (\<forall>a. case cs_heap s a of None \<Rightarrow> cred_refs ts s a = 0
          | Some c \<Rightarrow> 0 < cred_refs ts s a \<and> c_usage c = int (cred_refs ts s a))"

text \<open>What the allocator must do: never hand out a block in use.\<close>

definition fresh_alloc :: "cred_allocator \<Rightarrow> bool" where
  "fresh_alloc alloc \<longleftrightarrow> (\<forall>h a. alloc h = Some a \<longrightarrow> h a = None)"

lemma creds_okD:
  assumes "creds_ok ts s"
  shows "cs_heap s a = None \<Longrightarrow> cred_refs ts s a = 0"
    "cs_heap s a = Some c \<Longrightarrow> 0 < cred_refs ts s a \<and> c_usage c = int (cred_refs ts s a)"
    "cs_cred s t = Some a \<Longrightarrow> t \<in> set ts"
  using assms spec [of _ a] by (auto simp: creds_ok_def dom_def dest!: spec [of _ a])

lemma cred_refs_pos: "t \<in> set ts \<Longrightarrow> cs_cred s t = Some a \<Longrightarrow> 0 < cred_refs ts s a"
  by (auto simp: cred_refs_def filter_empty_conv length_greater_0_conv simp del: length_greater_0_conv
      intro!: length_pos_if_in_set [of t])

lemma creds_ok_live:
  assumes "creds_ok ts s" "cs_cred s t = Some a"
  shows "\<exists>c. cs_heap s a = Some c"
  using creds_okD(1) [OF assms(1), of a] cred_refs_pos [OF creds_okD(3) [OF assms] assms(2)]
  by (cases "cs_heap s a") auto

lemma cred_refs_upd:
  assumes "distinct ts" "t \<in> set ts" "cs_cred s' = (cs_cred s)(t \<mapsto> new)"
  shows "cred_refs ts s' a + (if cs_cred s t = Some a then 1 else 0) =
    cred_refs ts s a + (if new = a then 1 else 0)"
  using length_filter_change [OF assms(1,2), of "\<lambda>u. cs_cred s' u = Some a" "\<lambda>u. cs_cred s u = Some a"]
  by (simp add: cred_refs_def assms(3))

lemma cred_refs_same: "cs_cred s' = cs_cred s \<Longrightarrow> cred_refs ts s' a = cred_refs ts s a"
  by (simp add: cred_refs_def)

lemma cred_put_cred [simp]: "cs_cred (cred_put c s) = cs_cred s"
  by (auto simp: cred_put_def cred_kfree_def cred_store_def Let_def split: option.splits)

text \<open>The state after a call whose change was accepted: the new block holds the changed
  copy, and the old one is released.\<close>

definition committed :: "nat \<Rightarrow> nat \<Rightarrow> cred \<Rightarrow> cred_state \<Rightarrow> cred_state" where
  "committed t new c s =
     cred_put (cs_cred s t) (s\<lparr>cs_heap := (cs_heap s)(new \<mapsto> c), cs_cred := (cs_cred s)(t \<mapsto> new)\<rparr>)"

lemma change_cred_cases:
  assumes "creds_ok ts s" "fresh_alloc alloc" "change_cred f alloc (Some t) s = (r, s')"
    "\<forall>c c'. f c = Some c' \<longrightarrow> c_usage c' = c_usage c"
  obtains (fail) "r \<in> {- ENOMEM, - EPERM}" "s' = s"
  | (ok) a c new c' where "r = 0" "cs_cred s t = Some a" "cs_heap s a = Some c" "cs_heap s new = None"
      "f (c\<lparr>c_usage := 1\<rparr>) = Some c'" "c_usage c' = 1" "s' = committed t new c' s"
proof (cases "current_cred (Some t) s")
  case None
  then show thesis using assms(3) fail by (auto simp: change_cred_def prepare_cred_def)
next
  case (Some c)
  then obtain a where a: "cs_cred s t = Some a" "cs_heap s a = Some c"
    by (auto simp: current_cred_def split: option.splits)
  show thesis
  proof (cases "alloc (cs_heap s)")
    case None
    then show thesis
      using assms(3) Some fail by (auto simp: change_cred_def prepare_cred_def cred_copy_def cred_alloc_def)
  next
    case new: (Some new)
    have fresh: "cs_heap s new = None" using assms(2) new by (simp add: fresh_alloc_def)
    have heap: "(cs_heap s)(new := None) = cs_heap s" using fresh by auto
    note st = assms(3) [unfolded change_cred_def prepare_cred_def Some cred_copy_def cred_alloc_def new]
    show thesis
    proof (cases "f (c\<lparr>c_usage := 1\<rparr>)")
      case None
      then show thesis using st fail heap by (auto simp: cred_store_def cred_kfree_def)
    next
      case ch: (Some c')
      show thesis
      proof (rule ok [OF _ a fresh ch])
        show "c_usage c' = 1" using assms(4) ch by fastforce
        show "r = 0" "s' = committed t new c' s"
          using st ch by (auto simp: cred_store_def commit_cred_def committed_def)
      qed
    qed
  qed
qed

lemma committed_heap:
  assumes "cs_cred s t = Some a" "cs_heap s a = Some c" "cs_heap s new = None"
  shows "cs_heap (committed t new c' s) b =
    (if b = new then Some c'
     else if b = a then (if c_usage c = 1 then None else Some (c\<lparr>c_usage := c_usage c - 1\<rparr>))
     else cs_heap s b)"
  using assms by (auto simp: committed_def cred_put_def cred_kfree_def cred_store_def Let_def)

lemma committed_cred: "cs_cred (committed t new c s) = (cs_cred s)(t \<mapsto> new)"
  by (simp add: committed_def)

lemma committed_ok:
  assumes "creds_ok ts s" "cs_cred s t = Some a" "cs_heap s a = Some c" "cs_heap s new = None" "c_usage c' = 1"
  shows "creds_ok ts (committed t new c' s)"
proof -
  let ?s = "committed t new c' s"
  have t: "t \<in> set ts" "distinct ts" using creds_okD(3) [OF assms(1,2)] assms(1) by (auto simp: creds_ok_def)
  have na: "new \<noteq> a" using assms by auto
  note R = cred_refs_upd [OF t(2,1) committed_cred [of t new c' s]]
  have "case cs_heap ?s b of None \<Rightarrow> cred_refs ts ?s b = 0
      | Some x \<Rightarrow> 0 < cred_refs ts ?s b \<and> c_usage x = int (cred_refs ts ?s b)" for b
    using R [of b] creds_okD(1,2) [OF assms(1), of b] assms(2,3,4,5) na
    unfolding committed_heap [OF assms(2,3,4)]
    by (cases "cs_heap s b") (auto split: if_splits)
  moreover have "dom (cs_cred ?s) \<subseteq> set ts"
    using assms(1) t(1) by (auto simp: committed_cred creds_ok_def)
  ultimately show ?thesis using t(2) by (simp add: creds_ok_def)
qed

section \<open>Calls\<close>

fun call_change :: "cred_call \<Rightarrow> cred \<Rightarrow> cred option" where
  "call_change (Setuid u) = setuid_change u"
| "call_change (Setgid g) = setgid_change g"
| "call_change (Setresuid a b c) = setresuid_change a b c"
| "call_change (Setresgid a b c) = setresgid_change a b c"
| "call_change (Setgroups n l) = setgroups_change n l"

lemmas change_defs = setuid_change_def setgid_change_def setresuid_change_def setresgid_change_def
  setgroups_change_def

lemma call_change_keeps:
  assumes "call_change k c = Some c'"
  shows "c_usage c' = c_usage c" "c_cap_effective c' = c_cap_effective c"
    "c_cap_permitted c' = c_cap_permitted c"
  using assms by (cases k; auto simp: change_defs Let_def split: if_splits)+

lemma setresuid_ids:
  assumes "setresuid_change r e x c = Some c'" "c_cap_effective c AND CAP_SETUID = 0"
  shows "c_uid c' \<in> {c_uid c, c_euid c, c_suid c}" "c_euid c' \<in> {c_uid c, c_euid c, c_suid c}"
    "c_suid c' \<in> {c_uid c, c_euid c, c_suid c}"
proof -
  define bad where "bad = (\<lambda>y. y \<noteq> - 1 \<and> y \<noteq> c_uid c \<and> y \<noteq> c_euid c \<and> y \<noteq> c_suid c)"
  have ok: "\<not> (bad r \<or> bad e \<or> bad x)"
    "c' = c\<lparr>c_uid := (if r \<noteq> - 1 then r else c_uid c), c_euid := (if e \<noteq> - 1 then e else c_euid c),
            c_fsuid := (if e \<noteq> - 1 then e else c_fsuid c), c_suid := (if x \<noteq> - 1 then x else c_suid c)\<rparr>"
    using assms unfolding setresuid_change_def Let_def bad_def [symmetric]
    by (simp_all split: if_split_asm)
  have mem: "(if y \<noteq> - 1 then y else z) \<in> {c_uid c, c_euid c, c_suid c}"
    if "\<not> bad y" "z \<in> {c_uid c, c_euid c, c_suid c}" for y z
    using that by (auto simp: bad_def)
  show "c_uid c' \<in> {c_uid c, c_euid c, c_suid c}" using mem [of r "c_uid c"] ok by simp
  show "c_euid c' \<in> {c_uid c, c_euid c, c_suid c}" using mem [of e "c_euid c"] ok by simp
  show "c_suid c' \<in> {c_uid c, c_euid c, c_suid c}" using mem [of x "c_suid c"] ok by simp
qed

lemma call_change_ids:
  assumes "call_change k c = Some c'" "c_cap_effective c AND CAP_SETUID = 0"
  shows "{c_uid c', c_euid c', c_suid c'} \<subseteq> {c_uid c, c_euid c, c_suid c}"
proof (cases k)
  case (Setresuid r e x)
  then show ?thesis using setresuid_ids [of r e x c c'] assms by simp
qed (use assms in \<open>auto simp: setuid_change_def setgid_change_def setresgid_change_def setgroups_change_def
    Let_def split: if_split_asm\<close>)

lemma do_cred_call_cases:
  assumes "creds_ok ts s" "fresh_alloc alloc" "do_cred_call alloc (t, k) s = (r, s')"
  obtains (fail) "r < 0" "s' = s"
  | (ok) a c new c' where "r = 0" "cs_cred s t = Some a" "cs_heap s a = Some c" "cs_heap s new = None"
      "call_change k (c\<lparr>c_usage := 1\<rparr>) = Some c'" "c_usage c' = 1" "s' = committed t new c' s"
proof -
  have "do_cred_call alloc (t, k) s = change_cred (call_change k) alloc (Some t) s
      \<or> do_cred_call alloc (t, k) s = (- EINVAL, s)"
    by (cases k) (auto simp: sys_setuid_def sys_setgid_def sys_setresuid_def sys_setresgid_def
        sys_setgroups_def)
  then show thesis
  proof
    assume "do_cred_call alloc (t, k) s = change_cred (call_change k) alloc (Some t) s"
    then have e: "change_cred (call_change k) alloc (Some t) s = (r, s')" using assms(3) by simp
    have keep: "\<forall>c c'. call_change k c = Some c' \<longrightarrow> c_usage c' = c_usage c"
      using call_change_keeps(1) by blast
    show thesis
      by (cases rule: change_cred_cases [OF assms(1,2) e keep]) (auto intro: fail ok)
  qed (use assms(3) fail in auto)
qed

lemma do_cred_call_ok:
  assumes "creds_ok ts s" "fresh_alloc alloc"
  shows "creds_ok ts (snd (do_cred_call alloc (t, k) s))"
proof -
  obtain r s' where e: "do_cred_call alloc (t, k) s = (r, s')" by fastforce
  show ?thesis
    by (cases rule: do_cred_call_cases [OF assms e]) (use assms(1) committed_ok [OF assms(1)] e in auto)
qed

definition visible :: "cred option \<Rightarrow> cred option" where
  "visible = map_option (\<lambda>c. c\<lparr>c_usage := 0\<rparr>)"

lemma committed_current:
  assumes "creds_ok ts s" "cs_cred s t = Some a" "cs_heap s a = Some c" "cs_heap s new = None"
  shows "current_cred (Some t) (committed t new c' s) = Some c'"
    "u \<noteq> t \<Longrightarrow> visible (current_cred (Some u) (committed t new c' s)) = visible (current_cred (Some u) s)"
proof -
  show "current_cred (Some t) (committed t new c' s) = Some c'"
    using committed_heap [OF assms(2-4), of c' new] by (simp add: current_cred_def committed_cred)
  assume u: "u \<noteq> t"
  show "visible (current_cred (Some u) (committed t new c' s)) = visible (current_cred (Some u) s)"
  proof (cases "cs_cred s u")
    case (Some b)
    have "new \<noteq> b" using creds_ok_live [OF assms(1) Some] assms(4) by auto
    moreover have "c_usage c \<noteq> 1" if "b = a"
    proof -
      have "{t, u} \<subseteq> set ts" using creds_okD(3) [OF assms(1)] assms(2) Some by blast
      then have "card {t, u} \<le> card (set (filter (\<lambda>t. cs_cred s t = Some a) ts))"
        using assms(2) Some that by (intro card_mono) auto
      then have "2 \<le> cred_refs ts s a"
        using u card_length [of "filter (\<lambda>t. cs_cred s t = Some a) ts"] by (simp add: cred_refs_def)
      then show ?thesis using creds_okD(2) [OF assms(1,3)] by simp
    qed
    ultimately show ?thesis
      using Some u committed_heap [OF assms(2-4), of c' b] assms(3)
      by (auto simp: current_cred_def committed_cred visible_def)
  qed (use u in \<open>simp add: current_cred_def committed_cred\<close>)
qed

lemma do_cred_call_current:
  assumes "creds_ok ts s" "fresh_alloc alloc" "do_cred_call alloc (t, k) s = (r, s')"
  shows "u \<noteq> t \<Longrightarrow> visible (current_cred (Some u) s') = visible (current_cred (Some u) s)"
    "visible (current_cred (Some t) s') = visible (current_cred (Some t) s) \<or>
      (\<exists>c c'. current_cred (Some t) s = Some c \<and> call_change k (c\<lparr>c_usage := 1\<rparr>) = Some c' \<and>
              current_cred (Some t) s' = Some c')"
proof -
  show "visible (current_cred (Some u) s') = visible (current_cred (Some u) s)" if "u \<noteq> t"
    by (cases rule: do_cred_call_cases [OF assms]) (use committed_current(2) [OF assms(1)] that in auto)
  show "visible (current_cred (Some t) s') = visible (current_cred (Some t) s) \<or>
      (\<exists>c c'. current_cred (Some t) s = Some c \<and> call_change k (c\<lparr>c_usage := 1\<rparr>) = Some c' \<and>
              current_cred (Some t) s' = Some c')"
    by (cases rule: do_cred_call_cases [OF assms])
      (use committed_current(1) [OF assms(1)] in \<open>auto simp: current_cred_def\<close>)
qed

section \<open>Properties\<close>

text \<open>C39 (copy on write). For an allocator that never hands out a block in use: whatever calls
  the tasks make, the usage count of every credential block stays the number of tasks that
  point to it, no block in use is freed and none leaks, and a task that makes no call keeps
  its credentials.\<close>

theorem cred_calls_isolated:
  assumes "creds_ok ts s" "fresh_alloc alloc" "u \<notin> fst ` set cs"
  shows "creds_ok ts (run_cred_calls alloc cs s) \<and>
    visible (current_cred (Some u) (run_cred_calls alloc cs s)) = visible (current_cred (Some u) s)"
  using assms(1,3)
proof (induction cs arbitrary: s)
  case (Cons p cs)
  obtain t k where p: "p = (t, k)" by fastforce
  obtain r s1 where e: "do_cred_call alloc (t, k) s = (r, s1)" by fastforce
  have "creds_ok ts s1" using do_cred_call_ok [OF Cons.prems(1) assms(2), of t k] e by simp
  from Cons.IH [OF this] do_cred_call_current(1) [OF Cons.prems(1) assms(2) e, of u] Cons.prems(2)
  show ?case by (simp add: run_cred_calls_def p e)
qed (simp add: run_cred_calls_def)

definition demo_creds :: cred_state where
  "demo_creds =
     \<lparr>cs_heap = [1 \<mapsto> init_cred,
                 2 \<mapsto> cred_zero\<lparr>c_usage := 1, c_uid := 1000, c_euid := 1000, c_suid := 1001\<rparr>],
      cs_cred = [0 \<mapsto> 1, 7 \<mapsto> 2]\<rparr>"

definition demo_alloc :: cred_allocator where
  "demo_alloc h = (if h 3 = None then Some 3 else if h 4 = None then Some 4 else None)"

lemma demo_creds_ok: "creds_ok [0, 7] demo_creds" "fresh_alloc demo_alloc"
  by (auto simp: creds_ok_def demo_creds_def cred_refs_def init_cred_def fresh_alloc_def demo_alloc_def
      split: if_splits)

theorem cred_calls_isolated_witness:
  "visible (current_cred (Some 7) (run_cred_calls demo_alloc [(0, Setuid 5), (0, Setgid 6)] demo_creds)) =
   visible (current_cred (Some 7) demo_creds)"
  using cred_calls_isolated [OF demo_creds_ok, of 7 "[(0, Setuid 5), (0, Setgid 6)]"] by simp

text \<open>\<^emph>\<open>No privilege from nothing.\<close> A task without \<^verbatim>\<open>CAP_SETUID\<close> never gets it, and its real,
  effective and saved user ids stay among the three it started with, whatever sequence of
  identity calls it and the other tasks make.\<close>

theorem unprivileged_ids_confined:
  assumes "creds_ok ts s" "fresh_alloc alloc" "current_cred (Some t) s = Some c"
    "c_cap_effective c AND CAP_SETUID = 0"
  shows "\<exists>c'. current_cred (Some t) (run_cred_calls alloc cs s) = Some c' \<and>
    c_cap_effective c' = c_cap_effective c \<and>
    {c_uid c', c_euid c', c_suid c'} \<subseteq> {c_uid c, c_euid c, c_suid c}"
  using assms(1,3,4)
proof (induction cs arbitrary: s c)
  case (Cons p cs)
  obtain v k where p: "p = (v, k)" by fastforce
  obtain r s1 where e: "do_cred_call alloc (v, k) s = (r, s1)" by fastforce
  have ok: "creds_ok ts s1" using do_cred_call_ok [OF Cons.prems(1) assms(2), of v k] e by simp
  have "\<exists>c1. current_cred (Some t) s1 = Some c1 \<and> c_cap_effective c1 = c_cap_effective c \<and>
      {c_uid c1, c_euid c1, c_suid c1} \<subseteq> {c_uid c, c_euid c, c_suid c}"
  proof (cases "visible (current_cred (Some t) s1) = visible (current_cred (Some t) s)")
    case True
    then obtain c1 where "current_cred (Some t) s1 = Some c1" "c1\<lparr>c_usage := 0\<rparr> = c\<lparr>c_usage := 0\<rparr>"
      using Cons.prems(2) by (auto simp: visible_def)
    moreover from this(2) have "c_uid c1 = c_uid c" "c_euid c1 = c_euid c" "c_suid c1 = c_suid c"
      "c_cap_effective c1 = c_cap_effective c"
      by (metis cred.ext_inject cred.surjective cred.update_convs(1))+
    ultimately show ?thesis by simp
  next
    case False
    then have "v = t" using do_cred_call_current(1) [OF Cons.prems(1) assms(2) e, of t] by metis
    then obtain c1 where c1: "call_change k (c\<lparr>c_usage := 1\<rparr>) = Some c1" "current_cred (Some t) s1 = Some c1"
      using do_cred_call_current(2) [OF Cons.prems(1) assms(2) e] False Cons.prems(2) by auto
    show ?thesis using c1(2) call_change_keeps(2) [OF c1(1)] call_change_ids [OF c1(1)] Cons.prems(3) by simp
  qed
  then obtain c1 where c1: "current_cred (Some t) s1 = Some c1" "c_cap_effective c1 = c_cap_effective c"
      "{c_uid c1, c_euid c1, c_suid c1} \<subseteq> {c_uid c, c_euid c, c_suid c}" by blast
  have "run_cred_calls alloc (p # cs) s = run_cred_calls alloc cs s1"
    by (simp add: run_cred_calls_def p e)
  then show ?case using Cons.IH [OF ok c1(1)] c1(2,3) Cons.prems(3) by auto
qed (simp add: run_cred_calls_def)

theorem unprivileged_ids_confined_witness:
  "\<exists>c'. current_cred (Some 7) (run_cred_calls demo_alloc [(7, Setuid 0), (7, Setresuid 1001 1001 1001)] demo_creds)
      = Some c' \<and> c_uid c' \<noteq> 0"
  using unprivileged_ids_confined [OF demo_creds_ok, of 7 _ "[(7, Setuid 0), (7, Setresuid 1001 1001 1001)]"]
  by (fastforce simp: demo_creds_def current_cred_def cred_zero_def)

text \<open>A task with \<^verbatim>\<open>CAP_SETUID\<close> that gives up root with
  \<^verbatim>\<open>setuid\<close> keeps its capabilities: a later \<^verbatim>\<open>setuid\<close> to any id, root included, is never
  refused.\<close>

theorem setuid_keeps_privilege:
  assumes "creds_ok ts s" "fresh_alloc alloc" "current_cred (Some t) s = Some c"
    "c_cap_effective c AND CAP_SETUID \<noteq> 0" "sys_setuid u alloc (Some t) s = (0, s1)"
    "sys_setuid v alloc (Some t) s1 = (r, s2)"
  shows "r \<noteq> - EPERM \<and> (r = 0 \<longrightarrow> (\<exists>c2. current_cred (Some t) s2 = Some c2 \<and>
      c_uid c2 = v \<and> c_euid c2 = v \<and> c_suid c2 = v))"
proof -
  have e1: "do_cred_call alloc (t, Setuid u) s = (0, s1)" and e2: "do_cred_call alloc (t, Setuid v) s1 = (r, s2)"
    using assms(5,6) by auto
  have ok: "creds_ok ts s1" using do_cred_call_ok [OF assms(1,2), of t "Setuid u"] e1 by simp
  obtain c1 where c1: "current_cred (Some t) s1 = Some c1" "c_cap_effective c1 = c_cap_effective c"
  proof (cases rule: do_cred_call_cases [OF assms(1,2) e1])
    case (2 a c0 new c1)
    then have "c0 = c" using assms(3) by (simp add: current_cred_def)
    then show ?thesis
      using that [of c1] 2 committed_current(1) [OF assms(1) 2(2-4)] call_change_keeps(2) [OF 2(5)] by simp
  qed simp
  have keep: "\<forall>c c'. setuid_change v c = Some c' \<longrightarrow> c_usage c' = c_usage c"
    using call_change_keeps(1) [of "Setuid v"] by simp
  show ?thesis
  proof (cases rule: change_cred_cases [OF ok assms(2) e2 [unfolded do_cred_call.simps sys_setuid_def] keep])
    case 1
    have "r \<noteq> - EPERM"
      using e2 c1 assms(4)
      by (auto simp: sys_setuid_def change_cred_def prepare_cred_def cred_copy_def cred_alloc_def
          cred_store_def commit_cred_def setuid_change_def split: option.splits)
    then show ?thesis using 1 by simp
  next
    case (2 a c0 new c2)
    then have "c0 = c1" using c1(1) by (simp add: current_cred_def)
    then show ?thesis
      using 2 c1(2) assms(4) committed_current(1) [OF ok 2(2-4)] by (auto simp: setuid_change_def)
  qed
qed

theorem setuid_keeps_privilege_witness:
  "\<exists>s1 r s2. sys_setuid 1000 demo_alloc (Some 0) demo_creds = (0, s1) \<and>
     sys_setuid 0 demo_alloc (Some 0) s1 = (r, s2) \<and> r \<noteq> - EPERM"
proof -
  obtain s1 where e: "sys_setuid 1000 demo_alloc (Some 0) demo_creds = (0, s1)"
    by (simp add: sys_setuid_def change_cred_def prepare_cred_def cred_copy_def cred_alloc_def
        current_cred_def demo_creds_def demo_alloc_def cred_store_def commit_cred_def setuid_change_def
        init_cred_def CAP_SETUID_def)
  obtain r s2 where f: "sys_setuid 0 demo_alloc (Some 0) s1 = (r, s2)" by fastforce
  have "current_cred (Some 0) demo_creds = Some init_cred"
    by (simp add: current_cred_def demo_creds_def)
  from setuid_keeps_privilege [OF demo_creds_ok this _ e f] e f show ?thesis
    by (auto simp: init_cred_def CAP_SETUID_def)
qed

end
