(* ===== verification/Pid.thy ===== *)
theory Pid
  imports Prelude
begin

text \<open>
  Process numbers: \<^verbatim>\<open>alloc_pid\<close> and \<^verbatim>\<open>free_pid\<close> of \<^verbatim>\<open>kernel/process.c\<close>, where a set bit of the
  bitmap is a number in use, and \<^verbatim>\<open>pid_alloc\<close> and \<^verbatim>\<open>pid_free\<close> of \<^verbatim>\<open>fs/vfs_ops.c\<close>, which
  keep a bitmap of their own with the opposite meaning. Both bitmaps are functions from the
  index of a word to its value. The search loop of \<^verbatim>\<open>alloc_pid\<close> carries fuel, one unit per
  number it looks at; \<open>None\<close> is a loop that has not ended.
\<close>

section \<open>Model\<close>

abbreviation (input) PID_MAX :: nat where "PID_MAX \<equiv> 32768"
abbreviation (input) RESERVED_PIDS :: nat where "RESERVED_PIDS \<equiv> 300"

record pid_pool =
  pid_bitmap :: "nat \<Rightarrow> u64"
  last_pid :: nat

definition pid_used :: "(nat \<Rightarrow> u64) \<Rightarrow> nat \<Rightarrow> bool" where
  "pid_used bm pid \<longleftrightarrow> bm (pid div 64) AND push_bit (pid mod 64) 1 \<noteq> 0"

definition pid_next :: "nat \<Rightarrow> nat" where
  "pid_next pid = (if PID_MAX \<le> pid + 1 then RESERVED_PIDS else pid + 1)"

fun alloc_pid_loop :: "nat \<Rightarrow> (nat \<Rightarrow> u64) \<Rightarrow> nat \<Rightarrow> nat \<Rightarrow> int option" where
  "alloc_pid_loop 0 bm start pid = None"
| "alloc_pid_loop (Suc fuel) bm start pid =
     (if \<not> pid_used bm pid then Some (int pid)
      else if pid_next pid = start then Some (- 1)
      else alloc_pid_loop fuel bm start (pid_next pid))"

definition alloc_pid :: "nat \<Rightarrow> pid_pool \<Rightarrow> (int \<times> pid_pool) option" where
  "alloc_pid fuel s =
     (let start = (if PID_MAX \<le> last_pid s + 1 then RESERVED_PIDS else last_pid s + 1) in
      case alloc_pid_loop fuel (pid_bitmap s) start start of
        None \<Rightarrow> None
      | Some pid \<Rightarrow>
          if pid < 0 then Some (pid, s)
          else let p = nat pid in
               Some (pid, s\<lparr>pid_bitmap := (pid_bitmap s)(p div 64 :=
                              pid_bitmap s (p div 64) OR push_bit (p mod 64) 1),
                            last_pid := p\<rparr>))"

definition free_pid :: "int \<Rightarrow> pid_pool \<Rightarrow> pid_pool" where
  "free_pid pid s =
     (if pid < int RESERVED_PIDS \<or> int PID_MAX \<le> pid then s
      else let p = nat pid in
           s\<lparr>pid_bitmap := (pid_bitmap s)(p div 64 :=
               pid_bitmap s (p div 64) AND NOT (push_bit (p mod 64) 1))\<rparr>)"

text \<open>The reservations of \<^verbatim>\<open>process_init\<close> and \<^verbatim>\<open>create_init_task\<close>.\<close>

definition pid_boot :: pid_pool where
  "pid_boot = \<lparr>pid_bitmap = (\<lambda>_. 0)(0 := 3), last_pid = 0\<rparr>"

text \<open>The pool of \<^verbatim>\<open>fs/vfs_ops.c\<close>: a set bit is a free number, and the last number starts
  at 1.\<close>

abbreviation (input) MAX_PID :: nat where "MAX_PID \<equiv> 65536"

definition pid_init :: pid_pool where
  "pid_init = \<lparr>pid_bitmap = (\<lambda>_. - 1)(0 := - 1 AND NOT 1), last_pid = 1\<rparr>"

fun pid_alloc_loop :: "nat \<Rightarrow> pid_pool \<Rightarrow> int \<times> pid_pool" where
  "pid_alloc_loop 0 s = (- 1, s)"
| "pid_alloc_loop (Suc tries) s =
     (let p = (if MAX_PID \<le> last_pid s + 1 then 1 else last_pid s + 1);
          s1 = s\<lparr>last_pid := p\<rparr> in
      if pid_used (pid_bitmap s1) p
      then (int p, s1\<lparr>pid_bitmap := (pid_bitmap s1)(p div 64 :=
                       pid_bitmap s1 (p div 64) AND NOT (push_bit (p mod 64) 1))\<rparr>)
      else pid_alloc_loop tries s1)"

definition pid_alloc :: "pid_pool \<Rightarrow> int \<times> pid_pool" where
  "pid_alloc s = pid_alloc_loop MAX_PID s"

definition pid_free :: "int \<Rightarrow> pid_pool \<Rightarrow> pid_pool" where
  "pid_free pid s =
     (if pid \<le> 0 \<or> int MAX_PID \<le> pid then s
      else let p = nat pid in
           s\<lparr>pid_bitmap := (pid_bitmap s)(p div 64 :=
               pid_bitmap s (p div 64) OR push_bit (p mod 64) 1)\<rparr>)"

section \<open>Bits\<close>

lemma pid_used_iff: "pid_used bm pid \<longleftrightarrow> bit (bm (pid div 64)) (pid mod 64)"
  by (simp add: pid_used_def push_bit_eq_mult and_exp_eq_0_iff_not_bit)

lemma pid_slot: "(p::nat) div 64 = q div 64 \<Longrightarrow> p mod 64 = q mod 64 \<longleftrightarrow> p = q"
  by (metis div_mult_mod_eq)

lemma pid_used_set:
  "pid_used (bm(p div 64 := bm (p div 64) OR push_bit (p mod 64) 1)) q \<longleftrightarrow> pid_used bm q \<or> q = p"
  using pid_slot [of p q] by (auto simp: pid_used_iff bit_or_exp)

lemma pid_used_clear:
  "pid_used (bm(p div 64 := bm (p div 64) AND NOT (push_bit (p mod 64) 1))) q \<longleftrightarrow> pid_used bm q \<and> q \<noteq> p"
  using pid_slot [of p q] by (auto simp: pid_used_iff bit_and_not_exp)

section \<open>The search loop\<close>

lemma loop_found:
  assumes "pid \<le> q" "q < hi" "start \<le> pid \<and> hi = 32768 \<or> hi = start \<and> hi \<le> 32768"
    "\<not> pid_used bm q" "\<And>r. pid \<le> r \<Longrightarrow> r < q \<Longrightarrow> pid_used bm r" "q - pid < fuel"
  shows "alloc_pid_loop fuel bm start pid = Some (int q)"
  using assms
proof (induction fuel arbitrary: pid)
  case (Suc fuel)
  show ?case
  proof (cases "pid = q")
    case False
    then have "pid < q" using Suc.prems by simp
    then have "pid_next pid = Suc pid" "pid_next pid \<noteq> start" "pid_used bm pid"
      using Suc.prems by (auto simp: pid_next_def)
    then show ?thesis using Suc.IH [of "Suc pid"] Suc.prems \<open>pid < q\<close> by auto
  qed (use Suc.prems in simp)
qed simp

lemma loop_wrap:
  assumes "start \<le> pid" "pid < 32768" "\<And>r. pid \<le> r \<Longrightarrow> r < 32768 \<Longrightarrow> pid_used bm r"
  shows "alloc_pid_loop (32768 - pid + fuel) bm start pid =
    (if start = 300 then Some (- 1) else alloc_pid_loop fuel bm start 300)"
  using assms
proof (induction "32768 - pid" arbitrary: pid)
  case (Suc d)
  have u: "pid_used bm pid" using Suc.prems by simp
  have e: "32768 - pid + fuel = Suc (d + fuel)" using Suc.hyps(2) by simp
  show ?case
  proof (cases "d = 0")
    case True
    then have "pid_next pid = 300" using Suc.hyps(2) by (simp add: pid_next_def)
    then show ?thesis using u e True by simp
  next
    case False
    then have "pid_next pid = Suc pid" using Suc.hyps(2) by (simp add: pid_next_def)
    moreover have "d = 32768 - Suc pid" using Suc.hyps(2) by simp
    ultimately show ?thesis using u e Suc.hyps(1) [of "Suc pid"] Suc.prems False by simp
  qed
qed simp

lemma loop_none:
  assumes "pid < start" "start < 32768" "\<And>r. pid \<le> r \<Longrightarrow> r < start \<Longrightarrow> pid_used bm r" "start - pid \<le> fuel"
  shows "alloc_pid_loop fuel bm start pid = Some (- 1)"
  using assms
proof (induction fuel arbitrary: pid)
  case (Suc fuel)
  have "pid_next pid = Suc pid" "pid_used bm pid" using Suc.prems by (auto simp: pid_next_def)
  then show ?case using Suc by auto
qed simp

lemma least_unused:
  assumes "pid \<le> (q::nat)" "\<not> P q"
  obtains r where "pid \<le> r" "r \<le> q" "\<not> P r" "\<And>i. pid \<le> i \<Longrightarrow> i < r \<Longrightarrow> P i"
proof -
  define r where "r = (LEAST i. pid \<le> i \<and> \<not> P i)"
  have r: "pid \<le> r \<and> \<not> P r" unfolding r_def by (rule LeastI [of _ q]) (use assms in simp)
  moreover have "r \<le> q" unfolding r_def by (rule Least_le) (use assms in simp)
  moreover have "P i" if "pid \<le> i" "i < r" for i using not_less_Least [of i] that unfolding r_def by blast
  ultimately show thesis using that by blast
qed

text \<open>What keeps the loop from running past its start for ever: numbers from 300 on are handed
  out only once the search has left the reserved range.\<close>

definition pool_inv :: "pid_pool \<Rightarrow> bool" where
  "pool_inv s \<longleftrightarrow> last_pid s < 32768 \<and>
     (last_pid s < 299 \<longrightarrow> (\<forall>q. 300 \<le> q \<and> q < 32768 \<longrightarrow> \<not> pid_used (pid_bitmap s) q))"

definition pool_start :: "pid_pool \<Rightarrow> nat" where
  "pool_start s = (if 32768 \<le> last_pid s + 1 then 300 else last_pid s + 1)"

lemma loop_result:
  assumes "pool_inv s" "65536 \<le> fuel"
  shows "\<exists>r. alloc_pid_loop fuel (pid_bitmap s) (pool_start s) (pool_start s) = Some r \<and>
    (r = - 1 \<and> (\<forall>q. 300 \<le> q \<and> q < 32768 \<longrightarrow> pid_used (pid_bitmap s) q) \<or>
     (\<exists>p. r = int p \<and> 1 \<le> p \<and> p < 32768 \<and> \<not> pid_used (pid_bitmap s) p \<and>
          (p < 299 \<longrightarrow> last_pid s < 299)))"
proof -
  let ?bm = "pid_bitmap s" and ?st = "pool_start s"
  have st: "1 \<le> ?st" "?st < 32768" using assms(1) by (auto simp: pool_start_def pool_inv_def)
  have low: "last_pid s < 299" if "?st < 300" using that by (simp add: pool_start_def split: if_splits)
  have res: ?thesis if "?st \<le> p \<or> 300 \<le> p" "p < 32768" "\<not> pid_used ?bm p"
    "alloc_pid_loop fuel ?bm ?st ?st = Some (int p)" for p
    using that st low by (intro exI [of _ "int p"]) auto
  show ?thesis
  proof (cases "\<exists>q. ?st \<le> q \<and> q < 32768 \<and> \<not> pid_used ?bm q")
    case True
    then obtain q where q: "?st \<le> q" "q < 32768" "\<not> pid_used ?bm q" by blast
    then obtain r where r: "?st \<le> r" "r \<le> q" "\<not> pid_used ?bm r" "\<And>i. ?st \<le> i \<Longrightarrow> i < r \<Longrightarrow> pid_used ?bm i"
      using least_unused [of ?st q "pid_used ?bm"] by blast
    have "alloc_pid_loop fuel ?bm ?st ?st = Some (int r)"
      by (rule loop_found [where hi = 32768]) (use r q assms(2) in auto)
    then show ?thesis using res [of r] r q by simp
  next
    case False
    then have used: "\<And>r. ?st \<le> r \<Longrightarrow> r < 32768 \<Longrightarrow> pid_used ?bm r" by auto
    have st300: "300 \<le> ?st"
      using used [of 300] assms(1) low by (force simp: pool_inv_def not_le [symmetric])
    obtain f where f: "fuel = 32768 - ?st + f" "32768 \<le> f"
      using assms(2) st by (intro that [of "fuel - (32768 - ?st)"]) auto
    note w = loop_wrap [OF order_refl st(2), of ?bm f, folded f(1)]
    show ?thesis
    proof (cases "\<exists>q. 300 \<le> q \<and> q < ?st \<and> \<not> pid_used ?bm q")
      case True
      then obtain q where q: "300 \<le> q" "q < ?st" "\<not> pid_used ?bm q" by blast
      then obtain r where r: "300 \<le> r" "r \<le> q" "\<not> pid_used ?bm r" "\<And>i. 300 \<le> i \<Longrightarrow> i < r \<Longrightarrow> pid_used ?bm i"
        using least_unused [of 300 q "pid_used ?bm"] by blast
      have "alloc_pid_loop f ?bm ?st 300 = Some (int r)"
        by (rule loop_found [where hi = "?st"]) (use r q f st in auto)
      then show ?thesis using res [of r] w used r q st by auto
    next
      case False
      have "alloc_pid_loop fuel ?bm ?st ?st = Some (- 1)"
        using w used loop_none [of 300 ?st ?bm f] False st st300 f(2) by auto
      moreover have "pid_used ?bm q" if "300 \<le> q" "q < 32768" for q
        using False used that by (cases "q < ?st") auto
      ultimately show ?thesis by blast
    qed
  qed
qed

lemma free_pid_used: "pid_used (pid_bitmap (free_pid pid s)) q \<longleftrightarrow>
    pid_used (pid_bitmap s) q \<and> \<not> (int q = pid \<and> 300 \<le> pid \<and> pid < 32768)"
  using pid_used_clear [of "pid_bitmap s" "nat pid" q] by (auto simp: free_pid_def Let_def)

lemma free_pid_inv: "pool_inv s \<Longrightarrow> pool_inv (free_pid pid s)"
  unfolding pool_inv_def free_pid_used by (auto simp: free_pid_def Let_def)

lemma pid_boot_inv: "pool_inv pid_boot"
  by (auto simp: pool_inv_def pid_boot_def pid_used_iff)

section \<open>Properties\<close>

lemma alloc_pid_spec:
  assumes "pool_inv s" "65536 \<le> fuel"
  shows "\<exists>pid s'. alloc_pid fuel s = Some (pid, s') \<and> pool_inv s' \<and>
    (pid = - 1 \<and> s' = s \<and> (\<forall>q. 300 \<le> q \<and> q < 32768 \<longrightarrow> pid_used (pid_bitmap s) q) \<or>
     1 \<le> pid \<and> pid < 32768 \<and> \<not> pid_used (pid_bitmap s) (nat pid) \<and>
     (\<forall>q. pid_used (pid_bitmap s') q \<longleftrightarrow> pid_used (pid_bitmap s) q \<or> int q = pid))"
proof -
  obtain r where r: "alloc_pid_loop fuel (pid_bitmap s) (pool_start s) (pool_start s) = Some r"
    and c: "r = - 1 \<and> (\<forall>q. 300 \<le> q \<and> q < 32768 \<longrightarrow> pid_used (pid_bitmap s) q) \<or>
     (\<exists>p. r = int p \<and> 1 \<le> p \<and> p < 32768 \<and> \<not> pid_used (pid_bitmap s) p \<and>
          (p < 299 \<longrightarrow> last_pid s < 299))"
    using loop_result [OF assms] by blast
  note a = alloc_pid_def [of fuel s, unfolded Let_def, folded pool_start_def]
  from c show ?thesis
  proof
    assume "r = - 1 \<and> (\<forall>q. 300 \<le> q \<and> q < 32768 \<longrightarrow> pid_used (pid_bitmap s) q)"
    then show ?thesis using assms(1) r by (intro exI [of _ "- 1"] exI [of _ s]) (simp add: a)
  next
    assume "\<exists>p. r = int p \<and> 1 \<le> p \<and> p < 32768 \<and> \<not> pid_used (pid_bitmap s) p \<and>
          (p < 299 \<longrightarrow> last_pid s < 299)"
    then obtain p where p: "r = int p" "1 \<le> p" "p < 32768" "\<not> pid_used (pid_bitmap s) p"
      "p < 299 \<longrightarrow> last_pid s < 299" by blast
    let ?s = "s\<lparr>pid_bitmap := (pid_bitmap s)(p div 64 := pid_bitmap s (p div 64) OR push_bit (p mod 64) 1),
                last_pid := p\<rparr>"
    have u: "pid_used (pid_bitmap ?s) q \<longleftrightarrow> pid_used (pid_bitmap s) q \<or> q = p" for q
      using pid_used_set [of "pid_bitmap s" p q] by simp
    have inv: "pool_inv ?s" using assms(1) p(3,5) u unfolding pool_inv_def by auto
    have e: "alloc_pid fuel s = Some (int p, ?s)" using r p(1) by (simp add: a)
    show ?thesis
      using e inv p(2,3,4) u by (intro exI [of _ "int p"] exI [of _ ?s]) auto
  qed
qed

text \<open>C31 (fresh process numbers). From a pool in which no number above the reserved range was
  handed out before the search left that range, two rounds of the bitmap are enough fuel:
  \<^verbatim>\<open>alloc_pid\<close> returns, either a number that was free and is marked used, with no other bit
  changed, or \<open>-1\<close> with nothing changed and every number from 300 on in use. The pool keeps
  the property.\<close>

theorem alloc_pid_correct:
  assumes "pool_inv s" "65536 \<le> fuel"
  shows "\<exists>pid s'. alloc_pid fuel s = Some (pid, s') \<and> pool_inv s' \<and>
    (pid = - 1 \<and> s' = s \<and> (\<forall>q. 300 \<le> q \<and> q < 32768 \<longrightarrow> pid_used (pid_bitmap s) q) \<or>
     1 \<le> pid \<and> pid < 32768 \<and> \<not> pid_used (pid_bitmap s) (nat pid) \<and>
     (\<forall>q. pid_used (pid_bitmap s') q \<longleftrightarrow> pid_used (pid_bitmap s) q \<or> int q = pid))"
  by (rule alloc_pid_spec [OF assms])

theorem alloc_pid_correct_witness:
  "\<exists>pid s'. alloc_pid 65536 pid_boot = Some (pid, s') \<and> 1 < pid \<and> pid_used (pid_bitmap s') (nat pid)"
  using alloc_pid_correct [OF pid_boot_inv order_refl]
proof (elim exE conjE disjE)
  fix pid s'
  assume "pid = - 1" "\<forall>q. 300 \<le> q \<and> q < 32768 \<longrightarrow> pid_used (pid_bitmap pid_boot) q"
  then have "pid_used (pid_bitmap pid_boot) 300" by auto
  then show ?thesis by (simp add: pid_boot_def pid_used_iff)
next
  fix pid s'
  assume a: "alloc_pid 65536 pid_boot = Some (pid, s')" "1 \<le> pid"
    "\<not> pid_used (pid_bitmap pid_boot) (nat pid)"
    "\<forall>q. pid_used (pid_bitmap s') q \<longleftrightarrow> pid_used (pid_bitmap pid_boot) q \<or> int q = pid"
  have "pid \<noteq> 1" using a(3) by (auto simp: pid_boot_def pid_used_def)
  then show ?thesis using a(1,2) spec [OF a(4), of "nat pid"] by auto
qed

end
