(* ===== verification/Pmm.thy ===== *)
theory Pmm
  imports Prelude
begin

text \<open>
  The physical page allocator of \<^verbatim>\<open>kernel/init.c\<close>: a bitmap of 1024 words, one bit per page
  above \<^verbatim>\<open>bitmap_base\<close>, set when the page is free, with byte counters beside it.
\<close>

section \<open>Model\<close>

abbreviation (input) PAGE_SIZE :: u64 where "PAGE_SIZE \<equiv> 4096"
abbreviation (input) BITMAP_SIZE :: nat where "BITMAP_SIZE \<equiv> 1024"
abbreviation (input) MAX_MEM_REGIONS :: nat where "MAX_MEM_REGIONS \<equiv> 64"

record mem_region =
  mr_base :: u64
  mr_size :: u64
  mr_available :: bool

record pmm =
  pm_regions :: "mem_region list"
  pm_total :: u64
  pm_free :: u64
  pm_used :: u64
  page_bitmap :: "nat \<Rightarrow> u64"
  bitmap_base :: u64

text \<open>\<^verbatim>\<open>bitmap_base\<close> is not reset by \<^verbatim>\<open>pmm_init\<close>; the regions are those counted by
  \<^verbatim>\<open>num_regions\<close>.\<close>

definition pmm_init :: "pmm \<Rightarrow> pmm" where
  "pmm_init s = s\<lparr>pm_regions := [], pm_total := 0, pm_free := 0, pm_used := 0,
                   page_bitmap := \<lambda>_. - 1\<rparr>"

definition pmm_add_region :: "u64 \<Rightarrow> u64 \<Rightarrow> pmm \<Rightarrow> pmm" where
  "pmm_add_region addr sz s =
     (if MAX_MEM_REGIONS \<le> length (pm_regions s) then s
      else let s1 = s\<lparr>pm_regions := pm_regions s @ [\<lparr>mr_base = addr, mr_size = sz, mr_available = True\<rparr>],
                       pm_total := pm_total s + sz, pm_free := pm_free s + sz\<rparr>
           in if bitmap_base s1 = 0 \<and> 0x100000 \<le> addr then s1\<lparr>bitmap_base := addr\<rparr> else s1)"

definition clear_page :: "(nat \<Rightarrow> u64) \<Rightarrow> nat \<Rightarrow> (nat \<Rightarrow> u64)" where
  "clear_page bm n = bm(n div 64 := bm (n div 64) AND NOT (push_bit (n mod 64) 1))"

definition set_page :: "(nat \<Rightarrow> u64) \<Rightarrow> nat \<Rightarrow> (nat \<Rightarrow> u64)" where
  "set_page bm n = bm(n div 64 := bm (n div 64) OR push_bit (n mod 64) 1)"

text \<open>The loop of \<^verbatim>\<open>pmm_reserve_region\<close>: \<open>k\<close> pages are still to be marked.\<close>

fun reserve_pages :: "nat \<Rightarrow> u64 \<Rightarrow> u64 \<Rightarrow> (nat \<Rightarrow> u64) \<Rightarrow> (nat \<Rightarrow> u64)" where
  "reserve_pages 0 start i bm = bm"
| "reserve_pages (Suc k) start i bm =
     (if start + i < 65536 then reserve_pages k start (i + 1) (clear_page bm (unat (start + i))) else bm)"

definition pmm_reserve_region :: "u64 \<Rightarrow> u64 \<Rightarrow> pmm \<Rightarrow> pmm" where
  "pmm_reserve_region addr sz s =
     (if bitmap_base s = 0 then s
      else let start_page = (addr - bitmap_base s) div PAGE_SIZE;
               num_pages = (sz + PAGE_SIZE - 1) div PAGE_SIZE
           in s\<lparr>page_bitmap := reserve_pages (unat num_pages) start_page 0 (page_bitmap s),
                pm_used := pm_used s + sz, pm_free := pm_free s - sz\<rparr>)"

text \<open>The first non-zero word among the \<open>n\<close> from \<open>i\<close> on.\<close>

fun first_word :: "(nat \<Rightarrow> u64) \<Rightarrow> nat \<Rightarrow> nat \<Rightarrow> nat option" where
  "first_word bm i 0 = None"
| "first_word bm i (Suc n) = (if bm i \<noteq> 0 then Some i else first_word bm (Suc i) n)"

definition pmm_alloc_page :: "pmm \<Rightarrow> u64 \<times> pmm" where
  "pmm_alloc_page s =
     (case first_word (page_bitmap s) 0 BITMAP_SIZE of
        None \<Rightarrow> (0, s)
      | Some i \<Rightarrow>
          let b = ctz64 (page_bitmap s i) in
          (bitmap_base s + of_nat (i * 64 + b) * PAGE_SIZE,
           s\<lparr>page_bitmap := (page_bitmap s)(i := page_bitmap s i AND NOT (push_bit b 1)),
             pm_free := pm_free s - PAGE_SIZE, pm_used := pm_used s + PAGE_SIZE\<rparr>))"

definition pmm_free_page :: "u64 \<Rightarrow> pmm \<Rightarrow> pmm" where
  "pmm_free_page addr s =
     (if addr < bitmap_base s then s
      else let page = (addr - bitmap_base s) div PAGE_SIZE; idx = page div 64 in
           if idx < 1024
           then s\<lparr>page_bitmap := set_page (page_bitmap s) (unat page),
                  pm_free := pm_free s + PAGE_SIZE, pm_used := pm_used s - PAGE_SIZE\<rparr>
           else s)"

section \<open>Pages\<close>

text \<open>Page \<open>n\<close> is free; its address.\<close>

definition page_free :: "pmm \<Rightarrow> nat \<Rightarrow> bool" where
  "page_free s n \<longleftrightarrow> n < 65536 \<and> bit (page_bitmap s (n div 64)) (n mod 64)"

definition page_addr :: "pmm \<Rightarrow> nat \<Rightarrow> u64" where
  "page_addr s n = bitmap_base s + of_nat n * 4096"

text \<open>The managed memory lies between 1 MiB and the end of the physical address space, on page
  boundaries.\<close>

definition pmm_ok :: "pmm \<Rightarrow> bool" where
  "pmm_ok s \<longleftrightarrow> 0x100000 \<le> bitmap_base s \<and> bitmap_base s < 2 ^ 51 \<and> 4096 dvd unat (bitmap_base s)"

lemma slot64: "(p::nat) div 64 = q div 64 \<Longrightarrow> p mod 64 = q mod 64 \<longleftrightarrow> p = q"
  by (metis div_mult_mod_eq)

lemma bit_set_page: "bit (set_page bm n (k div 64)) (k mod 64) \<longleftrightarrow> bit (bm (k div 64)) (k mod 64) \<or> k = n"
  using slot64 [of k n] by (auto simp: set_page_def bit_or_exp)

lemma bit_clear_page: "bit (clear_page bm n (k div 64)) (k mod 64) \<longleftrightarrow> bit (bm (k div 64)) (k mod 64) \<and> k \<noteq> n"
  using slot64 [of k n] by (auto simp: clear_page_def bit_and_not_exp)

lemma first_word_cases:
  "case first_word bm i n of
     None \<Rightarrow> \<forall>j. i \<le> j \<and> j < i + n \<longrightarrow> bm j = 0
   | Some j \<Rightarrow> i \<le> j \<and> j < i + n \<and> bm j \<noteq> 0"
proof (induction n arbitrary: i)
  case (Suc n)
  show ?case
  proof (cases "bm i = 0")
    case True
    then show ?thesis
      using Suc [of "Suc i"] by (auto split: option.splits) (metis Suc_leI le_neq_implies_less)
  qed simp
qed auto

lemma unat_pages: "n < 65536 \<Longrightarrow> unat (of_nat n * 4096 :: u64) = n * 4096"
  by (simp add: unat_word_ariths unat_of_nat)

lemma unat_page_addr:
  assumes "pmm_ok s" "n < 65536"
  shows "unat (page_addr s n) = unat (bitmap_base s) + n * 4096" "unat (bitmap_base s) < 2 ^ 51"
proof -
  show b: "unat (bitmap_base s) < 2 ^ 51"
    using assms(1) unat_mono [of "bitmap_base s" "2 ^ 51"] by (simp add: pmm_ok_def unat_exp_word)
  show "unat (page_addr s n) = unat (bitmap_base s) + n * 4096"
    using b assms(2) unat_pages [OF assms(2)]
    unfolding page_addr_def unat_word_ariths(1) by simp
qed

lemma page_addr_props:
  assumes "pmm_ok s" "n < 65536"
  shows "page_addr s n \<noteq> 0" "page_addr s n < 2 ^ 52" "4096 dvd unat (page_addr s n)"
    "(page_addr s n - bitmap_base s) div 4096 = of_nat n"
proof -
  note u = unat_page_addr [OF assms]
  have b: "0x100000 \<le> unat (bitmap_base s)" using assms(1) by (simp add: pmm_ok_def word_le_nat_alt)
  show "page_addr s n \<noteq> 0" using u b by (metis add_is_0 unat_0 not_numeral_le_zero)
  show "page_addr s n < 2 ^ 52" using u assms(2) by (simp add: word_less_nat_alt unat_exp_word)
  show "4096 dvd unat (page_addr s n)" using u assms(1) by (simp add: pmm_ok_def)
  have "page_addr s n - bitmap_base s = of_nat n * 4096" by (simp add: page_addr_def)
  moreover have "(of_nat n * 4096 :: u64) div 4096 = of_nat n"
    using assms(2) unat_pages [OF assms(2)]
    by (intro word_unat_eq_iff [THEN iffD2]) (simp add: unat_div unat_of_nat)
  ultimately show "(page_addr s n - bitmap_base s) div 4096 = of_nat n" by simp
qed

lemma pmm_alloc_page_cases:
  obtains (full) "pmm_alloc_page s = (0, s)" "\<And>n. \<not> page_free s n"
  | (page) n s' where "pmm_alloc_page s = (page_addr s n, s')" "page_free s n"
      "bitmap_base s' = bitmap_base s" "\<And>k. page_free s' k \<longleftrightarrow> page_free s k \<and> k \<noteq> n"
      "pm_free s' = pm_free s - 4096" "pm_used s' = pm_used s + 4096"
proof (cases "first_word (page_bitmap s) 0 1024")
  case None
  then have z: "page_bitmap s j = 0" if "j < 1024" for j
    using first_word_cases [where bm = "page_bitmap s" and i = 0 and n = 1024] that by simp
  have "\<not> page_free s n" for n using z [of "n div 64"] by (auto simp: page_free_def)
  then show thesis using None full by (simp add: pmm_alloc_page_def)
next
  case (Some i)
  then have i: "i < 1024" "page_bitmap s i \<noteq> 0"
    using first_word_cases [where bm = "page_bitmap s" and i = 0 and n = 1024] by auto
  let ?b = "ctz64 (page_bitmap s i)"
  let ?n = "i * 64 + ?b"
  note b = ctz64_correct [OF i(2)]
  have n: "?n div 64 = i" "?n mod 64 = ?b" using b(1) by auto
  let ?s = "s\<lparr>page_bitmap := clear_page (page_bitmap s) ?n, pm_free := pm_free s - 4096,
               pm_used := pm_used s + 4096\<rparr>"
  have e: "pmm_alloc_page s = (page_addr s ?n, ?s)"
    using Some n by (simp add: pmm_alloc_page_def Let_def page_addr_def clear_page_def)
  show thesis
  proof (rule page [OF e])
    show "page_free s ?n" using n b(2) i(1) b(1) by (auto simp: page_free_def)
    show "page_free ?s k \<longleftrightarrow> page_free s k \<and> k \<noteq> ?n" for k
      using bit_clear_page [of "page_bitmap s" ?n k] by (auto simp: page_free_def)
  qed simp_all
qed

section \<open>Property\<close>

text \<open>\<^emph>\<open>Page allocation.\<close> For a bitmap over page-aligned memory from 1 MiB up: the allocator
  answers 0 with nothing changed exactly when no page is free; otherwise the address of a page
  that was free, page aligned and not 0, and only this page leaves the free set; freeing it
  gives the old free set and counters back.\<close>

theorem pmm_alloc_free_correct:
  assumes "pmm_ok s" "pmm_alloc_page s = (a, s')"
  shows "if \<exists>n. page_free s n
    then a \<noteq> 0 \<and> 4096 dvd unat a \<and>
         (\<exists>n. page_free s n \<and> a = page_addr s n \<and> (\<forall>k. page_free s' k \<longleftrightarrow> page_free s k \<and> k \<noteq> n)) \<and>
         (\<forall>k. page_free (pmm_free_page a s') k \<longleftrightarrow> page_free s k) \<and>
         pm_free (pmm_free_page a s') = pm_free s \<and> pm_used (pmm_free_page a s') = pm_used s
    else a = 0 \<and> s' = s"
proof (cases rule: pmm_alloc_page_cases [of s])
  case full
  then show ?thesis using assms(2) by simp
next
  case (page n s1)
  have n: "n < 65536" using page(2) by (simp add: page_free_def)
  note p = page_addr_props [OF assms(1) n]
  have a: "a = page_addr s n" "s' = s1" using assms(2) page(1) by auto
  have un: "unat (of_nat n :: u64) = n" using n by (simp add: unat_of_nat)
  have "of_nat n div 64 < (1024 :: u64)"
    using n un by (simp add: word_less_nat_alt unat_div)
  moreover have "\<not> a < bitmap_base s'"
    using unat_page_addr [OF assms(1) n] a page(3) by (simp add: word_less_nat_alt)
  ultimately have f: "pmm_free_page a s' = s'\<lparr>page_bitmap := set_page (page_bitmap s') n,
      pm_free := pm_free s' + 4096, pm_used := pm_used s' - 4096\<rparr>"
    using p(4) a(1) page(3) un by (simp add: pmm_free_page_def Let_def a(2))
  have "page_free (pmm_free_page a s') k \<longleftrightarrow> page_free s k" for k
    using page(2,4) a(2) bit_set_page [of "page_bitmap s'" n k] n unfolding f by (auto simp: page_free_def)
  moreover have "pm_free (pmm_free_page a s') = pm_free s" "pm_used (pmm_free_page a s') = pm_used s"
    unfolding f using page(5,6) a(2) by simp_all
  ultimately show ?thesis using p page a by auto
qed

definition demo_pmm :: pmm where
  "demo_pmm = pmm_add_region 0x200000 0x8000000
     (pmm_init \<lparr>pm_regions = [], pm_total = 0, pm_free = 0, pm_used = 0, page_bitmap = \<lambda>_. 0, bitmap_base = 0\<rparr>)"

lemma demo_pmm_ok: "pmm_ok demo_pmm" "page_free demo_pmm 0"
  by (simp_all add: pmm_ok_def demo_pmm_def pmm_add_region_def pmm_init_def page_free_def Let_def)

theorem pmm_alloc_free_correct_witness:
  "\<exists>a s'. pmm_alloc_page demo_pmm = (a, s') \<and> a \<noteq> 0 \<and> page_free (pmm_free_page a s') 0"
proof -
  obtain a s' where e: "pmm_alloc_page demo_pmm = (a, s')" by fastforce
  from pmm_alloc_free_correct [OF demo_pmm_ok(1) e] demo_pmm_ok(2) e show ?thesis by metis
qed

end
