(* ===== verification/Paging.thy ===== *)
theory Paging
  imports Pmm
begin

text \<open>
  Page tables: \<^verbatim>\<open>vmm_map_page\<close>, \<^verbatim>\<open>vmm_map_page_in_pgd\<close> and \<^verbatim>\<open>ioremap\<close> of \<^verbatim>\<open>kernel/init.c\<close>, the walks
  and \<^verbatim>\<open>vmm_unmap_page\<close> of \<^verbatim>\<open>fs/vfs_ops.c\<close> and \<^verbatim>\<open>vmm_get_phys\<close> of \<^verbatim>\<open>kernel/mmap.c\<close>.

  Physical memory is a function from the address of a 64-bit word to the word. The code reaches a
  table through the alias at \<^verbatim>\<open>0xFFFFFFFF80000000\<close>; the model names a table by its physical
  address, which is what the alias stands for. The lemmas follow paths of indices from the
  root: \<open>tbl\<close> is the table a path leads to, and the invariant says that different paths lead to
  different pages, none of which the page allocator would hand out again.
\<close>

section \<open>Model\<close>

record vmm =
  vm_mem :: "u64 \<Rightarrow> u64"
  vm_pmm :: pmm
  vm_kernel_pml4 :: u64
  vm_cr3 :: u64
  vm_mmio_next :: u64

abbreviation (input) PTE_PRESENT :: u64 where "PTE_PRESENT \<equiv> 1"
abbreviation (input) PTE_WRITE :: u64 where "PTE_WRITE \<equiv> 2"
abbreviation (input) PTE_USER :: u64 where "PTE_USER \<equiv> 4"
abbreviation (input) PTE_PWT :: u64 where "PTE_PWT \<equiv> 8"
abbreviation (input) PTE_PCD :: u64 where "PTE_PCD \<equiv> 16"
abbreviation (input) PTE_NX :: u64 where "PTE_NX \<equiv> push_bit 63 1"

definition ent :: "u64 \<Rightarrow> nat \<Rightarrow> u64" where
  "ent table i = table + 8 * of_nat i"

definition vindex :: "nat \<Rightarrow> u64 \<Rightarrow> nat" where
  "vindex sh virt = unat (drop_bit sh virt AND 0x1FF)"

definition zero_page :: "u64 \<Rightarrow> (u64 \<Rightarrow> u64) \<Rightarrow> (u64 \<Rightarrow> u64)" where
  "zero_page a m = fold (\<lambda>i m. m(ent a i := 0)) [0..<512] m"

definition vmm_init :: "vmm \<Rightarrow> vmm" where
  "vmm_init s = s\<lparr>vm_kernel_pml4 := vm_cr3 s\<rparr>"

definition vmm_get_or_create_table :: "u64 \<Rightarrow> nat \<Rightarrow> vmm \<Rightarrow> u64 option \<times> vmm" where
  "vmm_get_or_create_table table index s =
     (let e = vm_mem s (ent table index) in
      if e AND PTE_PRESENT = 0
      then (case pmm_alloc_page (vm_pmm s) of
              (new_table, pm) \<Rightarrow>
                if new_table = 0 then (None, s\<lparr>vm_pmm := pm\<rparr>)
                else let e' = new_table OR PTE_PRESENT OR PTE_WRITE OR PTE_USER in
                     (Some (e' AND NOT 0xFFF),
                      s\<lparr>vm_pmm := pm, vm_mem := (zero_page new_table (vm_mem s))(ent table index := e')\<rparr>))
      else let e' = e OR PTE_USER in
           (Some (e' AND NOT 0xFFF), s\<lparr>vm_mem := (vm_mem s)(ent table index := e')\<rparr>))"

definition leaf_entry :: "u64 \<Rightarrow> u64 \<Rightarrow> u64" where
  "leaf_entry phys flags =
     (phys AND NOT 0xFFF) OR (flags AND 0xFFF) OR (flags AND PTE_NX) OR PTE_PRESENT"

text \<open>The walk that both mapping functions share.\<close>

definition map_walk :: "u64 \<Rightarrow> u64 \<Rightarrow> u64 \<Rightarrow> vmm \<Rightarrow> vmm" where
  "map_walk pgd virt entry s =
     (case vmm_get_or_create_table pgd (vindex 39 virt) s of
        (None, s1) \<Rightarrow> s1
      | (Some pdpt, s1) \<Rightarrow>
          (case vmm_get_or_create_table pdpt (vindex 30 virt) s1 of
             (None, s2) \<Rightarrow> s2
           | (Some pd, s2) \<Rightarrow>
               (case vmm_get_or_create_table pd (vindex 21 virt) s2 of
                  (None, s3) \<Rightarrow> s3
                | (Some pt, s3) \<Rightarrow>
                    s3\<lparr>vm_mem := (vm_mem s3)(ent pt (vindex 12 virt) := entry)\<rparr>)))"

definition vmm_map_page_in_pgd :: "u64 \<Rightarrow> u64 \<Rightarrow> u64 \<Rightarrow> u64 \<Rightarrow> vmm \<Rightarrow> vmm" where
  "vmm_map_page_in_pgd pgd virt phys flags s =
     (if virt = 0 then s else map_walk pgd virt (leaf_entry phys flags) s)"

definition vmm_map_page :: "u64 \<Rightarrow> u64 \<Rightarrow> u64 \<Rightarrow> vmm \<Rightarrow> vmm" where
  "vmm_map_page virt phys flags s =
     (if virt = 0 then s
      else let pgd = (if virt AND push_bit 63 1 \<noteq> 0 then vm_kernel_pml4 s else vm_cr3 s AND NOT 0xFFF)
           in map_walk pgd virt (leaf_entry phys flags) s)"

text \<open>The loops over the pages of a range; \<open>n\<close> pages remain.\<close>

fun ioremap_loop :: "nat \<Rightarrow> u64 \<Rightarrow> u64 \<Rightarrow> vmm \<Rightarrow> vmm" where
  "ioremap_loop 0 virt phys s = s"
| "ioremap_loop (Suc n) virt phys s =
     ioremap_loop n (virt + 0x1000) (phys + 0x1000)
       (vmm_map_page virt phys (PTE_PRESENT OR PTE_WRITE OR PTE_PCD OR PTE_PWT) s)"

definition ioremap :: "u64 \<Rightarrow> u64 \<Rightarrow> vmm \<Rightarrow> u64 \<times> vmm" where
  "ioremap phys_addr sz s =
     (let offset = phys_addr AND 0xFFF;
          phys = phys_addr AND NOT 0xFFF;
          sz' = (sz + offset + 0xFFF) AND NOT 0xFFF;
          virt = vm_mmio_next s;
          s1 = s\<lparr>vm_mmio_next := virt + sz'\<rparr>
      in (virt + offset, ioremap_loop (unat (sz' div 0x1000)) virt phys s1))"

fun alloc_pages_loop :: "nat \<Rightarrow> u64 \<Rightarrow> u64 \<Rightarrow> vmm \<Rightarrow> bool \<times> vmm" where
  "alloc_pages_loop 0 virt flags s = (True, s)"
| "alloc_pages_loop (Suc n) virt flags s =
     (case pmm_alloc_page (vm_pmm s) of
        (phys, pm) \<Rightarrow>
          if phys = 0 then (False, s\<lparr>vm_pmm := pm\<rparr>)
          else alloc_pages_loop n (virt + 4096) flags (vmm_map_page virt phys flags (s\<lparr>vm_pmm := pm\<rparr>)))"

definition vmm_alloc_pages :: "u64 \<Rightarrow> u64 \<Rightarrow> u32 \<Rightarrow> vmm \<Rightarrow> u64 \<times> vmm" where
  "vmm_alloc_pages virt sz prot s =
     (let flags = PTE_PRESENT OR (if prot AND 0x08 \<noteq> 0 then PTE_USER else 0)
                  OR (if prot AND 0x02 \<noteq> 0 then PTE_WRITE else 0)
                  OR (if prot AND 0x04 = 0 then PTE_NX else 0)
      in case alloc_pages_loop (unat ((sz + 4095) div 4096)) virt flags s of
           (ok, s') \<Rightarrow> (if ok then virt else 0, s'))"

text \<open>The walks. A missing entry at some level answers 0; a large page ends the walk.\<close>

definition vmm_pte_for_virt_in :: "(u64 \<Rightarrow> u64) \<Rightarrow> u64 \<Rightarrow> u64 \<Rightarrow> u64" where
  "vmm_pte_for_virt_in m pgd virt =
     (let e4 = m (ent pgd (vindex 39 virt)) in
      if e4 AND 1 = 0 then 0
      else let e3 = m (ent (e4 AND NOT 0xFFF) (vindex 30 virt)) in
      if e3 AND 1 = 0 then 0
      else if e3 AND push_bit 7 1 \<noteq> 0 then e3
      else let e2 = m (ent (e3 AND NOT 0xFFF) (vindex 21 virt)) in
      if e2 AND 1 = 0 then 0
      else if e2 AND push_bit 7 1 \<noteq> 0 then e2
      else m (ent (e2 AND NOT 0xFFF) (vindex 12 virt)))"

definition vmm_user_virt_to_phys_in :: "(u64 \<Rightarrow> u64) \<Rightarrow> u64 \<Rightarrow> u64 \<Rightarrow> u64" where
  "vmm_user_virt_to_phys_in m pgd virt =
     (let e4 = m (ent pgd (vindex 39 virt)) in
      if e4 AND 1 = 0 then 0
      else let e3 = m (ent (e4 AND NOT 0xFFF) (vindex 30 virt)) in
      if e3 AND 1 = 0 then 0
      else if e3 AND push_bit 7 1 \<noteq> 0
      then (e3 AND NOT (push_bit 30 1 - 1)) OR (virt AND (push_bit 30 1 - 1))
      else let e2 = m (ent (e3 AND NOT 0xFFF) (vindex 21 virt)) in
      if e2 AND 1 = 0 then 0
      else if e2 AND push_bit 7 1 \<noteq> 0
      then (e2 AND NOT (push_bit 21 1 - 1)) OR (virt AND (push_bit 21 1 - 1))
      else let e1 = m (ent (e2 AND NOT 0xFFF) (vindex 12 virt)) in
      if e1 AND 1 = 0 then 0
      else (e1 AND 0x000FFFFFFFFFF000) OR (virt AND 0xFFF))"

definition vmm_user_virt_to_phys :: "u64 \<Rightarrow> vmm \<Rightarrow> u64" where
  "vmm_user_virt_to_phys virt s = vmm_user_virt_to_phys_in (vm_mem s) (vm_cr3 s AND NOT 0xFFF) virt"

definition vmm_virt_to_phys :: "u64 \<Rightarrow> vmm \<Rightarrow> u64" where
  "vmm_virt_to_phys virt s =
     (if vm_kernel_pml4 s = 0 then 0 else vmm_user_virt_to_phys_in (vm_mem s) (vm_kernel_pml4 s) virt)"

definition vmm_get_phys :: "u64 \<Rightarrow> vmm \<Rightarrow> u64" where
  "vmm_get_phys virt s =
     (let m = vm_mem s; e4 = m (ent (vm_cr3 s) (vindex 39 virt)) in
      if e4 AND 1 = 0 then 0
      else let e3 = m (ent (e4 AND NOT 0xFFF) (vindex 30 virt)) in
      if e3 AND 1 = 0 then 0
      else if e3 AND push_bit 7 1 \<noteq> 0 then (e3 AND NOT 0x3FFFFFFF) OR (virt AND 0x3FFFFFFF)
      else let e2 = m (ent (e3 AND NOT 0xFFF) (vindex 21 virt)) in
      if e2 AND 1 = 0 then 0
      else if e2 AND push_bit 7 1 \<noteq> 0 then (e2 AND NOT 0x1FFFFF) OR (virt AND 0x1FFFFF)
      else let e1 = m (ent (e2 AND NOT 0xFFF) (vindex 12 virt)) in
      if e1 AND 1 = 0 then 0
      else (e1 AND NOT 0xFFF) OR (virt AND 0xFFF))"

definition vmm_unmap_page :: "u64 \<Rightarrow> vmm \<Rightarrow> vmm" where
  "vmm_unmap_page virt s =
     (if vm_kernel_pml4 s = 0 then s
      else let m = vm_mem s; e4 = m (ent (vm_kernel_pml4 s) (vindex 39 virt)) in
      if e4 AND 1 = 0 then s
      else let e3 = m (ent (e4 AND NOT 0xFFF) (vindex 30 virt)) in
      if e3 AND 1 = 0 then s
      else let e2 = m (ent (e3 AND NOT 0xFFF) (vindex 21 virt)) in
      if e2 AND 1 = 0 then s
      else s\<lparr>vm_mem := m(ent (e2 AND NOT 0xFFF) (vindex 12 virt) := 0)\<rparr>)"

section \<open>Addresses of entries\<close>

lemma low12: "(0xFFF :: u64) = mask 12"
  by (simp add: mask_eq_exp_minus_1)

lemma vindex_less: "vindex sh virt < 512"
proof -
  have "drop_bit sh virt AND 0x1FF < 512"
    using and_mask_less' [of 9 "drop_bit sh virt"] by (simp add: mask_eq_exp_minus_1)
  then show ?thesis by (simp add: vindex_def word_less_nat_alt)
qed

definition aligned :: "u64 \<Rightarrow> bool" where
  "aligned a \<longleftrightarrow> 4096 dvd unat a"

lemma unat_ent:
  assumes "aligned a" "i < 512"
  shows "unat (ent a i) = unat a + 8 * i"
proof -
  have "unat a < 2 ^ 64" using unsigned_less [of a, where ?'a = nat] by simp
  moreover obtain k where "unat a = 4096 * k" using assms(1) by (auto simp: aligned_def dvd_def)
  ultimately have "unat a + 4096 \<le> 2 ^ 64" by simp
  then show ?thesis using assms(2) by (simp add: ent_def unat_word_ariths unat_of_nat)
qed

lemma ent_inj:
  assumes "aligned a" "aligned b" "i < 512" "j < 512" "ent a i = ent b j"
  shows "a = b \<and> i = j"
proof -
  have e: "unat a + 8 * i = unat b + 8 * j" using unat_ent assms by metis
  obtain k l where kl: "unat a = 4096 * k" "unat b = 4096 * l"
    using assms(1,2) by (auto simp: aligned_def dvd_def)
  have "k = (4096 * k + 8 * i) div 4096" "l = (4096 * l + 8 * j) div 4096" using assms(3,4) by simp_all
  then have "k = l" using e kl by metis
  then have "unat a = unat b" "i = j" using e kl by auto
  then show ?thesis by (simp add: word_unat_eq_iff)
qed

lemma zero_fold: "fold (\<lambda>i m. m(ent a i := 0)) is m x = (if \<exists>i\<in>set is. x = ent a i then 0 else m x)"
  by (induction "is" arbitrary: m) auto

lemma zero_page_entry:
  assumes "aligned a" "aligned b" "i < 512"
  shows "zero_page a m (ent b i) = (if a = b then 0 else m (ent b i))"
proof -
  have "(\<exists>j\<in>set [0..<512]. ent b i = ent a j) \<longleftrightarrow> a = b"
    using ent_inj [OF assms(2,1,3)] assms(3) by (metis atLeastLessThan_iff le0 set_upt)
  then show ?thesis by (simp only: zero_page_def zero_fold)
qed

lemma aligned_take_bit: "aligned a \<longleftrightarrow> take_bit 12 a = 0"
proof -
  have "unat (take_bit 12 a) = unat a mod 4096"
    by (simp only: unsigned_take_bit_eq) (simp add: take_bit_eq_mod)
  then show ?thesis by (simp add: aligned_def dvd_eq_mod_eq_0 word_unat_eq_iff)
qed

lemma aligned_low: "aligned a \<Longrightarrow> k < 12 \<Longrightarrow> \<not> bit a k"
  unfolding aligned_take_bit using bit_take_bit_iff [of 12 a k] by simp

lemma aligned_high: "aligned (a AND NOT (mask 12))"
  unfolding aligned_take_bit by (rule bit_eqI) (auto simp: bit_simps)

section \<open>Paths\<close>

definition link :: "u64 \<Rightarrow> u64 option" where
  "link e = (if bit e 0 then Some (e AND NOT (mask 12)) else None)"

fun tbl :: "(u64 \<Rightarrow> u64) \<Rightarrow> u64 \<Rightarrow> nat list \<Rightarrow> u64 option" where
  "tbl m a [] = Some a"
| "tbl m a (i # is) = (case link (m (ent a i)) of None \<Rightarrow> None | Some b \<Rightarrow> tbl m b is)"

definition path :: "nat list \<Rightarrow> bool" where
  "path p \<longleftrightarrow> length p \<le> 3 \<and> (\<forall>i\<in>set p. i < 512)"

definition not_free :: "pmm \<Rightarrow> u64 \<Rightarrow> bool" where
  "not_free pm a \<longleftrightarrow> (\<forall>n. page_free pm n \<longrightarrow> page_addr pm n \<noteq> a)"

definition pt_inv :: "vmm \<Rightarrow> u64 \<Rightarrow> bool" where
  "pt_inv s pgd \<longleftrightarrow> pmm_ok (vm_pmm s) \<and>
     (\<forall>p a. path p \<and> tbl (vm_mem s) pgd p = Some a \<longrightarrow> aligned a \<and> not_free (vm_pmm s) a) \<and>
     (\<forall>p q a. path p \<and> path q \<and> tbl (vm_mem s) pgd p = Some a \<and> tbl (vm_mem s) pgd q = Some a \<longrightarrow> p = q) \<and>
     (\<forall>p i a. path (p @ [i]) \<and> p \<noteq> [] \<and> tbl (vm_mem s) pgd p = Some a \<and> bit (vm_mem s (ent a i)) 0
        \<longrightarrow> \<not> bit (vm_mem s (ent a i)) 7)"

lemma pt_invD:
  assumes "pt_inv s pgd"
  shows "pmm_ok (vm_pmm s)"
    "path p \<Longrightarrow> tbl (vm_mem s) pgd p = Some a \<Longrightarrow> aligned a"
    "path p \<Longrightarrow> tbl (vm_mem s) pgd p = Some a \<Longrightarrow> not_free (vm_pmm s) a"
    "path p \<Longrightarrow> path q \<Longrightarrow> tbl (vm_mem s) pgd p = Some a \<Longrightarrow> tbl (vm_mem s) pgd q = Some a \<Longrightarrow> p = q"
    "path (p @ [i]) \<Longrightarrow> p \<noteq> [] \<Longrightarrow> tbl (vm_mem s) pgd p = Some a \<Longrightarrow> bit (vm_mem s (ent a i)) 0
       \<Longrightarrow> \<not> bit (vm_mem s (ent a i)) 7"
  using assms unfolding pt_inv_def by blast+

lemma pt_invI:
  assumes "pmm_ok (vm_pmm s)"
    "\<And>p a. path p \<Longrightarrow> tbl (vm_mem s) pgd p = Some a \<Longrightarrow> aligned a \<and> not_free (vm_pmm s) a"
    "\<And>p q a. path p \<Longrightarrow> path q \<Longrightarrow> tbl (vm_mem s) pgd p = Some a \<Longrightarrow> tbl (vm_mem s) pgd q = Some a \<Longrightarrow> p = q"
    "\<And>p i a. path (p @ [i]) \<Longrightarrow> p \<noteq> [] \<Longrightarrow> tbl (vm_mem s) pgd p = Some a \<Longrightarrow> bit (vm_mem s (ent a i)) 0
       \<Longrightarrow> \<not> bit (vm_mem s (ent a i)) 7"
  shows "pt_inv s pgd"
  using assms unfolding pt_inv_def by blast

lemma path_snoc: "path (p @ [i]) \<longleftrightarrow> length p \<le> 2 \<and> (\<forall>j\<in>set p. j < 512) \<and> i < 512"
  by (auto simp: path_def)

lemma path_snocD: "path (p @ [i]) \<Longrightarrow> path p" "path (p @ [i]) \<Longrightarrow> i < 512"
  by (auto simp: path_def)

lemma tbl_append:
  "tbl m a (p @ q) = (case tbl m a p of None \<Rightarrow> None | Some b \<Rightarrow> tbl m b q)"
  by (induction p arbitrary: a) (auto split: option.splits)

lemma tbl_snoc:
  "tbl m a (p @ [i]) = (case tbl m a p of None \<Rightarrow> None | Some b \<Rightarrow> link (m (ent b i)))"
  by (auto simp: tbl_append split: option.splits)

text \<open>A walk that only meets entries with unchanged links ends where it did.\<close>

lemma tbl_cong:
  assumes "\<And>r k b. \<lbrakk>\<exists>t. q = r @ k # t; tbl m a r = Some b\<rbrakk> \<Longrightarrow> link (m' (ent b k)) = link (m (ent b k))"
  shows "tbl m' a q = tbl m a q"
  using assms
proof (induction q rule: rev_induct)
  case (snoc i q)
  have "tbl m' a q = tbl m a q"
  proof (rule snoc.IH)
    fix r k b assume "\<exists>t. q = r @ k # t" "tbl m a r = Some b"
    then show "link (m' (ent b k)) = link (m (ent b k))" using snoc.prems [of r k b] by auto
  qed
  then show ?case
    using snoc.prems [of q i] by (auto simp: tbl_snoc split: option.splits)
qed simp

lemma path_prefix: "path (r @ k # t) \<Longrightarrow> path r \<and> k < 512"
  by (auto simp: path_def)

text \<open>Writing the entry of path \<open>p\<close> at \<open>i\<close> leaves the walks that do not pass it alone.\<close>

lemma tbl_write:
  assumes "pt_inv s pgd" "path p" "i < 512" "tbl (vm_mem s) pgd p = Some b" "path q"
    "\<And>x. x \<noteq> ent b i \<Longrightarrow> (\<And>c k. path c \<Longrightarrow> k < 512 \<Longrightarrow> tbl (vm_mem s) pgd c \<noteq> None \<Longrightarrow>
        x = ent (the (tbl (vm_mem s) pgd c)) k \<Longrightarrow> m' x = vm_mem s x)"
    "\<And>t. q \<noteq> p @ i # t"
  shows "tbl m' pgd q = tbl (vm_mem s) pgd q"
proof (rule tbl_cong)
  fix r k c assume rk: "\<exists>t. q = r @ k # t" and c: "tbl (vm_mem s) pgd r = Some c"
  then have r: "path r" "k < 512" using path_prefix assms(5) by blast+
  have "ent c k \<noteq> ent b i"
  proof
    assume "ent c k = ent b i"
    then have e: "c = b" "k = i"
      using ent_inj [OF pt_invD(2) [OF assms(1) r(1) c] pt_invD(2) [OF assms(1,2,4)] r(2) assms(3)] by blast+
    have "r = p" by (rule pt_invD(4) [OF assms(1) r(1) assms(2) c]) (simp only: assms(4) e)
    then show False using rk assms(7) e(2) by blast
  qed
  then have "m' (ent c k) = vm_mem s (ent c k)"
    by (rule assms(6) [OF _ r(1,2)]) (simp_all add: c)
  then show "link (m' (ent c k)) = link (vm_mem s (ent c k))" by simp
qed

text \<open>The leaf entry at the end of a full path, 0 where a table is missing.\<close>

definition pte :: "(u64 \<Rightarrow> u64) \<Rightarrow> u64 \<Rightarrow> nat list \<Rightarrow> nat \<Rightarrow> u64" where
  "pte m pgd q j = (case tbl m pgd q of None \<Rightarrow> 0 | Some a \<Rightarrow> m (ent a j))"

lemma leaf_not_inner:
  assumes "pt_inv s pgd" "path (p @ [i])" "tbl (vm_mem s) pgd p = Some b"
    "path q" "length q = 3" "tbl (vm_mem s) pgd q = Some a" "j < 512"
  shows "a \<noteq> b" "ent a j \<noteq> ent b i"
proof -
  have len: "length p \<noteq> length q" using assms(2,5) by (simp add: path_def)
  show ab: "a \<noteq> b"
  proof
    assume "a = b"
    then have "p = q" using pt_invD(4) [OF assms(1) path_snocD(1) [OF assms(2)] assms(4,3)] assms(6) by blast
    then show False using len by simp
  qed
  show "ent a j \<noteq> ent b i"
    using ent_inj [OF pt_invD(2) [OF assms(1,4,6)] pt_invD(2) [OF assms(1) path_snocD(1) [OF assms(2)] assms(3)]
        assms(7) path_snocD(2) [OF assms(2)]] ab by blast
qed

lemma bit_flags: "bit (1 :: u64) k \<longleftrightarrow> k = 0" "bit (2 :: u64) k \<longleftrightarrow> k = 1" "bit (4 :: u64) k \<longleftrightarrow> k = 2"
  using bit_exp_iff [of 0 k, where ?'a = u64] bit_exp_iff [of 1 k, where ?'a = u64]
    bit_exp_iff [of 2 k, where ?'a = u64] by auto

lemma user_bit: "bit (e OR 4 :: u64) k \<longleftrightarrow> bit e k \<or> k = 2"
  by (simp only: bit_or_iff bit_flags)

lemma link_user: "link (e OR 4) = link e"
proof -
  have "(e OR 4) AND NOT (mask 12) = e AND NOT (mask 12)"
    by (rule bit_eqI) (auto simp only: bit_and_iff bit_not_iff bit_mask_iff user_bit)
  then show ?thesis by (simp add: link_def user_bit)
qed

text \<open>A table that is there: only the user bit of its entry may change.\<close>

lemma get_table_spec:
  assumes inv: "pt_inv s pgd" and p: "path (p @ [i])" "tbl (vm_mem s) pgd p = Some b"
    and "s' = s\<lparr>vm_mem := (vm_mem s)(ent b i := vm_mem s (ent b i) OR 4)\<rparr>"
  shows "pt_inv s' pgd" "tbl (vm_mem s') pgd q = tbl (vm_mem s) pgd q"
    "path q \<Longrightarrow> length q = 3 \<Longrightarrow> j < 512 \<Longrightarrow> pte (vm_mem s') pgd q j = pte (vm_mem s) pgd q j"
proof -
  let ?m = "vm_mem s" and ?m' = "vm_mem s'"
  have lk: "link (?m' x) = link (?m x)" and b7: "bit (?m' x) 7 = bit (?m x) 7"
    and b0: "bit (?m' x) 0 = bit (?m x) 0" for x
    using assms(4) by (auto simp: link_user user_bit)
  show t: "tbl ?m' pgd q = tbl ?m pgd q" for q by (rule tbl_cong) (simp add: lk)
  have pm: "vm_pmm s' = vm_pmm s" using assms(4) by simp
  show "pt_inv s' pgd"
    using inv unfolding pt_inv_def t b7 b0 pm .
  show "pte ?m' pgd q j = pte ?m pgd q j" if "path q" "length q = 3" "j < 512"
  proof (cases "tbl ?m pgd q")
    case (Some a)
    have "ent a j \<noteq> ent b i" by (rule leaf_not_inner(2) [OF inv p that(1,2) Some that(3)])
    then have "?m' (ent a j) = ?m (ent a j)" using assms(4) by simp
    then show ?thesis unfolding pte_def t Some by simp
  qed (simp add: pte_def t)
qed

lemma page_addr_inj:
  assumes "pmm_ok pm" "k < 65536" "l < 65536" "page_addr pm k = page_addr pm l"
  shows "k = l"
proof -
  have "unat (bitmap_base pm) + k * 4096 = unat (bitmap_base pm) + l * 4096"
    using unat_page_addr(1) [OF assms(1,2)] unat_page_addr(1) [OF assms(1,3)] assms(4) by metis
  then show ?thesis by simp
qed

lemma bit_7: "bit (7 :: u64) k \<longleftrightarrow> k < 3"
proof -
  have "(7 :: u64) = mask 3" by (simp add: mask_eq_exp_minus_1)
  then show ?thesis by (auto simp only: bit_mask_iff) simp
qed

lemma new_entry_bits:
  assumes "aligned n"
  shows "bit (n OR 7 :: u64) k \<longleftrightarrow> bit n k \<or> k < 3" "link (n OR 7) = Some n"
    "\<not> bit (n OR 7) 7"
proof -
  show b: "bit (n OR 7) k \<longleftrightarrow> bit n k \<or> k < 3" for k
    by (simp only: bit_or_iff bit_7)
  show "\<not> bit (n OR 7) 7" using aligned_low [OF assms, of 7] by (simp add: b)
  have "(n OR 7) AND NOT (mask 12) = n"
    by (rule bit_eqI) (use aligned_low [OF assms] in \<open>auto simp: bit_and_iff bit_not_iff bit_mask_iff b\<close>)
  then show "link (n OR 7) = Some n" unfolding link_def b by simp
qed

text \<open>A table that is made: the path to it is new, everything else stays.\<close>

lemma create_table_spec:
  assumes inv: "pt_inv s pgd" and p: "path (p @ [i])" "tbl (vm_mem s) pgd p = Some b"
    and absent: "\<not> bit (vm_mem s (ent b i)) 0"
    and pm: "page_free (vm_pmm s) k" "n = page_addr (vm_pmm s) k"
      "bitmap_base pm' = bitmap_base (vm_pmm s)" "\<And>l. page_free pm' l \<longleftrightarrow> page_free (vm_pmm s) l \<and> l \<noteq> k"
    and s': "s' = s\<lparr>vm_pmm := pm', vm_mem := (zero_page n (vm_mem s))(ent b i := n OR 7)\<rparr>"
  shows "pt_inv s' pgd" "tbl (vm_mem s') pgd (p @ [i]) = Some n"
    "path q \<Longrightarrow> length q = 3 \<Longrightarrow> j < 512 \<Longrightarrow> pte (vm_mem s') pgd q j = pte (vm_mem s) pgd q j"
    "path q \<Longrightarrow> tbl (vm_mem s') pgd q = (if q = p @ [i] then Some n else tbl (vm_mem s) pgd q)"
    "not_free (vm_pmm s) d \<Longrightarrow> not_free (vm_pmm s') d"
proof -
  let ?m = "vm_mem s" and ?m' = "vm_mem s'"
  note pD = path_snocD [OF p(1)] and ok = pt_invD(1) [OF inv]
  have k: "k < 65536" using pm(1) by (simp add: page_free_def)
  have al: "aligned n" using page_addr_props(3) [OF ok k] pm(2) by (simp add: aligned_def)
  have alb: "aligned b" by (rule pt_invD(2) [OF inv pD(1) p(2)])
  have fresh: "a \<noteq> n" if "path q" "tbl ?m pgd q = Some a" for q a
    using pt_invD(3) [OF inv that] pm(1,2) by (auto simp: not_free_def)
  have bn: "b \<noteq> n" by (rule fresh [OF pD(1) p(2)])
  have old: "?m' (ent a l) = (if a = b \<and> l = i then n OR 7 else ?m (ent a l))"
    if "path q" "tbl ?m pgd q = Some a" "l < 512" for q a l
    using zero_page_entry [OF al pt_invD(2) [OF inv that(1,2)] that(3), of ?m] fresh [OF that(1,2)]
      ent_inj [OF pt_invD(2) [OF inv that(1,2)] alb that(3) pD(2)] s' by auto
  have new: "?m' (ent n l) = 0" if "l < 512" for l
    using zero_page_entry [OF al al that, of ?m] ent_inj [OF al alb that pD(2)] bn s' by auto
  have tn: "tbl ?m' pgd q = tbl ?m pgd q" if "path q" "\<And>t. q \<noteq> p @ i # t" for q
  proof (rule tbl_write [OF inv pD(1,2) p(2) that(1) _ that(2)])
    fix x c l assume x: "x \<noteq> ent b i" "path c" "l < 512" "tbl ?m pgd c \<noteq> None" "x = ent (the (tbl ?m pgd c)) l"
    then show "?m' x = ?m x" using old [of c "the (tbl ?m pgd c)" l] by auto
  qed
  have "tbl ?m' pgd p = Some b" using tn [OF pD(1)] p(2) by simp
  then show ti: "tbl ?m' pgd (p @ [i]) = Some n"
    using old [OF pD(1) p(2) pD(2)] new_entry_bits(2) [OF al] by (simp add: tbl_snoc)
  show t: "tbl ?m' pgd q = (if q = p @ [i] then Some n else tbl ?m pgd q)" if "path q" for q
  proof (cases "\<exists>t. q = p @ i # t")
    case True
    then obtain u where u: "q = (p @ [i]) @ u" by auto
    have none: "tbl ?m pgd (p @ [i]) = None" using absent p(2) by (simp add: tbl_snoc link_def)
    show ?thesis
    proof (cases u)
      case Nil
      then show ?thesis using ti u by simp
    next
      case (Cons l v)
      then have "l < 512" using that u by (auto simp: path_def)
      then have "tbl ?m' pgd q = None"
        unfolding u tbl_append [of ?m' pgd "p @ [i]"] ti using Cons new [of l] by (simp add: link_def)
      moreover have "tbl ?m pgd q = None" unfolding u tbl_append [of ?m pgd "p @ [i]"] none by simp
      ultimately show ?thesis using u Cons by simp
    qed
  qed (use tn that in auto)
  have addr: "page_addr pm' l = page_addr (vm_pmm s) l" for l using pm(3) by (simp add: page_addr_def)
  have nf: "not_free pm' a" if "not_free (vm_pmm s) a \<or> a = n" for a
    using that
  proof
    assume "a = n"
    then show ?thesis
      unfolding not_free_def addr pm(2,4) using page_addr_inj [OF ok _ k] by (auto simp: page_free_def)
  next
    assume "not_free (vm_pmm s) a"
    then show ?thesis unfolding not_free_def addr pm(4) by blast
  qed
  show "not_free (vm_pmm s') d" if "not_free (vm_pmm s) d" using nf that s' by simp
  show "pt_inv s' pgd"
  proof (rule pt_invI)
    show "pmm_ok (vm_pmm s')" using ok pm(3) s' by (simp add: pmm_ok_def)
    show "aligned a \<and> not_free (vm_pmm s') a" if "path q" "tbl ?m' pgd q = Some a" for q a
    proof (cases "q = p @ [i]")
      case True
      then show ?thesis using that t [OF that(1)] al nf s' by auto
    next
      case False
      then have "tbl ?m pgd q = Some a" using that t [OF that(1)] by simp
      then show ?thesis using pt_invD(2,3) [OF inv that(1)] nf s' by auto
    qed
    show "q = r" if "path q" "path r" "tbl ?m' pgd q = Some a" "tbl ?m' pgd r = Some a" for q r a
      using that t [OF that(1)] t [OF that(2)] fresh pt_invD(4) [OF inv that(1,2)]
      by (auto split: if_splits)
    show "\<not> bit (?m' (ent a l)) 7"
      if "path (q @ [l])" "q \<noteq> []" "tbl ?m' pgd q = Some a" "bit (?m' (ent a l)) 0" for q l a
    proof (cases "q = p @ [i]")
      case True
      then show ?thesis using that t [OF path_snocD(1) [OF that(1)]] new path_snocD(2) [OF that(1)] by simp
    next
      case False
      then have q: "tbl ?m pgd q = Some a" using that t [OF path_snocD(1) [OF that(1)]] by simp
      show ?thesis
        using old [OF path_snocD(1) [OF that(1)] q path_snocD(2) [OF that(1)]] that
          new_entry_bits(3) [OF al] pt_invD(5) [OF inv that(1,2) q] by (auto split: if_splits)
    qed
  qed
  show "pte ?m' pgd q j = pte ?m pgd q j" if "path q" "length q = 3" "j < 512"
  proof (cases "tbl ?m pgd q")
    case None
    then show ?thesis using t [OF that(1)] new [OF that(3)] by (simp add: pte_def)
  next
    case (Some a)
    have "a \<noteq> b" by (rule leaf_not_inner(1) [OF inv p that(1,2) Some that(3)])
    moreover have "q \<noteq> p @ [i]" using Some absent p(2) by (auto simp: tbl_snoc link_def)
    ultimately show ?thesis using t [OF that(1)] Some old [OF that(1) Some that(3)] by (simp add: pte_def)
  qed
qed

text \<open>Writing a leaf entry.\<close>

lemma leaf_write_spec:
  assumes inv: "pt_inv s pgd" and p: "path p" "length p = 3" "tbl (vm_mem s) pgd p = Some b" "i < 512"
    and s': "s' = s\<lparr>vm_mem := (vm_mem s)(ent b i := e)\<rparr>"
  shows "pt_inv s' pgd \<and> (\<forall>q j. path q \<and> length q = 3 \<and> j < 512 \<longrightarrow>
     pte (vm_mem s') pgd q j = (if q = p \<and> j = i then e else pte (vm_mem s) pgd q j))"
proof -
  let ?m = "vm_mem s" and ?m' = "vm_mem s'"
  have t: "tbl ?m' pgd q = tbl ?m pgd q" if "path q" for q
  proof (rule tbl_write [OF inv p(1,4,3) that])
    show "q \<noteq> p @ i # t" for t using that p(2) by (auto simp: path_def)
  qed (use s' in auto)
  have ent: "?m' (ent a l) = (if q = p \<and> l = i then e else ?m (ent a l))"
    if "path q" "tbl ?m pgd q = Some a" "l < 512" for q a l
  proof (cases "ent a l = ent b i")
    case True
    then have ab: "a = b" "l = i"
      using ent_inj [OF pt_invD(2) [OF inv that(1,2)] pt_invD(2) [OF inv p(1,3)] that(3) p(4)] by auto
    have "q = p" by (rule pt_invD(4) [OF inv that(1) p(1) that(2)]) (simp add: p(3) ab)
    then show ?thesis using True ab s' by simp
  next
    case False
    then have "\<not> (q = p \<and> l = i)" using that(2) p(3) by auto
    then show ?thesis using False s' by auto
  qed
  have pm: "vm_pmm s' = vm_pmm s" using s' by simp
  have "pt_inv s' pgd"
  proof (rule pt_invI)
    show "pmm_ok (vm_pmm s')" using pt_invD(1) [OF inv] pm by simp
    show "aligned a \<and> not_free (vm_pmm s') a" if "path q" "tbl ?m' pgd q = Some a" for q a
      using pt_invD(2,3) [OF inv that(1)] that t [OF that(1)] pm by simp
    show "q = r" if "path q" "path r" "tbl ?m' pgd q = Some a" "tbl ?m' pgd r = Some a" for q r a
      using pt_invD(4) [OF inv that(1,2)] that t [OF that(1)] t [OF that(2)] by simp
    show "\<not> bit (?m' (ent a l)) 7"
      if "path (q @ [l])" "q \<noteq> []" "tbl ?m' pgd q = Some a" "bit (?m' (ent a l)) 0" for q l a
    proof -
      have q: "tbl ?m pgd q = Some a" using that(3) t [OF path_snocD(1) [OF that(1)]] by simp
      have "q \<noteq> p" using that(1) p(2) by (auto simp: path_def)
      then have "?m' (ent a l) = ?m (ent a l)"
        using ent [OF path_snocD(1) [OF that(1)] q path_snocD(2) [OF that(1)]] by simp
      then show ?thesis using pt_invD(5) [OF inv that(1,2) q] that(4) by simp
    qed
  qed
  moreover have "pte ?m' pgd q j = (if q = p \<and> j = i then e else pte ?m pgd q j)" if "path q" "j < 512" for q j
    using t [OF that(1)] ent [OF that(1) _ that(2)] p(3) by (auto simp: pte_def split: option.splits)
  ultimately show ?thesis by blast
qed

lemma present_iff: "(e :: u64) AND 1 = 0 \<longleftrightarrow> \<not> bit e 0"
  using and_exp_eq_0_iff_not_bit [of e 0] by (metis power_0)

lemma huge_iff: "(e :: u64) AND push_bit 7 1 \<noteq> 0 \<longleftrightarrow> bit e 7"
  using and_exp_eq_0_iff_not_bit [of e 7] by (simp add: push_bit_eq_mult)

lemma get_or_create_spec:
  assumes inv: "pt_inv s pgd" and p: "path (p @ [i])" "tbl (vm_mem s) pgd p = Some b"
    and g: "vmm_get_or_create_table b i s = (r, s')"
  shows "pt_inv s' pgd" "r = None \<Longrightarrow> \<not> page_free (vm_pmm s') n"
    "r = Some c \<Longrightarrow> tbl (vm_mem s') pgd (p @ [i]) = Some c"
    "path q \<Longrightarrow> length q = 3 \<Longrightarrow> j < 512 \<Longrightarrow> pte (vm_mem s') pgd q j = pte (vm_mem s) pgd q j"
proof -
  let ?e = "vm_mem s (ent b i)"
  have "pt_inv s' pgd \<and> (r = None \<longrightarrow> \<not> page_free (vm_pmm s') n) \<and>
    (\<forall>c. r = Some c \<longrightarrow> tbl (vm_mem s') pgd (p @ [i]) = Some c) \<and>
    (path q \<and> length q = 3 \<and> j < 512 \<longrightarrow> pte (vm_mem s') pgd q j = pte (vm_mem s) pgd q j)"
  proof (cases "bit ?e 0")
    case True
    have g': "s' = s\<lparr>vm_mem := (vm_mem s)(ent b i := ?e OR 4)\<rparr>" "r = Some ((?e OR 4) AND NOT 0xFFF)"
      using g True unfolding vmm_get_or_create_table_def Let_def present_iff by auto
    have "link (?e OR 4) = Some ((?e OR 4) AND NOT 0xFFF)"
      unfolding link_def low12 user_bit using True by simp
    then have "tbl (vm_mem s) pgd (p @ [i]) = r" using p(2) g'(2) by (simp add: tbl_snoc link_user)
    then show ?thesis using get_table_spec [OF inv p g'(1)] g'(2) by auto
  next
    case False
    obtain a pm' where al: "pmm_alloc_page (vm_pmm s) = (a, pm')" by fastforce
    note g' = g [unfolded vmm_get_or_create_table_def Let_def present_iff al prod.case]
    show ?thesis
    proof (cases rule: pmm_alloc_page_cases [of "vm_pmm s"])
      case full
      then have "r = None" "s' = s" using g' False al by auto
      then show ?thesis using full(2) inv by simp
    next
      case (page k pm)
      have k: "k < 65536" using page(2) by (simp add: page_free_def)
      have a: "a = page_addr (vm_pmm s) k" "pm' = pm" using al page(1) by auto
      have nz: "a \<noteq> 0" "aligned a"
        using page_addr_props(1,3) [OF pt_invD(1) [OF inv] k] a by (auto simp: aligned_def)
      have s': "s' = s\<lparr>vm_pmm := pm', vm_mem := (zero_page a (vm_mem s))(ent b i := a OR 7)\<rparr>"
        and r: "r = Some ((a OR 7) AND NOT (mask 12))"
        using g' False nz(1) by (auto simp: low12)
      have ra: "r = Some a" using r new_entry_bits(1,2) [OF nz(2)] by (simp add: link_def split: if_splits)
      show ?thesis
        using create_table_spec [OF inv p False page(2) a(1) _ _ s'] page(3,4) a(2) ra by auto
    qed
  qed
  then show "pt_inv s' pgd" "r = None \<Longrightarrow> \<not> page_free (vm_pmm s') n"
    "r = Some c \<Longrightarrow> tbl (vm_mem s') pgd (p @ [i]) = Some c"
    "path q \<Longrightarrow> length q = 3 \<Longrightarrow> j < 512 \<Longrightarrow> pte (vm_mem s') pgd q j = pte (vm_mem s) pgd q j"
    by auto
qed

section \<open>Walks and mappings\<close>

definition vpath :: "u64 \<Rightarrow> nat list" where
  "vpath v = [vindex 39 v, vindex 30 v, vindex 21 v]"

definition vpage :: "u64 \<Rightarrow> nat list \<times> nat" where
  "vpage v = (vpath v, vindex 12 v)"

lemma path_vpath: "path (vpath v)" "length (vpath v) = 3" "path [vindex 39 v]"
    "path [vindex 39 v, vindex 30 v]"
  using vindex_less by (simp_all add: path_def vpath_def)

lemma walk_no_huge:
  assumes "pt_inv s pgd" "e4 = vm_mem s (ent pgd (vindex 39 v))" "bit e4 0"
    "e3 = vm_mem s (ent (e4 AND NOT (mask 12)) (vindex 30 v))" "bit e3 0"
    "e2 = vm_mem s (ent (e3 AND NOT (mask 12)) (vindex 21 v))"
  shows "\<not> bit e3 7" "bit e2 0 \<Longrightarrow> \<not> bit e2 7"
    "tbl (vm_mem s) pgd (vpath v) = link e2"
proof -
  have t1: "tbl (vm_mem s) pgd [vindex 39 v] = Some (e4 AND NOT (mask 12))"
    using assms(2,3) by (simp add: link_def)
  have t2: "tbl (vm_mem s) pgd [vindex 39 v, vindex 30 v] = Some (e3 AND NOT (mask 12))"
    using assms(2-5) by (simp add: link_def)
  show "\<not> bit e3 7"
    using pt_invD(5) [OF assms(1) _ _ t1, of "vindex 30 v"] path_vpath(4) assms(4,5) by simp
  show "\<not> bit e2 7" if "bit e2 0"
    using pt_invD(5) [OF assms(1) _ _ t2, of "vindex 21 v"] path_vpath(1) [of v] assms(6) that
    by (simp add: vpath_def)
  show "tbl (vm_mem s) pgd (vpath v) = link e2"
    using t2 assms(6) tbl_snoc [of "vm_mem s" pgd "[vindex 39 v, vindex 30 v]"] by (simp add: vpath_def)
qed

lemma walk_stops:
  "\<not> bit (m (ent pgd (vindex 39 v))) 0 \<Longrightarrow> tbl m pgd (vpath v) = None"
  "bit (m (ent pgd (vindex 39 v))) 0 \<Longrightarrow>
   \<not> bit (m (ent (m (ent pgd (vindex 39 v)) AND NOT (mask 12)) (vindex 30 v))) 0 \<Longrightarrow> tbl m pgd (vpath v) = None"
  by (simp_all add: vpath_def link_def)

lemma pte_walk:
  assumes "pt_inv s pgd"
  shows "vmm_pte_for_virt_in (vm_mem s) pgd v = pte (vm_mem s) pgd (vpath v) (vindex 12 v)"
    "vmm_user_virt_to_phys_in (vm_mem s) pgd v =
      (let e = pte (vm_mem s) pgd (vpath v) (vindex 12 v) in
       if bit e 0 then (e AND 0x000FFFFFFFFFF000) OR (v AND 0xFFF) else 0)"
  using walk_no_huge [OF assms refl _ refl _ refl, of v] walk_stops [of "vm_mem s" pgd v]
  unfolding vmm_pte_for_virt_in_def vmm_user_virt_to_phys_in_def Let_def present_iff huge_iff low12 pte_def
  by (auto simp: link_def)

lemma map_walk_spec:
  assumes inv: "pt_inv s pgd" and m: "s' = map_walk pgd v e s"
  shows "pt_inv s' pgd \<and>
    ((\<forall>n. \<not> page_free (vm_pmm s') n) \<and>
       (\<forall>q j. path q \<and> length q = 3 \<and> j < 512 \<longrightarrow> pte (vm_mem s') pgd q j = pte (vm_mem s) pgd q j)
     \<or> (\<forall>q j. path q \<and> length q = 3 \<and> j < 512 \<longrightarrow>
         pte (vm_mem s') pgd q j = (if (q, j) = vpage v then e else pte (vm_mem s) pgd q j)))"
proof -
  let ?a = "vindex 39 v" and ?b = "vindex 30 v" and ?c = "vindex 21 v" and ?d = "vindex 12 v"
  obtain r1 s1 where g1: "vmm_get_or_create_table pgd ?a s = (r1, s1)" by fastforce
  have p1: "path ([] @ [?a])" "tbl (vm_mem s) pgd [] = Some pgd" using path_vpath(3) by simp_all
  note G1 = get_or_create_spec [OF inv p1 g1]
  show ?thesis
  proof (cases r1)
    case None
    then show ?thesis using m g1 G1 by (simp add: map_walk_def)
  next
    case r1: (Some pdpt)
    obtain r2 s2 where g2: "vmm_get_or_create_table pdpt ?b s1 = (r2, s2)" by fastforce
    have t1: "tbl (vm_mem s1) pgd [?a] = Some pdpt" using G1(3) r1 by simp
    have p2: "path ([?a] @ [?b])" using path_vpath(4) by simp
    note G2 = get_or_create_spec [OF G1(1) p2 t1 g2]
    show ?thesis
    proof (cases r2)
      case None
      then show ?thesis using m g1 r1 g2 G1(4) G2 by (simp add: map_walk_def)
    next
      case r2: (Some pd)
      obtain r3 s3 where g3: "vmm_get_or_create_table pd ?c s2 = (r3, s3)" by fastforce
      have t2: "tbl (vm_mem s2) pgd [?a, ?b] = Some pd" using G2(3) r2 by simp
      have p3: "path ([?a, ?b] @ [?c])" using path_vpath(1) [of v] by (simp add: vpath_def)
      note G3 = get_or_create_spec [OF G2(1) p3 t2 g3]
      have keep: "pte (vm_mem s3) pgd q j = pte (vm_mem s) pgd q j" if "path q" "length q = 3" "j < 512" for q j
        using G1(4) G2(4) G3(4) that by simp
      show ?thesis
      proof (cases r3)
        case None
        then show ?thesis using m g1 r1 g2 r2 g3 G3 keep by (simp add: map_walk_def)
      next
        case r3: (Some pt)
        have s': "s' = s3\<lparr>vm_mem := (vm_mem s3)(ent pt ?d := e)\<rparr>"
          using m g1 r1 g2 r2 g3 r3 by (simp add: map_walk_def)
        have t3: "tbl (vm_mem s3) pgd (vpath v) = Some pt" using G3(3) r3 by (simp add: vpath_def)
        note W = leaf_write_spec [OF G3(1) path_vpath(1,2) t3 vindex_less s']
        show ?thesis using W keep by (simp add: vpage_def)
      qed
    qed
  qed
qed

lemma get_or_create_regs:
  "vmm_get_or_create_table t i s = (r, s') \<Longrightarrow>
     vm_cr3 s' = vm_cr3 s \<and> vm_kernel_pml4 s' = vm_kernel_pml4 s \<and> vm_mmio_next s' = vm_mmio_next s"
  by (auto simp: vmm_get_or_create_table_def Let_def split: if_splits prod.splits)

lemma map_walk_regs:
  "vm_cr3 (map_walk pgd v e s) = vm_cr3 s" "vm_kernel_pml4 (map_walk pgd v e s) = vm_kernel_pml4 s"
  unfolding map_walk_def by (auto split: prod.splits option.splits dest!: get_or_create_regs)

lemma bit_frame_mask: "bit (0x000FFFFFFFFFF000 :: u64) k \<longleftrightarrow> 12 \<le> k \<and> k < 52"
proof -
  have "(0x000FFFFFFFFFF000 :: u64) = push_bit 12 (mask 40)" by (simp add: mask_eq_exp_minus_1 push_bit_eq_mult)
  then show ?thesis
    by (simp only: bit_push_bit_iff bit_mask_iff possible_bit_def) (auto simp: bit_simps)
qed

lemma leaf_entry_bits:
  "bit (leaf_entry phys flags) k \<longleftrightarrow>
     (12 \<le> k \<and> bit phys k) \<or> (k < 12 \<and> bit flags k) \<or> (k = 63 \<and> bit flags 63) \<or> k = 0"
proof -
  have nx: "bit (push_bit 63 1 :: u64) k \<longleftrightarrow> k = 63"
    by (simp only: bit_push_bit_iff bit_1_iff possible_bit_word) auto
  have "bit phys k \<Longrightarrow> k < 64" by (rule bit_imp_le_length [where ?'a = 64, simplified])
  then show ?thesis
    unfolding leaf_entry_def low12
    by (auto simp only: bit_or_iff bit_and_iff bit_not_iff bit_mask_iff nx bit_flags) (simp_all)
qed

lemma leaf_entry_frame:
  "leaf_entry phys flags AND 0x000FFFFFFFFFF000 = phys AND 0x000FFFFFFFFFF000"
  by (rule bit_eqI) (auto simp only: bit_and_iff bit_frame_mask leaf_entry_bits)

text \<open>Pages that are neither tables nor free are left alone by a mapping.\<close>

definition foreign :: "vmm \<Rightarrow> u64 \<Rightarrow> u64 \<Rightarrow> bool" where
  "foreign s pgd d \<longleftrightarrow> aligned d \<and> not_free (vm_pmm s) d \<and> (\<forall>q. path q \<longrightarrow> tbl (vm_mem s) pgd q \<noteq> Some d)"

lemma get_or_create_frame:
  assumes inv: "pt_inv s pgd" and p: "path (p @ [i])" "tbl (vm_mem s) pgd p = Some b"
    and g: "vmm_get_or_create_table b i s = (r, s')" and d: "foreign s pgd d"
  shows "foreign s' pgd d" "j < 512 \<Longrightarrow> vm_mem s' (ent d j) = vm_mem s (ent d j)"
proof -
  let ?e = "vm_mem s (ent b i)"
  have al: "aligned b" "aligned d" "b \<noteq> d" "i < 512"
    using pt_invD(2) [OF inv path_snocD(1) [OF p(1)] p(2)] d p path_snocD [OF p(1)] by (auto simp: foreign_def)
  have ne: "ent d k \<noteq> ent b i" if "k < 512" for k using ent_inj [OF al(2,1) that al(4)] al(3) by auto
  have "foreign s' pgd d \<and> (\<forall>k<512. vm_mem s' (ent d k) = vm_mem s (ent d k))"
  proof (cases "bit ?e 0")
    case True
    have g': "s' = s\<lparr>vm_mem := (vm_mem s)(ent b i := ?e OR 4)\<rparr>"
      using g True unfolding vmm_get_or_create_table_def Let_def present_iff by auto
    have pm: "vm_pmm s' = vm_pmm s" "\<And>x. x \<noteq> ent b i \<Longrightarrow> vm_mem s' x = vm_mem s x" using g' by simp_all
    show ?thesis
      using d ne pm(2) unfolding foreign_def get_table_spec(2) [OF inv p g'] pm(1) by blast
  next
    case False
    obtain a pm' where alc: "pmm_alloc_page (vm_pmm s) = (a, pm')" by fastforce
    note g' = g [unfolded vmm_get_or_create_table_def Let_def present_iff alc prod.case]
    show ?thesis
    proof (cases rule: pmm_alloc_page_cases [of "vm_pmm s"])
      case full
      then have "s' = s" using g' False alc by auto
      then show ?thesis using d by simp
    next
      case (page k pm)
      have k: "k < 65536" using page(2) by (simp add: page_free_def)
      have a: "a = page_addr (vm_pmm s) k" "pm' = pm" using alc page(1) by auto
      have nz: "a \<noteq> 0" "aligned a"
        using page_addr_props(1,3) [OF pt_invD(1) [OF inv] k] a by (auto simp: aligned_def)
      have ad: "a \<noteq> d" using d a page(2) by (auto simp: foreign_def not_free_def)
      have s': "s' = s\<lparr>vm_pmm := pm', vm_mem := (zero_page a (vm_mem s))(ent b i := a OR 7)\<rparr>"
        using g' False nz(1) by auto
      note C = create_table_spec [OF inv p False page(2) a(1) _ _ s'] 
      have "vm_mem s' (ent d k) = vm_mem s (ent d k)" if "k < 512" for k
        using zero_page_entry [OF nz(2) al(2) that, of "vm_mem s"] ne [OF that] ad s' by simp
      moreover have "foreign s' pgd d"
        using d C(4,5) page(3,4) a(2) ad unfolding foreign_def by auto
      ultimately show ?thesis by blast
    qed
  qed
  then show "foreign s' pgd d" "j < 512 \<Longrightarrow> vm_mem s' (ent d j) = vm_mem s (ent d j)" by auto
qed

lemma map_walk_frame:
  assumes inv: "pt_inv s pgd" and d: "foreign s pgd d" and j: "j < 512"
  shows "vm_mem (map_walk pgd v e s) (ent d j) = vm_mem s (ent d j)"
proof -
  let ?a = "vindex 39 v" and ?b = "vindex 30 v" and ?c = "vindex 21 v" and ?d = "vindex 12 v"
  obtain r1 s1 where g1: "vmm_get_or_create_table pgd ?a s = (r1, s1)" by fastforce
  have p1: "path ([] @ [?a])" "tbl (vm_mem s) pgd [] = Some pgd" using path_vpath(3) by simp_all
  note G1 = get_or_create_spec [OF inv p1 g1] get_or_create_frame [OF inv p1 g1 d]
  show ?thesis
  proof (cases r1)
    case None
    then show ?thesis using g1 G1(6) j by (simp add: map_walk_def)
  next
    case r1: (Some pdpt)
    obtain r2 s2 where g2: "vmm_get_or_create_table pdpt ?b s1 = (r2, s2)" by fastforce
    have p2: "path ([?a] @ [?b])" "tbl (vm_mem s1) pgd [?a] = Some pdpt"
      using path_vpath(4) G1(3) r1 by simp_all
    note G2 = get_or_create_spec [OF G1(1) p2 g2] get_or_create_frame [OF G1(1) p2 g2 G1(5)]
    show ?thesis
    proof (cases r2)
      case None
      then show ?thesis using g1 r1 g2 G1(6) G2(6) j by (simp add: map_walk_def)
    next
      case r2: (Some pd)
      obtain r3 s3 where g3: "vmm_get_or_create_table pd ?c s2 = (r3, s3)" by fastforce
      have p3: "path ([?a, ?b] @ [?c])" "tbl (vm_mem s2) pgd [?a, ?b] = Some pd"
        using path_vpath(1) [of v] G2(3) r2 by (simp_all add: vpath_def)
      note G3 = get_or_create_spec [OF G2(1) p3 g3] get_or_create_frame [OF G2(1) p3 g3 G2(5)]
      have keep: "vm_mem s3 (ent d j) = vm_mem s (ent d j)" using G1(6) G2(6) G3(6) j by simp
      show ?thesis
      proof (cases r3)
        case None
        then show ?thesis using g1 r1 g2 r2 g3 keep by (simp add: map_walk_def)
      next
        case r3: (Some pt)
        have t3: "tbl (vm_mem s3) pgd (vpath v) = Some pt" using G3(3) r3 by (simp add: vpath_def)
        have "pt \<noteq> d" "aligned pt" "aligned d"
          using G3(5) t3 path_vpath(1) pt_invD(2) [OF G3(1) path_vpath(1) t3] by (auto simp: foreign_def)
        then have "ent d j \<noteq> ent pt ?d" using ent_inj [of d pt j ?d] j vindex_less by auto
        then show ?thesis using g1 r1 g2 r2 g3 r3 keep by (simp add: map_walk_def)
      qed
    qed
  qed
qed

text \<open>A page that is allocated and cleared belongs to no table.\<close>

lemma alloc_clear_spec:
  assumes inv: "pt_inv s pgd" and pm: "page_free (vm_pmm s) k" "n = page_addr (vm_pmm s) k"
      "bitmap_base pm' = bitmap_base (vm_pmm s)" "\<And>l. page_free pm' l \<longleftrightarrow> page_free (vm_pmm s) l \<and> l \<noteq> k"
    and s': "s' = s\<lparr>vm_pmm := pm', vm_mem := zero_page n (vm_mem s)\<rparr>"
  shows "pt_inv s' pgd" "foreign s' pgd n" "j < 512 \<Longrightarrow> vm_mem s' (ent n j) = 0"
    "path q \<Longrightarrow> length q = 3 \<Longrightarrow> j < 512 \<Longrightarrow> pte (vm_mem s') pgd q j = pte (vm_mem s) pgd q j"
proof -
  let ?m = "vm_mem s" and ?m' = "vm_mem s'"
  note ok = pt_invD(1) [OF inv]
  have k: "k < 65536" using pm(1) by (simp add: page_free_def)
  have al: "aligned n" using page_addr_props(3) [OF ok k] pm(2) by (simp add: aligned_def)
  have fresh: "a \<noteq> n" if "path q" "tbl ?m pgd q = Some a" for q a
    using pt_invD(3) [OF inv that] pm(1,2) by (auto simp: not_free_def)
  have old: "?m' (ent a l) = ?m (ent a l)" if "path q" "tbl ?m pgd q = Some a" "l < 512" for q a l
    using zero_page_entry [OF al pt_invD(2) [OF inv that(1,2)] that(3), of ?m] fresh [OF that(1,2)] s' by simp
  have t: "tbl ?m' pgd q = tbl ?m pgd q" if "path q" for q
  proof (rule tbl_cong)
    fix r l b assume rl: "\<exists>t. q = r @ l # t" and b: "tbl ?m pgd r = Some b"
    then have "path r" "l < 512" using path_prefix that by blast+
    then show "link (?m' (ent b l)) = link (?m (ent b l))" using old b by simp
  qed
  have addr: "page_addr pm' l = page_addr (vm_pmm s) l" for l using pm(3) by (simp add: page_addr_def)
  have nf: "not_free pm' a" if "not_free (vm_pmm s) a" for a
    using that unfolding not_free_def addr pm(4) by blast
  have nfn: "not_free pm' n"
    unfolding not_free_def addr pm(2,4) using page_addr_inj [OF ok _ k] by (auto simp: page_free_def)
  show "pt_inv s' pgd"
  proof (rule pt_invI)
    show "pmm_ok (vm_pmm s')" using ok pm(3) s' by (simp add: pmm_ok_def)
    show "aligned a \<and> not_free (vm_pmm s') a" if "path q" "tbl ?m' pgd q = Some a" for q a
      using pt_invD(2,3) [OF inv that(1)] that t [OF that(1)] nf s' by simp
    show "q = r" if "path q" "path r" "tbl ?m' pgd q = Some a" "tbl ?m' pgd r = Some a" for q r a
      using pt_invD(4) [OF inv that(1,2)] that t [OF that(1)] t [OF that(2)] by simp
    show "\<not> bit (?m' (ent a l)) 7"
      if "path (q @ [l])" "q \<noteq> []" "tbl ?m' pgd q = Some a" "bit (?m' (ent a l)) 0" for q l a
      using that t [OF path_snocD(1) [OF that(1)]] old [OF path_snocD(1) [OF that(1)] _ path_snocD(2) [OF that(1)]]
        pt_invD(5) [OF inv that(1,2)] by simp
  qed
  show "foreign s' pgd n" using al nfn fresh t s' by (auto simp: foreign_def)
  show "?m' (ent n j) = 0" if "j < 512" using zero_page_entry [OF al al that, of ?m] s' by simp
  show "pte ?m' pgd q j = pte ?m pgd q j" if "path q" "length q = 3" "j < 512"
    using t [OF that(1)] old [OF that(1) _ that(3)] by (auto simp: pte_def split: option.splits)
qed

lemma map_user_page:
  assumes "pt_inv s (vm_cr3 s AND NOT 0xFFF)" "virt \<noteq> 0" "\<not> bit virt 63"
    "s' = vmm_map_page virt phys flags s"
  shows "pt_inv s' (vm_cr3 s' AND NOT 0xFFF) \<and>
    ((\<forall>n. \<not> page_free (vm_pmm s') n) \<and>
       (\<forall>v. vmm_user_virt_to_phys v s' = vmm_user_virt_to_phys v s) \<or>
     vmm_user_virt_to_phys virt s' = (phys AND 0x000FFFFFFFFFF000) OR (virt AND 0xFFF) \<and>
       (\<forall>v. vpage v \<noteq> vpage virt \<longrightarrow> vmm_user_virt_to_phys v s' = vmm_user_virt_to_phys v s))"
proof -
  let ?pgd = "vm_cr3 s AND NOT 0xFFF"
  have "virt AND push_bit 63 1 = 0"
    using and_exp_eq_0_iff_not_bit [of virt 63] assms(3) by (simp add: push_bit_eq_mult)
  then have m: "s' = map_walk ?pgd virt (leaf_entry phys flags) s"
    using assms(2,4) by (simp add: vmm_map_page_def)
  note W = map_walk_spec [OF assms(1) m]
  have cr3: "vm_cr3 s' = vm_cr3 s" using m map_walk_regs by simp
  have inv': "pt_inv s' ?pgd" using W by blast
  have tr: "vmm_user_virt_to_phys v s'' = (let e = pte (vm_mem s'') ?pgd (vpath v) (vindex 12 v) in
       if bit e 0 then (e AND 0x000FFFFFFFFFF000) OR (v AND 0xFFF) else 0)"
    if "pt_inv s'' ?pgd" "vm_cr3 s'' = vm_cr3 s" for v s''
    using pte_walk(2) [OF that(1)] that(2) by (simp add: vmm_user_virt_to_phys_def)
  note T' = tr [OF inv' cr3] and T = tr [OF assms(1) refl]
  note P = path_vpath(1,2) vindex_less
  from W have "(\<forall>n. \<not> page_free (vm_pmm s') n) \<and>
       (\<forall>v. vmm_user_virt_to_phys v s' = vmm_user_virt_to_phys v s) \<or>
     vmm_user_virt_to_phys virt s' = (phys AND 0x000FFFFFFFFFF000) OR (virt AND 0xFFF) \<and>
       (\<forall>v. vpage v \<noteq> vpage virt \<longrightarrow> vmm_user_virt_to_phys v s' = vmm_user_virt_to_phys v s)"
  proof (elim conjE disjE)
    assume "\<forall>n. \<not> page_free (vm_pmm s') n"
      "\<forall>q j. path q \<and> length q = 3 \<and> j < 512 \<longrightarrow> pte (vm_mem s') ?pgd q j = pte (vm_mem s) ?pgd q j"
    then show ?thesis unfolding T T' using P by simp
  next
    assume e: "\<forall>q j. path q \<and> length q = 3 \<and> j < 512 \<longrightarrow> pte (vm_mem s') ?pgd q j =
        (if (q, j) = vpage virt then leaf_entry phys flags else pte (vm_mem s) ?pgd q j)"
    have "pte (vm_mem s') ?pgd (vpath v) (vindex 12 v) =
        (if vpage v = vpage virt then leaf_entry phys flags else pte (vm_mem s) ?pgd (vpath v) (vindex 12 v))" for v
      using e P by (simp add: vpage_def)
    note pt = this
    have "vmm_user_virt_to_phys virt s' = (phys AND 0x000FFFFFFFFFF000) OR (virt AND 0xFFF)"
      unfolding T' Let_def pt [of virt] by (simp only: leaf_entry_frame leaf_entry_bits simp_thms if_True)
    moreover have "vmm_user_virt_to_phys v s' = vmm_user_virt_to_phys v s" if "vpage v \<noteq> vpage virt" for v
      unfolding T T' Let_def pt [of v] using that by (simp only: if_False simp_thms)
    ultimately show ?thesis by blast
  qed
  then show ?thesis using inv' cr3 by simp
qed

section \<open>Properties\<close>


text \<open>A page table whose root is zeroed.\<close>

definition demo_vmm :: vmm where
  "demo_vmm = \<lparr>vm_mem = (\<lambda>_. 0), vm_pmm = demo_pmm, vm_kernel_pml4 = 0x101000, vm_cr3 = 0x100000,
               vm_mmio_next = 0xFFFFFFFFC0000000\<rparr>"

lemma demo_vmm_inv: "pt_inv demo_vmm 0x100000"
proof (rule pt_invI)
  show "pmm_ok (vm_pmm demo_vmm)" using demo_pmm_ok by (simp add: demo_vmm_def)
  have t: "tbl (vm_mem demo_vmm) 0x100000 p = Some a \<longleftrightarrow> p = [] \<and> a = 0x100000" for p a
    by (cases p) (auto simp: demo_vmm_def link_def)
  have nf: "not_free (vm_pmm demo_vmm) 0x100000"
  proof -
    have "page_addr demo_pmm n \<noteq> 0x100000" if "n < 65536" for n
    proof
      assume "page_addr demo_pmm n = 0x100000"
      then have "unat (bitmap_base demo_pmm) + n * 4096 = 0x100000"
        using unat_page_addr(1) [OF demo_pmm_ok(1) that] by simp
      then show False by (simp add: demo_pmm_def pmm_add_region_def pmm_init_def Let_def)
    qed
    then show ?thesis by (auto simp: not_free_def demo_vmm_def page_free_def)
  qed
  show "aligned a \<and> not_free (vm_pmm demo_vmm) a" if "tbl (vm_mem demo_vmm) 0x100000 p = Some a" for p a
    using that t nf by (simp add: aligned_def)
  show "p = q" if "tbl (vm_mem demo_vmm) 0x100000 p = Some a" "tbl (vm_mem demo_vmm) 0x100000 q = Some a" for p q a
    using that t by simp
  show "\<not> bit (vm_mem demo_vmm (ent a i)) 7" for a i by (simp add: demo_vmm_def)
qed

lemma bit_4M: "\<not> bit (0x400000 :: u64) 63"
  using bit_exp_iff [of 22 63, where ?'a = u64] by simp


text \<open>Where \<^verbatim>\<open>vmm_user_virt_to_phys\<close> strips the
  attribute bits of a leaf entry, \<^verbatim>\<open>vmm_get_phys\<close>, which the copy-on-write handler uses, keeps the
  no-execute bit: for a present page mapped no-execute it answers an address with bit 63 set,
  while the other walk answers the frame.\<close>

theorem vmm_get_phys_keeps_nx:
  assumes "pt_inv s (vm_cr3 s)" "e = vmm_pte_for_virt_in (vm_mem s) (vm_cr3 s) virt"
    "bit e 0" "bit e 63"
  shows "bit (vmm_get_phys virt s) 63 \<and> \<not> bit (vmm_user_virt_to_phys_in (vm_mem s) (vm_cr3 s) virt) 63"
proof -
  note w = walk_no_huge [OF assms(1) refl _ refl _ refl, of virt] walk_stops [of "vm_mem s" "vm_cr3 s" virt]
  have e: "e = pte (vm_mem s) (vm_cr3 s) (vpath virt) (vindex 12 virt)"
    using pte_walk(1) [OF assms(1)] assms(2) by simp
  have g: "vmm_get_phys virt s = (e AND NOT (mask 12)) OR (virt AND mask 12)"
    using w assms(3) e unfolding vmm_get_phys_def Let_def present_iff huge_iff low12 pte_def
    by (auto simp: link_def split: if_splits)
  have "bit (vmm_get_phys virt s) 63"
    unfolding g using assms(4) by (simp only: bit_or_iff bit_and_iff bit_not_iff bit_mask_iff) simp
  moreover have "\<not> bit (vmm_user_virt_to_phys_in (vm_mem s) (vm_cr3 s) virt) 63"
    unfolding pte_walk(2) [OF assms(1)] e [symmetric] Let_def low12
    by (simp only: bit_or_iff bit_and_iff bit_mask_iff bit_frame_mask if_distrib [where f = "\<lambda>x. bit x 63"]) simp
  ultimately show ?thesis by blast
qed

lemma ent_eq:
  "aligned a \<Longrightarrow> aligned b \<Longrightarrow> i < 512 \<Longrightarrow> j < 512 \<Longrightarrow> ent a i = ent b j \<longleftrightarrow> a = b \<and> i = j"
  using ent_inj by blast

text \<open>A page table with the page at 4 MiB mapped no-execute.\<close>

definition demo_nx :: vmm where
  "demo_nx = demo_vmm\<lparr>vm_mem := (\<lambda>_. 0)(ent 0x100000 0 := 0x110007, ent 0x110000 0 := 0x111007,
     ent 0x111000 2 := 0x112007, ent 0x112000 0 := 0x8000000000345005)\<rparr>"

lemma demo_nx_tbl:
  "path p \<Longrightarrow> tbl (vm_mem demo_nx) 0x100000 p = Some a \<longleftrightarrow>
     p = [] \<and> a = 0x100000 \<or> p = [0] \<and> a = 0x110000 \<or> p = [0, 0] \<and> a = 0x111000 \<or>
     p = [0, 0, 2] \<and> a = 0x112000"
proof -
  assume "path p"
  have "\<exists>i j k. p = [] \<or> p = [i] \<or> p = [i, j] \<or> p = [i, j, k]"
    using \<open>path p\<close> by (auto simp: path_def le_Suc_eq numeral_3_eq_3 length_Suc_conv)
  then show ?thesis
    using \<open>path p\<close>
    by (elim exE disjE) (auto simp: demo_nx_def path_def link_def ent_eq aligned_def low12 [symmetric])
qed

lemma demo_nx_inv: "pt_inv demo_nx 0x100000"
proof (rule pt_invI)
  show "pmm_ok (vm_pmm demo_nx)" using demo_pmm_ok by (simp add: demo_nx_def demo_vmm_def)
  have nf: "not_free (vm_pmm demo_nx) a" if "a < 0x200000" for a
  proof -
    have "page_addr demo_pmm n \<noteq> a" if "n < 65536" for n
    proof
      assume "page_addr demo_pmm n = a"
      then have "unat (bitmap_base demo_pmm) + n * 4096 = unat a"
        using unat_page_addr(1) [OF demo_pmm_ok(1) that] by simp
      then show False
        using \<open>a < 0x200000\<close> by (simp add: demo_pmm_def pmm_add_region_def pmm_init_def Let_def word_less_nat_alt)
    qed
    then show ?thesis by (auto simp: not_free_def demo_nx_def demo_vmm_def page_free_def)
  qed
  show "aligned a \<and> not_free (vm_pmm demo_nx) a" if "path p" "tbl (vm_mem demo_nx) 0x100000 p = Some a" for p a
    using that(2) unfolding demo_nx_tbl [OF that(1)] by (elim disjE conjE) (simp_all add: aligned_def nf)
  show "p = q" if "path p" "path q" "tbl (vm_mem demo_nx) 0x100000 p = Some a" "tbl (vm_mem demo_nx) 0x100000 q = Some a" for p q a
    using that(3,4) unfolding demo_nx_tbl [OF that(1)] demo_nx_tbl [OF that(2)] by auto
  have b7: "\<not> bit (0x111007 :: u64) 7" "\<not> bit (0x112007 :: u64) 7" by (simp_all add: bit_iff_odd)
  show "\<not> bit (vm_mem demo_nx (ent a i)) 7"
    if "path (p @ [i])" "p \<noteq> []" "tbl (vm_mem demo_nx) 0x100000 p = Some a" for p i a
    using that path_snocD(2) [OF that(1)] b7 unfolding demo_nx_tbl [OF path_snocD(1) [OF that(1)]]
    by (elim disjE conjE) (auto simp: demo_nx_def ent_eq aligned_def path_def)
qed

lemma vindex_4M: "vindex 39 0x400000 = 0" "vindex 30 0x400000 = 0" "vindex 21 0x400000 = 2" "vindex 12 0x400000 = 0"
  by (simp_all add: vindex_def drop_bit_eq_div)

lemma demo_nx_pte: "vmm_pte_for_virt_in (vm_mem demo_nx) (vm_cr3 demo_nx) 0x400000 = 0x8000000000345005"
  unfolding vmm_pte_for_virt_in_def vindex_4M Let_def
  by (simp add: demo_nx_def demo_vmm_def ent_eq aligned_def)

theorem vmm_get_phys_keeps_nx_witness:
  "bit (vmm_get_phys 0x400000 demo_nx) 63 \<and>
   \<not> bit (vmm_user_virt_to_phys_in (vm_mem demo_nx) (vm_cr3 demo_nx) 0x400000) 63"
proof -
  have "vm_cr3 demo_nx = 0x100000" by (simp add: demo_nx_def demo_vmm_def)
  then have "pt_inv demo_nx (vm_cr3 demo_nx)" using demo_nx_inv by simp
  then show ?thesis
    by (rule vmm_get_phys_keeps_nx [OF _ demo_nx_pte [symmetric]]) (simp_all add: bit_iff_odd)
qed

text \<open>\<^verbatim>\<open>vmm_unmap_page\<close> walks the kernel's page table, not the
  current one: where the kernel's root has no entry for a user address, unmapping changes
  nothing and the page stays reachable by the process.\<close>

theorem vmm_unmap_page_misses_user:
  assumes "\<not> bit (vm_mem s (ent (vm_kernel_pml4 s) (vindex 39 virt))) 0"
  shows "vmm_unmap_page virt s = s \<and>
    vmm_user_virt_to_phys virt (vmm_unmap_page virt s) = vmm_user_virt_to_phys virt s"
  using assms unfolding vmm_unmap_page_def Let_def present_iff by simp

theorem vmm_unmap_page_misses_user_witness:
  "vmm_user_virt_to_phys 0x400000 (vmm_unmap_page 0x400000 demo_nx) = vmm_user_virt_to_phys 0x400000 demo_nx"
proof -
  have "vm_mem demo_nx (ent (vm_kernel_pml4 demo_nx) (vindex 39 0x400000)) = 0"
    by (simp add: demo_nx_def demo_vmm_def ent_eq aligned_def vindex_4M)
  then show ?thesis using vmm_unmap_page_misses_user [of demo_nx "0x400000"] by simp
qed

end
