(* ===== verification/Slab.thy ===== *)
theory Slab
  imports Prelude
begin

text \<open>
  The kernel heap, \<^verbatim>\<open>kmalloc\<close> and \<^verbatim>\<open>kfree\<close> of \<^verbatim>\<open>kernel/init.c\<close>: a 64 MiB array carved into blocks,
  each behind an 8-byte header with its payload size and a magic number. A pointer is the
  offset of its payload in the array; the headers are a function from offsets, and the
  contents of payloads are not modelled. The walk over the headers carries fuel; \<open>None\<close> is a
  walk that has not ended.

  The lemmas relate the headers to the list of blocks they describe: allocation and release
  refine the obvious operations on that list.
\<close>

section \<open>Model\<close>

abbreviation (input) SLAB_MAGIC_ALLOC :: u32 where "SLAB_MAGIC_ALLOC \<equiv> 0xA110CA7E"
abbreviation (input) SLAB_MAGIC_FREE :: u32 where "SLAB_MAGIC_FREE \<equiv> 0xFEE1DEAD"
abbreviation (input) HEAP_SIZE :: u64 where "HEAP_SIZE \<equiv> 67108864"

record slab_hdr =
  hd_size :: u32
  hd_magic :: u32

record slab =
  hdrs :: "nat \<Rightarrow> slab_hdr"
  heap_bump :: u64
  heap_used :: u64
  heap_freed :: u64

definition slab_init :: "slab \<Rightarrow> slab" where
  "slab_init s = s\<lparr>heap_bump := 0, heap_used := 0, heap_freed := 0\<rparr>"

definition slab_bump :: "u64 \<Rightarrow> slab \<Rightarrow> u64 option \<times> slab" where
  "slab_bump payload s =
     (let total = 8 + payload in
      if HEAP_SIZE < heap_bump s + total then (None, s)
      else (Some (heap_bump s + 8),
            s\<lparr>hdrs := (hdrs s)(unat (heap_bump s) := \<lparr>hd_size = ucast payload, hd_magic = SLAB_MAGIC_ALLOC\<rparr>),
              heap_bump := heap_bump s + total, heap_used := heap_used s + payload\<rparr>))"

text \<open>The first-fit walk: the offset of the header found, if any.\<close>

fun kmalloc_scan :: "nat \<Rightarrow> slab \<Rightarrow> u64 \<Rightarrow> u64 \<Rightarrow> u64 option option" where
  "kmalloc_scan 0 s sz off = None"
| "kmalloc_scan (Suc fuel) s sz off =
     (if off + 8 \<le> heap_bump s
      then let h = hdrs s (unat off) in
           if hd_magic h = SLAB_MAGIC_FREE \<and> sz \<le> ucast (hd_size h) then Some (Some off)
           else kmalloc_scan fuel s sz (off + (8 + ucast (hd_size h)))
      else Some None)"

definition take_block :: "u64 \<Rightarrow> u64 \<Rightarrow> slab \<Rightarrow> slab" where
  "take_block sz off s =
     (let h = hdrs s (unat off); hsize = ucast (hd_size h) :: u64 in
      if sz + 8 + 16 \<le> hsize
      then s\<lparr>hdrs := (hdrs s)(unat (off + 8 + sz) :=
                         \<lparr>hd_size = ucast (hsize - sz - 8), hd_magic = SLAB_MAGIC_FREE\<rparr>,
                       unat off := \<lparr>hd_size = ucast sz, hd_magic = SLAB_MAGIC_ALLOC\<rparr>),
             heap_used := heap_used s + ucast (ucast sz :: u32)\<rparr>
      else s\<lparr>hdrs := (hdrs s)(unat off := h\<lparr>hd_magic := SLAB_MAGIC_ALLOC\<rparr>),
             heap_freed := heap_freed s - hsize, heap_used := heap_used s + hsize\<rparr>)"

definition kmalloc :: "nat \<Rightarrow> u64 \<Rightarrow> slab \<Rightarrow> (u64 option \<times> slab) option" where
  "kmalloc fuel sz0 s =
     (if sz0 = 0 then Some (None, s)
      else let sz = (sz0 + 15) AND NOT 15 in
           (case (if 0 < heap_freed s then kmalloc_scan fuel s sz 0 else Some None) of
              None \<Rightarrow> None
            | Some (Some off) \<Rightarrow> Some (Some (off + 8), take_block sz off s)
            | Some None \<Rightarrow> Some (slab_bump sz s)))"

definition kfree :: "u64 option \<Rightarrow> slab \<Rightarrow> slab" where
  "kfree ptr s =
     (case ptr of None \<Rightarrow> s
      | Some p \<Rightarrow>
          let off = p - 8; h = hdrs s (unat off) in
          if hd_magic h = SLAB_MAGIC_FREE then s
          else if hd_magic h \<noteq> SLAB_MAGIC_ALLOC then s
          else
            let payload = ucast (hd_size h) :: u64;
                s1 = s\<lparr>hdrs := (hdrs s)(unat off := h\<lparr>hd_magic := SLAB_MAGIC_FREE\<rparr>),
                       heap_used := heap_used s - payload, heap_freed := heap_freed s + payload\<rparr>;
                next_off = off + 8 + payload in
            if next_off + 8 \<le> heap_bump s1
            then let nh = hdrs s1 (unat next_off); h1 = hdrs s1 (unat off) in
                 if hd_magic nh = SLAB_MAGIC_FREE
                 then s1\<lparr>hdrs := (hdrs s1)(unat off := h1\<lparr>hd_size := hd_size h1 + (8 + hd_size nh)\<rparr>),
                         heap_freed := heap_freed s1 - 8\<rparr>
                 else s1
            else s1)"

section \<open>Blocks\<close>

text \<open>A block is its payload size and whether it is free. \<open>chain\<close> says that the headers from
  an offset on describe a list of blocks.\<close>

type_synonym block = "nat \<times> bool"

definition hdr_is :: "slab_hdr \<Rightarrow> block \<Rightarrow> bool" where
  "hdr_is h b \<longleftrightarrow> unat (hd_size h) = fst b \<and> hd_magic h = (if snd b then SLAB_MAGIC_FREE else SLAB_MAGIC_ALLOC)"

fun chain :: "(nat \<Rightarrow> slab_hdr) \<Rightarrow> nat \<Rightarrow> block list \<Rightarrow> bool" where
  "chain h off [] \<longleftrightarrow> True"
| "chain h off (b # bs) \<longleftrightarrow> hdr_is (h off) b \<and> chain h (off + 8 + fst b) bs"

definition total :: "block list \<Rightarrow> nat" where
  "total bs = (\<Sum>b\<leftarrow>bs. 8 + fst b)"

definition slab_inv :: "slab \<Rightarrow> block list \<Rightarrow> bool" where
  "slab_inv s bs \<longleftrightarrow> chain (hdrs s) 0 bs \<and> total bs = unat (heap_bump s) \<and> total bs \<le> 67108864"

text \<open>The live allocations: payload offset and size.\<close>

fun live :: "nat \<Rightarrow> block list \<Rightarrow> (nat \<times> nat) set" where
  "live off [] = {}"
| "live off (b # bs) = (if snd b then {} else {(off + 8, fst b)}) \<union> live (off + 8 + fst b) bs"

lemma total_simps [simp]: "total [] = 0" "total (b # bs) = 8 + fst b + total bs" "total (xs @ ys) = total xs + total ys"
  by (simp_all add: total_def)

lemma chain_append: "chain h off (xs @ ys) \<longleftrightarrow> chain h off xs \<and> chain h (off + total xs) ys"
  by (induction xs arbitrary: off) (auto simp: add.assoc)

lemma live_append: "live off (xs @ ys) = live off xs \<union> live (off + total xs) ys"
  by (induction xs arbitrary: off) (auto simp: add.assoc)

lemma chain_cong:
  assumes "\<And>x. off \<le> x \<Longrightarrow> x < off + total bs \<Longrightarrow> h' x = h x"
  shows "chain h' off bs = chain h off bs"
  using assms by (induction bs arbitrary: off) auto

lemma live_range: "(p, n) \<in> live off bs \<Longrightarrow> off + 8 \<le> p \<and> p + n \<le> off + total bs"
  by (induction bs arbitrary: off) (fastforce split: if_splits)+

text \<open>Live allocations never overlap.\<close>

lemma live_disjoint:
  "(p, n) \<in> live off bs \<Longrightarrow> (q, m) \<in> live off bs \<Longrightarrow> (p, n) = (q, m) \<or> p + n \<le> q \<or> q + m \<le> p"
proof (induction bs arbitrary: off)
  case (Cons b bs)
  then show ?case
    using live_range [of p n "off + 8 + fst b" bs] live_range [of q m "off + 8 + fst b" bs]
    by (fastforce split: if_splits)
qed simp

lemma live_split:
  assumes "(p, n) \<in> live off bs"
  obtains pre post where "bs = pre @ (n, False) # post" "p = off + total pre + 8"
  using assms
proof (induction bs arbitrary: off thesis)
  case (Cons b bs)
  show thesis
  proof (cases "\<not> snd b \<and> (p, n) = (off + 8, fst b)")
    case True
    then show thesis using Cons.prems(1) [of "[]" bs] by (cases b) auto
  next
    case False
    then have "(p, n) \<in> live (off + 8 + fst b) bs" using Cons.prems(2) by (auto split: if_splits)
    then obtain pre post where "bs = pre @ (n, False) # post" "p = off + 8 + fst b + total pre + 8"
      using Cons.IH [of "off + 8 + fst b"] by blast
    then show thesis using Cons.prems(1) [of "b # pre" post] by simp
  qed
qed simp

section \<open>The walk\<close>

fun first_fit :: "nat \<Rightarrow> nat \<Rightarrow> block list \<Rightarrow> nat option" where
  "first_fit n off [] = None"
| "first_fit n off (b # bs) = (if snd b \<and> n \<le> fst b then Some off else first_fit n (off + 8 + fst b) bs)"

lemma first_fit_split:
  assumes "first_fit n off bs = Some o'"
  shows "\<exists>pre m post. bs = pre @ (m, True) # post \<and> n \<le> m \<and> o' = off + total pre"
  using assms
proof (induction bs arbitrary: off)
  case (Cons b bs)
  show ?case
  proof (cases "snd b \<and> n \<le> fst b")
    case True
    then show ?thesis using Cons.prems by (intro exI [of _ "[]"]) (cases b; auto)
  next
    case False
    then obtain pre m post where "bs = pre @ (m, True) # post" "n \<le> m" "o' = off + 8 + fst b + total pre"
      using Cons.IH [of "off + 8 + fst b"] Cons.prems by auto
    then show ?thesis by (intro exI [of _ "b # pre"]) auto
  qed
qed simp

lemma unat_add_small:
  fixes a b :: u64
  assumes "unat a + unat b < 2 ^ 64"
  shows "unat (a + b) = unat a + unat b"
  using assms by (simp add: unat_word_ariths)

lemma unat_ucast_up: "unat (ucast (w :: u32) :: u64) = unat w"
proof -
  have "unat (ucast w :: u64) = take_bit 64 (unat w)" by (simp add: unsigned_ucast_eq)
  moreover have "unat w < 2 ^ 32" using unsigned_less [of w, where ?'a = nat] by simp
  ultimately show ?thesis by (simp add: take_bit_nat_eq_self)
qed

lemma scan_correct:
  assumes "chain (hdrs s) (unat off) bs" "unat off + total bs = unat (heap_bump s)"
    "unat (heap_bump s) \<le> 67108864" "length bs < fuel"
  shows "kmalloc_scan fuel s sz off = Some (map_option of_nat (first_fit (unat sz) (unat off) bs))"
  using assms
proof (induction bs arbitrary: off fuel)
  case Nil
  then obtain f where f: "fuel = Suc f" by (cases fuel) auto
  have "unat (off + 8) = unat off + 8" using Nil by (subst unat_add_small) auto
  then have "\<not> off + 8 \<le> heap_bump s" using Nil by (simp add: word_le_nat_alt)
  then show ?case using f by simp
next
  case (Cons b bs)
  then obtain f where f: "fuel = Suc f" by (cases fuel) auto
  let ?h = "hdrs s (unat off)"
  have hb: "hdr_is ?h b" using Cons.prems(1) by simp
  have u8: "unat (off + 8) = unat off + 8" using Cons.prems(2,3) by (subst unat_add_small) auto
  then have le: "off + 8 \<le> heap_bump s" using Cons.prems(2) by (simp add: word_le_nat_alt)
  have hs: "unat (ucast (hd_size ?h) :: u64) = fst b" using hb by (simp add: hdr_is_def unat_ucast_up)
  have sz: "sz \<le> ucast (hd_size ?h) \<longleftrightarrow> unat sz \<le> fst b" by (simp only: word_le_nat_alt hs)
  have mg: "hd_magic ?h = SLAB_MAGIC_FREE \<longleftrightarrow> snd b" using hb by (auto simp: hdr_is_def)
  have nx: "unat (off + (8 + ucast (hd_size ?h))) = unat off + 8 + fst b"
  proof -
    have "unat (8 + ucast (hd_size ?h) :: u64) = 8 + fst b"
      using hs Cons.prems(2,3) by (subst unat_add_small) auto
    then show ?thesis using Cons.prems(2,3) by (subst unat_add_small) auto
  qed
  show ?case
  proof (cases "snd b \<and> unat sz \<le> fst b")
    case True
    then have "kmalloc_scan fuel s sz off = Some (Some off)" using f le sz mg by (simp add: Let_def)
    then show ?thesis using True by simp
  next
    case False
    have "kmalloc_scan f s sz (off + (8 + ucast (hd_size ?h))) =
        Some (map_option of_nat (first_fit (unat sz) (unat off + 8 + fst b) bs))"
      using Cons.IH [of "off + (8 + ucast (hd_size ?h))" f] Cons.prems nx f by (simp add: add.assoc)
    then show ?thesis using False f le sz mg by (auto simp: Let_def)
  qed
qed

section \<open>Allocation\<close>

lemma unat_and_not_15: "unat ((w :: u64) AND NOT 15) = unat w div 16 * 16"
proof -
  have e: "(15 :: u64) = mask 4" by (simp add: mask_eq_exp_minus_1)
  have "w AND NOT (mask 4) = push_bit 4 (drop_bit 4 w)" by (rule bit_eqI) (auto simp: bit_simps)
  moreover have "unat w < 2 ^ 64" using unsigned_less [of w, where ?'a = nat] by simp
  then have "unat w div 16 * 16 < 2 ^ 64" by (meson le_less_trans div_times_less_eq_dividend)
  then have "unat (push_bit 4 (drop_bit 4 w)) = unat w div 16 * 16"
    by (simp only: unsigned_push_bit_eq unsigned_drop_bit_eq)
      (simp add: push_bit_eq_mult drop_bit_eq_div take_bit_nat_eq_self)
  ultimately show ?thesis by (simp only: e)
qed

lemma round_16:
  assumes "unat (sz0 :: u64) \<le> 67108864"
  shows "unat sz0 \<le> unat ((sz0 + 15) AND NOT 15)" "unat ((sz0 + 15) AND NOT 15) \<le> unat sz0 + 15"
proof -
  have "unat (sz0 + 15) = unat sz0 + 15" using assms by (subst unat_add_small) auto
  then have "unat ((sz0 + 15) AND NOT 15) = (unat sz0 + 15) div 16 * 16" by (simp only: unat_and_not_15)
  then show "unat sz0 \<le> unat ((sz0 + 15) AND NOT 15)" "unat ((sz0 + 15) AND NOT 15) \<le> unat sz0 + 15"
    by linarith+
qed

lemma unat_ucast_down: "unat (w :: u64) < 2 ^ 32 \<Longrightarrow> unat (ucast w :: u32) = unat w"
  by (simp add: unsigned_ucast_eq take_bit_nat_eq_self)

lemma slab_invD:
  assumes "slab_inv s (pre @ b # post)"
  shows "chain (hdrs s) 0 pre" "hdr_is (hdrs s (total pre)) b" "chain (hdrs s) (total pre + 8 + fst b) post"
    "total pre + 8 + fst b + total post = unat (heap_bump s)" "total pre + 8 + fst b + total post \<le> 67108864"
  using assms by (auto simp: slab_inv_def chain_append)

lemma slab_invI:
  assumes "chain h 0 pre" "hdr_is (h' (total pre)) b" "chain h' (total pre + 8 + fst b) post"
    "\<And>x. x < total pre \<Longrightarrow> h' x = h x" "total pre + 8 + fst b + total post = unat (heap_bump s)"
    "total pre + 8 + fst b + total post \<le> 67108864" "hdrs s = h'"
  shows "slab_inv s (pre @ b # post)"
  using assms chain_cong [of 0 pre h' h] by (auto simp: slab_inv_def chain_append)

lemma take_block_inv:
  assumes inv: "slab_inv s (pre @ (m, True) # post)" and fit: "unat sz \<le> m" and off: "unat off = total pre"
  obtains k bs' where "slab_inv (take_block sz off s) bs'" "unat sz \<le> k" "total pre + 8 + k \<le> 67108864"
    "live 0 bs' = insert (total pre + 8, k) (live 0 (pre @ (m, True) # post))"
proof -
  note D = slab_invD [OF inv, simplified]
  let ?h = "hdrs s (unat off)"
  have h: "unat (ucast (hd_size ?h) :: u64) = m" using D(2) off by (simp add: hdr_is_def unat_ucast_up)
  have uoff: "unat (off + 8 + sz) = total pre + 8 + unat sz"
    using D(5) fit off by (simp add: unat_add_small)
  have cond: "sz + 8 + 16 \<le> (ucast (hd_size ?h) :: u64) \<longleftrightarrow> unat sz + 24 \<le> m"
  proof -
    have "unat (sz + 8 + 16) = unat sz + 24" using D(5) fit by (simp add: unat_add_small)
    then show ?thesis by (simp only: word_le_nat_alt h)
  qed
  have sz32: "unat (ucast sz :: u32) = unat sz" using D(5) fit by (intro unat_ucast_down) simp
  show thesis
  proof (cases "unat sz + 24 \<le> m")
    case True
    let ?rest = "ucast (hd_size ?h) - sz - 8 :: u64"
    let ?H = "(hdrs s)(total pre + 8 + unat sz := \<lparr>hd_size = ucast ?rest, hd_magic = SLAB_MAGIC_FREE\<rparr>,
                       total pre := \<lparr>hd_size = ucast sz, hd_magic = SLAB_MAGIC_ALLOC\<rparr>)"
    have "unat ?rest = m - unat sz - 8"
    proof -
      have "unat (ucast (hd_size ?h) - sz :: u64) = m - unat sz"
        using h fit by (subst unat_sub) (auto simp: word_le_nat_alt)
      then show ?thesis using True by (subst unat_sub) (auto simp: word_le_nat_alt)
    qed
    then have r32: "unat (ucast ?rest :: u32) = m - unat sz - 8" using D(5) by (subst unat_ucast_down) auto
    have t: "hdrs (take_block sz off s) = ?H" "heap_bump (take_block sz off s) = heap_bump s"
      using True cond uoff off by (simp_all add: take_block_def Let_def)
    have "slab_inv (take_block sz off s) (pre @ (unat sz, False) # (m - unat sz - 8, True) # post)"
    proof (rule slab_invI [OF D(1) _ _ _ _ _ t(1)])
      show "hdr_is (?H (total pre)) (unat sz, False)" using sz32 by (simp add: hdr_is_def)
      have "chain ?H (total pre + 8 + m) post"
        using D(3) True by (subst chain_cong [of _ _ _ "hdrs s"]) auto
      then show "chain ?H (total pre + 8 + fst (unat sz, False)) ((m - unat sz - 8, True) # post)"
        using True r32 by (simp add: hdr_is_def add.assoc)
    qed (use D(4,5) True t in auto)
    then show thesis
      by (rule that [where k = "unat sz"]) (use D(5) True in \<open>auto simp: live_append ac_simps\<close>)
  next
    case False
    let ?H = "(hdrs s)(total pre := ?h\<lparr>hd_magic := SLAB_MAGIC_ALLOC\<rparr>)"
    have t: "hdrs (take_block sz off s) = ?H" "heap_bump (take_block sz off s) = heap_bump s"
      using False cond off by (simp_all add: take_block_def Let_def)
    have "slab_inv (take_block sz off s) (pre @ (m, False) # post)"
    proof (rule slab_invI [OF D(1) _ _ _ _ _ t(1)])
      show "hdr_is (?H (total pre)) (m, False)" using D(2) off by (simp add: hdr_is_def)
      show "chain ?H (total pre + 8 + fst (m, False)) post"
        using D(3) by (subst chain_cong [of _ _ _ "hdrs s"]) auto
    qed (use D(4,5) t in auto)
    then show thesis
      by (rule that [where k = m]) (use D(5) fit in \<open>auto simp: live_append ac_simps\<close>)
  qed
qed

lemma slab_bump_inv:
  assumes inv: "slab_inv s bs" and sz: "unat sz \<le> 67108879"
  shows "slab_bump sz s = (None, s) \<and> 67108864 < unat (heap_bump s) + 8 + unat sz \<or>
    (\<exists>s'. slab_bump sz s = (Some (heap_bump s + 8), s') \<and> slab_inv s' (bs @ [(unat sz, False)]) \<and>
       unat (heap_bump s + 8) = total bs + 8)"
proof -
  have b: "total bs = unat (heap_bump s)" "chain (hdrs s) 0 bs" "unat (heap_bump s) \<le> 67108864"
    using inv by (auto simp: slab_inv_def)
  have u: "unat (heap_bump s + (8 + sz)) = unat (heap_bump s) + 8 + unat sz" "unat (heap_bump s + 8) = unat (heap_bump s) + 8"
    using b(3) sz by (simp_all add: unat_add_small)
  have sz32: "unat (ucast sz :: u32) = unat sz" using sz by (intro unat_ucast_down) simp
  show ?thesis
  proof (cases "HEAP_SIZE < heap_bump s + (8 + sz)")
    case True
    then show ?thesis using u(1) by (simp add: slab_bump_def word_less_nat_alt)
  next
    case False
    let ?H = "(hdrs s)(unat (heap_bump s) := \<lparr>hd_size = ucast sz, hd_magic = SLAB_MAGIC_ALLOC\<rparr>)"
    have "unat (heap_bump s) + 8 + unat sz \<le> 67108864" using False u(1) by (simp add: word_less_nat_alt not_less)
    moreover have "chain ?H 0 bs" using b(1,2) by (subst chain_cong [of _ _ _ "hdrs s"]) auto
    ultimately show ?thesis
      using False u b(1) sz32 by (auto simp: slab_bump_def Let_def slab_inv_def chain_append hdr_is_def)
  qed
qed

lemma length_total: "8 * length bs \<le> total bs"
  by (induction bs) auto

section \<open>Properties\<close>


definition demo_slab :: slab where
  "demo_slab = \<lparr>hdrs = \<lambda>_. \<lparr>hd_size = 0, hd_magic = 0\<rparr>, heap_bump = 0, heap_used = 0, heap_freed = 0\<rparr>"

lemma demo_slab_inv: "slab_inv demo_slab []"
  by (simp add: slab_inv_def demo_slab_def)


lemma kfree_steps:
  assumes "slab_inv s (pre @ (n, False) # post)" "unat p = total pre + 8"
    and "h = hdrs s (total pre)" "H = (hdrs s)(total pre := h\<lparr>hd_magic := SLAB_MAGIC_FREE\<rparr>)"
  shows "unat (p - 8) = total pre" "unat (ucast (hd_size h) :: u64) = n"
    "unat (p - 8 + 8 + ucast (hd_size h)) = total pre + 8 + n"
    "p - 8 + 8 + ucast (hd_size h) + 8 \<le> heap_bump s \<longleftrightarrow> post \<noteq> []"
    "hd_magic h = SLAB_MAGIC_ALLOC"
proof -
  note D = slab_invD [OF assms(1), simplified]
  show a: "unat (p - 8) = total pre" using assms(2) by (subst unat_sub) (auto simp: word_le_nat_alt)
  show b: "unat (ucast (hd_size h) :: u64) = n" "hd_magic h = SLAB_MAGIC_ALLOC"
    using D(2) assms(3) by (simp_all add: hdr_is_def unat_ucast_up)
  show c: "unat (p - 8 + 8 + ucast (hd_size h)) = total pre + 8 + n"
    using assms(2) b(1) D(5) by (simp add: unat_add_small)
  then have "unat (p - 8 + 8 + ucast (hd_size h) + 8) = total pre + 8 + n + 8"
    using D(5) by (subst unat_add_small) auto
  moreover have "total post = 0 \<longleftrightarrow> post = []" "total post = 0 \<or> 8 \<le> total post" by (cases post; simp)+
  ultimately show "p - 8 + 8 + ucast (hd_size h) + 8 \<le> heap_bump s \<longleftrightarrow> post \<noteq> []"
    using D(4) by (auto simp: word_le_nat_alt)
qed

lemma kfree_blocks:
  assumes inv: "slab_inv s (pre @ (n, False) # post)" and p: "unat p = total pre + 8"
  shows "slab_inv (kfree (Some p) s)
    (pre @ (case post of (m, True) # rest \<Rightarrow> (n + 8 + m, True) # rest | _ \<Rightarrow> (n, True) # post))"
proof -
  define h where "h = hdrs s (total pre)"
  define H where "H = (hdrs s)(total pre := h\<lparr>hd_magic := SLAB_MAGIC_FREE\<rparr>)"
  note D = slab_invD [OF inv, simplified] and K = kfree_steps [OF inv p h_def H_def]
  let ?next = "hdrs s (total pre + 8 + n)"
  have plain: "slab_inv s1 (pre @ (n, True) # post)" if "hdrs s1 = H" "heap_bump s1 = heap_bump s" for s1
  proof (rule slab_invI [OF D(1) _ _ _ _ _ that(1)])
    show "hdr_is (H (total pre)) (n, True)" using D(2) by (simp add: H_def h_def hdr_is_def)
    show "chain H (total pre + 8 + fst (n, True)) post"
      using D(3) unfolding H_def by (subst chain_cong [of _ _ _ "hdrs s"]) auto
  qed (use D(4,5) that in \<open>auto simp: H_def\<close>)
  have kf: "hdrs (kfree (Some p) s) =
      (if post \<noteq> [] \<and> hd_magic ?next = SLAB_MAGIC_FREE
       then H(total pre := h\<lparr>hd_magic := SLAB_MAGIC_FREE, hd_size := hd_size h + (8 + hd_size ?next)\<rparr>) else H)"
    "heap_bump (kfree (Some p) s) = heap_bump s"
    unfolding kfree_def option.case Let_def K(1) h_def [symmetric] K(3) H_def [symmetric]
    using K(4,5) by (simp_all add: H_def)
  show ?thesis
  proof (cases post)
    case Nil
    then show ?thesis using plain kf by simp
  next
    case (Cons b rest)
    obtain m f where b: "b = (m, f)" by fastforce
    have nb: "hdr_is ?next (m, f)" "chain (hdrs s) (total pre + 8 + n + 8 + m) rest"
      using D(3) Cons b by auto
    show ?thesis
    proof (cases f)
      case False
      then show ?thesis using plain kf Cons b nb(1) by (simp add: hdr_is_def)
    next
      case True
      let ?h = "h\<lparr>hd_magic := SLAB_MAGIC_FREE, hd_size := hd_size h + (8 + hd_size ?next)\<rparr>"
      have t: "hdrs (kfree (Some p) s) = H(total pre := ?h)" using kf(1) Cons nb(1) True by (simp add: hdr_is_def)
      have sz: "unat (hd_size h + (8 + hd_size ?next)) = n + 8 + m"
        using K(2) nb(1) D(5) Cons b by (simp add: hdr_is_def unat_ucast_up unat_word_ariths)
      have "slab_inv (kfree (Some p) s) (pre @ (n + 8 + m, True) # rest)"
      proof (rule slab_invI [OF D(1) _ _ _ _ _ t])
        show "hdr_is ((H(total pre := ?h)) (total pre)) (n + 8 + m, True)" using sz by (simp add: hdr_is_def)
        show "chain (H(total pre := ?h)) (total pre + 8 + fst (n + 8 + m, True)) rest"
          using nb(2) unfolding H_def by (subst chain_cong [of _ _ _ "hdrs s"]) (auto simp: ac_simps)
      qed (use D(4,5) kf(2) Cons b in \<open>auto simp: H_def\<close>)
      then show ?thesis using Cons b True by simp
    qed
  qed
qed

text \<open>\<^emph>\<open>Release.\<close> Freeing a live block keeps the heap well formed and removes exactly this
  block from the live ones, merged with the next block where that is free; freeing it again
  changes nothing.\<close>

theorem kfree_correct:
  assumes "slab_inv s bs" "(unat p, n) \<in> live 0 bs"
  shows "(\<exists>bs'. slab_inv (kfree (Some p) s) bs' \<and> live 0 bs' = live 0 bs - {(unat p, n)}) \<and>
    kfree (Some p) (kfree (Some p) s) = kfree (Some p) s"
proof -
  obtain pre post where b: "bs = pre @ (n, False) # post" "unat p = total pre + 8"
    using live_split [OF assms(2)] by auto
  let ?bs = "pre @ (case post of (m, True) # rest \<Rightarrow> (n + 8 + m, True) # rest | _ \<Rightarrow> (n, True) # post)"
  have inv: "slab_inv (kfree (Some p) s) ?bs" using kfree_blocks assms(1) b by blast
  have "(unat p, n) \<notin> live 0 pre" "(unat p, n) \<notin> live (total pre + 8 + n) post"
    using live_range [of "unat p" n 0 pre] live_range [of "unat p" n "total pre + 8 + n" post] b(2) by auto
  then have "live 0 ?bs = live 0 bs - {(unat p, n)}"
    unfolding b(1) by (auto simp: live_append b(2) ac_simps split: list.splits bool.splits prod.splits)
  moreover have "hd_magic (hdrs (kfree (Some p) s) (total pre)) = SLAB_MAGIC_FREE"
    using inv unfolding slab_inv_def chain_append
    by (auto simp: hdr_is_def split: list.splits bool.splits prod.splits)
  then have "kfree (Some p) (kfree (Some p) s) = kfree (Some p) s"
    using kfree_steps(1) [OF assms(1) [unfolded b(1)] b(2) refl refl]
    by (subst (1) kfree_def) (simp add: Let_def)
  ultimately show ?thesis using inv by blast
qed

definition demo_slab1 :: slab where
  "demo_slab1 = demo_slab\<lparr>hdrs := (hdrs demo_slab)(0 := \<lparr>hd_size = 112, hd_magic = SLAB_MAGIC_ALLOC\<rparr>),
                           heap_bump := 120\<rparr>"

lemma demo_slab1_inv: "slab_inv demo_slab1 [(112, False)]"
  by (simp add: slab_inv_def demo_slab1_def hdr_is_def)

theorem kfree_correct_witness:
  "\<exists>bs'. slab_inv (kfree (Some 8) demo_slab1) bs' \<and> live 0 bs' = {}"
  using kfree_correct [OF demo_slab1_inv, of 8 112] by auto

text \<open>A request of \<open>2^64 - 16\<close> bytes passes the bound check of \<^verbatim>\<open>slab_bump\<close>
  because the sum wraps around: \<^verbatim>\<open>kmalloc\<close> returns a pointer and moves the end of the used heap
  8 bytes back, into the last block.\<close>

theorem kmalloc_huge_wraps:
  assumes "heap_freed s = 0" "8 \<le> heap_bump s" "heap_bump s \<le> HEAP_SIZE"
  shows "\<exists>s'. kmalloc fuel (- 16) s = Some (Some (heap_bump s + 8), s') \<and>
    heap_bump s' = heap_bump s - 8 \<and> heap_bump s' < heap_bump s"
proof -
  have e: "((- 16 :: u64) + 15) AND NOT 15 = - 16" by simp
  have "unat (heap_bump s - 8) = unat (heap_bump s) - 8" using unat_sub [OF assms(2)] by simp
  then have l: "heap_bump s - 8 < heap_bump s" "\<not> HEAP_SIZE < heap_bump s - 8"
    using assms(2,3) by (simp_all add: word_less_nat_alt word_le_nat_alt)
  have "kmalloc fuel (- 16) s = Some (slab_bump (- 16) s)"
    using assms(1) unfolding kmalloc_def Let_def e by simp
  then show ?thesis using l by (simp add: slab_bump_def)
qed

theorem kmalloc_huge_wraps_witness:
  "\<exists>s'. kmalloc 1 (- 16) demo_slab1 = Some (Some 128, s') \<and> heap_bump s' = 112"
  using kmalloc_huge_wraps [of demo_slab1 1] by (auto simp: demo_slab1_def demo_slab_def)

end
