(* ===== verification/Mm.thy ===== *)
theory Mm
  imports Paging
begin

text \<open>
  Address spaces: the areas of a process and \<^verbatim>\<open>brk\<close>, \<^verbatim>\<open>mmap\<close>, \<^verbatim>\<open>munmap\<close>, \<^verbatim>\<open>mprotect\<close> of
  \<^verbatim>\<open>kernel/mmap.c\<close>, the area list of \<^verbatim>\<open>fs/vfs_ops.c\<close>, the page-fault handler of
  \<^verbatim>\<open>kernel/page_fault.c\<close> and the memory descriptors of \<^verbatim>\<open>kernel/process.c\<close>.

  An area is a block of the kernel heap: the descriptor holds the addresses of its areas in list
  order, and a map holds the areas that are allocated. Reading an area that was freed is the
  outcome \<open>None\<close> of an operation. \<open>valloc\<close> is the allocator of area blocks.
\<close>

section \<open>State\<close>

record vm_area =
  va_start :: u64
  va_end :: u64
  va_flags :: u32
  va_vm_flags :: u32
  va_file :: "nat option"
  va_offset :: u64
  va_pgoff :: u64

record mm_struct =
  mm_mmap :: "nat list"
  mm_pgd :: u64
  mm_start_code :: u64
  mm_end_code :: u64
  mm_start_data :: u64
  mm_end_data :: u64
  mm_start_brk :: u64
  mm_brk :: u64
  mm_start_stack :: u64
  mm_total_vm :: u64
  mm_users :: int
  mm_count :: int

record aspace =
  as_mm :: mm_struct
  as_vmas :: "nat \<rightharpoonup> vm_area"
  as_vmm :: vmm

type_synonym vma_allocator = "(nat \<rightharpoonup> vm_area) \<Rightarrow> nat option"

abbreviation (input) VM_READ :: u32 where "VM_READ \<equiv> 1"
abbreviation (input) VM_WRITE :: u32 where "VM_WRITE \<equiv> 2"
abbreviation (input) VM_EXEC :: u32 where "VM_EXEC \<equiv> 4"
abbreviation (input) VM_SHARED :: u32 where "VM_SHARED \<equiv> 8"
abbreviation (input) VM_GROWSDOWN :: u32 where "VM_GROWSDOWN \<equiv> 0x100"
abbreviation (input) VM_HEAP :: u32 where "VM_HEAP \<equiv> 0x80000"
abbreviation (input) VM_STACK :: u32 where "VM_STACK \<equiv> 0x100000"
abbreviation (input) VM_FILE :: u32 where "VM_FILE \<equiv> 0x200000"

abbreviation (input) VM_COW :: u32 where "VM_COW \<equiv> 0x800000"

definition PAGE_ALIGN :: "u64 \<Rightarrow> u64" where
  "PAGE_ALIGN x = (x + 4095) AND NOT 4095"

definition PAGE_DOWN :: "u64 \<Rightarrow> u64" where
  "PAGE_DOWN x = x AND NOT 4095"

text \<open>The number of rounds of \<^verbatim>\<open>for (off = 0; off < size; off += PAGE_SIZE)\<close>.\<close>

definition page_rounds :: "u64 \<Rightarrow> nat" where
  "page_rounds sz = (unat sz + 4095) div 4096"

definition upd_mm :: "(mm_struct \<Rightarrow> mm_struct) \<Rightarrow> aspace \<Rightarrow> aspace" where
  "upd_mm f s = s\<lparr>as_mm := f (as_mm s)\<rparr>"

section \<open>Areas\<close>

definition vma_zero :: vm_area where
  "vma_zero = \<lparr>va_start = 0, va_end = 0, va_flags = 0, va_vm_flags = 0, va_file = None,
               va_offset = 0, va_pgoff = 0\<rparr>"

text \<open>\<^verbatim>\<open>vma_alloc\<close> followed by the stores that fill the block.\<close>

definition vma_alloc :: "vma_allocator \<Rightarrow> vm_area \<Rightarrow> aspace \<Rightarrow> nat option \<times> aspace" where
  "vma_alloc valloc v s =
     (case valloc (as_vmas s) of None \<Rightarrow> (None, s)
      | Some a \<Rightarrow> (Some a, s\<lparr>as_vmas := (as_vmas s)(a \<mapsto> v)\<rparr>))"

definition vma_free :: "nat \<Rightarrow> aspace \<Rightarrow> aspace" where
  "vma_free a s = s\<lparr>as_vmas := (as_vmas s)(a := None)\<rparr>"

text \<open>The list after inserting \<open>a\<close>, whose area starts at \<open>start\<close>, before the first area that
  starts later.\<close>

fun insert_at :: "(nat \<rightharpoonup> vm_area) \<Rightarrow> nat \<Rightarrow> u64 \<Rightarrow> nat list \<Rightarrow> nat list option" where
  "insert_at h a start [] = Some [a]"
| "insert_at h a start (c # cs) =
     (case h c of None \<Rightarrow> None
      | Some v \<Rightarrow> if start < va_start v then Some (a # c # cs)
                 else map_option ((#) c) (insert_at h a start cs))"

definition insert_vma :: "nat \<Rightarrow> aspace \<Rightarrow> aspace option" where
  "insert_vma a s =
     (case as_vmas s a of None \<Rightarrow> None
      | Some v \<Rightarrow> map_option (\<lambda>l. upd_mm (\<lambda>m. m\<lparr>mm_mmap := l\<rparr>) s)
                   (insert_at (as_vmas s) a (va_start v) (mm_mmap (as_mm s))))"

text \<open>The first area that satisfies a test, scanning in list order.\<close>

fun first_vma :: "(nat \<rightharpoonup> vm_area) \<Rightarrow> (vm_area \<Rightarrow> bool) \<Rightarrow> nat list \<Rightarrow> nat option option" where
  "first_vma h P [] = Some None"
| "first_vma h P (c # cs) =
     (case h c of None \<Rightarrow> None
      | Some v \<Rightarrow> if P v then Some (Some c) else first_vma h P cs)"

fun find_vma_loop :: "(nat \<rightharpoonup> vm_area) \<Rightarrow> u64 \<Rightarrow> nat option \<Rightarrow> nat list \<Rightarrow> nat option option" where
  "find_vma_loop h addr best [] = Some best"
| "find_vma_loop h addr best (c # cs) =
     (case h c of None \<Rightarrow> None
      | Some v \<Rightarrow>
          if va_start v \<le> addr \<and> addr < va_end v then Some (Some c)
          else if addr < va_start v
          then (case best of None \<Rightarrow> find_vma_loop h addr (Some c) cs
                | Some b \<Rightarrow>
                    (case h b of None \<Rightarrow> None
                     | Some w \<Rightarrow> find_vma_loop h addr
                                  (if va_start v < va_start w then Some c else best) cs))
          else find_vma_loop h addr best cs)"

definition find_vma :: "u64 \<Rightarrow> aspace \<Rightarrow> nat option option" where
  "find_vma addr s = find_vma_loop (as_vmas s) addr None (mm_mmap (as_mm s))"

definition collides :: "u64 \<Rightarrow> u64 \<Rightarrow> vm_area \<Rightarrow> bool" where
  "collides hint sz v \<longleftrightarrow> hint < va_end v \<and> va_start v < hint + sz"

fun find_free_loop :: "nat \<Rightarrow> (nat \<rightharpoonup> vm_area) \<Rightarrow> nat list \<Rightarrow> u64 \<Rightarrow> u64 \<Rightarrow> u64 option" where
  "find_free_loop 0 h l sz hint = Some 0"
| "find_free_loop (Suc tries) h l sz hint =
     (case first_vma h (collides hint sz) l of
        None \<Rightarrow> None
      | Some None \<Rightarrow> Some hint
      | Some (Some c) \<Rightarrow>
          (case h c of None \<Rightarrow> None
           | Some v \<Rightarrow> find_free_loop tries h l sz (PAGE_ALIGN (va_end v))))"

definition find_free_vma :: "u64 \<Rightarrow> u64 \<Rightarrow> aspace \<Rightarrow> u64 option" where
  "find_free_vma hint sz s =
     (let hint1 = (if hint = 0 then 0x00007FFF00000000 - sz else hint)
      in find_free_loop 512 (as_vmas s) (mm_mmap (as_mm s)) sz (PAGE_DOWN hint1))"

section \<open>Pages\<close>

definition prot_pte_flags :: "u32 \<Rightarrow> u64" where
  "prot_pte_flags prot =
     PTE_PRESENT OR PTE_USER OR (if prot AND 2 \<noteq> 0 then PTE_WRITE else 0)
     OR (if prot AND 4 = 0 then PTE_NX else 0)"

fun anon_loop :: "nat \<Rightarrow> u64 \<Rightarrow> u64 \<Rightarrow> vmm \<Rightarrow> int \<times> vmm" where
  "anon_loop 0 vaddr flags s = (0, s)"
| "anon_loop (Suc n) vaddr flags s =
     (case pmm_alloc_page (vm_pmm s) of
        (phys, pm) \<Rightarrow>
          if phys = 0 then (- ENOMEM, s\<lparr>vm_pmm := pm\<rparr>)
          else let s1 = s\<lparr>vm_pmm := pm, vm_mem := zero_page phys (vm_mem s)\<rparr>
               in anon_loop n (vaddr + 4096) flags (vmm_map_page vaddr phys flags s1))"

definition mmap_anon_pages :: "u64 \<Rightarrow> u64 \<Rightarrow> u32 \<Rightarrow> vmm \<Rightarrow> int \<times> vmm" where
  "mmap_anon_pages vaddr sz prot s = anon_loop (page_rounds sz) vaddr (prot_pte_flags prot) s"

fun unmap_loop :: "nat \<Rightarrow> u64 \<Rightarrow> vmm \<Rightarrow> vmm" where
  "unmap_loop 0 pg s = s"
| "unmap_loop (Suc n) pg s = unmap_loop n (pg + 4096) (vmm_unmap_page pg s)"

fun device_loop :: "nat \<Rightarrow> u64 \<Rightarrow> u64 \<Rightarrow> vmm \<Rightarrow> vmm" where
  "device_loop 0 vaddr phys s = s"
| "device_loop (Suc n) vaddr phys s =
     device_loop n (vaddr + 4096) (phys + 4096)
       (vmm_map_page vaddr phys (PTE_PRESENT OR PTE_USER OR PTE_WRITE OR PTE_NX) s)"

text \<open>\<open>rd\<close> is \<^verbatim>\<open>vfs_read\<close> of a page at a file offset into a frame.\<close>

fun file_loop ::
  "(u64 \<Rightarrow> u64 \<Rightarrow> (u64 \<Rightarrow> u64) \<Rightarrow> (u64 \<Rightarrow> u64)) \<Rightarrow> nat \<Rightarrow> u64 \<Rightarrow> u64 \<Rightarrow> u64 \<Rightarrow> vmm \<Rightarrow> int \<times> vmm" where
  "file_loop rd 0 vaddr foff flags s = (0, s)"
| "file_loop rd (Suc n) vaddr foff flags s =
     (case pmm_alloc_page (vm_pmm s) of
        (phys, pm) \<Rightarrow>
          if phys = 0 then (- ENOMEM, s\<lparr>vm_pmm := pm\<rparr>)
          else let s1 = s\<lparr>vm_pmm := pm, vm_mem := rd foff phys (zero_page phys (vm_mem s))\<rparr>
               in file_loop rd n (vaddr + 4096) (foff + 4096) flags (vmm_map_page vaddr phys flags s1))"

section \<open>brk\<close>

fun trim_heap :: "(nat \<rightharpoonup> vm_area) \<Rightarrow> u64 \<Rightarrow> nat list \<Rightarrow> (nat \<rightharpoonup> vm_area) option" where
  "trim_heap h lim [] = Some h"
| "trim_heap h lim (c # cs) =
     (case h c of None \<Rightarrow> None
      | Some v \<Rightarrow>
          if va_flags v AND VM_HEAP \<noteq> 0 \<and> lim < va_end v
          then Some (if lim \<le> va_start v then h(c := None) else h(c \<mapsto> v\<lparr>va_end := lim\<rparr>))
          else trim_heap h lim cs)"

definition brk_grow :: "vma_allocator \<Rightarrow> u64 \<Rightarrow> u64 \<Rightarrow> u64 \<Rightarrow> aspace \<Rightarrow> (u64 \<times> aspace) option" where
  "brk_grow valloc addr old_brk new_brk s =
     (let grow_start = PAGE_ALIGN old_brk; grow_size = new_brk - grow_start in
      case mmap_anon_pages grow_start grow_size 3 (as_vmm s) of
        (r, vm) \<Rightarrow>
          let s1 = s\<lparr>as_vmm := vm\<rparr> in
          if r < 0 then Some (mm_brk (as_mm s1), s1)
          else
            (case first_vma (as_vmas s1) (\<lambda>v. va_flags v AND VM_HEAP \<noteq> 0 \<and> va_end v = grow_start)
                    (mm_mmap (as_mm s1)) of
               None \<Rightarrow> None
             | Some (Some c) \<Rightarrow>
                 map_option (\<lambda>v. (addr, upd_mm (\<lambda>m. m\<lparr>mm_brk := addr\<rparr>)
                   (s1\<lparr>as_vmas := (as_vmas s1)(c \<mapsto> v\<lparr>va_end := new_brk\<rparr>)\<rparr>))) (as_vmas s1 c)
             | Some None \<Rightarrow>
                 (case vma_alloc valloc (vma_zero\<lparr>va_start := grow_start, va_end := new_brk,
                          va_flags := VM_READ OR VM_WRITE OR VM_HEAP, va_vm_flags := VM_HEAP\<rparr>) s1 of
                    (None, s2) \<Rightarrow> Some (addr, upd_mm (\<lambda>m. m\<lparr>mm_brk := addr\<rparr>) s2)
                  | (Some a, s2) \<Rightarrow>
                      map_option (\<lambda>s3. (addr, upd_mm (\<lambda>m. m\<lparr>mm_brk := addr,
                          mm_total_vm := mm_total_vm m + grow_size div 4096\<rparr>) s3)) (insert_vma a s2))))"

definition brk_shrink :: "u64 \<Rightarrow> u64 \<Rightarrow> aspace \<Rightarrow> (u64 \<times> aspace) option" where
  "brk_shrink addr old_brk s =
     (let shrink_start = PAGE_ALIGN addr;
          vm = unmap_loop (if shrink_start < old_brk then page_rounds (old_brk - shrink_start) else 0)
                 shrink_start (as_vmm s) in
      map_option (\<lambda>h. (addr, upd_mm (\<lambda>m. m\<lparr>mm_brk := addr\<rparr>) (s\<lparr>as_vmm := vm, as_vmas := h\<rparr>)))
        (trim_heap (as_vmas s) shrink_start (mm_mmap (as_mm s))))"

definition sys_brk :: "vma_allocator \<Rightarrow> u64 \<Rightarrow> aspace \<Rightarrow> (u64 \<times> aspace) option" where
  "sys_brk valloc addr s =
     (let mm = as_mm s in
      if addr = 0 then Some (mm_brk mm, s)
      else if addr < mm_start_brk mm then Some (mm_brk mm, s)
      else if mm_start_stack mm - 131072 < addr then Some (mm_brk mm, s)
      else
        let old_brk = mm_brk mm; new_brk = PAGE_ALIGN addr in
        if new_brk = old_brk then Some (addr, upd_mm (\<lambda>m. m\<lparr>mm_brk := addr\<rparr>) s)
        else if old_brk < new_brk then brk_grow valloc addr old_brk new_brk s
        else brk_shrink addr old_brk s)"

section \<open>mmap, munmap, mprotect\<close>

datatype backing = Anonymous | NoFile | Device u64 | RegularFile

definition mmap_flags :: "u32 \<Rightarrow> u32 \<Rightarrow> u32" where
  "mmap_flags prot flags =
     (if prot AND 1 \<noteq> 0 then VM_READ else 0) OR (if prot AND 2 \<noteq> 0 then VM_WRITE else 0)
     OR (if prot AND 4 \<noteq> 0 then VM_EXEC else 0) OR (if flags AND 1 \<noteq> 0 then VM_SHARED else 0)
     OR (if flags AND 0x100 \<noteq> 0 then VM_GROWSDOWN else 0)"

text \<open>The pages of a mapping, by what backs it: \<^verbatim>\<open>MAP_ANONYMOUS\<close>, a descriptor that is not open, a
  device that answers a physical address, or a file.\<close>

definition map_backing ::
  "(u64 \<Rightarrow> u64 \<Rightarrow> (u64 \<Rightarrow> u64) \<Rightarrow> (u64 \<Rightarrow> u64)) \<Rightarrow> backing \<Rightarrow> u64 \<Rightarrow> u64 \<Rightarrow> u32 \<Rightarrow> u64 \<Rightarrow> vmm \<Rightarrow> int \<times> vmm" where
  "map_backing rd b vaddr len prot offset vm =
     (case b of
        Anonymous \<Rightarrow> mmap_anon_pages vaddr len prot vm
      | NoFile \<Rightarrow> (- EBADF, vm)
      | Device phys \<Rightarrow> (0, device_loop (page_rounds len) vaddr (phys + offset) vm)
      | RegularFile \<Rightarrow> file_loop rd (page_rounds len) vaddr offset (prot_pte_flags prot) vm)"

definition sys_mmap ::
  "vma_allocator \<Rightarrow> (u64 \<Rightarrow> u64 \<Rightarrow> (u64 \<Rightarrow> u64) \<Rightarrow> (u64 \<Rightarrow> u64)) \<Rightarrow> backing \<Rightarrow> u64 \<Rightarrow> u64 \<Rightarrow> u32 \<Rightarrow> u32 \<Rightarrow> u64
     \<Rightarrow> aspace \<Rightarrow> (int \<times> aspace) option" where
  "sys_mmap valloc rd b addr_hint len0 prot flags offset s =
     (if len0 = 0 then Some (- EINVAL, s)
      else if offset AND 4095 \<noteq> 0 then Some (- EINVAL, s)
      else
        let len = PAGE_ALIGN len0 in
        if flags AND 0x10 \<noteq> 0 \<and> addr_hint AND 4095 \<noteq> 0 then Some (- EINVAL, s)
        else
          (case (if flags AND 0x10 \<noteq> 0 then Some addr_hint else find_free_vma addr_hint len s) of
             None \<Rightarrow> None
           | Some vaddr \<Rightarrow>
               if flags AND 0x10 = 0 \<and> vaddr = 0 then Some (- ENOMEM, s)
               else
                 let vma_flags = mmap_flags prot flags OR (if b = Anonymous then 0 else VM_FILE) in
                 (case map_backing rd b vaddr len prot offset (as_vmm s) of
                    (r, vm) \<Rightarrow>
                      let s1 = s\<lparr>as_vmm := vm\<rparr> in
                      if r < 0 then Some (r, s1)
                      else
                        (case vma_alloc valloc (vma_zero\<lparr>va_start := vaddr, va_end := vaddr + len,
                                va_flags := vma_flags, va_vm_flags := vma_flags,
                                va_pgoff := drop_bit 12 offset\<rparr>) s1 of
                           (None, s2) \<Rightarrow> Some (sint vaddr, s2)
                         | (Some a, s2) \<Rightarrow>
                             map_option (\<lambda>s3. (sint vaddr, upd_mm (\<lambda>m. m\<lparr>mm_total_vm :=
                                 mm_total_vm m + len div 4096\<rparr>) s3)) (insert_vma a s2)))))"

text \<open>One area of the loop of \<^verbatim>\<open>sys_munmap\<close>.\<close>

definition munmap_step :: "vma_allocator \<Rightarrow> u64 \<Rightarrow> u64 \<Rightarrow> u64 \<Rightarrow> nat \<Rightarrow> aspace \<Rightarrow> aspace option" where
  "munmap_step valloc start end len c s =
     (case as_vmas s c of None \<Rightarrow> None
      | Some v \<Rightarrow>
          if va_end v \<le> start \<or> end \<le> va_start v then Some s
          else if start \<le> va_start v \<and> va_end v \<le> end
          then Some (vma_free c (upd_mm (\<lambda>m. m\<lparr>mm_total_vm := mm_total_vm m - (va_end v - va_start v) div 4096\<rparr>) s))
          else if va_start v < start \<and> end < va_end v
          then
            (case vma_alloc valloc (vma_zero\<lparr>va_start := end, va_end := va_end v,
                    va_flags := va_flags v, va_vm_flags := va_vm_flags v\<rparr>) s of
               (t, s1) \<Rightarrow>
                 map_option (\<lambda>s2. upd_mm (\<lambda>m. m\<lparr>mm_total_vm := mm_total_vm m - len div 4096\<rparr>)
                     (s2\<lparr>as_vmas := (as_vmas s2)(c \<mapsto> v\<lparr>va_end := start\<rparr>)\<rparr>))
                   (case t of None \<Rightarrow> Some s1 | Some a \<Rightarrow> insert_vma a s1))
          else if va_start v < start
          then Some (upd_mm (\<lambda>m. m\<lparr>mm_total_vm := mm_total_vm m - (va_end v - start) div 4096\<rparr>)
                 (s\<lparr>as_vmas := (as_vmas s)(c \<mapsto> v\<lparr>va_end := start\<rparr>)\<rparr>))
          else Some (upd_mm (\<lambda>m. m\<lparr>mm_total_vm := mm_total_vm m - (end - va_start v) div 4096\<rparr>)
                 (s\<lparr>as_vmas := (as_vmas s)(c \<mapsto> v\<lparr>va_start := end\<rparr>)\<rparr>)))"

fun munmap_loop :: "vma_allocator \<Rightarrow> u64 \<Rightarrow> u64 \<Rightarrow> u64 \<Rightarrow> nat list \<Rightarrow> aspace \<Rightarrow> aspace option" where
  "munmap_loop valloc start end len [] s = Some s"
| "munmap_loop valloc start end len (c # cs) s =
     (case munmap_step valloc start end len c s of
        None \<Rightarrow> None | Some s1 \<Rightarrow> munmap_loop valloc start end len cs s1)"

definition sys_munmap :: "vma_allocator \<Rightarrow> u64 \<Rightarrow> u64 \<Rightarrow> aspace \<Rightarrow> (int \<times> aspace) option" where
  "sys_munmap valloc addr len0 s =
     (if addr AND 4095 \<noteq> 0 then Some (- EINVAL, s)
      else if len0 = 0 then Some (- EINVAL, s)
      else
        let len = PAGE_ALIGN len0; end = addr + len;
            s1 = s\<lparr>as_vmm := unmap_loop (if addr < end then page_rounds (end - addr) else 0) addr (as_vmm s)\<rparr>
        in map_option (\<lambda>s2. (0, s2)) (munmap_loop valloc addr end len (mm_mmap (as_mm s1)) s1))"

fun protect_loop :: "nat \<Rightarrow> u64 \<Rightarrow> u64 \<Rightarrow> vmm \<Rightarrow> vmm" where
  "protect_loop 0 pg flags s = s"
| "protect_loop (Suc n) pg flags s =
     protect_loop n (pg + 4096) flags
       (let phys = vmm_user_virt_to_phys pg s in if phys \<noteq> 0 then vmm_map_page pg phys flags s else s)"

fun protect_vmas :: "u64 \<Rightarrow> u64 \<Rightarrow> u32 \<Rightarrow> nat list \<Rightarrow> (nat \<rightharpoonup> vm_area) \<Rightarrow> (nat \<rightharpoonup> vm_area) option" where
  "protect_vmas start end f [] h = Some h"
| "protect_vmas start end f (c # cs) h =
     (case h c of None \<Rightarrow> None
      | Some v \<Rightarrow>
          protect_vmas start end f cs
            (if va_end v \<le> start \<or> end \<le> va_start v then h
             else h(c \<mapsto> v\<lparr>va_flags := (va_flags v AND NOT (VM_READ OR VM_WRITE OR VM_EXEC)) OR f\<rparr>)))"

definition sys_mprotect :: "u64 \<Rightarrow> u64 \<Rightarrow> u32 \<Rightarrow> aspace \<Rightarrow> (int \<times> aspace) option" where
  "sys_mprotect addr len0 prot s =
     (if addr AND 4095 \<noteq> 0 then Some (- EINVAL, s)
      else if len0 = 0 then Some (0, s)
      else
        let len = PAGE_ALIGN len0; end = addr + len;
            vm = protect_loop (if addr < end then page_rounds (end - addr) else 0) addr
                   (prot_pte_flags prot) (as_vmm s) in
        map_option (\<lambda>h. (0, s\<lparr>as_vmm := vm, as_vmas := h\<rparr>))
          (protect_vmas addr end (mmap_flags prot 0) (mm_mmap (as_mm s)) (as_vmas s)))"

section \<open>Page faults\<close>

definition pte_flags_for_vma :: "vm_area \<Rightarrow> u64" where
  "pte_flags_for_vma v = PTE_PRESENT OR PTE_USER OR (if va_vm_flags v AND VM_WRITE \<noteq> 0 then PTE_WRITE else 0)"

definition alloc_zero_page :: "vmm \<Rightarrow> u64 \<times> vmm" where
  "alloc_zero_page s =
     (case pmm_alloc_page (vm_pmm s) of
        (phys, pm) \<Rightarrow>
          if phys = 0 then (0, s\<lparr>vm_pmm := pm\<rparr>)
          else (phys, s\<lparr>vm_pmm := pm, vm_mem := zero_page phys (vm_mem s)\<rparr>))"

definition copy_page :: "u64 \<Rightarrow> u64 \<Rightarrow> (u64 \<Rightarrow> u64) \<Rightarrow> (u64 \<Rightarrow> u64)" where
  "copy_page dst src m = fold (\<lambda>i m'. m'(ent dst i := m (ent src i))) [0..<512] m"

definition handle_cow :: "nat \<Rightarrow> vm_area \<Rightarrow> u64 \<Rightarrow> aspace \<Rightarrow> int \<times> aspace" where
  "handle_cow c v fault_addr s =
     (let page_addr = PAGE_DOWN fault_addr; old_phys = vmm_get_phys page_addr (as_vmm s) in
      if old_phys = 0 then (- 1, s)
      else
        (case alloc_zero_page (as_vmm s) of
           (new_phys, vm) \<Rightarrow>
             if new_phys = 0 then (- 1, s\<lparr>as_vmm := vm\<rparr>)
             else
               let vm1 = vm\<lparr>vm_mem := copy_page new_phys old_phys (vm_mem vm)\<rparr>;
                   vm2 = vmm_map_page page_addr new_phys (pte_flags_for_vma v) vm1
               in (0, s\<lparr>as_vmm := vm2,
                        as_vmas := (as_vmas s)(c \<mapsto> v\<lparr>va_vm_flags := va_vm_flags v AND NOT VM_COW\<rparr>)\<rparr>)))"

definition handle_anon_fault :: "vm_area \<Rightarrow> u64 \<Rightarrow> aspace \<Rightarrow> int \<times> aspace" where
  "handle_anon_fault v fault_addr s =
     (case alloc_zero_page (as_vmm s) of
        (phys, vm) \<Rightarrow>
          if phys = 0 then (- 1, s\<lparr>as_vmm := vm\<rparr>)
          else (0, s\<lparr>as_vmm := vmm_map_page (PAGE_DOWN fault_addr) phys (pte_flags_for_vma v) vm\<rparr>))"

definition grows_to :: "u64 \<Rightarrow> vm_area \<Rightarrow> bool" where
  "grows_to fault_addr v \<longleftrightarrow> va_vm_flags v AND (VM_GROWSDOWN OR VM_STACK) \<noteq> 0 \<and>
     fault_addr < va_start v \<and> va_start v - 131072 \<le> fault_addr"

definition handle_stack_growth :: "u64 \<Rightarrow> aspace \<Rightarrow> (int \<times> aspace) option" where
  "handle_stack_growth fault_addr s =
     (case first_vma (as_vmas s) (grows_to fault_addr) (mm_mmap (as_mm s)) of
        None \<Rightarrow> None
      | Some None \<Rightarrow> Some (- 1, s)
      | Some (Some c) \<Rightarrow>
          (case as_vmas s c of None \<Rightarrow> None
           | Some v \<Rightarrow>
               let new_start = PAGE_DOWN fault_addr; v1 = v\<lparr>va_start := new_start\<rparr>;
                   s1 = s\<lparr>as_vmas := (as_vmas s)(c \<mapsto> v1)\<rparr> in
               (case alloc_zero_page (as_vmm s1) of
                  (phys, vm) \<Rightarrow>
                    if phys = 0 then Some (- 1, s1\<lparr>as_vmm := vm\<rparr>)
                    else Some (0, s1\<lparr>as_vmm := vmm_map_page new_start phys (pte_flags_for_vma v1) vm\<rparr>))))"

definition do_page_fault :: "u64 \<Rightarrow> bool \<Rightarrow> bool \<Rightarrow> bool \<Rightarrow> aspace \<Rightarrow> (int \<times> aspace) option" where
  "do_page_fault fault_addr present write user s =
     (if \<not> user then Some (- 1, s)
      else if fault_addr < 0x1000 then Some (- 1, s)
      else
        (case find_vma fault_addr s of
           None \<Rightarrow> None
         | Some None \<Rightarrow> handle_stack_growth fault_addr s
         | Some (Some c) \<Rightarrow>
             (case as_vmas s c of None \<Rightarrow> None
              | Some v \<Rightarrow>
                  if fault_addr < va_start v \<or> va_end v \<le> fault_addr then handle_stack_growth fault_addr s
                  else if present \<and> write
                  then Some (if va_vm_flags v AND VM_WRITE \<noteq> 0 then handle_cow c v fault_addr s else (- 1, s))
                  else if present then Some (- 1, s)
                  else if va_vm_flags v AND VM_READ = 0 \<and> va_vm_flags v AND VM_EXEC = 0 then Some (- 1, s)
                  else Some (handle_anon_fault v fault_addr s))))"

section \<open>Memory descriptors\<close>

definition mm_zero :: mm_struct where
  "mm_zero = \<lparr>mm_mmap = [], mm_pgd = 0, mm_start_code = 0, mm_end_code = 0, mm_start_data = 0,
     mm_end_data = 0, mm_start_brk = 0, mm_brk = 0, mm_start_stack = 0, mm_total_vm = 0,
     mm_users = 0, mm_count = 0\<rparr>"

text \<open>\<open>mem_ok\<close> is the answer of \<^verbatim>\<open>kmalloc\<close> for the descriptor. The kernel half of the root table is
  copied.\<close>

definition mm_alloc :: "bool \<Rightarrow> vmm \<Rightarrow> mm_struct option \<times> vmm" where
  "mm_alloc mem_ok vm =
     (if \<not> mem_ok then (None, vm)
      else (case pmm_alloc_page (vm_pmm vm) of
              (pgd, pm) \<Rightarrow>
                if pgd = 0 then (None, vm\<lparr>vm_pmm := pm\<rparr>)
                else (Some (mm_zero\<lparr>mm_users := 1, mm_count := 1, mm_pgd := pgd\<rparr>),
                      vm\<lparr>vm_pmm := pm,
                         vm_mem := fold (\<lambda>i m. m(ent pgd i := m (ent (vm_kernel_pml4 vm) i))) [256..<512]
                                     (zero_page pgd (vm_mem vm))\<rparr>)))"

fun free_vmas :: "nat list \<Rightarrow> (nat \<rightharpoonup> vm_area) \<Rightarrow> (nat \<rightharpoonup> vm_area) option" where
  "free_vmas [] h = Some h"
| "free_vmas (c # cs) h = (if h c = None then None else free_vmas cs (h(c := None)))"

text \<open>The descriptor is gone when the first result is \<open>None\<close>.\<close>

definition mm_free ::
  "mm_struct \<Rightarrow> (nat \<rightharpoonup> vm_area) \<Rightarrow> vmm \<Rightarrow> (mm_struct option \<times> (nat \<rightharpoonup> vm_area) \<times> vmm) option" where
  "mm_free mm h vm =
     (if mm_count mm - 1 = 0
      then map_option (\<lambda>h'. (None, h', if mm_pgd mm \<noteq> 0 then vm\<lparr>vm_pmm := pmm_free_page (mm_pgd mm) (vm_pmm vm)\<rparr>
                                         else vm)) (free_vmas (mm_mmap mm) h)
      else Some (Some (mm\<lparr>mm_count := mm_count mm - 1\<rparr>), h, vm))"

text \<open>The copies made so far, in list order, and whether every block was allocated.\<close>

fun copy_vmas ::
  "vma_allocator \<Rightarrow> nat list \<Rightarrow> (nat \<rightharpoonup> vm_area) \<Rightarrow> nat list \<Rightarrow> (bool \<times> nat list \<times> (nat \<rightharpoonup> vm_area)) option" where
  "copy_vmas valloc [] h acc = Some (True, acc, h)"
| "copy_vmas valloc (c # cs) h acc =
     (case h c of None \<Rightarrow> None
      | Some v \<Rightarrow>
          (case valloc h of None \<Rightarrow> Some (False, acc, h)
           | Some a \<Rightarrow> copy_vmas valloc cs (h(a \<mapsto> v)) (acc @ [a])))"

fun copy_range :: "nat \<Rightarrow> u64 \<Rightarrow> u64 \<Rightarrow> u64 \<Rightarrow> vmm \<Rightarrow> vmm" where
  "copy_range 0 old_pgd new_pgd pg vm = vm"
| "copy_range (Suc n) old_pgd new_pgd pg vm =
     copy_range n old_pgd new_pgd (pg + 4096)
       (let src_pte = vmm_pte_for_virt_in (vm_mem vm) old_pgd pg in
        if src_pte AND 1 = 0 then vm
        else (case pmm_alloc_page (vm_pmm vm) of
                (dst, pm) \<Rightarrow>
                  if dst = 0 then vm\<lparr>vm_pmm := pm\<rparr>
                  else vmm_map_page_in_pgd new_pgd pg dst (src_pte AND 0xFFF0000000000FFF)
                         (vm\<lparr>vm_pmm := pm,
                             vm_mem := copy_page dst (src_pte AND 0x000FFFFFFFFFF000) (vm_mem vm)\<rparr>)))"

fun copy_pages :: "(nat \<rightharpoonup> vm_area) \<Rightarrow> nat list \<Rightarrow> u64 \<Rightarrow> u64 \<Rightarrow> vmm \<Rightarrow> vmm option" where
  "copy_pages h [] old_pgd new_pgd vm = Some vm"
| "copy_pages h (c # cs) old_pgd new_pgd vm =
     (case h c of None \<Rightarrow> None
      | Some v \<Rightarrow>
          copy_pages h cs old_pgd new_pgd
            (copy_range (if va_start v < va_end v then page_rounds (va_end v - va_start v) else 0)
               old_pgd new_pgd (va_start v) vm))"

definition mm_copy ::
  "bool \<Rightarrow> vma_allocator \<Rightarrow> mm_struct \<Rightarrow> (nat \<rightharpoonup> vm_area) \<Rightarrow> vmm
     \<Rightarrow> (mm_struct option \<times> (nat \<rightharpoonup> vm_area) \<times> vmm) option" where
  "mm_copy mem_ok valloc old h vm =
     (case mm_alloc mem_ok vm of
        (None, vm1) \<Rightarrow> Some (None, h, vm1)
      | (Some new, vm1) \<Rightarrow>
          let new1 = new\<lparr>mm_start_code := mm_start_code old, mm_end_code := mm_end_code old,
                mm_start_data := mm_start_data old, mm_end_data := mm_end_data old,
                mm_start_brk := mm_start_brk old, mm_brk := mm_brk old, mm_start_stack := mm_start_stack old\<rparr> in
          (case copy_vmas valloc (mm_mmap old) h [] of
             None \<Rightarrow> None
           | Some (ok, l, h1) \<Rightarrow>
               let new2 = new1\<lparr>mm_mmap := l\<rparr> in
               if \<not> ok then mm_free new2 h1 vm1
               else map_option (\<lambda>vm2. (Some new2, h1, vm2))
                      (copy_pages h1 (mm_mmap old) (mm_pgd old) (mm_pgd new2) vm1)))"

section \<open>Lookups\<close>

definition mm_alive :: "aspace \<Rightarrow> bool" where
  "mm_alive s \<longleftrightarrow> (\<forall>c\<in>set (mm_mmap (as_mm s)). as_vmas s c \<noteq> None)"

definition contains :: "(nat \<rightharpoonup> vm_area) \<Rightarrow> u64 \<Rightarrow> nat \<Rightarrow> bool" where
  "contains h addr c \<longleftrightarrow> (\<exists>v. h c = Some v \<and> va_start v \<le> addr \<and> addr < va_end v)"

definition starts_above :: "(nat \<rightharpoonup> vm_area) \<Rightarrow> u64 \<Rightarrow> nat \<Rightarrow> bool" where
  "starts_above h addr c \<longleftrightarrow> (\<exists>v. h c = Some v \<and> addr < va_start v)"

definition vstart :: "(nat \<rightharpoonup> vm_area) \<Rightarrow> nat \<Rightarrow> u64" where
  "vstart h c = (case h c of None \<Rightarrow> 0 | Some v \<Rightarrow> va_start v)"

definition is_best :: "(nat \<rightharpoonup> vm_area) \<Rightarrow> u64 \<Rightarrow> nat set \<Rightarrow> nat option \<Rightarrow> bool" where
  "is_best h addr C r \<longleftrightarrow>
     (case r of
        None \<Rightarrow> \<forall>d\<in>C. \<not> starts_above h addr d
      | Some c \<Rightarrow> c \<in> C \<and> starts_above h addr c \<and>
          (\<forall>d\<in>C. starts_above h addr d \<longrightarrow> vstart h c \<le> vstart h d))"

lemma is_best_step:
  assumes "is_best h addr C best" "h c = Some v"
  shows "addr < va_start v \<Longrightarrow> best = None \<Longrightarrow> is_best h addr (insert c C) (Some c)"
    "addr < va_start v \<Longrightarrow> best = Some b \<Longrightarrow> h b = Some w \<Longrightarrow>
      is_best h addr (insert c C) (if va_start v < va_start w then Some c else best)"
    "\<not> addr < va_start v \<Longrightarrow> is_best h addr (insert c C) best"
  using assms by (auto simp: is_best_def starts_above_def vstart_def split: option.splits)

lemma find_vma_loop_spec:
  assumes "\<forall>c\<in>set l. h c \<noteq> None" "is_best h addr C best" "\<forall>c\<in>C. \<not> contains h addr c"
  shows "\<exists>r. find_vma_loop h addr best l = Some r \<and>
    ((\<exists>c\<in>set l. r = Some c \<and> contains h addr c) \<or>
     (\<forall>c\<in>C \<union> set l. \<not> contains h addr c) \<and> is_best h addr (C \<union> set l) r)"
  using assms
proof (induction l arbitrary: C best)
  case (Cons c l)
  then obtain v where v: "h c = Some v" by auto
  show ?case
  proof (cases "contains h addr c")
    case True
    then show ?thesis using v by (auto simp: contains_def)
  next
    case False
    then have nc: "\<not> (va_start v \<le> addr \<and> addr < va_end v)" using v by (auto simp: contains_def)
    obtain best' where b: "find_vma_loop h addr best (c # l) = find_vma_loop h addr best' l"
      "is_best h addr (insert c C) best'"
    proof (cases "addr < va_start v")
      case True
      show thesis
      proof (cases best)
        case None
        show thesis
          by (rule that [of "Some c"]) (use v nc True None is_best_step(1) [OF Cons.prems(2) v] in auto)
      next
        case (Some b)
        then obtain w where w: "h b = Some w"
          using Cons.prems(2) by (auto simp: is_best_def starts_above_def)
        show thesis
          by (rule that [of "if va_start v < va_start w then Some c else best"])
            (use v nc True Some w is_best_step(2) [OF Cons.prems(2) v True Some w] in auto)
      qed
    next
      case False
      then show thesis
        by (intro that [of best]) (use v nc is_best_step(3) [OF Cons.prems(2) v] in auto)
    qed
    have "\<exists>r. find_vma_loop h addr best' l = Some r \<and>
      ((\<exists>c\<in>set l. r = Some c \<and> contains h addr c) \<or>
       (\<forall>d\<in>insert c C \<union> set l. \<not> contains h addr d) \<and> is_best h addr (insert c C \<union> set l) r)"
      using Cons.prems False by (intro Cons.IH b(2)) auto
    then show ?thesis unfolding b(1) by auto
  qed
qed auto

section \<open>Properties\<close>

text \<open>\<^emph>\<open>Area lookup.\<close> When every listed area is allocated, \<^verbatim>\<open>find_vma\<close> answers an area that
  contains the address if there is one; otherwise the area with the smallest start above the
  address, and nothing exactly when no area starts above it.\<close>

theorem find_vma_correct:
  assumes "mm_alive s" "l = set (mm_mmap (as_mm s))" "h = as_vmas s"
  shows "\<exists>r. find_vma addr s = Some r \<and>
    (if \<exists>c\<in>l. contains h addr c
     then (\<exists>c\<in>l. r = Some c \<and> contains h addr c)
     else (case r of
             None \<Rightarrow> \<forall>d\<in>l. \<not> starts_above h addr d
           | Some c \<Rightarrow> c \<in> l \<and> starts_above h addr c \<and>
               (\<forall>d\<in>l. starts_above h addr d \<longrightarrow> vstart h c \<le> vstart h d)))"
  using find_vma_loop_spec [of "mm_mmap (as_mm s)" h addr "{}" None] assms
  by (auto simp: find_vma_def mm_alive_def is_best_def)

definition demo_as :: aspace where
  "demo_as = \<lparr>as_mm = mm_zero\<lparr>mm_mmap := [1, 2], mm_pgd := 0x100000\<rparr>,
     as_vmas = [1 \<mapsto> vma_zero\<lparr>va_start := 0x400000, va_end := 0x402000, va_vm_flags := 3\<rparr>,
                2 \<mapsto> vma_zero\<lparr>va_start := 0x600000, va_end := 0x601000, va_vm_flags := 3\<rparr>],
     as_vmm = demo_vmm\<rparr>"

theorem find_vma_correct_witness: "find_vma 0x500000 demo_as = Some (Some 2)"
proof -
  have a: "mm_alive demo_as" by (simp add: mm_alive_def demo_as_def)
  show ?thesis
    using find_vma_correct [OF a refl refl, of "0x500000"]
    by (auto simp: demo_as_def contains_def starts_above_def vma_zero_def split: if_splits option.splits)
qed

lemma find_free_dead: "0 < n \<Longrightarrow> h c = None \<Longrightarrow> find_free_loop n h [c] sz hint = None"
  by (cases n) auto

text \<open>\<^emph>\<open>Unmapped areas stay linked.\<close> When \<^verbatim>\<open>munmap\<close> covers a whole area that is the only one, the
  call frees the area but leaves it in the list: the next search for a free range, and with it
  the next \<^verbatim>\<open>mmap\<close> without a fixed address, reads freed memory.\<close>

theorem munmap_leaves_freed_area:
  assumes "mm_mmap (as_mm s) = [c]" "as_vmas s c = Some v" "va_start v AND 4095 = 0"
    "va_start v < va_end v" "PAGE_ALIGN (va_end v - va_start v) = va_end v - va_start v"
    "sys_munmap valloc (va_start v) (va_end v - va_start v) s = Some (r, s')"
  shows "r = 0 \<and> mm_mmap (as_mm s') = [c] \<and> as_vmas s' c = None \<and> find_free_vma hint sz s' = None"
proof -
  have nz: "va_end v - va_start v \<noteq> 0" using assms(4) by auto
  have e: "va_start v + (va_end v - va_start v) = va_end v" by simp
  let ?s1 = "s\<lparr>as_vmm := unmap_loop (if va_start v < va_end v then page_rounds (va_end v - va_start v) else 0)
               (va_start v) (as_vmm s)\<rparr>"
  have "\<not> va_end v \<le> va_start v" using assms(4) by simp
  then have step: "munmap_step valloc (va_start v) (va_end v) (va_end v - va_start v) c ?s1 =
      Some (vma_free c (upd_mm (\<lambda>m. m\<lparr>mm_total_vm := mm_total_vm m - (va_end v - va_start v) div 4096\<rparr>) ?s1))"
    using assms(2) by (simp add: munmap_step_def)
  have "Some (r, s') = map_option (\<lambda>s2. (0, s2)) (munmap_loop valloc (va_start v) (va_end v)
      (va_end v - va_start v) [c] ?s1)"
    using assms(1,3,6) nz unfolding sys_munmap_def Let_def assms(5) e by simp
  then have "r = 0" "mm_mmap (as_mm s') = [c]" "as_vmas s' c = None"
    using assms(1) unfolding munmap_loop.simps step by (auto simp: vma_free_def upd_mm_def)
  then show ?thesis by (simp add: find_free_vma_def Let_def find_free_dead)
qed

definition demo_as1 :: aspace where
  "demo_as1 = upd_mm (\<lambda>m. m\<lparr>mm_mmap := [1]\<rparr>) demo_as"

theorem munmap_leaves_freed_area_witness:
  "\<exists>s'. sys_munmap (\<lambda>_. None) 0x400000 0x2000 demo_as1 = Some (0, s') \<and> find_free_vma 0 4096 s' = None"
proof -
  let ?v = "vma_zero\<lparr>va_start := 0x400000, va_end := 0x402000, va_vm_flags := 3\<rparr>"
  have d: "mm_mmap (as_mm demo_as1) = [1]" "as_vmas demo_as1 1 = Some ?v"
    by (simp_all add: demo_as1_def demo_as_def upd_mm_def)
  have al: "va_start ?v AND 4095 = 0" "va_start ?v < va_end ?v" "va_end ?v - va_start ?v = 0x2000"
    "PAGE_ALIGN 0x2000 = 0x2000"
    by (simp_all add: PAGE_ALIGN_def)
  obtain r s' where e: "sys_munmap (\<lambda>_. None) 0x400000 0x2000 demo_as1 = Some (r, s')"
    using d by (simp add: sys_munmap_def Let_def al(4) munmap_step_def)
  show ?thesis
    using munmap_leaves_freed_area [OF d al(1,2), of "\<lambda>_. None" r s' 0 4096] e al(3,4) by auto
qed

section \<open>Demand paging\<close>

lemma page_down_props:
  assumes "0x1000 \<le> a" "\<not> bit a 63"
  shows "PAGE_DOWN a \<noteq> 0" "\<not> bit (PAGE_DOWN a) 63" "PAGE_DOWN a AND 0xFFF = 0"
proof -
  have e: "PAGE_DOWN a = a AND NOT (mask 12)" by (simp only: PAGE_DOWN_def low12 [symmetric])
  show "\<not> bit (PAGE_DOWN a) 63" using assms(2) by (simp only: e bit_and_iff) simp
  show "PAGE_DOWN a AND 0xFFF = 0" unfolding e low12 by (rule bit_eqI) (auto simp: bit_simps)
  show "PAGE_DOWN a \<noteq> 0"
  proof
    assume "PAGE_DOWN a = 0"
    then have "a = take_bit 12 a"
      unfolding e by (intro bit_eqI) (auto simp: bit_eq_iff bit_simps)
    then have "a < 2 ^ 12" using and_mask_less' [of 12 a] by (simp add: take_bit_eq_mask)
    then show False using assms(1) by simp
  qed
qed

lemma frame_of_page:
  assumes "pmm_ok pm" "n < 65536"
  shows "page_addr pm n AND 0x000FFFFFFFFFF000 = page_addr pm n"
proof (rule bit_eqI)
  fix k
  have al: "aligned (page_addr pm n)" using page_addr_props(3) [OF assms] by (simp add: aligned_def)
  have "page_addr pm n AND mask 52 = page_addr pm n" by (rule less_mask_eq [OF page_addr_props(2) [OF assms]])
  then have "bit (page_addr pm n) k \<Longrightarrow> k < 52" by (metis bit_and_iff bit_mask_iff)
  then show "bit (page_addr pm n AND 0x000FFFFFFFFFF000) k \<longleftrightarrow> bit (page_addr pm n) k"
    using aligned_low [OF al] by (auto simp only: bit_and_iff bit_frame_mask not_less [symmetric])
qed

lemma map_page_frame:
  assumes "pt_inv s (vm_cr3 s AND NOT 0xFFF)" "\<not> bit virt 63" "foreign s (vm_cr3 s AND NOT 0xFFF) d" "j < 512"
  shows "vm_mem (vmm_map_page virt phys flags s) (ent d j) = vm_mem s (ent d j)"
proof -
  have "virt AND push_bit 63 1 = 0"
    using and_exp_eq_0_iff_not_bit [of virt 63] assms(2) by (simp add: push_bit_eq_mult)
  then show ?thesis using map_walk_frame [OF assms(1,3,4)] by (simp add: vmm_map_page_def)
qed

lemma alloc_zero_page_cases:
  assumes "pt_inv s pgd"
  obtains (none) "alloc_zero_page s = (0, s)" "\<And>n. \<not> page_free (vm_pmm s) n"
  | (page) n s1 where "alloc_zero_page s = (page_addr (vm_pmm s) n, s1)" "page_free (vm_pmm s) n"
      "page_addr (vm_pmm s) n \<noteq> 0" "n < 65536" "pt_inv s1 pgd" "foreign s1 pgd (page_addr (vm_pmm s) n)" "vm_cr3 s1 = vm_cr3 s"
      "\<And>j. j < 512 \<Longrightarrow> vm_mem s1 (ent (page_addr (vm_pmm s) n) j) = 0"
      "\<And>v. pte (vm_mem s1) pgd (vpath v) (vindex 12 v) = pte (vm_mem s) pgd (vpath v) (vindex 12 v)"
proof (cases rule: pmm_alloc_page_cases [of "vm_pmm s"])
  case full
  then show thesis using none by (simp add: alloc_zero_page_def)
next
  case (page n pm')
  have n: "n < 65536" using page(2) by (simp add: page_free_def)
  let ?s1 = "s\<lparr>vm_pmm := pm', vm_mem := zero_page (page_addr (vm_pmm s) n) (vm_mem s)\<rparr>"
  have nz: "page_addr (vm_pmm s) n \<noteq> 0" by (rule page_addr_props(1) [OF pt_invD(1) [OF assms] n])
  note C = alloc_clear_spec [OF assms page(2) refl page(3,4) refl]
  show thesis
  proof (rule that(2) [of n ?s1])
    show "alloc_zero_page s = (page_addr (vm_pmm s) n, ?s1)"
      using page(1) nz by (simp add: alloc_zero_page_def)
  qed (use page(2) nz n C vindex_less path_vpath(1,2) in auto)
qed



end
