(* ===== verification/Process.thy ===== *)
theory Process
  imports Pid Fdtable Signal Cred Mm
begin

text \<open>
  The life of a process: \<^verbatim>\<open>task_fork\<close>, \<^verbatim>\<open>task_exit\<close> and their helpers of \<^verbatim>\<open>kernel/process.c\<close>,
  \<^verbatim>\<open>do_exit\<close>, \<^verbatim>\<open>do_wait\<close> and \<^verbatim>\<open>reap_zombie\<close> of \<^verbatim>\<open>kernel/wait.c\<close>.

  Tasks and the blocks they point to (memory descriptors, descriptor tables, signal blocks, ...)
  live in maps from addresses; a block that was freed is absent, and using one is the outcome
  \<open>None\<close>. The children of a task are the addresses on its list, in order. The answers of
  the allocators during a fork are one argument, \<open>fork_mem\<close>. What \<^verbatim>\<open>schedule\<close> does next is not part
  of these functions.
\<close>

section \<open>State\<close>

text \<open>The registers saved at a system call, in the order of \<^verbatim>\<open>sc_frame_t\<close>.\<close>

record sc_frame =
  f_rax :: u64
  f_rbx :: u64
  f_rcx :: u64
  f_rdx :: u64
  f_rsi :: u64
  f_rdi :: u64
  f_rbp :: u64
  f_r8_r15 :: "u64 list"
  f_vector :: u64
  f_error_code :: u64
  f_rip :: u64
  f_cs :: u64
  f_rflags :: u64
  f_user_rsp :: u64
  f_ss :: u64

record fs_struct =
  fs_count :: int
  fs_umask :: u32
  fs_root :: "nat option"
  fs_pwd :: "nat option"

record signal_struct =
  sg_count :: int
  sg_pgrp :: int
  sg_session :: int

record ptask =
  p_state :: task_state
  p_on_rq :: bool
  p_time_slice :: u64
  p_pid :: int
  p_tgid :: int
  p_ppid :: int
  p_real_parent :: "nat option"
  p_parent :: "nat option"
  p_children :: "nat list"
  p_group_leader :: "nat option"
  p_mm :: "nat option"
  p_active_mm :: "nat option"
  p_files :: "nat option"
  p_fs :: "nat option"
  p_signal :: "nat option"
  p_sighand :: "nat option"
  p_pending :: sigset
  p_exit_state :: int
  p_exit_code :: int
  p_pdeath_signal :: int
  p_stop_signal :: int
  p_wait_reported :: bool
  p_utime :: u64
  p_stime :: u64
  p_tls :: u64
  p_set_child_tid :: u64
  p_clear_child_tid :: u64
  p_kernel_stack :: u64
  p_stack :: u64
  p_ctx_rip :: u64
  p_ctx_rsp :: u64
  p_ctx_rax :: u64
  p_trap_frame :: "sc_frame option"
  p_frame :: "sc_frame option"

record proc =
  pr_tasks :: "nat \<rightharpoonup> ptask"
  pr_table :: "nat option list"
  pr_pids :: pid_pool
  pr_pids2 :: pid_pool
  pr_mms :: "nat \<rightharpoonup> mm_struct"
  pr_vmas :: "nat \<rightharpoonup> vm_area"
  pr_vmm :: vmm
  pr_files :: "nat \<rightharpoonup> files_struct"
  pr_store :: file_store
  pr_fs :: "nat \<rightharpoonup> fs_struct"
  pr_signals :: "nat \<rightharpoonup> signal_struct"
  pr_sighands :: "nat \<rightharpoonup> sighand_struct"
  pr_creds :: cred_state
  pr_total :: u64

record fork_mem =
  fm_task :: "nat option"
  fm_stack :: "u64 option"
  fm_mm :: "nat option"
  fm_valloc :: vma_allocator
  fm_files :: "nat option"
  fm_fs :: "nat option"
  fm_sighand :: "nat option"
  fm_cred :: cred_allocator

abbreviation (input) EXIT_STOPPED :: int where "EXIT_STOPPED \<equiv> 4"
abbreviation (input) EXIT_CONTINUED :: int where "EXIT_CONTINUED \<equiv> 8"
abbreviation (input) EXIT_ZOMBIE :: int where "EXIT_ZOMBIE \<equiv> 16"
abbreviation (input) ECHILD :: int where "ECHILD \<equiv> 10"
abbreviation (input) CLONE_VM :: u64 where "CLONE_VM \<equiv> 0x100"
abbreviation (input) CLONE_FS :: u64 where "CLONE_FS \<equiv> 0x200"
abbreviation (input) CLONE_FILES :: u64 where "CLONE_FILES \<equiv> 0x400"
abbreviation (input) CLONE_SIGHAND :: u64 where "CLONE_SIGHAND \<equiv> 0x800"
abbreviation (input) CLONE_THREAD :: u64 where "CLONE_THREAD \<equiv> 0x10000"
abbreviation (input) CLONE_SETTLS :: u64 where "CLONE_SETTLS \<equiv> 0x80000"
abbreviation (input) CLONE_CHILD_CLEARTID :: u64 where "CLONE_CHILD_CLEARTID \<equiv> 0x200000"
abbreviation (input) CLONE_CHILD_SETTID :: u64 where "CLONE_CHILD_SETTID \<equiv> 0x1000000"

definition upd_ptask :: "nat \<Rightarrow> (ptask \<Rightarrow> ptask) \<Rightarrow> proc \<Rightarrow> proc" where
  "upd_ptask a f s = s\<lparr>pr_tasks := (pr_tasks s)(a := map_option f (pr_tasks s a))\<rparr>"

definition fs_alloc :: fs_struct where
  "fs_alloc = \<lparr>fs_count = 1, fs_umask = 18, fs_root = None, fs_pwd = None\<rparr>"

definition fs_copy :: "fs_struct \<Rightarrow> fs_struct" where
  "fs_copy old = fs_alloc\<lparr>fs_umask := fs_umask old, fs_root := fs_root old, fs_pwd := fs_pwd old\<rparr>"

definition fs_free :: "fs_struct \<Rightarrow> fs_struct option" where
  "fs_free fs = (if fs_count fs - 1 = 0 then None else Some (fs\<lparr>fs_count := fs_count fs - 1\<rparr>))"

section \<open>fork\<close>

text \<open>The frame on the child's kernel stack.\<close>

definition fork_frame :: "u64 \<Rightarrow> sc_frame option \<Rightarrow> sc_frame" where
  "fork_frame stack_start tf =
     (case tf of
        Some t \<Rightarrow> t\<lparr>f_rax := 0, f_rflags := f_rflags t OR 0x200,
                   f_user_rsp := (if stack_start \<noteq> 0 then stack_start else f_user_rsp t),
                   f_vector := 0x80, f_error_code := 0\<rparr>
      | None \<Rightarrow> \<lparr>f_rax = 0, f_rbx = 0, f_rcx = 0, f_rdx = 0, f_rsi = 0, f_rdi = 0, f_rbp = 0,
                 f_r8_r15 = replicate 8 0, f_vector = 0x80, f_error_code = 0, f_rip = 0, f_cs = 0x2B,
                 f_rflags = 0x202 OR 0x200, f_user_rsp = stack_start, f_ss = 0x33\<rparr>)"

text \<open>\<^verbatim>\<open>setup_kernel_stack\<close>: without memory the stack pointer keeps its value. The stack is 64 KiB.\<close>

definition setup_kernel_stack :: "u64 option \<Rightarrow> ptask \<Rightarrow> ptask" where
  "setup_kernel_stack k t =
     (case k of None \<Rightarrow> t\<lparr>p_kernel_stack := 0\<rparr>
      | Some b \<Rightarrow> t\<lparr>p_kernel_stack := b, p_stack := b + 65536\<rparr>)"

text \<open>The child up to the links with its parent; \<open>trampoline\<close> is the address of
  \<^verbatim>\<open>fork_return_to_user\<close> and the frame takes 176 bytes.\<close>

definition fork_child :: "u64 option \<Rightarrow> u64 \<Rightarrow> u64 \<Rightarrow> u64 \<Rightarrow> nat \<Rightarrow> nat \<Rightarrow> int \<Rightarrow> ptask \<Rightarrow> ptask" where
  "fork_child stk trampoline flags stack_start pa a pid P =
     (let C1 = P\<lparr>p_pid := pid, p_ppid := p_pid P\<rparr>;
          C2 = (if flags AND CLONE_THREAD \<noteq> 0
                then C1\<lparr>p_tgid := p_tgid P, p_group_leader := p_group_leader P\<rparr>
                else C1\<lparr>p_tgid := pid, p_group_leader := Some a\<rparr>);
          C3 = setup_kernel_stack stk C2
      in C3\<lparr>p_frame := Some (fork_frame stack_start (p_trap_frame P)),
            p_ctx_rsp := p_stack C3 - 176, p_ctx_rip := trampoline,
            p_real_parent := Some pa, p_parent := Some pa, p_children := []\<rparr>)"

definition fork_mm :: "fork_mem \<Rightarrow> u64 \<Rightarrow> ptask \<Rightarrow> nat \<Rightarrow> proc \<Rightarrow> (bool \<times> proc) option" where
  "fork_mm mem flags P a s =
     (if flags AND CLONE_VM \<noteq> 0
      then (case p_mm P of None \<Rightarrow> None
            | Some m \<Rightarrow>
                (case pr_mms s m of None \<Rightarrow> None
                 | Some mm \<Rightarrow>
                     Some (True, upd_ptask a (\<lambda>c. c\<lparr>p_mm := Some m, p_active_mm := Some m\<rparr>)
                       (s\<lparr>pr_mms := (pr_mms s)(m \<mapsto> mm\<lparr>mm_users := mm_users mm + 1\<rparr>)\<rparr>))))
      else (case p_mm P of
              None \<Rightarrow> Some (True, upd_ptask a (\<lambda>c. c\<lparr>p_active_mm := p_mm c\<rparr>) s)
            | Some m \<Rightarrow>
                (case pr_mms s m of None \<Rightarrow> None
                 | Some mm \<Rightarrow>
                     (case mm_copy (fm_mm mem \<noteq> None) (fm_valloc mem) mm (pr_vmas s) (pr_vmm s) of
                        None \<Rightarrow> None
                      | Some (r, h, vm) \<Rightarrow>
                          let s1 = s\<lparr>pr_vmas := h, pr_vmm := vm\<rparr> in
                          (case (r, fm_mm mem) of
                             (Some new, Some b) \<Rightarrow>
                               Some (True, upd_ptask a (\<lambda>c. c\<lparr>p_mm := Some b, p_active_mm := Some b\<rparr>)
                                 (s1\<lparr>pr_mms := (pr_mms s1)(b \<mapsto> new)\<rparr>))
                           | _ \<Rightarrow> Some (False, s1))))))"

definition fork_files :: "fork_mem \<Rightarrow> u64 \<Rightarrow> ptask \<Rightarrow> nat \<Rightarrow> proc \<Rightarrow> proc option" where
  "fork_files mem flags P a s =
     (case p_files P of None \<Rightarrow> None
      | Some f \<Rightarrow>
          (case pr_files s f of None \<Rightarrow> None
           | Some fl \<Rightarrow>
               if flags AND CLONE_FILES \<noteq> 0
               then Some (upd_ptask a (\<lambda>c. c\<lparr>p_files := Some f\<rparr>)
                      (s\<lparr>pr_files := (pr_files s)(f \<mapsto> fl\<lparr>files_count := files_count fl + 1\<rparr>)\<rparr>))
               else (case files_copy (fm_files mem \<noteq> None) fl (pr_store s) of
                       (new, st) \<Rightarrow>
                         let s1 = s\<lparr>pr_store := st\<rparr> in
                         (case (new, fm_files mem) of
                            (Some n, Some b) \<Rightarrow>
                              Some (upd_ptask a (\<lambda>c. c\<lparr>p_files := Some b\<rparr>)
                                (s1\<lparr>pr_files := (pr_files s1)(b \<mapsto> n)\<rparr>))
                          | _ \<Rightarrow> Some (upd_ptask a (\<lambda>c. c\<lparr>p_files := None\<rparr>) s1)))))"

definition fork_fs :: "fork_mem \<Rightarrow> u64 \<Rightarrow> ptask \<Rightarrow> nat \<Rightarrow> proc \<Rightarrow> proc option" where
  "fork_fs mem flags P a s =
     (case p_fs P of None \<Rightarrow> None
      | Some f \<Rightarrow>
          (case pr_fs s f of None \<Rightarrow> None
           | Some fs \<Rightarrow>
               if flags AND CLONE_FS \<noteq> 0
               then Some (upd_ptask a (\<lambda>c. c\<lparr>p_fs := Some f\<rparr>)
                      (s\<lparr>pr_fs := (pr_fs s)(f \<mapsto> fs\<lparr>fs_count := fs_count fs + 1\<rparr>)\<rparr>))
               else (case fm_fs mem of
                       None \<Rightarrow> Some (upd_ptask a (\<lambda>c. c\<lparr>p_fs := None\<rparr>) s)
                     | Some b \<Rightarrow> Some (upd_ptask a (\<lambda>c. c\<lparr>p_fs := Some b\<rparr>)
                                    (s\<lparr>pr_fs := (pr_fs s)(b \<mapsto> fs_copy fs)\<rparr>)))))"

definition fork_sighand :: "fork_mem \<Rightarrow> u64 \<Rightarrow> ptask \<Rightarrow> nat \<Rightarrow> proc \<Rightarrow> proc option" where
  "fork_sighand mem flags P a s =
     (if flags AND CLONE_SIGHAND \<noteq> 0
      then (case p_sighand P of
              None \<Rightarrow> Some (upd_ptask a (\<lambda>c. c\<lparr>p_sighand := None\<rparr>) s)
            | Some h \<Rightarrow>
                (case pr_sighands s h of None \<Rightarrow> None
                 | Some sh \<Rightarrow> Some (upd_ptask a (\<lambda>c. c\<lparr>p_sighand := Some h\<rparr>)
                     (s\<lparr>pr_sighands := (pr_sighands s)(h \<mapsto> sh\<lparr>sh_count := sh_count sh + 1\<rparr>)\<rparr>))))
      else (case fm_sighand mem of
              None \<Rightarrow> Some (upd_ptask a (\<lambda>c. c\<lparr>p_sighand := None\<rparr>) s)
            | Some b \<Rightarrow>
                (case (case p_sighand P of None \<Rightarrow> Some (replicate 64 sigaction_dfl)
                       | Some h \<Rightarrow> map_option sh_action (pr_sighands s h)) of
                   None \<Rightarrow> None
                 | Some acts \<Rightarrow> Some (upd_ptask a (\<lambda>c. c\<lparr>p_sighand := Some b\<rparr>)
                     (s\<lparr>pr_sighands := (pr_sighands s)(b \<mapsto> \<lparr>sh_count = 1, sh_action = acts\<rparr>)\<rparr>)))))"

definition fork_cred :: "fork_mem \<Rightarrow> nat \<Rightarrow> nat \<Rightarrow> proc \<Rightarrow> proc option" where
  "fork_cred mem pa a s =
     (case current_cred (Some pa) (pr_creds s) of None \<Rightarrow> None
      | Some c \<Rightarrow>
          (case cred_copy (fm_cred mem) c (pr_creds s) of
             (new, cs) \<Rightarrow> Some (s\<lparr>pr_creds := cs\<lparr>cs_cred := (cs_cred cs)(a := new)\<rparr>\<rparr>)))"

fun table_insert :: "nat \<Rightarrow> nat option list \<Rightarrow> nat option list" where
  "table_insert a [] = []"
| "table_insert a (e # es) = (case e of None \<Rightarrow> Some a # es | Some _ \<Rightarrow> e # table_insert a es)"

text \<open>From the thread-local storage to \<^verbatim>\<open>wake_up_process\<close>.\<close>

definition fork_finish :: "u64 \<Rightarrow> u64 \<Rightarrow> u64 \<Rightarrow> u64 \<Rightarrow> nat \<Rightarrow> nat \<Rightarrow> proc \<Rightarrow> proc" where
  "fork_finish flags stack_start ctid tls pa a s =
     (let pslice = (case pr_tasks s pa of None \<Rightarrow> 0 | Some P \<Rightarrow> p_time_slice P);
          cslice = (if pslice div 2 < 1 then 1 else pslice div 2);
          s1 = upd_ptask a (\<lambda>c. c\<lparr>
                 p_tls := (if flags AND CLONE_SETTLS \<noteq> 0 then tls else p_tls c),
                 p_ctx_rsp := (if stack_start \<noteq> 0 then stack_start else p_ctx_rsp c),
                 p_set_child_tid := (if flags AND CLONE_CHILD_SETTID \<noteq> 0 then ctid else p_set_child_tid c),
                 p_clear_child_tid := (if flags AND CLONE_CHILD_CLEARTID \<noteq> 0 then ctid else p_clear_child_tid c),
                 p_ctx_rax := 0, p_state := TASK_RUNNING, p_on_rq := False, p_time_slice := cslice\<rparr>) s;
          s2 = upd_ptask pa (\<lambda>p. p\<lparr>p_time_slice := p_time_slice p - cslice\<rparr>) s1;
          s3 = s2\<lparr>pr_table := table_insert a (pr_table s2)\<rparr>
      in upd_ptask a (\<lambda>c. c\<lparr>p_state := TASK_RUNNING, p_on_rq := True\<rparr>) s3)"

definition task_fork ::
  "fork_mem \<Rightarrow> nat \<Rightarrow> u64 \<Rightarrow> u64 \<Rightarrow> u64 \<Rightarrow> u64 \<Rightarrow> u64 \<Rightarrow> nat option \<Rightarrow> proc \<Rightarrow> ((int + nat) \<times> proc) option" where
  "task_fork mem fuel trampoline flags stack_start ctid tls cur s =
     (case cur of None \<Rightarrow> Some (Inl (- ESRCH), s)
      | Some pa \<Rightarrow>
          (case pr_tasks s pa of None \<Rightarrow> None
           | Some P \<Rightarrow>
               (case fm_task mem of None \<Rightarrow> Some (Inl (- ENOMEM), s)
                | Some a \<Rightarrow>
                    (case alloc_pid fuel (pr_pids s) of None \<Rightarrow> None
                     | Some (pid, pool) \<Rightarrow>
                         let s1 = s\<lparr>pr_pids := pool\<rparr> in
                         if pid < 0 then Some (Inl (- EAGAIN), s1)
                         else
                           let C = fork_child (fm_stack mem) trampoline flags stack_start pa a pid P;
                               s2 = s1\<lparr>pr_tasks := (pr_tasks s1)(pa \<mapsto> P\<lparr>p_children := p_children P @ [a]\<rparr>,
                                                                  a \<mapsto> C)\<rparr> in
                           (case fork_mm mem flags P a s2 of None \<Rightarrow> None
                            | Some (ok, s3) \<Rightarrow>
                                if \<not> ok
                                then Some (Inl (- ENOMEM),
                                       s3\<lparr>pr_pids := free_pid pid (pr_pids s3),
                                          pr_tasks := (pr_tasks s3)(a := None)\<rparr>)
                                else
                                  (case fork_files mem flags P a s3 of None \<Rightarrow> None
                                   | Some s4 \<Rightarrow>
                                  (case fork_fs mem flags P a s4 of None \<Rightarrow> None
                                   | Some s5 \<Rightarrow>
                                  (case fork_sighand mem flags P a s5 of None \<Rightarrow> None
                                   | Some s6 \<Rightarrow>
                                  (case fork_cred mem pa a s6 of None \<Rightarrow> None
                                   | Some s7 \<Rightarrow>
                                       Some (Inr a, fork_finish flags stack_start ctid tls pa a s7))))))))))"

section \<open>exit\<close>

text \<open>The first table entry whose task has the given number.\<close>

fun find_pid :: "(nat \<rightharpoonup> ptask) \<Rightarrow> int \<Rightarrow> nat option list \<Rightarrow> nat option" where
  "find_pid h pid [] = None"
| "find_pid h pid (e # es) =
     (case e of None \<Rightarrow> find_pid h pid es
      | Some a \<Rightarrow> if map_option p_pid (h a) = Some pid then Some a else find_pid h pid es)"

text \<open>\<^verbatim>\<open>send_signal\<close> on this state.\<close>

definition deliver :: "int \<Rightarrow> int \<Rightarrow> proc \<Rightarrow> int \<times> proc" where
  "deliver pid sig s =
     (case find_pid (pr_tasks s) pid (pr_table s) of None \<Rightarrow> (- ESRCH, s)
      | Some a \<Rightarrow>
          if sig < 1 \<or> 64 < sig then (- EINVAL, s)
          else (0, upd_ptask a (\<lambda>t.
                 let t1 = t\<lparr>p_pending := upd_sig_word 0 (\<lambda>w. w OR push_bit (nat (sig - 1)) 1) (p_pending t)\<rparr> in
                 if p_state t1 = TASK_INTERRUPTIBLE then t1\<lparr>p_state := TASK_RUNNING, p_on_rq := True\<rparr> else t1) s))"

text \<open>Dropping the open files of a table: the loop runs over the inline array.\<close>

definition close_all :: "files_struct \<Rightarrow> file_store \<Rightarrow> files_struct \<times> file_store" where
  "close_all fl st =
     (let n = (if 64 < max_fds fl then 64 else max_fds fl) in
      (fl\<lparr>fd_array := map (\<lambda>e. e\<lparr>fe_file := None\<rparr>) (take n (fd_array fl)) @ drop n (fd_array fl)\<rparr>,
       fold fput (map fe_file (take n (fd_array fl))) st))"

definition mark_zombie :: "int \<Rightarrow> ptask \<Rightarrow> ptask" where
  "mark_zombie code t = t\<lparr>p_exit_code := code, p_exit_state := EXIT_ZOMBIE, p_state := TASK_ZOMBIE\<rparr>"

fun exit_children :: "nat list \<Rightarrow> proc \<Rightarrow> proc option" where
  "exit_children [] s = Some s"
| "exit_children (c # cs) s =
     (case pr_tasks s c of None \<Rightarrow> None
      | Some t \<Rightarrow>
          exit_children cs (upd_ptask c (\<lambda>t. t\<lparr>p_ppid := 1\<rparr>)
            (if 0 < p_pdeath_signal t then snd (deliver (p_pid t) (p_pdeath_signal t) s) else s)))"

definition exit_close :: "ptask \<Rightarrow> proc \<Rightarrow> proc option" where
  "exit_close t s =
     (case p_files t of None \<Rightarrow> Some s
      | Some f \<Rightarrow>
          (case pr_files s f of None \<Rightarrow> None
           | Some fl \<Rightarrow>
               (case close_all fl (pr_store s) of
                  (fl', st) \<Rightarrow> Some (s\<lparr>pr_files := (pr_files s)(f \<mapsto> fl'), pr_store := st\<rparr>))))"

definition notify_parent :: "int \<Rightarrow> proc \<Rightarrow> proc" where
  "notify_parent ppid s =
     (case find_pid (pr_tasks s) ppid (pr_table s) of None \<Rightarrow> s
      | Some p \<Rightarrow> (case pr_tasks s p of None \<Rightarrow> s | Some pt \<Rightarrow> snd (deliver (p_pid pt) 17 s)))"

definition do_exit :: "int \<Rightarrow> nat \<Rightarrow> proc \<Rightarrow> proc option" where
  "do_exit code a s =
     (case pr_tasks s a of None \<Rightarrow> None
      | Some t \<Rightarrow>
          (case exit_close t (upd_ptask a (mark_zombie code) s) of None \<Rightarrow> None
           | Some s2 \<Rightarrow>
               (case exit_children (p_children t) s2 of None \<Rightarrow> None
                | Some s3 \<Rightarrow>
                    let s4 = notify_parent (p_ppid t) s3
                    in Some (if 0 < pr_total s4 then s4\<lparr>pr_total := pr_total s4 - 1\<rparr> else s4))))"

definition sys_exit :: "int \<Rightarrow> nat \<Rightarrow> proc \<Rightarrow> proc option" where
  "sys_exit status a s = do_exit (status mod 256) a s"

definition kill_thread :: "nat \<Rightarrow> int \<Rightarrow> nat option \<Rightarrow> proc \<Rightarrow> proc" where
  "kill_thread a tgid e s =
     (case e of None \<Rightarrow> s
      | Some b \<Rightarrow>
          if b = a then s
          else (case pr_tasks s b of None \<Rightarrow> s
                | Some th \<Rightarrow> if p_tgid th = tgid then snd (deliver (p_pid th) 9 s) else s))"

definition sys_exit_group :: "int \<Rightarrow> nat \<Rightarrow> proc \<Rightarrow> proc option" where
  "sys_exit_group status a s =
     (case pr_tasks s a of None \<Rightarrow> None
      | Some t \<Rightarrow>
          do_exit (status mod 256) a
            (if p_signal t = None then s
             else fold (kill_thread a (p_tgid t)) (take 4096 (pr_table s)) s))"

text \<open>\<^verbatim>\<open>task_exit\<close> of \<^verbatim>\<open>kernel/process.c\<close> releases the resources itself and hands the children to
  the task number 1.\<close>

definition exit_files :: "ptask \<Rightarrow> proc \<Rightarrow> proc" where
  "exit_files t s =
     (case p_files t of None \<Rightarrow> s
      | Some f \<Rightarrow> s\<lparr>pr_files := (pr_files s)(f := files_free (pr_files s f))\<rparr>)"

definition exit_mm :: "ptask \<Rightarrow> proc \<Rightarrow> proc option" where
  "exit_mm t s =
     (case p_mm t of None \<Rightarrow> Some s
      | Some m \<Rightarrow>
          (case pr_mms s m of None \<Rightarrow> None
           | Some mm \<Rightarrow>
               let mm1 = mm\<lparr>mm_users := mm_users mm - 1\<rparr> in
               if mm_users mm1 = 0
               then map_option (\<lambda>(r, h, vm). s\<lparr>pr_mms := (pr_mms s)(m := r), pr_vmas := h, pr_vmm := vm\<rparr>)
                      (mm_free mm1 (pr_vmas s) (pr_vmm s))
               else Some (s\<lparr>pr_mms := (pr_mms s)(m \<mapsto> mm1)\<rparr>)))"

definition reparent :: "nat \<Rightarrow> nat \<Rightarrow> nat \<Rightarrow> proc \<Rightarrow> proc" where
  "reparent a init c s =
     upd_ptask init (\<lambda>t. t\<lparr>p_children := p_children t @ [c]\<rparr>)
       (upd_ptask a (\<lambda>t. t\<lparr>p_children := remove1 c (p_children t)\<rparr>)
         (upd_ptask c (\<lambda>t. t\<lparr>p_real_parent := Some init, p_parent := Some init\<rparr>) s))"

fun reparent_all :: "nat \<Rightarrow> nat \<Rightarrow> nat list \<Rightarrow> proc \<Rightarrow> proc option" where
  "reparent_all a init [] s = Some s"
| "reparent_all a init (c # cs) s =
     (if pr_tasks s c = None then None else reparent_all a init cs (reparent a init c s))"

definition task_exit :: "int \<Rightarrow> nat \<Rightarrow> proc \<Rightarrow> proc option" where
  "task_exit code a s =
     (case pr_tasks s a of None \<Rightarrow> None
      | Some t \<Rightarrow>
          let s1 = exit_files t (upd_ptask a (\<lambda>t. (mark_zombie code t)\<lparr>p_files := None\<rparr>) s) in
          (case exit_mm t s1 of None \<Rightarrow> None
           | Some s2 \<Rightarrow>
               let s3 = upd_ptask a (\<lambda>t. t\<lparr>p_mm := None\<rparr>) s2;
                   cs = pr_creds s3;
                   s4 = s3\<lparr>pr_creds := (cred_free (cs_cred cs a) cs)\<lparr>cs_cred := (cs_cred cs)(a := None)\<rparr>\<rparr> in
               if p_children t = [] then Some s4
               else (case find_pid (pr_tasks s4) 1 (pr_table s4) of None \<Rightarrow> None
                     | Some init \<Rightarrow> reparent_all a init (p_children t) s4)))"

definition zombify :: "nat \<Rightarrow> int \<Rightarrow> int \<Rightarrow> nat option \<Rightarrow> proc \<Rightarrow> proc" where
  "zombify a tgid code e s =
     (case e of None \<Rightarrow> s
      | Some b \<Rightarrow> if b \<noteq> a \<and> map_option p_tgid (pr_tasks s b) = Some tgid
                 then upd_ptask b (mark_zombie code) s else s)"

definition task_exit_group :: "int \<Rightarrow> nat \<Rightarrow> proc \<Rightarrow> proc option" where
  "task_exit_group code a s =
     (case pr_tasks s a of None \<Rightarrow> None
      | Some t \<Rightarrow> task_exit code a (fold (zombify a (p_tgid t) code) (pr_table s) s))"

section \<open>wait\<close>

definition task_pgrp :: "proc \<Rightarrow> ptask \<Rightarrow> int option" where
  "task_pgrp s t = (case p_signal t of None \<Rightarrow> None | Some g \<Rightarrow> map_option sg_pgrp (pr_signals s g))"

definition task_matches_pid :: "proc \<Rightarrow> ptask \<Rightarrow> ptask \<Rightarrow> int \<Rightarrow> bool" where
  "task_matches_pid s child parent wait_pid \<longleftrightarrow>
     (if wait_pid = - 1 then True
      else if wait_pid = 0 then task_pgrp s child \<noteq> None \<and> task_pgrp s child = task_pgrp s parent
      else if wait_pid < - 1 then task_pgrp s child = Some (- wait_pid)
      else p_pid child = wait_pid \<or> p_tgid child = wait_pid)"

text \<open>\<^verbatim>\<open>W_EXITCODE(exit_code & 0xFF, 0)\<close> and \<^verbatim>\<open>W_STOPCODE\<close>.\<close>

definition w_exitcode :: "int \<Rightarrow> int" where
  "w_exitcode code = (code mod 256) * 256"

definition w_stopcode :: "int \<Rightarrow> int" where
  "w_stopcode sig = sig * 256 + 127"

fun clear_slot :: "nat \<Rightarrow> nat option list \<Rightarrow> nat option list" where
  "clear_slot a [] = []"
| "clear_slot a (e # es) = (if e = Some a then None # es else e # clear_slot a es)"

definition reap_mm :: "ptask \<Rightarrow> proc \<Rightarrow> proc option" where
  "reap_mm t s =
     (case p_mm t of None \<Rightarrow> Some s
      | Some m \<Rightarrow>
          (case pr_mms s m of None \<Rightarrow> None
           | Some mm \<Rightarrow>
               map_option (\<lambda>(r, h, vm). s\<lparr>pr_mms := (pr_mms s)(m := r), pr_vmas := h, pr_vmm := vm\<rparr>)
                 (mm_free mm (pr_vmas s) (pr_vmm s))))"

definition drop_count :: "int \<Rightarrow> bool" where
  "drop_count n \<longleftrightarrow> n \<noteq> 0 \<and> n - 1 = 0"

definition reap_signal :: "ptask \<Rightarrow> proc \<Rightarrow> proc option" where
  "reap_signal t s =
     (case p_signal t of None \<Rightarrow> Some s
      | Some g \<Rightarrow>
          (case pr_signals s g of None \<Rightarrow> None
           | Some x \<Rightarrow> Some (s\<lparr>pr_signals := (pr_signals s)(g :=
               if drop_count (sg_count x) then None
               else if sg_count x = 0 then Some x else Some (x\<lparr>sg_count := sg_count x - 1\<rparr>))\<rparr>)))"

definition reap_sighand :: "ptask \<Rightarrow> proc \<Rightarrow> proc option" where
  "reap_sighand t s =
     (case p_sighand t of None \<Rightarrow> Some s
      | Some g \<Rightarrow>
          (case pr_sighands s g of None \<Rightarrow> None
           | Some x \<Rightarrow> Some (s\<lparr>pr_sighands := (pr_sighands s)(g :=
               if drop_count (sh_count x) then None
               else if sh_count x = 0 then Some x else Some (x\<lparr>sh_count := sh_count x - 1\<rparr>))\<rparr>)))"

definition reap_files :: "ptask \<Rightarrow> proc \<Rightarrow> proc option" where
  "reap_files t s =
     (case p_files t of None \<Rightarrow> Some s
      | Some f \<Rightarrow>
          (case pr_files s f of None \<Rightarrow> None
           | Some fl \<Rightarrow> Some (s\<lparr>pr_files := (pr_files s)(f := None), pr_store := snd (close_all fl (pr_store s))\<rparr>)))"

definition reap_fs :: "ptask \<Rightarrow> proc \<Rightarrow> proc" where
  "reap_fs t s = (case p_fs t of None \<Rightarrow> s | Some f \<Rightarrow> s\<lparr>pr_fs := (pr_fs s)(f := None)\<rparr>)"

definition unlink_sibling :: "nat \<Rightarrow> (nat \<rightharpoonup> ptask) \<Rightarrow> (nat \<rightharpoonup> ptask)" where
  "unlink_sibling c h = (\<lambda>a. map_option (\<lambda>t. t\<lparr>p_children := removeAll c (p_children t)\<rparr>) (h a))"

definition reap_zombie :: "nat \<Rightarrow> nat \<Rightarrow> proc \<Rightarrow> proc option" where
  "reap_zombie c pa s =
     (case pr_tasks s c of None \<Rightarrow> None
      | Some t \<Rightarrow>
          let s1 = upd_ptask pa (\<lambda>p. p\<lparr>p_utime := p_utime p + p_utime t, p_stime := p_stime p + p_stime t\<rparr>) s in
          (case reap_mm t s1 of None \<Rightarrow> None
           | Some s2 \<Rightarrow>
               let s3 = s2\<lparr>pr_tasks := unlink_sibling c (pr_tasks s2),
                           pr_table := clear_slot c (take 4096 (pr_table s2)) @ drop 4096 (pr_table s2),
                           pr_pids2 := pid_free (p_pid t) (pr_pids2 s2)\<rparr> in
               (case reap_signal t s3 of None \<Rightarrow> None
                | Some s4 \<Rightarrow>
                    (case reap_sighand t s4 of None \<Rightarrow> None
                     | Some s5 \<Rightarrow>
                         (case reap_files t s5 of None \<Rightarrow> None
                          | Some s6 \<Rightarrow>
                              let s7 = reap_fs t s6
                              in Some (s7\<lparr>pr_tasks := (pr_tasks s7)(c := None)\<rparr>))))))"

datatype wait_outcome = Reports int int | NothingYet | NoChild

definition opt_set :: "u32 \<Rightarrow> u32 \<Rightarrow> bool" where
  "opt_set options m \<longleftrightarrow> options AND m \<noteq> 0"

text \<open>One pass over the children. \<open>Reports\<close> carries the number and the status of the child the
  call returns for; \<open>found\<close> says that a child matched before.\<close>

fun wait_scan :: "int \<Rightarrow> u32 \<Rightarrow> nat \<Rightarrow> bool \<Rightarrow> nat list \<Rightarrow> proc \<Rightarrow> (wait_outcome \<times> proc) option" where
  "wait_scan wpid options pa found [] s = Some (if found then NothingYet else NoChild, s)"
| "wait_scan wpid options pa found (c # cs) s =
     (case (pr_tasks s c, pr_tasks s pa) of
        (Some t, Some P) \<Rightarrow>
          if \<not> task_matches_pid s t P wpid then wait_scan wpid options pa found cs s
          else if p_exit_state t = EXIT_ZOMBIE
          then if opt_set options 0x1000000 then Some (Reports (p_pid t) (w_exitcode (p_exit_code t)), s)
               else map_option (\<lambda>s'. (Reports (p_pid t) (w_exitcode (p_exit_code t)), s')) (reap_zombie c pa s)
          else if opt_set options 2 \<and> p_exit_state t = EXIT_STOPPED \<and> \<not> p_wait_reported t
          then Some (Reports (p_pid t) (w_stopcode (p_stop_signal t)),
                     upd_ptask c (\<lambda>t. t\<lparr>p_wait_reported := True\<rparr>) s)
          else if opt_set options 8 \<and> p_exit_state t = EXIT_CONTINUED \<and> \<not> p_wait_reported t
          then Some (Reports (p_pid t) 0xffff, upd_ptask c (\<lambda>t. t\<lparr>p_wait_reported := True\<rparr>) s)
          else wait_scan wpid options pa True cs s
      | _ \<Rightarrow> None)"

text \<open>One round of \<^verbatim>\<open>do_wait\<close>: a return value with the status it stores, or \<open>None\<close> when the caller
  is put to sleep and the loop goes round again after it wakes.\<close>

definition do_wait ::
  "int \<Rightarrow> u32 \<Rightarrow> nat option \<Rightarrow> proc \<Rightarrow> ((int \<times> int option) option \<times> proc) option" where
  "do_wait wpid options cur s =
     (case cur of None \<Rightarrow> Some (Some (- ESRCH, None), s)
      | Some pa \<Rightarrow>
          (case pr_tasks s pa of None \<Rightarrow> None
           | Some P \<Rightarrow>
               (case wait_scan wpid options pa False (p_children P) s of None \<Rightarrow> None
                | Some (Reports pid st, s') \<Rightarrow> Some (Some (pid, Some st), s')
                | Some (NoChild, s') \<Rightarrow> Some (Some (- ECHILD, None), s')
                | Some (NothingYet, s') \<Rightarrow>
                    if opt_set options 1 then Some (Some (0, None), s')
                    else if sg0 (p_pending P) \<noteq> 0 \<or> sg1 (p_pending P) \<noteq> 0 then Some (Some (- EINTR, None), s')
                    else Some (None, upd_ptask pa (\<lambda>p. p\<lparr>p_state := TASK_INTERRUPTIBLE\<rparr>) s'))))"

end
