(* ===== verification/Process_Correct.thy ===== *)
theory Process_Correct
  imports Process
begin

text \<open>
  What fork, exit and wait guarantee. A fork whose parent is in order succeeds and changes nothing else;
  a wait answers for the first child with something to report and reaps a zombie completely. The
  last properties follow one child from fork through exit to wait and show what the kernel
  forgets on the way: the count of the shared signal block, the process number, and the
  child of a fork that failed.
\<close>

section \<open>Reaping\<close>

text \<open>What a dead task still holds can be given back.\<close>

definition reapable :: "proc \<Rightarrow> ptask \<Rightarrow> bool" where
  "reapable s t \<longleftrightarrow>
     (\<forall>m. p_mm t = Some m \<longrightarrow>
        (\<exists>mm. pr_mms s m = Some mm \<and> distinct (mm_mmap mm) \<and> (\<forall>v \<in> set (mm_mmap mm). pr_vmas s v \<noteq> None))) \<and>
     (\<forall>g. p_signal t = Some g \<longrightarrow> pr_signals s g \<noteq> None) \<and>
     (\<forall>h. p_sighand t = Some h \<longrightarrow> pr_sighands s h \<noteq> None) \<and>
     (\<forall>f. p_files t = Some f \<longrightarrow> pr_files s f \<noteq> None)"

lemma free_vmas_ok:
  "distinct cs \<Longrightarrow> \<forall>v \<in> set cs. h v \<noteq> None \<Longrightarrow> \<exists>h'. free_vmas cs h = Some h'"
proof (induction cs arbitrary: h)
  case (Cons c cs)
  then have "\<forall>v \<in> set cs. (h(c := None)) v \<noteq> None" by auto
  then show ?case using Cons by auto
qed simp

lemma mm_free_ok:
  assumes "distinct (mm_mmap mm)" "\<forall>v \<in> set (mm_mmap mm). h v \<noteq> None"
  shows "\<exists>r. mm_free mm h vm = Some r"
  using free_vmas_ok [OF assms] by (auto simp: mm_free_def)

text \<open>A block whose count is dropped: gone at one, kept untouched at zero.\<close>

definition dropped_signal :: "ptask \<Rightarrow> (nat \<rightharpoonup> signal_struct) \<Rightarrow> (nat \<rightharpoonup> signal_struct)" where
  "dropped_signal t h =
     (case p_signal t of None \<Rightarrow> h
      | Some g \<Rightarrow> h(g := (case h g of None \<Rightarrow> None
                          | Some x \<Rightarrow> if sg_count x = 1 then None else if sg_count x = 0 then Some x
                                      else Some (x\<lparr>sg_count := sg_count x - 1\<rparr>))))"

definition reaped_tasks :: "nat \<Rightarrow> nat \<Rightarrow> ptask \<Rightarrow> (nat \<rightharpoonup> ptask) \<Rightarrow> (nat \<rightharpoonup> ptask)" where
  "reaped_tasks c pa t h =
     (\<lambda>x. if x = c then None
          else map_option (\<lambda>p. p\<lparr>p_utime := p_utime p + (if x = pa then p_utime t else 0),
                                p_stime := p_stime p + (if x = pa then p_stime t else 0),
                                p_children := removeAll c (p_children p)\<rparr>) (h x))"

lemma reap_mm_frame:
  "reap_mm t s = Some s' \<Longrightarrow> s' = s\<lparr>pr_mms := pr_mms s', pr_vmas := pr_vmas s', pr_vmm := pr_vmm s'\<rparr>"
  by (auto simp: reap_mm_def split: option.splits)

lemma reap_signal_frame:
  "reap_signal t s = Some s' \<Longrightarrow> s' = s\<lparr>pr_signals := dropped_signal t (pr_signals s)\<rparr>"
  by (auto simp: reap_signal_def dropped_signal_def drop_count_def split: option.splits)

lemma reap_sighand_frame: "reap_sighand t s = Some s' \<Longrightarrow> s' = s\<lparr>pr_sighands := pr_sighands s'\<rparr>"
  by (auto simp: reap_sighand_def split: option.splits)

lemma reap_files_frame:
  "reap_files t s = Some s' \<Longrightarrow> s' = s\<lparr>pr_files := pr_files s', pr_store := pr_store s'\<rparr>"
  by (auto simp: reap_files_def split: option.splits)

lemma reap_fs_frame: "reap_fs t s = s\<lparr>pr_fs := pr_fs (reap_fs t s)\<rparr>"
  by (auto simp: reap_fs_def split: option.splits)

lemma reap_zombie_frame:
  assumes "reap_zombie c pa s = Some s'" "pr_tasks s c = Some t"
  shows "pr_tasks s' = reaped_tasks c pa t (pr_tasks s)"
    "pr_table s' = clear_slot c (take 4096 (pr_table s)) @ drop 4096 (pr_table s)"
    "pr_pids s' = pr_pids s" "pr_signals s' = dropped_signal t (pr_signals s)"
proof -
  let ?s1 = "upd_ptask pa (\<lambda>p. p\<lparr>p_utime := p_utime p + p_utime t, p_stime := p_stime p + p_stime t\<rparr>) s"
  let ?unlink = "\<lambda>s2. s2\<lparr>pr_tasks := unlink_sibling c (pr_tasks s2),
                 pr_table := clear_slot c (take 4096 (pr_table s2)) @ drop 4096 (pr_table s2),
                 pr_pids2 := pid_free (p_pid t) (pr_pids2 s2)\<rparr>"
  obtain s2 s4 s5 s6 where r: "reap_mm t ?s1 = Some s2" "reap_signal t (?unlink s2) = Some s4"
    "reap_sighand t s4 = Some s5" "reap_files t s5 = Some s6"
    and s': "s' = (reap_fs t s6)\<lparr>pr_tasks := (pr_tasks (reap_fs t s6))(c := None)\<rparr>"
    using assms by (auto simp: reap_zombie_def Let_def split: option.splits)
  obtain mm vmas vm sh fl st fs where f: "s2 = ?s1\<lparr>pr_mms := mm, pr_vmas := vmas, pr_vmm := vm\<rparr>"
    "s4 = (?unlink s2)\<lparr>pr_signals := dropped_signal t (pr_signals (?unlink s2))\<rparr>"
    "s5 = s4\<lparr>pr_sighands := sh\<rparr>" "s6 = s5\<lparr>pr_files := fl, pr_store := st\<rparr>" "reap_fs t s6 = s6\<lparr>pr_fs := fs\<rparr>"
    using reap_mm_frame [OF r(1)] reap_signal_frame [OF r(2)] reap_sighand_frame [OF r(3)]
      reap_files_frame [OF r(4)] reap_fs_frame [of t s6] by blast
  have "(unlink_sibling c (pr_tasks ?s1))(c := None) = reaped_tasks c pa t (pr_tasks s)"
    by (auto simp: fun_eq_iff reaped_tasks_def unlink_sibling_def upd_ptask_def option.map_comp comp_def)
  then show "pr_tasks s' = reaped_tasks c pa t (pr_tasks s)"
    "pr_table s' = clear_slot c (take 4096 (pr_table s)) @ drop 4096 (pr_table s)"
    "pr_pids s' = pr_pids s" "pr_signals s' = dropped_signal t (pr_signals s)"
    by (simp_all add: s' f(5), simp_all add: f(1-4), simp_all add: upd_ptask_def)
qed

lemma reap_mm_ok:
  assumes "\<And>m. p_mm t = Some m \<Longrightarrow>
    \<exists>mm. pr_mms s m = Some mm \<and> distinct (mm_mmap mm) \<and> (\<forall>v \<in> set (mm_mmap mm). pr_vmas s v \<noteq> None)"
  shows "reap_mm t s \<noteq> None"
  using assms mm_free_ok [of _ "pr_vmas s" "pr_vmm s"] by (fastforce simp: reap_mm_def split: option.splits)

lemma reap_zombie_ok:
  assumes "pr_tasks s c = Some t" "reapable s t"
  shows "\<exists>s'. reap_zombie c pa s = Some s'"
proof -
  let ?s1 = "upd_ptask pa (\<lambda>p. p\<lparr>p_utime := p_utime p + p_utime t, p_stime := p_stime p + p_stime t\<rparr>) s"
  have "reap_mm t ?s1 \<noteq> None"
    using assms(2) by (intro reap_mm_ok) (simp add: reapable_def upd_ptask_def)
  then obtain s2 where mm: "reap_mm t ?s1 = Some s2" by blast
  have fr: "pr_signals s2 = pr_signals s" "pr_sighands s2 = pr_sighands s" "pr_files s2 = pr_files s"
    by (subst reap_mm_frame [OF mm]; simp add: upd_ptask_def)+
  show ?thesis
    using assms mm fr
    by (auto simp: reap_zombie_def reapable_def reap_signal_def reap_sighand_def reap_files_def Let_def
        split: option.splits)
qed

lemma reap_zombie_spec:
  assumes "pr_tasks s c = Some t" "reapable s t"
  shows "\<exists>s'. reap_zombie c pa s = Some s' \<and>
    pr_tasks s' = reaped_tasks c pa t (pr_tasks s) \<and>
    pr_table s' = clear_slot c (take 4096 (pr_table s)) @ drop 4096 (pr_table s) \<and>
    pr_pids s' = pr_pids s \<and> pr_signals s' = dropped_signal t (pr_signals s)"
  using reap_zombie_ok [OF assms] reap_zombie_frame [OF _ assms(1)] by blast

section \<open>The scan of the children\<close>

text \<open>A child the call would return for.\<close>

definition reportable :: "u32 \<Rightarrow> ptask \<Rightarrow> bool" where
  "reportable options t \<longleftrightarrow>
     p_exit_state t = EXIT_ZOMBIE \<or>
     opt_set options 2 \<and> p_exit_state t = EXIT_STOPPED \<and> \<not> p_wait_reported t \<or>
     opt_set options 8 \<and> p_exit_state t = EXIT_CONTINUED \<and> \<not> p_wait_reported t"

definition child_matches :: "proc \<Rightarrow> ptask \<Rightarrow> int \<Rightarrow> nat \<Rightarrow> bool" where
  "child_matches s P wpid c = (case pr_tasks s c of None \<Rightarrow> False | Some t \<Rightarrow> task_matches_pid s t P wpid)"

definition child_reports :: "proc \<Rightarrow> ptask \<Rightarrow> int \<Rightarrow> u32 \<Rightarrow> nat \<Rightarrow> bool" where
  "child_reports s P wpid options c =
     (child_matches s P wpid c \<and> (case pr_tasks s c of None \<Rightarrow> False | Some t \<Rightarrow> reportable options t))"

lemma wait_scan_skip:
  assumes "pr_tasks s pa = Some P" "\<forall>c \<in> set xs. pr_tasks s c \<noteq> None"
    "\<forall>c \<in> set xs. \<not> child_reports s P wpid options c"
  shows "wait_scan wpid options pa found (xs @ ys) s =
    wait_scan wpid options pa (found \<or> (\<exists>c \<in> set xs. child_matches s P wpid c)) ys s"
  using assms(2,3)
proof (induction xs arbitrary: found)
  case (Cons c xs)
  then obtain t where t: "pr_tasks s c = Some t" by auto
  have IH: "\<And>f. wait_scan wpid options pa f (xs @ ys) s =
    wait_scan wpid options pa (f \<or> (\<exists>c \<in> set xs. child_matches s P wpid c)) ys s"
    using Cons by simp
  have n: "task_matches_pid s t P wpid \<Longrightarrow> \<not> reportable options t"
    using Cons.prems(2) t by (simp add: child_reports_def child_matches_def)
  show ?case
  proof (cases "task_matches_pid s t P wpid")
    case True
    then show ?thesis using n [OF True] by (auto simp: t assms(1) IH child_matches_def reportable_def)
  next
    case False
    then show ?thesis by (simp add: t assms(1) IH child_matches_def)
  qed
qed simp

lemma wait_scan_none:
  assumes "pr_tasks s pa = Some P" "\<forall>c \<in> set xs. pr_tasks s c \<noteq> None"
    "\<forall>c \<in> set xs. \<not> child_reports s P wpid options c"
  shows "wait_scan wpid options pa found xs s =
    Some (if found \<or> (\<exists>c \<in> set xs. child_matches s P wpid c) then NothingYet else NoChild, s)"
  using wait_scan_skip [OF assms, of found "[]"] by simp

lemma wait_scan_reaps:
  assumes "pr_tasks s pa = Some P" "\<forall>x \<in> set xs. pr_tasks s x \<noteq> None"
    "\<forall>x \<in> set xs. \<not> child_reports s P wpid options x"
    "pr_tasks s c = Some t" "task_matches_pid s t P wpid" "p_exit_state t = EXIT_ZOMBIE" "\<not> opt_set options 0x1000000"
  shows "wait_scan wpid options pa found (xs @ c # ys) s =
    map_option (\<lambda>s'. (Reports (p_pid t) (w_exitcode (p_exit_code t)), s')) (reap_zombie c pa s)"
  using assms(4-) unfolding wait_scan_skip [OF assms(1-3)] by (simp add: assms(1))

lemma do_wait_quiet:
  assumes "pr_tasks s pa = Some P" "\<forall>c \<in> set (p_children P). pr_tasks s c \<noteq> None"
    "\<forall>c \<in> set (p_children P). \<not> child_reports s P wpid options c"
  shows "do_wait wpid options (Some pa) s =
    (if \<forall>c \<in> set (p_children P). \<not> child_matches s P wpid c then Some (Some (- ECHILD, None), s)
     else if opt_set options 1 then Some (Some (0, None), s)
     else if sg0 (p_pending P) \<noteq> 0 \<or> sg1 (p_pending P) \<noteq> 0 then Some (Some (- EINTR, None), s)
     else Some (None, upd_ptask pa (\<lambda>p. p\<lparr>p_state := TASK_INTERRUPTIBLE\<rparr>) s))"
  using wait_scan_none [OF assms, of False] by (auto simp: do_wait_def assms(1))

lemma do_wait_reaps:
  assumes "pr_tasks s pa = Some P" "p_children P = xs @ c # ys" "\<forall>x \<in> set xs. pr_tasks s x \<noteq> None"
    "\<forall>x \<in> set xs. \<not> child_reports s P wpid options x"
    "pr_tasks s c = Some t" "task_matches_pid s t P wpid" "p_exit_state t = EXIT_ZOMBIE" "\<not> opt_set options 0x1000000"
    "reapable s t"
  shows "\<exists>s'. do_wait wpid options (Some pa) s = Some (Some (p_pid t, Some (w_exitcode (p_exit_code t))), s') \<and>
    pr_tasks s' = reaped_tasks c pa t (pr_tasks s) \<and>
    pr_table s' = clear_slot c (take 4096 (pr_table s)) @ drop 4096 (pr_table s) \<and>
    pr_pids s' = pr_pids s \<and> pr_signals s' = dropped_signal t (pr_signals s)"
proof -
  obtain s' where "reap_zombie c pa s = Some s'" and r: "pr_tasks s' = reaped_tasks c pa t (pr_tasks s) \<and>
    pr_table s' = clear_slot c (take 4096 (pr_table s)) @ drop 4096 (pr_table s) \<and>
    pr_pids s' = pr_pids s \<and> pr_signals s' = dropped_signal t (pr_signals s)"
    using reap_zombie_spec [OF assms(5,9)] by blast
  then show ?thesis
    using wait_scan_reaps [OF assms(1,3-8), of False ys] r by (simp add: do_wait_def assms(1,2))
qed


section \<open>The steps of a fork\<close>

text \<open>The parts of the state the later steps of a fork read.\<close>

definition mm_ready :: "fork_mem \<Rightarrow> u64 \<Rightarrow> ptask \<Rightarrow> proc \<Rightarrow> bool" where
  "mm_ready mem flags P s \<longleftrightarrow>
     (case p_mm P of None \<Rightarrow> flags AND CLONE_VM = 0
      | Some m \<Rightarrow>
          (case pr_mms s m of None \<Rightarrow> False
           | Some mm \<Rightarrow>
               flags AND CLONE_VM \<noteq> 0 \<or>
               fm_mm mem \<noteq> None \<and>
               (case mm_copy True (fm_valloc mem) mm (pr_vmas s) (pr_vmm s) of
                  Some (Some _, _) \<Rightarrow> True | _ \<Rightarrow> False)))"

lemma mm_ready_cong:
  assumes "pr_mms s' = pr_mms s" "pr_vmas s' = pr_vmas s" "pr_vmm s' = pr_vmm s"
  shows "mm_ready mem flags P s' = mm_ready mem flags P s"
  unfolding mm_ready_def assms ..

lemma fork_mm_ok:
  assumes "mm_ready mem flags P s" "pr_tasks s a = Some C" "p_mm C = p_mm P"
  shows "\<exists>m h g vm. fork_mm mem flags P a s =
      Some (True, s\<lparr>pr_tasks := (pr_tasks s)(a \<mapsto> C\<lparr>p_mm := m, p_active_mm := m\<rparr>),
                     pr_mms := h, pr_vmas := g, pr_vmm := vm\<rparr>) \<and>
      m = (if flags AND CLONE_VM \<noteq> 0 \<or> p_mm P = None then p_mm P else fm_mm mem)"
proof (cases "p_mm P")
  case None
  have e: "C\<lparr>p_mm := None, p_active_mm := None\<rparr> = C\<lparr>p_active_mm := None\<rparr>" using None assms(3) by simp
  show ?thesis using assms None
    by (intro exI [of _ None] exI [of _ "pr_mms s"] exI [of _ "pr_vmas s"] exI [of _ "pr_vmm s"])
      (simp add: mm_ready_def fork_mm_def upd_ptask_def e)
next
  case (Some m)
  then obtain mm where mm: "pr_mms s m = Some mm" using assms(1) by (auto simp: mm_ready_def split: option.splits)
  show ?thesis
  proof (cases "flags AND CLONE_VM = 0")
    case False
    then show ?thesis using Some mm assms(2)
      by (intro exI [of _ "Some m"] exI [of _ "(pr_mms s)(m \<mapsto> mm\<lparr>mm_users := mm_users mm + 1\<rparr>)"]
          exI [of _ "pr_vmas s"] exI [of _ "pr_vmm s"]) (simp add: fork_mm_def upd_ptask_def)
  next
    case True
    then obtain b new h vm where c: "fm_mm mem = Some b"
      "mm_copy True (fm_valloc mem) mm (pr_vmas s) (pr_vmm s) = Some (Some new, h, vm)"
      using assms(1) Some mm by (auto simp: mm_ready_def split: option.splits prod.splits)
    then show ?thesis using Some mm True assms(2)
      by (intro exI [of _ "Some b"] exI [of _ "(pr_mms s)(b \<mapsto> new)"] exI [of _ h] exI [of _ vm])
        (simp add: fork_mm_def upd_ptask_def Let_def)
  qed
qed

lemma fork_files_ok:
  assumes "p_files P = Some f" "pr_files s f \<noteq> None" "pr_tasks s a = Some C"
  shows "\<exists>h st. fork_files mem flags P a s =
      Some (s\<lparr>pr_tasks := (pr_tasks s)(a \<mapsto>
               C\<lparr>p_files := if flags AND CLONE_FILES \<noteq> 0 then Some f else fm_files mem\<rparr>),
              pr_files := h, pr_store := st\<rparr>)"
proof -
  obtain fl where fl: "pr_files s f = Some fl" using assms(2) by blast
  have n: "files_copy ok fl st = (new, st') \<Longrightarrow> new \<noteq> None \<longleftrightarrow> ok" for ok st new st'
    by (auto simp: files_copy_def files_alloc_def Let_def split: prod.splits if_splits)
  show ?thesis
  proof (cases "flags AND CLONE_FILES = 0")
    case False
    then show ?thesis using assms(1,3) fl
      by (intro exI [of _ "(pr_files s)(f \<mapsto> fl\<lparr>files_count := files_count fl + 1\<rparr>)"] exI [of _ "pr_store s"])
        (simp add: fork_files_def upd_ptask_def)
  next
    case True
    obtain new st where c: "files_copy (fm_files mem \<noteq> None) fl (pr_store s) = (new, st)" by fastforce
    show ?thesis
    proof (cases "fm_files mem")
      case None
      then show ?thesis using True c n [OF c] assms(1,3) fl
        by (intro exI [of _ "pr_files s"] exI [of _ st]) (simp add: fork_files_def upd_ptask_def Let_def)
    next
      case (Some b)
      then obtain x where "new = Some x" using n [OF c] by auto
      then show ?thesis using True c Some assms(1,3) fl
        by (intro exI [of _ "(pr_files s)(b \<mapsto> x)"] exI [of _ st])
          (simp add: fork_files_def upd_ptask_def Let_def)
    qed
  qed
qed

lemma fork_fs_ok:
  assumes "p_fs P = Some f" "pr_fs s f \<noteq> None" "pr_tasks s a = Some C"
  shows "\<exists>h. fork_fs mem flags P a s =
      Some (s\<lparr>pr_tasks := (pr_tasks s)(a \<mapsto> C\<lparr>p_fs := if flags AND CLONE_FS \<noteq> 0 then Some f else fm_fs mem\<rparr>),
              pr_fs := h\<rparr>)"
proof -
  obtain fs where fs: "pr_fs s f = Some fs" using assms(2) by blast
  let ?h = "if flags AND CLONE_FS \<noteq> 0 then (pr_fs s)(f \<mapsto> fs\<lparr>fs_count := fs_count fs + 1\<rparr>)
            else (case fm_fs mem of None \<Rightarrow> pr_fs s | Some b \<Rightarrow> (pr_fs s)(b \<mapsto> fs_copy fs))"
  show ?thesis using assms(1,3) fs
    by (intro exI [of _ ?h]) (simp add: fork_fs_def upd_ptask_def split: option.splits)
qed

lemma fork_sighand_ok:
  assumes "\<And>g. p_sighand P = Some g \<Longrightarrow> pr_sighands s g \<noteq> None" "pr_tasks s a = Some C"
  shows "\<exists>h. fork_sighand mem flags P a s =
      Some (s\<lparr>pr_tasks := (pr_tasks s)(a \<mapsto>
               C\<lparr>p_sighand := if flags AND CLONE_SIGHAND \<noteq> 0 then p_sighand P else fm_sighand mem\<rparr>),
              pr_sighands := h\<rparr>)"
proof (cases "p_sighand P")
  case None
  let ?h = "if flags AND CLONE_SIGHAND \<noteq> 0 then pr_sighands s
            else (case fm_sighand mem of None \<Rightarrow> pr_sighands s
                  | Some b \<Rightarrow> (pr_sighands s)(b \<mapsto> \<lparr>sh_count = 1, sh_action = replicate 64 sigaction_dfl\<rparr>))"
  show ?thesis using None assms(2)
    by (intro exI [of _ ?h]) (simp add: fork_sighand_def upd_ptask_def split: option.splits)
next
  case (Some g)
  then obtain x where x: "pr_sighands s g = Some x" using assms(1) by blast
  let ?h = "if flags AND CLONE_SIGHAND \<noteq> 0 then (pr_sighands s)(g \<mapsto> x\<lparr>sh_count := sh_count x + 1\<rparr>)
            else (case fm_sighand mem of None \<Rightarrow> pr_sighands s
                  | Some b \<Rightarrow> (pr_sighands s)(b \<mapsto> \<lparr>sh_count = 1, sh_action = sh_action x\<rparr>))"
  show ?thesis using Some x assms(2)
    by (intro exI [of _ ?h]) (simp add: fork_sighand_def upd_ptask_def split: option.splits)
qed

lemma fork_cred_ok:
  "current_cred (Some pa) (pr_creds s) \<noteq> None \<Longrightarrow> \<exists>cs. fork_cred mem pa a s = Some (s\<lparr>pr_creds := cs\<rparr>)"
  by (auto simp: fork_cred_def split: prod.splits)

lemma table_insert_mem: "None \<in> set es \<Longrightarrow> Some a \<in> set (table_insert a es)"
  by (induction es) (auto split: option.splits)


text \<open>What a fork needs: the parent's blocks are live, its memory can be shared or copied and a
  process number is free.\<close>

definition fork_ready :: "fork_mem \<Rightarrow> u64 \<Rightarrow> nat \<Rightarrow> ptask \<Rightarrow> proc \<Rightarrow> bool" where
  "fork_ready mem flags a P s \<longleftrightarrow>
     fm_task mem = Some a \<and> mm_ready mem flags P s \<and>
     (case p_files P of None \<Rightarrow> False | Some f \<Rightarrow> pr_files s f \<noteq> None) \<and>
     (case p_fs P of None \<Rightarrow> False | Some f \<Rightarrow> pr_fs s f \<noteq> None) \<and>
     (case p_sighand P of None \<Rightarrow> True | Some g \<Rightarrow> pr_sighands s g \<noteq> None)"

definition shared_or :: "u64 \<Rightarrow> u64 \<Rightarrow> nat option \<Rightarrow> nat option \<Rightarrow> nat option" where
  "shared_or flags m old new = (if flags AND m \<noteq> 0 then old else new)"

definition started_child :: "u64 \<Rightarrow> u64 \<Rightarrow> u64 \<Rightarrow> u64 \<Rightarrow> u64 \<Rightarrow> ptask \<Rightarrow> ptask" where
  "started_child flags stack_start ctid tls pslice c =
     c\<lparr>p_tls := (if flags AND CLONE_SETTLS \<noteq> 0 then tls else p_tls c),
       p_ctx_rsp := (if stack_start \<noteq> 0 then stack_start else p_ctx_rsp c),
       p_set_child_tid := (if flags AND CLONE_CHILD_SETTID \<noteq> 0 then ctid else p_set_child_tid c),
       p_clear_child_tid := (if flags AND CLONE_CHILD_CLEARTID \<noteq> 0 then ctid else p_clear_child_tid c),
       p_ctx_rax := 0, p_time_slice := (if pslice div 2 < 1 then 1 else pslice div 2),
       p_state := TASK_RUNNING, p_on_rq := True\<rparr>"

lemma fork_finish_eq:
  assumes "pr_tasks s a = Some c" "pr_tasks s pa = Some P" "a \<noteq> pa"
  shows "pr_tasks (fork_finish flags stk ctid tls pa a s) =
      (pr_tasks s)(a \<mapsto> started_child flags stk ctid tls (p_time_slice P) c,
        pa \<mapsto> P\<lparr>p_time_slice := p_time_slice P - (if p_time_slice P div 2 < 1 then 1 else p_time_slice P div 2)\<rparr>)"
    "pr_table (fork_finish flags stk ctid tls pa a s) = table_insert a (pr_table s)"
    "pr_pids (fork_finish flags stk ctid tls pa a s) = pr_pids s"
    "pr_signals (fork_finish flags stk ctid tls pa a s) = pr_signals s"
  using assms by (simp_all add: fork_finish_def upd_ptask_def Let_def started_child_def fun_upd_twist)

lemmas child_fields = started_child_def fork_child_def setup_kernel_stack_def Let_def

lemma task_fork_spec:
  assumes "pr_tasks s pa = Some P" "pr_tasks s a = None" "fork_ready mem flags a P s"
    "current_cred (Some pa) (pr_creds s) \<noteq> None"
    "alloc_pid fuel (pr_pids s) = Some (pid, pool)" "0 \<le> pid"
  shows "\<exists>s' C. task_fork mem fuel tramp flags stk ctid tls (Some pa) s = Some (Inr a, s') \<and>
    pr_tasks s' = (pr_tasks s)(a \<mapsto> C,
      pa \<mapsto> P\<lparr>p_children := p_children P @ [a], p_time_slice := p_time_slice P - p_time_slice C\<rparr>) \<and>
    p_pid C = pid \<and> p_ppid C = p_pid P \<and> p_parent C = Some pa \<and> p_children C = [] \<and>
    p_tgid C = (if flags AND CLONE_THREAD \<noteq> 0 then p_tgid P else pid) \<and>
    p_state C = TASK_RUNNING \<and> p_on_rq C \<and> p_frame C = Some (fork_frame stk (p_trap_frame P)) \<and>
    p_mm C = (if p_mm P = None then None else shared_or flags CLONE_VM (p_mm P) (fm_mm mem)) \<and>
    p_files C = shared_or flags CLONE_FILES (p_files P) (fm_files mem) \<and>
    p_fs C = shared_or flags CLONE_FS (p_fs P) (fm_fs mem) \<and>
    p_sighand C = shared_or flags CLONE_SIGHAND (p_sighand P) (fm_sighand mem) \<and>
    p_signal C = p_signal P \<and> p_exit_state C = p_exit_state P \<and> p_pdeath_signal C = p_pdeath_signal P \<and>
    pr_signals s' = pr_signals s \<and> pr_table s' = table_insert a (pr_table s) \<and> pr_pids s' = pool"
proof -
  have ne: "a \<noteq> pa" using assms(1,2) by auto
  let ?C = "fork_child (fm_stack mem) tramp flags stk pa a pid P"
  let ?h = "(pr_tasks s)(pa \<mapsto> P\<lparr>p_children := p_children P @ [a]\<rparr>, a \<mapsto> ?C)"
  let ?s1 = "s\<lparr>pr_pids := pool\<rparr>"
  let ?s2 = "?s1\<lparr>pr_tasks := (pr_tasks ?s1)(pa \<mapsto> P\<lparr>p_children := p_children P @ [a]\<rparr>, a \<mapsto> ?C)\<rparr>"
  from assms(3) obtain f fs where r: "fm_task mem = Some a" "mm_ready mem flags P s" "p_files P = Some f"
    "pr_files s f \<noteq> None" "p_fs P = Some fs" "pr_fs s fs \<noteq> None"
    "\<And>g. p_sighand P = Some g \<Longrightarrow> pr_sighands s g \<noteq> None"
    by (auto simp: fork_ready_def split: option.splits)
  have C: "p_mm ?C = p_mm P" by (simp add: fork_child_def setup_kernel_stack_def Let_def split: option.splits)
  let ?m = "if flags AND CLONE_VM \<noteq> 0 \<or> p_mm P = None then p_mm P else fm_mm mem"
  let ?C3 = "?C\<lparr>p_mm := ?m, p_active_mm := ?m\<rparr>"
  have mr: "mm_ready mem flags P ?s2" using r(2) by (subst mm_ready_cong) simp_all
  obtain s3 mh g vm where mm: "fork_mm mem flags P a ?s2 = Some (True, s3)"
    and s3: "s3 = ?s2\<lparr>pr_tasks := ?h(a \<mapsto> ?C3), pr_mms := mh, pr_vmas := g, pr_vmm := vm\<rparr>"
    using fork_mm_ok [OF mr, of a ?C] C by auto
  let ?C4 = "?C3\<lparr>p_files := shared_or flags CLONE_FILES (p_files P) (fm_files mem)\<rparr>"
  obtain s4 fh st where fl: "fork_files mem flags P a s3 = Some s4"
    and s4: "s4 = s3\<lparr>pr_tasks := ?h(a \<mapsto> ?C4), pr_files := fh, pr_store := st\<rparr>"
    using fork_files_ok [OF r(3), of s3 a ?C3 mem flags] r(4) by (auto simp: shared_or_def r(3) s3)
  let ?C5 = "?C4\<lparr>p_fs := shared_or flags CLONE_FS (p_fs P) (fm_fs mem)\<rparr>"
  obtain s5 fsh where fs: "fork_fs mem flags P a s4 = Some s5"
    and s5: "s5 = s4\<lparr>pr_tasks := ?h(a \<mapsto> ?C5), pr_fs := fsh\<rparr>"
    using fork_fs_ok [OF r(5), of s4 a ?C4 mem flags] r(6) by (auto simp: shared_or_def r(5) s4 s3)
  let ?C6 = "?C5\<lparr>p_sighand := shared_or flags CLONE_SIGHAND (p_sighand P) (fm_sighand mem)\<rparr>"
  obtain s6 sh where sh: "fork_sighand mem flags P a s5 = Some s6"
    and s6: "s6 = s5\<lparr>pr_tasks := ?h(a \<mapsto> ?C6), pr_sighands := sh\<rparr>"
    using fork_sighand_ok [of P s5 a ?C5 mem flags] r(7) by (auto simp: shared_or_def s5 s4 s3)
  obtain s7 cs where cr: "fork_cred mem pa a s6 = Some s7" and s7: "s7 = s6\<lparr>pr_creds := cs\<rparr>"
    using fork_cred_ok [of pa s6 mem a] assms(4) by (auto simp: s6 s5 s4 s3)
  have nn: "(pid < 0) = False" using assms(6) by simp
  have tf: "task_fork mem fuel tramp flags stk ctid tls (Some pa) s =
      Some (Inr a, fork_finish flags stk ctid tls pa a s7)"
    by (simp only: task_fork_def option.case assms(1,5) r(1) prod.case Let_def nn if_False not_True_eq_False
        mm fl fs sh cr)
  have h7: "pr_tasks s7 = ?h(a \<mapsto> ?C6)" "pr_table s7 = pr_table s" "pr_pids s7 = pool" "pr_signals s7 = pr_signals s"
    by (simp_all add: s7 s6 s5 s4 s3)
  let ?P = "P\<lparr>p_children := p_children P @ [a]\<rparr>"
  have f: "pr_tasks s7 a = Some ?C6" "pr_tasks s7 pa = Some ?P" using ne by (simp_all add: h7)
  let ?D = "started_child flags stk ctid tls (p_time_slice P) ?C6"
  have "pr_tasks (fork_finish flags stk ctid tls pa a s7) = (pr_tasks s)(a \<mapsto> ?D,
      pa \<mapsto> ?P\<lparr>p_time_slice := p_time_slice P - p_time_slice ?D\<rparr>)"
    unfolding fork_finish_eq(1) [OF f ne] h7 using ne by (simp add: fun_upd_twist started_child_def)
  then show ?thesis
    using fork_finish_eq(2-4) [OF f ne]
    by (intro exI [of _ "fork_finish flags stk ctid tls pa a s7"] exI [of _ ?D] conjI)
      (simp_all add: tf h7, simp_all add: child_fields shared_or_def split: option.splits)
qed


section \<open>What an exit leaves alone\<close>

definition ident :: "ptask \<Rightarrow> int \<times> int \<times> nat list \<times> nat option \<times> int \<times> int" where
  "ident t = (p_pid t, p_tgid t, p_children t, p_signal t, p_exit_state t, p_exit_code t)"

definition idents :: "proc \<Rightarrow> nat \<Rightarrow> (int \<times> int \<times> nat list \<times> nat option \<times> int \<times> int) option" where
  "idents s x = map_option ident (pr_tasks s x)"

lemma idents_upd: "(\<And>t. ident (f t) = ident t) \<Longrightarrow> idents (upd_ptask a f s) = idents s"
  by (auto simp: idents_def upd_ptask_def fun_eq_iff option.map_comp comp_def)

lemma deliver_frame:
  "idents (snd (deliver pid sig s)) = idents s \<and> pr_signals (snd (deliver pid sig s)) = pr_signals s \<and>
   pr_pids (snd (deliver pid sig s)) = pr_pids s"
proof (cases "find_pid (pr_tasks s) pid (pr_table s)")
  case (Some a)
  then show ?thesis
    by (auto simp: deliver_def ident_def Let_def intro!: idents_upd) (simp_all add: upd_ptask_def)
qed (simp add: deliver_def)

lemma exit_children_frame:
  "exit_children cs s = Some s' \<Longrightarrow> idents s' = idents s \<and> pr_signals s' = pr_signals s \<and> pr_pids s' = pr_pids s"
proof (induction cs arbitrary: s)
  case (Cons c cs)
  then obtain t where t: "pr_tasks s c = Some t" by (auto split: option.splits)
  let ?s1 = "if 0 < p_pdeath_signal t then snd (deliver (p_pid t) (p_pdeath_signal t) s) else s"
  have "exit_children cs (upd_ptask c (\<lambda>t. t\<lparr>p_ppid := 1\<rparr>) ?s1) = Some s'" using Cons.prems t by simp
  moreover have "idents (upd_ptask c (\<lambda>t. t\<lparr>p_ppid := 1\<rparr>) ?s1) = idents ?s1"
    by (rule idents_upd) (simp add: ident_def)
  ultimately show ?case
    using Cons.IH [of "upd_ptask c (\<lambda>t. t\<lparr>p_ppid := 1\<rparr>) ?s1"] deliver_frame [of "p_pid t" "p_pdeath_signal t" s]
    by (auto simp: upd_ptask_def split: if_splits)
qed simp

lemma notify_parent_frame:
  "idents (notify_parent p s) = idents s \<and> pr_signals (notify_parent p s) = pr_signals s \<and>
   pr_pids (notify_parent p s) = pr_pids s"
  by (auto simp: notify_parent_def deliver_frame split: option.splits)

lemma do_exit_frame:
  assumes "do_exit code a s = Some s'" "pr_tasks s a = Some t"
  shows "idents s' = (idents s)(a \<mapsto> ident (mark_zombie code t))"
    "pr_signals s' = pr_signals s" "pr_pids s' = pr_pids s"
proof -
  let ?s1 = "upd_ptask a (mark_zombie code) s"
  obtain s2 s3 where c: "exit_close t ?s1 = Some s2" "exit_children (p_children t) s2 = Some s3"
    and s': "s' = (let s4 = notify_parent (p_ppid t) s3 in if 0 < pr_total s4 then s4\<lparr>pr_total := pr_total s4 - 1\<rparr> else s4)"
    using assms by (auto simp: do_exit_def Let_def split: option.splits)
  have "idents ?s1 = (idents s)(a \<mapsto> ident (mark_zombie code t))"
    using assms(2) by (auto simp: idents_def upd_ptask_def fun_eq_iff)
  moreover have "idents s2 = idents ?s1" "pr_signals s2 = pr_signals s" "pr_pids s2 = pr_pids s"
    using c(1) by (auto simp: exit_close_def idents_def upd_ptask_def split: option.splits prod.splits)
  ultimately show "idents s' = (idents s)(a \<mapsto> ident (mark_zombie code t))"
    "pr_signals s' = pr_signals s" "pr_pids s' = pr_pids s"
    using exit_children_frame [OF c(2)] notify_parent_frame [of "p_ppid t" s3]
    by (auto simp: s' Let_def idents_def fun_eq_iff)
qed

section \<open>A child from fork to wait\<close>

text \<open>The only child, forked, exited and waited for.\<close>

lemma fork_exit_wait:
  assumes fork: "pr_tasks s pa = Some P" "pr_tasks s a = None" "fork_ready mem flags a P s"
    "current_cred (Some pa) (pr_creds s) \<noteq> None" "alloc_pid fuel (pr_pids s) = Some (pid, pool)" "0 \<le> pid"
    "task_fork mem fuel tramp flags stk ctid tls (Some pa) s = Some (Inr a, s1)"
    and lone: "p_children P = []"
    and exit: "do_exit code a s1 = Some s2"
    and wait: "do_wait (- 1) 0 (Some pa) s2 = Some (r, s3)"
  shows "r = Some (pid, Some (w_exitcode code))" "pr_tasks s3 a = None" "pr_pids s3 = pool"
    "\<exists>P3. pr_tasks s3 pa = Some P3 \<and> p_children P3 = [] \<and> p_signal P3 = p_signal P"
    "pr_signals s3 = dropped_signal P (pr_signals s)"
proof -
  obtain C where C: "pr_tasks s1 = (pr_tasks s)(a \<mapsto> C,
      pa \<mapsto> P\<lparr>p_children := p_children P @ [a], p_time_slice := p_time_slice P - p_time_slice C\<rparr>)"
    "p_pid C = pid" "p_children C = []" "p_signal C = p_signal P" "pr_signals s1 = pr_signals s" "pr_pids s1 = pool"
    using task_fork_spec [OF fork(1-6), of tramp stk ctid tls] fork(7) by auto
  have ne: "a \<noteq> pa" using fork(1,2) by auto
  have Ca: "pr_tasks s1 a = Some C" using C(1) ne by simp
  note ex = do_exit_frame [OF exit Ca]
  have "idents s2 a = Some (ident (mark_zombie code C))" by (simp add: ex(1))
  then obtain C2 where C2: "pr_tasks s2 a = Some C2" "ident C2 = ident (mark_zombie code C)"
    by (auto simp: idents_def)
  have "idents s2 pa = idents s1 pa" using ne by (simp add: ex(1))
  then obtain P2 where P2: "pr_tasks s2 pa = Some P2" "p_children P2 = [a]" "p_signal P2 = p_signal P"
    using C(1) lone by (auto simp: idents_def ident_def)
  have z: "p_exit_state C2 = EXIT_ZOMBIE" "p_pid C2 = pid" "p_exit_code C2 = code" "p_signal C2 = p_signal P"
    using C2(2) C(2-4) by (simp_all add: ident_def mark_zombie_def)
  have "wait_scan (- 1) 0 pa False [a] s2 =
      map_option (\<lambda>s'. (Reports pid (w_exitcode code), s')) (reap_zombie a pa s2)"
    using P2(1) C2(1) z by (simp add: task_matches_pid_def opt_set_def)
  then obtain s' where rz: "reap_zombie a pa s2 = Some s'" "r = Some (pid, Some (w_exitcode code))" "s3 = s'"
    using wait P2(1,2) by (auto simp: do_wait_def split: option.splits)
  note fr = reap_zombie_frame [OF rz(1) C2(1)]
  show "r = Some (pid, Some (w_exitcode code))" by (rule rz(2))
  show "pr_tasks s3 a = None" using fr(1) by (simp add: rz(3) reaped_tasks_def)
  show "pr_pids s3 = pool" using fr(3) ex(3) C(6) by (simp add: rz(3))
  show "\<exists>P3. pr_tasks s3 pa = Some P3 \<and> p_children P3 = [] \<and> p_signal P3 = p_signal P"
    using fr(1) ne P2 by (simp add: rz(3) reaped_tasks_def)
  have "dropped_signal C2 (pr_signals s2) = dropped_signal P (pr_signals s)"
    unfolding ex(2) C(5) dropped_signal_def z(4) ..
  then show "pr_signals s3 = dropped_signal P (pr_signals s)" using fr(4) by (simp add: rz(3))
qed


section \<open>A fork without memory\<close>

lemma fork_mm_nomem:
  assumes "p_mm P = Some m" "pr_mms s m = Some mm" "flags AND CLONE_VM = 0" "fm_mm mem = None"
  shows "fork_mm mem flags P a s = Some (False, s)"
  using assms by (simp add: fork_mm_def mm_copy_def mm_alloc_def Let_def)

lemma task_fork_enomem:
  assumes "pr_tasks s pa = Some P" "fm_task mem = Some a" "a \<noteq> pa"
    "alloc_pid fuel (pr_pids s) = Some (pid, pool)" "0 \<le> pid"
    "p_mm P = Some m" "pr_mms s m = Some mm" "flags AND CLONE_VM = 0" "fm_mm mem = None"
  shows "\<exists>s'. task_fork mem fuel tramp flags stk ctid tls (Some pa) s = Some (Inl (- ENOMEM), s') \<and>
    pr_tasks s' a = None \<and> pr_tasks s' pa = Some (P\<lparr>p_children := p_children P @ [a]\<rparr>) \<and>
    pr_pids s' = free_pid pid pool"
proof -
  let ?s = "s\<lparr>pr_pids := pool, pr_tasks := (pr_tasks s)(pa \<mapsto> P\<lparr>p_children := p_children P @ [a]\<rparr>,
     a \<mapsto> fork_child (fm_stack mem) tramp flags stk pa a pid P)\<rparr>"
  have "fork_mm mem flags P a ?s = Some (False, ?s)" using assms(6-9) by (intro fork_mm_nomem) simp_all
  then show ?thesis using assms(3,5) by (simp add: task_fork_def assms(1,2,4) Let_def)
qed

section \<open>A concrete process\<close>

definition demo_task :: ptask where
  "demo_task = \<lparr>p_state = TASK_RUNNING, p_on_rq = True, p_time_slice = 10, p_pid = 1, p_tgid = 1, p_ppid = 0,
     p_real_parent = None, p_parent = None, p_children = [], p_group_leader = Some 1, p_mm = None, p_active_mm = None,
     p_files = Some 50, p_fs = Some 60, p_signal = Some 70, p_sighand = None, p_pending = sigemptyset,
     p_exit_state = 0, p_exit_code = 0, p_pdeath_signal = 0, p_stop_signal = 0, p_wait_reported = False,
     p_utime = 0, p_stime = 0, p_tls = 0, p_set_child_tid = 0, p_clear_child_tid = 0, p_kernel_stack = 0x1000,
     p_stack = 0x11000, p_ctx_rip = 0, p_ctx_rsp = 0, p_ctx_rax = 0, p_trap_frame = None, p_frame = None\<rparr>"

definition demo_proc :: proc where
  "demo_proc = \<lparr>pr_tasks = [1 \<mapsto> demo_task], pr_table = [None, Some 1, None, None], pr_pids = pid_boot, pr_pids2 = pid_init,
     pr_mms = [80 \<mapsto> mm_zero], pr_vmas = Map.empty, pr_vmm = demo_vmm,
     pr_files = [50 \<mapsto> \<lparr>files_count = 1, max_fds = 0, next_fd = 0, close_on_exec = 0, open_fds = 0, fd_array = []\<rparr>],
     pr_store = Map.empty, pr_fs = [60 \<mapsto> fs_alloc],
     pr_signals = [70 \<mapsto> \<lparr>sg_count = 1, sg_pgrp = 1, sg_session = 1\<rparr>], pr_sighands = Map.empty,
     pr_creds = \<lparr>cs_heap = [90 \<mapsto> init_cred], cs_cred = [1 \<mapsto> 90]\<rparr>, pr_total = 1\<rparr>"

definition demo_mem :: fork_mem where
  "demo_mem = \<lparr>fm_task = Some 2, fm_stack = Some 0x20000, fm_mm = None, fm_valloc = (\<lambda>h. None), fm_files = Some 51,
     fm_fs = Some 61, fm_sighand = Some 81, fm_cred = (\<lambda>h. Some 91)\<rparr>"


lemmas demo_defs = demo_proc_def demo_mem_def demo_task_def

lemma demo_pid: "alloc_pid (Suc 1) pid_boot = Some (2, \<lparr>pid_bitmap = (\<lambda>_. 0)(0 := 7), last_pid = 2\<rparr>)"
proof -
  have "alloc_pid_loop (Suc 1) ((\<lambda>_. 0)(0 := 3)) 1 1 = Some 2"
    by (simp add: pid_used_def pid_next_def)
  then show ?thesis by (simp add: alloc_pid_def pid_boot_def Let_def)
qed

lemma demo_ready: "fork_ready demo_mem 0 2 demo_task demo_proc"
  by (simp add: fork_ready_def mm_ready_def demo_defs)

section \<open>Properties\<close>




definition demo_zombie :: proc where
  "demo_zombie = demo_proc\<lparr>pr_tasks := [1 \<mapsto> demo_task\<lparr>p_children := [2]\<rparr>,
     2 \<mapsto> demo_task\<lparr>p_pid := 2, p_tgid := 2, p_files := None, p_exit_state := 16, p_exit_code := 3\<rparr>]\<rparr>"



text \<open>\<^emph>\<open>The child's exit takes the parent's signal block.\<close> A fork copies the pointer to the parent's signal
  block without counting the new reference. When the only child has exited and the parent
  has waited for it, the wait reports the child correctly, but the block is freed while the
  parent still points to it.\<close>

theorem fork_exit_wait_frees_signal:
  assumes "pr_tasks s pa = Some P" "pr_tasks s a = None" "fork_ready mem flags a P s"
    "current_cred (Some pa) (pr_creds s) \<noteq> None" "alloc_pid fuel (pr_pids s) = Some (pid, pool)" "0 \<le> pid"
    "task_fork mem fuel tramp flags stk ctid tls (Some pa) s = Some (Inr a, s1)"
    "p_children P = []" "p_signal P = Some g" "pr_signals s g = Some x" "sg_count x = 1"
    "do_exit code a s1 = Some s2" "do_wait (- 1) 0 (Some pa) s2 = Some (r, s3)"
  shows "r = Some (pid, Some (w_exitcode code)) \<and> pr_signals s3 g = None \<and>
    (\<exists>P3. pr_tasks s3 pa = Some P3 \<and> p_signal P3 = Some g)"
  using fork_exit_wait [OF assms(1-8,12,13)] assms(9-11) by (auto simp: dropped_signal_def)

definition demo_fork :: proc where
  "demo_fork = (case task_fork demo_mem (Suc 1) 0 0 0 0 0 (Some 1) demo_proc of Some (_, s) \<Rightarrow> s | None \<Rightarrow> demo_proc)"

definition demo_exit :: proc where
  "demo_exit = (case do_exit 3 2 demo_fork of Some s \<Rightarrow> s | None \<Rightarrow> demo_fork)"

definition demo_wait :: proc where
  "demo_wait = (case do_wait (- 1) 0 (Some 1) demo_exit of Some (_, s) \<Rightarrow> s | None \<Rightarrow> demo_exit)"

lemma demo_fork_run: "task_fork demo_mem (Suc 1) 0 0 0 0 0 (Some 1) demo_proc = Some (Inr 2, demo_fork)"
proof -
  have "current_cred (Some 1) (pr_creds demo_proc) \<noteq> None" by (simp add: demo_defs current_cred_def)
  moreover have "alloc_pid (Suc 1) (pr_pids demo_proc) = Some (2, \<lparr>pid_bitmap = (\<lambda>_. 0)(0 := 7), last_pid = 2\<rparr>)"
    using demo_pid by (simp add: demo_proc_def)
  moreover have "pr_tasks demo_proc 1 = Some demo_task" "pr_tasks demo_proc 2 = None" by (simp_all add: demo_proc_def)
  ultimately obtain s' where "task_fork demo_mem (Suc 1) 0 0 0 0 0 (Some 1) demo_proc = Some (Inr 2, s')"
    using task_fork_spec [of demo_proc 1 demo_task 2 demo_mem 0 "Suc 1" 2 _ 0 0 0 0] demo_ready by auto
  then show ?thesis by (simp add: demo_fork_def)
qed


lemmas fork_defs = fork_mm_def fork_files_def fork_fs_def fork_sighand_def fork_cred_def current_cred_def
  cred_copy_def cred_alloc_def cred_store_def fork_finish_def upd_ptask_def fork_child_def setup_kernel_stack_def
  fork_frame_def files_copy_def files_alloc_def fs_copy_def fs_alloc_def Let_def

lemma demo_fork_eval:
  "demo_fork = demo_proc\<lparr>pr_tasks := pr_tasks demo_fork, pr_table := [Some 2, Some 1, None, None], pr_pids := pr_pids demo_fork,
     pr_files := (pr_files demo_proc)(51 \<mapsto> \<lparr>files_count = 1, max_fds = 0, next_fd = 0, close_on_exec = 0,
       open_fds = 0, fd_array = replicate 64 fd_empty\<rparr>),
     pr_fs := (pr_fs demo_proc)(61 \<mapsto> fs_alloc),
     pr_sighands := [81 \<mapsto> \<lparr>sh_count = 1, sh_action = replicate 64 sigaction_dfl\<rparr>],
     pr_creds := pr_creds demo_fork\<rparr>"
  "\<exists>t. pr_tasks demo_fork = [1 \<mapsto> demo_task\<lparr>p_children := [2], p_time_slice := 5\<rparr>, 2 \<mapsto> t] \<and>
     p_files t = Some 51 \<and> p_mm t = None \<and> p_signal t = Some 70 \<and> p_sighand t = Some 81 \<and> p_fs t = Some 61 \<and>
     p_children t = [] \<and> p_pid t = 2 \<and> p_ppid t = 1"
proof -
  have p: "alloc_pid (Suc 1) (pr_pids demo_proc) = Some (2, \<lparr>pid_bitmap = (\<lambda>_. 0)(0 := 7), last_pid = 2\<rparr>)"
    using demo_pid by (simp add: demo_proc_def)
  note u = demo_fork_def task_fork_def p option.case prod.case
  show "demo_fork = demo_proc\<lparr>pr_tasks := pr_tasks demo_fork, pr_table := [Some 2, Some 1, None, None],
     pr_pids := pr_pids demo_fork,
     pr_files := (pr_files demo_proc)(51 \<mapsto> \<lparr>files_count = 1, max_fds = 0, next_fd = 0, close_on_exec = 0,
       open_fds = 0, fd_array = replicate 64 fd_empty\<rparr>),
     pr_fs := (pr_fs demo_proc)(61 \<mapsto> fs_alloc),
     pr_sighands := [81 \<mapsto> \<lparr>sh_count = 1, sh_action = replicate 64 sigaction_dfl\<rparr>],
     pr_creds := pr_creds demo_fork\<rparr>"
    by (simp only: u Let_def) (simp add: demo_defs fork_defs)
  show "\<exists>t. pr_tasks demo_fork = [1 \<mapsto> demo_task\<lparr>p_children := [2], p_time_slice := 5\<rparr>, 2 \<mapsto> t] \<and>
     p_files t = Some 51 \<and> p_mm t = None \<and> p_signal t = Some 70 \<and> p_sighand t = Some 81 \<and> p_fs t = Some 61 \<and>
     p_children t = [] \<and> p_pid t = 2 \<and> p_ppid t = 1"
    by (simp only: u Let_def) (simp add: demo_defs fork_defs, rule exI, rule conjI, rule refl, simp)
qed

lemma demo_run:
  "do_exit 3 2 demo_fork = Some demo_exit"
  "\<exists>r. do_wait (- 1) 0 (Some 1) demo_exit = Some (r, demo_wait)"
proof -
  obtain t where t: "pr_tasks demo_fork = [1 \<mapsto> demo_task\<lparr>p_children := [2], p_time_slice := 5\<rparr>, 2 \<mapsto> t]"
    "p_files t = Some 51" "p_mm t = None" "p_signal t = Some 70" "p_sighand t = Some 81" "p_fs t = Some 61"
    "p_children t = []" "p_pid t = 2" "p_ppid t = 1"
    using demo_fork_eval(2) by blast
  let ?s = "demo_proc\<lparr>pr_tasks := [1 \<mapsto> demo_task\<lparr>p_children := [2], p_time_slice := 5\<rparr>, 2 \<mapsto> t],
     pr_table := [Some 2, Some 1, None, None], pr_pids := pr_pids demo_fork,
     pr_files := (pr_files demo_proc)(51 \<mapsto> \<lparr>files_count = 1, max_fds = 0, next_fd = 0, close_on_exec = 0,
       open_fds = 0, fd_array = replicate 64 fd_empty\<rparr>),
     pr_fs := (pr_fs demo_proc)(61 \<mapsto> fs_alloc),
     pr_sighands := [81 \<mapsto> \<lparr>sh_count = 1, sh_action = replicate 64 sigaction_dfl\<rparr>],
     pr_creds := pr_creds demo_fork\<rparr>"
  have f: "demo_fork = ?s" using demo_fork_eval(1) unfolding t(1) .
  obtain s2 where x: "do_exit 3 2 ?s = Some s2" "do_wait (- 1) 0 (Some 1) s2 \<noteq> None"
    using t(2-) by (simp add: do_exit_def exit_close_def close_all_def notify_parent_def deliver_def mark_zombie_def
      upd_ptask_def demo_defs Let_def do_wait_def task_matches_pid_def opt_set_def reap_zombie_def reap_mm_def
      reap_signal_def reap_sighand_def reap_files_def unlink_sibling_def)
  have d: "do_exit 3 2 demo_fork = Some s2" by (subst f) (rule x(1))
  then have e: "demo_exit = s2" by (simp add: demo_exit_def)
  show "do_exit 3 2 demo_fork = Some demo_exit" using d e by simp
  show "\<exists>r. do_wait (- 1) 0 (Some 1) demo_exit = Some (r, demo_wait)"
    using x(2) unfolding e [symmetric] by (auto simp: demo_wait_def)
qed

theorem fork_exit_wait_frees_signal_witness:
  "\<exists>r. do_wait (- 1) 0 (Some 1) demo_exit = Some (r, demo_wait) \<and> r = Some (2, Some 768) \<and>
     pr_signals demo_wait 70 = None \<and> (\<exists>P3. pr_tasks demo_wait 1 = Some P3 \<and> p_signal P3 = Some 70)"
proof -
  obtain r where w: "do_wait (- 1) 0 (Some 1) demo_exit = Some (r, demo_wait)" using demo_run(2) by blast
  have d: "pr_tasks demo_proc 1 = Some demo_task" "pr_tasks demo_proc 2 = None"
    "current_cred (Some 1) (pr_creds demo_proc) \<noteq> None" "p_children demo_task = []" "p_signal demo_task = Some 70"
    "pr_signals demo_proc 70 = Some \<lparr>sg_count = 1, sg_pgrp = 1, sg_session = 1\<rparr>" "pr_pids demo_proc = pid_boot"
    by (simp_all add: demo_defs current_cred_def)
  show ?thesis
    using fork_exit_wait_frees_signal [OF d(1,2) demo_ready d(3) _ _ demo_fork_run d(4-6) _ demo_run(1) w] demo_pid w
    by (simp add: d(7) w_exitcode_def)
qed


text \<open>After the same history the child is gone, but its number is
  still marked used in the bitmap \<^verbatim>\<open>alloc_pid\<close> searches: \<^verbatim>\<open>reap_zombie\<close> calls \<^verbatim>\<open>pid_free\<close>, which
  works on a bitmap of its own.\<close>

theorem wait_leaks_pid:
  assumes "pr_tasks s pa = Some P" "pr_tasks s a = None" "fork_ready mem flags a P s"
    "current_cred (Some pa) (pr_creds s) \<noteq> None" "alloc_pid fuel (pr_pids s) = Some (pid, pool)" "0 \<le> pid"
    "task_fork mem fuel tramp flags stk ctid tls (Some pa) s = Some (Inr a, s1)" "p_children P = []"
    "do_exit code a s1 = Some s2" "do_wait (- 1) 0 (Some pa) s2 = Some (r, s3)"
  shows "pr_tasks s3 a = None \<and> pid_used (pid_bitmap (pr_pids s3)) (nat pid)"
proof -
  have "pid_used (pid_bitmap pool) (nat pid)"
    using assms(5,6) pid_used_set [of "pid_bitmap (pr_pids s)" "nat pid" "nat pid"]
    by (auto simp: alloc_pid_def Let_def split: option.splits if_splits)
  then show ?thesis using fork_exit_wait(2,3) [OF assms] by simp
qed

theorem wait_leaks_pid_witness:
  "pr_tasks demo_wait 2 = None \<and> pid_used (pid_bitmap (pr_pids demo_wait)) 2"
proof -
  obtain r where w: "do_wait (- 1) 0 (Some 1) demo_exit = Some (r, demo_wait)" using demo_run(2) by blast
  have d: "pr_tasks demo_proc 1 = Some demo_task" "pr_tasks demo_proc 2 = None"
    "current_cred (Some 1) (pr_creds demo_proc) \<noteq> None" "p_children demo_task = []" "pr_pids demo_proc = pid_boot"
    by (simp_all add: demo_defs current_cred_def)
  show ?thesis
    using wait_leaks_pid [OF d(1,2) demo_ready d(3) _ _ demo_fork_run d(4) demo_run(1) w] demo_pid
    by (simp add: d(5))
qed

text \<open>When there is no memory for the copy of the address space,
  \<^verbatim>\<open>task_fork\<close> returns \<open>-ENOMEM\<close> and frees the new task and its number, but the freed task is
  still the last of the parent's children; a later wait of the parent, whose children
  matched nothing before, reads it.\<close>

theorem fork_enomem_leaves_child:
  assumes "pr_tasks s pa = Some P" "fm_task mem = Some a" "a \<noteq> pa"
    "alloc_pid fuel (pr_pids s) = Some (pid, pool)" "0 \<le> pid"
    "p_mm P = Some m" "pr_mms s m = Some mm" "flags AND CLONE_VM = 0" "fm_mm mem = None" "p_children P = []"
  shows "\<exists>s'. task_fork mem fuel tramp flags stk ctid tls (Some pa) s = Some (Inl (- ENOMEM), s') \<and>
    pr_tasks s' a = None \<and> pr_tasks s' pa = Some (P\<lparr>p_children := [a]\<rparr>) \<and>
    do_wait wpid options (Some pa) s' = None"
proof -
  obtain s' where "task_fork mem fuel tramp flags stk ctid tls (Some pa) s = Some (Inl (- ENOMEM), s')"
    "pr_tasks s' a = None" "pr_tasks s' pa = Some (P\<lparr>p_children := [a]\<rparr>)"
    using task_fork_enomem [OF assms(1-9), of tramp stk ctid tls] assms(10) by auto
  then show ?thesis by (simp add: do_wait_def)
qed

theorem fork_enomem_leaves_child_witness:
  "\<exists>s'. task_fork demo_mem (Suc 1) 0 0 0 0 0 (Some 1) (demo_proc\<lparr>pr_tasks := [1 \<mapsto> demo_task\<lparr>p_mm := Some 80\<rparr>]\<rparr>) =
     Some (Inl (- 12), s') \<and> do_wait (- 1) 0 (Some 1) s' = None"
  using fork_enomem_leaves_child [of "demo_proc\<lparr>pr_tasks := [1 \<mapsto> demo_task\<lparr>p_mm := Some 80\<rparr>]\<rparr>" 1
      "demo_task\<lparr>p_mm := Some 80\<rparr>" demo_mem 2 "Suc 1" 2 _ 80 mm_zero 0 0 0 0 0 "- 1" 0] demo_pid
  by (auto simp: demo_defs)

end
