(* ===== verification/Tty.thy ===== *)
theory Tty
  imports Fifo
begin

text \<open>
  The terminal layer: \<^verbatim>\<open>drivers/tty/tty.c\<close> and the ring buffer and output helpers of
  \<^verbatim>\<open>drivers/tty/tty_ldisc.c\<close>.

  What the driver's \<^verbatim>\<open>write\<close> operation is given is collected in \<open>tt_out\<close>; the operation itself is
  \<open>tt_ops\<close>, which says how many bytes the driver reports as written. The spin locks around each
  function have no counterpart: the model is of one caller at a time. A line editor on lists
  (\<open>ed_step\<close>) specifies the canonical mode; the character handler refines it.
\<close>

section \<open>State\<close>

record termios =
  c_iflag :: u32
  c_oflag :: u32
  c_cflag :: u32
  c_lflag :: u32
  c_line :: u8
  c_cc :: "u8 list"
  c_ispeed :: u32
  c_ospeed :: u32

record winsize =
  ws_row :: u16
  ws_col :: u16
  ws_xpixel :: u16
  ws_ypixel :: u16

record tty_buffer =
  tb_data :: "u8 list"
  tb_head :: u64
  tb_tail :: u64
  tb_count :: u64

record tty_struct =
  tt_index :: int
  tt_termios :: termios
  tt_winsize :: winsize
  tt_read_buf :: tty_buffer
  tt_write_buf :: tty_buffer
  tt_canon_buf :: tty_buffer
  tt_line_buf :: "u8 list"
  tt_line_pos :: u64
  tt_session :: int
  tt_pgrp :: int
  tt_ops :: "(u8 list \<Rightarrow> int) option"
  tt_count :: int
  tt_stopped :: bool
  tt_hw_stopped :: bool
  tt_out :: "u8 list"

abbreviation (input) TTY_BUF_SIZE :: u64 where "TTY_BUF_SIZE \<equiv> 4096"

abbreviation (input) ISIG :: u32 where "ISIG \<equiv> 1"
abbreviation (input) ICANON :: u32 where "ICANON \<equiv> 2"
abbreviation (input) ECHO :: u32 where "ECHO \<equiv> 8"
abbreviation (input) ECHOE :: u32 where "ECHOE \<equiv> 0x10"
abbreviation (input) ECHOK :: u32 where "ECHOK \<equiv> 0x20"
abbreviation (input) OPOST :: u32 where "OPOST \<equiv> 1"
abbreviation (input) ONLCR :: u32 where "ONLCR \<equiv> 4"
abbreviation (input) OCRNL :: u32 where "OCRNL \<equiv> 8"

abbreviation (input) VINTR :: nat where "VINTR \<equiv> 0"
abbreviation (input) VQUIT :: nat where "VQUIT \<equiv> 1"
abbreviation (input) VERASE :: nat where "VERASE \<equiv> 2"
abbreviation (input) VKILL :: nat where "VKILL \<equiv> 3"
abbreviation (input) VEOF :: nat where "VEOF \<equiv> 4"
abbreviation (input) VSTART :: nat where "VSTART \<equiv> 8"
abbreviation (input) VSTOP :: nat where "VSTOP \<equiv> 9"
abbreviation (input) VSUSP :: nat where "VSUSP \<equiv> 10"
abbreviation (input) VEOL :: nat where "VEOL \<equiv> 11"

abbreviation (input) NL :: u8 where "NL \<equiv> 10"
abbreviation (input) CR :: u8 where "CR \<equiv> 13"
abbreviation (input) TAB :: u8 where "TAB \<equiv> 9"
abbreviation (input) BS :: u8 where "BS \<equiv> 8"
abbreviation (input) SP :: u8 where "SP \<equiv> 32"

definition lflag :: "termios \<Rightarrow> u32 \<Rightarrow> bool" where
  "lflag t m \<longleftrightarrow> c_lflag t AND m \<noteq> 0"

definition oflag :: "termios \<Rightarrow> u32 \<Rightarrow> bool" where
  "oflag t m \<longleftrightarrow> c_oflag t AND m \<noteq> 0"

definition default_termios :: termios where
  "default_termios =
     \<lparr>c_iflag = 0, c_oflag = 5, c_cflag = 0xB0, c_lflag = 0x803B, c_line = 0,
      c_cc = [0x03, 0x1c, 0x7f, 0x15, 0x04, 0, 1, 0, 0x11, 0x13, 0x1a, 0, 0x12, 0x0f, 0x17, 0x16, 0],
      c_ispeed = 38400, c_ospeed = 38400\<rparr>"

section \<open>Ring buffers\<close>

definition buf_init :: "tty_buffer \<Rightarrow> tty_buffer" where
  "buf_init b = b\<lparr>tb_head := 0, tb_tail := 0, tb_count := 0\<rparr>"

definition buf_empty :: "tty_buffer \<Rightarrow> bool" where
  "buf_empty b \<longleftrightarrow> tb_count b = 0"

definition buf_full :: "tty_buffer \<Rightarrow> bool" where
  "buf_full b \<longleftrightarrow> tb_count b = TTY_BUF_SIZE"

text \<open>\<open>None\<close> stands for the return value \<open>-1\<close>.\<close>

definition buf_put :: "tty_buffer \<Rightarrow> u8 \<Rightarrow> tty_buffer option" where
  "buf_put b c =
     (if buf_full b then None
      else Some (b\<lparr>tb_data := (tb_data b)[unat (tb_head b) := c],
                   tb_head := (tb_head b + 1) mod TTY_BUF_SIZE,
                   tb_count := tb_count b + 1\<rparr>))"

definition buf_get :: "tty_buffer \<Rightarrow> (u8 \<times> tty_buffer) option" where
  "buf_get b =
     (if buf_empty b then None
      else Some (tb_data b ! unat (tb_tail b),
                 b\<lparr>tb_tail := (tb_tail b + 1) mod TTY_BUF_SIZE, tb_count := tb_count b - 1\<rparr>))"

text \<open>The same ring in \<^verbatim>\<open>tty_ldisc.c\<close>, which reduces its indices with a mask.\<close>

definition rbuf_empty :: "tty_buffer \<Rightarrow> bool" where
  "rbuf_empty rb \<longleftrightarrow> tb_count rb = 0"

definition rbuf_full :: "tty_buffer \<Rightarrow> bool" where
  "rbuf_full rb \<longleftrightarrow> tb_count rb = TTY_BUF_SIZE"

definition rbuf_put :: "tty_buffer \<Rightarrow> u8 \<Rightarrow> tty_buffer option" where
  "rbuf_put rb c =
     (if rbuf_full rb then None
      else Some (rb\<lparr>tb_data := (tb_data rb)[unat (tb_head rb) := c],
                    tb_head := (tb_head rb + 1) AND (TTY_BUF_SIZE - 1),
                    tb_count := tb_count rb + 1\<rparr>))"

definition rbuf_get :: "tty_buffer \<Rightarrow> (u8 \<times> tty_buffer) option" where
  "rbuf_get rb =
     (if rbuf_empty rb then None
      else Some (tb_data rb ! unat (tb_tail rb),
                 rb\<lparr>tb_tail := (tb_tail rb + 1) AND (TTY_BUF_SIZE - 1), tb_count := tb_count rb - 1\<rparr>))"

definition rbuf_count :: "tty_buffer \<Rightarrow> u64" where
  "rbuf_count rb = tb_count rb"

definition buf_zero :: tty_buffer where
  "buf_zero = \<lparr>tb_data = replicate 4096 0, tb_head = 0, tb_tail = 0, tb_count = 0\<rparr>"

definition tty_alloc :: "bool \<Rightarrow> int \<Rightarrow> tty_struct option" where
  "tty_alloc mem_ok index =
     (if \<not> mem_ok then None
      else Some \<lparr>tt_index = index, tt_termios = default_termios,
                 tt_winsize = \<lparr>ws_row = 25, ws_col = 80, ws_xpixel = 0, ws_ypixel = 0\<rparr>,
                 tt_read_buf = buf_init buf_zero, tt_write_buf = buf_init buf_zero,
                 tt_canon_buf = buf_init buf_zero, tt_line_buf = replicate 4096 0, tt_line_pos = 0,
                 tt_session = 0, tt_pgrp = 0, tt_ops = None, tt_count = 0, tt_stopped = False,
                 tt_hw_stopped = False, tt_out = []\<rparr>)"

section \<open>Input\<close>

text \<open>\<^verbatim>\<open>tty->ops->write\<close>, when there is one; the result is what the driver returns.\<close>

definition ops_write :: "u8 list \<Rightarrow> tty_struct \<Rightarrow> int \<times> tty_struct" where
  "ops_write bs t =
     (case tt_ops t of None \<Rightarrow> (0, t) | Some f \<Rightarrow> (f bs, t\<lparr>tt_out := tt_out t @ bs\<rparr>))"

text \<open>The calls that send the signals are commented out in the source.\<close>

definition tty_handle_special :: "tty_struct \<Rightarrow> u8 \<Rightarrow> bool" where
  "tty_handle_special t c =
     (let tm = tt_termios t in
      if \<not> lflag tm ISIG then False
      else c = c_cc tm ! VINTR \<or> c = c_cc tm ! VQUIT \<or> c = c_cc tm ! VSUSP)"

definition tty_echo :: "u8 \<Rightarrow> tty_struct \<Rightarrow> tty_struct" where
  "tty_echo c t =
     (if \<not> lflag (tt_termios t) ECHO then t
      else if c < 32 \<and> c \<noteq> NL \<and> c \<noteq> TAB \<and> c \<noteq> CR then snd (ops_write [94, c + 64] t)
      else snd (ops_write [c] t))"

function kill_line :: "tty_struct \<Rightarrow> tty_struct" where
  "kill_line t =
     (if 0 < tt_line_pos t
      then let t1 = t\<lparr>tt_line_pos := tt_line_pos t - 1\<rparr>
           in kill_line (if lflag (tt_termios t1) ECHOK then snd (ops_write [BS, SP, BS] t1) else t1)
      else t)"
  by pat_completeness auto

lemma ops_write_line_pos [simp]: "tt_line_pos (snd (ops_write bs t)) = tt_line_pos t"
  by (simp add: ops_write_def split: option.splits)

termination kill_line
proof (relation "measure (\<lambda>t. unat (tt_line_pos t))", goal_cases)
  case (2 t t1)
  have "unat (tt_line_pos t - 1) < unat (tt_line_pos t)"
    using 2(1) by (subst unat_pred_word) (auto simp: word_less_nat_alt)
  then show ?case using 2(2) by simp
qed simp

declare kill_line.simps [simp del]

text \<open>The loop that moves the finished line; a full buffer drops what does not fit.\<close>

definition buf_put_drop :: "u8 \<Rightarrow> tty_buffer \<Rightarrow> tty_buffer" where
  "buf_put_drop c b = (case buf_put b c of None \<Rightarrow> b | Some b' \<Rightarrow> b')"

definition line_to_read :: "u8 \<Rightarrow> u8 list \<Rightarrow> tty_buffer \<Rightarrow> tty_buffer" where
  "line_to_read eof line b = fold (\<lambda>c b. if c \<noteq> eof then buf_put_drop c b else b) line b"

definition tty_receive_char :: "u8 \<Rightarrow> tty_struct \<Rightarrow> tty_struct" where
  "tty_receive_char c t =
     (let tm = tt_termios t in
      if tty_handle_special t c then t
      else if c = c_cc tm ! VSTOP then t\<lparr>tt_stopped := True\<rparr>
      else if c = c_cc tm ! VSTART then t\<lparr>tt_stopped := False\<rparr>
      else if lflag tm ICANON
      then if c = c_cc tm ! VERASE
           then if 0 < tt_line_pos t
                then let t1 = t\<lparr>tt_line_pos := tt_line_pos t - 1\<rparr>
                     in if lflag tm ECHOE then snd (ops_write [BS, SP, BS] t1) else t1
                else t
           else if c = c_cc tm ! VKILL then kill_line t
           else
             let t1 = (if tt_line_pos t < TTY_BUF_SIZE - 1
                       then t\<lparr>tt_line_buf := (tt_line_buf t)[unat (tt_line_pos t) := c],
                              tt_line_pos := tt_line_pos t + 1\<rparr>
                       else t);
                 t2 = tty_echo c t1
             in if c = NL \<or> c = c_cc tm ! VEOL \<or> c = c_cc tm ! VEOF
                then t2\<lparr>tt_read_buf := line_to_read (c_cc tm ! VEOF)
                                           (take (unat (tt_line_pos t2)) (tt_line_buf t2)) (tt_read_buf t2),
                        tt_line_pos := 0\<rparr>
                else t2
      else tty_echo c (t\<lparr>tt_read_buf := buf_put_drop c (tt_read_buf t)\<rparr>))"

section \<open>Reading and writing\<close>

fun tty_read_loop :: "bool \<Rightarrow> nat \<Rightarrow> tty_buffer \<Rightarrow> u8 list \<times> tty_buffer" where
  "tty_read_loop canon 0 b = ([], b)"
| "tty_read_loop canon (Suc n) b =
     (case buf_get b of None \<Rightarrow> ([], b)
      | Some (c, b') \<Rightarrow>
          if canon \<and> c = NL then ([c], b')
          else (case tty_read_loop canon n b' of (cs, b'') \<Rightarrow> (c # cs, b'')))"

text \<open>The bytes stored in the caller's buffer, their number being the return value.\<close>

definition tty_read :: "bool \<Rightarrow> nat \<Rightarrow> tty_struct option \<Rightarrow> (int \<times> u8 list) \<times> tty_struct option" where
  "tty_read buf_ok count tty =
     (case tty of None \<Rightarrow> ((- EINVAL, []), tty)
      | Some t \<Rightarrow>
          if \<not> buf_ok then ((- EINVAL, []), tty)
          else (case tty_read_loop (lflag (tt_termios t) ICANON) count (tt_read_buf t) of
                  (cs, b) \<Rightarrow> ((int (length cs), cs), Some (t\<lparr>tt_read_buf := b\<rparr>))))"

fun tty_post :: "u8 list \<Rightarrow> tty_struct \<Rightarrow> tty_struct" where
  "tty_post [] t = t"
| "tty_post (c # cs) t =
     tty_post cs (if c = NL \<and> oflag (tt_termios t) ONLCR then snd (ops_write [CR, NL] t)
                  else snd (ops_write [c] t))"

text \<open>While output is stopped the call spins, without ever storing anything: the outcome \<open>None\<close>.\<close>

definition tty_write :: "bool \<Rightarrow> u8 list \<Rightarrow> tty_struct option \<Rightarrow> (int \<times> tty_struct option) option" where
  "tty_write buf_ok bs tty =
     (case tty of None \<Rightarrow> Some (- EINVAL, tty)
      | Some t \<Rightarrow>
          if \<not> buf_ok then Some (- EINVAL, tty)
          else if tt_stopped t then None
          else if oflag (tt_termios t) OPOST then Some (int (length bs), Some (tty_post bs t))
          else (case ops_write bs t of (n, t') \<Rightarrow> Some (n, Some t')))"

text \<open>What an \<^verbatim>\<open>ioctl\<close> reads at its argument is given as a value of the type it is read with, and what it
  stores there is the third result.\<close>

datatype ioctl_arg = NoArg | TermiosArg termios | WinsizeArg winsize | PgrpArg int

definition tty_ioctl :: "u32 \<Rightarrow> ioctl_arg \<Rightarrow> tty_struct \<Rightarrow> int \<times> ioctl_arg \<times> tty_struct" where
  "tty_ioctl cmd arg t =
     (if cmd = 0x5401 then (0, TermiosArg (tt_termios t), t)
      else if cmd = 0x5402 \<or> cmd = 0x5403 \<or> cmd = 0x5404
      then (case arg of TermiosArg tm \<Rightarrow> (0, NoArg, t\<lparr>tt_termios := tm\<rparr>) | _ \<Rightarrow> (0, NoArg, t))
      else if cmd = 0x5413 then (0, WinsizeArg (tt_winsize t), t)
      else if cmd = 0x5414
      then (case arg of WinsizeArg w \<Rightarrow> (0, NoArg, t\<lparr>tt_winsize := w\<rparr>) | _ \<Rightarrow> (0, NoArg, t))
      else if cmd = 0x540F then (0, PgrpArg (tt_pgrp t), t)
      else if cmd = 0x5410
      then (case arg of PgrpArg p \<Rightarrow> (0, NoArg, t\<lparr>tt_pgrp := p\<rparr>) | _ \<Rightarrow> (0, NoArg, t))
      else if cmd = 0x540E then (0, NoArg, t)
      else (- EINVAL, NoArg, t))"

definition console_write :: "u8 list \<Rightarrow> int" where
  "console_write bs = int (length bs)"

definition tty_init :: "bool \<Rightarrow> tty_struct option" where
  "tty_init mem_ok =
     (case tty_alloc mem_ok 0 of None \<Rightarrow> None | Some t \<Rightarrow> Some (t\<lparr>tt_ops := Some console_write\<rparr>))"

definition tty_keyboard_input :: "u8 \<Rightarrow> tty_struct option \<Rightarrow> tty_struct option" where
  "tty_keyboard_input c console = map_option (tty_receive_char c) console"

text \<open>The output helpers of \<^verbatim>\<open>tty_ldisc.c\<close>, which write one character at a time.\<close>

definition tty_output_char :: "u8 \<Rightarrow> tty_struct \<Rightarrow> tty_struct" where
  "tty_output_char c t =
     (let tm = tt_termios t;
          t1 = (if oflag tm OPOST \<and> c = NL \<and> oflag tm ONLCR then snd (ops_write [CR] t) else t);
          c1 = (if oflag tm OPOST \<and> c = CR \<and> oflag tm OCRNL then NL else c)
      in snd (ops_write [c1] t1))"

definition tty_echo_char :: "u8 \<Rightarrow> tty_struct \<Rightarrow> tty_struct" where
  "tty_echo_char c t =
     (if \<not> lflag (tt_termios t) ECHO then t
      else if c < 32 \<and> c \<noteq> NL \<and> c \<noteq> CR \<and> c \<noteq> TAB
      then tty_output_char (c + 64) (tty_output_char 94 t)
      else tty_output_char c t)"

definition tty_console_write :: "u8 list \<Rightarrow> tty_struct option \<Rightarrow> tty_struct option" where
  "tty_console_write str console = map_option (fold tty_output_char str) console"


section \<open>Both rings are bounded queues\<close>

definition buf_inv :: "tty_buffer \<Rightarrow> bool" where
  "buf_inv b \<longleftrightarrow> length (tb_data b) = 4096 \<and>
     ring_ok (tb_data b) (unat (tb_head b)) (unat (tb_tail b)) (unat (tb_count b))"

definition buf_contents :: "tty_buffer \<Rightarrow> u8 list" where
  "buf_contents b = ring_contents (tb_data b) (unat (tb_tail b)) (unat (tb_count b))"

lemma buf_index:
  fixes i :: u64
  assumes "unat i < 4096"
  shows "unat ((i + 1) mod TTY_BUF_SIZE) = Suc (unat i) mod 4096"
proof -
  have "unat (i + 1) = Suc (unat i)" using assms by (intro unat_Suc_word) auto
  then show ?thesis by (simp add: unat_mod)
qed

lemma mask_is_mod: "(i::u64) AND (TTY_BUF_SIZE - 1) = i mod TTY_BUF_SIZE"
  using mask_index_word [of "4096::u64" 12 i] by (intro word_unat_eq_iff [THEN iffD2]) (simp add: unat_mod)

lemma buf_put_ok:
  assumes "buf_inv b" "buf_put b c = Some b'"
  shows "buf_contents b' = buf_contents b @ [c]" "buf_inv b'"
proof -
  let ?d = "tb_data b" and ?h = "unat (tb_head b)" and ?t = "unat (tb_tail b)" and ?n = "unat (tb_count b)"
  have ok: "ring_ok ?d ?h ?t ?n" and len: "length ?d = 4096" using assms(1) by (auto simp: buf_inv_def)
  have nf: "tb_count b \<noteq> 4096" and b': "b' = b\<lparr>tb_data := ?d[?h := c],
      tb_head := (tb_head b + 1) mod 4096, tb_count := tb_count b + 1\<rparr>"
    using assms(2) by (auto simp: buf_put_def buf_full_def split: if_splits)
  have "?n \<noteq> 4096" using nf by (simp add: word_unat_eq_iff)
  then have lt: "?n < length ?d" using ring_okD(3) [OF ok] len by simp
  have n: "unat (tb_count b + 1) = Suc ?n" using lt len by (intro unat_Suc_word) auto
  have h: "unat ((tb_head b + 1) mod 4096) = Suc ?h mod length ?d"
    using buf_index ring_okD(1) [OF ok] len by simp
  show "buf_contents b' = buf_contents b @ [c]"
    using ring_store(1) [OF ok lt] n by (simp add: b' buf_contents_def)
  show "buf_inv b'"
    using ring_store(2) [OF ok lt, of c] n h len by (simp add: b' buf_inv_def)
qed

lemma buf_get_ok:
  assumes "buf_inv b" "buf_get b = Some (c, b')"
  shows "buf_contents b = c # buf_contents b'" "buf_inv b'"
proof -
  let ?d = "tb_data b" and ?h = "unat (tb_head b)" and ?t = "unat (tb_tail b)" and ?n = "unat (tb_count b)"
  have ok: "ring_ok ?d ?h ?t ?n" and len: "length ?d = 4096" using assms(1) by (auto simp: buf_inv_def)
  have ne: "tb_count b \<noteq> 0" and c: "c = ?d ! ?t"
    and b': "b' = b\<lparr>tb_tail := (tb_tail b + 1) mod 4096, tb_count := tb_count b - 1\<rparr>"
    using assms(2) by (auto simp: buf_get_def buf_empty_def split: if_splits)
  have pos: "0 < ?n" using ne by (simp add: unat_gt_0)
  have n: "unat (tb_count b - 1) = ?n - 1" using pos by (rule unat_pred_word)
  have t: "unat ((tb_tail b + 1) mod 4096) = Suc ?t mod length ?d"
    using buf_index ring_okD(2) [OF ok] len by simp
  have ok': "ring_ok ?d ?h ?t (Suc (?n - 1))" using ok pos by simp
  show "buf_contents b = c # buf_contents b'"
    using ring_fetch(1) [OF ok'] pos n t c by (simp add: b' buf_contents_def)
  show "buf_inv b'" using ring_fetch(2) [OF ok'] n t len by (simp add: b' buf_inv_def)
qed

interpretation tq: bounded_fifo buf_put buf_get buf_contents "\<lambda>_. 4096" buf_inv
proof
  fix b x assume i: "buf_inv b"
  then show "length (buf_contents b) \<le> 4096" by (auto simp: buf_inv_def ring_ok_def buf_contents_def)
  show "(buf_put b x = None) = (length (buf_contents b) = 4096)"
    by (simp add: buf_put_def buf_full_def buf_contents_def word_unat_eq_iff)
  show "(buf_get b = None) = (buf_contents b = [])"
    by (auto simp: buf_get_def buf_empty_def buf_contents_def ring_contents_def unat_eq_0)
qed (auto dest: buf_put_ok buf_get_ok)

lemma rbuf_is_buf: "rbuf_put = buf_put" "rbuf_get = buf_get"
  by (auto simp: fun_eq_iff rbuf_put_def buf_put_def rbuf_get_def buf_get_def rbuf_full_def buf_full_def
      rbuf_empty_def buf_empty_def mask_is_mod [simplified])

interpretation rq: bounded_fifo rbuf_put rbuf_get buf_contents "\<lambda>_. 4096" buf_inv
  unfolding rbuf_is_buf by (rule tq.bounded_fifo_axioms)


section \<open>The line editor\<close>

text \<open>The specification: the line being typed and the bytes ready to be read.\<close>

definition special :: "termios \<Rightarrow> u8 \<Rightarrow> bool" where
  "special tm c \<longleftrightarrow> lflag tm ISIG \<and> c \<in> {c_cc tm ! VINTR, c_cc tm ! VQUIT, c_cc tm ! VSUSP}"

definition ends_line :: "termios \<Rightarrow> u8 \<Rightarrow> bool" where
  "ends_line tm c \<longleftrightarrow> c \<in> {NL, c_cc tm ! VEOL, c_cc tm ! VEOF}"

definition ed_step :: "termios \<Rightarrow> u8 \<Rightarrow> u8 list \<times> u8 list \<Rightarrow> u8 list \<times> u8 list" where
  "ed_step tm c e =
     (case e of (line, ready) \<Rightarrow>
        if special tm c \<or> c = c_cc tm ! VSTOP \<or> c = c_cc tm ! VSTART then (line, ready)
        else if \<not> lflag tm ICANON then (line, take 4096 (ready @ [c]))
        else if c = c_cc tm ! VERASE then (butlast line, ready)
        else if c = c_cc tm ! VKILL then ([], ready)
        else let line' = take 4095 (line @ [c])
             in if ends_line tm c then ([], take 4096 (ready @ filter (\<lambda>x. x \<noteq> c_cc tm ! VEOF) line'))
                else (line', ready))"

definition ed_read :: "termios \<Rightarrow> nat \<Rightarrow> u8 list \<Rightarrow> nat" where
  "ed_read tm n ready =
     (if lflag tm ICANON \<and> NL \<in> set (take n ready) then Suc (length (takeWhile (\<lambda>c. c \<noteq> NL) ready))
      else min n (length ready))"

definition tty_inv :: "tty_struct \<Rightarrow> bool" where
  "tty_inv t \<longleftrightarrow> buf_inv (tt_read_buf t) \<and> length (tt_line_buf t) = 4096 \<and> unat (tt_line_pos t) \<le> 4095"

definition tty_abs :: "tty_struct \<Rightarrow> u8 list \<times> u8 list" where
  "tty_abs t = (take (unat (tt_line_pos t)) (tt_line_buf t), buf_contents (tt_read_buf t))"

lemma ops_write_frame [simp]:
  "tt_termios (snd (ops_write bs t)) = tt_termios t" "tt_read_buf (snd (ops_write bs t)) = tt_read_buf t"
  "tt_line_buf (snd (ops_write bs t)) = tt_line_buf t"
  by (simp_all add: ops_write_def split: option.splits)

lemma tty_echo_frame [simp]:
  "tt_termios (tty_echo c t) = tt_termios t" "tt_read_buf (tty_echo c t) = tt_read_buf t"
  "tt_line_buf (tty_echo c t) = tt_line_buf t" "tt_line_pos (tty_echo c t) = tt_line_pos t"
  by (simp_all add: tty_echo_def)

lemma tty_inv_cong:
  "tt_read_buf t' = tt_read_buf t \<Longrightarrow> tt_line_buf t' = tt_line_buf t \<Longrightarrow> tt_line_pos t' = tt_line_pos t \<Longrightarrow>
   tty_inv t' = tty_inv t \<and> tty_abs t' = tty_abs t"
  by (simp add: tty_inv_def tty_abs_def)

lemma kill_line_frame:
  "tt_termios (kill_line t) = tt_termios t \<and> tt_read_buf (kill_line t) = tt_read_buf t \<and>
   tt_line_buf (kill_line t) = tt_line_buf t \<and> tt_line_pos (kill_line t) = 0"
proof (induction t rule: kill_line.induct)
  case (1 t)
  show ?case
  proof (cases "0 < tt_line_pos t")
    case True
    then show ?thesis using 1 [OF True refl] by (subst (1 2 3 4) kill_line.simps) (simp add: Let_def)
  next
    case False
    then show ?thesis by (simp add: kill_line.simps [of t] word_gt_0)
  qed
qed

lemma buf_put_drop_spec:
  assumes "buf_inv b"
  shows "buf_contents (buf_put_drop c b) = take 4096 (buf_contents b @ [c])" "buf_inv (buf_put_drop c b)"
proof -
  have "length (buf_contents b) \<le> 4096" using tq.contents_le_cap [OF assms] .
  then show "buf_contents (buf_put_drop c b) = take 4096 (buf_contents b @ [c])"
    using tq.put_full [OF assms, of c] tq.put_contents [OF assms, of c]
    by (cases "buf_put b c") (auto simp: buf_put_drop_def)
  show "buf_inv (buf_put_drop c b)"
    using assms tq.put_inv [OF assms, of c] by (auto simp: buf_put_drop_def split: option.splits)
qed

lemma take_take_append: "take n (take n xs @ ys) = take n (xs @ ys)"
  by (cases "n \<le> length xs") simp_all

lemma line_to_read_spec:
  assumes "buf_inv b"
  shows "buf_contents (line_to_read eof line b) = take 4096 (buf_contents b @ filter (\<lambda>x. x \<noteq> eof) line) \<and>
    buf_inv (line_to_read eof line b)"
  using assms
proof (induction line arbitrary: b)
  case Nil
  then show ?case using tq.contents_le_cap [OF Nil] by (simp add: line_to_read_def)
next
  case (Cons c line)
  have "line_to_read eof (c # line) b = line_to_read eof line (if c \<noteq> eof then buf_put_drop c b else b)"
    by (simp add: line_to_read_def)
  then show ?case
    using Cons.IH [of b] Cons.IH [of "buf_put_drop c b"] buf_put_drop_spec [OF Cons.prems, of c] Cons.prems
    by (simp add: take_take_append del: take_append)
qed

definition store_char :: "u8 \<Rightarrow> tty_struct \<Rightarrow> tty_struct" where
  "store_char c t =
     (if tt_line_pos t < TTY_BUF_SIZE - 1
      then t\<lparr>tt_line_buf := (tt_line_buf t)[unat (tt_line_pos t) := c], tt_line_pos := tt_line_pos t + 1\<rparr>
      else t)"

lemma store_char_spec:
  assumes "tty_inv t"
  shows "take (unat (tt_line_pos (store_char c t))) (tt_line_buf (store_char c t)) =
      take 4095 (take (unat (tt_line_pos t)) (tt_line_buf t) @ [c])"
    "length (tt_line_buf (store_char c t)) = 4096" "unat (tt_line_pos (store_char c t)) \<le> 4095"
    "tt_read_buf (store_char c t) = tt_read_buf t" "tt_termios (store_char c t) = tt_termios t"
proof -
  have len: "length (tt_line_buf t) = 4096" and le: "unat (tt_line_pos t) \<le> 4095"
    using assms by (auto simp: tty_inv_def)
  have lt: "tt_line_pos t < 4095 \<longleftrightarrow> unat (tt_line_pos t) < 4095" by (simp add: word_less_nat_alt)
  have "unat (tt_line_pos t + 1) = Suc (unat (tt_line_pos t))" if "unat (tt_line_pos t) < 4095"
    using that by (intro unat_Suc_word) auto
  then show "take (unat (tt_line_pos (store_char c t))) (tt_line_buf (store_char c t)) =
      take 4095 (take (unat (tt_line_pos t)) (tt_line_buf t) @ [c])"
    "length (tt_line_buf (store_char c t)) = 4096" "unat (tt_line_pos (store_char c t)) \<le> 4095"
    "tt_read_buf (store_char c t) = tt_read_buf t" "tt_termios (store_char c t) = tt_termios t"
    using len le by (auto simp: store_char_def lt take_Suc_conv_app_nth)
qed

lemma tty_erase_spec:
  assumes "tty_inv t" "0 < tt_line_pos t"
  shows "take (unat (tt_line_pos t - 1)) (tt_line_buf t) = butlast (take (unat (tt_line_pos t)) (tt_line_buf t))"
    "unat (tt_line_pos t - 1) \<le> 4095"
proof -
  have "unat (tt_line_pos t - 1) = unat (tt_line_pos t) - 1"
    using assms(2) by (intro unat_pred_word) (simp add: word_less_nat_alt)
  then show "take (unat (tt_line_pos t - 1)) (tt_line_buf t) = butlast (take (unat (tt_line_pos t)) (tt_line_buf t))"
    "unat (tt_line_pos t - 1) \<le> 4095"
    using assms(1) by (simp_all add: tty_inv_def butlast_take le_diff_conv)
qed

lemma tty_receive_char_refines:
  assumes "tty_inv t"
  shows "tty_abs (tty_receive_char c t) = ed_step (tt_termios t) c (tty_abs t) \<and>
    tty_inv (tty_receive_char c t) \<and> tt_termios (tty_receive_char c t) = tt_termios t"
proof -
  let ?tm = "tt_termios t"
  have sp: "tty_handle_special t c = special ?tm c" by (auto simp: tty_handle_special_def special_def Let_def)
  have b: "buf_inv (tt_read_buf t)" using assms by (simp add: tty_inv_def)
  consider (control) "special ?tm c \<or> c = c_cc ?tm ! VSTOP \<or> c = c_cc ?tm ! VSTART"
    | (raw) "\<not> (special ?tm c \<or> c = c_cc ?tm ! VSTOP \<or> c = c_cc ?tm ! VSTART)" "\<not> lflag ?tm ICANON"
    | (erase) "\<not> (special ?tm c \<or> c = c_cc ?tm ! VSTOP \<or> c = c_cc ?tm ! VSTART)" "lflag ?tm ICANON"
        "c = c_cc ?tm ! VERASE"
    | (kill) "\<not> (special ?tm c \<or> c = c_cc ?tm ! VSTOP \<or> c = c_cc ?tm ! VSTART)" "lflag ?tm ICANON"
        "c \<noteq> c_cc ?tm ! VERASE" "c = c_cc ?tm ! VKILL"
    | (plain) "\<not> (special ?tm c \<or> c = c_cc ?tm ! VSTOP \<or> c = c_cc ?tm ! VSTART)" "lflag ?tm ICANON"
        "c \<noteq> c_cc ?tm ! VERASE" "c \<noteq> c_cc ?tm ! VKILL"
    by blast
  then show ?thesis
  proof cases
    case control
    then have "tty_receive_char c t \<in> {t, t\<lparr>tt_stopped := True\<rparr>, t\<lparr>tt_stopped := False\<rparr>}"
      unfolding tty_receive_char_def Let_def sp by (simp only: if_cancel split: if_split) blast
    moreover have "ed_step ?tm c (tty_abs t) = tty_abs t" using control by (simp add: ed_step_def split: prod.splits)
    ultimately show ?thesis using assms by (auto simp: tty_abs_def tty_inv_def)
  next
    case raw
    then show ?thesis using assms sp buf_put_drop_spec [OF b, of c]
      by (simp add: tty_receive_char_def ed_step_def tty_abs_def tty_inv_def Let_def del: take_append)
  next
    case erase
    have "tt_line_pos t = 0 \<Longrightarrow> take (unat (tt_line_pos t)) (tt_line_buf t) = []" by simp
    then show ?thesis using erase assms sp tty_erase_spec [OF assms]
      by (cases "0 < tt_line_pos t")
        (simp_all add: tty_receive_char_def ed_step_def tty_abs_def tty_inv_def Let_def word_gt_0)
  next
    case kill
    then show ?thesis using assms sp kill_line_frame [of t]
      by (simp add: tty_receive_char_def ed_step_def tty_abs_def tty_inv_def Let_def)
  next
    case plain
    let ?t2 = "tty_echo c (store_char c t)"
    have r: "tty_receive_char c t =
       (if ends_line ?tm c
        then ?t2\<lparr>tt_read_buf := line_to_read (c_cc ?tm ! VEOF) (take (unat (tt_line_pos ?t2)) (tt_line_buf ?t2)) (tt_read_buf ?t2),
                 tt_line_pos := 0\<rparr>
        else ?t2)"
      using plain sp unfolding tty_receive_char_def store_char_def ends_line_def by (simp add: Let_def)
    note st = store_char_spec [OF assms, of c]
    show ?thesis unfolding r using plain st b line_to_read_spec [OF b]
      by (simp add: ed_step_def tty_abs_def tty_inv_def Let_def del: take_append)
  qed
qed


section \<open>Sessions\<close>

text \<open>A terminal session: characters arrive and reads are made, in any order.\<close>

datatype tty_op = Typed u8 | Reading nat

fun run_tty :: "tty_op list \<Rightarrow> tty_struct \<Rightarrow> u8 list list \<times> tty_struct" where
  "run_tty [] t = ([], t)"
| "run_tty (Typed c # ops) t = run_tty ops (tty_receive_char c t)"
| "run_tty (Reading n # ops) t =
     (case tty_read True n (Some t) of
        ((_, cs), Some t') \<Rightarrow> (case run_tty ops t' of (out, t'') \<Rightarrow> (cs # out, t''))
      | ((_, cs), None) \<Rightarrow> ([cs], t))"

fun run_ed :: "termios \<Rightarrow> tty_op list \<Rightarrow> u8 list \<times> u8 list \<Rightarrow> u8 list list \<times> u8 list \<times> u8 list" where
  "run_ed tm [] e = ([], e)"
| "run_ed tm (Typed c # ops) e = run_ed tm ops (ed_step tm c e)"
| "run_ed tm (Reading n # ops) e =
     (case e of (line, ready) \<Rightarrow>
        let k = ed_read tm n ready in
        (case run_ed tm ops (line, drop k ready) of (out, e') \<Rightarrow> (take k ready # out, e')))"

lemma tty_read_loop_spec:
  assumes "buf_inv b"
  shows "case tty_read_loop canon n b of (cs, b') \<Rightarrow>
     let k = (if canon \<and> NL \<in> set (take n (buf_contents b))
              then Suc (length (takeWhile (\<lambda>c. c \<noteq> NL) (buf_contents b)))
              else min n (length (buf_contents b)))
     in cs = take k (buf_contents b) \<and> buf_contents b' = drop k (buf_contents b) \<and> buf_inv b'"
  using assms
proof (induction n arbitrary: b)
  case (Suc n)
  show ?case
  proof (cases "buf_get b")
    case None
    then show ?thesis using tq.get_empty [OF Suc.prems] Suc.prems by simp
  next
    case (Some p)
    obtain c b1 where p: "p = (c, b1)" by fastforce
    have e: "buf_contents b = c # buf_contents b1" "buf_inv b1"
      using tq.get_contents [OF Suc.prems] tq.get_inv [OF Suc.prems] Some p by auto
    then show ?thesis using Suc.IH [OF e(2)] Some p
      by (auto simp: Let_def split: prod.splits)
  qed
qed simp

lemma takeWhile_shorter: "x \<in> set xs \<Longrightarrow> \<not> P x \<Longrightarrow> length (takeWhile P xs) < length xs"
  by (induction xs) auto

lemma tty_read_refines:
  assumes "tty_inv t"
  shows "\<exists>t'. tty_read True n (Some t) = ((int (ed_read (tt_termios t) n (snd (tty_abs t))),
        take (ed_read (tt_termios t) n (snd (tty_abs t))) (snd (tty_abs t))), Some t') \<and>
     tty_abs t' = (fst (tty_abs t), drop (ed_read (tt_termios t) n (snd (tty_abs t))) (snd (tty_abs t))) \<and>
     tty_inv t' \<and> tt_termios t' = tt_termios t"
proof -
  let ?r = "buf_contents (tt_read_buf t)" and ?k = "ed_read (tt_termios t) n (buf_contents (tt_read_buf t))"
  obtain cs b where l: "tty_read_loop (lflag (tt_termios t) ICANON) n (tt_read_buf t) = (cs, b)" by fastforce
  have s: "cs = take ?k ?r" "buf_contents b = drop ?k ?r" "buf_inv b"
    using tty_read_loop_spec [of "tt_read_buf t" "lflag (tt_termios t) ICANON" n] assms l
    by (auto simp: tty_inv_def ed_read_def Let_def)
  have "?k \<le> length ?r"
    using takeWhile_shorter [of NL ?r "\<lambda>c. c \<noteq> NL"] by (auto simp: ed_read_def Suc_le_eq dest: in_set_takeD)
  then show ?thesis using assms s l by (auto simp: tty_read_def tty_abs_def tty_inv_def)
qed

lemma run_tty_refines:
  assumes "tty_inv t"
  shows "fst (run_tty ops t) = fst (run_ed (tt_termios t) ops (tty_abs t)) \<and>
    tty_abs (snd (run_tty ops t)) = snd (run_ed (tt_termios t) ops (tty_abs t)) \<and> tty_inv (snd (run_tty ops t))"
  using assms
proof (induction ops arbitrary: t)
  case (Cons op ops)
  show ?case
  proof (cases op)
    case (Typed c)
    then show ?thesis using Cons.IH [of "tty_receive_char c t"] tty_receive_char_refines [OF Cons.prems, of c] by simp
  next
    case (Reading n)
    obtain line ready where a: "tty_abs t = (line, ready)" by fastforce
    obtain t' where t': "tty_read True n (Some t) = ((int (ed_read (tt_termios t) n ready),
        take (ed_read (tt_termios t) n ready) ready), Some t')"
      "tty_abs t' = (line, drop (ed_read (tt_termios t) n ready) ready)" "tty_inv t'" "tt_termios t' = tt_termios t"
      using tty_read_refines [OF Cons.prems, of n] by (auto simp: a)
    show ?thesis using Cons.IH [OF t'(3)] t' Reading a by (auto simp: Let_def split: prod.splits)
  qed
qed simp


section \<open>Lines\<close>

text \<open>A character the canonical mode does nothing special with.\<close>

definition ordinary :: "termios \<Rightarrow> u8 \<Rightarrow> bool" where
  "ordinary tm c \<longleftrightarrow> \<not> special tm c \<and> \<not> ends_line tm c \<and>
     c \<notin> {c_cc tm ! VSTOP, c_cc tm ! VSTART, c_cc tm ! VERASE, c_cc tm ! VKILL}"

definition nl_ends :: "termios \<Rightarrow> bool" where
  "nl_ends tm \<longleftrightarrow> lflag tm ICANON \<and> \<not> special tm NL \<and>
     NL \<notin> {c_cc tm ! VSTOP, c_cc tm ! VSTART, c_cc tm ! VERASE, c_cc tm ! VKILL, c_cc tm ! VEOF}"

lemma ed_ordinary:
  assumes "lflag tm ICANON" "\<forall>c \<in> set cs. ordinary tm c" "length (line @ cs) \<le> 4095"
  shows "fold (ed_step tm) cs (line, ready) = (line @ cs, ready)"
  using assms(2,3)
proof (induction cs arbitrary: line)
  case (Cons c cs)
  have "ed_step tm c (line, ready) = (line @ [c], ready)"
    using Cons.prems assms(1) by (simp add: ed_step_def ordinary_def Let_def)
  then show ?case using Cons by simp
qed simp

lemma ed_newline:
  assumes "nl_ends tm" "\<forall>c \<in> set line. c \<noteq> c_cc tm ! VEOF"
  shows "ed_step tm NL (line, ready) = ([], take 4096 (ready @ take 4095 (line @ [NL])))"
proof -
  have "filter (\<lambda>x. x \<noteq> c_cc tm ! VEOF) (take 4095 (line @ [NL])) = take 4095 (line @ [NL])"
    using assms by (intro filter_True) (auto simp: nl_ends_def dest: in_set_takeD)
  then show ?thesis using assms(1) by (simp add: ed_step_def nl_ends_def ends_line_def Let_def del: take_append)
qed

lemma typed_run: "snd (run_ed tm (map Typed cs) e) = fold (ed_step tm) cs e"
  by (induction cs arbitrary: e) simp_all

lemma receive_fold:
  assumes "tty_inv t"
  shows "tty_abs (fold tty_receive_char cs t) = fold (ed_step (tt_termios t)) cs (tty_abs t) \<and>
    tty_inv (fold tty_receive_char cs t) \<and> tt_termios (fold tty_receive_char cs t) = tt_termios t"
  using assms
proof (induction cs arbitrary: t)
  case (Cons c cs)
  then show ?case
    using Cons.IH [of "tty_receive_char c t"] tty_receive_char_refines [OF Cons.prems, of c] by simp
qed simp

lemma typed_line:
  assumes "tty_inv t" "nl_ends (tt_termios t)" "tty_abs t = ([], [])"
    "\<forall>c \<in> set cs. ordinary (tt_termios t) c" "length cs \<le> 4095"
  shows "tty_abs (fold tty_receive_char (cs @ [NL]) t) = ([], take 4095 (cs @ [NL]))"
proof -
  have ne: "\<forall>c \<in> set cs. c \<noteq> c_cc (tt_termios t) ! VEOF" using assms(4) by (auto simp: ordinary_def ends_line_def)
  have "fold (ed_step (tt_termios t)) cs ([], []) = (cs, [])"
    using ed_ordinary [of "tt_termios t" cs "[]" "[]"] assms(2,4,5) by (simp add: nl_ends_def)
  then show ?thesis
    using receive_fold [OF assms(1), of "cs @ [NL]"] assms(3) ed_newline [OF assms(2) ne, of "[]"]
    by (simp del: take_append)
qed

definition demo_tty :: tty_struct where
  "demo_tty = (case tty_init True of Some t \<Rightarrow> t)"

lemma demo_tty_simps:
  "tty_inv demo_tty" "tty_abs demo_tty = ([], [])" "tt_termios demo_tty = default_termios"
  by (simp_all add: demo_tty_def tty_init_def tty_alloc_def tty_inv_def tty_abs_def buf_init_def buf_zero_def
      buf_inv_def ring_ok_def buf_contents_def ring_contents_def)

lemma demo_termios: "nl_ends default_termios" "\<forall>c \<in> set [108, 115]. ordinary default_termios c"
  by (simp_all add: nl_ends_def ordinary_def special_def ends_line_def lflag_def default_termios_def)

section \<open>Properties\<close>

text \<open>C7 (terminal input). Whatever is typed and read, in whatever order, the terminal behaves as the line
  editor on lists: the reads return the same bytes, and the line being typed and the bytes ready to
  be read are the editor's. In particular a full buffer drops the newest bytes only.\<close>

theorem tty_refines_editor:
  assumes "tty_inv t"
  shows "fst (run_tty ops t) = fst (run_ed (tt_termios t) ops (tty_abs t)) \<and>
    tty_abs (snd (run_tty ops t)) = snd (run_ed (tt_termios t) ops (tty_abs t)) \<and> tty_inv (snd (run_tty ops t))"
  by (rule run_tty_refines [OF assms])

theorem tty_refines_editor_witness:
  "fst (run_tty [Typed 108, Typed 115, Typed 127, Typed 10, Reading 100] demo_tty) = [[108, 10]]"
proof -
  have "fst (run_ed default_termios [Typed 108, Typed 115, Typed 127, Typed 10, Reading 100] ([], [])) = [[108, 10]]"
    by (simp add: ed_step_def ed_read_def special_def ends_line_def lflag_def default_termios_def Let_def)
  then show ?thesis
    using tty_refines_editor [OF demo_tty_simps(1), of "[Typed 108, Typed 115, Typed 127, Typed 10, Reading 100]"]
    by (simp add: demo_tty_simps)
qed

text \<open>\<^emph>\<open>A line comes back as typed.\<close> On an idle terminal in canonical mode, a line of at most 4094 ordinary
  characters and the newline that ends it are returned by the next read with room for them,
  and the read after that finds nothing.\<close>

theorem tty_line_roundtrip:
  assumes "tty_inv t" "nl_ends (tt_termios t)" "tty_abs t = ([], [])"
    "\<forall>c \<in> set cs. ordinary (tt_termios t) c" "length cs < 4095" "length cs < n"
  shows "\<exists>t'. tty_read True n (Some (fold tty_receive_char (cs @ [NL]) t)) =
      ((int (length cs) + 1, cs @ [NL]), Some t') \<and> tty_abs t' = ([], [])"
proof -
  let ?t = "fold tty_receive_char (cs @ [NL]) t"
  have a: "tty_abs ?t = ([], cs @ [NL])" using typed_line [OF assms(1-4)] assms(5) by simp
  have i: "tty_inv ?t" "tt_termios ?t = tt_termios t" using receive_fold [OF assms(1), of "cs @ [NL]"] by simp_all
  have nn: "\<forall>c \<in> set cs. c \<noteq> NL" using assms(4) by (auto simp: ordinary_def ends_line_def)
  have "takeWhile (\<lambda>c. c \<noteq> NL) (cs @ [NL]) = cs" using nn by (subst takeWhile_append2) auto
  then have "ed_read (tt_termios t) n (cs @ [NL]) = Suc (length cs)"
    using assms(2,6) by (simp add: ed_read_def nl_ends_def)
  then show ?thesis using tty_read_refines [OF i(1), of n] a i(2) by auto
qed

theorem tty_line_roundtrip_witness:
  "\<exists>t'. tty_read True 80 (Some (fold tty_receive_char [108, 115, 10] demo_tty)) = ((3, [108, 115, 10]), Some t') \<and>
     tty_abs t' = ([], [])"
  using tty_line_roundtrip [OF demo_tty_simps(1), of "[108, 115]" 80] demo_termios
  by (simp add: demo_tty_simps)

text \<open>After 4095 ordinary characters the newline ends the line but is not
  stored: a reader in canonical mode gets the line without its end, and the next line
  would follow it directly.\<close>

theorem tty_long_line_loses_newline:
  assumes "tty_inv t" "nl_ends (tt_termios t)" "tty_abs t = ([], [])"
    "\<forall>c \<in> set cs. ordinary (tt_termios t) c" "length cs = 4095"
  shows "tty_abs (fold tty_receive_char (cs @ [NL]) t) = ([], cs) \<and> NL \<notin> set cs"
proof -
  have "NL \<notin> set cs" using assms(4) by (auto simp: ordinary_def ends_line_def)
  then show ?thesis using typed_line [OF assms(1-4)] assms(5) by simp
qed

theorem tty_long_line_loses_newline_witness:
  "tty_abs (fold tty_receive_char (replicate 4095 108 @ [10]) demo_tty) = ([], replicate 4095 108)"
proof -
  have "\<forall>c \<in> set (replicate 4095 108). ordinary (tt_termios demo_tty) c"
    using demo_termios(2) by (simp add: demo_tty_simps)
  then show ?thesis
    using tty_long_line_loses_newline [OF demo_tty_simps(1), of "replicate 4095 108"] demo_termios(1)
    by (simp add: demo_tty_simps)
qed

text \<open>\<^emph>\<open>Two rings, one behaviour.\<close> The ring of \<^verbatim>\<open>tty_ldisc.c\<close>, with masked indices, and the ring of
  \<^verbatim>\<open>tty.c\<close>, with a division, do the same on every buffer.\<close>

theorem rbuf_equals_buf: "rbuf_put rb c = buf_put rb c \<and> rbuf_get rb = buf_get rb"
  by (simp add: rbuf_is_buf)

end
