(* ===== verification/Ramfs.thy ===== *)
theory Ramfs
  imports Prelude
begin

text \<open>
  Files and directory listings of the RAM file system, \<^verbatim>\<open>fs/ramfs.c\<close>: \<^verbatim>\<open>ramfs_read\<close>,
  \<^verbatim>\<open>ramfs_write\<close>, \<^verbatim>\<open>ramfs_llseek\<close>, \<^verbatim>\<open>ramfs_readdir\<close> and the data side of \<^verbatim>\<open>ramfs_create_blob\<close>.

  The data of a file is the list of bytes of its buffer. \<open>fresh\<close> is \<^verbatim>\<open>kmalloc\<close>: the bytes a new
  buffer happens to hold, or \<open>None\<close> without memory. A copy that would leave the buffer is the
  outcome \<open>None\<close>. The contents of a file are the bytes below its size; reading and writing
  refine the operations on that list.
\<close>

section \<open>Model\<close>

record ramfs_inode =
  ri_data :: "u8 list option"
  ri_size :: u64
  ri_capacity :: u64

type_synonym kmalloc_bytes = "u64 \<Rightarrow> u8 list option"

text \<open>The bytes stored in the caller's buffer and the new position; the number of bytes is
  the return value.\<close>

definition ramfs_read :: "ramfs_inode option \<Rightarrow> u64 \<Rightarrow> u64 \<Rightarrow> (u8 list \<times> u64) option" where
  "ramfs_read priv count pos =
     (case priv of None \<Rightarrow> Some ([], pos)
      | Some ri \<Rightarrow>
          (case ri_data ri of None \<Rightarrow> Some ([], pos)
           | Some d \<Rightarrow>
               if ri_size ri \<le> pos then Some ([], pos)
               else let n = (if ri_size ri < pos + count then ri_size ri - pos else count)
                    in if unat pos + unat n \<le> length d
                       then Some (take (unat n) (drop (unat pos) d), pos + n)
                       else None))"

text \<open>The return value, the file and the new position.\<close>

definition grow_data :: "kmalloc_bytes \<Rightarrow> u64 \<Rightarrow> ramfs_inode \<Rightarrow> ramfs_inode option" where
  "grow_data fresh fin ri =
     (let new_cap = (if fin * 2 < 4096 then 4096 else fin * 2) in
      case fresh new_cap of None \<Rightarrow> None
      | Some nd \<Rightarrow>
          let nd' = (case ri_data ri of None \<Rightarrow> nd
                     | Some d \<Rightarrow> take (unat (ri_size ri)) d @ drop (unat (ri_size ri)) nd)
          in Some (ri\<lparr>ri_data := Some nd', ri_capacity := new_cap\<rparr>))"

definition store_data :: "u8 list \<Rightarrow> u64 \<Rightarrow> u64 \<Rightarrow> ramfs_inode \<Rightarrow> ramfs_inode option" where
  "store_data bs pos fin ri =
     (case ri_data ri of None \<Rightarrow> None
      | Some d \<Rightarrow>
          if unat pos + length bs \<le> length d
          then Some (ri\<lparr>ri_data := Some (take (unat pos) d @ bs @ drop (unat pos + length bs) d),
                        ri_size := (if ri_size ri < fin then fin else ri_size ri)\<rparr>)
          else None)"

definition ramfs_write ::
  "kmalloc_bytes \<Rightarrow> ramfs_inode option \<Rightarrow> u8 list \<Rightarrow> u64 \<Rightarrow> (int \<times> ramfs_inode option \<times> u64) option" where
  "ramfs_write fresh priv bs pos =
     (case priv of None \<Rightarrow> Some (- EIO, priv, pos)
      | Some ri \<Rightarrow>
          let fin = pos + word_of_nat (length bs) in
          (case (if ri_capacity ri < fin then grow_data fresh fin ri else Some ri) of
             None \<Rightarrow> Some (- ENOMEM, priv, pos)
           | Some ri1 \<Rightarrow>
               (case store_data bs pos fin ri1 of
                  None \<Rightarrow> None
                | Some ri2 \<Rightarrow> Some (int (length bs), Some ri2, fin))))"

text \<open>The return value and the new position of the file.\<close>

definition ramfs_llseek :: "u64 \<Rightarrow> u64 \<Rightarrow> int \<Rightarrow> u64 \<Rightarrow> int \<times> u64" where
  "ramfs_llseek i_size offset whence f_pos =
     (if whence \<notin> {0, 1, 2} then (- EINVAL, f_pos)
      else let new_pos = (if whence = 0 then offset else if whence = 1 then f_pos + offset else i_size + offset)
           in if sint new_pos < 0 then (- EINVAL, f_pos) else (sint new_pos, new_pos))"

definition ramfs_blob :: "u8 list \<Rightarrow> ramfs_inode" where
  "ramfs_blob bs = \<lparr>ri_data = Some bs, ri_size = word_of_nat (length bs), ri_capacity = word_of_nat (length bs)\<rparr>"

text \<open>Directory listing. A child is its name with the mode and number of its inode, if it has one; an
  emitted entry is name, number and type. \<open>acc\<close> is the callback: whether the entry still fits
  after those emitted in this call.\<close>

type_synonym dir_child = "u8 list \<times> (u32 \<times> u64) option"
type_synonym dir_entry = "u8 list \<times> u64 \<times> nat"

definition dt_type :: "u32 \<Rightarrow> nat" where
  "dt_type mode =
     (let m = mode AND 0xF000 in
      if m = 0x8000 then 8 else if m = 0x4000 then 4 else if m = 0xA000 then 10 else if m = 0x2000 then 2
      else if m = 0x6000 then 6 else if m = 0x1000 then 1 else if m = 0xC000 then 12 else 0)"

fun readdir_children ::
  "(dir_entry list \<Rightarrow> dir_entry \<Rightarrow> bool) \<Rightarrow> nat \<Rightarrow> dir_child list \<Rightarrow> nat \<Rightarrow> dir_entry list \<Rightarrow> dir_entry list \<times> nat" where
  "readdir_children acc idx [] f_pos es = (es, f_pos)"
| "readdir_children acc idx ((name, ino) # cs) f_pos es =
     (if idx + 2 < f_pos then readdir_children acc (idx + 1) cs f_pos es
      else (case ino of
              None \<Rightarrow> readdir_children acc (idx + 1) cs (f_pos + 1) es
            | Some (mode, i) \<Rightarrow>
                let e = (name, i, dt_type mode) in
                if \<not> acc es e then (es, f_pos)
                else readdir_children acc (idx + 1) cs (f_pos + 1) (es @ [e])))"

definition ramfs_readdir ::
  "(dir_entry list \<Rightarrow> dir_entry \<Rightarrow> bool) \<Rightarrow> u64 \<Rightarrow> u64 \<Rightarrow> dir_child list \<Rightarrow> nat \<Rightarrow> dir_entry list \<times> nat" where
  "ramfs_readdir acc ino parent_ino children f_pos =
     (let dot = ([46], ino, 4); dotdot = ([46, 46], parent_ino, 4) in
      if f_pos = 0 \<and> \<not> acc [] dot then ([], f_pos)
      else
        let es = (if f_pos = 0 then [dot] else []); p = (if f_pos = 0 then 1 else f_pos) in
        if p = 1 \<and> \<not> acc es dotdot then (es, p)
        else
          let es' = (if p = 1 then es @ [dotdot] else es); p' = (if p = 1 then 2 else p) in
          readdir_children acc 0 children p' es')"

section \<open>Contents\<close>

definition ri_inv :: "ramfs_inode \<Rightarrow> bool" where
  "ri_inv ri \<longleftrightarrow>
     (case ri_data ri of None \<Rightarrow> ri_size ri = 0 \<and> ri_capacity ri = 0
      | Some d \<Rightarrow> length d = unat (ri_capacity ri) \<and> ri_size ri \<le> ri_capacity ri)"

definition contents :: "ramfs_inode \<Rightarrow> u8 list" where
  "contents ri = (case ri_data ri of None \<Rightarrow> [] | Some d \<Rightarrow> take (unat (ri_size ri)) d)"

definition kmalloc_ok :: "kmalloc_bytes \<Rightarrow> bool" where
  "kmalloc_ok fresh \<longleftrightarrow> (\<forall>n d. fresh n = Some d \<longrightarrow> length d = unat n)"

text \<open>The write on the list of bytes: a gap is filled with \<open>hole\<close>.\<close>

definition list_write :: "u8 list \<Rightarrow> u8 list \<Rightarrow> nat \<Rightarrow> u8 list \<Rightarrow> u8 list" where
  "list_write hole bs p xs = take p (xs @ hole) @ bs @ drop (p + length bs) xs"

lemma length_contents: "ri_inv ri \<Longrightarrow> length (contents ri) = unat (ri_size ri)"
  by (auto simp: ri_inv_def contents_def word_le_nat_alt split: option.splits)

lemma unat_fin:
  assumes "unat (pos :: u64) + length bs < 2 ^ 64"
  shows "unat (pos + word_of_nat (length bs)) = unat pos + length bs"
proof -
  have l: "unat (word_of_nat (length bs) :: u64) = length bs"
    using assms by (simp add: unsigned_of_nat take_bit_nat_eq_self)
  then show ?thesis using assms by (subst unat_add_lem [THEN iffD1]) simp_all
qed


lemma grow_data_spec:
  assumes "ri_inv ri" "kmalloc_ok fresh" "unat fin < 2 ^ 63" "ri_capacity ri < fin"
    "fresh (if fin * 2 < 4096 then 4096 else fin * 2) = Some nd"
  shows "\<exists>ri'. grow_data fresh fin ri = Some ri' \<and> ri_inv ri' \<and> contents ri' = contents ri \<and>
    ri_size ri' = ri_size ri \<and> fin \<le> ri_capacity ri' \<and>
    ri_data ri' = Some (contents ri @ drop (length (contents ri)) nd)"
proof -
  let ?c = "if fin * 2 < 4096 then 4096 else fin * 2 :: u64"
  have "unat (fin * 2) = unat fin * 2"
    using assms(3) by (subst unat_mult_lem [THEN iffD1]) simp_all
  then have le: "fin \<le> ?c" by (auto simp: word_le_nat_alt word_less_nat_alt)
  have nd: "length nd = unat ?c" using assms(2,5) unfolding kmalloc_ok_def by blast
  have "unat (ri_size ri) \<le> unat (ri_capacity ri)"
    using assms(1) by (auto simp: ri_inv_def word_le_nat_alt split: option.splits)
  moreover have "unat (ri_capacity ri) < unat ?c" using assms(4) le by (auto simp: word_le_nat_alt word_less_nat_alt)
  ultimately have sz: "unat (ri_size ri) < unat ?c" by simp
  have lc: "length (contents ri) = unat (ri_size ri)" by (rule length_contents [OF assms(1)])
  let ?d = "case ri_data ri of None \<Rightarrow> nd | Some d \<Rightarrow> take (unat (ri_size ri)) d @ drop (unat (ri_size ri)) nd"
  have d: "?d = contents ri @ drop (length (contents ri)) nd"
    using assms(1) lc by (auto simp: contents_def ri_inv_def split: option.splits)
  have g: "grow_data fresh fin ri = Some (ri\<lparr>ri_data := Some ?d, ri_capacity := ?c\<rparr>)" (is "_ = Some ?ri")
    unfolding grow_data_def Let_def assms(5) by simp
  have "contents ?ri = take (unat (ri_size ri)) ?d" by (simp add: contents_def)
  then have "contents ?ri = contents ri" unfolding d by (simp add: lc)
  moreover have "length ?d = unat ?c" unfolding d using nd sz lc by simp
  then have "ri_inv ?ri" using sz by (simp add: ri_inv_def word_le_nat_alt)
  ultimately show ?thesis using g le d by (intro exI [of _ ?ri]) simp
qed

lemma store_data_spec:
  assumes "ri_inv ri" "ri_data ri = Some d" "unat pos + length bs \<le> length d" "length d < 2 ^ 64"
  shows "\<exists>ri'. store_data bs pos (pos + word_of_nat (length bs)) ri = Some ri' \<and> ri_inv ri' \<and>
    contents ri' = list_write (drop (unat (ri_size ri)) d) bs (unat pos) (contents ri)"
proof -
  let ?p = "unat pos" and ?n = "unat (ri_size ri)" and ?f = "pos + word_of_nat (length bs) :: u64"
  let ?d = "take ?p d @ bs @ drop (?p + length bs) d"
  let ?ri = "ri\<lparr>ri_data := Some ?d, ri_size := (if ri_size ri < ?f then ?f else ri_size ri)\<rparr>"
  have f: "unat ?f = ?p + length bs" using assms(3,4) by (intro unat_fin) linarith
  have le: "?n \<le> length d" "length d = unat (ri_capacity ri)" using assms(1,2) by (auto simp: ri_inv_def word_le_nat_alt)
  have sz: "unat (if ri_size ri < ?f then ?f else ri_size ri) = max ?n (?p + length bs)"
    using f by (auto simp: word_less_nat_alt)
  have e: "store_data bs pos ?f ri = Some ?ri" using assms(2,3) by (simp add: store_data_def)
  have inv: "ri_inv ?ri" using assms(3) le sz by (simp add: ri_inv_def word_le_nat_alt)
  have c: "contents ri = take ?n d" using assms(2) by (simp add: contents_def)
  have "contents ?ri = take (max ?n (?p + length bs)) ?d" using sz by (simp add: contents_def)
  also have "\<dots> = take ?p d @ bs @ take (?n - (?p + length bs)) (drop (?p + length bs) d)"
    using assms(3) by (cases "?n \<le> ?p + length bs") (auto simp: max_def)
  also have "\<dots> = list_write (drop ?n d) bs ?p (contents ri)"
    using le assms(3) by (simp add: list_write_def c drop_take)
  finally show ?thesis using e inv by blast
qed


definition room_for :: "kmalloc_bytes \<Rightarrow> u64 \<Rightarrow> ramfs_inode \<Rightarrow> bool" where
  "room_for fresh fin ri \<longleftrightarrow> fin \<le> ri_capacity ri \<or> fresh (if fin * 2 < 4096 then 4096 else fin * 2) \<noteq> None"

lemma ramfs_write_spec:
  assumes "ri_inv ri" "kmalloc_ok fresh" "unat pos + length bs < 2 ^ 63" "0 < length bs \<or> ri_data ri \<noteq> None"
    "room_for fresh (pos + word_of_nat (length bs)) ri"
  shows "\<exists>ri' hole. ramfs_write fresh (Some ri) bs pos =
      Some (int (length bs), Some ri', pos + word_of_nat (length bs)) \<and> ri_inv ri' \<and>
      unat pos \<le> length (contents ri @ hole) \<and> contents ri' = list_write hole bs (unat pos) (contents ri)"
proof -
  let ?f = "pos + word_of_nat (length bs) :: u64"
  have f: "unat ?f = unat pos + length bs" using assms(3) by (intro unat_fin) simp
  obtain ri1 d where g: "(if ri_capacity ri < ?f then grow_data fresh ?f ri else Some ri) = Some ri1"
    and r: "ri_inv ri1" "contents ri1 = contents ri" "?f \<le> ri_capacity ri1" "ri_data ri1 = Some d"
  proof (cases "ri_capacity ri < ?f")
    case True
    then obtain nd where nd: "fresh (if ?f * 2 < 4096 then 4096 else ?f * 2) = Some nd"
      using assms(5) by (auto simp: room_for_def)
    have "unat ?f < 2 ^ 63" using f assms(3) by simp
    from grow_data_spec [OF assms(1,2) this True nd] show ?thesis using that True by auto
  next
    case False
    have "ri_data ri \<noteq> None"
    proof
      assume n: "ri_data ri = None"
      then have "ri_capacity ri = 0" using assms(1) by (simp add: ri_inv_def)
      then show False using False f assms(4) n by (auto simp: word_less_nat_alt)
    qed
    then show ?thesis using that False assms(1) by auto
  qed
  have ld: "length d = unat (ri_capacity ri1)" using r(1,4) by (simp add: ri_inv_def)
  have le: "unat pos + length bs \<le> length d" using r(3) f ld by (simp add: word_le_nat_alt)
  have lt: "length d < 2 ^ 64" using ld unsigned_less [of "ri_capacity ri1"] by simp
  obtain ri2 where st: "store_data bs pos ?f ri1 = Some ri2" "ri_inv ri2"
    "contents ri2 = list_write (drop (unat (ri_size ri1)) d) bs (unat pos) (contents ri1)"
    using store_data_spec [OF r(1,4) le lt] by blast
  have "unat pos \<le> length (contents ri @ drop (unat (ri_size ri1)) d)"
    using le length_contents [OF r(1)] r(2) by simp
  then show ?thesis using g st r(2)
    by (intro exI [of _ ri2] exI [of _ "drop (unat (ri_size ri1)) d"]) (simp add: ramfs_write_def Let_def)
qed

lemma ramfs_read_spec:
  assumes "ri_inv ri" "unat pos + unat count < 2 ^ 64"
  shows "\<exists>pos'. ramfs_read (Some ri) count pos = Some (take (unat count) (drop (unat pos) (contents ri)), pos')"
proof (cases "ri_data ri")
  case None
  then show ?thesis by (simp add: ramfs_read_def contents_def)
next
  case (Some d)
  have le: "unat (ri_size ri) \<le> length d" using assms(1) Some by (simp add: ri_inv_def word_le_nat_alt)
  have a: "unat (pos + count) = unat pos + unat count" using assms(2) by (subst unat_add_lem [THEN iffD1]) simp_all
  show ?thesis
  proof (cases "ri_size ri \<le> pos")
    case True
    then show ?thesis using Some by (simp add: ramfs_read_def contents_def word_le_nat_alt)
  next
    case False
    let ?n = "if ri_size ri < pos + count then ri_size ri - pos else count"
    have sub: "unat (ri_size ri - pos) = unat (ri_size ri) - unat pos"
      using False by (intro unat_sub) (simp add: word_le_nat_alt)
    have n: "unat ?n = min (unat count) (unat (ri_size ri) - unat pos)"
      using a sub False by (auto simp: word_less_nat_alt word_le_nat_alt)
    have "unat pos + unat ?n \<le> length d" using n le False by (simp add: word_le_nat_alt)
    moreover have "take (unat ?n) (drop (unat pos) d) = take (unat count) (drop (unat pos) (contents ri))"
      unfolding n using Some by (simp add: contents_def drop_take)
    ultimately show ?thesis using Some False by (simp add: ramfs_read_def Let_def)
  qed
qed

lemma list_write_read:
  assumes "p \<le> length (xs @ hole)"
  shows "take (length bs) (drop p (list_write hole bs p xs)) = bs"
  using assms by (simp add: list_write_def min_def)

section \<open>Listing\<close>

definition live_entries :: "dir_child list \<Rightarrow> dir_entry list" where
  "live_entries cs = concat (map (\<lambda>(n, i). case i of None \<Rightarrow> [] | Some (m, k) \<Rightarrow> [(n, k, dt_type m)]) cs)"

text \<open>What a listing still has to give at a position.\<close>

definition entries_from :: "u64 \<Rightarrow> u64 \<Rightarrow> dir_child list \<Rightarrow> nat \<Rightarrow> dir_entry list" where
  "entries_from ino parent cs p =
     (if p = 0 then [([46], ino, 4)] else []) @ (if p \<le> 1 then [([46, 46], parent, 4)] else []) @
     live_entries (drop (p - 2) cs)"

lemma readdir_skip:
  assumes "idx + 2 + k = p" "k \<le> length cs"
  shows "readdir_children acc idx cs p es = readdir_children acc (p - 2) (drop k cs) p es"
  using assms
proof (induction k arbitrary: idx cs)
  case (Suc k)
  then obtain c cs' where cs: "cs = c # cs'" by (cases cs) auto
  then show ?case using Suc.IH [of "idx + 1" cs'] Suc.prems by (cases c) simp
qed auto

lemma readdir_beyond: "idx + 2 + length cs \<le> p \<Longrightarrow> readdir_children acc idx cs p es = (es, p)"
  by (induction acc idx cs p es rule: readdir_children.induct) auto

lemma readdir_from:
  assumes "readdir_children acc (p - 2) cs p es = (es', p')" "2 \<le> p"
  shows "\<exists>k. p' = p + k \<and> k \<le> length cs \<and> es @ live_entries (take k cs) = es' \<and>
    (k = length cs \<or> (\<exists>n m i. cs ! k = (n, Some (m, i)) \<and> \<not> acc es' (n, i, dt_type m)))"
  using assms
proof (induction cs arbitrary: p es)
  case (Cons c cs)
  obtain n i where c: "c = (n, i)" by fastforce
  show ?case
  proof (cases i)
    case None
    have "p - 2 + 1 = p + 1 - 2" using Cons.prems(2) by simp
    then have "readdir_children acc (p + 1 - 2) cs (p + 1) es = (es', p')" using Cons.prems c None by simp
    from Cons.IH [OF this] obtain k where "p' = p + 1 + k \<and> k \<le> length cs \<and> es @ live_entries (take k cs) = es' \<and>
      (k = length cs \<or> (\<exists>n m i. cs ! k = (n, Some (m, i)) \<and> \<not> acc es' (n, i, dt_type m)))"
      using Cons.prems(2) by auto
    then show ?thesis using c None by (intro exI [of _ "Suc k"]) (simp add: live_entries_def)
  next
    case (Some mi)
    obtain m j where mi: "mi = (m, j)" by fastforce
    show ?thesis
    proof (cases "acc es (n, j, dt_type m)")
      case True
      have "p - 2 + 1 = p + 1 - 2" using Cons.prems(2) by simp
      then have "readdir_children acc (p + 1 - 2) cs (p + 1) (es @ [(n, j, dt_type m)]) = (es', p')"
        using Cons.prems c Some mi True by simp
      from Cons.IH [OF this] obtain k where "p' = p + 1 + k \<and> k \<le> length cs \<and>
        (es @ [(n, j, dt_type m)]) @ live_entries (take k cs) = es' \<and>
        (k = length cs \<or> (\<exists>n m i. cs ! k = (n, Some (m, i)) \<and> \<not> acc es' (n, i, dt_type m)))"
        using Cons.prems(2) by auto
      then show ?thesis using c Some mi by (intro exI [of _ "Suc k"]) (simp add: live_entries_def)
    next
      case False
      have "\<not> Suc (Suc (p - 2)) < p" using Cons.prems(2) by simp
      then show ?thesis using False Cons.prems(1) c Some mi by (intro exI [of _ 0]) (simp add: live_entries_def)
    qed
  qed
qed (simp add: live_entries_def)


lemma live_entries_append: "live_entries (xs @ ys) = live_entries xs @ live_entries ys"
  by (simp add: live_entries_def)

lemma live_entries_rest: "k \<le> length cs \<Longrightarrow> live_entries (take k cs) @ live_entries (drop k cs) = live_entries cs"
  by (metis append_take_drop_id live_entries_append)

lemma readdir_children_spec:
  assumes "readdir_children acc 0 cs p es = (es', p')" "2 \<le> p"
  shows "\<exists>new. es' = es @ new \<and> live_entries (drop (p - 2) cs) = new @ live_entries (drop (p' - 2) cs) \<and> 2 \<le> p' \<and>
    (live_entries (drop (p' - 2) cs) \<noteq> [] \<longrightarrow> (\<exists>e. \<not> acc es' e))"
proof (cases "p - 2 \<le> length cs")
  case False
  then have "es' = es" "p' = p" using readdir_beyond [of 0 cs p acc es] assms by auto
  then show ?thesis using False assms(2) by (simp add: live_entries_def)
next
  case True
  let ?cs = "drop (p - 2) cs"
  have "readdir_children acc (p - 2) ?cs p es = (es', p')"
    using readdir_skip [of 0 "p - 2" p cs acc es] assms True by simp
  from readdir_from [OF this assms(2)] obtain k where k: "p' = p + k" "k \<le> length ?cs" "es @ live_entries (take k ?cs) = es'"
    "k = length ?cs \<or> (\<exists>n m i. ?cs ! k = (n, Some (m, i)) \<and> \<not> acc es' (n, i, dt_type m))"
    by blast
  have d: "drop (p' - 2) cs = drop k ?cs" using k(1) assms(2) by (simp add: add.commute)
  have "live_entries (drop (p' - 2) cs) \<noteq> [] \<longrightarrow> (\<exists>e. \<not> acc es' e)"
    using k(4) unfolding d by (auto simp: live_entries_def)
  then show ?thesis
    using k live_entries_rest [OF k(2)] d assms(2) by (intro exI [of _ "live_entries (take k ?cs)"]) simp
qed

text \<open>One call gives a piece of the listing, leaves the position at the rest, and stops early only when the
  callback refused an entry.\<close>

lemma ramfs_readdir_step:
  assumes "ramfs_readdir acc ino par cs p = (es, p')"
  shows "entries_from ino par cs p = es @ entries_from ino par cs p'"
    "entries_from ino par cs p' \<noteq> [] \<Longrightarrow> \<exists>e. \<not> acc es e"
proof -
  let ?dot = "([46], ino, 4)" and ?dotdot = "([46, 46], par, 4)"
  have "entries_from ino par cs p = es @ entries_from ino par cs p' \<and>
    (entries_from ino par cs p' \<noteq> [] \<longrightarrow> (\<exists>e. \<not> acc es e))"
  proof -
    consider (first) "p = 0" "\<not> acc [] ?dot"
      | (second) "p \<le> 1" "p = 0 \<longrightarrow> acc [] ?dot" "\<not> acc (if p = 0 then [?dot] else []) ?dotdot"
      | (loop) "p = 0 \<longrightarrow> acc [] ?dot" "p \<le> 1 \<longrightarrow> acc (if p = 0 then [?dot] else []) ?dotdot"
      by linarith
    then show ?thesis
    proof cases
      case first
      then show ?thesis using assms by (auto simp: ramfs_readdir_def Let_def)
    next
      case second
      then show ?thesis using assms
        by (cases "p = 0") (auto simp: ramfs_readdir_def Let_def entries_from_def split: if_splits)
    next
      case loop
      let ?es = "(if p = 0 then [?dot] else []) @ (if p \<le> 1 then [?dotdot] else [])"
      let ?p = "if p \<le> 1 then 2 else p"
      have "readdir_children acc 0 cs ?p ?es = (es, p')"
        using assms loop by (cases "p = 0"; cases "p = 1") (simp_all add: ramfs_readdir_def Let_def)
      moreover have "2 \<le> ?p" by simp
      ultimately obtain new where "es = ?es @ new"
        "live_entries (drop (?p - 2) cs) = new @ live_entries (drop (p' - 2) cs)" "2 \<le> p'"
        "live_entries (drop (p' - 2) cs) \<noteq> [] \<longrightarrow> (\<exists>e. \<not> acc es e)"
        using readdir_children_spec by blast
      then show ?thesis by (cases "p \<le> 1") (auto simp: entries_from_def)
    qed
  qed
  then show "entries_from ino par cs p = es @ entries_from ino par cs p'"
    "entries_from ino par cs p' \<noteq> [] \<Longrightarrow> \<exists>e. \<not> acc es e" by blast+
qed

text \<open>A directory listed by several calls, each with its own buffer.\<close>

fun list_dir ::
  "u64 \<Rightarrow> u64 \<Rightarrow> dir_child list \<Rightarrow> (dir_entry list \<Rightarrow> dir_entry \<Rightarrow> bool) list \<Rightarrow> nat \<Rightarrow> dir_entry list \<times> nat" where
  "list_dir ino par cs [] p = ([], p)"
| "list_dir ino par cs (acc # accs) p =
     (case ramfs_readdir acc ino par cs p of (es, p1) \<Rightarrow>
        (case list_dir ino par cs accs p1 of (es', p2) \<Rightarrow> (es @ es', p2)))"

lemma list_dir_spec:
  "list_dir ino par cs accs p = (es, p') \<Longrightarrow> entries_from ino par cs p = es @ entries_from ino par cs p'"
proof (induction accs arbitrary: p es)
  case (Cons acc accs)
  obtain es1 p1 es2 where "ramfs_readdir acc ino par cs p = (es1, p1)" "list_dir ino par cs accs p1 = (es2, p')" "es = es1 @ es2"
    using Cons.prems by (auto split: prod.splits)
  then show ?case using Cons.IH [of p1 es2] ramfs_readdir_step(1) by simp
qed simp

lemma list_dir_progress:
  assumes "list_dir ino par cs accs p = (es, p')" "\<forall>acc \<in> set accs. \<forall>e. acc [] e"
    "length (entries_from ino par cs p) \<le> length accs"
  shows "entries_from ino par cs p' = []"
  using assms
proof (induction accs arbitrary: p es)
  case (Cons acc accs)
  obtain es1 p1 es2 where c: "ramfs_readdir acc ino par cs p = (es1, p1)" "list_dir ino par cs accs p1 = (es2, p')"
    using Cons.prems by (auto split: prod.splits)
  note st = ramfs_readdir_step [OF c(1)]
  have "length (entries_from ino par cs p1) \<le> length accs"
  proof (cases "entries_from ino par cs p1 = []")
    case False
    then have "es1 \<noteq> []" using st(2) Cons.prems(2) by auto
    then have "1 \<le> length es1" by (cases es1) auto
    moreover have "length (entries_from ino par cs p) = length es1 + length (entries_from ino par cs p1)"
      using st(1) by simp
    ultimately show ?thesis using Cons.prems(3) by simp
  qed simp
  moreover have "\<forall>acc \<in> set accs. \<forall>e. acc [] e" using Cons.prems(2) by (meson list.set_intros(2))
  ultimately show ?case using Cons.IH [OF c(2)] by blast
qed simp


lemma ramfs_write_then_read:
  assumes "ri_inv ri" "kmalloc_ok fresh" "unat pos + length bs < 2 ^ 63" "bs \<noteq> []"
  shows "if room_for fresh (pos + word_of_nat (length bs)) ri
    then \<exists>ri' hole pos'. ramfs_write fresh (Some ri) bs pos =
        Some (int (length bs), Some ri', pos + word_of_nat (length bs)) \<and> ri_inv ri' \<and>
        (unat pos \<le> length (contents ri) \<longrightarrow>
           contents ri' = take (unat pos) (contents ri) @ bs @ drop (unat pos + length bs) (contents ri)) \<and>
        (length (contents ri) < unat pos \<longrightarrow>
           contents ri' = contents ri @ take (unat pos - length (contents ri)) hole @ bs) \<and>
        ramfs_read (Some ri') (word_of_nat (length bs)) pos = Some (bs, pos')
    else ramfs_write fresh (Some ri) bs pos = Some (- ENOMEM, Some ri, pos)"
proof (cases "room_for fresh (pos + word_of_nat (length bs)) ri")
  case True
  have ne: "0 < length bs \<or> ri_data ri \<noteq> None" using assms(4) by simp
  obtain ri' hole where w: "ramfs_write fresh (Some ri) bs pos =
      Some (int (length bs), Some ri', pos + word_of_nat (length bs))" "ri_inv ri'"
      "unat pos \<le> length (contents ri @ hole)" "contents ri' = list_write hole bs (unat pos) (contents ri)"
    using ramfs_write_spec [OF assms(1-3) ne True] by blast
  have l: "unat (word_of_nat (length bs) :: u64) = length bs"
    using assms(3) by (simp add: unsigned_of_nat take_bit_nat_eq_self)
  have "unat pos + unat (word_of_nat (length bs) :: u64) < 2 ^ 64" using assms(3) l by simp
  from ramfs_read_spec [OF w(2) this] obtain pos' where
    "ramfs_read (Some ri') (word_of_nat (length bs)) pos = Some (bs, pos')"
    unfolding l w(4) list_write_read [OF w(3)] by blast
  moreover have "contents ri' = take (unat pos) (contents ri @ hole) @ bs @ drop (unat pos + length bs) (contents ri)"
    by (simp only: w(4) list_write_def)
  ultimately show ?thesis using True w(1,2) by (auto intro!: exI [of _ ri'] exI [of _ hole])
next
  case False
  then show ?thesis by (auto simp: room_for_def ramfs_write_def grow_data_def Let_def not_le split: option.splits)
qed

section \<open>Properties\<close>

text \<open>C33 (files hold what is written). With memory for the buffer, a write returns the number of bytes, moves
  the position behind them and changes the contents as the write on the list of bytes does,
  the bytes before and after staying as they were; a read of the same range then returns
  exactly the bytes written. Without memory the file is unchanged and the call returns
  \<open>-ENOMEM\<close>.\<close>

theorem ramfs_write_read:
  assumes "ri_inv ri" "kmalloc_ok fresh" "unat pos + length bs < 2 ^ 63" "bs \<noteq> []"
  shows "if room_for fresh (pos + word_of_nat (length bs)) ri
    then \<exists>ri' hole pos'. ramfs_write fresh (Some ri) bs pos =
        Some (int (length bs), Some ri', pos + word_of_nat (length bs)) \<and> ri_inv ri' \<and>
        (unat pos \<le> length (contents ri) \<longrightarrow>
           contents ri' = take (unat pos) (contents ri) @ bs @ drop (unat pos + length bs) (contents ri)) \<and>
        (length (contents ri) < unat pos \<longrightarrow>
           contents ri' = contents ri @ take (unat pos - length (contents ri)) hole @ bs) \<and>
        ramfs_read (Some ri') (word_of_nat (length bs)) pos = Some (bs, pos')
    else ramfs_write fresh (Some ri) bs pos = Some (- ENOMEM, Some ri, pos)"
  by (rule ramfs_write_then_read [OF assms])

theorem ramfs_write_read_witness:
  "\<exists>ri'. ramfs_write (\<lambda>n. Some (replicate (unat n) 0)) (Some (ramfs_blob [1, 2, 3])) [9] 1 = Some (1, Some ri', 2) \<and>
     contents ri' = [1, 9, 3]"
proof -
  have "ri_inv (ramfs_blob [1, 2, 3])" "kmalloc_ok (\<lambda>n. Some (replicate (unat n) 0))"
    "contents (ramfs_blob [1, 2, 3]) = [1, 2, 3]" "room_for (\<lambda>n. Some (replicate (unat n) 0)) 2 (ramfs_blob [1, 2, 3])"
    by (simp_all add: ri_inv_def ramfs_blob_def kmalloc_ok_def contents_def room_for_def)
  then show ?thesis
    using ramfs_write_read [of "ramfs_blob [1, 2, 3]" "\<lambda>n. Some (replicate (unat n) 0)" 1 "[9]"] by auto
qed

text \<open>\<^emph>\<open>Directory listing.\<close> However small the buffers of the single calls are, the calls together list
  every entry exactly once, in order, and never an entry that does not exist; when every call has
  room for at least one entry, as many calls as there are entries give the whole
  directory.\<close>

theorem ramfs_readdir_complete:
  assumes "list_dir ino par cs accs 0 = (es, p)"
  shows "(\<exists>rest. [([46], ino, 4), ([46, 46], par, 4)] @ live_entries cs = es @ rest) \<and>
    ((\<forall>acc \<in> set accs. \<forall>e. acc [] e) \<and> length (live_entries cs) + 2 \<le> length accs \<longrightarrow>
       es = [([46], ino, 4), ([46, 46], par, 4)] @ live_entries cs)"
proof -
  have all: "entries_from ino par cs 0 = [([46], ino, 4), ([46, 46], par, 4)] @ live_entries cs"
    by (simp add: entries_from_def)
  have sp: "[([46], ino, 4), ([46, 46], par, 4)] @ live_entries cs = es @ entries_from ino par cs p"
    using list_dir_spec [OF assms] unfolding all .
  moreover have "entries_from ino par cs p = []"
    if "\<forall>acc \<in> set accs. \<forall>e. acc [] e" "length (live_entries cs) + 2 \<le> length accs"
    using list_dir_progress [OF assms that(1)] that(2) by (simp add: all)
  ultimately show ?thesis by (intro conjI exI [of _ "entries_from ino par cs p"] impI) (blast, metis append_Nil2)
qed

theorem ramfs_readdir_complete_witness:
  "fst (list_dir 1 1 [([97], Some (0x81A4, 2)), ([98], None), ([99], Some (0x41ED, 3))]
      (replicate 4 (\<lambda>es e. es = [])) 0) = [([46], 1, 4), ([46, 46], 1, 4), ([97], 2, 8), ([99], 3, 4)]"
  (is "fst (list_dir _ _ ?cs ?accs 0) = _")
proof -
  obtain es p where l: "list_dir 1 1 ?cs ?accs 0 = (es, p)" by fastforce
  have "live_entries ?cs = [([97], 2, 8), ([99], 3, 4)]" by (simp add: live_entries_def dt_type_def)
  then show ?thesis using ramfs_readdir_complete [OF l] l by simp
qed

text \<open>A write behind the end of an empty file leaves the bytes before it as
  \<^verbatim>\<open>kmalloc\<close> returned them, and the next read hands them to the reader.\<close>

theorem ramfs_hole_leaks:
  assumes "kmalloc_ok fresh" "unat pos + length bs < 2 ^ 63" "bs \<noteq> []" "ri_inv ri" "ri_data ri = None"
    "fresh (if (pos + word_of_nat (length bs)) * 2 < 4096 then 4096 else (pos + word_of_nat (length bs)) * 2) = Some old"
  shows "\<exists>ri' pos'. ramfs_write fresh (Some ri) bs pos = Some (int (length bs), Some ri', pos + word_of_nat (length bs)) \<and>
    ramfs_read (Some ri') pos 0 = Some (take (unat pos) old, pos')"
proof -
  let ?f = "pos + word_of_nat (length bs) :: u64"
  have f: "unat ?f = unat pos + length bs" using assms(2) by (intro unat_fin) simp
  have z: "ri_capacity ri = 0" "ri_size ri = 0" using assms(4,5) by (simp_all add: ri_inv_def)
  have g: "ri_capacity ri < ?f" using z f assms(3) by (simp add: word_less_nat_alt)
  obtain ri1 where r1: "grow_data fresh ?f ri = Some ri1" "ri_inv ri1" "contents ri1 = contents ri"
    "ri_data ri1 = Some old" "?f \<le> ri_capacity ri1" "ri_size ri1 = 0"
    using grow_data_spec [OF assms(4,1) _ g assms(6)] f assms(2,5) z by (auto simp: contents_def)
  have ld: "length old = unat (ri_capacity ri1)" using r1(2,4) by (simp add: ri_inv_def)
  have le: "unat pos + length bs \<le> length old" using r1(5) f ld by (simp add: word_le_nat_alt)
  obtain ri2 where r2: "store_data bs pos ?f ri1 = Some ri2" "ri_inv ri2"
    "contents ri2 = list_write old bs (unat pos) []"
    using store_data_spec [OF r1(2,4) le] ld r1(3,6) assms(5) unsigned_less [of "ri_capacity ri1"]
    by (auto simp: contents_def)
  have "unat 0 + unat pos < 2 ^ 64" using assms(2) by simp
  from ramfs_read_spec [OF r2(2), of 0 pos] this obtain pos' where
    "ramfs_read (Some ri2) pos 0 = Some (take (unat pos) (contents ri2), pos')" by auto
  moreover have "take (unat pos) (contents ri2) = take (unat pos) old"
    unfolding r2(3) using le by (simp add: list_write_def)
  ultimately show ?thesis using g r1(1) r2(1) by (simp add: ramfs_write_def Let_def)
qed

theorem ramfs_hole_leaks_witness:
  "\<exists>ri' pos'. ramfs_write (\<lambda>n. Some (replicate (unat n) 0x5A)) (Some \<lparr>ri_data = None, ri_size = 0, ri_capacity = 0\<rparr>) [1] 3 =
       Some (1, Some ri', 4) \<and>
     ramfs_read (Some ri') 3 0 = Some ([0x5A, 0x5A, 0x5A], pos')"
  using ramfs_hole_leaks [of "\<lambda>n. Some (replicate (unat n) 0x5A)" 3 "[1]" "\<lparr>ri_data = None, ri_size = 0, ri_capacity = 0\<rparr>"
      "replicate 4096 0x5A"]
  by (simp add: kmalloc_ok_def ri_inv_def take_replicate) (simp add: numeral_3_eq_3)

text \<open>\<^emph>\<open>A huge count reads outside.\<close> The clamp of \<^verbatim>\<open>ramfs_read\<close> adds position and count without regard to
  overflow: at a position inside the file, a count that makes the sum wrap below the size is not
  reduced, and the copy leaves the buffer.\<close>

theorem ramfs_read_wraps:
  assumes "ri_inv ri" "pos < ri_size ri" "2 ^ 64 \<le> unat pos + unat count" "pos + count \<le> ri_size ri"
  shows "ramfs_read (Some ri) count pos = None"
proof -
  obtain d where d: "ri_data ri = Some d"
    using assms(1,2) by (cases "ri_data ri") (auto simp: ri_inv_def word_less_nat_alt)
  have "length d < 2 ^ 64" using assms(1) d unsigned_less [of "ri_capacity ri"] by (simp add: ri_inv_def)
  then have "\<not> unat pos + unat count \<le> length d" using assms(3) by simp
  moreover have "\<not> ri_size ri \<le> pos" "\<not> ri_size ri < pos + count" using assms(2,4) by auto
  ultimately show ?thesis using d by (simp add: ramfs_read_def Let_def)
qed

theorem ramfs_read_wraps_witness: "ramfs_read (Some (ramfs_blob [1, 2, 3])) (- 1) 1 = None"
  using ramfs_read_wraps [of "ramfs_blob [1, 2, 3]" 1 "- 1"]
  by (simp add: ri_inv_def ramfs_blob_def word_less_nat_alt unsigned_minus_1_eq_mask mask_eq_exp_minus_1)

end
