(* ===== verification/Vfs.thy ===== *)
theory Vfs
  imports Ramfs
begin

text \<open>
  The virtual file system over the RAM file system: names, path resolution and files of
  \<^verbatim>\<open>fs/vfs.c\<close>, the inode operations and the mount of \<^verbatim>\<open>fs/ramfs.c\<close>, and the operations and
  system calls on names of \<^verbatim>\<open>fs/vfs_ops.c\<close>.

  Directory entries and inodes live in maps from addresses. They are never freed by this code, so an
  address that occurs in the state is allocated; \<open>dent\<close> and \<open>ind\<close> read it and answer a block of
  zeros for any other. An operation table is named by a constructor: the RAM file system
  has one for directories and one for each kind of open file, and an inode without a table falls
  back to the generic code. Paths are lists of bytes without the final zero; null pointers,
  which the calls refuse with \<open>-EFAULT\<close>, are left out. \<open>va\<close> gathers the
  answers of the allocator. The hash of a name, the aliases of an inode and the lists of a
  super block are written but never read, and are left out.
\<close>

section \<open>State\<close>

type_synonym name = "u8 list"

datatype iop = RamfsDirOps
datatype devop = DevNull | DevZero | DevFull | DevRandom | DevConsole | DevFb
datatype fop = RamfsFileOps | RamfsDirFileOps | DevfsChrFops | DeviceFops devop
datatype ipriv = RamData ramfs_inode | LinkTarget name

record inode =
  i_mode :: u32
  i_uid :: u32
  i_gid :: u32
  i_op :: "iop option"
  i_fop :: "fop option"
  i_sb :: "nat option"
  i_ino :: u64
  i_nlink :: u32
  i_rdev :: u32
  i_size :: u64
  i_state :: u64
  i_count :: int
  i_private :: "ipriv option"

record dentry =
  d_flags :: u32
  d_parent :: nat
  d_name :: name
  d_inode :: "nat option"
  d_sb :: "nat option"
  d_count :: int
  d_subdirs :: "nat list"

record vfs =
  v_dentries :: "nat \<rightharpoonup> dentry"
  v_inodes :: "nat \<rightharpoonup> inode"
  v_fs_types :: "(nat \<times> name) list"
  v_mounts :: "(nat option \<times> nat) list"
  v_root :: "nat option"
  v_dentry_unused :: "nat list"
  v_inode_in_use :: "nat list"
  v_inode_unused :: "nat list"
  v_nr_dentry :: u32
  v_nr_inodes :: u32
  v_ino_create :: u64
  v_ino_mkdir :: u64
  v_ino_mknod :: u64
  v_ino_symlink :: u64
  v_ino_gen_symlink :: u64
  v_ino_gen_mknod :: u64

record vfs_alloc =
  va_dentry :: "(nat \<rightharpoonup> dentry) \<Rightarrow> nat option"
  va_inode :: "(nat \<rightharpoonup> inode) \<Rightarrow> nat option"
  va_name :: bool
  va_private :: bool
  va_file :: bool
  va_mount :: bool
  va_sb :: "nat option"

record vfile =
  f_dentry :: nat
  f_inode :: nat
  f_op :: "fop option"
  f_flags :: u32
  f_mode :: u32
  f_pos :: u64
  f_count :: int

abbreviation (input) EACCES :: int where "EACCES \<equiv> 13"
abbreviation (input) EBUSY :: int where "EBUSY \<equiv> 16"
abbreviation (input) EEXIST :: int where "EEXIST \<equiv> 17"
abbreviation (input) ENODEV :: int where "ENODEV \<equiv> 19"
abbreviation (input) ENOTDIR :: int where "ENOTDIR \<equiv> 20"
abbreviation (input) EISDIR :: int where "EISDIR \<equiv> 21"
abbreviation (input) ENAMETOOLONG :: int where "ENAMETOOLONG \<equiv> 36"
abbreviation (input) ELOOP :: int where "ELOOP \<equiv> 40"

abbreviation (input) LOOKUP_FOLLOW :: u32 where "LOOKUP_FOLLOW \<equiv> 1"
abbreviation (input) LOOKUP_PARENT :: u32 where "LOOKUP_PARENT \<equiv> 0x10"
abbreviation (input) O_CREAT :: u32 where "O_CREAT \<equiv> 0x40"
abbreviation (input) O_DIRECTORY :: u32 where "O_DIRECTORY \<equiv> 0x10000"
abbreviation (input) SLASH :: u8 where "SLASH \<equiv> 47"
abbreviation (input) DOT :: u8 where "DOT \<equiv> 46"

abbreviation (input) S_IFLNK :: u32 where "S_IFLNK \<equiv> 0xA000"
abbreviation (input) S_IFREG :: u32 where "S_IFREG \<equiv> 0x8000"
abbreviation (input) S_IFDIR :: u32 where "S_IFDIR \<equiv> 0x4000"

definition mode_is :: "u32 \<Rightarrow> u32 \<Rightarrow> bool" where
  "mode_is mode m \<longleftrightarrow> mode AND 0xF000 = m"

definition inode_zero :: inode where
  "inode_zero = \<lparr>i_mode = 0, i_uid = 0, i_gid = 0, i_op = None, i_fop = None, i_sb = None, i_ino = 0, i_nlink = 0,
     i_rdev = 0, i_size = 0, i_state = 0, i_count = 0, i_private = None\<rparr>"

definition dentry_zero :: dentry where
  "dentry_zero = \<lparr>d_flags = 0, d_parent = 0, d_name = [], d_inode = None, d_sb = None, d_count = 0, d_subdirs = []\<rparr>"

definition dent :: "vfs \<Rightarrow> nat \<Rightarrow> dentry" where
  "dent s a = (case v_dentries s a of None \<Rightarrow> dentry_zero | Some d \<Rightarrow> d)"

definition ind :: "vfs \<Rightarrow> nat \<Rightarrow> inode" where
  "ind s a = (case v_inodes s a of None \<Rightarrow> inode_zero | Some i \<Rightarrow> i)"

definition upd_dent :: "nat \<Rightarrow> (dentry \<Rightarrow> dentry) \<Rightarrow> vfs \<Rightarrow> vfs" where
  "upd_dent a f s = s\<lparr>v_dentries := (v_dentries s)(a := map_option f (v_dentries s a))\<rparr>"

definition upd_ind :: "nat \<Rightarrow> (inode \<Rightarrow> inode) \<Rightarrow> vfs \<Rightarrow> vfs" where
  "upd_ind a f s = s\<lparr>v_inodes := (v_inodes s)(a := map_option f (v_inodes s a))\<rparr>"

text \<open>The inode of an entry and its operations.\<close>

definition dent_ops :: "vfs \<Rightarrow> nat \<Rightarrow> iop option" where
  "dent_ops s a = (case d_inode (dent s a) of None \<Rightarrow> None | Some i \<Rightarrow> i_op (ind s i))"

section \<open>Inodes\<close>

definition new_inode :: "vfs_alloc \<Rightarrow> nat option \<Rightarrow> vfs \<Rightarrow> nat option \<times> vfs" where
  "new_inode va sb s =
     (case va_inode va (v_inodes s) of None \<Rightarrow> (None, s)
      | Some a \<Rightarrow>
          (Some a, s\<lparr>v_inodes := (v_inodes s)(a \<mapsto> inode_zero\<lparr>i_sb := sb, i_count := 1, i_state := 8\<rparr>),
                     v_nr_inodes := v_nr_inodes s + 1, v_inode_in_use := a # v_inode_in_use s\<rparr>))"

definition ihold :: "nat \<Rightarrow> vfs \<Rightarrow> vfs" where
  "ihold a = upd_ind a (\<lambda>i. i\<lparr>i_count := i_count i + 1\<rparr>)"

definition iput :: "nat \<Rightarrow> vfs \<Rightarrow> vfs" where
  "iput a s =
     (let s1 = upd_ind a (\<lambda>i. i\<lparr>i_count := i_count i - 1\<rparr>) s in
      if i_count (ind s1 a) = 0
      then s1\<lparr>v_inode_in_use := remove1 a (v_inode_in_use s1), v_inode_unused := a # v_inode_unused s1\<rparr>
      else s1)"

definition set_nlink :: "nat \<Rightarrow> u32 \<Rightarrow> vfs \<Rightarrow> vfs" where
  "set_nlink a n = upd_ind a (\<lambda>i. i\<lparr>i_nlink := n\<rparr>)"

definition inc_nlink :: "nat \<Rightarrow> vfs \<Rightarrow> vfs" where
  "inc_nlink a = upd_ind a (\<lambda>i. i\<lparr>i_nlink := i_nlink i + 1\<rparr>)"

definition drop_nlink :: "nat \<Rightarrow> vfs \<Rightarrow> vfs" where
  "drop_nlink a = upd_ind a (\<lambda>i. if 0 < i_nlink i then i\<lparr>i_nlink := i_nlink i - 1\<rparr> else i)"

section \<open>Directory entries\<close>

definition dget :: "nat \<Rightarrow> vfs \<Rightarrow> vfs" where
  "dget a = upd_dent a (\<lambda>d. d\<lparr>d_count := d_count d + 1\<rparr>)"

definition dput :: "nat \<Rightarrow> vfs \<Rightarrow> vfs" where
  "dput a s =
     (let s1 = upd_dent a (\<lambda>d. d\<lparr>d_count := d_count d - 1\<rparr>) s in
      if d_count (dent s1 a) = 0 then s1\<lparr>v_dentry_unused := a # v_dentry_unused s1\<rparr> else s1)"

text \<open>Names of 32 bytes and more need a block of their own.\<close>

definition d_alloc :: "vfs_alloc \<Rightarrow> nat option \<Rightarrow> name \<Rightarrow> vfs \<Rightarrow> nat option \<times> vfs" where
  "d_alloc va parent nm s =
     (case va_dentry va (v_dentries s) of None \<Rightarrow> (None, s)
      | Some a \<Rightarrow>
          if 32 \<le> length nm \<and> \<not> va_name va then (None, s)
          else
            let d = dentry_zero\<lparr>d_name := nm, d_count := 1,
                      d_parent := (case parent of None \<Rightarrow> a | Some p \<Rightarrow> p),
                      d_sb := (case parent of None \<Rightarrow> None | Some p \<Rightarrow> d_sb (dent s p))\<rparr>;
                s1 = s\<lparr>v_dentries := (v_dentries s)(a \<mapsto> d), v_nr_dentry := v_nr_dentry s + 1\<rparr>
            in (Some a, case parent of None \<Rightarrow> s1
                        | Some p \<Rightarrow> upd_dent p (\<lambda>d. d\<lparr>d_subdirs := a # d_subdirs d\<rparr>) (dget p s1)))"

definition d_instantiate :: "nat \<Rightarrow> nat option \<Rightarrow> vfs \<Rightarrow> vfs" where
  "d_instantiate a i = upd_dent a (\<lambda>d. d\<lparr>d_inode := i\<rparr>)"

definition d_rehash :: "nat \<Rightarrow> vfs \<Rightarrow> vfs" where
  "d_rehash a = upd_dent a (\<lambda>d. d\<lparr>d_flags := d_flags d AND NOT 0x8000\<rparr>)"

definition d_add :: "nat \<Rightarrow> nat option \<Rightarrow> vfs \<Rightarrow> vfs" where
  "d_add a i s = d_rehash a (d_instantiate a i s)"

definition d_drop :: "nat \<Rightarrow> vfs \<Rightarrow> vfs" where
  "d_drop a = upd_dent a (\<lambda>d. d\<lparr>d_flags := d_flags d OR 0x8000\<rparr>)"

definition d_delete :: "nat \<Rightarrow> vfs \<Rightarrow> vfs" where
  "d_delete a s = (if d_count (dent s a) = 1 then d_drop a s else s)"

text \<open>\<^verbatim>\<open>list_del_init\<close> of an entry's link in its parent's list.\<close>

definition unlink_child :: "nat \<Rightarrow> vfs \<Rightarrow> vfs" where
  "unlink_child a s = upd_dent (d_parent (dent s a)) (\<lambda>d. d\<lparr>d_subdirs := remove1 a (d_subdirs d)\<rparr>) s"

fun find_child :: "vfs \<Rightarrow> name \<Rightarrow> nat list \<Rightarrow> nat option" where
  "find_child s nm [] = None"
| "find_child s nm (c # cs) = (if d_name (dent s c) = nm then Some c else find_child s nm cs)"

definition d_lookup :: "nat \<Rightarrow> name \<Rightarrow> vfs \<Rightarrow> nat option \<times> vfs" where
  "d_lookup parent nm s =
     (case find_child s nm (d_subdirs (dent s parent)) of None \<Rightarrow> (None, s) | Some c \<Rightarrow> (Some c, dget c s))"

definition ramfs_lookup :: "nat \<Rightarrow> vfs \<Rightarrow> vfs" where
  "ramfs_lookup a s = d_add a None s"

definition d_make_root :: "vfs_alloc \<Rightarrow> nat \<Rightarrow> vfs \<Rightarrow> nat option \<times> vfs" where
  "d_make_root va i s =
     (case d_alloc va None [SLASH] s of
        (None, s1) \<Rightarrow> (None, iput i s1)
      | (Some a, s1) \<Rightarrow>
          (Some a, d_instantiate a (Some i) (upd_dent a (\<lambda>d. d\<lparr>d_sb := i_sb (ind s1 i)\<rparr>) s1)))"

section \<open>Paths\<close>

definition lookup_one :: "vfs_alloc \<Rightarrow> nat \<Rightarrow> name \<Rightarrow> vfs \<Rightarrow> (int + nat) \<times> vfs" where
  "lookup_one va dir nm s =
     (case d_lookup dir nm s of
        (Some c, s1) \<Rightarrow> (Inr c, s1)
      | (None, s1) \<Rightarrow>
          (case d_alloc va (Some dir) nm s1 of
             (None, s2) \<Rightarrow> (Inl (- ENOMEM), s2)
           | (Some a, s2) \<Rightarrow>
               let s3 = (if dent_ops s2 dir = Some RamfsDirOps then ramfs_lookup a s2 else s2)
               in if d_inode (dent s3 a) = None then (Inl (- ENOENT), s3) else (Inr a, s3)))"

fun cross_mount :: "(nat option \<times> nat) list \<Rightarrow> nat \<Rightarrow> vfs \<Rightarrow> nat \<times> vfs" where
  "cross_mount [] d s = (d, s)"
| "cross_mount ((mp, root) # ms) d s =
     (if mp = Some d then (root, dget root (dput d s)) else cross_mount ms d s)"

lemma length_dropWhile_less: "xs \<noteq> [] \<Longrightarrow> P (hd xs) \<Longrightarrow> length (dropWhile P xs) < length xs"
  by (cases xs) (auto simp: le_imp_less_Suc length_dropWhile_le)

lemma hd_dropWhile_slash: "dropWhile ((=) SLASH) nm \<noteq> [] \<Longrightarrow> hd (dropWhile ((=) SLASH) nm) \<noteq> SLASH"
  using hd_dropWhile [of "(=) SLASH" nm] by auto

function path_walk :: "vfs_alloc \<Rightarrow> u32 \<Rightarrow> name \<Rightarrow> nat \<Rightarrow> vfs \<Rightarrow> (int + nat) \<times> vfs" where
  "path_walk va flags nm0 d s =
     (let nm = dropWhile ((=) SLASH) nm0 in
      if nm = [] then (Inr d, s)
      else
        let comp = takeWhile ((\<noteq>) SLASH) nm; rest = dropWhile ((\<noteq>) SLASH) nm in
        if flags AND LOOKUP_PARENT \<noteq> 0 \<and> dropWhile ((=) SLASH) rest = [] then (Inr d, s)
        else if comp = [DOT] then path_walk va flags rest d s
        else if comp = [DOT, DOT]
        then if Some d \<noteq> v_root s
             then path_walk va flags rest (d_parent (dent s d)) (dput d (dget (d_parent (dent s d)) s))
             else path_walk va flags rest d s
        else (case lookup_one va d comp s of
                (Inl e, s1) \<Rightarrow> (Inl e, dput d s1)
              | (Inr c, s1) \<Rightarrow>
                  (case cross_mount (v_mounts s1) c (dput d s1) of
                     (c', s2) \<Rightarrow> path_walk va flags rest c' s2)))"
  by pat_completeness auto

lemma path_rest_shorter:
  assumes "nm = dropWhile ((=) SLASH) nm0" "nm \<noteq> []"
  shows "length (dropWhile ((\<noteq>) SLASH) nm) < length nm0"
proof -
  have "length (dropWhile ((\<noteq>) SLASH) nm) < length nm"
    using hd_dropWhile_slash [of nm0] assms by (intro length_dropWhile_less) auto
  also have "\<dots> \<le> length nm0" using assms(1) by (simp add: length_dropWhile_le)
  finally show ?thesis .
qed

termination path_walk
proof (relation "measure (\<lambda>(va, flags, nm, d, s). length nm)", goal_cases)
  case (2 va flags nm0 d s nm comp rest)
  then show ?case using path_rest_shorter [of nm nm0] by simp
next
  case (3 va flags nm0 d s nm comp rest)
  then show ?case using path_rest_shorter [of nm nm0] by simp
next
  case (4 va flags nm0 d s nm comp rest)
  then show ?case using path_rest_shorter [of nm nm0] by simp
next
  case (5 va flags nm0 d s nm comp rest)
  then show ?case using path_rest_shorter [of nm nm0] by simp
qed simp

declare path_walk.simps [simp del]

text \<open>The walk along the target of a symbolic link, which has its own loop.\<close>

function target_walk :: "vfs_alloc \<Rightarrow> name \<Rightarrow> nat \<Rightarrow> vfs \<Rightarrow> (int + nat) \<times> vfs" where
  "target_walk va p d s =
     (if p = [] then (Inr d, s)
      else
        let comp = take 255 (takeWhile ((\<noteq>) SLASH) p);
            rest = drop 1 (dropWhile ((\<noteq>) SLASH) p) in
        if comp = [] then target_walk va rest d s
        else (case d_lookup d comp s of
                (Some c, s1) \<Rightarrow> target_walk va rest c s1
              | (None, s1) \<Rightarrow>
                  if dent_ops s1 d = Some RamfsDirOps
                  then (case d_alloc va (Some d) comp s1 of
                          (None, s2) \<Rightarrow> (Inl (- ENOMEM), s2)
                        | (Some a, s2) \<Rightarrow> target_walk va rest a (ramfs_lookup a s2))
                  else (Inl (- ENOENT), s1)))"
  by pat_completeness auto

lemma target_rest_shorter: "p \<noteq> [] \<Longrightarrow> length (drop 1 (dropWhile ((\<noteq>) SLASH) p)) < length p"
  using length_dropWhile_le [of "(\<noteq>) SLASH" p] by (cases p) auto

termination target_walk
proof (relation "measure (\<lambda>(va, p, d, s). length p)", goal_cases)
  case (2 va p d s comp rest)
  then show ?case using target_rest_shorter [of p] by simp
next
  case (3 va p d s comp rest)
  then show ?case using target_rest_shorter [of p] by simp
next
  case (4 va p d s comp rest)
  then show ?case using target_rest_shorter [of p] by simp
qed simp

declare target_walk.simps [simp del]

text \<open>Following links at the end of a path, with the number of links still allowed.\<close>

fun follow_links :: "vfs_alloc \<Rightarrow> nat \<Rightarrow> nat \<Rightarrow> vfs \<Rightarrow> (int + nat) \<times> vfs" where
  "follow_links va k d s =
     (case d_inode (dent s d) of None \<Rightarrow> (Inr d, s)
      | Some i \<Rightarrow>
          if \<not> mode_is (i_mode (ind s i)) S_IFLNK then (Inr d, s)
          else (case k of 0 \<Rightarrow> (Inl (- ELOOP), s)
                | Suc k' \<Rightarrow>
                    (case i_private (ind s i) of
                       Some (LinkTarget (c # t)) \<Rightarrow>
                         if c = SLASH
                         then (case target_walk va t (case v_root s of None \<Rightarrow> 0 | Some r \<Rightarrow> r) s of
                                 (Inl e, s1) \<Rightarrow> (Inl e, s1)
                               | (Inr d', s1) \<Rightarrow> follow_links va k' d' s1)
                         else (Inl (- ENOENT), s)
                     | _ \<Rightarrow> (Inl (- ENOENT), s))))"

declare follow_links.simps [simp del]

text \<open>The error number, or the entry stored in the path.\<close>

definition kern_path :: "vfs_alloc \<Rightarrow> name \<Rightarrow> u32 \<Rightarrow> vfs \<Rightarrow> (int + nat) \<times> vfs" where
  "kern_path va nm flags s =
     (case v_root s of None \<Rightarrow> (Inl (- EINVAL), s)
      | Some r \<Rightarrow>
          (case path_walk va flags (if nm \<noteq> [] \<and> hd nm = SLASH then tl nm else nm) r (dget r s) of
             (Inl e, s1) \<Rightarrow> (Inl e, s1)
           | (Inr d, s1) \<Rightarrow>
               if flags AND LOOKUP_FOLLOW \<noteq> 0 then follow_links va 8 d s1 else (Inr d, s1)))"


section \<open>Inode operations of the RAM file system\<close>

text \<open>Each of \<^verbatim>\<open>create\<close>, \<^verbatim>\<open>mkdir\<close>, \<^verbatim>\<open>mknod\<close> and \<^verbatim>\<open>symlink\<close> has an inode counter of its own, all starting at 2.\<close>

definition ramfs_create :: "vfs_alloc \<Rightarrow> nat \<Rightarrow> nat \<Rightarrow> u32 \<Rightarrow> vfs \<Rightarrow> int \<times> vfs" where
  "ramfs_create va dir a mode s =
     (case new_inode va (i_sb (ind s dir)) s of
        (None, s1) \<Rightarrow> (- ENOMEM, s1)
      | (Some i, s1) \<Rightarrow>
          if \<not> va_private va then (- ENOMEM, iput i s1)
          else
            let s2 = upd_ind i (\<lambda>x. x\<lparr>i_private := Some (RamData \<lparr>ri_data = None, ri_size = 0, ri_capacity = 0\<rparr>),
                       i_ino := v_ino_create s1, i_mode := mode OR S_IFREG, i_uid := 0, i_gid := 0, i_nlink := 1,
                       i_size := 0, i_fop := Some RamfsFileOps\<rparr>) (s1\<lparr>v_ino_create := v_ino_create s1 + 1\<rparr>)
            in (0, d_instantiate a (Some i) s2))"

definition ramfs_mkdir :: "vfs_alloc \<Rightarrow> nat \<Rightarrow> nat \<Rightarrow> u32 \<Rightarrow> vfs \<Rightarrow> int \<times> vfs" where
  "ramfs_mkdir va dir a mode s =
     (case new_inode va (i_sb (ind s dir)) s of
        (None, s1) \<Rightarrow> (- ENOMEM, s1)
      | (Some i, s1) \<Rightarrow>
          let s2 = upd_ind i (\<lambda>x. x\<lparr>i_ino := v_ino_mkdir s1, i_mode := mode OR S_IFDIR, i_uid := 0, i_gid := 0,
                     i_nlink := 2\<rparr>) (s1\<lparr>v_ino_mkdir := v_ino_mkdir s1 + 1\<rparr>);
              s3 = upd_ind i (\<lambda>x. x\<lparr>i_op := Some RamfsDirOps, i_fop := Some RamfsDirFileOps\<rparr>) (inc_nlink dir s2)
          in (0, d_instantiate a (Some i) s3))"

definition ramfs_rmdir :: "nat \<Rightarrow> nat \<Rightarrow> vfs \<Rightarrow> int \<times> vfs" where
  "ramfs_rmdir dir a s =
     (if d_subdirs (dent s a) \<noteq> [] then (- ENOTEMPTY, s)
      else (case d_inode (dent s a) of None \<Rightarrow> (0, s)
            | Some i \<Rightarrow> (0, drop_nlink dir (drop_nlink i (drop_nlink i s)))))"

definition ramfs_unlink :: "nat \<Rightarrow> vfs \<Rightarrow> int \<times> vfs" where
  "ramfs_unlink a s = (case d_inode (dent s a) of None \<Rightarrow> (0, s) | Some i \<Rightarrow> (0, drop_nlink i s))"

definition ramfs_mknod :: "vfs_alloc \<Rightarrow> nat \<Rightarrow> nat \<Rightarrow> u32 \<Rightarrow> u32 \<Rightarrow> vfs \<Rightarrow> int \<times> vfs" where
  "ramfs_mknod va dir a mode dev s =
     (case new_inode va (i_sb (ind s dir)) s of
        (None, s1) \<Rightarrow> (- ENOMEM, s1)
      | (Some i, s1) \<Rightarrow>
          (0, d_instantiate a (Some i)
                (upd_ind i (\<lambda>x. x\<lparr>i_ino := v_ino_mknod s1, i_mode := mode, i_rdev := dev, i_uid := 0, i_gid := 0,
                   i_nlink := 1\<rparr>) (s1\<lparr>v_ino_mknod := v_ino_mknod s1 + 1\<rparr>))))"

definition ramfs_symlink :: "vfs_alloc \<Rightarrow> nat \<Rightarrow> nat \<Rightarrow> name \<Rightarrow> vfs \<Rightarrow> int \<times> vfs" where
  "ramfs_symlink va dir a target s =
     (case new_inode va (i_sb (ind s dir)) s of
        (None, s1) \<Rightarrow> (- ENOMEM, s1)
      | (Some i, s1) \<Rightarrow>
          if \<not> va_private va then (- ENOMEM, iput i s1)
          else (0, d_instantiate a (Some i)
                  (upd_ind i (\<lambda>x. x\<lparr>i_private := Some (LinkTarget target), i_ino := v_ino_symlink s1,
                     i_mode := S_IFLNK OR 0x1FF, i_size := word_of_nat (length target), i_nlink := 1\<rparr>)
                     (s1\<lparr>v_ino_symlink := v_ino_symlink s1 + 1\<rparr>))))"

section \<open>Generic operations on names\<close>

definition vfs_mkdir :: "vfs_alloc \<Rightarrow> nat option \<Rightarrow> nat \<Rightarrow> u32 \<Rightarrow> vfs \<Rightarrow> int \<times> vfs" where
  "vfs_mkdir va dir a mode s =
     (case dir of None \<Rightarrow> (- EINVAL, s)
      | Some di \<Rightarrow>
          if i_op (ind s di) \<noteq> Some RamfsDirOps then (- EPERM, s)
          else (case ramfs_mkdir va di a (mode OR S_IFDIR) s of
                  (err, s1) \<Rightarrow>
                    if err = 0
                    then (err, inc_nlink di (case d_inode (dent s1 a) of None \<Rightarrow> s1 | Some i \<Rightarrow> set_nlink i 2 s1))
                    else (err, s1)))"

definition vfs_rmdir :: "nat option \<Rightarrow> nat \<Rightarrow> vfs \<Rightarrow> int \<times> vfs" where
  "vfs_rmdir dir a s =
     (case dir of None \<Rightarrow> (- EINVAL, s)
      | Some di \<Rightarrow>
          (case d_inode (dent s a) of None \<Rightarrow> (- ENOENT, s)
           | Some i \<Rightarrow>
               if \<not> mode_is (i_mode (ind s i)) S_IFDIR then (- ENOTDIR, s)
               else if d_subdirs (dent s a) \<noteq> [] then (- ENOTEMPTY, s)
               else if i_op (ind s di) = Some RamfsDirOps then ramfs_rmdir di a s
               else (0, d_delete a (drop_nlink i (unlink_child a s)))))"

definition vfs_unlink :: "nat option \<Rightarrow> nat \<Rightarrow> vfs \<Rightarrow> int \<times> vfs" where
  "vfs_unlink dir a s =
     (case dir of None \<Rightarrow> (- EINVAL, s)
      | Some di \<Rightarrow>
          (case d_inode (dent s a) of None \<Rightarrow> (- ENOENT, s)
           | Some i \<Rightarrow>
               if mode_is (i_mode (ind s i)) S_IFDIR then (- EISDIR, s)
               else if i_op (ind s di) = Some RamfsDirOps then ramfs_unlink a s
               else (0, d_delete a (drop_nlink i (unlink_child a s)))))"

definition vfs_link :: "nat \<Rightarrow> nat option \<Rightarrow> nat \<Rightarrow> vfs \<Rightarrow> int \<times> vfs" where
  "vfs_link old new_dir a s =
     (case (d_inode (dent s old), new_dir) of
        (Some i, Some _) \<Rightarrow>
          if mode_is (i_mode (ind s i)) S_IFDIR then (- EPERM, s)
          else (0, inc_nlink i (d_instantiate a (Some i) s))
      | _ \<Rightarrow> (- EINVAL, s))"

definition vfs_symlink :: "vfs_alloc \<Rightarrow> nat option \<Rightarrow> nat \<Rightarrow> name \<Rightarrow> vfs \<Rightarrow> int \<times> vfs" where
  "vfs_symlink va dir a target s =
     (case dir of None \<Rightarrow> (- EINVAL, s)
      | Some di \<Rightarrow>
          if i_op (ind s di) = Some RamfsDirOps then ramfs_symlink va di a target s
          else
            (case new_inode va (i_sb (ind s di)) s of
               (None, s1) \<Rightarrow> (- ENOMEM, s1)
             | (Some i, s1) \<Rightarrow>
                 let s2 = upd_ind i (\<lambda>x. x\<lparr>i_ino := v_ino_gen_symlink s1, i_mode := S_IFLNK OR 0x1FF, i_nlink := 1\<rparr>)
                            (s1\<lparr>v_ino_gen_symlink := v_ino_gen_symlink s1 + 1\<rparr>) in
                 if \<not> va_private va then (- ENOMEM, iput i s2)
                 else (0, d_instantiate a (Some i)
                         (upd_ind i (\<lambda>x. x\<lparr>i_private := Some (LinkTarget target),
                            i_size := word_of_nat (length target)\<rparr>) s2))))"

text \<open>The file system has no \<^verbatim>\<open>rename\<close> of its own, so the generic code always runs.\<close>

definition vfs_rename :: "nat option \<Rightarrow> nat \<Rightarrow> nat option \<Rightarrow> nat \<Rightarrow> vfs \<Rightarrow> int \<times> vfs" where
  "vfs_rename old_dir old new_dir new s =
     (if old_dir = None \<or> new_dir = None then (- EINVAL, s)
      else if d_inode (dent s old) = None then (- ENOENT, s)
      else
        let s1 = (case d_inode (dent s new) of None \<Rightarrow> s
                  | Some i \<Rightarrow> d_delete new (drop_nlink i (unlink_child new s)));
            s2 = unlink_child old s1
        in (0, upd_dent old (\<lambda>d. d\<lparr>d_name := d_name (dent s2 new)\<rparr>) s2))"

definition vfs_mknod :: "vfs_alloc \<Rightarrow> nat option \<Rightarrow> nat \<Rightarrow> u32 \<Rightarrow> u32 \<Rightarrow> vfs \<Rightarrow> int \<times> vfs" where
  "vfs_mknod va dir a mode dev s =
     (case dir of None \<Rightarrow> (- EINVAL, s)
      | Some di \<Rightarrow>
          if i_op (ind s di) = Some RamfsDirOps then ramfs_mknod va di a mode dev s
          else
            (case new_inode va (i_sb (ind s di)) s of
               (None, s1) \<Rightarrow> (- ENOMEM, s1)
             | (Some i, s1) \<Rightarrow>
                 (0, d_instantiate a (Some i)
                       (upd_ind i (\<lambda>x. x\<lparr>i_ino := v_ino_gen_mknod s1, i_mode := mode, i_rdev := dev, i_nlink := 1\<rparr>)
                          (s1\<lparr>v_ino_gen_mknod := v_ino_gen_mknod s1 + 1\<rparr>)))))"

section \<open>System calls on names\<close>

text \<open>What follows the last slash.\<close>

definition base_name :: "name \<Rightarrow> name" where
  "base_name nm = rev (takeWhile ((\<noteq>) SLASH) (rev nm))"

text \<open>The common frame of the calls that make a name: find the parent, refuse a name that is known,
  allocate the entry and hand both to \<open>mk\<close>.\<close>

definition with_new_entry ::
  "vfs_alloc \<Rightarrow> name \<Rightarrow> (nat option \<Rightarrow> nat \<Rightarrow> vfs \<Rightarrow> int \<times> vfs) \<Rightarrow> nat \<Rightarrow> vfs \<Rightarrow> int \<times> vfs" where
  "with_new_entry va base mk parent s =
     (case d_lookup parent base s of
        (Some c, s1) \<Rightarrow> (- EEXIST, dput parent (dput c s1))
      | (None, s1) \<Rightarrow>
          (case d_alloc va (Some parent) base s1 of
             (None, s2) \<Rightarrow> (- ENOMEM, dput parent s2)
           | (Some a, s2) \<Rightarrow>
               (case mk (d_inode (dent s2 parent)) a s2 of
                  (err, s3) \<Rightarrow> (err, dput parent (dput a s3)))))"

definition sys_mkdir :: "vfs_alloc \<Rightarrow> name \<Rightarrow> u32 \<Rightarrow> vfs \<Rightarrow> int \<times> vfs" where
  "sys_mkdir va pathname mode s =
     (case kern_path va pathname LOOKUP_PARENT s of
        (Inl e, s1) \<Rightarrow> (e, s1)
      | (Inr p, s1) \<Rightarrow>
          if base_name pathname = [] then (- ENOENT, dput p s1)
          else with_new_entry va (base_name pathname) (\<lambda>dir a. vfs_mkdir va dir a mode) p s1)"

definition sys_rmdir :: "vfs_alloc \<Rightarrow> name \<Rightarrow> vfs \<Rightarrow> int \<times> vfs" where
  "sys_rmdir va pathname s =
     (case kern_path va pathname 2 s of
        (Inl e, s1) \<Rightarrow> (e, s1)
      | (Inr p, s1) \<Rightarrow>
          if d_inode (dent s1 p) = None then (- ENOENT, dput p s1)
          else (case vfs_rmdir (d_inode (dent s1 (d_parent (dent s1 p)))) p s1 of (err, s2) \<Rightarrow> (err, dput p s2)))"

definition sys_mknod :: "vfs_alloc \<Rightarrow> name \<Rightarrow> u32 \<Rightarrow> u32 \<Rightarrow> vfs \<Rightarrow> int \<times> vfs" where
  "sys_mknod va pathname mode dev s =
     (case kern_path va pathname LOOKUP_PARENT s of
        (Inl e, s1) \<Rightarrow> (e, s1)
      | (Inr p, s1) \<Rightarrow>
          with_new_entry va (base_name pathname) (\<lambda>dir a. vfs_mknod va dir a mode dev) p s1)"

definition sys_symlink :: "vfs_alloc \<Rightarrow> name \<Rightarrow> name \<Rightarrow> vfs \<Rightarrow> int \<times> vfs" where
  "sys_symlink va target linkpath s =
     (case kern_path va linkpath LOOKUP_PARENT s of
        (Inl e, s1) \<Rightarrow> (e, s1)
      | (Inr p, s1) \<Rightarrow>
          with_new_entry va (base_name linkpath) (\<lambda>dir a. vfs_symlink va dir a target) p s1)"

text \<open>Changing the owner or the mode of the inode at a path.\<close>

definition change_inode :: "vfs_alloc \<Rightarrow> name \<Rightarrow> u32 \<Rightarrow> (inode \<Rightarrow> inode) \<Rightarrow> vfs \<Rightarrow> int \<times> vfs" where
  "change_inode va pathname flags f s =
     (case kern_path va pathname flags s of
        (Inl e, s1) \<Rightarrow> (e, s1)
      | (Inr p, s1) \<Rightarrow>
          (case d_inode (dent s1 p) of None \<Rightarrow> (- ENOENT, dput p s1)
           | Some i \<Rightarrow> (0, dput p (upd_ind i f s1))))"

definition sys_lchown :: "vfs_alloc \<Rightarrow> name \<Rightarrow> u32 \<Rightarrow> u32 \<Rightarrow> vfs \<Rightarrow> int \<times> vfs" where
  "sys_lchown va pathname owner grp = change_inode va pathname 0 (\<lambda>i. i\<lparr>i_uid := owner, i_gid := grp\<rparr>)"

definition sys_chown :: "vfs_alloc \<Rightarrow> name \<Rightarrow> u32 \<Rightarrow> u32 \<Rightarrow> vfs \<Rightarrow> int \<times> vfs" where
  "sys_chown va pathname owner grp =
     change_inode va pathname LOOKUP_FOLLOW (\<lambda>i. i\<lparr>i_uid := owner, i_gid := grp\<rparr>)"

definition sys_chmod :: "vfs_alloc \<Rightarrow> name \<Rightarrow> u32 \<Rightarrow> vfs \<Rightarrow> int \<times> vfs" where
  "sys_chmod va pathname mode =
     change_inode va pathname LOOKUP_FOLLOW (\<lambda>i. i\<lparr>i_mode := (i_mode i AND 0xF000) OR (mode AND 0xFFF)\<rparr>)"

definition sys_link :: "vfs_alloc \<Rightarrow> name \<Rightarrow> name \<Rightarrow> vfs \<Rightarrow> int \<times> vfs" where
  "sys_link va oldpath newpath s =
     (case kern_path va oldpath LOOKUP_FOLLOW s of
        (Inl e, s1) \<Rightarrow> (e, s1)
      | (Inr old, s1) \<Rightarrow>
          (case kern_path va newpath LOOKUP_PARENT s1 of
             (Inl e, s2) \<Rightarrow> (e, dput old s2)
           | (Inr p, s2) \<Rightarrow>
               (case d_alloc va (Some p) (base_name newpath) s2 of
                  (None, s3) \<Rightarrow> (- ENOMEM, dput p (dput old s3))
                | (Some a, s3) \<Rightarrow>
                    (case vfs_link old (d_inode (dent s3 p)) a s3 of
                       (err, s4) \<Rightarrow> (err, dput p (dput old (dput a s4)))))))"

text \<open>The return value and the bytes stored in the buffer.\<close>

definition sys_readlink :: "vfs_alloc \<Rightarrow> name \<Rightarrow> nat \<Rightarrow> vfs \<Rightarrow> (int \<times> name) \<times> vfs" where
  "sys_readlink va pathname bufsiz s =
     (case kern_path va pathname 0 s of
        (Inl e, s1) \<Rightarrow> ((e, []), s1)
      | (Inr p, s1) \<Rightarrow>
          (case d_inode (dent s1 p) of None \<Rightarrow> ((- ENOENT, []), dput p s1)
           | Some i \<Rightarrow>
               if \<not> mode_is (i_mode (ind s1 i)) S_IFLNK then ((- EINVAL, []), dput p s1)
               else (case i_private (ind s1 i) of
                       Some (LinkTarget t) \<Rightarrow> ((int (min (length t) bufsiz), take bufsiz t), dput p s1)
                     | _ \<Rightarrow> ((- EINVAL, []), dput p s1))))"

definition sys_rename :: "vfs_alloc \<Rightarrow> name \<Rightarrow> name \<Rightarrow> vfs \<Rightarrow> int \<times> vfs" where
  "sys_rename va oldpath newpath s =
     (case kern_path va oldpath 0 s of
        (Inl e, s1) \<Rightarrow> (e, s1)
      | (Inr old, s1) \<Rightarrow>
          (case kern_path va newpath LOOKUP_PARENT s1 of
             (Inl e, s2) \<Rightarrow> (e, dput old s2)
           | (Inr p, s2) \<Rightarrow>
               (case d_alloc va (Some p) (base_name newpath) s2 of
                  (None, s3) \<Rightarrow> (- ENOMEM, dput p (dput old s3))
                | (Some a, s3) \<Rightarrow>
                    (case vfs_rename (d_inode (dent s3 (d_parent (dent s3 old)))) old (d_inode (dent s3 p)) a s3 of
                       (err, s4) \<Rightarrow> (err, dput p (dput old (dput a s4)))))))"

definition sys_unlink :: "vfs_alloc \<Rightarrow> name \<Rightarrow> vfs \<Rightarrow> int \<times> vfs" where
  "sys_unlink va pathname s =
     (case kern_path va pathname 0 s of
        (Inl e, s1) \<Rightarrow> (e, s1)
      | (Inr p, s1) \<Rightarrow>
          (case vfs_unlink (d_inode (dent s1 (d_parent (dent s1 p)))) p s1 of (err, s2) \<Rightarrow> (err, dput p s2)))"

section \<open>Open files\<close>

text \<open>Where the last component starts: the position of the last slash, or 0.\<close>

definition last_slash :: "name \<Rightarrow> nat" where
  "last_slash nm = length (dropWhile ((\<noteq>) SLASH) (rev nm)) - 1"

definition create_parent :: "vfs_alloc \<Rightarrow> name \<Rightarrow> vfs \<Rightarrow> (int + nat \<times> name) \<times> vfs" where
  "create_parent va filename s =
     (let plen = last_slash filename in
      if plen = 0
      then (case v_root s of None \<Rightarrow> (Inl (- ENOENT), s)
            | Some r \<Rightarrow>
                (Inr (r, if filename \<noteq> [] \<and> hd filename = SLASH then tl filename else filename), dget r s))
      else if 512 \<le> plen then (Inl (- ENAMETOOLONG), s)
      else (case kern_path va (take plen filename) LOOKUP_FOLLOW s of
              (Inl e, s1) \<Rightarrow> (Inl e, s1)
            | (Inr p, s1) \<Rightarrow> (Inr (p, drop (plen + 1) filename), s1)))"

definition open_create :: "vfs_alloc \<Rightarrow> name \<Rightarrow> u32 \<Rightarrow> vfs \<Rightarrow> (int + nat) \<times> vfs" where
  "open_create va filename mode s =
     (case create_parent va filename s of
        (Inl e, s1) \<Rightarrow> (Inl e, s1)
      | (Inr (p, base), s1) \<Rightarrow>
          (case d_inode (dent s1 p) of None \<Rightarrow> (Inl (- ENOENT), dput p s1)
           | Some dir \<Rightarrow>
               if i_op (ind s1 dir) \<noteq> Some RamfsDirOps then (Inl (- EACCES), dput p s1)
               else
                 (case d_alloc va (Some p) base s1 of
                    (None, s2) \<Rightarrow> (Inl (- ENOMEM), dput p s2)
                  | (Some a, s2) \<Rightarrow>
                      (case ramfs_create va dir a (mode OR 0x1A4) s2 of
                         (err, s3) \<Rightarrow>
                           if err < 0 then (Inl err, dput a (dput p s3))
                           else kern_path va filename LOOKUP_FOLLOW (dput p s3)))))"

text \<open>
  \<^verbatim>\<open>fs/devfs.c\<close>: the operations of a device by its number, twelve bits of major and twenty of minor number, and the \<^verbatim>\<open>open\<close>
  call of device inodes, the only one there is. An unknown device keeps the table of device inodes, which has \<^verbatim>\<open>open\<close> alone.
\<close>

definition get_chrdev_fops :: "u32 \<Rightarrow> devop option" where
  "get_chrdev_fops dev =
     (let major = drop_bit 20 dev; minor = dev AND 0xFFFFF in
      if major = 1 \<and> minor = 3 then Some DevNull
      else if major = 1 \<and> minor = 5 then Some DevZero
      else if major = 1 \<and> minor = 7 then Some DevFull
      else if major = 1 \<and> (minor = 8 \<or> minor = 9) then Some DevRandom
      else if major = 5 \<and> (minor = 0 \<or> minor = 1) then Some DevConsole
      else if major = 29 \<and> minor = 0 then Some DevFb
      else None)"

definition devfs_open :: "inode \<Rightarrow> fop option \<Rightarrow> fop option" where
  "devfs_open i f = (case get_chrdev_fops (i_rdev i) of None \<Rightarrow> f | Some d \<Rightarrow> Some (DeviceFops d))"

definition opened_fop :: "inode \<Rightarrow> fop option" where
  "opened_fop i = (if i_fop i = Some DevfsChrFops then devfs_open i (i_fop i) else i_fop i)"

lemma opened_fop_ramfs [simp]: "i_fop i = Some RamfsFileOps \<Longrightarrow> opened_fop i = Some RamfsFileOps"
  by (simp add: opened_fop_def)

definition filp_open :: "vfs_alloc \<Rightarrow> name \<Rightarrow> u32 \<Rightarrow> u32 \<Rightarrow> vfs \<Rightarrow> (int + vfile) \<times> vfs" where
  "filp_open va filename flags mode s =
     (case (case kern_path va filename LOOKUP_FOLLOW s of
              (Inl e, s1) \<Rightarrow>
                if e = - ENOENT \<and> flags AND O_CREAT \<noteq> 0 then open_create va filename mode s1 else (Inl e, s1)
            | (Inr d, s1) \<Rightarrow> (Inr d, s1)) of
        (Inl e, s2) \<Rightarrow> (Inl e, s2)
      | (Inr d, s2) \<Rightarrow>
          (case d_inode (dent s2 d) of None \<Rightarrow> (Inl (- ENOENT), dput d s2)
           | Some i \<Rightarrow>
               if mode_is (i_mode (ind s2 i)) S_IFDIR \<and> flags AND O_DIRECTORY = 0 \<and> flags AND 3 \<noteq> 0
               then (Inl (- EISDIR), dput d s2)
               else if \<not> va_file va then (Inl (- ENOMEM), dput d s2)
               else (Inr \<lparr>f_dentry = d, f_inode = i, f_op = opened_fop (ind s2 i), f_flags = flags,
                          f_mode = (if flags AND 3 = 0 then 1 else if flags AND 3 = 1 then 2 else 3),
                          f_pos = 0, f_count = 1\<rparr>, s2)))"

definition filp_close :: "vfile option \<Rightarrow> vfs \<Rightarrow> vfs" where
  "filp_close f s = (case f of None \<Rightarrow> s | Some fl \<Rightarrow> dput (f_dentry fl) s)"

definition ram_data :: "inode \<Rightarrow> ramfs_inode option" where
  "ram_data i = (case i_private i of Some (RamData ri) \<Rightarrow> Some ri | _ \<Rightarrow> None)"

text \<open>
  The return value, the bytes read and the new position. The operations of devices are those of the theory \<open>Devfs\<close>, whose
  \<open>dev_file_read\<close> and \<open>dev_file_write\<close> are these two calls for the files of devices.
\<close>

definition vfs_read :: "vfile \<Rightarrow> u64 \<Rightarrow> u64 \<Rightarrow> vfs \<Rightarrow> (int \<times> u8 list \<times> u64) option" where
  "vfs_read f count pos s =
     (if f_op f \<noteq> Some RamfsFileOps then Some (- EINVAL, [], pos)
      else if f_mode f AND 1 = 0 then Some (- EBADF, [], pos)
      else map_option (\<lambda>(bs, pos'). (int (length bs), bs, pos'))
             (ramfs_read (ram_data (ind s (f_inode f))) count pos))"

definition vfs_write :: "kmalloc_bytes \<Rightarrow> vfile \<Rightarrow> u8 list \<Rightarrow> u64 \<Rightarrow> vfs \<Rightarrow> (int \<times> u64 \<times> vfs) option" where
  "vfs_write fresh f bs pos s =
     (if f_op f \<noteq> Some RamfsFileOps then Some (- EINVAL, pos, s)
      else if f_mode f AND 2 = 0 then Some (- EBADF, pos, s)
      else
        (case ramfs_write fresh (ram_data (ind s (f_inode f))) bs pos of
           None \<Rightarrow> None
         | Some (r, None, pos') \<Rightarrow> Some (r, pos', s)
         | Some (r, Some ri, pos') \<Rightarrow>
             if r < 0 then Some (r, pos', s)
             else Some (r, pos', upd_ind (f_inode f)
                    (\<lambda>i. i\<lparr>i_private := Some (RamData ri),
                           i_size := (case ram_data i of None \<Rightarrow> i_size i
                                      | Some old \<Rightarrow> if ri_size old < pos' then pos' else i_size i),
                           i_state := i_state i OR 7\<rparr>) s)))"

text \<open>Files without an \<^verbatim>\<open>llseek\<close> of their own get the same computation from \<^verbatim>\<open>vfs_llseek\<close>.\<close>

definition vfs_llseek :: "vfile option \<Rightarrow> u64 \<Rightarrow> int \<Rightarrow> vfs \<Rightarrow> int \<times> vfile option" where
  "vfs_llseek f offset whence s =
     (case f of None \<Rightarrow> (- EBADF, f)
      | Some fl \<Rightarrow>
          (case ramfs_llseek (i_size (ind s (f_inode fl))) offset whence (f_pos fl) of
             (r, p) \<Rightarrow> (r, Some (fl\<lparr>f_pos := p\<rparr>))))"

section \<open>File system types and mounts\<close>

definition register_filesystem :: "nat \<Rightarrow> name option \<Rightarrow> vfs \<Rightarrow> int \<times> vfs" where
  "register_filesystem fs nm s =
     (case nm of None \<Rightarrow> (- EINVAL, s)
      | Some n \<Rightarrow>
          if n \<in> snd ` set (v_fs_types s) then (- EBUSY, s)
          else (0, s\<lparr>v_fs_types := (fs, n) # v_fs_types s\<rparr>))"

fun remove_fs :: "nat \<Rightarrow> (nat \<times> name) list \<Rightarrow> (nat \<times> name) list option" where
  "remove_fs fs [] = None"
| "remove_fs fs (e # es) = (if fst e = fs then Some es else map_option ((#) e) (remove_fs fs es))"

definition unregister_filesystem :: "nat \<Rightarrow> vfs \<Rightarrow> int \<times> vfs" where
  "unregister_filesystem fs s =
     (case remove_fs fs (v_fs_types s) of None \<Rightarrow> (- EINVAL, s) | Some l \<Rightarrow> (0, s\<lparr>v_fs_types := l\<rparr>))"

fun get_fs_type :: "name \<Rightarrow> (nat \<times> name) list \<Rightarrow> nat option" where
  "get_fs_type nm [] = None"
| "get_fs_type nm ((fs, n) # es) = (if n = nm then Some fs else get_fs_type nm es)"

definition ramfs_mount :: "vfs_alloc \<Rightarrow> vfs \<Rightarrow> (int + nat) \<times> vfs" where
  "ramfs_mount va s =
     (case va_sb va of None \<Rightarrow> (Inl (- ENOMEM), s)
      | Some sb \<Rightarrow>
          (case new_inode va (Some sb) s of
             (None, s1) \<Rightarrow> (Inl (- ENOMEM), s1)
           | (Some i, s1) \<Rightarrow>
               let s2 = upd_ind i (\<lambda>x. x\<lparr>i_ino := 1, i_mode := S_IFDIR OR 0x1ED, i_uid := 0, i_gid := 0, i_nlink := 2,
                          i_op := Some RamfsDirOps, i_fop := Some RamfsDirFileOps\<rparr>) s1 in
               (case d_make_root va i s2 of
                  (None, s3) \<Rightarrow> (Inl (- ENOMEM), iput i s3)
                | (Some root, s3) \<Rightarrow> (Inr root, s3))))"

text \<open>Every registered type mounts as the RAM file system does.\<close>

definition do_mount :: "vfs_alloc \<Rightarrow> name \<Rightarrow> name \<Rightarrow> vfs \<Rightarrow> int \<times> vfs" where
  "do_mount va dir_name type_page s =
     (if get_fs_type type_page (v_fs_types s) = None then (- ENODEV, s)
      else
        (case (if v_root s = None then (Inr None, s)
               else (case kern_path va dir_name LOOKUP_FOLLOW s of
                       (Inl e, s1) \<Rightarrow> (Inl e, s1) | (Inr d, s1) \<Rightarrow> (Inr (Some d), s1))) of
           (Inl e, s1) \<Rightarrow> (e, s1)
         | (Inr mp, s1) \<Rightarrow>
             let release = (\<lambda>s. case mp of None \<Rightarrow> s | Some d \<Rightarrow> dput d s) in
             (case ramfs_mount va s1 of
                (Inl e, s2) \<Rightarrow> (e, release s2)
              | (Inr root, s2) \<Rightarrow>
                  if \<not> va_mount va then (- ENOMEM, release s2)
                  else
                    let s3 = (if length (v_mounts s2) < 256 then s2\<lparr>v_mounts := v_mounts s2 @ [(mp, root)]\<rparr> else s2)
                    in (0, if v_root s3 = None then s3\<lparr>v_root := Some root\<rparr> else s3))))"

definition vfs_init :: vfs where
  "vfs_init = \<lparr>v_dentries = Map.empty, v_inodes = Map.empty, v_fs_types = [], v_mounts = [], v_root = None,
     v_dentry_unused = [], v_inode_in_use = [], v_inode_unused = [], v_nr_dentry = 0, v_nr_inodes = 0,
     v_ino_create = 2, v_ino_mkdir = 2, v_ino_mknod = 2, v_ino_symlink = 2,
     v_ino_gen_symlink = 0x8000, v_ino_gen_mknod = 0xA000\<rparr>"

end
