(* ===== verification/Vfs_Path.thy ===== *)
theory Vfs_Path
  imports Vfs
begin

text \<open>
  Path resolution: the walk of \<^verbatim>\<open>kern_path\<close> is a walk over the components of the path, it agrees with a
  reference resolution that only reads the name tree, and a miss leaves an entry without an inode.
\<close>

section \<open>Reference counts aside\<close>

text \<open>The state without the reference counts of entries, which every lookup moves.\<close>

definition forget :: "vfs \<Rightarrow> vfs" where
  "forget s = s\<lparr>v_dentries := (\<lambda>a. map_option (d_count_update (\<lambda>_. 0)) (v_dentries s a)), v_dentry_unused := []\<rparr>"

named_theorems vfs_frame

lemma forget_simps [simp]:
  "v_root (forget s) = v_root s" "v_mounts (forget s) = v_mounts s" "v_inodes (forget s) = v_inodes s"
  "dent (forget s) a = (dent s a)\<lparr>d_count := 0\<rparr>" "ind (forget s) i = ind s i"
  "dom (v_dentries (forget s)) = dom (v_dentries s)"
  by (auto simp: forget_def dent_def ind_def dentry_zero_def dom_def split: option.splits)

lemma d_count_zero_simps [simp]:
  "d_subdirs (d\<lparr>d_count := n\<rparr>) = d_subdirs d" by simp

lemma forget_upd_same:
  "(\<And>d. v_dentries s a = Some d \<Longrightarrow> (f d)\<lparr>d_count := 0\<rparr> = d\<lparr>d_count := 0\<rparr>) \<Longrightarrow> forget (upd_dent a f s) = forget s"
  by (auto simp: forget_def upd_dent_def fun_eq_iff map_option_case split: option.split intro!: vfs.equality)

lemma forget_upd_dent:
  "(\<And>d n. f (d\<lparr>d_count := n\<rparr>) = (f d)\<lparr>d_count := n\<rparr>) \<Longrightarrow> forget (upd_dent a f s) = upd_dent a f (forget s)"
  by (auto simp: forget_def upd_dent_def fun_eq_iff option.map_comp o_def intro!: vfs.equality)

lemma forget_insert:
  "forget (s\<lparr>v_dentries := (v_dentries s)(a \<mapsto> d), v_nr_dentry := n\<rparr>) =
   (forget s)\<lparr>v_dentries := (v_dentries (forget s))(a \<mapsto> d\<lparr>d_count := 0\<rparr>), v_nr_dentry := n\<rparr>"
  by (auto simp: forget_def fun_eq_iff intro!: vfs.equality)

lemma forget_dget [simp, vfs_frame]: "forget (dget a s) = forget s"
  by (simp add: dget_def forget_upd_same)

lemma forget_unused: "forget (s\<lparr>v_dentry_unused := l\<rparr>) = forget s"
  by (simp add: forget_def)

lemma forget_dput [simp, vfs_frame]: "forget (dput a s) = forget s"
  by (simp add: dput_def Let_def forget_unused forget_upd_same)

text \<open>States that differ in reference counts only.\<close>

lemma forget_eq_fields:
  assumes "forget s' = forget s"
  shows "v_root s' = v_root s" "v_mounts s' = v_mounts s" "v_inodes s' = v_inodes s"
    "d_subdirs (dent s' a) = d_subdirs (dent s a)" "d_name (dent s' a) = d_name (dent s a)"
    "d_inode (dent s' a) = d_inode (dent s a)" "d_parent (dent s' a) = d_parent (dent s a)"
    "ind s' i = ind s i" "dom (v_dentries s') = dom (v_dentries s)"
proof -
  have "dent (forget s') a = dent (forget s) a" using assms by simp
  then have d: "(dent s' a)\<lparr>d_count := 0\<rparr> = (dent s a)\<lparr>d_count := 0\<rparr>" by simp
  have p: "P (d\<lparr>d_count := 0\<rparr>) = P (e\<lparr>d_count := 0\<rparr>)" if "d\<lparr>d_count := 0\<rparr> = e\<lparr>d_count := 0\<rparr>" for P and d e :: dentry
    using that by simp
  show "d_subdirs (dent s' a) = d_subdirs (dent s a)" using p [OF d, of d_subdirs] by simp
  show "d_name (dent s' a) = d_name (dent s a)" using p [OF d, of d_name] by simp
  show "d_inode (dent s' a) = d_inode (dent s a)" using p [OF d, of d_inode] by simp
  show "d_parent (dent s' a) = d_parent (dent s a)" using p [OF d, of d_parent] by simp
  show "v_root s' = v_root s" "v_mounts s' = v_mounts s" "v_inodes s' = v_inodes s" "ind s' i = ind s i"
    "dom (v_dentries s') = dom (v_dentries s)"
    using assms by (metis forget_simps)+
qed

section \<open>Resolution\<close>

text \<open>The components of a path.\<close>

function components :: "name \<Rightarrow> name list" where
  "components nm0 =
     (let nm = dropWhile ((=) SLASH) nm0 in
      if nm = [] then [] else takeWhile ((\<noteq>) SLASH) nm # components (dropWhile ((\<noteq>) SLASH) nm))"
  by pat_completeness auto
termination components
proof (relation "measure length", goal_cases)
  case (2 nm0 nm)
  then show ?case using path_rest_shorter [of nm nm0] by simp
qed simp

declare components.simps [simp del]

definition mounted :: "vfs \<Rightarrow> nat \<Rightarrow> nat" where
  "mounted s c = (case find (\<lambda>m. fst m = Some c) (v_mounts s) of None \<Rightarrow> c | Some m \<Rightarrow> snd m)"

definition resolve1 :: "vfs \<Rightarrow> nat \<Rightarrow> name \<Rightarrow> nat option" where
  "resolve1 s d c =
     (if c = [DOT] then Some d
      else if c = [DOT, DOT] then Some (if Some d = v_root s then d else d_parent (dent s d))
      else map_option (mounted s) (find_child s c (d_subdirs (dent s d))))"

fun resolve :: "vfs \<Rightarrow> nat \<Rightarrow> name list \<Rightarrow> nat option" where
  "resolve s d [] = Some d"
| "resolve s d (c # cs) = (case resolve1 s d c of None \<Rightarrow> None | Some e \<Rightarrow> resolve s e cs)"

lemma find_child_cong: "(\<And>a. a \<in> set cs \<Longrightarrow> d_name (dent s' a) = d_name (dent s a)) \<Longrightarrow> find_child s' nm cs = find_child s nm cs"
  by (induction cs) auto

text \<open>Resolution reads names, parents, children, the root and the mounts only.\<close>

lemma resolve_cong:
  assumes "v_root s' = v_root s" "v_mounts s' = v_mounts s"
    "\<And>x. d_name (dent s' x) = d_name (dent s x)" "\<And>x. d_parent (dent s' x) = d_parent (dent s x)"
    "\<And>x. d_subdirs (dent s' x) = d_subdirs (dent s x)"
  shows "resolve s' d cs = resolve s d cs"
proof -
  have "mounted s' = mounted s" by (rule ext) (simp add: mounted_def assms(2))
  then have "resolve1 s' x c = resolve1 s x c" for x c
    by (simp add: resolve1_def assms find_child_cong [of _ s' s])
  then show ?thesis by (induction cs arbitrary: d) (simp_all split: option.split)
qed

lemma resolve_forget: "forget s' = forget s \<Longrightarrow> resolve s' d cs = resolve s d cs"
  by (rule resolve_cong) (erule forget_eq_fields)+

lemma cross_mount_mounted:
  "fst (cross_mount ms c s) = (case find (\<lambda>m. fst m = Some c) ms of None \<Rightarrow> c | Some m \<Rightarrow> snd m)"
  "forget (snd (cross_mount ms c s)) = forget s"
  by (induction ms c s rule: cross_mount.induct) auto

lemma lookup_one_hit:
  "find_child s nm (d_subdirs (dent s d)) = Some c \<Longrightarrow> lookup_one va d nm s = (Inr c, dget c s)"
  by (simp add: lookup_one_def d_lookup_def)

text \<open>The components that a walk visits.\<close>

definition walked :: "u32 \<Rightarrow> name \<Rightarrow> name list" where
  "walked flags nm = (if flags AND LOOKUP_PARENT \<noteq> 0 then butlast (components nm) else components nm)"

lemma components_eq_Nil: "components nm = [] \<longleftrightarrow> dropWhile ((=) SLASH) nm = []"
  by (subst components.simps) (simp add: Let_def del: dropWhile_eq_Nil_conv)

lemma components_Cons:
  "dropWhile ((=) SLASH) nm0 = nm \<Longrightarrow> nm \<noteq> [] \<Longrightarrow>
   components nm0 = takeWhile ((\<noteq>) SLASH) nm # components (dropWhile ((\<noteq>) SLASH) nm)"
  by (subst components.simps) (simp add: Let_def)

lemma walked_Cons:
  assumes "dropWhile ((=) SLASH) nm0 = nm" "nm \<noteq> []" "rest = dropWhile ((\<noteq>) SLASH) nm"
    "\<not> (flags AND LOOKUP_PARENT \<noteq> 0 \<and> dropWhile ((=) SLASH) rest = [])"
  shows "walked flags nm0 = takeWhile ((\<noteq>) SLASH) nm # walked flags rest"
  using assms(4) unfolding walked_def components_Cons [OF assms(1,2)] assms(3) [symmetric] components_eq_Nil [symmetric]
  by (cases "flags AND LOOKUP_PARENT = 0") simp_all

lemma walked_Nil: "dropWhile ((=) SLASH) nm0 = [] \<Longrightarrow> walked flags nm0 = []"
  unfolding walked_def components_eq_Nil [symmetric] by simp

lemma walked_parent:
  assumes "dropWhile ((=) SLASH) nm0 = nm" "nm \<noteq> []"
    "flags AND LOOKUP_PARENT \<noteq> 0" "dropWhile ((=) SLASH) (dropWhile ((\<noteq>) SLASH) nm) = []"
  shows "walked flags nm0 = []"
  using assms(3,4) unfolding walked_def components_Cons [OF assms(1,2)] components_eq_Nil [symmetric] by simp

text \<open>The three ways a walk goes on.\<close>

lemma path_walk_end: "dropWhile ((=) SLASH) nm0 = [] \<Longrightarrow> path_walk va flags nm0 d s = (Inr d, s)"
  by (subst path_walk.simps) (simp add: Let_def del: dropWhile_eq_Nil_conv)

lemma path_walk_parent:
  "flags AND LOOKUP_PARENT \<noteq> 0 \<Longrightarrow> dropWhile ((=) SLASH) (dropWhile ((\<noteq>) SLASH) (dropWhile ((=) SLASH) nm0)) = [] \<Longrightarrow>
   path_walk va flags nm0 d s = (Inr d, s)"
  by (subst path_walk.simps) (simp add: Let_def del: dropWhile_eq_Nil_conv)

lemma path_walk_step:
  assumes "dropWhile ((=) SLASH) nm0 = nm" "nm \<noteq> []" "rest = dropWhile ((\<noteq>) SLASH) nm" "cmp = takeWhile ((\<noteq>) SLASH) nm"
    "\<not> (flags AND LOOKUP_PARENT \<noteq> 0 \<and> dropWhile ((=) SLASH) rest = [])"
  shows "path_walk va flags nm0 d s =
    (if cmp = [DOT] then path_walk va flags rest d s
     else if cmp = [DOT, DOT]
     then if Some d \<noteq> v_root s
          then path_walk va flags rest (d_parent (dent s d)) (dput d (dget (d_parent (dent s d)) s))
          else path_walk va flags rest d s
     else (case lookup_one va d cmp s of
             (Inl e, s1) \<Rightarrow> (Inl e, dput d s1)
           | (Inr c, s1) \<Rightarrow>
               (case cross_mount (v_mounts s1) c (dput d s1) of (c', s2) \<Rightarrow> path_walk va flags rest c' s2)))"
  unfolding path_walk.simps [of va flags nm0 d s] Let_def assms(1) assms(3) [symmetric] assms(4) [symmetric]
  using assms(2,5) by (simp only: if_False)

text \<open>The walk over components: one call for each, whatever slashes the path has.\<close>

definition cstep :: "vfs_alloc \<Rightarrow> name \<Rightarrow> nat \<Rightarrow> vfs \<Rightarrow> (int + nat) \<times> vfs" where
  "cstep va c d s =
     (if c = [DOT] then (Inr d, s)
      else if c = [DOT, DOT]
      then if Some d \<noteq> v_root s then (Inr (d_parent (dent s d)), dput d (dget (d_parent (dent s d)) s)) else (Inr d, s)
      else (case lookup_one va d c s of
              (Inl e, s1) \<Rightarrow> (Inl e, dput d s1)
            | (Inr e, s1) \<Rightarrow> (case cross_mount (v_mounts s1) e (dput d s1) of (e', s2) \<Rightarrow> (Inr e', s2))))"

fun cwalk :: "vfs_alloc \<Rightarrow> name list \<Rightarrow> nat \<Rightarrow> vfs \<Rightarrow> (int + nat) \<times> vfs" where
  "cwalk va [] d s = (Inr d, s)"
| "cwalk va (c # cs) d s = (case cstep va c d s of (Inl e, s1) \<Rightarrow> (Inl e, s1) | (Inr d', s1) \<Rightarrow> cwalk va cs d' s1)"

lemma path_walk_cwalk: "path_walk va flags nm d s = cwalk va (walked flags nm) d s"
proof (induction "length nm" arbitrary: nm d s rule: less_induct)
  case less
  define nm1 where "nm1 = dropWhile ((=) SLASH) nm"
  define cmp where "cmp = takeWhile ((\<noteq>) SLASH) nm1"
  define rest where "rest = dropWhile ((\<noteq>) SLASH) nm1"
  consider (fin) "nm1 = []" | (par) "nm1 \<noteq> []" "flags AND LOOKUP_PARENT \<noteq> 0" "dropWhile ((=) SLASH) rest = []"
    | (go) "nm1 \<noteq> []" "\<not> (flags AND LOOKUP_PARENT \<noteq> 0 \<and> dropWhile ((=) SLASH) rest = [])"
    by blast
  then show ?case
  proof cases
    case fin
    then show ?thesis
      using walked_Nil [of nm flags] path_walk_end [of nm va flags d s] unfolding nm1_def by simp
  next
    case par
    have "walked flags nm = []"
      by (rule walked_parent [OF nm1_def [symmetric] par(1,2)]) (use par(3) in \<open>simp only: rest_def\<close>)
    moreover have "path_walk va flags nm d s = (Inr d, s)"
      by (rule path_walk_parent [OF par(2)]) (use par(3) in \<open>simp only: rest_def nm1_def\<close>)
    ultimately show ?thesis by simp
  next
    case go
    note w = walked_Cons [OF nm1_def [symmetric] go(1) rest_def go(2), folded cmp_def]
    have "length rest < length nm" using path_rest_shorter [OF nm1_def go(1)] by (simp add: rest_def)
    then show ?thesis
      unfolding w path_walk_step [OF nm1_def [symmetric] go(1) rest_def cmp_def go(2)]
      by (simp add: less cstep_def split: prod.split sum.split)
  qed
qed

lemma count_frame [simp]:
  "v_mounts (dget a s) = v_mounts s" "v_root (dget a s) = v_root s" "v_inodes (dget a s) = v_inodes s"
  "v_mounts (dput a s) = v_mounts s" "v_root (dput a s) = v_root s" "v_inodes (dput a s) = v_inodes s"
  by (simp_all add: dget_def dput_def upd_dent_def Let_def)

lemma cstep_resolve1:
  assumes "resolve1 s d c = Some f"
  shows "\<exists>s1. cstep va c d s = (Inr f, s1) \<and> forget s1 = forget s"
proof (cases "c = [DOT] \<or> c = [DOT, DOT]")
  case True
  then show ?thesis using assms by (auto simp: cstep_def resolve1_def)
next
  case False
  then obtain e where e: "find_child s c (d_subdirs (dent s d)) = Some e" "f = mounted s e"
    using assms by (auto simp: resolve1_def)
  show ?thesis
    using cross_mount_mounted [of "v_mounts s" e "dput d (dget e s)"] False e(2)
    by (auto simp: cstep_def lookup_one_hit [OF e(1)] mounted_def split: prod.splits)
qed

lemma cwalk_resolve: "resolve s d cs = Some e \<Longrightarrow> \<exists>s'. cwalk va cs d s = (Inr e, s') \<and> forget s' = forget s"
proof (induction cs arbitrary: d s)
  case (Cons c cs)
  then obtain f where f: "resolve1 s d c = Some f" "resolve s f cs = Some e" by (auto split: option.splits)
  obtain s1 where s1: "cstep va c d s = (Inr f, s1)" "forget s1 = forget s" using cstep_resolve1 [OF f(1)] by auto
  then show ?case using Cons.IH [of s1 f] f(2) resolve_forget [OF s1(2)] by auto
qed simp

lemma cwalk_append:
  "cwalk va (cs @ ds) d s = (case cwalk va cs d s of (Inl e, s1) \<Rightarrow> (Inl e, s1) | (Inr d', s1) \<Rightarrow> cwalk va ds d' s1)"
  by (induction cs arbitrary: d s) (auto split: prod.split sum.split)

section \<open>Lookups that fail\<close>

text \<open>The entry without an inode that a failed lookup leaves behind.\<close>

definition new_entry :: "nat \<Rightarrow> nat \<Rightarrow> name \<Rightarrow> vfs \<Rightarrow> vfs" where
  "new_entry a p c s =
     upd_dent p (\<lambda>d. d\<lparr>d_subdirs := a # d_subdirs d\<rparr>)
       (s\<lparr>v_dentries := (v_dentries s)(a \<mapsto> dentry_zero\<lparr>d_name := c, d_parent := p, d_sb := d_sb (dent s p)\<rparr>),
          v_nr_dentry := v_nr_dentry s + 1\<rparr>)"

text \<open>An allocator answers unused addresses or fails; one with enough memory does not fail.\<close>

definition alloc_fresh :: "vfs_alloc \<Rightarrow> bool" where
  "alloc_fresh va \<longleftrightarrow> (\<forall>m a. va_dentry va m = Some a \<longrightarrow> m a = None) \<and> (\<forall>m a. va_inode va m = Some a \<longrightarrow> m a = None)"

definition alloc_ok :: "vfs_alloc \<Rightarrow> bool" where
  "alloc_ok va \<longleftrightarrow> alloc_fresh va \<and> (\<forall>m. finite (dom m) \<longrightarrow> va_dentry va m \<noteq> None) \<and>
     (\<forall>m. finite (dom m) \<longrightarrow> va_inode va m \<noteq> None) \<and> va_name va \<and> va_private va \<and> va_file va"

lemma alloc_okD:
  assumes "alloc_ok va"
  shows "alloc_fresh va" "va_name va" "va_private va" "va_file va"
    "finite (dom m) \<Longrightarrow> \<exists>a. va_dentry va m = Some a \<and> m a = None"
    "finite (dom k) \<Longrightarrow> \<exists>a. va_inode va k = Some a \<and> k a = None"
  using assms by (simp_all add: alloc_ok_def) (unfold alloc_fresh_def, blast+)

lemma forget_new_entry_commute: "forget (new_entry a p c s) = new_entry a p c (forget s)"
  by (simp add: new_entry_def forget_upd_dent forget_insert dentry_zero_def) (simp add: forget_def)

lemma forget_new_entry: "forget s' = forget s \<Longrightarrow> forget (new_entry a p c s') = forget (new_entry a p c s)"
  by (simp add: forget_new_entry_commute)

lemma d_alloc_ok:
  assumes "alloc_ok va" "finite (dom (v_dentries s))"
  obtains a s1 where "d_alloc va (Some p) c s = (Some a, s1)" "v_dentries s a = None"
    "forget s1 = forget (new_entry a p c s)"
proof -
  obtain a where a: "va_dentry va (v_dentries s) = Some a" "v_dentries s a = None"
    using alloc_okD(5) [OF assms] by blast
  note n = alloc_okD(2) [OF assms(1)]
  let ?s = "s\<lparr>v_dentries := (v_dentries s)(a \<mapsto> dentry_zero\<lparr>d_name := c, d_count := 1, d_parent := p, d_sb := d_sb (dent s p)\<rparr>),
              v_nr_dentry := v_nr_dentry s + 1\<rparr>"
  have eq: "d_alloc va (Some p) c s = (Some a, upd_dent p (\<lambda>d. d\<lparr>d_subdirs := a # d_subdirs d\<rparr>) (dget p ?s))"
    using a(1) n by (simp add: d_alloc_def Let_def)
  have "forget ?s = forget (s\<lparr>v_dentries := (v_dentries s)(a \<mapsto> dentry_zero\<lparr>d_name := c, d_parent := p, d_sb := d_sb (dent s p)\<rparr>),
              v_nr_dentry := v_nr_dentry s + 1\<rparr>)"
    by (simp add: forget_insert dentry_zero_def)
  then have "forget (upd_dent p (\<lambda>d. d\<lparr>d_subdirs := a # d_subdirs d\<rparr>) (dget p ?s)) = forget (new_entry a p c s)"
    unfolding new_entry_def by (simp add: forget_upd_dent)
  then show thesis using that [OF eq a(2)] by simp
qed

lemma new_entry_simps [simp]:
  "v_root (new_entry a p c s) = v_root s" "v_mounts (new_entry a p c s) = v_mounts s"
  "v_inodes (new_entry a p c s) = v_inodes s" "ind (new_entry a p c s) i = ind s i"
  by (simp_all add: new_entry_def upd_dent_def ind_def)

lemma dent_new_entry:
  "p \<in> dom (v_dentries s) \<Longrightarrow> a \<noteq> p \<Longrightarrow> dent (new_entry a p c s) x =
     (if x = a then dentry_zero\<lparr>d_name := c, d_parent := p, d_sb := d_sb (dent s p)\<rparr>
      else if x = p then (dent s p)\<lparr>d_subdirs := a # d_subdirs (dent s p)\<rparr> else dent s x)"
  by (auto simp: new_entry_def upd_dent_def dent_def)

lemma upd_dent_twice: "upd_dent a f (upd_dent a g s) = upd_dent a (f \<circ> g) s"
  by (simp add: upd_dent_def option.map_comp)

lemma lookup_one_miss:
  assumes "find_child s c (d_subdirs (dent s p)) = None" "alloc_ok va" "finite (dom (v_dentries s))" "p \<in> dom (v_dentries s)"
  obtains a s1 where "lookup_one va p c s = (Inl (- ENOENT), s1)" "v_dentries s a = None"
    "forget s1 = forget (new_entry a p c s)"
proof -
  obtain a s2 where a: "d_alloc va (Some p) c s = (Some a, s2)" "v_dentries s a = None"
      "forget s2 = forget (new_entry a p c s)"
    using d_alloc_ok [OF assms(2,3)] by metis
  have ap: "a \<noteq> p" using a(2) assms(4) by auto
  have neg: "forget (ramfs_lookup a s2) = forget s2"
  proof -
    have e: "(dent s2 a)\<lparr>d_count := 0\<rparr> = dentry_zero\<lparr>d_name := c, d_parent := p, d_sb := d_sb (dent s p)\<rparr>"
      using forget_simps(4) [of s2 a] forget_simps(4) [of "new_entry a p c s" a] assms(4) ap unfolding a(3)
      by (simp add: dent_new_entry dentry_zero_def)
    have "d\<lparr>d_inode := None, d_flags := d_flags d AND NOT 0x8000, d_count := 0\<rparr> = d\<lparr>d_count := 0\<rparr>"
      if "v_dentries s2 a = Some d" for d
      using e that by (cases d) (simp add: dent_def dentry_zero_def)
    then show ?thesis
      unfolding ramfs_lookup_def d_add_def d_rehash_def d_instantiate_def upd_dent_twice
      by (intro forget_upd_same) (simp add: o_def)
  qed
  have "forget (if dent_ops s2 p = Some RamfsDirOps then ramfs_lookup a s2 else s2) = forget (new_entry a p c s)"
    using neg a(3) by simp
  moreover from this have "d_inode (dent (if dent_ops s2 p = Some RamfsDirOps then ramfs_lookup a s2 else s2) a) = None"
    using forget_eq_fields(6) [of _ "new_entry a p c s" a] assms(4) ap by (simp add: dent_new_entry dentry_zero_def)
  ultimately show thesis
    using that [OF _ a(2)] assms(1) a(1) by (simp add: lookup_one_def d_lookup_def Let_def)
qed

lemma cwalk_miss:
  assumes "resolve s d cs = Some p" "c \<noteq> [DOT]" "c \<noteq> [DOT, DOT]" "find_child s c (d_subdirs (dent s p)) = None"
    "alloc_ok va" "finite (dom (v_dentries s))" "p \<in> dom (v_dentries s)"
  obtains a s1 where "cwalk va (cs @ c # ds) d s = (Inl (- ENOENT), s1)" "v_dentries s a = None"
    "forget s1 = forget (new_entry a p c s)"
proof -
  obtain s2 where s2: "cwalk va cs d s = (Inr p, s2)" "forget s2 = forget s"
    using cwalk_resolve [OF assms(1)] by auto
  have "find_child s2 c (d_subdirs (dent s2 p)) = None"
    using assms(4) by (simp add: forget_eq_fields [OF s2(2)] find_child_cong [of _ s2 s])
  then obtain a s3 where s3: "lookup_one va p c s2 = (Inl (- ENOENT), s3)" "v_dentries s2 a = None"
      "forget s3 = forget (new_entry a p c s2)"
    using lookup_one_miss [of s2 c p va thesis] assms(5-7) unfolding forget_eq_fields(9) [OF s2(2)] by blast
  have "a \<notin> dom (v_dentries s)" using s3(2) unfolding forget_eq_fields(9) [OF s2(2), symmetric] by auto
  moreover have "cwalk va (cs @ c # ds) d s = (Inl (- ENOENT), dput p s3)"
    using s2(1) s3(1) assms(2,3) by (simp add: cwalk_append cstep_def)
  ultimately show thesis using that [of "dput p s3" a] s3(3) forget_new_entry [OF s2(2)] by (simp add: domIff)
qed

definition is_link :: "vfs \<Rightarrow> nat \<Rightarrow> bool" where
  "is_link s d = (case d_inode (dent s d) of None \<Rightarrow> False | Some i \<Rightarrow> mode_is (i_mode (ind s i)) S_IFLNK)"

lemma follow_links_none: "\<not> is_link s d \<Longrightarrow> follow_links va k d s = (Inr d, s)"
  by (subst follow_links.simps) (auto simp: is_link_def split: option.splits)

lemma is_link_forget: "forget s' = forget s \<Longrightarrow> is_link s' d = is_link s d"
  by (simp add: is_link_def forget_eq_fields [of s' s] split: option.split)

lemma walked_slash: "walked flags (if nm \<noteq> [] \<and> hd nm = SLASH then tl nm else nm) = walked flags nm"
proof (cases "nm \<noteq> [] \<and> hd nm = SLASH")
  case True
  then have "dropWhile ((=) SLASH) (tl nm) = dropWhile ((=) SLASH) nm" by (cases nm) auto
  then have "components (tl nm) = components nm" by (subst (1 2) components.simps) simp
  then show ?thesis using True by (simp add: walked_def)
qed auto

lemma kern_path_eq:
  "v_root s = Some r \<Longrightarrow> kern_path va nm flags s =
     (case cwalk va (walked flags nm) r (dget r s) of
        (Inl e, s1) \<Rightarrow> (Inl e, s1)
      | (Inr d, s1) \<Rightarrow> if flags AND LOOKUP_FOLLOW \<noteq> 0 then follow_links va 8 d s1 else (Inr d, s1))"
  unfolding kern_path_def path_walk_cwalk walked_slash by simp

lemma kern_path_resolve:
  assumes "v_root s = Some r" "resolve s r (walked flags nm) = Some d" "flags AND LOOKUP_FOLLOW = 0 \<or> \<not> is_link s d"
  obtains s' where "kern_path va nm flags s = (Inr d, s')" "forget s' = forget s"
proof -
  obtain s' where s': "cwalk va (walked flags nm) r (dget r s) = (Inr d, s')" "forget s' = forget s"
    using cwalk_resolve [of "dget r s" r "walked flags nm" d va] assms(2) resolve_forget [OF forget_dget] by auto
  then have "kern_path va nm flags s = (Inr d, s')"
    using assms(3) is_link_forget [OF s'(2), of d] by (auto simp: kern_path_eq [OF assms(1)] follow_links_none)
  then show thesis using that s'(2) by blast
qed

lemma kern_path_miss:
  assumes "v_root s = Some r" "walked flags nm = cs @ c # ds" "resolve s r cs = Some p" "c \<noteq> [DOT]" "c \<noteq> [DOT, DOT]"
    "find_child s c (d_subdirs (dent s p)) = None" "alloc_ok va" "finite (dom (v_dentries s))" "p \<in> dom (v_dentries s)"
  obtains a s' where "kern_path va nm flags s = (Inl (- ENOENT), s')" "v_dentries s a = None"
    "forget s' = forget (new_entry a p c s)"
proof -
  note fg = forget_eq_fields [OF forget_dget [of r s]]
  have "v_dentries (dget r s) x = None \<longleftrightarrow> v_dentries s x = None" for x
    using fg(9) by (metis domIff)
  moreover have "resolve (dget r s) r cs = Some p" "find_child (dget r s) c (d_subdirs (dent (dget r s) p)) = None"
    "finite (dom (v_dentries (dget r s)))" "p \<in> dom (v_dentries (dget r s))"
    using assms(3,6,8,9) by (simp_all add: resolve_forget [OF forget_dget] fg find_child_cong [of _ "dget r s" s])
  ultimately obtain a s1 where "cwalk va (cs @ c # ds) r (dget r s) = (Inl (- ENOENT), s1)" "v_dentries s a = None"
      "forget s1 = forget (new_entry a p c (dget r s))"
    using cwalk_miss [of "dget r s" r cs p c va ds] assms(4,5,7) by metis
  then show thesis
    using that [of s1 a] forget_new_entry [OF forget_dget [of r s]] by (simp add: kern_path_eq [OF assms(1)] assms(2))
qed

end
