(* ===== verification/Vfs_Inv.thy ===== *)
theory Vfs_Inv
  imports Vfs_Path
begin

text \<open>
  The pointers of the name tree: parents, children, inodes, the root and the roots of mounts refer to allocated blocks,
  and an entry is on the list of its parent only. Every operation on names keeps this, with
  an allocator that answers unused addresses or fails.
\<close>

section \<open>The invariant\<close>

definition dent_ok :: "vfs \<Rightarrow> nat \<Rightarrow> dentry \<Rightarrow> bool" where
  "dent_ok s p d \<longleftrightarrow> d_parent d \<in> dom (v_dentries s) \<and> set_option (d_inode d) \<subseteq> dom (v_inodes s) \<and>
     distinct (d_subdirs d) \<and> (\<forall>c \<in> set (d_subdirs d). c \<in> dom (v_dentries s) \<and> d_parent (dent s c) = p)"

definition wf_vfs :: "vfs \<Rightarrow> bool" where
  "wf_vfs s \<longleftrightarrow> finite (dom (v_dentries s)) \<and> finite (dom (v_inodes s)) \<and>
     (\<forall>p d. v_dentries s p = Some d \<longrightarrow> dent_ok s p d) \<and> set_option (v_root s) \<subseteq> dom (v_dentries s) \<and>
     snd ` set (v_mounts s) \<subseteq> dom (v_dentries s) \<and> (\<forall>m \<in> set (v_mounts s). set_option (fst m) \<subseteq> dom (v_dentries s))"

text \<open>A later state: the invariant holds, no block has gone and a root stays.\<close>

definition ext :: "vfs \<Rightarrow> vfs \<Rightarrow> bool" where
  "ext s s' \<longleftrightarrow> wf_vfs s' \<and> dom (v_dentries s) \<subseteq> dom (v_dentries s') \<and> dom (v_inodes s) \<subseteq> dom (v_inodes s') \<and>
     set_option (v_root s) \<subseteq> set_option (v_root s')"

named_theorems ext_intros

lemma ext_refl: "wf_vfs s \<Longrightarrow> ext s s" by (simp add: ext_def)

lemma ext_trans: "ext s s' \<Longrightarrow> ext s' s'' \<Longrightarrow> ext s s''"
  unfolding ext_def by (meson order_trans)

lemma ext_wf: "ext s s' \<Longrightarrow> wf_vfs s'" by (simp add: ext_def)

lemma ext_dentry: "ext s s' \<Longrightarrow> a \<in> dom (v_dentries s) \<Longrightarrow> a \<in> dom (v_dentries s')" by (auto simp: ext_def)

lemma ext_inode: "ext s s' \<Longrightarrow> a \<in> dom (v_inodes s) \<Longrightarrow> a \<in> dom (v_inodes s')" by (auto simp: ext_def)

lemma wf_dent_ok: "wf_vfs s \<Longrightarrow> p \<in> dom (v_dentries s) \<Longrightarrow> dent_ok s p (dent s p)"
  by (auto simp: wf_vfs_def dent_def)

lemma wf_inode: "wf_vfs s \<Longrightarrow> d_inode (dent s p) = Some i \<Longrightarrow> i \<in> dom (v_inodes s)"
  by (cases "p \<in> dom (v_dentries s)")
     (use wf_dent_ok [of s p] in \<open>auto simp: dent_ok_def dent_def dentry_zero_def split: option.splits\<close>)

text \<open>Changing one entry.\<close>

lemma dom_upd_dent [simp]: "dom (v_dentries (upd_dent a f s)) = dom (v_dentries s)"
  by (auto simp: upd_dent_def)

lemma upd_dent_fields [simp]:
  "v_inodes (upd_dent a f s) = v_inodes s" "v_root (upd_dent a f s) = v_root s" "v_mounts (upd_dent a f s) = v_mounts s"
  by (simp_all add: upd_dent_def)

lemma dent_upd_dent: "a \<in> dom (v_dentries s) \<Longrightarrow> dent (upd_dent a f s) x = (if x = a then f (dent s a) else dent s x)"
  by (auto simp: upd_dent_def dent_def)

lemma upd_dent_outside: "a \<notin> dom (v_dentries s) \<Longrightarrow> upd_dent a f s = s"
  by (auto simp: upd_dent_def domIff intro!: vfs.equality)

lemma ext_upd_dent:
  assumes "wf_vfs s"
    "\<And>d. a \<in> dom (v_dentries s) \<Longrightarrow> d = dent s a \<Longrightarrow> d_parent (f d) = d_parent d \<and> set_option (d_inode (f d)) \<subseteq> dom (v_inodes s) \<and>
       distinct (d_subdirs (f d)) \<and> (\<forall>c \<in> set (d_subdirs (f d)). c \<in> dom (v_dentries s) \<and> d_parent (dent s c) = a)"
  shows "ext s (upd_dent a f s)"
proof (cases "a \<in> dom (v_dentries s)")
  case True
  let ?s = "upd_dent a f s"
  have par: "d_parent (dent ?s c) = d_parent (dent s c)" for c
    using assms(2) [OF True refl] True by (simp add: dent_upd_dent)
  have "dent_ok ?s p (dent ?s p)" if p: "p \<in> dom (v_dentries s)" for p
    using wf_dent_ok [OF assms(1) p] assms(2) [OF True refl] unfolding dent_ok_def par dom_upd_dent upd_dent_fields
    by (auto simp: dent_upd_dent [OF True])
  then have "dent_ok ?s p d" if "v_dentries ?s p = Some d" for p d
    using that dom_upd_dent [of a f s] by (metis (no_types, lifting) domI dent_def option.simps(5))
  then show ?thesis using assms(1) by (auto simp: ext_def wf_vfs_def)
next
  case False
  then show ?thesis using assms(1) by (simp add: upd_dent_outside ext_refl)
qed

lemma ext_misc:
  "v_dentries s' = v_dentries s \<Longrightarrow> dom (v_inodes s) \<subseteq> dom (v_inodes s') \<Longrightarrow> finite (dom (v_inodes s')) \<Longrightarrow>
   v_root s' = v_root s \<Longrightarrow> v_mounts s' = v_mounts s \<Longrightarrow> wf_vfs s \<Longrightarrow> ext s s'"
  unfolding ext_def wf_vfs_def dent_ok_def dent_def by simp (meson order_trans)

lemma wf_finite: "wf_vfs s \<Longrightarrow> finite (dom (v_dentries s)) \<and> finite (dom (v_inodes s))"
  by (simp add: wf_vfs_def)

lemma wf_subdirs:
  assumes "wf_vfs s"
  shows "distinct (d_subdirs (dent s a)) \<and> set_option (d_inode (dent s a)) \<subseteq> dom (v_inodes s) \<and>
    (\<forall>c \<in> set (d_subdirs (dent s a)). c \<in> dom (v_dentries s) \<and> d_parent (dent s c) = a)"
  by (cases "a \<in> dom (v_dentries s)")
     (use wf_dent_ok [OF assms, of a] in \<open>auto simp: dent_ok_def dent_def dentry_zero_def split: option.splits\<close>)

section \<open>Elementary operations\<close>

lemma ext_upd_keep:
  assumes "wf_vfs s" "\<And>d. d_parent (f d) = d_parent d" "\<And>d. d_inode (f d) = d_inode d" "\<And>d. d_subdirs (f d) = d_subdirs d"
  shows "ext s (upd_dent a f s)"
  by (rule ext_upd_dent [OF assms(1)]) (use wf_subdirs [OF assms(1), of a] in \<open>simp add: assms\<close>)

lemma ext_dget [ext_intros]: "wf_vfs s \<Longrightarrow> ext s (dget a s)"
  unfolding dget_def by (rule ext_upd_keep) simp_all

lemma ext_dput [ext_intros]: "wf_vfs s \<Longrightarrow> ext s (dput a s)"
proof -
  assume w: "wf_vfs s"
  let ?s = "upd_dent a (\<lambda>d. d\<lparr>d_count := d_count d - 1\<rparr>) s"
  have e: "ext s ?s" by (rule ext_upd_keep [OF w]) simp_all
  have "ext ?s (dput a s)"
    by (rule ext_misc) (use wf_finite [OF ext_wf [OF e]] ext_wf [OF e] in \<open>simp_all add: dput_def Let_def\<close>)
  then show ?thesis by (rule ext_trans [OF e])
qed

lemma ext_unlink_child [ext_intros]: "wf_vfs s \<Longrightarrow> ext s (unlink_child a s)"
proof -
  assume w: "wf_vfs s"
  show ?thesis
    unfolding unlink_child_def
    by (rule ext_upd_dent [OF w]) (use wf_subdirs [OF w, of "d_parent (dent s a)"] in \<open>simp add: distinct_remove1\<close>)
qed

lemma ext_d_instantiate [ext_intros]: "wf_vfs s \<Longrightarrow> set_option i \<subseteq> dom (v_inodes s) \<Longrightarrow> ext s (d_instantiate a i s)"
  unfolding d_instantiate_def by (rule ext_upd_dent) (simp_all add: wf_subdirs)

lemma ext_d_rehash [ext_intros]: "wf_vfs s \<Longrightarrow> ext s (d_rehash a s)"
  unfolding d_rehash_def by (rule ext_upd_keep) simp_all

lemma ext_d_drop: "wf_vfs s \<Longrightarrow> ext s (d_drop a s)"
  unfolding d_drop_def by (rule ext_upd_keep) simp_all

lemma ext_d_delete [ext_intros]: "wf_vfs s \<Longrightarrow> ext s (d_delete a s)"
  by (simp add: d_delete_def ext_d_drop ext_refl)

lemma ext_upd_ind [ext_intros]: "wf_vfs s \<Longrightarrow> ext s (upd_ind i f s)"
  by (rule ext_misc) (auto simp: upd_ind_def dest: wf_finite)

lemma ext_iput [ext_intros]: "wf_vfs s \<Longrightarrow> ext s (iput i s)"
  by (rule ext_misc) (auto simp: iput_def upd_ind_def Let_def dest: wf_finite)

lemma ext_nlink [ext_intros]:
  "wf_vfs s \<Longrightarrow> ext s (set_nlink i n s)" "wf_vfs s \<Longrightarrow> ext s (inc_nlink i s)" "wf_vfs s \<Longrightarrow> ext s (drop_nlink i s)"
  by (simp_all add: set_nlink_def inc_nlink_def drop_nlink_def ext_upd_ind)

lemma ext_new_inode:
  assumes "wf_vfs s" "new_inode va sb s = (r, s')"
  shows "ext s s'" "r = Some i \<Longrightarrow> i \<in> dom (v_inodes s')"
proof -
  show "ext s s'"
    by (rule ext_misc) (use assms wf_finite [OF assms(1)] in \<open>auto simp: new_inode_def split: option.splits\<close>)
  show "r = Some i \<Longrightarrow> i \<in> dom (v_inodes s')" using assms by (auto simp: new_inode_def split: option.splits)
qed

lemma ext_insert:
  assumes "wf_vfs s" "v_dentries s a = None" "d_subdirs d = []" "d_inode d = None" "d_parent d \<in> insert a (dom (v_dentries s))"
  shows "ext s (s\<lparr>v_dentries := (v_dentries s)(a \<mapsto> d), v_nr_dentry := n\<rparr>)" (is "ext s ?s")
proof -
  have "dent_ok ?s p e" if "v_dentries ?s p = Some e" for p e
  proof (cases "p = a")
    case True
    then show ?thesis using that assms(3-5) by (auto simp: dent_ok_def)
  next
    case False
    then have p: "v_dentries s p = Some e" using that by simp
    then have e: "dent_ok s p e" using assms(1) by (simp add: wf_vfs_def)
    then have "dent ?s c = dent s c" if "c \<in> set (d_subdirs e)" for c
      using that assms(2) by (auto simp: dent_ok_def dent_def)
    then show ?thesis using e by (auto simp: dent_ok_def)
  qed
  then show ?thesis using assms(1) unfolding ext_def wf_vfs_def by auto
qed

lemma ext_d_alloc:
  assumes "alloc_fresh va" "wf_vfs s" "d_alloc va p nm s = (r, s')" "set_option p \<subseteq> dom (v_dentries s)"
  shows "ext s s' \<and> (\<forall>a. r = Some a \<longrightarrow> a \<in> dom (v_dentries s'))"
proof (cases "va_dentry va (v_dentries s) = None \<or> 32 \<le> length nm \<and> \<not> va_name va")
  case True
  then show ?thesis using assms(2,3) by (auto simp: d_alloc_def ext_refl split: option.splits)
next
  case False
  then obtain a where a: "va_dentry va (v_dentries s) = Some a" "v_dentries s a = None"
    using assms(1) by (auto simp: alloc_fresh_def)
  let ?d = "dentry_zero\<lparr>d_name := nm, d_count := 1, d_parent := (case p of None \<Rightarrow> a | Some q \<Rightarrow> q),
    d_sb := (case p of None \<Rightarrow> None | Some q \<Rightarrow> d_sb (dent s q))\<rparr>"
  let ?s = "s\<lparr>v_dentries := (v_dentries s)(a \<mapsto> ?d), v_nr_dentry := v_nr_dentry s + 1\<rparr>"
  have e1: "ext s ?s"
    by (rule ext_insert) (use assms(2,4) a(2) in \<open>auto simp: dentry_zero_def split: option.splits\<close>)
  have r: "r = Some a" "s' = (case p of None \<Rightarrow> ?s | Some q \<Rightarrow> upd_dent q (\<lambda>d. d\<lparr>d_subdirs := a # d_subdirs d\<rparr>) (dget q ?s))"
    using assms(3) False a(1) by (auto simp: d_alloc_def Let_def)
  have "ext s s'"
  proof (cases p)
    case (Some q)
    have e2: "ext ?s (dget q ?s)" by (rule ext_dget [OF ext_wf [OF e1]])
    have qa: "q \<noteq> a" using assms(4) a(2) Some by auto
    have "a \<notin> set (d_subdirs (dent s q))" using wf_subdirs [OF assms(2), of q] a(2) by auto
    then have sub: "d_subdirs (dent (dget q ?s) q) = d_subdirs (dent s q)" "d_parent (dent (dget q ?s) a) = q"
      and fresh: "a \<notin> set (d_subdirs (dent (dget q ?s) q))"
      using qa Some by (auto simp: dget_def dent_def upd_dent_def dentry_zero_def split: option.splits)
    have ad: "a \<in> dom (v_dentries (dget q ?s))" by (simp add: dget_def)
    have "ext (dget q ?s) s'"
      unfolding r(2) Some option.case
      by (rule ext_upd_dent)
         (use wf_subdirs [OF ext_wf [OF e2], of q] fresh sub(2) ad ext_wf [OF e2] in \<open>simp_all add: Some\<close>)
    then show ?thesis using ext_trans [OF e1 ext_trans [OF e2]] by blast
  qed (use e1 r(2) in simp)
  moreover have "a \<in> dom (v_dentries s')" using r(2) by (auto simp: dget_def split: option.splits)
  ultimately show ?thesis using r(1) by simp
qed

section \<open>Paths\<close>

declare domIff [iff del]

text \<open>What a lookup promises: a later state, and an allocated entry if it succeeds.\<close>

definition finds :: "vfs \<Rightarrow> ('e + nat) \<times> vfs \<Rightarrow> bool" where
  "finds s x \<longleftrightarrow> ext s (snd x) \<and> (\<forall>e. fst x = Inr e \<longrightarrow> e \<in> dom (v_dentries (snd x)))"

lemma finds_trans: "ext s s1 \<Longrightarrow> finds s1 x \<Longrightarrow> finds s x"
  unfolding finds_def using ext_trans by blast

lemma find_child_in: "find_child s nm cs = Some c \<Longrightarrow> c \<in> set cs"
  by (induction cs) (auto split: if_splits)

lemma d_lookup_ext:
  "wf_vfs s \<Longrightarrow> d_lookup d nm s = (r, s1) \<Longrightarrow> ext s s1 \<and> (\<forall>c. r = Some c \<longrightarrow> c \<in> dom (v_dentries s1))"
  using wf_subdirs [of s d] find_child_in [of s nm "d_subdirs (dent s d)"]
  by (auto simp: d_lookup_def ext_dget ext_refl ext_dentry [OF ext_dget] split: option.splits)

lemma ext_ramfs_lookup: "wf_vfs s \<Longrightarrow> ext s (ramfs_lookup a s)"
  unfolding ramfs_lookup_def d_add_def
  by (rule ext_trans [OF ext_d_instantiate ext_d_rehash [OF ext_wf [OF ext_d_instantiate]]]) auto

lemma lookup_one_finds:
  assumes "alloc_fresh va" "wf_vfs s" "d \<in> dom (v_dentries s)"
  shows "finds s (lookup_one va d nm s)"
proof -
  obtain r s1 where l: "d_lookup d nm s = (r, s1)" by fastforce
  note e1 = d_lookup_ext [OF assms(2) l]
  show ?thesis
  proof (cases r)
    case (Some c)
    then show ?thesis using e1 l by (simp add: lookup_one_def finds_def)
  next
    case None
    obtain q s2 where a: "d_alloc va (Some d) nm s1 = (q, s2)" by fastforce
    have e2: "ext s1 s2 \<and> (\<forall>a. q = Some a \<longrightarrow> a \<in> dom (v_dentries s2))"
      using ext_d_alloc [OF assms(1) _ a] e1 ext_wf ext_dentry [OF _ assms(3)] by auto
    have e3: "ext s2 (ramfs_lookup x s2)" for x using e2 by (blast intro: ext_ramfs_lookup ext_wf)
    have e13: "ext s s2" "ext s (ramfs_lookup x s2)" for x using e1 e2 e3 by (meson ext_trans)+
    show ?thesis
      using None l a e2 e13 ext_dentry [OF e3] by (auto simp: lookup_one_def finds_def Let_def split: option.split)
  qed
qed

lemma cross_mount_finds:
  assumes "wf_vfs s" "d \<in> dom (v_dentries s)" "snd ` set ms \<subseteq> dom (v_dentries s)" "cross_mount ms d s = (e, s1)"
  shows "ext s s1 \<and> e \<in> dom (v_dentries s1)"
  using assms
proof (induction ms d s rule: cross_mount.induct)
  case (2 mp root ms d s)
  have "ext s (dget root (dput d s))" using 2(2) by (meson ext_dget ext_dput ext_trans ext_wf)
  then show ?case using 2 by (auto split: if_splits dest: ext_dentry)
qed (auto simp: ext_refl)

lemma cstep_finds:
  assumes "alloc_fresh va" "wf_vfs s" "d \<in> dom (v_dentries s)"
  shows "finds s (cstep va c d s)"
proof -
  have up: "ext s (dput d (dget (d_parent (dent s d)) s))" using assms(2) by (meson ext_dget ext_dput ext_trans ext_wf)
  have p: "d_parent (dent s d) \<in> dom (v_dentries s)" using wf_dent_ok [OF assms(2,3)] by (simp add: dent_ok_def)
  obtain r s1 where l: "lookup_one va d c s = (r, s1)" by fastforce
  then have e1: "ext s s1" "\<And>e. r = Inr e \<Longrightarrow> e \<in> dom (v_dentries s1)"
    using lookup_one_finds [OF assms, of c] by (auto simp: finds_def)
  have e2: "ext s1 (dput d s1)" using e1(1) by (simp add: ext_dput ext_wf)
  have e12: "ext s (dput d s1)" by (rule ext_trans [OF e1(1) e2])
  have m: "ext s s2 \<and> e' \<in> dom (v_dentries s2)" if "r = Inr e" "cross_mount (v_mounts s1) e (dput d s1) = (e', s2)" for e e' s2
  proof -
    have "snd ` set (v_mounts s1) \<subseteq> dom (v_dentries (dput d s1))"
      using ext_wf [OF e1(1)] e2 by (auto simp: wf_vfs_def ext_def)
    then show ?thesis
      using cross_mount_finds [OF ext_wf [OF e2] ext_dentry [OF e2 e1(2) [OF that(1)]] _ that(2)] ext_trans [OF e12] by blast
  qed
  show ?thesis
    using assms(2,3) ext_dentry [OF up p] up e12 m
    by (auto simp: cstep_def finds_def l ext_refl split: sum.split prod.split)
qed

lemma cwalk_finds:
  "alloc_fresh va \<Longrightarrow> wf_vfs s \<Longrightarrow> d \<in> dom (v_dentries s) \<Longrightarrow> finds s (cwalk va cs d s)"
proof (induction cs arbitrary: d s)
  case (Cons c cs)
  obtain r s1 where c: "cstep va c d s = (r, s1)" by fastforce
  then have e: "ext s s1" "\<And>e. r = Inr e \<Longrightarrow> e \<in> dom (v_dentries s1)"
    using cstep_finds [OF Cons.prems, of c] by (auto simp: finds_def)
  then show ?case
    using finds_trans [OF e(1) Cons.IH [OF Cons.prems(1) ext_wf [OF e(1)]]]
    by (cases r) (auto simp: c finds_def)
qed (simp add: finds_def ext_refl)

lemma target_walk_finds:
  "alloc_fresh va \<Longrightarrow> wf_vfs s \<Longrightarrow> d \<in> dom (v_dentries s) \<Longrightarrow> finds s (target_walk va p d s)"
proof (induction va p d s rule: target_walk.induct)
  case (1 va p d s)
  define c where "c = take 255 (takeWhile ((\<noteq>) SLASH) p)"
  define rest where "rest = drop 1 (dropWhile ((\<noteq>) SLASH) p)"
  obtain r s1 where l: "d_lookup d c s = (r, s1)" by fastforce
  note e1 = d_lookup_ext [OF 1(5) l]
  obtain q s2 where a: "d_alloc va (Some d) c s1 = (q, s2)" by fastforce
  have e2: "ext s1 s2" "\<And>a. q = Some a \<Longrightarrow> a \<in> dom (v_dentries s2)"
    using ext_d_alloc [OF 1(4) _ a] e1 ext_wf ext_dentry [OF _ 1(6)] by auto
  have e3: "ext s2 (ramfs_lookup x s2)" for x using e2 by (blast intro: ext_ramfs_lookup ext_wf)
  have e13: "ext s (ramfs_lookup x s2)" "ext s s2" for x using e1 e2(1) e3 by (meson ext_trans)+
  have f1: "finds s (target_walk va rest d s)" if "p \<noteq> []" "c = []"
    using 1(1) [OF that(1) c_def rest_def that(2)] 1(4-6) by simp
  have f2: "finds s (target_walk va rest x s1)" if "p \<noteq> []" "c \<noteq> []" "r = Some x" for x
    by (rule finds_trans [OF conjunct1 [OF e1] 1(3) [OF that(1) c_def rest_def that(2) l [symmetric] that(3)]])
       (use e1 that(3) ext_wf 1(4) in auto)
  have f3: "finds s (target_walk va rest x (ramfs_lookup x s2))"
    if "p \<noteq> []" "c \<noteq> []" "r = None" "dent_ops s1 d = Some RamfsDirOps" "q = Some x" for x
    by (rule finds_trans [OF e13(1) 1(2) [OF that(1) c_def rest_def that(2) l [symmetric] that(3,4) a [symmetric] that(5)]])
       (use ext_wf [OF e3] ext_dentry [OF e3] e2(2) that(5) 1(4) in auto)
  show ?case
    using f1 f2 f3 e1 e13 1(5,6)
    unfolding target_walk.simps [of va p d s] Let_def c_def [symmetric] rest_def [symmetric] l a
    by (cases "p = []"; cases "c = []"; cases r; cases q) (simp_all add: l a ext_refl finds_def)
qed

lemma follow_links_finds:
  "alloc_fresh va \<Longrightarrow> wf_vfs s \<Longrightarrow> d \<in> dom (v_dentries s) \<Longrightarrow> v_root s = Some r \<Longrightarrow> finds s (follow_links va k d s)"
proof (induction k arbitrary: d s)
  case 0
  then show ?case by (subst follow_links.simps) (simp add: finds_def ext_refl split: option.split)
next
  case (Suc k)
  have r: "r \<in> dom (v_dentries s)" using Suc.prems(2,4) by (simp add: wf_vfs_def)
  have here: "finds s (Inr d, s)" "finds s (Inl e, s)" for e using Suc.prems(2,3) by (simp_all add: finds_def ext_refl)
  have tgt: "finds s (case target_walk va t r s of (Inl e, s1) \<Rightarrow> (Inl e, s1) | (Inr d', s1) \<Rightarrow> follow_links va k d' s1)" for t
  proof -
    obtain x s1 where w: "target_walk va t r s = (x, s1)" by fastforce
    have f: "finds s (x, s1)" using target_walk_finds [OF Suc.prems(1,2) r, of t] w by simp
    have e: "ext s s1" using f by (simp add: finds_def)
    have root: "v_root s1 = Some r" using e Suc.prems(4) by (auto simp: ext_def elem_set)
    show ?thesis
      using f finds_trans [OF e Suc.IH [OF Suc.prems(1) ext_wf [OF e] _ root]] w by (cases x) (auto simp: finds_def)
  qed
  show ?case
    using here tgt Suc.prems(4)
    by (subst follow_links.simps) (auto split: option.split ipriv.split list.split)
qed

lemma kern_path_finds:
  assumes "alloc_fresh va" "wf_vfs s"
  shows "finds s (kern_path va nm flags s)"
proof (cases "v_root s")
  case None
  then show ?thesis using assms(2) by (simp add: kern_path_def finds_def ext_refl)
next
  case (Some r)
  have r: "r \<in> dom (v_dentries s)" using assms(2) Some by (simp add: wf_vfs_def)
  note e = ext_dget [OF assms(2), of r]
  obtain x s1 where w: "cwalk va (walked flags nm) r (dget r s) = (x, s1)" by fastforce
  have f: "finds s (x, s1)"
    using finds_trans [OF e cwalk_finds [OF assms(1) ext_wf [OF e] ext_dentry [OF e r], of "walked flags nm"]] w by simp
  then have e1: "ext s s1" by (simp add: finds_def)
  have root: "v_root s1 = Some r" using e1 Some by (auto simp: ext_def elem_set)
  show ?thesis
    using f finds_trans [OF e1 follow_links_finds [OF assms(1) ext_wf [OF e1] _ root, of _ 8]]
    by (cases x) (auto simp: kern_path_eq [OF Some] w finds_def)
qed

section \<open>Operations on names\<close>

lemma ext_then: "(wf_vfs t \<Longrightarrow> ext t t') \<Longrightarrow> ext s t \<Longrightarrow> ext s t'"
  by (meson ext_trans ext_wf)

lemma ext_counters:
  "wf_vfs s \<Longrightarrow> ext s (s\<lparr>v_ino_create := n\<rparr>)" "wf_vfs s \<Longrightarrow> ext s (s\<lparr>v_ino_mkdir := n\<rparr>)"
  "wf_vfs s \<Longrightarrow> ext s (s\<lparr>v_ino_mknod := n\<rparr>)" "wf_vfs s \<Longrightarrow> ext s (s\<lparr>v_ino_symlink := n\<rparr>)"
  "wf_vfs s \<Longrightarrow> ext s (s\<lparr>v_ino_gen_symlink := n\<rparr>)" "wf_vfs s \<Longrightarrow> ext s (s\<lparr>v_ino_gen_mknod := n\<rparr>)"
  "wf_vfs s \<Longrightarrow> ext s (s\<lparr>v_fs_types := l\<rparr>)"
  by (rule ext_misc; simp add: wf_finite)+

lemmas ext_chain =
  ext_then [OF ext_dget] ext_then [OF ext_dput] ext_then [OF ext_unlink_child] ext_then [OF ext_d_delete]
  ext_then [OF ext_upd_ind] ext_then [OF ext_iput] ext_then [OF ext_nlink(1)] ext_then [OF ext_nlink(2)] ext_then [OF ext_nlink(3)]
  ext_then [OF ext_counters(1)] ext_then [OF ext_counters(2)] ext_then [OF ext_counters(3)] ext_then [OF ext_counters(4)]
  ext_then [OF ext_counters(5)] ext_then [OF ext_counters(6)] ext_then [OF ext_counters(7)]

lemma ext_instantiate: "ext s t \<Longrightarrow> set_option i \<subseteq> dom (v_inodes t) \<Longrightarrow> ext s (d_instantiate a i t)"
  by (meson ext_d_instantiate ext_trans ext_wf)

lemma inode_domains [simp]:
  "dom (v_inodes (upd_ind i f s)) = dom (v_inodes s)" "dom (v_inodes (inc_nlink i s)) = dom (v_inodes s)"
  by (auto simp: upd_ind_def inc_nlink_def dom_def)

lemma ext_new_inode_case:
  assumes "wf_vfs s" "\<And>s1. ext s s1 \<Longrightarrow> ext s (snd (f s1))"
    "\<And>i s1. ext s s1 \<Longrightarrow> i \<in> dom (v_inodes s1) \<Longrightarrow> ext s (snd (g i s1))"
  shows "ext s (snd (case new_inode va sb s of (None, s1) \<Rightarrow> f s1 | (Some i, s1) \<Rightarrow> g i s1))"
  using ext_new_inode [OF assms(1), of va sb] assms(2,3) by (auto split: prod.split option.split)

lemma ext_if: "(P \<Longrightarrow> ext s (snd x)) \<Longrightarrow> (\<not> P \<Longrightarrow> ext s (snd y)) \<Longrightarrow> ext s (snd (if P then x else y))"
  by simp

lemma ext_call:
  "ext s t \<Longrightarrow> (wf_vfs t \<Longrightarrow> ext t (snd x)) \<Longrightarrow> (\<And>r u. ext s u \<Longrightarrow> ext s (snd (f r u))) \<Longrightarrow> ext s (snd (case x of (r, u) \<Rightarrow> f r u))"
  by (metis ext_trans ext_wf prod.case_eq_if)

lemma ext_ramfs_ops:
  assumes "wf_vfs s"
  shows "ext s (snd (ramfs_create va dir a mode s))" "ext s (snd (ramfs_mkdir va dir a mode s))"
    "ext s (snd (ramfs_mknod va dir a mode dev s))" "ext s (snd (ramfs_symlink va dir a target s))"
    "ext s (snd (ramfs_rmdir dir a s))" "ext s (snd (ramfs_unlink a s))"
  unfolding ramfs_create_def ramfs_mkdir_def ramfs_mknod_def ramfs_symlink_def ramfs_rmdir_def ramfs_unlink_def
  by (rule ext_new_inode_case [OF assms]; simp add: Let_def ext_chain ext_instantiate)+
     (simp_all add: assms ext_refl ext_chain split: option.split)

lemma ext_vfs_ops:
  assumes "wf_vfs s"
  shows "ext s (snd (vfs_mkdir va dir a mode s))" "ext s (snd (vfs_rmdir dir a s))" "ext s (snd (vfs_unlink dir a s))"
    "ext s (snd (vfs_link old dir a s))" "ext s (snd (vfs_rename dir old new_dir a s))"
proof -
  show "ext s (snd (vfs_mkdir va dir a mode s))"
    unfolding vfs_mkdir_def
    by (cases dir; simp add: assms ext_refl; intro impI ext_call [OF ext_refl [OF assms] ext_ramfs_ops(2)])
       (auto split: option.split intro!: ext_chain)
  show "ext s (snd (vfs_rmdir dir a s))" "ext s (snd (vfs_unlink dir a s))"
    by (auto simp: vfs_rmdir_def vfs_unlink_def assms ext_refl ext_ramfs_ops split: option.split intro!: ext_chain)
  show "ext s (snd (vfs_link old dir a s))"
    using wf_inode [OF assms, of old]
    by (auto simp: vfs_link_def assms ext_refl split: option.split intro!: ext_chain ext_instantiate)
  have nm: "ext s t \<Longrightarrow> ext s (upd_dent old (\<lambda>d. d\<lparr>d_name := n\<rparr>) t)" for t n
    by (rule ext_then [OF ext_upd_keep]) auto
  show "ext s (snd (vfs_rename dir old new_dir a s))"
    by (auto simp: vfs_rename_def Let_def assms ext_refl split: option.split intro!: nm ext_chain)
qed

lemma ext_vfs_make:
  assumes "wf_vfs s"
  shows "ext s (snd (vfs_symlink va dir a target s))" "ext s (snd (vfs_mknod va dir a mode dev s))"
proof -
  have "ext s (snd (vfs_symlink va (Some di) a target s))" for di
    unfolding vfs_symlink_def option.case
    by (intro ext_if ext_ramfs_ops assms ext_new_inode_case) (simp_all add: Let_def ext_chain ext_instantiate)
  then show "ext s (snd (vfs_symlink va dir a target s))" by (cases dir) (simp_all add: vfs_symlink_def assms ext_refl)
  have "ext s (snd (vfs_mknod va (Some di) a mode dev s))" for di
    unfolding vfs_mknod_def option.case
    by (intro ext_if ext_ramfs_ops assms ext_new_inode_case) (simp_all add: Let_def ext_chain ext_instantiate)
  then show "ext s (snd (vfs_mknod va dir a mode dev s))" by (cases dir) (simp_all add: vfs_mknod_def assms ext_refl)
qed

section \<open>System calls\<close>

lemma ext_kern_path_case:
  assumes "alloc_fresh va" "ext s t" "\<And>e s1. ext s s1 \<Longrightarrow> ext s (snd (f e s1))"
    "\<And>d s1. ext s s1 \<Longrightarrow> d \<in> dom (v_dentries s1) \<Longrightarrow> ext s (snd (g d s1))"
  shows "ext s (snd (case kern_path va nm flags t of (Inl e, s1) \<Rightarrow> f e s1 | (Inr d, s1) \<Rightarrow> g d s1))"
  using kern_path_finds [OF assms(1) ext_wf [OF assms(2)], of nm flags] assms(3,4) ext_trans [OF assms(2)]
  by (auto simp: finds_def split: prod.split sum.split)

lemma ext_d_alloc_case:
  assumes "alloc_fresh va" "ext s t" "p \<in> dom (v_dentries t)" "\<And>s1. ext s s1 \<Longrightarrow> ext s (snd (f s1))"
    "\<And>a s1. ext s s1 \<Longrightarrow> p \<in> dom (v_dentries s1) \<Longrightarrow> ext t s1 \<Longrightarrow> ext s (snd (g a s1))"
  shows "ext s (snd (case d_alloc va (Some p) nm t of (None, s1) \<Rightarrow> f s1 | (Some a, s1) \<Rightarrow> g a s1))"
proof -
  obtain r s1 where d: "d_alloc va (Some p) nm t = (r, s1)" by fastforce
  have e: "ext t s1" using ext_d_alloc [OF assms(1) ext_wf [OF assms(2)] d] assms(3) by simp
  then show ?thesis
    using assms(4) [OF ext_trans [OF assms(2) e]] assms(5) [OF ext_trans [OF assms(2) e] ext_dentry [OF e assms(3)] e]
    by (simp add: d split: option.split)
qed

lemma ext_with_new_entry:
  assumes "alloc_fresh va" "ext s t" "p \<in> dom (v_dentries t)" "\<And>dir a u. wf_vfs u \<Longrightarrow> ext u (snd (mk dir a u))"
  shows "ext s (snd (with_new_entry va base mk p t))"
proof -
  obtain r s1 where l: "d_lookup p base t = (r, s1)" by fastforce
  note e = d_lookup_ext [OF ext_wf [OF assms(2)] l]
  have "ext s (snd (case d_alloc va (Some p) base s1 of (None, s2) \<Rightarrow> (- ENOMEM, dput p s2)
    | (Some a, s2) \<Rightarrow> (case mk (d_inode (dent s2 p)) a s2 of (err, s3) \<Rightarrow> (err, dput p (dput a s3)))))"
    by (rule ext_d_alloc_case [OF assms(1) ext_trans [OF assms(2) conjunct1 [OF e]] ext_dentry [OF conjunct1 [OF e] assms(3)]])
       (auto intro!: ext_chain ext_call [OF _ assms(4)])
  then show ?thesis
    using e ext_trans [OF assms(2)] by (auto simp: with_new_entry_def l split: option.split intro!: ext_chain)
qed

lemma ext_opt: "(x = None \<Longrightarrow> ext s (snd y)) \<Longrightarrow> (\<And>i. x = Some i \<Longrightarrow> ext s (snd (f i))) \<Longrightarrow> ext s (snd (case x of None \<Rightarrow> y | Some i \<Rightarrow> f i))"
  by (simp split: option.split)

lemma ext_sys_calls:
  assumes va: "alloc_fresh va" and w: "wf_vfs s"
  shows "ext s (snd (sys_mkdir va p mode s))" "ext s (snd (sys_rmdir va p s))" "ext s (snd (sys_mknod va p mode dev s))"
    "ext s (snd (sys_symlink va q p s))" "ext s (snd (change_inode va p flags f s))" "ext s (snd (sys_link va p q s))"
    "ext s (snd (sys_readlink va p n s))" "ext s (snd (sys_rename va p q s))" "ext s (snd (sys_unlink va p s))"
proof -
  note go = ext_kern_path_case [OF va] ext_with_new_entry [OF va] ext_d_alloc_case [OF va] ext_vfs_ops ext_vfs_make ext_if ext_opt ext_chain
  note r = ext_refl [OF w]
  show "ext s (snd (sys_mkdir va p mode s))" unfolding sys_mkdir_def by (intro go r) (simp_all add: ext_chain)
  show "ext s (snd (sys_mknod va p mode dev s))" unfolding sys_mknod_def by (intro go r) simp_all
  show "ext s (snd (sys_symlink va q p s))" unfolding sys_symlink_def by (intro go r) simp_all
  show "ext s (snd (sys_rmdir va p s))" unfolding sys_rmdir_def
    by (intro go r) (auto simp: ext_chain intro!: ext_call [OF _ ext_vfs_ops(2)])
  show "ext s (snd (sys_unlink va p s))" unfolding sys_unlink_def
    by (intro go r) (auto simp: ext_chain intro!: ext_call [OF _ ext_vfs_ops(3)])
  show "ext s (snd (change_inode va p flags f s))" unfolding change_inode_def by (intro go r) (simp_all add: ext_chain)
  show "ext s (snd (sys_link va p q s))" unfolding sys_link_def
    by (intro go r ext_call [OF _ ext_vfs_ops(4)]) (simp_all add: ext_chain)
  show "ext s (snd (sys_rename va p q s))" unfolding sys_rename_def
    by (intro go r ext_call [OF _ ext_vfs_ops(5)]) (simp_all add: ext_chain)
  show "ext s (snd (sys_readlink va p n s))" unfolding sys_readlink_def
    by (intro go r) (auto simp: ext_chain split: option.split ipriv.split)
qed

lemma create_parent_ext:
  assumes va: "alloc_fresh va" and w: "wf_vfs s" and c: "create_parent va nm s = (r, s1)"
  shows "ext s s1 \<and> (\<forall>p base. r = Inr (p, base) \<longrightarrow> p \<in> dom (v_dentries s1))"
proof -
  have root: "v_root s = Some q \<Longrightarrow> q \<in> dom (v_dentries (dget q s))" for q
    using w ext_dentry [OF ext_dget [OF w]] by (simp add: wf_vfs_def)
  show ?thesis
    using c kern_path_finds [OF va w, of "take (last_slash nm) nm" LOOKUP_FOLLOW] root w
    by (auto simp: create_parent_def Let_def finds_def ext_refl ext_dget split: if_splits option.splits sum.splits prod.splits)
qed

lemma ext_open_create:
  assumes va: "alloc_fresh va" and w: "wf_vfs s"
  shows "ext s (snd (open_create va nm mode s))"
proof -
  obtain r s1 where c: "create_parent va nm s = (r, s1)" by fastforce
  note e = create_parent_ext [OF va w c]
  show ?thesis
  proof (cases r)
    case (Inl x)
    then show ?thesis using e by (simp add: open_create_def c)
  next
    case (Inr pb)
    obtain p base where pb: "pb = (p, base)" by fastforce
    have p: "p \<in> dom (v_dentries s1)" using e Inr pb by simp
    have kp: "ext s (snd (kern_path va nm fl u))" if "ext s u" for fl u
      using kern_path_finds [OF va ext_wf [OF that], of nm fl] ext_trans [OF that] by (simp add: finds_def)
    show ?thesis
      unfolding open_create_def c prod.case Inr pb sum.case
      by (intro ext_opt ext_if ext_d_alloc_case [OF va _ p] ext_call [OF _ ext_ramfs_ops(1)] kp ext_chain conjunct1 [OF e])
         (simp_all add: ext_chain conjunct1 [OF e])
  qed
qed

lemma ext_filp_open:
  assumes va: "alloc_fresh va" and w: "wf_vfs s"
  shows "ext s (snd (filp_open va nm flags mode s))"
proof -
  let ?x = "case kern_path va nm LOOKUP_FOLLOW s of
      (Inl e, s1) \<Rightarrow> if e = - ENOENT \<and> flags AND O_CREAT \<noteq> 0 then open_create va nm mode s1 else (Inl e, s1)
    | (Inr d, s1) \<Rightarrow> (Inr d, s1)"
  have "ext s (snd ?x)"
    by (intro ext_kern_path_case [OF va ext_refl [OF w]] ext_if) (auto intro: ext_then [OF ext_open_create [OF va]])
  moreover obtain r s2 where "?x = (r, s2)" by fastforce
  ultimately show ?thesis
    by (auto simp: filp_open_def intro!: ext_chain split: sum.split option.split)
qed

lemma ext_vfs_write: "wf_vfs s \<Longrightarrow> vfs_write fresh f bs pos s = Some (r, q, s1) \<Longrightarrow> ext s s1"
  by (auto simp: vfs_write_def ext_refl split: if_splits option.splits intro: ext_upd_ind)

text \<open>Mounting adds an entry without a parent and records it as a root.\<close>

lemma ramfs_mount_finds:
  assumes va: "alloc_fresh va" and w: "wf_vfs s"
  shows "finds s (ramfs_mount va s)"
proof (cases "va_sb va")
  case None
  then show ?thesis by (simp add: ramfs_mount_def finds_def ext_refl [OF w])
next
  case (Some sb)
  obtain x s1 where n: "new_inode va (Some sb) s = (x, s1)" by fastforce
  note e1 = ext_new_inode(1) [OF w n]
  show ?thesis
  proof (cases x)
    case None
    then show ?thesis using e1 by (simp add: ramfs_mount_def Some n finds_def)
  next
    case i: (Some i)
    let ?s2 = "upd_ind i (\<lambda>x. x\<lparr>i_ino := 1, i_mode := S_IFDIR OR 0x1ED, i_uid := 0, i_gid := 0, i_nlink := 2,
                  i_op := Some RamfsDirOps, i_fop := Some RamfsDirFileOps\<rparr>) s1"
    have e2: "ext s ?s2" by (rule ext_then [OF ext_upd_ind e1])
    obtain q s3 where a: "d_alloc va None [SLASH] ?s2 = (q, s3)" by fastforce
    have e3: "ext ?s2 s3" "\<And>c. q = Some c \<Longrightarrow> c \<in> dom (v_dentries s3)"
      using ext_d_alloc [OF va ext_wf [OF e2] a] by auto
    have "i \<in> dom (v_inodes ?s2)" using ext_new_inode(2) [OF w n i] by simp
    then have i3: "i \<in> dom (v_inodes s3)" by (rule ext_inode [OF e3(1)])
    have e: "ext s s3" by (rule ext_trans [OF e2 e3(1)])
    have sb: "ext s (upd_dent c (\<lambda>d. d\<lparr>d_sb := b\<rparr>) s3)" for c b
      by (rule ext_then [OF ext_upd_keep e]) auto
    have fin: "ext s (d_instantiate c (Some i) (upd_dent c (\<lambda>d. d\<lparr>d_sb := b\<rparr>) s3))" for c b
      by (rule ext_instantiate [OF sb]) (simp add: i3)
    show ?thesis
      using e3(2) e fin unfolding ramfs_mount_def Some n i prod.case option.case Let_def d_make_root_def a
      by (auto simp: finds_def d_instantiate_def intro!: ext_chain split: option.split)
  qed
qed

lemma ext_add_mount:
  assumes "ext s t" "r \<in> dom (v_dentries t)" "set_option mp \<subseteq> dom (v_dentries t)"
  shows "ext s (t\<lparr>v_mounts := v_mounts t @ [(mp, r)]\<rparr>)"
  using assms by (auto simp: ext_def wf_vfs_def dent_ok_def dent_def)

lemma ext_set_root: "ext s t \<Longrightarrow> r \<in> dom (v_dentries t) \<Longrightarrow> v_root t = None \<Longrightarrow> ext s (t\<lparr>v_root := Some r\<rparr>)"
  by (auto simp: ext_def wf_vfs_def dent_ok_def dent_def)

lemma ext_do_mount:
  assumes va: "alloc_fresh va" and w: "wf_vfs s"
  shows "ext s (snd (do_mount va dir fs s))"
proof -
  let ?x = "if v_root s = None then (Inr None, s)
     else (case kern_path va dir LOOKUP_FOLLOW s of (Inl e, s1) \<Rightarrow> (Inl e, s1) | (Inr d, s1) \<Rightarrow> (Inr (Some d), s1))"
  obtain x s1 where x: "?x = (x, s1)" by fastforce
  have e1: "ext s s1" "\<And>mp. x = Inr mp \<Longrightarrow> set_option mp \<subseteq> dom (v_dentries s1)"
    using x kern_path_finds [OF va w, of dir LOOKUP_FOLLOW] ext_refl [OF w]
    by (auto simp: finds_def split: if_splits prod.splits sum.splits)
  obtain y s2 where y: "ramfs_mount va s1 = (y, s2)" by fastforce
  have e2: "ext s1 s2" "\<And>r. y = Inr r \<Longrightarrow> r \<in> dom (v_dentries s2)"
    using ramfs_mount_finds [OF va ext_wf [OF e1(1)]] y by (auto simp: finds_def)
  have e12: "ext s s2" by (rule ext_trans [OF e1(1) e2(1)])
  have rel: "ext s (case mp of None \<Rightarrow> s2 | Some d \<Rightarrow> dput d s2)" for mp
    using e12 by (auto intro!: ext_chain split: option.split)
  have add: "ext s (let s3 = (if length (v_mounts s2) < 256 then s2\<lparr>v_mounts := v_mounts s2 @ [(mp, r)]\<rparr> else s2)
      in if v_root s3 = None then s3\<lparr>v_root := Some r\<rparr> else s3)" if "x = Inr mp" "y = Inr r" for mp r
  proof -
    have "set_option mp \<subseteq> dom (v_dentries s2)" using e1(2) [OF that(1)] ext_dentry [OF e2(1)] by blast
    then have "ext s (s2\<lparr>v_mounts := v_mounts s2 @ [(mp, r)]\<rparr>)" by (rule ext_add_mount [OF e12 e2(2) [OF that(2)]])
    then show ?thesis using e2(2) [OF that(2)] e12 by (auto simp: Let_def intro!: ext_set_root)
  qed
  show ?thesis
    using ext_refl [OF w] e1(1) rel add unfolding do_mount_def x by (auto simp: y Let_def split: sum.split)
qed

section \<open>Histories\<close>

datatype vfs_call = Lookup name u32 | Mkdir name u32 | Rmdir name | Mknod name u32 u32 | Symlink name name
  | Lchown name u32 u32 | Chown name u32 u32 | Chmod name u32 | Link name name | Readlink name nat | Rename name name | Unlink name
  | Open name u32 u32 | Close "vfile option" | Write kmalloc_bytes vfile "u8 list" u64
  | Mount name name | Register nat "name option" | Unregister nat

fun vfs_exec :: "vfs_alloc \<Rightarrow> vfs_call \<Rightarrow> vfs \<Rightarrow> vfs" where
  "vfs_exec va (Lookup p flags) s = snd (kern_path va p flags s)"
| "vfs_exec va (Mkdir p mode) s = snd (sys_mkdir va p mode s)"
| "vfs_exec va (Rmdir p) s = snd (sys_rmdir va p s)"
| "vfs_exec va (Mknod p mode dev) s = snd (sys_mknod va p mode dev s)"
| "vfs_exec va (Symlink target p) s = snd (sys_symlink va target p s)"
| "vfs_exec va (Lchown p u g) s = snd (sys_lchown va p u g s)"
| "vfs_exec va (Chown p u g) s = snd (sys_chown va p u g s)"
| "vfs_exec va (Chmod p mode) s = snd (sys_chmod va p mode s)"
| "vfs_exec va (Link p q) s = snd (sys_link va p q s)"
| "vfs_exec va (Readlink p n) s = snd (sys_readlink va p n s)"
| "vfs_exec va (Rename p q) s = snd (sys_rename va p q s)"
| "vfs_exec va (Unlink p) s = snd (sys_unlink va p s)"
| "vfs_exec va (Open p flags mode) s = snd (filp_open va p flags mode s)"
| "vfs_exec va (Close f) s = filp_close f s"
| "vfs_exec va (Write fresh f bs pos) s = (case vfs_write fresh f bs pos s of None \<Rightarrow> s | Some (_, _, s1) \<Rightarrow> s1)"
| "vfs_exec va (Mount dir fs) s = snd (do_mount va dir fs s)"
| "vfs_exec va (Register fs nm) s = snd (register_filesystem fs nm s)"
| "vfs_exec va (Unregister fs) s = snd (unregister_filesystem fs s)"

lemma ext_vfs_exec: "alloc_fresh va \<Longrightarrow> wf_vfs s \<Longrightarrow> ext s (vfs_exec va c s)"
  using kern_path_finds [of va s]
  by (cases c)
     (auto simp: finds_def ext_sys_calls sys_lchown_def sys_chown_def sys_chmod_def ext_filp_open ext_do_mount filp_close_def
        register_filesystem_def unregister_filesystem_def ext_refl ext_counters ext_dput dest: ext_vfs_write split: option.split)

lemma wf_vfs_init: "wf_vfs vfs_init" by (simp add: wf_vfs_def vfs_init_def)

lemma wf_vfs_run: "alloc_fresh va \<Longrightarrow> wf_vfs s \<Longrightarrow> wf_vfs (fold (vfs_exec va) cs s)"
  by (induction cs arbitrary: s) (auto dest: ext_vfs_exec [THEN ext_wf])

end
