(* ===== verification/Vfs_Correct.thy ===== *)
theory Vfs_Correct
  imports Vfs_Inv
begin

text \<open>
  What the operations on names mean together: the life of a file from its creation to its contents, and
  what becomes of a name after a failed lookup, \<^verbatim>\<open>unlink\<close> and \<^verbatim>\<open>rename\<close>.
\<close>

section \<open>Paths and their parents\<close>

lemma components_file:
  assumes "c \<noteq> []" "SLASH \<notin> set c"
  shows "components (dir @ SLASH # c) = components dir @ [c]"
proof (induction dir rule: components.induct)
  case (1 dir)
  have c: "takeWhile ((\<noteq>) SLASH) c = c" "dropWhile ((\<noteq>) SLASH) c = []" "dropWhile ((=) SLASH) c = c"
    using assms by (auto simp: takeWhile_eq_all_conv dropWhile_eq_self_iff) (metis hd_in_set)
  define nm where "nm = dropWhile ((=) SLASH) dir"
  show ?case
  proof (cases "nm = []")
    case True
    then have "dropWhile ((=) SLASH) (dir @ SLASH # c) = c" using c(3) by (simp add: nm_def dropWhile_append2)
    then have "components (dir @ SLASH # c) = [c]"
      using components_Cons [of "dir @ SLASH # c" c] assms(1) components_eq_Nil [of "[]"] unfolding c by simp
    then show ?thesis using True components_eq_Nil [of dir] by (simp add: nm_def del: dropWhile_eq_Nil_conv)
  next
    case False
    have d: "dropWhile ((=) SLASH) (dir @ SLASH # c) = nm @ SLASH # c"
    proof -
      have "\<exists>x \<in> set dir. SLASH \<noteq> x" using False by (auto simp: nm_def)
      then show ?thesis by (auto simp: nm_def dropWhile_append1)
    qed
    have t: "takeWhile ((\<noteq>) SLASH) (nm @ SLASH # c) = takeWhile ((\<noteq>) SLASH) nm"
      "dropWhile ((\<noteq>) SLASH) (nm @ SLASH # c) = dropWhile ((\<noteq>) SLASH) nm @ SLASH # c"
      by (induction nm) auto
    show ?thesis
      using components_Cons [OF d] components_Cons [OF nm_def [symmetric] False] 1 [OF nm_def False] False
      unfolding t by simp
  qed
qed

lemma last_slash_file: "SLASH \<notin> set c \<Longrightarrow> last_slash (dir @ SLASH # c) = length dir"
  by (simp add: last_slash_def) (subst dropWhile_append2; auto)

lemma walked_follow [simp]: "walked LOOKUP_FOLLOW nm = components nm" "walked 0 nm = components nm"
  by (simp_all add: walked_def)

section \<open>Adding entries\<close>

text \<open>\<open>t\<close> is \<open>s\<close> with further entries named \<open>c\<close> in front of the children of \<open>p\<close>.\<close>

definition extra :: "nat list \<Rightarrow> nat \<Rightarrow> name \<Rightarrow> vfs \<Rightarrow> vfs \<Rightarrow> bool" where
  "extra xs p c s t \<longleftrightarrow> v_root t = v_root s \<and> v_mounts t = v_mounts s \<and> dom (v_dentries s) \<subseteq> dom (v_dentries t) \<and>
     (\<forall>x \<in> dom (v_dentries s). d_name (dent t x) = d_name (dent s x) \<and> d_parent (dent t x) = d_parent (dent s x) \<and>
        d_subdirs (dent t x) = (if x = p then xs else []) @ d_subdirs (dent s x)) \<and>
     (\<forall>x \<in> set xs. d_name (dent t x) = c \<and> x \<notin> dom (v_dentries s))"

lemma extra_refl: "extra [] p c s s" by (simp add: extra_def)

lemma extra_dentries:
  assumes "extra xs p c s t" "v_root t' = v_root t" "v_mounts t' = v_mounts t" "dom (v_dentries t') = dom (v_dentries t)"
    "\<And>x. d_name (dent t' x) = d_name (dent t x)" "\<And>x. d_parent (dent t' x) = d_parent (dent t x)"
    "\<And>x. d_subdirs (dent t' x) = d_subdirs (dent t x)"
  shows "extra xs p c s t'"
  using assms by (simp add: extra_def)

lemma extra_forget: "extra xs p c s t \<Longrightarrow> forget t' = forget t \<Longrightarrow> extra xs p c s t'"
  by (erule extra_dentries) (erule forget_eq_fields)+

lemma extra_new_entry:
  assumes "extra xs p c s t" "v_dentries t a = None" "p \<in> dom (v_dentries s)"
  shows "extra (a # xs) p c s (new_entry a p c t)"
proof -
  have p: "p \<in> dom (v_dentries t)" and a: "a \<notin> dom (v_dentries s)" and ap: "a \<noteq> p"
    using assms unfolding extra_def by (metis (no_types) domIff subsetD)+
  have d: "dom (v_dentries (new_entry a p c t)) = insert a (dom (v_dentries t))" using p by (auto simp: new_entry_def)
  show ?thesis
    using assms(1,3) a ap unfolding extra_def dent_new_entry [OF p ap] d by (auto simp: dentry_zero_def)
qed

lemma find_child_skip:
  "\<forall>x \<in> set xs. d_name (dent t x) = c \<Longrightarrow> nm \<noteq> c \<Longrightarrow> find_child t nm (xs @ cs) = find_child t nm cs"
  by (induction xs) auto

lemma wf_root: "wf_vfs s \<Longrightarrow> v_root s = Some r \<Longrightarrow> r \<in> dom (v_dentries s)"
  by (simp add: wf_vfs_def)

lemma resolve1_dom:
  assumes "wf_vfs s" "d \<in> dom (v_dentries s)" "resolve1 s d c = Some e"
  shows "e \<in> dom (v_dentries s)"
proof -
  have "mounted s x \<in> dom (v_dentries s)" if "x \<in> dom (v_dentries s)" for x
  proof (cases "find (\<lambda>m. fst m = Some x) (v_mounts s)")
    case (Some m)
    then have "m \<in> set (v_mounts s)" by (auto simp: find_Some_iff)
    then show ?thesis using assms(1) Some by (auto simp: mounted_def wf_vfs_def)
  qed (use that in \<open>simp add: mounted_def\<close>)
  then show ?thesis
    using assms wf_dent_ok [OF assms(1,2)] find_child_in [of s c "d_subdirs (dent s d)"]
    by (auto simp: resolve1_def dent_ok_def split: if_splits)
qed

lemma resolve_dom: "wf_vfs s \<Longrightarrow> d \<in> dom (v_dentries s) \<Longrightarrow> resolve s d cs = Some e \<Longrightarrow> e \<in> dom (v_dentries s)"
  by (induction cs arbitrary: d) (auto split: option.splits dest: resolve1_dom)

lemma resolve_extra:
  assumes "extra xs p c s t" "wf_vfs s" "find_child s c (d_subdirs (dent s p)) = None"
    "d \<in> dom (v_dentries s)" "resolve s d cs = Some e"
  shows "resolve t d cs = Some e"
  using assms(4,5)
proof (induction cs arbitrary: d)
  case (Cons nm cs)
  then obtain f where f: "resolve1 s d nm = Some f" "resolve s f cs = Some e" by (auto split: option.splits)
  have m: "mounted t = mounted s" by (rule ext) (use assms(1) in \<open>simp add: extra_def mounted_def\<close>)
  have sub: "x \<in> dom (v_dentries s)" if "x \<in> set (d_subdirs (dent s d))" for x
    using wf_subdirs [OF assms(2), of d] that by auto
  have old: "find_child t nm (d_subdirs (dent s d)) = find_child s nm (d_subdirs (dent s d))"
    by (rule find_child_cong) (use assms(1) sub in \<open>simp add: extra_def\<close>)
  have "resolve1 t d nm = Some f"
  proof (cases "d = p \<and> nm = c")
    case True
    then show ?thesis using f(1) assms(1,3) Cons.prems(1) by (auto simp: resolve1_def extra_def split: if_splits)
  next
    case False
    have "find_child t nm (d_subdirs (dent t d)) = find_child s nm (d_subdirs (dent s d))"
      using old False find_child_skip [of xs t c nm] assms(1) Cons.prems(1) by (auto simp: extra_def)
    moreover have "v_root t = v_root s" "d_parent (dent t d) = d_parent (dent s d)"
      using assms(1) Cons.prems(1) by (simp_all add: extra_def)
    ultimately have "resolve1 t d nm = resolve1 s d nm" by (simp add: resolve1_def m)
    then show ?thesis using f(1) by simp
  qed
  then show ?case using Cons.IH [OF resolve1_dom [OF assms(2) Cons.prems(1) f(1)] f(2)] by simp
qed simp

lemma resolve_append: "resolve s d (cs @ ds) = (case resolve s d cs of None \<Rightarrow> None | Some e \<Rightarrow> resolve s e ds)"
  by (induction cs arbitrary: d) (auto split: option.split)

text \<open>The name then means the entry added last.\<close>

lemma resolve_extra_new:
  assumes "extra (a # xs) p c s t" "wf_vfs s" "find_child s c (d_subdirs (dent s p)) = None" "v_root s = Some r"
    "resolve s r cs = Some p" "c \<noteq> [DOT]" "c \<noteq> [DOT, DOT]"
  shows "resolve t r (cs @ [c]) = Some a"
proof -
  have r: "r \<in> dom (v_dentries s)" by (rule wf_root [OF assms(2,4)])
  have p: "p \<in> dom (v_dentries s)" by (rule resolve_dom [OF assms(2) r assms(5)])
  have a: "a \<notin> dom (v_dentries s)" "d_name (dent t a) = c" "d_subdirs (dent t p) = a # xs @ d_subdirs (dent s p)"
    using assms(1) p by (auto simp: extra_def)
  have "find (\<lambda>m. fst m = Some a) (v_mounts s) = None"
    using assms(2) a(1) by (auto simp: find_None_iff wf_vfs_def)
  then have "mounted t a = a" using assms(1) by (simp add: mounted_def extra_def)
  then show ?thesis
    using resolve_extra [OF assms(1-3) r assms(5)] a assms(6,7) by (simp add: resolve_append resolve1_def)
qed

section \<open>Creating a file\<close>

text \<open>The situation: a directory \<open>p\<close> found by its path, without a child named \<open>c\<close>.\<close>

definition new_name :: "name \<Rightarrow> name \<Rightarrow> nat \<Rightarrow> vfs \<Rightarrow> bool" where
  "new_name dir c p s \<longleftrightarrow> wf_vfs s \<and> (\<exists>r. v_root s = Some r \<and> resolve s r (components dir) = Some p) \<and>
     c \<noteq> [] \<and> SLASH \<notin> set c \<and> c \<noteq> [DOT] \<and> c \<noteq> [DOT, DOT] \<and> find_child s c (d_subdirs (dent s p)) = None"

lemma new_nameD:
  assumes "new_name dir c p s"
  obtains r where "wf_vfs s" "v_root s = Some r" "resolve s r (components dir) = Some p" "c \<noteq> []" "SLASH \<notin> set c"
    "c \<noteq> [DOT]" "c \<noteq> [DOT, DOT]" "find_child s c (d_subdirs (dent s p)) = None" "p \<in> dom (v_dentries s)"
    "finite (dom (v_dentries s))"
  using assms resolve_dom wf_root wf_finite unfolding new_name_def by metis

text \<open>The lookup fails and leaves an entry without an inode.\<close>

lemma new_name_miss:
  assumes "new_name dir c p s" "alloc_ok va"
  obtains a s1 where "kern_path va (dir @ SLASH # c) LOOKUP_FOLLOW s = (Inl (- ENOENT), s1)" "wf_vfs s1"
    "extra [a] p c s s1" "d_inode (dent s1 a) = None" "v_inodes s1 = v_inodes s"
    "d_inode (dent s1 p) = d_inode (dent s p)"
proof -
  from assms(1) obtain r where n: "wf_vfs s" "v_root s = Some r" "resolve s r (components dir) = Some p" "c \<noteq> []" "SLASH \<notin> set c"
    "c \<noteq> [DOT]" "c \<noteq> [DOT, DOT]" "find_child s c (d_subdirs (dent s p)) = None" "p \<in> dom (v_dentries s)"
    "finite (dom (v_dentries s))" by (rule new_nameD)
  have w: "walked LOOKUP_FOLLOW (dir @ SLASH # c) = components dir @ c # []" using components_file [OF n(4,5), of dir] by simp
  obtain a s1 where k: "kern_path va (dir @ SLASH # c) LOOKUP_FOLLOW s = (Inl (- ENOENT), s1)" "v_dentries s a = None"
      "forget s1 = forget (new_entry a p c s)"
    using kern_path_miss [OF n(2) w n(3,6-8) assms(2) n(10,9)] by metis
  have "extra [a] p c s s1"
    by (rule extra_forget [OF extra_new_entry [OF extra_refl k(2) n(9)] k(3)])
  moreover have "a \<noteq> p" using k(2) n(9) by (auto simp: domIff)
  then have "d_inode (dent s1 a) = None" "d_inode (dent s1 p) = d_inode (dent s p)" "v_inodes s1 = v_inodes s"
    unfolding forget_eq_fields(3,6) [OF k(3)] by (simp_all add: dent_new_entry [OF n(9)] dentry_zero_def)
  moreover have "wf_vfs s1"
    using kern_path_finds [OF alloc_okD(1) [OF assms(2)] n(1), of "dir @ SLASH # c" LOOKUP_FOLLOW] k(1) ext_wf by (simp add: finds_def)
  ultimately show thesis using that k(1) by blast
qed

text \<open>From then on the name cannot be opened, with or without \<^verbatim>\<open>O_CREAT\<close>.\<close>

lemma open_missed:
  assumes "new_name dir c p s" "alloc_ok va"
  shows "fst (filp_open va (dir @ SLASH # c) flags mode (snd (kern_path va (dir @ SLASH # c) LOOKUP_FOLLOW s))) = Inl (- ENOENT)"
proof -
  from assms(1) obtain r where n: "wf_vfs s" "v_root s = Some r" "resolve s r (components dir) = Some p" "c \<noteq> []" "SLASH \<notin> set c"
    "c \<noteq> [DOT]" "c \<noteq> [DOT, DOT]" "find_child s c (d_subdirs (dent s p)) = None" "p \<in> dom (v_dentries s)"
    "finite (dom (v_dentries s))" by (rule new_nameD)
  obtain a s1 where m: "kern_path va (dir @ SLASH # c) LOOKUP_FOLLOW s = (Inl (- ENOENT), s1)"
      "extra [a] p c s s1" "d_inode (dent s1 a) = None"
    using new_name_miss [OF assms] by metis
  have "resolve s1 r (walked LOOKUP_FOLLOW (dir @ SLASH # c)) = Some a"
    using resolve_extra_new [OF m(2) n(1,8,2,3,6,7)] components_file [OF n(4,5), of dir] by simp
  moreover have "v_root s1 = Some r" using m(2) n(2) by (simp add: extra_def)
  moreover have "\<not> is_link s1 a" using m(3) by (simp add: is_link_def)
  ultimately obtain s2 where "kern_path va (dir @ SLASH # c) LOOKUP_FOLLOW s1 = (Inr a, s2)" "forget s2 = forget s1"
    using kern_path_resolve [of s1 r LOOKUP_FOLLOW "dir @ SLASH # c" a va] by metis
  then show ?thesis using m(1,3) forget_eq_fields(6) [of s2 s1 a] by (simp add: filp_open_def)
qed

text \<open>The state after a successful creation.\<close>

definition created :: "name \<Rightarrow> nat \<Rightarrow> nat \<Rightarrow> u32 \<Rightarrow> vfs \<Rightarrow> bool" where
  "created nm a i mode t \<longleftrightarrow> (\<exists>r. v_root t = Some r \<and> resolve t r (components nm) = Some a) \<and> d_inode (dent t a) = Some i \<and>
     i_mode (ind t i) = mode OR S_IFREG \<and> i_fop (ind t i) = Some RamfsFileOps \<and> i \<in> dom (v_inodes t) \<and>
     i_private (ind t i) = Some (RamData \<lparr>ri_data = None, ri_size = 0, ri_capacity = 0\<rparr>)"

lemma created_forget: "created nm a i mode t \<Longrightarrow> forget t' = forget t \<Longrightarrow> created nm a i mode t'"
  by (simp add: created_def forget_eq_fields [of t' t] resolve_forget [of t' t])

lemma ramfs_create_ok:
  assumes "alloc_ok va" "wf_vfs t" "a \<in> dom (v_dentries t)"
  obtains i t' where "ramfs_create va dir a mode t = (0, t')" "v_inodes t i = None"
    "v_root t' = v_root t" "v_mounts t' = v_mounts t" "v_inodes t' = (v_inodes t)(i \<mapsto> ind t' i)"
    "\<And>x. dent t' x = (if x = a then (dent t a)\<lparr>d_inode := Some i\<rparr> else dent t x)"
    "dom (v_dentries t') = dom (v_dentries t)"
    "i_mode (ind t' i) = mode OR S_IFREG" "i_fop (ind t' i) = Some RamfsFileOps"
    "i_private (ind t' i) = Some (RamData \<lparr>ri_data = None, ri_size = 0, ri_capacity = 0\<rparr>)"
proof -
  obtain i where i: "va_inode va (v_inodes t) = Some i" "v_inodes t i = None"
    using alloc_okD(6) [OF assms(1)] wf_finite [OF assms(2)] by metis
  obtain t' where t': "ramfs_create va dir a mode t = (0, t')"
    using i(1) alloc_okD(3) [OF assms(1)] by (simp add: ramfs_create_def new_inode_def Let_def)
  show thesis
    by (rule that [OF t' i(2)])
       (use t' i(1) alloc_okD(3) [OF assms(1)] assms(3) in
         \<open>auto simp: ramfs_create_def new_inode_def Let_def upd_ind_def d_instantiate_def ind_def upd_dent_def dent_def domIff split: option.splits\<close>)
qed

lemma create_parent_ok:
  assumes "v_root s = Some r" "resolve s r (components dir) = Some p" "SLASH \<notin> set c" "\<not> is_link s p" "length dir < 512"
  obtains s1 where "create_parent va (dir @ SLASH # c) s = (Inr (p, c), s1)" "forget s1 = forget s"
proof (cases "dir = []")
  case True
  then have "p = r" using assms(2) components_eq_Nil [of "[]"] by simp
  then have "create_parent va (dir @ SLASH # c) s = (Inr (p, c), dget r s)"
    using True assms(1) last_slash_file [OF assms(3), of dir] by (simp add: create_parent_def)
  then show thesis by (rule that) simp
next
  case False
  obtain s1 where "kern_path va dir LOOKUP_FOLLOW s = (Inr p, s1)" "forget s1 = forget s"
    using kern_path_resolve [of s r LOOKUP_FOLLOW dir p va] assms by auto
  then show thesis
    using that [of s1] False assms(5) last_slash_file [OF assms(3), of dir] by (simp add: create_parent_def)
qed

lemma mode_reg: "mode AND 0xF000 = 0 \<Longrightarrow> ((mode OR 0x1A4) OR S_IFREG) AND 0xF000 = (S_IFREG :: u32)"
  by (simp add: bit.conj_disj_distrib2)

lemma created_not_link: "created nm a i (mode OR 0x1A4) t \<Longrightarrow> mode AND 0xF000 = 0 \<Longrightarrow> \<not> is_link t a"
  using mode_reg [of mode] by (simp add: created_def is_link_def mode_is_def)

lemma open_create_ok:
  assumes "new_name dir c p s" "alloc_ok va" "d_inode (dent s p) = Some i0" "i_op (ind s i0) = Some RamfsDirOps"
    "\<not> is_link s p" "length dir < 512" "mode AND 0xF000 = 0"
  obtains s1 a i t where "kern_path va (dir @ SLASH # c) LOOKUP_FOLLOW s = (Inl (- ENOENT), s1)"
    "open_create va (dir @ SLASH # c) mode s1 = (Inr a, t)" "created (dir @ SLASH # c) a i (mode OR 0x1A4) t"
proof -
  let ?nm = "dir @ SLASH # c"
  from assms(1) obtain r where n: "wf_vfs s" "v_root s = Some r" "resolve s r (components dir) = Some p" "c \<noteq> []" "SLASH \<notin> set c"
    "c \<noteq> [DOT]" "c \<noteq> [DOT, DOT]" "find_child s c (d_subdirs (dent s p)) = None" "p \<in> dom (v_dentries s)"
    "finite (dom (v_dentries s))" by (rule new_nameD)
  have r: "r \<in> dom (v_dentries s)" by (rule wf_root [OF n(1,2)])
  note fresh = alloc_okD(1) [OF assms(2)]
  obtain a0 s1 where s1: "kern_path va ?nm LOOKUP_FOLLOW s = (Inl (- ENOENT), s1)" "wf_vfs s1"
      "extra [a0] p c s s1" "v_inodes s1 = v_inodes s" "d_inode (dent s1 p) = d_inode (dent s p)"
    using new_name_miss [OF assms(1,2)] by metis
  have root1: "v_root s1 = Some r" using s1(3) n(2) by (simp add: extra_def)
  have ind1: "ind s1 = ind s" by (rule ext) (simp add: ind_def s1(4))
  have link1: "\<not> is_link s1 p" using assms(5) unfolding is_link_def ind1 s1(5) .
  obtain s2 where s2: "create_parent va ?nm s1 = (Inr (p, c), s2)" "forget s2 = forget s1"
    using create_parent_ok [OF root1 resolve_extra [OF s1(3) n(1,8) r n(3)] n(5) link1 assms(6)] by metis
  have wf2: "wf_vfs s2" using create_parent_ext [OF fresh s1(2) s2(1)] ext_wf by blast
  note x2 = extra_forget [OF s1(3) s2(2)]
  have p2: "p \<in> dom (v_dentries s2)" using x2 n(9) by (auto simp: extra_def)
  obtain a s3 where s3: "d_alloc va (Some p) c s2 = (Some a, s3)" "v_dentries s2 a = None"
      "forget s3 = forget (new_entry a p c s2)"
    using d_alloc_ok [OF assms(2) conjunct1 [OF wf_finite [OF wf2]]] by metis
  have e3: "wf_vfs s3" "a \<in> dom (v_dentries s3)"
    using ext_d_alloc [OF fresh wf2 s3(1)] p2 ext_wf by auto
  have x3: "extra [a, a0] p c s s3" by (rule extra_forget [OF extra_new_entry [OF x2 s3(2) n(9)] s3(3)])
  obtain i t0 where t0: "ramfs_create va i0 a (mode OR 0x1A4) s3 = (0, t0)" "v_inodes s3 i = None"
    "v_root t0 = v_root s3" "v_mounts t0 = v_mounts s3" "v_inodes t0 = (v_inodes s3)(i \<mapsto> ind t0 i)"
    "\<And>x. dent t0 x = (if x = a then (dent s3 a)\<lparr>d_inode := Some i\<rparr> else dent s3 x)"
    "dom (v_dentries t0) = dom (v_dentries s3)"
    "i_mode (ind t0 i) = (mode OR 0x1A4) OR S_IFREG" "i_fop (ind t0 i) = Some RamfsFileOps"
    "i_private (ind t0 i) = Some (RamData \<lparr>ri_data = None, ri_size = 0, ri_capacity = 0\<rparr>)"
    using ramfs_create_ok [OF assms(2) e3] by metis
  have xt: "extra [a, a0] p c s t0" by (rule extra_dentries [OF x3 t0(3,4,7)]) (simp_all add: t0(6))
  have "resolve t0 r (components ?nm) = Some a"
    using resolve_extra_new [OF xt n(1,8,2,3,6,7)] components_file [OF n(4,5), of dir] by simp
  moreover have "v_root t0 = Some r" using xt n(2) by (simp add: extra_def)
  moreover have "i \<in> dom (v_inodes t0)" by (subst t0(5)) simp
  moreover have "d_inode (dent t0 a) = Some i" by (simp add: t0(6))
  ultimately have "created ?nm a i (mode OR 0x1A4) t0" using t0(8-10) by (simp add: created_def)
  then have c0: "created ?nm a i (mode OR 0x1A4) (dput p t0)" by (rule created_forget) simp
  then obtain r' where r': "v_root (dput p t0) = Some r'" "resolve (dput p t0) r' (walked LOOKUP_FOLLOW ?nm) = Some a"
    by (auto simp: created_def)
  obtain t where t: "kern_path va ?nm LOOKUP_FOLLOW (dput p t0) = (Inr a, t)" "forget t = forget (dput p t0)"
    using kern_path_resolve [OF r'] created_not_link [OF c0 assms(7)] by metis
  have dir: "d_inode (dent s2 p) = Some i0" "i_op (ind s2 i0) = Some RamfsDirOps"
    using assms(3,4) s1(4,5) forget_eq_fields(6,8) [OF s2(2)] by (simp_all add: ind_def)
  have "open_create va ?nm mode s1 = (Inr a, t)"
    by (simp add: open_create_def s2(1) dir s3(1) t0(1) t(1))
  then show thesis by (rule that [OF s1(1) _ created_forget [OF c0 t(2)]])
qed

section \<open>From creation to contents\<close>

lemma mode_is_reg: "mode AND 0xF000 = 0 \<Longrightarrow> \<not> mode_is ((mode OR 0x1A4) OR S_IFREG) S_IFDIR"
  using mode_reg [of mode] by (simp add: mode_is_def)

lemma filp_open_created:
  assumes "created nm a i (mode OR 0x1A4) t" "mode AND 0xF000 = 0" "va_file va"
    "kern_path va nm LOOKUP_FOLLOW s = (Inr a, t) \<or>
     flags AND O_CREAT \<noteq> 0 \<and> m = mode \<and> kern_path va nm LOOKUP_FOLLOW s = (Inl (- ENOENT), s1) \<and> open_create va nm mode s1 = (Inr a, t)"
  shows "filp_open va nm flags m s =
     (Inr \<lparr>f_dentry = a, f_inode = i, f_op = Some RamfsFileOps, f_flags = flags,
           f_mode = (if flags AND 3 = 0 then 1 else if flags AND 3 = 1 then 2 else 3), f_pos = 0, f_count = 1\<rparr>, t)"
  using assms mode_is_reg [OF assms(2)] by (auto simp: filp_open_def created_def)

text \<open>A write through the file changes the contents of its inode only.\<close>

lemma vfs_write_created:
  assumes "created nm a i mode t" "f_inode f = i" "f_op f = Some RamfsFileOps" "f_mode f AND 2 \<noteq> 0"
    "kmalloc_ok fresh" "length bs < 2 ^ 63" "bs \<noteq> []"
    "room_for fresh (word_of_nat (length bs)) \<lparr>ri_data = None, ri_size = 0, ri_capacity = 0\<rparr>"
  obtains ri pos u where "vfs_write fresh f bs 0 t = Some (int (length bs), word_of_nat (length bs), u)"
    "v_dentries u = v_dentries t" "v_root u = v_root t" "v_mounts u = v_mounts t"
    "ram_data (ind u i) = Some ri" "i_mode (ind u i) = i_mode (ind t i)" "i_fop (ind u i) = i_fop (ind t i)"
    "ramfs_read (Some ri) (word_of_nat (length bs)) 0 = Some (bs, pos)"
proof -
  let ?ri = "\<lparr>ri_data = None, ri_size = 0, ri_capacity = 0\<rparr> :: ramfs_inode"
  have p: "ram_data (ind t i) = Some ?ri" and i: "i \<in> dom (v_inodes t)" using assms(1) by (simp_all add: created_def ram_data_def)
  have "ri_inv ?ri" by (simp add: ri_inv_def)
  then obtain ri pos where w: "ramfs_write fresh (Some ?ri) bs 0 = Some (int (length bs), Some ri, word_of_nat (length bs))"
      "ramfs_read (Some ri) (word_of_nat (length bs)) 0 = Some (bs, pos)"
    using ramfs_write_then_read [of ?ri fresh 0 bs] assms(5-8) by auto
  obtain u where u: "vfs_write fresh f bs 0 t = Some (int (length bs), word_of_nat (length bs), u)"
    using w(1) p assms(2-4) by (simp add: vfs_write_def)
  show thesis
    by (rule that [OF u, of ri pos])
       (use u w p i assms(2-4) in \<open>auto simp: vfs_write_def upd_ind_def ind_def ram_data_def domIff\<close>)
qed

lemma file_roundtrip:
  assumes "new_name dir c p s" "alloc_ok va" "d_inode (dent s p) = Some i0" "i_op (ind s i0) = Some RamfsDirOps"
    "\<not> is_link s p" "length dir < 512" "mode AND 0xF000 = 0" "flags AND O_CREAT \<noteq> 0" "flags AND 3 = 2"
    "kmalloc_ok fresh" "length bs < 2 ^ 63" "bs \<noteq> []"
    "room_for fresh (word_of_nat (length bs)) \<lparr>ri_data = None, ri_size = 0, ri_capacity = 0\<rparr>"
  shows "\<exists>f s1 s2 f' s3 pos. filp_open va (dir @ SLASH # c) flags mode s = (Inr f, s1) \<and>
    vfs_write fresh f bs 0 s1 = Some (int (length bs), word_of_nat (length bs), s2) \<and>
    filp_open va (dir @ SLASH # c) 0 0 s2 = (Inr f', s3) \<and>
    vfs_read f' (word_of_nat (length bs)) 0 s3 = Some (int (length bs), bs, pos)"
proof -
  let ?nm = "dir @ SLASH # c"
  obtain s0 a i t where o: "kern_path va ?nm LOOKUP_FOLLOW s = (Inl (- ENOENT), s0)"
      "open_create va ?nm mode s0 = (Inr a, t)" "created ?nm a i (mode OR 0x1A4) t"
    using open_create_ok [OF assms(1-7)] by metis
  note fil = alloc_okD(4) [OF assms(2)]
  let ?f = "\<lambda>flags. \<lparr>f_dentry = a, f_inode = i, f_op = Some RamfsFileOps, f_flags = flags,
           f_mode = (if flags AND 3 = 0 then 1 else if flags AND 3 = 1 then 2 else 3), f_pos = 0, f_count = 1\<rparr>"
  have op: "filp_open va ?nm flags mode s = (Inr (?f flags), t)"
    by (rule filp_open_created [OF o(3) assms(7) fil]) (use o(1,2) assms(8) in blast)
  have m: "f_inode (?f flags) = i" "f_op (?f flags) = Some RamfsFileOps" "f_mode (?f flags) AND 2 \<noteq> 0"
    using assms(9) by simp_all
  obtain ri pos u where u: "vfs_write fresh (?f flags) bs 0 t = Some (int (length bs), word_of_nat (length bs), u)"
    "v_dentries u = v_dentries t" "v_root u = v_root t" "v_mounts u = v_mounts t"
    "ram_data (ind u i) = Some ri" "i_mode (ind u i) = i_mode (ind t i)" "i_fop (ind u i) = i_fop (ind t i)"
    "ramfs_read (Some ri) (word_of_nat (length bs)) 0 = Some (bs, pos)"
    by (rule vfs_write_created [OF o(3) m assms(10-13)])
  have d: "dent u = dent t" by (rule ext) (simp add: dent_def u(2))
  obtain r where r: "v_root u = Some r" "resolve u r (walked LOOKUP_FOLLOW ?nm) = Some a"
    using o(3) resolve_cong [of u t] by (auto simp: created_def u(3,4) d)
  have "\<not> is_link u a" using created_not_link [OF o(3) assms(7)] o(3) u(6) d by (simp add: is_link_def created_def)
  then obtain v where v: "kern_path va ?nm LOOKUP_FOLLOW u = (Inr a, v)" "forget v = forget u"
    using kern_path_resolve [OF r] by metis
  have fv: "d_inode (dent v a) = Some i" "ind v i = ind u i"
    using forget_eq_fields(6,8) [OF v(2)] o(3) by (simp_all add: d created_def)
  have op2: "filp_open va ?nm 0 0 u = (Inr (?f 0), v)"
    using v(1) fv o(3) u(6,7) mode_is_reg [OF assms(7)] fil by (simp add: filp_open_def created_def)
  have "vfs_read (?f 0) (word_of_nat (length bs)) 0 v = Some (int (length bs), bs, pos)"
    using u(5,8) fv(2) by (simp add: vfs_read_def)
  then show ?thesis using op u(1) op2 by blast
qed

section \<open>Names after unlink and rename\<close>

lemma resolve_dget: "resolve (dget a s) d cs = resolve s d cs"
  by (rule resolve_forget) simp

text \<open>The entry of an unlinked file stays where it is.\<close>

lemma unlink_keeps:
  assumes "v_root s = Some r" "resolve s r (components nm) = Some d" "d_inode (dent s d) = Some i"
    "\<not> mode_is (i_mode (ind s i)) S_IFDIR" "d_inode (dent s (d_parent (dent s d))) = Some di" "i_op (ind s di) = Some RamfsDirOps"
  obtains s' s'' where "sys_unlink va nm s = (0, s')" "kern_path va nm 0 s' = (Inr d, s'')" "d_inode (dent s'' d) = Some i"
proof -
  have w: "resolve s r (walked 0 nm) = Some d" using assms(2) by simp
  obtain s1 where s1: "kern_path va nm 0 s = (Inr d, s1)" "forget s1 = forget s"
    using kern_path_resolve [OF assms(1) w] by auto
  note fg = forget_eq_fields [OF s1(2)]
  let ?s2 = "dput d (drop_nlink i s1)"
  have u: "sys_unlink va nm s = (0, ?s2)"
    using assms(3-6) by (simp add: sys_unlink_def s1(1) vfs_unlink_def ramfs_unlink_def fg)
  have d2: "dent (drop_nlink i s1) = dent s1" by (rule ext) (simp add: drop_nlink_def upd_ind_def dent_def)
  have "resolve ?s2 r (walked 0 nm) = resolve s1 r (walked 0 nm)"
    unfolding resolve_forget [OF forget_dput] by (rule resolve_cong) (simp_all add: d2, simp_all add: drop_nlink_def upd_ind_def)
  then have "resolve ?s2 r (walked 0 nm) = Some d" using w resolve_forget [OF s1(2)] by simp
  moreover have "v_root ?s2 = Some r" using fg(1) assms(1) by (simp add: drop_nlink_def upd_ind_def)
  ultimately obtain s3 where s3: "kern_path va nm 0 ?s2 = (Inr d, s3)" "forget s3 = forget ?s2"
    using kern_path_resolve [of ?s2 r 0 nm d va] by auto
  have "d_inode (dent s3 d) = Some i"
    using forget_eq_fields(6) [OF s3(2), of d] forget_eq_fields(6) [OF forget_dput, of d "drop_nlink i s1" d] assms(3) fg(6) by (simp add: d2)
  then show thesis by (rule that [OF u s3(1)])
qed

text \<open>A renamed entry is on no list of children.\<close>

lemma unlink_child_gone: "wf_vfs s \<Longrightarrow> a \<in> dom (v_dentries s) \<Longrightarrow> a \<notin> set (d_subdirs (dent (unlink_child a s) x))"
  using wf_subdirs [of s x] wf_dent_ok [of s a]
  by (auto simp: unlink_child_def dent_upd_dent dent_ok_def split: if_splits)

lemma rename_unlists:
  assumes va: "alloc_fresh va" and w: "wf_vfs s" and k: "kern_path va oldpath 0 s = (Inr old, s1)"
    and k2: "kern_path va newpath LOOKUP_PARENT s1 = (Inr p, s2)" and r: "sys_rename va oldpath newpath s = (0, s')"
  shows "old \<notin> set (d_subdirs (dent s' x))"
proof -
  have f1: "ext s s1" "old \<in> dom (v_dentries s1)" using kern_path_finds [OF va w, of oldpath 0] k by (simp_all add: finds_def)
  have f2: "ext s1 s2" "p \<in> dom (v_dentries s2)"
    using kern_path_finds [OF va ext_wf [OF f1(1)], of newpath LOOKUP_PARENT] k2 by (auto simp: finds_def)
  obtain q s3 where a: "d_alloc va (Some p) (base_name newpath) s2 = (q, s3)" by fastforce
  have f3: "ext s2 s3" using ext_d_alloc [OF va ext_wf [OF f2(1)] a] f2(2) by simp
  obtain a where q: "q = Some a" using r by (cases q) (simp_all add: sys_rename_def k k2 a)
  obtain s4 where v: "vfs_rename (d_inode (dent s3 (d_parent (dent s3 old)))) old (d_inode (dent s3 p)) a s3 = (0, s4)"
      "s' = dput p (dput old (dput a s4))"
    using r by (auto simp: sys_rename_def k k2 a q split: prod.splits)
  let ?s1 = "case d_inode (dent s3 a) of None \<Rightarrow> s3 | Some i \<Rightarrow> d_delete a (drop_nlink i (unlink_child a s3))"
  have e: "ext s3 ?s1" using ext_wf [OF f3] by (auto intro!: ext_chain ext_refl split: option.split)
  have o: "old \<in> dom (v_dentries ?s1)"
    by (rule ext_dentry [OF e ext_dentry [OF f3 ext_dentry [OF f2(1) f1(2)]]])
  have s4: "s4 = upd_dent old (\<lambda>d. d\<lparr>d_name := d_name (dent (unlink_child old ?s1) a)\<rparr>) (unlink_child old ?s1)"
    using v(1) by (auto simp: vfs_rename_def Let_def split: if_splits)
  have "old \<in> dom (v_dentries (unlink_child old ?s1))" by (rule ext_dentry [OF ext_unlink_child [OF ext_wf [OF e]] o])
  then have "d_subdirs (dent s4 x) = d_subdirs (dent (unlink_child old ?s1) x)" unfolding s4 by (simp add: dent_upd_dent)
  moreover have "d_subdirs (dent s' x) = d_subdirs (dent s4 x)"
    unfolding v(2) using forget_eq_fields(4) [of "dput p (dput old (dput a s4))" s4 x] by simp
  ultimately show ?thesis using unlink_child_gone [OF ext_wf [OF e] o, of x] by simp
qed

section \<open>Properties\<close>

text \<open>A root directory with one empty file, \<^verbatim>\<open>/f\<close>, and two allocators: one that searches the first hundred
  addresses, one with unlimited memory.\<close>

definition demo_vfs :: vfs where
  "demo_vfs = vfs_init\<lparr>
     v_dentries := [5 \<mapsto> dentry_zero\<lparr>d_name := [SLASH], d_parent := 5, d_inode := Some 5, d_count := 1, d_subdirs := [6]\<rparr>,
                    6 \<mapsto> dentry_zero\<lparr>d_name := [102], d_parent := 5, d_inode := Some 6, d_count := 1\<rparr>],
     v_inodes := [5 \<mapsto> inode_zero\<lparr>i_mode := S_IFDIR, i_op := Some RamfsDirOps, i_fop := Some RamfsDirFileOps, i_nlink := 2\<rparr>,
                  6 \<mapsto> inode_zero\<lparr>i_mode := S_IFREG, i_fop := Some RamfsFileOps, i_nlink := 1\<rparr>],
     v_root := Some 5\<rparr>"

definition demo_va :: vfs_alloc where
  "demo_va = \<lparr>va_dentry = (\<lambda>m. find (\<lambda>a. m a = None) [1..<100]), va_inode = (\<lambda>m. find (\<lambda>a. m a = None) [1..<100]),
     va_name = True, va_private = True, va_file = True, va_mount = True, va_sb = Some 1\<rparr>"

definition least_va :: vfs_alloc where
  "least_va = \<lparr>va_dentry = (\<lambda>m. if finite (dom m) then Some (LEAST a. m a = None) else None),
     va_inode = (\<lambda>m. if finite (dom m) then Some (LEAST a. m a = None) else None),
     va_name = True, va_private = True, va_file = True, va_mount = True, va_sb = Some 1\<rparr>"

lemma demo_va_fresh: "alloc_fresh demo_va"
  by (auto simp: alloc_fresh_def demo_va_def find_Some_iff)

lemma least_free_address: "finite (dom m) \<Longrightarrow> m (LEAST a :: nat. m a = None) = None"
  using ex_new_if_finite [OF infinite_UNIV_nat, of "dom m"] by (auto simp: domIff intro: LeastI)

lemma least_va_ok: "alloc_ok least_va"
  by (auto simp: alloc_ok_def alloc_fresh_def least_va_def least_free_address split: if_splits)

lemma demo_vfs_wf: "wf_vfs demo_vfs"
  by (auto simp: wf_vfs_def dent_ok_def demo_vfs_def vfs_init_def dent_def dentry_zero_def split: if_splits)

lemma demo_resolve: "components [SLASH, 102] = [[102]]" "components [] = []" "resolve1 demo_vfs 5 [102] = Some 6"
  "find_child demo_vfs [103] (d_subdirs (dent demo_vfs 5)) = None"
  by (simp_all add: components.simps resolve1_def mounted_def demo_vfs_def vfs_init_def dent_def dentry_zero_def)

text \<open>C9 (pointers of the name tree). Whatever calls are made on names, files and mounts since the start, and whether or
  not memory runs out, every parent, child, inode, root and mount refers to an allocated block, and an
  entry is listed by its parent only, once.\<close>

theorem vfs_calls_wf: "alloc_fresh va \<Longrightarrow> wf_vfs (fold (vfs_exec va) cs vfs_init)"
  by (rule wf_vfs_run [OF _ wf_vfs_init])

theorem vfs_calls_wf_witness:
  "wf_vfs (fold (vfs_exec demo_va) [Register 1 (Some [114]), Mount [SLASH] [114], Mkdir [SLASH, 100] 0x1ED,
     Open [SLASH, 100, SLASH, 102] 0x42 0, Rename [SLASH, 100, SLASH, 102] [SLASH, 103], Rmdir [SLASH, 100]] vfs_init)"
  by (rule vfs_calls_wf [OF demo_va_fresh])

text \<open>C11 (path resolution). A path whose components lead from the root to an entry, through dots, parents and mount
  points, is resolved to that entry by \<^verbatim>\<open>kern_path\<close>, with or without its last component as the
  flags ask, and only reference counts change.\<close>

theorem kern_path_resolves:
  assumes "v_root s = Some r" "resolve s r (walked flags nm) = Some d" "flags AND LOOKUP_FOLLOW = 0 \<or> \<not> is_link s d"
  shows "\<exists>s'. kern_path va nm flags s = (Inr d, s') \<and> forget s' = forget s"
  using kern_path_resolve [OF assms] by metis

theorem kern_path_resolves_witness:
  "\<exists>s'. kern_path demo_va [SLASH, 102] LOOKUP_FOLLOW demo_vfs = (Inr 6, s') \<and> forget s' = forget demo_vfs"
proof -
  have "v_root demo_vfs = Some 5" "\<not> is_link demo_vfs 6"
    by (simp_all add: demo_vfs_def is_link_def dent_def ind_def mode_is_def dentry_zero_def inode_zero_def)
  then show ?thesis using kern_path_resolves [of demo_vfs 5 LOOKUP_FOLLOW "[SLASH, 102]" 6 demo_va] by (simp add: demo_resolve)
qed

text \<open>C4 (the life of a file). Opening a name that has not been looked up with \<^verbatim>\<open>O_CREAT\<close> in a directory of the RAM
  file system makes an empty file; what is written to it through the descriptor is what a later open
  of the same path reads.\<close>

theorem file_create_write_read:
  assumes "new_name dir c p s" "alloc_ok va" "d_inode (dent s p) = Some i0" "i_op (ind s i0) = Some RamfsDirOps"
    "\<not> is_link s p" "length dir < 512" "mode AND 0xF000 = 0" "flags AND O_CREAT \<noteq> 0" "flags AND 3 = 2"
    "kmalloc_ok fresh" "length bs < 2 ^ 63" "bs \<noteq> []"
    "room_for fresh (word_of_nat (length bs)) \<lparr>ri_data = None, ri_size = 0, ri_capacity = 0\<rparr>"
  shows "\<exists>f s1 s2 f' s3 pos. filp_open va (dir @ SLASH # c) flags mode s = (Inr f, s1) \<and>
    vfs_write fresh f bs 0 s1 = Some (int (length bs), word_of_nat (length bs), s2) \<and>
    filp_open va (dir @ SLASH # c) 0 0 s2 = (Inr f', s3) \<and>
    vfs_read f' (word_of_nat (length bs)) 0 s3 = Some (int (length bs), bs, pos)"
  by (rule file_roundtrip [OF assms])

lemma demo_new_name: "new_name [] [103] 5 demo_vfs"
  by (simp add: new_name_def demo_vfs_wf demo_resolve) (simp add: demo_vfs_def)

lemma demo_root: "d_inode (dent demo_vfs 5) = Some 5" "i_op (ind demo_vfs 5) = Some RamfsDirOps" "\<not> is_link demo_vfs 5"
  by (simp_all add: demo_vfs_def is_link_def dent_def ind_def mode_is_def dentry_zero_def inode_zero_def)

theorem file_create_write_read_witness:
  "\<exists>f s1 s2 f' s3 pos. filp_open least_va [SLASH, 103] 0x42 0 demo_vfs = (Inr f, s1) \<and>
     vfs_write (\<lambda>n. Some (replicate (unat n) 0)) f [1, 2, 3] 0 s1 = Some (3, 3, s2) \<and>
     filp_open least_va [SLASH, 103] 0 0 s2 = (Inr f', s3) \<and> vfs_read f' 3 0 s3 = Some (3, [1, 2, 3], pos)"
  using file_create_write_read [OF demo_new_name least_va_ok demo_root,
      where mode = "0" and flags = "0x42" and fresh = "\<lambda>n. Some (replicate (unat n) 0)" and bs = "[1, 2, 3]"]
  by (simp add: kmalloc_ok_def room_for_def)

text \<open>\<^emph>\<open>A missed name stays missing.\<close> Once a lookup of a name has failed, the entry it leaves behind makes every later
  open of the name fail with \<open>-ENOENT\<close>, with \<^verbatim>\<open>O_CREAT\<close> too.\<close>

theorem open_create_after_miss:
  assumes "new_name dir c p s" "alloc_ok va"
  shows "fst (filp_open va (dir @ SLASH # c) flags mode (snd (kern_path va (dir @ SLASH # c) LOOKUP_FOLLOW s))) = Inl (- ENOENT)"
  by (rule open_missed [OF assms])

theorem open_create_after_miss_witness:
  "fst (filp_open least_va [SLASH, 103] O_CREAT 0 (snd (kern_path least_va [SLASH, 103] LOOKUP_FOLLOW demo_vfs))) = Inl (- ENOENT)"
  using open_create_after_miss [OF demo_new_name least_va_ok, of O_CREAT 0] by simp

text \<open>\<^emph>\<open>An unlinked name stays.\<close> \<^verbatim>\<open>unlink\<close> of a file in a directory of the RAM file system reports success, and the path
  still resolves to the same entry with the same inode.\<close>

theorem unlink_name_remains:
  assumes "v_root s = Some r" "resolve s r (components nm) = Some d" "d_inode (dent s d) = Some i"
    "\<not> mode_is (i_mode (ind s i)) S_IFDIR" "d_inode (dent s (d_parent (dent s d))) = Some di" "i_op (ind s di) = Some RamfsDirOps"
  shows "\<exists>s' s''. sys_unlink va nm s = (0, s') \<and> kern_path va nm 0 s' = (Inr d, s'') \<and> d_inode (dent s'' d) = Some i"
  using unlink_keeps [OF assms] by metis

theorem unlink_name_remains_witness:
  "\<exists>s' s''. sys_unlink demo_va [SLASH, 102] demo_vfs = (0, s') \<and> kern_path demo_va [SLASH, 102] 0 s' = (Inr 6, s'') \<and>
     d_inode (dent s'' 6) = Some 6"
proof -
  have "v_root demo_vfs = Some 5" "d_inode (dent demo_vfs 6) = Some 6" "d_parent (dent demo_vfs 6) = 5"
    "\<not> mode_is (i_mode (ind demo_vfs 6)) S_IFDIR"
    by (simp_all add: demo_vfs_def dent_def ind_def mode_is_def dentry_zero_def inode_zero_def)
  then show ?thesis
    using unlink_name_remains [of demo_vfs 5 "[SLASH, 102]" 6 6 5 demo_va] by (simp add: demo_resolve demo_root)
qed

text \<open>\<^emph>\<open>A renamed file is lost.\<close> After a successful \<^verbatim>\<open>rename\<close> no directory lists the entry of the file: it is taken off its old
  directory and never put into the new one.\<close>

theorem rename_loses_entry:
  assumes "alloc_fresh va" "wf_vfs s" "kern_path va oldpath 0 s = (Inr old, s1)"
    "kern_path va newpath LOOKUP_PARENT s1 = (Inr p, s2)" "sys_rename va oldpath newpath s = (0, s')"
  shows "old \<notin> set (d_subdirs (dent s' x))"
  by (rule rename_unlists [OF assms])

lemma demo_rename:
  "fst (kern_path demo_va [SLASH, 102] 0 demo_vfs) = Inr 6"
  "fst (kern_path demo_va [SLASH, 103] LOOKUP_PARENT (snd (kern_path demo_va [SLASH, 102] 0 demo_vfs))) = Inr 5"
  "fst (sys_rename demo_va [SLASH, 102] [SLASH, 103] demo_vfs) = 0"
  by code_simp+

theorem rename_loses_entry_witness:
  "fst (sys_rename demo_va [SLASH, 102] [SLASH, 103] demo_vfs) = 0 \<and> 6 \<in> set (d_subdirs (dent demo_vfs 5)) \<and>
   6 \<notin> set (d_subdirs (dent (snd (sys_rename demo_va [SLASH, 102] [SLASH, 103] demo_vfs)) 5))"
  using rename_loses_entry [OF demo_va_fresh demo_vfs_wf, of "[SLASH, 102]" 6 _ "[SLASH, 103]" 5 _ _ 5] demo_rename
  by (cases "kern_path demo_va [SLASH, 102] 0 demo_vfs";
      cases "kern_path demo_va [SLASH, 103] LOOKUP_PARENT (snd (kern_path demo_va [SLASH, 102] 0 demo_vfs))";
      cases "sys_rename demo_va [SLASH, 102] [SLASH, 103] demo_vfs")
     (simp add: demo_vfs_def dent_def)

end
