(* ===== verification/Net.thy ===== *)
theory Net
  imports Fifo
begin

text \<open>
  The network core, \<^verbatim>\<open>net/net_core.c\<close>: packet buffers, the Internet checksum, the address
  cache, sending of IP packets, the ring buffers, ports and the table of sockets.

  Pointers into a packet buffer are offsets from its \<^verbatim>\<open>head\<close>, and \<^verbatim>\<open>end\<close> is the length of its memory. Addresses
  of devices are in network order, as the code keeps them: the bytes in memory are the
  bytes of the address. Frames handed to the transmit function of a device are collected
  in \<open>n_tx\<close>; the result of the function is a parameter of the device. The loopback device, whose transmit
  function calls back into the receive path, is not modelled. Where the code
  writes through the null pointer that \<^verbatim>\<open>skb_put\<close> answers, the model answers \<open>None\<close>. While the code spins it
  polls: \<open>ws\<close> lists what interrupts do to the state between two polls.
\<close>

section \<open>State\<close>

abbreviation (input) ENODEV :: int where "ENODEV \<equiv> 19"
abbreviation (input) EADDRINUSE :: int where "EADDRINUSE \<equiv> 98"
abbreviation (input) ENETDOWN :: int where "ENETDOWN \<equiv> 100"
abbreviation (input) ECONNRESET :: int where "ECONNRESET \<equiv> 104"
abbreviation (input) EISCONN :: int where "EISCONN \<equiv> 106"
abbreviation (input) ENOTCONN :: int where "ENOTCONN \<equiv> 107"
abbreviation (input) ETIMEDOUT :: int where "ETIMEDOUT \<equiv> 110"
abbreviation (input) EHOSTUNREACH :: int where "EHOSTUNREACH \<equiv> 113"

abbreviation (input) IPPROTO_ICMP :: u8 where "IPPROTO_ICMP \<equiv> 1"
abbreviation (input) IPPROTO_TCP :: u8 where "IPPROTO_TCP \<equiv> 6"
abbreviation (input) IPPROTO_UDP :: u8 where "IPPROTO_UDP \<equiv> 17"

record sk_buff =
  sb_mem :: "u8 list"
  sb_data :: nat
  sb_tail :: nat
  sb_len :: u32
  sb_src_ip :: u32
  sb_dst_ip :: u32
  sb_src_port :: u16
  sb_dst_port :: u16
  sb_protocol :: u8

record net_device =
  nd_name :: "u8 list"
  nd_mac :: "u8 list"
  nd_ip4 :: u32
  nd_netmask :: u32
  nd_gateway :: u32
  nd_up :: bool
  nd_transmit :: "(u8 list \<Rightarrow> int) option"

record arp_entry =
  ar_ip :: u32
  ar_mac :: "u8 list"
  ar_valid :: bool

record sock_ringbuf =
  rb_buf :: "u8 list option"
  rb_size :: u32
  rb_head :: u32
  rb_tail :: u32
  rb_len :: u32

datatype tcp_state = TCP_CLOSED | TCP_LISTEN | TCP_SYN_SENT | TCP_SYN_RCVD | TCP_ESTABLISHED
  | TCP_FIN_WAIT1 | TCP_FIN_WAIT2 | TCP_CLOSE_WAIT | TCP_CLOSING | TCP_LAST_ACK | TCP_TIME_WAIT

record sock =
  sk_family :: u16
  sk_type :: int
  sk_protocol :: int
  sk_state :: tcp_state
  sk_err :: int
  sk_connected :: bool
  sk_listening :: bool
  sk_shutdown_rd :: bool
  sk_shutdown_wr :: bool
  sk_local_ip :: u32
  sk_local_port :: u16
  sk_remote_ip :: u32
  sk_remote_port :: u16
  sk_rcvbuf :: sock_ringbuf
  sk_sndbuf :: sock_ringbuf
  sk_rcvtimeo :: int
  sk_ttl :: int
  sk_backlog_max :: int
  sk_backlog_len :: int
  sk_accept_queue :: "nat list"
  sk_snd_seq :: u32
  sk_snd_una :: u32
  sk_snd_nxt :: u32
  sk_rcv_seq :: u32
  sk_rcv_nxt :: u32
  sk_rcv_wnd :: u32
  sk_refcount :: int

record net =
  n_devs :: "net_device list"
  n_arp :: "arp_entry list"
  n_ip_id :: u16
  n_next_port :: u16
  n_tcp_ports :: "nat \<Rightarrow> u64"
  n_udp_ports :: "nat \<Rightarrow> u64"
  n_table :: "nat option list"
  n_socks :: "nat \<rightharpoonup> sock"
  n_tx :: "(u8 list \<times> u8 list) list"
  n_jiffies :: u64

text \<open>Answers of the allocator: for a packet buffer, its separate data block, a socket, a ring and an entry of an
  accept queue.\<close>

record net_alloc =
  na_skb :: bool
  na_data :: "u32 \<Rightarrow> u8 list option"
  na_sock :: "(nat \<rightharpoonup> sock) \<Rightarrow> nat option"
  na_ring :: "u32 \<Rightarrow> u8 list option"
  na_entry :: bool

section \<open>Bytes\<close>

text \<open>How a value is stored in memory: \<open>le\<close> as it is, \<open>be\<close> after \<^verbatim>\<open>htons\<close> or \<^verbatim>\<open>htonl\<close>.\<close>

definition le16 :: "u16 \<Rightarrow> u8 list" where
  "le16 v = [ucast v, ucast (drop_bit 8 v)]"

definition le32 :: "u32 \<Rightarrow> u8 list" where
  "le32 v = [ucast v, ucast (drop_bit 8 v), ucast (drop_bit 16 v), ucast (drop_bit 24 v)]"

definition be16 :: "u16 \<Rightarrow> u8 list" where
  "be16 v = rev (le16 v)"

definition be32 :: "u32 \<Rightarrow> u8 list" where
  "be32 v = rev (le32 v)"

definition htons :: "u16 \<Rightarrow> u16" where
  "htons v = drop_bit 8 v OR push_bit 8 v"

definition htonl :: "u32 \<Rightarrow> u32" where
  "htonl v = (drop_bit 24 v AND 0xFF) OR push_bit 8 (drop_bit 16 v AND 0xFF)
     OR push_bit 16 (drop_bit 8 v AND 0xFF) OR push_bit 24 (v AND 0xFF)"

text \<open>Reading them back.\<close>

definition rd16 :: "u8 list \<Rightarrow> nat \<Rightarrow> u16" where
  "rd16 bs i = ucast (bs ! i) OR push_bit 8 (ucast (bs ! (i + 1)))"

definition rd32 :: "u8 list \<Rightarrow> nat \<Rightarrow> u32" where
  "rd32 bs i = ucast (bs ! i) OR push_bit 8 (ucast (bs ! (i + 1))) OR push_bit 16 (ucast (bs ! (i + 2)))
     OR push_bit 24 (ucast (bs ! (i + 3)))"

section \<open>Packet buffers\<close>

definition skb_alloc :: "net_alloc \<Rightarrow> u32 \<Rightarrow> sk_buff option" where
  "skb_alloc na sz =
     (if \<not> na_skb na then None
      else (case (if sz \<le> 2048 then Some (replicate (unat sz) 0) else na_data na sz) of
              None \<Rightarrow> None
            | Some mem \<Rightarrow> Some \<lparr>sb_mem = mem, sb_data = 0, sb_tail = 0, sb_len = 0, sb_src_ip = 0, sb_dst_ip = 0,
                           sb_src_port = 0, sb_dst_port = 0, sb_protocol = 0\<rparr>))"

text \<open>The offset answered and the buffer; \<open>None\<close> is the null pointer.\<close>

definition skb_put :: "u32 \<Rightarrow> sk_buff \<Rightarrow> (nat \<times> sk_buff) option" where
  "skb_put len b =
     (if length (sb_mem b) < sb_tail b + unat len then None
      else Some (sb_tail b, b\<lparr>sb_tail := sb_tail b + unat len, sb_len := sb_len b + len\<rparr>))"

definition skb_push :: "u32 \<Rightarrow> sk_buff \<Rightarrow> (nat \<times> sk_buff) option" where
  "skb_push len b =
     (if sb_data b < unat len then None
      else Some (sb_data b - unat len, b\<lparr>sb_data := sb_data b - unat len, sb_len := sb_len b + len\<rparr>))"

definition skb_pull :: "u32 \<Rightarrow> sk_buff \<Rightarrow> (nat \<times> sk_buff) option" where
  "skb_pull len b =
     (if sb_len b < len then None
      else Some (sb_data b + unat len, b\<lparr>sb_data := sb_data b + unat len, sb_len := sb_len b - len\<rparr>))"

definition skb_store :: "nat \<Rightarrow> u8 list \<Rightarrow> sk_buff \<Rightarrow> sk_buff" where
  "skb_store off bs b = b\<lparr>sb_mem := take off (sb_mem b) @ bs @ drop (off + length bs) (sb_mem b)\<rparr>"

definition skb_bytes :: "sk_buff \<Rightarrow> u8 list" where
  "skb_bytes b = take (unat (sb_len b)) (drop (sb_data b) (sb_mem b))"

section \<open>Devices\<close>

definition netdev_register :: "net_device option \<Rightarrow> net \<Rightarrow> net" where
  "netdev_register dev s = (case dev of None \<Rightarrow> s | Some d \<Rightarrow> s\<lparr>n_devs := d # n_devs s\<rparr>)"

fun netdev_get_by_name :: "u8 list \<Rightarrow> net_device list \<Rightarrow> net_device option" where
  "netdev_get_by_name nm [] = None"
| "netdev_get_by_name nm (d # ds) = (if nd_name d = nm then Some d else netdev_get_by_name nm ds)"

abbreviation (input) LO :: "u8 list" where "LO \<equiv> [108, 111]"

fun default_from :: "net_device option \<Rightarrow> net_device list \<Rightarrow> net_device option" where
  "default_from lo [] = lo"
| "default_from lo (d # ds) =
     (if nd_name d = LO then default_from (Some d) ds else if nd_up d then Some d else default_from lo ds)"

definition netdev_get_default :: "net \<Rightarrow> net_device option" where
  "netdev_get_default s = default_from None (n_devs s)"

text \<open>\<^verbatim>\<open>dev->transmit(dev, skb)\<close>.\<close>

definition transmit :: "net_device \<Rightarrow> sk_buff \<Rightarrow> net \<Rightarrow> int \<times> net" where
  "transmit dev b s =
     (case nd_transmit dev of None \<Rightarrow> (- ENODEV, s)
      | Some f \<Rightarrow> (f (skb_bytes b), s\<lparr>n_tx := n_tx s @ [(nd_name dev, skb_bytes b)]\<rparr>))"

section \<open>Checksum\<close>

fun sum_words :: "u8 list \<Rightarrow> u32 \<Rightarrow> u32" where
  "sum_words [] acc = acc"
| "sum_words [a] acc = acc + ucast a"
| "sum_words (a # b # bs) acc = sum_words bs (acc + (ucast a OR push_bit 8 (ucast b)))"

function fold_carry :: "u32 \<Rightarrow> u32" where
  "fold_carry x = (if drop_bit 16 x \<noteq> 0 then fold_carry ((x AND 0xFFFF) + drop_bit 16 x) else x)"
  by pat_completeness auto

text \<open>One folding step keeps the value modulo 65535 and makes it smaller.\<close>

lemma fold_step:
  fixes x :: u32
  assumes "drop_bit 16 x \<noteq> 0"
  shows "unat ((x AND 0xFFFF) + drop_bit 16 x) < unat x"
    and "unat ((x AND 0xFFFF) + drop_bit 16 x) mod 65535 = unat x mod 65535"
    and "0 < unat ((x AND 0xFFFF) + drop_bit 16 x)"
proof -
  let ?l = "unat x mod 65536" and ?h = "unat x div 65536"
  have m: "(0xFFFF :: u32) = mask 16" by (simp add: mask_eq_exp_minus_1)
  have l: "unat (x AND 0xFFFF) = ?l"
    unfolding m by (simp add: take_bit_eq_mask [symmetric] unsigned_take_bit_eq take_bit_eq_mod unat_mod)
  have h: "unat (drop_bit 16 x) = ?h" by (simp add: unsigned_drop_bit_eq drop_bit_eq_div unat_div)
  have "?h < 65536" using unsigned_less [of x, where ?'a = nat] by simp
  moreover have "?l < 65536" by simp
  ultimately have s: "unat ((x AND 0xFFFF) + drop_bit 16 x) = ?l + ?h"
    by (simp add: unat_word_ariths l h)
  have pos: "0 < ?h" using assms h by (metis gr0I unat_eq_zero)
  have x: "unat x = 65536 * ?h + ?l" by simp
  show "unat ((x AND 0xFFFF) + drop_bit 16 x) < unat x" unfolding s using pos x by linarith
  have "unat x = 65535 * ?h + (?l + ?h)" using x by linarith
  then show "unat ((x AND 0xFFFF) + drop_bit 16 x) mod 65535 = unat x mod 65535"
    unfolding s by (metis mod_mult_self4)
  show "0 < unat ((x AND 0xFFFF) + drop_bit 16 x)" unfolding s using pos by simp
qed

termination fold_carry
  by (relation "measure unat") (use fold_step(1) in auto)

declare fold_carry.simps [simp del]

definition ip_checksum :: "u8 list \<Rightarrow> u16" where
  "ip_checksum data = ucast (NOT (fold_carry (sum_words data 0)))"

definition tcp_udp_checksum :: "u32 \<Rightarrow> u32 \<Rightarrow> u8 \<Rightarrow> u8 list \<Rightarrow> u16" where
  "tcp_udp_checksum src_ip dst_ip proto payload =
     ucast (NOT (fold_carry (sum_words payload
       (sum_words (le32 src_ip @ le32 dst_ip @ [0, proto] @ be16 (word_of_nat (length payload))) 0))))"

section \<open>Address resolution\<close>

definition arp_set :: "u32 \<Rightarrow> u8 list \<Rightarrow> arp_entry" where
  "arp_set ip mac = \<lparr>ar_ip = ip, ar_mac = mac, ar_valid = True\<rparr>"

fun arp_slot :: "u32 \<Rightarrow> arp_entry list \<Rightarrow> nat option" where
  "arp_slot ip [] = None"
| "arp_slot ip (e # es) =
     (if ar_ip e = ip \<or> \<not> ar_valid e then Some 0 else map_option Suc (arp_slot ip es))"

definition arp_cache_insert :: "u32 \<Rightarrow> u8 list \<Rightarrow> net \<Rightarrow> net" where
  "arp_cache_insert ip mac s =
     s\<lparr>n_arp := (n_arp s)[(case arp_slot ip (n_arp s) of None \<Rightarrow> 0 | Some i \<Rightarrow> i) := arp_set ip mac]\<rparr>"

fun arp_find :: "u32 \<Rightarrow> arp_entry list \<Rightarrow> u8 list option" where
  "arp_find ip [] = None"
| "arp_find ip (e # es) = (if ar_valid e \<and> ar_ip e = ip then Some (ar_mac e) else arp_find ip es)"

fun arp_poll :: "(net \<Rightarrow> net) list \<Rightarrow> u32 \<Rightarrow> net \<Rightarrow> u8 list option \<times> net" where
  "arp_poll [] ip s = (None, s)"
| "arp_poll (w # ws) ip s =
     (case arp_find ip (n_arp s) of Some mac \<Rightarrow> (Some mac, s) | None \<Rightarrow> arp_poll ws ip (w s))"

text \<open>An Ethernet header and an ARP packet.\<close>

definition eth_hdr :: "u8 list \<Rightarrow> u8 list \<Rightarrow> u16 \<Rightarrow> u8 list" where
  "eth_hdr dst src ethertype = dst @ src @ be16 ethertype"

definition arp_pkt :: "u16 \<Rightarrow> u8 list \<Rightarrow> u32 \<Rightarrow> u8 list \<Rightarrow> u32 \<Rightarrow> u8 list" where
  "arp_pkt op smac sip tmac tip = be16 1 @ be16 0x0800 @ [6, 4] @ be16 op @ smac @ le32 sip @ tmac @ le32 tip"

text \<open>Two headers put into a new buffer one after the other.\<close>

definition two_headers :: "net_alloc \<Rightarrow> u8 list \<Rightarrow> u8 list \<Rightarrow> sk_buff option" where
  "two_headers na h1 h2 =
     (case skb_alloc na 42 of None \<Rightarrow> None
      | Some b \<Rightarrow>
          (case skb_put 14 b of None \<Rightarrow> None
           | Some (p, b1) \<Rightarrow>
               (case skb_put 28 (skb_store p h1 b1) of None \<Rightarrow> None | Some (q, b2) \<Rightarrow> Some (skb_store q h2 b2))))"

definition arp_send_request :: "net_alloc \<Rightarrow> net_device \<Rightarrow> u32 \<Rightarrow> net \<Rightarrow> int \<times> net" where
  "arp_send_request na dev target_ip s =
     (if nd_transmit dev = None then (- ENODEV, s)
      else (case two_headers na (eth_hdr (replicate 6 0xFF) (nd_mac dev) 0x0806)
                   (arp_pkt 1 (nd_mac dev) (nd_ip4 dev) (replicate 6 0) target_ip) of
              None \<Rightarrow> (- ENOMEM, s)
            | Some b \<Rightarrow> (0, snd (transmit dev b s))))"

text \<open>The error number, or the address found.\<close>

definition arp_resolve :: "net_alloc \<Rightarrow> (net \<Rightarrow> net) list \<Rightarrow> net_device \<Rightarrow> u32 \<Rightarrow> net \<Rightarrow> (int + u8 list) \<times> net" where
  "arp_resolve na ws dev ip s =
     (if ip AND 0xFF = 0x7F then (Inr (replicate 6 0), s)
      else (case arp_find ip (n_arp s) of Some mac \<Rightarrow> (Inr mac, s)
            | None \<Rightarrow>
                (case arp_poll ws ip (snd (arp_send_request na dev ip s)) of
                   (None, s1) \<Rightarrow> (Inl (- EHOSTUNREACH), s1) | (Some mac, s1) \<Rightarrow> (Inr mac, s1))))"

definition arp_receive :: "net_alloc \<Rightarrow> net_device \<Rightarrow> sk_buff \<Rightarrow> net \<Rightarrow> net" where
  "arp_receive na dev b s =
     (if sb_len b < 28 then s
      else
        let p = skb_bytes b; smac = take 6 (drop 8 p); sip = rd32 p 14; tip = rd32 p 24;
            s1 = arp_cache_insert sip smac s
        in if htons (rd16 p 6) = 1 \<and> tip = nd_ip4 dev
           then (case two_headers na (eth_hdr smac (nd_mac dev) 0x0806) (arp_pkt 2 (nd_mac dev) (nd_ip4 dev) smac sip) of
                   None \<Rightarrow> s1 | Some r \<Rightarrow> snd (transmit dev r s1))
           else s1)"

section \<open>Sending IP packets\<close>

definition ip_hdr :: "u16 \<Rightarrow> u16 \<Rightarrow> u8 \<Rightarrow> u16 \<Rightarrow> u32 \<Rightarrow> u32 \<Rightarrow> u8 list" where
  "ip_hdr tot_len ident proto checksum src dst =
     [0x45, 0] @ be16 tot_len @ be16 ident @ [0, 0, 64, proto] @ le16 checksum @ le32 src @ le32 dst"

text \<open>The return value, the buffer, which the caller releases, and the state.\<close>

definition ip_send ::
  "net_alloc \<Rightarrow> (net \<Rightarrow> net) list \<Rightarrow> net_device option \<Rightarrow> u32 \<Rightarrow> u8 \<Rightarrow> sk_buff \<Rightarrow> net \<Rightarrow> int \<times> sk_buff \<times> net" where
  "ip_send na ws dev0 dst_ip proto b s =
     (case (case dev0 of Some d \<Rightarrow> Some d | None \<Rightarrow> netdev_get_default s) of
        None \<Rightarrow> (- ENETDOWN, b, s)
      | Some dev \<Rightarrow>
          (case skb_push 20 b of None \<Rightarrow> (- ENOMEM, b, s)
           | Some (p, b1) \<Rightarrow>
               let hdr = (\<lambda>c. ip_hdr (ucast (sb_len b1)) (n_ip_id s) proto c (nd_ip4 dev) dst_ip);
                   b2 = skb_store p (hdr (ip_checksum (hdr 0))) b1;
                   s1 = s\<lparr>n_ip_id := n_ip_id s + 1\<rparr>
               in (case skb_push 14 b2 of None \<Rightarrow> (- ENOMEM, b2, s1)
                   | Some (q, b3) \<Rightarrow>
                       let nexthop = (if dst_ip AND nd_netmask dev \<noteq> nd_ip4 dev AND nd_netmask dev then nd_gateway dev else dst_ip)
                       in (case arp_resolve na ws dev nexthop s1 of
                             (r, s2) \<Rightarrow>
                               let mac = (case r of Inl _ \<Rightarrow> replicate 6 0xFF | Inr m \<Rightarrow> m);
                                   b4 = skb_store q (eth_hdr mac (nd_mac dev) 0x0800) b3
                               in (case transmit dev b4 s2 of (n, s3) \<Rightarrow> (n, b4, s3))))))"

section \<open>Ring buffers of sockets\<close>

definition sock_ringbuf_init :: "net_alloc \<Rightarrow> u32 \<Rightarrow> sock_ringbuf \<Rightarrow> int \<times> sock_ringbuf" where
  "sock_ringbuf_init na sz rb =
     (case na_ring na sz of None \<Rightarrow> (- ENOMEM, rb\<lparr>rb_buf := None\<rparr>)
      | Some d \<Rightarrow> (0, rb\<lparr>rb_buf := Some d, rb_size := sz, rb_head := 0, rb_tail := 0, rb_len := 0\<rparr>))"

definition rb_store :: "u8 \<Rightarrow> sock_ringbuf \<Rightarrow> sock_ringbuf" where
  "rb_store c rb = rb\<lparr>rb_buf := map_option (\<lambda>d. d[unat (rb_tail rb) := c]) (rb_buf rb),
                     rb_tail := (rb_tail rb + 1) mod rb_size rb\<rparr>"

definition sock_ringbuf_write :: "sock_ringbuf \<Rightarrow> u8 list \<Rightarrow> int \<times> sock_ringbuf" where
  "sock_ringbuf_write rb data =
     (let space = rb_size rb - rb_len rb;
          len = (if space < word_of_nat (length data) then space else word_of_nat (length data));
          rb1 = fold rb_store (take (unat len) data) rb
      in (uint len, rb1\<lparr>rb_len := rb_len rb1 + len\<rparr>))"

text \<open>The bytes copied out, their number being the return value.\<close>

definition sock_ringbuf_read :: "sock_ringbuf \<Rightarrow> u32 \<Rightarrow> bool \<Rightarrow> u8 list \<times> sock_ringbuf" where
  "sock_ringbuf_read rb len0 peek =
     (if rb_len rb = 0 then ([], rb)
      else
        let len = (if rb_len rb < len0 then rb_len rb else len0);
            out = map (\<lambda>i. (case rb_buf rb of None \<Rightarrow> 0 | Some d \<Rightarrow> d ! unat ((rb_head rb + word_of_nat i) mod rb_size rb)))
                    [0..<unat len]
        in (out, if peek then rb
                 else rb\<lparr>rb_head := (rb_head rb + len) mod rb_size rb, rb_len := rb_len rb - len\<rparr>))"

definition ring_zero :: sock_ringbuf where
  "ring_zero = \<lparr>rb_buf = None, rb_size = 0, rb_head = 0, rb_tail = 0, rb_len = 0\<rparr>"

definition sk_zero :: sock where
  "sk_zero = \<lparr>sk_family = 0, sk_type = 0, sk_protocol = 0, sk_state = TCP_CLOSED, sk_err = 0, sk_connected = False,
     sk_listening = False, sk_shutdown_rd = False, sk_shutdown_wr = False, sk_local_ip = 0, sk_local_port = 0,
     sk_remote_ip = 0, sk_remote_port = 0, sk_rcvbuf = ring_zero, sk_sndbuf = ring_zero, sk_rcvtimeo = 0, sk_ttl = 0,
     sk_backlog_max = 0, sk_backlog_len = 0, sk_accept_queue = [], sk_snd_seq = 0, sk_snd_una = 0, sk_snd_nxt = 0,
     sk_rcv_seq = 0, sk_rcv_nxt = 0, sk_rcv_wnd = 0, sk_refcount = 0\<rparr>"

definition sk_alloc :: "net_alloc \<Rightarrow> u16 \<Rightarrow> int \<Rightarrow> int \<Rightarrow> net \<Rightarrow> nat option \<times> net" where
  "sk_alloc na family type protocol s =
     (case na_sock na (n_socks s) of None \<Rightarrow> (None, s)
      | Some a \<Rightarrow>
          (Some a, s\<lparr>n_socks := (n_socks s)(a \<mapsto> sk_zero\<lparr>sk_family := family, sk_type := type, sk_protocol := protocol,
             sk_ttl := 64, sk_refcount := 1, sk_backlog_max := 128,
             sk_rcvbuf := snd (sock_ringbuf_init na 65536 ring_zero),
             sk_sndbuf := snd (sock_ringbuf_init na 65536 ring_zero)\<rparr>)\<rparr>))"

definition sk_free :: "nat option \<Rightarrow> net \<Rightarrow> net" where
  "sk_free sk s = (case sk of None \<Rightarrow> s | Some a \<Rightarrow> s\<lparr>n_socks := (n_socks s)(a := None)\<rparr>)"

section \<open>Ports\<close>

definition port_bit :: "(nat \<Rightarrow> u64) \<Rightarrow> u16 \<Rightarrow> bool" where
  "port_bit bm p \<longleftrightarrow> bm (unat p div 64) AND push_bit (unat p mod 64) 1 \<noteq> 0"

definition port_set :: "(nat \<Rightarrow> u64) \<Rightarrow> u16 \<Rightarrow> nat \<Rightarrow> u64" where
  "port_set bm p = bm(unat p div 64 := bm (unat p div 64) OR push_bit (unat p mod 64) 1)"

definition port_clear :: "(nat \<Rightarrow> u64) \<Rightarrow> u16 \<Rightarrow> nat \<Rightarrow> u64" where
  "port_clear bm p = bm(unat p div 64 := bm (unat p div 64) AND NOT (push_bit (unat p mod 64) 1))"

definition next_port :: "u16 \<Rightarrow> u16" where
  "next_port p = (if 60999 < p + 1 then 32768 else p + 1)"

fun alloc_port_loop :: "nat \<Rightarrow> net \<Rightarrow> u16 \<times> net" where
  "alloc_port_loop 0 s = (0, s)"
| "alloc_port_loop (Suc k) s =
     (let port = n_next_port s; s1 = s\<lparr>n_next_port := next_port port\<rparr> in
      if \<not> port_bit (n_tcp_ports s1) port
      then (port, s1\<lparr>n_tcp_ports := port_set (n_tcp_ports s1) port, n_udp_ports := port_set (n_udp_ports s1) port\<rparr>)
      else alloc_port_loop k s1)"

definition inet_alloc_port :: "net \<Rightarrow> u16 \<times> net" where
  "inet_alloc_port s = alloc_port_loop (60999 - 32768) s"

definition inet_free_port :: "u16 \<Rightarrow> net \<Rightarrow> net" where
  "inet_free_port port s =
     (if port = 0 then s
      else s\<lparr>n_tcp_ports := port_clear (n_tcp_ports s) port, n_udp_ports := port_clear (n_udp_ports s) port\<rparr>)"

section \<open>The table of sockets\<close>

fun first_empty :: "'a option list \<Rightarrow> nat option" where
  "first_empty [] = None"
| "first_empty (x # xs) = (if x = None then Some 0 else map_option Suc (first_empty xs))"

definition sock_table_insert :: "nat \<Rightarrow> net \<Rightarrow> net" where
  "sock_table_insert a s =
     (case first_empty (n_table s) of None \<Rightarrow> s | Some i \<Rightarrow> s\<lparr>n_table := (n_table s)[i := Some a]\<rparr>)"

fun first_eq :: "nat \<Rightarrow> nat option list \<Rightarrow> nat option" where
  "first_eq a [] = None"
| "first_eq a (x # xs) = (if x = Some a then Some 0 else map_option Suc (first_eq a xs))"

definition sock_table_remove :: "nat \<Rightarrow> net \<Rightarrow> net" where
  "sock_table_remove a s =
     (case first_eq a (n_table s) of None \<Rightarrow> s | Some i \<Rightarrow> s\<lparr>n_table := (n_table s)[i := None]\<rparr>)"

definition sock_matches :: "u8 \<Rightarrow> u32 \<Rightarrow> u16 \<Rightarrow> sock \<Rightarrow> bool" where
  "sock_matches proto dst_ip dst_port sk \<longleftrightarrow>
     word_of_int (sk_protocol sk) = proto \<and> sk_local_port sk = dst_port \<and> (sk_local_ip sk = 0 \<or> sk_local_ip sk = dst_ip)"

fun lookup_from :: "u8 \<Rightarrow> u32 \<Rightarrow> u16 \<Rightarrow> (nat \<rightharpoonup> sock) \<Rightarrow> nat option list \<Rightarrow> nat option" where
  "lookup_from proto dst_ip dst_port socks [] = None"
| "lookup_from proto dst_ip dst_port socks (x # xs) =
     (case x of None \<Rightarrow> lookup_from proto dst_ip dst_port socks xs
      | Some a \<Rightarrow>
          (case socks a of Some sk \<Rightarrow> if sock_matches proto dst_ip dst_port sk then Some a
                                       else lookup_from proto dst_ip dst_port socks xs
           | None \<Rightarrow> lookup_from proto dst_ip dst_port socks xs))"

definition inet_lookup :: "u8 \<Rightarrow> u32 \<Rightarrow> u16 \<Rightarrow> u32 \<Rightarrow> u16 \<Rightarrow> net \<Rightarrow> nat option" where
  "inet_lookup proto src_ip src_port dst_ip dst_port s = lookup_from proto dst_ip dst_port (n_socks s) (n_table s)"

definition net_init :: net where
  "net_init = \<lparr>n_devs = [], n_arp = replicate 16 \<lparr>ar_ip = 0, ar_mac = replicate 6 0, ar_valid = False\<rparr>, n_ip_id = 0x1234,
     n_next_port = 32768, n_tcp_ports = (\<lambda>_. 0), n_udp_ports = (\<lambda>_. 0), n_table = replicate 256 None, n_socks = Map.empty,
     n_tx = [], n_jiffies = 0\<rparr>"

end
