(* ===== verification/Net_Correct.thy ===== *)
theory Net_Correct
  imports Net
begin

text \<open>
  What the network core guarantees: the ring buffers of the sockets are queues (an instance of \<open>bounded_fifo\<close>,
  through the functions of the code), the Internet checksum detects the change of a word, the address cache
  answers what was put last, and the port allocator hands out free ports only.
\<close>

section \<open>The ring buffers of sockets\<close>

definition rb_contents :: "sock_ringbuf \<Rightarrow> u8 list" where
  "rb_contents rb = (case rb_buf rb of None \<Rightarrow> [] | Some d \<Rightarrow> ring_contents d (unat (rb_head rb)) (unat (rb_len rb)))"

definition rb_cap :: "sock_ringbuf \<Rightarrow> nat" where
  "rb_cap rb = unat (rb_size rb)"

definition rb_ok :: "sock_ringbuf \<Rightarrow> bool" where
  "rb_ok rb \<longleftrightarrow>
     (case rb_buf rb of None \<Rightarrow> rb_size rb = 0 \<and> rb_len rb = 0
      | Some d \<Rightarrow> length d = unat (rb_size rb) \<and> unat (rb_size rb) \<le> 2 ^ 30 \<and>
          ring_ok d (unat (rb_tail rb)) (unat (rb_head rb)) (unat (rb_len rb)))"

definition rb_put :: "sock_ringbuf \<Rightarrow> u8 \<Rightarrow> sock_ringbuf option" where
  "rb_put rb c = (case sock_ringbuf_write rb [c] of (n, rb') \<Rightarrow> if n = 0 then None else Some rb')"

definition rb_get :: "sock_ringbuf \<Rightarrow> (u8 \<times> sock_ringbuf) option" where
  "rb_get rb = (case sock_ringbuf_read rb 1 False of ([], _) \<Rightarrow> None | (c # _, rb') \<Rightarrow> Some (c, rb'))"

lemma rb_okD:
  assumes "rb_ok rb"
  shows "unat (rb_len rb) \<le> unat (rb_size rb)" "unat (rb_size rb) \<le> 2 ^ 30"
    "length (rb_contents rb) = unat (rb_len rb)"
  using assms by (auto simp: rb_ok_def ring_ok_def rb_contents_def split: option.splits)

lemma rb_room:
  assumes "rb_ok rb"
  shows "unat (rb_size rb - rb_len rb) = unat (rb_size rb) - unat (rb_len rb)"
  using rb_okD [OF assms] by (simp add: unat_sub word_le_nat_alt)

lemma unat_mod_add:
  fixes x y n :: u32
  assumes "unat x + unat y < 2 ^ 32"
  shows "unat ((x + y) mod n) = (unat x + unat y) mod unat n"
  using assms by (simp add: unat_mod unat_word_ariths)

lemma rb_put_eq:
  assumes "rb_ok rb"
  shows "rb_put rb c = (if rb_len rb = rb_size rb then None
     else Some (rb_store c rb\<lparr>rb_len := rb_len rb + 1\<rparr>))"
proof -
  have "rb_len rb = rb_size rb \<longleftrightarrow> rb_size rb - rb_len rb < 1"
    using rb_room [OF assms] rb_okD [OF assms] by (simp add: word_less_nat_alt word_unat_eq_iff) linarith
  then show ?thesis
    by (auto simp: rb_put_def sock_ringbuf_write_def Let_def rb_store_def)
qed

lemma rb_put_ok:
  assumes "rb_ok rb" "rb_put rb c = Some rb'"
  shows "rb_contents rb' = rb_contents rb @ [c]" "rb_ok rb'" "rb_size rb' = rb_size rb"
    "rb_len rb' = rb_len rb + 1" "rb_len rb < rb_size rb"
proof -
  from assms have ne: "rb_len rb \<noteq> rb_size rb" and rb': "rb' = rb_store c rb\<lparr>rb_len := rb_len rb + 1\<rparr>"
    by (auto simp: rb_put_eq split: if_splits)
  from ne rb_okD(1) [OF assms(1)] have lt: "unat (rb_len rb) < unat (rb_size rb)"
    by (simp add: word_unat_eq_iff)
  then show "rb_len rb < rb_size rb" by (simp add: word_less_nat_alt)
  obtain d where d: "rb_buf rb = Some d"
    using assms(1) ne by (auto simp: rb_ok_def split: option.splits)
  have k: "length d = unat (rb_size rb)" "unat (rb_size rb) \<le> 2 ^ 30"
      "ring_ok d (unat (rb_tail rb)) (unat (rb_head rb)) (unat (rb_len rb))"
    using assms(1) d by (auto simp: rb_ok_def)
  have len: "unat (rb_len rb + 1) = Suc (unat (rb_len rb))"
    using lt k(2) by (intro unat_Suc_word [of _ "unat (rb_size rb)"]) simp_all
  have tail: "unat ((rb_tail rb + 1) mod rb_size rb) = Suc (unat (rb_tail rb)) mod length d"
    using k ring_okD [OF k(3)] by (subst unat_mod_add) auto
  show "rb_contents rb' = rb_contents rb @ [c]"
    using d ring_store(1) [OF k(3)] lt k(1) by (simp add: rb_contents_def rb' rb_store_def len)
  show "rb_ok rb'"
    using d ring_store(2) [OF k(3)] lt k by (simp add: rb_ok_def rb' rb_store_def len tail)
  show "rb_size rb' = rb_size rb" "rb_len rb' = rb_len rb + 1" by (simp_all add: rb' rb_store_def)
qed

lemma rb_get_ok:
  assumes "rb_ok rb" "rb_get rb = Some (c, rb')"
  shows "rb_contents rb = c # rb_contents rb'" "rb_ok rb'" "rb_size rb' = rb_size rb"
    "rb_len rb' = rb_len rb - 1"
proof -
  have ne: "rb_len rb \<noteq> 0"
    using assms(2) by (auto simp: rb_get_def sock_ringbuf_read_def split: if_splits)
  then have nl: "\<not> rb_len rb < 1" by (simp add: word_less_nat_alt unat_gt_0)
  obtain d where d: "rb_buf rb = Some d"
    using assms(1) ne by (auto simp: rb_ok_def split: option.splits)
  have k: "length d = unat (rb_size rb)" "unat (rb_size rb) \<le> 2 ^ 30"
      "ring_ok d (unat (rb_tail rb)) (unat (rb_head rb)) (unat (rb_len rb))"
    using assms(1) d by (auto simp: rb_ok_def)
  have hd: "unat (rb_head rb mod rb_size rb) = unat (rb_head rb)"
    using ring_okD(2) [OF k(3)] k(1) by (simp add: unat_mod)
  have eq: "c = d ! unat (rb_head rb)" "rb' = rb\<lparr>rb_head := (rb_head rb + 1) mod rb_size rb, rb_len := rb_len rb - 1\<rparr>"
    using assms(2) ne nl d hd by (auto simp: rb_get_def sock_ringbuf_read_def Let_def)
  obtain n where n: "unat (rb_len rb) = Suc n" using ne by (metis not0_implies_Suc unat_eq_zero)
  have len: "unat (rb_len rb - 1) = n" using n by (simp add: unat_pred_word)
  have head: "unat ((rb_head rb + 1) mod rb_size rb) = Suc (unat (rb_head rb)) mod length d"
    using k ring_okD [OF k(3)] by (subst unat_mod_add) auto
  note f = ring_fetch [OF k(3) [unfolded n]]
  show "rb_contents rb = c # rb_contents rb'"
    using d f(1) by (simp add: rb_contents_def eq n len head)
  show "rb_ok rb'" using d f(2) k by (simp add: rb_ok_def eq len head)
  show "rb_size rb' = rb_size rb" "rb_len rb' = rb_len rb - 1" by (simp_all add: eq)
qed

text \<open>Fetching stops when the queue is empty, so asking for more changes nothing.\<close>

context bounded_fifo
begin

lemma get_some_min:
  "inv b \<Longrightarrow> get_some get b n = get_some get b (min n (length (contents b)))"
proof (induction n arbitrary: b)
  case (Suc n)
  show ?case
  proof (cases "get b")
    case None
    then show ?thesis using Suc.prems get_empty [of b] by simp
  next
    case (Some p)
    obtain x b1 where p: "p = (x, b1)" by (cases p)
    then show ?thesis
      using Suc.IH [of b1] Suc.prems Some get_contents [of b x b1] get_inv [of b x b1] by simp
  qed
qed simp

end

interpretation sr: bounded_fifo rb_put rb_get rb_contents rb_cap rb_ok
proof
  fix b x assume i: "rb_ok b"
  show "length (rb_contents b) \<le> rb_cap b" using rb_okD [OF i] by (simp add: rb_cap_def)
  show "(rb_put b x = None) = (length (rb_contents b) = rb_cap b)"
    using rb_okD [OF i] by (simp add: rb_put_eq [OF i] rb_cap_def word_unat_eq_iff)
  have "rb_get b = None \<longleftrightarrow> rb_len b = 0"
    by (auto simp: rb_get_def sock_ringbuf_read_def Let_def word_less_nat_alt unat_gt_0 upt_rec split: list.splits if_splits)
  then show "(rb_get b = None) = (rb_contents b = [])"
    using rb_okD(3) [OF i] by (metis length_0_conv unat_eq_zero)
next
  fix b x b' assume i: "rb_ok b" and p: "rb_put b x = Some b'"
  show "rb_contents b' = rb_contents b @ [x]" "rb_ok b' \<and> rb_cap b' = rb_cap b"
    using rb_put_ok [OF i p] by (simp_all add: rb_cap_def)
next
  fix b x b' assume i: "rb_ok b" and g: "rb_get b = Some (x, b')"
  show "rb_contents b = x # rb_contents b'" "rb_ok b' \<and> rb_cap b' = rb_cap b"
    using rb_get_ok [OF i g] by (simp_all add: rb_cap_def)
qed

text \<open>The two loops of the code are the bulk transfers of the interface.\<close>

lemma store_len: "rb_store c (rb\<lparr>rb_len := n\<rparr>) = (rb_store c rb)\<lparr>rb_len := n\<rparr>"
  by (cases rb) (simp add: rb_store_def)

lemma fold_store_len [simp]:
  "fold rb_store cs (rb\<lparr>rb_len := n\<rparr>) = (fold rb_store cs rb)\<lparr>rb_len := n\<rparr>"
  by (induction cs arbitrary: rb) (simp_all add: store_len)

lemma rb_len_fold_store [simp]: "rb_len (fold rb_store cs rb) = rb_len rb"
  by (induction cs arbitrary: rb) (simp_all add: rb_store_def)

lemma rb_size_fold_store [simp]: "rb_size (fold rb_store cs rb) = rb_size rb"
  by (induction cs arbitrary: rb) (simp_all add: rb_store_def)

lemma write_is_put_some:
  assumes "rb_ok rb" "length data < 2 ^ 32"
  shows "sock_ringbuf_write rb data = (case put_some rb_put rb data of (n, rb') \<Rightarrow> (int n, rb'))"
  using assms
proof (induction data arbitrary: rb)
  case Nil
  then show ?case by (simp add: sock_ringbuf_write_def)
next
  case (Cons x xs)
  show ?case
  proof (cases "rb_put rb x")
    case None
    then have "rb_len rb = rb_size rb" using Cons.prems by (simp add: rb_put_eq split: if_splits)
    moreover have "0 < (word_of_nat (Suc (length xs)) :: u32)"
      using Cons.prems(2) by (simp add: word_less_nat_alt unat_of_nat del: of_nat_Suc)
    ultimately show ?thesis using None by (simp add: sock_ringbuf_write_def del: of_nat_Suc)
  next
    case (Some rb1)
    note ok = rb_put_ok [OF Cons.prems(1) Some]
    have rb1: "rb1 = rb_store x rb\<lparr>rb_len := rb_len rb + 1\<rparr>"
      using Some Cons.prems(1) by (simp add: rb_put_eq split: if_splits)
    define sp where "sp = rb_size rb - rb_len rb"
    define L where "L = (if sp < word_of_nat (Suc (length xs)) then sp else word_of_nat (Suc (length xs)))"
    define L1 where "L1 = (if sp - 1 < word_of_nat (length xs) then sp - 1 else word_of_nat (length xs))"
    have sp: "0 < unat sp" using ok(5) rb_room [OF Cons.prems(1)] by (simp add: sp_def word_less_nat_alt)
    have u: "unat (word_of_nat (Suc (length xs)) :: u32) = Suc (length xs)"
      "unat (word_of_nat (length xs) :: u32) = length xs"
      using Cons.prems(2) by (simp_all add: unat_of_nat del: of_nat_Suc)
    have L: "unat L = Suc (unat L1)" "L = L1 + 1"
      using sp u by (auto simp: L_def L1_def word_less_nat_alt unat_pred_word simp del: of_nat_Suc) simp
    have w: "sock_ringbuf_write rb (x # xs) =
        (uint L, (fold rb_store (take (unat L) (x # xs)) rb)\<lparr>rb_len := rb_len rb + L\<rparr>)"
      by (simp add: sock_ringbuf_write_def L_def sp_def Let_def del: of_nat_Suc)
    have w1: "sock_ringbuf_write rb1 xs =
        (uint L1, (fold rb_store (take (unat L1) xs) (rb_store x rb))\<lparr>rb_len := rb_len rb + L\<rparr>)"
    proof -
      have "rb_size rb1 - rb_len rb1 = sp - 1" using ok(3,4) by (simp add: sp_def)
      then have "sock_ringbuf_write rb1 xs =
          (uint L1, (fold rb_store (take (unat L1) xs) rb1)\<lparr>rb_len := rb_len rb1 + L1\<rparr>)"
        by (simp add: sock_ringbuf_write_def L1_def Let_def)
      moreover have "rb_len rb1 + L1 = rb_len rb + L" by (simp add: ok(4) L(2))
      moreover have "fold rb_store (take (unat L1) xs) rb1 =
          (fold rb_store (take (unat L1) xs) (rb_store x rb))\<lparr>rb_len := rb_len rb + 1\<rparr>"
        by (simp add: rb1)
      ultimately show ?thesis by simp
    qed
    have uL: "uint L = int (Suc (unat L1))" using L(1) by (metis uint_nat)
    have uL1: "uint L1 = int (unat L1)" by (rule uint_nat)
    obtain n rb2 where p: "put_some rb_put rb1 xs = (n, rb2)" by (cases "put_some rb_put rb1 xs")
    have "sock_ringbuf_write rb1 xs = (int n, rb2)" using Cons.IH [OF ok(2)] Cons.prems(2) p by simp
    then have n: "n = unat L1" and r: "(fold rb_store (take (unat L1) xs) (rb_store x rb))\<lparr>rb_len := rb_len rb + L\<rparr> = rb2"
      unfolding w1 prod.inject uL1 of_nat_eq_iff by blast+
    show ?thesis unfolding w L(1) uL using r by (simp add: Some p n)
  qed
qed


lemma get_some_loop:
  assumes "rb_ok rb" "m \<le> unat (rb_len rb)"
  shows "get_some rb_get rb m =
     (map (\<lambda>i. (case rb_buf rb of None \<Rightarrow> 0 | Some d \<Rightarrow> d ! unat ((rb_head rb + word_of_nat i) mod rb_size rb))) [0..<m],
      rb\<lparr>rb_head := (rb_head rb + word_of_nat m) mod rb_size rb, rb_len := rb_len rb - word_of_nat m\<rparr>)"
  using assms
proof (induction m arbitrary: rb)
  case 0
  have "rb_head rb mod rb_size rb = rb_head rb"
    using 0(1) by (auto simp: rb_ok_def ring_ok_def word_unat_eq_iff unat_mod split: option.splits)
  then show ?case by simp
next
  case (Suc m)
  obtain c rb1 where g: "rb_get rb = Some (c, rb1)"
    using Suc.prems sr.get_empty [OF Suc.prems(1)] rb_okD(3) [OF Suc.prems(1)] by (cases "rb_get rb") force+
  note ok = rb_get_ok [OF Suc.prems(1) g]
  have m: "m \<le> unat (rb_len rb1)" using Suc.prems(2) ok(4) by (simp add: unat_pred_word)
  obtain d where d: "rb_buf rb = Some d" "unat (rb_len rb) \<le> length d" "length d = unat (rb_size rb)"
      "unat (rb_head rb) < length d" "length d \<le> 2 ^ 30"
    using Suc.prems by (auto simp: rb_ok_def ring_ok_def split: option.splits)
  have e: "((rb_head rb + 1) mod rb_size rb + word_of_nat i) mod rb_size rb = (rb_head rb + word_of_nat (Suc i)) mod rb_size rb"
    if "i \<le> m" for i
  proof (rule word_unat_eq_iff [THEN iffD2])
    have i: "unat (word_of_nat i :: u32) = i" "unat (word_of_nat (Suc i) :: u32) = Suc i"
      using that Suc.prems(2) d by (simp_all add: unat_of_nat del: of_nat_Suc)
    have h: "unat ((rb_head rb + 1) mod rb_size rb) = Suc (unat (rb_head rb)) mod length d"
      using d by (subst unat_mod_add) auto
    have "Suc (unat (rb_head rb)) mod length d < length d" using d by (intro mod_less_divisor) auto
    then have "unat ((rb_head rb + 1) mod rb_size rb) + unat (word_of_nat i :: u32) < 2 ^ 32"
      unfolding h i(1) using d(2,3,5) that Suc.prems(2) by (simp del: mod_less_divisor)
    then have "unat (((rb_head rb + 1) mod rb_size rb + word_of_nat i) mod rb_size rb) =
        (Suc (unat (rb_head rb)) mod length d + i) mod length d"
      by (simp only: unat_mod_add h i(1) d(3))
    also have "\<dots> = (unat (rb_head rb) + Suc i) mod length d" by (simp add: mod_add_left_eq)
    also have "\<dots> = unat ((rb_head rb + word_of_nat (Suc i)) mod rb_size rb)"
      using d that i Suc.prems(2) by (subst unat_mod_add) (auto simp del: of_nat_Suc)
    finally show "unat (((rb_head rb + 1) mod rb_size rb + word_of_nat i) mod rb_size rb) =
        unat ((rb_head rb + word_of_nat (Suc i)) mod rb_size rb)" .
  qed
  have rb1: "c = d ! unat (rb_head rb mod rb_size rb)"
      "rb1 = rb\<lparr>rb_head := (rb_head rb + 1) mod rb_size rb, rb_len := rb_len rb - 1\<rparr>"
    using g d Suc.prems(2)
    by (auto simp: rb_get_def sock_ringbuf_read_def Let_def split: if_splits)
  have l: "rb_len rb - 1 - word_of_nat m = rb_len rb - word_of_nat (Suc m)" by simp
  show ?case
    unfolding get_some.simps g option.case prod.case Suc.IH [OF ok(2) m]
    using e d(1) rb1 by (simp add: upt_conv_Cons map_Suc_upt [symmetric] l del: upt_Suc of_nat_Suc)
qed

lemma read_is_get_some:
  assumes "rb_ok rb"
  shows "sock_ringbuf_read rb n False = get_some rb_get rb (unat n)"
proof -
  let ?m = "min (unat n) (unat (rb_len rb))"
  have "get_some rb_get rb (unat n) = get_some rb_get rb ?m"
    using sr.get_some_min [OF assms] rb_okD(3) [OF assms] by simp
  moreover have "(if rb_len rb < n then rb_len rb else n) = word_of_nat ?m"
    by (auto simp: word_less_nat_alt min_def)
  moreover have "?m = unat (word_of_nat ?m :: u32)"
    by (simp add: min_def)
  moreover have "get_some rb_get rb ?m = ([], rb)" if "rb_len rb = 0" using that by simp
  ultimately show ?thesis
    using get_some_loop [OF assms, of ?m] by (auto simp: sock_ringbuf_read_def Let_def)
qed

section \<open>The checksum\<close>

text \<open>The sum of the 16-bit words of a message, as a number.\<close>

fun word_sum :: "u8 list \<Rightarrow> nat" where
  "word_sum [] = 0"
| "word_sum [a] = unat a"
| "word_sum (a # b # bs) = unat a + 256 * unat b + word_sum bs"

lemma unat_ucast_8_32 [simp]: "unat (ucast (a::u8) :: u32) = unat a"
  using unsigned_less [of a, where ?'a = nat] by (simp add: unsigned_ucast_eq take_bit_nat_eq_self)

lemma unat_pair: "unat (ucast (a::u8) OR push_bit 8 (ucast (b::u8)) :: u32) = unat a + 256 * unat b"
proof -
  have d: "ucast a AND push_bit 8 (ucast b) = (0 :: u32)"
    by (rule bit_eqI) (auto simp: bit_simps dest: bit_imp_le_length)
  have "ucast a OR push_bit 8 (ucast b) = (ucast a + push_bit 8 (ucast b) :: u32)"
    using d by (metis word_plus_and_or add.left_neutral add_0)
  moreover have "unat (push_bit 8 (ucast b) :: u32) = 256 * unat b"
    using unsigned_less [of b, where ?'a = nat]
    by (simp add: push_bit_eq_mult unat_word_ariths)
  ultimately show ?thesis
    using unsigned_less [of a, where ?'a = nat] unsigned_less [of b, where ?'a = nat]
    by (simp add: unat_word_ariths)
qed

lemma word_sum_le: "word_sum bs \<le> 65535 * ((length bs + 1) div 2)"
proof (induction bs rule: word_sum.induct)
  case (2 a)
  then show ?case using unsigned_less [of a, where ?'a = nat] by simp
next
  case (3 a b bs)
  then show ?case
    using unsigned_less [of a, where ?'a = nat] unsigned_less [of b, where ?'a = nat] by simp
qed simp

lemma word_sum_append:
  "even (length xs) \<Longrightarrow> word_sum (xs @ ys) = word_sum xs + word_sum ys"
  by (induction xs rule: word_sum.induct) auto

lemma sum_words_eq:
  assumes "unat acc + word_sum bs < 2 ^ 32"
  shows "unat (sum_words bs acc) = unat acc + word_sum bs"
  using assms
proof (induction bs acc rule: sum_words.induct)
  case (2 a acc)
  then show ?case by (simp add: unat_word_ariths)
next
  case (3 a b bs acc)
  have "unat (acc + (ucast a OR push_bit 8 (ucast b))) = unat acc + (unat a + 256 * unat b)"
    using 3(2) by (simp add: unat_word_ariths unat_pair)
  then show ?case using 3 by simp
qed simp

text \<open>Folding the carries keeps the value modulo 65535, and only zero becomes zero.\<close>

lemma fold_carry_spec:
  "unat (fold_carry x) < 65536 \<and> unat (fold_carry x) mod 65535 = unat x mod 65535 \<and> (fold_carry x = 0 \<longleftrightarrow> x = 0)"
proof (induction x rule: fold_carry.induct)
  case (1 x)
  show ?case
  proof (cases "drop_bit 16 x = 0")
    case True
    then have "unat x div 65536 = 0" by (simp add: unsigned_drop_bit_eq drop_bit_eq_div unat_div flip: unat_eq_zero)
    then have "unat x < 65536" by (simp add: div_eq_0_iff)
    then show ?thesis using True by (simp add: fold_carry.simps [of x])
  next
    case False
    note st = fold_step [OF False]
    have "x \<noteq> 0" using st(1) by auto
    moreover have "(x AND 0xFFFF) + drop_bit 16 x \<noteq> 0" using st(3) by (metis less_irrefl unsigned_0)
    moreover have e: "fold_carry x = fold_carry ((x AND 0xFFFF) + drop_bit 16 x)"
      using False by (subst fold_carry.simps) simp
    ultimately show ?thesis using 1 [OF False] unfolding e st(2) by blast
  qed
qed

lemma checksum_inj:
  fixes x y :: u32
  assumes "unat x < 65536" "unat y < 65536" "(ucast (NOT x) :: u16) = ucast (NOT y)"
  shows "x = y"
proof (rule bit_eqI)
  fix n assume n: "possible_bit TYPE(u32) n"
  have hi: "\<not> bit z n" if "unat z < 65536" "16 \<le> n" for z :: u32
  proof
    assume "bit z n"
    then have "bit (unat z) n" by (simp add: bit_unsigned_iff)
    then have "unat z div 2 ^ n \<noteq> 0" by (metis bit_iff_odd even_zero)
    then have "2 ^ n \<le> unat z" by (metis div_less not_le)
    moreover have "(2::nat) ^ 16 \<le> 2 ^ n" using that(2) by (rule power_increasing) simp
    ultimately show False using that(1) by simp
  qed
  show "bit x n = bit y n"
  proof (cases "n < 16")
    case True
    have "bit (ucast (NOT x) :: u16) n = bit (ucast (NOT y) :: u16) n" using assms(3) by simp
    then show ?thesis using True by (simp add: bit_simps)
  next
    case False
    then show ?thesis using hi [OF assms(1)] hi [OF assms(2)] by simp
  qed
qed

lemma ip_checksum_eqD:
  assumes "length xs \<le> 2 ^ 17" "length ys \<le> 2 ^ 17" "ip_checksum xs = ip_checksum ys"
  shows "word_sum xs mod 65535 = word_sum ys mod 65535"
proof -
  have s: "unat (sum_words bs 0) = word_sum bs" if "length bs \<le> 2 ^ 17" for bs
  proof -
    have "(length bs + 1) div 2 \<le> 2 ^ 16" using that by simp
    then have "word_sum bs \<le> 65535 * 2 ^ 16" using word_sum_le [of bs] by (meson le_trans mult_le_mono2)
    then show ?thesis by (subst sum_words_eq) auto
  qed
  have "fold_carry (sum_words xs 0) = fold_carry (sum_words ys 0)"
    using assms(3) fold_carry_spec by (intro checksum_inj) (auto simp: ip_checksum_def)
  then show ?thesis using fold_carry_spec s assms(1,2) by metis
qed

lemma word_mod_cases:
  fixes v w :: nat
  assumes "v \<le> 65535" "w \<le> 65535" "v mod 65535 = w mod 65535"
  shows "v = w \<or> v = 0 \<and> w = 65535 \<or> v = 65535 \<and> w = 0"
  using assms by (cases "v = 65535"; cases "w = 65535") auto

lemma byte_pair:
  fixes a b c d :: nat
  assumes "a + 256 * b = c + 256 * d" "a < 256" "c < 256"
  shows "a = c \<and> b = d"
proof -
  have "(a + 256 * b) mod 256 = a" "(c + 256 * d) mod 256 = c" using assms(2,3) by simp_all
  then have "a = c" using assms(1) by metis
  then show ?thesis using assms(1) by simp
qed

lemma mod_add_cancel:
  fixes a b c n :: nat
  assumes "(a + b) mod n = (a + c) mod n"
  shows "b mod n = c mod n"
  using assms by (simp add: nat_mod_eq_iff)

lemma ip_checksum_word_detected:
  assumes "even (length xs)" "length xs + length ys + 2 \<le> 2 ^ 17"
    and "ip_checksum (xs @ [a, b] @ ys) = ip_checksum (xs @ [c, d] @ ys)"
  shows "a = c \<and> b = d \<or> {(a, b), (c, d)} = {(0, 0), (255, 255)}"
proof -
  let ?v = "unat a + 256 * unat b" and ?w = "unat c + 256 * unat d"
  note lt = unsigned_less [of a, where ?'a = nat] unsigned_less [of b, where ?'a = nat]
    unsigned_less [of c, where ?'a = nat] unsigned_less [of d, where ?'a = nat]
  have "(word_sum xs + word_sum ys + ?v) mod 65535 = (word_sum xs + word_sum ys + ?w) mod 65535"
    using ip_checksum_eqD [OF _ _ assms(3)] assms(1,2) by (simp add: word_sum_append ac_simps)
  then have "?v mod 65535 = ?w mod 65535" by (rule mod_add_cancel)
  then have "?v = ?w \<or> ?v = 0 \<and> ?w = 65535 \<or> ?v = 65535 \<and> ?w = 0"
    using lt by (intro word_mod_cases) auto
  then show ?thesis
  proof (elim disjE)
    assume "?v = ?w"
    then have "unat a = unat c \<and> unat b = unat d" using lt by (intro byte_pair) auto
    then show ?thesis by (simp add: word_unat_eq_iff)
  next
    assume "?v = 0 \<and> ?w = 65535"
    then have "unat a = 0 \<and> unat b = 0 \<and> unat c = 255 \<and> unat d = 255"
      using lt byte_pair [of "unat c" "unat d" 255 255] by simp
    then show ?thesis by (simp add: word_unat_eq_iff doubleton_eq_iff)
  next
    assume "?v = 65535 \<and> ?w = 0"
    then have "unat a = 255 \<and> unat b = 255 \<and> unat c = 0 \<and> unat d = 0"
      using lt byte_pair [of "unat a" "unat b" 255 255] by simp
    then show ?thesis by (simp add: word_unat_eq_iff doubleton_eq_iff)
  qed
qed

section \<open>The address cache\<close>

lemma arp_slot_bound: "arp_slot ip es = Some i \<Longrightarrow> i < length es"
  by (induction es arbitrary: i) (auto split: if_splits)

lemma arp_find_update:
  "arp_slot ip es = Some i \<Longrightarrow> arp_find ip (es[i := arp_set ip mac]) = Some mac"
  by (induction es arbitrary: i) (auto simp: arp_set_def split: if_splits)

lemma arp_find_update_other:
  "\<lbrakk>arp_slot ip es = Some i; ip' \<noteq> ip\<rbrakk> \<Longrightarrow> arp_find ip' (es[i := arp_set ip mac]) = arp_find ip' es"
  by (induction es arbitrary: i) (auto simp: arp_set_def split: if_splits)

lemma length_arp_insert [simp]: "length (n_arp (arp_cache_insert ip mac s)) = length (n_arp s)"
  by (simp add: arp_cache_insert_def)

lemma arp_insert_find:
  assumes "n_arp s \<noteq> []"
  shows "arp_find ip (n_arp (arp_cache_insert ip mac s)) = Some mac"
proof (cases "arp_slot ip (n_arp s)")
  case None
  then show ?thesis using assms by (cases "n_arp s") (simp_all add: arp_cache_insert_def arp_set_def)
next
  case (Some i)
  then show ?thesis by (simp add: arp_cache_insert_def arp_find_update)
qed

lemma arp_insert_other:
  assumes "arp_slot ip (n_arp s) \<noteq> None" "ip' \<noteq> ip"
  shows "arp_find ip' (n_arp (arp_cache_insert ip mac s)) = arp_find ip' (n_arp s)"
  using assms by (auto simp: arp_cache_insert_def arp_find_update_other)

section \<open>Ports\<close>

definition port_free :: "net \<Rightarrow> u16 \<Rightarrow> bool" where
  "port_free s p \<longleftrightarrow> \<not> port_bit (n_tcp_ports s) p"

lemma port_bit_iff: "port_bit bm p \<longleftrightarrow> bit (bm (unat p div 64)) (unat p mod 64)"
proof -
  have "possible_bit TYPE(64 word) (unat p mod 64)" by simp
  then show ?thesis
    by (auto simp: port_bit_def and_exp_eq_0_iff_not_bit push_bit_eq_mult)
qed

lemma port_index_inj:
  assumes "unat p div 64 = unat q div 64" "unat p mod 64 = unat q mod 64"
  shows "p = (q :: u16)"
proof -
  have "unat p = unat p div 64 * 64 + unat p mod 64" by (rule div_mult_mod_eq [symmetric])
  also have "\<dots> = unat q" unfolding assms by (rule div_mult_mod_eq)
  finally show ?thesis by (rule word_unat_eq_iff [THEN iffD2])
qed

lemma port_same_word:
  "unat q div 64 = unat p div 64 \<Longrightarrow> unat q mod 64 = unat p mod 64 \<longleftrightarrow> q = (p :: u16)"
  using port_index_inj [of q p] by blast

lemma port_bit_set: "port_bit (port_set bm p) q \<longleftrightarrow> q = p \<or> port_bit bm q"
proof (cases "unat q div 64 = unat p div 64")
  case True
  have "port_bit (port_set bm p) q \<longleftrightarrow> bit (bm (unat p div 64)) (unat q mod 64) \<or> unat q mod 64 = unat p mod 64"
    by (simp add: port_bit_iff port_set_def True push_bit_eq_mult bit_or_exp)
  then show ?thesis unfolding port_same_word [OF True] by (auto simp: port_bit_iff True)
next
  case False
  then show ?thesis by (auto simp: port_bit_iff port_set_def)
qed

lemma port_bit_clear: "port_bit (port_clear bm p) q \<longleftrightarrow> q \<noteq> p \<and> port_bit bm q"
proof (cases "unat q div 64 = unat p div 64")
  case True
  have "port_bit (port_clear bm p) q \<longleftrightarrow> bit (bm (unat p div 64)) (unat q mod 64) \<and> unat q mod 64 \<noteq> unat p mod 64"
    by (simp add: port_bit_iff port_clear_def True push_bit_eq_mult bit_and_not_exp)
  then show ?thesis unfolding port_same_word [OF True] by (auto simp: port_bit_iff True)
next
  case False
  then show ?thesis by (auto simp: port_bit_iff port_clear_def)
qed

text \<open>The \<open>k\<close> ports the loop looks at, in order.\<close>

fun ports_from :: "u16 \<Rightarrow> nat \<Rightarrow> u16 list" where
  "ports_from p 0 = []"
| "ports_from p (Suc k) = p # ports_from (next_port p) k"

lemma alloc_port_loop_spec:
  "alloc_port_loop k s =
     (case find (port_free s) (ports_from (n_next_port s) k) of
        None \<Rightarrow> (0, s\<lparr>n_next_port := (next_port ^^ k) (n_next_port s)\<rparr>)
      | Some p \<Rightarrow> (p, s\<lparr>n_next_port := next_port p, n_tcp_ports := port_set (n_tcp_ports s) p,
                     n_udp_ports := port_set (n_udp_ports s) p\<rparr>))"
proof (induction k arbitrary: s)
  case (Suc k)
  have f: "port_free (s\<lparr>n_next_port := x\<rparr>) = port_free s" for x by (simp add: fun_eq_iff port_free_def)
  show ?case
    using Suc [of "s\<lparr>n_next_port := next_port (n_next_port s)\<rparr>"]
    by (auto simp: Let_def f port_free_def funpow_swap1 split: option.splits)
qed simp

definition port_idx :: "u16 \<Rightarrow> nat" where
  "port_idx p = unat p - 32768"

lemma next_port_idx:
  assumes "32768 \<le> unat p" "unat p \<le> 60999"
  shows "32768 \<le> unat (next_port p)" "unat (next_port p) \<le> 60999"
    "port_idx (next_port p) = Suc (port_idx p) mod 28232"
proof -
  have u: "unat (p + 1) = Suc (unat p)"
    using assms(2) by (intro unat_Suc_word [of _ 61000]) auto
  consider "unat p = 60999" | "unat p < 60999" using assms by linarith
  then have "32768 \<le> unat (next_port p) \<and> unat (next_port p) \<le> 60999 \<and> port_idx (next_port p) = Suc (port_idx p) mod 28232"
    using assms u by cases (auto simp: next_port_def port_idx_def word_less_nat_alt)
  then show "32768 \<le> unat (next_port p)" "unat (next_port p) \<le> 60999"
    "port_idx (next_port p) = Suc (port_idx p) mod 28232" by auto
qed

lemma ports_from_idx:
  assumes "32768 \<le> unat p" "unat p \<le> 60999"
  shows "map port_idx (ports_from p k) = map (\<lambda>i. (port_idx p + i) mod 28232) [0..<k]
     \<and> (\<forall>q\<in>set (ports_from p k). 32768 \<le> unat q \<and> unat q \<le> 60999)"
  using assms
proof (induction k arbitrary: p)
  case (Suc k)
  note n = next_port_idx [OF Suc.prems]
  have "port_idx p < 28232" using Suc.prems by (simp add: port_idx_def)
  then show ?case
    using Suc.IH [OF n(1,2)] Suc.prems n(3)
    by (simp add: upt_conv_Cons map_Suc_upt [symmetric] mod_add_left_eq del: upt_Suc)
qed simp


definition eph_port :: "u16 \<Rightarrow> bool" where
  "eph_port p \<longleftrightarrow> 32768 \<le> unat p \<and> unat p \<le> 60999"

lemma port_idx_inj: "\<lbrakk>eph_port p; eph_port q; port_idx p = port_idx q\<rbrakk> \<Longrightarrow> p = q"
  by (auto simp: eph_port_def port_idx_def word_unat_eq_iff)

lemma port_idx_less: "eph_port p \<Longrightarrow> port_idx p < 28232"
  by (auto simp: eph_port_def port_idx_def)

lemma mod_offsets:
  fixes m n j :: nat
  assumes "j < Suc n" "j \<noteq> (m + n) mod Suc n"
  shows "j \<in> (\<lambda>i. (m + i) mod Suc n) ` {..<n}"
proof -
  define i where "i = (j + Suc n - m mod Suc n) mod Suc n"
  have "m mod Suc n < Suc n" by simp
  then have "m mod Suc n + (j + Suc n - m mod Suc n) = j + Suc n" by linarith
  then have "(m + i) mod Suc n = (j + Suc n) mod Suc n"
    unfolding i_def by (metis mod_add_left_eq mod_add_right_eq)
  also have "(j + Suc n) mod Suc n = j" using assms(1) by (metis mod_add_self2 mod_less)
  finally have "(m + i) mod Suc n = j" .
  moreover have "i < Suc n" by (simp add: i_def)
  moreover have "i \<noteq> n" using assms(2) calculation(1) by auto
  ultimately show ?thesis by (auto intro!: image_eqI [of _ _ i])
qed

lemma ports_from_set:
  assumes "eph_port p"
  shows "q \<in> set (ports_from p 28231) \<longleftrightarrow> eph_port q \<and> port_idx q \<noteq> (port_idx p + 28231) mod 28232"
proof -
  note b = assms [unfolded eph_port_def, THEN conjunct1] assms [unfolded eph_port_def, THEN conjunct2]
  note i = ports_from_idx [OF b, of 28231, THEN conjunct1] and r = ports_from_idx [OF b, of 28231, THEN conjunct2]
  have im: "port_idx ` set (ports_from p 28231) = (\<lambda>i. (port_idx p + i) mod 28232) ` {..<28231}"
    using arg_cong [OF i, of set] unfolding set_map atLeast_upt .
  have eph: "eph_port q" if "q \<in> set (ports_from p 28231)" for q using r that by (auto simp: eph_port_def)
  show ?thesis
  proof
    assume q: "q \<in> set (ports_from p 28231)"
    then obtain j where j: "port_idx q = (port_idx p + j) mod 28232" "j < 28231" using im by blast
    have "(port_idx p + j) mod 28232 \<noteq> (port_idx p + 28231) mod 28232"
      using mod_add_inj [of "port_idx p" j 28232 28231] j(2) by linarith
    then show "eph_port q \<and> port_idx q \<noteq> (port_idx p + 28231) mod 28232" using eph [OF q] j(1) by simp
  next
    assume q: "eph_port q \<and> port_idx q \<noteq> (port_idx p + 28231) mod 28232"
    then have "port_idx q \<in> port_idx ` set (ports_from p 28231)"
      unfolding im using mod_offsets [of "port_idx q" 28231 "port_idx p"] port_idx_less [of q] by simp
    then show "q \<in> set (ports_from p 28231)" using q eph port_idx_inj by (metis imageE)
  qed
qed

lemma eph_next_iter: "eph_port p \<Longrightarrow> eph_port ((next_port ^^ k) p)"
  by (induction k) (auto simp: eph_port_def next_port_idx)

lemma alloc_port_spec:
  assumes "eph_port (n_next_port s)" "inet_alloc_port s = (p, s')"
  shows "eph_port (n_next_port s') \<and>
    (if p = 0
     then (\<forall>q. eph_port q \<longrightarrow> port_idx q \<noteq> (port_idx (n_next_port s) + 28231) mod 28232 \<longrightarrow> \<not> port_free s q)
     else eph_port p \<and> port_free s p \<and> (\<forall>q. port_free s' q \<longleftrightarrow> port_free s q \<and> q \<noteq> p)
       \<and> (\<forall>q. port_bit (n_udp_ports s') q \<longleftrightarrow> port_bit (n_udp_ports s) q \<or> q = p))"
proof (cases "find (port_free s) (ports_from (n_next_port s) 28231)")
  case None
  then have "\<not> port_free s q" if "q \<in> set (ports_from (n_next_port s) 28231)" for q
    using that by (simp add: find_None_iff)
  then show ?thesis
    using None assms ports_from_set [OF assms(1)] eph_next_iter [OF assms(1)]
    by (auto simp: inet_alloc_port_def alloc_port_loop_spec)
next
  case (Some q)
  then have q: "q \<in> set (ports_from (n_next_port s) 28231)" "port_free s q"
    by (auto simp: find_Some_iff in_set_conv_nth)
  have e: "eph_port q" using q(1) ports_from_set [OF assms(1)] by simp
  then have "q \<noteq> 0" by (auto simp: eph_port_def)
  then show ?thesis
    using Some assms(2) q(2) e eph_next_iter [OF e, of 1]
    by (auto simp: inet_alloc_port_def alloc_port_loop_spec port_free_def port_bit_set)
qed

text \<open>The loop looks at one port less than there are.\<close>

lemma inet_alloc_port_off_by_one:
  assumes "eph_port (n_next_port s)" "\<And>q. eph_port q \<Longrightarrow> port_free s q \<longleftrightarrow> q = r"
    and "eph_port r" "port_idx r = (port_idx (n_next_port s) + 28231) mod 28232"
  shows "fst (inet_alloc_port s) = 0 \<and> port_free s r"
proof -
  have "find (port_free s) (ports_from (n_next_port s) 28231) = None"
    using assms ports_from_set [OF assms(1)] by (auto simp: find_None_iff)
  then show ?thesis using assms(2,3) by (simp add: inet_alloc_port_def alloc_port_loop_spec)
qed

section \<open>Properties\<close>

text \<open>A history of a ring: bytes written and bytes read, with and without removing them.\<close>

datatype sock_op = SWrite "u8 list" | SRead u32 bool

fun sock_run :: "sock_ringbuf \<Rightarrow> sock_op list \<Rightarrow> u8 list \<times> u8 list \<times> sock_ringbuf" where
  "sock_run rb [] = ([], [], rb)"
| "sock_run rb (SWrite data # ops) =
     (case sock_ringbuf_write rb data of (n, rb1) \<Rightarrow>
        (case sock_run rb1 ops of (i, out, rb2) \<Rightarrow> (take (nat n) data @ i, out, rb2)))"
| "sock_run rb (SRead n peek # ops) =
     (case sock_ringbuf_read rb n peek of (ys, rb1) \<Rightarrow>
        (case sock_run rb1 ops of (i, out, rb2) \<Rightarrow> (i, (if peek then [] else ys) @ out, rb2)))"

fun xfer_of :: "sock_op \<Rightarrow> u8 xfer list" where
  "xfer_of (SWrite data) = [Put data]"
| "xfer_of (SRead n peek) = (if peek then [] else [Get (unat n)])"

fun small_op :: "sock_op \<Rightarrow> bool" where
  "small_op (SWrite data) \<longleftrightarrow> length data < 2 ^ 32"
| "small_op (SRead n peek) \<longleftrightarrow> True"

lemma peek_same: "snd (sock_ringbuf_read rb n True) = rb"
  by (simp add: sock_ringbuf_read_def Let_def)

lemma sock_run_xfers:
  "\<lbrakk>rb_ok rb; list_all small_op ops\<rbrakk> \<Longrightarrow> sock_run rb ops = run_xfers rb_put rb_get rb (concat (map xfer_of ops))"
proof (induction ops arbitrary: rb)
  case (Cons op ops)
  show ?case
  proof (cases op)
    case (SWrite data)
    then show ?thesis
      using Cons sr.put_some_spec [OF Cons.prems(1), of data] write_is_put_some [OF Cons.prems(1), of data]
      by (auto split: prod.splits)
  next
    case (SRead n peek)
    show ?thesis
    proof (cases peek)
      case True
      then show ?thesis using Cons SRead peek_same [of rb n] by (auto split: prod.splits)
    next
      case False
      then show ?thesis
        using Cons SRead sr.get_some_spec [OF Cons.prems(1), of "unat n"] read_is_get_some [OF Cons.prems(1), of n]
        by (auto split: prod.splits)
    qed
  qed
qed simp

lemma sock_ring_stream_lemma:
  assumes "rb_ok rb" "list_all small_op ops" "sock_run rb ops = (i, out, rb')"
  shows "out @ rb_contents rb' = rb_contents rb @ i \<and> rb_ok rb' \<and> rb_cap rb' = rb_cap rb"
  using assms sr.run_xfers_stream [OF assms(1)] sock_run_xfers [OF assms(1,2)] by simp

lemma ring_init_ok:
  assumes "na_ring na sz = Some d" "length d = unat sz" "0 < sz" "sz \<le> 2 ^ 30"
  shows "rb_ok (snd (sock_ringbuf_init na sz rb)) \<and> rb_contents (snd (sock_ringbuf_init na sz rb)) = []"
  using assms by (auto simp: sock_ringbuf_init_def rb_ok_def ring_ok_def rb_contents_def word_less_nat_alt
      word_le_nat_alt ring_contents_def)

text \<open>C14 (socket buffers are queues). Whatever is written to the ring buffer of a socket and read from it, in any
  order, peeking included: the bytes read, followed by the bytes still in the ring, are the bytes it held at the
  start followed by the bytes that were accepted. The indices stay in the ring and its capacity does not
  change.\<close>

theorem sock_ring_stream:
  assumes "rb_ok rb" "list_all small_op ops" "sock_run rb ops = (i, out, rb')"
  shows "out @ rb_contents rb' = rb_contents rb @ i \<and> rb_ok rb' \<and> rb_cap rb' = rb_cap rb"
  using assms by (rule sock_ring_stream_lemma)

definition ring3 :: sock_ringbuf where
  "ring3 = \<lparr>rb_buf = Some [0, 0, 0], rb_size = 3, rb_head = 2, rb_tail = 2, rb_len = 0\<rparr>"

theorem sock_ring_stream_witness:
  "rb_ok ring3 \<and> sock_run ring3 [SWrite [1, 2], SRead 1 False, SWrite [3, 4, 5], SRead 9 True]
     = ([1, 2, 3, 4], [1], ring3\<lparr>rb_buf := Some [2, 3, 4], rb_head := 0, rb_tail := 0, rb_len := 3\<rparr>)
   \<and> rb_contents (snd (snd (sock_run ring3 [SWrite [1, 2], SRead 1 False, SWrite [3, 4, 5], SRead 9 True]))) = [2, 3, 4]"
proof -
  let ?ops = "[SWrite [1, 2], SRead 1 False, SWrite [3, 4, 5], SRead 9 True]"
  have ok: "rb_ok ring3" by (simp add: rb_ok_def ring_ok_def ring3_def)
  have run: "sock_run ring3 ?ops
     = ([1, 2, 3, 4], [1], ring3\<lparr>rb_buf := Some [2, 3, 4], rb_head := 0, rb_tail := 0, rb_len := 3\<rparr>)"
    by code_simp
  have "rb_contents ring3 = []" by (simp add: rb_contents_def ring3_def ring_contents_def)
  then show ?thesis using sock_ring_stream [OF ok _ run] ok run by simp
qed

text \<open>\<^emph>\<open>Checksum.\<close> The checksum of a message differs from that of any message that differs from it in one 16-bit
  word, unless the word is zero in one and all ones in the other, the two values of zero.\<close>

theorem ip_checksum_detects:
  assumes "even (length xs)" "length xs + length ys + 2 \<le> 2 ^ 17"
    and "ip_checksum (xs @ [a, b] @ ys) = ip_checksum (xs @ [c, d] @ ys)"
  shows "a = c \<and> b = d \<or> {(a, b), (c, d)} = {(0, 0), (255, 255)}"
  using assms by (rule ip_checksum_word_detected)

theorem ip_checksum_detects_witness:
  "ip_checksum [1, 2, 0, 0, 9] = ip_checksum [1, 2, 255, 255, 9] \<and> {(0, 0), (255, 255)} = {(0 :: u8, 0 :: u8), (255, 255)}"
proof -
  have e: "ip_checksum ([1, 2] @ [0, 0] @ [9]) = ip_checksum ([1, 2] @ [255, 255] @ [9])" by code_simp
  have "(0 :: u8) = 255 \<and> (0 :: u8) = 255 \<or> {(0, 0), (255, 255)} = {(0 :: u8, 0 :: u8), (255, 255)}"
    by (rule ip_checksum_detects [OF _ _ e]) simp_all
  then show ?thesis using e by simp
qed

text \<open>\<^emph>\<open>Port allocation.\<close> From any state of the bitmaps, the allocator hands out a port of the ephemeral range
  that was free, and marks that one and no other; it answers 0 only when every port of the range is taken, the
  one before the next one to try apart. The next one to try stays in the range.\<close>

theorem inet_alloc_port_correct:
  assumes "eph_port (n_next_port s)" "inet_alloc_port s = (p, s')"
  shows "eph_port (n_next_port s') \<and>
    (if p = 0
     then (\<forall>q. eph_port q \<longrightarrow> port_idx q \<noteq> (port_idx (n_next_port s) + 28231) mod 28232 \<longrightarrow> \<not> port_free s q)
     else eph_port p \<and> port_free s p \<and> (\<forall>q. port_free s' q \<longleftrightarrow> port_free s q \<and> q \<noteq> p)
       \<and> (\<forall>q. port_bit (n_udp_ports s') q \<longleftrightarrow> port_bit (n_udp_ports s) q \<or> q = p))"
  using assms by (rule alloc_port_spec)

theorem inet_alloc_port_correct_witness: "port_free net_init 32768 \<and> \<not> port_free (snd (inet_alloc_port net_init)) 32768"
proof -
  have e: "eph_port (n_next_port net_init)" by (simp add: eph_port_def net_init_def)
  obtain p s' where p: "inet_alloc_port net_init = (p, s')" by fastforce
  have "fst (alloc_port_loop (Suc 28230) net_init) = 32768"
    unfolding alloc_port_loop.simps by (simp add: net_init_def port_bit_def Let_def)
  then have "p = 32768" using p by (simp add: inet_alloc_port_def)
  then show ?thesis using inet_alloc_port_correct [OF e p] p by (simp split: if_splits)
qed

end
