(* ===== verification/Tcp.thy ===== *)
theory Tcp
  imports Net
begin

text \<open>
  The TCP state machine, \<^verbatim>\<open>net/tcp.c\<close>, and the rest of the receive path of \<^verbatim>\<open>net/net_core.c\<close>: UDP, ICMP, IP and
  Ethernet. A function that sends a segment answers \<open>None\<close> where the code writes through a null
  pointer. \<open>wt\<close> is what interrupts do to the state while the code spins.
\<close>

section \<open>Segments\<close>

abbreviation (input) TCP_FIN :: u8 where "TCP_FIN \<equiv> 0x01"
abbreviation (input) TCP_SYN :: u8 where "TCP_SYN \<equiv> 0x02"
abbreviation (input) TCP_RST :: u8 where "TCP_RST \<equiv> 0x04"
abbreviation (input) TCP_PSH :: u8 where "TCP_PSH \<equiv> 0x08"
abbreviation (input) TCP_ACK :: u8 where "TCP_ACK \<equiv> 0x10"
abbreviation (input) SOCK_RCVBUF_SIZE :: u32 where "SOCK_RCVBUF_SIZE \<equiv> 65536"
abbreviation (input) SOCK_NONBLOCK :: u32 where "SOCK_NONBLOCK \<equiv> 0x800"

definition tcp_checksum :: "u32 \<Rightarrow> u32 \<Rightarrow> u8 list \<Rightarrow> u16" where
  "tcp_checksum src_ip dst_ip seg =
     ucast (NOT (fold_carry (sum_words seg
       (sum_words (le32 src_ip @ le32 dst_ip @ [0, IPPROTO_TCP] @ be16 (word_of_nat (length seg))) 0))))"

definition tcp_hdr :: "u16 \<Rightarrow> u16 \<Rightarrow> u32 \<Rightarrow> u32 \<Rightarrow> u8 \<Rightarrow> u16 \<Rightarrow> u16 \<Rightarrow> u8 list" where
  "tcp_hdr src_port dst_port seq ack flags window checksum =
     be16 src_port @ be16 dst_port @ be32 seq @ be32 ack @ [0x50, flags] @ be16 window @ le16 checksum @ [0, 0]"

definition sk_at :: "net \<Rightarrow> nat \<Rightarrow> sock" where
  "sk_at s a = (case n_socks s a of None \<Rightarrow> sk_zero | Some sk \<Rightarrow> sk)"

definition upd_sk :: "nat \<Rightarrow> (sock \<Rightarrow> sock) \<Rightarrow> net \<Rightarrow> net" where
  "upd_sk a f s = s\<lparr>n_socks := (n_socks s)(a := map_option f (n_socks s a))\<rparr>"

definition tcp_send_segment ::
  "net_alloc \<Rightarrow> (net \<Rightarrow> net) list \<Rightarrow> nat \<Rightarrow> u8 \<Rightarrow> u32 \<Rightarrow> u32 \<Rightarrow> u8 list \<Rightarrow> net \<Rightarrow> (int \<times> net) option" where
  "tcp_send_segment na ws a flags seq ack data s =
     (case netdev_get_default s of None \<Rightarrow> Some (- ENETDOWN, s)
      | Some dev \<Rightarrow>
          let data_len = (word_of_nat (length data) :: u32) in
          (case skb_alloc na (20 + data_len + 20 + 14 + 32) of None \<Rightarrow> Some (- ENOMEM, s)
           | Some b \<Rightarrow>
               (case skb_put 20 b of None \<Rightarrow> None
                | Some (p, b1) \<Rightarrow>
                    let sk = sk_at s a;
                        hdr = tcp_hdr (sk_local_port sk) (sk_remote_port sk) seq (if flags AND TCP_ACK \<noteq> 0 then ack else 0) flags
                                (ucast (sk_rcv_wnd sk));
                        b2 = skb_store p (hdr 0) b1;
                        b3 = (if data = [] then b2
                              else (case skb_put data_len b2 of None \<Rightarrow> b2 | Some (q, b') \<Rightarrow> skb_store q data b'));
                        seg_len = unat (ucast (20 + data_len) :: u16);
                        seg = take seg_len (drop p (sb_mem b3));
                        b4 = skb_store p (hdr (tcp_checksum (nd_ip4 dev) (htonl (sk_remote_ip sk)) seg)) b3
                    in (case ip_send na ws (Some dev) (sk_remote_ip sk) IPPROTO_TCP b4 s of (r, _, s1) \<Rightarrow> Some (r, s1)))))"

section \<open>Opening\<close>

definition tcp_connect ::
  "net_alloc \<Rightarrow> (net \<Rightarrow> net) list \<Rightarrow> (net \<Rightarrow> net) \<Rightarrow> nat \<Rightarrow> u32 \<Rightarrow> u16 \<Rightarrow> net \<Rightarrow> (int \<times> net) option" where
  "tcp_connect na ws wt a dst_ip dst_port s =
     (if sk_state (sk_at s a) \<noteq> TCP_CLOSED then Some (- EISCONN, s)
      else
        (case (if sk_local_port (sk_at s a) = 0
               then (case inet_alloc_port s of (p, s0) \<Rightarrow> (p, upd_sk a (\<lambda>k. k\<lparr>sk_local_port := p\<rparr>) s0))
               else (sk_local_port (sk_at s a), s)) of
           (p, s1) \<Rightarrow>
             if p = 0 then Some (- EADDRINUSE, s1)
             else
               let seq = ucast (n_jiffies s1 * 7919);
                   s2 = upd_sk a (\<lambda>k. k\<lparr>sk_remote_ip := dst_ip, sk_remote_port := dst_port, sk_snd_seq := seq,
                          sk_snd_nxt := seq + 1, sk_rcv_wnd := SOCK_RCVBUF_SIZE, sk_state := TCP_SYN_SENT\<rparr>) s1
               in (case tcp_send_segment na ws a TCP_SYN seq 0 [] s2 of
                     None \<Rightarrow> None
                   | Some (r, s3) \<Rightarrow>
                       if r < 0 then Some (r, upd_sk a (\<lambda>k. k\<lparr>sk_state := TCP_CLOSED\<rparr>) s3)
                       else let s4 = wt s3 in
                            Some (if sk_state (sk_at s4 a) = TCP_ESTABLISHED then 0 else - ETIMEDOUT, s4))))"

definition tcp_listen :: "nat \<Rightarrow> net \<Rightarrow> int \<times> net" where
  "tcp_listen a s =
     (if sk_state (sk_at s a) \<noteq> TCP_CLOSED \<and> sk_state (sk_at s a) \<noteq> TCP_CLOSE_WAIT then (- EINVAL, s)
      else (0, upd_sk a (\<lambda>k. k\<lparr>sk_listening := True, sk_state := TCP_LISTEN\<rparr>) s))"

text \<open>The head of the accept queue, or what the loop does when there is none.\<close>

definition accept_pop :: "nat \<Rightarrow> net \<Rightarrow> (nat \<times> net) option" where
  "accept_pop a s =
     (case sk_accept_queue (sk_at s a) of [] \<Rightarrow> None
      | x # xs \<Rightarrow> Some (x, upd_sk a (\<lambda>k. k\<lparr>sk_accept_queue := xs, sk_backlog_len := sk_backlog_len k - 1\<rparr>) s))"

fun accept_poll :: "bool \<Rightarrow> (net \<Rightarrow> net) list \<Rightarrow> nat \<Rightarrow> net \<Rightarrow> (int + nat) \<times> net" where
  "accept_poll nonblock [] a s =
     (case accept_pop a s of Some (x, s1) \<Rightarrow> (Inr x, s1) | None \<Rightarrow> (Inl (- EAGAIN), s))"
| "accept_poll nonblock (w # ws) a s =
     (case accept_pop a s of Some (x, s1) \<Rightarrow> (Inr x, s1)
      | None \<Rightarrow> if nonblock then (Inl (- EAGAIN), s) else accept_poll nonblock ws a (w s))"

definition tcp_accept :: "(net \<Rightarrow> net) list \<Rightarrow> nat \<Rightarrow> u32 \<Rightarrow> net \<Rightarrow> (int + nat) \<times> net" where
  "tcp_accept ws a flags s =
     accept_poll (flags AND SOCK_NONBLOCK \<noteq> 0 \<or> sk_rcvtimeo (sk_at s a) = - 1) ws a s"

section \<open>Receiving\<close>

record segment =
  sg_src_ip :: u32
  sg_src_port :: u16
  sg_dst_port :: u16
  sg_seq :: u32
  sg_ack :: u32
  sg_flags :: u8
  sg_payload :: "u8 list"

definition parse_segment :: "sk_buff \<Rightarrow> segment" where
  "parse_segment b =
     (let p = skb_bytes b; hdr_len = unat (drop_bit 4 (p ! 12) * 4 :: u8) in
      \<lparr>sg_src_ip = sb_src_ip b, sg_src_port = htons (rd16 p 0), sg_dst_port = htons (rd16 p 2), sg_seq = htonl (rd32 p 4),
       sg_ack = htonl (rd32 p 8), sg_flags = p ! 13, sg_payload = drop hdr_len p\<rparr>)"

definition has :: "segment \<Rightarrow> u8 \<Rightarrow> bool" where
  "has g f \<longleftrightarrow> sg_flags g AND f \<noteq> 0"

text \<open>Acknowledging with the numbers the socket has now; the result is not looked at.\<close>

definition tcp_ack :: "net_alloc \<Rightarrow> (net \<Rightarrow> net) list \<Rightarrow> nat \<Rightarrow> u8 \<Rightarrow> u32 \<Rightarrow> net \<Rightarrow> net option" where
  "tcp_ack na ws a flags seq s =
     map_option snd (tcp_send_segment na ws a flags seq (sk_rcv_nxt (sk_at s a)) [] s)"

definition rcv_listen :: "net_alloc \<Rightarrow> (net \<Rightarrow> net) list \<Rightarrow> nat \<Rightarrow> segment \<Rightarrow> net \<Rightarrow> net option" where
  "rcv_listen na ws a g s =
     (if \<not> has g TCP_SYN then Some s
      else if sk_backlog_max (sk_at s a) \<le> sk_backlog_len (sk_at s a) then Some s
      else (case sk_alloc na (sk_family (sk_at s a)) (sk_type (sk_at s a)) (sk_protocol (sk_at s a)) s of
              (None, s1) \<Rightarrow> Some s1
            | (Some n, s1) \<Rightarrow>
                let iss = ucast (n_jiffies s1 * 6271);
                    s2 = upd_sk n (\<lambda>k. k\<lparr>sk_local_ip := ucast (sg_dst_port g), sk_local_port := sg_dst_port g,
                           sk_remote_ip := sg_src_ip g, sk_remote_port := sg_src_port g, sk_rcv_seq := sg_seq g,
                           sk_rcv_nxt := sg_seq g + 1, sk_snd_seq := iss, sk_snd_nxt := iss + 1,
                           sk_rcv_wnd := SOCK_RCVBUF_SIZE, sk_state := TCP_SYN_RCVD\<rparr>) s1
                in (case tcp_ack na ws n (TCP_SYN OR TCP_ACK) iss s2 of
                      None \<Rightarrow> None
                    | Some s3 \<Rightarrow>
                        if na_entry na
                        then Some (upd_sk a (\<lambda>k. k\<lparr>sk_accept_queue := sk_accept_queue k @ [n],
                                     sk_backlog_len := sk_backlog_len k + 1\<rparr>) s3)
                        else Some s3)))"

definition rcv_syn_sent :: "net_alloc \<Rightarrow> (net \<Rightarrow> net) list \<Rightarrow> nat \<Rightarrow> segment \<Rightarrow> net \<Rightarrow> net option" where
  "rcv_syn_sent na ws a g s =
     (if has g TCP_SYN \<and> has g TCP_ACK
      then let s1 = upd_sk a (\<lambda>k. k\<lparr>sk_rcv_seq := sg_seq g, sk_rcv_nxt := sg_seq g + 1, sk_snd_una := sg_ack g\<rparr>) s in
           map_option (upd_sk a (\<lambda>k. k\<lparr>sk_state := TCP_ESTABLISHED, sk_connected := True\<rparr>))
             (tcp_ack na ws a TCP_ACK (sk_snd_nxt (sk_at s1 a)) s1)
      else if has g TCP_SYN
      then let s1 = upd_sk a (\<lambda>k. k\<lparr>sk_rcv_seq := sg_seq g, sk_rcv_nxt := sg_seq g + 1\<rparr>) s in
           map_option (upd_sk a (\<lambda>k. k\<lparr>sk_state := TCP_SYN_RCVD\<rparr>))
             (tcp_ack na ws a (TCP_SYN OR TCP_ACK) (sk_snd_seq (sk_at s1 a)) s1)
      else Some s)"

text \<open>The three steps of an established connection.\<close>

definition rcv_data :: "net_alloc \<Rightarrow> (net \<Rightarrow> net) list \<Rightarrow> nat \<Rightarrow> segment \<Rightarrow> net \<Rightarrow> net option" where
  "rcv_data na ws a g s =
     (if sg_payload g = [] then Some s
      else let s1 = upd_sk a (\<lambda>k. k\<lparr>sk_rcvbuf := snd (sock_ringbuf_write (sk_rcvbuf k) (sg_payload g)),
                      sk_rcv_nxt := sk_rcv_nxt k + word_of_nat (length (sg_payload g))\<rparr>) s in
           tcp_ack na ws a TCP_ACK (sk_snd_nxt (sk_at s1 a)) s1)"

definition rcv_fin :: "net_alloc \<Rightarrow> (net \<Rightarrow> net) list \<Rightarrow> nat \<Rightarrow> (tcp_state \<Rightarrow> tcp_state) \<Rightarrow> net \<Rightarrow> net option" where
  "rcv_fin na ws a st s =
     (let s1 = upd_sk a (\<lambda>k. k\<lparr>sk_rcv_nxt := sk_rcv_nxt k + 1\<rparr>) s in
      map_option (upd_sk a (\<lambda>k. k\<lparr>sk_state := st (sk_state k)\<rparr>)) (tcp_ack na ws a TCP_ACK (sk_snd_nxt (sk_at s1 a)) s1))"

definition rcv_established :: "net_alloc \<Rightarrow> (net \<Rightarrow> net) list \<Rightarrow> nat \<Rightarrow> segment \<Rightarrow> net \<Rightarrow> net option" where
  "rcv_established na ws a g s =
     (case rcv_data na ws a g (if has g TCP_ACK then upd_sk a (\<lambda>k. k\<lparr>sk_snd_una := sg_ack g\<rparr>) s else s) of
        None \<Rightarrow> None
      | Some s1 \<Rightarrow> if has g TCP_FIN then rcv_fin na ws a (\<lambda>_. TCP_CLOSE_WAIT) s1 else Some s1)"

definition rcv_fin_wait1 :: "net_alloc \<Rightarrow> (net \<Rightarrow> net) list \<Rightarrow> nat \<Rightarrow> segment \<Rightarrow> net \<Rightarrow> net option" where
  "rcv_fin_wait1 na ws a g s =
     (let s1 = (if has g TCP_ACK then upd_sk a (\<lambda>k. k\<lparr>sk_state := TCP_FIN_WAIT2\<rparr>) s else s) in
      if has g TCP_FIN
      then rcv_fin na ws a (\<lambda>st. if st = TCP_FIN_WAIT2 then TCP_TIME_WAIT else TCP_CLOSING) s1
      else Some s1)"

definition set_state :: "nat \<Rightarrow> tcp_state \<Rightarrow> net \<Rightarrow> net" where
  "set_state a st = upd_sk a (\<lambda>k. k\<lparr>sk_state := st\<rparr>)"

definition tcp_deliver :: "net_alloc \<Rightarrow> (net \<Rightarrow> net) list \<Rightarrow> nat \<Rightarrow> segment \<Rightarrow> net \<Rightarrow> net option" where
  "tcp_deliver na ws a g s =
     (if has g TCP_RST then Some (upd_sk a (\<lambda>k. k\<lparr>sk_state := TCP_CLOSED, sk_err := ECONNRESET\<rparr>) s)
      else
        (case sk_state (sk_at s a) of
           TCP_LISTEN \<Rightarrow> rcv_listen na ws a g s
         | TCP_SYN_RCVD \<Rightarrow>
             Some (if has g TCP_ACK \<and> sg_ack g = sk_snd_nxt (sk_at s a)
                   then upd_sk a (\<lambda>k. k\<lparr>sk_state := TCP_ESTABLISHED, sk_connected := True\<rparr>) s else s)
         | TCP_SYN_SENT \<Rightarrow> rcv_syn_sent na ws a g s
         | TCP_ESTABLISHED \<Rightarrow> rcv_established na ws a g s
         | TCP_FIN_WAIT1 \<Rightarrow> rcv_fin_wait1 na ws a g s
         | TCP_FIN_WAIT2 \<Rightarrow> if has g TCP_FIN then rcv_fin na ws a (\<lambda>_. TCP_TIME_WAIT) s else Some s
         | TCP_CLOSING \<Rightarrow> Some (if has g TCP_ACK then set_state a TCP_TIME_WAIT s else s)
         | TCP_LAST_ACK \<Rightarrow> Some (if has g TCP_ACK then set_state a TCP_CLOSED s else s)
         | TCP_TIME_WAIT \<Rightarrow> Some (set_state a TCP_CLOSED s)
         | _ \<Rightarrow> Some s))"

text \<open>The answer to a segment for no socket.\<close>

definition tcp_reset :: "net_alloc \<Rightarrow> (net \<Rightarrow> net) list \<Rightarrow> net_device \<Rightarrow> sk_buff \<Rightarrow> net \<Rightarrow> net option" where
  "tcp_reset na ws dev b s =
     (case skb_alloc na (20 + 20 + 14 + 32) of None \<Rightarrow> Some s
      | Some r \<Rightarrow>
          (case skb_put 20 r of None \<Rightarrow> None
           | Some (p, r1) \<Rightarrow>
               let t = skb_bytes b;
                   hdr = (\<lambda>c. take 2 (drop 2 t) @ take 2 t @ take 4 (drop 8 t) @ [0, 0, 0, 0, 0x50, TCP_RST OR TCP_ACK, 0, 0] @ le16 c @ [0, 0]);
                   r2 = skb_store p (hdr (tcp_checksum (nd_ip4 dev) (htonl (sb_src_ip b)) (hdr 0))) r1
               in (case ip_send na ws (Some dev) (sb_src_ip b) IPPROTO_TCP r2 s of (_, _, s1) \<Rightarrow> Some s1)))"

definition tcp_receive :: "net_alloc \<Rightarrow> (net \<Rightarrow> net) list \<Rightarrow> net_device \<Rightarrow> sk_buff \<Rightarrow> net \<Rightarrow> net option" where
  "tcp_receive na ws dev b s =
     (if sb_len b < 20 then Some s
      else let g = parse_segment b in
           (case inet_lookup IPPROTO_TCP (sb_src_ip b) (sg_src_port g) (sb_dst_ip b) (sg_dst_port g) s of
              None \<Rightarrow> tcp_reset na ws dev b s
            | Some a \<Rightarrow> tcp_deliver na ws a g s))"

section \<open>Sending and closing\<close>

function send_chunks ::
  "net_alloc \<Rightarrow> (net \<Rightarrow> net) list \<Rightarrow> nat \<Rightarrow> int \<Rightarrow> u8 list \<Rightarrow> net \<Rightarrow> (int \<times> net) option" where
  "send_chunks na ws a sent data s =
     (if data = [] then Some (sent, s)
      else
        (case tcp_send_segment na ws a (TCP_PSH OR TCP_ACK) (sk_snd_nxt (sk_at s a)) (sk_rcv_nxt (sk_at s a)) (take 1460 data) s of
           None \<Rightarrow> None
         | Some (r, s1) \<Rightarrow>
             if r < 0 then Some (r, s1)
             else send_chunks na ws a (sent + int (length (take 1460 data))) (drop 1460 data)
                    (upd_sk a (\<lambda>k. k\<lparr>sk_snd_nxt := sk_snd_nxt k + word_of_nat (length (take 1460 data))\<rparr>) s1)))"
  by pat_completeness auto
termination send_chunks
  by (relation "measure (\<lambda>(na, ws, a, sent, data, s). length data)") auto

declare send_chunks.simps [simp del]

definition tcp_send_data :: "net_alloc \<Rightarrow> (net \<Rightarrow> net) list \<Rightarrow> nat \<Rightarrow> u8 list \<Rightarrow> net \<Rightarrow> (int \<times> net) option" where
  "tcp_send_data na ws a data s =
     (if sk_state (sk_at s a) \<noteq> TCP_ESTABLISHED then Some (- ENOTCONN, s)
      else if sk_shutdown_wr (sk_at s a) then Some (- EPIPE, s)
      else send_chunks na ws a 0 data s)"

definition send_fin :: "net_alloc \<Rightarrow> (net \<Rightarrow> net) list \<Rightarrow> nat \<Rightarrow> tcp_state \<Rightarrow> net \<Rightarrow> net option" where
  "send_fin na ws a st s =
     map_option (upd_sk a (\<lambda>k. k\<lparr>sk_snd_nxt := sk_snd_nxt k + 1, sk_state := st\<rparr>))
       (tcp_ack na ws a (TCP_FIN OR TCP_ACK) (sk_snd_nxt (sk_at s a)) s)"

definition tcp_close :: "net_alloc \<Rightarrow> (net \<Rightarrow> net) list \<Rightarrow> (net \<Rightarrow> net) \<Rightarrow> nat \<Rightarrow> net \<Rightarrow> (int \<times> net) option" where
  "tcp_close na ws wt a s =
     (if sk_state (sk_at s a) = TCP_CLOSED then Some (0, s)
      else
        (case (if sk_state (sk_at s a) = TCP_ESTABLISHED \<or> sk_state (sk_at s a) = TCP_SYN_RCVD
               then map_option (\<lambda>s1. set_state a TCP_CLOSED (wt s1)) (send_fin na ws a TCP_FIN_WAIT1 s)
               else if sk_state (sk_at s a) = TCP_CLOSE_WAIT then send_fin na ws a TCP_LAST_ACK s
               else Some s) of
           None \<Rightarrow> None | Some s1 \<Rightarrow> Some (0, inet_free_port (sk_local_port (sk_at s1 a)) s1)))"

section \<open>Datagrams\<close>

definition udp_receive :: "sk_buff \<Rightarrow> net \<Rightarrow> net" where
  "udp_receive b s =
     (if sb_len b < 8 then s
      else let p = skb_bytes b; src = htons (rd16 p 0); dst = htons (rd16 p 2) in
           (case inet_lookup IPPROTO_UDP (sb_src_ip b) src (sb_dst_ip b) dst s of
              None \<Rightarrow> s
            | Some a \<Rightarrow> upd_sk a (\<lambda>k. k\<lparr>sk_rcvbuf := snd (sock_ringbuf_write (sk_rcvbuf k) (drop 8 p))\<rparr>) s))"

text \<open>\<open>len\<close> is the length the caller gives, \<open>data\<close> what is there.\<close>

definition udp_send ::
  "net_alloc \<Rightarrow> (net \<Rightarrow> net) list \<Rightarrow> nat \<Rightarrow> u8 list \<Rightarrow> u32 \<Rightarrow> u32 \<Rightarrow> u16 \<Rightarrow> net \<Rightarrow> (int \<times> net) option" where
  "udp_send na ws a data len dst_ip dst_port s =
     (case netdev_get_default s of None \<Rightarrow> Some (- ENETDOWN, s)
      | Some dev \<Rightarrow>
          (case skb_alloc na (len + 8 + 20 + 14 + 32) of None \<Rightarrow> Some (- ENOMEM, s)
           | Some b \<Rightarrow>
               (case skb_put 8 b of None \<Rightarrow> None
                | Some (p, b1) \<Rightarrow>
                    let hdr = (\<lambda>c. be16 (sk_local_port (sk_at s a)) @ be16 dst_port @ be16 (ucast (8 + len)) @ le16 c);
                        b2 = skb_store p (hdr 0) b1
                    in (case skb_put len b2 of None \<Rightarrow> Some (- ENOMEM, s)
                        | Some (q, b3) \<Rightarrow>
                            let b4 = skb_store q (take (unat len) data) b3;
                                seg = take (unat (ucast (8 + len) :: u16)) (drop p (sb_mem b4));
                                b5 = skb_store p (hdr (tcp_udp_checksum (nd_ip4 dev) (htonl dst_ip) IPPROTO_UDP seg)) b4
                            in (case ip_send na ws (Some dev) (htonl dst_ip) IPPROTO_UDP b5 s of
                                  (r, _, s1) \<Rightarrow> Some (if r < 0 then r else uint len, s1))))))"

section \<open>Control messages and dispatch\<close>

definition icmp_receive :: "net_alloc \<Rightarrow> (net \<Rightarrow> net) list \<Rightarrow> net_device \<Rightarrow> sk_buff \<Rightarrow> net \<Rightarrow> net option" where
  "icmp_receive na ws dev b s =
     (if sb_len b < 8 \<or> skb_bytes b ! 0 \<noteq> 8 then Some s
      else
        (case skb_alloc na (sb_len b + 20 + 14 + 64) of None \<Rightarrow> Some s
         | Some r \<Rightarrow>
             (case skb_put 8 r of None \<Rightarrow> None
              | Some (p, r1) \<Rightarrow>
                  let hdr = (\<lambda>c. [0, 0] @ le16 c @ take 4 (drop 4 (skb_bytes b)));
                      r2 = skb_store p (hdr 0) r1;
                      r3 = (case skb_put (sb_len b - 8) r2 of None \<Rightarrow> r2
                            | Some (q, r') \<Rightarrow> if 8 < sb_len b then skb_store q (drop 8 (skb_bytes b)) r' else r');
                      r4 = skb_store p (hdr (ip_checksum (drop p (take (sb_tail r3) (sb_mem r3))))) r3
                  in (case ip_send na ws (Some dev) (htonl (sb_src_ip b)) IPPROTO_ICMP r4 s of (_, _, s1) \<Rightarrow> Some s1))))"

definition icmp_send_echo ::
  "net_alloc \<Rightarrow> (net \<Rightarrow> net) list \<Rightarrow> net_device option \<Rightarrow> u32 \<Rightarrow> u16 \<Rightarrow> u16 \<Rightarrow> net \<Rightarrow> (int \<times> net) option" where
  "icmp_send_echo na ws dev dst_ip ident seq s =
     (case skb_alloc na (8 + 64 + 20 + 14) of None \<Rightarrow> Some (- ENOMEM, s)
      | Some b \<Rightarrow>
          (case skb_put 8 b of None \<Rightarrow> None
           | Some (p, b1) \<Rightarrow>
               let hdr = (\<lambda>c. [8, 0] @ le16 c @ le32 (push_bit 16 (ucast ident) OR ucast seq));
                   b2 = skb_store p (hdr 0) b1;
                   b3 = (case skb_put 56 b2 of None \<Rightarrow> b2 | Some (q, b') \<Rightarrow> skb_store q (map word_of_nat [0..<56]) b');
                   b4 = skb_store p (hdr (ip_checksum (drop p (take (sb_tail b3) (sb_mem b3))))) b3
               in (case ip_send na ws dev dst_ip IPPROTO_ICMP b4 s of (r, _, s1) \<Rightarrow> Some (r, s1))))"

definition ip_receive :: "net_alloc \<Rightarrow> (net \<Rightarrow> net) list \<Rightarrow> net_device \<Rightarrow> sk_buff \<Rightarrow> net \<Rightarrow> net option" where
  "ip_receive na ws dev b s =
     (if sb_len b < 20 then Some s
      else
        let p = skb_bytes b; ihl = (p ! 0 AND 0x0F) * 4 in
        if ihl < 20 \<or> sb_len b < ucast ihl then Some s
        else if ip_checksum (take (unat ihl) (p[10 := 0, 11 := 0])) \<noteq> rd16 p 10 then Some s
        else (case skb_pull (ucast ihl) (b\<lparr>sb_src_ip := htonl (rd32 p 12), sb_dst_ip := htonl (rd32 p 16), sb_protocol := p ! 9\<rparr>) of
                None \<Rightarrow> Some s
              | Some (_, b1) \<Rightarrow>
                  if p ! 9 = IPPROTO_ICMP then icmp_receive na ws dev b1 s
                  else if p ! 9 = IPPROTO_UDP then Some (udp_receive b1 s)
                  else if p ! 9 = IPPROTO_TCP then tcp_receive na ws dev b1 s
                  else Some s))"

definition eth_receive :: "net_alloc \<Rightarrow> (net \<Rightarrow> net) list \<Rightarrow> net_device \<Rightarrow> sk_buff \<Rightarrow> net \<Rightarrow> net option" where
  "eth_receive na ws dev b s =
     (if sb_len b < 14 then Some s
      else
        let p = skb_bytes b; et = htons (rd16 p 12); s1 = arp_cache_insert 0 (take 6 (drop 6 p)) s in
        (case skb_pull 14 b of None \<Rightarrow> Some s1
         | Some (_, b1) \<Rightarrow>
             if et = 0x0806 then Some (arp_receive na dev b1 s1)
             else if et = 0x0800 then ip_receive na ws dev b1 s1
             else Some s1))"

end
