(* ===== verification/Tcp_Correct.thy ===== *)
theory Tcp_Correct
  imports Tcp Net_Correct
begin

text \<open>
  What TCP and the receive path guarantee, and what they do not. No segment ever leaves, because a new packet
  buffer has no room in front; no frame ever reaches a socket, because none is put into the table. What the state
  machine does to a socket it is handed is a step of the diagram of RFC 793; the accept queues count their sockets
  and hand out each once; the bytes of the segments arrive in the order of the segments; an address resolution between
  two devices succeeds, and the header one kernel sends is accepted by another.
\<close>

section \<open>Nothing is ever sent\<close>

text \<open>A buffer from \<^verbatim>\<open>skb_alloc\<close> starts at its own head, and \<^verbatim>\<open>skb_put\<close> leaves it there.\<close>

lemma skb_alloc_data: "skb_alloc na sz = Some b \<Longrightarrow> sb_data b = 0"
  by (auto simp: skb_alloc_def split: option.splits if_splits)

lemma skb_put_data: "skb_put len b = Some (p, b') \<Longrightarrow> sb_data b' = sb_data b"
  by (auto simp: skb_put_def split: if_splits)

lemma skb_store_data [simp]: "sb_data (skb_store p bs b) = sb_data b"
  by (simp add: skb_store_def)

lemma skb_put_small:
  assumes "skb_alloc na sz = Some b" "sz \<le> 2048" "len \<le> sz"
  shows "\<exists>b'. skb_put len b = Some (0, b')"
  using assms by (auto simp: skb_alloc_def skb_put_def word_le_nat_alt split: option.splits if_splits)

lemma ip_send_fails:
  "\<lbrakk>ip_send na ws dev dst_ip proto b s = (r, b', s'); sb_data b = 0\<rbrakk> \<Longrightarrow> r < 0 \<and> s' = s"
  by (auto simp: ip_send_def skb_push_def split: option.splits)

lemma tcp_send_segment_fails:
  "tcp_send_segment na ws a flags seq ack data s = Some (r, s') \<Longrightarrow> r < 0 \<and> s' = s"
  unfolding tcp_send_segment_def Let_def
  by (force split: option.splits prod.splits if_splits
      dest!: ip_send_fails skb_alloc_data dest: skb_put_data)

text \<open>A segment without data always fits its buffer, so sending one ends, without effect.\<close>

lemma tcp_send_segment_empty:
  "\<exists>r. tcp_send_segment na ws a flags seq ack [] s = Some (r, s) \<and> r < 0"
proof -
  have "tcp_send_segment na ws a flags seq ack [] s \<noteq> None"
  proof (cases "netdev_get_default s")
    case (Some dev)
    show ?thesis
    proof (cases "skb_alloc na 86")
      case None
      then show ?thesis using Some by (simp add: tcp_send_segment_def)
    next
      case (Some b)
      then obtain b' where "skb_put 20 b = Some (0, b')" using skb_put_small [OF Some, of 20] by auto
      then show ?thesis using Some \<open>netdev_get_default s = Some dev\<close>
        by (simp add: tcp_send_segment_def Let_def split: prod.splits)
    qed
  qed (simp add: tcp_send_segment_def)
  then show ?thesis using tcp_send_segment_fails by (metis option.exhaust surj_pair)
qed

lemma tcp_ack_id [simp]: "tcp_ack na ws a flags seq s = Some s"
  using tcp_send_segment_empty [of na ws a flags seq "sk_rcv_nxt (sk_at s a)" s] by (auto simp: tcp_ack_def)

lemma udp_send_fails:
  "udp_send na ws a data len dst_ip dst_port s = Some (r, s') \<Longrightarrow> r < 0 \<and> s' = s"
  unfolding udp_send_def Let_def
  by (force split: option.splits prod.splits if_splits dest!: ip_send_fails skb_alloc_data dest: skb_put_data)

lemma icmp_send_echo_fails:
  "icmp_send_echo na ws dev dst_ip ident seq s = Some (r, s') \<Longrightarrow> r < 0 \<and> s' = s"
  unfolding icmp_send_echo_def Let_def
  by (force split: option.splits prod.splits if_splits dest!: ip_send_fails skb_alloc_data dest: skb_put_data)

lemma tcp_reset_id: "tcp_reset na ws dev b s = Some s' \<Longrightarrow> s' = s"
  unfolding tcp_reset_def Let_def
  by (force split: option.splits prod.splits if_splits dest!: ip_send_fails skb_alloc_data dest: skb_put_data)

lemma icmp_receive_id: "icmp_receive na ws dev b s = Some s' \<Longrightarrow> s' = s"
  unfolding icmp_receive_def Let_def
  by (force split: option.splits prod.splits if_splits dest!: ip_send_fails skb_alloc_data dest: skb_put_data)

lemma tcp_connect_fails: "\<exists>r s'. tcp_connect na ws wt a dst_ip dst_port s = Some (r, s') \<and> r < 0"
proof (cases "sk_state (sk_at s a) = TCP_CLOSED")
  case True
  obtain R where R: "\<And>fl seq ack s. tcp_send_segment na ws a fl seq ack [] s = Some (R fl seq ack s, s)"
      "\<And>fl seq ack s. R fl seq ack s < 0"
    using tcp_send_segment_empty [of na ws a] by metis
  then show ?thesis
    using R by (auto simp: tcp_connect_def Let_def split: prod.splits)
qed (simp add: tcp_connect_def)


text \<open>Data that is not empty is refused with the error of the first segment.\<close>

lemma tcp_send_data_fails:
  assumes "tcp_send_data na ws a data s = Some (r, s')" "data \<noteq> []"
  shows "r < 0 \<and> s' = s"
  using assms
  by (auto simp: tcp_send_data_def send_chunks.simps [of na ws a 0 data s] split: if_splits option.splits prod.splits
      dest!: tcp_send_segment_fails)

section \<open>The table of sockets stays empty\<close>

definition table_empty :: "net \<Rightarrow> bool" where
  "table_empty s \<longleftrightarrow> (\<forall>x\<in>set (n_table s). x = None)"

lemma lookup_empty:
  assumes "table_empty s"
  shows "inet_lookup proto src_ip src_port dst_ip dst_port s = None"
proof -
  have "lookup_from proto dst_ip dst_port socks xs = None" if "\<forall>x\<in>set xs. x = None" for socks xs
    using that by (induction xs) auto
  then show ?thesis using assms by (simp add: inet_lookup_def table_empty_def)
qed

lemma table_empty_init [simp]: "table_empty net_init"
  by (auto simp: table_empty_def net_init_def)

lemma arp_insert_fields [simp]:
  "n_socks (arp_cache_insert ip mac s) = n_socks s" "n_table (arp_cache_insert ip mac s) = n_table s"
  by (simp_all add: arp_cache_insert_def)

lemma transmit_fields [simp]:
  "n_socks (snd (transmit dev b s)) = n_socks s" "n_table (snd (transmit dev b s)) = n_table s"
  by (simp_all add: transmit_def split: option.splits)

lemma arp_receive_fields [simp]:
  "n_socks (arp_receive na dev b s) = n_socks s" "n_table (arp_receive na dev b s) = n_table s"
  by (simp_all add: arp_receive_def Let_def split: option.splits)

lemma ip_receive_id:
  assumes "table_empty s" "ip_receive na ws dev b s = Some s'"
  shows "s' = s"
  using assms lookup_empty [OF assms(1)]
  by (auto simp: ip_receive_def tcp_receive_def udp_receive_def Let_def
      split: if_splits option.splits prod.splits dest!: icmp_receive_id tcp_reset_id)

lemma eth_receive_no_socket:
  assumes "table_empty s" "eth_receive na ws dev b s = Some s'"
  shows "n_socks s' = n_socks s \<and> table_empty s'"
proof -
  have e: "table_empty (arp_cache_insert ip mac s)" for ip mac using assms(1) by (simp add: table_empty_def)
  have ip: "n_socks s' = n_socks s \<and> table_empty s'"
    if "ip_receive na ws dev b' (arp_cache_insert ip mac s) = Some s'" for b' ip mac
    using ip_receive_id [OF e that] assms(1) by (simp add: table_empty_def)
  show ?thesis
    using assms ip
    by (auto simp: eth_receive_def Let_def table_empty_def split: if_splits option.splits prod.splits)
qed

text \<open>The frames that arrive one after the other.\<close>

fun receive_all :: "net_alloc \<Rightarrow> (net \<Rightarrow> net) list \<Rightarrow> net_device \<Rightarrow> sk_buff list \<Rightarrow> net \<Rightarrow> net option" where
  "receive_all na ws dev [] s = Some s"
| "receive_all na ws dev (b # bs) s =
     (case eth_receive na ws dev b s of None \<Rightarrow> None | Some s1 \<Rightarrow> receive_all na ws dev bs s1)"

lemma receive_all_no_socket:
  "\<lbrakk>table_empty s; receive_all na ws dev bs s = Some s'\<rbrakk> \<Longrightarrow> n_socks s' = n_socks s \<and> table_empty s'"
  by (induction bs arbitrary: s) (auto split: option.splits dest: eth_receive_no_socket)

section \<open>The state machine\<close>

text \<open>The state diagram of RFC 793, with the flags a segment must carry for each edge.\<close>

inductive rfc_step :: "segment \<Rightarrow> tcp_state \<Rightarrow> tcp_state \<Rightarrow> bool" for g where
  reset: "\<lbrakk>has g TCP_RST; st \<noteq> TCP_LISTEN\<rbrakk> \<Longrightarrow> rfc_step g st TCP_CLOSED"
| open_done: "\<lbrakk>has g TCP_SYN; has g TCP_ACK\<rbrakk> \<Longrightarrow> rfc_step g TCP_SYN_SENT TCP_ESTABLISHED"
| open_both: "\<lbrakk>has g TCP_SYN; \<not> has g TCP_ACK\<rbrakk> \<Longrightarrow> rfc_step g TCP_SYN_SENT TCP_SYN_RCVD"
| accepted: "has g TCP_ACK \<Longrightarrow> rfc_step g TCP_SYN_RCVD TCP_ESTABLISHED"
| peer_closes: "has g TCP_FIN \<Longrightarrow> rfc_step g TCP_ESTABLISHED TCP_CLOSE_WAIT"
| fin_acked: "\<lbrakk>has g TCP_ACK; \<not> has g TCP_FIN\<rbrakk> \<Longrightarrow> rfc_step g TCP_FIN_WAIT1 TCP_FIN_WAIT2"
| closing: "\<lbrakk>has g TCP_FIN; \<not> has g TCP_ACK\<rbrakk> \<Longrightarrow> rfc_step g TCP_FIN_WAIT1 TCP_CLOSING"
| fin_fin: "\<lbrakk>has g TCP_FIN; has g TCP_ACK\<rbrakk> \<Longrightarrow> rfc_step g TCP_FIN_WAIT1 TCP_TIME_WAIT"
| fin_late: "has g TCP_FIN \<Longrightarrow> rfc_step g TCP_FIN_WAIT2 TCP_TIME_WAIT"
| closing_acked: "has g TCP_ACK \<Longrightarrow> rfc_step g TCP_CLOSING TCP_TIME_WAIT"
| last_acked: "has g TCP_ACK \<Longrightarrow> rfc_step g TCP_LAST_ACK TCP_CLOSED"
| waited: "rfc_step g TCP_TIME_WAIT TCP_CLOSED"

lemma upd_sk_same [simp]: "n_socks (upd_sk a f s) a = map_option f (n_socks s a)"
  by (simp add: upd_sk_def)

lemma upd_sk_other [simp]: "b \<noteq> a \<Longrightarrow> n_socks (upd_sk a f s) b = n_socks s b"
  by (simp add: upd_sk_def)

definition fresh_socks :: "net_alloc \<Rightarrow> bool" where
  "fresh_socks na \<longleftrightarrow> (\<forall>m n. na_sock na m = Some n \<longrightarrow> m n = None)"

lemma tcp_deliver_some: "\<exists>s'. tcp_deliver na ws a g s = Some s'"
  by (auto simp: tcp_deliver_def rcv_listen_def rcv_syn_sent_def rcv_established_def rcv_data_def rcv_fin_def
      rcv_fin_wait1_def Let_def split: tcp_state.splits option.splits prod.splits)

text \<open>What a segment for socket \<open>a\<close> does to the sockets: \<open>a\<close> changes as \<open>f\<close> says, a new one may appear.\<close>

lemma sk_alloc_socks:
  assumes "fresh_socks na" "sk_alloc na fam ty pr s = (Some n, s')"
  shows "n_socks s n = None" "\<exists>k. n_socks s' = (n_socks s)(n \<mapsto> k)" "n_table s' = n_table s"
  using assms by (auto simp: sk_alloc_def fresh_socks_def split: option.splits)

lemma rcv_listen_socks:
  assumes "n_socks s a = Some k" "fresh_socks na" "rcv_listen na ws a g s = Some s'"
  shows "(\<exists>k'. n_socks s' a = Some k' \<and> sk_state k' = sk_state k) \<and> (\<forall>b. b \<noteq> a \<longrightarrow> n_socks s b \<noteq> None \<longrightarrow> n_socks s' b = n_socks s b)"
proof -
  have ne: "sk_alloc na fam ty pr s = (None, s1) \<Longrightarrow> s1 = s" for fam ty pr s1
    by (simp add: sk_alloc_def split: option.splits)
  show ?thesis
  proof (cases "sk_alloc na (sk_family (sk_at s a)) (sk_type (sk_at s a)) (sk_protocol (sk_at s a)) s")
    case (Pair n1 s1)
    show ?thesis
    proof (cases n1)
      case None
      then have "s1 = s" using Pair ne by simp
      then show ?thesis using assms(1,3) None Pair by (auto simp: rcv_listen_def split: if_splits)
    next
      case (Some n)
      note f = sk_alloc_socks [OF assms(2) Pair [unfolded Some]]
      then have "n \<noteq> a" using assms(1) by auto
      then show ?thesis using assms f Pair Some
        by (auto simp: rcv_listen_def Let_def upd_sk_def split: if_splits)
    qed
  qed
qed

lemma tcp_deliver_step:
  assumes "n_socks s a = Some k" "fresh_socks na" "\<not> (sk_state k = TCP_LISTEN \<and> has g TCP_RST)"
  shows "\<exists>s' k'. tcp_deliver na ws a g s = Some s' \<and> n_socks s' a = Some k'
    \<and> (sk_state k' = sk_state k \<or> rfc_step g (sk_state k) (sk_state k'))
    \<and> (\<forall>b. b \<noteq> a \<longrightarrow> n_socks s b \<noteq> None \<longrightarrow> n_socks s' b = n_socks s b)"
proof (cases "sk_state k = TCP_LISTEN")
  case True
  have eq: "tcp_deliver na ws a g s = rcv_listen na ws a g s"
    using True assms(1,3) by (simp add: tcp_deliver_def sk_at_def)
  then obtain s' where "rcv_listen na ws a g s = Some s'" using tcp_deliver_some [of na ws a g s] by auto
  then show ?thesis using rcv_listen_socks [OF assms(1,2)] unfolding eq by blast
next
  case False
  have at: "sk_at s a = k" using assms(1) by (simp add: sk_at_def)
  show ?thesis
  proof (cases "has g TCP_RST")
    case True
    then show ?thesis using False assms(1) by (auto simp: tcp_deliver_def intro: rfc_step.intros)
  next
    case nr: False
    show ?thesis
      using False nr assms(1)
      by (cases "sk_state k")
        (auto simp: tcp_deliver_def at rcv_syn_sent_def rcv_established_def rcv_data_def rcv_fin_def
          rcv_fin_wait1_def set_state_def Let_def intro: rfc_step.intros)
  qed
qed

section \<open>The accept queues\<close>

text \<open>Of a socket, its backlog, the limit, and the queue.\<close>

definition queues :: "net \<Rightarrow> nat \<Rightarrow> (int \<times> int \<times> nat list) option" where
  "queues s = (\<lambda>a. map_option (\<lambda>k. (sk_backlog_len k, sk_backlog_max k, sk_accept_queue k)) (n_socks s a))"

text \<open>The backlog counts the queue and respects the limit, and no socket waits twice.\<close>

definition queues_ok :: "(nat \<Rightarrow> (int \<times> int \<times> nat list) option) \<Rightarrow> bool" where
  "queues_ok v \<longleftrightarrow>
     (\<forall>a l m q. v a = Some (l, m, q) \<longrightarrow> l = int (length q) \<and> l \<le> m \<and> distinct q \<and> set q \<subseteq> dom v) \<and>
     (\<forall>a b l m q l' m' q'. a \<noteq> b \<longrightarrow> v a = Some (l, m, q) \<longrightarrow> v b = Some (l', m', q') \<longrightarrow> set q \<inter> set q' = {})"

definition accept_ok :: "net \<Rightarrow> bool" where
  "accept_ok s \<longleftrightarrow> queues_ok (queues s)"

lemma queues_upd [simp]:
  assumes "\<And>k. sk_accept_queue (f k) = sk_accept_queue k" "\<And>k. sk_backlog_len (f k) = sk_backlog_len k"
    "\<And>k. sk_backlog_max (f k) = sk_backlog_max k"
  shows "queues (upd_sk a f s) = queues s"
  by (auto simp: queues_def upd_sk_def fun_eq_iff option.map_comp comp_def assms)

lemma queues_ok_child:
  assumes "queues_ok v" "v n = None" "0 \<le> m"
  shows "queues_ok (v(n \<mapsto> (0, m, [])))"
  using assms unfolding queues_ok_def by (auto simp: subset_eq)

lemma queues_ok_enqueue:
  assumes "queues_ok v" "v a = Some (l, m, q)" "l < m" "v n \<noteq> None" "\<And>b l m q. v b = Some (l, m, q) \<Longrightarrow> n \<notin> set q"
  shows "queues_ok (v(a \<mapsto> (l + 1, m, q @ [n])))"
  using assms unfolding queues_ok_def by (auto simp: subset_eq dom_def)

lemma queues_ok_dequeue:
  assumes "queues_ok v" "v a = Some (l, m, x # q)"
  shows "queues_ok (v(a \<mapsto> (l - 1, m, q)))"
    and "(v(a \<mapsto> (l - 1, m, q))) b = Some (l', m', q') \<Longrightarrow> x \<notin> set q'" and "v x \<noteq> None"
proof -
  have v: "l = int (Suc (length q))" "l \<le> m" "x \<notin> set q" "distinct q" "v x \<noteq> None" "set q \<subseteq> dom v"
    using assms unfolding queues_ok_def by (fastforce simp: subset_eq)+
  have other: "x \<notin> set q' \<and> set q \<inter> set q' = {}" if "v b = Some (l', m', q')" "b \<noteq> a" for b l' m' q'
    using assms that unfolding queues_ok_def by (metis disjoint_insert(1) list.set(2) Int_commute)
  show "v x \<noteq> None" by (rule v(5))
  show "(v(a \<mapsto> (l - 1, m, q))) b = Some (l', m', q') \<Longrightarrow> x \<notin> set q'"
    using v(3) other by (auto split: if_splits)
  show "queues_ok (v(a \<mapsto> (l - 1, m, q)))"
    using assms(1) v other unfolding queues_ok_def by (auto simp: subset_eq dom_def Int_commute)
qed

lemma accept_ok_upd [simp]:
  assumes "\<And>k. sk_accept_queue (f k) = sk_accept_queue k" "\<And>k. sk_backlog_len (f k) = sk_backlog_len k"
    "\<And>k. sk_backlog_max (f k) = sk_backlog_max k"
  shows "accept_ok (upd_sk a f s) = accept_ok s"
  unfolding accept_ok_def using queues_upd [of f, OF assms] by simp

lemma queues_alloc:
  assumes "fresh_socks na" "sk_alloc na fam ty pr s = (Some n, s')"
  shows "queues s' = (queues s)(n \<mapsto> (0, 128, []))" "queues s n = None"
  using assms by (auto simp: sk_alloc_def fresh_socks_def queues_def sk_zero_def fun_eq_iff split: option.splits)

lemma queues_enqueue:
  assumes "n_socks s a = Some k"
  shows "queues (upd_sk a (\<lambda>k. k\<lparr>sk_accept_queue := sk_accept_queue k @ [n], sk_backlog_len := sk_backlog_len k + 1\<rparr>) s)
     = (queues s)(a \<mapsto> (sk_backlog_len k + 1, sk_backlog_max k, sk_accept_queue k @ [n]))"
  using assms by (auto simp: queues_def upd_sk_def fun_eq_iff)

lemma rcv_listen_accept_ok:
  assumes "accept_ok s" "fresh_socks na" "n_socks s a = Some k" "rcv_listen na ws a g s = Some s'"
  shows "accept_ok s'"
proof (cases "sk_alloc na (sk_family (sk_at s a)) (sk_type (sk_at s a)) (sk_protocol (sk_at s a)) s")
  case (Pair n1 s1)
  show ?thesis
  proof (cases "n1 = None \<or> \<not> has g TCP_SYN \<or> sk_backlog_max k \<le> sk_backlog_len k")
    case True
    then show ?thesis
      using assms Pair by (auto simp: rcv_listen_def sk_at_def sk_alloc_def split: if_splits option.splits)
  next
    case False
    then obtain n where n: "n1 = Some n" and c: "has g TCP_SYN" "sk_backlog_len k < sk_backlog_max k" by auto
    note q = queues_alloc [OF assms(2) Pair [unfolded n]]
    let ?v = "(queues s)(n \<mapsto> (0, 128, []))"
    have a: "queues s a = Some (sk_backlog_len k, sk_backlog_max k, sk_accept_queue k)" "a \<noteq> n"
      using assms(3) q(2) by (auto simp: queues_def)
    have ok: "queues_ok ?v" using assms(1) q(2) by (intro queues_ok_child) (simp_all add: accept_ok_def)
    have sub: "n \<notin> set q'" if "?v b = Some (l', m', q')" for b l' m' q'
      using that assms(1) q(2) unfolding accept_ok_def queues_ok_def by (fastforce split: if_splits)
    have enq: "queues_ok (?v(a \<mapsto> (sk_backlog_len k + 1, sk_backlog_max k, sk_accept_queue k @ [n])))"
      using a c(2) sub by (intro queues_ok_enqueue [OF ok]) auto
    define s2 where "s2 = upd_sk n (\<lambda>k. k\<lparr>sk_local_ip := ucast (sg_dst_port g), sk_local_port := sg_dst_port g,
        sk_remote_ip := sg_src_ip g, sk_remote_port := sg_src_port g, sk_rcv_seq := sg_seq g,
        sk_rcv_nxt := sg_seq g + 1, sk_snd_seq := ucast (n_jiffies s1 * 6271), sk_snd_nxt := ucast (n_jiffies s1 * 6271) + 1,
        sk_rcv_wnd := SOCK_RCVBUF_SIZE, sk_state := TCP_SYN_RCVD\<rparr>) s1"
    have q2: "queues s2 = ?v" unfolding s2_def q(1) [symmetric] by (rule queues_upd) simp_all
    have "n_socks s2 a = Some k"
      using assms(3) a(2) sk_alloc_socks [OF assms(2) Pair [unfolded n]] by (auto simp: s2_def)
    note e = queues_enqueue [OF this, of n]
    have "s' = s2 \<or> s' = upd_sk a (\<lambda>k. k\<lparr>sk_accept_queue := sk_accept_queue k @ [n], sk_backlog_len := sk_backlog_len k + 1\<rparr>) s2"
      using assms(3,4) c Pair n by (auto simp: rcv_listen_def Let_def sk_at_def s2_def split: if_splits)
    then show ?thesis using ok enq unfolding accept_ok_def by (auto simp: e q2)
  qed
qed


lemma tcp_deliver_accept_ok:
  assumes "accept_ok s" "fresh_socks na" "n_socks s a = Some k" "tcp_deliver na ws a g s = Some s'"
  shows "accept_ok s'"
proof (cases "sk_state k = TCP_LISTEN \<and> \<not> has g TCP_RST")
  case True
  then show ?thesis using assms rcv_listen_accept_ok [OF assms(1-3)] by (simp add: tcp_deliver_def sk_at_def)
next
  case False
  then show ?thesis
    using assms(1,3,4)
    by (cases "sk_state k")
      (auto simp: tcp_deliver_def sk_at_def rcv_syn_sent_def rcv_established_def rcv_data_def rcv_fin_def
        rcv_fin_wait1_def set_state_def Let_def split: if_splits)
qed

text \<open>The accept queue is a queue of sockets that are handed out once.\<close>

lemma accept_pop_correct:
  assumes "accept_ok s" "accept_pop a s = Some (x, s')"
  shows "accept_ok s'" "n_socks s' x \<noteq> None" "\<And>b k. n_socks s' b = Some k \<Longrightarrow> x \<notin> set (sk_accept_queue k)"
    "\<exists>k. n_socks s a = Some k \<and> hd (sk_accept_queue k) = x"
proof -
  obtain k xs where k: "n_socks s a = Some k" "sk_accept_queue k = x # xs"
    using assms(2) by (auto simp: accept_pop_def sk_at_def sk_zero_def split: option.splits list.splits)
  have s': "s' = upd_sk a (\<lambda>k. k\<lparr>sk_accept_queue := xs, sk_backlog_len := sk_backlog_len k - 1\<rparr>) s"
    using assms(2) k by (simp add: accept_pop_def sk_at_def)
  have q: "queues s a = Some (sk_backlog_len k, sk_backlog_max k, x # xs)" using k by (simp add: queues_def)
  have q': "queues s' = (queues s)(a \<mapsto> (sk_backlog_len k - 1, sk_backlog_max k, xs))"
    using k by (auto simp: queues_def s' upd_sk_def fun_eq_iff)
  note d = queues_ok_dequeue [OF assms(1) [unfolded accept_ok_def] q]
  show "accept_ok s'" unfolding accept_ok_def q' by (rule d(1))
  show "n_socks s' x \<noteq> None" using d(3) k(1) by (auto simp: s' upd_sk_def queues_def)
  show "x \<notin> set (sk_accept_queue k')" if "n_socks s' b = Some k'" for b k'
    using d(2) [folded q', of b] that by (simp add: queues_def)
  show "\<exists>k. n_socks s a = Some k \<and> hd (sk_accept_queue k) = x" using k by simp
qed

lemma tcp_accept_ok:
  assumes "accept_ok s" "\<And>w t. w \<in> set ws \<Longrightarrow> accept_ok t \<Longrightarrow> accept_ok (w t)" "tcp_accept ws a flags s = (r, s')"
  shows "accept_ok s' \<and> (\<forall>x. r = Inr x \<longrightarrow> n_socks s' x \<noteq> None \<and> (\<forall>b k. n_socks s' b = Some k \<longrightarrow> x \<notin> set (sk_accept_queue k)))"
proof -
  have "accept_poll nb ws a s = (r, s') \<Longrightarrow> ?thesis" for nb
    using assms(1,2)
    by (induction ws arbitrary: s) (fastforce split: option.splits if_splits dest: accept_pop_correct)+
  then show ?thesis using assms(3) unfolding tcp_accept_def by blast
qed


text \<open>The calls of the socket layer and the receive path.\<close>

datatype tcp_call = TListen nat | TConnect nat u32 u16 | TAccept nat u32 | TDeliver nat segment | TSend nat "u8 list"
  | TClose nat

fun tcp_do :: "net_alloc \<Rightarrow> (net \<Rightarrow> net) list \<Rightarrow> (net \<Rightarrow> net) \<Rightarrow> tcp_call \<Rightarrow> net \<Rightarrow> net option" where
  "tcp_do na ws wt (TListen a) s = Some (snd (tcp_listen a s))"
| "tcp_do na ws wt (TConnect a ip port) s = map_option snd (tcp_connect na ws wt a ip port s)"
| "tcp_do na ws wt (TAccept a flags) s = Some (snd (tcp_accept ws a flags s))"
| "tcp_do na ws wt (TDeliver a g) s = (if n_socks s a = None then Some s else tcp_deliver na ws a g s)"
| "tcp_do na ws wt (TSend a data) s = map_option snd (tcp_send_data na ws a data s)"
| "tcp_do na ws wt (TClose a) s = map_option snd (tcp_close na ws wt a s)"

lemma alloc_port_socks [simp]: "n_socks (snd (inet_alloc_port s)) = n_socks s"
  unfolding inet_alloc_port_def alloc_port_loop_spec by (simp split: option.splits)

lemma accept_ok_socks: "n_socks s' = n_socks s \<Longrightarrow> accept_ok s' = accept_ok s"
  by (simp add: accept_ok_def queues_def)

lemma tcp_connect_accept_ok:
  assumes "accept_ok s" "tcp_connect na ws wt a ip port s = Some (r, s')"
  shows "accept_ok s'"
proof -
  have p: "accept_ok s0" if "inet_alloc_port s = (p, s0)" for p s0
    using accept_ok_socks [of s0 s] alloc_port_socks [of s] that assms(1) by simp
  obtain R where R: "\<And>fl seq ack s. tcp_send_segment na ws a fl seq ack [] s = Some (R fl seq ack s, s)"
      "\<And>fl seq ack s. R fl seq ack s < 0"
    using tcp_send_segment_empty [of na ws a] by metis
  show ?thesis
    using assms p by (auto simp: tcp_connect_def Let_def R split: if_splits prod.splits)
qed

lemma tcp_close_accept_ok:
  assumes "accept_ok s" "\<And>t. accept_ok t \<Longrightarrow> accept_ok (wt t)" "tcp_close na ws wt a s = Some (r, s')"
  shows "accept_ok s'"
proof -
  have f: "accept_ok (inet_free_port p t) = accept_ok t" for p t
    by (rule accept_ok_socks) (simp add: inet_free_port_def)
  show ?thesis
    using assms by (auto simp: tcp_close_def send_fin_def set_state_def f split: if_splits)
qed

lemma send_chunks_accept_ok:
  assumes "accept_ok s" "send_chunks na ws a n data s = Some (r, s')"
  shows "accept_ok s'"
  using assms send_chunks.simps [of na ws a n data s]
  by (auto split: if_splits option.splits prod.splits dest!: tcp_send_segment_fails)

lemma tcp_do_accept_ok:
  assumes "accept_ok s" "fresh_socks na" "\<And>w t. w \<in> insert wt (set ws) \<Longrightarrow> accept_ok t \<Longrightarrow> accept_ok (w t)"
    and "tcp_do na ws wt c s = Some s'"
  shows "accept_ok s'"
proof (cases c)
  case (TListen a)
  then show ?thesis using assms(1,4) by (auto simp: tcp_listen_def)
next
  case (TConnect a ip port)
  then show ?thesis using assms(1,4) tcp_connect_accept_ok by fastforce
next
  case (TAccept a flags)
  then show ?thesis using assms tcp_accept_ok [OF assms(1), of ws a flags "fst (tcp_accept ws a flags s)" s'] by (cases "tcp_accept ws a flags s") auto
next
  case (TDeliver a g)
  then show ?thesis using assms tcp_deliver_accept_ok by (auto split: if_splits)
next
  case (TSend a data)
  then obtain r where "tcp_send_data na ws a data s = Some (r, s')" using assms(4) by auto
  then show ?thesis using assms(1) send_chunks_accept_ok [of s na ws a 0 data r s']
    by (auto simp: tcp_send_data_def split: if_splits)
next
  case (TClose a)
  then obtain r where "tcp_close na ws wt a s = Some (r, s')" using assms(4) by auto
  moreover have "accept_ok (wt t)" if "accept_ok t" for t using assms(3) that by blast
  ultimately show ?thesis using tcp_close_accept_ok [of s wt na ws a r s'] assms(1) by blast
qed

fun tcp_run :: "net_alloc \<Rightarrow> (net \<Rightarrow> net) list \<Rightarrow> (net \<Rightarrow> net) \<Rightarrow> tcp_call list \<Rightarrow> net \<Rightarrow> net option" where
  "tcp_run na ws wt [] s = Some s"
| "tcp_run na ws wt (c # cs) s = (case tcp_do na ws wt c s of None \<Rightarrow> None | Some s1 \<Rightarrow> tcp_run na ws wt cs s1)"

lemma tcp_run_accept_ok:
  assumes "fresh_socks na" "\<And>w t. w \<in> insert wt (set ws) \<Longrightarrow> accept_ok t \<Longrightarrow> accept_ok (w t)"
  shows "\<lbrakk>accept_ok s; tcp_run na ws wt cs s = Some s'\<rbrakk> \<Longrightarrow> accept_ok s'"
proof (induction cs arbitrary: s)
  case (Cons c cs)
  then obtain s1 where s1: "tcp_do na ws wt c s = Some s1" "tcp_run na ws wt cs s1 = Some s'"
    by (auto split: option.splits)
  have "accept_ok s1"
    by (rule tcp_do_accept_ok [of s na wt ws c]) (use Cons.prems(1) assms s1(1) in auto)
  then show ?case using Cons.IH s1(2) by blast
qed simp

section \<open>Data\<close>

text \<open>Segments of an established connection that only carry data.\<close>

definition plain :: "segment \<Rightarrow> bool" where
  "plain g \<longleftrightarrow> \<not> has g TCP_RST \<and> \<not> has g TCP_FIN \<and> length (sg_payload g) < 2 ^ 32"

lemma deliver_plain:
  assumes "n_socks s a = Some k" "sk_state k = TCP_ESTABLISHED" "plain g" "rb_ok (sk_rcvbuf k)"
  shows "\<exists>s' k'. tcp_deliver na ws a g s = Some s' \<and> n_socks s' a = Some k' \<and> sk_state k' = TCP_ESTABLISHED
    \<and> rb_ok (sk_rcvbuf k') \<and> rb_cap (sk_rcvbuf k') = rb_cap (sk_rcvbuf k)
    \<and> rb_contents (sk_rcvbuf k') = rb_contents (sk_rcvbuf k)
        @ take (rb_cap (sk_rcvbuf k) - length (rb_contents (sk_rcvbuf k))) (sg_payload g)
    \<and> sk_rcv_nxt k' = sk_rcv_nxt k + word_of_nat (length (sg_payload g))"
proof -
  have at: "sk_at s a = k" using assms(1) by (simp add: sk_at_def)
  have len: "length (sg_payload g) < 2 ^ 32" and fl: "\<not> has g TCP_RST" "\<not> has g TCP_FIN" using assms(3) by (auto simp: plain_def)
  obtain n rb where p: "put_some rb_put (sk_rcvbuf k) (sg_payload g) = (n, rb)" by fastforce
  have w: "sock_ringbuf_write (sk_rcvbuf k) (sg_payload g) = (int n, rb)"
    using write_is_put_some [OF assms(4) len] p by simp
  have r: "n = min (length (sg_payload g)) (rb_cap (sk_rcvbuf k) - length (rb_contents (sk_rcvbuf k)))"
      "rb_contents rb = rb_contents (sk_rcvbuf k) @ take n (sg_payload g)" "rb_ok rb" "rb_cap rb = rb_cap (sk_rcvbuf k)"
    using sr.put_some_spec [OF assms(4), of "sg_payload g"] p by auto
  have t: "take n (sg_payload g) = take (rb_cap (sk_rcvbuf k) - length (rb_contents (sk_rcvbuf k))) (sg_payload g)"
    unfolding r(1) by (metis min.commute take_all_iff take_take linorder_not_less nle_le order.refl min_def)
  show ?thesis
    using assms(1,2,4) fl w r(2-4) t at
    by (auto simp: tcp_deliver_def rcv_established_def rcv_data_def Let_def)
qed

fun deliver_all :: "net_alloc \<Rightarrow> (net \<Rightarrow> net) list \<Rightarrow> nat \<Rightarrow> segment list \<Rightarrow> net \<Rightarrow> net option" where
  "deliver_all na ws a [] s = Some s"
| "deliver_all na ws a (g # gs) s =
     (case tcp_deliver na ws a g s of None \<Rightarrow> None | Some s1 \<Rightarrow> deliver_all na ws a gs s1)"

lemma deliver_all_stream:
  assumes "n_socks s a = Some k" "sk_state k = TCP_ESTABLISHED" "\<forall>g\<in>set gs. plain g" "rb_ok (sk_rcvbuf k)"
    and "length (rb_contents (sk_rcvbuf k)) + length (concat (map sg_payload gs)) \<le> rb_cap (sk_rcvbuf k)"
  shows "\<exists>s' k'. deliver_all na ws a gs s = Some s' \<and> n_socks s' a = Some k' \<and> rb_ok (sk_rcvbuf k')
    \<and> rb_contents (sk_rcvbuf k') = rb_contents (sk_rcvbuf k) @ concat (map sg_payload gs)
    \<and> sk_rcv_nxt k' = sk_rcv_nxt k + word_of_nat (length (concat (map sg_payload gs)))"
  using assms
proof (induction gs arbitrary: s k)
  case (Cons g gs)
  obtain s1 k1 where d: "tcp_deliver na ws a g s = Some s1" "n_socks s1 a = Some k1" "sk_state k1 = TCP_ESTABLISHED"
      "rb_ok (sk_rcvbuf k1)" "rb_cap (sk_rcvbuf k1) = rb_cap (sk_rcvbuf k)"
      "rb_contents (sk_rcvbuf k1) = rb_contents (sk_rcvbuf k) @ sg_payload g"
      "sk_rcv_nxt k1 = sk_rcv_nxt k + word_of_nat (length (sg_payload g))"
    using deliver_plain [OF Cons.prems(1,2) _ Cons.prems(4), of g na ws] Cons.prems(3,5) by auto
  show ?case
    using Cons.IH [OF d(2,3) _ d(4)] Cons.prems(3,5) d by (auto simp: algebra_simps)
qed auto

section \<open>Frames\<close>

definition carries :: "sk_buff \<Rightarrow> u8 list \<Rightarrow> bool" where
  "carries b fr \<longleftrightarrow> skb_bytes b = fr \<and> unat (sb_len b) = length fr"

lemma rd16_le16: "\<lbrakk>bs ! i = ucast v; bs ! (i + 1) = ucast (drop_bit 8 v)\<rbrakk> \<Longrightarrow> rd16 bs i = (v :: u16)"
  unfolding rd16_def by (rule bit_eqI) (auto simp: bit_simps)

lemma htons_rd16_be16: "\<lbrakk>bs ! i = ucast (drop_bit 8 v); bs ! (i + 1) = ucast v\<rbrakk> \<Longrightarrow> htons (rd16 bs i) = (v :: u16)"
  unfolding rd16_def htons_def by (rule bit_eqI) (auto simp: bit_simps)

lemma rd32_le32:
  "\<lbrakk>bs ! i = ucast v; bs ! (i + 1) = ucast (drop_bit 8 v); bs ! (i + 2) = ucast (drop_bit 16 v);
    bs ! (i + 3) = ucast (drop_bit 24 v)\<rbrakk> \<Longrightarrow> rd32 bs i = (v :: u32)"
proof (rule bit_eqI)
  fix n
  assume b: "bs ! i = ucast v" "bs ! (i + 1) = ucast (drop_bit 8 v)" "bs ! (i + 2) = ucast (drop_bit 16 v)"
    "bs ! (i + 3) = ucast (drop_bit 24 v)" and "possible_bit TYPE(u32) n"
  then have "n < 32" by simp
  then consider "n < 8" | "8 \<le> n" "n < 16" | "16 \<le> n" "n < 24" | "24 \<le> n" "n < 32" by linarith
  then show "bit (rd32 bs i) n = bit v n"
    unfolding rd32_def b by cases (auto simp: bit_simps)
qed

lemma length_headers [simp]:
  "length (le16 v) = 2" "length (be16 v) = 2" "length (le32 w) = 4" "length (be32 w) = 4"
  by (simp_all add: le16_def be16_def le32_def be32_def)

lemma length_eth_hdr [simp]: "length dst = 6 \<Longrightarrow> length src = 6 \<Longrightarrow> length (eth_hdr dst src et) = 14"
  by (simp add: eth_hdr_def)

lemma length_arp_pkt [simp]: "length sm = 6 \<Longrightarrow> length tm = 6 \<Longrightarrow> length (arp_pkt op sm sip tm tip) = 28"
  by (simp add: arp_pkt_def)

lemma length_ip_hdr [simp]: "length (ip_hdr tot ident proto c src dst) = 20"
  by (simp add: ip_hdr_def)

lemma two_headers_bytes:
  assumes "na_skb na" "length h1 = 14" "length h2 = 28"
  shows "\<exists>b. two_headers na h1 h2 = Some b \<and> skb_bytes b = h1 @ h2"
  using assms by (auto simp: two_headers_def skb_alloc_def skb_put_def skb_store_def skb_bytes_def)

lemma skb_pull_carries:
  assumes "carries b (h @ fr)" "length h = unat n"
  shows "\<exists>p b1. skb_pull n b = Some (p, b1) \<and> carries b1 fr
     \<and> b1 = b\<lparr>sb_data := sb_data b + length h, sb_len := sb_len b - n\<rparr>"
proof -
  have le: "n \<le> sb_len b" and len: "unat (sb_len b - n) = length fr"
    using assms by (auto simp: carries_def word_le_nat_alt unat_sub)
  have "take (length h + length fr) (drop (sb_data b) (sb_mem b)) = h @ fr"
    using assms by (auto simp: carries_def skb_bytes_def)
  then have "drop (length h) (take (length h + length fr) (drop (sb_data b) (sb_mem b))) = fr" by simp
  then have "take (length fr) (drop (sb_data b + length h) (sb_mem b)) = fr"
    by (simp add: drop_take add.commute)
  then show ?thesis
    using assms(2) le len by (auto simp: skb_pull_def carries_def skb_bytes_def not_less)
qed

section \<open>Address resolution\<close>

text \<open>What the receiver of an ARP packet reads in it.\<close>

lemma arp_pkt_fields:
  assumes "length sm = 6" "length tm = 6"
  shows "htons (rd16 (arp_pkt op sm sip tm tip) 6) = op" "take 6 (drop 8 (arp_pkt op sm sip tm tip)) = sm"
    "rd32 (arp_pkt op sm sip tm tip) 14 = sip" "rd32 (arp_pkt op sm sip tm tip) 24 = tip"
proof -
  show "htons (rd16 (arp_pkt op sm sip tm tip) 6) = op"
    by (rule htons_rd16_be16) (simp_all add: arp_pkt_def be16_def le16_def)
  show "take 6 (drop 8 (arp_pkt op sm sip tm tip)) = sm"
    using assms by (simp add: arp_pkt_def be16_def le16_def)
  show "rd32 (arp_pkt op sm sip tm tip) 14 = sip"
    using assms by (intro rd32_le32) (simp_all add: arp_pkt_def be16_def le16_def le32_def nth_append)
  show "rd32 (arp_pkt op sm sip tm tip) 24 = tip"
    using assms by (intro rd32_le32) (simp_all add: arp_pkt_def be16_def le16_def le32_def nth_append)
qed

lemma eth_receive_arp:
  assumes "carries b (eth_hdr dst src 0x0806 @ pkt)" "length dst = 6" "length src = 6"
  shows "\<exists>b1. carries b1 pkt \<and> eth_receive na ws dev b s = Some (arp_receive na dev b1 (arp_cache_insert 0 src s))"
proof -
  have h: "length (eth_hdr dst src 0x0806) = unat (14 :: u32)" using assms(2,3) by simp
  obtain p b1 where b1: "skb_pull 14 b = Some (p, b1)" "carries b1 pkt"
    using skb_pull_carries [OF assms(1) h] by blast
  have et: "htons (rd16 (skb_bytes b) 12) = 0x0806"
    using assms by (intro htons_rd16_be16) (simp_all add: carries_def eth_hdr_def be16_def le16_def nth_append)
  have src: "take 6 (drop 6 (skb_bytes b)) = src" using assms by (simp add: carries_def eth_hdr_def)
  have "\<not> sb_len b < 14" using assms by (simp add: carries_def word_less_nat_alt)
  then show ?thesis using b1 et src by (auto simp: eth_receive_def Let_def)
qed

lemma arp_exchange_ok:
  fixes dA dB :: net_device
  defines "req \<equiv> eth_hdr (replicate 6 0xFF) (nd_mac dA) 0x0806
       @ arp_pkt 1 (nd_mac dA) (nd_ip4 dA) (replicate 6 0) (nd_ip4 dB)"
    and "rep \<equiv> eth_hdr (nd_mac dA) (nd_mac dB) 0x0806 @ arp_pkt 2 (nd_mac dB) (nd_ip4 dB) (nd_mac dA) (nd_ip4 dA)"
  assumes "na_skb na" "length (nd_mac dA) = 6" "length (nd_mac dB) = 6" "nd_transmit dA \<noteq> None" "nd_transmit dB \<noteq> None"
    and "n_arp sA \<noteq> []" "n_arp sB \<noteq> []"
  shows "n_tx (snd (arp_send_request na dA (nd_ip4 dB) sA)) = n_tx sA @ [(nd_name dA, req)]"
    and "carries b req \<Longrightarrow> \<exists>sB'. eth_receive na ws dB b sB = Some sB' \<and> n_tx sB' = n_tx sB @ [(nd_name dB, rep)]
       \<and> arp_find (nd_ip4 dA) (n_arp sB') = Some (nd_mac dA)"
    and "carries b rep \<Longrightarrow> \<exists>sA'. eth_receive na ws dA b sA = Some sA' \<and> arp_find (nd_ip4 dB) (n_arp sA') = Some (nd_mac dB)"
proof -
  obtain r where r: "two_headers na (eth_hdr (replicate 6 0xFF) (nd_mac dA) 0x0806)
       (arp_pkt 1 (nd_mac dA) (nd_ip4 dA) (replicate 6 0) (nd_ip4 dB)) = Some r" "skb_bytes r = req"
    using two_headers_bytes [OF assms(3)] assms(4,5) unfolding req_def by (metis length_arp_pkt length_eth_hdr length_replicate)
  show "n_tx (snd (arp_send_request na dA (nd_ip4 dB) sA)) = n_tx sA @ [(nd_name dA, req)]"
    using assms(6) r by (auto simp: arp_send_request_def transmit_def)
  obtain q where q: "two_headers na (eth_hdr (nd_mac dA) (nd_mac dB) 0x0806)
       (arp_pkt 2 (nd_mac dB) (nd_ip4 dB) (nd_mac dA) (nd_ip4 dA)) = Some q" "skb_bytes q = rep"
    using two_headers_bytes [OF assms(3)] assms(4,5) unfolding rep_def by (metis length_arp_pkt length_eth_hdr)
  show "\<exists>sB'. eth_receive na ws dB b sB = Some sB' \<and> n_tx sB' = n_tx sB @ [(nd_name dB, rep)]
       \<and> arp_find (nd_ip4 dA) (n_arp sB') = Some (nd_mac dA)" if c: "carries b req"
  proof -
    obtain b1 where b1: "carries b1 (arp_pkt 1 (nd_mac dA) (nd_ip4 dA) (replicate 6 0) (nd_ip4 dB))"
        "eth_receive na ws dB b sB = Some (arp_receive na dB b1 (arp_cache_insert 0 (nd_mac dA) sB))"
      using eth_receive_arp [OF c [unfolded req_def], of na ws dB sB] assms(4) by auto
    let ?s = "arp_cache_insert (nd_ip4 dA) (nd_mac dA) (arp_cache_insert 0 (nd_mac dA) sB)"
    have "arp_receive na dB b1 (arp_cache_insert 0 (nd_mac dA) sB) = snd (transmit dB q ?s)"
      using b1(1) assms(4,5) q by (simp add: arp_receive_def carries_def Let_def arp_pkt_fields word_less_nat_alt)
    moreover have "n_tx (snd (transmit dB q ?s)) = n_tx sB @ [(nd_name dB, rep)]" "n_arp (snd (transmit dB q ?s)) = n_arp ?s"
      using assms(7) q(2) by (auto simp: transmit_def arp_cache_insert_def)
    moreover have "n_arp (arp_cache_insert 0 (nd_mac dA) sB) \<noteq> []" using assms(9) by (simp add: arp_cache_insert_def)
    ultimately show ?thesis using b1(2) arp_insert_find by auto
  qed
  show "\<exists>sA'. eth_receive na ws dA b sA = Some sA' \<and> arp_find (nd_ip4 dB) (n_arp sA') = Some (nd_mac dB)"
    if c: "carries b rep"
  proof -
    obtain b1 where b1: "carries b1 (arp_pkt 2 (nd_mac dB) (nd_ip4 dB) (nd_mac dA) (nd_ip4 dA))"
        "eth_receive na ws dA b sA = Some (arp_receive na dA b1 (arp_cache_insert 0 (nd_mac dB) sA))"
      using eth_receive_arp [OF c [unfolded rep_def], of na ws dA sA] assms(4,5) by auto
    have "arp_receive na dA b1 (arp_cache_insert 0 (nd_mac dB) sA)
        = arp_cache_insert (nd_ip4 dB) (nd_mac dB) (arp_cache_insert 0 (nd_mac dB) sA)"
      using b1(1) assms(4,5) by (simp add: arp_receive_def carries_def Let_def arp_pkt_fields word_less_nat_alt)
    moreover have "n_arp (arp_cache_insert 0 (nd_mac dB) sA) \<noteq> []" using assms(8) by (simp add: arp_cache_insert_def)
    ultimately show ?thesis using b1(2) arp_insert_find by auto
  qed
qed

section \<open>The header that is sent is accepted\<close>

lemma ip_hdr_fields:
  "ip_hdr tot ident proto c src dst ! 0 = 0x45" "ip_hdr tot ident proto c src dst ! 9 = proto"
  "rd16 (ip_hdr tot ident proto c src dst @ xs) 10 = c"
  "rd32 (ip_hdr tot ident proto c src dst @ xs) 12 = src" "rd32 (ip_hdr tot ident proto c src dst @ xs) 16 = dst"
  "(ip_hdr tot ident proto c src dst)[10 := 0, 11 := 0] = ip_hdr tot ident proto 0 src dst"
proof -
  show "rd16 (ip_hdr tot ident proto c src dst @ xs) 10 = c"
    by (rule rd16_le16) (simp_all add: ip_hdr_def be16_def le16_def le32_def)
  show "rd32 (ip_hdr tot ident proto c src dst @ xs) 12 = src" "rd32 (ip_hdr tot ident proto c src dst @ xs) 16 = dst"
    by (rule rd32_le32; simp add: ip_hdr_def be16_def le16_def le32_def)+
qed (simp_all add: ip_hdr_def be16_def le16_def le32_def)

lemma ip_receive_own_header:
  assumes "carries b (ip_hdr tot ident 17 (ip_checksum (ip_hdr tot ident 17 0 src dst)) src dst @ payload)"
  shows "ip_receive na ws dev b s = Some (udp_receive (b\<lparr>sb_src_ip := htonl src, sb_dst_ip := htonl dst, sb_protocol := 17,
     sb_data := sb_data b + 20, sb_len := sb_len b - 20\<rparr>) s)"
proof -
  let ?h = "ip_hdr tot ident 17 (ip_checksum (ip_hdr tot ident 17 0 src dst)) src dst"
  let ?b = "b\<lparr>sb_src_ip := htonl src, sb_dst_ip := htonl dst, sb_protocol := 17\<rparr>"
  have p: "skb_bytes b = ?h @ payload" "unat (sb_len b) = 20 + length payload" using assms by (simp_all add: carries_def)
  have b: "carries ?b (?h @ payload)" using assms by (auto simp: carries_def skb_bytes_def)
  have "skb_pull 20 ?b = Some (sb_data b + 20, ?b\<lparr>sb_data := sb_data b + 20, sb_len := sb_len b - 20\<rparr>)"
    using p(2) by (simp add: skb_pull_def word_less_nat_alt)
  moreover have "(skb_bytes b)[10 := 0, 11 := 0] = ip_hdr tot ident 17 0 src dst @ payload"
    by (simp add: p(1) list_update_append1 ip_hdr_fields)
  moreover have "skb_bytes b ! 0 = 0x45" "skb_bytes b ! 9 = 17" by (simp_all add: p(1) nth_append ip_hdr_fields)
  ultimately show ?thesis
    using p(2) by (simp add: ip_receive_def Let_def p(1) ip_hdr_fields word_less_nat_alt)
qed

text \<open>What is lost: the bytes that do not fit, although they are acknowledged; and a segment that comes twice counts
  twice, since its sequence number is not looked at.\<close>

lemma full_ring_loses_data:
  assumes "n_socks s a = Some k" "sk_state k = TCP_ESTABLISHED" "plain g" "rb_ok (sk_rcvbuf k)"
    and "length (rb_contents (sk_rcvbuf k)) = rb_cap (sk_rcvbuf k)"
  shows "\<exists>s' k'. tcp_deliver na ws a g s = Some s' \<and> n_socks s' a = Some k'
    \<and> rb_contents (sk_rcvbuf k') = rb_contents (sk_rcvbuf k)
    \<and> sk_rcv_nxt k' = sk_rcv_nxt k + word_of_nat (length (sg_payload g))"
  using deliver_plain [OF assms(1-4), of na ws] assms(5) by auto

lemma duplicate_counts_twice:
  assumes "n_socks s a = Some k" "sk_state k = TCP_ESTABLISHED" "plain g" "rb_ok (sk_rcvbuf k)"
    and "length (rb_contents (sk_rcvbuf k)) + 2 * length (sg_payload g) \<le> rb_cap (sk_rcvbuf k)"
  shows "\<exists>s' k'. deliver_all na ws a [g, g] s = Some s' \<and> n_socks s' a = Some k'
    \<and> rb_contents (sk_rcvbuf k') = rb_contents (sk_rcvbuf k) @ sg_payload g @ sg_payload g"
  using deliver_all_stream [OF assms(1,2) _ assms(4), of "[g, g]" na ws] assms(3,5) by auto

text \<open>A reset closes any socket, whatever its numbers, a listening one included.\<close>

lemma reset_closes_listener:
  assumes "n_socks s a = Some k" "sk_state k = TCP_LISTEN" "has g TCP_RST"
  shows "\<exists>s' k'. tcp_deliver na ws a g s = Some s' \<and> n_socks s' a = Some k' \<and> sk_state k' = TCP_CLOSED"
  using assms by (auto simp: tcp_deliver_def)

text \<open>A length near the top of its range makes the size of the buffer wrap around, and the header is written through
  a null pointer.\<close>

lemma udp_send_null:
  assumes "netdev_get_default s = Some dev" "na_skb na"
  shows "udp_send na ws a data (- 74) dst_ip dst_port s = None"
  using assms by (simp add: udp_send_def skb_alloc_def skb_put_def)

section \<open>Properties\<close>

text \<open>C38 (no connection is ever opened). Whatever the devices, the allocator and the address cache, \<open>tcp_connect\<close> returns,
  and it returns an error: a packet buffer has no room in front of its data, so no header of the network layer can
  be put before a segment.\<close>

theorem tcp_connect_never_succeeds:
  "\<exists>r s'. tcp_connect na ws wt a dst_ip dst_port s = Some (r, s') \<and> r < 0"
  by (rule tcp_connect_fails)

text \<open>\<^emph>\<open>No frame reaches a socket.\<close> From a state whose table of sockets is empty, as the initialisation leaves it and
  no function changes it, the frames a device receives change no socket, whatever they carry.\<close>

theorem received_frames_reach_no_socket:
  assumes "table_empty s" "receive_all na ws dev bs s = Some s'"
  shows "n_socks s' = n_socks s \<and> table_empty s'"
  using assms by (rule receive_all_no_socket)

definition na0 :: net_alloc where
  "na0 = \<lparr>na_skb = True, na_data = (\<lambda>n. None), na_sock = (\<lambda>m. if m 6 = None then Some 6 else None),
     na_ring = (\<lambda>n. None), na_entry = True\<rparr>"

definition dev0 :: net_device where
  "dev0 = \<lparr>nd_name = [101], nd_mac = [2, 0, 0, 0, 0, 1], nd_ip4 = 0x0100000A, nd_netmask = 0xFF, nd_gateway = 0, nd_up = True,
     nd_transmit = Some (\<lambda>fr. 0)\<rparr>"

definition udp_frame :: sk_buff where
  "udp_frame =
     (let h = ip_hdr 29 7 17 (ip_checksum (ip_hdr 29 7 17 0 0x0200000A 0x0100000A)) 0x0200000A 0x0100000A;
          fr = eth_hdr [2, 0, 0, 0, 0, 1] [2, 0, 0, 0, 0, 2] 0x0800 @ h @ [0, 53, 0, 53, 0, 9, 0, 0, 65]
      in \<lparr>sb_mem = fr, sb_data = 0, sb_tail = 43, sb_len = 43, sb_src_ip = 0, sb_dst_ip = 0, sb_src_port = 0,
          sb_dst_port = 0, sb_protocol = 0\<rparr>)"

definition sock53 :: net where
  "sock53 = net_init\<lparr>n_socks := [5 \<mapsto> sk_zero\<lparr>sk_protocol := 17, sk_local_port := 53\<rparr>]\<rparr>"

theorem received_frames_reach_no_socket_witness:
  "table_empty sock53 \<and> (case receive_all na0 [] dev0 [udp_frame] sock53 of None \<Rightarrow> False
     | Some s' \<Rightarrow> n_socks s' = n_socks sock53 \<and> arp_find 0 (n_arp s') = Some [2, 0, 0, 0, 0, 2])"
proof -
  have t: "table_empty sock53" by (simp add: sock53_def table_empty_def net_init_def)
  have a: "map_option (\<lambda>s. arp_find 0 (n_arp s)) (receive_all na0 [] dev0 [udp_frame] sock53) = Some (Some [2, 0, 0, 0, 0, 2])"
    by code_simp
  then obtain s' where s': "receive_all na0 [] dev0 [udp_frame] sock53 = Some s'" by auto
  show ?thesis using received_frames_reach_no_socket [OF t s'] t a s' by simp
qed


definition seg :: "u8 \<Rightarrow> u8 list \<Rightarrow> segment" where
  "seg fl data = \<lparr>sg_src_ip = 1, sg_src_port = 2, sg_dst_port = 3, sg_seq = 100, sg_ack = 7, sg_flags = fl, sg_payload = data\<rparr>"

definition one_sock :: "sock \<Rightarrow> net" where
  "one_sock k = net_init\<lparr>n_socks := [5 \<mapsto> k]\<rparr>"

lemma fresh_na0: "fresh_socks na0"
  by (simp add: fresh_socks_def na0_def)


text \<open>C15 (accept queues). Whatever calls are made and segments arrive, interrupts during the waits included: the backlog
  of a listening socket is the length of its queue and within its limit, the queue has no socket twice, no two
  queues share one, and every socket in a queue exists.\<close>

theorem tcp_calls_accept_ok:
  assumes "fresh_socks na" "\<And>w t. w \<in> insert wt (set ws) \<Longrightarrow> accept_ok t \<Longrightarrow> accept_ok (w t)"
    and "accept_ok s" "tcp_run na ws wt cs s = Some s'"
  shows "accept_ok s'"
  by (rule tcp_run_accept_ok [of na wt ws s cs s']) (use assms in auto)

definition listener :: sock where
  "listener = sk_zero\<lparr>sk_state := TCP_LISTEN, sk_backlog_max := 2\<rparr>"

theorem tcp_calls_accept_ok_witness:
  "case tcp_run na0 [] (\<lambda>s. s) [TDeliver 5 (seg TCP_SYN []), TAccept 5 0] (one_sock listener) of None \<Rightarrow> False
   | Some s' \<Rightarrow> accept_ok s' \<and> map_option sk_state (n_socks s' 6) = Some TCP_SYN_RCVD"
proof -
  have i: "accept_ok (one_sock listener)"
    by (auto simp: accept_ok_def queues_ok_def queues_def one_sock_def listener_def sk_zero_def split: if_splits)
  have e: "map_option (\<lambda>s'. map_option sk_state (n_socks s' 6))
      (tcp_run na0 [] (\<lambda>s. s) [TDeliver 5 (seg TCP_SYN []), TAccept 5 0] (one_sock listener)) = Some (Some TCP_SYN_RCVD)"
    by code_simp
  then obtain s' where s': "tcp_run na0 [] (\<lambda>s. s) [TDeliver 5 (seg TCP_SYN []), TAccept 5 0] (one_sock listener) = Some s'" by auto
  have "accept_ok s'" by (rule tcp_calls_accept_ok [of na0 "\<lambda>s. s" "[]", OF fresh_na0 _ i s']) simp
  then show ?thesis using e s' by simp
qed

text \<open>C12 (data in order). As long as the bytes fit the receive buffer, the segments delivered to an established socket
  append their bytes to it in the order of delivery, and the next number expected advances by their count.\<close>

theorem established_stream:
  assumes "n_socks s a = Some k" "sk_state k = TCP_ESTABLISHED" "\<forall>g\<in>set gs. plain g" "rb_ok (sk_rcvbuf k)"
    and "length (rb_contents (sk_rcvbuf k)) + length (concat (map sg_payload gs)) \<le> rb_cap (sk_rcvbuf k)"
  shows "\<exists>s' k'. deliver_all na ws a gs s = Some s' \<and> n_socks s' a = Some k' \<and> rb_ok (sk_rcvbuf k')
    \<and> rb_contents (sk_rcvbuf k') = rb_contents (sk_rcvbuf k) @ concat (map sg_payload gs)
    \<and> sk_rcv_nxt k' = sk_rcv_nxt k + word_of_nat (length (concat (map sg_payload gs)))"
  using assms by (rule deliver_all_stream)

definition est :: sock where
  "est = sk_zero\<lparr>sk_state := TCP_ESTABLISHED,
     sk_rcvbuf := \<lparr>rb_buf = Some [0, 0, 0, 0], rb_size = 4, rb_head = 0, rb_tail = 0, rb_len = 0\<rparr>\<rparr>"

theorem established_stream_witness:
  "\<exists>s' k'. deliver_all na0 [] 5 [seg TCP_ACK [1, 2], seg TCP_ACK [3]] (one_sock est) = Some s' \<and> n_socks s' 5 = Some k'
    \<and> rb_contents (sk_rcvbuf k') = [1, 2, 3]"
proof -
  have "rb_contents (sk_rcvbuf est) = []" "rb_ok (sk_rcvbuf est)" "rb_cap (sk_rcvbuf est) = 4"
    by (simp_all add: est_def rb_contents_def ring_contents_def rb_ok_def ring_ok_def rb_cap_def)
  moreover have "plain (seg TCP_ACK [1, 2])" "plain (seg TCP_ACK [3])" by (simp_all add: plain_def has_def seg_def)
  ultimately show ?thesis
    using established_stream [of "one_sock est" 5 est "[seg TCP_ACK [1, 2], seg TCP_ACK [3]]" na0 "[]"]
    by (auto simp: one_sock_def seg_def est_def)
qed

text \<open>\<^emph>\<open>Address resolution.\<close> The request one device sends makes the kernel of the other, when it receives that frame, send
  one reply; and when the first receives the reply, its cache answers the hardware address of the second.\<close>

theorem arp_exchange:
  assumes "na_skb na" "length (nd_mac dA) = 6" "length (nd_mac dB) = 6" "nd_transmit dA \<noteq> None" "nd_transmit dB \<noteq> None"
    and "n_arp sA \<noteq> []" "n_arp sB \<noteq> []"
  shows "\<exists>req rep. n_tx (snd (arp_send_request na dA (nd_ip4 dB) sA)) = n_tx sA @ [(nd_name dA, req)]
    \<and> (\<forall>b. carries b req \<longrightarrow> (\<exists>sB'. eth_receive na ws dB b sB = Some sB' \<and> n_tx sB' = n_tx sB @ [(nd_name dB, rep)]))
    \<and> (\<forall>b. carries b rep \<longrightarrow> (\<exists>sA'. eth_receive na ws dA b sA = Some sA'
         \<and> arp_find (nd_ip4 dB) (n_arp sA') = Some (nd_mac dB)))"
  using arp_exchange_ok [OF assms] by blast

theorem arp_exchange_witness:
  "\<exists>req rep. n_tx (snd (arp_send_request na0 dev0 0x0200000A net_init)) = [([101], req)]
    \<and> (\<forall>b. carries b rep \<longrightarrow> (\<exists>sA'. eth_receive na0 [] dev0 b net_init = Some sA'
         \<and> arp_find 0x0200000A (n_arp sA') = Some [2, 0, 0, 0, 0, 2]))"
  using arp_exchange [of na0 dev0 "dev0\<lparr>nd_mac := [2, 0, 0, 0, 0, 2], nd_ip4 := 0x0200000A\<rparr>" net_init net_init "[]"]
  by (auto simp: na0_def dev0_def net_init_def)

end
