(* ===== verification/Cstring.thy ===== *)
theory Cstring
  imports Prelude "HOL-Library.Sublist"
begin

text \<open>
  The routines of \<^verbatim>\<open>lib/string.c\<close> on a byte memory. A pointer is its address, and no object wraps around the
  end of the address space. A loop that runs until it meets a zero byte is a partial function: \<open>None\<close> means that it
  never meets one. The second part shows what the routines do to the lists of bytes at their arguments.
\<close>

type_synonym mem = "nat \<Rightarrow> u8"

section \<open>Blocks of bytes\<close>

fun memset :: "mem \<Rightarrow> nat \<Rightarrow> u8 \<Rightarrow> nat \<Rightarrow> mem" where
  "memset m d c 0 = m"
| "memset m d c (Suc n) = memset (m(d := c)) (d + 1) c n"

fun memcpy :: "mem \<Rightarrow> nat \<Rightarrow> nat \<Rightarrow> nat \<Rightarrow> mem" where
  "memcpy m d s 0 = m"
| "memcpy m d s (Suc n) = memcpy (m(d := m s)) (d + 1) (s + 1) n"

text \<open>The second loop of \<^verbatim>\<open>memmove\<close>, which starts behind the blocks.\<close>

fun copy_back :: "mem \<Rightarrow> nat \<Rightarrow> nat \<Rightarrow> nat \<Rightarrow> mem" where
  "copy_back m d s 0 = m"
| "copy_back m d s (Suc n) = copy_back (m(d - 1 := m (s - 1))) (d - 1) (s - 1) n"

definition memmove :: "mem \<Rightarrow> nat \<Rightarrow> nat \<Rightarrow> nat \<Rightarrow> mem" where
  "memmove m d s n = (if d < s then memcpy m d s n else copy_back m (d + n) (s + n) n)"

fun memcmp :: "mem \<Rightarrow> nat \<Rightarrow> nat \<Rightarrow> nat \<Rightarrow> int" where
  "memcmp m p q 0 = 0"
| "memcmp m p q (Suc n) = (if m p \<noteq> m q then uint (m p) - uint (m q) else memcmp m (p + 1) (q + 1) n)"

fun memchr :: "mem \<Rightarrow> nat \<Rightarrow> u8 \<Rightarrow> nat \<Rightarrow> nat option" where
  "memchr m p c 0 = None"
| "memchr m p c (Suc n) = (if m p = c then Some p else memchr m (p + 1) c n)"

section \<open>Strings\<close>

partial_function (option) strlen_loop :: "mem \<Rightarrow> nat \<Rightarrow> nat \<Rightarrow> nat option" where
  "strlen_loop m s len = (if m s \<noteq> 0 then strlen_loop m (s + 1) (len + 1) else Some len)"

definition strlen :: "mem \<Rightarrow> nat \<Rightarrow> nat option" where
  "strlen m s = strlen_loop m s 0"

function strnlen_loop :: "mem \<Rightarrow> nat \<Rightarrow> nat \<Rightarrow> nat \<Rightarrow> nat" where
  "strnlen_loop m s maxlen len = (if len < maxlen \<and> m (s + len) \<noteq> 0 then strnlen_loop m s maxlen (len + 1) else len)"
  by pat_completeness auto
termination by (relation "measure (\<lambda>(m, s, maxlen, len). maxlen - len)") auto

declare strnlen_loop.simps [simp del]

definition strnlen :: "mem \<Rightarrow> nat \<Rightarrow> nat \<Rightarrow> nat" where
  "strnlen m s maxlen = strnlen_loop m s maxlen 0"

partial_function (option) strcpy :: "mem \<Rightarrow> nat \<Rightarrow> nat \<Rightarrow> mem option" where
  "strcpy m d s = (let m1 = m(d := m s) in if m s \<noteq> 0 then strcpy m1 (d + 1) (s + 1) else Some m1)"

text \<open>The first loop of \<^verbatim>\<open>strncpy\<close> ends with the position and the count it has reached; the count is not decremented
  when the zero byte is copied.\<close>

fun strncpy_loop :: "mem \<Rightarrow> nat \<Rightarrow> nat \<Rightarrow> nat \<Rightarrow> mem \<times> nat \<times> nat" where
  "strncpy_loop m d s 0 = (m, d, 0)"
| "strncpy_loop m d s (Suc n) =
     (let m1 = m(d := m s) in if m s \<noteq> 0 then strncpy_loop m1 (d + 1) (s + 1) n else (m1, d + 1, Suc n))"

definition strncpy :: "mem \<Rightarrow> nat \<Rightarrow> nat \<Rightarrow> nat \<Rightarrow> mem" where
  "strncpy m d s n = (case strncpy_loop m d s n of (m1, d1, n1) \<Rightarrow> memset m1 d1 0 n1)"

partial_function (option) find_end :: "mem \<Rightarrow> nat \<Rightarrow> nat option" where
  "find_end m d = (if m d \<noteq> 0 then find_end m (d + 1) else Some d)"

definition strcat :: "mem \<Rightarrow> nat \<Rightarrow> nat \<Rightarrow> mem option" where
  "strcat m d s = Option.bind (find_end m d) (\<lambda>e. strcpy m e s)"

text \<open>The loop of \<^verbatim>\<open>strncat\<close>: the memory and the position behind the last byte copied, which may be the zero byte.\<close>

fun strncat_loop :: "mem \<Rightarrow> nat \<Rightarrow> nat \<Rightarrow> nat \<Rightarrow> mem \<times> nat" where
  "strncat_loop m d s 0 = (m, d)"
| "strncat_loop m d s (Suc n) =
     (let m1 = m(d := m s) in if m s \<noteq> 0 then strncat_loop m1 (d + 1) (s + 1) n else (m1, d + 1))"

definition strncat :: "mem \<Rightarrow> nat \<Rightarrow> nat \<Rightarrow> nat \<Rightarrow> mem option" where
  "strncat m d s n = Option.bind (find_end m d) (\<lambda>e. case strncat_loop m e s n of (m1, d1) \<Rightarrow> Some (m1(d1 := 0)))"

partial_function (option) strcmp :: "mem \<Rightarrow> nat \<Rightarrow> nat \<Rightarrow> int option" where
  "strcmp m p q = (if m p \<noteq> 0 \<and> m p = m q then strcmp m (p + 1) (q + 1) else Some (uint (m p) - uint (m q)))"

fun strncmp :: "mem \<Rightarrow> nat \<Rightarrow> nat \<Rightarrow> nat \<Rightarrow> int" where
  "strncmp m p q 0 = 0"
| "strncmp m p q (Suc n) =
     (if m p \<noteq> 0 \<and> m p = m q then strncmp m (p + 1) (q + 1) n else uint (m p) - uint (m q))"

text \<open>The outer option is termination, the inner one the null pointer.\<close>

partial_function (option) strchr :: "mem \<Rightarrow> nat \<Rightarrow> u8 \<Rightarrow> nat option option" where
  "strchr m s c = (if m s = 0 then Some (if c = 0 then Some s else None)
     else if m s = c then Some (Some s) else strchr m (s + 1) c)"

partial_function (option) strrchr_loop :: "mem \<Rightarrow> nat \<Rightarrow> u8 \<Rightarrow> nat option \<Rightarrow> nat option option" where
  "strrchr_loop m s c last_pos = (if m s = 0 then Some (if c = 0 then Some s else last_pos)
     else strrchr_loop m (s + 1) c (if m s = c then Some s else last_pos))"

definition strrchr :: "mem \<Rightarrow> nat \<Rightarrow> u8 \<Rightarrow> nat option option" where
  "strrchr m s c = strrchr_loop m s c None"

partial_function (option) strstr_loop :: "mem \<Rightarrow> nat \<Rightarrow> nat \<Rightarrow> nat \<Rightarrow> nat option option" where
  "strstr_loop m h needle nlen =
     (if m h = 0 then Some None else if strncmp m h needle nlen = 0 then Some (Some h)
      else strstr_loop m (h + 1) needle nlen)"

definition strstr :: "mem \<Rightarrow> nat \<Rightarrow> nat \<Rightarrow> nat option option" where
  "strstr m h needle =
     Option.bind (strlen m needle) (\<lambda>nlen. if nlen = 0 then Some (Some h) else strstr_loop m h needle nlen)"

section \<open>Blocks: what they do\<close>

text \<open>The bytes at an address.\<close>

definition bytes_at :: "mem \<Rightarrow> nat \<Rightarrow> nat \<Rightarrow> u8 list" where
  "bytes_at m p n = map (\<lambda>i. m (p + i)) [0..<n]"

lemma memset_at: "memset m d c n a = (if d \<le> a \<and> a < d + n then c else m a)"
proof (induction n arbitrary: m d)
  case (Suc n)
  show ?case unfolding memset.simps by (subst Suc) auto
qed auto

lemma memcpy_at:
  assumes "d \<le> s \<or> s + n \<le> d"
  shows "memcpy m d s n a = (if d \<le> a \<and> a < d + n then m (a - d + s) else m a)"
  using assms
proof (induction n arbitrary: m d s)
  case (Suc n)
  have "memcpy (m(d := m s)) (d + 1) (s + 1) n a =
      (if d + 1 \<le> a \<and> a < d + 1 + n then (m(d := m s)) (a - (d + 1) + (s + 1)) else (m(d := m s)) a)"
    using Suc.prems by (intro Suc.IH) auto
  moreover have "a - (d + 1) + (s + 1) = a - d + s" if "d + 1 \<le> a" using that by simp
  ultimately show ?case using Suc.prems by auto
qed auto

lemma copy_back_at:
  assumes "s \<le> d" "n \<le> s"
  shows "copy_back m d s n a = (if d - n \<le> a \<and> a < d then m (a - (d - s)) else m a)"
  using assms
proof (induction n arbitrary: m d s)
  case (Suc n)
  have "copy_back (m(d - 1 := m (s - 1))) (d - 1) (s - 1) n a =
      (if d - 1 - n \<le> a \<and> a < d - 1 then (m(d - 1 := m (s - 1))) (a - (d - 1 - (s - 1))) else (m(d - 1 := m (s - 1))) a)"
    using Suc.prems by (intro Suc.IH) auto
  moreover have "d - 1 - (s - 1) = d - s" "d - 1 - n = d - Suc n" using Suc.prems by auto
  ultimately show ?case using Suc.prems by auto
qed simp

lemma memmove_at: "memmove m d s n a = (if d \<le> a \<and> a < d + n then m (a - d + s) else m a)"
  by (auto simp: memmove_def memcpy_at copy_back_at)

lemma uint_diff_zero: "uint (x :: u8) - uint y = 0 \<longleftrightarrow> x = y"
  by (auto simp: word_uint_eq_iff)

lemma bytes_at_Suc: "bytes_at m p (Suc n) = m p # bytes_at m (p + 1) n"
  by (simp add: bytes_at_def upt_conv_Cons map_Suc_upt [symmetric] del: upt_Suc)

lemma bytes_at_0 [simp]: "bytes_at m p 0 = []"
  by (simp add: bytes_at_def)

lemma length_bytes_at [simp]: "length (bytes_at m p n) = n"
  by (simp add: bytes_at_def)

lemma memcmp_zero: "memcmp m p q n = 0 \<longleftrightarrow> bytes_at m p n = bytes_at m q n"
  by (induction n arbitrary: p q) (auto simp: bytes_at_Suc word_uint_eq_iff)

text \<open>The sign of a comparison is the dictionary order of the unsigned bytes.\<close>

fun dict_less :: "u8 list \<Rightarrow> u8 list \<Rightarrow> bool" where
  "dict_less _ [] \<longleftrightarrow> False"
| "dict_less [] (y # ys) \<longleftrightarrow> True"
| "dict_less (x # xs) (y # ys) \<longleftrightarrow> x < y \<or> x = y \<and> dict_less xs ys"

lemma memcmp_neg: "memcmp m p q n < 0 \<longleftrightarrow> dict_less (bytes_at m p n) (bytes_at m q n)"
  by (induction n arbitrary: p q) (auto simp: bytes_at_Suc word_less_def)

lemma byte_range: "0 \<le> uint (x :: u8) \<and> uint x \<le> 255"
  using unsigned_less [of x, where ?'a = int] by simp

lemma byte_pos: "x \<noteq> 0 \<Longrightarrow> 0 < uint (x :: u8)"
proof -
  assume "x \<noteq> 0"
  then have "uint x \<noteq> 0" by (simp add: word_uint_eq_iff)
  then show ?thesis using byte_range [of x] by linarith
qed

lemma memcmp_range: "\<bar>memcmp m p q n\<bar> \<le> 255"
proof (induction n arbitrary: p q)
  case (Suc n)
  have "\<bar>uint (m p) - uint (m q)\<bar> \<le> 255" using byte_range [of "m p"] byte_range [of "m q"] by linarith
  then show ?case using Suc by simp
qed simp

lemma find_map_Suc: "find P (map Suc xs) = map_option Suc (find (\<lambda>i. P (Suc i)) xs)"
  by (induction xs) simp_all

lemma memchr_correct:
  "memchr m p c n = (case find (\<lambda>i. m (p + i) = c) [0..<n] of None \<Rightarrow> None | Some i \<Rightarrow> Some (p + i))"
proof (induction n arbitrary: p)
  case (Suc n)
  have "find (\<lambda>i. m (p + i) = c) (map Suc [0..<n]) = map_option Suc (find (\<lambda>i. m (p + 1 + i) = c) [0..<n])"
    by (simp add: find_map_Suc)
  then show ?case using Suc [of "p + 1"]
    by (auto simp: upt_conv_Cons map_Suc_upt [symmetric] simp del: upt_Suc split: option.splits)
qed simp

section \<open>Strings: what they do\<close>

text \<open>A string is at an address: its bytes, none of them zero, and a zero byte.\<close>

definition str_at :: "mem \<Rightarrow> nat \<Rightarrow> u8 list \<Rightarrow> bool" where
  "str_at m p bs \<longleftrightarrow> 0 \<notin> set bs \<and> bytes_at m p (length bs + 1) = bs @ [0]"

lemma str_at_Nil [simp]: "str_at m p [] \<longleftrightarrow> m p = 0"
  by (simp add: str_at_def bytes_at_Suc)

lemma str_at_Cons [simp]: "str_at m p (b # bs) \<longleftrightarrow> b \<noteq> 0 \<and> m p = b \<and> str_at m (p + 1) bs"
  by (auto simp: str_at_def bytes_at_Suc [of m p "Suc (length bs)"])

text \<open>At most one string is at an address, and none when no byte from there on is zero.\<close>

lemma str_at_unique: "\<lbrakk>str_at m p bs; str_at m p cs\<rbrakk> \<Longrightarrow> bs = cs"
proof (induction bs arbitrary: p cs)
  case Nil
  then show ?case by (cases cs) auto
next
  case (Cons b bs)
  then show ?case by (cases cs) auto
qed

lemma strlen_loop_str: "str_at m s bs \<Longrightarrow> strlen_loop m s len = Some (len + length bs)"
  by (induction bs arbitrary: s len) (auto simp: strlen_loop.simps [of m])

lemma strlen_str: "str_at m s bs \<Longrightarrow> strlen m s = Some (length bs)"
  by (simp add: strlen_def strlen_loop_str)

lemma strlen_loop_SomeD:
  assumes "strlen_loop m s len = Some n"
  shows "\<exists>bs. str_at m s bs \<and> n = len + length bs"
proof (rule strlen_loop.raw_induct [OF _ assms])
  fix f m s len n
  assume ih: "\<And>m s len n. f m s len = Some n \<Longrightarrow> \<exists>bs. str_at m s bs \<and> n = len + length bs"
    and eq: "(if m s \<noteq> 0 then f m (s + 1) (len + 1) else Some len) = Some n"
  show "\<exists>bs. str_at m s bs \<and> n = len + length bs"
  proof (cases "m s = 0")
    case True
    then show ?thesis using eq by (intro exI [of _ "[]"]) simp
  next
    case False
    then obtain bs where "str_at m (s + 1) bs" "n = len + 1 + length bs" using ih [of m "s + 1" "len + 1" n] eq by auto
    then show ?thesis using False by (intro exI [of _ "m s # bs"]) simp
  qed
qed

lemma strlen_SomeD: "strlen m s = Some n \<Longrightarrow> \<exists>bs. str_at m s bs \<and> n = length bs"
  using strlen_loop_SomeD [of m s 0 n] by (simp add: strlen_def)


lemma str_at_cong:
  assumes "str_at m p bs" "\<And>a. p \<le> a \<Longrightarrow> a \<le> p + length bs \<Longrightarrow> m' a = m a"
  shows "str_at m' p bs"
  using assms by (induction bs arbitrary: p) auto

text \<open>Memory after a list of bytes has been stored.\<close>

definition store_at :: "mem \<Rightarrow> nat \<Rightarrow> u8 list \<Rightarrow> mem" where
  "store_at m d bs = (\<lambda>a. if d \<le> a \<and> a < d + length bs then bs ! (a - d) else m a)"

lemma store_at_Nil [simp]: "store_at m d [] = m"
  by (auto simp: store_at_def fun_eq_iff)

lemma store_at_Cons: "store_at m d (b # bs) = store_at (m(d := b)) (d + 1) bs"
proof
  fix a
  have "(b # bs) ! (a - d) = bs ! (a - (d + 1))" if "d < a" using that by (simp add: nth_Cons')
  then show "store_at m d (b # bs) a = store_at (m(d := b)) (d + 1) bs a"
    by (cases "a = d") (auto simp: store_at_def)
qed

lemma memset_store: "memset m d c n = store_at m d (replicate n c)"
  by (auto simp: fun_eq_iff memset_at store_at_def)

lemma str_at_store: "0 \<notin> set bs \<Longrightarrow> str_at (store_at m d (bs @ [0])) d bs"
proof (induction bs arbitrary: m d)
  case (Cons b bs)
  then have "str_at (store_at (m(d := b)) (d + 1) (bs @ [0])) (d + 1) bs" by simp
  moreover have "store_at (m(d := b)) (d + 1) (bs @ [0]) d = b" by (simp add: store_at_def)
  ultimately show ?case using Cons.prems by (simp add: store_at_Cons)
qed (simp add: store_at_def)

text \<open>The copying routines read their source as it was if the destination does not start inside it.\<close>

lemma str_at_write:
  assumes "str_at m s (b # bs)" "d \<le> s \<or> s + length (b # bs) < d"
  shows "str_at (m(d := x)) (s + 1) bs"
proof -
  have "str_at m (s + 1) bs" using assms(1) by simp
  then show ?thesis by (rule str_at_cong) (use assms(2) in auto)
qed

lemma strcpy_str:
  assumes "str_at m s bs" "d \<le> s \<or> s + length bs < d"
  shows "strcpy m d s = Some (store_at m d (bs @ [0]))"
  using assms
proof (induction bs arbitrary: m d s)
  case Nil
  then show ?case by (auto simp: strcpy.simps [of m] store_at_Cons Let_def fun_eq_iff)
next
  case (Cons b bs)
  have "strcpy (m(d := b)) (d + 1) (s + 1) = Some (store_at (m(d := b)) (d + 1) (bs @ [0]))"
    using Cons.prems by (intro Cons.IH str_at_write [of m s b bs]) auto
  then show ?case using Cons.prems by (simp add: strcpy.simps [of m] store_at_Cons Let_def)
qed

lemma strncpy_loop_str:
  assumes "str_at m s bs" "d \<le> s \<or> s + length bs < d"
  shows "strncpy_loop m d s n =
    (if n \<le> length bs then (store_at m d (take n bs), d + n, 0)
     else (store_at m d (bs @ [0]), d + length bs + 1, n - length bs))"
  using assms
proof (induction n arbitrary: m d s bs)
  case (Suc n)
  show ?case
  proof (cases bs)
    case Nil
    then show ?thesis using Suc.prems by (simp add: Let_def store_at_Cons)
  next
    case (Cons b cs)
    have "strncpy_loop (m(d := b)) (d + 1) (s + 1) n =
      (if n \<le> length cs then (store_at (m(d := b)) (d + 1) (take n cs), d + 1 + n, 0)
       else (store_at (m(d := b)) (d + 1) (cs @ [0]), d + 1 + length cs + 1, n - length cs))"
      using Suc.prems Cons by (intro Suc.IH str_at_write [of m s b cs]) auto
    then show ?thesis using Suc.prems Cons by (auto simp: Let_def store_at_Cons)
  qed
qed simp

lemma store_at_append: "store_at (store_at m d xs) (d + length xs) ys = store_at m d (xs @ ys)"
  by (auto simp: store_at_def fun_eq_iff nth_append)

lemma strncpy_str:
  assumes "str_at m s bs" "d \<le> s \<or> s + length bs < d"
  shows "strncpy m d s n = store_at m d (if n \<le> length bs then take n bs else bs @ replicate (n - length bs + 1) 0)"
proof (cases "n \<le> length bs")
  case True
  then show ?thesis using strncpy_loop_str [OF assms] by (simp add: strncpy_def)
next
  case False
  then show ?thesis
    using strncpy_loop_str [OF assms, of n] store_at_append [of m d "bs @ [0]"]
    by (simp add: strncpy_def memset_store add.assoc)
qed

lemma find_end_str: "str_at m d ds \<Longrightarrow> find_end m d = Some (d + length ds)"
  by (induction ds arbitrary: d) (auto simp: find_end.simps [of m])

lemma strncat_loop_str:
  assumes "str_at m s bs" "d \<le> s \<or> s + length bs < d"
  shows "strncat_loop m d s n =
    (if n \<le> length bs then (store_at m d (take n bs), d + n) else (store_at m d (bs @ [0]), d + length bs + 1))"
  using assms
proof (induction n arbitrary: m d s bs)
  case (Suc n)
  show ?case
  proof (cases bs)
    case Nil
    then show ?thesis using Suc.prems by (simp add: Let_def store_at_Cons)
  next
    case (Cons b cs)
    have "strncat_loop (m(d := b)) (d + 1) (s + 1) n =
      (if n \<le> length cs then (store_at (m(d := b)) (d + 1) (take n cs), d + 1 + n)
       else (store_at (m(d := b)) (d + 1) (cs @ [0]), d + 1 + length cs + 1))"
      using Suc.prems Cons by (intro Suc.IH str_at_write [of m s b cs]) auto
    then show ?thesis using Suc.prems Cons by (auto simp: Let_def store_at_Cons)
  qed
qed simp

text \<open>Two strings one behind the other are a string.\<close>

lemma str_at_append:
  assumes "str_at m (p + length xs) ys" "bytes_at m p (length xs) = xs" "0 \<notin> set xs"
  shows "str_at m p (xs @ ys)"
  using assms by (induction xs arbitrary: p) (auto simp: bytes_at_Suc)

lemma str_at_bytes: "str_at m p bs \<Longrightarrow> bytes_at m p (length bs) = bs \<and> 0 \<notin> set bs"
  by (induction bs arbitrary: p) (auto simp: bytes_at_Suc)

lemma strcat_str:
  assumes "str_at m d ds" "str_at m s bs" "s + length bs < d \<or> d + length ds + length bs < s"
  shows "\<exists>m'. strcat m d s = Some m' \<and> str_at m' d (ds @ bs)
    \<and> (\<forall>a. a < d \<or> d + length ds + length bs < a \<longrightarrow> m' a = m a)"
proof -
  let ?m = "store_at m (d + length ds) (bs @ [0])"
  have cpy: "strcpy m (d + length ds) s = Some ?m" using assms by (intro strcpy_str) auto
  have "bytes_at ?m d (length ds) = bytes_at m d (length ds)" by (simp add: bytes_at_def store_at_def)
  then have "str_at ?m d (ds @ bs)"
    using str_at_bytes [OF assms(1)] str_at_bytes [OF assms(2)] by (intro str_at_append str_at_store) auto
  then show ?thesis using cpy find_end_str [OF assms(1)] by (auto simp: strcat_def store_at_def)
qed


lemma strcmp_str:
  assumes "str_at m p xs" "str_at m q ys"
  shows "\<exists>r. strcmp m p q = Some r \<and> (r = 0 \<longleftrightarrow> xs = ys) \<and> (r < 0 \<longleftrightarrow> dict_less xs ys) \<and> (0 < r \<longleftrightarrow> dict_less ys xs)"
  using assms
proof (induction xs arbitrary: p q ys)
  case Nil
  then show ?case
  proof (cases ys)
    case (Cons y zs)
    then have "0 < uint y" using Nil.prems by (intro byte_pos) auto
    then show ?thesis using Nil.prems Cons by (auto simp: strcmp.simps [of m])
  qed (auto simp: strcmp.simps [of m])
next
  case (Cons x xs)
  show ?case
  proof (cases ys)
    case Nil
    then have "0 < uint x" using Cons.prems by (intro byte_pos) auto
    then show ?thesis using Cons.prems Nil by (auto simp: strcmp.simps [of m])
  next
    case (Cons y zs)
    show ?thesis
    proof (cases "x = y")
      case True
      then have "strcmp m p q = strcmp m (p + 1) (q + 1)"
        using Cons.prems \<open>ys = y # zs\<close> by (subst strcmp.simps) auto
      then show ?thesis using Cons.IH [of "p + 1" "q + 1" zs] Cons.prems \<open>ys = y # zs\<close> True by auto
    next
      case False
      then show ?thesis using Cons.prems \<open>ys = y # zs\<close>
        by (subst strcmp.simps) (auto simp: word_less_def word_uint_eq_iff)
    qed
  qed
qed

lemma strncmp_str:
  assumes "str_at m p xs" "str_at m q ys"
  shows "strncmp m p q n = 0 \<longleftrightarrow> take n xs = take n ys"
  using assms
proof (induction n arbitrary: p q xs ys)
  case (Suc n)
  then show ?case by (cases xs; cases ys) (auto simp: word_uint_eq_iff)
qed simp

text \<open>The first and the last position of a byte, and the first position of a list of bytes.\<close>

fun first_at :: "'a \<Rightarrow> 'a list \<Rightarrow> nat option" where
  "first_at c [] = None"
| "first_at c (x # xs) = (if x = c then Some 0 else map_option Suc (first_at c xs))"

fun last_at :: "'a \<Rightarrow> 'a list \<Rightarrow> nat option" where
  "last_at c [] = None"
| "last_at c (x # xs) = (case last_at c xs of Some i \<Rightarrow> Some (Suc i) | None \<Rightarrow> if x = c then Some 0 else None)"

fun first_match :: "'a list \<Rightarrow> 'a list \<Rightarrow> nat option" where
  "first_match ns [] = (if ns = [] then Some 0 else None)"
| "first_match ns (h # hs) = (if prefix ns (h # hs) then Some 0 else map_option Suc (first_match ns hs))"

lemma first_match_Some:
  "first_match ns hs = Some i \<longleftrightarrow> i \<le> length hs \<and> prefix ns (drop i hs) \<and> (\<forall>j<i. \<not> prefix ns (drop j hs))"
proof (induction hs arbitrary: i)
  case (Cons h hs)
  show ?case
  proof (cases i)
    case (Suc k)
    have "(\<forall>j<Suc k. \<not> prefix ns (drop j (h # hs))) \<longleftrightarrow> \<not> prefix ns (h # hs) \<and> (\<forall>j<k. \<not> prefix ns (drop j hs))"
      by (auto simp: less_Suc_eq_0_disj)
    then show ?thesis using Cons.IH [of k] Suc by auto
  qed auto
qed auto

lemma first_match_None: "first_match ns hs = None \<longleftrightarrow> \<not> sublist ns hs"
proof (induction hs)
  case (Cons h hs)
  then show ?case by (auto simp: sublist_Cons_right)
qed auto

lemma strchr_str:
  "str_at m s bs \<Longrightarrow> strchr m s c = Some (map_option (\<lambda>i. s + i) (first_at c (bs @ [0])))"
proof (induction bs arbitrary: s)
  case Nil
  then show ?case by (simp add: strchr.simps [of m])
next
  case (Cons b bs)
  show ?case using Cons by (simp add: strchr.simps [of m s] option.map_comp comp_def)
qed

lemma strrchr_loop_str:
  "str_at m s bs \<Longrightarrow> strrchr_loop m s c l =
     Some (case last_at c (bs @ [0]) of None \<Rightarrow> l | Some i \<Rightarrow> Some (s + i))"
proof (induction bs arbitrary: s l)
  case Nil
  then show ?case by (simp add: strrchr_loop.simps [of m])
next
  case (Cons b bs)
  show ?case using Cons by (simp add: strrchr_loop.simps [of m s] split: option.splits)
qed

lemma strrchr_str:
  "str_at m s bs \<Longrightarrow> strrchr m s c = Some (map_option (\<lambda>i. s + i) (last_at c (bs @ [0])))"
  by (simp add: strrchr_def strrchr_loop_str split: option.splits)

lemma strstr_loop_str:
  assumes "str_at m h hs" "str_at m needle ns" "ns \<noteq> []"
  shows "strstr_loop m h needle (length ns) = Some (map_option (\<lambda>i. h + i) (first_match ns hs))"
  using assms(1)
proof (induction hs arbitrary: h)
  case Nil
  then show ?case using assms(3) by (simp add: strstr_loop.simps [of m])
next
  case (Cons b hs)
  have "take (length ns) (b # hs) = ns \<longleftrightarrow> prefix ns (b # hs)"
    by (metis append_eq_conv_conj prefix_def)
  then have "strncmp m h needle (length ns) = 0 \<longleftrightarrow> prefix ns (b # hs)"
    using strncmp_str [OF Cons.prems assms(2), of "length ns"] by simp
  then show ?case using Cons by (simp add: strstr_loop.simps [of m h] option.map_comp comp_def)
qed

lemma strstr_str:
  assumes "str_at m h hs" "str_at m needle ns"
  shows "strstr m h needle = Some (map_option (\<lambda>i. h + i) (first_match ns hs))"
proof (cases ns)
  case Nil
  then show ?thesis using strlen_str [OF assms(2)] by (cases hs) (simp_all add: strstr_def)
next
  case (Cons n ns')
  then show ?thesis using strlen_str [OF assms(2)] strstr_loop_str [OF assms] by (simp add: strstr_def)
qed

section \<open>Properties\<close>

text \<open>\<^emph>\<open>One byte too many.\<close> When the source is shorter than the count, \<^verbatim>\<open>strncpy\<close> writes a byte behind the destination, and
  \<^verbatim>\<open>strncat\<close> a second zero byte.\<close>

lemma strncpy_overruns:
  assumes "str_at m s bs" "d \<le> s \<or> s + length bs < d" "length bs < n"
  shows "strncpy m d s n (d + n) = 0"
  using strncpy_str [OF assms(1,2), of n] assms(3) by (auto simp: store_at_def nth_append)

lemma strncat_overruns:
  assumes "str_at m d ds" "str_at m s bs" "s + length bs < d \<or> d + length ds \<le> s" "length bs < n"
  shows "\<exists>m'. strncat m d s n = Some m' \<and> m' (d + length ds + length bs + 1) = 0"
proof -
  have "strncat_loop m (d + length ds) s n = (store_at m (d + length ds) (bs @ [0]), d + length ds + length bs + 1)"
    using strncat_loop_str [OF assms(2), of "d + length ds" n] assms(3,4) by auto
  then show ?thesis using find_end_str [OF assms(1)] by (auto simp: strncat_def)
qed

text \<open>\<^emph>\<open>Memmove.\<close> Whether the blocks overlap or not, the destination holds afterwards what the source held before,
  and no byte outside the destination changes.\<close>

theorem memmove_correct:
  "bytes_at (memmove m d s n) d n = bytes_at m s n \<and> (\<forall>a. a < d \<or> d + n \<le> a \<longrightarrow> memmove m d s n a = m a)"
  by (simp add: bytes_at_def memmove_at add.commute)

definition mem_of :: "u8 list \<Rightarrow> mem" where
  "mem_of bs a = (if a < length bs then bs ! a else 0)"

theorem memmove_correct_witness:
  "bytes_at (memmove (mem_of [1, 2, 3, 4, 5]) 1 0 3) 1 3 = [1, 2, 3] \<and> memmove (mem_of [1, 2, 3, 4, 5]) 1 0 3 4 = 5"
  using memmove_correct [of "mem_of [1, 2, 3, 4, 5]" 1 0 3] by (simp add: bytes_at_def mem_of_def upt_rec)

text \<open>\<^emph>\<open>String order.\<close> Comparing two strings ends, and its sign is their order in the dictionary of unsigned
  bytes.\<close>

theorem strcmp_dictionary:
  assumes "str_at m p xs" "str_at m q ys"
  shows "\<exists>r. strcmp m p q = Some r \<and> (r = 0 \<longleftrightarrow> xs = ys) \<and> (r < 0 \<longleftrightarrow> dict_less xs ys) \<and> (0 < r \<longleftrightarrow> dict_less ys xs)"
  using assms by (rule strcmp_str)

theorem strcmp_dictionary_witness:
  "strcmp (mem_of [97, 200, 0, 97, 98, 99, 0]) 0 3 = Some 102 \<and> dict_less [97, 98, 99] [97, 200 :: u8]"
proof -
  let ?m = "mem_of [97, 200, 0, 97, 98, 99, 0]"
  have "str_at ?m 0 [97, 200]" "str_at ?m 3 [97, 98, 99]" by (simp_all add: mem_of_def)
  from strcmp_dictionary [OF this] obtain r where "strcmp ?m 0 3 = Some r" "0 < r \<longleftrightarrow> dict_less [97, 98, 99] [97, 200 :: u8]" by blast
  moreover have "strcmp ?m 0 3 = Some 102" by (simp add: strcmp.simps [of ?m] mem_of_def)
  ultimately show ?thesis by simp
qed

text \<open>C35 (searching). \<^verbatim>\<open>strstr\<close> ends; it answers the first position at which the needle is, and the null pointer only when the
  needle is nowhere in the string.\<close>

theorem strstr_first_match:
  assumes "str_at m h hs" "str_at m needle ns"
  shows "(strstr m h needle = Some None \<and> \<not> sublist ns hs) \<or>
    (\<exists>i\<le>length hs. strstr m h needle = Some (Some (h + i)) \<and> prefix ns (drop i hs) \<and> (\<forall>j<i. \<not> prefix ns (drop j hs)))"
  using strstr_str [OF assms] first_match_None [of ns hs] first_match_Some [of ns hs]
  by (cases "first_match ns hs") auto

theorem strstr_first_match_witness:
  "strstr (mem_of [97, 98, 97, 98, 99, 0, 98, 99, 0]) 0 6 = Some (Some 3) \<and> prefix [98, 99] (drop 3 [97, 98, 97, 98, 99 :: u8])"
proof -
  let ?m = "mem_of [97, 98, 97, 98, 99, 0, 98, 99, 0]"
  have "str_at ?m 0 [97, 98, 97, 98, 99]" "str_at ?m 6 [98, 99]" by (simp_all add: mem_of_def)
  from strstr_first_match [OF this] show ?thesis
    by (auto simp: sublist_Cons_right le_Suc_eq numeral_eq_Suc)
qed

end
