(* ===== verification/Printk.thy ===== *)
theory Printk
  imports Prelude
begin

text \<open>
  Formatted printing, \<^verbatim>\<open>lib/printk.c\<close>. A string is the list of its characters without the terminating zero; a format
  that has been read to its end is the empty list. The array \<^verbatim>\<open>tmp\<close> of a number holds 66 characters and the one
  of its caller 68: a store outside them is \<open>None\<close>, and so is reading the format behind its end or taking an argument
  that is not there. Positions in the output are lengths: \<^verbatim>\<open>str < end\<close> says that the length is below \<open>sz - 1\<close>.
\<close>

section \<open>Numbers\<close>

abbreviation (input) FLAG_ZEROPAD :: u32 where "FLAG_ZEROPAD \<equiv> 1"
abbreviation (input) FLAG_SIGNED :: u32 where "FLAG_SIGNED \<equiv> 2"
abbreviation (input) FLAG_PLUS :: u32 where "FLAG_PLUS \<equiv> 4"
abbreviation (input) FLAG_SPACE :: u32 where "FLAG_SPACE \<equiv> 8"
abbreviation (input) FLAG_LEFT :: u32 where "FLAG_LEFT \<equiv> 16"
abbreviation (input) FLAG_PREFIX :: u32 where "FLAG_PREFIX \<equiv> 32"
abbreviation (input) FLAG_UPPERCASE :: u32 where "FLAG_UPPERCASE \<equiv> 64"

definition flag_on :: "u32 \<Rightarrow> u32 \<Rightarrow> bool" where
  "flag_on flags f \<longleftrightarrow> flags AND f \<noteq> 0"

definition push_ch :: "string \<Rightarrow> char \<Rightarrow> string option" where
  "push_ch tmp c = (if length tmp < 66 then Some (tmp @ [c]) else None)"

definition digit_chars :: "u32 \<Rightarrow> string" where
  "digit_chars flags = (if flag_on flags FLAG_UPPERCASE then ''0123456789ABCDEF'' else ''0123456789abcdef'')"

text \<open>The digits, lowest first. The base is 8, 10 or 16.\<close>

function conv_digits :: "string \<Rightarrow> nat \<Rightarrow> nat \<Rightarrow> string \<Rightarrow> string option" where
  "conv_digits digits base num tmp =
     (if num = 0 \<or> base < 2 then Some tmp
      else Option.bind (push_ch tmp (digits ! (num mod base))) (conv_digits digits base (num div base)))"
  by pat_completeness auto
termination by (relation "measure (\<lambda>(digits, base, num, tmp). num)") auto

declare conv_digits.simps [simp del]

function pad_to :: "int \<Rightarrow> char \<Rightarrow> string \<Rightarrow> string option" where
  "pad_to n c tmp = (if int (length tmp) < n then Option.bind (push_ch tmp c) (pad_to n c) else Some tmp)"
  by pat_completeness auto
termination
  by (relation "measure (\<lambda>(n, c, tmp). nat (n - int (length tmp)))") (auto simp: push_ch_def split: if_splits)

declare pad_to.simps [simp del]

definition num_prefix :: "nat \<Rightarrow> u32 \<Rightarrow> string \<Rightarrow> string option" where
  "num_prefix base flags tmp =
     (if \<not> flag_on flags FLAG_PREFIX then Some tmp
      else if base = 16
      then Option.bind (push_ch tmp (if flag_on flags FLAG_UPPERCASE then CHR ''X'' else CHR ''x'')) (\<lambda>t. push_ch t CHR ''0'')
      else if base = 8 \<and> last tmp \<noteq> CHR ''0'' then push_ch tmp CHR ''0''
      else Some tmp)"

definition num_sign :: "bool \<Rightarrow> u32 \<Rightarrow> string \<Rightarrow> string option" where
  "num_sign negative flags tmp =
     (if negative then push_ch tmp CHR ''-''
      else if flag_on flags FLAG_PLUS then push_ch tmp CHR ''+''
      else if flag_on flags FLAG_SPACE then push_ch tmp CHR '' ''
      else Some tmp)"

definition number_to_str :: "u64 \<Rightarrow> nat \<Rightarrow> int \<Rightarrow> int \<Rightarrow> u32 \<Rightarrow> string option" where
  "number_to_str num base width precision flags =
     (let negative = (num \<noteq> 0 \<and> flag_on flags FLAG_SIGNED \<and> sint num < 0);
          n = (if negative then - num else num)
      in Option.bind (if num = 0 then push_ch [] CHR ''0'' else conv_digits (digit_chars flags) base (unat n) [])
        (\<lambda>t1. Option.bind (pad_to precision CHR ''0'' t1)
        (\<lambda>t2. Option.bind (num_prefix base flags t2)
        (\<lambda>t3. Option.bind (num_sign negative flags t3)
        (\<lambda>t4. Option.bind (if flag_on flags FLAG_LEFT then Some t4
                else pad_to width (if flag_on flags FLAG_ZEROPAD then CHR ''0'' else CHR '' '') t4)
        (\<lambda>t5. Some (rev t5 @ (if flag_on flags FLAG_LEFT then replicate (nat width - length t5) CHR '' '' else []))))))))"

section \<open>Formats\<close>

datatype varg = VInt u64 | VStr "string option"

fun take_int :: "varg list \<Rightarrow> (u64 \<times> varg list) option" where
  "take_int (VInt n # as) = Some (n, as)"
| "take_int _ = None"

fun take_str :: "varg list \<Rightarrow> (string option \<times> varg list) option" where
  "take_str (VStr s # as) = Some (s, as)"
| "take_str _ = None"

fun flag_char :: "char \<Rightarrow> u32" where
  "flag_char c = (if c = CHR ''-'' then FLAG_LEFT else if c = CHR ''+'' then FLAG_PLUS else if c = CHR '' '' then FLAG_SPACE
     else if c = CHR ''#'' then FLAG_PREFIX else if c = CHR ''0'' then FLAG_ZEROPAD else 0)"

fun parse_flags :: "string \<Rightarrow> u32 \<Rightarrow> u32 \<times> string" where
  "parse_flags [] flags = (flags, [])"
| "parse_flags (c # fmt) flags =
     (if flag_char c \<noteq> 0 then parse_flags fmt (flags OR flag_char c) else (flags, c # fmt))"

definition is_digit_ch :: "char \<Rightarrow> bool" where
  "is_digit_ch c \<longleftrightarrow> of_char CHR ''0'' \<le> (of_char c :: nat) \<and> (of_char c :: nat) \<le> of_char CHR ''9''"

fun parse_digits :: "string \<Rightarrow> int \<Rightarrow> int \<times> string" where
  "parse_digits [] n = (n, [])"
| "parse_digits (c # fmt) n =
     (if is_digit_ch c then parse_digits fmt (n * 10 + (of_char c - of_char CHR ''0'')) else (n, c # fmt))"

text \<open>The low 32 bits of an argument, with and without sign.\<close>

definition arg_s32 :: "u64 \<Rightarrow> int" where
  "arg_s32 n = sint (ucast n :: u32)"

text \<open>Does the format go on with the character?\<close>

fun at_ch :: "char \<Rightarrow> string \<Rightarrow> bool" where
  "at_ch c [] \<longleftrightarrow> False"
| "at_ch c (d # fmt) \<longleftrightarrow> d = c"

definition parse_width :: "string \<Rightarrow> u32 \<Rightarrow> varg list \<Rightarrow> (int \<times> u32 \<times> string \<times> varg list) option" where
  "parse_width fmt flags as =
     (if at_ch CHR ''*'' fmt
      then (case take_int as of None \<Rightarrow> None
            | Some (n, as1) \<Rightarrow>
                Some (if arg_s32 n < 0 then (- arg_s32 n, flags OR FLAG_LEFT, tl fmt, as1) else (arg_s32 n, flags, tl fmt, as1)))
      else (case parse_digits fmt 0 of (w, fmt1) \<Rightarrow> Some (w, flags, fmt1, as)))"

definition parse_precision :: "string \<Rightarrow> varg list \<Rightarrow> (int \<times> string \<times> varg list) option" where
  "parse_precision fmt as =
     (if \<not> at_ch CHR ''.'' fmt then Some (- 1, fmt, as)
      else if at_ch CHR ''*'' (tl fmt)
      then (case take_int as of None \<Rightarrow> None | Some (n, as1) \<Rightarrow> Some (arg_s32 n, tl (tl fmt), as1))
      else (case parse_digits (tl fmt) 0 of (p, fmt2) \<Rightarrow> Some (p, fmt2, as)))"

definition parse_length :: "string \<Rightarrow> nat \<times> string" where
  "parse_length fmt =
     (if at_ch CHR ''h'' fmt then (if at_ch CHR ''h'' (tl fmt) then (2, tl (tl fmt)) else (1, tl fmt))
      else if at_ch CHR ''l'' fmt then (if at_ch CHR ''l'' (tl fmt) then (4, tl (tl fmt)) else (3, tl fmt))
      else if at_ch CHR ''z'' fmt \<or> at_ch CHR ''t'' fmt then (3, tl fmt)
      else (0, fmt))"

section \<open>Conversions\<close>

definition room :: "nat \<Rightarrow> string \<Rightarrow> bool" where
  "room sz out \<longleftrightarrow> length out < sz - 1"

definition out_ch :: "nat \<Rightarrow> char \<Rightarrow> string \<Rightarrow> string" where
  "out_ch sz c out = (if room sz out then out @ [c] else out)"

fun out_str :: "nat \<Rightarrow> string \<Rightarrow> string \<Rightarrow> string" where
  "out_str sz [] out = out"
| "out_str sz (c # cs) out = (if room sz out then out_str sz cs (out @ [c]) else out)"

text \<open>\<^verbatim>\<open>while (--width > 0 && str < end) *str++ = ' ';\<close> and \<^verbatim>\<open>while (len < width-- && str < end) *str++ = ' ';\<close>\<close>

function pad_char :: "nat \<Rightarrow> int \<Rightarrow> string \<Rightarrow> int \<times> string" where
  "pad_char sz w out = (if 0 < w - 1 \<and> room sz out then pad_char sz (w - 1) (out @ '' '') else (w - 1, out))"
  by pat_completeness auto
termination by (relation "measure (\<lambda>(sz, w, out). nat w)") auto

function pad_str :: "nat \<Rightarrow> int \<Rightarrow> int \<Rightarrow> string \<Rightarrow> int \<times> string" where
  "pad_str sz len w out = (if len < w \<and> room sz out then pad_str sz len (w - 1) (out @ '' '') else (w - 1, out))"
  by pat_completeness auto
termination by (relation "measure (\<lambda>(sz, len, w, out). nat (w - len))") auto

declare pad_char.simps [simp del] pad_str.simps [simp del]

definition fmt_char :: "nat \<Rightarrow> char \<Rightarrow> int \<Rightarrow> u32 \<Rightarrow> string \<Rightarrow> string" where
  "fmt_char sz c width flags out =
     (case (if flag_on flags FLAG_LEFT then (width, out) else pad_char sz width out) of
        (w, out1) \<Rightarrow> snd (pad_char sz w (out_ch sz c out1)))"

definition fmt_str :: "nat \<Rightarrow> string option \<Rightarrow> int \<Rightarrow> int \<Rightarrow> u32 \<Rightarrow> string \<Rightarrow> string" where
  "fmt_str sz arg width precision flags out =
     (let s = (case arg of None \<Rightarrow> ''(null)'' | Some s \<Rightarrow> s);
          len = (if precision < 0 \<or> int (length s) < precision then length s else nat precision)
      in case (if flag_on flags FLAG_LEFT then (width, out) else pad_str sz (int len) width out) of
           (w, out1) \<Rightarrow> snd (pad_str sz (int len) w (out_str sz (take len s) out1)))"

definition fmt_num :: "nat \<Rightarrow> u64 \<Rightarrow> nat \<Rightarrow> int \<Rightarrow> int \<Rightarrow> u32 \<Rightarrow> string \<Rightarrow> string option" where
  "fmt_num sz num base width precision flags out =
     Option.bind (number_to_str num base width precision flags)
       (\<lambda>s. if length s < 68 then Some (out_str sz s out) else None)"

definition unsigned_arg :: "nat \<Rightarrow> u64 \<Rightarrow> u64" where
  "unsigned_arg len n = (if 3 \<le> len then n else ucast (ucast n :: u32))"

definition signed_arg :: "nat \<Rightarrow> u64 \<Rightarrow> u64" where
  "signed_arg len n = (if 3 \<le> len then n else scast (ucast n :: u32))"

definition conversion ::
  "nat \<Rightarrow> char \<Rightarrow> u32 \<Rightarrow> int \<Rightarrow> int \<Rightarrow> nat \<Rightarrow> varg list \<Rightarrow> string \<Rightarrow> (varg list \<times> string) option" where
  "conversion sz c flags width precision len as out =
     (if c = CHR ''c'' then
        (case take_int as of None \<Rightarrow> None
         | Some (n, as1) \<Rightarrow> Some (as1, fmt_char sz (char_of (unat (ucast n :: u8))) width flags out))
      else if c = CHR ''s'' then
        (case take_str as of None \<Rightarrow> None | Some (s, as1) \<Rightarrow> Some (as1, fmt_str sz s width precision flags out))
      else if c \<in> {CHR ''p'', CHR ''d'', CHR ''i'', CHR ''u'', CHR ''x'', CHR ''X'', CHR ''o''} then
        (case take_int as of None \<Rightarrow> None
         | Some (n, as1) \<Rightarrow>
             map_option (\<lambda>o1. (as1, o1))
               (if c = CHR ''p'' then fmt_num sz n 16 width precision (flags OR FLAG_PREFIX) out
                else if c = CHR ''d'' \<or> c = CHR ''i'' then fmt_num sz (signed_arg len n) 10 width precision (flags OR FLAG_SIGNED) out
                else if c = CHR ''u'' then fmt_num sz (unsigned_arg len n) 10 width precision flags out
                else if c = CHR ''x'' then fmt_num sz (unsigned_arg len n) 16 width precision flags out
                else if c = CHR ''X'' then fmt_num sz (unsigned_arg len n) 16 width precision (flags OR FLAG_UPPERCASE) out
                else fmt_num sz (unsigned_arg len n) 8 width precision flags out))
      else if c = CHR ''%'' then Some (as, out_ch sz CHR ''%'' out)
      else Some (as, out_ch sz c (out_ch sz CHR ''%'' out)))"

text \<open>What stands between the percent sign and the conversion character.\<close>

definition parse_spec :: "string \<Rightarrow> varg list \<Rightarrow> (u32 \<times> int \<times> int \<times> nat \<times> string \<times> varg list) option" where
  "parse_spec fmt as =
     (case parse_flags fmt 0 of (flags, f1) \<Rightarrow>
        Option.bind (parse_width f1 flags as) (\<lambda>(w, flags2, f2, as2).
        Option.bind (parse_precision f2 as2) (\<lambda>(p, f3, as3).
        (case parse_length f3 of (len, f4) \<Rightarrow> Some (flags2, w, p, len, f4, as3)))))"

lemma parse_flags_length: "length (snd (parse_flags fmt flags)) \<le> length fmt"
  by (induction fmt flags rule: parse_flags.induct) auto

lemma parse_digits_length: "length (snd (parse_digits fmt n)) \<le> length fmt"
  by (induction fmt n rule: parse_digits.induct) auto


lemma parse_width_length: "parse_width fmt flags as = Some (w, fl, fmt1, as1) \<Longrightarrow> length fmt1 \<le> length fmt"
  using parse_digits_length [of fmt 0]
  by (auto simp: parse_width_def split: option.splits prod.splits if_splits)

lemma parse_precision_length: "parse_precision fmt as = Some (p, fmt1, as1) \<Longrightarrow> length fmt1 \<le> length fmt"
  using parse_digits_length [of "tl fmt" 0]
  by (auto simp: parse_precision_def split: option.splits prod.splits if_splits)

lemma parse_length_length: "length (snd (parse_length fmt)) \<le> length fmt"
  by (auto simp: parse_length_def)

lemma parse_spec_length:
  assumes "parse_spec fmt as = Some (fl, w, p, len, fmt1, as1)"
  shows "length fmt1 \<le> length fmt"
proof -
  obtain f0 g1 where 1: "parse_flags fmt 0 = (f0, g1)" by fastforce
  obtain w1 f2 g2 as2 where 2: "parse_width g1 f0 as = Some (w1, f2, g2, as2)"
    using assms 1 by (auto simp: parse_spec_def bind_eq_Some_conv)
  obtain p1 g3 as3 where 3: "parse_precision g2 as2 = Some (p1, g3, as3)"
    using assms 1 2 by (auto simp: parse_spec_def bind_eq_Some_conv)
  have "fmt1 = snd (parse_length g3)" using assms 1 2 3 by (auto simp: parse_spec_def split: prod.splits)
  then show ?thesis
    using parse_flags_length [of fmt 0] 1 parse_width_length [OF 2] parse_precision_length [OF 3] parse_length_length [of g3]
    by simp
qed

text \<open>The loop over the format.\<close>

function format_loop :: "nat \<Rightarrow> string \<Rightarrow> varg list \<Rightarrow> string \<Rightarrow> string option" where
  "format_loop sz fmt as out =
     (case fmt of [] \<Rightarrow> Some out
      | c # f \<Rightarrow>
          if \<not> room sz out then Some out
          else if c \<noteq> CHR ''%'' then format_loop sz f as (out @ [c])
          else (case parse_spec f as of None \<Rightarrow> None
                | Some (flags, w, p, len, g, as1) \<Rightarrow>
                    (case g of [] \<Rightarrow> None
                     | d # g1 \<Rightarrow>
                         (case conversion sz d flags w p len as1 out of None \<Rightarrow> None
                          | Some (as2, out2) \<Rightarrow> format_loop sz g1 as2 out2))))"
  by pat_completeness auto
termination
  by (relation "measure (\<lambda>(sz, fmt, as, out). length fmt)") (auto dest!: parse_spec_length)

declare format_loop.simps [simp del]

text \<open>The characters stored, before the zero; the result of the function is their number.\<close>

definition vsnprintf :: "nat \<Rightarrow> string \<Rightarrow> varg list \<Rightarrow> string option" where
  "vsnprintf sz fmt as = (if sz = 0 then Some [] else format_loop sz fmt as [])"

definition snprintf :: "nat \<Rightarrow> string \<Rightarrow> varg list \<Rightarrow> string option" where
  "snprintf sz fmt as = vsnprintf sz fmt as"

text \<open>What \<^verbatim>\<open>vprintk\<close> writes to the serial line, and to the screen if the level of the message is at most \<open>loglevel\<close>.\<close>

definition log_prefix :: "string \<Rightarrow> bool" where
  "log_prefix fmt \<longleftrightarrow> 3 \<le> length fmt \<and> fmt ! 0 = CHR ''<'' \<and> of_char CHR ''0'' \<le> (of_char (fmt ! 1) :: nat)
     \<and> (of_char (fmt ! 1) :: nat) \<le> of_char CHR ''7'' \<and> fmt ! 2 = CHR ''>''"

definition vprintk :: "int \<Rightarrow> string \<Rightarrow> varg list \<Rightarrow> (string \<times> bool) option" where
  "vprintk loglevel fmt as =
     (let level = (if log_prefix fmt then of_char (fmt ! 1) - of_char CHR ''0'' else 6);
          f = (if log_prefix fmt then drop 3 fmt else fmt)
      in map_option (\<lambda>s. (s, level \<le> loglevel)) (vsnprintf 1024 f as))"

end
