(* ===== verification/Printk_Correct.thy ===== *)
theory Printk_Correct
  imports Printk
begin

text \<open>
  The formatter against a reference that has no arrays and no end: the text of a number by its digits, the text of a
  directive, and the text of a format. The code writes the part of it that fits.
\<close>

section \<open>The text of a number\<close>

fun digits_of :: "nat \<Rightarrow> nat \<Rightarrow> nat list" where
  "digits_of base n = (if n = 0 \<or> base < 2 then [] else digits_of base (n div base) @ [n mod base])"

declare digits_of.simps [simp del]

definition number_text :: "u64 \<Rightarrow> nat \<Rightarrow> int \<Rightarrow> int \<Rightarrow> u32 \<Rightarrow> string" where
  "number_text num base width precision flags =
     (let negative = (num \<noteq> 0 \<and> flag_on flags FLAG_SIGNED \<and> sint num < 0);
          n = unat (if negative then - num else num);
          ds = (if n = 0 then ''0'' else map (\<lambda>d. digit_chars flags ! d) (digits_of base n));
          ds1 = replicate (nat precision - length ds) CHR ''0'' @ ds;
          ds2 = (if \<not> flag_on flags FLAG_PREFIX then []
                 else if base = 16 then [CHR ''0'', if flag_on flags FLAG_UPPERCASE then CHR ''X'' else CHR ''x'']
                 else if base = 8 \<and> hd ds1 \<noteq> CHR ''0'' then ''0'' else []) @ ds1
      in (if negative then ''-'' else if flag_on flags FLAG_PLUS then ''+'' else if flag_on flags FLAG_SPACE then '' '' else []) @ ds2)"

text \<open>With the padding to the width.\<close>

definition padded_text :: "int \<Rightarrow> u32 \<Rightarrow> string \<Rightarrow> string" where
  "padded_text width flags s =
     (let k = nat width - length s in
      if flag_on flags FLAG_LEFT then s @ replicate k CHR '' ''
      else replicate k (if flag_on flags FLAG_ZEROPAD then CHR ''0'' else CHR '' '') @ s)"

lemma digits_of_0 [simp]: "digits_of base 0 = []"
  by (simp add: digits_of.simps)

lemma conv_digits_eq:
  "2 \<le> base \<Longrightarrow> conv_digits ds base n tmp =
     (let t = tmp @ map (\<lambda>d. ds ! d) (rev (digits_of base n)) in if n = 0 \<or> length t \<le> 66 then Some t else None)"
proof (induction ds base n tmp rule: conv_digits.induct)
  case (1 ds base n tmp)
  show ?case
  proof (cases "n = 0")
    case True
    then show ?thesis by (simp add: conv_digits.simps)
  next
    case False
    have d: "digits_of base n = digits_of base (n div base) @ [n mod base]"
      using False 1(2) by (subst digits_of.simps) simp
    show ?thesis
    proof (cases "length tmp < 66")
      case True
      then have "conv_digits ds base (n div base) (tmp @ [ds ! (n mod base)]) =
        (let t = (tmp @ [ds ! (n mod base)]) @ map (\<lambda>d. ds ! d) (rev (digits_of base (n div base)))
         in if n div base = 0 \<or> length t \<le> 66 then Some t else None)"
        using 1 False by (simp add: push_ch_def)
      then show ?thesis
        using False 1(2) True by (subst conv_digits.simps) (auto simp: push_ch_def d Let_def)
    next
      case F: False
      then show ?thesis using False 1(2) by (subst conv_digits.simps) (simp add: push_ch_def d Let_def)
    qed
  qed
qed

lemma pad_to_eq:
  "length tmp \<le> 66 \<Longrightarrow> pad_to n c tmp =
     (let t = tmp @ replicate (nat n - length tmp) c in if length t \<le> 66 then Some t else None)"
proof (induction n c tmp rule: pad_to.induct)
  case (1 n c tmp)
  show ?case
  proof (cases "int (length tmp) < n")
    case True
    then have e: "nat n - length tmp = Suc (nat n - Suc (length tmp))" by linarith
    show ?thesis
    proof (cases "length tmp < 66")
      case T: True
      then have "pad_to n c (tmp @ [c]) =
        (let t = (tmp @ [c]) @ replicate (nat n - length (tmp @ [c])) c in if length t \<le> 66 then Some t else None)"
        using 1 True by (simp add: push_ch_def)
      then show ?thesis using True T by (subst pad_to.simps) (auto simp: push_ch_def e Let_def)
    next
      case F: False
      then show ?thesis using True 1(2) by (subst pad_to.simps) (auto simp: push_ch_def Let_def)
    qed
  next
    case False
    then have "nat n - length tmp = 0" by linarith
    then show ?thesis using False 1(2) by (subst pad_to.simps) (simp add: Let_def)
  qed
qed


text \<open>Every step appends to the array or overflows it.\<close>

definition fits :: "string \<Rightarrow> string option" where
  "fits t = (if length t \<le> 66 then Some t else None)"

lemma bind_fits:
  assumes "\<And>t. length t \<le> 66 \<Longrightarrow> f t = fits (t @ g t)"
  shows "Option.bind (fits a) f = fits (a @ g a)"
  using assms [of a] by (auto simp: fits_def)

lemma push_fits: "push_ch t c = fits (t @ [c])"
  by (simp add: push_ch_def fits_def)

lemma digits_of_pos: "0 < n \<Longrightarrow> 2 \<le> base \<Longrightarrow> digits_of base n \<noteq> []"
  by (subst digits_of.simps) simp

definition prefix_text :: "nat \<Rightarrow> u32 \<Rightarrow> char \<Rightarrow> string" where
  "prefix_text base flags c =
     (if \<not> flag_on flags FLAG_PREFIX then []
      else if base = 16 then [CHR ''0'', if flag_on flags FLAG_UPPERCASE then CHR ''X'' else CHR ''x'']
      else if base = 8 \<and> c \<noteq> CHR ''0'' then ''0'' else [])"

definition sign_text :: "bool \<Rightarrow> u32 \<Rightarrow> string" where
  "sign_text negative flags =
     (if negative then ''-'' else if flag_on flags FLAG_PLUS then ''+'' else if flag_on flags FLAG_SPACE then '' '' else [])"

lemma num_prefix_fits: "length t \<le> 66 \<Longrightarrow> num_prefix base flags t = fits (t @ rev (prefix_text base flags (last t)))"
  by (auto simp: num_prefix_def prefix_text_def push_ch_def fits_def)

lemma num_sign_fits: "length t \<le> 66 \<Longrightarrow> num_sign neg flags t = fits (t @ sign_text neg flags)"
  by (auto simp: num_sign_def sign_text_def push_ch_def fits_def)

lemma pad_to_fits: "length t \<le> 66 \<Longrightarrow> pad_to n c t = fits (t @ replicate (nat n - length t) c)"
  by (simp add: pad_to_eq fits_def Let_def)

lemma conv_fits:
  "2 \<le> base \<Longrightarrow> (if n = 0 then push_ch [] CHR ''0'' else conv_digits ds base n []) =
     fits (rev (if n = 0 then ''0'' else map (\<lambda>d. ds ! d) (digits_of base n)))"
  by (auto simp: conv_digits_eq push_ch_def fits_def Let_def rev_map)

lemma number_to_str_eq:
  assumes "2 \<le> base"
  shows "number_to_str num base width precision flags =
    (let s = number_text num base width precision flags in
     if length s \<le> 66 \<and> (flag_on flags FLAG_LEFT \<or> width \<le> 66) then Some (padded_text width flags s) else None)"
proof -
  define neg where "neg = (num \<noteq> 0 \<and> flag_on flags FLAG_SIGNED \<and> sint num < 0)"
  define n where "n = unat (if neg then - num else num)"
  define ds where "ds = (if n = 0 then ''0'' else map (\<lambda>d. digit_chars flags ! d) (digits_of base n))"
  define ds1 where "ds1 = replicate (nat precision - length ds) CHR ''0'' @ ds"
  have n0: "n = 0 \<longleftrightarrow> num = 0" by (auto simp: n_def unat_eq_zero neg_def)
  have ne: "ds \<noteq> []" using digits_of_pos [of n base] assms by (auto simp: ds_def)
  then have "ds1 \<noteq> []" by (simp add: ds1_def)
  then have lst: "last (rev ds1) = hd ds1" by (simp add: last_rev)
  have ntext: "number_text num base width precision flags = sign_text neg flags @ prefix_text base flags (hd ds1) @ ds1"
    unfolding number_text_def neg_def [symmetric] Let_def n_def [symmetric] ds_def [symmetric] ds1_def [symmetric]
    by (simp add: sign_text_def prefix_text_def)
  let ?pad = "\<lambda>t. if flag_on flags FLAG_LEFT then Some t
     else pad_to width (if flag_on flags FLAG_ZEROPAD then CHR ''0'' else CHR '' '') t"
  let ?P = "\<lambda>t. if flag_on flags FLAG_LEFT then [] else replicate (nat width - length t) (if flag_on flags FLAG_ZEROPAD then CHR ''0'' else CHR '' '')"
  let ?s4 = "rev (sign_text neg flags @ prefix_text base flags (hd ds1) @ ds1)"
  have s: "rev (sign_text neg flags) = sign_text neg flags" by (simp add: sign_text_def)
  have chain: "Option.bind (if num = 0 then push_ch [] CHR ''0'' else conv_digits (digit_chars flags) base n [])
      (\<lambda>t1. Option.bind (pad_to precision CHR ''0'' t1) (\<lambda>t2. Option.bind (num_prefix base flags t2)
      (\<lambda>t3. Option.bind (num_sign neg flags t3) ?pad))) = Option.bind (fits ?s4) ?pad"
  proof -
    have "Option.bind (fits (rev ds)) (pad_to precision CHR ''0'') = fits (rev ds1)"
      using bind_fits [of "pad_to precision CHR ''0''" "\<lambda>t. replicate (nat precision - length t) CHR ''0''" "rev ds"]
      by (simp add: pad_to_fits ds1_def)
    moreover have "Option.bind (fits (rev ds1)) (num_prefix base flags) = fits (rev (prefix_text base flags (hd ds1) @ ds1))"
      using bind_fits [of "num_prefix base flags" "\<lambda>t. rev (prefix_text base flags (last t))" "rev ds1"]
      by (simp add: num_prefix_fits lst)
    moreover have "Option.bind (fits (rev (prefix_text base flags (hd ds1) @ ds1))) (num_sign neg flags) = fits ?s4"
      using bind_fits [of "num_sign neg flags" "\<lambda>t. sign_text neg flags" "rev (prefix_text base flags (hd ds1) @ ds1)"]
      by (simp add: num_sign_fits s)
    moreover have "(if num = 0 then push_ch [] CHR ''0'' else conv_digits (digit_chars flags) base n []) = fits (rev ds)"
      unfolding n0 [symmetric] ds_def using conv_fits [OF assms] .
    ultimately show ?thesis by (simp only: bind_assoc [symmetric])
  qed
  have "number_to_str num base width precision flags = Option.bind (Option.bind (fits ?s4) ?pad)
      (\<lambda>t5. Some (rev t5 @ (if flag_on flags FLAG_LEFT then replicate (nat width - length t5) CHR '' '' else [])))"
    unfolding number_to_str_def neg_def [symmetric] Let_def n_def [symmetric] chain [symmetric] by (simp only: bind_assoc)
  moreover have "width \<le> 66 \<or> nat width - length ?s4 + length ?s4 > 66 \<or> flag_on flags FLAG_LEFT" by linarith
  ultimately show ?thesis
    unfolding ntext Let_def padded_text_def
    by (cases "flag_on flags FLAG_LEFT") (auto simp: fits_def pad_to_fits)
qed


section \<open>Reading a number back\<close>

definition digit_val :: "char \<Rightarrow> nat" where
  "digit_val c = (let n = of_char c in if n \<le> 57 then n - 48 else if n \<le> 70 then n - 55 else n - 87)"

definition str_val :: "nat \<Rightarrow> string \<Rightarrow> nat" where
  "str_val base s = foldl (\<lambda>a c. a * base + digit_val c) 0 s"

definition read_num :: "nat \<Rightarrow> string \<Rightarrow> int" where
  "read_num base s = (if at_ch CHR ''-'' s then - int (str_val base (tl s)) else int (str_val base s))"

lemma digit_val_char: "d < 16 \<Longrightarrow> digit_val (digit_chars flags ! d) = d"
proof -
  assume "d < 16"
  then have "d \<in> set [0..<16]" by simp
  moreover have "\<forall>d\<in>set [0..<16]. digit_val (''0123456789ABCDEF'' ! d) = d" by code_simp
  moreover have "\<forall>d\<in>set [0..<16]. digit_val (''0123456789abcdef'' ! d) = d" by code_simp
  ultimately show ?thesis by (simp add: digit_chars_def)
qed

lemma digit_not_minus: "d < 16 \<Longrightarrow> digit_chars flags ! d \<noteq> CHR ''-''"
proof -
  assume "d < 16"
  then have "d \<in> set [0..<16]" by simp
  moreover have "\<forall>d\<in>set [0..<16]. ''0123456789ABCDEF'' ! d \<noteq> CHR ''-''" by code_simp
  moreover have "\<forall>d\<in>set [0..<16]. ''0123456789abcdef'' ! d \<noteq> CHR ''-''" by code_simp
  ultimately show ?thesis by (simp add: digit_chars_def)
qed

lemma digits_of_less: "2 \<le> base \<Longrightarrow> d \<in> set (digits_of base n) \<Longrightarrow> d < base"
proof (induction base n rule: digits_of.induct)
  case (1 base n)
  show ?case
  proof (cases "n = 0")
    case False
    then have "digits_of base n = digits_of base (n div base) @ [n mod base]" using 1(2) by (subst digits_of.simps) simp
    then show ?thesis using 1 False by auto
  qed (use 1 in simp)
qed

lemma foldl_digits: "2 \<le> base \<Longrightarrow> foldl (\<lambda>a d. a * base + d) 0 (digits_of base n) = n"
proof (induction base n rule: digits_of.induct)
  case (1 base n)
  show ?case
  proof (cases "n = 0")
    case False
    then have "digits_of base n = digits_of base (n div base) @ [n mod base]" using 1(2) by (subst digits_of.simps) simp
    then show ?thesis using 1 False by simp
  qed simp
qed

lemma length_digits: "2 \<le> base \<Longrightarrow> n < base ^ k \<Longrightarrow> length (digits_of base n) \<le> k"
proof (induction base n arbitrary: k rule: digits_of.induct)
  case (1 base n)
  show ?case
  proof (cases "n = 0")
    case False
    then obtain j where k: "k = Suc j" using 1(3) by (cases k) auto
    have "digits_of base n = digits_of base (n div base) @ [n mod base]" using False 1(2) by (subst digits_of.simps) simp
    moreover have "n div base < base ^ j" using 1(2,3) k by (simp add: less_mult_imp_div_less mult.commute)
    ultimately show ?thesis using 1 False k by simp
  qed simp
qed

lemma str_val_zeros: "str_val base (replicate k CHR ''0'' @ s) = str_val base s"
  by (induction k) (simp_all add: str_val_def digit_val_def)

lemma at_ch_zeros: "at_ch c (replicate k d @ s) \<longleftrightarrow> (if k = 0 then at_ch c s else d = c)"
  by (cases k) auto

lemma str_val_digits:
  assumes "2 \<le> base" "base \<le> 16"
  shows "str_val base (map (\<lambda>d. digit_chars flags ! d) (digits_of base n)) = n"
proof -
  have "foldl (\<lambda>a c. a * base + digit_val c) a (map (\<lambda>d. digit_chars flags ! d) ds) = foldl (\<lambda>a d. a * base + d) a ds"
    if "\<forall>d\<in>set ds. d < 16" for a ds
    using that by (induction ds arbitrary: a) (simp_all add: digit_val_char)
  moreover have "\<forall>d\<in>set (digits_of base n). d < 16" using digits_of_less [OF assms(1)] assms(2) by fastforce
  ultimately show ?thesis using foldl_digits [OF assms(1)] by (simp add: str_val_def)
qed

lemma uint_uminus_neg:
  fixes w :: u64
  assumes "sint w < 0"
  shows "uint (- w) = - sint w"
proof -
  have "- w = word_of_int (- sint w)" by simp
  then have "uint (- w) = take_bit 64 (- sint w)" by (simp only: unsigned_of_int) simp
  also have "\<dots> = - sint w"
    using assms sint_greater_eq [of w] by (intro take_bit_int_eq_self) auto
  finally show ?thesis .
qed

text \<open>What a number is written as, without sign characters other than the minus.\<close>

lemma number_roundtrip_lemma:
  assumes "base \<in> {8, 10, 16}" "precision \<le> 60" "flags \<in> {0, FLAG_SIGNED, FLAG_UPPERCASE, FLAG_SIGNED OR FLAG_UPPERCASE}"
  shows "\<exists>s. number_to_str num base 0 precision flags = Some s \<and> length s \<le> 61
    \<and> read_num base s = (if flag_on flags FLAG_SIGNED then sint num else uint num)"
proof -
  define neg where "neg = (num \<noteq> 0 \<and> flag_on flags FLAG_SIGNED \<and> sint num < 0)"
  define n where "n = unat (if neg then - num else num)"
  define ds where "ds = (if n = 0 then ''0'' else map (\<lambda>d. digit_chars flags ! d) (digits_of base n))"
  define z where "z = replicate (nat precision - length ds) CHR ''0''"
  have base: "2 \<le> base" "base \<le> 16" "8 \<le> base" using assms(1) by auto
  have fl: "\<not> flag_on flags FLAG_PREFIX" "\<not> flag_on flags FLAG_PLUS" "\<not> flag_on flags FLAG_SPACE" "\<not> flag_on flags FLAG_LEFT"
    using assms(3) by (auto simp: flag_on_def)
  have ntext: "number_text num base 0 precision flags = (if neg then ''-'' else []) @ z @ ds"
    unfolding number_text_def neg_def [symmetric] Let_def n_def [symmetric] ds_def [symmetric] z_def [symmetric]
    using fl by simp
  have "n < 8 ^ 22" unfolding n_def using unsigned_less [of "if neg then - num else num", where ?'a = nat] by simp
  also have "(8 :: nat) ^ 22 \<le> base ^ 22" using base(3) by (rule power_mono) simp
  finally have "length ds \<le> 22" using length_digits [OF base(1)] by (simp add: ds_def)
  then have "length (z @ ds) \<le> 60" unfolding z_def using assms(2) by simp
  then have len: "length (number_text num base 0 precision flags) \<le> 61" by (simp add: ntext)
  have "str_val base (z @ ds) = n"
    unfolding z_def str_val_zeros using str_val_digits [OF base(1,2)] by (simp add: ds_def str_val_def digit_val_def)
  moreover have "ds = [] \<or> hd ds \<noteq> CHR ''-''"
  proof (cases "n = 0")
    case False
    then obtain d ds' where "digits_of base n = d # ds'" using digits_of_pos [of n base] base(1) by (cases "digits_of base n") auto
    moreover from this have "d < 16" using digits_of_less [OF base(1), of d n] base(2) by simp
    moreover have "digit_chars flags ! d \<noteq> CHR ''-''"
      by (rule digit_not_minus [OF \<open>d < 16\<close>])
    ultimately show ?thesis using False by (simp add: ds_def)
  qed (simp add: ds_def)
  ultimately have "read_num base (number_text num base 0 precision flags) = (if neg then - int n else int n)"
  proof -
    assume sv: "str_val base (z @ ds) = n" and h: "ds = [] \<or> hd ds \<noteq> CHR ''-''"
    have "\<not> at_ch CHR ''-'' (z @ ds)"
      unfolding z_def at_ch_zeros using h by (cases ds) auto
    then show ?thesis unfolding ntext by (simp add: read_num_def sv)
  qed
  moreover have "(if neg then - int n else int n) = (if flag_on flags FLAG_SIGNED then sint num else uint num)"
  proof (cases neg)
    case True
    then have "int n = - sint num" unfolding n_def neg_def by (simp add: uint_uminus_neg)
    then show ?thesis using True by (simp add: neg_def)
  next
    case False
    then show ?thesis unfolding n_def neg_def using sint_uint_pos [of num] by auto
  qed
  ultimately show ?thesis
    using len number_to_str_eq [OF base(1), of num 0 precision flags] fl by (auto simp: padded_text_def Let_def)
qed


section \<open>The text of a format\<close>

definition char_text :: "char \<Rightarrow> int \<Rightarrow> u32 \<Rightarrow> string" where
  "char_text c width flags =
     (let sp = replicate (nat (width - 1)) CHR '' '' in if flag_on flags FLAG_LEFT then c # sp else sp @ [c])"

definition str_text :: "string option \<Rightarrow> int \<Rightarrow> int \<Rightarrow> u32 \<Rightarrow> string" where
  "str_text arg width precision flags =
     (let s = (case arg of None \<Rightarrow> ''(null)'' | Some s \<Rightarrow> s);
          u = (if precision < 0 then s else take (nat precision) s);
          sp = replicate (nat width - length u) CHR '' ''
      in if flag_on flags FLAG_LEFT then u @ sp else sp @ u)"

definition num_text :: "u64 \<Rightarrow> nat \<Rightarrow> int \<Rightarrow> int \<Rightarrow> u32 \<Rightarrow> string option" where
  "num_text num base width precision flags =
     (let s = number_text num base width precision flags in
      if length s \<le> 66 \<and> width \<le> (if flag_on flags FLAG_LEFT then 67 else 66) then Some (padded_text width flags s) else None)"

definition conv_text :: "char \<Rightarrow> u32 \<Rightarrow> int \<Rightarrow> int \<Rightarrow> nat \<Rightarrow> varg list \<Rightarrow> (varg list \<times> string) option" where
  "conv_text c flags width precision len as =
     (if c = CHR ''c'' then
        (case take_int as of None \<Rightarrow> None
         | Some (n, as1) \<Rightarrow> Some (as1, char_text (char_of (unat (ucast n :: u8))) width flags))
      else if c = CHR ''s'' then
        (case take_str as of None \<Rightarrow> None | Some (s, as1) \<Rightarrow> Some (as1, str_text s width precision flags))
      else if c \<in> {CHR ''p'', CHR ''d'', CHR ''i'', CHR ''u'', CHR ''x'', CHR ''X'', CHR ''o''} then
        (case take_int as of None \<Rightarrow> None
         | Some (n, as1) \<Rightarrow>
             map_option (\<lambda>t. (as1, t))
               (if c = CHR ''p'' then num_text n 16 width precision (flags OR FLAG_PREFIX)
                else if c = CHR ''d'' \<or> c = CHR ''i'' then num_text (signed_arg len n) 10 width precision (flags OR FLAG_SIGNED)
                else if c = CHR ''u'' then num_text (unsigned_arg len n) 10 width precision flags
                else if c = CHR ''x'' then num_text (unsigned_arg len n) 16 width precision flags
                else if c = CHR ''X'' then num_text (unsigned_arg len n) 16 width precision (flags OR FLAG_UPPERCASE)
                else num_text (unsigned_arg len n) 8 width precision flags))
      else Some (as, if c = CHR ''%'' then ''%'' else [CHR ''%'', c]))"

text \<open>The text of a format without a limit.\<close>

function format_text :: "string \<Rightarrow> varg list \<Rightarrow> string option" where
  "format_text fmt as =
     (case fmt of [] \<Rightarrow> Some []
      | c # f \<Rightarrow>
          if c \<noteq> CHR ''%'' then map_option ((#) c) (format_text f as)
          else (case parse_spec f as of None \<Rightarrow> None
                | Some (flags, w, p, len, g, as1) \<Rightarrow>
                    (case g of [] \<Rightarrow> None
                     | d # g1 \<Rightarrow>
                         (case conv_text d flags w p len as1 of None \<Rightarrow> None
                          | Some (as2, t) \<Rightarrow> map_option ((@) t) (format_text g1 as2)))))"
  by pat_completeness auto
termination
  by (relation "measure (\<lambda>(fmt, as). length fmt)") (auto dest!: parse_spec_length)

declare format_text.simps [simp del]

section \<open>What is written is what fits\<close>

text \<open>Appending what fits.\<close>

definition app :: "nat \<Rightarrow> string \<Rightarrow> string \<Rightarrow> string" where
  "app sz out t = out @ take (sz - 1 - length out) t"

lemma app_Nil [simp]: "app sz out [] = out"
  by (simp add: app_def)

lemma app_app: "app sz (app sz out t) u = app sz out (t @ u)"
  by (auto simp: app_def min_def)

lemma app_take: "app sz out t = take (length out + (sz - 1 - length out)) (out @ t)"
  by (simp add: app_def)

lemma app_full: "\<not> room sz out \<Longrightarrow> app sz out t = out"
  by (simp add: app_def room_def)

lemma app_room: "room sz out \<Longrightarrow> app sz out (c # t) = app sz (out @ [c]) t"
proof -
  assume "room sz out"
  then have "sz - 1 - length out = Suc (sz - 1 - length (out @ [c]))" by (auto simp: room_def)
  then show ?thesis by (simp add: app_def)
qed

lemma out_ch_app: "out_ch sz c out = app sz out [c]"
  using app_room [of sz out c "[]"] app_full [of sz out "[c]"] by (auto simp: out_ch_def)

lemma out_str_app: "out_str sz cs out = app sz out cs"
  by (induction sz cs out rule: out_str.induct) (auto simp: app_room app_full)

lemma pad_char_app: "snd (pad_char sz w out) = app sz out (replicate (nat (w - 1)) CHR '' '')"
proof (induction sz w out rule: pad_char.induct)
  case (1 sz w out)
  show ?case
  proof (cases "0 < w - 1 \<and> room sz out")
    case True
    then have "nat (w - 1) = Suc (nat (w - 1 - 1))" by linarith
    then show ?thesis using 1 True by (subst pad_char.simps) (simp add: app_room)
  next
    case False
    then show ?thesis by (subst pad_char.simps) (auto simp: app_full)
  qed
qed

lemma pad_char_rest: "fst (pad_char sz w out) \<le> 0 \<or> \<not> room sz (snd (pad_char sz w out))"
proof (induction sz w out rule: pad_char.induct)
  case (1 sz w out)
  then show ?case by (subst (1 2) pad_char.simps) auto
qed

lemma pad_str_app: "snd (pad_str sz len w out) = app sz out (replicate (nat (w - len)) CHR '' '')"
proof (induction sz len w out rule: pad_str.induct)
  case (1 sz len w out)
  show ?case
  proof (cases "len < w \<and> room sz out")
    case True
    then have "nat (w - len) = Suc (nat (w - 1 - len))" by linarith
    then show ?thesis using 1 True by (subst pad_str.simps) (simp add: app_room)
  next
    case False
    then show ?thesis by (subst pad_str.simps) (auto simp: app_full)
  qed
qed

lemma pad_str_rest: "fst (pad_str sz len w out) < len \<or> \<not> room sz (snd (pad_str sz len w out))"
proof (induction sz len w out rule: pad_str.induct)
  case (1 sz len w out)
  then show ?case by (subst (1 2) pad_str.simps) auto
qed

lemma fmt_char_app: "fmt_char sz c w flags out = app sz out (char_text c w flags)"
proof (cases "flag_on flags FLAG_LEFT")
  case True
  then show ?thesis by (simp add: fmt_char_def char_text_def out_ch_app pad_char_app app_app)
next
  case False
  obtain w1 o1 where p: "pad_char sz w out = (w1, o1)" by fastforce
  have o1: "o1 = app sz out (replicate (nat (w - 1)) CHR '' '')" using pad_char_app [of sz w out] p by simp
  have "app sz (app sz o1 [c]) (replicate (nat (w1 - 1)) CHR '' '') = app sz o1 [c]"
    using pad_char_rest [of sz w out] p by (auto simp: app_full)
  then show ?thesis using False by (simp add: fmt_char_def char_text_def out_ch_app pad_char_app p o1 app_app)
qed

lemma fmt_str_app: "fmt_str sz arg w precision flags out = app sz out (str_text arg w precision flags)"
proof -
  define s where "s = (case arg of None \<Rightarrow> ''(null)'' | Some s \<Rightarrow> s)"
  define u where "u = (if precision < 0 then s else take (nat precision) s)"
  define len where "len = (if precision < 0 \<or> int (length s) < precision then length s else nat precision)"
  have u: "take len s = u" "length u = len"
    by (auto simp: len_def u_def)
  have sp: "nat (w - int len) = nat w - length u" using u(2) by linarith
  show ?thesis
  proof (cases "flag_on flags FLAG_LEFT")
    case True
    then show ?thesis
      unfolding fmt_str_def str_text_def s_def [symmetric] Let_def len_def [symmetric] u_def [symmetric]
      by (simp add: out_str_app pad_str_app app_app u(1) sp)
  next
    case False
    obtain w1 o1 where p: "pad_str sz (int len) w out = (w1, o1)" by fastforce
    have o1: "o1 = app sz out (replicate (nat w - length u) CHR '' '')" using pad_str_app [of sz "int len" w out] p sp by simp
    have "app sz (app sz o1 u) (replicate (nat (w1 - int len)) CHR '' '') = app sz o1 u"
      using pad_str_rest [of sz "int len" w out] p by (auto simp: app_full)
    then show ?thesis using False
      unfolding fmt_str_def str_text_def s_def [symmetric] Let_def len_def [symmetric] u_def [symmetric]
      by (simp add: out_str_app pad_str_app p o1 app_app u(1))
  qed
qed

lemma fmt_num_app:
  assumes "2 \<le> base"
  shows "fmt_num sz num base w precision flags out = map_option (app sz out) (num_text num base w precision flags)"
proof -
  have "length (padded_text w flags s) < 68 \<longleftrightarrow> w \<le> 67" if "length s \<le> 66" for s
    using that by (auto simp: padded_text_def Let_def)
  then show ?thesis
    by (auto simp: fmt_num_def number_to_str_eq [OF assms] num_text_def Let_def out_str_app)
qed

lemma conversion_app:
  "conversion sz c flags w precision len as out = map_option (\<lambda>(as1, t). (as1, app sz out t)) (conv_text c flags w precision len as)"
  unfolding conversion_def conv_text_def
  by (simp add: fmt_char_app fmt_str_app fmt_num_app out_ch_app app_app option.map_comp comp_def split: option.split)

lemma format_loop_text:
  "format_text fmt as = Some t \<Longrightarrow> format_loop sz fmt as out = Some (app sz out t)"
proof (induction sz fmt as out arbitrary: t rule: format_loop.induct)
  case (1 sz fmt as out)
  show ?case
  proof (cases fmt)
    case Nil
    then show ?thesis using 1(3) by (simp add: format_loop.simps [of sz "[]"] format_text.simps [of "[]"])
  next
    case (Cons c f)
    show ?thesis
    proof (cases "room sz out")
      case False
      then show ?thesis using Cons by (simp add: format_loop.simps [of sz] app_full)
    next
      case room: True
      show ?thesis
      proof (cases "c = CHR ''%''")
        case False
        then obtain t1 where "format_text f as = Some t1" "t = c # t1"
          using 1(3) Cons by (auto simp: format_text.simps [of "c # f"])
        then show ?thesis using 1(1) Cons room False by (simp add: format_loop.simps [of sz "c # f"] app_room)
      next
        case True
        obtain flags w p len g as1 where sp: "parse_spec f as = Some (flags, w, p, len, g, as1)"
          using 1(3) Cons True by (auto simp: format_text.simps [of "CHR ''%'' # f"] split: option.splits)
        obtain d g1 where g: "g = d # g1"
          using 1(3) Cons True sp by (cases g) (auto simp: format_text.simps [of "CHR ''%'' # f"])
        obtain as2 u where cv: "conv_text d flags w p len as1 = Some (as2, u)"
          using 1(3) Cons True sp g by (auto simp: format_text.simps [of "CHR ''%'' # f"] split: option.splits)
        obtain t1 where t1: "format_text g1 as2 = Some t1" "t = u @ t1"
          using 1(3) Cons True sp g cv by (auto simp: format_text.simps [of "CHR ''%'' # f"])
        have "format_loop sz g1 as2 (app sz out u) = Some (app sz (app sz out u) t1)"
          by (rule 1(2) [OF Cons _ _ sp]) (use room True g cv t1 in \<open>auto simp: conversion_app\<close>)
        then show ?thesis
          using Cons True room sp g cv t1(2) by (simp add: format_loop.simps [of sz "CHR ''%'' # f"] conversion_app app_app)
      qed
    qed
  qed
qed


lemma app_length: "length (app sz out t) \<le> max (length out) (sz - 1)"
  by (auto simp: app_def)

lemma format_loop_length:
  "format_loop sz fmt as out = Some o1 \<Longrightarrow> length out \<le> sz - 1 \<Longrightarrow> length o1 \<le> sz - 1"
proof (induction sz fmt as out arbitrary: o1 rule: format_loop.induct)
  case (1 sz fmt as out)
  show ?case
  proof (cases fmt)
    case Nil
    then show ?thesis using 1(3,4) by (simp add: format_loop.simps [of sz "[]"])
  next
    case (Cons c f)
    show ?thesis
    proof (cases "room sz out \<and> c = CHR ''%''")
      case False
      then show ?thesis
        using 1(1) [OF Cons, of o1] 1(3,4) Cons by (auto simp: format_loop.simps [of sz "c # f"] room_def split: if_splits)
    next
      case True
      then obtain flags w p len g as1 where sp: "parse_spec f as = Some (flags, w, p, len, g, as1)"
        using 1(3) Cons by (auto simp: format_loop.simps [of sz "CHR ''%'' # f"] split: option.splits)
      obtain d g1 where g: "g = d # g1"
        using 1(3) Cons True sp by (cases g) (auto simp: format_loop.simps [of sz "CHR ''%'' # f"])
      obtain as2 u where cv: "conv_text d flags w p len as1 = Some (as2, u)"
        using 1(3) Cons True sp g by (auto simp: format_loop.simps [of sz "CHR ''%'' # f"] conversion_app split: option.splits)
      have "format_loop sz g1 as2 (app sz out u) = Some o1"
        using 1(3) Cons True sp g cv by (simp add: format_loop.simps [of sz "CHR ''%'' # f"] conversion_app)
      moreover have "length (app sz out u) \<le> sz - 1" using app_length [of sz out u] 1(4) by simp
      ultimately show ?thesis
        using 1(2) [OF Cons _ _ sp] True g cv by (auto simp: conversion_app)
    qed
  qed
qed

section \<open>Properties\<close>

text \<open>C34 (numbers). For every value, in octal, decimal or hexadecimal, signed or not, with upper or lower case digits and any
  precision up to 60, the digits fit their array and read back as the value.\<close>

theorem number_to_str_roundtrip:
  assumes "base \<in> {8, 10, 16}" "precision \<le> 60" "flags \<in> {0, FLAG_SIGNED, FLAG_UPPERCASE, FLAG_SIGNED OR FLAG_UPPERCASE}"
  shows "\<exists>s. number_to_str num base 0 precision flags = Some s \<and> length s \<le> 61
    \<and> read_num base s = (if flag_on flags FLAG_SIGNED then sint num else uint num)"
  using assms by (rule number_roundtrip_lemma)

theorem number_to_str_roundtrip_witness:
  "number_to_str (- 305) 10 0 5 FLAG_SIGNED = Some ''-00305'' \<and> read_num 10 ''-00305'' = - 305"
proof -
  have "number_to_str (- 305) 10 0 5 FLAG_SIGNED = Some ''-00305''" by code_simp
  then show ?thesis using number_to_str_roundtrip [of 10 5 FLAG_SIGNED "- 305"] by (auto simp: flag_on_def)
qed

text \<open>C8 (formatting). If a format and its arguments have a text, flags, widths, precisions and lengths included, then the
  code writes the first \<open>sz - 1\<close> characters of it, whatever the size of the buffer.\<close>

theorem vsnprintf_writes_text:
  assumes "format_text fmt as = Some t"
  shows "vsnprintf sz fmt as = Some (take (sz - 1) t)"
  using format_loop_text [OF assms, of sz "[]"] by (simp add: vsnprintf_def app_def)

theorem vsnprintf_writes_text_witness:
  "vsnprintf 12 ''pid %-4d|%#x %s'' [VInt 7, VInt 255, VStr (Some ''idle'')] = Some ''pid 7   |0x''"
proof -
  have "format_text ''pid %-4d|%#x %s'' [VInt 7, VInt 255, VStr (Some ''idle'')] = Some ''pid 7   |0xff idle''" by code_simp
  from vsnprintf_writes_text [OF this, of 12] show ?thesis by simp
qed



text \<open>\<^emph>\<open>What goes wrong.\<close> A width of more than 66 overruns the array of a number, whatever the size of the buffer; a percent
  sign at the end of the format makes the loop step over the terminating zero.\<close>

lemma wide_number_overruns:
  assumes "66 < width" "2 \<le> base" "\<not> flag_on flags FLAG_LEFT"
  shows "number_to_str num base width precision flags = None"
  using assms by (simp add: number_to_str_eq)

lemma trailing_percent_reads_on:
  assumes "1 < sz"
  shows "vsnprintf sz ''%'' as = None"
  using assms
  by (simp add: vsnprintf_def format_loop.simps [of sz "''%''"] room_def parse_spec_def parse_width_def parse_precision_def
      parse_length_def)

end
