(* ===== verification/Klist.thy ===== *)
theory Klist
  imports Prelude
begin

text \<open>
  The doubly linked lists of \<^verbatim>\<open>include/kernel/types.h\<close> (\<^verbatim>\<open>struct list_head\<close>), which the kernel embeds in its
  structures: two maps from a node to its neighbours, written by the inline functions of the header.
  A null link is \<open>None\<close>, and an operation that would follow one has no result. The predicate
  \<open>ring\<close> says which list of nodes a head stands for; each operation is shown to do on that list
  what its name says, and to leave every other list of the kernel as it was.
\<close>

section \<open>Nodes and operations\<close>

record 'n lheap =
  l_next :: "'n \<Rightarrow> 'n option"
  l_prev :: "'n \<Rightarrow> 'n option"

definition INIT_LIST_HEAD :: "'n \<Rightarrow> 'n lheap \<Rightarrow> 'n lheap" where
  "INIT_LIST_HEAD l h = h\<lparr>l_next := (l_next h)(l := Some l), l_prev := (l_prev h)(l := Some l)\<rparr>"

definition list_empty :: "'n lheap \<Rightarrow> 'n \<Rightarrow> bool" where
  "list_empty h l \<longleftrightarrow> l_next h l = Some l"

text \<open>\<^verbatim>\<open>next->prev = new; new->next = next; new->prev = prev; prev->next = new\<close>\<close>

definition list_add_between :: "'n \<Rightarrow> 'n option \<Rightarrow> 'n option \<Rightarrow> 'n lheap \<Rightarrow> 'n lheap option" where
  "list_add_between new prv nxt h =
     (case (prv, nxt) of
        (Some p, Some n) \<Rightarrow>
          (let h1 = h\<lparr>l_prev := (l_prev h)(n := Some new)\<rparr>;
               h2 = h1\<lparr>l_next := (l_next h1)(new := Some n)\<rparr>;
               h3 = h2\<lparr>l_prev := (l_prev h2)(new := Some p)\<rparr>
           in Some (h3\<lparr>l_next := (l_next h3)(p := Some new)\<rparr>))
      | _ \<Rightarrow> None)"

definition list_add :: "'n \<Rightarrow> 'n \<Rightarrow> 'n lheap \<Rightarrow> 'n lheap option" where
  "list_add new q h = list_add_between new (Some q) (l_next h q) h"

definition list_add_tail :: "'n \<Rightarrow> 'n \<Rightarrow> 'n lheap \<Rightarrow> 'n lheap option" where
  "list_add_tail new q h = list_add_between new (l_prev h q) (Some q) h"

text \<open>\<^verbatim>\<open>next->prev = prev; prev->next = next\<close>\<close>

definition list_unlink :: "'n option \<Rightarrow> 'n option \<Rightarrow> 'n lheap \<Rightarrow> 'n lheap option" where
  "list_unlink prv nxt h =
     (case (prv, nxt) of
        (Some p, Some n) \<Rightarrow>
          (let h1 = h\<lparr>l_prev := (l_prev h)(n := Some p)\<rparr>
           in Some (h1\<lparr>l_next := (l_next h1)(p := Some n)\<rparr>))
      | _ \<Rightarrow> None)"

definition list_del :: "'n \<Rightarrow> 'n lheap \<Rightarrow> 'n lheap option" where
  "list_del e h =
     (case list_unlink (l_prev h e) (l_next h e) h of None \<Rightarrow> None
      | Some h1 \<Rightarrow> Some (h1\<lparr>l_next := (l_next h1)(e := None), l_prev := (l_prev h1)(e := None)\<rparr>))"

definition list_del_init :: "'n \<Rightarrow> 'n lheap \<Rightarrow> 'n lheap option" where
  "list_del_init e h =
     (case list_unlink (l_prev h e) (l_next h e) h of None \<Rightarrow> None
      | Some h1 \<Rightarrow> Some (INIT_LIST_HEAD e h1))"

definition list_move :: "'n \<Rightarrow> 'n \<Rightarrow> 'n lheap \<Rightarrow> 'n lheap option" where
  "list_move e q h =
     (case list_unlink (l_prev h e) (l_next h e) h of None \<Rightarrow> None
      | Some h1 \<Rightarrow> list_add e q h1)"

definition list_move_tail :: "'n \<Rightarrow> 'n \<Rightarrow> 'n lheap \<Rightarrow> 'n lheap option" where
  "list_move_tail e q h =
     (case list_unlink (l_prev h e) (l_next h e) h of None \<Rightarrow> None
      | Some h1 \<Rightarrow> list_add_tail e q h1)"

section \<open>The list a head stands for\<close>

fun seg :: "'n lheap \<Rightarrow> 'n \<Rightarrow> 'n list \<Rightarrow> 'n \<Rightarrow> bool" where
  "seg h a [] b \<longleftrightarrow> l_next h a = Some b \<and> l_prev h b = Some a"
| "seg h a (x # xs) b \<longleftrightarrow> l_next h a = Some x \<and> l_prev h x = Some a \<and> seg h x xs b"

definition ring :: "'n lheap \<Rightarrow> 'n \<Rightarrow> 'n list \<Rightarrow> bool" where
  "ring h q xs \<longleftrightarrow> seg h q xs q \<and> distinct (q # xs)"

lemma seg_append [simp]: "seg h a (xs @ y # ys) b \<longleftrightarrow> seg h a xs y \<and> seg h y ys b"
  by (induction xs arbitrary: a) auto

lemma seg_first: "seg h a xs b \<Longrightarrow> l_next h a = Some (case xs of [] \<Rightarrow> b | x # _ \<Rightarrow> x)"
  by (cases xs) auto

lemma seg_last: "seg h a xs b \<Longrightarrow> l_prev h b = Some (if xs = [] then a else last xs)"
  by (induction xs arbitrary: a) auto

lemma seg_cong:
  assumes "\<And>x. x \<in> set (a # xs) \<Longrightarrow> l_next h x = l_next h' x"
    and "\<And>x. x \<in> set (b # xs) \<Longrightarrow> l_prev h x = l_prev h' x"
  shows "seg h a xs b = seg h' a xs b"
  using assms by (induction xs arbitrary: a) auto

lemma seg_same:
  assumes "seg h a xs b"
    and "\<And>x. x \<in> set (a # xs) \<Longrightarrow> l_next h' x = l_next h x"
    and "\<And>x. x \<in> set (b # xs) \<Longrightarrow> l_prev h' x = l_prev h x"
  shows "seg h' a xs b"
  using assms(1) seg_cong [of a xs h' h b] assms(2,3) by blast

lemma seg_upd_next [simp]:
  "a' \<noteq> a \<Longrightarrow> a' \<notin> set xs \<Longrightarrow> seg (h\<lparr>l_next := (l_next h)(a' := v)\<rparr>) a xs b = seg h a xs b"
  by (rule seg_cong) auto

lemma seg_upd_prev [simp]:
  "b' \<noteq> b \<Longrightarrow> b' \<notin> set xs \<Longrightarrow> seg (h\<lparr>l_prev := (l_prev h)(b' := v)\<rparr>) a xs b = seg h a xs b"
  by (rule seg_cong) auto

lemma ring_nil [simp]: "ring h q [] \<longleftrightarrow> l_next h q = Some q \<and> l_prev h q = Some q"
  by (simp add: ring_def)

lemma ring_INIT_LIST_HEAD [simp]: "ring (INIT_LIST_HEAD l h) l []"
  by (simp add: INIT_LIST_HEAD_def)

lemma list_empty_ring: "ring h q xs \<Longrightarrow> list_empty h q \<longleftrightarrow> xs = []"
  by (cases xs) (auto simp: ring_def list_empty_def)

lemma list_empty_member:
  assumes "ring h q xs" "x \<in> set xs"
  shows "\<not> list_empty h x"
proof -
  obtain ys zs where xs: "xs = ys @ x # zs" using assms(2) by (auto simp: in_set_conv_decomp)
  have "seg h x zs q" "x \<noteq> q" "x \<notin> set zs" using assms(1) xs by (auto simp: ring_def)
  then show ?thesis using seg_first [of h x zs q] by (auto simp: list_empty_def split: list.splits)
qed

text \<open>A list whose nodes the operation did not write is still there.\<close>

lemma ring_frame:
  assumes "ring h q xs"
    and "\<And>x. x \<in> set (q # xs) \<Longrightarrow> l_next h' x = l_next h x \<and> l_prev h' x = l_prev h x"
  shows "ring h' q xs"
  using assms seg_cong [of q xs h' h q] by (auto simp: ring_def)

section \<open>The operations on the list\<close>

lemma list_add_between_seg:
  assumes "seg h p [] n" "new \<noteq> p" "new \<noteq> n"
  shows "\<exists>h'. list_add_between new (Some p) (Some n) h = Some h' \<and> seg h' p [new] n \<and>
     (\<forall>x. x \<noteq> p \<longrightarrow> x \<noteq> new \<longrightarrow> l_next h' x = l_next h x) \<and>
     (\<forall>x. x \<noteq> n \<longrightarrow> x \<noteq> new \<longrightarrow> l_prev h' x = l_prev h x)"
  using assms by (simp add: list_add_between_def Let_def)

lemma list_add_tail_ring:
  assumes "ring h q xs" "new \<noteq> q" "new \<notin> set xs"
  shows "\<exists>h'. list_add_tail new q h = Some h' \<and> ring h' q (xs @ [new]) \<and>
    (\<forall>x. x \<notin> set (q # new # xs) \<longrightarrow> l_next h' x = l_next h x \<and> l_prev h' x = l_prev h x)"
proof -
  define y where "y = (if xs = [] then q else last xs)"
  have s: "seg h q xs q" "distinct (q # xs)" using assms(1) by (simp_all add: ring_def)
  have y: "l_prev h q = Some y" using seg_last [OF s(1)] by (simp add: y_def)
  have n: "seg h y [] q"
    using s(1) by (cases xs rule: rev_cases) (auto simp: y_def)
  have "new \<noteq> y" using assms(2,3) by (auto simp: y_def)
  then obtain h' where h': "list_add_between new (Some y) (Some q) h = Some h'" "seg h' y [new] q"
    "\<And>x. x \<noteq> y \<Longrightarrow> x \<noteq> new \<Longrightarrow> l_next h' x = l_next h x"
    "\<And>x. x \<noteq> q \<Longrightarrow> x \<noteq> new \<Longrightarrow> l_prev h' x = l_prev h x"
    using list_add_between_seg [OF n _ assms(2)] by blast
  have "seg h' q (xs @ [new]) q"
  proof (cases xs rule: rev_cases)
    case Nil
    then show ?thesis using h'(2) by (simp add: y_def)
  next
    case (snoc us u)
    have "seg h' q us u"
      by (rule seg_same [of h]) (use s assms(2,3) snoc in \<open>auto simp: y_def intro!: h'(3,4)\<close>)
    then show ?thesis using h'(2) snoc by (simp add: y_def)
  qed
  then have "ring h' q (xs @ [new])" using s(2) assms(2,3) by (auto simp: ring_def)
  moreover have "x \<noteq> y" if "x \<notin> set (q # new # xs)" for x
    using that by (auto simp: y_def)
  ultimately show ?thesis using h' by (auto simp: list_add_tail_def y)
qed

lemma list_add_ring:
  assumes "ring h q xs" "new \<noteq> q" "new \<notin> set xs"
  shows "\<exists>h'. list_add new q h = Some h' \<and> ring h' q (new # xs) \<and>
    (\<forall>x. x \<notin> set (q # new # xs) \<longrightarrow> l_next h' x = l_next h x \<and> l_prev h' x = l_prev h x)"
proof -
  define y where "y = (case xs of [] \<Rightarrow> q | z # _ \<Rightarrow> z)"
  have s: "seg h q xs q" "distinct (q # xs)" using assms(1) by (simp_all add: ring_def)
  have y: "l_next h q = Some y" using seg_first [OF s(1)] by (simp add: y_def)
  have n: "seg h q [] y" using s(1) by (cases xs) (auto simp: y_def)
  have "new \<noteq> y" using assms(2,3) by (auto simp: y_def split: list.splits)
  then obtain h' where h': "list_add_between new (Some q) (Some y) h = Some h'" "seg h' q [new] y"
    "\<And>x. x \<noteq> q \<Longrightarrow> x \<noteq> new \<Longrightarrow> l_next h' x = l_next h x"
    "\<And>x. x \<noteq> y \<Longrightarrow> x \<noteq> new \<Longrightarrow> l_prev h' x = l_prev h x"
    using list_add_between_seg [OF n assms(2)] by blast
  have "seg h' q (new # xs) q"
  proof (cases xs)
    case Nil
    then show ?thesis using h'(2) by (simp add: y_def)
  next
    case (Cons z zs)
    have "seg h' z zs q"
      by (rule seg_same [of h]) (use s assms(2,3) Cons in \<open>auto simp: y_def intro!: h'(3,4)\<close>)
    then show ?thesis using h'(2) Cons by (simp add: y_def)
  qed
  then have "ring h' q (new # xs)" using s(2) assms(2,3) by (auto simp: ring_def)
  moreover have "x \<noteq> y" if "x \<notin> set (q # new # xs)" for x
    using that by (auto simp: y_def split: list.splits)
  ultimately show ?thesis using h' by (auto simp: list_add_def y)
qed

lemma seg_unlink:
  assumes "seg h a (ys @ x # zs) b" "distinct (a # ys @ x # zs)" "b \<notin> set (ys @ x # zs)"
    and "l_prev h x = Some p" "l_next h x = Some n"
    and "l_prev h' = (l_prev h)(n := Some p)" "l_next h' = (l_next h)(p := Some n)"
  shows "seg h' a (ys @ zs) b
    \<and> p \<in> set (a # ys) \<and> n \<in> set (b # zs)"
  using assms(1-3)
proof (induction ys arbitrary: a)
  case Nil
  then have p: "p = a" using assms(4) by simp
  show ?case
  proof (cases zs)
    case Nil
    then have "n = b" using Nil Nil.prems assms(5) by simp
    then show ?thesis using p Nil assms(6,7) by simp
  next
    case (Cons z ws)
    then have n: "n = z" using Nil.prems assms(5) by simp
    have "seg h' z ws b"
      by (rule seg_same [of h]) (use Nil.prems p n Cons assms(6,7) in auto)
    then show ?thesis using p n Cons assms(6,7) by simp
  qed
next
  case (Cons y ys)
  have "seg h' y (ys @ zs) b
      \<and> p \<in> set (y # ys) \<and> n \<in> set (b # zs)"
    by (rule Cons.IH) (use Cons.prems in auto)
  moreover from this have "p \<noteq> a" "n \<noteq> y" using Cons.prems(2,3) by auto
  ultimately show ?case using Cons.prems(1) assms(6,7) by simp
qed

lemma list_unlink_ring:
  assumes "ring h q xs" "x \<in> set xs"
  shows "\<exists>h'. list_unlink (l_prev h x) (l_next h x) h = Some h' \<and> ring h' q (remove1 x xs) \<and>
     (\<forall>y. y \<notin> set (q # xs) \<longrightarrow> l_next h' y = l_next h y \<and> l_prev h' y = l_prev h y)"
proof -
  obtain ys zs where xs: "xs = ys @ x # zs" using assms(2) by (auto simp: in_set_conv_decomp)
  have s: "seg h q ys x" "seg h x zs q" "distinct (q # ys @ x # zs)"
    using assms(1) xs by (auto simp: ring_def)
  obtain p n where pn: "l_prev h x = Some p" "l_next h x = Some n"
    using seg_last [OF s(1)] seg_first [OF s(2)] by auto
  let ?h = "h\<lparr>l_prev := (l_prev h)(n := Some p), l_next := (l_next h)(p := Some n)\<rparr>"
  have "seg ?h q (ys @ zs) q \<and> p \<in> set (q # ys) \<and> n \<in> set (q # zs)"
    by (rule seg_unlink [OF _ _ _ pn]) (use s in auto)
  moreover have "remove1 x xs = ys @ zs" using s(3) xs by (auto simp: remove1_append)
  ultimately have "ring ?h q (remove1 x xs)" "p \<in> set (q # xs)" "n \<in> set (q # xs)"
    using s(3) xs by (auto simp: ring_def)
  then show ?thesis by (auto simp: pn list_unlink_def)
qed

lemma list_del_init_ring:
  assumes "ring h q xs" "x \<in> set xs"
  shows "\<exists>h'. list_del_init x h = Some h' \<and> ring h' q (remove1 x xs) \<and> ring h' x [] \<and>
    (\<forall>y. y \<notin> set (q # xs) \<longrightarrow> l_next h' y = l_next h y \<and> l_prev h' y = l_prev h y)"
proof -
  have d: "distinct (q # xs)" using assms(1) by (simp add: ring_def)
  obtain h1 where h1: "list_unlink (l_prev h x) (l_next h x) h = Some h1" "ring h1 q (remove1 x xs)"
    "\<And>y. y \<notin> set (q # xs) \<Longrightarrow> l_next h1 y = l_next h y \<and> l_prev h1 y = l_prev h y"
    using list_unlink_ring [OF assms] by blast
  have "ring (INIT_LIST_HEAD x h1) q (remove1 x xs)"
    using h1(2) by (rule ring_frame) (use assms(2) d in \<open>auto simp: INIT_LIST_HEAD_def\<close>)
  moreover have "l_next (INIT_LIST_HEAD x h1) y = l_next h y \<and> l_prev (INIT_LIST_HEAD x h1) y = l_prev h y"
    if "y \<notin> set (q # xs)" for y
    using h1(3) [OF that] that assms(2) by (auto simp: INIT_LIST_HEAD_def)
  ultimately show ?thesis
    by (simp add: list_del_init_def h1(1) del: ring_nil)
qed

lemma list_move_tail_ring:
  assumes "ring h q xs" "x \<in> set xs"
  shows "\<exists>h'. list_move_tail x q h = Some h' \<and> ring h' q (remove1 x xs @ [x])"
proof -
  have d: "distinct (q # xs)" using assms(1) by (simp add: ring_def)
  obtain h1 where h1: "list_unlink (l_prev h x) (l_next h x) h = Some h1" "ring h1 q (remove1 x xs)"
    using list_unlink_ring [OF assms] by blast
  then show ?thesis
    using list_add_tail_ring [OF h1(2), of x] d assms(2) by (auto simp: list_move_tail_def)
qed

section \<open>A node that was never initialised\<close>

text \<open>Its links are null: it does not count as unlinked, and taking it off its list follows a null pointer.\<close>

lemma zeroed_node:
  assumes "l_next h x = None"
  shows "\<not> list_empty h x" "list_del_init x h = None"
  using assms by (auto simp: list_empty_def list_del_init_def list_unlink_def split: option.splits)

end
