(* ===== verification/Timer.thy ===== *)
theory Timer
  imports Klist Signal "HOL-Library.Signed_Division"
begin

text \<open>
  \<^verbatim>\<open>kernel/timer.c\<close>: the wheel of kernel timers, \<^verbatim>\<open>alarm\<close>, \<^verbatim>\<open>nanosleep\<close> and the clocks. The wheel is
  256 list heads over the doubly linked lists of \<open>Klist\<close>; a timer is embedded in another structure and
  is known here by its address. A timer function is a value, and running one is an event
  of the tick that ran it; the only function the kernel installs, \<^verbatim>\<open>alarm_timer_fn\<close>, does not touch the wheel.
\<close>

section \<open>The wheel\<close>

datatype tnode = Wheel nat | Entry nat

datatype timer_fn = Alarm_timer_fn | Work_fn nat

record timer_list =
  tm_expires :: u64
  tm_function :: "timer_fn option"
  tm_data :: u64
  tm_flags :: u32

record twheel =
  tw_lists :: "tnode lheap"
  tw_timer :: "nat \<Rightarrow> timer_list"

abbreviation (input) TIMER_WHEEL_SIZE :: nat where "TIMER_WHEEL_SIZE \<equiv> 256"

definition wheel_slot :: "u64 \<Rightarrow> nat" where
  "wheel_slot e = unat (e AND (256 - 1))"

definition timers_init :: "twheel \<Rightarrow> twheel" where
  "timers_init w = w\<lparr>tw_lists := fold (\<lambda>i. INIT_LIST_HEAD (Wheel i)) [0..<TIMER_WHEEL_SIZE] (tw_lists w)\<rparr>"

definition init_timer :: "nat \<Rightarrow> twheel \<Rightarrow> twheel" where
  "init_timer t w = w\<lparr>tw_lists := INIT_LIST_HEAD (Entry t) (tw_lists w),
     tw_timer := (tw_timer w)(t := \<lparr>tm_expires = 0, tm_function = None, tm_data = 0, tm_flags = 0\<rparr>)\<rparr>"

definition upd_lists :: "twheel \<Rightarrow> tnode lheap option \<Rightarrow> twheel option" where
  "upd_lists w h = map_option (\<lambda>h'. w\<lparr>tw_lists := h'\<rparr>) h"

definition add_timer :: "nat \<Rightarrow> twheel \<Rightarrow> twheel option" where
  "add_timer t w =
     (if tm_function (tw_timer w t) = None then Some w
      else upd_lists w (list_add_tail (Entry t) (Wheel (wheel_slot (tm_expires (tw_timer w t)))) (tw_lists w)))"

definition timer_pending :: "twheel \<Rightarrow> nat \<Rightarrow> bool" where
  "timer_pending w t \<longleftrightarrow> \<not> list_empty (tw_lists w) (Entry t)"

definition del_timer :: "nat \<Rightarrow> twheel \<Rightarrow> (int \<times> twheel) option" where
  "del_timer t w =
     (if list_empty (tw_lists w) (Entry t) then Some (0, w)
      else map_option (Pair 1) (upd_lists w (list_del_init (Entry t) (tw_lists w))))"

definition mod_timer :: "nat \<Rightarrow> u64 \<Rightarrow> twheel \<Rightarrow> twheel option" where
  "mod_timer t expires w =
     (case (if list_empty (tw_lists w) (Entry t) then Some w
            else upd_lists w (list_del_init (Entry t) (tw_lists w))) of
        None \<Rightarrow> None
      | Some w1 \<Rightarrow>
          let w2 = w1\<lparr>tw_timer := (tw_timer w1)(t := (tw_timer w1 t)\<lparr>tm_expires := expires\<rparr>)\<rparr>
          in upd_lists w2 (list_add_tail (Entry t) (Wheel (wheel_slot expires)) (tw_lists w2)))"

text \<open>\<^verbatim>\<open>(s64)(t->expires - now) > 0\<close>\<close>

definition not_expired :: "u64 \<Rightarrow> u64 \<Rightarrow> bool" where
  "not_expired now e \<longleftrightarrow> 0 < sint (e - now)"

text \<open>The loop of \<^verbatim>\<open>run_timer_softirq\<close> from the node \<open>p\<close> on; the timer of each event is the one whose function is called.\<close>

type_synonym fired = "nat \<times> timer_fn \<times> u64"

partial_function (option) softirq_loop :: "u64 \<Rightarrow> tnode \<Rightarrow> tnode \<Rightarrow> twheel \<Rightarrow> (fired list \<times> twheel) option" where
  "softirq_loop now q p w =
     (if p = q then Some ([], w)
      else (case (p, l_next (tw_lists w) p) of
        (Entry t, Some n) \<Rightarrow>
          (if not_expired now (tm_expires (tw_timer w t)) then softirq_loop now q n w
           else (case list_del_init p (tw_lists w) of
               None \<Rightarrow> None
             | Some h \<Rightarrow>
                 Option.bind (softirq_loop now q n (w\<lparr>tw_lists := h\<rparr>)) (\<lambda>(evs, w').
                   Some ((case tm_function (tw_timer w t) of
                            None \<Rightarrow> evs | Some f \<Rightarrow> (t, f, tm_data (tw_timer w t)) # evs), w'))))
      | _ \<Rightarrow> None))"

definition run_timer_softirq :: "u64 \<Rightarrow> twheel \<Rightarrow> (fired list \<times> twheel) option" where
  "run_timer_softirq now w =
     (case l_next (tw_lists w) (Wheel (wheel_slot now)) of
        None \<Rightarrow> None
      | Some p \<Rightarrow> softirq_loop now (Wheel (wheel_slot now)) p w)"

definition schedule_delayed_work ::
  "u64 \<Rightarrow> nat \<Rightarrow> u64 \<Rightarrow> timer_fn \<Rightarrow> u64 \<Rightarrow> twheel \<Rightarrow> twheel option" where
  "schedule_delayed_work jiffies t delay fn data w =
     (let w1 = init_timer t w;
          w2 = w1\<lparr>tw_timer := (tw_timer w1)(t := (tw_timer w1 t)
                 \<lparr>tm_expires := jiffies + delay, tm_function := Some fn, tm_data := data\<rparr>)\<rparr>
      in add_timer t w2)"

section \<open>Alarm\<close>

abbreviation (input) SIGALRM :: int where "SIGALRM \<equiv> 14"

definition alarm_timer_fn :: "u64 \<Rightarrow> task_table \<Rightarrow> task_table" where
  "alarm_timer_fn data tab = fst (snd (send_signal tab (sint (ucast data :: u32)) SIGALRM))"

text \<open>\<open>t\<close> is the address of \<^verbatim>\<open>current->alarm_timer\<close>, \<open>pid\<close> the number of the current task.\<close>

definition sys_alarm :: "u64 \<Rightarrow> nat \<Rightarrow> int \<Rightarrow> u32 \<Rightarrow> twheel \<Rightarrow> (int \<times> twheel) option" where
  "sys_alarm jiffies t pid seconds w =
     (case (if timer_pending w t
            then (let e = tm_expires (tw_timer w t);
                      remaining = (if 0 < sint (e - jiffies) then (e - jiffies) div 100 else 0)
                  in map_option (\<lambda>(_, w1). (remaining, w1)) (del_timer t w))
            else Some (0, w)) of
        None \<Rightarrow> None
      | Some (remaining, w1) \<Rightarrow>
          if seconds = 0 then Some (sint remaining, w1)
          else
            let w2 = init_timer t w1;
                w3 = w2\<lparr>tw_timer := (tw_timer w2)(t := (tw_timer w2 t)
                       \<lparr>tm_expires := jiffies + ucast seconds * 100, tm_function := Some Alarm_timer_fn,
                        tm_data := word_of_int pid\<rparr>)\<rparr>
            in map_option (Pair (sint remaining)) (add_timer t w3))"

section \<open>Clocks\<close>

text \<open>\<^verbatim>\<open>struct timespec\<close>; \<^verbatim>\<open>ktime_t\<close> is a signed 64-bit count of nanoseconds.\<close>

record timespec =
  tv_sec :: int
  tv_nsec :: int

abbreviation (input) NSEC_PER_SEC :: int where "NSEC_PER_SEC \<equiv> 1000000000"

definition jiffies_to_timespec :: "u64 \<Rightarrow> timespec" where
  "jiffies_to_timespec j = \<lparr>tv_sec = sint (j div 100), tv_nsec = sint ((j mod 100) * 10000000)\<rparr>"

definition ktime_get :: "u64 \<Rightarrow> u64" where
  "ktime_get jiffies = jiffies * 10000000"

definition ktime_get_real :: "u64 \<Rightarrow> u64" where
  "ktime_get_real jiffies = ktime_get jiffies + 1735689600 * 1000000000"

definition ktime_get_boottime :: "u64 \<Rightarrow> u64" where
  "ktime_get_boottime jiffies = ktime_get jiffies"

definition ktime_get_ns :: "u64 \<Rightarrow> u64" where
  "ktime_get_ns jiffies = ktime_get jiffies"

definition ktime_to_timespec :: "u64 \<Rightarrow> timespec" where
  "ktime_to_timespec kt = \<lparr>tv_sec = sint kt sdiv NSEC_PER_SEC, tv_nsec = sint kt smod NSEC_PER_SEC\<rparr>"

definition ns_to_timespec :: "u64 \<Rightarrow> timespec" where
  "ns_to_timespec ns = \<lparr>tv_sec = sint (ns div 1000000000), tv_nsec = sint (ns mod 1000000000)\<rparr>"

text \<open>\<open>cpu\<close> are \<^verbatim>\<open>utime\<close> and \<^verbatim>\<open>stime\<close> of the current task, if there is one; \<open>tp\<close> says whether a pointer was passed.\<close>

definition sys_clock_gettime :: "u64 \<Rightarrow> (u64 \<times> u64) option \<Rightarrow> int \<Rightarrow> bool \<Rightarrow> int \<times> timespec option" where
  "sys_clock_gettime jiffies cpu clk_id tp =
     (if \<not> tp then (- EFAULT, None)
      else if clk_id = 0 then (0, Some (ktime_to_timespec (ktime_get_real jiffies)))
      else if clk_id \<in> {1, 4, 7} then (0, Some (jiffies_to_timespec jiffies))
      else if clk_id = 2 then (0, Some (ns_to_timespec (case cpu of None \<Rightarrow> 0 | Some (u, s) \<Rightarrow> u + s)))
      else if clk_id = 3 then (0, Some (ns_to_timespec (case cpu of None \<Rightarrow> 0 | Some (u, s) \<Rightarrow> u)))
      else (- EINVAL, None))"

definition sys_clock_getres :: "int \<Rightarrow> bool \<Rightarrow> int \<times> timespec option" where
  "sys_clock_getres clk_id res =
     (if clk_id < 0 then (- EINVAL, None)
      else (0, if res then Some \<lparr>tv_sec = 0, tv_nsec = 10000000\<rparr> else None))"

text \<open>The second components are what is stored through \<^verbatim>\<open>tv\<close> (seconds and microseconds) and \<^verbatim>\<open>tz\<close>.\<close>

definition sys_gettimeofday :: "u64 \<Rightarrow> bool \<Rightarrow> bool \<Rightarrow> int \<times> (int \<times> int) option \<times> (int \<times> int) option" where
  "sys_gettimeofday jiffies tv tz =
     (0, if tv then Some (sint (ktime_get_real jiffies) sdiv NSEC_PER_SEC,
                          (sint (ktime_get_real jiffies) smod NSEC_PER_SEC) sdiv 1000) else None,
      if tz then Some (0, 0) else None)"

definition sys_time :: "u64 \<Rightarrow> int" where
  "sys_time jiffies = sint (ktime_get_real jiffies) sdiv NSEC_PER_SEC"

definition sys_clock_settime :: "int \<Rightarrow> int" where
  "sys_clock_settime clk_id = - EPERM"

definition sys_settimeofday :: int where
  "sys_settimeofday = - EPERM"

definition get_uptime_seconds :: "u64 \<Rightarrow> u64" where
  "get_uptime_seconds jiffies = jiffies div 100"

section \<open>nanosleep\<close>

text \<open>
  The loop reads the tick counter and the pending signals each time the processor wakes from \<^verbatim>\<open>hlt\<close>. The list holds
  what it finds, in order; when the list ends the caller is still asleep.
\<close>

fun nanosleep_loop :: "u64 \<Rightarrow> (u64 \<times> bool) list \<Rightarrow> (int \<times> timespec) option" where
  "nanosleep_loop deadline [] = None"
| "nanosleep_loop deadline ((jiffies, sig) # obs) =
     (if 0 < sint (deadline - jiffies)
      then (if sig then Some (- EINTR, ns_to_timespec ((deadline - jiffies) * 10000000))
            else nanosleep_loop deadline obs)
      else Some (0, \<lparr>tv_sec = 0, tv_nsec = 0\<rparr>))"

definition nanosleep_ticks :: "timespec \<Rightarrow> u64" where
  "nanosleep_ticks req =
     (word_of_int (tv_sec req) * 1000000000 + word_of_int (tv_nsec req) + 10000000 - 1) div 10000000"

text \<open>\<open>rem\<close> says whether the caller passed a place for the remaining time.\<close>

definition sys_nanosleep ::
  "u64 \<Rightarrow> timespec option \<Rightarrow> bool \<Rightarrow> (u64 \<times> bool) list \<Rightarrow> (int \<times> timespec option) option" where
  "sys_nanosleep jiffies req rem obs =
     (case req of None \<Rightarrow> Some (- EFAULT, None)
      | Some r \<Rightarrow>
          if tv_nsec r < 0 \<or> NSEC_PER_SEC \<le> tv_nsec r then Some (- EINVAL, None)
          else if nanosleep_ticks r = 0 then Some (0, None)
          else map_option (\<lambda>(res, ts). (res, if rem then Some ts else None))
                 (nanosleep_loop (jiffies + nanosleep_ticks r) obs))"

end
