(* ===== verification/Timer_Correct.thy ===== *)
theory Timer_Correct
  imports Timer Fifo
begin

text \<open>
  The timer wheel refines sixteen times sixteen lists of pending timers (\<open>wheel_rep\<close>): every operation does on these
  lists what it promises, and a pending timer runs exactly once, on the tick it is due. Then what \<^verbatim>\<open>alarm\<close>,
  \<^verbatim>\<open>nanosleep\<close> and the clocks return.
\<close>

section \<open>The lists the wheel stands for\<close>

definition wheel_rep :: "twheel \<Rightarrow> (nat \<Rightarrow> nat list) \<Rightarrow> bool" where
  "wheel_rep w L \<longleftrightarrow> (\<forall>s<TIMER_WHEEL_SIZE. ring (tw_lists w) (Wheel s) (map Entry (L s)) \<and>
     (\<forall>t\<in>set (L s). wheel_slot (tm_expires (tw_timer w t)) = s))"

definition idle :: "twheel \<Rightarrow> nat \<Rightarrow> bool" where
  "idle w t \<longleftrightarrow> ring (tw_lists w) (Entry t) []"

lemma wheel_slot_mod: "wheel_slot e = unat e mod 256"
  unfolding wheel_slot_def using mask_index_word [of "256 :: u64" 8 e] by simp

lemma wheel_slot_less [simp]: "wheel_slot e < 256"
  by (simp add: wheel_slot_mod)

lemma wheel_rep_cong:
  assumes "tw_lists w' = tw_lists w" "\<And>u. tm_expires (tw_timer w' u) = tm_expires (tw_timer w u)"
  shows "wheel_rep w L \<longleftrightarrow> wheel_rep w' L"
  using assms by (simp add: wheel_rep_def)

lemma wheel_repD:
  assumes "wheel_rep w L" "s < 256"
  shows "ring (tw_lists w) (Wheel s) (map Entry (L s))" "distinct (L s)"
    "t \<in> set (L s) \<Longrightarrow> wheel_slot (tm_expires (tw_timer w t)) = s"
proof -
  show r: "ring (tw_lists w) (Wheel s) (map Entry (L s))" using assms by (simp add: wheel_rep_def)
  then show "distinct (L s)" by (auto simp: ring_def distinct_map)
  show "t \<in> set (L s) \<Longrightarrow> wheel_slot (tm_expires (tw_timer w t)) = s"
    using assms by (simp add: wheel_rep_def)
qed

lemma idle_not_pending:
  assumes "wheel_rep w L" "idle w t" "s < 256"
  shows "t \<notin> set (L s)"
proof
  assume "t \<in> set (L s)"
  then have "\<not> list_empty (tw_lists w) (Entry t)"
    using list_empty_member [OF wheel_repD(1) [OF assms(1,3)]] by simp
  then show False using assms(2) by (simp add: idle_def list_empty_def)
qed

lemma idle_empty: "idle w t \<Longrightarrow> list_empty (tw_lists w) (Entry t)"
  by (simp add: idle_def list_empty_def)

lemma pending_not_empty:
  assumes "wheel_rep w L" "s < 256" "t \<in> set (L s)"
  shows "\<not> list_empty (tw_lists w) (Entry t)"
  using list_empty_member [OF wheel_repD(1) [OF assms(1,2)]] assms(3) by simp

text \<open>
  A change of one slot: the heads and timers outside the slot and outside the timer moved keep their links, so the other
  slots stand for the same lists and idle timers stay idle.
\<close>

lemma wheel_rep_slot:
  assumes "wheel_rep w L" "s < 256" "tw_timer w' = tw_timer w"
    and "ring (tw_lists w') (Wheel s) (map Entry xs)"
    and "\<And>x. x \<notin> set (Wheel s # map Entry (L s)) \<Longrightarrow> x \<notin> Entry ` T \<Longrightarrow>
           l_next (tw_lists w') x = l_next (tw_lists w) x \<and> l_prev (tw_lists w') x = l_prev (tw_lists w) x"
    and "\<And>u. u \<in> set xs \<Longrightarrow> wheel_slot (tm_expires (tw_timer w u)) = s"
    and "\<And>r. r < 256 \<Longrightarrow> r \<noteq> s \<Longrightarrow> T \<inter> set (L r) = {}"
  shows "wheel_rep w' (L(s := xs))"
proof -
  have "ring (tw_lists w') (Wheel r) (map Entry (L r))" if r: "r < 256" "r \<noteq> s" for r
  proof (rule ring_frame [OF wheel_repD(1) [OF assms(1) r(1)]])
    fix x assume x: "x \<in> set (Wheel r # map Entry (L r))"
    have "u \<notin> set (L s)" if "u \<in> set (L r)" for u
      using wheel_repD(3) [OF assms(1) r(1) that] wheel_repD(3) [OF assms(1,2), of u] r(2) by auto
    then show "l_next (tw_lists w') x = l_next (tw_lists w) x \<and> l_prev (tw_lists w') x = l_prev (tw_lists w) x"
      using assms(5) [of x] x r(2) assms(7) [OF r] by auto
  qed
  then show ?thesis using assms(1,3,4,6) by (auto simp: wheel_rep_def)
qed

lemma idle_frame:
  assumes "idle w u" "wheel_rep w L" "s < 256" "u \<notin> T"
    and "\<And>x. x \<notin> set (Wheel s # map Entry (L s)) \<Longrightarrow> x \<notin> Entry ` T \<Longrightarrow>
           l_next (tw_lists w') x = l_next (tw_lists w) x \<and> l_prev (tw_lists w') x = l_prev (tw_lists w) x"
  shows "idle w' u"
  using assms(1) assms(5) [of "Entry u"] idle_not_pending [OF assms(2,1,3)] assms(4)
  by (auto simp: idle_def)

section \<open>The operations\<close>

lemma add_timer_rep:
  assumes "wheel_rep w L" "idle w t" "tm_function (tw_timer w t) \<noteq> None"
    and s: "s = wheel_slot (tm_expires (tw_timer w t))"
  shows "\<exists>w'. add_timer t w = Some w' \<and> wheel_rep w' (L(s := L s @ [t])) \<and> tw_timer w' = tw_timer w \<and>
    (\<forall>u. u \<noteq> t \<longrightarrow> idle w u \<longrightarrow> idle w' u)"
proof -
  have sl: "s < 256" by (simp add: s)
  have nt: "t \<notin> set (L r)" if "r < 256" for r using idle_not_pending [OF assms(1,2) that] .
  obtain h where h: "list_add_tail (Entry t) (Wheel s) (tw_lists w) = Some h"
    "ring h (Wheel s) (map Entry (L s) @ [Entry t])"
    "\<And>x. x \<notin> set (Wheel s # Entry t # map Entry (L s)) \<Longrightarrow>
       l_next h x = l_next (tw_lists w) x \<and> l_prev h x = l_prev (tw_lists w) x"
    using list_add_tail_ring [OF wheel_repD(1) [OF assms(1) sl], of "Entry t"] nt [OF sl] by auto
  let ?w = "w\<lparr>tw_lists := h\<rparr>"
  have fr: "l_next (tw_lists ?w) x = l_next (tw_lists w) x \<and> l_prev (tw_lists ?w) x = l_prev (tw_lists w) x"
    if "x \<notin> set (Wheel s # map Entry (L s))" "x \<notin> Entry ` {t}" for x
    using h(3) [of x] that by auto
  have "wheel_rep ?w (L(s := L s @ [t]))"
  proof (rule wheel_rep_slot [OF assms(1) sl _ _ fr])
    show "wheel_slot (tm_expires (tw_timer w u)) = s" if "u \<in> set (L s @ [t])" for u
      using that wheel_repD(3) [OF assms(1) sl, of u] s by auto
  qed (use h(2) nt in auto)
  moreover have "idle ?w u" if "u \<noteq> t" "idle w u" for u
    by (rule idle_frame [OF that(2) assms(1) sl _ fr, where T = "{t}"]) (use that(1) in auto)
  ultimately show ?thesis using assms(3) h(1) by (auto simp: add_timer_def upd_lists_def s [symmetric])
qed

lemma del_timer_rep:
  assumes "wheel_rep w L" "s < 256" "t \<in> set (L s)"
  shows "\<exists>w'. upd_lists w (list_del_init (Entry t) (tw_lists w)) = Some w' \<and> del_timer t w = Some (1, w') \<and>
    wheel_rep w' (L(s := remove1 t (L s))) \<and> idle w' t \<and> tw_timer w' = tw_timer w \<and>
    (\<forall>u. idle w u \<longrightarrow> idle w' u)"
proof -
  obtain h where h: "list_del_init (Entry t) (tw_lists w) = Some h"
    "ring h (Wheel s) (remove1 (Entry t) (map Entry (L s)))" "ring h (Entry t) []"
    "\<And>x. x \<notin> set (Wheel s # map Entry (L s)) \<Longrightarrow>
       l_next h x = l_next (tw_lists w) x \<and> l_prev h x = l_prev (tw_lists w) x"
    using list_del_init_ring [OF wheel_repD(1) [OF assms(1,2)], of "Entry t"] assms(3) by auto
  let ?w = "w\<lparr>tw_lists := h\<rparr>"
  have fr: "l_next (tw_lists ?w) x = l_next (tw_lists w) x \<and> l_prev (tw_lists ?w) x = l_prev (tw_lists w) x"
    if "x \<notin> set (Wheel s # map Entry (L s))" "x \<notin> Entry ` {t}" for x
    using h(4) [of x] that by auto
  have m: "remove1 (Entry t) (map Entry (L s)) = map Entry (remove1 t (L s))"
    using wheel_repD(2) [OF assms(1,2)] by (simp add: distinct_remove1_removeAll distinct_map inj_on_def
      removeAll_filter_not_eq filter_map comp_def)
  have o: "t \<notin> set (L r)" if "r < 256" "r \<noteq> s" for r
    using wheel_repD(3) [OF assms(1) that(1), of t] wheel_repD(3) [OF assms] that(2) by auto
  have "wheel_rep ?w (L(s := remove1 t (L s)))"
  proof (rule wheel_rep_slot [OF assms(1,2) _ _ fr])
    show "wheel_slot (tm_expires (tw_timer w u)) = s" if "u \<in> set (remove1 t (L s))" for u
      using that wheel_repD(3) [OF assms(1,2), of u] set_remove1_subset [of t "L s"] by auto
  qed (use h(2) m o in auto)
  moreover have "idle ?w t" using h(3) by (simp add: idle_def)
  moreover have "idle ?w u" if "idle w u" for u
    by (rule idle_frame [OF that assms(1,2) _ fr]) (use idle_not_pending [OF assms(1) that assms(2)] assms(3) in auto)
  ultimately show ?thesis
    using h(1) pending_not_empty [OF assms] by (auto simp: del_timer_def upd_lists_def)
qed


text \<open>The timers the pass over a slot runs, and with which data.\<close>

definition fired_of :: "(nat \<Rightarrow> timer_list) \<Rightarrow> nat list \<Rightarrow> fired list" where
  "fired_of tm ts = concat (map (\<lambda>t. case tm_function (tm t) of
     None \<Rightarrow> [] | Some f \<Rightarrow> [(t, f, tm_data (tm t))]) ts)"

lemma softirq_loop_spec:
  assumes "ring (tw_lists w) (Wheel s) (map Entry (ys @ zs))"
    and "p = (case zs of [] \<Rightarrow> Wheel s | z # _ \<Rightarrow> Entry z)"
  shows "\<exists>w'. softirq_loop now (Wheel s) p w =
      Some (fired_of (tw_timer w) (filter (\<lambda>t. \<not> not_expired now (tm_expires (tw_timer w t))) zs), w') \<and>
    tw_timer w' = tw_timer w \<and>
    ring (tw_lists w') (Wheel s) (map Entry (ys @ filter (\<lambda>t. not_expired now (tm_expires (tw_timer w t))) zs)) \<and>
    (\<forall>t\<in>set zs. \<not> not_expired now (tm_expires (tw_timer w t)) \<longrightarrow> idle w' t) \<and>
    (\<forall>x. x \<notin> set (Wheel s # map Entry (ys @ zs)) \<longrightarrow>
       l_next (tw_lists w') x = l_next (tw_lists w) x \<and> l_prev (tw_lists w') x = l_prev (tw_lists w) x)"
  using assms
proof (induction zs arbitrary: ys w p)
  case Nil
  then have "softirq_loop now (Wheel s) p w = Some ([], w)" by (subst softirq_loop.simps) simp
  then show ?case using Nil by (auto simp: fired_of_def)
next
  case (Cons z zs)
  define n where "n = (case zs of [] \<Rightarrow> Wheel s | y # _ \<Rightarrow> Entry y)"
  let ?e = "not_expired now (tm_expires (tw_timer w z))"
  have p: "p = Entry z" using Cons.prems(2) by simp
  have "seg (tw_lists w) (Entry z) (map Entry zs) (Wheel s)"
    using Cons.prems(1) by (simp add: ring_def)
  then have n: "l_next (tw_lists w) p = Some n"
    using seg_first [of "tw_lists w" "Entry z" "map Entry zs" "Wheel s"] by (simp add: p n_def split: list.splits)
  show ?case
  proof (cases ?e)
    case True
    have r: "ring (tw_lists w) (Wheel s) (map Entry ((ys @ [z]) @ zs))" using Cons.prems(1) by simp
    have "softirq_loop now (Wheel s) p w = softirq_loop now (Wheel s) n w"
      using True n by (subst softirq_loop.simps) (simp add: p)
    then show ?thesis using Cons.IH [OF r n_def] True by auto
  next
    case False
    have z: "Entry z \<in> set (map Entry (ys @ z # zs))" by simp
    have d: "distinct (ys @ z # zs)" using Cons.prems(1) by (auto simp: ring_def distinct_map)
    obtain h where h: "list_del_init (Entry z) (tw_lists w) = Some h"
      "ring h (Wheel s) (remove1 (Entry z) (map Entry (ys @ z # zs)))" "ring h (Entry z) []"
      "\<And>x. x \<notin> set (Wheel s # map Entry (ys @ z # zs)) \<Longrightarrow>
         l_next h x = l_next (tw_lists w) x \<and> l_prev h x = l_prev (tw_lists w) x"
      using list_del_init_ring [OF Cons.prems(1) z] by auto
    have m: "remove1 (Entry z) (map Entry (ys @ z # zs)) = map Entry (ys @ zs)"
      using d by (simp add: remove1_append image_iff)
    let ?w = "w\<lparr>tw_lists := h\<rparr>"
    have r: "ring (tw_lists ?w) (Wheel s) (map Entry (ys @ zs))" using h(2) m by simp
    obtain w' where w': "softirq_loop now (Wheel s) n ?w = Some (fired_of (tw_timer ?w)
        (filter (\<lambda>t. \<not> not_expired now (tm_expires (tw_timer ?w t))) zs), w')"
      "tw_timer w' = tw_timer ?w"
      "ring (tw_lists w') (Wheel s) (map Entry (ys @ filter (\<lambda>t. not_expired now (tm_expires (tw_timer ?w t))) zs))"
      "\<forall>t\<in>set zs. \<not> not_expired now (tm_expires (tw_timer ?w t)) \<longrightarrow> idle w' t"
      "\<And>x. x \<notin> set (Wheel s # map Entry (ys @ zs)) \<Longrightarrow>
         l_next (tw_lists w') x = l_next (tw_lists ?w) x \<and> l_prev (tw_lists w') x = l_prev (tw_lists ?w) x"
      using Cons.IH [OF r n_def] by blast
    have "idle w' z" using w'(5) [of "Entry z"] h(3) d by (auto simp: idle_def)
    moreover have "softirq_loop now (Wheel s) p w = Some (fired_of (tw_timer w)
        (filter (\<lambda>t. \<not> not_expired now (tm_expires (tw_timer w t))) (z # zs)), w')"
      using False n h(1) w'(1) by (subst softirq_loop.simps) (simp add: p fired_of_def split: option.split)
    ultimately show ?thesis using w'(2-5) h(4) False by auto
  qed
qed

lemma run_timer_softirq_rep:
  assumes "wheel_rep w L" and s: "s = wheel_slot now"
  shows "\<exists>w'. run_timer_softirq now w =
      Some (fired_of (tw_timer w) (filter (\<lambda>t. \<not> not_expired now (tm_expires (tw_timer w t))) (L s)), w') \<and>
    wheel_rep w' (L(s := filter (\<lambda>t. not_expired now (tm_expires (tw_timer w t))) (L s))) \<and>
    tw_timer w' = tw_timer w \<and> (\<forall>u. idle w u \<longrightarrow> idle w' u) \<and>
    (\<forall>t\<in>set (L s). \<not> not_expired now (tm_expires (tw_timer w t)) \<longrightarrow> idle w' t)"
proof -
  have sl: "s < 256" by (simp add: s)
  have r: "ring (tw_lists w) (Wheel s) (map Entry ([] @ L s))" using wheel_repD(1) [OF assms(1) sl] by simp
  define p where "p = (case L s of [] \<Rightarrow> Wheel s | z # _ \<Rightarrow> Entry z)"
  have p: "l_next (tw_lists w) (Wheel s) = Some p"
    using r seg_first [of "tw_lists w" "Wheel s" "map Entry (L s)" "Wheel s"]
    by (simp add: ring_def p_def split: list.splits)
  obtain w' where w': "softirq_loop now (Wheel s) p w =
      Some (fired_of (tw_timer w) (filter (\<lambda>t. \<not> not_expired now (tm_expires (tw_timer w t))) (L s)), w')"
    "tw_timer w' = tw_timer w"
    "ring (tw_lists w') (Wheel s) (map Entry (filter (\<lambda>t. not_expired now (tm_expires (tw_timer w t))) (L s)))"
    "\<forall>t\<in>set (L s). \<not> not_expired now (tm_expires (tw_timer w t)) \<longrightarrow> idle w' t"
    "\<And>x. x \<notin> set (Wheel s # map Entry (L s)) \<Longrightarrow>
       l_next (tw_lists w') x = l_next (tw_lists w) x \<and> l_prev (tw_lists w') x = l_prev (tw_lists w) x"
    using softirq_loop_spec [OF r p_def, of now] by auto
  have "wheel_rep w' (L(s := filter (\<lambda>t. not_expired now (tm_expires (tw_timer w t))) (L s)))"
    by (rule wheel_rep_slot [OF assms(1) sl w'(2,3) w'(5), where T = "{}"])
      (use wheel_repD(3) [OF assms(1) sl] in auto)
  moreover have "idle w' u" if "idle w u" for u
    by (rule idle_frame [OF that assms(1) sl _ w'(5), where T = "{}"]) auto
  ultimately show ?thesis using w'(1,2,4) p by (auto simp: run_timer_softirq_def s [symmetric])
qed


section \<open>Ticks\<close>

text \<open>\<open>n\<close> ticks, the wheel looked at once on each of them, as the comment on \<^verbatim>\<open>run_timer_softirq\<close> asks; what ran on each tick.\<close>

fun run_ticks :: "nat \<Rightarrow> u64 \<Rightarrow> twheel \<Rightarrow> (fired list list \<times> twheel) option" where
  "run_ticks 0 j w = Some ([], w)"
| "run_ticks (Suc n) j w =
     (case run_timer_softirq (j + 1) w of None \<Rightarrow> None
      | Some (evs, w1) \<Rightarrow>
          (case run_ticks n (j + 1) w1 of None \<Rightarrow> None
           | Some (es, w2) \<Rightarrow> Some (evs # es, w2)))"

definition of_timer :: "nat \<Rightarrow> fired list \<Rightarrow> fired list" where
  "of_timer t evs = filter (\<lambda>e. fst e = t) evs"

lemma of_timer_fired_of:
  assumes "distinct ts"
  shows "of_timer t (fired_of tm ts) =
    (if t \<in> set ts then (case tm_function (tm t) of None \<Rightarrow> [] | Some f \<Rightarrow> [(t, f, tm_data (tm t))]) else [])"
  using assms by (induction ts) (auto simp: fired_of_def of_timer_def split: option.splits)

lemma run_ticks_not_pending:
  assumes "wheel_rep w L" "\<forall>s<256. t \<notin> set (L s)" "idle w t"
  shows "\<exists>es w'. run_ticks n j w = Some (es, w') \<and> map (of_timer t) es = replicate n [] \<and> idle w' t"
  using assms
proof (induction n arbitrary: j w L)
  case 0
  then show ?case by simp
next
  case (Suc n)
  define s where "s = wheel_slot (j + 1)"
  let ?due = "\<lambda>t. \<not> not_expired (j + 1) (tm_expires (tw_timer w t))"
  obtain w1 where w1: "run_timer_softirq (j + 1) w = Some (fired_of (tw_timer w) (filter ?due (L s)), w1)"
    "wheel_rep w1 (L(s := filter (\<lambda>t. not_expired (j + 1) (tm_expires (tw_timer w t))) (L s)))"
    "\<forall>u. idle w u \<longrightarrow> idle w1 u"
    using run_timer_softirq_rep [OF Suc.prems(1) s_def] by blast
  have s: "s < 256" by (simp add: s_def)
  have "of_timer t (fired_of (tw_timer w) (filter ?due (L s))) = []"
    using of_timer_fired_of [of "filter ?due (L s)" t] wheel_repD(2) [OF Suc.prems(1) s] Suc.prems(2) s by simp
  moreover have np: "\<forall>q<256. t \<notin> set ((L(s := filter (\<lambda>t. not_expired (j + 1) (tm_expires (tw_timer w t))) (L s))) q)"
    using Suc.prems(2) by simp
  moreover obtain es w' where "run_ticks n (j + 1) w1 = Some (es, w')" "map (of_timer t) es = replicate n []" "idle w' t"
    using Suc.IH [OF w1(2) np, of "j + 1"] w1(3) Suc.prems(3) by blast
  ultimately show ?case using w1(1) by simp
qed

text \<open>The first tick at which the pass over the timer's slot finds it expired.\<close>

definition due_in :: "u64 \<Rightarrow> u64 \<Rightarrow> nat \<Rightarrow> bool" where
  "due_in j e k \<longleftrightarrow> 0 < k \<and> wheel_slot (j + of_nat k) = wheel_slot e \<and> \<not> not_expired (j + of_nat k) e \<and>
     (\<forall>i. 0 < i \<longrightarrow> i < k \<longrightarrow> wheel_slot (j + of_nat i) \<noteq> wheel_slot e \<or> not_expired (j + of_nat i) e)"

lemma due_in_shift:
  assumes "due_in j e (Suc k)" "0 < k"
  shows "due_in (j + 1) e k"
  unfolding due_in_def
proof (intro conjI allI impI)
  show "0 < k" using assms(2) .
  show "wheel_slot (j + 1 + of_nat k) = wheel_slot e" "\<not> not_expired (j + 1 + of_nat k) e"
    using assms(1) by (simp_all add: due_in_def add.assoc)
  show "wheel_slot (j + 1 + of_nat i) \<noteq> wheel_slot e \<or> not_expired (j + 1 + of_nat i) e" if "0 < i" "i < k" for i
    using assms(1) that unfolding due_in_def by (auto simp: add.assoc dest!: spec [of _ "Suc i"])
qed

lemma timer_runs_when_due:
  assumes "wheel_rep w L" "s < 256" "t \<in> set (L s)" "tm_function (tw_timer w t) = Some f"
    and "due_in j (tm_expires (tw_timer w t)) k" "k \<le> n"
  shows "\<exists>es w'. run_ticks n j w = Some (es, w') \<and> idle w' t \<and>
    map (of_timer t) es = replicate (k - 1) [] @ [[(t, f, tm_data (tw_timer w t))]] @ replicate (n - k) []"
  using assms
proof (induction n arbitrary: j w L k)
  case 0
  then show ?case by (simp add: due_in_def)
next
  case (Suc n)
  define r where "r = wheel_slot (j + 1)"
  let ?e = "tm_expires (tw_timer w t)"
  let ?due = "\<lambda>t. \<not> not_expired (j + 1) (tm_expires (tw_timer w t))"
  let ?L = "L(r := filter (\<lambda>t. not_expired (j + 1) (tm_expires (tw_timer w t))) (L r))"
  have sl: "wheel_slot ?e = s" using wheel_repD(3) [OF Suc.prems(1-3)] .
  have r: "r < 256" by (simp add: r_def)
  obtain w1 where w1: "run_timer_softirq (j + 1) w = Some (fired_of (tw_timer w) (filter ?due (L r)), w1)"
    "wheel_rep w1 ?L" "tw_timer w1 = tw_timer w" "\<forall>t\<in>set (L r). ?due t \<longrightarrow> idle w1 t"
    using run_timer_softirq_rep [OF Suc.prems(1) r_def] by blast
  have ev: "of_timer t (fired_of (tw_timer w) (filter ?due (L r))) =
      (if r = s \<and> ?due t then [(t, f, tm_data (tw_timer w t))] else [])"
  proof -
    have "t \<in> set (L r) \<longleftrightarrow> r = s"
      using Suc.prems(3) wheel_repD(3) [OF Suc.prems(1) r, of t] sl by auto
    then show ?thesis
      using of_timer_fired_of [of "filter ?due (L r)" t "tw_timer w"] wheel_repD(2) [OF Suc.prems(1) r] Suc.prems(4)
      by simp
  qed
  show ?case
  proof (cases "r = s \<and> ?due t")
    case True
    have k: "k = 1"
    proof (rule ccontr)
      assume "k \<noteq> 1"
      then have "1 < k" using Suc.prems(5) by (simp add: due_in_def)
      then show False using Suc.prems(5) True sl unfolding due_in_def r_def by (auto dest!: spec [of _ 1])
    qed
    have "\<forall>q<256. t \<notin> set (?L q)"
    proof (intro allI impI)
      show "t \<notin> set (?L q)" if "q < 256" for q
      proof
        assume q: "t \<in> set (?L q)"
        then have "t \<in> set (L q)" by (cases "q = r") simp_all
        then have "wheel_slot ?e = q" by (rule wheel_repD(3) [OF Suc.prems(1) that])
        then have "q = r" unfolding sl using True by simp
        then show False using q True by simp
      qed
    qed
    then obtain es w' where "run_ticks n (j + 1) w1 = Some (es, w')" "map (of_timer t) es = replicate n []" "idle w' t"
      using run_ticks_not_pending [OF w1(2), of t n "j + 1"] w1(4) True Suc.prems(3) by auto
    then show ?thesis using w1(1) ev True k by auto
  next
    case False
    have "k \<noteq> 1"
    proof
      assume "k = 1"
      then have "wheel_slot (j + 1) = wheel_slot ?e" "?due t" using Suc.prems(5) by (simp_all add: due_in_def)
      then show False using False sl by (simp add: r_def)
    qed
    then obtain k' where k': "k = Suc k'" "0 < k'" using Suc.prems(5) by (cases k) (auto simp: due_in_def)
    have "t \<in> set (?L s)" using False Suc.prems(3) by auto
    then obtain es w' where "run_ticks n (j + 1) w1 = Some (es, w')" "idle w' t"
      "map (of_timer t) es = replicate (k' - 1) [] @ [[(t, f, tm_data (tw_timer w t))]] @ replicate (n - k') []"
      using Suc.IH [OF w1(2) Suc.prems(2), of "j + 1" k'] w1(3) Suc.prems(4,5,6) due_in_shift [of j ?e k'] k' by auto
    then show ?thesis using w1(1) ev False k' by (cases k') auto
  qed
qed


section \<open>When a timer runs\<close>

lemma wheel_slot_add: "wheel_slot (j + of_nat i) = (unat j + i) mod 256"
proof -
  have "unat (j + of_nat i) = (unat j + i) mod 2 ^ 64"
    by (simp add: unat_word_ariths(1) unat_of_nat mod_add_right_eq)
  then show ?thesis by (simp add: wheel_slot_mod mod_mod_cancel)
qed

lemma due_in_future:
  assumes "0 < d" "d < 2 ^ 63"
  shows "due_in j (j + of_nat d) d"
  unfolding due_in_def
proof (intro conjI allI impI)
  show "\<not> not_expired (j + of_nat d) (j + of_nat d)" by (simp add: not_expired_def)
  show "wheel_slot (j + of_nat i) \<noteq> wheel_slot (j + of_nat d) \<or> not_expired (j + of_nat i) (j + of_nat d)"
    if "0 < i" "i < d" for i
  proof -
    have "j + of_nat d - (j + of_nat i) = (of_nat (d - i) :: u64)" using that by (simp add: of_nat_diff)
    then have "not_expired (j + of_nat i) (j + of_nat d)"
      using sint_of_nat_u64 [of "d - i"] that assms(2) by (simp add: not_expired_def)
    then show ?thesis ..
  qed
qed (use assms in auto)

lemma due_in_now: "due_in j j 256"
  unfolding due_in_def
proof (intro conjI allI impI)
  show "wheel_slot (j + of_nat 256) = wheel_slot j"
    using wheel_slot_add [of j 256] by (simp add: wheel_slot_mod)
  show "\<not> not_expired (j + of_nat 256) j" by (simp add: not_expired_def)
  show "wheel_slot (j + of_nat i) \<noteq> wheel_slot j \<or> not_expired (j + of_nat i) j" if "0 < i" "i < 256" for i
  proof -
    have "(unat j + i) mod 256 \<noteq> unat j mod 256"
      using mod_add_inj [of "unat j" i 256 0] that by auto
    then show ?thesis by (simp add: wheel_slot_add wheel_slot_mod [of j])
  qed
qed simp

lemma set_timer_rep:
  assumes "wheel_rep w L" "\<forall>s<256. t \<notin> set (L s)"
  shows "wheel_rep (w\<lparr>tw_timer := (tw_timer w)(t := x)\<rparr>) L"
  using assms by (auto simp: wheel_rep_def)

lemma init_timer_rep:
  assumes "wheel_rep w L" "\<forall>s<256. t \<notin> set (L s)"
  shows "wheel_rep (init_timer t w) L" "idle (init_timer t w) t"
proof -
  have "ring (INIT_LIST_HEAD (Entry t) (tw_lists w)) (Wheel s) (map Entry (L s))" if "s < 256" for s
    by (rule ring_frame [OF wheel_repD(1) [OF assms(1) that]])
      (use assms(2) that in \<open>auto simp: INIT_LIST_HEAD_def\<close>)
  then show "wheel_rep (init_timer t w) L"
    using assms by (auto simp: wheel_rep_def init_timer_def)
  show "idle (init_timer t w) t"
    by (simp add: idle_def init_timer_def del: ring_nil)
qed

text \<open>A timer set up from scratch on a wheel where it is not pending.\<close>

lemma start_timer_rep:
  assumes "wheel_rep w L" "\<forall>s<256. t \<notin> set (L s)" "tm_function x \<noteq> None"
    and w: "w2 = (init_timer t w)\<lparr>tw_timer := (tw_timer (init_timer t w))(t := x)\<rparr>"
    and s: "s = wheel_slot (tm_expires x)"
  shows "\<exists>w'. add_timer t w2 = Some w' \<and> wheel_rep w' (L(s := L s @ [t])) \<and> tw_timer w' t = x"
proof -
  have "wheel_rep w2 L" using set_timer_rep [OF init_timer_rep(1) [OF assms(1,2)] assms(2)] w by simp
  moreover have "idle w2 t" using init_timer_rep(2) [OF assms(1,2)] by (simp add: w idle_def)
  ultimately show ?thesis using add_timer_rep [of w2 L t s] assms(3) s by (auto simp: w)
qed

lemma alarm_runs:
  assumes "wheel_rep w L" "idle w t \<or> (s < 256 \<and> t \<in> set (L s))" "0 < seconds"
  shows "\<exists>r w' L'. sys_alarm j t pid seconds w = Some (r, w') \<and> wheel_rep w' L' \<and>
    t \<in> set (L' (wheel_slot (j + of_nat (100 * unat seconds)))) \<and>
    tw_timer w' t = \<lparr>tm_expires = j + of_nat (100 * unat seconds), tm_function = Some Alarm_timer_fn,
      tm_data = word_of_int pid, tm_flags = 0\<rparr> \<and>
    r = (if idle w t \<or> sint (tm_expires (tw_timer w t) - j) \<le> 0 then 0
         else sint (tm_expires (tw_timer w t) - j) div 100)"
proof -
  let ?e = "tm_expires (tw_timer w t)"
  define x where "x = \<lparr>tm_expires = j + of_nat (100 * unat seconds), tm_function = Some Alarm_timer_fn,
      tm_data = word_of_int pid, tm_flags = (0 :: u32)\<rparr>"
  define rem where "rem = (if idle w t then 0 else if 0 < sint (?e - j) then (?e - j) div 100 else 0)"
  have e: "j + ucast seconds * 100 = j + of_nat (100 * unat seconds)"
    by (simp add: mult.commute)
  have "\<exists>w1 L1. (if timer_pending w t
            then (let e = ?e; remaining = (if 0 < sint (e - j) then (e - j) div 100 else 0)
                  in map_option (\<lambda>(_, w1). (remaining, w1)) (del_timer t w))
            else Some (0, w)) = Some (rem, w1) \<and> wheel_rep w1 L1 \<and> (\<forall>s<256. t \<notin> set (L1 s))"
  proof (cases "idle w t")
    case True
    then show ?thesis
      using assms(1) idle_empty [OF True] idle_not_pending [OF assms(1) True]
      by (auto simp: timer_pending_def rem_def)
  next
    case False
    then have s: "s < 256" "t \<in> set (L s)" using assms(2) by auto
    obtain w' where w': "del_timer t w = Some (1, w')" "wheel_rep w' (L(s := remove1 t (L s)))" "idle w' t"
      using del_timer_rep [OF assms(1) s] by blast
    show ?thesis
      using w' False pending_not_empty [OF assms(1) s] idle_not_pending [OF w'(2,3)]
      by (auto simp: timer_pending_def rem_def Let_def simp del: fun_upd_apply intro!: exI [of _ "L(s := remove1 t (L s))"])
  qed
  then obtain w1 L1 where w1: "(if timer_pending w t
            then (let e = ?e; remaining = (if 0 < sint (e - j) then (e - j) div 100 else 0)
                  in map_option (\<lambda>(_, w1). (remaining, w1)) (del_timer t w))
            else Some (0, w)) = Some (rem, w1)" "wheel_rep w1 L1" "\<forall>s<256. t \<notin> set (L1 s)"
    by blast
  let ?w2 = "(init_timer t w1)\<lparr>tw_timer := (tw_timer (init_timer t w1))(t := x)\<rparr>"
  obtain w' where w': "add_timer t ?w2 = Some w'" "wheel_rep w' (L1(wheel_slot (tm_expires x) := L1 (wheel_slot (tm_expires x)) @ [t]))"
    "tw_timer w' t = x"
    using start_timer_rep [OF w1(2,3) _ refl refl, of x] by (auto simp: x_def)
  have "sys_alarm j t pid seconds w = Some (sint rem, w')"
    using w1(1) w'(1) assms(3) by (simp add: sys_alarm_def init_timer_def x_def e Let_def)
  moreover have "sint rem = (if idle w t \<or> sint (?e - j) \<le> 0 then 0 else sint (?e - j) div 100)"
  proof -
    have "sint (x div 100) = sint x div 100" if "0 < sint x" for x :: u64
    proof -
      obtain n where x: "x = of_nat n" "n < 2 ^ 63"
        using sint_unat_pos [of x] \<open>0 < sint x\<close> by (meson order_less_imp_le)
      have "x div 100 = of_nat (n div 100)"
        by (simp add: word_arith_nat_div x(1) unat_of_nat) (use x(2) in simp)
      then show ?thesis using sint_of_nat_u64 [of "n div 100"] sint_of_nat_u64 [of n] x by (simp add: zdiv_int)
    qed
    then show ?thesis by (auto simp: rem_def)
  qed
  ultimately show ?thesis
    using w'(2,3) by (intro exI conjI) (assumption | simp add: x_def)+
qed


text \<open>\<^verbatim>\<open>mod_timer\<close> takes a pending timer off its list and puts it at the end of the list of its new slot.\<close>

lemma mod_timer_rep:
  assumes "wheel_rep w L" "s < 256" "t \<in> set (L s)"
    and r: "r = wheel_slot e"
  shows "\<exists>w'. mod_timer t e w = Some w' \<and>
    wheel_rep w' ((L(s := remove1 t (L s)))(r := (L(s := remove1 t (L s))) r @ [t]))"
proof -
  let ?L = "L(s := remove1 t (L s))"
  obtain w1 where w1: "upd_lists w (list_del_init (Entry t) (tw_lists w)) = Some w1"
    "wheel_rep w1 ?L" "idle w1 t"
    using del_timer_rep [OF assms(1-3)] by blast
  let ?x = "(tw_timer w1 t)\<lparr>tm_expires := e, tm_function := Some Alarm_timer_fn\<rparr>"
  let ?y = "(tw_timer w1 t)\<lparr>tm_expires := e\<rparr>"
  have nt: "\<forall>s<256. t \<notin> set (?L s)" using idle_not_pending [OF w1(2,3)] by simp
  let ?w2 = "w1\<lparr>tw_timer := (tw_timer w1)(t := ?x)\<rparr>"
  let ?w3 = "w1\<lparr>tw_timer := (tw_timer w1)(t := ?y)\<rparr>"
  have "wheel_rep ?w2 ?L" "idle ?w2 t"
    using set_timer_rep [OF w1(2) nt] w1(3) by (simp_all add: idle_def del: fun_upd_apply)
  then obtain w2 where "add_timer t ?w2 = Some w2" "wheel_rep w2 (?L(r := ?L r @ [t]))" "tw_timer w2 = tw_timer ?w2"
    using add_timer_rep [of ?w2 ?L t r] r by auto
  then obtain h where h: "list_add_tail (Entry t) (Wheel r) (tw_lists w1) = Some h"
    "wheel_rep (?w2\<lparr>tw_lists := h\<rparr>) (?L(r := ?L r @ [t]))"
    using r by (auto simp: add_timer_def upd_lists_def)
  have "wheel_rep (?w3\<lparr>tw_lists := h\<rparr>) (?L(r := ?L r @ [t]))"
    using h(2) by (rule wheel_rep_cong [THEN iffD1, rotated 2]) simp_all
  then show ?thesis
    using w1(1) h(1) pending_not_empty [OF assms(1-3)] r by (auto simp: mod_timer_def upd_lists_def Let_def)
qed

section \<open>Properties of the wheel\<close>

text \<open>A wheel that has just been set up, and one timer on it, for the concrete instances.\<close>

lemma timers_init_rep: "wheel_rep (timers_init w) (\<lambda>s. [])"
proof -
  have "ring (fold (\<lambda>i. INIT_LIST_HEAD (Wheel i)) ss h) (Wheel s) []"
    if "s \<in> set ss \<or> ring h (Wheel s) []" for ss h s
    using that
  proof (induction ss arbitrary: h)
    case (Cons r ss)
    have "ring (INIT_LIST_HEAD (Wheel r) h) (Wheel s) []" if "s = r \<or> ring h (Wheel s) []"
      using that by (auto simp: INIT_LIST_HEAD_def)
    then have "s \<in> set ss \<or> ring (INIT_LIST_HEAD (Wheel r) h) (Wheel s) []" using Cons.prems by auto
    then show ?case using Cons.IH by simp
  qed simp
  then show ?thesis by (auto simp: wheel_rep_def timers_init_def simp del: ring_nil)
qed

definition demo_wheel :: twheel where
  "demo_wheel = timers_init \<lparr>tw_lists = \<lparr>l_next = \<lambda>_. None, l_prev = \<lambda>_. None\<rparr>,
     tw_timer = \<lambda>_. \<lparr>tm_expires = 0, tm_function = None, tm_data = 0, tm_flags = 0\<rparr>\<rparr>"

lemma demo_wheel_rep: "wheel_rep demo_wheel (\<lambda>s. [])"
  unfolding demo_wheel_def by (rule timers_init_rep)

lemma delayed_work_rep:
  assumes "wheel_rep w L" "\<forall>s<256. t \<notin> set (L s)" and s: "s = wheel_slot (j + delay)"
  shows "\<exists>w'. schedule_delayed_work j t delay fn d w = Some w' \<and> wheel_rep w' (L(s := L s @ [t])) \<and>
    tw_timer w' t = \<lparr>tm_expires = j + delay, tm_function = Some fn, tm_data = d, tm_flags = 0\<rparr>"
  unfolding schedule_delayed_work_def Let_def
  using start_timer_rep [OF assms(1,2) _ refl, of
      "\<lparr>tm_expires = j + delay, tm_function = Some fn, tm_data = d, tm_flags = 0\<rparr>" s] s
  by (simp add: init_timer_def)

text \<open>C16 (a timer runs exactly once, on its tick). A pending timer that expires \<open>d\<close> ticks from now, less than
  2^63, runs on the \<open>d\<close>-th tick, with its data, and on no other of the next \<open>n\<close> ticks, whatever other timers
  share its slot and whatever wraps around in the tick counter; afterwards it is not pending.\<close>

theorem timer_runs_on_time:
  assumes "wheel_rep w L" "s < 256" "t \<in> set (L s)"
    and "tw_timer w t = \<lparr>tm_expires = j + of_nat d, tm_function = Some f, tm_data = x, tm_flags = fl\<rparr>"
    and "0 < d" "d < 2 ^ 63" "d \<le> n"
  shows "\<exists>es w'. run_ticks n j w = Some (es, w') \<and> \<not> timer_pending w' t \<and>
    map (of_timer t) es = replicate (d - 1) [] @ [[(t, f, x)]] @ replicate (n - d) []"
  using timer_runs_when_due [OF assms(1-3), of f j d n] due_in_future [OF assms(5,6), of j] assms(4,7) idle_empty
  by (fastforce simp: timer_pending_def)

theorem timer_runs_on_time_witness:
  "\<exists>w. schedule_delayed_work 5 7 300 (Work_fn 1) 42 demo_wheel = Some w \<and>
    (\<exists>es w'. run_ticks 400 5 w = Some (es, w') \<and> \<not> timer_pending w' 7 \<and>
      map (of_timer 7) es = replicate 299 [] @ [[(7, Work_fn 1, 42)]] @ replicate 100 [])"
proof -
  obtain w where w: "schedule_delayed_work 5 7 300 (Work_fn 1) 42 demo_wheel = Some w"
    "wheel_rep w ((\<lambda>s. [])(wheel_slot (5 + 300) := [] @ [7]))"
    "tw_timer w 7 = \<lparr>tm_expires = 5 + 300, tm_function = Some (Work_fn 1), tm_data = 42, tm_flags = 0\<rparr>"
    using delayed_work_rep [OF demo_wheel_rep, of 7 _ 5 300 "Work_fn 1" 42] by auto
  show ?thesis
    using w(1) timer_runs_on_time [OF w(2) wheel_slot_less, of 7 "5 + 300" 5 300 "Work_fn 1" 42 0 400] w(3) by auto
qed


text \<open>\<^emph>\<open>Alarm.\<close> \<^verbatim>\<open>alarm\<close> with a positive number of seconds, whether or not an alarm was pending, replaces it: on the wheel it leaves,
  \<^verbatim>\<open>alarm_timer_fn\<close> runs for the caller after exactly 100 ticks for each second, once, and the old alarm never runs.\<close>

theorem alarm_rings_once:
  assumes "wheel_rep w L" "idle w t \<or> (s < 256 \<and> t \<in> set (L s))" "0 < seconds" "100 * unat seconds \<le> n"
  shows "\<exists>r w1 es w2. sys_alarm j t pid seconds w = Some (r, w1) \<and> run_ticks n j w1 = Some (es, w2) \<and>
    map (of_timer t) es = replicate (100 * unat seconds - 1) [] @ [[(t, Alarm_timer_fn, word_of_int pid)]]
      @ replicate (n - 100 * unat seconds) []"
proof -
  obtain r w1 L1 where w1: "sys_alarm j t pid seconds w = Some (r, w1)" "wheel_rep w1 L1"
    "t \<in> set (L1 (wheel_slot (j + of_nat (100 * unat seconds))))"
    "tw_timer w1 t = \<lparr>tm_expires = j + of_nat (100 * unat seconds), tm_function = Some Alarm_timer_fn,
      tm_data = word_of_int pid, tm_flags = 0\<rparr>"
    using alarm_runs [OF assms(1-3), of j pid] by blast
  have d: "0 < 100 * unat seconds" "100 * unat seconds < 2 ^ 63"
    using assms(3) unsigned_less [of seconds, where 'a = nat] by (simp_all add: unat_gt_0)
  have "\<exists>es w'. run_ticks n j w1 = Some (es, w') \<and> idle w' t \<and> map (of_timer t) es =
      replicate (100 * unat seconds - 1) [] @ [[(t, Alarm_timer_fn, tm_data (tw_timer w1 t))]]
        @ replicate (n - 100 * unat seconds) []"
    by (rule timer_runs_when_due [OF w1(2) wheel_slot_less w1(3)])
      (use w1(4) due_in_future [OF d, of j] assms(4) in simp_all)
  then show ?thesis using w1(1,4) by auto
qed

theorem alarm_rings_once_witness:
  "\<exists>r w1 es w2. sys_alarm 9 3 12 2 (init_timer 3 demo_wheel) = Some (r, w1) \<and> run_ticks 500 9 w1 = Some (es, w2) \<and>
    map (of_timer 3) es = replicate 199 [] @ [[(3, Alarm_timer_fn, 12)]] @ replicate 300 []"
proof -
  have "wheel_rep (init_timer 3 demo_wheel) (\<lambda>s. [])" "idle (init_timer 3 demo_wheel) 3"
    using init_timer_rep [OF demo_wheel_rep, of 3] by simp_all
  then show ?thesis
    using alarm_rings_once [of "init_timer 3 demo_wheel" "\<lambda>s. []" 3 0 2 500 9 12] by simp
qed

section \<open>What goes wrong\<close>

text \<open>A delay of zero is not run on the next tick, as one would expect, nor at once: it waits for its slot to come round.\<close>

lemma zero_delay_waits_256_ticks:
  assumes "wheel_rep w L" "\<forall>s<256. t \<notin> set (L s)" "256 \<le> n"
  shows "\<exists>w1 es w2. schedule_delayed_work j t 0 fn x w = Some w1 \<and> run_ticks n j w1 = Some (es, w2) \<and>
    map (of_timer t) es = replicate 255 [] @ [[(t, fn, x)]] @ replicate (n - 256) []"
proof -
  obtain w1 where w1: "schedule_delayed_work j t 0 fn x w = Some w1"
    "wheel_rep w1 (L(wheel_slot (j + 0) := L (wheel_slot (j + 0)) @ [t]))"
    "tw_timer w1 t = \<lparr>tm_expires = j + 0, tm_function = Some fn, tm_data = x, tm_flags = 0\<rparr>"
    using delayed_work_rep [OF assms(1,2) refl, of j 0 fn x] by blast
  have "\<exists>es w'. run_ticks n j w1 = Some (es, w') \<and> idle w' t \<and> map (of_timer t) es =
      replicate (256 - 1) [] @ [[(t, fn, tm_data (tw_timer w1 t))]] @ replicate (n - 256) []"
    by (rule timer_runs_when_due [OF w1(2) wheel_slot_less [of "j + 0"]])
      (use w1(3) due_in_now [of j] assms(3) in simp_all)
  then show ?thesis using w1(1,3) by auto
qed

text \<open>
  The timer of a task is never initialised: the task structure is cleared, and no code calls \<^verbatim>\<open>init_timer\<close> on it. So the first
  \<^verbatim>\<open>alarm\<close> of a task finds its timer pending, and takes it off a list by following null links.
\<close>

lemma first_alarm_follows_null:
  assumes "l_next (tw_lists w) (Entry t) = None"
  shows "sys_alarm j t pid seconds w = None"
  using zeroed_node [OF assms] by (simp add: sys_alarm_def timer_pending_def del_timer_def upd_lists_def)

section \<open>Clocks and sleeping\<close>

definition timespec_ns :: "timespec \<Rightarrow> int" where
  "timespec_ns ts = tv_sec ts * NSEC_PER_SEC + tv_nsec ts"

definition timespec_ok :: "timespec \<Rightarrow> bool" where
  "timespec_ok ts \<longleftrightarrow> 0 \<le> tv_sec ts \<and> 0 \<le> tv_nsec ts \<and> tv_nsec ts < NSEC_PER_SEC"

lemma sint_div_pos:
  fixes j :: u64
  assumes "1 < k" "k < 2 ^ 63"
  shows "sint (j div of_nat k) = int (unat j div k)"
proof -
  have k: "unat (of_nat k :: u64) = k" using assms by (simp add: unat_of_nat)
  have "unat j div k \<le> unat j div 2" using assms by (simp add: div_le_mono2)
  also have "\<dots> < 2 ^ 63" using unsigned_less [of j, where 'a = nat] by simp
  finally show ?thesis by (simp add: word_arith_nat_div k sint_of_nat_u64)
qed

lemma clock_monotonic_exact:
  "timespec_ok (jiffies_to_timespec j) \<and> timespec_ns (jiffies_to_timespec j) = int (unat j) * 10000000"
proof -
  have s: "tv_sec (jiffies_to_timespec j) = int (unat j div 100)"
    using sint_div_pos [of 100 j] by (simp add: jiffies_to_timespec_def)
  have "j mod 100 = of_nat (unat j mod 100)" by (simp add: word_arith_nat_mod)
  then have "(j mod 100) * 10000000 = of_nat ((unat j mod 100) * 10000000)" by simp
  moreover have "(unat j mod 100) * 10000000 < 2 ^ 63"
  proof -
    have "unat j mod 100 < 100" by simp
    then have "(unat j mod 100) * 10000000 < 1000000000" by linarith
    then show ?thesis by simp
  qed
  ultimately have n: "tv_nsec (jiffies_to_timespec j) = int (unat j mod 100) * 10000000"
    using sint_of_nat_u64 [of "(unat j mod 100) * 10000000"] by (simp add: jiffies_to_timespec_def)
  have "int (unat j mod 100) < 100" by simp
  moreover have "int (unat j) = int (unat j div 100) * 100 + int (unat j mod 100)"
    by (metis div_mult_mod_eq of_nat_add of_nat_mult of_nat_numeral)
  ultimately show ?thesis by (simp add: timespec_ok_def timespec_ns_def s n)
qed


text \<open>Observations as the number of ticks since the call, and whether a signal is pending.\<close>

definition seen_from :: "u64 \<Rightarrow> (nat \<times> bool) list \<Rightarrow> (u64 \<times> bool) list" where
  "seen_from j xs = map (\<lambda>(a, s). (j + of_nat a, s)) xs"

lemma sint_diff_ticks:
  assumes "k < 2 ^ 63" "a < 2 ^ 63"
  shows "sint (j + of_nat k - (j + of_nat a) :: u64) = int k - int a"
proof -
  have "j + of_nat k - (j + of_nat a) = (word_of_int (int k - int a) :: u64)" by simp
  then show ?thesis
    using assms by (simp only: signed_of_int) (simp add: signed_take_bit_int_eq_self)
qed

lemma nanosleep_loop_spec:
  assumes "k < 2 ^ 63" "\<forall>(a, s)\<in>set xs. a < 2 ^ 63"
  shows "nanosleep_loop (j + of_nat k) (seen_from j xs) =
    (case find (\<lambda>(a, s). s \<or> k \<le> a) xs of
       None \<Rightarrow> None
     | Some (a, s) \<Rightarrow> Some (if k \<le> a then (0, \<lparr>tv_sec = 0, tv_nsec = 0\<rparr>)
                           else (- EINTR, ns_to_timespec (of_nat ((k - a) * 10000000)))))"
  using assms(2)
proof (induction xs)
  case Nil
  then show ?case by (simp add: seen_from_def)
next
  case (Cons x xs)
  obtain a s where x: "x = (a, s)" by (cases x)
  have i: "0 < sint (j + of_nat k - (j + of_nat a) :: u64) \<longleftrightarrow> a < k"
    using sint_diff_ticks [OF assms(1), of a j] Cons.prems x by simp
  have d: "(j + of_nat k - (j + of_nat a)) * 10000000 = (of_nat ((k - a) * 10000000) :: u64)" if "a < k"
    using that by (simp add: of_nat_diff)
  have "nanosleep_loop (j + of_nat k) (seen_from j (x # xs)) =
      (if a < k then (if s then Some (- EINTR, ns_to_timespec (of_nat ((k - a) * 10000000)))
                      else nanosleep_loop (j + of_nat k) (seen_from j xs))
       else Some (0, \<lparr>tv_sec = 0, tv_nsec = 0\<rparr>))"
    using i d by (simp add: seen_from_def x)
  then show ?case using Cons.IH Cons.prems x by auto
qed

lemma nanosleep_ticks_ceiling:
  assumes "timespec_ok r" "tv_sec r \<le> 9000000000"
  shows "nanosleep_ticks r = of_nat ((nat (timespec_ns r) + 9999999) div 10000000)"
    "(nat (timespec_ns r) + 9999999) div 10000000 < 2 ^ 63"
proof -
  let ?T = "nat (timespec_ns r)"
  have T: "0 \<le> timespec_ns r" "timespec_ns r < 9000000001 * 1000000000"
    using assms by (auto simp: timespec_ok_def timespec_ns_def)
  have "word_of_int (tv_sec r) * 1000000000 + word_of_int (tv_nsec r) + 10000000 - 1
      = (word_of_int (timespec_ns r + 9999999) :: u64)"
    by (simp add: timespec_ns_def)
  also have "timespec_ns r + 9999999 = int (?T + 9999999)" using T(1) by simp
  also have "word_of_int \<dots> = (of_nat (?T + 9999999) :: u64)" by (rule of_int_of_nat_eq)
  finally have w: "word_of_int (tv_sec r) * 1000000000 + word_of_int (tv_nsec r) + 10000000 - 1
      = (of_nat (?T + 9999999) :: u64)" .
  have "?T < 9000000001 * 1000000000" using T by linarith
  then have b: "?T + 9999999 < 2 ^ 64" "?T + 9999999 < 2 ^ 63" by simp_all
  have "unat (of_nat (?T + 9999999) :: u64) = ?T + 9999999"
    unfolding unat_of_nat using b(1) by simp
  moreover have "unat (10000000 :: u64) = 10000000" by simp
  ultimately show "nanosleep_ticks r = of_nat ((?T + 9999999) div 10000000)"
    unfolding nanosleep_ticks_def w word_arith_nat_div by (simp only:)
  have "(?T + 9999999) div 10000000 \<le> ?T + 9999999" by simp
  then show "(?T + 9999999) div 10000000 < 2 ^ 63" using b(2) by linarith
qed



text \<open>Beyond that range the product wraps around: a sleep of 584 years ends after 30 ticks, and one of minus one second, which
  should be refused, is accepted and sleeps on.\<close>

lemma nanosleep_wraps:
  "sys_nanosleep 0 (Some \<lparr>tv_sec = 18446744074, tv_nsec = 0\<rparr>) False [(29, False), (30, False)] = Some (0, None)"
  "sys_nanosleep 0 (Some \<lparr>tv_sec = - 1, tv_nsec = 0\<rparr>) False [(1000000, False)] = None"
  by (simp_all add: sys_nanosleep_def nanosleep_ticks_def)

end
