(* ===== verification/Input.thy ===== *)
theory Input
  imports Fifo
begin

text \<open>
  \<^verbatim>\<open>drivers/input/input.c\<close>: the event devices \<^verbatim>\<open>/dev/input/event0\<close> (keyboard) and \<^verbatim>\<open>event1\<close> (mouse), and the ring with one
  free slot that this file, the keyboard driver (twice) and the mouse driver each write out: head and tail indices, full when the
  tail would reach the head. It is a bounded queue of one element less than its array.
\<close>

section \<open>Rings with a free slot\<close>

record 'a gring =
  gr_data :: "'a list"
  gr_head :: nat
  gr_tail :: nat

definition gr_next :: "'a gring \<Rightarrow> nat \<Rightarrow> nat" where
  "gr_next r i = (i + 1) mod length (gr_data r)"

definition gr_put :: "'a gring \<Rightarrow> 'a \<Rightarrow> 'a gring option" where
  "gr_put r x =
     (if gr_next r (gr_tail r) = gr_head r then None
      else Some (r\<lparr>gr_data := (gr_data r)[gr_tail r := x], gr_tail := gr_next r (gr_tail r)\<rparr>))"

text \<open>The drivers drop what does not fit.\<close>

definition gr_push :: "'a \<Rightarrow> 'a gring \<Rightarrow> 'a gring" where
  "gr_push x r = (case gr_put r x of None \<Rightarrow> r | Some r' \<Rightarrow> r')"

definition gr_pop :: "'a gring \<Rightarrow> ('a \<times> 'a gring) option" where
  "gr_pop r =
     (if gr_head r = gr_tail r then None
      else Some (gr_data r ! gr_head r, r\<lparr>gr_head := gr_next r (gr_head r)\<rparr>))"

definition gr_avail :: "'a gring \<Rightarrow> nat" where
  "gr_avail r = (gr_tail r + length (gr_data r) - gr_head r) mod length (gr_data r)"

definition gr_init :: "nat \<Rightarrow> 'a \<Rightarrow> 'a gring" where
  "gr_init n z = \<lparr>gr_data = replicate n z, gr_head = 0, gr_tail = 0\<rparr>"

definition gr_contents :: "'a gring \<Rightarrow> 'a list" where
  "gr_contents r = ring_contents (gr_data r) (gr_head r) (gr_avail r)"

definition gr_ok :: "'a gring \<Rightarrow> bool" where
  "gr_ok r \<longleftrightarrow> gr_head r < length (gr_data r) \<and> gr_tail r < length (gr_data r)"

lemma mod_length_less: "i < length xs \<Longrightarrow> j mod length xs < length xs"
  by (rule mod_less_divisor) linarith

lemma gr_ring_ok:
  assumes "gr_ok r"
  shows "ring_ok (gr_data r) (gr_tail r) (gr_head r) (gr_avail r)" "gr_avail r < length (gr_data r)"
proof -
  have b: "gr_head r < length (gr_data r)" "gr_tail r < length (gr_data r)" using assms by (auto simp: gr_ok_def)
  then have "0 < length (gr_data r)" by linarith
  then show "gr_avail r < length (gr_data r)" unfolding gr_avail_def by (rule mod_less_divisor)
  have "(gr_head r + gr_avail r) mod length (gr_data r)
      = (gr_head r + (gr_tail r + length (gr_data r) - gr_head r)) mod length (gr_data r)"
    by (simp add: gr_avail_def mod_add_right_eq)
  also have "\<dots> = gr_tail r" using b by simp
  finally show "ring_ok (gr_data r) (gr_tail r) (gr_head r) (gr_avail r)"
    using b \<open>gr_avail r < length (gr_data r)\<close> by (auto simp: ring_ok_def)
qed

lemma gr_avail_unique:
  assumes "gr_ok r" "n < length (gr_data r)" "gr_tail r = (gr_head r + n) mod length (gr_data r)"
  shows "gr_avail r = n"
proof (rule mod_add_inj [OF _ _ assms(2)])
  show "(gr_head r + gr_avail r) mod length (gr_data r) = (gr_head r + n) mod length (gr_data r)"
    using gr_ring_ok(1) [OF assms(1)] assms(3) by (simp add: ring_ok_def)
qed (rule gr_ring_ok(2) [OF assms(1)])

lemma length_gr_contents [simp]: "length (gr_contents r) = gr_avail r"
  by (simp add: gr_contents_def)

lemma gr_full:
  assumes "gr_ok r"
  shows "gr_next r (gr_tail r) = gr_head r \<longleftrightarrow> gr_avail r = length (gr_data r) - 1"
proof -
  let ?n = "length (gr_data r)"
  note r = gr_ring_ok [OF assms]
  have n: "0 < ?n" "gr_head r < ?n" using r by (auto simp: ring_ok_def)
  have "gr_next r (gr_tail r) = (gr_head r + Suc (gr_avail r)) mod ?n"
    using r by (simp add: ring_ok_def gr_next_def mod_Suc_eq)
  also have "\<dots> = gr_head r \<longleftrightarrow> gr_avail r = ?n - 1"
  proof (cases "Suc (gr_avail r) = ?n")
    case False
    then have "Suc (gr_avail r) < ?n" using r(2) by simp
    then have "(gr_head r + Suc (gr_avail r)) mod ?n \<noteq> (gr_head r + 0) mod ?n"
      using mod_add_inj [of "gr_head r" "Suc (gr_avail r)" ?n 0] n(1) by blast
    then show ?thesis using n False by simp
  qed (use n in auto)
  finally show ?thesis .
qed

lemma gr_put_ok:
  assumes "gr_ok r" "gr_put r x = Some r'"
  shows "gr_contents r' = gr_contents r @ [x]" "gr_ok r'" "length (gr_data r') = length (gr_data r)"
proof -
  note k = gr_ring_ok [OF assms(1)]
  have ne: "gr_next r (gr_tail r) \<noteq> gr_head r"
    and r': "r' = r\<lparr>gr_data := (gr_data r)[gr_tail r := x], gr_tail := gr_next r (gr_tail r)\<rparr>"
    using assms(2) by (auto simp: gr_put_def split: if_splits)
  have lt: "Suc (gr_avail r) < length (gr_data r)" using gr_full [OF assms(1)] ne k(2) by auto
  note s = ring_store [OF k, of x]
  show l: "length (gr_data r') = length (gr_data r)" by (simp add: r')
  show ok: "gr_ok r'"
    using assms(1) mod_length_less [OF lt] by (simp add: gr_ok_def r' gr_next_def)
  have "gr_avail r' = Suc (gr_avail r)"
    by (rule gr_avail_unique [OF ok]) (use s(2) lt in \<open>auto simp: r' gr_next_def ring_ok_def\<close>)
  then show "gr_contents r' = gr_contents r @ [x]" using s(1) by (simp add: gr_contents_def r')
qed

lemma gr_pop_ok:
  assumes "gr_ok r" "gr_pop r = Some (x, r')"
  shows "gr_contents r = x # gr_contents r'" "gr_ok r'" "length (gr_data r') = length (gr_data r)"
proof -
  note k = gr_ring_ok [OF assms(1)]
  have ne: "gr_head r \<noteq> gr_tail r" and x: "x = gr_data r ! gr_head r"
    and r': "r' = r\<lparr>gr_head := gr_next r (gr_head r)\<rparr>"
    using assms(2) by (auto simp: gr_pop_def split: if_splits)
  have "gr_avail r \<noteq> 0"
  proof
    assume "gr_avail r = 0"
    then have "gr_tail r = gr_head r mod length (gr_data r)" using k(1) by (simp add: ring_ok_def)
    then show False using ne assms(1) by (simp add: gr_ok_def)
  qed
  then obtain n where n: "gr_avail r = Suc n" by (cases "gr_avail r") auto
  note f = ring_fetch [OF k(1) [unfolded n]]
  show l: "length (gr_data r') = length (gr_data r)" by (simp add: r')
  show ok: "gr_ok r'"
    using assms(1) mod_length_less [OF k(2)] by (simp add: gr_ok_def r' gr_next_def)
  have "gr_avail r' = n"
    by (rule gr_avail_unique [OF ok]) (use f(2) k(2) n in \<open>auto simp: r' gr_next_def ring_ok_def\<close>)
  then show "gr_contents r = x # gr_contents r'" using f(1) n by (simp add: gr_contents_def r' x gr_next_def)
qed

interpretation gq: bounded_fifo gr_put gr_pop gr_contents "\<lambda>r. length (gr_data r) - 1" gr_ok
proof
  fix r :: "'a gring" and x :: 'a and r' :: "'a gring"
  assume ok: "gr_ok r"
  note k = gr_ring_ok [OF ok]
  show "length (gr_contents r) \<le> length (gr_data r) - 1" using k(2) by simp
  show "gr_put r x = None \<longleftrightarrow> length (gr_contents r) = length (gr_data r) - 1"
    using gr_full [OF ok] by (simp add: gr_put_def)
  show "gr_contents r' = gr_contents r @ [x]" "gr_ok r' \<and> length (gr_data r') - 1 = length (gr_data r) - 1"
    if "gr_put r x = Some r'"
    using gr_put_ok [OF ok that] by simp_all
  have "gr_avail r = 0 \<longleftrightarrow> gr_head r = gr_tail r"
  proof
    assume "gr_head r = gr_tail r"
    then show "gr_avail r = 0" using ok by (intro gr_avail_unique) (auto simp: gr_ok_def)
  next
    assume "gr_avail r = 0"
    then show "gr_head r = gr_tail r" using k(1) ok by (simp add: ring_ok_def gr_ok_def)
  qed
  then show "gr_pop r = None \<longleftrightarrow> gr_contents r = []"
    by (simp add: gr_pop_def flip: length_0_conv)
  show "gr_contents r = x # gr_contents r'" "gr_ok r' \<and> length (gr_data r') - 1 = length (gr_data r) - 1"
    if "gr_pop r = Some (x, r')"
    using gr_pop_ok [OF ok that] by simp_all
qed

lemma gr_push_ok:
  assumes "gr_ok r"
  shows "gr_ok (gr_push x r)" "length (gr_data (gr_push x r)) = length (gr_data r)"
    "gr_contents (gr_push x r) =
       (if length (gr_contents r) < length (gr_data r) - 1 then gr_contents r @ [x] else gr_contents r)"
  using gr_put_ok [OF assms, of x] gq.put_full [OF assms, of x] gq.contents_le_cap [OF assms] assms
  by (auto simp: gr_push_def split: option.split)

lemma gr_init_ok: "0 < n \<Longrightarrow> gr_ok (gr_init n z) \<and> gr_contents (gr_init n z) = [] \<and> length (gr_data (gr_init n z)) = n"
  by (simp add: gr_init_def gr_ok_def gr_contents_def gr_avail_def ring_contents_def)

section \<open>Events and devices\<close>

record input_event =
  ev_sec :: u64
  ev_usec :: u64
  ev_type :: u16
  ev_code :: u16
  ev_value :: u32

abbreviation (input) EV_SYN :: u16 where "EV_SYN \<equiv> 0"
abbreviation (input) EV_KEY :: u16 where "EV_KEY \<equiv> 1"
abbreviation (input) EV_REL :: u16 where "EV_REL \<equiv> 2"
abbreviation (input) REL_X :: u16 where "REL_X \<equiv> 0"
abbreviation (input) REL_Y :: u16 where "REL_Y \<equiv> 1"
abbreviation (input) REL_WHEEL :: u16 where "REL_WHEEL \<equiv> 8"
abbreviation (input) BTN_LEFT :: u16 where "BTN_LEFT \<equiv> 0x110"
abbreviation (input) BTN_RIGHT :: u16 where "BTN_RIGHT \<equiv> 0x111"
abbreviation (input) BTN_MIDDLE :: u16 where "BTN_MIDDLE \<equiv> 0x112"

type_synonym input_dev = "input_event gring"

text \<open>\<^verbatim>\<open>input_devs\<close>: the keyboard and the mouse.\<close>

record input_devs =
  dev_kbd :: input_dev
  dev_mouse :: input_dev

definition ev_stamp :: "u64 \<Rightarrow> u16 \<Rightarrow> u16 \<Rightarrow> u32 \<Rightarrow> input_event" where
  "ev_stamp jiffies type code value =
     \<lparr>ev_sec = jiffies div 100, ev_usec = (jiffies mod 100) * 10000, ev_type = type, ev_code = code, ev_value = value\<rparr>"

definition dev_push :: "u64 \<Rightarrow> u16 \<Rightarrow> u16 \<Rightarrow> u32 \<Rightarrow> input_dev \<Rightarrow> input_dev" where
  "dev_push jiffies type code value d = gr_push (ev_stamp jiffies type code value) d"

definition dev_pop :: "input_dev \<Rightarrow> (input_event \<times> input_dev) option" where
  "dev_pop d = gr_pop d"

definition dev_avail :: "input_dev \<Rightarrow> nat" where
  "dev_avail d = gr_avail d"

definition input_push_key :: "u64 \<Rightarrow> u16 \<Rightarrow> bool \<Rightarrow> input_devs \<Rightarrow> input_devs" where
  "input_push_key j keycode pressed ds =
     ds\<lparr>dev_kbd := dev_push j EV_SYN 0 0 (dev_push j EV_KEY keycode (if pressed then 1 else 0) (dev_kbd ds))\<rparr>"

definition input_push_rel :: "u64 \<Rightarrow> u32 \<Rightarrow> u32 \<Rightarrow> u32 \<Rightarrow> input_devs \<Rightarrow> input_devs" where
  "input_push_rel j dx dy wheel ds =
     (let d0 = dev_mouse ds;
          d1 = (if dx \<noteq> 0 then dev_push j EV_REL REL_X dx d0 else d0);
          d2 = (if dy \<noteq> 0 then dev_push j EV_REL REL_Y dy d1 else d1);
          d3 = (if wheel \<noteq> 0 then dev_push j EV_REL REL_WHEEL wheel d2 else d2)
      in ds\<lparr>dev_mouse := dev_push j EV_SYN 0 0 d3\<rparr>)"

definition input_push_btn :: "u64 \<Rightarrow> u16 \<Rightarrow> bool \<Rightarrow> input_devs \<Rightarrow> input_devs" where
  "input_push_btn j btn pressed ds =
     ds\<lparr>dev_mouse := dev_push j EV_SYN 0 0 (dev_push j EV_KEY btn (if pressed then 1 else 0) (dev_mouse ds))\<rparr>"

definition ps2_to_linux :: "u16 list" where
  "ps2_to_linux =
    [0, 1, 2, 3, 4, 5, 6, 7, 8, 9, 10, 11, 12, 13, 14, 15,
     16, 17, 18, 19, 20, 21, 22, 23, 24, 25, 26, 27, 28, 29, 30, 31,
     32, 33, 34, 35, 36, 37, 38, 39, 40, 41, 42, 43, 44, 45, 46, 47,
     48, 49, 50, 51, 52, 53, 54, 0, 56, 57, 58, 59, 60, 61, 62, 63,
     64, 65, 66, 67, 68, 0, 0, 102, 103, 104, 0, 105, 0, 106, 0, 107,
     108, 109, 110, 111, 0, 0, 0, 87, 88, 0, 0, 0, 0, 0, 0, 0,
     0, 0, 0, 0, 0, 0, 0, 0, 0, 0, 0, 0, 0, 0, 0, 0,
     0, 0, 0, 0, 0, 0, 0, 0, 0, 0, 0, 0, 0, 0, 0, 0]"

definition input_push_scancode :: "u64 \<Rightarrow> u8 \<Rightarrow> input_devs \<Rightarrow> input_devs" where
  "input_push_scancode j scancode ds =
     (let released = scancode AND 0x80 \<noteq> 0;
          linux_key = ps2_to_linux ! unat (scancode AND 0x7F)
      in if linux_key = 0 then ds else input_push_key j linux_key (\<not> released) ds)"

definition input_init :: "input_devs" where
  "input_init = (let z = \<lparr>ev_sec = 0, ev_usec = 0, ev_type = 0, ev_code = 0, ev_value = 0\<rparr>
     in \<lparr>dev_kbd = gr_init 512 z, dev_mouse = gr_init 512 z\<rparr>)"

section \<open>Reading a device\<close>

text \<open>\<^verbatim>\<open>struct input_event\<close> is packed: 24 bytes, little end first.\<close>

definition le_bytes :: "nat \<Rightarrow> 'a::len word \<Rightarrow> u8 list" where
  "le_bytes n w = map (\<lambda>i. ucast (drop_bit (8 * i) w)) [0..<n]"

definition event_bytes :: "input_event \<Rightarrow> u8 list" where
  "event_bytes ev = le_bytes 8 (ev_sec ev) @ le_bytes 8 (ev_usec ev) @ le_bytes 2 (ev_type ev) @ le_bytes 2 (ev_code ev)
     @ le_bytes 4 (ev_value ev)"

text \<open>The loop of \<^verbatim>\<open>input_fops_read\<close>: at most \<open>max_ev\<close> events, until the ring is empty.\<close>

fun pop_events :: "nat \<Rightarrow> input_dev \<Rightarrow> input_event list \<times> input_dev" where
  "pop_events 0 d = ([], d)"
| "pop_events (Suc n) d =
     (case dev_pop d of None \<Rightarrow> ([], d)
      | Some (ev, d') \<Rightarrow> (case pop_events n d' of (evs, d'') \<Rightarrow> (ev # evs, d'')))"

text \<open>A read that has to wait has no result yet: the caller is in \<^verbatim>\<open>schedule\<close>, and looks again when it is resumed.\<close>

definition input_fops_read ::
  "input_devs \<Rightarrow> int \<Rightarrow> bool \<Rightarrow> nat \<Rightarrow> (int \<times> u8 list \<times> input_devs) option" where
  "input_fops_read ds idx nonblock count =
     (if idx < 0 \<or> 2 \<le> idx then Some (- (19), [], ds)
      else
        let d = (if idx = 0 then dev_kbd ds else dev_mouse ds); max_ev = count div 24 in
        if max_ev = 0 then Some (- EINVAL, [], ds)
        else if \<not> nonblock \<and> dev_avail d = 0 then None
        else (case pop_events max_ev d of (evs, d') \<Rightarrow>
                let ds' = (if idx = 0 then ds\<lparr>dev_kbd := d'\<rparr> else ds\<lparr>dev_mouse := d'\<rparr>) in
                if nonblock \<and> evs = [] then Some (- EAGAIN, [], ds')
                else Some (int (length evs * 24), concat (map event_bytes evs), ds')))"

definition input_fops_write :: "nat \<Rightarrow> int" where
  "input_fops_write n = int n"

text \<open>\<^verbatim>\<open>input_fops_open\<close> stores the minor number, the low byte of \<^verbatim>\<open>i_rdev\<close>.\<close>

definition input_fops_open :: "u64 \<Rightarrow> int" where
  "input_fops_open i_rdev = uint (i_rdev AND 0xFF)"

end
