(* ===== verification/Keyboard.thy ===== *)
theory Keyboard
  imports Input Tty
begin

text \<open>
  \<^verbatim>\<open>drivers/keyboard/keyboard.c\<close> and \<^verbatim>\<open>drivers/mouse/mouse.c\<close>: one interrupt takes one byte from the controller. The keyboard turns
  scan codes of set 1 into key events, characters for the terminal and events of \<^verbatim>\<open>/dev/input/event0\<close>; the mouse collects
  packets of three bytes. What a callback is called with is part of the result.
\<close>

section \<open>Key codes\<close>

type_synonym keycode = nat

abbreviation (input) KEY_BACKSPACE :: keycode where "KEY_BACKSPACE \<equiv> 0x08"
abbreviation (input) KEY_TAB :: keycode where "KEY_TAB \<equiv> 0x09"
abbreviation (input) KEY_ENTER :: keycode where "KEY_ENTER \<equiv> 0x0D"
abbreviation (input) KEY_ESCAPE :: keycode where "KEY_ESCAPE \<equiv> 0x1B"
abbreviation (input) KEY_LSHIFT :: keycode where "KEY_LSHIFT \<equiv> 0x300"
abbreviation (input) KEY_RSHIFT :: keycode where "KEY_RSHIFT \<equiv> 0x301"
abbreviation (input) KEY_LCTRL :: keycode where "KEY_LCTRL \<equiv> 0x302"
abbreviation (input) KEY_RCTRL :: keycode where "KEY_RCTRL \<equiv> 0x303"
abbreviation (input) KEY_LALT :: keycode where "KEY_LALT \<equiv> 0x304"
abbreviation (input) KEY_RALT :: keycode where "KEY_RALT \<equiv> 0x305"
abbreviation (input) KEY_CAPSLOCK :: keycode where "KEY_CAPSLOCK \<equiv> 0x306"
abbreviation (input) KEY_NUMLOCK :: keycode where "KEY_NUMLOCK \<equiv> 0x307"

abbreviation (input) KEY_MOD_SHIFT :: u32 where "KEY_MOD_SHIFT \<equiv> 1"
abbreviation (input) KEY_MOD_CTRL :: u32 where "KEY_MOD_CTRL \<equiv> 2"
abbreviation (input) KEY_MOD_ALT :: u32 where "KEY_MOD_ALT \<equiv> 4"
abbreviation (input) KEY_MOD_CAPS :: u32 where "KEY_MOD_CAPS \<equiv> 8"
abbreviation (input) KEY_MOD_NUM :: u32 where "KEY_MOD_NUM \<equiv> 16"

definition sc1_normal :: "keycode list" where
  "sc1_normal =
    [0, 27, 49, 50, 51, 52, 53, 54, 55, 56, 57, 48, 45, 61,
     8, 9, 113, 119, 101, 114, 116, 121, 117, 105, 111, 112, 91, 93,
     13, 770, 97, 115, 100, 102, 103, 104, 106, 107, 108, 59, 39, 96,
     768, 92, 122, 120, 99, 118, 98, 110, 109, 44, 46, 47, 769, 42,
     772, 32, 774, 256, 257, 258, 259, 260, 261, 262, 263, 264, 265, 775,
     776, 516, 512, 518, 45, 514, 53, 515, 43, 517, 513, 519, 520, 521,
     0, 0, 0, 266, 267]"

text \<open>The extended codes that are not zero, by their index.\<close>

definition sc1_extended :: "nat \<Rightarrow> keycode" where
  "sc1_extended sc =
     (case map_of
        [(28, 13), (29, 771), (53, 47), (55, 1024), (56, 773),
         (71, 516), (72, 512), (73, 518), (75, 514), (77, 515),
         (79, 517), (80, 513), (81, 519), (82, 520), (83, 521)] sc of
        None \<Rightarrow> 0 | Some k \<Rightarrow> k)"

definition shift_map :: "nat \<Rightarrow> u8" where
  "shift_map c =
     (case map_of
        [(49, 33), (50, 64), (51, 35), (52, 36), (53, 37), (54, 94), (55, 38),
         (56, 42), (57, 40), (48, 41), (45, 95), (61, 43), (91, 123), (93, 125),
         (92, 124), (59, 58), (39, 34), (96, 126), (44, 60), (46, 62), (47, 63)] c of
        None \<Rightarrow> 0 | Some s \<Rightarrow> s)"

section \<open>State\<close>

record key_event =
  ke_keycode :: keycode
  ke_ascii :: u8
  ke_mods :: u32
  ke_pressed :: bool

record kbd =
  kb_events :: "key_event gring"
  kb_chars :: "u8 gring"
  kb_mods :: u32
  kb_ext :: bool
  kb_callback :: bool

record kbd_world =
  kw_kbd :: kbd
  kw_tty :: "tty_struct option"
  kw_input :: input_devs

definition eq_push :: "key_event \<Rightarrow> kbd \<Rightarrow> kbd" where
  "eq_push ev k = k\<lparr>kb_events := gr_push ev (kb_events k)\<rparr>"

definition cq_push :: "u8 \<Rightarrow> kbd \<Rightarrow> kbd" where
  "cq_push c k = k\<lparr>kb_chars := gr_push c (kb_chars k)\<rparr>"

section \<open>Characters\<close>

definition keycode_to_ascii :: "keycode \<Rightarrow> u32 \<Rightarrow> u8" where
  "keycode_to_ascii kc mods =
     (if kc = KEY_BACKSPACE then 8
      else if kc = KEY_TAB then 9
      else if kc = KEY_ENTER then 10
      else if kc = KEY_ESCAPE then 0x1B
      else if kc = 32 then 32
      else if kc < 128 then
        let c = of_nat kc :: u8;
            shifted = mods AND KEY_MOD_SHIFT \<noteq> 0;
            capslock = mods AND KEY_MOD_CAPS \<noteq> 0;
            c1 = (if 97 \<le> c \<and> c \<le> 122 then (if shifted \<noteq> capslock then c - 97 + 65 else c)
                  else if shifted then (if shift_map kc \<noteq> 0 then shift_map kc else c)
                  else c)
        in if mods AND KEY_MOD_CTRL \<noteq> 0 \<and> 64 \<le> c1 \<and> c1 \<le> 95 then c1 - 64 else c1
      else 0)"

section \<open>The keyboard interrupt\<close>

definition keycode_of :: "bool \<Rightarrow> nat \<Rightarrow> keycode" where
  "keycode_of ext sc =
     (if ext then (if sc < 0x80 then sc1_extended sc else 0)
      else if sc < 0x59 then sc1_normal ! sc else 0)"

definition upd_modifiers :: "keycode \<Rightarrow> bool \<Rightarrow> u32 \<Rightarrow> u32" where
  "upd_modifiers kc released m =
     (let one = (\<lambda>k1 k2 b m. if kc = k1 \<or> kc = k2 then (if released then m AND NOT b else m OR b) else m);
          m3 = one KEY_LALT KEY_RALT KEY_MOD_ALT
                 (one KEY_LCTRL KEY_RCTRL KEY_MOD_CTRL (one KEY_LSHIFT KEY_RSHIFT KEY_MOD_SHIFT m));
          m4 = (if \<not> released \<and> kc = KEY_CAPSLOCK then m3 XOR KEY_MOD_CAPS else m3)
      in if \<not> released \<and> kc = KEY_NUMLOCK then m4 XOR KEY_MOD_NUM else m4)"

text \<open>The byte read from the status port, and the one read from the data port; the first result is the event
  handed to the callback, when one is set.\<close>

definition kbd_handle_irq :: "u64 \<Rightarrow> u8 \<Rightarrow> u8 \<Rightarrow> kbd_world \<Rightarrow> key_event option \<times> kbd_world" where
  "kbd_handle_irq jiffies status scancode w =
     (let k = kw_kbd w in
      if status AND 1 = 0 then (None, w)
      else if status AND 32 \<noteq> 0 then (None, w)
      else if scancode = 0xE0 then (None, w\<lparr>kw_kbd := k\<lparr>kb_ext := True\<rparr>\<rparr>)
      else
        let released = scancode AND 0x80 \<noteq> 0;
            kc = keycode_of (kb_ext k) (unat (scancode AND 0x7F));
            k1 = k\<lparr>kb_ext := False\<rparr>
        in if kc = 0 then (None, w\<lparr>kw_kbd := k1\<rparr>)
        else
          let m = upd_modifiers kc released (kb_mods k1);
              ev = \<lparr>ke_keycode = kc, ke_ascii = (if released then 0 else keycode_to_ascii kc m),
                    ke_mods = m, ke_pressed = \<not> released\<rparr>;
              k2 = eq_push ev (k1\<lparr>kb_mods := m\<rparr>);
              w1 = w\<lparr>kw_kbd := k2\<rparr>;
              w2 = (if ke_pressed ev \<and> ke_ascii ev \<noteq> 0
                    then w1\<lparr>kw_kbd := cq_push (ke_ascii ev) k2, kw_tty := tty_keyboard_input (ke_ascii ev) (kw_tty w1)\<rparr>
                    else w1);
              w3 = w2\<lparr>kw_input := input_push_key jiffies (of_nat kc) (\<not> released) (kw_input w2)\<rparr>
          in (if kb_callback (kw_kbd w3) then Some ev else None, w3))"

definition kbd_init :: "kbd \<Rightarrow> kbd" where
  "kbd_init k = k\<lparr>kb_mods := 0, kb_ext := False, kb_events := (kb_events k)\<lparr>gr_head := 0, gr_tail := 0\<rparr>,
     kb_chars := (kb_chars k)\<lparr>gr_head := 0, gr_tail := 0\<rparr>\<rparr>"

definition kbd_event_pending :: "kbd \<Rightarrow> bool" where
  "kbd_event_pending k \<longleftrightarrow> gr_head (kb_events k) \<noteq> gr_tail (kb_events k)"

text \<open>\<open>None\<close> is the answer \<open>-1\<close>.\<close>

definition kbd_get_event :: "kbd \<Rightarrow> (key_event \<times> kbd) option" where
  "kbd_get_event k = map_option (\<lambda>(ev, r). (ev, k\<lparr>kb_events := r\<rparr>)) (gr_pop (kb_events k))"

definition kbd_getchar :: "kbd \<Rightarrow> u8 \<times> kbd" where
  "kbd_getchar k = (case gr_pop (kb_chars k) of None \<Rightarrow> (0, k) | Some (c, r) \<Rightarrow> (c, k\<lparr>kb_chars := r\<rparr>))"

definition kbd_char_pending :: "kbd \<Rightarrow> bool" where
  "kbd_char_pending k \<longleftrightarrow> gr_head (kb_chars k) \<noteq> gr_tail (kb_chars k)"

definition kbd_set_callback :: "bool \<Rightarrow> kbd \<Rightarrow> kbd" where
  "kbd_set_callback cb k = k\<lparr>kb_callback := cb\<rparr>"

definition kbd_get_modifiers :: "kbd \<Rightarrow> u32" where
  "kbd_get_modifiers k = kb_mods k"

section \<open>The mouse\<close>

record mouse_event =
  me_dx :: int
  me_dy :: int
  me_buttons :: u8
  me_x :: int
  me_y :: int

record mouse =
  ms_x :: int
  ms_y :: int
  ms_dx :: int
  ms_dy :: int
  ms_buttons :: u8
  ms_w :: int
  ms_h :: int
  ms_pkt :: "u8 list"
  ms_queue :: "mouse_event gring"
  ms_prev :: u8
  ms_callback :: bool

text \<open>The part of \<^verbatim>\<open>mouse_init\<close> that sets the state; the rest of it talks to the controller.\<close>

definition mouse_init :: "int \<Rightarrow> int \<Rightarrow> mouse \<Rightarrow> mouse" where
  "mouse_init w h m =
     m\<lparr>ms_x := w div 2, ms_y := h div 2, ms_w := w, ms_h := h, ms_buttons := 0, ms_pkt := [],
       ms_queue := (ms_queue m)\<lparr>gr_head := 0, gr_tail := 0\<rparr>\<rparr>"

text \<open>\<^verbatim>\<open>if (x < 0) x = 0; if (x >= w) x = w - 1;\<close>\<close>

definition mouse_clamp :: "int \<Rightarrow> int \<Rightarrow> int" where
  "mouse_clamp w x = (let x1 = (if x < 0 then 0 else x) in if w \<le> x1 then w - 1 else x1)"

definition mouse_packet :: "u64 \<Rightarrow> u8 \<Rightarrow> u8 \<Rightarrow> u8 \<Rightarrow> mouse \<times> input_devs \<Rightarrow> mouse_event option \<times> mouse \<times> input_devs" where
  "mouse_packet jiffies flags b1 b2 st =
     (case st of (m, ds) \<Rightarrow>
        if flags AND 0x40 \<noteq> 0 \<or> flags AND 0x80 \<noteq> 0 then (None, m, ds)
        else
          let dx = uint b1 - (if flags AND 0x10 \<noteq> 0 then 256 else 0);
              dy = - (uint b2 - (if flags AND 0x20 \<noteq> 0 then 256 else 0));
              x = mouse_clamp (ms_w m) (ms_x m + dx);
              y = mouse_clamp (ms_h m) (ms_y m + dy);
              cur = flags AND 7;
              ev = \<lparr>me_dx = dx, me_dy = dy, me_buttons = cur, me_x = x, me_y = y\<rparr>;
              m1 = m\<lparr>ms_x := x, ms_y := y, ms_dx := dx, ms_dy := dy, ms_buttons := cur,
                     ms_queue := gr_push ev (ms_queue m)\<rparr>;
              d0 = input_push_rel jiffies (word_of_int dx) (word_of_int dy) 0 ds;
              ch = cur XOR ms_prev m;
              d1 = (if ch AND 1 \<noteq> 0 then input_push_btn jiffies BTN_LEFT (cur AND 1 \<noteq> 0) d0 else d0);
              d2 = (if ch AND 2 \<noteq> 0 then input_push_btn jiffies BTN_RIGHT (cur AND 2 \<noteq> 0) d1 else d1);
              d3 = (if ch AND 4 \<noteq> 0 then input_push_btn jiffies BTN_MIDDLE (cur AND 4 \<noteq> 0) d2 else d2)
          in (if ms_callback m then Some ev else None, m1\<lparr>ms_prev := cur\<rparr>, d3))"

text \<open>\<open>ms_pkt\<close> holds the bytes of the packet so far, in the order they came: \<^verbatim>\<open>pkt\<close> up to \<^verbatim>\<open>pkt_idx\<close>.\<close>

definition mouse_handle_irq :: "u64 \<Rightarrow> u8 \<Rightarrow> u8 \<Rightarrow> mouse \<times> input_devs \<Rightarrow> mouse_event option \<times> mouse \<times> input_devs" where
  "mouse_handle_irq jiffies status byte st =
     (case st of (m, ds) \<Rightarrow>
        if status AND 1 = 0 then (None, m, ds)
        else if status AND 32 = 0 then (None, m, ds)
        else if ms_pkt m = [] \<and> byte AND 8 = 0 then (None, m, ds)
        else
          let pkt = ms_pkt m @ [byte] in
          if length pkt < 3 then (None, m\<lparr>ms_pkt := pkt\<rparr>, ds)
          else mouse_packet jiffies (pkt ! 0) (pkt ! 1) (pkt ! 2) (m\<lparr>ms_pkt := []\<rparr>, ds))"

definition mouse_event_pending :: "mouse \<Rightarrow> bool" where
  "mouse_event_pending m \<longleftrightarrow> gr_head (ms_queue m) \<noteq> gr_tail (ms_queue m)"

definition mouse_get_event :: "mouse \<Rightarrow> (mouse_event \<times> mouse) option" where
  "mouse_get_event m = map_option (\<lambda>(ev, r). (ev, m\<lparr>ms_queue := r\<rparr>)) (gr_pop (ms_queue m))"

end
