(* ===== verification/Keyboard_Correct.thy ===== *)
theory Keyboard_Correct
  imports Keyboard
begin

text \<open>
  From the keys to the reader: the scan codes a US keyboard sends for a text reach the terminal as that text, the modifiers follow the
  keys held, events are read in the order they happened, and the cursor of the mouse never leaves the screen.
\<close>

section \<open>Key strokes\<close>

text \<open>The reference decoding of a stream of scan codes: keys and whether they went down.\<close>

fun strokes :: "bool \<Rightarrow> u8 list \<Rightarrow> (keycode \<times> bool) list" where
  "strokes ext [] = []"
| "strokes ext (b # bs) =
     (if b = 0xE0 then strokes True bs
      else (let kc = keycode_of ext (unat (b AND 0x7F)) in
            (if kc = 0 then [] else [(kc, b AND 0x80 = 0)]) @ strokes False bs))"

text \<open>The interrupts of a stream of bytes from the keyboard.\<close>

definition kbd_run :: "u64 \<Rightarrow> u8 list \<Rightarrow> kbd_world \<Rightarrow> kbd_world" where
  "kbd_run j bs w = fold (\<lambda>b w. snd (kbd_handle_irq j 1 b w)) bs w"

text \<open>What one stroke does.\<close>

definition stroke_step :: "u64 \<Rightarrow> keycode \<times> bool \<Rightarrow> kbd_world \<Rightarrow> kbd_world" where
  "stroke_step j s w =
     (case s of (kc, down) \<Rightarrow>
        let m = upd_modifiers kc (\<not> down) (kb_mods (kw_kbd w));
            a = (if down then keycode_to_ascii kc m else 0);
            k = eq_push \<lparr>ke_keycode = kc, ke_ascii = a, ke_mods = m, ke_pressed = down\<rparr> ((kw_kbd w)\<lparr>kb_mods := m\<rparr>)
        in w\<lparr>kw_kbd := (if a \<noteq> 0 then cq_push a k else k),
             kw_tty := (if a \<noteq> 0 then tty_keyboard_input a (kw_tty w) else kw_tty w),
             kw_input := input_push_key j (of_nat kc) down (kw_input w)\<rparr>)"

definition clear_ext :: "kbd_world \<Rightarrow> kbd_world" where
  "clear_ext w = w\<lparr>kw_kbd := (kw_kbd w)\<lparr>kb_ext := False\<rparr>\<rparr>"

lemma irq_stroke:
  assumes "b \<noteq> 0xE0"
  shows "snd (kbd_handle_irq j 1 b w) =
    (let kc = keycode_of (kb_ext (kw_kbd w)) (unat (b AND 0x7F)) in
     if kc = 0 then clear_ext w else stroke_step j (kc, b AND 0x80 = 0) (clear_ext w))"
  using assms
  by (simp add: kbd_handle_irq_def clear_ext_def stroke_step_def eq_push_def cq_push_def Let_def)

lemma irq_prefix:
  "snd (kbd_handle_irq j 1 0xE0 w) = w\<lparr>kw_kbd := (kw_kbd w)\<lparr>kb_ext := True\<rparr>\<rparr>"
  by (simp add: kbd_handle_irq_def Let_def)

lemma stroke_ext [simp]: "kb_ext (kw_kbd (stroke_step j s w)) = kb_ext (kw_kbd w)"
  by (simp add: stroke_step_def eq_push_def cq_push_def Let_def split: prod.split)

text \<open>The driver performs the strokes of the reference decoding, in order.\<close>

lemma kbd_run_strokes:
  "clear_ext (kbd_run j bs w) = fold (stroke_step j) (strokes (kb_ext (kw_kbd w)) bs) (clear_ext w)"
proof (induction bs arbitrary: w)
  case Nil
  then show ?case by (simp add: kbd_run_def)
next
  case (Cons b bs)
  let ?w = "snd (kbd_handle_irq j 1 b w)"
  have r: "kbd_run j (b # bs) w = kbd_run j bs ?w" by (simp add: kbd_run_def)
  show ?case
  proof (cases "b = 0xE0")
    case True
    have "clear_ext ?w = clear_ext w" "kb_ext (kw_kbd ?w)" using irq_prefix True by (simp_all add: clear_ext_def)
    then show ?thesis using Cons.IH [of ?w] r True by simp
  next
    case False
    let ?kc = "keycode_of (kb_ext (kw_kbd w)) (unat (b AND 0x7F))"
    have e: "\<not> kb_ext (kw_kbd ?w)"
      using irq_stroke [OF False, of j w] by (simp add: Let_def clear_ext_def)
    have "clear_ext ?w = ?w"
      using e by (simp add: clear_ext_def)
    then show ?thesis
      using Cons.IH [of ?w] r False e irq_stroke [OF False, of j w] by (simp add: Let_def)
  qed
qed

section \<open>Modifiers\<close>

text \<open>A key is held when the last stroke of its group went down; a lock is toggled by each press.\<close>

definition held :: "keycode set \<Rightarrow> bool \<Rightarrow> (keycode \<times> bool) list \<Rightarrow> bool" where
  "held ks h ss = (case rev (filter (\<lambda>(k, d). k \<in> ks) ss) of [] \<Rightarrow> h | (k, d) # _ \<Rightarrow> d)"

definition locked :: "keycode \<Rightarrow> bool \<Rightarrow> (keycode \<times> bool) list \<Rightarrow> bool" where
  "locked k l ss \<longleftrightarrow> l \<noteq> odd (length (filter (\<lambda>s. s = (k, True)) ss))"

definition mods_follow :: "u32 \<Rightarrow> (keycode \<times> bool) list \<Rightarrow> u32 \<Rightarrow> bool" where
  "mods_follow m ss m' \<longleftrightarrow>
     (bit m' 0 \<longleftrightarrow> held {KEY_LSHIFT, KEY_RSHIFT} (bit m 0) ss) \<and>
     (bit m' 1 \<longleftrightarrow> held {KEY_LCTRL, KEY_RCTRL} (bit m 1) ss) \<and>
     (bit m' 2 \<longleftrightarrow> held {KEY_LALT, KEY_RALT} (bit m 2) ss) \<and>
     (bit m' 3 \<longleftrightarrow> locked KEY_CAPSLOCK (bit m 3) ss) \<and>
     (bit m' 4 \<longleftrightarrow> locked KEY_NUMLOCK (bit m 4) ss)"

lemma held_Cons: "held ks h ((k, d) # ss) = held ks (if k \<in> ks then d else h) ss"
  by (simp add: held_def split: list.split)

lemma locked_Cons: "locked k l (s # ss) = locked k (l \<noteq> (s = (k, True))) ss"
  by (auto simp: locked_def)

lemma bit_mods:
  "bit (1 :: u32) n \<longleftrightarrow> n = 0" "bit (2 :: u32) n \<longleftrightarrow> n = 1" "bit (4 :: u32) n \<longleftrightarrow> n = 2"
  "bit (8 :: u32) n \<longleftrightarrow> n = 3" "bit (16 :: u32) n \<longleftrightarrow> n = 4"
proof -
  have "bit ((2 :: u32) ^ k) n \<longleftrightarrow> k = n \<and> k < 32" for k
    by (auto simp: bit_exp_iff)
  from this [of 0] this [of 1] this [of 2] this [of 3] this [of 4]
  show "bit (1 :: u32) n \<longleftrightarrow> n = 0" "bit (2 :: u32) n \<longleftrightarrow> n = 1" "bit (4 :: u32) n \<longleftrightarrow> n = 2"
    "bit (8 :: u32) n \<longleftrightarrow> n = 3" "bit (16 :: u32) n \<longleftrightarrow> n = 4"
    by auto
qed

lemma upd_modifiers_bits:
  "bit (upd_modifiers k (\<not> d) m) 0 \<longleftrightarrow> (if k \<in> {KEY_LSHIFT, KEY_RSHIFT} then d else bit m 0)"
  "bit (upd_modifiers k (\<not> d) m) 1 \<longleftrightarrow> (if k \<in> {KEY_LCTRL, KEY_RCTRL} then d else bit m 1)"
  "bit (upd_modifiers k (\<not> d) m) 2 \<longleftrightarrow> (if k \<in> {KEY_LALT, KEY_RALT} then d else bit m 2)"
  "bit (upd_modifiers k (\<not> d) m) 3 \<longleftrightarrow> bit m 3 \<noteq> ((k, d) = (KEY_CAPSLOCK, True))"
  "bit (upd_modifiers k (\<not> d) m) 4 \<longleftrightarrow> bit m 4 \<noteq> ((k, d) = (KEY_NUMLOCK, True))"
  by (auto simp: upd_modifiers_def Let_def bit_simps bit_mods)

lemma fold_stroke_mods:
  "mods_follow (kb_mods (kw_kbd w)) ss (kb_mods (kw_kbd (fold (stroke_step j) ss w)))"
proof (induction ss arbitrary: w)
  case Nil
  then show ?case by (simp add: mods_follow_def held_def locked_def)
next
  case (Cons s ss)
  obtain k d where s: "s = (k, d)" by (cases s)
  have "kb_mods (kw_kbd (stroke_step j s w)) = upd_modifiers k (\<not> d) (kb_mods (kw_kbd w))"
    by (simp add: s stroke_step_def eq_push_def cq_push_def Let_def)
  then show ?case
    using Cons.IH [of "stroke_step j s w"]
    by (simp only: mods_follow_def fold.simps o_apply s held_Cons locked_Cons upd_modifiers_bits)
qed

lemma kbd_modifiers_lemma:
  "mods_follow (kb_mods (kw_kbd w)) (strokes (kb_ext (kw_kbd w)) bs) (kb_mods (kw_kbd (kbd_run j bs w)))"
proof -
  have "kb_mods (kw_kbd (kbd_run j bs w)) = kb_mods (kw_kbd (clear_ext (kbd_run j bs w)))"
    "kb_mods (kw_kbd (clear_ext w)) = kb_mods (kw_kbd w)" by (simp_all add: clear_ext_def)
  then show ?thesis
    using fold_stroke_mods [of "clear_ext w" "strokes (kb_ext (kw_kbd w)) bs" j] kbd_run_strokes [of j bs w] by simp
qed


section \<open>Typing a text\<close>

text \<open>The layout, written down independently of the tables of the driver: rows of neighbouring scan codes, without and with shift.\<close>

definition us_row :: "u8 \<Rightarrow> string \<Rightarrow> string \<Rightarrow> (u8 \<times> u8 \<times> u8) list" where
  "us_row sc lo up = map (\<lambda>i. (sc + of_nat i, of_char (lo ! i), of_char (up ! i))) [0..<length lo]"

definition us_layout :: "(u8 \<times> u8 \<times> u8) list" where
  "us_layout =
     us_row 0x02 ''1234567890-='' ''!@#$%^&*()_+'' @
     us_row 0x10 ''qwertyuiop[]'' ''QWERTYUIOP{}'' @
     us_row 0x1E ''asdfghjkl;'' ''ASDFGHJKL:'' @
     [(0x28, 39, 34), (0x29, 96, 126), (0x2B, 92, 124)] @
     us_row 0x2C ''zxcvbnm,./'' ''ZXCVBNM<>?'' @
     [(0x39, 32, 32), (0x1C, 10, 10), (0x0F, 9, 9)]"

text \<open>The bytes a keyboard sends when one types a character, with the left shift where it is needed.\<close>

definition key_bytes :: "u8 \<Rightarrow> u8 list" where
  "key_bytes c =
     (case find (\<lambda>(sc, lo, up). lo = c) us_layout of
        Some (sc, _) \<Rightarrow> [sc, sc OR 0x80]
      | None \<Rightarrow> (case find (\<lambda>(sc, lo, up). up = c) us_layout of
          Some (sc, _) \<Rightarrow> [0x2A, sc, sc OR 0x80, 0xAA]
        | None \<Rightarrow> []))"

definition typable :: "u8 \<Rightarrow> bool" where
  "typable c \<longleftrightarrow> (\<exists>(sc, lo, up) \<in> set us_layout. c = lo \<or> c = up)"

definition layout_entry_ok :: "u8 \<times> u8 \<times> u8 \<Rightarrow> bool" where
  "layout_entry_ok e \<longleftrightarrow>
     (case e of (sc, lo, up) \<Rightarrow>
        let kc = keycode_of False (unat sc) in
        sc AND 0x80 = 0 \<and> sc \<noteq> 0x60 \<and> kc \<noteq> 0 \<and> kc < 0x300 \<and> lo \<noteq> 0 \<and> up \<noteq> 0 \<and>
        keycode_to_ascii kc 0 = lo \<and> keycode_to_ascii kc 1 = up)"

lemma us_layout_ok: "list_all layout_entry_ok us_layout"
  by code_simp


lemma mods_masked:
  "m AND KEY_MOD_SHIFT \<noteq> 0 \<longleftrightarrow> bit m 0" "m AND KEY_MOD_CTRL \<noteq> 0 \<longleftrightarrow> bit m 1" "m AND KEY_MOD_CAPS \<noteq> 0 \<longleftrightarrow> bit m 3"
proof -
  have "m AND 2 ^ k \<noteq> 0 \<longleftrightarrow> bit m k" for m :: u32 and k
    by (simp add: bit_iff_and_push_bit_not_eq_0)
  from this [of m 0] this [of m 1] this [of m 3]
  show "m AND KEY_MOD_SHIFT \<noteq> 0 \<longleftrightarrow> bit m 0" "m AND KEY_MOD_CTRL \<noteq> 0 \<longleftrightarrow> bit m 1" "m AND KEY_MOD_CAPS \<noteq> 0 \<longleftrightarrow> bit m 3"
    by simp_all
qed

lemma keycode_to_ascii_cong:
  assumes "bit m 0 = bit m' 0" "bit m 1 = bit m' 1" "bit m 3 = bit m' 3"
  shows "keycode_to_ascii kc m = keycode_to_ascii kc m'"
  unfolding keycode_to_ascii_def mods_masked assms ..

lemma upd_modifiers_other:
  assumes "kc < 0x300"
  shows "upd_modifiers kc r m = m"
  using assms by (simp add: upd_modifiers_def Let_def)

text \<open>One key with a character goes down and up again.\<close>

definition plain_mods :: "u32 \<Rightarrow> bool" where
  "plain_mods m \<longleftrightarrow> \<not> bit m 0 \<and> \<not> bit m 1 \<and> \<not> bit m 3"

lemma key_press_release:
  assumes "layout_entry_ok (sc, lo, up)" "\<not> kb_ext (kw_kbd w)"
    and "\<not> bit (kb_mods (kw_kbd w)) 1" "\<not> bit (kb_mods (kw_kbd w)) 3"
  shows "kw_tty (kbd_run j [sc, sc OR 0x80] w) =
      tty_keyboard_input (if bit (kb_mods (kw_kbd w)) 0 then up else lo) (kw_tty w)"
    and "kb_mods (kw_kbd (kbd_run j [sc, sc OR 0x80] w)) = kb_mods (kw_kbd w)"
    and "\<not> kb_ext (kw_kbd (kbd_run j [sc, sc OR 0x80] w))"
proof -
  let ?kc = "keycode_of False (unat sc)" and ?m = "kb_mods (kw_kbd w)"
  have t: "sc AND 0x80 = 0" "sc \<noteq> 0x60" "?kc \<noteq> 0" "?kc < 0x300" "lo \<noteq> 0" "up \<noteq> 0"
    "keycode_to_ascii ?kc 0 = lo" "keycode_to_ascii ?kc 1 = up"
    using assms(1) by (auto simp: layout_entry_ok_def Let_def)
  have a: "sc AND 0x7F = sc"
  proof -
    have "(0x7F OR 0x80 :: u8) = - 1" by code_simp
    then have "sc = sc AND (0x7F OR 0x80)" by (simp only: and.right_neutral)
    also have "\<dots> = sc AND 0x7F OR sc AND 0x80" by (rule bit.conj_disj_distrib)
    finally show ?thesis using t(1) by simp
  qed
  have b: "(sc OR 0x80) AND 0x7F = sc" "(sc OR 0x80) AND 0x80 = 0x80"
    using a t(1) by (simp_all add: bit.conj_disj_distrib2)
  have "sc \<noteq> 0xE0" using t(1) by auto
  moreover have "sc OR 0x80 \<noteq> 0xE0"
  proof
    assume "sc OR 0x80 = 0xE0"
    then have "sc = 0xE0 AND 0x7F" using b(1) by simp
    then show False using t(2) by simp
  qed
  moreover have asc: "keycode_to_ascii ?kc ?m = (if bit ?m 0 then up else lo)"
    using keycode_to_ascii_cong [of ?m 0 ?kc] keycode_to_ascii_cong [of ?m 1 ?kc] assms(3,4) t(7,8)
    by (auto simp: bit_mods(1))
  have nz: "keycode_to_ascii ?kc ?m \<noteq> 0" using asc t(5,6) by simp
  let ?w1 = "stroke_step j (?kc, True) (clear_ext w)"
  have "snd (kbd_handle_irq j 1 sc w) = ?w1"
    using irq_stroke [of sc j w] \<open>sc \<noteq> 0xE0\<close> a t(1,3) assms(2) by (simp add: Let_def)
  moreover have w1: "kw_tty ?w1 = tty_keyboard_input (if bit ?m 0 then up else lo) (kw_tty w)"
    "kb_mods (kw_kbd ?w1) = ?m" "\<not> kb_ext (kw_kbd ?w1)"
    using nz asc upd_modifiers_other [OF t(4)]
    by (simp_all add: stroke_step_def Let_def clear_ext_def eq_push_def cq_push_def)
  moreover have "snd (kbd_handle_irq j 1 (sc OR 0x80) ?w1) = stroke_step j (?kc, False) (clear_ext ?w1)"
    using irq_stroke [of "sc OR 0x80" j ?w1] \<open>sc OR 0x80 \<noteq> 0xE0\<close> b t(3) w1(3) by (simp add: Let_def)
  ultimately show "kw_tty (kbd_run j [sc, sc OR 0x80] w) =
      tty_keyboard_input (if bit ?m 0 then up else lo) (kw_tty w)"
    "kb_mods (kw_kbd (kbd_run j [sc, sc OR 0x80] w)) = ?m"
    "\<not> kb_ext (kw_kbd (kbd_run j [sc, sc OR 0x80] w))"
    using upd_modifiers_other [OF t(4)]
    by (simp_all add: kbd_run_def stroke_step_def Let_def clear_ext_def eq_push_def cq_push_def)
qed

lemma shift_key:
  assumes "\<not> kb_ext (kw_kbd w)"
  shows "kw_tty (kbd_run j [0x2A] w) = kw_tty w" "\<not> kb_ext (kw_kbd (kbd_run j [0x2A] w))"
    "kb_mods (kw_kbd (kbd_run j [0x2A] w)) = kb_mods (kw_kbd w) OR 1"
    "kw_tty (kbd_run j [0xAA] w) = kw_tty w" "\<not> kb_ext (kw_kbd (kbd_run j [0xAA] w))"
    "kb_mods (kw_kbd (kbd_run j [0xAA] w)) = kb_mods (kw_kbd w) AND NOT 1"
  using assms irq_stroke [of "0x2A" j w] irq_stroke [of "0xAA" j w]
  by (simp_all add: kbd_run_def keycode_of_def sc1_normal_def stroke_step_def clear_ext_def Let_def upd_modifiers_def
      keycode_to_ascii_def eq_push_def)

lemma kbd_run_append: "kbd_run j (as @ bs) w = kbd_run j bs (kbd_run j as w)"
  by (simp add: kbd_run_def)

lemma type_char:
  assumes "typable c" "\<not> kb_ext (kw_kbd w)" "plain_mods (kb_mods (kw_kbd w))"
  shows "kw_tty (kbd_run j (key_bytes c) w) = tty_keyboard_input c (kw_tty w) \<and>
    \<not> kb_ext (kw_kbd (kbd_run j (key_bytes c) w)) \<and> plain_mods (kb_mods (kw_kbd (kbd_run j (key_bytes c) w)))"
proof (cases "find (\<lambda>(sc, lo, up). lo = c) us_layout")
  case (Some e)
  obtain sc lo up where e: "e = (sc, lo, up)" by (cases e)
  have "(sc, lo, up) \<in> set us_layout" "lo = c"
    using Some by (auto simp: find_Some_iff e in_set_conv_nth)
  moreover from this have "layout_entry_ok (sc, lo, up)" using us_layout_ok by (auto simp: list_all_iff)
  moreover have "key_bytes c = [sc, sc OR 0x80]" using Some by (simp add: key_bytes_def e)
  ultimately show ?thesis using key_press_release [of sc lo up w j] assms by (simp add: plain_mods_def)
next
  case None
  then have "\<exists>sc lo up. (sc, lo, up) \<in> set us_layout \<and> c = up"
    using assms(1) by (auto simp: typable_def find_None_iff)
  then obtain e where f: "find (\<lambda>(sc, lo, up). up = c) us_layout = Some e"
    by (cases "find (\<lambda>(sc, lo, up). up = c) us_layout") (auto simp: find_None_iff)
  obtain sc lo up where e: "e = (sc, lo, up)" by (cases e)
  have up: "(sc, lo, up) \<in> set us_layout" "up = c" using f by (auto simp: find_Some_iff e in_set_conv_nth)
  then have ok: "layout_entry_ok (sc, lo, up)" using us_layout_ok by (auto simp: list_all_iff)
  let ?w1 = "kbd_run j [0x2A] w"
  let ?w2 = "kbd_run j [sc, sc OR 0x80] ?w1"
  note s1 = shift_key(1-3) [OF assms(2), of j]
  have m1: "bit (kb_mods (kw_kbd ?w1)) 0" "\<not> bit (kb_mods (kw_kbd ?w1)) 1" "\<not> bit (kb_mods (kw_kbd ?w1)) 3"
    using assms(3) s1(3) by (simp_all add: plain_mods_def bit_or_iff bit_mods)
  note p = key_press_release [OF ok s1(2) m1(2,3), of j]
  note s2 = shift_key(4-6) [OF p(3), of j]
  have "key_bytes c = [0x2A] @ [sc, sc OR 0x80] @ [0xAA]" using None f by (simp add: key_bytes_def e)
  then have "kbd_run j (key_bytes c) w = kbd_run j [0xAA] ?w2" by (simp only: kbd_run_append)
  then show ?thesis
    using s2 p s1 m1 up(2) by (simp add: plain_mods_def bit_simps bit_mods)
qed

lemma type_text:
  assumes "\<forall>c\<in>set cs. typable c" "\<not> kb_ext (kw_kbd w)" "plain_mods (kb_mods (kw_kbd w))"
  shows "kw_tty (kbd_run j (concat (map key_bytes cs)) w) = map_option (fold tty_receive_char cs) (kw_tty w)"
  using assms
proof (induction cs arbitrary: w)
  case Nil
  then show ?case by (simp add: kbd_run_def option.map_ident)
next
  case (Cons c cs)
  have "typable c" using Cons.prems(1) by simp
  from type_char [OF this Cons.prems(2,3), of j] Cons.IH [of "kbd_run j (key_bytes c) w"] Cons.prems(1)
  show ?case by (simp add: kbd_run_append tty_keyboard_input_def option.map_comp comp_def)
qed


section \<open>The mouse\<close>

definition mouse_inv :: "mouse \<Rightarrow> bool" where
  "mouse_inv m \<longleftrightarrow> 0 \<le> ms_x m \<and> ms_x m < ms_w m \<and> 0 \<le> ms_y m \<and> ms_y m < ms_h m \<and> length (ms_pkt m) < 3 \<and>
     (ms_pkt m \<noteq> [] \<longrightarrow> hd (ms_pkt m) AND 8 \<noteq> 0)"

lemma mouse_clamp_range: "0 < w \<Longrightarrow> 0 \<le> mouse_clamp w x \<and> mouse_clamp w x < w"
  by (simp add: mouse_clamp_def Let_def)

lemma mouse_packet_inv:
  assumes "mouse_inv m"
  shows "mouse_inv (fst (snd (mouse_packet j f b1 b2 (m, ds)))) \<and> ms_w (fst (snd (mouse_packet j f b1 b2 (m, ds)))) = ms_w m
    \<and> ms_h (fst (snd (mouse_packet j f b1 b2 (m, ds)))) = ms_h m"
proof -
  have "0 < ms_w m" "0 < ms_h m" using assms by (auto simp: mouse_inv_def)
  then show ?thesis
    using assms mouse_clamp_range [of "ms_w m"] mouse_clamp_range [of "ms_h m"]
    by (simp add: mouse_packet_def mouse_inv_def Let_def)
qed

lemma mouse_irq_inv:
  assumes "mouse_inv m"
  shows "mouse_inv (fst (snd (mouse_handle_irq j st b (m, ds)))) \<and>
    ms_w (fst (snd (mouse_handle_irq j st b (m, ds)))) = ms_w m \<and> ms_h (fst (snd (mouse_handle_irq j st b (m, ds)))) = ms_h m"
proof -
  let ?p = "ms_pkt m @ [b]"
  consider (skip) "st AND 1 = 0 \<or> st AND 32 = 0 \<or> (ms_pkt m = [] \<and> b AND 8 = 0)"
    | (collect) "st AND 1 \<noteq> 0" "st AND 32 \<noteq> 0" "ms_pkt m = [] \<longrightarrow> b AND 8 \<noteq> 0" "length ?p < 3"
    | (packet) "st AND 1 \<noteq> 0" "st AND 32 \<noteq> 0" "ms_pkt m = [] \<longrightarrow> b AND 8 \<noteq> 0" "\<not> length ?p < 3"
    by blast
  then show ?thesis
  proof cases
    case collect
    then show ?thesis using assms by (cases "ms_pkt m") (auto simp: mouse_handle_irq_def mouse_inv_def Let_def)
  next
    case packet
    then have p: "mouse_handle_irq j st b (m, ds) = mouse_packet j (?p ! 0) (?p ! 1) (?p ! 2) (m\<lparr>ms_pkt := []\<rparr>, ds)"
      by (simp only: mouse_handle_irq_def Let_def prod.case if_False) auto
    have "mouse_inv (m\<lparr>ms_pkt := []\<rparr>)" using assms by (simp add: mouse_inv_def)
    from mouse_packet_inv [OF this, of j "?p ! 0" "?p ! 1" "?p ! 2" ds] show ?thesis by (simp only: p) simp
  next
    case skip
    then have "mouse_handle_irq j st b (m, ds) = (None, m, ds)" by (auto simp: mouse_handle_irq_def Let_def)
    then show ?thesis using assms by simp
  qed
qed

text \<open>A stream of interrupts: what the status and data ports held each time.\<close>

definition mouse_run :: "u64 \<Rightarrow> (u8 \<times> u8) list \<Rightarrow> mouse \<times> input_devs \<Rightarrow> mouse \<times> input_devs" where
  "mouse_run j bs st = fold (\<lambda>(s, b) st. snd (mouse_handle_irq j s b st)) bs st"

lemma mouse_run_inv:
  assumes "mouse_inv m"
  shows "mouse_inv (fst (mouse_run j bs (m, ds))) \<and> ms_w (fst (mouse_run j bs (m, ds))) = ms_w m \<and>
    ms_h (fst (mouse_run j bs (m, ds))) = ms_h m"
  using assms
proof (induction bs arbitrary: m ds)
  case (Cons x bs)
  obtain s b where x: "x = (s, b)" by (cases x)
  obtain m' ds' where st: "snd (mouse_handle_irq j s b (m, ds)) = (m', ds')" by (cases "snd (mouse_handle_irq j s b (m, ds))")
  have "mouse_run j (x # bs) (m, ds) = mouse_run j bs (m', ds')" by (simp add: mouse_run_def x st)
  then show ?case using Cons.IH [of m' ds'] mouse_irq_inv [OF Cons.prems, of j s b ds] st by simp
qed (simp add: mouse_run_def)

section \<open>Reading events\<close>

definition le_word :: "u8 list \<Rightarrow> 'a::len word" where
  "le_word bs = foldr (\<lambda>b w. ucast b OR push_bit 8 w) bs 0"

lemma bit_le_word:
  "bit (le_word bs :: 'a::len word) n \<longleftrightarrow> n < LENGTH('a) \<and> n div 8 < length bs \<and> bit (bs ! (n div 8)) (n mod 8)"
proof (induction bs arbitrary: n)
  case Nil
  then show ?case by (simp add: le_word_def)
next
  case (Cons b bs)
  have w: "le_word (b # bs) = (ucast b OR push_bit 8 (le_word bs) :: 'a word)" by (simp add: le_word_def)
  show ?case
  proof (cases "n < 8")
    case True
    then show ?thesis by (auto simp: w bit_simps)
  next
    case False
    then have "n div 8 = Suc ((n - 8) div 8)" "n mod 8 = (n - 8) mod 8"
      by (simp_all add: le_div_geq le_mod_geq)
    moreover have "\<not> bit b n" using False bit_imp_le_length [of b n] by auto
    ultimately show ?thesis using False Cons.IH [of "n - 8"] by (auto simp: w bit_simps)
  qed
qed

lemma le_bytes_roundtrip:
  fixes w :: "'a::len word"
  assumes "LENGTH('a) \<le> 8 * n"
  shows "le_word (le_bytes n w) = w"
proof (rule bit_eqI)
  fix i assume i: "possible_bit TYPE('a word) i"
  then have il: "i < LENGTH('a)" by simp
  have "i div 8 < n" using il assms by (simp add: less_mult_imp_div_less mult.commute)
  moreover have "bit (ucast (drop_bit (8 * (i div 8)) w) :: u8) (i mod 8) \<longleftrightarrow> bit w i"
    by (simp add: bit_simps)
  ultimately show "bit (le_word (le_bytes n w) :: 'a word) i = bit w i"
    using il by (simp add: bit_le_word le_bytes_def)
qed

lemma length_le_bytes [simp]: "length (le_bytes n w) = n"
  by (simp add: le_bytes_def)

text \<open>What a program that knows the layout of \<^verbatim>\<open>struct input_event\<close> finds in 24 bytes.\<close>

definition event_of_bytes :: "u8 list \<Rightarrow> input_event" where
  "event_of_bytes bs =
     \<lparr>ev_sec = le_word (take 8 bs), ev_usec = le_word (take 8 (drop 8 bs)), ev_type = le_word (take 2 (drop 16 bs)),
      ev_code = le_word (take 2 (drop 18 bs)), ev_value = le_word (take 4 (drop 20 bs))\<rparr>"

fun events_of_bytes :: "nat \<Rightarrow> u8 list \<Rightarrow> input_event list" where
  "events_of_bytes 0 bs = []"
| "events_of_bytes (Suc n) bs = event_of_bytes (take 24 bs) # events_of_bytes n (drop 24 bs)"

lemma event_roundtrip: "event_of_bytes (event_bytes ev) = ev" "length (event_bytes ev) = 24"
proof -
  have "event_of_bytes (event_bytes ev) =
      \<lparr>ev_sec = le_word (le_bytes 8 (ev_sec ev)), ev_usec = le_word (le_bytes 8 (ev_usec ev)),
       ev_type = le_word (le_bytes 2 (ev_type ev)), ev_code = le_word (le_bytes 2 (ev_code ev)),
       ev_value = le_word (le_bytes 4 (ev_value ev))\<rparr>"
    by (simp add: event_of_bytes_def event_bytes_def)
  then show "event_of_bytes (event_bytes ev) = ev" by (simp add: le_bytes_roundtrip)
qed (simp add: event_bytes_def)

lemma events_roundtrip: "events_of_bytes (length evs) (concat (map event_bytes evs)) = evs"
  by (induction evs) (simp_all add: event_roundtrip)

lemma pop_events_get: "pop_events n d = get_some gr_pop d n"
  by (induction n arbitrary: d) (auto simp: dev_pop_def split: option.splits prod.splits)

definition dev_of :: "input_devs \<Rightarrow> int \<Rightarrow> input_dev" where
  "dev_of ds idx = (if idx = 0 then dev_kbd ds else dev_mouse ds)"

lemma input_read_lemma:
  assumes "idx \<in> {0, 1}" "gr_ok (dev_of ds idx)" "gr_contents (dev_of ds idx) \<noteq> []" "24 \<le> count"
  shows "\<exists>bs ds'. input_fops_read ds idx nb count = Some (int (length bs), bs, ds') \<and>
    events_of_bytes (length bs div 24) bs = take (count div 24) (gr_contents (dev_of ds idx)) \<and>
    gr_contents (dev_of ds' idx) = drop (count div 24) (gr_contents (dev_of ds idx)) \<and> gr_ok (dev_of ds' idx)"
proof -
  obtain evs d' where p: "pop_events (count div 24) (dev_of ds idx) = (evs, d')" by fastforce
  then have g: "evs = take (count div 24) (gr_contents (dev_of ds idx))"
    "gr_contents d' = drop (count div 24) (gr_contents (dev_of ds idx))" "gr_ok d'"
    using gq.get_some_spec [OF assms(2), of "count div 24"] by (auto simp: pop_events_get)
  have c: "0 < count div 24" using assms(4) by (simp add: div_greater_zero_iff)
  then have ne: "evs \<noteq> []" using g(1) assms(3) by simp
  have "gr_avail (dev_of ds idx) \<noteq> 0" using assms(3) by (metis length_gr_contents length_0_conv)
  then have "input_fops_read ds idx nb count = Some (int (length evs * 24), concat (map event_bytes evs),
      if idx = 0 then ds\<lparr>dev_kbd := d'\<rparr> else ds\<lparr>dev_mouse := d'\<rparr>)"
    using assms(1) p c ne by (auto simp: input_fops_read_def dev_of_def dev_avail_def Let_def)
  moreover have l: "length (concat (map event_bytes evs)) = length evs * 24"
    by (induction evs) (simp_all add: event_roundtrip(2))
  ultimately show ?thesis
    using g assms(1) events_roundtrip [of evs] by (intro exI [of _ "concat (map event_bytes evs)"]) (auto simp: dev_of_def)
qed

section \<open>Properties\<close>

text \<open>C29 (a typed line reaches the reader). On a keyboard without a modifier held and an idle terminal in canonical mode, the scan
  codes of the keys of a line of at most 4094 ordinary characters, shifted ones with the left shift, and of Enter, make the
  next read of the terminal return exactly that line and its newline.\<close>

theorem typed_line_reaches_reader:
  assumes "\<not> kb_ext (kw_kbd w)" "plain_mods (kb_mods (kw_kbd w))" "kw_tty w = Some t"
    and "tty_inv t" "nl_ends (tt_termios t)" "tty_abs t = ([], [])"
    and "\<forall>c\<in>set cs. typable c \<and> ordinary (tt_termios t) c" "length cs < 4095" "length cs < n"
  shows "\<exists>t'. tty_read True n (kw_tty (kbd_run j (concat (map key_bytes (cs @ [NL]))) w)) =
    ((int (length cs) + 1, cs @ [NL]), Some t')"
proof -
  have "typable NL" by (auto simp: typable_def us_layout_def)
  then have "kw_tty (kbd_run j (concat (map key_bytes (cs @ [NL]))) w) = Some (fold tty_receive_char (cs @ [NL]) t)"
    using type_text [of "cs @ [NL]" w j] assms(1-3,7) by simp
  then show ?thesis
    using tty_line_roundtrip [OF assms(4-6) _ assms(8,9)] assms(7) by auto
qed

definition demo_kbd :: kbd_world where
  "demo_kbd = \<lparr>kw_kbd = \<lparr>kb_events = gr_init 256 \<lparr>ke_keycode = 0, ke_ascii = 0, ke_mods = 0, ke_pressed = False\<rparr>,
      kb_chars = gr_init 512 0, kb_mods = 0, kb_ext = False, kb_callback = False\<rparr>,
    kw_tty = Some demo_tty, kw_input = input_init\<rparr>"

lemma demo_typable: "\<forall>c\<in>set [108, 115, 32, 126]. typable c \<and> ordinary default_termios c"
  by (auto simp: typable_def us_layout_def us_row_def upt_conv_Cons ordinary_def special_def ends_line_def lflag_def
      default_termios_def)

theorem typed_line_reaches_reader_witness:
  "\<exists>t'. tty_read True 80 (kw_tty (kbd_run 0 (concat (map key_bytes ([108, 115, 32, 126] @ [NL]))) demo_kbd)) =
    ((5, [108, 115, 32, 126, 10]), Some t')"
  using typed_line_reaches_reader [of demo_kbd demo_tty "[108, 115, 32, 126]" 80 0] demo_termios(1) demo_typable
  by (simp add: demo_kbd_def plain_mods_def demo_tty_simps)

text \<open>\<^emph>\<open>Modifiers follow the keys.\<close> Whatever bytes the keyboard sends, prefixes and unknown codes included: afterwards shift, control and
  alt are on exactly if the last stroke of one of their two keys went down, or as before if there was none, and
  caps lock and num lock have changed with each press of their keys.\<close>

theorem kbd_modifiers_follow:
  "mods_follow (kb_mods (kw_kbd w)) (strokes (kb_ext (kw_kbd w)) bs) (kb_mods (kw_kbd (kbd_run j bs w)))"
  by (rule kbd_modifiers_lemma)

text \<open>\<^emph>\<open>The cursor stays on the screen.\<close> Whatever the controller delivers, in packets or out of step, the mouse stays within
  the screen and the packet being collected begins with a byte that can begin one.\<close>

theorem mouse_stays_on_screen:
  assumes "mouse_inv m"
  shows "mouse_inv (fst (mouse_run j bs (m, ds)))"
  using mouse_run_inv [OF assms] by blast

definition demo_mouse :: mouse where
  "demo_mouse = mouse_init 640 480 \<lparr>ms_x = 0, ms_y = 0, ms_dx = 0, ms_dy = 0, ms_buttons = 0, ms_w = 0, ms_h = 0, ms_pkt = [],
     ms_queue = gr_init 128 \<lparr>me_dx = 0, me_dy = 0, me_buttons = 0, me_x = 0, me_y = 0\<rparr>, ms_prev = 0, ms_callback = False\<rparr>"

theorem mouse_stays_on_screen_witness:
  "mouse_inv (fst (mouse_run 0 [(0x21, 0x38), (0x21, 0), (0x21, 0)] (demo_mouse, input_init)))"
  by (rule mouse_stays_on_screen) (simp add: demo_mouse_def mouse_init_def mouse_inv_def)

text \<open>\<^emph>\<open>Events are read in order.\<close> A read of a device with events returns the oldest ones, as many as fit whole, laid out as
  \<^verbatim>\<open>struct input_event\<close>; exactly these leave the queue.\<close>

theorem input_read_returns_events:
  assumes "idx \<in> {0, 1}" "gr_ok (dev_of ds idx)" "gr_contents (dev_of ds idx) \<noteq> []" "24 \<le> count"
  shows "\<exists>bs ds'. input_fops_read ds idx nb count = Some (int (length bs), bs, ds') \<and>
    events_of_bytes (length bs div 24) bs = take (count div 24) (gr_contents (dev_of ds idx)) \<and>
    gr_contents (dev_of ds' idx) = drop (count div 24) (gr_contents (dev_of ds idx)) \<and> gr_ok (dev_of ds' idx)"
  by (rule input_read_lemma [OF assms])

lemma demo_event_queue:
  "gr_ok (dev_of (input_push_key 150 30 True input_init) 0)"
  "gr_contents (dev_of (input_push_key 150 30 True input_init) 0) = [ev_stamp 150 EV_KEY 30 1, ev_stamp 150 EV_SYN 0 0]"
proof -
  let ?d = "dev_kbd input_init"
  have i: "gr_ok ?d" "gr_contents ?d = []" "length (gr_data ?d) = 512"
    by (simp_all add: input_init_def Let_def gr_init_ok)
  have d: "dev_of (input_push_key 150 30 True input_init) 0 = gr_push (ev_stamp 150 EV_SYN 0 0) (gr_push (ev_stamp 150 EV_KEY 30 1) ?d)"
    by (simp add: dev_of_def input_push_key_def dev_push_def)
  note p = gr_push_ok [OF i(1), of "ev_stamp 150 EV_KEY 30 1"]
  note q = gr_push_ok [OF p(1), of "ev_stamp 150 EV_SYN 0 0"]
  show "gr_ok (dev_of (input_push_key 150 30 True input_init) 0)" using q(1) d by simp
  show "gr_contents (dev_of (input_push_key 150 30 True input_init) 0) = [ev_stamp 150 EV_KEY 30 1, ev_stamp 150 EV_SYN 0 0]"
    unfolding d q(3) p(2,3) i(2,3) by simp
qed

theorem input_read_returns_events_witness:
  "\<exists>bs ds'. input_fops_read (input_push_key 150 30 True input_init) 0 False 30 = Some (int (length bs), bs, ds') \<and>
    events_of_bytes (length bs div 24) bs = [ev_stamp 150 EV_KEY 30 1]"
  using input_read_returns_events [of 0 "input_push_key 150 30 True input_init" 30 False] demo_event_queue by auto

section \<open>What goes wrong\<close>

text \<open>
  Control with a letter gives the letter, because the control code is computed for the upper case letters only: without shift,
  Ctrl+C is \<^verbatim>\<open>c\<close>, and the terminal never sees its interrupt character.
\<close>

lemma ctrl_letter_is_letter:
  assumes "97 \<le> kc" "kc \<le> 122"
  shows "keycode_to_ascii kc KEY_MOD_CTRL = of_nat kc"
proof -
  have "unat (of_nat kc :: u8) = kc" using assms by (simp add: unat_of_nat)
  then have "97 \<le> (of_nat kc :: u8)" "(of_nat kc :: u8) \<le> 122" "\<not> (of_nat kc :: u8) \<le> 95"
    using assms by (simp_all add: word_le_nat_alt)
  then show ?thesis using assms by (simp add: keycode_to_ascii_def Let_def)
qed

text \<open>The backspace key sends 8, and the terminal erases on 127: the key adds a character to the line.\<close>

lemma backspace_key_does_not_erase:
  "keycode_to_ascii (keycode_of False 0x0E) m = 8"
  "ed_step default_termios 8 (line, ready) = (take 4095 (line @ [8]), ready)"
  by (simp_all add: keycode_of_def sc1_normal_def keycode_to_ascii_def ed_step_def special_def ends_line_def lflag_def
      default_termios_def Let_def)

text \<open>Releasing one shift key ends shift while the other is still down.\<close>

lemma one_shift_released:
  "held {KEY_LSHIFT, KEY_RSHIFT} False [(KEY_LSHIFT, True), (KEY_RSHIFT, True), (KEY_LSHIFT, False)] = False"
  by (simp add: held_def)

text \<open>The code in the event is the key code of the driver, not the Linux one: for the key A 97 and not 30.\<close>

lemma event_code_is_not_linux:
  "keycode_of False 0x1E = 97" "ps2_to_linux ! 0x1E = 30"
  by (simp_all add: keycode_of_def sc1_normal_def ps2_to_linux_def)

end
