(* ===== verification/Hyper.thy ===== *)
theory Hyper
  imports Prelude
begin

text \<open>
  \<^verbatim>\<open>kernel/sched_hyper.c\<close>: scheduling domains, each with a policy given by a table of functions, and the hypervisor that chooses a
  domain and, in it, an entity. Domains and entities are known by their addresses; a freed or null one has no value, and
  an operation that would read it has no result. An intrusive list is the list of the entities linked into it: an entity is on
  at most one, and adding one that is already on a list, which would break both, has no result either.
\<close>

section \<open>Entities, domains, classes\<close>

record sched_entity =
  se_domain :: "nat option"
  se_task :: "nat option"
  se_vruntime :: u64
  se_deadline :: u64
  se_exec_start :: u64
  se_sum_exec :: u64
  se_time_slice :: int
  se_yield_count :: nat
  se_coop_entry :: "nat option"
  se_coop_stack :: "nat option"
  se_coop_sp :: u64
  se_switches :: nat
  se_on_rq :: bool

type_synonym ents = "nat \<Rightarrow> sched_entity option"

text \<open>
  The private data of the policies. The three structures begin with their list head, so the yield function of the cooperative
  policy, which all of them use, finds the list of each at the place of its own.
\<close>

record class_data =
  cd_queue :: "nat list"
  cd_earliest_deadline :: u64
  cd_min_vruntime :: u64
  cd_period :: u64
  cd_granularity :: u64

datatype sched_class_type = CLASS_PREEMPTIVE | CLASS_COOPERATIVE | CLASS_REALTIME | CLASS_BATCH | CLASS_IDLE | CLASS_FAIR | CLASS_CUSTOM

record sched_domain =
  dm_id :: nat
  dm_class :: sched_class_type
  dm_runqueue :: "nat list"
  dm_nr_running :: nat
  dm_curr :: "nat option"
  dm_weight :: u64
  dm_priority :: int
  dm_timeslice :: u64
  dm_timeslice_remaining :: u64
  dm_switches :: nat
  dm_preemptions :: nat
  dm_parent :: "nat option"
  dm_children :: "nat list"
  dm_data :: "class_data option"
  dm_active :: bool

text \<open>What an operation of a class works on: its domain, and the entities.\<close>

type_synonym dstate = "sched_domain \<times> ents"

record sched_class =
  sc_init :: "bool \<Rightarrow> sched_domain \<Rightarrow> sched_domain option"
  sc_enqueue :: "nat \<Rightarrow> dstate \<Rightarrow> dstate option"
  sc_dequeue :: "nat \<Rightarrow> dstate \<Rightarrow> dstate option"
  sc_yield :: "nat \<Rightarrow> dstate \<Rightarrow> dstate option"
  sc_tick :: "u64 \<Rightarrow> nat \<Rightarrow> dstate \<Rightarrow> dstate option"
  sc_pick_next :: "dstate \<Rightarrow> nat option option"
  sc_should_preempt :: "nat \<Rightarrow> dstate \<Rightarrow> bool option"

section \<open>Parts of the operations\<close>

definition upd_ent :: "nat \<Rightarrow> (sched_entity \<Rightarrow> sched_entity) \<Rightarrow> dstate \<Rightarrow> dstate option" where
  "upd_ent e f st = (case st of (d, E) \<Rightarrow> map_option (\<lambda>s. (d, E(e \<mapsto> f s))) (E e))"

text \<open>\<^verbatim>\<open>list_add_tail; se->on_rq = 1; domain->nr_running++\<close>, with the new list given.\<close>

definition link_ent :: "nat \<Rightarrow> (sched_domain \<Rightarrow> sched_domain) \<Rightarrow> dstate \<Rightarrow> dstate option" where
  "link_ent e f st =
     (case st of (d, E) \<Rightarrow>
        (case E e of None \<Rightarrow> None
         | Some s \<Rightarrow> if se_on_rq s then None
             else Some ((f d)\<lparr>dm_nr_running := dm_nr_running d + 1\<rparr>, E(e \<mapsto> s\<lparr>se_on_rq := True\<rparr>))))"

definition unlink_ent :: "nat \<Rightarrow> (sched_domain \<Rightarrow> sched_domain) \<Rightarrow> dstate \<Rightarrow> dstate option" where
  "unlink_ent e f st =
     (case st of (d, E) \<Rightarrow>
        (case E e of None \<Rightarrow> None
         | Some s \<Rightarrow> Some ((f d)\<lparr>dm_nr_running := dm_nr_running d - 1\<rparr>, E(e \<mapsto> s\<lparr>se_on_rq := False\<rparr>))))"

definition upd_data :: "(class_data \<Rightarrow> class_data) \<Rightarrow> sched_domain \<Rightarrow> sched_domain" where
  "upd_data f d = d\<lparr>dm_data := map_option f (dm_data d)\<rparr>"

definition upd_queue :: "(nat list \<Rightarrow> nat list) \<Rightarrow> sched_domain \<Rightarrow> sched_domain" where
  "upd_queue f d = upd_data (\<lambda>c. c\<lparr>cd_queue := f (cd_queue c)\<rparr>) d"

text \<open>The search for the place of an entity in a sorted list: before the first with a larger key.\<close>

fun insert_sorted :: "(nat \<Rightarrow> u64 option) \<Rightarrow> u64 \<Rightarrow> nat \<Rightarrow> nat list \<Rightarrow> nat list option" where
  "insert_sorted key v e [] = Some [e]"
| "insert_sorted key v e (x # xs) =
     (case key x of None \<Rightarrow> None
      | Some k \<Rightarrow> if v < k then Some (e # x # xs) else map_option ((#) x) (insert_sorted key v e xs))"

definition first_ent :: "ents \<Rightarrow> nat list \<Rightarrow> sched_entity option" where
  "first_ent E q = (case q of [] \<Rightarrow> None | e # _ \<Rightarrow> E e)"

section \<open>The cooperative class\<close>

definition empty_data :: class_data where
  "empty_data = \<lparr>cd_queue = [], cd_earliest_deadline = 0, cd_min_vruntime = 0, cd_period = 0, cd_granularity = 0\<rparr>"

text \<open>The answer of \<^verbatim>\<open>kmalloc\<close> is used without a test: without memory there is no result.\<close>

definition init_data :: "class_data \<Rightarrow> bool \<Rightarrow> sched_domain \<Rightarrow> sched_domain option" where
  "init_data c mem_ok d = (if mem_ok then Some (d\<lparr>dm_data := Some c\<rparr>) else None)"

definition coop_init :: "bool \<Rightarrow> sched_domain \<Rightarrow> sched_domain option" where
  "coop_init = init_data empty_data"

definition coop_enqueue :: "nat \<Rightarrow> dstate \<Rightarrow> dstate option" where
  "coop_enqueue e st = (if dm_data (fst st) = None then None else link_ent e (upd_queue (\<lambda>q. q @ [e])) st)"

definition coop_dequeue :: "nat \<Rightarrow> dstate \<Rightarrow> dstate option" where
  "coop_dequeue e st = unlink_ent e (upd_queue (removeAll e)) st"

definition coop_yield :: "nat \<Rightarrow> dstate \<Rightarrow> dstate option" where
  "coop_yield e st =
     (case st of (d, E) \<Rightarrow>
        (case E e of None \<Rightarrow> None
         | Some s \<Rightarrow>
             if se_on_rq s \<and> dm_data d = None then None
             else upd_ent e (\<lambda>s. s\<lparr>se_yield_count := se_yield_count s + 1\<rparr>)
                    (if se_on_rq s then upd_queue (\<lambda>q. removeAll e q @ [e]) d else d, E)))"

definition coop_pick_next :: "dstate \<Rightarrow> nat option option" where
  "coop_pick_next st =
     (case dm_data (fst st) of None \<Rightarrow> None
      | Some c \<Rightarrow> Some (case cd_queue c of [] \<Rightarrow> None | e # _ \<Rightarrow> Some e))"

definition coop_tick :: "u64 \<Rightarrow> nat \<Rightarrow> dstate \<Rightarrow> dstate option" where
  "coop_tick now e st = upd_ent e (\<lambda>s. s\<lparr>se_sum_exec := se_sum_exec s + 1\<rparr>) st"

definition coop_should_preempt :: "nat \<Rightarrow> dstate \<Rightarrow> bool option" where
  "coop_should_preempt e st = Some False"

definition coop_class :: sched_class where
  "coop_class = \<lparr>sc_init = coop_init, sc_enqueue = coop_enqueue, sc_dequeue = coop_dequeue, sc_yield = coop_yield,
     sc_tick = coop_tick, sc_pick_next = coop_pick_next, sc_should_preempt = coop_should_preempt\<rparr>"

section \<open>The deadline class\<close>

definition rt_init :: "bool \<Rightarrow> sched_domain \<Rightarrow> sched_domain option" where
  "rt_init = init_data (empty_data\<lparr>cd_earliest_deadline := - 1\<rparr>)"

definition rt_enqueue :: "nat \<Rightarrow> dstate \<Rightarrow> dstate option" where
  "rt_enqueue e st =
     (case st of (d, E) \<Rightarrow>
        (case (dm_data d, E e) of
           (Some c, Some s) \<Rightarrow>
             (case insert_sorted (\<lambda>x. map_option se_deadline (E x)) (se_deadline s) e (cd_queue c) of
                None \<Rightarrow> None
              | Some q \<Rightarrow>
                  link_ent e (upd_data (\<lambda>c. c\<lparr>cd_queue := q,
                     cd_earliest_deadline := (if se_deadline s < cd_earliest_deadline c then se_deadline s
                                              else cd_earliest_deadline c)\<rparr>)) st)
         | _ \<Rightarrow> None))"

definition rt_dequeue :: "nat \<Rightarrow> dstate \<Rightarrow> dstate option" where
  "rt_dequeue e st =
     (case unlink_ent e (upd_queue (removeAll e)) st of None \<Rightarrow> None
      | Some (d, E) \<Rightarrow>
          (case dm_data d of None \<Rightarrow> None
           | Some c \<Rightarrow>
               if cd_queue c = [] then Some (upd_data (\<lambda>c. c\<lparr>cd_earliest_deadline := - 1\<rparr>) d, E)
               else map_option (\<lambda>f. (upd_data (\<lambda>c. c\<lparr>cd_earliest_deadline := se_deadline f\<rparr>) d, E))
                      (first_ent E (cd_queue c))))"

definition rt_pick_next :: "dstate \<Rightarrow> nat option option" where
  "rt_pick_next = coop_pick_next"

text \<open>\<^verbatim>\<open>first != curr && first->deadline < curr->deadline\<close>\<close>

definition rt_earlier :: "nat \<Rightarrow> dstate \<Rightarrow> bool option" where
  "rt_earlier e st =
     (case st of (d, E) \<Rightarrow>
        (case dm_data d of None \<Rightarrow> None
         | Some c \<Rightarrow>
             (case cd_queue c of [] \<Rightarrow> Some False
              | x # _ \<Rightarrow> (case (E x, E e) of
                    (Some f, Some s) \<Rightarrow> Some (x \<noteq> e \<and> se_deadline f < se_deadline s)
                  | _ \<Rightarrow> None))))"

definition rt_tick :: "u64 \<Rightarrow> nat \<Rightarrow> dstate \<Rightarrow> dstate option" where
  "rt_tick now e st =
     (case upd_ent e (\<lambda>s. s\<lparr>se_sum_exec := se_sum_exec s + 1\<rparr>) st of None \<Rightarrow> None
      | Some (d, E) \<Rightarrow>
          (case rt_earlier e (d, E) of None \<Rightarrow> None
           | Some p \<Rightarrow> Some (if p then d\<lparr>dm_preemptions := dm_preemptions d + 1\<rparr> else d, E)))"

definition rt_should_preempt :: "nat \<Rightarrow> dstate \<Rightarrow> bool option" where
  "rt_should_preempt e st = rt_earlier e st"

definition rt_class :: sched_class where
  "rt_class = \<lparr>sc_init = rt_init, sc_enqueue = rt_enqueue, sc_dequeue = rt_dequeue, sc_yield = coop_yield,
     sc_tick = rt_tick, sc_pick_next = rt_pick_next, sc_should_preempt = rt_should_preempt\<rparr>"

section \<open>The fair class, and the batch class that differs in its periods\<close>

definition fair_init :: "bool \<Rightarrow> sched_domain \<Rightarrow> sched_domain option" where
  "fair_init = init_data (empty_data\<lparr>cd_period := 100, cd_granularity := 10\<rparr>)"

definition batch_init :: "bool \<Rightarrow> sched_domain \<Rightarrow> sched_domain option" where
  "batch_init mem_ok d =
     map_option (upd_data (\<lambda>c. c\<lparr>cd_period := 1000, cd_granularity := 100\<rparr>)) (fair_init mem_ok d)"

definition fair_calc_slice :: "nat \<Rightarrow> class_data \<Rightarrow> u64" where
  "fair_calc_slice nr c =
     (if nr = 0 then cd_period c
      else let slice = cd_period c div of_nat nr in if slice < cd_granularity c then cd_granularity c else slice)"

definition fair_enqueue :: "nat \<Rightarrow> dstate \<Rightarrow> dstate option" where
  "fair_enqueue e st =
     (case st of (d, E) \<Rightarrow>
        (case (dm_data d, E e) of
           (Some c, Some s0) \<Rightarrow>
             (let s = (if se_vruntime s0 = 0 then s0\<lparr>se_vruntime := cd_min_vruntime c\<rparr> else s0);
                  E1 = E(e \<mapsto> s)
              in (case insert_sorted (\<lambda>x. map_option se_vruntime (E1 x)) (se_vruntime s) e (cd_queue c) of
                    None \<Rightarrow> None
                  | Some q \<Rightarrow>
                      (case link_ent e (upd_data (\<lambda>c. c\<lparr>cd_queue := q\<rparr>)) (d, E1) of None \<Rightarrow> None
                       | Some (d2, E2) \<Rightarrow>
                           upd_ent e (\<lambda>s. s\<lparr>se_time_slice := sint (fair_calc_slice (dm_nr_running d2) c)\<rparr>) (d2, E2))))
         | _ \<Rightarrow> None))"

definition fair_dequeue :: "nat \<Rightarrow> dstate \<Rightarrow> dstate option" where
  "fair_dequeue e st =
     (case unlink_ent e (upd_queue (removeAll e)) st of None \<Rightarrow> None
      | Some (d, E) \<Rightarrow>
          (case dm_data d of None \<Rightarrow> None
           | Some c \<Rightarrow>
               if cd_queue c = [] then Some (d, E)
               else map_option (\<lambda>f. (if cd_min_vruntime c < se_vruntime f
                        then upd_data (\<lambda>c. c\<lparr>cd_min_vruntime := se_vruntime f\<rparr>) d else d, E))
                      (first_ent E (cd_queue c))))"

definition fair_pick_next :: "dstate \<Rightarrow> nat option option" where
  "fair_pick_next = coop_pick_next"

definition fair_tick :: "u64 \<Rightarrow> nat \<Rightarrow> dstate \<Rightarrow> dstate option" where
  "fair_tick now e st =
     (case upd_ent e (\<lambda>s. s\<lparr>se_vruntime := se_vruntime s + 1, se_sum_exec := se_sum_exec s + 1,
                           se_time_slice := se_time_slice s - 1\<rparr>) st of None \<Rightarrow> None
      | Some (d, E) \<Rightarrow>
          (case (dm_data d, E e) of
             (Some c, Some s) \<Rightarrow>
               if cd_min_vruntime c < se_vruntime s \<and> cd_queue c \<noteq> []
               then map_option (\<lambda>f. (upd_data (\<lambda>c. c\<lparr>cd_min_vruntime := se_vruntime f\<rparr>) d, E)) (first_ent E (cd_queue c))
               else Some (d, E)
           | _ \<Rightarrow> None))"

definition fair_should_preempt :: "nat \<Rightarrow> dstate \<Rightarrow> bool option" where
  "fair_should_preempt e st =
     (case st of (d, E) \<Rightarrow>
        (case E e of None \<Rightarrow> None
         | Some s \<Rightarrow>
             if se_time_slice s \<le> 0 then Some True
             else (case dm_data d of None \<Rightarrow> None
               | Some c \<Rightarrow>
                   (case cd_queue c of [] \<Rightarrow> Some False
                    | x # _ \<Rightarrow> (case E x of None \<Rightarrow> None
                        | Some f \<Rightarrow> Some (x \<noteq> e \<and> se_vruntime f + cd_granularity c < se_vruntime s))))))"

definition fair_class :: sched_class where
  "fair_class = \<lparr>sc_init = fair_init, sc_enqueue = fair_enqueue, sc_dequeue = fair_dequeue, sc_yield = coop_yield,
     sc_tick = fair_tick, sc_pick_next = fair_pick_next, sc_should_preempt = fair_should_preempt\<rparr>"

definition batch_class :: sched_class where
  "batch_class = fair_class\<lparr>sc_init := batch_init\<rparr>"

section \<open>The idle class\<close>

definition idle_init :: "bool \<Rightarrow> sched_domain \<Rightarrow> sched_domain option" where
  "idle_init mem_ok d = Some (d\<lparr>dm_runqueue := []\<rparr>)"

definition idle_enqueue :: "nat \<Rightarrow> dstate \<Rightarrow> dstate option" where
  "idle_enqueue e st = link_ent e (\<lambda>d. d\<lparr>dm_runqueue := dm_runqueue d @ [e]\<rparr>) st"

definition idle_dequeue :: "nat \<Rightarrow> dstate \<Rightarrow> dstate option" where
  "idle_dequeue e st = unlink_ent e (\<lambda>d. d\<lparr>dm_runqueue := removeAll e (dm_runqueue d)\<rparr>) st"

definition idle_pick_next :: "dstate \<Rightarrow> nat option option" where
  "idle_pick_next st = Some (case dm_runqueue (fst st) of [] \<Rightarrow> None | e # _ \<Rightarrow> Some e)"

definition idle_tick :: "u64 \<Rightarrow> nat \<Rightarrow> dstate \<Rightarrow> dstate option" where
  "idle_tick now e st = upd_ent e (\<lambda>s. s\<lparr>se_sum_exec := se_sum_exec s + 1\<rparr>) st"

definition idle_should_preempt :: "nat \<Rightarrow> dstate \<Rightarrow> bool option" where
  "idle_should_preempt e st = Some True"

definition idle_class :: sched_class where
  "idle_class = \<lparr>sc_init = idle_init, sc_enqueue = idle_enqueue, sc_dequeue = idle_dequeue, sc_yield = coop_yield,
     sc_tick = idle_tick, sc_pick_next = idle_pick_next, sc_should_preempt = idle_should_preempt\<rparr>"

text \<open>The classes \<^verbatim>\<open>sched_hypervisor_init\<close> registers.\<close>

definition class_of :: "sched_class_type \<Rightarrow> sched_class option" where
  "class_of t =
     (case t of CLASS_COOPERATIVE \<Rightarrow> Some coop_class | CLASS_REALTIME \<Rightarrow> Some rt_class | CLASS_FAIR \<Rightarrow> Some fair_class
      | CLASS_BATCH \<Rightarrow> Some batch_class | CLASS_IDLE \<Rightarrow> Some idle_class | _ \<Rightarrow> None)"

section \<open>The hypervisor\<close>

text \<open>
  \<open>hv_list\<close> is the part of \<^verbatim>\<open>domains\<close> in use, \<open>hv_state\<close> the \<^verbatim>\<open>state\<close> of each task, 0 being \<^verbatim>\<open>TASK_RUNNING\<close>; the
  answers of \<^verbatim>\<open>kmalloc\<close> are arguments.
\<close>

record hypervisor =
  hv_ents :: ents
  hv_doms :: "nat \<Rightarrow> sched_domain option"
  hv_list :: "nat list"
  hv_current :: "nat \<Rightarrow> nat option"
  hv_tasks :: "nat \<Rightarrow> nat option"
  hv_state :: "nat \<Rightarrow> int"
  hv_domain_switches :: nat
  hv_total_ticks :: nat
  hv_now :: u64

abbreviation (input) SCHED_MAX_DOMAINS :: nat where "SCHED_MAX_DOMAINS \<equiv> 16"

definition sched_clock :: "hypervisor \<Rightarrow> u64" where
  "sched_clock h = hv_now h"

text \<open>The class of a domain.\<close>

definition domain_class :: "sched_domain \<Rightarrow> sched_class option" where
  "domain_class d = class_of (dm_class d)"

definition put_dstate :: "nat \<Rightarrow> hypervisor \<Rightarrow> dstate \<Rightarrow> hypervisor" where
  "put_dstate a h st = h\<lparr>hv_doms := (hv_doms h)(a \<mapsto> fst st), hv_ents := snd st\<rparr>"

definition new_domain :: "nat \<Rightarrow> sched_class_type \<Rightarrow> nat option \<Rightarrow> sched_domain" where
  "new_domain i t parent =
     \<lparr>dm_id = i, dm_class = t, dm_runqueue = [], dm_nr_running = 0, dm_curr = None, dm_weight = 1024, dm_priority = 100,
      dm_timeslice = 100, dm_timeslice_remaining = 100, dm_switches = 0, dm_preemptions = 0, dm_parent = parent,
      dm_children = [], dm_data = None, dm_active = True\<rparr>"

definition sched_domain_create ::
  "nat option \<Rightarrow> bool \<Rightarrow> sched_class_type \<Rightarrow> nat option \<Rightarrow> hypervisor \<Rightarrow> (nat option \<times> hypervisor) option" where
  "sched_domain_create mem data_ok t parent h =
     (if SCHED_MAX_DOMAINS \<le> length (hv_list h) then Some (None, h)
      else (case class_of t of None \<Rightarrow> Some (None, h)
        | Some C \<Rightarrow>
            (case mem of None \<Rightarrow> Some (None, h)
             | Some a \<Rightarrow>
                 (case sc_init C data_ok (new_domain (length (hv_list h)) t parent) of None \<Rightarrow> None
                  | Some d \<Rightarrow>
                      let h1 = h\<lparr>hv_doms := (hv_doms h)(a \<mapsto> d)\<rparr> in
                      (case parent of
                         None \<Rightarrow> Some (Some a, h1\<lparr>hv_list := hv_list h1 @ [a]\<rparr>)
                       | Some p \<Rightarrow>
                           (case hv_doms h1 p of None \<Rightarrow> None
                            | Some pd \<Rightarrow>
                                Some (Some a, h1\<lparr>hv_doms := (hv_doms h1)(p \<mapsto> pd\<lparr>dm_children := dm_children pd @ [a]\<rparr>),
                                                 hv_list := hv_list h1 @ [a]\<rparr>)))))))"

text \<open>The last domain takes the place of the one removed.\<close>

fun index_of :: "nat \<Rightarrow> nat list \<Rightarrow> nat option" where
  "index_of a [] = None"
| "index_of a (x # xs) = (if x = a then Some 0 else map_option Suc (index_of a xs))"

definition swap_remove :: "nat \<Rightarrow> nat list \<Rightarrow> nat list" where
  "swap_remove a xs = (case index_of a xs of None \<Rightarrow> xs | Some i \<Rightarrow> butlast (xs[i := last xs]))"

definition sched_domain_destroy :: "nat option \<Rightarrow> hypervisor \<Rightarrow> hypervisor option" where
  "sched_domain_destroy da h =
     (case da of None \<Rightarrow> Some h
      | Some a \<Rightarrow>
          (case hv_doms h a of None \<Rightarrow> None
           | Some d \<Rightarrow>
               (case (case dm_parent d of
                        None \<Rightarrow> Some (hv_doms h)
                      | Some p \<Rightarrow> map_option (\<lambda>pd. (hv_doms h)(p \<mapsto> pd\<lparr>dm_children := removeAll a (dm_children pd)\<rparr>))
                                    (hv_doms h p)) of
                  None \<Rightarrow> None
                | Some D \<Rightarrow> Some (h\<lparr>hv_doms := D(a := None), hv_list := swap_remove a (hv_list h)\<rparr>))))"

definition new_entity :: "nat option \<Rightarrow> sched_entity" where
  "new_entity task =
     \<lparr>se_domain = None, se_task = task, se_vruntime = 0, se_deadline = 0, se_exec_start = 0, se_sum_exec = 0,
      se_time_slice = 100, se_yield_count = 0, se_coop_entry = None, se_coop_stack = None, se_coop_sp = 0, se_switches = 0,
      se_on_rq = False\<rparr>"

definition sched_entity_create :: "nat option \<Rightarrow> nat option \<Rightarrow> hypervisor \<Rightarrow> nat option \<times> hypervisor" where
  "sched_entity_create mem task h =
     (case mem of None \<Rightarrow> (None, h) | Some e \<Rightarrow> (Some e, h\<lparr>hv_ents := (hv_ents h)(e \<mapsto> new_entity task)\<rparr>))"

definition with_class ::
  "nat \<Rightarrow> hypervisor \<Rightarrow> (sched_class \<Rightarrow> dstate \<Rightarrow> dstate option) \<Rightarrow> hypervisor option" where
  "with_class a h f =
     (case hv_doms h a of None \<Rightarrow> None
      | Some d \<Rightarrow>
          (case domain_class d of None \<Rightarrow> None
           | Some C \<Rightarrow> map_option (put_dstate a h) (f C (d, hv_ents h))))"

definition sched_entity_destroy :: "nat \<Rightarrow> hypervisor \<Rightarrow> hypervisor option" where
  "sched_entity_destroy e h =
     (case hv_ents h e of None \<Rightarrow> None
      | Some s \<Rightarrow>
          (case (case se_domain s of
                   Some a \<Rightarrow> if se_on_rq s then with_class a h (\<lambda>C. sc_dequeue C e) else Some h
                 | None \<Rightarrow> Some h) of
             None \<Rightarrow> None
           | Some h1 \<Rightarrow> Some (h1\<lparr>hv_ents := (hv_ents h1)(e := None)\<rparr>)))"

definition sched_entity_attach :: "nat option \<Rightarrow> nat option \<Rightarrow> hypervisor \<Rightarrow> (int \<times> hypervisor) option" where
  "sched_entity_attach ent da h =
     (case (ent, da) of
        (Some e, Some a) \<Rightarrow>
          (case hv_ents h e of None \<Rightarrow> None
           | Some s \<Rightarrow>
               map_option (Pair 0)
                 (with_class a (h\<lparr>hv_ents := (hv_ents h)(e \<mapsto> s\<lparr>se_domain := Some a\<rparr>)\<rparr>) (\<lambda>C. sc_enqueue C e)))
      | _ \<Rightarrow> Some (- EINVAL, h))"

definition sched_entity_detach :: "nat option \<Rightarrow> hypervisor \<Rightarrow> hypervisor option" where
  "sched_entity_detach ent h =
     (case ent of None \<Rightarrow> Some h
      | Some e \<Rightarrow>
          (case hv_ents h e of None \<Rightarrow> None
           | Some s \<Rightarrow>
               (case se_domain s of None \<Rightarrow> Some h
                | Some a \<Rightarrow>
                    (case (if se_on_rq s then with_class a h (\<lambda>C. sc_dequeue C e)
                           else if hv_doms h a = None then None else Some h) of
                       None \<Rightarrow> None
                     | Some h1 \<Rightarrow> map_option (\<lambda>(_, E). h1\<lparr>hv_ents := E\<rparr>)
                         (upd_ent e (\<lambda>s. s\<lparr>se_domain := None\<rparr>) (the (hv_doms h1 a), hv_ents h1))))))"

fun pick_domain_from :: "(nat \<Rightarrow> sched_domain option) \<Rightarrow> nat list \<Rightarrow> nat option \<Rightarrow> int \<Rightarrow> nat option option" where
  "pick_domain_from D [] best p = Some best"
| "pick_domain_from D (a # as) best p =
     (case D a of None \<Rightarrow> None
      | Some d \<Rightarrow> if dm_active d \<and> 0 < dm_nr_running d \<and> dm_priority d < p
                   then pick_domain_from D as (Some a) (dm_priority d)
                   else pick_domain_from D as best p)"

text \<open>The outer \<open>None\<close>: a domain in the table was freed.\<close>

definition hypervisor_pick_domain :: "hypervisor \<Rightarrow> nat option option" where
  "hypervisor_pick_domain h = pick_domain_from (hv_doms h) (hv_list h) None 999"

section \<open>Scheduling\<close>

text \<open>\<^verbatim>\<open>sched_hypervisor_schedule\<close> in a domain: the previous entity goes back to the queue, and the next one is picked. The last
  result is the entity switched to, when there is a switch.\<close>

definition requeue_current :: "sched_class \<Rightarrow> (nat \<Rightarrow> int) \<Rightarrow> dstate \<Rightarrow> dstate option" where
  "requeue_current C tstate st =
     (case dm_curr (fst st) of None \<Rightarrow> Some st
      | Some p \<Rightarrow>
          (case snd st p of None \<Rightarrow> None
           | Some s \<Rightarrow>
               (case se_task s of None \<Rightarrow> Some st
                | Some t \<Rightarrow>
                    if tstate t = 0
                    then Option.bind (if se_on_rq s then Some st else sc_enqueue C p st)
                           (upd_ent p (\<lambda>s. s\<lparr>se_time_slice := 100\<rparr>))
                    else Some st)))"

definition set_curr :: "nat option \<Rightarrow> dstate \<Rightarrow> dstate" where
  "set_curr e st = ((fst st)\<lparr>dm_curr := e\<rparr>, snd st)"

definition switch_to :: "sched_class \<Rightarrow> u64 \<Rightarrow> nat \<Rightarrow> dstate \<Rightarrow> dstate option" where
  "switch_to C now n st =
     (case snd st n of None \<Rightarrow> None
      | Some s \<Rightarrow>
          Option.bind (if se_on_rq s then sc_dequeue C n st else Some st)
            (\<lambda>(d, E). upd_ent n (\<lambda>s. s\<lparr>se_exec_start := now, se_switches := se_switches s + 1\<rparr>)
                         (d\<lparr>dm_curr := Some n, dm_switches := dm_switches d + 1\<rparr>, E)))"

definition schedule_in :: "sched_class \<Rightarrow> u64 \<Rightarrow> (nat \<Rightarrow> int) \<Rightarrow> dstate \<Rightarrow> (dstate \<times> nat option) option" where
  "schedule_in C now tstate st =
     (case requeue_current C tstate st of None \<Rightarrow> None
      | Some st1 \<Rightarrow>
          (case sc_pick_next C st1 of None \<Rightarrow> None
           | Some None \<Rightarrow> Some (set_curr None st1, None)
           | Some (Some n) \<Rightarrow>
               if Some n \<noteq> dm_curr (fst st) then map_option (\<lambda>st2. (st2, Some n)) (switch_to C now n st1)
               else Some (set_curr (Some n) st1, None)))"

text \<open>The second result: the two tasks \<^verbatim>\<open>context_switch\<close> is called with.\<close>

definition sched_hypervisor_schedule :: "nat \<Rightarrow> hypervisor \<Rightarrow> (hypervisor \<times> (nat \<times> nat) option) option" where
  "sched_hypervisor_schedule cpu h =
     (case (case hv_current h cpu of Some a \<Rightarrow> Some (Some a) | None \<Rightarrow> hypervisor_pick_domain h) of
        None \<Rightarrow> None
      | Some None \<Rightarrow> Some (h, None)
      | Some (Some a) \<Rightarrow>
          let h1 = h\<lparr>hv_current := (hv_current h)(cpu := Some a)\<rparr> in
          (case hv_doms h1 a of None \<Rightarrow> None
           | Some d \<Rightarrow>
               (case domain_class d of None \<Rightarrow> None
                | Some C \<Rightarrow>
                    (case schedule_in C (sched_clock h1) (hv_state h1) (d, hv_ents h1) of
                       None \<Rightarrow> None
                     | Some (st, None) \<Rightarrow> Some (put_dstate a h1 st, None)
                     | Some (st, Some n) \<Rightarrow>
                         let nt = Option.bind (snd st n) se_task;
                             pt = Option.bind (dm_curr d) (\<lambda>p. Option.bind (snd st p) se_task);
                             h2 = put_dstate a h1 st;
                             h3 = (case nt of None \<Rightarrow> h2 | Some t \<Rightarrow> h2\<lparr>hv_tasks := (hv_tasks h2)(cpu := Some t)\<rparr>)
                         in Some (h3, (case (pt, nt) of (Some x, Some y) \<Rightarrow> Some (x, y) | _ \<Rightarrow> None))))))"

definition sched_hypervisor_yield :: "nat \<Rightarrow> hypervisor \<Rightarrow> (hypervisor \<times> (nat \<times> nat) option) option" where
  "sched_hypervisor_yield cpu h =
     (case hv_current h cpu of None \<Rightarrow> Some (h, None)
      | Some a \<Rightarrow>
          (case hv_doms h a of None \<Rightarrow> None
           | Some d \<Rightarrow>
               (case dm_curr d of None \<Rightarrow> Some (h, None)
                | Some e \<Rightarrow> Option.bind (with_class a h (\<lambda>C. sc_yield C e)) (sched_hypervisor_schedule cpu))))"

text \<open>The class operations of one tick: whether the domain and whether the entity is to be switched.\<close>

definition tick_domain :: "sched_class \<Rightarrow> u64 \<Rightarrow> dstate \<Rightarrow> (dstate \<times> bool \<times> bool) option" where
  "tick_domain C now st =
     Option.bind (case dm_curr (fst st) of None \<Rightarrow> Some st | Some e \<Rightarrow> sc_tick C now e st)
       (\<lambda>(d, E).
          let r = dm_timeslice_remaining d - 1;
              sw = r = 0;
              d1 = d\<lparr>dm_timeslice_remaining := (if sw then dm_timeslice d else r)\<rparr>
          in Option.bind (case dm_curr d1 of None \<Rightarrow> Some False | Some e \<Rightarrow> sc_should_preempt C e (d1, E))
               (\<lambda>p. Some ((d1, E), sw, p)))"

definition sched_hypervisor_tick :: "nat \<Rightarrow> hypervisor \<Rightarrow> (hypervisor \<times> (nat \<times> nat) option) option" where
  "sched_hypervisor_tick cpu h0 =
     (let h = h0\<lparr>hv_now := hv_now h0 + 1, hv_total_ticks := hv_total_ticks h0 + 1\<rparr> in
      case hv_current h cpu of
        None \<Rightarrow>
          (case hypervisor_pick_domain h of None \<Rightarrow> None
           | Some None \<Rightarrow> Some (h, None)
           | Some (Some a) \<Rightarrow>
               Some (h\<lparr>hv_current := (hv_current h)(cpu := Some a), hv_domain_switches := hv_domain_switches h + 1\<rparr>, None))
      | Some a \<Rightarrow>
          (case hv_doms h a of None \<Rightarrow> None
           | Some d \<Rightarrow>
               (case domain_class d of None \<Rightarrow> None
                | Some C \<Rightarrow>
                    (case tick_domain C (sched_clock h) (d, hv_ents h) of None \<Rightarrow> None
                     | Some (st, dsw, esw) \<Rightarrow>
                         let h1 = put_dstate a h st in
                         (case (if dsw then hypervisor_pick_domain h1 else Some None) of
                            None \<Rightarrow> None
                          | Some nd \<Rightarrow>
                              let h2 = (case nd of
                                    Some b \<Rightarrow> if b \<noteq> a then h1\<lparr>hv_current := (hv_current h1)(cpu := Some b),
                                                                   hv_domain_switches := hv_domain_switches h1 + 1\<rparr> else h1
                                  | None \<Rightarrow> h1)
                              in if esw then sched_hypervisor_schedule cpu h2 else Some (h2, None))))))"

section \<open>Fibers and start\<close>

definition sched_create_fiber_domain :: "nat option \<Rightarrow> bool \<Rightarrow> hypervisor \<Rightarrow> (nat option \<times> hypervisor) option" where
  "sched_create_fiber_domain mem data_ok h = sched_domain_create mem data_ok CLASS_COOPERATIVE None h"

text \<open>The answer of \<^verbatim>\<open>sched_entity_attach\<close> is not looked at.\<close>

definition sched_create_fiber ::
  "nat option \<Rightarrow> nat option \<Rightarrow> nat option \<Rightarrow> nat \<Rightarrow> hypervisor \<Rightarrow> (nat option \<times> hypervisor) option" where
  "sched_create_fiber mem stack da entry h =
     (case sched_entity_create mem None h of
        (None, h1) \<Rightarrow> Some (None, h1)
      | (Some e, h1) \<Rightarrow>
          (case stack of None \<Rightarrow> Some (None, h1\<lparr>hv_ents := (hv_ents h1)(e := None)\<rparr>)
           | Some sp \<Rightarrow>
               let h2 = h1\<lparr>hv_ents := (hv_ents h1)(e \<mapsto> (new_entity None)
                     \<lparr>se_coop_entry := Some entry, se_coop_stack := Some sp, se_coop_sp := of_nat sp + 8192 - 8\<rparr>)\<rparr>
               in map_option (\<lambda>(_, h3). (Some e, h3)) (sched_entity_attach (Some e) da h2)))"

definition sched_fiber_yield :: "nat \<Rightarrow> hypervisor \<Rightarrow> (hypervisor \<times> (nat \<times> nat) option) option" where
  "sched_fiber_yield cpu h = sched_hypervisor_yield cpu h"

definition hyper_zero :: hypervisor where
  "hyper_zero = \<lparr>hv_ents = \<lambda>_. None, hv_doms = \<lambda>_. None, hv_list = [], hv_current = \<lambda>_. None, hv_tasks = \<lambda>_. None,
     hv_state = \<lambda>_. 0, hv_domain_switches = 0, hv_total_ticks = 0, hv_now = 0\<rparr>"

definition set_dom_priority :: "int \<Rightarrow> nat \<Rightarrow> hypervisor \<Rightarrow> hypervisor option" where
  "set_dom_priority p i h =
     (if length (hv_list h) \<le> i then None
      else map_option (\<lambda>d. h\<lparr>hv_doms := (hv_doms h)(hv_list h ! i \<mapsto> d\<lparr>dm_priority := p\<rparr>)\<rparr>) (hv_doms h (hv_list h ! i)))"

text \<open>The four domains of the start; the addresses and the answers for their data are arguments. \<^verbatim>\<open>domains[i]\<close> is null
  when a domain could not be created.\<close>

definition sched_hypervisor_init :: "(nat \<Rightarrow> nat option) \<Rightarrow> (nat \<Rightarrow> bool) \<Rightarrow> hypervisor option" where
  "sched_hypervisor_init mem ok =
     Option.bind (sched_domain_create (mem 0) (ok 0) CLASS_REALTIME None hyper_zero) (\<lambda>(_, h1).
     Option.bind (sched_domain_create (mem 1) (ok 1) CLASS_FAIR None h1) (\<lambda>(_, h2).
     Option.bind (sched_domain_create (mem 2) (ok 2) CLASS_BATCH None h2) (\<lambda>(_, h3).
     Option.bind (sched_domain_create (mem 3) (ok 3) CLASS_IDLE None h3) (\<lambda>(_, h4).
     Option.bind (set_dom_priority 0 0 h4) (\<lambda>h5.
     Option.bind (set_dom_priority 100 1 h5) (\<lambda>h6.
     Option.bind (set_dom_priority 120 2 h6) (\<lambda>h7.
     set_dom_priority 140 3 h7)))))))"

end
