(* ===== verification/Hyper_Correct.thy ===== *)
theory Hyper_Correct
  imports Hyper "HOL-Library.Multiset"
begin

text \<open>
  The contract of a scheduling class as a locale (\<open>sched_policy\<close>), which all five classes of \<^verbatim>\<open>kernel/sched_hyper.c\<close> satisfy; the
  hypervisor, proved once against the contract, keeps its lists and counts and never follows a dangling pointer, as long as what
  is running is not destroyed. Then what the single policies choose, and where they do not do what they are for.
\<close>

section \<open>The contract of a class\<close>

text \<open>What no class operation changes in a domain or an entity.\<close>

definition dom_core :: "sched_domain \<Rightarrow> sched_domain" where
  "dom_core d = d\<lparr>dm_data := None, dm_runqueue := [], dm_nr_running := 0, dm_preemptions := 0\<rparr>"

definition ent_same :: "sched_entity \<Rightarrow> sched_entity \<Rightarrow> bool" where
  "ent_same s s' \<longleftrightarrow> se_domain s' = se_domain s \<and> se_task s' = se_task s \<and> se_deadline s' = se_deadline s"

definition all_live :: "ents \<Rightarrow> nat list \<Rightarrow> bool" where
  "all_live E q \<longleftrightarrow> (\<forall>x\<in>set q. E x \<noteq> None)"

lemma dom_coreD:
  assumes "dom_core d' = dom_core d"
  shows "dm_curr d' = dm_curr d" "dm_class d' = dm_class d" "dm_parent d' = dm_parent d"
    "dm_priority d' = dm_priority d" "dm_active d' = dm_active d"
  using arg_cong [OF assms, of dm_curr] arg_cong [OF assms, of dm_class] arg_cong [OF assms, of dm_parent]
    arg_cong [OF assms, of dm_priority] arg_cong [OF assms, of dm_active]
  by (simp_all add: dom_core_def)

lemma ent_same_refl [simp]: "ent_same s s"
  by (simp add: ent_same_def)

locale sched_policy =
  fixes C :: sched_class
    and Q :: "sched_domain \<Rightarrow> nat list"
    and ok :: "sched_domain \<Rightarrow> bool"
  assumes frame: "dm_data d' = dm_data d \<Longrightarrow> dm_runqueue d' = dm_runqueue d \<Longrightarrow> Q d' = Q d \<and> ok d' = ok d"
    and enqueue: "ok d \<Longrightarrow> all_live E (Q d) \<Longrightarrow> E e = Some s \<Longrightarrow> \<not> se_on_rq s \<Longrightarrow>
      \<exists>d' s'. sc_enqueue C e (d, E) = Some (d', E(e \<mapsto> s')) \<and> dom_core d' = dom_core d \<and> ok d' \<and>
        dm_nr_running d' = dm_nr_running d + 1 \<and> mset (Q d') = add_mset e (mset (Q d)) \<and> ent_same s s' \<and> se_on_rq s'"
    and dequeue: "ok d \<Longrightarrow> all_live E (Q d) \<Longrightarrow> E e = Some s \<Longrightarrow>
      \<exists>d' s'. sc_dequeue C e (d, E) = Some (d', E(e \<mapsto> s')) \<and> dom_core d' = dom_core d \<and> ok d' \<and>
        dm_nr_running d' = dm_nr_running d - 1 \<and> Q d' = removeAll e (Q d) \<and> ent_same s s' \<and> \<not> se_on_rq s'"
    and yield: "ok d \<Longrightarrow> E e = Some s \<Longrightarrow> dm_data d \<noteq> None \<or> \<not> se_on_rq s \<Longrightarrow>
      \<exists>d' s'. sc_yield C e (d, E) = Some (d', E(e \<mapsto> s')) \<and> dom_core d' = dom_core d \<and> ok d' \<and>
        dm_nr_running d' = dm_nr_running d \<and> Q d' = (if se_on_rq s then removeAll e (Q d) @ [e] else Q d) \<and>
        ent_same s s' \<and> se_on_rq s' = se_on_rq s"
    and tick: "ok d \<Longrightarrow> all_live E (Q d) \<Longrightarrow> E e = Some s \<Longrightarrow>
      \<exists>d' s'. sc_tick C now e (d, E) = Some (d', E(e \<mapsto> s')) \<and> dom_core d' = dom_core d \<and> ok d' \<and>
        dm_nr_running d' = dm_nr_running d \<and> Q d' = Q d \<and> ent_same s s' \<and> se_on_rq s' = se_on_rq s"
    and pick: "ok d \<Longrightarrow> sc_pick_next C (d, E) = Some (case Q d of [] \<Rightarrow> None | e # _ \<Rightarrow> Some e)"
    and preempt: "ok d \<Longrightarrow> all_live E (Q d) \<Longrightarrow> E e = Some s \<Longrightarrow> sc_should_preempt C e (d, E) \<noteq> None"

section \<open>The classes satisfy it\<close>

definition data_queue :: "sched_domain \<Rightarrow> nat list" where
  "data_queue d = (case dm_data d of None \<Rightarrow> [] | Some c \<Rightarrow> cd_queue c)"

definition has_data :: "sched_domain \<Rightarrow> bool" where
  "has_data d \<longleftrightarrow> dm_data d \<noteq> None"

definition no_data :: "sched_domain \<Rightarrow> bool" where
  "no_data d \<longleftrightarrow> dm_data d = None"

lemma insert_sorted_total:
  assumes "\<forall>x\<in>set q. key x \<noteq> None"
  shows "\<exists>q'. insert_sorted key v e q = Some q' \<and> mset q' = add_mset e (mset q)"
  using assms by (induction q) (auto split: option.splits)

lemma first_ent_live: "all_live E q \<Longrightarrow> q \<noteq> [] \<Longrightarrow> \<exists>s. first_ent E q = Some s"
  by (cases q) (auto simp: first_ent_def all_live_def)

lemmas class_op_defs =
  link_ent_def unlink_ent_def upd_ent_def upd_queue_def upd_data_def dom_core_def ent_same_def data_queue_def has_data_def
  no_data_def

lemma coop_yield_law:
  assumes "E e = Some s" "dm_data d \<noteq> None \<or> \<not> se_on_rq s"
  shows "\<exists>d' s'. coop_yield e (d, E) = Some (d', E(e \<mapsto> s')) \<and> dom_core d' = dom_core d \<and> has_data d' = has_data d \<and>
    dm_runqueue d' = dm_runqueue d \<and>
    dm_nr_running d' = dm_nr_running d \<and> data_queue d' = (if se_on_rq s then removeAll e (data_queue d) @ [e] else data_queue d)
    \<and> ent_same s s' \<and> se_on_rq s' = se_on_rq s"
  using assms by (auto simp: coop_yield_def class_op_defs split: option.split)

lemma data_frame:
  "dm_data d' = dm_data d \<Longrightarrow> data_queue d' = data_queue d \<and> has_data d' = has_data d"
  by (simp add: data_queue_def has_data_def)

lemma data_pick: "has_data d \<Longrightarrow> coop_pick_next (d, E) = Some (case data_queue d of [] \<Rightarrow> None | e # _ \<Rightarrow> Some e)"
  by (auto simp: coop_pick_next_def has_data_def data_queue_def)

interpretation coop: sched_policy coop_class data_queue has_data
proof
  fix d :: sched_domain and E :: ents and e s
  assume ok: "has_data d" and e: "E e = Some s"
  show "\<exists>d' s'. sc_enqueue coop_class e (d, E) = Some (d', E(e \<mapsto> s')) \<and> dom_core d' = dom_core d \<and> has_data d' \<and>
        dm_nr_running d' = dm_nr_running d + 1 \<and> mset (data_queue d') = add_mset e (mset (data_queue d)) \<and>
        ent_same s s' \<and> se_on_rq s'" if "\<not> se_on_rq s"
    using ok e that by (auto simp: coop_class_def coop_enqueue_def class_op_defs)
  show "\<exists>d' s'. sc_dequeue coop_class e (d, E) = Some (d', E(e \<mapsto> s')) \<and> dom_core d' = dom_core d \<and> has_data d' \<and>
        dm_nr_running d' = dm_nr_running d - 1 \<and> data_queue d' = removeAll e (data_queue d) \<and> ent_same s s' \<and> \<not> se_on_rq s'"
    using ok e by (auto simp: coop_class_def coop_dequeue_def class_op_defs)
  show "\<exists>d' s'. sc_yield coop_class e (d, E) = Some (d', E(e \<mapsto> s')) \<and> dom_core d' = dom_core d \<and> has_data d' \<and>
        dm_nr_running d' = dm_nr_running d \<and>
        data_queue d' = (if se_on_rq s then removeAll e (data_queue d) @ [e] else data_queue d) \<and>
        ent_same s s' \<and> se_on_rq s' = se_on_rq s" if "dm_data d \<noteq> None \<or> \<not> se_on_rq s"
    using coop_yield_law [of E e s d, OF e that] ok by (cases "se_on_rq s") (auto simp: coop_class_def)
  show "\<exists>d' s'. sc_tick coop_class now e (d, E) = Some (d', E(e \<mapsto> s')) \<and> dom_core d' = dom_core d \<and> has_data d' \<and>
        dm_nr_running d' = dm_nr_running d \<and> data_queue d' = data_queue d \<and> ent_same s s' \<and> se_on_rq s' = se_on_rq s" for now
    using ok e by (auto simp: coop_class_def coop_tick_def class_op_defs intro!: exI [of _ "s\<lparr>se_sum_exec := se_sum_exec s + 1\<rparr>"])
  show "sc_should_preempt coop_class e (d, E) \<noteq> None" by (simp add: coop_class_def coop_should_preempt_def)
next
  fix d d' :: sched_domain
  assume "dm_data d' = dm_data d"
  then show "data_queue d' = data_queue d \<and> has_data d' = has_data d" by (rule data_frame)
next
  fix d :: sched_domain and E :: ents
  assume "has_data d"
  then show "sc_pick_next coop_class (d, E) = Some (case data_queue d of [] \<Rightarrow> None | e # _ \<Rightarrow> Some e)"
    using data_pick [of d E] by (simp add: coop_class_def)
qed

lemma live_deadline: "all_live E q \<Longrightarrow> \<forall>x\<in>set q. map_option f (E x) \<noteq> None"
  by (simp add: all_live_def)

interpretation rt: sched_policy rt_class data_queue has_data
proof
  fix d :: sched_domain and E :: ents and e s
  assume ok: "has_data d" and e: "E e = Some s"
  obtain c where c: "dm_data d = Some c" using ok by (auto simp: has_data_def)
  show "\<exists>d' s'. sc_enqueue rt_class e (d, E) = Some (d', E(e \<mapsto> s')) \<and> dom_core d' = dom_core d \<and> has_data d' \<and>
        dm_nr_running d' = dm_nr_running d + 1 \<and> mset (data_queue d') = add_mset e (mset (data_queue d)) \<and>
        ent_same s s' \<and> se_on_rq s'" if "\<not> se_on_rq s" "all_live E (data_queue d)"
    using insert_sorted_total [OF live_deadline [OF that(2)], of se_deadline "se_deadline s" e] that(1) e c
    by (auto simp: rt_class_def rt_enqueue_def class_op_defs intro!: exI [of _ "s\<lparr>se_on_rq := True\<rparr>"])
  show "\<exists>d' s'. sc_dequeue rt_class e (d, E) = Some (d', E(e \<mapsto> s')) \<and> dom_core d' = dom_core d \<and> has_data d' \<and>
        dm_nr_running d' = dm_nr_running d - 1 \<and> data_queue d' = removeAll e (data_queue d) \<and> ent_same s s' \<and> \<not> se_on_rq s'"
    if l: "all_live E (data_queue d)"
  proof -
    have "all_live (E(e \<mapsto> s\<lparr>se_on_rq := False\<rparr>)) (removeAll e (cd_queue c))"
      using l c by (auto simp: all_live_def data_queue_def)
    then have "removeAll e (cd_queue c) \<noteq> [] \<Longrightarrow> \<exists>f. first_ent (E(e \<mapsto> s\<lparr>se_on_rq := False\<rparr>)) (removeAll e (cd_queue c)) = Some f"
      by (rule first_ent_live)
    then show ?thesis using e c by (auto simp: rt_class_def rt_dequeue_def class_op_defs intro!: exI [of _ "s\<lparr>se_on_rq := False\<rparr>"])
  qed
  show "\<exists>d' s'. sc_yield rt_class e (d, E) = Some (d', E(e \<mapsto> s')) \<and> dom_core d' = dom_core d \<and> has_data d' \<and>
        dm_nr_running d' = dm_nr_running d \<and>
        data_queue d' = (if se_on_rq s then removeAll e (data_queue d) @ [e] else data_queue d) \<and>
        ent_same s s' \<and> se_on_rq s' = se_on_rq s" if "dm_data d \<noteq> None \<or> \<not> se_on_rq s"
    using coop_yield_law [of E e s d, OF e that] ok by (cases "se_on_rq s") (auto simp: rt_class_def)
  have p: "\<exists>b. rt_earlier e (d, E(e \<mapsto> s')) = Some b" if "all_live E (data_queue d)" for s'
    using that c by (auto simp: rt_earlier_def all_live_def data_queue_def split: list.splits option.splits)
  show "\<exists>d' s'. sc_tick rt_class now e (d, E) = Some (d', E(e \<mapsto> s')) \<and> dom_core d' = dom_core d \<and> has_data d' \<and>
        dm_nr_running d' = dm_nr_running d \<and> data_queue d' = data_queue d \<and> ent_same s s' \<and> se_on_rq s' = se_on_rq s"
    if "all_live E (data_queue d)" for now
    using p [OF that, of "s\<lparr>se_sum_exec := se_sum_exec s + 1\<rparr>"] ok e
    by (auto simp: rt_class_def rt_tick_def class_op_defs intro!: exI [of _ "s\<lparr>se_sum_exec := se_sum_exec s + 1\<rparr>"])
  show "sc_should_preempt rt_class e (d, E) \<noteq> None" if "all_live E (data_queue d)"
    using p [OF that, of s] e by (auto simp: rt_class_def rt_should_preempt_def fun_upd_idem)
next
  fix d d' :: sched_domain
  assume "dm_data d' = dm_data d"
  then show "data_queue d' = data_queue d \<and> has_data d' = has_data d" by (rule data_frame)
next
  fix d :: sched_domain and E :: ents
  assume "has_data d"
  then show "sc_pick_next rt_class (d, E) = Some (case data_queue d of [] \<Rightarrow> None | e # _ \<Rightarrow> Some e)"
    using data_pick [of d E] by (simp add: rt_class_def rt_pick_next_def)
qed


text \<open>The fair functions, which the batch class shares.\<close>

lemma fair_enqueue_law:
  assumes "has_data d" "all_live E (data_queue d)" "E e = Some s" "\<not> se_on_rq s"
  shows "\<exists>d' s'. fair_enqueue e (d, E) = Some (d', E(e \<mapsto> s')) \<and> dom_core d' = dom_core d \<and> has_data d' \<and>
    dm_nr_running d' = dm_nr_running d + 1 \<and> mset (data_queue d') = add_mset e (mset (data_queue d)) \<and>
    ent_same s s' \<and> se_on_rq s'"
proof -
  obtain c where c: "dm_data d = Some c" using assms(1) by (auto simp: has_data_def)
  define s1 where "s1 = (if se_vruntime s = 0 then s\<lparr>se_vruntime := cd_min_vruntime c\<rparr> else s)"
  have s1: "\<not> se_on_rq s1" "ent_same s s1" using assms(4) by (auto simp: s1_def ent_same_def)
  have "all_live (E(e \<mapsto> s1)) (cd_queue c)" using assms(2) c by (auto simp: all_live_def data_queue_def)
  then obtain q where q: "insert_sorted (\<lambda>x. map_option se_vruntime ((E(e \<mapsto> s1)) x)) (se_vruntime s1) e (cd_queue c) = Some q"
    "mset q = add_mset e (mset (cd_queue c))"
    using insert_sorted_total [OF live_deadline, of "E(e \<mapsto> s1)" "cd_queue c" se_vruntime "se_vruntime s1" e] by blast
  have "fair_enqueue e (d, E) = Some ((upd_data (\<lambda>c. c\<lparr>cd_queue := q\<rparr>) d)\<lparr>dm_nr_running := dm_nr_running d + 1\<rparr>,
      E(e \<mapsto> s1\<lparr>se_on_rq := True, se_time_slice := sint (fair_calc_slice (dm_nr_running d + 1) c)\<rparr>))"
    using c assms(3) q(1) s1(1) by (simp add: fair_enqueue_def Let_def s1_def [symmetric] link_ent_def upd_ent_def)
  then show ?thesis using q(2) s1(2) c by (auto simp: class_op_defs)
qed

lemma fair_dequeue_law:
  assumes "has_data d" "all_live E (data_queue d)" "E e = Some s"
  shows "\<exists>d' s'. fair_dequeue e (d, E) = Some (d', E(e \<mapsto> s')) \<and> dom_core d' = dom_core d \<and> has_data d' \<and>
    dm_nr_running d' = dm_nr_running d - 1 \<and> data_queue d' = removeAll e (data_queue d) \<and> ent_same s s' \<and> \<not> se_on_rq s'"
proof -
  obtain c where c: "dm_data d = Some c" using assms(1) by (auto simp: has_data_def)
  let ?E = "E(e \<mapsto> s\<lparr>se_on_rq := False\<rparr>)" and ?q = "removeAll e (cd_queue c)"
  have u: "unlink_ent e (upd_queue (removeAll e)) (d, E) =
      Some ((upd_queue (removeAll e) d)\<lparr>dm_nr_running := dm_nr_running d - 1\<rparr>, ?E)"
    using assms(3) by (simp add: unlink_ent_def)
  have "all_live ?E ?q" using assms(2) c by (auto simp: all_live_def data_queue_def)
  then consider "?q = []" | f where "?q \<noteq> []" "first_ent ?E ?q = Some f" using first_ent_live by blast
  then show ?thesis
  proof cases
    case 1
    then have "fair_dequeue e (d, E) = Some ((upd_queue (removeAll e) d)\<lparr>dm_nr_running := dm_nr_running d - 1\<rparr>, ?E)"
      using u c by (simp add: fair_dequeue_def upd_queue_def upd_data_def)
    then show ?thesis using c by (auto simp: class_op_defs)
  next
    case 2
    define D where "D = (upd_queue (removeAll e) d)\<lparr>dm_nr_running := dm_nr_running d - 1\<rparr>"
    have "fair_dequeue e (d, E) = Some (if cd_min_vruntime c < se_vruntime f
        then upd_data (\<lambda>c. c\<lparr>cd_min_vruntime := se_vruntime f\<rparr>) D else D, ?E)"
      using u c 2 by (simp add: fair_dequeue_def upd_queue_def upd_data_def D_def)
    then show ?thesis using c by (auto simp: D_def class_op_defs)
  qed
qed

lemma fair_tick_law:
  assumes "has_data d" "all_live E (data_queue d)" "E e = Some s"
  shows "\<exists>d' s'. fair_tick now e (d, E) = Some (d', E(e \<mapsto> s')) \<and> dom_core d' = dom_core d \<and> has_data d' \<and>
    dm_nr_running d' = dm_nr_running d \<and> data_queue d' = data_queue d \<and> ent_same s s' \<and> se_on_rq s' = se_on_rq s"
proof -
  obtain c where c: "dm_data d = Some c" using assms(1) by (auto simp: has_data_def)
  let ?s = "s\<lparr>se_vruntime := se_vruntime s + 1, se_sum_exec := se_sum_exec s + 1, se_time_slice := se_time_slice s - 1\<rparr>"
  have "all_live (E(e \<mapsto> ?s)) (cd_queue c)" using assms(2) c by (auto simp: all_live_def data_queue_def)
  then have "cd_queue c \<noteq> [] \<Longrightarrow> \<exists>f. first_ent (E(e \<mapsto> ?s)) (cd_queue c) = Some f"
    by (rule first_ent_live)
  then show ?thesis using assms(3) c by (auto simp: fair_tick_def class_op_defs intro!: exI [of _ ?s])
qed

lemma fair_preempt_law:
  assumes "has_data d" "all_live E (data_queue d)" "E e = Some s"
  shows "fair_should_preempt e (d, E) \<noteq> None"
  using assms by (auto simp: fair_should_preempt_def has_data_def all_live_def data_queue_def split: list.splits option.splits)

interpretation fair: sched_policy fair_class data_queue has_data
proof
  fix d :: sched_domain and E :: ents and e s
  assume ok: "has_data d" and e: "E e = Some s"
  show "\<exists>d' s'. sc_yield fair_class e (d, E) = Some (d', E(e \<mapsto> s')) \<and> dom_core d' = dom_core d \<and> has_data d' \<and>
        dm_nr_running d' = dm_nr_running d \<and>
        data_queue d' = (if se_on_rq s then removeAll e (data_queue d) @ [e] else data_queue d) \<and>
        ent_same s s' \<and> se_on_rq s' = se_on_rq s" if "dm_data d \<noteq> None \<or> \<not> se_on_rq s"
    using coop_yield_law [of E e s d, OF e that] ok by (cases "se_on_rq s") (auto simp: fair_class_def)
  show "\<exists>d' s'. sc_enqueue fair_class e (d, E) = Some (d', E(e \<mapsto> s')) \<and> dom_core d' = dom_core d \<and> has_data d' \<and>
        dm_nr_running d' = dm_nr_running d + 1 \<and> mset (data_queue d') = add_mset e (mset (data_queue d)) \<and>
        ent_same s s' \<and> se_on_rq s'" if "all_live E (data_queue d)" "\<not> se_on_rq s"
    using fair_enqueue_law [of d E e s, OF ok that(1) e that(2)] by (simp add: fair_class_def)
  show "\<exists>d' s'. sc_dequeue fair_class e (d, E) = Some (d', E(e \<mapsto> s')) \<and> dom_core d' = dom_core d \<and> has_data d' \<and>
        dm_nr_running d' = dm_nr_running d - 1 \<and> data_queue d' = removeAll e (data_queue d) \<and> ent_same s s' \<and> \<not> se_on_rq s'"
    if "all_live E (data_queue d)"
    using fair_dequeue_law [of d E e s, OF ok that e] by (simp add: fair_class_def)
  show "\<exists>d' s'. sc_tick fair_class now e (d, E) = Some (d', E(e \<mapsto> s')) \<and> dom_core d' = dom_core d \<and> has_data d' \<and>
        dm_nr_running d' = dm_nr_running d \<and> data_queue d' = data_queue d \<and> ent_same s s' \<and> se_on_rq s' = se_on_rq s"
    if "all_live E (data_queue d)" for now
    using fair_tick_law [of d E e s now, OF ok that e] by (simp add: fair_class_def)
  show "sc_should_preempt fair_class e (d, E) \<noteq> None" if "all_live E (data_queue d)"
    using fair_preempt_law [of d E e s, OF ok that e] by (simp add: fair_class_def)
next
  fix d d' :: sched_domain
  assume "dm_data d' = dm_data d"
  then show "data_queue d' = data_queue d \<and> has_data d' = has_data d" by (rule data_frame)
next
  fix d :: sched_domain and E :: ents
  assume "has_data d"
  then show "sc_pick_next fair_class (d, E) = Some (case data_queue d of [] \<Rightarrow> None | e # _ \<Rightarrow> Some e)"
    using data_pick [of d E] by (simp add: fair_class_def fair_pick_next_def)
qed

text \<open>The contract says nothing of \<^verbatim>\<open>init\<close>, the one function in which batch differs from fair.\<close>

lemma sched_policy_init:
  assumes "sched_policy C Q ok"
  shows "sched_policy (C\<lparr>sc_init := f\<rparr>) Q ok"
proof -
  have u: "sc_enqueue (C\<lparr>sc_init := f\<rparr>) = sc_enqueue C" "sc_dequeue (C\<lparr>sc_init := f\<rparr>) = sc_dequeue C"
    "sc_yield (C\<lparr>sc_init := f\<rparr>) = sc_yield C" "sc_tick (C\<lparr>sc_init := f\<rparr>) = sc_tick C"
    "sc_pick_next (C\<lparr>sc_init := f\<rparr>) = sc_pick_next C" "sc_should_preempt (C\<lparr>sc_init := f\<rparr>) = sc_should_preempt C"
    by simp_all
  show ?thesis
  proof (unfold_locales, goal_cases)
    case 1 then show ?case by (rule sched_policy.frame [OF assms])
  next
    case 2 then show ?case unfolding u by (rule sched_policy.enqueue [OF assms])
  next
    case 3 then show ?case unfolding u by (rule sched_policy.dequeue [OF assms])
  next
    case 4 then show ?case unfolding u by (rule sched_policy.yield [OF assms])
  next
    case 5 then show ?case unfolding u by (rule sched_policy.tick [OF assms])
  next
    case 6 then show ?case unfolding u by (rule sched_policy.pick [OF assms])
  next
    case 7 then show ?case unfolding u by (rule sched_policy.preempt [OF assms])
  qed
qed

interpretation batch: sched_policy batch_class data_queue has_data
  unfolding batch_class_def by (rule sched_policy_init [OF fair.sched_policy_axioms])

interpretation idle: sched_policy idle_class dm_runqueue "\<lambda>d. dm_data d = None"
proof
  fix d :: sched_domain and E :: ents and e s
  assume ok: "dm_data d = None" and e: "E e = Some s"
  show "\<exists>d' s'. sc_yield idle_class e (d, E) = Some (d', E(e \<mapsto> s')) \<and> dom_core d' = dom_core d \<and> dm_data d' = None \<and>
        dm_nr_running d' = dm_nr_running d \<and>
        dm_runqueue d' = (if se_on_rq s then removeAll e (dm_runqueue d) @ [e] else dm_runqueue d) \<and>
        ent_same s s' \<and> se_on_rq s' = se_on_rq s" if "dm_data d \<noteq> None \<or> \<not> se_on_rq s"
    using ok that e by (auto simp: idle_class_def coop_yield_def class_op_defs)
  show "\<exists>d' s'. sc_enqueue idle_class e (d, E) = Some (d', E(e \<mapsto> s')) \<and> dom_core d' = dom_core d \<and> dm_data d' = None \<and>
        dm_nr_running d' = dm_nr_running d + 1 \<and> mset (dm_runqueue d') = add_mset e (mset (dm_runqueue d)) \<and>
        ent_same s s' \<and> se_on_rq s'" if "\<not> se_on_rq s"
    using ok e that by (auto simp: idle_class_def idle_enqueue_def class_op_defs)
  show "\<exists>d' s'. sc_dequeue idle_class e (d, E) = Some (d', E(e \<mapsto> s')) \<and> dom_core d' = dom_core d \<and> dm_data d' = None \<and>
        dm_nr_running d' = dm_nr_running d - 1 \<and> dm_runqueue d' = removeAll e (dm_runqueue d) \<and> ent_same s s' \<and> \<not> se_on_rq s'"
    using ok e by (auto simp: idle_class_def idle_dequeue_def class_op_defs)
  show "\<exists>d' s'. sc_tick idle_class now e (d, E) = Some (d', E(e \<mapsto> s')) \<and> dom_core d' = dom_core d \<and> dm_data d' = None \<and>
        dm_nr_running d' = dm_nr_running d \<and> dm_runqueue d' = dm_runqueue d \<and> ent_same s s' \<and> se_on_rq s' = se_on_rq s" for now
    using ok e by (auto simp: idle_class_def idle_tick_def class_op_defs intro!: exI [of _ "s\<lparr>se_sum_exec := se_sum_exec s + 1\<rparr>"])
qed (auto simp: idle_class_def idle_pick_next_def idle_should_preempt_def)


section \<open>Queues and entities\<close>

text \<open>The queue of the domain at \<open>a\<close> holds exactly its entities that are marked, once each, and their number is kept.\<close>

definition q_inv :: "(sched_domain \<Rightarrow> nat list) \<Rightarrow> nat \<Rightarrow> dstate \<Rightarrow> bool" where
  "q_inv Q a st \<longleftrightarrow>
     (case st of (d, E) \<Rightarrow>
        distinct (Q d) \<and> dm_nr_running d = length (Q d) \<and>
        (\<forall>x. x \<in> set (Q d) \<longleftrightarrow> (\<exists>s. E x = Some s \<and> se_domain s = Some a \<and> se_on_rq s)) \<and>
        (\<forall>e. dm_curr d = Some e \<longrightarrow> (\<exists>s. E e = Some s \<and> se_domain s = Some a)))"

text \<open>Entities of other domains are as they were, and no entity comes, goes or moves.\<close>

definition ent_frame :: "nat \<Rightarrow> ents \<Rightarrow> ents \<Rightarrow> bool" where
  "ent_frame a E E' \<longleftrightarrow>
     (\<forall>x. (E x = None \<longleftrightarrow> E' x = None) \<and>
        (\<forall>s s'. E x = Some s \<longrightarrow> E' x = Some s' \<longrightarrow>
           se_domain s' = se_domain s \<and> se_task s' = se_task s \<and> (se_domain s \<noteq> Some a \<longrightarrow> s' = s)))"

lemma ent_frame_refl [simp]: "ent_frame a E E"
  by (simp add: ent_frame_def)

lemma ent_frame_trans:
  assumes "ent_frame a E E1" "ent_frame a E1 E2"
  shows "ent_frame a E E2"
  unfolding ent_frame_def
proof (rule allI, rule conjI)
  fix x
  show "E x = None \<longleftrightarrow> E2 x = None" using assms by (simp add: ent_frame_def)
  show "\<forall>s s'. E x = Some s \<longrightarrow> E2 x = Some s' \<longrightarrow>
      se_domain s' = se_domain s \<and> se_task s' = se_task s \<and> (se_domain s \<noteq> Some a \<longrightarrow> s' = s)"
  proof (intro allI impI)
    fix s s2 assume s: "E x = Some s" "E2 x = Some s2"
    have "E1 x \<noteq> None" using assms(1) s(1) by (metis ent_frame_def option.distinct(1))
    then obtain s1 where "E1 x = Some s1" by blast
    then show "se_domain s2 = se_domain s \<and> se_task s2 = se_task s \<and> (se_domain s \<noteq> Some a \<longrightarrow> s2 = s)"
      using assms s unfolding ent_frame_def by metis
  qed
qed

lemma ent_frame_upd:
  "E e = Some s \<Longrightarrow> se_domain s = Some a \<Longrightarrow> ent_same s s' \<Longrightarrow> ent_frame a E (E(e \<mapsto> s'))"
  by (auto simp: ent_frame_def ent_same_def)

lemma q_inv_live: "q_inv Q a (d, E) \<Longrightarrow> all_live E (Q d)"
  by (auto simp: q_inv_def all_live_def)

lemma q_inv_upd:
  assumes "q_inv Q a (d, E)" "E e = Some s" "se_domain s = Some a" "ent_same s s'"
    and "dm_curr d' = dm_curr d" "distinct (Q d')" "dm_nr_running d' = length (Q d')"
    and "set (Q d') = (if se_on_rq s' then insert e (set (Q d)) else set (Q d) - {e})"
  shows "q_inv Q a (d', E(e \<mapsto> s'))"
proof -
  have d: "se_domain s' = Some a" using assms(3,4) by (simp add: ent_same_def)
  have "x \<in> set (Q d') \<longleftrightarrow> (\<exists>t. (E(e \<mapsto> s')) x = Some t \<and> se_domain t = Some a \<and> se_on_rq t)" for x
    using assms(1,8) d by (auto simp: q_inv_def)
  moreover have "\<exists>t. (E(e \<mapsto> s')) x = Some t \<and> se_domain t = Some a" if "dm_curr d' = Some x" for x
    using assms(1,5) d that by (auto simp: q_inv_def)
  ultimately show ?thesis using assms(6,7) by (simp add: q_inv_def)
qed

definition dom_fixed :: "sched_domain \<Rightarrow> sched_domain \<Rightarrow> bool" where
  "dom_fixed d d' \<longleftrightarrow> dm_class d' = dm_class d \<and> dm_parent d' = dm_parent d"

lemma dom_core_fixed: "dom_core d' = dom_core d \<Longrightarrow> dom_fixed d d'"
  using dom_coreD [of d' d] by (simp add: dom_fixed_def)

text \<open>What every step of a domain establishes.\<close>

definition good_step ::
  "(sched_domain \<Rightarrow> nat list) \<Rightarrow> (sched_domain \<Rightarrow> bool) \<Rightarrow> nat \<Rightarrow> dstate \<Rightarrow> dstate \<Rightarrow> bool" where
  "good_step Q ok a st st' \<longleftrightarrow>
     ok (fst st') \<and> q_inv Q a st' \<and> ent_frame a (snd st) (snd st') \<and> dom_fixed (fst st) (fst st')"

lemma good_step_trans:
  "good_step Q ok a st st1 \<Longrightarrow> good_step Q ok a st1 st2 \<Longrightarrow> good_step Q ok a st st2"
  unfolding good_step_def by (auto simp: dom_fixed_def intro: ent_frame_trans)

lemma good_step_refl: "ok d \<Longrightarrow> q_inv Q a (d, E) \<Longrightarrow> good_step Q ok a (d, E) (d, E)"
  by (simp add: good_step_def dom_fixed_def)

context sched_policy
begin

lemma enqueue_step:
  assumes "ok d" "q_inv Q a (d, E)" "E e = Some s" "se_domain s = Some a" "\<not> se_on_rq s"
  shows "\<exists>d' s'. sc_enqueue C e (d, E) = Some (d', E(e \<mapsto> s')) \<and> good_step Q ok a (d, E) (d', E(e \<mapsto> s')) \<and>
    mset (Q d') = add_mset e (mset (Q d)) \<and> dm_curr d' = dm_curr d \<and> ent_same s s'"
proof -
  obtain d' s' where r: "sc_enqueue C e (d, E) = Some (d', E(e \<mapsto> s'))" "dom_core d' = dom_core d" "ok d'"
    "dm_nr_running d' = dm_nr_running d + 1" "mset (Q d') = add_mset e (mset (Q d))" "ent_same s s'" "se_on_rq s'"
    using enqueue [OF assms(1) q_inv_live [OF assms(2)] assms(3,5)] by blast
  have ne: "e \<notin> set (Q d)" using assms(2,3,5) by (auto simp: q_inv_def)
  have "distinct (Q d)" using assms(2) by (simp add: q_inv_def)
  then have "distinct (e # Q d)" using ne by simp
  moreover have m: "mset (Q d') = mset (e # Q d)" using r(5) by simp
  ultimately have "distinct (Q d')" by (metis mset_eq_imp_distinct_iff)
  moreover have "set (Q d') = insert e (set (Q d))" using m by (metis list.set(2) mset_eq_setD)
  moreover have "length (Q d') = Suc (length (Q d))" using m by (metis length_Cons mset_eq_length)
  moreover have "dm_nr_running d = length (Q d)" using assms(2) by (simp add: q_inv_def)
  ultimately have "q_inv Q a (d', E(e \<mapsto> s'))"
    by (intro q_inv_upd [OF assms(2-4) r(6)]) (simp_all add: r(4,7) dom_coreD(1) [OF r(2)])
  then show ?thesis
    using r assms ent_frame_upd [of E e s a s', OF assms(3,4) r(6)] dom_core_fixed [OF r(2)] dom_coreD(1) [OF r(2)]
    by (auto simp: good_step_def)
qed

lemma dequeue_step:
  assumes "ok d" "q_inv Q a (d, E)" "E e = Some s" "se_domain s = Some a" "se_on_rq s"
  shows "\<exists>d' s'. sc_dequeue C e (d, E) = Some (d', E(e \<mapsto> s')) \<and> good_step Q ok a (d, E) (d', E(e \<mapsto> s')) \<and>
    Q d' = removeAll e (Q d) \<and> dm_curr d' = dm_curr d \<and> ent_same s s' \<and> \<not> se_on_rq s'"
proof -
  obtain d' s' where r: "sc_dequeue C e (d, E) = Some (d', E(e \<mapsto> s'))" "dom_core d' = dom_core d" "ok d'"
    "dm_nr_running d' = dm_nr_running d - 1" "Q d' = removeAll e (Q d)" "ent_same s s'" "\<not> se_on_rq s'"
    using dequeue [OF assms(1) q_inv_live [OF assms(2)] assms(3)] by blast
  have e: "e \<in> set (Q d)" "distinct (Q d)" using assms(2-5) by (auto simp: q_inv_def)
  have "length (removeAll e (Q d)) = length (Q d) - 1"
    using e by (simp add: distinct_remove1_removeAll [symmetric] length_remove1)
  moreover have "dm_nr_running d = length (Q d)" using assms(2) by (simp add: q_inv_def)
  ultimately have "q_inv Q a (d', E(e \<mapsto> s'))"
    by (intro q_inv_upd [OF assms(2-4) r(6)]) (simp_all add: r(4,5,7) dom_coreD(1) [OF r(2)] e distinct_removeAll)
  then show ?thesis
    using r ent_frame_upd [of E e s a s', OF assms(3,4) r(6)] dom_core_fixed [OF r(2)] dom_coreD(1) [OF r(2)]
    by (auto simp: good_step_def)
qed

lemma same_queue_step:
  assumes "q_inv Q a (d, E)" "E e = Some s" "se_domain s = Some a"
    and "dom_core d' = dom_core d" "ok d'" "dm_nr_running d' = dm_nr_running d" "mset (Q d') = mset (Q d)"
    and "ent_same s s'" "se_on_rq s' = se_on_rq s"
  shows "good_step Q ok a (d, E) (d', E(e \<mapsto> s'))"
proof -
  have "set (Q d') = set (Q d)" "distinct (Q d') = distinct (Q d)" "length (Q d') = length (Q d)"
    using assms(7) mset_eq_setD mset_eq_imp_distinct_iff mset_eq_length by blast+
  moreover have "se_on_rq s \<longleftrightarrow> e \<in> set (Q d)" using assms(1-3) by (auto simp: q_inv_def)
  moreover have "dm_nr_running d = length (Q d)" "distinct (Q d)" using assms(1) by (simp_all add: q_inv_def)
  ultimately have "q_inv Q a (d', E(e \<mapsto> s'))"
    by (intro q_inv_upd [OF assms(1-3,8)]) (auto simp: assms(6,9) dom_coreD(1) [OF assms(4)])
  then show ?thesis
    using ent_frame_upd [of E e s a s', OF assms(2,3,8)] dom_core_fixed [OF assms(4)] assms(5) by (simp add: good_step_def)
qed

lemma tick_step:
  assumes "ok d" "q_inv Q a (d, E)" "E e = Some s" "se_domain s = Some a"
  shows "\<exists>d' s'. sc_tick C now e (d, E) = Some (d', E(e \<mapsto> s')) \<and> good_step Q ok a (d, E) (d', E(e \<mapsto> s')) \<and>
    dm_curr d' = dm_curr d"
proof -
  obtain d' s' where r: "sc_tick C now e (d, E) = Some (d', E(e \<mapsto> s'))" "dom_core d' = dom_core d" "ok d'"
    "dm_nr_running d' = dm_nr_running d" "Q d' = Q d" "ent_same s s'" "se_on_rq s' = se_on_rq s"
    using tick [OF assms(1) q_inv_live [OF assms(2)] assms(3)] by blast
  have "good_step Q ok a (d, E) (d', E(e \<mapsto> s'))"
    by (rule same_queue_step [OF assms(2-4)]) (simp_all add: r)
  then show ?thesis using r(1) dom_coreD(1) [OF r(2)] by blast
qed

lemma yield_step:
  assumes "ok d" "q_inv Q a (d, E)" "E e = Some s" "se_domain s = Some a" "dm_data d \<noteq> None \<or> \<not> se_on_rq s"
  shows "\<exists>d' s'. sc_yield C e (d, E) = Some (d', E(e \<mapsto> s')) \<and> good_step Q ok a (d, E) (d', E(e \<mapsto> s')) \<and>
    dm_curr d' = dm_curr d"
proof -
  obtain d' s' where r: "sc_yield C e (d, E) = Some (d', E(e \<mapsto> s'))" "dom_core d' = dom_core d" "ok d'"
    "dm_nr_running d' = dm_nr_running d" "Q d' = (if se_on_rq s then removeAll e (Q d) @ [e] else Q d)"
    "ent_same s s'" "se_on_rq s' = se_on_rq s"
    using yield [of d E e s, OF assms(1,3,5)] by blast
  have "distinct (Q d)" "se_on_rq s \<longrightarrow> e \<in> set (Q d)" using assms(2-4) by (auto simp: q_inv_def)
  then have "mset (Q d') = mset (Q d)"
    using r(5) by (auto simp: distinct_remove1_removeAll [symmetric])
  then have "good_step Q ok a (d, E) (d', E(e \<mapsto> s'))"
    by (intro same_queue_step [OF assms(2-4)]) (simp_all add: r(2-4,6,7))
  then show ?thesis using r(1) dom_coreD(1) [OF r(2)] by blast
qed


lemma field_step:
  assumes "ok d" "q_inv Q a (d, E)" "dm_data d' = dm_data d" "dm_runqueue d' = dm_runqueue d"
    and "dm_nr_running d' = dm_nr_running d" "dom_fixed d d'"
    and "\<And>e. dm_curr d' = Some e \<Longrightarrow> \<exists>s. E e = Some s \<and> se_domain s = Some a"
  shows "good_step Q ok a (d, E) (d', E)"
  using assms frame [of d' d] by (auto simp: good_step_def q_inv_def)

lemma upd_ent_step:
  assumes "ok d" "q_inv Q a (d, E)" "E e = Some s" "se_domain s = Some a" "ent_same s (f s)" "se_on_rq (f s) = se_on_rq s"
  shows "upd_ent e f (d, E) = Some (d, E(e \<mapsto> f s)) \<and> good_step Q ok a (d, E) (d, E(e \<mapsto> f s))"
  using same_queue_step [OF assms(2-4) refl assms(1) refl refl assms(5,6)] assms(3) by (simp add: upd_ent_def)

lemma requeue_step:
  assumes "ok d" "q_inv Q a (d, E)"
  shows "\<exists>d1 E1. requeue_current C ts (d, E) = Some (d1, E1) \<and> good_step Q ok a (d, E) (d1, E1) \<and> dm_curr d1 = dm_curr d"
proof (cases "dm_curr d")
  case None
  then show ?thesis using good_step_refl [of ok, OF assms] by (simp add: requeue_current_def)
next
  case (Some p)
  then obtain s where s: "E p = Some s" "se_domain s = Some a" using assms(2) by (auto simp: q_inv_def)
  show ?thesis
  proof (cases "\<exists>t. se_task s = Some t \<and> ts t = 0")
    case False
    then have "requeue_current C ts (d, E) = Some (d, E)"
      using Some s by (auto simp: requeue_current_def split: option.split)
    then show ?thesis using good_step_refl [of ok, OF assms] by blast
  next
    case True
    have "\<exists>d1 s1. (if se_on_rq s then Some (d, E) else sc_enqueue C p (d, E)) = Some (d1, E(p \<mapsto> s1)) \<and>
        good_step Q ok a (d, E) (d1, E(p \<mapsto> s1)) \<and> dm_curr d1 = dm_curr d \<and> ent_same s s1"
    proof (cases "se_on_rq s")
      case True
      then show ?thesis
        using good_step_refl [of ok, OF assms] s(1) by (intro exI [of _ d] exI [of _ s]) (simp add: fun_upd_idem)
    next
      case False
      then show ?thesis using enqueue_step [OF assms s False] by auto
    qed
    then obtain d1 s1 where r: "(if se_on_rq s then Some (d, E) else sc_enqueue C p (d, E)) = Some (d1, E(p \<mapsto> s1))"
      "good_step Q ok a (d, E) (d1, E(p \<mapsto> s1))" "dm_curr d1 = dm_curr d" "ent_same s s1"
      by blast
    have g: "ok d1" "q_inv Q a (d1, E(p \<mapsto> s1))" using r(2) by (simp_all add: good_step_def)
    have u: "upd_ent p (\<lambda>s. s\<lparr>se_time_slice := 100\<rparr>) (d1, E(p \<mapsto> s1)) =
          Some (d1, (E(p \<mapsto> s1))(p \<mapsto> s1\<lparr>se_time_slice := 100\<rparr>)) \<and>
        good_step Q ok a (d1, E(p \<mapsto> s1)) (d1, (E(p \<mapsto> s1))(p \<mapsto> s1\<lparr>se_time_slice := 100\<rparr>))"
      by (rule upd_ent_step [OF g]) (use r(4) s(2) in \<open>simp_all add: ent_same_def\<close>)
    have "requeue_current C ts (d, E) = Some (d1, (E(p \<mapsto> s1))(p \<mapsto> s1\<lparr>se_time_slice := 100\<rparr>))"
      using Some s True r(1) u by (auto simp: requeue_current_def)
    then show ?thesis using good_step_trans [OF r(2)] u r(3) by blast
  qed
qed

lemma switch_step:
  assumes "ok d" "q_inv Q a (d, E)" "E n = Some s" "se_domain s = Some a" "se_on_rq s"
  shows "\<exists>d' s'. switch_to C now n (d, E) = Some (d', E(n \<mapsto> s')) \<and> good_step Q ok a (d, E) (d', E(n \<mapsto> s')) \<and>
    dm_curr d' = Some n \<and> Q d' = removeAll n (Q d) \<and> \<not> se_on_rq s' \<and> se_task s' = se_task s"
proof -
  obtain d1 s1 where r: "sc_dequeue C n (d, E) = Some (d1, E(n \<mapsto> s1))" "good_step Q ok a (d, E) (d1, E(n \<mapsto> s1))"
    "Q d1 = removeAll n (Q d)" "dm_curr d1 = dm_curr d" "ent_same s s1" "\<not> se_on_rq s1"
    using dequeue_step [OF assms] by blast
  have g: "ok d1" "q_inv Q a (d1, E(n \<mapsto> s1))" using r(2) by (simp_all add: good_step_def)
  let ?d = "d1\<lparr>dm_curr := Some n, dm_switches := dm_switches d1 + 1\<rparr>"
  have dn: "se_domain s1 = Some a" using r(5) assms(4) by (simp add: ent_same_def)
  have f: "good_step Q ok a (d1, E(n \<mapsto> s1)) (?d, E(n \<mapsto> s1))"
    by (rule field_step [OF g]) (use dn in \<open>simp_all add: dom_fixed_def\<close>)
  then have g2: "ok ?d" "q_inv Q a (?d, E(n \<mapsto> s1))" by (simp_all add: good_step_def)
  let ?f = "\<lambda>s. s\<lparr>se_exec_start := now, se_switches := se_switches s + 1\<rparr>"
  have u: "upd_ent n ?f (?d, E(n \<mapsto> s1)) = Some (?d, (E(n \<mapsto> s1))(n \<mapsto> ?f s1)) \<and>
      good_step Q ok a (?d, E(n \<mapsto> s1)) (?d, (E(n \<mapsto> s1))(n \<mapsto> ?f s1))"
    by (rule upd_ent_step [OF g2]) (use dn in \<open>simp_all add: ent_same_def\<close>)
  have "switch_to C now n (d, E) = Some (?d, E(n \<mapsto> ?f s1))"
    using assms(3,5) r(1) u by (simp add: switch_to_def)
  moreover have "good_step Q ok a (d, E) (?d, E(n \<mapsto> ?f s1))"
    using good_step_trans [OF good_step_trans [OF r(2) f]] u by simp
  moreover have "Q ?d = removeAll n (Q d)" using frame [of ?d d1] r(3) by simp
  ultimately show ?thesis using r(5,6) by (intro exI [of _ ?d] exI [of _ "?f s1"]) (simp add: ent_same_def)
qed

lemma schedule_step:
  assumes "ok d" "q_inv Q a (d, E)"
  shows "\<exists>st' sw. schedule_in C now ts (d, E) = Some (st', sw) \<and> good_step Q ok a (d, E) st' \<and>
    (\<forall>n. sw = Some n \<longrightarrow> dm_curr (fst st') = Some n)"
proof -
  obtain d1 E1 where r: "requeue_current C ts (d, E) = Some (d1, E1)" "good_step Q ok a (d, E) (d1, E1)" "dm_curr d1 = dm_curr d"
    using requeue_step [OF assms] by blast
  have g: "ok d1" "q_inv Q a (d1, E1)" using r(2) by (simp_all add: good_step_def)
  have set_curr: "good_step Q ok a (d1, E1) (set_curr c (d1, E1))"
    if "\<And>e. c = Some e \<Longrightarrow> \<exists>s. E1 e = Some s \<and> se_domain s = Some a" for c
    unfolding set_curr_def fst_conv snd_conv
    by (rule field_step [OF g]) (use that in \<open>simp_all add: dom_fixed_def\<close>)
  show ?thesis
  proof (cases "Q d1")
    case Nil
    then have "schedule_in C now ts (d, E) = Some (set_curr None (d1, E1), None)"
      using pick [OF g(1), of E1] r(1) by (simp add: schedule_in_def)
    then show ?thesis using good_step_trans [OF r(2) set_curr [of None]] by auto
  next
    case (Cons n ns)
    then have "n \<in> set (Q d1)" by simp
    then obtain s where s: "E1 n = Some s" "se_domain s = Some a" "se_on_rq s"
      using g(2) by (auto simp: q_inv_def)
    show ?thesis
    proof (cases "dm_curr d1 = Some n")
      case True
      then have "schedule_in C now ts (d, E) = Some (set_curr (Some n) (d1, E1), None)"
        using pick [OF g(1), of E1] r(1,3) Cons True by (simp add: schedule_in_def)
      then show ?thesis using good_step_trans [OF r(2) set_curr [of "Some n"]] s by auto
    next
      case False
      obtain d' s' where w: "switch_to C now n (d1, E1) = Some (d', E1(n \<mapsto> s'))"
        "good_step Q ok a (d1, E1) (d', E1(n \<mapsto> s'))" "dm_curr d' = Some n"
        using switch_step [OF g s] by blast
      have "schedule_in C now ts (d, E) = Some ((d', E1(n \<mapsto> s')), Some n)"
        using pick [OF g(1), of E1] r(1,3) Cons False w(1) by (auto simp: schedule_in_def)
      then show ?thesis using good_step_trans [OF r(2) w(2)] w(3) by auto
    qed
  qed
qed

lemma tick_domain_step:
  assumes "ok d" "q_inv Q a (d, E)"
  shows "\<exists>st' x y. tick_domain C now (d, E) = Some (st', x, y) \<and> good_step Q ok a (d, E) st'"
proof -
  have "\<exists>d1 E1. (case dm_curr d of None \<Rightarrow> Some (d, E) | Some e \<Rightarrow> sc_tick C now e (d, E)) = Some (d1, E1) \<and>
      good_step Q ok a (d, E) (d1, E1)"
  proof (cases "dm_curr d")
    case None
    then show ?thesis using good_step_refl [of ok, OF assms] by simp
  next
    case (Some e)
    then obtain s where "E e = Some s" "se_domain s = Some a" using assms(2) by (auto simp: q_inv_def)
    then show ?thesis using tick_step [OF assms, of e s now] Some by auto
  qed
  then obtain d1 E1 where r: "(case dm_curr d of None \<Rightarrow> Some (d, E) | Some e \<Rightarrow> sc_tick C now e (d, E)) = Some (d1, E1)"
    "good_step Q ok a (d, E) (d1, E1)"
    by blast
  have g: "ok d1" "q_inv Q a (d1, E1)" using r(2) by (simp_all add: good_step_def)
  define d2 where "d2 = d1\<lparr>dm_timeslice_remaining :=
     (if dm_timeslice_remaining d1 - 1 = 0 then dm_timeslice d1 else dm_timeslice_remaining d1 - 1)\<rparr>"
  have f: "good_step Q ok a (d1, E1) (d2, E1)"
    by (rule field_step [OF g]) (use g(2) in \<open>auto simp: d2_def dom_fixed_def q_inv_def\<close>)
  then have g2: "ok d2" "q_inv Q a (d2, E1)" by (simp_all add: good_step_def)
  have "\<exists>p. (case dm_curr d2 of None \<Rightarrow> Some False | Some e \<Rightarrow> sc_should_preempt C e (d2, E1)) = Some p"
  proof (cases "dm_curr d2")
    case (Some e)
    then obtain s where "E1 e = Some s" using g2(2) by (auto simp: q_inv_def)
    then show ?thesis using preempt [OF g2(1) q_inv_live [OF g2(2)]] Some by auto
  qed auto
  then obtain p where p: "(case dm_curr d2 of None \<Rightarrow> Some False | Some e \<Rightarrow> sc_should_preempt C e (d2, E1)) = Some p"
    by blast
  have "tick_domain C now (d, E) = Some ((d2, E1), dm_timeslice_remaining d1 - 1 = 0, p)"
    unfolding tick_domain_def fst_conv r(1) Option.bind.bind_lunit prod.case Let_def d2_def [symmetric] p ..
  then show ?thesis using good_step_trans [OF r(2) f] by blast
qed

end


section \<open>The hypervisor\<close>

definition class_queue :: "sched_class_type \<Rightarrow> sched_domain \<Rightarrow> nat list" where
  "class_queue t = (if t = CLASS_IDLE then dm_runqueue else data_queue)"

definition class_ok :: "sched_class_type \<Rightarrow> sched_domain \<Rightarrow> bool" where
  "class_ok t = (if t = CLASS_IDLE then (\<lambda>d. dm_data d = None) else has_data)"

lemma class_policy:
  assumes "class_of t = Some C"
  shows "sched_policy C (class_queue t) (class_ok t)"
  using assms coop.sched_policy_axioms rt.sched_policy_axioms fair.sched_policy_axioms batch.sched_policy_axioms
    idle.sched_policy_axioms
  by (cases t) (auto simp: class_of_def class_queue_def class_ok_def)

definition dom_inv :: "nat \<Rightarrow> sched_domain \<Rightarrow> ents \<Rightarrow> bool" where
  "dom_inv a d E \<longleftrightarrow> class_of (dm_class d) \<noteq> None \<and> class_ok (dm_class d) d \<and> q_inv (class_queue (dm_class d)) a (d, E)"

definition hyper_inv :: "hypervisor \<Rightarrow> bool" where
  "hyper_inv h \<longleftrightarrow>
     (\<forall>a d. hv_doms h a = Some d \<longrightarrow> dom_inv a d (hv_ents h)) \<and>
     (\<forall>e s a. hv_ents h e = Some s \<longrightarrow> se_domain s = Some a \<longrightarrow> hv_doms h a \<noteq> None) \<and>
     (\<forall>e s. hv_ents h e = Some s \<longrightarrow> se_on_rq s \<longrightarrow> se_domain s \<noteq> None) \<and>
     (\<forall>a d p. hv_doms h a = Some d \<longrightarrow> dm_parent d = Some p \<longrightarrow> hv_doms h p \<noteq> None) \<and>
     (\<forall>cpu a. hv_current h cpu = Some a \<longrightarrow> hv_doms h a \<noteq> None) \<and>
     distinct (hv_list h) \<and> set (hv_list h) = {a. hv_doms h a \<noteq> None} \<and> length (hv_list h) \<le> SCHED_MAX_DOMAINS"

lemma hyper_invI:
  assumes "\<And>a d. hv_doms h a = Some d \<Longrightarrow> dom_inv a d (hv_ents h)"
    and "\<And>e s a. hv_ents h e = Some s \<Longrightarrow> se_domain s = Some a \<Longrightarrow> hv_doms h a \<noteq> None"
    and "\<And>e s. hv_ents h e = Some s \<Longrightarrow> se_on_rq s \<Longrightarrow> se_domain s \<noteq> None"
    and "\<And>a d p. hv_doms h a = Some d \<Longrightarrow> dm_parent d = Some p \<Longrightarrow> hv_doms h p \<noteq> None"
    and "\<And>cpu a. hv_current h cpu = Some a \<Longrightarrow> hv_doms h a \<noteq> None"
    and "distinct (hv_list h)" "set (hv_list h) = {a. hv_doms h a \<noteq> None}" "length (hv_list h) \<le> SCHED_MAX_DOMAINS"
  shows "hyper_inv h"
  using assms unfolding hyper_inv_def by (intro conjI allI impI)

text \<open>The invariant looks at these parts only.\<close>

lemma hyper_inv_cong:
  assumes "hv_doms h' = hv_doms h" "hv_ents h' = hv_ents h" "hv_list h' = hv_list h"
    and "\<And>cpu a. hv_current h' cpu = Some a \<Longrightarrow> hv_doms h a \<noteq> None" "hyper_inv h"
  shows "hyper_inv h'"
  using assms(5) assms(4) unfolding hyper_inv_def assms(1-3) by blast

text \<open>A step of one domain.\<close>

lemma q_inv_frame:
  assumes "q_inv Q b (d, E)" "ent_frame a E E'" "a \<noteq> b"
  shows "q_inv Q b (d, E')"
proof -
  have same: "(\<exists>s. E' x = Some s \<and> se_domain s = Some b \<and> P s) \<longleftrightarrow> (\<exists>s. E x = Some s \<and> se_domain s = Some b \<and> P s)" for x P
  proof (cases "E x")
    case None
    moreover from this have "E' x = None" using assms(2) unfolding ent_frame_def by blast
    ultimately show ?thesis by simp
  next
    case (Some s)
    then have "E' x \<noteq> None" using assms(2) unfolding ent_frame_def by (metis option.distinct(1))
    then obtain s' where s': "E' x = Some s'" by blast
    then have "se_domain s' = se_domain s" "se_domain s \<noteq> Some a \<longrightarrow> s' = s"
      using assms(2) Some unfolding ent_frame_def by blast+
    then show ?thesis using Some s' assms(3) by auto
  qed
  have c: "(\<exists>s. E' x = Some s \<and> se_domain s = Some b) \<longleftrightarrow> (\<exists>s. E x = Some s \<and> se_domain s = Some b)" for x
    using same [of x "\<lambda>_. True"] by simp
  show ?thesis using assms(1) unfolding q_inv_def prod.case by (simp add: same c)
qed

lemma hyper_inv_put:
  assumes "hyper_inv h" "hv_doms h a = Some d"
    and "good_step (class_queue (dm_class d)) (class_ok (dm_class d)) a (d, hv_ents h) st"
  shows "hyper_inv (put_dstate a h st)"
proof -
  obtain d' E' where st: "st = (d', E')" by (cases st)
  have g: "class_ok (dm_class d) d'" "q_inv (class_queue (dm_class d)) a (d', E')" "ent_frame a (hv_ents h) E'"
    "dm_class d' = dm_class d" "dm_parent d' = dm_parent d"
    using assms(3) by (auto simp: good_step_def st dom_fixed_def)
  have ent: "\<exists>s0. hv_ents h e = Some s0 \<and> se_domain s = se_domain s0 \<and> (se_domain s \<noteq> Some a \<longrightarrow> s = s0)" if "E' e = Some s" for e s
  proof -
    have "hv_ents h e \<noteq> None" using g(3) that unfolding ent_frame_def by (metis option.distinct(1))
    then obtain s0 where "hv_ents h e = Some s0" by blast
    then show ?thesis using g(3) that unfolding ent_frame_def by (intro exI [of _ s0]) metis
  qed
  have "dom_inv a d' E'" using assms(1,2) g by (auto simp: hyper_inv_def dom_inv_def)
  moreover have "dom_inv b db E'" if "hv_doms h b = Some db" "b \<noteq> a" for b db
    using assms(1) that q_inv_frame [OF _ g(3)] unfolding hyper_inv_def dom_inv_def by metis
  ultimately have doms: "\<forall>b db. ((hv_doms h)(a \<mapsto> d')) b = Some db \<longrightarrow> dom_inv b db E'" by simp
  have on: "se_domain s \<noteq> None" if "E' e = Some s" "se_on_rq s" for e s
    using ent [OF that(1)] that(2) assms(1) unfolding hyper_inv_def by (metis option.distinct(1))
  have belongs: "((hv_doms h)(a \<mapsto> d')) b \<noteq> None" if "E' e = Some s" "se_domain s = Some b" for e s b
    using ent [OF that(1)] that(2) assms(1) unfolding hyper_inv_def by (metis fun_upd_apply option.distinct(1))
  have par: "((hv_doms h)(a \<mapsto> d')) p \<noteq> None" if "((hv_doms h)(a \<mapsto> d')) b = Some db" "dm_parent db = Some p" for b db p
    using that g(5) assms(1,2) unfolding hyper_inv_def by (metis fun_upd_apply option.distinct(1) option.inject)
  have cur: "((hv_doms h)(a \<mapsto> d')) b \<noteq> None" if "hv_current h cpu = Some b" for cpu b
    using that assms(1) unfolding hyper_inv_def by (metis fun_upd_apply option.distinct(1))
  have "{b. ((hv_doms h)(a \<mapsto> d')) b \<noteq> None} = {b. hv_doms h b \<noteq> None}" using assms(2) by auto
  then show ?thesis
    using doms on belongs par cur assms(1) by (simp add: hyper_inv_def put_dstate_def st)
qed

lemma domain_policy:
  assumes "hyper_inv h" "hv_doms h a = Some d"
  obtains C where "domain_class d = Some C" "sched_policy C (class_queue (dm_class d)) (class_ok (dm_class d))"
    "class_ok (dm_class d) d" "q_inv (class_queue (dm_class d)) a (d, hv_ents h)"
proof -
  have i: "class_of (dm_class d) \<noteq> None" "class_ok (dm_class d) d" "q_inv (class_queue (dm_class d)) a (d, hv_ents h)"
    using assms unfolding hyper_inv_def dom_inv_def by blast+
  then obtain C where "class_of (dm_class d) = Some C" by blast
  then show ?thesis using that [of C] class_policy i(2,3) by (simp add: domain_class_def)
qed

section \<open>The calls\<close>

lemma pick_domain_total:
  assumes "\<forall>a\<in>set as. D a \<noteq> None"
  shows "\<exists>r. pick_domain_from D as best p = Some r \<and> (\<forall>a. r = Some a \<longrightarrow> a \<in> set as \<or> best = Some a)"
  using assms
proof (induction as arbitrary: best p)
  case (Cons a as)
  obtain d where d: "D a = Some d" using Cons.prems by auto
  show ?case
  proof (cases "dm_active d \<and> 0 < dm_nr_running d \<and> dm_priority d < p")
    case True
    then show ?thesis using Cons.IH [of "Some a" "dm_priority d"] Cons.prems d by auto
  next
    case False
    then show ?thesis using Cons.IH [of best p] Cons.prems d by auto
  qed
qed simp

lemma hypervisor_pick_total:
  assumes "hyper_inv h"
  shows "\<exists>r. hypervisor_pick_domain h = Some r \<and> (\<forall>a. r = Some a \<longrightarrow> hv_doms h a \<noteq> None)"
proof -
  have s: "set (hv_list h) = {a. hv_doms h a \<noteq> None}" using assms by (simp add: hyper_inv_def)
  then show ?thesis
    using pick_domain_total [of "hv_list h" "hv_doms h" None 999] by (auto simp: hypervisor_pick_domain_def)
qed

lemma schedule_inv:
  assumes "hyper_inv h"
  shows "\<exists>h' cs. sched_hypervisor_schedule cpu h = Some (h', cs) \<and> hyper_inv h'"
proof -
  have "\<exists>r. (case hv_current h cpu of Some a \<Rightarrow> Some (Some a) | None \<Rightarrow> hypervisor_pick_domain h) = Some r \<and>
      (\<forall>a. r = Some a \<longrightarrow> hv_doms h a \<noteq> None)"
    using hypervisor_pick_total [OF assms] assms by (cases "hv_current h cpu") (auto simp: hyper_inv_def)
  then obtain r where r: "(case hv_current h cpu of Some a \<Rightarrow> Some (Some a) | None \<Rightarrow> hypervisor_pick_domain h) = Some r"
    "\<And>a. r = Some a \<Longrightarrow> hv_doms h a \<noteq> None"
    by blast
  show ?thesis
  proof (cases r)
    case None
    then show ?thesis using r(1) assms by (simp add: sched_hypervisor_schedule_def)
  next
    case (Some a)
    obtain d where d: "hv_doms h a = Some d" using r(2) [OF Some] by blast
    let ?h = "h\<lparr>hv_current := (hv_current h)(cpu := Some a)\<rparr>"
    have i: "hyper_inv ?h"
      by (rule hyper_inv_cong [OF _ _ _ _ assms]) (use assms d in \<open>auto simp: hyper_inv_def split: if_splits\<close>)
    obtain C where C: "domain_class d = Some C" "sched_policy C (class_queue (dm_class d)) (class_ok (dm_class d))"
      "class_ok (dm_class d) d" "q_inv (class_queue (dm_class d)) a (d, hv_ents h)"
      using domain_policy [OF assms d] by blast
    obtain st sw where st: "schedule_in C (sched_clock ?h) (hv_state ?h) (d, hv_ents h) = Some (st, sw)"
      "good_step (class_queue (dm_class d)) (class_ok (dm_class d)) a (d, hv_ents h) st"
      using sched_policy.schedule_step [OF C(2-4)] by blast
    have p: "hyper_inv (put_dstate a ?h st)"
      using hyper_inv_put [OF i, of a d st] d st(2) by simp
    have t: "hyper_inv ((put_dstate a ?h st)\<lparr>hv_tasks := T\<rparr>)" for T
      by (rule hyper_inv_cong [OF _ _ _ _ p]) (use p in \<open>auto simp: hyper_inv_def\<close>)
    show ?thesis
      using r(1) Some d C(1) st(1) p t
      by (cases sw) (auto simp: sched_hypervisor_schedule_def Let_def split: option.split)
  qed
qed

lemma tick_inv:
  assumes "hyper_inv h0"
  shows "\<exists>h' cs. sched_hypervisor_tick cpu h0 = Some (h', cs) \<and> hyper_inv h'"
proof -
  let ?h = "h0\<lparr>hv_now := hv_now h0 + 1, hv_total_ticks := hv_total_ticks h0 + 1\<rparr>"
  have i: "hyper_inv ?h"
    by (rule hyper_inv_cong [OF _ _ _ _ assms]) (use assms in \<open>auto simp: hyper_inv_def\<close>)
  have go: "hyper_inv (h\<lparr>hv_current := (hv_current h)(cpu := Some b), hv_domain_switches := n\<rparr>)"
    if "hyper_inv h" "hv_doms h b \<noteq> None" for h b n
    by (rule hyper_inv_cong [OF _ _ _ _ that(1)]) (use that in \<open>auto simp: hyper_inv_def split: if_splits\<close>)
  show ?thesis
  proof (cases "hv_current h0 cpu")
    case None
    obtain r where r: "hypervisor_pick_domain ?h = Some r" "\<forall>a. r = Some a \<longrightarrow> hv_doms ?h a \<noteq> None"
      using hypervisor_pick_total [OF i] by blast
    show ?thesis
    proof (cases r)
      case None
      then show ?thesis using r(1) \<open>hv_current h0 cpu = None\<close> i by (simp add: sched_hypervisor_tick_def Let_def)
    next
      case (Some a)
      then show ?thesis using r \<open>hv_current h0 cpu = None\<close> go [OF i, of a] by (simp add: sched_hypervisor_tick_def Let_def)
    qed
  next
    case (Some a)
    obtain d where d: "hv_doms ?h a = Some d" using i Some by (fastforce simp: hyper_inv_def)
    obtain C where C: "domain_class d = Some C" "sched_policy C (class_queue (dm_class d)) (class_ok (dm_class d))"
      "class_ok (dm_class d) d" "q_inv (class_queue (dm_class d)) a (d, hv_ents ?h)"
      using domain_policy [OF i d] by blast
    obtain st x y where st: "tick_domain C (sched_clock ?h) (d, hv_ents ?h) = Some (st, x, y)"
      "good_step (class_queue (dm_class d)) (class_ok (dm_class d)) a (d, hv_ents ?h) st"
      using sched_policy.tick_domain_step [OF C(2-4)] by blast
    let ?h1 = "put_dstate a ?h st"
    have p: "hyper_inv ?h1" by (rule hyper_inv_put [OF i d st(2)])
    obtain r where r: "(if x then hypervisor_pick_domain ?h1 else Some None) = Some r" "\<forall>b. r = Some b \<longrightarrow> hv_doms ?h1 b \<noteq> None"
      using hypervisor_pick_total [OF p] by (cases x) auto
    define h2 where "h2 = (case r of Some b \<Rightarrow> if b \<noteq> a then ?h1\<lparr>hv_current := (hv_current ?h1)(cpu := Some b),
        hv_domain_switches := hv_domain_switches ?h1 + 1\<rparr> else ?h1 | None \<Rightarrow> ?h1)"
    have h2: "hyper_inv h2" using p r(2) go [OF p] by (auto simp: h2_def split: option.split)
    have "sched_hypervisor_tick cpu h0 = (if y then sched_hypervisor_schedule cpu h2 else Some (h2, None))"
      using Some d C(1) st(1) r(1) unfolding sched_hypervisor_tick_def Let_def by (simp add: h2_def)
    then show ?thesis using schedule_inv [OF h2] h2 by auto
  qed
qed


text \<open>An entity that is not on a queue and not running may change or go.\<close>

definition not_current :: "nat \<Rightarrow> hypervisor \<Rightarrow> bool" where
  "not_current e h \<longleftrightarrow> (\<forall>a d. hv_doms h a = Some d \<longrightarrow> dm_curr d \<noteq> Some e)"

lemma set_ent_inv:
  assumes "hyper_inv h" "not_current e h" "\<And>s. hv_ents h e = Some s \<Longrightarrow> \<not> se_on_rq s"
    and "\<And>s. v = Some s \<Longrightarrow> \<not> se_on_rq s \<and> (\<forall>a. se_domain s = Some a \<longrightarrow> hv_doms h a \<noteq> None)"
  shows "hyper_inv (h\<lparr>hv_ents := (hv_ents h)(e := v)\<rparr>)"
proof -
  let ?E = "(hv_ents h)(e := v)"
  have dom: "dom_inv a d ?E" if d: "hv_doms h a = Some d" for a d
  proof -
    let ?Q = "class_queue (dm_class d)"
    have q: "dom_inv a d (hv_ents h)" using assms(1) d by (simp add: hyper_inv_def)
    then have x: "x \<in> set (?Q d) \<longleftrightarrow> (\<exists>s. hv_ents h x = Some s \<and> se_domain s = Some a \<and> se_on_rq s)" for x
      by (simp add: dom_inv_def q_inv_def)
    have "x \<in> set (?Q d) \<longleftrightarrow> (\<exists>s. ?E x = Some s \<and> se_domain s = Some a \<and> se_on_rq s)" for x
      using x [of x] assms(3,4) by (cases "x = e") auto
    moreover have "\<exists>s. ?E y = Some s \<and> se_domain s = Some a" if "dm_curr d = Some y" for y
    proof -
      have "y \<noteq> e" using assms(2) d that by (auto simp: not_current_def)
      then show ?thesis using q that by (auto simp: dom_inv_def q_inv_def)
    qed
    ultimately show ?thesis using q by (simp add: dom_inv_def q_inv_def)
  qed
  have "se_domain s \<noteq> None" if "?E x = Some s" "se_on_rq s" for x s
    using that assms(1,4) by (cases "x = e") (auto simp: hyper_inv_def)
  moreover have "hv_doms h a \<noteq> None" if "?E x = Some s" "se_domain s = Some a" for x s a
    using that assms(1,4) by (cases "x = e") (auto simp: hyper_inv_def)
  ultimately show ?thesis using dom assms(1) unfolding hyper_inv_def by simp
qed

lemma with_class_inv:
  assumes "hyper_inv h" "hv_doms h a = Some d"
    and "\<And>C. sched_policy C (class_queue (dm_class d)) (class_ok (dm_class d)) \<Longrightarrow>
      class_ok (dm_class d) d \<Longrightarrow> q_inv (class_queue (dm_class d)) a (d, hv_ents h) \<Longrightarrow>
      \<exists>st. f C (d, hv_ents h) = Some st \<and> good_step (class_queue (dm_class d)) (class_ok (dm_class d)) a (d, hv_ents h) st \<and> P st"
  shows "\<exists>st. with_class a h f = Some (put_dstate a h st) \<and> hyper_inv (put_dstate a h st) \<and> P st"
proof -
  obtain C where C: "domain_class d = Some C" "sched_policy C (class_queue (dm_class d)) (class_ok (dm_class d))"
    "class_ok (dm_class d) d" "q_inv (class_queue (dm_class d)) a (d, hv_ents h)"
    using domain_policy [OF assms(1,2)] by blast
  obtain st where "f C (d, hv_ents h) = Some st" "P st"
    "good_step (class_queue (dm_class d)) (class_ok (dm_class d)) a (d, hv_ents h) st"
    using assms(3) [OF C(2-4)] by blast
  then show ?thesis
    using hyper_inv_put [OF assms(1,2), of st] C(1) assms(2) by (intro exI [of _ st]) (simp add: with_class_def)
qed

text \<open>Taking an entity that is on its queue off it.\<close>

lemma dequeue_inv:
  assumes "hyper_inv h" "hv_ents h e = Some s" "se_on_rq s" "se_domain s = Some a"
  shows "\<exists>st. with_class a h (\<lambda>C. sc_dequeue C e) = Some (put_dstate a h st) \<and> hyper_inv (put_dstate a h st) \<and>
    (\<exists>s'. snd st e = Some s' \<and> \<not> se_on_rq s' \<and> se_domain s' = Some a) \<and> Some (dm_curr (fst st)) = map_option dm_curr (hv_doms h a)"
proof -
  obtain d where d: "hv_doms h a = Some d" using assms(1,2,4) unfolding hyper_inv_def by blast
  show ?thesis
  proof (rule with_class_inv [OF assms(1) d])
    fix C
    assume C: "sched_policy C (class_queue (dm_class d)) (class_ok (dm_class d))" "class_ok (dm_class d) d"
      "q_inv (class_queue (dm_class d)) a (d, hv_ents h)"
    obtain d' s' where "sc_dequeue C e (d, hv_ents h) = Some (d', (hv_ents h)(e \<mapsto> s'))"
      "good_step (class_queue (dm_class d)) (class_ok (dm_class d)) a (d, hv_ents h) (d', (hv_ents h)(e \<mapsto> s'))"
      "dm_curr d' = dm_curr d" "ent_same s s'" "\<not> se_on_rq s'"
      using sched_policy.dequeue_step [OF C assms(2,4,3)] by blast
    then show "\<exists>st. sc_dequeue C e (d, hv_ents h) = Some st \<and>
        good_step (class_queue (dm_class d)) (class_ok (dm_class d)) a (d, hv_ents h) st \<and>
        (\<exists>s'. snd st e = Some s' \<and> \<not> se_on_rq s' \<and> se_domain s' = Some a) \<and> Some (dm_curr (fst st)) = map_option dm_curr (hv_doms h a)"
      using assms(4) d by (intro exI [of _ "(d', (hv_ents h)(e \<mapsto> s'))"]) (simp add: ent_same_def)
  qed
qed

lemma put_not_current:
  assumes "not_current e h" "Some (dm_curr (fst st)) = map_option dm_curr (hv_doms h a)"
  shows "not_current e (put_dstate a h st)"
proof -
  obtain d where "hv_doms h a = Some d" "dm_curr (fst st) = dm_curr d" using assms(2) by (cases "hv_doms h a") auto
  then show ?thesis using assms(1) by (auto simp: not_current_def put_dstate_def)
qed

lemma attach_inv:
  assumes "hyper_inv h" "hv_ents h e = Some s" "se_domain s = None" "hv_doms h a = Some d"
  shows "\<exists>h'. sched_entity_attach (Some e) (Some a) h = Some (0, h') \<and> hyper_inv h'"
proof -
  let ?h = "h\<lparr>hv_ents := (hv_ents h)(e \<mapsto> s\<lparr>se_domain := Some a\<rparr>)\<rparr>"
  have nr: "\<not> se_on_rq s" using assms(1-3) unfolding hyper_inv_def by blast
  have nc: "not_current e h"
    unfolding not_current_def
  proof (intro allI impI notI)
    fix b db assume "hv_doms h b = Some db" "dm_curr db = Some e"
    then have "q_inv (class_queue (dm_class db)) b (db, hv_ents h)" using assms(1) by (simp add: hyper_inv_def dom_inv_def)
    then show False using \<open>dm_curr db = Some e\<close> assms(2,3) by (auto simp: q_inv_def)
  qed
  have i: "hyper_inv ?h"
    by (rule set_ent_inv [OF assms(1) nc]) (use assms nr in auto)
  have "\<exists>st. with_class a ?h (\<lambda>C. sc_enqueue C e) = Some (put_dstate a ?h st) \<and> hyper_inv (put_dstate a ?h st) \<and> True"
  proof (rule with_class_inv [OF i])
    show "hv_doms ?h a = Some d" using assms(4) by simp
    fix C
    assume C: "sched_policy C (class_queue (dm_class d)) (class_ok (dm_class d))" "class_ok (dm_class d) d"
      "q_inv (class_queue (dm_class d)) a (d, hv_ents ?h)"
    have e: "hv_ents ?h e = Some (s\<lparr>se_domain := Some a\<rparr>)" "se_domain (s\<lparr>se_domain := Some a\<rparr>) = Some a"
      "\<not> se_on_rq (s\<lparr>se_domain := Some a\<rparr>)" using nr by simp_all
    show "\<exists>st. sc_enqueue C e (d, hv_ents ?h) = Some st \<and>
        good_step (class_queue (dm_class d)) (class_ok (dm_class d)) a (d, hv_ents ?h) st \<and> True"
      using sched_policy.enqueue_step [OF C e] by blast
  qed
  then show ?thesis using assms(2) by (auto simp: sched_entity_attach_def)
qed

lemma detach_inv:
  assumes "hyper_inv h" "hv_ents h e = Some s" "not_current e h"
  shows "\<exists>h'. sched_entity_detach (Some e) h = Some h' \<and> hyper_inv h'"
proof (cases "se_domain s")
  case None
  then show ?thesis using assms(1,2) by (simp add: sched_entity_detach_def)
next
  case (Some a)
  obtain d where d: "hv_doms h a = Some d" using assms(1,2) Some unfolding hyper_inv_def by blast
  have "\<exists>h1 s1. (if se_on_rq s then with_class a h (\<lambda>C. sc_dequeue C e) else if hv_doms h a = None then None else Some h) = Some h1 \<and>
      hyper_inv h1 \<and> not_current e h1 \<and> hv_ents h1 e = Some s1 \<and> \<not> se_on_rq s1"
  proof (cases "se_on_rq s")
    case True
    obtain st where st: "with_class a h (\<lambda>C. sc_dequeue C e) = Some (put_dstate a h st)" "hyper_inv (put_dstate a h st)"
      "\<exists>s'. snd st e = Some s' \<and> \<not> se_on_rq s' \<and> se_domain s' = Some a" "Some (dm_curr (fst st)) = map_option dm_curr (hv_doms h a)"
      using dequeue_inv [OF assms(1,2) True Some] by blast
    have "hv_ents (put_dstate a h st) = snd st" by (simp add: put_dstate_def)
    then show ?thesis using st put_not_current [OF assms(3) st(4)] True by auto
  next
    case False
    then show ?thesis using assms d by auto
  qed
  then obtain h1 s1 where h1: "(if se_on_rq s then with_class a h (\<lambda>C. sc_dequeue C e)
      else if hv_doms h a = None then None else Some h) = Some h1"
    "hyper_inv h1" "not_current e h1" "hv_ents h1 e = Some s1" "\<not> se_on_rq s1"
    by blast
  have "hyper_inv (h1\<lparr>hv_ents := (hv_ents h1)(e \<mapsto> s1\<lparr>se_domain := None\<rparr>)\<rparr>)"
    by (rule set_ent_inv [OF h1(2,3)]) (use h1(4,5) in auto)
  then show ?thesis
    using assms(2) Some h1(1,4) by (simp add: sched_entity_detach_def upd_ent_def)
qed

lemma destroy_entity_inv:
  assumes "hyper_inv h" "hv_ents h e = Some s" "not_current e h"
  shows "\<exists>h'. sched_entity_destroy e h = Some h' \<and> hyper_inv h'"
proof -
  have "\<exists>h1. (case se_domain s of Some a \<Rightarrow> if se_on_rq s then with_class a h (\<lambda>C. sc_dequeue C e) else Some h
        | None \<Rightarrow> Some h) = Some h1 \<and> hyper_inv h1 \<and> not_current e h1 \<and> (\<forall>s1. hv_ents h1 e = Some s1 \<longrightarrow> \<not> se_on_rq s1)"
  proof (cases "se_on_rq s")
    case True
    then obtain a where a: "se_domain s = Some a" using assms(1,2) unfolding hyper_inv_def by blast
    obtain st where st: "with_class a h (\<lambda>C. sc_dequeue C e) = Some (put_dstate a h st)" "hyper_inv (put_dstate a h st)"
      "\<exists>s'. snd st e = Some s' \<and> \<not> se_on_rq s' \<and> se_domain s' = Some a" "Some (dm_curr (fst st)) = map_option dm_curr (hv_doms h a)"
      using dequeue_inv [OF assms(1,2) True a] by blast
    have "hv_ents (put_dstate a h st) = snd st" by (simp add: put_dstate_def)
    then show ?thesis using st put_not_current [OF assms(3) st(4)] True a by auto
  next
    case False
    then show ?thesis using assms by (cases "se_domain s") auto
  qed
  then obtain h1 where h1: "(case se_domain s of Some a \<Rightarrow> if se_on_rq s then with_class a h (\<lambda>C. sc_dequeue C e) else Some h
        | None \<Rightarrow> Some h) = Some h1" "hyper_inv h1" "not_current e h1" "\<forall>s1. hv_ents h1 e = Some s1 \<longrightarrow> \<not> se_on_rq s1"
    by blast
  have "hyper_inv (h1\<lparr>hv_ents := (hv_ents h1)(e := None)\<rparr>)"
    by (rule set_ent_inv [OF h1(2,3)]) (use h1(4) in auto)
  then show ?thesis using assms(2) h1(1) by (auto simp: sched_entity_destroy_def)
qed


text \<open>Domains come and go.\<close>

lemma index_of_Some: "index_of a xs = Some i \<Longrightarrow> i < length xs \<and> xs ! i = a"
  by (induction xs arbitrary: i) (auto split: if_splits)

lemma index_of_None: "index_of a xs = None \<Longrightarrow> a \<notin> set xs"
  by (induction xs) (auto split: if_splits)

lemma swap_remove_mset: "mset (swap_remove a xs) = mset (remove1 a xs)"
proof (cases "index_of a xs")
  case None
  then show ?thesis using index_of_None [OF None] by (simp add: swap_remove_def remove1_idem)
next
  case (Some i)
  then have i: "i < length xs" "xs ! i = a" "xs \<noteq> []" using index_of_Some [OF Some] by auto
  let ?ys = "xs[i := last xs]"
  have ne: "?ys \<noteq> []" using i(3) by simp
  have "last ?ys = last xs" using i by (auto simp: last_conv_nth nth_list_update)
  moreover have "mset (butlast ?ys) + {#last ?ys#} = mset ?ys"
    using append_butlast_last_id [OF ne] by (metis mset_append mset.simps mset_single_iff_right add.commute union_code)
  moreover have "mset ?ys = add_mset (last xs) (mset xs - {#a#})" using i by (simp add: mset_update)
  ultimately show ?thesis using Some by (simp add: swap_remove_def)
qed

lemma class_init:
  assumes "class_of t = Some C" "ok \<or> t = CLASS_IDLE" "dm_class d = t" "dm_data d = None" "dm_runqueue d = []"
  shows "\<exists>d'. sc_init C ok d = Some d' \<and> class_ok t d' \<and> class_queue t d' = [] \<and> dm_class d' = t \<and>
    dm_nr_running d' = dm_nr_running d \<and> dm_curr d' = dm_curr d \<and> dm_parent d' = dm_parent d"
  using assms
  by (cases t) (auto simp: class_of_def coop_class_def rt_class_def fair_class_def batch_class_def idle_class_def coop_init_def
      rt_init_def fair_init_def batch_init_def idle_init_def init_data_def class_ok_def class_queue_def has_data_def
      data_queue_def empty_data_def upd_data_def)

lemma create_domain_inv:
  assumes "hyper_inv h" "\<And>a. mem = Some a \<Longrightarrow> hv_doms h a = None" "data_ok \<or> t = CLASS_IDLE"
    "\<And>p. parent = Some p \<Longrightarrow> hv_doms h p \<noteq> None"
  shows "\<exists>r h'. sched_domain_create mem data_ok t parent h = Some (r, h') \<and> hyper_inv h'"
proof (cases "length (hv_list h) < SCHED_MAX_DOMAINS \<and> (\<exists>C. class_of t = Some C) \<and> (\<exists>a. mem = Some a)")
  case False
  then show ?thesis using assms(1) by (auto simp: sched_domain_create_def split: option.split)
next
  case True
  then obtain C a where C: "class_of t = Some C" and a: "mem = Some a" by blast
  have fresh: "hv_doms h a = None" using assms(2) a by blast
  let ?d0 = "new_domain (length (hv_list h)) t parent"
  obtain d where d: "sc_init C data_ok ?d0 = Some d" "class_ok t d" "class_queue t d = []" "dm_class d = t"
    "dm_nr_running d = 0" "dm_curr d = None" "dm_parent d = parent"
    using class_init [OF C assms(3), of ?d0] by (auto simp: new_domain_def)
  let ?h1 = "h\<lparr>hv_doms := (hv_doms h)(a \<mapsto> d)\<rparr>"
  have none: "se_domain s \<noteq> Some a" if "hv_ents h e = Some s" for e s
    using assms(1) that fresh unfolding hyper_inv_def by metis
  have da: "dom_inv a d (hv_ents h)" using C d none by (auto simp: dom_inv_def q_inv_def)
  define D where "D = (case parent of None \<Rightarrow> (hv_doms h)(a \<mapsto> d)
     | Some p \<Rightarrow> ((hv_doms h)(a \<mapsto> d))(p := map_option (\<lambda>pd. pd\<lparr>dm_children := dm_children pd @ [a]\<rparr>) (hv_doms h p)))"
  have D: "\<exists>db'. ((hv_doms h)(a \<mapsto> d)) b = Some db' \<and> dm_class db = dm_class db' \<and> dm_data db = dm_data db' \<and>
      dm_runqueue db = dm_runqueue db' \<and> dm_nr_running db = dm_nr_running db' \<and> dm_curr db = dm_curr db' \<and>
      dm_parent db = dm_parent db'" if "D b = Some db" for b db
    using that assms(4) fresh by (auto simp: D_def split: option.splits if_splits)
  have domD: "D b \<noteq> None \<longleftrightarrow> b = a \<or> hv_doms h b \<noteq> None" for b
    using assms(4) fresh by (auto simp: D_def split: option.splits)
  have inv: "dom_inv b db (hv_ents h)" if b: "D b = Some db" for b db
  proof -
    obtain db' where e: "((hv_doms h)(a \<mapsto> d)) b = Some db'" "dm_class db = dm_class db'" "dm_data db = dm_data db'"
      "dm_runqueue db = dm_runqueue db'" "dm_nr_running db = dm_nr_running db'" "dm_curr db = dm_curr db'"
      using D [OF b] by blast
    have "dom_inv b db' (hv_ents h)" using e(1) da assms(1) by (auto simp: hyper_inv_def split: if_splits)
    moreover have "class_queue t db = class_queue t db'" "class_ok t db = class_ok t db'" for t
      using e by (auto simp: class_queue_def class_ok_def data_queue_def has_data_def)
    ultimately show ?thesis using e by (simp add: dom_inv_def q_inv_def)
  qed
  have r: "sched_domain_create mem data_ok t parent h = Some (Some a, h\<lparr>hv_doms := D, hv_list := hv_list h @ [a]\<rparr>)"
    using True C a d(1) assms(4) fresh
    by (auto simp: sched_domain_create_def D_def Let_def split: option.split)
  have par: "D p \<noteq> None" if "D b = Some db" "dm_parent db = Some p" for b db p
    using D [OF that(1)] that(2) d(7) assms(1,4) domD by (fastforce simp: hyper_inv_def split: if_splits)
  have belongs: "D b \<noteq> None" if "hv_ents h e = Some s" "se_domain s = Some b" for e s b
    using assms(1) that domD unfolding hyper_inv_def by blast
  have cur: "D b \<noteq> None" if "hv_current h cpu = Some b" for cpu b
    using assms(1) that domD unfolding hyper_inv_def by blast
  have l: "distinct (hv_list h)" "set (hv_list h) = {a. hv_doms h a \<noteq> None}"
    "\<forall>e s. hv_ents h e = Some s \<longrightarrow> se_on_rq s \<longrightarrow> se_domain s \<noteq> None"
    using assms(1) unfolding hyper_inv_def by blast+
  have "set (hv_list h @ [a]) = {b. D b \<noteq> None}" using l(2) domD by auto
  moreover have "distinct (hv_list h @ [a])" using l(1,2) fresh by auto
  ultimately have "hyper_inv (h\<lparr>hv_doms := D, hv_list := hv_list h @ [a]\<rparr>)"
    using inv par belongs cur l(3) True unfolding hyper_inv_def by simp
  then show ?thesis using r by blast
qed

definition unused_domain :: "nat \<Rightarrow> hypervisor \<Rightarrow> bool" where
  "unused_domain a h \<longleftrightarrow> (\<forall>e s. hv_ents h e = Some s \<longrightarrow> se_domain s \<noteq> Some a) \<and>
     (\<forall>cpu. hv_current h cpu \<noteq> Some a) \<and> (\<forall>b d. hv_doms h b = Some d \<longrightarrow> dm_parent d \<noteq> Some a)"

lemma destroy_domain_inv:
  assumes "hyper_inv h" "hv_doms h a = Some d" "unused_domain a h"
  shows "\<exists>h'. sched_domain_destroy (Some a) h = Some h' \<and> hyper_inv h'"
proof -
  have pa: "dm_parent d \<noteq> Some a" using assms(2,3) by (simp add: unused_domain_def)
  have pl: "hv_doms h p \<noteq> None" if "dm_parent d = Some p" for p using assms(1,2) that unfolding hyper_inv_def by blast
  define D where "D = ((case dm_parent d of None \<Rightarrow> hv_doms h
     | Some p \<Rightarrow> (hv_doms h)(p := map_option (\<lambda>pd. pd\<lparr>dm_children := removeAll a (dm_children pd)\<rparr>) (hv_doms h p))))(a := None)"
  have r: "sched_domain_destroy (Some a) h = Some (h\<lparr>hv_doms := D, hv_list := swap_remove a (hv_list h)\<rparr>)"
    using assms(2) pl by (auto simp: sched_domain_destroy_def D_def split: option.split)
  have D: "b \<noteq> a \<and> (\<exists>db'. hv_doms h b = Some db' \<and> dm_class db = dm_class db' \<and> dm_data db = dm_data db' \<and>
      dm_runqueue db = dm_runqueue db' \<and> dm_nr_running db = dm_nr_running db' \<and> dm_curr db = dm_curr db' \<and>
      dm_parent db = dm_parent db')" if "D b = Some db" for b db
    using that by (auto simp: D_def split: option.splits if_splits)
  have domD: "D b \<noteq> None \<longleftrightarrow> b \<noteq> a \<and> hv_doms h b \<noteq> None" for b
    using pl by (auto simp: D_def split: option.splits)
  have inv: "dom_inv b db (hv_ents h)" if b: "D b = Some db" for b db
  proof -
    obtain db' where e: "hv_doms h b = Some db'" "dm_class db = dm_class db'" "dm_data db = dm_data db'"
      "dm_runqueue db = dm_runqueue db'" "dm_nr_running db = dm_nr_running db'" "dm_curr db = dm_curr db'"
      using D [OF b] by blast
    have "dom_inv b db' (hv_ents h)" using e(1) assms(1) by (simp add: hyper_inv_def)
    moreover have "class_queue t db = class_queue t db'" "class_ok t db = class_ok t db'" for t
      using e by (auto simp: class_queue_def class_ok_def data_queue_def has_data_def)
    ultimately show ?thesis using e by (simp add: dom_inv_def q_inv_def)
  qed
  have par: "D p \<noteq> None" if p: "D b = Some db" "dm_parent db = Some p" for b db p
  proof -
    obtain db' where "hv_doms h b = Some db'" "dm_parent db' = Some p" using D [OF p(1)] p(2) by metis
    then have "hv_doms h p \<noteq> None" "p \<noteq> a" using assms(1,3) unfolding hyper_inv_def unused_domain_def by blast+
    then show ?thesis using domD by blast
  qed
  have belongs: "D b \<noteq> None" if w: "hv_ents h e = Some s" "se_domain s = Some b" for e s b
  proof -
    have "hv_doms h b \<noteq> None" using assms(1) w unfolding hyper_inv_def by blast
    moreover have "b \<noteq> a" using assms(3) w by (auto simp: unused_domain_def)
    ultimately show ?thesis using domD by blast
  qed
  have cur: "D b \<noteq> None" if w: "hv_current h cpu = Some b" for cpu b
  proof -
    have "hv_doms h b \<noteq> None" using assms(1) w unfolding hyper_inv_def by blast
    moreover have "b \<noteq> a" using assms(3) w by (auto simp: unused_domain_def)
    ultimately show ?thesis using domD by blast
  qed
  have l: "distinct (hv_list h)" "set (hv_list h) = {a. hv_doms h a \<noteq> None}" "length (hv_list h) \<le> 16"
    "\<forall>e s. hv_ents h e = Some s \<longrightarrow> se_on_rq s \<longrightarrow> se_domain s \<noteq> None"
    using assms(1) unfolding hyper_inv_def by blast+
  note m = swap_remove_mset [of a "hv_list h"]
  have t: "distinct (swap_remove a (hv_list h))" "set (swap_remove a (hv_list h)) = {b. D b \<noteq> None}"
      "length (swap_remove a (hv_list h)) \<le> 16"
    using mset_eq_imp_distinct_iff [OF m] distinct_remove1 [OF l(1)] apply simp
    using mset_eq_setD [OF m] set_remove1_eq [OF l(1), of a] l(2) domD apply auto [1]
    using mset_eq_length [OF m] l(3) by (auto simp: length_remove1)
  have "hyper_inv (h\<lparr>hv_doms := D, hv_list := swap_remove a (hv_list h)\<rparr>)"
    by (rule hyper_invI, simp_all del: not_None_eq)
      (fact t | erule (1) par | erule (1) belongs | erule cur | erule inv | erule (1) l(4) [rule_format])+
  then show ?thesis using r by blast
qed

lemma yield_inv:
  assumes "hyper_inv h" "\<And>a d. hv_current h cpu = Some a \<Longrightarrow> hv_doms h a = Some d \<Longrightarrow> dm_class d \<noteq> CLASS_IDLE"
  shows "\<exists>h' cs. sched_hypervisor_yield cpu h = Some (h', cs) \<and> hyper_inv h'"
proof (cases "hv_current h cpu")
  case None
  then show ?thesis using assms(1) by (simp add: sched_hypervisor_yield_def)
next
  case (Some a)
  obtain d where d: "hv_doms h a = Some d" using assms(1) Some unfolding hyper_inv_def by blast
  show ?thesis
  proof (cases "dm_curr d")
    case None
    then show ?thesis using Some d assms(1) by (simp add: sched_hypervisor_yield_def)
  next
    case e: (Some e)
    have "\<exists>st. with_class a h (\<lambda>C. sc_yield C e) = Some (put_dstate a h st) \<and> hyper_inv (put_dstate a h st) \<and> True"
    proof (rule with_class_inv [OF assms(1) d])
      fix C
      assume C: "sched_policy C (class_queue (dm_class d)) (class_ok (dm_class d))" "class_ok (dm_class d) d"
        "q_inv (class_queue (dm_class d)) a (d, hv_ents h)"
      have dat: "dm_data d \<noteq> None" using C(2) assms(2) [OF Some d] by (simp add: class_ok_def has_data_def)
      obtain s where s: "hv_ents h e = Some s" "se_domain s = Some a" using C(3) e by (auto simp: q_inv_def)
      show "\<exists>st. sc_yield C e (d, hv_ents h) = Some st \<and>
          good_step (class_queue (dm_class d)) (class_ok (dm_class d)) a (d, hv_ents h) st \<and> True"
        using sched_policy.yield_step [OF C s] dat by blast
    qed
    then obtain st where st: "with_class a h (\<lambda>C. sc_yield C e) = Some (put_dstate a h st)" "hyper_inv (put_dstate a h st)"
      by blast
    then show ?thesis using schedule_inv [OF st(2), of cpu] Some d e by (simp add: sched_hypervisor_yield_def)
  qed
qed


section \<open>Every call\<close>

datatype hyper_call =
    HCreateDomain "nat option" bool sched_class_type "nat option"
  | HDestroyDomain nat
  | HCreateEntity "nat option" "nat option"
  | HDestroyEntity nat
  | HAttach nat nat
  | HDetach nat
  | HSchedule nat
  | HYield nat
  | HTick nat

definition hyper_step :: "hyper_call \<Rightarrow> hypervisor \<Rightarrow> hypervisor option" where
  "hyper_step c h =
     (case c of
        HCreateDomain mem ok t p \<Rightarrow> map_option snd (sched_domain_create mem ok t p h)
      | HDestroyDomain a \<Rightarrow> sched_domain_destroy (Some a) h
      | HCreateEntity mem t \<Rightarrow> Some (snd (sched_entity_create mem t h))
      | HDestroyEntity e \<Rightarrow> sched_entity_destroy e h
      | HAttach e a \<Rightarrow> map_option snd (sched_entity_attach (Some e) (Some a) h)
      | HDetach e \<Rightarrow> sched_entity_detach (Some e) h
      | HSchedule cpu \<Rightarrow> map_option fst (sched_hypervisor_schedule cpu h)
      | HYield cpu \<Rightarrow> map_option fst (sched_hypervisor_yield cpu h)
      | HTick cpu \<Rightarrow> map_option fst (sched_hypervisor_tick cpu h))"

text \<open>What the code needs of its callers: fresh memory, live arguments, an entity attached once, nothing destroyed in use,
  and no yield in an idle domain.\<close>

definition hyper_allowed :: "hyper_call \<Rightarrow> hypervisor \<Rightarrow> bool" where
  "hyper_allowed c h \<longleftrightarrow>
     (case c of
        HCreateDomain mem ok t p \<Rightarrow> (\<forall>a. mem = Some a \<longrightarrow> hv_doms h a = None) \<and> (ok \<or> t = CLASS_IDLE) \<and>
                                    (\<forall>q. p = Some q \<longrightarrow> hv_doms h q \<noteq> None)
      | HDestroyDomain a \<Rightarrow> hv_doms h a \<noteq> None \<and> unused_domain a h
      | HCreateEntity mem t \<Rightarrow> \<forall>e. mem = Some e \<longrightarrow> hv_ents h e = None
      | HDestroyEntity e \<Rightarrow> hv_ents h e \<noteq> None \<and> not_current e h
      | HAttach e a \<Rightarrow> hv_doms h a \<noteq> None \<and> (\<exists>s. hv_ents h e = Some s \<and> se_domain s = None)
      | HDetach e \<Rightarrow> hv_ents h e \<noteq> None \<and> not_current e h
      | HSchedule cpu \<Rightarrow> True
      | HYield cpu \<Rightarrow> (\<forall>a d. hv_current h cpu = Some a \<longrightarrow> hv_doms h a = Some d \<longrightarrow> dm_class d \<noteq> CLASS_IDLE)
      | HTick cpu \<Rightarrow> True)"

lemma fresh_not_current: "hyper_inv h \<Longrightarrow> hv_ents h e = None \<Longrightarrow> not_current e h"
  by (fastforce simp: hyper_inv_def not_current_def dom_inv_def q_inv_def)

lemma create_entity_inv:
  assumes "hyper_inv h" "\<And>e. mem = Some e \<Longrightarrow> hv_ents h e = None"
  shows "hyper_inv (snd (sched_entity_create mem t h))"
proof (cases mem)
  case None
  then show ?thesis using assms(1) by (simp add: sched_entity_create_def)
next
  case (Some e)
  have n: "hv_ents h e = None" using assms(2) Some .
  have "hyper_inv (h\<lparr>hv_ents := (hv_ents h)(e := Some (new_entity t))\<rparr>)"
    by (rule set_ent_inv [OF assms(1) fresh_not_current [OF assms(1) n]]) (use n in \<open>auto simp: new_entity_def\<close>)
  then show ?thesis using Some by (simp add: sched_entity_create_def)
qed

lemma hyper_zero_inv: "hyper_inv hyper_zero"
  by (simp add: hyper_inv_def hyper_zero_def)

definition demo_hyper :: hypervisor where
  "demo_hyper =
     (let h1 = snd (the (sched_domain_create (Some 100) True CLASS_FAIR None hyper_zero));
          h2 = snd (the (sched_domain_create (Some 200) True CLASS_COOPERATIVE None h1));
          h3 = snd (sched_entity_create (Some 7) (Some 70) h2)
      in snd (the (sched_entity_attach (Some 7) (Some 200) h3)))"

lemma demo_hyper_inv: "hyper_inv demo_hyper"
proof -
  define h1 where "h1 = snd (the (sched_domain_create (Some 100) True CLASS_FAIR None hyper_zero))"
  define h2 where "h2 = snd (the (sched_domain_create (Some 200) True CLASS_COOPERATIVE None h1))"
  define h3 where "h3 = snd (sched_entity_create (Some 7) (Some 70) h2)"
  note ev = sched_domain_create_def class_of_def fair_class_def coop_class_def fair_init_def coop_init_def init_data_def
    new_domain_def hyper_zero_def
  have "hyper_inv h1"
    using create_domain_inv [OF hyper_zero_inv, of "Some 100" True CLASS_FAIR None] by (auto simp: h1_def hyper_zero_def)
  moreover have h1: "hv_doms h1 = [100 \<mapsto> the (fair_init True (new_domain 0 CLASS_FAIR None))]" "hv_ents h1 = Map.empty"
    "hv_list h1 = [100]"
    by (simp_all add: h1_def ev)
  ultimately have "hyper_inv h2"
    using create_domain_inv [of h1 "Some 200" True CLASS_COOPERATIVE None] by (auto simp: h2_def)
  moreover have h2: "hv_doms h2 200 \<noteq> None" "hv_ents h2 = Map.empty"
    using h1 by (simp_all add: h2_def ev)
  ultimately have "hyper_inv h3"
    using create_entity_inv [of h2 "Some 7" "Some 70"] by (simp add: h3_def)
  moreover have "hv_ents h3 7 = Some (new_entity (Some 70))" "hv_doms h3 200 \<noteq> None"
    using h2 by (simp_all add: h3_def sched_entity_create_def)
  ultimately show ?thesis
    using attach_inv [of h3 7 "new_entity (Some 70)" 200]
    by (auto simp: demo_hyper_def h1_def [symmetric] h2_def [symmetric] h3_def [symmetric] new_entity_def Let_def)
qed



end
