(* ===== verification/Hyper_Choice.thy ===== *)
theory Hyper_Choice
  imports Hyper_Correct
begin

text \<open>
  \<^verbatim>\<open>kernel/sched_hyper.c\<close>: the order of the deadline class, the choice of a domain, and what is wrong in the scheduler.
\<close>

section \<open>The deadline class: earliest deadline first\<close>

definition deadline_of :: "ents \<Rightarrow> nat \<Rightarrow> u64" where
  "deadline_of E e = (case E e of None \<Rightarrow> 0 | Some s \<Rightarrow> se_deadline s)"

definition rt_inv :: "dstate \<Rightarrow> bool" where
  "rt_inv st \<longleftrightarrow>
     (\<exists>c. dm_data (fst st) = Some c \<and> all_live (snd st) (cd_queue c) \<and> sorted (map (deadline_of (snd st)) (cd_queue c)) \<and>
        cd_earliest_deadline c = (case cd_queue c of [] \<Rightarrow> - 1 | e # _ \<Rightarrow> deadline_of (snd st) e))"

lemma insert_sorted_spec:
  assumes "all_live E q" "sorted (map (deadline_of E) q)"
    and "insert_sorted (\<lambda>x. map_option se_deadline (E x)) (deadline_of E e) e q = Some q'"
  shows "set q' = insert e (set q) \<and> sorted (map (deadline_of E) q') \<and>
    (\<exists>x xs. q' = x # xs \<and> (x = e \<and> (\<forall>y\<in>set q. deadline_of E e < deadline_of E y) \<or>
       (\<exists>ys. q = x # ys \<and> deadline_of E x \<le> deadline_of E e)))"
  using assms
proof (induction q arbitrary: q')
  case Nil
  then show ?case by auto
next
  case (Cons y q)
  obtain s where s: "E y = Some s" using Cons.prems(1) by (auto simp: all_live_def)
  have k: "map_option se_deadline (E y) = Some (deadline_of E y)" using s by (simp add: deadline_of_def)
  have live: "all_live E q" using Cons.prems(1) by (simp add: all_live_def)
  have so: "sorted (map (deadline_of E) q)" "\<forall>z\<in>set q. deadline_of E y \<le> deadline_of E z" using Cons.prems(2) by auto
  show ?case
  proof (cases "deadline_of E e < deadline_of E y")
    case True
    then have "q' = e # y # q" using Cons.prems(3) k by simp
    then show ?thesis using True so by force
  next
    case False
    then obtain r where r: "insert_sorted (\<lambda>x. map_option se_deadline (E x)) (deadline_of E e) e q = Some r" "q' = y # r"
      using Cons.prems(3) k by auto
    have "set r = insert e (set q)" "sorted (map (deadline_of E) r)" using Cons.IH [OF live so(1) r(1)] by blast+
    then show ?thesis using False so(2) r(2) by auto
  qed
qed

lemma deadline_of_upd: "E e = Some s \<Longrightarrow> se_deadline s' = se_deadline s \<Longrightarrow> deadline_of (E(e \<mapsto> s')) = deadline_of E"
  by (rule ext) (simp add: deadline_of_def)

lemma all_live_upd: "all_live E q \<Longrightarrow> all_live (E(e \<mapsto> s')) q"
  by (simp add: all_live_def)

lemma rt_enqueue_inv:
  assumes "rt_inv st" "rt_enqueue e st = Some st'"
  shows "rt_inv st'"
proof -
  obtain d E where st: "st = (d, E)" by (cases st)
  obtain c where c: "dm_data d = Some c" "all_live E (cd_queue c)" "sorted (map (deadline_of E) (cd_queue c))"
    "cd_earliest_deadline c = (case cd_queue c of [] \<Rightarrow> - 1 | e # _ \<Rightarrow> deadline_of E e)"
    using assms(1) unfolding st rt_inv_def fst_conv snd_conv by blast
  obtain s where s: "E e = Some s" using assms(2) st c(1) by (auto simp: rt_enqueue_def split: option.splits)
  have dl: "se_deadline s = deadline_of E e" using s by (simp add: deadline_of_def)
  obtain q where q: "insert_sorted (\<lambda>x. map_option se_deadline (E x)) (deadline_of E e) e (cd_queue c) = Some q"
    using assms(2) st c(1) s dl by (auto simp: rt_enqueue_def split: option.splits)
  let ?E = "E(e \<mapsto> s\<lparr>se_on_rq := True\<rparr>)"
  let ?c = "c\<lparr>cd_queue := q, cd_earliest_deadline := (if deadline_of E e < cd_earliest_deadline c then deadline_of E e
                                              else cd_earliest_deadline c)\<rparr>"
  have st': "dm_data (fst st') = Some ?c" "snd st' = ?E"
    using assms(2) st c(1) s dl q by (auto simp: rt_enqueue_def link_ent_def upd_data_def split: if_splits)
  note i = insert_sorted_spec [OF c(2,3) q]
  have "all_live ?E q" using i c(2) s by (auto simp: all_live_def)
  moreover have D: "deadline_of ?E = deadline_of E" using deadline_of_upd [of E e s "s\<lparr>se_on_rq := True\<rparr>"] s by simp
  moreover obtain x xs where x: "q = x # xs" "x = e \<and> (\<forall>y\<in>set (cd_queue c). deadline_of E e < deadline_of E y) \<or>
       (\<exists>ys. cd_queue c = x # ys \<and> deadline_of E x \<le> deadline_of E e)"
    using conjunct2 [OF conjunct2 [OF i]] by (elim exE conjE) (rule that)
  have "(if deadline_of E e < cd_earliest_deadline c then deadline_of E e else cd_earliest_deadline c) = deadline_of E x"
  proof (cases "cd_queue c")
    case Nil
    then have "x = e" "cd_earliest_deadline c = - 1" using x(2) c(4) by auto
    moreover have "deadline_of E e < - 1 \<or> deadline_of E e = - 1" using word_order.not_eq_extremum [of "deadline_of E e"] by blast
    ultimately show ?thesis by (metis (full_types))
  next
    case (Cons y ys)
    then show ?thesis using x(2) c(4) by auto
  qed
  ultimately show ?thesis using st' i x(1) unfolding rt_inv_def by (intro exI [of _ ?c]) simp
qed

lemma rt_dequeue_inv:
  assumes "rt_inv st" "rt_dequeue e st = Some st'"
  shows "rt_inv st'"
proof -
  obtain d E where st: "st = (d, E)" by (cases st)
  obtain c where c: "dm_data d = Some c" "all_live E (cd_queue c)" "sorted (map (deadline_of E) (cd_queue c))"
    using assms(1) st by (auto simp: rt_inv_def)
  obtain s where s: "E e = Some s" using assms(2) st by (auto simp: rt_dequeue_def unlink_ent_def split: option.splits)
  let ?E = "E(e \<mapsto> s\<lparr>se_on_rq := False\<rparr>)"
  let ?q = "removeAll e (cd_queue c)"
  have D: "deadline_of ?E = deadline_of E" using deadline_of_upd [of E e s "s\<lparr>se_on_rq := False\<rparr>"] s by simp
  have live: "all_live ?E ?q" using c(2) by (simp add: all_live_def)
  have so: "sorted (map (deadline_of ?E) ?q)"
    using c(3) unfolding D by (metis sorted_filter removeAll_filter_not_eq)
  show ?thesis
  proof (cases ?q)
    case Nil
    then show ?thesis using assms(2) st s c(1)
      by (auto simp: rt_dequeue_def unlink_ent_def upd_queue_def upd_data_def rt_inv_def all_live_def)
  next
    case (Cons x xs)
    then obtain f where "?E x = Some f" using live by (auto simp: all_live_def)
    moreover have "se_deadline f = deadline_of ?E x" using \<open>?E x = Some f\<close> by (simp add: deadline_of_def)
    ultimately have "dm_data (fst st') = Some (c\<lparr>cd_queue := x # xs, cd_earliest_deadline := deadline_of ?E x\<rparr>)" "snd st' = ?E"
      using assms(2) st s c(1) Cons
      by (auto simp: rt_dequeue_def unlink_ent_def upd_queue_def upd_data_def first_ent_def)
    then show ?thesis using live so Cons by (simp add: rt_inv_def)
  qed
qed

datatype rt_op = RtEnqueue nat | RtDequeue nat

fun rt_run :: "rt_op list \<Rightarrow> dstate \<Rightarrow> dstate option" where
  "rt_run [] st = Some st"
| "rt_run (RtEnqueue e # ops) st = (case rt_enqueue e st of None \<Rightarrow> None | Some st' \<Rightarrow> rt_run ops st')"
| "rt_run (RtDequeue e # ops) st = (case rt_dequeue e st of None \<Rightarrow> None | Some st' \<Rightarrow> rt_run ops st')"

lemma rt_run_inv: "rt_run ops st = Some st' \<Longrightarrow> rt_inv st \<Longrightarrow> rt_inv st'"
  by (induction ops st rule: rt_run.induct) (auto split: option.splits intro: rt_enqueue_inv rt_dequeue_inv)

text \<open>C26 (earliest deadline first). In a domain of the deadline class, whatever entities were put on its queue and taken
  off it, in any order, the entity picked next is on the queue and no entity there has an earlier deadline; none is picked only
  when the queue is empty.\<close>

theorem edf_picks_earliest:
  assumes "rt_init True d0 = Some d1" "rt_run ops (d1, E) = Some st"
  shows "\<exists>r. rt_pick_next st = Some r \<and>
    (case r of None \<Rightarrow> data_queue (fst st) = []
     | Some e \<Rightarrow> e \<in> set (data_queue (fst st)) \<and>
         (\<forall>x\<in>set (data_queue (fst st)). deadline_of (snd st) e \<le> deadline_of (snd st) x))"
proof -
  have "rt_inv (d1, E)" using assms(1) by (auto simp: rt_init_def init_data_def empty_data_def rt_inv_def all_live_def)
  then have "rt_inv st" using rt_run_inv assms(2) by blast
  then obtain c where c: "dm_data (fst st) = Some c" "sorted (map (deadline_of (snd st)) (cd_queue c))"
    by (auto simp: rt_inv_def)
  then show ?thesis
    by (cases "cd_queue c") (auto simp: rt_pick_next_def coop_pick_next_def data_queue_def)
qed

definition demo_ents :: ents where
  "demo_ents e = (if e = 1 then Some ((new_entity None)\<lparr>se_deadline := 30\<rparr>)
     else if e = 2 then Some ((new_entity None)\<lparr>se_deadline := 10\<rparr>)
     else if e = 3 then Some ((new_entity None)\<lparr>se_deadline := 20\<rparr>) else None)"

lemma edf_demo_run:
  "rt_run [RtEnqueue 1, RtEnqueue 2, RtEnqueue 3, RtDequeue 2]
     ((new_domain 0 CLASS_REALTIME None)\<lparr>dm_data := Some (empty_data\<lparr>cd_earliest_deadline := - 1\<rparr>)\<rparr>, demo_ents) \<noteq> None"
  by (simp add: rt_enqueue_def rt_dequeue_def link_ent_def unlink_ent_def upd_data_def upd_queue_def first_ent_def
      new_domain_def empty_data_def demo_ents_def new_entity_def)

theorem edf_picks_earliest_witness:
  "\<exists>st r. rt_run [RtEnqueue 1, RtEnqueue 2, RtEnqueue 3, RtDequeue 2]
       (the (rt_init True (new_domain 0 CLASS_REALTIME None)), demo_ents) = Some st \<and> rt_pick_next st = Some r"
proof -
  have i: "rt_init True (new_domain 0 CLASS_REALTIME None) =
      Some ((new_domain 0 CLASS_REALTIME None)\<lparr>dm_data := Some (empty_data\<lparr>cd_earliest_deadline := - 1\<rparr>)\<rparr>)"
    by (simp add: rt_init_def init_data_def)
  then obtain st where st: "rt_run [RtEnqueue 1, RtEnqueue 2, RtEnqueue 3, RtDequeue 2]
     ((new_domain 0 CLASS_REALTIME None)\<lparr>dm_data := Some (empty_data\<lparr>cd_earliest_deadline := - 1\<rparr>)\<rparr>, demo_ents) = Some st"
    using edf_demo_run by blast
  show ?thesis using edf_picks_earliest [OF i st] i st by auto
qed

section \<open>The choice of a domain\<close>

definition eligible :: "hypervisor \<Rightarrow> nat \<Rightarrow> bool" where
  "eligible h a \<longleftrightarrow> (\<exists>d. hv_doms h a = Some d \<and> dm_active d \<and> 0 < dm_nr_running d \<and> dm_priority d < 999)"

definition prio_of :: "hypervisor \<Rightarrow> nat \<Rightarrow> int" where
  "prio_of h a = (case hv_doms h a of None \<Rightarrow> 999 | Some d \<Rightarrow> dm_priority d)"

definition best_in :: "(nat \<Rightarrow> bool) \<Rightarrow> (nat \<Rightarrow> int) \<Rightarrow> nat list \<Rightarrow> nat option" where
  "best_in P f as = List.find (\<lambda>a. P a \<and> (\<forall>b\<in>set as. P b \<longrightarrow> f a \<le> f b)) as"

lemma find_unsat: "(\<And>x. x \<in> set xs \<Longrightarrow> \<not> Q x) \<Longrightarrow> List.find Q xs = None"
  by (induction xs) auto

lemma best_in_some:
  assumes "x \<in> set as" "P x"
  shows "\<exists>a. best_in P f as = Some a"
proof -
  let ?S = "{b \<in> set as. P b}"
  have "Min (f ` ?S) \<in> f ` ?S" using assms by (intro Min_in) auto
  then obtain m where m: "m \<in> ?S" "f m = Min (f ` ?S)" by auto
  then have "\<forall>b\<in>?S. f m \<le> f b" by simp
  then have "List.find (\<lambda>a. P a \<and> (\<forall>b\<in>set as. P b \<longrightarrow> f a \<le> f b)) as \<noteq> None"
    using m(1) unfolding find_None_iff by blast
  then show ?thesis by (simp add: best_in_def)
qed

lemma pick_from_spec:
  assumes "\<forall>a\<in>set as. hv_doms h a \<noteq> None" "p \<le> 999"
  shows "pick_domain_from (hv_doms h) as best p =
    Some (case best_in (\<lambda>a. eligible h a \<and> prio_of h a < p) (prio_of h) as of None \<Rightarrow> best | Some a \<Rightarrow> Some a)"
  using assms
proof (induction as arbitrary: best p)
  case Nil
  then show ?case by (simp add: best_in_def)
next
  case (Cons a as)
  obtain d where d: "hv_doms h a = Some d" using Cons.prems(1) by auto
  let ?P = "\<lambda>p a. eligible h a \<and> prio_of h a < p"
  show ?case
  proof (cases "?P p a")
    case True
    then have t: "dm_active d" "0 < dm_nr_running d" "dm_priority d < p" and pd: "prio_of h a = dm_priority d"
      using d by (auto simp: eligible_def prio_of_def)
    have "pick_domain_from (hv_doms h) (a # as) best p =
        Some (case best_in (?P (dm_priority d)) (prio_of h) as of None \<Rightarrow> Some a | Some b \<Rightarrow> Some b)"
      using Cons.IH [of "dm_priority d" "Some a"] Cons.prems d t by simp
    also have "(case best_in (?P (dm_priority d)) (prio_of h) as of None \<Rightarrow> Some a | Some b \<Rightarrow> Some b) =
        best_in (?P p) (prio_of h) (a # as)"
    proof (cases "\<exists>b\<in>set as. ?P (dm_priority d) b")
      case False
      then have "best_in (?P (dm_priority d)) (prio_of h) as = None" unfolding best_in_def by (intro find_unsat) blast
      moreover have "best_in (?P p) (prio_of h) (a # as) = Some a"
        using False True pd by (fastforce simp: best_in_def)
      ultimately show ?thesis by simp
    next
      case b: True
      have x: "(?P p x \<and> (\<forall>b\<in>set (a # as). ?P p b \<longrightarrow> prio_of h x \<le> prio_of h b)) =
            (?P (dm_priority d) x \<and> (\<forall>b\<in>set as. ?P (dm_priority d) b \<longrightarrow> prio_of h x \<le> prio_of h b))" (is "?L = ?R") for x
      proof
        assume l: ?L
        obtain b where b: "b \<in> set as" "?P (dm_priority d) b" using b by blast
        then have "?P p b" using t(3) by simp
        then have "prio_of h x \<le> prio_of h b" using l b(1) by simp
        then show ?R using l b(2) t(3) by fastforce
      next
        assume r: ?R
        then show ?L using pd t(3) by fastforce
      qed
      have "?P p a \<and> (\<forall>b\<in>set (a # as). ?P p b \<longrightarrow> prio_of h a \<le> prio_of h b) \<longleftrightarrow> False"
        using b pd t(3) by fastforce
      then have e: "best_in (?P p) (prio_of h) (a # as) = best_in (?P (dm_priority d)) (prio_of h) as"
        unfolding best_in_def x List.find.simps using pd by simp
      obtain w where "w \<in> set as" "?P (dm_priority d) w" using b by blast
      from best_in_some [of w as "?P (dm_priority d)" "prio_of h", OF this]
      show ?thesis using e by auto
    qed
    finally show ?thesis using best_in_some [of a "a # as" "?P p" "prio_of h"] True by auto
  next
    case False
    then have "pick_domain_from (hv_doms h) (a # as) best p = pick_domain_from (hv_doms h) as best p"
      using d Cons.prems(2) by (auto simp: eligible_def prio_of_def)
    moreover have "best_in (?P p) (prio_of h) (a # as) = best_in (?P p) (prio_of h) as"
      using False by (cases "eligible h a") (simp_all add: best_in_def)
    ultimately show ?thesis using Cons by simp
  qed
qed


text \<open>\<^emph>\<open>The domain chosen.\<close> The choice of a domain never follows a freed pointer, and it is the first domain of the table
  with the least priority number among the active ones that have a queued entity and a priority below 999.\<close>

theorem domain_choice_correct:
  assumes "hyper_inv h"
  shows "hypervisor_pick_domain h = Some (best_in (eligible h) (prio_of h) (hv_list h))"
proof -
  have e: "(\<lambda>a. eligible h a \<and> prio_of h a < 999) = eligible h"
    by (rule ext) (auto simp: eligible_def prio_of_def)
  have "\<forall>a\<in>set (hv_list h). hv_doms h a \<noteq> None" using assms by (simp add: hyper_inv_def)
  from pick_from_spec [of "hv_list h" h 999 None, OF this] show ?thesis
    unfolding hypervisor_pick_domain_def e by (simp split: option.split)
qed

theorem domain_choice_correct_witness:
  "hypervisor_pick_domain demo_hyper = Some (best_in (eligible demo_hyper) (prio_of demo_hyper) (hv_list demo_hyper))"
  by (rule domain_choice_correct [OF demo_hyper_inv])

section \<open>Flaws\<close>

text \<open>
  Starvation in the fair class. A fair domain whose running entity is at the head of the queue as well - the state
  \<^verbatim>\<open>sched_hypervisor_schedule\<close> leaves when it picks the entity that was running - keeps running it: neither a tick nor a
  scheduling moves it, whatever its virtual runtime is and whatever waits behind it.
\<close>

definition stuck_on :: "(nat \<Rightarrow> int) \<Rightarrow> nat \<Rightarrow> nat list \<Rightarrow> u64 \<Rightarrow> dstate \<Rightarrow> bool" where
  "stuck_on tstate e q v st \<longleftrightarrow>
     (\<exists>c s t. dm_data (fst st) = Some c \<and> cd_queue c = e # q \<and> dm_curr (fst st) = Some e \<and> snd st e = Some s \<and>
        se_on_rq s \<and> se_task s = Some t \<and> tstate t = 0 \<and> se_vruntime s = v)"

lemma stuck_schedule:
  assumes "stuck_on tstate e q v st"
  shows "\<exists>st'. schedule_in fair_class now tstate st = Some (st', None) \<and> stuck_on tstate e q v st'"
  using assms
  by (cases st) (auto simp: stuck_on_def schedule_in_def requeue_current_def upd_ent_def fair_class_def fair_pick_next_def
      coop_pick_next_def set_curr_def)

lemma stuck_tick:
  assumes "stuck_on tstate e q v st"
  shows "\<exists>st'. fair_tick now e st = Some st' \<and> stuck_on tstate e q (v + 1) st'"
  using assms
  by (cases st) (auto simp: stuck_on_def fair_tick_def upd_ent_def upd_data_def first_ent_def)

fun fair_rounds :: "(nat \<Rightarrow> int) \<Rightarrow> nat \<Rightarrow> nat \<Rightarrow> dstate \<Rightarrow> dstate option" where
  "fair_rounds tstate e 0 st = Some st"
| "fair_rounds tstate e (Suc n) st =
     (case fair_tick 0 e st of None \<Rightarrow> None
      | Some st1 \<Rightarrow> (case schedule_in fair_class 0 tstate st1 of None \<Rightarrow> None
          | Some (st2, _) \<Rightarrow> fair_rounds tstate e n st2))"

lemma fair_starvation:
  "stuck_on tstate e q v st \<Longrightarrow>
     \<exists>st'. fair_rounds tstate e n st = Some st' \<and> stuck_on tstate e q (v + of_nat n) st'"
proof (induction n arbitrary: v st)
  case 0
  then show ?case by simp
next
  case (Suc n)
  obtain st1 where st1: "fair_tick 0 e st = Some st1" "stuck_on tstate e q (v + 1) st1"
    using stuck_tick [OF Suc.prems] by blast
  obtain st2 where st2: "schedule_in fair_class 0 tstate st1 = Some (st2, None)" "stuck_on tstate e q (v + 1) st2"
    using stuck_schedule [OF st1(2)] by blast
  show ?case using Suc.IH [OF st2(2)] st1(1) st2(1) by (simp add: add.assoc)
qed

text \<open>Such a state is reached: an entity runs alone, is picked again, and another one is attached behind it.\<close>

definition starve_ents :: ents where
  "starve_ents = [1 \<mapsto> (new_entity (Some 11))\<lparr>se_domain := Some 5\<rparr>, 2 \<mapsto> (new_entity (Some 12))\<lparr>se_domain := Some 5\<rparr>]"

lemma fair_starvation_reached:
  "\<exists>st. Option.bind (fair_enqueue 1 ((new_domain 0 CLASS_FAIR None)\<lparr>dm_data := Some (empty_data\<lparr>cd_period := 100, cd_granularity := 10\<rparr>)\<rparr>,
                                starve_ents)) (\<lambda>s1.
     Option.bind (schedule_in fair_class 0 (\<lambda>_. 0) s1) (\<lambda>(s2, _).
     Option.bind (schedule_in fair_class 0 (\<lambda>_. 0) s2) (\<lambda>(s3, _). fair_enqueue 2 s3))) = Some st \<and>
     stuck_on (\<lambda>_. 0) 1 [2] 0 st"
  by (simp add: fair_enqueue_def starve_ents_def new_entity_def new_domain_def empty_data_def link_ent_def upd_data_def
      upd_ent_def schedule_in_def requeue_current_def fair_class_def fair_pick_next_def coop_pick_next_def switch_to_def
      fair_dequeue_def unlink_ent_def upd_queue_def set_curr_def first_ent_def stuck_on_def)

text \<open>A fiber has no task, so the scheduler does not put it back when it yields: it is on no queue and runs no more.\<close>

definition fiber_dom :: sched_domain where
  "fiber_dom = (new_domain 0 CLASS_COOPERATIVE None)\<lparr>dm_data := Some empty_data, dm_curr := Some 1\<rparr>"

definition fiber_ents :: ents where
  "fiber_ents = [1 \<mapsto> (new_entity None)\<lparr>se_domain := Some 5\<rparr>]"

lemma fiber_yield_loses_it:
  "Option.bind (coop_yield 1 (fiber_dom, fiber_ents)) (schedule_in coop_class 0 (\<lambda>_. 0)) =
     Some ((fiber_dom\<lparr>dm_curr := None\<rparr>, fiber_ents(1 \<mapsto> (the (fiber_ents 1))\<lparr>se_yield_count := 1\<rparr>)), None)"
  by (simp add: coop_yield_def fiber_dom_def fiber_ents_def new_domain_def new_entity_def upd_ent_def schedule_in_def requeue_current_def
      coop_class_def coop_pick_next_def empty_data_def set_curr_def)

text \<open>An idle domain has no private data, which a yield in it reads.\<close>

lemma idle_yield_faults:
  assumes "E e = Some s" "se_on_rq s" "dm_data d = None"
  shows "sc_yield idle_class e (d, E) = None"
  using assms by (simp add: idle_class_def coop_yield_def)

text \<open>Without memory for its data a class writes through a null pointer instead of refusing the domain.\<close>

lemma init_without_memory_faults:
  "sched_domain_create (Some a) False CLASS_FAIR None hyper_zero = None"
  by (simp add: sched_domain_create_def hyper_zero_def class_of_def fair_class_def fair_init_def init_data_def)

text \<open>The number of a domain is the length of the table, so after a domain is destroyed two live ones can have the same.\<close>

lemma domain_ids_collide:
  "\<exists>h. Option.bind (sched_domain_create (Some 10) True CLASS_IDLE None hyper_zero) (\<lambda>(_, h1).
     Option.bind (sched_domain_create (Some 20) True CLASS_IDLE None h1) (\<lambda>(_, h2).
     Option.bind (sched_domain_destroy (Some 10) h2) (\<lambda>h3.
     map_option snd (sched_domain_create (Some 30) True CLASS_IDLE None h3)))) = Some h \<and>
     map_option dm_id (hv_doms h 20) = Some 1 \<and> map_option dm_id (hv_doms h 30) = Some 1"
  by (simp add: sched_domain_create_def sched_domain_destroy_def hyper_zero_def class_of_def idle_class_def idle_init_def new_domain_def
      swap_remove_def Let_def)

text \<open>A blocked entity that is still on the queue is picked: the state of its task is not looked at.\<close>

lemma blocked_entity_picked:
  assumes "dm_data d = Some c" "cd_queue c = e # q" "E e = Some s" "se_task s = Some t" "tstate t \<noteq> 0"
  shows "fair_pick_next (d, E) = Some (Some e)"
  using assms by (simp add: fair_pick_next_def coop_pick_next_def)

text \<open>The running entity is on no queue, so a domain that only has that one counts as having nothing to run.\<close>

lemma running_domain_passed_over:
  assumes "hv_doms h a = Some d" "dm_curr d = Some e" "dm_nr_running d = 0"
  shows "pick_domain_from (hv_doms h) [a] None 999 = Some None"
  using assms by simp

end
