(* ===== verification/Buddy.thy ===== *)
theory Buddy
  imports Paging
begin

text \<open>
  \<^verbatim>\<open>mm/advanced_mm.c\<close>: zones of pages with a buddy allocator and lists of least recently used pages. A page is known by its
  frame number, the index of its structure in \<^verbatim>\<open>mem_map\<close>, an array of \<open>2\<^sup>2\<^sup>0\<close> entries: an operation that would touch a
  structure outside it has no result. The intrusive lists are the lists of the pages linked into them. A page has one
  \<^verbatim>\<open>lru\<close> field, so adding one that is on a list breaks both lists and has no result either.
\<close>

section \<open>Pages, zones\<close>

record page =
  pg_flags :: u32
  pg_refcount :: int

record zone =
  zn_start_pfn :: nat
  zn_end_pfn :: nat
  zn_present :: nat
  zn_spanned :: nat
  zn_free :: "nat \<Rightarrow> nat list"
  zn_nr_free :: "nat \<Rightarrow> int"
  zn_pages_free :: int
  zn_active :: "nat list"
  zn_inactive :: "nat list"
  zn_nr_active :: int
  zn_nr_inactive :: int

record bmm =
  bm_zones :: "nat \<Rightarrow> zone"
  bm_map :: "nat \<Rightarrow> page"
  bm_min_low :: nat
  bm_max_pfn :: nat
  bm_total :: nat
  bm_free :: int
  bm_mem :: "u64 \<Rightarrow> u64"

abbreviation (input) MAX_ORDER :: nat where "MAX_ORDER \<equiv> 11"
abbreviation (input) NR_ZONES :: nat where "NR_ZONES \<equiv> 5"
abbreviation (input) ZONE_DMA :: nat where "ZONE_DMA \<equiv> 0"
abbreviation (input) ZONE_DMA32 :: nat where "ZONE_DMA32 \<equiv> 1"
abbreviation (input) ZONE_NORMAL :: nat where "ZONE_NORMAL \<equiv> 2"

definition MAP_PAGES :: nat where
  "MAP_PAGES = 1048576"

text \<open>The ends of the first two zones, in pages.\<close>

definition dma_pages :: nat where
  "dma_pages = 4096"

definition dma32_pages :: nat where
  "dma32_pages = 1048576"

abbreviation (input) PG_locked :: nat where "PG_locked \<equiv> 0"
abbreviation (input) PG_referenced :: nat where "PG_referenced \<equiv> 1"
abbreviation (input) PG_dirty :: nat where "PG_dirty \<equiv> 3"
abbreviation (input) PG_lru :: nat where "PG_lru \<equiv> 4"
abbreviation (input) PG_active :: nat where "PG_active \<equiv> 5"
abbreviation (input) PG_reserved :: nat where "PG_reserved \<equiv> 7"

section \<open>Access\<close>

definition upd_zone :: "nat \<Rightarrow> (zone \<Rightarrow> zone) \<Rightarrow> bmm \<Rightarrow> bmm" where
  "upd_zone z f s = s\<lparr>bm_zones := (bm_zones s)(z := f (bm_zones s z))\<rparr>"

definition upd_page :: "nat \<Rightarrow> (page \<Rightarrow> page) \<Rightarrow> bmm \<Rightarrow> bmm" where
  "upd_page p f s = s\<lparr>bm_map := (bm_map s)(p := f (bm_map s p))\<rparr>"

definition pg_flag :: "nat \<Rightarrow> nat \<Rightarrow> bmm \<Rightarrow> bool" where
  "pg_flag k p s = bit (pg_flags (bm_map s p)) k"

definition set_pg_flag :: "nat \<Rightarrow> nat \<Rightarrow> bmm \<Rightarrow> bmm" where
  "set_pg_flag k p s = upd_page p (\<lambda>g. g\<lparr>pg_flags := pg_flags g OR push_bit k 1\<rparr>) s"

definition clear_pg_flag :: "nat \<Rightarrow> nat \<Rightarrow> bmm \<Rightarrow> bmm" where
  "clear_pg_flag k p s = upd_page p (\<lambda>g. g\<lparr>pg_flags := pg_flags g AND NOT (push_bit k 1)\<rparr>) s"

definition page_to_phys :: "nat \<Rightarrow> u64" where
  "page_to_phys p = push_bit 12 (of_nat p)"

definition phys_to_page :: "u64 \<Rightarrow> nat" where
  "phys_to_page a = unat (drop_bit 12 a)"

definition page_zone :: "nat \<Rightarrow> nat" where
  "page_zone p = (if p < dma_pages then ZONE_DMA else if p < dma32_pages then ZONE_DMA32 else ZONE_NORMAL)"

definition on_zone_list :: "zone \<Rightarrow> nat \<Rightarrow> bool" where
  "on_zone_list zn p \<longleftrightarrow>
     list_ex (\<lambda>k. p \<in> set (zn_free zn k)) [0..<MAX_ORDER] \<or> p \<in> set (zn_active zn) \<or> p \<in> set (zn_inactive zn)"

definition on_list :: "bmm \<Rightarrow> nat \<Rightarrow> bool" where
  "on_list s p \<longleftrightarrow> list_ex (\<lambda>z. on_zone_list (bm_zones s z) p) [0..<NR_ZONES]"

definition set_free :: "nat \<Rightarrow> nat list \<Rightarrow> zone \<Rightarrow> zone" where
  "set_free k ps zn = zn\<lparr>zn_free := (zn_free zn)(k := ps)\<rparr>"

definition add_nr_free :: "nat \<Rightarrow> int \<Rightarrow> zone \<Rightarrow> zone" where
  "add_nr_free k n zn = zn\<lparr>zn_nr_free := (zn_nr_free zn)(k := zn_nr_free zn k + n)\<rparr>"

text \<open>\<^verbatim>\<open>list_add(&page->lru, &area->free_list); area->nr_free++\<close>\<close>

definition free_area_add :: "nat \<Rightarrow> nat \<Rightarrow> nat \<Rightarrow> bmm \<Rightarrow> bmm option" where
  "free_area_add z k p s =
     (if MAP_PAGES \<le> p \<or> on_list s p then None
      else Some (upd_zone z (\<lambda>zn. add_nr_free k 1 (set_free k (p # zn_free zn k) zn)) s))"

text \<open>\<^verbatim>\<open>list_del(&page->lru); area->nr_free--\<close>, for a page of the list\<close>

definition free_area_del :: "nat \<Rightarrow> nat \<Rightarrow> nat \<Rightarrow> bmm \<Rightarrow> bmm" where
  "free_area_del z k p s = upd_zone z (\<lambda>zn. add_nr_free k (- 1) (set_free k (remove1 p (zn_free zn k)) zn)) s"

section \<open>The buddy allocator\<close>

fun get_order_loop :: "nat \<Rightarrow> nat \<Rightarrow> nat" where
  "get_order_loop sz order = (if sz = 0 then order else get_order_loop (sz div 2) (order + 1))"

declare get_order_loop.simps [simp del]

definition get_order :: "u64 \<Rightarrow> nat" where
  "get_order sz = get_order_loop (unat (drop_bit 12 (sz - 1))) 0"

text \<open>The loop that splits a block of order \<open>c\<close> down to \<open>order\<close>.\<close>

fun split_block :: "nat \<Rightarrow> nat \<Rightarrow> nat \<Rightarrow> nat \<Rightarrow> bmm \<Rightarrow> bmm option" where
  "split_block z p order 0 s = Some s"
| "split_block z p order (Suc c) s =
     (if Suc c \<le> order then Some s
      else Option.bind (free_area_add z c (p + 2 ^ c) s) (split_block z p order c))"

definition add_pages_free :: "nat \<Rightarrow> int \<Rightarrow> bmm \<Rightarrow> bmm" where
  "add_pages_free z n s =
     (upd_zone z (\<lambda>zn. zn\<lparr>zn_pages_free := zn_pages_free zn + n\<rparr>) s)\<lparr>bm_free := bm_free s + n\<rparr>"

definition alloc_pages_zone :: "nat \<Rightarrow> nat \<Rightarrow> bmm \<Rightarrow> (nat option \<times> bmm) option" where
  "alloc_pages_zone z order s =
     (case List.find (\<lambda>c. zn_free (bm_zones s z) c \<noteq> []) [order..<MAX_ORDER] of
        None \<Rightarrow> Some (None, s)
      | Some c \<Rightarrow>
          let p = List.hd (zn_free (bm_zones s z) c) in
          Option.bind (split_block z p order c (free_area_del z c p s))
            (\<lambda>s1. Some (Some p, add_pages_free z (- (2 ^ order))
                     (upd_page p (\<lambda>g. g\<lparr>pg_refcount := 1\<rparr>) (clear_pg_flag PG_reserved p s1)))))"

abbreviation (input) GFP_DMA :: u32 where "GFP_DMA \<equiv> 0x01"
abbreviation (input) GFP_DMA32 :: u32 where "GFP_DMA32 \<equiv> 0x04"
abbreviation (input) GFP_ZERO :: u32 where "GFP_ZERO \<equiv> 0x100"
abbreviation (input) GFP_KERNEL :: u32 where "GFP_KERNEL \<equiv> 0xD0"

text \<open>The next zone is only tried without a page.\<close>

definition try_zone :: "nat \<Rightarrow> nat \<Rightarrow> bool \<Rightarrow> nat option \<times> bmm \<Rightarrow> (nat option \<times> bmm) option" where
  "try_zone z order wanted r = (if wanted \<and> fst r = None then alloc_pages_zone z order (snd r) else Some r)"

definition zero_pages :: "nat \<Rightarrow> nat \<Rightarrow> (u64 \<Rightarrow> u64) \<Rightarrow> (u64 \<Rightarrow> u64)" where
  "zero_pages p n m = fold (\<lambda>i. zero_page (page_to_phys (p + i))) [0..<n] m"

definition alloc_pages :: "u32 \<Rightarrow> nat \<Rightarrow> bmm \<Rightarrow> (nat option \<times> bmm) option" where
  "alloc_pages gfp_mask order s =
     Option.bind (try_zone ZONE_DMA order (gfp_mask AND GFP_DMA \<noteq> 0) (None, s)) (\<lambda>r1.
     Option.bind (try_zone ZONE_DMA32 order (gfp_mask AND GFP_DMA32 \<noteq> 0) r1) (\<lambda>r2.
     Option.bind (try_zone ZONE_NORMAL order True r2) (\<lambda>r3.
     Some (case r3 of
         (Some p, s3) \<Rightarrow>
           (Some p, if gfp_mask AND GFP_ZERO \<noteq> 0 then s3\<lparr>bm_mem := zero_pages p (2 ^ order) (bm_mem s3)\<rparr> else s3)
       | (None, s3) \<Rightarrow> (None, s3)))))"

text \<open>The loop that joins a free block with its free buddies: the block, its order and the state it ends with.\<close>

function coalesce :: "nat \<Rightarrow> nat \<Rightarrow> nat \<Rightarrow> bmm \<Rightarrow> nat \<times> nat \<times> bmm" where
  "coalesce z p order s =
     (if order < MAX_ORDER - 1
      then let buddy = p XOR 2 ^ order in
           if buddy \<in> set (zn_free (bm_zones s z) order)
           then coalesce z (if buddy < p then buddy else p) (order + 1) (free_area_del z order buddy s)
           else (p, order, s)
      else (p, order, s))"
  by pat_completeness auto
termination by (relation "measure (\<lambda>(z, p, order, s). 11 - order)") auto

declare coalesce.simps [simp del]

definition free_pages_order :: "nat \<Rightarrow> nat \<Rightarrow> bmm \<Rightarrow> bmm option" where
  "free_pages_order p order s =
     (let z = page_zone p in
      case coalesce z p order s of
        (q, k, s1) \<Rightarrow> map_option (add_pages_free z (2 ^ k)) (free_area_add z k q s1))"

definition free_page :: "nat \<Rightarrow> bmm \<Rightarrow> bmm option" where
  "free_page p s = free_pages_order p 0 s"

definition alloc_page :: "u32 \<Rightarrow> bmm \<Rightarrow> (nat option \<times> bmm) option" where
  "alloc_page gfp_mask s = alloc_pages gfp_mask 0 s"

definition get_free_pages :: "u32 \<Rightarrow> nat \<Rightarrow> bmm \<Rightarrow> (u64 \<times> bmm) option" where
  "get_free_pages gfp_mask order s =
     map_option (\<lambda>(r, s1). (case r of None \<Rightarrow> 0 | Some p \<Rightarrow> page_to_phys p, s1)) (alloc_pages gfp_mask order s)"

definition get_page :: "nat \<Rightarrow> bmm \<Rightarrow> bmm option" where
  "get_page p s = (if MAP_PAGES \<le> p then None else Some (upd_page p (\<lambda>g. g\<lparr>pg_refcount := pg_refcount g + 1\<rparr>) s))"

definition put_page :: "nat \<Rightarrow> bmm \<Rightarrow> bmm option" where
  "put_page p s =
     (if MAP_PAGES \<le> p then None
      else let s1 = upd_page p (\<lambda>g. g\<lparr>pg_refcount := pg_refcount g - 1\<rparr>) s
           in if pg_refcount (bm_map s1 p) = 0 then free_page p s1 else Some s1)"

definition page_count :: "nat \<Rightarrow> bmm \<Rightarrow> int option" where
  "page_count p s = (if MAP_PAGES \<le> p then None else Some (pg_refcount (bm_map s p)))"

section \<open>Least recently used pages\<close>

definition lru_cache_activate :: "nat \<Rightarrow> bmm \<Rightarrow> bmm" where
  "lru_cache_activate p s =
     set_pg_flag PG_referenced p
       (if pg_flag PG_lru p s \<and> \<not> pg_flag PG_active p s
        then set_pg_flag PG_active p
               (upd_zone (page_zone p) (\<lambda>zn. zn\<lparr>zn_inactive := remove1 p (zn_inactive zn), zn_nr_inactive := zn_nr_inactive zn - 1,
                  zn_active := p # zn_active zn, zn_nr_active := zn_nr_active zn + 1\<rparr>) s)
        else s)"

definition lru_cache_add :: "nat \<Rightarrow> bmm \<Rightarrow> bmm option" where
  "lru_cache_add p s =
     (if pg_flag PG_lru p s then Some s
      else if on_list s p then None
      else Some (set_pg_flag PG_lru p
             (upd_zone (page_zone p) (\<lambda>zn. zn\<lparr>zn_inactive := zn_inactive zn @ [p], zn_nr_inactive := zn_nr_inactive zn + 1\<rparr>) s)))"

text \<open>The reclaim loop. It may run forever, which is no result as well.\<close>

partial_function (option) shrink_loop :: "nat \<Rightarrow> int \<Rightarrow> int \<Rightarrow> bmm \<Rightarrow> (int \<times> bmm) option" where
  "shrink_loop z n reclaimed s =
     (if reclaimed < n \<and> zn_inactive (bm_zones s z) \<noteq> []
      then let p = last (zn_inactive (bm_zones s z)) in
           if pg_flag PG_referenced p s
           then shrink_loop z n reclaimed
                  (upd_zone z (\<lambda>zn. zn\<lparr>zn_inactive := p # butlast (zn_inactive zn)\<rparr>) (clear_pg_flag PG_referenced p s))
           else if pg_flag PG_locked p s \<or> pg_flag PG_dirty p s then shrink_loop z n reclaimed s
           else Option.bind
                  (free_page p (clear_pg_flag PG_lru p
                     (upd_zone z (\<lambda>zn. zn\<lparr>zn_inactive := butlast (zn_inactive zn), zn_nr_inactive := zn_nr_inactive zn - 1\<rparr>) s)))
                  (shrink_loop z n (reclaimed + 1))
      else Some (reclaimed, s))"

definition shrink_zone :: "nat \<Rightarrow> int \<Rightarrow> bmm \<Rightarrow> (int \<times> bmm) option" where
  "shrink_zone z n s = shrink_loop z n 0 s"

section \<open>Start\<close>

text \<open>The ranges of the zones; the last two stay empty.\<close>

definition init_zone :: "nat \<Rightarrow> nat \<Rightarrow> nat \<Rightarrow> zone \<Rightarrow> zone" where
  "init_zone z start_pfn end_pfn zn =
     (let a = (if z = ZONE_DMA then 0 else if z = ZONE_DMA32 then dma_pages
               else if z = ZONE_NORMAL then dma32_pages else zn_start_pfn zn);
          b = (if z = ZONE_DMA then dma_pages else if z = ZONE_DMA32 then dma32_pages
               else if z = ZONE_NORMAL then end_pfn else zn_end_pfn zn);
          zn1 = zn\<lparr>zn_start_pfn := a, zn_end_pfn := b, zn_free := \<lambda>_. [], zn_nr_free := \<lambda>_. 0, zn_active := [], zn_inactive := []\<rparr>
      in if b \<le> start_pfn \<or> end_pfn \<le> a then zn1\<lparr>zn_present := 0\<rparr>
         else let n = min b end_pfn - max a start_pfn
              in zn1\<lparr>zn_present := n, zn_spanned := b - a, zn_pages_free := int n\<rparr>)"

text \<open>The last loop puts every page on the list of single pages of its zone. All lists were emptied before.\<close>

definition init_add :: "nat \<Rightarrow> bmm \<Rightarrow> bmm" where
  "init_add p s = upd_zone (page_zone p) (\<lambda>zn. add_nr_free 0 1 (set_free 0 (p # zn_free zn 0) zn)) s"

definition fresh_page :: page where
  "fresh_page = \<lparr>pg_flags = 0, pg_refcount = 0\<rparr>"

definition mm_zone_init :: "u64 \<Rightarrow> u64 \<Rightarrow> bmm \<Rightarrow> bmm option" where
  "mm_zone_init start end_addr s =
     (let a = unat (drop_bit 12 start); b = unat (drop_bit 12 end_addr);
          Z = (\<lambda>z. if z < NR_ZONES then init_zone z a b (bm_zones s z) else bm_zones s z);
          n = sum_list (map (\<lambda>z. zn_present (Z z)) [0..<NR_ZONES])
      in if MAP_PAGES < b \<and> a < b then None
         else Some (fold init_add [a..<b]
                (s\<lparr>bm_zones := Z, bm_total := bm_total s + n, bm_free := bm_free s + int n, bm_max_pfn := b, bm_min_low := a,
                   bm_map := \<lambda>p. if a \<le> p \<and> p < b then fresh_page else bm_map s p\<rparr>)))"

definition zone_zero :: zone where
  "zone_zero = \<lparr>zn_start_pfn = 0, zn_end_pfn = 0, zn_present = 0, zn_spanned = 0, zn_free = \<lambda>_. [], zn_nr_free = \<lambda>_. 0,
     zn_pages_free = 0, zn_active = [], zn_inactive = [], zn_nr_active = 0, zn_nr_inactive = 0\<rparr>"

definition bmm_zero :: "(u64 \<Rightarrow> u64) \<Rightarrow> bmm" where
  "bmm_zero m = \<lparr>bm_zones = \<lambda>_. zone_zero, bm_map = \<lambda>_. fresh_page, bm_min_low = 0, bm_max_pfn = 0, bm_total = 0, bm_free = 0, bm_mem = m\<rparr>"

end
