(* ===== verification/Buddy_Correct.thy ===== *)
theory Buddy_Correct
  imports Buddy
begin

text \<open>
  The buddy allocator as a set of free pages: allocating a block removes it, freeing one adds it, the blocks on the lists stay
  aligned and disjoint, and nothing ever falls outside the page array. Then what the allocator promises and does not keep.
\<close>

section \<open>Blocks\<close>

definition block :: "nat \<Rightarrow> nat \<Rightarrow> nat set" where
  "block p k = {p..<p + 2 ^ k}"

lemma block_0 [simp]: "block p 0 = {p}"
  by (auto simp: block_def)

lemma block_self [simp]: "p \<in> block p k"
  by (simp add: block_def)

lemma block_Suc: "block p (Suc k) = block p k \<union> block (p + 2 ^ k) k"
  by (auto simp: block_def)

lemma block_halves: "block p k \<inter> block (p + 2 ^ k) k = {}"
  by (auto simp: block_def)

lemma block_mono: "k \<le> c \<Longrightarrow> block p k \<subseteq> block p c"
proof -
  assume "k \<le> c"
  then have "(2::nat) ^ k \<le> 2 ^ c" by simp
  then show ?thesis by (auto simp: block_def)
qed

lemma buddy_of:
  assumes "2 ^ k dvd (p::nat)"
  shows "p XOR 2 ^ k = (if 2 ^ Suc k dvd p then p + 2 ^ k else p - 2 ^ k)"
proof -
  obtain m where m: "p = 2 ^ k * m" using assms by (auto simp: dvd_def)
  have "p = push_bit k m" "2 ^ k = push_bit k (1::nat)" using m by (simp_all add: push_bit_eq_mult)
  then have "p XOR 2 ^ k = push_bit k (m XOR 1)" by (simp only: push_bit_xor)
  also have "\<dots> = 2 ^ k * (m XOR 1)" by (simp add: push_bit_eq_mult mult.commute)
  also have "m XOR 1 = (if even m then m + 1 else m - 1)" using xor_one_eq [of m] by auto
  finally have "p XOR 2 ^ k = 2 ^ k * (if even m then m + 1 else m - 1)" .
  moreover have "2 ^ Suc k dvd p \<longleftrightarrow> even m" using m by simp
  ultimately show ?thesis using m by (simp add: algebra_simps diff_mult_distrib2)
qed

lemma odd_half:
  assumes "2 ^ k dvd (p::nat)" "\<not> 2 ^ Suc k dvd p"
  shows "2 ^ k \<le> p \<and> 2 ^ Suc k dvd (p - 2 ^ k)"
proof -
  obtain m where m: "p = 2 ^ k * m" using assms(1) by (auto simp: dvd_def)
  then have "odd m" using assms(2) by simp
  then obtain j where "m = 2 * j + 1" by (elim oddE)
  then have "p = 2 ^ Suc k * j + 2 ^ k" using m by (simp add: algebra_simps)
  then show ?thesis by simp
qed

text \<open>A block with its buddy is the block of the next order at the lower of the two.\<close>

lemma buddy_join:
  assumes "2 ^ k dvd (p::nat)"
  defines "b \<equiv> p XOR 2 ^ k" and "q \<equiv> (if p XOR 2 ^ k < p then p XOR 2 ^ k else p)"
  shows "2 ^ Suc k dvd q \<and> 2 ^ k dvd b \<and> block q (Suc k) = block p k \<union> block b k \<and> block p k \<inter> block b k = {}"
proof (cases "2 ^ Suc k dvd p")
  case True
  then have b: "b = p + 2 ^ k" "q = p" using buddy_of [OF assms(1)] by (auto simp: b_def q_def)
  show ?thesis using True assms(1) b block_halves [of p k] by (simp add: block_Suc)
next
  case False
  note h = odd_half [OF assms(1) False]
  have b: "b = p - 2 ^ k" "q = p - 2 ^ k" using buddy_of [OF assms(1)] False h by (auto simp: b_def q_def)
  have p: "p = b + 2 ^ k" using b h by simp
  have d: "2 ^ Suc k dvd b" using b h by simp
  then have "2 ^ k dvd b" by (metis dvd_mult_left power_Suc2)
  moreover have "block q (Suc k) = block p k \<union> block b k" using b p by (auto simp: block_Suc)
  moreover have "block p k \<inter> block b k = {}" using p block_halves [of b k] by auto
  ultimately show ?thesis using d b by simp
qed

lemma block_zone:
  assumes "2 ^ k dvd p" "k < MAX_ORDER" "q \<in> block p k"
  shows "page_zone q = page_zone p"
proof -
  have "(2::nat) ^ 10 = 2 ^ k * 2 ^ (10 - k)" using assms(2) by (simp add: power_add [symmetric])
  obtain m where m: "p = 2 ^ k * m" using assms(1) by (auto simp: dvd_def)
  have bound: "q < d * 2 ^ 10 \<longleftrightarrow> p < d * 2 ^ 10" for d
  proof
    assume "q < d * 2 ^ 10"
    then show "p < d * 2 ^ 10" using assms(3) by (simp add: block_def)
  next
    assume l: "p < d * 2 ^ 10"
    have e: "d * 2 ^ 10 = 2 ^ k * (d * 2 ^ (10 - k))" using \<open>2 ^ 10 = 2 ^ k * 2 ^ (10 - k)\<close> by simp
    then have "2 ^ k * m < 2 ^ k * (d * 2 ^ (10 - k))" using l m by metis
    then have "m < d * 2 ^ (10 - k)" by simp
    then have "2 ^ k * (m + 1) \<le> 2 ^ k * (d * 2 ^ (10 - k))" by (intro mult_le_mono2) simp
    moreover have "q < 2 ^ k * (m + 1)" using assms(3) m by (simp add: block_def algebra_simps)
    ultimately show "q < d * 2 ^ 10" using e by linarith
  qed
  show ?thesis using bound [of 4] bound [of 1024] by (simp add: page_zone_def dma_pages_def dma32_pages_def)
qed

section \<open>The invariant\<close>

definition fl :: "bmm \<Rightarrow> nat \<Rightarrow> nat \<Rightarrow> nat list" where
  "fl s z k = zn_free (bm_zones s z) k"

definition lru_pages :: "bmm \<Rightarrow> nat set" where
  "lru_pages s = (\<Union>z\<in>{..<NR_ZONES}. set (zn_active (bm_zones s z)) \<union> set (zn_inactive (bm_zones s z)))"

definition free_set :: "bmm \<Rightarrow> nat set" where
  "free_set s = {q. \<exists>z k p. z < NR_ZONES \<and> k < MAX_ORDER \<and> p \<in> set (fl s z k) \<and> q \<in> block p k}"

text \<open>A block that may stand on a list of zone \<open>z\<close>.\<close>

definition good_block :: "nat \<Rightarrow> nat \<Rightarrow> nat \<Rightarrow> nat \<Rightarrow> nat \<Rightarrow> bool" where
  "good_block lo hi z k p \<longleftrightarrow> k < MAX_ORDER \<and> 2 ^ k dvd p \<and> block p k \<subseteq> {lo..<hi} \<and> page_zone p = z"

definition buddy_inv :: "nat \<Rightarrow> nat \<Rightarrow> bmm \<Rightarrow> bool" where
  "buddy_inv lo hi s \<longleftrightarrow>
     hi \<le> MAP_PAGES \<and>
     (\<forall>z k p. z < NR_ZONES \<longrightarrow> k < MAX_ORDER \<longrightarrow> p \<in> set (fl s z k) \<longrightarrow> good_block lo hi z k p) \<and>
     (\<forall>z k. z < NR_ZONES \<longrightarrow> k < MAX_ORDER \<longrightarrow> distinct (fl s z k) \<and> zn_nr_free (bm_zones s z) k = int (length (fl s z k))) \<and>
     (\<forall>z k p z' k' p'. z < NR_ZONES \<longrightarrow> k < MAX_ORDER \<longrightarrow> p \<in> set (fl s z k) \<longrightarrow>
        z' < NR_ZONES \<longrightarrow> k' < MAX_ORDER \<longrightarrow> p' \<in> set (fl s z' k') \<longrightarrow> (z, k, p) \<noteq> (z', k', p') \<longrightarrow>
        block p k \<inter> block p' k' = {}) \<and>
     lru_pages s \<inter> free_set s = {}"

lemma buddy_invD:
  assumes "buddy_inv lo hi s"
  shows "hi \<le> MAP_PAGES"
    and "\<And>z k p. z < NR_ZONES \<Longrightarrow> k < MAX_ORDER \<Longrightarrow> p \<in> set (fl s z k) \<Longrightarrow> good_block lo hi z k p"
    and "\<And>z k. z < NR_ZONES \<Longrightarrow> k < MAX_ORDER \<Longrightarrow> distinct (fl s z k)"
    and "\<And>z k. z < NR_ZONES \<Longrightarrow> k < MAX_ORDER \<Longrightarrow> zn_nr_free (bm_zones s z) k = int (length (fl s z k))"
    and "\<And>z k p z' k' p'. z < NR_ZONES \<Longrightarrow> k < MAX_ORDER \<Longrightarrow> p \<in> set (fl s z k) \<Longrightarrow>
        z' < NR_ZONES \<Longrightarrow> k' < MAX_ORDER \<Longrightarrow> p' \<in> set (fl s z' k') \<Longrightarrow> (z, k, p) \<noteq> (z', k', p') \<Longrightarrow>
        block p k \<inter> block p' k' = {}"
    and "lru_pages s \<inter> free_set s = {}"
  using assms unfolding buddy_inv_def by blast+

lemma buddy_invI:
  assumes "hi \<le> MAP_PAGES"
    and "\<And>z k p. z < NR_ZONES \<Longrightarrow> k < MAX_ORDER \<Longrightarrow> p \<in> set (fl s z k) \<Longrightarrow> good_block lo hi z k p"
    and "\<And>z k. z < NR_ZONES \<Longrightarrow> k < MAX_ORDER \<Longrightarrow> distinct (fl s z k) \<and> zn_nr_free (bm_zones s z) k = int (length (fl s z k))"
    and "\<And>z k p z' k' p'. z < NR_ZONES \<Longrightarrow> k < MAX_ORDER \<Longrightarrow> p \<in> set (fl s z k) \<Longrightarrow>
        z' < NR_ZONES \<Longrightarrow> k' < MAX_ORDER \<Longrightarrow> p' \<in> set (fl s z' k') \<Longrightarrow> (z, k, p) \<noteq> (z', k', p') \<Longrightarrow>
        block p k \<inter> block p' k' = {}"
    and "lru_pages s \<inter> free_set s = {}"
  shows "buddy_inv lo hi s"
  using assms unfolding buddy_inv_def by (intro conjI allI impI) blast+

text \<open>The parts of the state the invariant looks at.\<close>

lemma buddy_inv_cong:
  assumes "\<And>z. zn_free (bm_zones s' z) = zn_free (bm_zones s z)" "\<And>z. zn_nr_free (bm_zones s' z) = zn_nr_free (bm_zones s z)"
    and "lru_pages s' = lru_pages s"
  shows "buddy_inv lo hi s' \<longleftrightarrow> buddy_inv lo hi s" "free_set s' = free_set s"
proof -
  have f: "fl s' = fl s" by (intro ext) (simp add: fl_def assms(1))
  then show g: "free_set s' = free_set s" by (simp add: free_set_def)
  show "buddy_inv lo hi s' \<longleftrightarrow> buddy_inv lo hi s" by (simp add: buddy_inv_def f g assms)
qed

lemma on_list_iff: "on_list s p \<longleftrightarrow> (\<exists>z<NR_ZONES. \<exists>k<MAX_ORDER. p \<in> set (fl s z k)) \<or> p \<in> lru_pages s"
  unfolding on_list_def on_zone_list_def list_ex_iff lru_pages_def fl_def by (auto simp: Bex_def)

lemma on_list_free: "p \<notin> free_set s \<Longrightarrow> p \<notin> lru_pages s \<Longrightarrow> \<not> on_list s p"
  using block_self unfolding on_list_iff free_set_def by blast

definition same_rest :: "bmm \<Rightarrow> bmm \<Rightarrow> bool" where
  "same_rest s s' \<longleftrightarrow> lru_pages s' = lru_pages s \<and> bm_map s' = bm_map s \<and> bm_mem s' = bm_mem s \<and>
     bm_free s' = bm_free s \<and> (\<forall>z. zn_pages_free (bm_zones s' z) = zn_pages_free (bm_zones s z) \<and>
       zn_inactive (bm_zones s' z) = zn_inactive (bm_zones s z) \<and> zn_active (bm_zones s' z) = zn_active (bm_zones s z))"

lemma same_rest_refl [simp]: "same_rest s s"
  by (simp add: same_rest_def)

lemma same_rest_trans: "same_rest s t \<Longrightarrow> same_rest t u \<Longrightarrow> same_rest s u"
  by (simp add: same_rest_def)

section \<open>One list operation\<close>

lemma fl_del: "fl (free_area_del z k p s) z' k' = (if z' = z \<and> k' = k then remove1 p (fl s z k) else fl s z' k')"
  by (simp add: fl_def free_area_del_def upd_zone_def add_nr_free_def set_free_def)

lemma nr_del: "zn_nr_free (bm_zones (free_area_del z k p s) z') k' =
    (if z' = z \<and> k' = k then zn_nr_free (bm_zones s z) k - 1 else zn_nr_free (bm_zones s z') k')"
  by (simp add: free_area_del_def upd_zone_def add_nr_free_def set_free_def)

lemma rest_del: "same_rest s (free_area_del z k p s)"
proof -
  have "zn_active (bm_zones (free_area_del z k p s) z') = zn_active (bm_zones s z')"
    "zn_inactive (bm_zones (free_area_del z k p s) z') = zn_inactive (bm_zones s z')"
    "zn_pages_free (bm_zones (free_area_del z k p s) z') = zn_pages_free (bm_zones s z')" for z'
    by (simp_all add: free_area_del_def upd_zone_def add_nr_free_def set_free_def)
  moreover have "bm_map (free_area_del z k p s) = bm_map s" "bm_mem (free_area_del z k p s) = bm_mem s"
    "bm_free (free_area_del z k p s) = bm_free s"
    by (simp_all add: free_area_del_def upd_zone_def)
  ultimately show ?thesis by (simp add: same_rest_def lru_pages_def)
qed

lemma free_area_del_inv:
  assumes "buddy_inv lo hi s" "z < NR_ZONES" "k < MAX_ORDER" "p \<in> set (fl s z k)"
  shows "buddy_inv lo hi (free_area_del z k p s)" "free_set (free_area_del z k p s) = free_set s - block p k"
    "block p k \<subseteq> free_set s" "block p k \<inter> lru_pages s = {}"
proof -
  let ?s = "free_area_del z k p s"
  note I = buddy_invD [OF assms(1)]
  have set: "set (fl ?s z' k') = (if z' = z \<and> k' = k then set (fl s z k) - {p} else set (fl s z' k'))" for z' k'
    using I(3) [OF assms(2,3)] by (simp add: fl_del)
  show sub: "block p k \<subseteq> free_set s" using assms(2-4) unfolding free_set_def by blast
  then show "block p k \<inter> lru_pages s = {}" using I(6) by blast
  show fs: "free_set ?s = free_set s - block p k"
  proof
    show "free_set ?s \<subseteq> free_set s - block p k"
    proof
      fix q assume "q \<in> free_set ?s"
      then obtain z' k' p' where q: "z' < NR_ZONES" "k' < MAX_ORDER" "p' \<in> set (fl ?s z' k')" "q \<in> block p' k'"
        unfolding free_set_def by blast
      then have p': "p' \<in> set (fl s z' k')" "(z', k', p') \<noteq> (z, k, p)" by (auto simp: set split: if_splits)
      then have "block p' k' \<inter> block p k = {}" using I(5) [OF q(1,2) p'(1) assms(2-4)] by blast
      then show "q \<in> free_set s - block p k" using q p'(1) unfolding free_set_def by blast
    qed
    show "free_set s - block p k \<subseteq> free_set ?s"
    proof
      fix q assume "q \<in> free_set s - block p k"
      then obtain z' k' p' where q: "z' < NR_ZONES" "k' < MAX_ORDER" "p' \<in> set (fl s z' k')" "q \<in> block p' k'" "q \<notin> block p k"
        unfolding free_set_def by blast
      then have "p' \<in> set (fl ?s z' k')" by (auto simp: set)
      then show "q \<in> free_set ?s" using q unfolding free_set_def by blast
    qed
  qed
  show "buddy_inv lo hi ?s"
  proof (rule buddy_invI)
    fix z' k' assume zk: "z' < NR_ZONES" "k' < MAX_ORDER"
    show "distinct (fl ?s z' k') \<and> zn_nr_free (bm_zones ?s z') k' = int (length (fl ?s z' k'))"
      using I(3,4) [OF zk] assms(4) length_pos_if_in_set [OF assms(4)]
      by (auto simp: fl_del nr_del length_remove1 of_nat_diff Suc_leI)
  next
    have "lru_pages ?s = lru_pages s" using rest_del [of s z k p] by (simp add: same_rest_def)
    then show "lru_pages ?s \<inter> free_set ?s = {}" using I(6) fs by auto
  next
    fix z1 k1 p1 z2 k2 p2
    assume "z1 < NR_ZONES" "k1 < MAX_ORDER" "p1 \<in> set (fl ?s z1 k1)" "z2 < NR_ZONES" "k2 < MAX_ORDER" "p2 \<in> set (fl ?s z2 k2)"
      "(z1, k1, p1) \<noteq> (z2, k2, p2)"
    then show "block p1 k1 \<inter> block p2 k2 = {}" using I(5) [of z1 k1 p1 z2 k2 p2] by (simp add: set split: if_splits)
  next
    fix z1 k1 p1 assume "z1 < NR_ZONES" "k1 < MAX_ORDER" "p1 \<in> set (fl ?s z1 k1)"
    then show "good_block lo hi z1 k1 p1" using I(2) by (auto simp: set split: if_splits)
  qed (rule I(1))
qed

lemma free_area_add_inv:
  assumes "buddy_inv lo hi s" "z < NR_ZONES" "good_block lo hi z k p" "block p k \<inter> free_set s = {}"
    and "block p k \<inter> lru_pages s = {}"
  shows "\<exists>s'. free_area_add z k p s = Some s' \<and> buddy_inv lo hi s' \<and> free_set s' = free_set s \<union> block p k \<and> same_rest s s' \<and>
    (\<forall>z' k'. fl s' z' k' = (if z' = z \<and> k' = k then p # fl s z k else fl s z' k'))"
proof -
  note I = buddy_invD [OF assms(1)]
  have "p \<in> {lo..<hi}" using assms(3) block_self [of p k] unfolding good_block_def by blast
  then have k: "k < MAX_ORDER" "p < MAP_PAGES" using assms(3) I(1) by (simp_all add: good_block_def)
  have nl: "p \<notin> lru_pages s" using assms(5) block_self [of p k] by blast
  define s' where "s' = upd_zone z (\<lambda>zn. add_nr_free k 1 (set_free k (p # zn_free zn k) zn)) s"
  have nfree: "p \<notin> free_set s" using assms(4) block_self [of p k] by blast
  have r: "free_area_add z k p s = Some s'"
    using k on_list_free [OF nfree nl] by (simp add: free_area_add_def s'_def)
  have f: "fl s' z' k' = (if z' = z \<and> k' = k then p # fl s z k else fl s z' k')" for z' k'
    by (simp add: s'_def fl_def upd_zone_def add_nr_free_def set_free_def)
  have "zn_active (bm_zones s' z') = zn_active (bm_zones s z')" "zn_inactive (bm_zones s' z') = zn_inactive (bm_zones s z')"
    "zn_pages_free (bm_zones s' z') = zn_pages_free (bm_zones s z')" for z'
    by (simp_all add: s'_def upd_zone_def add_nr_free_def set_free_def)
  moreover have "bm_map s' = bm_map s" "bm_mem s' = bm_mem s" "bm_free s' = bm_free s" by (simp_all add: s'_def upd_zone_def)
  ultimately have rest: "same_rest s s'" by (simp add: same_rest_def lru_pages_def)
  have fs: "free_set s' = free_set s \<union> block p k"
  proof
    show "free_set s' \<subseteq> free_set s \<union> block p k"
    proof
      fix q assume "q \<in> free_set s'"
      then obtain z' k' p' where q: "z' < NR_ZONES" "k' < MAX_ORDER" "p' \<in> set (fl s' z' k')" "q \<in> block p' k'"
        unfolding free_set_def by blast
      then have "p' \<in> set (fl s z' k') \<or> (z' = z \<and> k' = k \<and> p' = p)" by (auto simp: f split: if_splits)
      then show "q \<in> free_set s \<union> block p k" using q unfolding free_set_def by blast
    qed
    have "set (fl s z' k') \<subseteq> set (fl s' z' k')" "p \<in> set (fl s' z k)" for z' k' by (auto simp: f)
    then show "free_set s \<union> block p k \<subseteq> free_set s'" using assms(2) k(1) unfolding free_set_def by blast
  qed
  have np: "p \<notin> set (fl s z k)" using nfree assms(2) k(1) block_self [of p k] unfolding free_set_def by blast
  have nr: "zn_nr_free (bm_zones s' z') k' = (if z' = z \<and> k' = k then zn_nr_free (bm_zones s z) k + 1 else zn_nr_free (bm_zones s z') k')"
    for z' k'
    by (simp add: s'_def upd_zone_def add_nr_free_def set_free_def)
  have "buddy_inv lo hi s'"
  proof (rule buddy_invI)
    fix z' k' assume zk: "z' < NR_ZONES" "k' < MAX_ORDER"
    show "distinct (fl s' z' k') \<and> zn_nr_free (bm_zones s' z') k' = int (length (fl s' z' k'))"
      using I(3,4) [OF zk] np by (auto simp: f nr)
  next
    show "lru_pages s' \<inter> free_set s' = {}" using I(6) fs assms(5) rest by (auto simp: same_rest_def)
  next
    fix z1 k1 p1 z2 k2 p2
    assume a: "z1 < NR_ZONES" "k1 < MAX_ORDER" "p1 \<in> set (fl s' z1 k1)" "z2 < NR_ZONES" "k2 < MAX_ORDER" "p2 \<in> set (fl s' z2 k2)"
      "(z1, k1, p1) \<noteq> (z2, k2, p2)"
    have new: "block p k \<inter> block p' k' = {}" if "z' < NR_ZONES" "k' < MAX_ORDER" "p' \<in> set (fl s z' k')" for z' k' p'
      using assms(4) that unfolding free_set_def by blast
    show "block p1 k1 \<inter> block p2 k2 = {}"
    proof (cases "(z1, k1, p1) = (z, k, p)")
      case True
      then have "p2 \<in> set (fl s z2 k2)" using a(6,7) by (auto simp: f split: if_splits)
      then show ?thesis using new [OF a(4,5)] True by auto
    next
      case False
      then have p1: "p1 \<in> set (fl s z1 k1)" using a(3) by (auto simp: f split: if_splits)
      show ?thesis
      proof (cases "(z2, k2, p2) = (z, k, p)")
        case True
        then show ?thesis using new [OF a(1,2) p1] by auto
      next
        case False
        then have "p2 \<in> set (fl s z2 k2)" using a(6) by (auto simp: f split: if_splits)
        then show ?thesis using I(5) [OF a(1,2) p1 a(4,5)] a(7) by blast
      qed
    qed
  next
    fix z1 k1 p1 assume "z1 < NR_ZONES" "k1 < MAX_ORDER" "p1 \<in> set (fl s' z1 k1)"
    then show "good_block lo hi z1 k1 p1" using I(2) assms(3) by (auto simp: f split: if_splits)
  qed (rule I(1))
  then show ?thesis using r fs rest f by blast
qed


section \<open>Allocation\<close>

lemma half_good:
  assumes "good_block lo hi z (Suc c) p"
  shows "good_block lo hi z c p" "good_block lo hi z c (p + 2 ^ c)"
proof -
  have d: "2 ^ Suc c dvd p" "Suc c < MAX_ORDER" "block p (Suc c) \<subseteq> {lo..<hi}" "page_zone p = z"
    using assms by (auto simp: good_block_def)
  have dc: "2 ^ c dvd p" using d(1) by (metis dvd_mult_left power_Suc2)
  show "good_block lo hi z c p" using d dc by (auto simp: good_block_def block_Suc)
  have "p + 2 ^ c \<in> block p (Suc c)" by (simp add: block_Suc)
  then have "page_zone (p + 2 ^ c) = z" using block_zone [OF d(1,2)] d(4) by blast
  then show "good_block lo hi z c (p + 2 ^ c)" using d dc by (auto simp: good_block_def block_Suc)
qed

lemma split_block_inv:
  assumes "buddy_inv lo hi s" "z < NR_ZONES" "good_block lo hi z c p" "block p c \<inter> free_set s = {}"
    "block p c \<inter> lru_pages s = {}" "order \<le> c"
  shows "\<exists>s'. split_block z p order c s = Some s' \<and> buddy_inv lo hi s' \<and> free_set s' = free_set s \<union> (block p c - block p order) \<and>
    same_rest s s'"
  using assms
proof (induction c arbitrary: s)
  case 0
  then show ?case by (intro exI [of _ s]) simp
next
  case (Suc c)
  show ?case
  proof (cases "Suc c = order")
    case True
    then have "Suc c \<le> order" by simp
    then have "split_block z p order (Suc c) s = Some s" by (simp only: split_block.simps if_True)
    then show ?thesis using Suc.prems True by (intro exI [of _ s]) simp
  next
    case False
    then have le: "order \<le> c" using Suc.prems(6) by simp
    note g = half_good [OF Suc.prems(3)]
    have b: "block (p + 2 ^ c) c \<inter> free_set s = {}" "block (p + 2 ^ c) c \<inter> lru_pages s = {}"
      using Suc.prems(4,5) by (auto simp: block_Suc)
    obtain s1 where s1: "free_area_add z c (p + 2 ^ c) s = Some s1" "buddy_inv lo hi s1"
      "free_set s1 = free_set s \<union> block (p + 2 ^ c) c" "same_rest s s1"
      using free_area_add_inv [OF Suc.prems(1,2) g(2) b] by blast
    have h: "block p c \<inter> free_set s1 = {}" "block p c \<inter> lru_pages s1 = {}"
      using Suc.prems(4,5) s1(3,4) block_halves [of p c] by (auto simp: block_Suc same_rest_def)
    obtain s2 where s2: "split_block z p order c s1 = Some s2" "buddy_inv lo hi s2"
      "free_set s2 = free_set s1 \<union> (block p c - block p order)" "same_rest s1 s2"
      using Suc.IH [OF s1(2) Suc.prems(2) g(1) h le] by blast
    have "free_set s2 = free_set s \<union> (block p (Suc c) - block p order)"
      using s2(3) s1(3) block_halves [of p c] block_mono [OF le, of p] by (auto simp: block_Suc)
    then show ?thesis using s1(1) s2 le same_rest_trans [OF s1(4) s2(4)] False by (intro exI [of _ s2]) simp
  qed
qed

text \<open>The counters and the page structures are not part of the invariant.\<close>

lemma add_pages_free_inv [simp]:
  "buddy_inv lo hi (add_pages_free z n s) \<longleftrightarrow> buddy_inv lo hi s" "free_set (add_pages_free z n s) = free_set s"
  "lru_pages (add_pages_free z n s) = lru_pages s"
proof -
  have l: "zn_free (bm_zones (add_pages_free z n s) z') = zn_free (bm_zones s z')"
    "zn_nr_free (bm_zones (add_pages_free z n s) z') = zn_nr_free (bm_zones s z')"
    "zn_active (bm_zones (add_pages_free z n s) z') = zn_active (bm_zones s z')"
    "zn_inactive (bm_zones (add_pages_free z n s) z') = zn_inactive (bm_zones s z')" for z'
    by (simp_all add: add_pages_free_def upd_zone_def)
  then show r: "lru_pages (add_pages_free z n s) = lru_pages s" by (simp add: lru_pages_def)
  show "buddy_inv lo hi (add_pages_free z n s) \<longleftrightarrow> buddy_inv lo hi s" "free_set (add_pages_free z n s) = free_set s"
    by (rule buddy_inv_cong [OF l(1,2) r])+
qed

lemma upd_page_inv [simp]:
  "buddy_inv lo hi (upd_page p f s) \<longleftrightarrow> buddy_inv lo hi s" "free_set (upd_page p f s) = free_set s"
  "lru_pages (upd_page p f s) = lru_pages s" "fl (upd_page p f s) = fl s"
proof -
  have z: "bm_zones (upd_page p f s) = bm_zones s" by (simp add: upd_page_def)
  then show r: "lru_pages (upd_page p f s) = lru_pages s" by (simp add: lru_pages_def)
  show "buddy_inv lo hi (upd_page p f s) \<longleftrightarrow> buddy_inv lo hi s" "free_set (upd_page p f s) = free_set s"
    by (rule buddy_inv_cong; simp add: r z)+
  show "fl (upd_page p f s) = fl s" by (intro ext) (simp add: fl_def upd_page_def)
qed

lemma mem_inv [simp]:
  "buddy_inv lo hi (s\<lparr>bm_mem := m\<rparr>) \<longleftrightarrow> buddy_inv lo hi s" "free_set (s\<lparr>bm_mem := m\<rparr>) = free_set s"
  "lru_pages (s\<lparr>bm_mem := m\<rparr>) = lru_pages s"
proof -
  have r: "lru_pages (s\<lparr>bm_mem := m\<rparr>) = lru_pages s" by (simp add: lru_pages_def)
  show "buddy_inv lo hi (s\<lparr>bm_mem := m\<rparr>) \<longleftrightarrow> buddy_inv lo hi s" "free_set (s\<lparr>bm_mem := m\<rparr>) = free_set s"
    by (rule buddy_inv_cong; simp add: r)+
  show "lru_pages (s\<lparr>bm_mem := m\<rparr>) = lru_pages s" by (rule r)
qed

definition buddy_alloc_ok :: "nat \<Rightarrow> nat \<Rightarrow> bmm \<Rightarrow> nat \<Rightarrow> nat option \<times> bmm \<Rightarrow> bool" where
  "buddy_alloc_ok lo hi s order r \<longleftrightarrow> buddy_inv lo hi (snd r) \<and> lru_pages (snd r) = lru_pages s \<and>
     (case fst r of
        None \<Rightarrow> snd r = s
      | Some p \<Rightarrow> 2 ^ order dvd p \<and> block p order \<subseteq> free_set s \<and> free_set (snd r) = free_set s - block p order)"

lemma alloc_pages_zone_ok:
  assumes "buddy_inv lo hi s" "z < NR_ZONES"
  shows "\<exists>r. alloc_pages_zone z order s = Some r \<and> buddy_alloc_ok lo hi s order r"
proof (cases "List.find (\<lambda>c. zn_free (bm_zones s z) c \<noteq> []) [order..<MAX_ORDER]")
  case None
  then show ?thesis using assms(1) by (simp add: alloc_pages_zone_def buddy_alloc_ok_def)
next
  case (Some c)
  then have c: "order \<le> c" "c < MAX_ORDER" "fl s z c \<noteq> []" by (auto simp: find_Some_iff fl_def nth_append)
  define p where "p = List.hd (fl s z c)"
  have p: "p \<in> set (fl s z c)" using c(3) by (simp add: p_def)
  note d = free_area_del_inv [OF assms c(2) p]
  have g: "good_block lo hi z c p" using buddy_invD(2) [OF assms c(2) p] .
  have e: "block p c \<inter> free_set (free_area_del z c p s) = {}" "block p c \<inter> lru_pages (free_area_del z c p s) = {}"
    using d(2,4) rest_del [of s z c p] by (auto simp: same_rest_def)
  obtain s' where s': "split_block z p order c (free_area_del z c p s) = Some s'" "buddy_inv lo hi s'"
    "free_set s' = free_set (free_area_del z c p s) \<union> (block p c - block p order)" "same_rest (free_area_del z c p s) s'"
    using split_block_inv [OF d(1) assms(2) g e c(1)] by blast
  have fs: "free_set s' = free_set s - block p order" using s'(3) d(2,3) block_mono [OF c(1), of p] by auto
  have al: "2 ^ order dvd p" using g c(1) by (auto simp: good_block_def intro: power_le_dvd)
  have lru: "lru_pages s' = lru_pages s" using s'(4) rest_del [of s z c p] by (simp add: same_rest_def)
  have sub: "block p order \<subseteq> free_set s" using block_mono [OF c(1)] d(3) by blast
  show ?thesis
    using Some s'(1,2) fs lru sub al by (simp add: alloc_pages_zone_def buddy_alloc_ok_def Let_def fl_def p_def clear_pg_flag_def)
qed

lemma try_zone_ok:
  assumes "buddy_alloc_ok lo hi s order r" "z < NR_ZONES"
  shows "\<exists>r'. try_zone z order w r = Some r' \<and> buddy_alloc_ok lo hi s order r'"
proof (cases "w \<and> fst r = None")
  case True
  then have "snd r = s" using assms(1) by (simp add: buddy_alloc_ok_def)
  moreover have "buddy_inv lo hi (snd r)" using assms(1) by (simp add: buddy_alloc_ok_def)
  ultimately show ?thesis using alloc_pages_zone_ok [of lo hi s z order] assms(2) True by (simp add: try_zone_def)
next
  case False
  then have "try_zone z order w r = Some r" by (simp only: try_zone_def if_False)
  then show ?thesis using assms(1) by blast
qed

lemma alloc_pages_ok:
  assumes "buddy_inv lo hi s"
  shows "\<exists>r. alloc_pages g order s = Some r \<and> buddy_alloc_ok lo hi s order r"
proof -
  have "buddy_alloc_ok lo hi s order (None, s)" using assms by (simp add: buddy_alloc_ok_def)
  then obtain r1 where r1: "try_zone ZONE_DMA order (g AND GFP_DMA \<noteq> 0) (None, s) = Some r1" "buddy_alloc_ok lo hi s order r1"
    using try_zone_ok [of lo hi s order "(None, s)" ZONE_DMA "g AND GFP_DMA \<noteq> 0"] by auto
  obtain r2 where r2: "try_zone ZONE_DMA32 order (g AND GFP_DMA32 \<noteq> 0) r1 = Some r2" "buddy_alloc_ok lo hi s order r2"
    using try_zone_ok [OF r1(2), of ZONE_DMA32 "g AND GFP_DMA32 \<noteq> 0"] by auto
  obtain r3 where r3: "try_zone ZONE_NORMAL order True r2 = Some r3" "buddy_alloc_ok lo hi s order r3"
    using try_zone_ok [OF r2(2), of ZONE_NORMAL True] by auto
  show ?thesis using r1(1) r2(1) r3
    by (cases r3) (auto simp: alloc_pages_def buddy_alloc_ok_def split: option.splits)
qed

section \<open>Release\<close>

lemma coalesce_inv:
  assumes "buddy_inv lo hi s" "z < NR_ZONES" "good_block lo hi z k p" "block p k \<inter> free_set s = {}" "block p k \<inter> lru_pages s = {}"
  shows "case coalesce z p k s of (q, k', s') \<Rightarrow>
    buddy_inv lo hi s' \<and> good_block lo hi z k' q \<and> k \<le> k' \<and> block p k \<subseteq> block q k' \<and> block q k' \<inter> free_set s' = {} \<and>
    block q k' \<inter> lru_pages s' = {} \<and> free_set s' \<union> block q k' = free_set s \<union> block p k \<and> same_rest s s' \<and>
    (k' < MAX_ORDER - 1 \<longrightarrow> q XOR 2 ^ k' \<notin> set (fl s' z k')) \<and> (\<forall>z' j. set (fl s' z' j) \<subseteq> set (fl s z' j))"
  using assms
proof (induction z p k s rule: coalesce.induct)
  case (1 z p k s)
  define b where "b = p XOR 2 ^ k"
  have al: "2 ^ k dvd p" using "1.prems"(3) by (simp add: good_block_def)
  note J = buddy_join [OF al]
  show ?case
  proof (cases "k < MAX_ORDER - 1 \<and> b \<in> set (fl s z k)")
    case False
    then have r: "coalesce z p k s = (p, k, s)" by (subst coalesce.simps) (simp add: Let_def b_def fl_def)
    show ?thesis unfolding r using "1.prems" False by (auto simp: b_def)
  next
    case True
    have k: "k < MAX_ORDER" using True by simp
    define q where "q = (if b < p then b else p)"
    define t where "t = free_area_del z k b s"
    have bm: "b \<in> set (fl s z k)" using True by blast
    note d = free_area_del_inv [OF "1.prems"(1,2) k bm, folded t_def]
    have r: "coalesce z p k s = coalesce z q (Suc k) t"
      by (subst coalesce.simps) (use True in \<open>simp add: Let_def b_def fl_def q_def t_def\<close>)
    have j: "2 ^ Suc k dvd q" "block q (Suc k) = block p k \<union> block b k" "block p k \<inter> block b k = {}"
      using J unfolding b_def q_def by blast+
    have gb: "good_block lo hi z k b" using buddy_invD(2) [OF "1.prems"(1,2) k bm] .
    have gq: "good_block lo hi z (Suc k) q"
      using "1.prems"(3) gb True j(1,2) by (auto simp: good_block_def q_def)
    have e: "block q (Suc k) \<inter> free_set t = {}" using j(2) d(2) "1.prems"(4) by blast
    have rt: "same_rest s t" by (simp add: t_def rest_del)
    have l: "block q (Suc k) \<inter> lru_pages t = {}" using j(2) d(4) "1.prems"(5) rt by (auto simp: same_rest_def)
    have IH: "case coalesce z q (k + 1) t of (q', k', s') \<Rightarrow>
      buddy_inv lo hi s' \<and> good_block lo hi z k' q' \<and> k + 1 \<le> k' \<and> block q (k + 1) \<subseteq> block q' k' \<and> block q' k' \<inter> free_set s' = {} \<and>
      block q' k' \<inter> lru_pages s' = {} \<and> free_set s' \<union> block q' k' = free_set t \<union> block q (k + 1) \<and> same_rest t s' \<and>
      (k' < MAX_ORDER - 1 \<longrightarrow> q' XOR 2 ^ k' \<notin> set (fl s' z k')) \<and> (\<forall>z' j. set (fl s' z' j) \<subseteq> set (fl t z' j))"
      using "1.IH" [OF _ refl, folded b_def, folded q_def t_def] True d(1) "1.prems"(2) gq e l by (simp add: fl_def)
    have fs: "free_set t \<union> block q (Suc k) = free_set s \<union> block p k" using j(2) d(2,3) by blast
    have sub: "set (fl t z' i) \<subseteq> set (fl s z' i)" for z' i using set_remove1_subset [of b] by (auto simp: t_def fl_del dest: subsetD)
    obtain q' k' s' where c: "coalesce z q (Suc k) t = (q', k', s')" by (cases "coalesce z q (Suc k) t") auto
    note H = IH [unfolded Suc_eq_plus1 [symmetric] c prod.case]
    have "same_rest s s'" using H same_rest_trans [OF rt] by blast
    moreover have "set (fl s' z' i) \<subseteq> set (fl s z' i)" for z' i using H sub by blast
    moreover have "block p k \<subseteq> block q' k'" using H j(2) by blast
    moreover have "free_set s' \<union> block q' k' = free_set s \<union> block p k" using H fs by blast
    moreover have "k \<le> k'" using H by linarith
    ultimately show ?thesis unfolding r c prod.case using H by blast
  qed
qed

lemma free_pages_order_ok:
  assumes "buddy_inv lo hi s" "good_block lo hi (page_zone p) k p" "block p k \<inter> free_set s = {}" "block p k \<inter> lru_pages s = {}"
  shows "\<exists>s'. free_pages_order p k s = Some s' \<and> buddy_inv lo hi s' \<and> free_set s' = free_set s \<union> block p k \<and> lru_pages s' = lru_pages s \<and>
    bm_map s' = bm_map s \<and> (\<forall>z. zn_inactive (bm_zones s' z) = zn_inactive (bm_zones s z) \<and> zn_active (bm_zones s' z) = zn_active (bm_zones s z))"
proof -
  let ?z = "page_zone p"
  have z: "?z < NR_ZONES" by (simp add: page_zone_def)
  obtain q k' t where c: "coalesce ?z p k s = (q, k', t)" by (cases "coalesce ?z p k s") auto
  note C = coalesce_inv [OF assms(1) z assms(2-4), unfolded c prod.case]
  have I: "buddy_inv lo hi t" "good_block lo hi ?z k' q" "block q k' \<inter> free_set t = {}" "block q k' \<inter> lru_pages t = {}"
    "free_set t \<union> block q k' = free_set s \<union> block p k" "same_rest s t"
    using C by blast+
  obtain u where u: "free_area_add ?z k' q t = Some u" "buddy_inv lo hi u" "free_set u = free_set t \<union> block q k'" "same_rest t u"
    using free_area_add_inv [OF I(1) z I(2,3,4)] by blast
  have rest: "same_rest s u" using same_rest_trans [OF I(6) u(4)] .
  let ?u = "add_pages_free ?z (2 ^ k') u"
  have "bm_map ?u = bm_map s" "zn_inactive (bm_zones ?u z') = zn_inactive (bm_zones s z')"
    "zn_active (bm_zones ?u z') = zn_active (bm_zones s z')" for z'
    using rest by (simp_all add: same_rest_def add_pages_free_def upd_zone_def)
  moreover have "free_pages_order p k s = Some ?u" using c u(1) by (simp add: free_pages_order_def Let_def)
  moreover have "lru_pages u = lru_pages s" using rest by (simp add: same_rest_def)
  ultimately show ?thesis using u(2,3) I(5) by simp
qed

section \<open>Start\<close>

lemma init_add_fields:
  "fl (init_add p s) z k = (if z = page_zone p \<and> k = 0 then p # fl s z 0 else fl s z k)"
  "zn_nr_free (bm_zones (init_add p s) z) k = (if z = page_zone p \<and> k = 0 then zn_nr_free (bm_zones s z) 0 + 1
     else zn_nr_free (bm_zones s z) k)"
  "zn_active (bm_zones (init_add p s) z) = zn_active (bm_zones s z)"
  "zn_inactive (bm_zones (init_add p s) z) = zn_inactive (bm_zones s z)"
  by (simp_all add: fl_def init_add_def upd_zone_def add_nr_free_def set_free_def)

lemma init_fold:
  "fl (fold init_add ps s) z k = (if k = 0 then rev (filter (\<lambda>p. page_zone p = z) ps) @ fl s z 0 else fl s z k)"
  "zn_nr_free (bm_zones (fold init_add ps s) z) k =
     zn_nr_free (bm_zones s z) k + (if k = 0 then int (length (filter (\<lambda>p. page_zone p = z) ps)) else 0)"
  "zn_active (bm_zones (fold init_add ps s) z) = zn_active (bm_zones s z)"
  "zn_inactive (bm_zones (fold init_add ps s) z) = zn_inactive (bm_zones s z)"
  by (induction ps arbitrary: s) (auto simp: init_add_fields)

lemma mm_zone_init_ok:
  assumes "unat (drop_bit 12 e) \<le> MAP_PAGES"
  shows "\<exists>s'. mm_zone_init a e s = Some s' \<and> buddy_inv (unat (drop_bit 12 a)) (unat (drop_bit 12 e)) s' \<and>
    free_set s' = {unat (drop_bit 12 a)..<unat (drop_bit 12 e)} \<and> lru_pages s' = {} \<and> (\<forall>z k. 0 < k \<longrightarrow> z < NR_ZONES \<longrightarrow> fl s' z k = [])"
proof -
  define lo hi where "lo = unat (drop_bit 12 a)" and "hi = unat (drop_bit 12 e)"
  obtain t where r: "mm_zone_init a e s = Some (fold init_add [lo..<hi] t)"
    and t: "\<And>z. z < NR_ZONES \<Longrightarrow> bm_zones t z = init_zone z lo hi (bm_zones s z)"
    using assms by (simp add: mm_zone_init_def Let_def lo_def hi_def)
  let ?s = "fold init_add [lo..<hi] t"
  have z0: "zn_free (init_zone z x y zn) = (\<lambda>_. [])" "zn_nr_free (init_zone z x y zn) = (\<lambda>_. 0)"
    "zn_active (init_zone z x y zn) = []" "zn_inactive (init_zone z x y zn) = []" for z x y zn
    by (simp_all add: init_zone_def Let_def)
  have f: "fl ?s z k = (if k = 0 then rev (filter (\<lambda>p. page_zone p = z) [lo..<hi]) else [])" if "z < NR_ZONES" for z k
  proof -
    have "fl t z k = []" for k using t [OF that] by (simp add: fl_def z0)
    then show ?thesis by (simp add: init_fold(1))
  qed
  have lru: "lru_pages ?s = {}" by (simp add: lru_pages_def init_fold t z0)
  have fs: "free_set ?s = {lo..<hi}"
  proof
    show "free_set ?s \<subseteq> {lo..<hi}" by (auto simp: free_set_def f split: if_splits)
    have at0: "\<exists>z<NR_ZONES. q \<in> set (fl ?s z 0)" if "lo \<le> q" "q < hi" for q
      by (rule exI [of _ "page_zone q"]) (use that in \<open>simp add: f page_zone_def\<close>)
    show "{lo..<hi} \<subseteq> free_set ?s"
    proof (intro subsetI)
      fix q assume "q \<in> {lo..<hi}"
      then obtain z where "z < NR_ZONES" "q \<in> set (fl ?s z 0)" using at0 by auto
      moreover have "(0::nat) < MAX_ORDER" "q \<in> block q 0" by simp_all
      ultimately show "q \<in> free_set ?s" unfolding free_set_def by blast
    qed
  qed
  have "buddy_inv lo hi ?s"
  proof (rule buddy_invI)
    show "hi \<le> MAP_PAGES" using assms by (simp add: hi_def)
    show "lru_pages ?s \<inter> free_set ?s = {}" using lru by simp
  next
    fix z k p assume "z < NR_ZONES" "k < MAX_ORDER" "p \<in> set (fl ?s z k)"
    then show "good_block lo hi z k p" by (auto simp: f good_block_def split: if_splits)
  next
    fix z k assume z: "z < NR_ZONES"
    show "distinct (fl ?s z k) \<and> zn_nr_free (bm_zones ?s z) k = int (length (fl ?s z k))"
      unfolding f [OF z] init_fold(2) t [OF z] z0 by simp
  next
    fix z k p z' k' p'
    assume "z < NR_ZONES" "p \<in> set (fl ?s z k)" "z' < NR_ZONES" "p' \<in> set (fl ?s z' k')" "(z, k, p) \<noteq> (z', k', p')"
    then show "block p k \<inter> block p' k' = {}" by (auto simp: f split: if_splits)
  qed
  then show ?thesis using r fs lru f by (auto simp: lo_def hi_def)
qed

section \<open>Any client\<close>

datatype mm_op = MAlloc u32 nat | MFree nat

text \<open>The client remembers the blocks it holds, and frees one of them with its order.\<close>

type_synonym client = "(nat \<times> nat) list \<times> bmm"

fun mm_step :: "mm_op \<Rightarrow> client \<Rightarrow> client option" where
  "mm_step (MAlloc g k) (bs, s) =
     (case alloc_pages g k s of
        None \<Rightarrow> None
      | Some (None, s') \<Rightarrow> Some (bs, s')
      | Some (Some p, s') \<Rightarrow> Some (bs @ [(p, k)], s'))"
| "mm_step (MFree i) (bs, s) =
     (if i < length bs
      then map_option (Pair (take i bs @ drop (Suc i) bs)) (free_pages_order (fst (bs ! i)) (snd (bs ! i)) s)
      else Some (bs, s))"

fun mm_run :: "mm_op list \<Rightarrow> client \<Rightarrow> client option" where
  "mm_run [] c = Some c"
| "mm_run (x # xs) c = (case mm_step x c of None \<Rightarrow> None | Some c' \<Rightarrow> mm_run xs c')"

definition live_pages :: "(nat \<times> nat) list \<Rightarrow> nat set" where
  "live_pages bs = (\<Union>(p, k)\<in>set bs. block p k)"

fun disjoint_blocks :: "(nat \<times> nat) list \<Rightarrow> bool" where
  "disjoint_blocks [] \<longleftrightarrow> True"
| "disjoint_blocks ((p, k) # bs) \<longleftrightarrow> block p k \<inter> live_pages bs = {} \<and> disjoint_blocks bs"

text \<open>The pages of the range are either free or in exactly one block held, and a block of order \<open>k\<close> starts at a
  multiple of its size.\<close>

definition partition_ok :: "nat \<Rightarrow> nat \<Rightarrow> client \<Rightarrow> bool" where
  "partition_ok lo hi c \<longleftrightarrow> disjoint_blocks (fst c) \<and> (\<forall>(p, k)\<in>set (fst c). 2 ^ k dvd p) \<and>
     live_pages (fst c) \<inter> free_set (snd c) = {} \<and> live_pages (fst c) \<union> free_set (snd c) = {lo..<hi}"

definition client_inv :: "nat \<Rightarrow> nat \<Rightarrow> client \<Rightarrow> bool" where
  "client_inv lo hi c \<longleftrightarrow> partition_ok lo hi c \<and> buddy_inv lo hi (snd c) \<and> lru_pages (snd c) = {} \<and>
     (\<forall>(p, k)\<in>set (fst c). k < MAX_ORDER)"

lemma live_pages_app [simp]: "live_pages (bs @ cs) = live_pages bs \<union> live_pages cs"
  by (simp add: live_pages_def)

lemma live_pages_simps [simp]: "live_pages [] = {}" "live_pages ((p, k) # bs) = block p k \<union> live_pages bs"
  by (simp_all add: live_pages_def)

lemma disjoint_app:
  "disjoint_blocks (bs @ cs) \<longleftrightarrow> disjoint_blocks bs \<and> disjoint_blocks cs \<and> live_pages bs \<inter> live_pages cs = {}"
  by (induction bs rule: disjoint_blocks.induct) auto

lemma alloc_order:
  assumes "alloc_pages g k s = Some (Some p, s')"
  shows "k < MAX_ORDER"
proof (rule ccontr)
  assume "\<not> k < MAX_ORDER"
  then have "alloc_pages_zone z k t = Some (None, t)" for z t by (simp add: alloc_pages_zone_def)
  then show False using assms by (auto simp: alloc_pages_def try_zone_def split: if_splits option.splits)
qed

lemma mm_step_inv:
  assumes "client_inv lo hi c"
  shows "\<exists>c'. mm_step x c = Some c' \<and> client_inv lo hi c'"
proof -
  obtain bs s where c: "c = (bs, s)" by (cases c)
  have P: "disjoint_blocks bs" "\<forall>(p, k)\<in>set bs. 2 ^ k dvd p" "live_pages bs \<inter> free_set s = {}"
    "live_pages bs \<union> free_set s = {lo..<hi}" "buddy_inv lo hi s" "lru_pages s = {}" "\<forall>(p, k)\<in>set bs. k < MAX_ORDER"
    using assms by (auto simp: c client_inv_def partition_ok_def)
  show ?thesis
  proof (cases x)
    case (MAlloc g k)
    obtain r where r: "alloc_pages g k s = Some r" "buddy_alloc_ok lo hi s k r" using alloc_pages_ok [OF P(5)] by blast
    show ?thesis
    proof (cases "fst r")
      case None
      then have "r = (None, s)" using r(2) by (cases r) (simp add: buddy_alloc_ok_def)
      then show ?thesis using r(1) MAlloc assms by (simp add: c)
    next
      case (Some p)
      then obtain s' where s': "r = (Some p, s')" by (cases r) auto
      have a: "2 ^ k dvd p" "block p k \<subseteq> free_set s" "free_set s' = free_set s - block p k" "buddy_inv lo hi s'" "lru_pages s' = {}"
        using r(2) P(6) by (auto simp: s' buddy_alloc_ok_def)
      have "k < MAX_ORDER" using alloc_order r(1) s' by blast
      then have "client_inv lo hi (bs @ [(p, k)], s')"
        using P a by (auto simp: client_inv_def partition_ok_def disjoint_app)
      then show ?thesis using r(1) MAlloc s' by (simp add: c)
    qed
  next
    case (MFree i)
    show ?thesis
    proof (cases "i < length bs")
      case False
      then show ?thesis using MFree assms by (simp add: c)
    next
      case True
      obtain p k where pk: "bs ! i = (p, k)" by (cases "bs ! i")
      have bs: "bs = take i bs @ (p, k) # drop (Suc i) bs" using id_take_nth_drop [OF True] pk by simp
      let ?bs = "take i bs @ drop (Suc i) bs"
      have d: "disjoint_blocks ?bs" "block p k \<inter> live_pages ?bs = {}"
        using P(1) by (subst (asm) bs; auto simp: disjoint_app)+
      have m: "(p, k) \<in> set bs" using True pk nth_mem by metis
      have l: "live_pages bs = live_pages ?bs \<union> block p k" by (subst bs) auto
      have g: "good_block lo hi (page_zone p) k p" using m P(2,4,7) l by (auto simp: good_block_def)
      have f: "block p k \<inter> free_set s = {}" "block p k \<inter> lru_pages s = {}" using l P(3,6) by auto
      obtain s' where s': "free_pages_order p k s = Some s'" "buddy_inv lo hi s'" "free_set s' = free_set s \<union> block p k" "lru_pages s' = {}"
        using free_pages_order_ok [OF P(5) g f] P(6) by auto
      have "set ?bs \<subseteq> set bs" by (auto dest: in_set_takeD in_set_dropD)
      then have "\<forall>(p, k)\<in>set ?bs. 2 ^ k dvd p" "\<forall>(p, k)\<in>set ?bs. k < MAX_ORDER" using P(2,7) by blast+
      then have "client_inv lo hi (?bs, s')"
        using s' d l P(3,4) by (auto simp: client_inv_def partition_ok_def)
      then show ?thesis using MFree True s'(1) pk by (simp add: c)
    qed
  qed
qed

lemma mm_run_inv: "client_inv lo hi c \<Longrightarrow> \<exists>c'. mm_run xs c = Some c' \<and> client_inv lo hi c'"
proof (induction xs arbitrary: c)
  case (Cons x xs)
  obtain c' where "mm_step x c = Some c'" "client_inv lo hi c'" using mm_step_inv [OF Cons.prems] by blast
  then show ?case using Cons.IH by simp
qed simp

text \<open>C17 (buddy allocator). After the start on any range below 4 GB and any sequence of allocations and frees of held blocks, every page
  of the range is free or in exactly one block held, no two blocks overlap, each starts at a multiple of its size, and no
  operation touched a structure outside the page array or linked a page twice.\<close>

theorem buddy_partition:
  assumes "mm_zone_init a e s0 = Some s1" "unat (drop_bit 12 e) \<le> MAP_PAGES"
  shows "\<exists>c. mm_run xs ([], s1) = Some c \<and> partition_ok (unat (drop_bit 12 a)) (unat (drop_bit 12 e)) c"
proof -
  obtain s' where "mm_zone_init a e s0 = Some s'" "buddy_inv (unat (drop_bit 12 a)) (unat (drop_bit 12 e)) s'"
    "free_set s' = {unat (drop_bit 12 a)..<unat (drop_bit 12 e)}" "lru_pages s' = {}"
    using mm_zone_init_ok [OF assms(2)] by blast
  then have "client_inv (unat (drop_bit 12 a)) (unat (drop_bit 12 e)) ([], s1)"
    using assms(1) by (simp add: client_inv_def partition_ok_def)
  from mm_run_inv [OF this, of xs] show ?thesis by (auto simp: client_inv_def)
qed

text \<open>Four pages.\<close>

definition four_pages :: bmm where
  "four_pages = the (mm_zone_init 0 0x4000 (bmm_zero (\<lambda>_. 0)))"

lemma four_pages_init: "mm_zone_init 0 0x4000 (bmm_zero (\<lambda>_. 0)) = Some four_pages"
  by (simp add: four_pages_def mm_zone_init_def MAP_PAGES_def Let_def)

theorem buddy_partition_witness:
  "\<exists>c. mm_run [MAlloc 1 0, MAlloc 1 0, MFree 1, MFree 0, MAlloc 1 1] ([], four_pages) = Some c \<and>
     partition_ok (unat (drop_bit 12 (0::u64))) (unat (drop_bit 12 (0x4000::u64))) c"
  by (rule buddy_partition [OF four_pages_init]) (simp add: MAP_PAGES_def)

end
