(* ===== verification/Buddy_Lru.thy ===== *)
theory Buddy_Lru
  imports Buddy_Correct
begin

text \<open>
  The buddy allocator of \<^verbatim>\<open>mm/advanced_mm.c\<close>: where it falls short, and the reclaiming of inactive pages.
\<close>

section \<open>Where the allocator falls short\<close>

text \<open>The pages above 4 GB are outside the page array, so the zone the kernel allocates from is empty: every allocation that
  does not ask for one of the DMA zones fails, however much memory is free.\<close>

lemma normal_zone_empty: "buddy_inv lo hi s \<Longrightarrow> k < MAX_ORDER \<Longrightarrow> fl s ZONE_NORMAL k = []"
proof (rule ccontr)
  assume a: "buddy_inv lo hi s" "k < MAX_ORDER" "fl s ZONE_NORMAL k \<noteq> []"
  then obtain p where "p \<in> set (fl s ZONE_NORMAL k)" by (cases "fl s ZONE_NORMAL k") auto
  then have g: "good_block lo hi ZONE_NORMAL k p" using buddy_invD(2) [OF a(1) _ a(2)] by simp
  then have "p \<in> {lo..<hi}" using block_self [of p k] unfolding good_block_def by blast
  then show False using g buddy_invD(1) [OF a(1)]
    by (auto simp: good_block_def page_zone_def dma32_pages_def MAP_PAGES_def split: if_splits)
qed

lemma kernel_allocation_fails:
  assumes "buddy_inv lo hi s" "g AND GFP_DMA = 0" "g AND GFP_DMA32 = 0"
  shows "alloc_pages g order s = Some (None, s)"
proof -
  have "List.find (\<lambda>c. zn_free (bm_zones s ZONE_NORMAL) c \<noteq> []) [order..<MAX_ORDER] = None"
    using normal_zone_empty [OF assms(1)] by (auto simp: find_None_iff fl_def)
  then show ?thesis using assms(2,3) by (simp add: alloc_pages_def try_zone_def alloc_pages_zone_def)
qed

text \<open>The start adds single pages and joins none: no block of two pages can be had, whatever is free.\<close>

lemma no_large_block_after_start:
  assumes "mm_zone_init a e s0 = Some s1" "unat (drop_bit 12 e) \<le> MAP_PAGES" "0 < order"
  shows "alloc_pages g order s1 = Some (None, s1)"
proof -
  have "\<forall>z k. 0 < k \<longrightarrow> z < NR_ZONES \<longrightarrow> fl s1 z k = []" using mm_zone_init_ok [OF assms(2), of a s0] assms(1) by auto
  then have "List.find (\<lambda>c. zn_free (bm_zones s1 z) c \<noteq> []) [order..<MAX_ORDER] = None" if "z < NR_ZONES" for z
    using that assms(3) by (auto simp: find_None_iff fl_def)
  then have "alloc_pages_zone z order s1 = Some (None, s1)" if "z < NR_ZONES" for z using that by (simp add: alloc_pages_zone_def)
  then show ?thesis by (simp add: alloc_pages_def try_zone_def)
qed

text \<open>A free that joins blocks adds the size of the joined block to the count of free pages instead of its own.\<close>

lemma coalesce_order: "coalesce z p k s = (q, k', s') \<Longrightarrow> k \<le> k'"
proof (induction z p k s rule: coalesce.induct)
  case (1 z p k s)
  show ?case
  proof (cases "k < MAX_ORDER - 1 \<and> p XOR 2 ^ k \<in> set (zn_free (bm_zones s z) k)")
    case True
    then have "coalesce z (if p XOR 2 ^ k < p then p XOR 2 ^ k else p) (k + 1) (free_area_del z k (p XOR 2 ^ k) s) = (q, k', s')"
      using "1.prems" by (simp add: coalesce.simps [of z p k s] Let_def)
    from "1.IH" [OF _ refl _ this] True show ?thesis by simp
  next
    case False
    then have "coalesce z p k s = (p, k, s)" by (subst coalesce.simps) (simp add: Let_def)
    then show ?thesis using "1.prems" by simp
  qed
qed

lemma free_count_drifts:
  assumes "buddy_inv lo hi s" "good_block lo hi (page_zone p) k p" "block p k \<inter> free_set s = {}" "block p k \<inter> lru_pages s = {}"
    and "k < MAX_ORDER - 1" "p XOR 2 ^ k \<in> set (fl s (page_zone p) k)"
  shows "\<exists>s'. free_pages_order p k s = Some s' \<and> bm_free s + 2 ^ k < bm_free s'"
proof -
  let ?z = "page_zone p"
  have z: "?z < NR_ZONES" by (simp add: page_zone_def)
  obtain q k' t where c: "coalesce ?z p k s = (q, k', t)" by (cases "coalesce ?z p k s") auto
  have "coalesce ?z (if p XOR 2 ^ k < p then p XOR 2 ^ k else p) (k + 1) (free_area_del ?z k (p XOR 2 ^ k) s) = (q, k', t)"
    using c assms(5,6) by (simp add: coalesce.simps [of ?z p k s] Let_def fl_def)
  then have k': "k < k'" using coalesce_order by fastforce
  have "same_rest s t" using coalesce_inv [OF assms(1) z assms(2-4), unfolded c prod.case] by blast
  moreover obtain s' where s': "free_pages_order p k s = Some s'" using free_pages_order_ok [OF assms(1-4)] by blast
  moreover have "bm_free s' = bm_free t + 2 ^ k'"
    using s' c by (auto simp: free_pages_order_def Let_def add_pages_free_def free_area_add_def upd_zone_def split: if_splits)
  moreover have "(2::int) ^ k < 2 ^ k'" using k' by simp
  ultimately show ?thesis by (simp add: same_rest_def)
qed

text \<open>A page freed twice is not noticed: here page 1 ends both as a free page and in the free block of pages 0 and 1, so that it can be
  handed out twice.\<close>

definition two_free :: bmm where
  "two_free = (bmm_zero (\<lambda>_. 0))\<lparr>bm_zones := \<lambda>z. if z = 0 then zone_zero\<lparr>zn_free := \<lambda>k. if k = 0 then [1, 0] else []\<rparr> else zone_zero\<rparr>"

lemma double_free_overlaps:
  "\<exists>s. free_page 1 two_free = Some s \<and> 1 \<in> set (fl s ZONE_DMA 0) \<and> 0 \<in> set (fl s ZONE_DMA 1)"
proof -
  have x: "(1::nat) XOR 1 = 0" "(0::nat) XOR 2 = 2" by simp_all
  define t where "t = free_area_del 0 0 0 two_free"
  have c: "coalesce 0 1 0 two_free = (0, 1, t)"
    by (subst coalesce.simps) (simp add: two_free_def bmm_zero_def, subst coalesce.simps,
      simp add: t_def two_free_def bmm_zero_def free_area_del_def upd_zone_def set_free_def add_nr_free_def zone_zero_def)
  have z: "page_zone 1 = 0" by (simp add: page_zone_def dma_pages_def)
  have n: "\<not> on_list t 0"
    by (simp add: on_list_def on_zone_list_def upt_rec t_def two_free_def bmm_zero_def free_area_del_def upd_zone_def set_free_def
        add_nr_free_def zone_zero_def)
  show ?thesis using c z n
    by (simp add: free_page_def free_pages_order_def free_area_add_def MAP_PAGES_def fl_def add_pages_free_def upd_zone_def set_free_def
        add_nr_free_def t_def two_free_def free_area_del_def bmm_zero_def zone_zero_def)
qed

section \<open>Reclaim\<close>

text \<open>What is needed of the list of inactive pages: each page is on no other list, in range, of the zone.\<close>

definition lru_ok :: "nat \<Rightarrow> nat \<Rightarrow> nat \<Rightarrow> bmm \<Rightarrow> bool" where
  "lru_ok lo hi z s \<longleftrightarrow> buddy_inv lo hi s \<and> z < NR_ZONES \<and> distinct (zn_inactive (bm_zones s z)) \<and>
     (\<forall>p\<in>set (zn_inactive (bm_zones s z)). lo \<le> p \<and> p < hi \<and> page_zone p = z \<and>
        (\<forall>z'<NR_ZONES. p \<notin> set (zn_active (bm_zones s z')) \<and> (z' \<noteq> z \<longrightarrow> p \<notin> set (zn_inactive (bm_zones s z')))))"

lemma shrink_unfold:
  "shrink_loop z n r s =
     (if r < n \<and> zn_inactive (bm_zones s z) \<noteq> []
      then let p = last (zn_inactive (bm_zones s z)) in
           if pg_flag PG_referenced p s
           then shrink_loop z n r (upd_zone z (\<lambda>zn. zn\<lparr>zn_inactive := p # butlast (zn_inactive zn)\<rparr>) (clear_pg_flag PG_referenced p s))
           else if pg_flag PG_locked p s \<or> pg_flag PG_dirty p s then shrink_loop z n r s
           else Option.bind
                  (free_page p (clear_pg_flag PG_lru p
                     (upd_zone z (\<lambda>zn. zn\<lparr>zn_inactive := butlast (zn_inactive zn), zn_nr_inactive := zn_nr_inactive zn - 1\<rparr>) s)))
                  (shrink_loop z n (r + 1))
      else Some (r, s))"
  by (rule shrink_loop.simps)


lemma upd_zone_list:
  "zn_inactive (bm_zones (upd_zone z f s) z') = (if z' = z then zn_inactive (f (bm_zones s z)) else zn_inactive (bm_zones s z'))"
  "zn_active (bm_zones (upd_zone z f s) z') = (if z' = z then zn_active (f (bm_zones s z)) else zn_active (bm_zones s z'))"
  "zn_free (bm_zones (upd_zone z f s) z') = (if z' = z then zn_free (f (bm_zones s z)) else zn_free (bm_zones s z'))"
  "zn_nr_free (bm_zones (upd_zone z f s) z') = (if z' = z then zn_nr_free (f (bm_zones s z)) else zn_nr_free (bm_zones s z'))"
  "pg_flag k p (upd_zone z f s) = pg_flag k p s"
  by (simp_all add: upd_zone_def pg_flag_def)

lemma clear_flag:
  "bm_zones (clear_pg_flag k p s) = bm_zones s"
  "pg_flag j q (clear_pg_flag k p s) \<longleftrightarrow> pg_flag j q s \<and> \<not> (q = p \<and> j = k)"
  by (auto simp: clear_pg_flag_def upd_page_def pg_flag_def bit_simps dest: bit_imp_le_length)

text \<open>Changing the list of inactive pages of a zone to a part of it.\<close>

lemma set_inactive_inv:
  assumes "lru_ok lo hi z s" "set xs \<subseteq> set (zn_inactive (bm_zones s z))" "distinct xs"
    and "zn_free (f (bm_zones s z)) = zn_free (bm_zones s z)" "zn_nr_free (f (bm_zones s z)) = zn_nr_free (bm_zones s z)"
    and "zn_active (f (bm_zones s z)) = zn_active (bm_zones s z)" "zn_inactive (f (bm_zones s z)) = xs"
    and s'_def: "s' = clear_pg_flag k p (upd_zone z f s)"
  shows "lru_ok lo hi z s'" "free_set s' = free_set s" "lru_pages s' \<subseteq> lru_pages s"
proof -
  have f: "fl s' = fl s" by (intro ext) (simp add: fl_def s'_def clear_flag upd_zone_list assms(4))
  show fs: "free_set s' = free_set s" by (simp add: free_set_def f)
  have i: "zn_inactive (bm_zones s' z') = (if z' = z then xs else zn_inactive (bm_zones s z'))"
    and a: "zn_active (bm_zones s' z') = zn_active (bm_zones s z')" for z'
    by (simp_all add: s'_def clear_flag upd_zone_list assms(6,7))
  show l: "lru_pages s' \<subseteq> lru_pages s"   proof
    fix x assume "x \<in> lru_pages s'"
    then obtain z' where z': "z' < NR_ZONES" "x \<in> set (zn_active (bm_zones s z')) \<or> x \<in> set (if z' = z then xs else zn_inactive (bm_zones s z'))"
      unfolding lru_pages_def i a by auto
    then have "x \<in> set (zn_active (bm_zones s z')) \<or> x \<in> set (zn_inactive (bm_zones s z'))" using assms(2) by (auto split: if_splits)
    then show "x \<in> lru_pages s" using z'(1) unfolding lru_pages_def by auto
  qed
  have "zn_nr_free (bm_zones s' z') = zn_nr_free (bm_zones s z')" for z' by (simp add: s'_def clear_flag upd_zone_list assms(5))
  then have "buddy_inv lo hi s'" using assms(1) l unfolding lru_ok_def buddy_inv_def f fs by auto
  then show "lru_ok lo hi z s'" using assms(1-3) by (auto simp: lru_ok_def i a)
qed

lemma min_step: "(r::int) < n \<Longrightarrow> 0 \<le> b \<Longrightarrow> (if r + 1 < n then r + 1 + min (n - (r + 1)) b else r + 1) = r + min (n - r) (b + 1)"
  by auto

lemma shrink_loop_ok:
  assumes "lru_ok lo hi z s" "\<forall>p\<in>set (zn_inactive (bm_zones s z)). \<not> pg_flag PG_locked p s \<and> \<not> pg_flag PG_dirty p s"
  shows "\<exists>s'. shrink_loop z n r s =
    Some (if r < n then r + min (n - r) (int (length (zn_inactive (bm_zones s z)))) else r, s')"
  using assms
proof (induction "length (zn_inactive (bm_zones s z)) + length (filter (\<lambda>p. pg_flag PG_referenced p s) (zn_inactive (bm_zones s z)))"
    arbitrary: s r rule: less_induct)
  case less
  let ?L = "zn_inactive (bm_zones s z)"
  show ?case
  proof (cases "r < n \<and> ?L \<noteq> []")
    case False
    then show ?thesis by (subst shrink_unfold) auto
  next
    case True
    define p where "p = last ?L"
    have L: "?L = butlast ?L @ [p]" using True by (simp add: p_def)
    have dist: "distinct ?L" using less.prems(1) by (simp add: lru_ok_def)
    then have "distinct (butlast ?L @ [p])" by (subst (asm) L)
    then have dist': "distinct (butlast ?L)" "p \<notin> set (butlast ?L)" by simp_all
    have pL: "p \<in> set ?L" using True by (simp add: p_def)
    have sub: "set (butlast ?L) \<subseteq> set ?L" by (auto dest: in_set_butlastD)
    show ?thesis
    proof (cases "pg_flag PG_referenced p s")
      case ref: True
      define s1 where "s1 = clear_pg_flag PG_referenced p (upd_zone z (\<lambda>zn. zn\<lparr>zn_inactive := p # butlast (zn_inactive zn)\<rparr>) s)"
      have e: "upd_zone z (\<lambda>zn. zn\<lparr>zn_inactive := p # butlast (zn_inactive zn)\<rparr>) (clear_pg_flag PG_referenced p s) = s1"
        by (simp add: s1_def upd_zone_def clear_pg_flag_def upd_page_def)
      have "lru_ok lo hi z s1" unfolding s1_def
        by (rule set_inactive_inv(1) [OF less.prems(1), of "p # butlast ?L"]) (use pL sub dist' in \<open>auto simp: s1_def\<close>)
      moreover have L1: "zn_inactive (bm_zones s1 z) = p # butlast ?L" by (simp add: s1_def clear_flag upd_zone_list)
      moreover have fl1: "pg_flag j q s1 \<longleftrightarrow> pg_flag j q s \<and> \<not> (q = p \<and> j = PG_referenced)" for j q
        by (simp add: s1_def clear_flag upd_zone_list)
      moreover have "\<forall>q\<in>set (zn_inactive (bm_zones s1 z)). \<not> pg_flag PG_locked q s1 \<and> \<not> pg_flag PG_dirty q s1"
        using less.prems(2) pL sub by (auto simp: L1 fl1)
      moreover have "length (zn_inactive (bm_zones s1 z)) = length ?L" using True by (cases ?L) (simp_all add: L1)
      moreover have "filter (\<lambda>q. pg_flag PG_referenced q s1) (butlast ?L) = filter (\<lambda>q. pg_flag PG_referenced q s) (butlast ?L)"
        using dist'(2) by (intro filter_cong) (auto simp: fl1)
      then have "length (filter (\<lambda>q. pg_flag PG_referenced q s1) (zn_inactive (bm_zones s1 z))) <
          length (filter (\<lambda>q. pg_flag PG_referenced q s) ?L)"
        using ref by (subst L) (simp add: L1 fl1)
      ultimately show ?thesis
        using less.hyps [of s1 r] True ref e by (subst shrink_unfold) (simp add: Let_def p_def [symmetric])
    next
      case nref: False
      define s1 where "s1 = clear_pg_flag PG_lru p
        (upd_zone z (\<lambda>zn. zn\<lparr>zn_inactive := butlast (zn_inactive zn), zn_nr_inactive := zn_nr_inactive zn - 1\<rparr>) s)"
      note S = set_inactive_inv [OF less.prems(1) sub dist'(1),
          of "\<lambda>zn. zn\<lparr>zn_inactive := butlast (zn_inactive zn), zn_nr_inactive := zn_nr_inactive zn - 1\<rparr>" s1 PG_lru p, OF _ _ _ _ s1_def, simplified]
      have L1: "zn_inactive (bm_zones s1 z') = (if z' = z then butlast ?L else zn_inactive (bm_zones s z'))"
        and A1: "zn_active (bm_zones s1 z') = zn_active (bm_zones s z')" for z'
        by (simp_all add: s1_def clear_flag upd_zone_list)
      have zp: "page_zone p = z" "lo \<le> p" "p < hi" "z < NR_ZONES" using less.prems(1) pL by (auto simp: lru_ok_def)
      have "p \<in> lru_pages s" using pL zp(4) by (auto simp: lru_pages_def)
      then have "block p 0 \<inter> free_set s1 = {}" using less.prems(1) S(2) by (auto simp: lru_ok_def dest: buddy_invD(6))
      moreover have "block p 0 \<inter> lru_pages s1 = {}"
        using less.prems(1) pL dist'(2) by (auto simp: lru_pages_def L1 A1 lru_ok_def split: if_splits)
      moreover have "good_block lo hi (page_zone p) 0 p" using zp by (simp add: good_block_def)
      moreover have "buddy_inv lo hi s1" using S(1) by (simp add: lru_ok_def)
      ultimately obtain s2 where s2: "free_page p s1 = Some s2" "buddy_inv lo hi s2" "bm_map s2 = bm_map s1"
        "\<And>z'. zn_inactive (bm_zones s2 z') = zn_inactive (bm_zones s1 z')" "\<And>z'. zn_active (bm_zones s2 z') = zn_active (bm_zones s1 z')"
        using free_pages_order_ok [of lo hi s1 p 0] by (auto simp: free_page_def)
      have ok2: "lru_ok lo hi z s2" using S(1) s2(2,4,5) by (simp add: lru_ok_def)
      have fl2: "pg_flag j q s2 = pg_flag j q s1" for j q using s2(3) by (simp add: pg_flag_def)
      have fl1: "pg_flag j q s1 \<longleftrightarrow> pg_flag j q s \<and> \<not> (q = p \<and> j = PG_lru)" for j q by (simp add: s1_def clear_flag upd_zone_list)
      have L2: "zn_inactive (bm_zones s2 z) = butlast ?L" by (simp add: s2(4) L1)
      have cl: "\<forall>q\<in>set (zn_inactive (bm_zones s2 z)). \<not> pg_flag PG_locked q s2 \<and> \<not> pg_flag PG_dirty q s2"
        using less.prems(2) sub by (auto simp: L2 fl2 fl1)
      have eqf: "filter (\<lambda>q. pg_flag PG_referenced q s2) (butlast ?L) = filter (\<lambda>q. pg_flag PG_referenced q s) (butlast ?L)"
        by (simp add: fl2 fl1)
      have "length (filter (\<lambda>q. pg_flag PG_referenced q s) (butlast ?L)) \<le> length (filter (\<lambda>q. pg_flag PG_referenced q s) ?L)"
        by (subst (2) L) simp
      then have m: "length (zn_inactive (bm_zones s2 z)) + length (filter (\<lambda>q. pg_flag PG_referenced q s2) (zn_inactive (bm_zones s2 z)))
          < length ?L + length (filter (\<lambda>q. pg_flag PG_referenced q s) ?L)"
        using True length_butlast [of ?L] length_greater_0_conv [of ?L] unfolding L2 eqf by linarith
      obtain s' where s': "shrink_loop z n (r + 1) s2 =
          Some (if r + 1 < n then r + 1 + min (n - (r + 1)) (int (length (butlast ?L))) else r + 1, s')"
        using less.hyps [OF m ok2 cl, of "r + 1"] L2 by auto
      have step: "shrink_loop z n r s = shrink_loop z n (r + 1) s2"
        using True nref less.prems(2) pL s2(1) by (subst shrink_unfold) (simp add: Let_def p_def [symmetric] s1_def)
      have "int (length ?L) = int (length (butlast ?L)) + 1" using True by (cases ?L) simp_all
      then have "(if r + 1 < n then r + 1 + min (n - (r + 1)) (int (length (butlast ?L))) else r + 1) =
          r + min (n - r) (int (length ?L))" using min_step [of r n "int (length (butlast ?L))"] True by (simp only: of_nat_0_le_iff simp_thms)
      then show ?thesis using step s' True by simp
    qed
  qed
qed


definition lru_demo :: bmm where
  "lru_demo = (bmm_zero (\<lambda>_. 0))\<lparr>bm_zones := \<lambda>z. if z = 0 then zone_zero\<lparr>zn_inactive := [1, 2], zn_nr_inactive := 2\<rparr> else zone_zero,
     bm_map := \<lambda>p. fresh_page\<lparr>pg_flags := 0x12\<rparr>\<rparr>"


text \<open>A locked or dirty page at the end of the list is looked at again and again: reclaim does not return.\<close>

lemma shrink_zone_hangs:
  assumes "zn_inactive (bm_zones s z) \<noteq> []" "p = last (zn_inactive (bm_zones s z))" "\<not> pg_flag PG_referenced p s"
    and "pg_flag PG_locked p s \<or> pg_flag PG_dirty p s" "0 < n"
  shows "shrink_zone z n s = None"
proof -
  have ne: "(z', n', r', s') \<noteq> (z, n, 0, s)" if h: "shrink_loop z' n' r' s' = Some y" for z' n' r' s' y
  proof (rule shrink_loop.raw_induct [of "\<lambda>z' n' r' s' y. (z', n', r', s') \<noteq> (z, n, 0, s)", OF _ h], goal_cases)
    case (1 f z1 n1 r1 s1 y1)
    show ?case
    proof
      assume "(z1, n1, r1, s1) = (z, n, 0, s)"
      then have "f z n 0 s = Some y1" using 1(2) assms by (auto simp: Let_def)
      then show False using 1(1) by blast
    qed
  qed
  then have "shrink_loop z n 0 s \<noteq> Some y" for y using ne [of z n 0 s y] by blast
  then show ?thesis unfolding shrink_zone_def by (cases "shrink_loop z n 0 s") auto
qed

end
