(* ===== verification/Cow.thy ===== *)
theory Cow
  imports Buddy
begin

text \<open>
  \<^verbatim>\<open>mm/advanced_mm.c\<close>: sharing of pages at a fork, page faults, and areas of an address space, over the buddy
  allocator. Memory is reached at its physical address; the walks do not know large pages. The areas of an address space are the list
  they are linked in.
\<close>

abbreviation (input) PG_PRESENT :: u64 where "PG_PRESENT \<equiv> 1"
abbreviation (input) PG_WRITE :: u64 where "PG_WRITE \<equiv> 2"
abbreviation (input) PG_COW :: u64 where "PG_COW \<equiv> 0x200"
abbreviation (input) PG_NX :: u64 where "PG_NX \<equiv> push_bit 63 1"
abbreviation (input) PAGE_USER :: u64 where "PAGE_USER \<equiv> 7"

section \<open>Entries\<close>

definition pte_mkwrite :: "u64 \<Rightarrow> u64" where
  "pte_mkwrite e = (e OR PG_WRITE) AND NOT PG_COW"

definition pte_wrprotect :: "u64 \<Rightarrow> u64" where
  "pte_wrprotect e = e AND NOT PG_WRITE"

definition pte_mkcow :: "u64 \<Rightarrow> u64" where
  "pte_mkcow e = (e AND NOT PG_WRITE) OR PG_COW"

definition pte_cow :: "u64 \<Rightarrow> bool" where
  "pte_cow e \<longleftrightarrow> e AND PG_COW \<noteq> 0"

definition entry_addr :: "u64 \<Rightarrow> u64" where
  "entry_addr e = e AND NOT 0xFFF"

definition put_word :: "u64 \<Rightarrow> u64 \<Rightarrow> bmm \<Rightarrow> bmm" where
  "put_word a v s = s\<lparr>bm_mem := (bm_mem s)(a := v)\<rparr>"

text \<open>The page table an address has, when the three upper entries are present.\<close>

definition walk_pt :: "(u64 \<Rightarrow> u64) \<Rightarrow> u64 \<Rightarrow> u64 \<Rightarrow> u64 option" where
  "walk_pt m pml4 addr =
     (let e4 = m (ent pml4 (vindex 39 addr)) in
      if e4 AND PG_PRESENT = 0 then None
      else let e3 = m (ent (entry_addr e4) (vindex 30 addr)) in
      if e3 AND PG_PRESENT = 0 then None
      else let e2 = m (ent (entry_addr e3) (vindex 21 addr)) in
      if e2 AND PG_PRESENT = 0 then None else Some (entry_addr e2))"

text \<open>One table of the way down, made when it is missing; the first result is \<open>None\<close> without memory.\<close>

definition ensure_table :: "u64 \<Rightarrow> nat \<Rightarrow> bmm \<Rightarrow> (u64 option \<times> bmm) option" where
  "ensure_table t i s =
     (if bm_mem s (ent t i) AND PG_PRESENT \<noteq> 0 then Some (Some (entry_addr (bm_mem s (ent t i))), s)
      else map_option (\<lambda>(r, s1).
             (case r of None \<Rightarrow> (None, s1)
              | Some p \<Rightarrow> (Some (entry_addr (page_to_phys p OR PAGE_USER)), put_word (ent t i) (page_to_phys p OR PAGE_USER) s1)))
           (alloc_page (GFP_KERNEL OR GFP_ZERO) s))"

definition ensure_tables :: "u64 \<Rightarrow> u64 \<Rightarrow> bmm \<Rightarrow> (u64 option \<times> bmm) option" where
  "ensure_tables pml4 addr s =
     (case ensure_table pml4 (vindex 39 addr) s of
        None \<Rightarrow> None
      | Some (None, s1) \<Rightarrow> Some (None, s1)
      | Some (Some pdpt, s1) \<Rightarrow>
          (case ensure_table pdpt (vindex 30 addr) s1 of
             None \<Rightarrow> None
           | Some (None, s2) \<Rightarrow> Some (None, s2)
           | Some (Some pd, s2) \<Rightarrow> ensure_table pd (vindex 21 addr) s2))"

section \<open>Fork\<close>

text \<open>One page of the range: the result is 0, or minus an error that ends the loop.\<close>

definition copy_page_cow :: "u64 \<Rightarrow> u64 \<Rightarrow> u64 \<Rightarrow> bmm \<Rightarrow> (int \<times> bmm) option" where
  "copy_page_cow dst src addr s =
     (case walk_pt (bm_mem s) src addr of
        None \<Rightarrow> Some (0, s)
      | Some src_pt \<Rightarrow>
          let a = ent src_pt (vindex 12 addr); pte = bm_mem s a in
          if pte AND PG_PRESENT = 0 then Some (0, s)
          else let pte1 = (if pte AND PG_WRITE \<noteq> 0 then (pte OR PG_COW) AND NOT PG_WRITE else pte) in
          Option.bind (if pte AND PG_WRITE \<noteq> 0 then get_page (phys_to_page (entry_addr pte1)) (put_word a (pte_mkcow pte) s) else Some s)
            (\<lambda>s1. map_option (\<lambda>(r, s2).
               (case r of None \<Rightarrow> (- ENOMEM, s2) | Some dst_pt \<Rightarrow> (0, put_word (ent dst_pt (vindex 12 addr)) pte1 s2)))
             (ensure_tables dst addr s1)))"

fun copy_tables_loop :: "nat \<Rightarrow> u64 \<Rightarrow> u64 \<Rightarrow> u64 \<Rightarrow> bmm \<Rightarrow> (int \<times> bmm) option" where
  "copy_tables_loop 0 dst src addr s = Some (0, s)"
| "copy_tables_loop (Suc n) dst src addr s =
     (case copy_page_cow dst src addr s of
        None \<Rightarrow> None
      | Some (r, s1) \<Rightarrow> if r < 0 then Some (r, s1) else copy_tables_loop n dst src (addr + 0x1000) s1)"

text \<open>The number of rounds; a range that ends in the last page of the address space never ends.\<close>

definition copy_page_tables_cow :: "u64 \<Rightarrow> u64 \<Rightarrow> u64 \<Rightarrow> u64 \<Rightarrow> bmm \<Rightarrow> (int \<times> bmm) option" where
  "copy_page_tables_cow dst src start end_addr s =
     (if end_addr \<le> start then Some (0, s)
      else if 2 ^ 64 - 4096 < unat end_addr then None
      else copy_tables_loop ((unat end_addr - unat start + 4095) div 4096) dst src start s)"

section \<open>Faults\<close>

text \<open>Copying a page, 512 words.\<close>

definition copy_words :: "u64 \<Rightarrow> u64 \<Rightarrow> (u64 \<Rightarrow> u64) \<Rightarrow> (u64 \<Rightarrow> u64)" where
  "copy_words dst src m = fold (\<lambda>i m. m(ent dst i := m (ent src i))) [0..<512] m"

definition handle_cow_fault :: "u64 \<Rightarrow> bmm \<Rightarrow> (int \<times> bmm) option" where
  "handle_cow_fault a s =
     (let old_phys = entry_addr (bm_mem s a); old_page = phys_to_page old_phys in
      case page_count old_page s of
        None \<Rightarrow> None
      | Some n \<Rightarrow>
          if n = 1 then Some (0, put_word a (pte_mkwrite (bm_mem s a)) s)
          else (case alloc_page GFP_KERNEL s of
                  None \<Rightarrow> None
                | Some (None, s1) \<Rightarrow> Some (- ENOMEM, s1)
                | Some (Some p, s1) \<Rightarrow>
                    let s2 = s1\<lparr>bm_mem := copy_words (page_to_phys p) old_phys (bm_mem s1)\<rparr>
                    in map_option (Pair 0) (put_page old_page (put_word a (page_to_phys p OR PAGE_USER) s2))))"

record vma =
  va_start :: u64
  va_end :: u64
  va_flags :: u32

record mspace =
  ms_mmap :: "vma list"
  ms_pgd :: u64
  ms_mmap_base :: u64
  ms_map_count :: int
  ms_total_vm :: u64

abbreviation (input) VMF_READ :: u32 where "VMF_READ \<equiv> 1"
abbreviation (input) VMF_WRITE :: u32 where "VMF_WRITE \<equiv> 2"
abbreviation (input) VMF_EXEC :: u32 where "VMF_EXEC \<equiv> 4"
abbreviation (input) VMF_SHARED :: u32 where "VMF_SHARED \<equiv> 8"
abbreviation (input) VMF_ANON :: u32 where "VMF_ANON \<equiv> 0x20000000"
abbreviation (input) VMF_FILE :: u32 where "VMF_FILE \<equiv> 0x40000000"

definition anon_pte :: "nat \<Rightarrow> u32 \<Rightarrow> u64" where
  "anon_pte p fl = page_to_phys p OR (5 OR (if fl AND VMF_WRITE \<noteq> 0 then PG_WRITE else 0) OR
     (if fl AND VMF_EXEC = 0 then PG_NX else 0))"

text \<open>The second argument is the root of the current task's tables, when there is a task with an address space.\<close>

definition handle_anonymous_fault :: "u64 \<Rightarrow> u64 option \<Rightarrow> u32 \<Rightarrow> bmm \<Rightarrow> (int \<times> bmm) option" where
  "handle_anonymous_fault fault_addr pgd fl s =
     (case alloc_page (GFP_KERNEL OR GFP_ZERO) s of
        None \<Rightarrow> None
      | Some (None, s1) \<Rightarrow> Some (- ENOMEM, s1)
      | Some (Some p, s1) \<Rightarrow>
          (case pgd of None \<Rightarrow> Some (- EFAULT, s1)
           | Some pml4 \<Rightarrow>
               (case ensure_tables pml4 fault_addr s1 of
                  None \<Rightarrow> None
                | Some (None, s2) \<Rightarrow> map_option (Pair (- ENOMEM)) (free_page p s2)
                | Some (Some pt, s2) \<Rightarrow> Some (0, put_word (ent pt (vindex 12 fault_addr)) (anon_pte p fl) s2))))"

definition find_area :: "u64 \<Rightarrow> vma list \<Rightarrow> vma option" where
  "find_area a vs = List.find (\<lambda>v. va_start v \<le> a \<and> a < va_end v) vs"

text \<open>The reactions to a write to an area that does not allow writing.\<close>

definition write_fault :: "u64 \<Rightarrow> u64 \<Rightarrow> bmm \<Rightarrow> (int \<times> bmm) option" where
  "write_fault pgd fault_addr s =
     (case walk_pt (bm_mem s) pgd fault_addr of
        None \<Rightarrow> Some (- EFAULT, s)
      | Some pt \<Rightarrow>
          let a = ent pt (vindex 12 fault_addr) in
          if pte_cow (bm_mem s a) then handle_cow_fault a s else Some (- EFAULT, s))"

definition adv_page_fault :: "u64 \<Rightarrow> u64 \<Rightarrow> mspace option \<Rightarrow> bmm \<Rightarrow> (int \<times> bmm) option" where
  "adv_page_fault fault_addr error_code cur s =
     (let present = error_code AND 1 \<noteq> 0; wr = error_code AND 2 \<noteq> 0; user = error_code AND 4 \<noteq> 0; reserved = error_code AND 8 \<noteq> 0 in
      if reserved then Some (- EFAULT, s)
      else if \<not> user \<and> fault_addr < 0xFFFF800000000000 then Some (- EFAULT, s)
      else (case cur of None \<Rightarrow> Some (- EFAULT, s)
        | Some mm \<Rightarrow>
            (case find_area fault_addr (ms_mmap mm) of None \<Rightarrow> Some (- EFAULT, s)
             | Some v \<Rightarrow>
                 if wr \<and> va_flags v AND VMF_WRITE = 0 then write_fault (ms_pgd mm) fault_addr s
                 else if \<not> present \<and> va_flags v AND VMF_ANON \<noteq> 0
                 then handle_anonymous_fault fault_addr (Some (ms_pgd mm)) (va_flags v) s
                 else Some (- EFAULT, s))))"

section \<open>Areas\<close>

fun find_vma_gap :: "u64 \<Rightarrow> u64 \<Rightarrow> vma list \<Rightarrow> u64" where
  "find_vma_gap addr n [] = addr"
| "find_vma_gap addr n (v # vs) = (if addr + n \<le> va_start v then addr else find_vma_gap (va_end v) n vs)"

fun insert_area :: "vma \<Rightarrow> vma list \<Rightarrow> vma list" where
  "insert_area v [] = [v]"
| "insert_area v (w # ws) = (if va_start w < va_start v then w # insert_area v ws else v # w # ws)"

definition align_page :: "u64 \<Rightarrow> u64" where
  "align_page n = (n + 0xFFF) AND NOT 0xFFF"

definition area_flags :: "u32 \<Rightarrow> u32 \<Rightarrow> u32" where
  "area_flags prot flags =
     (if prot AND 1 \<noteq> 0 then VMF_READ else 0) OR (if prot AND 2 \<noteq> 0 then VMF_WRITE else 0) OR (if prot AND 4 \<noteq> 0 then VMF_EXEC else 0) OR
     (if flags AND 1 \<noteq> 0 then VMF_SHARED else 0) OR (if flags AND 0x20 \<noteq> 0 then VMF_ANON else VMF_FILE)"

datatype map_result = Mapped u64 | MapError int

definition adv_mmap :: "bool \<Rightarrow> u64 \<Rightarrow> u64 \<Rightarrow> u32 \<Rightarrow> u32 \<Rightarrow> mspace option \<Rightarrow> map_result \<times> mspace option" where
  "adv_mmap mem_ok addr sz prot flags cur =
     (case cur of None \<Rightarrow> (MapError (- EFAULT), None)
      | Some mm \<Rightarrow>
          let n = align_page sz; fixed = flags AND 0x10 \<noteq> 0 in
          if n = 0 then (MapError (- EINVAL), cur)
          else if fixed \<and> addr AND 0xFFF \<noteq> 0 then (MapError (- EINVAL), cur)
          else let start = (if fixed then addr else find_vma_gap (ms_mmap_base mm) n (ms_mmap mm)) in
          if \<not> mem_ok then (MapError (- ENOMEM), cur)
          else (Mapped start,
                Some (mm\<lparr>ms_mmap := insert_area \<lparr>va_start = start, va_end = start + n, va_flags = area_flags prot flags\<rparr> (ms_mmap mm),
                         ms_map_count := ms_map_count mm + 1, ms_total_vm := ms_total_vm mm + drop_bit 12 n\<rparr>)))"

text \<open>The areas that stay, and those that are removed.\<close>

fun unmap_areas :: "u64 \<Rightarrow> u64 \<Rightarrow> vma list \<Rightarrow> vma list \<times> vma list" where
  "unmap_areas a b [] = ([], [])"
| "unmap_areas a b (v # vs) =
     (if b \<le> va_start v then (v # vs, [])
      else (case unmap_areas a b vs of (ks, rs) \<Rightarrow> if va_end v \<le> a then (v # ks, rs) else (ks, v # rs)))"

definition adv_munmap :: "u64 \<Rightarrow> u64 \<Rightarrow> mspace option \<Rightarrow> int \<times> mspace option" where
  "adv_munmap addr sz cur =
     (case cur of None \<Rightarrow> (- EFAULT, None)
      | Some mm \<Rightarrow>
          (case unmap_areas addr (addr + align_page sz) (ms_mmap mm) of
             (ks, rs) \<Rightarrow> (0, Some (mm\<lparr>ms_mmap := ks, ms_map_count := ms_map_count mm - int (length rs),
                 ms_total_vm := ms_total_vm mm - sum_list (map (\<lambda>v. drop_bit 12 (va_end v - va_start v)) rs)\<rparr>))))"

end
