(* ===== verification/Cow_Correct.thy ===== *)
theory Cow_Correct
  imports Cow Buddy_Lru
begin

text \<open>
  The areas of \<^verbatim>\<open>mm/advanced_mm.c\<close> stay sorted and disjoint under mappings without a fixed address; and what the sharing of
  pages gets wrong.
\<close>

section \<open>Areas\<close>

definition areas_ok :: "vma list \<Rightarrow> bool" where
  "areas_ok vs \<longleftrightarrow> (\<forall>v\<in>set vs. va_start v < va_end v) \<and> sorted_wrt (\<lambda>v w. va_end v \<le> va_start w) vs"

lemma areas_ok_simps [simp]:
  "areas_ok []"
  "areas_ok (v # vs) \<longleftrightarrow> va_start v < va_end v \<and> (\<forall>w\<in>set vs. va_end v \<le> va_start w) \<and> areas_ok vs"
  by (auto simp: areas_ok_def)

definition clear_of :: "u64 \<Rightarrow> u64 \<Rightarrow> vma \<Rightarrow> bool" where
  "clear_of a b v \<longleftrightarrow> va_end v \<le> a \<or> b \<le> va_start v"

lemma gap_above: "areas_ok vs \<Longrightarrow> \<forall>w\<in>set vs. a \<le> va_start w \<Longrightarrow> a \<le> find_vma_gap a n vs"
proof (induction vs arbitrary: a)
  case (Cons v vs)
  then have "va_end v \<le> find_vma_gap (va_end v) n vs" "a \<le> va_end v" by (auto intro: order.trans less_imp_le)
  then show ?case by auto
qed simp

lemma gap_clear:
  "areas_ok vs \<Longrightarrow> v \<in> set vs \<Longrightarrow> clear_of (find_vma_gap a n vs) (find_vma_gap a n vs + n) v"
proof (induction vs arbitrary: a)
  case (Cons w vs)
  show ?case
  proof (cases "a + n \<le> va_start w")
    case True
    moreover have "va_start w \<le> va_start v" using Cons.prems by (auto intro: order.trans less_imp_le)
    ultimately show ?thesis by (auto simp: clear_of_def intro: order.trans)
  next
    case False
    then show ?thesis using Cons gap_above [of vs "va_end w" n] by (auto simp: clear_of_def)
  qed
qed simp

lemma set_insert_area [simp]: "set (insert_area v vs) = insert v (set vs)"
  by (induction vs) auto

lemma insert_area_ok:
  "areas_ok vs \<Longrightarrow> va_start v < va_end v \<Longrightarrow> \<forall>w\<in>set vs. clear_of (va_start v) (va_end v) w \<Longrightarrow> areas_ok (insert_area v vs)"
proof (induction vs)
  case (Cons w vs)
  show ?case
  proof (cases "va_start w < va_start v")
    case True
    then have "va_end w \<le> va_start v" using Cons.prems by (auto simp: clear_of_def dest: order.strict_trans1)
    then show ?thesis using True Cons by auto
  next
    case False
    then have "va_end v \<le> va_start w" using Cons.prems by (auto simp: clear_of_def not_less dest: order.strict_trans1)
    then show ?thesis using False Cons.prems by (auto intro: order.trans less_imp_le)
  qed
qed simp

text \<open>The end of the last gap tried must not wrap around.\<close>

lemma gap_room:
  "\<forall>x\<in>insert a (va_end ` set vs). x < x + n \<Longrightarrow> find_vma_gap a n vs < find_vma_gap a n vs + n"
  by (induction vs arbitrary: a) auto

text \<open>C28 (mappings do not overlap). A mapping without a fixed address takes a range that no area of the address space touches, and the list of
  areas stays sorted and disjoint, as long as there is room below the top of the address space.\<close>

theorem adv_mmap_disjoint:
  assumes "areas_ok (ms_mmap mm)" "flags AND 0x10 = 0" "align_page sz \<noteq> 0"
    and "\<forall>x\<in>insert (ms_mmap_base mm) (va_end ` set (ms_mmap mm)). x < x + align_page sz"
  shows "\<exists>start mm'. adv_mmap True addr sz prot flags (Some mm) = (Mapped start, Some mm') \<and> areas_ok (ms_mmap mm') \<and>
    (\<forall>v\<in>set (ms_mmap mm). clear_of start (start + align_page sz) v)"
proof -
  let ?n = "align_page sz" and ?g = "find_vma_gap (ms_mmap_base mm) (align_page sz) (ms_mmap mm)"
  have "?g < ?g + ?n" by (rule gap_room [OF assms(4)])
  moreover have "\<forall>v\<in>set (ms_mmap mm). clear_of ?g (?g + ?n) v" using gap_clear [OF assms(1)] by blast
  ultimately show ?thesis
    using assms(2,3) insert_area_ok [OF assms(1), of "\<lparr>va_start = ?g, va_end = ?g + ?n, va_flags = area_flags prot flags\<rparr>"]
    by (auto simp: adv_mmap_def Let_def)
qed

definition demo_space :: mspace where
  "demo_space = \<lparr>ms_mmap = [\<lparr>va_start = 0x400000, va_end = 0x402000, va_flags = 5\<rparr>, \<lparr>va_start = 0x600000, va_end = 0x601000, va_flags = 3\<rparr>],
     ms_pgd = 0x1000, ms_mmap_base = 0x500000, ms_map_count = 2, ms_total_vm = 3\<rparr>"

theorem adv_mmap_disjoint_witness:
  "\<exists>start mm'. adv_mmap True 0 0x1800 3 0x22 (Some demo_space) = (Mapped start, Some mm') \<and> areas_ok (ms_mmap mm') \<and>
    (\<forall>v\<in>set (ms_mmap demo_space). clear_of start (start + align_page 0x1800) v)"
  by (rule adv_mmap_disjoint) (simp_all add: demo_space_def align_page_def)

section \<open>Flaws\<close>

text \<open>The search for a gap forgets the base once it has passed an area below it.\<close>

lemma gap_below_base:
  "fst (adv_mmap True 0 0x1000 3 0x22 (Some demo_space)) = Mapped 0x402000"
  by (simp add: adv_mmap_def demo_space_def align_page_def)

text \<open>A fixed address is not compared with the areas there are.\<close>

lemma fixed_mapping_overlaps:
  "case snd (adv_mmap True 0x400000 0x1000 3 0x32 (Some demo_space)) of None \<Rightarrow> False | Some mm \<Rightarrow> \<not> areas_ok (ms_mmap mm)"
  by (simp add: adv_mmap_def demo_space_def align_page_def)

text \<open>Unmapping one page of an area removes the whole area.\<close>

lemma unmap_removes_whole_area:
  "snd (adv_munmap 0x400000 0x1000 (Some demo_space)) =
     Some (demo_space\<lparr>ms_mmap := [\<lparr>va_start = 0x600000, va_end = 0x601000, va_flags = 3\<rparr>], ms_map_count := 1, ms_total_vm := 1\<rparr>)"
  by (simp add: adv_munmap_def demo_space_def align_page_def)

text \<open>A page that is not writable - read-only, or shared by an earlier fork - is shared without taking a reference, so the
  first of its users to let go of it frees it under the others.\<close>

lemma read_only_share_uncounted:
  assumes "walk_pt (bm_mem s) src addr = Some pt" "bm_mem s (ent pt (vindex 12 addr)) AND PG_PRESENT \<noteq> 0"
    and "bm_mem s (ent pt (vindex 12 addr)) AND PG_WRITE = 0" "ensure_tables dst addr s = Some (Some dpt, s)"
  shows "copy_page_cow dst src addr s = Some (0, put_word (ent dpt (vindex 12 addr)) (bm_mem s (ent pt (vindex 12 addr))) s)"
  using assms by (simp add: copy_page_cow_def Let_def)

text \<open>The mask that takes the address out of an entry leaves the no-execute bit in it: the page structure looked up for a writable page
  of data is far outside the array.\<close>

lemma no_execute_page_out_of_array:
  assumes "walk_pt (bm_mem s) src addr = Some pt" "bit (bm_mem s (ent pt (vindex 12 addr))) 0"
    "bit (bm_mem s (ent pt (vindex 12 addr))) 1" "bit (bm_mem s (ent pt (vindex 12 addr))) 63"
  shows "copy_page_cow dst src addr s = None"
proof -
  let ?e = "bm_mem s (ent pt (vindex 12 addr))"
  have p: "?e AND PG_PRESENT \<noteq> 0" using assms(2) by (metis and_one_eq odd_iff_mod_2_eq_one bit_0 zero_neq_one)
  have w: "?e AND PG_WRITE \<noteq> 0"
  proof
    assume "?e AND PG_WRITE = 0"
    then have "bit (?e AND PG_WRITE) 1 = bit (0::u64) 1" by simp
    moreover have "bit (2::u64) 1" by simp
    ultimately show False using assms(3) by (simp add: bit_and_iff)
  qed
  let ?x = "entry_addr ((?e OR PG_COW) AND NOT PG_WRITE)"
  have "bit ?x 63" using assms(4) by (simp add: entry_addr_def bit_and_iff bit_or_iff bit_not_iff)
  then have b: "bit (phys_to_page ?x) 51" by (simp add: phys_to_page_def bit_unsigned_iff bit_drop_bit_eq)
  have "MAP_PAGES \<le> phys_to_page ?x"
  proof (rule ccontr)
    assume "\<not> MAP_PAGES \<le> phys_to_page ?x"
    then have "phys_to_page ?x < 2 ^ 51" by (simp add: MAP_PAGES_def)
    then show False using b by (simp add: bit_nat_def)
  qed
  then show ?thesis using assms(1) p w by (simp add: copy_page_cow_def get_page_def Let_def)
qed

text \<open>A write to a shared page of a writable area - the case sharing is for - is answered with a fault: the copy is only made in areas
  that do not allow writing.\<close>

lemma cow_in_writable_area_refused:
  assumes "find_area fa (ms_mmap mm) = Some v" "va_flags v AND VMF_WRITE \<noteq> 0"
  shows "adv_page_fault fa 7 (Some mm) s = Some (- EFAULT, s)"
  using assms by (simp add: adv_page_fault_def)

text \<open>No fault is ever served that needs a page, because the zone of the kernel is empty.\<close>

lemma anonymous_fault_fails:
  assumes "buddy_inv lo hi s"
  shows "handle_anonymous_fault fa pgd flags s = Some (- ENOMEM, s)"
  using kernel_allocation_fails [OF assms, of "GFP_KERNEL OR GFP_ZERO" 0]
  by (simp add: handle_anonymous_fault_def alloc_page_def)

lemma shared_write_fails:
  assumes "buddy_inv lo hi s" "page_count (phys_to_page (entry_addr (bm_mem s a))) s = Some n" "n \<noteq> 1"
  shows "handle_cow_fault a s = Some (- ENOMEM, s)"
  using kernel_allocation_fails [OF assms(1), of "GFP_KERNEL" 0] assms(2,3)
  by (simp add: handle_cow_fault_def alloc_page_def Let_def)

end
