(* ===== verification/Terminal.thy ===== *)
theory Terminal
  imports Prelude
begin

text \<open>
  \<^verbatim>\<open>drivers/tty/terminal.c\<close>: the terminal emulator. The screen and the text memory of the display are functions
  of the position; an access outside them, or outside the history, and an addition that leaves the range of \<^verbatim>\<open>int\<close> are faults.
  The ports of the display controller are the two fields they set: the place of its cursor and whether it is shown.
\<close>

datatype fault = Outside | Overflow

abbreviation (input) WIDTH :: int where "WIDTH \<equiv> 80"
abbreviation (input) HEIGHT :: int where "HEIGHT \<equiv> 25"
abbreviation (input) SCROLLBACK :: int where "SCROLLBACK \<equiv> 1000"

record cell =
  ce_c :: u8
  ce_fg :: u8
  ce_bg :: u8
  ce_attr :: u8

datatype parse_state = STATE_NORMAL | STATE_ESC | STATE_CSI | STATE_CSI_PARAM | STATE_OSC | STATE_CHARSET

record terminal =
  te_screen :: "int \<Rightarrow> int \<Rightarrow> cell"
  te_history :: "(int \<Rightarrow> int \<Rightarrow> cell) option"
  te_sb_lines :: int
  te_sb_pos :: int
  te_sb_write :: int
  te_x :: int
  te_y :: int
  te_saved_x :: int
  te_saved_y :: int
  te_visible :: bool
  te_fg :: u8
  te_bg :: u8
  te_attr :: u8
  te_default_fg :: u8
  te_default_bg :: u8
  te_state :: parse_state
  te_params :: "int \<Rightarrow> int"
  te_count :: int
  te_private :: bool
  te_origin :: bool
  te_autowrap :: bool
  te_insert :: bool
  te_linefeed :: bool
  te_keys_app :: bool
  te_top :: int
  te_bottom :: int
  te_tabs :: "int \<Rightarrow> bool"
  te_chars :: nat
  te_escapes :: nat
  te_vga :: "int \<Rightarrow> u16"
  te_hw_cursor :: u16
  te_hw_on :: bool

type_synonym tres = "fault + terminal"

definition andthen :: "tres \<Rightarrow> (terminal \<Rightarrow> tres) \<Rightarrow> tres" where
  "andthen r f = (case r of Inl e \<Rightarrow> Inl e | Inr t \<Rightarrow> f t)"

text \<open>A loop over a list of places.\<close>

fun each :: "('a \<Rightarrow> terminal \<Rightarrow> tres) \<Rightarrow> 'a list \<Rightarrow> terminal \<Rightarrow> tres" where
  "each f [] t = Inr t"
| "each f (x # xs) t = andthen (f x t) (each f xs)"

section \<open>Display\<close>

definition vga_entry_color :: "u8 \<Rightarrow> u8 \<Rightarrow> u8" where
  "vga_entry_color fg bg = fg OR push_bit 4 bg"

definition vga_entry :: "u8 \<Rightarrow> u8 \<Rightarrow> u16" where
  "vga_entry c color = ucast c OR push_bit 8 (ucast color)"

definition vga_set_cursor :: "int \<Rightarrow> int \<Rightarrow> terminal \<Rightarrow> terminal" where
  "vga_set_cursor x y t = t\<lparr>te_hw_cursor := of_int (y * WIDTH + x)\<rparr>"

definition vga_enable_cursor :: "terminal \<Rightarrow> terminal" where
  "vga_enable_cursor t = t\<lparr>te_hw_on := True\<rparr>"

definition vga_disable_cursor :: "terminal \<Rightarrow> terminal" where
  "vga_disable_cursor t = t\<lparr>te_hw_on := False\<rparr>"

abbreviation (input) ATTR_BOLD :: u8 where "ATTR_BOLD \<equiv> 1"
abbreviation (input) ATTR_DIM :: u8 where "ATTR_DIM \<equiv> 2"
abbreviation (input) ATTR_UNDERLINE :: u8 where "ATTR_UNDERLINE \<equiv> 4"
abbreviation (input) ATTR_BLINK :: u8 where "ATTR_BLINK \<equiv> 8"
abbreviation (input) ATTR_REVERSE :: u8 where "ATTR_REVERSE \<equiv> 16"
abbreviation (input) ATTR_HIDDEN :: u8 where "ATTR_HIDDEN \<equiv> 32"

definition on_screen :: "int \<Rightarrow> int \<Rightarrow> bool" where
  "on_screen x y \<longleftrightarrow> 0 \<le> x \<and> x < WIDTH \<and> 0 \<le> y \<and> y < HEIGHT"

text \<open>What a cell looks like.\<close>

definition cell_entry :: "cell \<Rightarrow> u16" where
  "cell_entry ce =
     (let fg1 = (if ce_attr ce AND ATTR_BOLD \<noteq> 0 then ce_fg ce OR 8 else ce_fg ce);
          rev = ce_attr ce AND ATTR_REVERSE \<noteq> 0;
          fg2 = (if rev then ce_bg ce else fg1);
          bg2 = (if rev then fg1 else ce_bg ce);
          fg3 = (if ce_attr ce AND ATTR_HIDDEN \<noteq> 0 then bg2 else fg2)
      in vga_entry (if ce_c ce \<noteq> 0 then ce_c ce else 32) (vga_entry_color fg3 bg2))"

definition put_vga :: "int \<Rightarrow> int \<Rightarrow> u16 \<Rightarrow> terminal \<Rightarrow> tres" where
  "put_vga x y v t = (if on_screen x y then Inr (t\<lparr>te_vga := (te_vga t)(y * WIDTH + x := v)\<rparr>) else Inl Outside)"

definition term_render_cell :: "int \<Rightarrow> int \<Rightarrow> terminal \<Rightarrow> tres" where
  "term_render_cell x y t = put_vga x y (cell_entry (te_screen t y x)) t"

definition term_render_line :: "int \<Rightarrow> terminal \<Rightarrow> tres" where
  "term_render_line y t = each (\<lambda>x. term_render_cell x y) [0..WIDTH - 1] t"

definition show_cursor :: "terminal \<Rightarrow> terminal" where
  "show_cursor t = (if te_visible t then vga_set_cursor (te_x t) (te_y t) t else t)"

definition term_render_screen :: "terminal \<Rightarrow> tres" where
  "term_render_screen t = andthen (each term_render_line [0..HEIGHT - 1] t) (\<lambda>t. Inr (show_cursor t))"

section \<open>Cells and lines\<close>

definition put_cell :: "int \<Rightarrow> int \<Rightarrow> cell \<Rightarrow> terminal \<Rightarrow> tres" where
  "put_cell x y ce t =
     (if on_screen x y then Inr (t\<lparr>te_screen := (te_screen t)(y := (te_screen t y)(x := ce))\<rparr>) else Inl Outside)"

definition blank :: "u8 \<Rightarrow> u8 \<Rightarrow> cell" where
  "blank fg bg = \<lparr>ce_c = 32, ce_fg = fg, ce_bg = bg, ce_attr = 0\<rparr>"

definition clear_line :: "cell \<Rightarrow> int \<Rightarrow> terminal \<Rightarrow> tres" where
  "clear_line ce y t = each (\<lambda>x. put_cell x y ce) [0..WIDTH - 1] t"

text \<open>\<^verbatim>\<open>memcpy(term->screen[a], term->screen[b], ...)\<close>\<close>

definition copy_line :: "int \<Rightarrow> int \<Rightarrow> terminal \<Rightarrow> tres" where
  "copy_line a b t =
     (if on_screen 0 a \<and> on_screen 0 b then Inr (t\<lparr>te_screen := (te_screen t)(a := te_screen t b)\<rparr>) else Inl Outside)"

definition term_save_line_to_scrollback :: "int \<Rightarrow> terminal \<Rightarrow> tres" where
  "term_save_line_to_scrollback y t =
     (case te_history t of None \<Rightarrow> Inr t
      | Some h \<Rightarrow>
          if on_screen 0 y \<and> 0 \<le> te_sb_write t \<and> te_sb_write t < SCROLLBACK
          then Inr (t\<lparr>te_history := Some (h(te_sb_write t := te_screen t y)), te_sb_write := (te_sb_write t + 1) mod SCROLLBACK,
                     te_sb_lines := (if te_sb_lines t < SCROLLBACK then te_sb_lines t + 1 else te_sb_lines t)\<rparr>)
          else Inl Outside)"

definition term_scroll_up :: "int \<Rightarrow> int \<Rightarrow> int \<Rightarrow> terminal \<Rightarrow> tres" where
  "term_scroll_up tp bt lines0 t =
     (if lines0 \<le> 0 then Inr t
      else let n = (if bt - tp + 1 < lines0 then bt - tp + 1 else lines0) in
        andthen (if tp = te_top t then each (\<lambda>i. term_save_line_to_scrollback (tp + i)) [0..n - 1] t else Inr t) (\<lambda>t.
        andthen (each (\<lambda>y. copy_line y (y + n)) [tp..bt - n] t) (\<lambda>t.
        andthen (each (clear_line (blank (te_default_fg t) (te_default_bg t))) [bt - n + 1..bt] t) (\<lambda>t.
        each term_render_line [tp..bt] t))))"

definition term_scroll_down :: "int \<Rightarrow> int \<Rightarrow> int \<Rightarrow> terminal \<Rightarrow> tres" where
  "term_scroll_down tp bt lines0 t =
     (if lines0 \<le> 0 then Inr t
      else let n = (if bt - tp + 1 < lines0 then bt - tp + 1 else lines0) in
        andthen (each (\<lambda>y. copy_line y (y - n)) (rev [tp + n..bt]) t) (\<lambda>t.
        andthen (each (clear_line (blank (te_default_fg t) (te_default_bg t))) [tp..tp + n - 1] t) (\<lambda>t.
        each term_render_line [tp..bt] t)))"

text \<open>Lines of the history; \<open>n\<close> lines of the view come from it.\<close>

definition render_history :: "(int \<Rightarrow> int \<Rightarrow> cell) \<Rightarrow> int \<Rightarrow> int \<Rightarrow> terminal \<Rightarrow> tres" where
  "render_history h line y t =
     each (\<lambda>x. put_vga x y (vga_entry (if ce_c (h line x) \<noteq> 0 then ce_c (h line x) else 32)
              (vga_entry_color (ce_fg (h line x)) (ce_bg (h line x))))) [0..WIDTH - 1] t"

definition term_scroll_view :: "int \<Rightarrow> terminal \<Rightarrow> tres" where
  "term_scroll_view n t =
     (case te_history t of None \<Rightarrow> Inr t
      | Some h \<Rightarrow>
          let p = te_sb_pos t + n in
          if p < - 2147483648 \<or> 2147483647 < p then Inl Overflow
          else let p1 = (if p < 0 then 0 else p);
                   p2 = (if te_sb_lines t < p1 then te_sb_lines t else p1);
                   t1 = t\<lparr>te_sb_pos := p2\<rparr>;
                   start = (te_sb_write t - p2 + SCROLLBACK) mod SCROLLBACK
          in if 0 < p2
             then each (\<lambda>y. if y < p2 then render_history h ((start + y) mod SCROLLBACK) y else term_render_line y) [0..HEIGHT - 1] t1
             else term_render_screen t1)"

section \<open>Cursor\<close>

definition term_move_cursor :: "int \<Rightarrow> int \<Rightarrow> terminal \<Rightarrow> terminal" where
  "term_move_cursor x0 y0 t =
     (let x1 = (if x0 < 0 then 0 else x0); x = (if WIDTH \<le> x1 then WIDTH - 1 else x1);
          tp = (if te_origin t then te_top t else 0);
          bt = (if te_origin t then te_bottom t else HEIGHT - 1);
          y1 = (if y0 < tp then tp else y0); y = (if bt < y1 then bt else y1)
      in show_cursor (t\<lparr>te_x := x, te_y := y\<rparr>))"

definition term_newline :: "terminal \<Rightarrow> tres" where
  "term_newline t =
     andthen (if te_bottom t \<le> te_y t then term_scroll_up (te_top t) (te_bottom t) 1 t else Inr (t\<lparr>te_y := te_y t + 1\<rparr>))
       (\<lambda>t. Inr (show_cursor (if te_linefeed t then t\<lparr>te_x := 0\<rparr> else t)))"

section \<open>Control sequences\<close>

definition term_get_param :: "int \<Rightarrow> int \<Rightarrow> terminal \<Rightarrow> int" where
  "term_get_param i def t = (if te_count t \<le> i \<or> te_params t i = 0 then def else te_params t i)"

text \<open>The colours of the parameters 30 to 37, and of 90 to 97.\<close>

definition sgr_colors :: "u8 list" where
  "sgr_colors = [0, 4, 2, 6, 1, 5, 3, 7]"

definition sgr_param :: "int \<Rightarrow> terminal \<Rightarrow> terminal" where
  "sgr_param p t =
     (if p = 0 then t\<lparr>te_fg := te_default_fg t, te_bg := te_default_bg t, te_attr := 0\<rparr>
      else if p = 1 then t\<lparr>te_attr := te_attr t OR ATTR_BOLD\<rparr>
      else if p = 2 then t\<lparr>te_attr := te_attr t OR ATTR_DIM\<rparr>
      else if p = 4 then t\<lparr>te_attr := te_attr t OR ATTR_UNDERLINE\<rparr>
      else if p = 5 then t\<lparr>te_attr := te_attr t OR ATTR_BLINK\<rparr>
      else if p = 7 then t\<lparr>te_attr := te_attr t OR ATTR_REVERSE\<rparr>
      else if p = 8 then t\<lparr>te_attr := te_attr t OR ATTR_HIDDEN\<rparr>
      else if p = 21 \<or> p = 22 then t\<lparr>te_attr := te_attr t AND NOT (ATTR_BOLD OR ATTR_DIM)\<rparr>
      else if p = 24 then t\<lparr>te_attr := te_attr t AND NOT ATTR_UNDERLINE\<rparr>
      else if p = 25 then t\<lparr>te_attr := te_attr t AND NOT ATTR_BLINK\<rparr>
      else if p = 27 then t\<lparr>te_attr := te_attr t AND NOT ATTR_REVERSE\<rparr>
      else if p = 28 then t\<lparr>te_attr := te_attr t AND NOT ATTR_HIDDEN\<rparr>
      else if 30 \<le> p \<and> p \<le> 37 then t\<lparr>te_fg := sgr_colors ! nat (p - 30)\<rparr>
      else if p = 39 then t\<lparr>te_fg := te_default_fg t\<rparr>
      else if 40 \<le> p \<and> p \<le> 47 then t\<lparr>te_bg := sgr_colors ! nat (p - 40)\<rparr>
      else if p = 49 then t\<lparr>te_bg := te_default_bg t\<rparr>
      else if 90 \<le> p \<and> p \<le> 97 then t\<lparr>te_fg := sgr_colors ! nat (p - 90) + 8\<rparr>
      else if 100 \<le> p \<and> p \<le> 107 then t\<lparr>te_bg := sgr_colors ! nat (p - 100) + 8\<rparr>
      else t)"

lemma sgr_param_count [simp]: "te_count (sgr_param p t) = te_count t"
  by (simp add: sgr_param_def)

text \<open>The parameters \<open>38;5;n\<close> and \<open>48;5;n\<close> take three places.\<close>

function sgr_loop :: "int \<Rightarrow> terminal \<Rightarrow> terminal" where
  "sgr_loop i t =
     (if i < te_count t \<or> i = 0
      then let p = term_get_param i 0 t;
               three = i + 2 < te_count t \<and> te_params t (i + 1) = 5;
               color = te_params t (i + 2)
           in if p = 38 \<or> p = 48
              then if three
                   then sgr_loop (i + 3) (if color < 16 then if p = 38 then t\<lparr>te_fg := of_int color\<rparr> else t\<lparr>te_bg := of_int color\<rparr> else t)
                   else sgr_loop (i + 1) t
              else sgr_loop (i + 1) (sgr_param p t)
      else t)"
  by pat_completeness auto
termination
  by (relation "measure (\<lambda>(i, t). nat (max 1 (te_count t) - i))") (auto split: if_splits)

declare sgr_loop.simps [simp del]

definition term_csi_sgr :: "terminal \<Rightarrow> terminal" where
  "term_csi_sgr t = sgr_loop 0 t"

definition pen_blank :: "terminal \<Rightarrow> cell" where
  "pen_blank t = blank (te_fg t) (te_bg t)"

definition csi_erase_display :: "terminal \<Rightarrow> tres" where
  "csi_erase_display t =
     (let mode = term_get_param 0 0 t; b = pen_blank t in
      if mode = 0
      then andthen (each (\<lambda>x. put_cell x (te_y t) b) [te_x t..WIDTH - 1] t) (\<lambda>t1.
           andthen (each (clear_line b) [te_y t + 1..HEIGHT - 1] t1) term_render_screen)
      else if mode = 1
      then andthen (each (\<lambda>x. put_cell x (te_y t) b) [0..te_x t] t) (\<lambda>t1.
           andthen (each (clear_line b) [0..te_y t - 1] t1) term_render_screen)
      else if mode = 2 \<or> mode = 3
      then andthen (each (clear_line b) [0..HEIGHT - 1] (if mode = 3 then t\<lparr>te_sb_lines := 0, te_sb_write := 0\<rparr> else t)) term_render_screen
      else Inr t)"

definition csi_erase_line :: "terminal \<Rightarrow> tres" where
  "csi_erase_line t =
     (let mode = term_get_param 0 0 t in
      if 0 \<le> mode \<and> mode \<le> 2
      then andthen (each (\<lambda>x. put_cell x (te_y t) (pen_blank t))
                      (if mode = 0 then [te_x t..WIDTH - 1] else if mode = 1 then [0..te_x t] else [0..WIDTH - 1]) t)
             (term_render_line (te_y t))
      else Inr t)"

definition csi_margins :: "terminal \<Rightarrow> terminal" where
  "csi_margins t =
     (let top0 = term_get_param 0 1 t - 1; bottom0 = term_get_param 1 HEIGHT t - 1;
          tp = (if top0 < 0 then 0 else top0);
          bt = (if HEIGHT \<le> bottom0 then HEIGHT - 1 else bottom0)
      in if tp < bt then (let t1 = t\<lparr>te_top := tp, te_bottom := bt\<rparr>
                              in term_move_cursor 0 (if te_origin t1 then tp else 0) t1)
         else t)"

definition csi_mode :: "bool \<Rightarrow> terminal \<Rightarrow> terminal" where
  "csi_mode on t =
     (let p = term_get_param 0 1 t in
      if te_private t
      then if p = 1 then t\<lparr>te_keys_app := on\<rparr>
           else if p = 6 then term_move_cursor 0 (if on then te_top t else 0) (t\<lparr>te_origin := on\<rparr>)
           else if p = 7 then t\<lparr>te_autowrap := on\<rparr>
           else if p = 25
           then if on then vga_set_cursor (te_x t) (te_y t) (vga_enable_cursor (t\<lparr>te_visible := True\<rparr>))
                else vga_disable_cursor (t\<lparr>te_visible := False\<rparr>)
           else t
      else if p = 4 then t\<lparr>te_insert := on\<rparr>
      else if p = 20 then t\<lparr>te_linefeed := on\<rparr>
      else t)"

text \<open>A sum of two \<^verbatim>\<open>int\<close>s.\<close>

definition add_int :: "int \<Rightarrow> int \<Rightarrow> (int \<Rightarrow> tres) \<Rightarrow> tres" where
  "add_int a b f = (if a + b < - 2147483648 \<or> 2147483647 < a + b then Inl Overflow else f (a + b))"

abbreviation (input) ch :: "char \<Rightarrow> u8" where "ch c \<equiv> of_char c"

definition term_handle_csi :: "u8 \<Rightarrow> terminal \<Rightarrow> tres" where
  "term_handle_csi c t0 =
     (let p1 = term_get_param 0 1 t0; p2 = term_get_param 1 1 t0; t = t0\<lparr>te_escapes := te_escapes t0 + 1\<rparr>;
          x = te_x t; y = te_y t
      in if c = 0x41 then add_int y (- p1) (\<lambda>v. Inr (term_move_cursor x v t))
         else if c = 0x42 then add_int y p1 (\<lambda>v. Inr (term_move_cursor x v t))
         else if c = 0x43 then add_int x p1 (\<lambda>v. Inr (term_move_cursor v y t))
         else if c = 0x44 then add_int x (- p1) (\<lambda>v. Inr (term_move_cursor v y t))
         else if c = 0x45 then add_int y p1 (\<lambda>v. Inr (term_move_cursor 0 v t))
         else if c = 0x46 then add_int y (- p1) (\<lambda>v. Inr (term_move_cursor 0 v t))
         else if c = 0x47 then Inr (term_move_cursor (p1 - 1) y t)
         else if c = 0x48 \<or> c = 0x66 then Inr (term_move_cursor (p2 - 1) (p1 - 1) t)
         else if c = 0x4A then csi_erase_display t
         else if c = 0x4B then csi_erase_line t
         else if c = 0x4C then term_scroll_down y (te_bottom t) p1 t
         else if c = 0x4D then term_scroll_up y (te_bottom t) p1 t
         else if c = 0x53 then term_scroll_up (te_top t) (te_bottom t) p1 t
         else if c = 0x54 then term_scroll_down (te_top t) (te_bottom t) p1 t
         else if c = 0x64 then Inr (term_move_cursor x (p1 - 1) t)
         else if c = 0x6D then Inr (term_csi_sgr t)
         else if c = 0x72 then Inr (csi_margins t)
         else if c = 0x73 then Inr (t\<lparr>te_saved_x := x, te_saved_y := y\<rparr>)
         else if c = 0x75 then Inr (term_move_cursor (te_saved_x t) (te_saved_y t) t)
         else if c = 0x68 then Inr (csi_mode True t)
         else if c = 0x6C then Inr (csi_mode False t)
         else Inr t)"

section \<open>Characters\<close>

definition next_tab :: "terminal \<Rightarrow> int" where
  "next_tab t = (case List.find (te_tabs t) [te_x t + 1..WIDTH - 1] of None \<Rightarrow> WIDTH - 1 | Some x \<Rightarrow> x)"

definition put_printable :: "u8 \<Rightarrow> terminal \<Rightarrow> tres" where
  "put_printable c t =
     andthen (if te_insert t
              then each (\<lambda>x t. put_cell x (te_y t) (te_screen t (te_y t) (x - 1)) t) (rev [te_x t + 1..WIDTH - 1]) t
              else Inr t) (\<lambda>t.
     andthen (put_cell (te_x t) (te_y t) \<lparr>ce_c = c, ce_fg = te_fg t, ce_bg = te_bg t, ce_attr = te_attr t\<rparr> t) (\<lambda>t.
     andthen (term_render_cell (te_x t) (te_y t) t) (\<lambda>t.
     let t1 = t\<lparr>te_x := te_x t + 1, te_chars := te_chars t + 1\<rparr> in
     andthen (if WIDTH \<le> te_x t1
              then if te_autowrap t1 then term_newline (t1\<lparr>te_x := 0\<rparr>) else Inr (t1\<lparr>te_x := WIDTH - 1\<rparr>)
              else Inr t1) (\<lambda>t. Inr (show_cursor t)))))"

definition start_escape :: "terminal \<Rightarrow> terminal" where
  "start_escape t = t\<lparr>te_state := STATE_ESC, te_count := 0, te_private := False, te_params := \<lambda>_. 0\<rparr>"

definition term_putchar_internal :: "u8 \<Rightarrow> terminal \<Rightarrow> tres" where
  "term_putchar_internal c t =
     (if c = 0 \<or> c = 7 then Inr t
      else if c = 8 then Inr (if 0 < te_x t then t\<lparr>te_x := te_x t - 1\<rparr> else t)
      else if c = 9 then Inr (t\<lparr>te_x := next_tab t\<rparr>)
      else if c = 10 then term_newline t
      else if c = 13 then Inr (t\<lparr>te_x := 0\<rparr>)
      else if c = 27 then Inr (start_escape t)
      else put_printable c t)"

definition to_normal :: "terminal \<Rightarrow> terminal" where
  "to_normal t = t\<lparr>te_state := STATE_NORMAL\<rparr>"

definition esc_char :: "u8 \<Rightarrow> terminal \<Rightarrow> tres" where
  "esc_char c t =
     (if c = 0x5B then Inr (t\<lparr>te_state := STATE_CSI\<rparr>)
      else if c = 0x5D then Inr (t\<lparr>te_state := STATE_OSC\<rparr>)
      else if c \<in> {0x28, 0x29, 0x2A, 0x2B} then Inr (t\<lparr>te_state := STATE_CHARSET\<rparr>)
      else if c = 0x37 then Inr (to_normal (t\<lparr>te_saved_x := te_x t, te_saved_y := te_y t\<rparr>))
      else if c = 0x38 then Inr (to_normal (term_move_cursor (te_saved_x t) (te_saved_y t) t))
      else if c = 0x44 then andthen (term_newline t) (\<lambda>t. Inr (to_normal t))
      else if c = 0x45 then andthen (term_newline (t\<lparr>te_x := 0\<rparr>)) (\<lambda>t. Inr (to_normal t))
      else if c = 0x4D
      then andthen (if te_y t \<le> te_top t then term_scroll_down (te_top t) (te_bottom t) 1 t else Inr (t\<lparr>te_y := te_y t - 1\<rparr>))
             (\<lambda>t. Inr (to_normal t))
      else if c = 0x63
      then Inr (to_normal (t\<lparr>te_fg := te_default_fg t, te_bg := te_default_bg t, te_attr := 0, te_x := 0, te_y := 0, te_top := 0,
                           te_bottom := HEIGHT - 1\<rparr>))
      else Inr (to_normal t))"

definition is_digit :: "u8 \<Rightarrow> bool" where
  "is_digit c \<longleftrightarrow> 0x30 \<le> c \<and> c \<le> 0x39"

definition digit_of :: "u8 \<Rightarrow> int" where
  "digit_of c = uint c - 48"

definition csi_final :: "u8 \<Rightarrow> terminal \<Rightarrow> tres" where
  "csi_final c t = (if 0x40 \<le> c \<and> c \<le> 0x7E then andthen (term_handle_csi c t) (\<lambda>t. Inr (to_normal t)) else Inr (to_normal t))"

definition csi_char :: "u8 \<Rightarrow> terminal \<Rightarrow> tres" where
  "csi_char c t =
     (if c = 0x3F then Inr (t\<lparr>te_private := True\<rparr>)
      else if is_digit c then Inr (t\<lparr>te_state := STATE_CSI_PARAM, te_params := (te_params t)(0 := digit_of c), te_count := 1\<rparr>)
      else if c = 0x3B then Inr (t\<lparr>te_state := STATE_CSI_PARAM, te_count := 1\<rparr>)
      else csi_final c t)"

text \<open>The array has 16 parameters.\<close>

definition csi_param_char :: "u8 \<Rightarrow> terminal \<Rightarrow> tres" where
  "csi_param_char c t =
     (if is_digit c
      then let i = (if 0 < te_count t then te_count t - 1 else 0); v = te_params t i * 10 + digit_of c
           in if i < 0 \<or> 16 \<le> i then Inl Outside
              else if 2147483647 < v then Inl Overflow
              else Inr (t\<lparr>te_params := (te_params t)(i := v)\<rparr>)
      else if c = 0x3B then Inr (if te_count t < 16 then t\<lparr>te_count := te_count t + 1\<rparr> else t)
      else csi_final c t)"

definition term_putchar :: "u8 \<Rightarrow> terminal \<Rightarrow> tres" where
  "term_putchar c t =
     (case te_state t of
        STATE_NORMAL \<Rightarrow> term_putchar_internal c t
      | STATE_ESC \<Rightarrow> esc_char c t
      | STATE_CSI \<Rightarrow> csi_char c t
      | STATE_CSI_PARAM \<Rightarrow> csi_param_char c t
      | STATE_OSC \<Rightarrow> Inr (if c = 7 \<or> c = 0x5C then to_normal t else t)
      | STATE_CHARSET \<Rightarrow> Inr (to_normal t))"

definition term_write :: "u8 list \<Rightarrow> terminal \<Rightarrow> tres" where
  "term_write cs t = each term_putchar cs t"

text \<open>The characters before the first zero byte.\<close>

definition term_puts :: "u8 list \<Rightarrow> terminal \<Rightarrow> tres" where
  "term_puts cs t = each term_putchar (takeWhile (\<lambda>c. c \<noteq> 0) cs) t"

definition term_clear :: "terminal \<Rightarrow> tres" where
  "term_clear t =
     andthen (each (clear_line (blank (te_default_fg t) (te_default_bg t))) [0..HEIGHT - 1] t)
       (\<lambda>t. term_render_screen (t\<lparr>te_x := 0, te_y := 0\<rparr>))"

definition zero_cell :: cell where
  "zero_cell = \<lparr>ce_c = 0, ce_fg = 0, ce_bg = 0, ce_attr = 0\<rparr>"

text \<open>The first argument is the answer of \<^verbatim>\<open>kmalloc\<close>, the second what the text memory held.\<close>

definition term_init :: "bool \<Rightarrow> (int \<Rightarrow> u16) \<Rightarrow> tres" where
  "term_init mem_ok vga =
     andthen (term_clear
       \<lparr>te_screen = \<lambda>_ _. zero_cell, te_history = (if mem_ok then Some (\<lambda>_ _. zero_cell) else None), te_sb_lines = 0, te_sb_pos = 0,
        te_sb_write = 0, te_x = 0, te_y = 0, te_saved_x = 0, te_saved_y = 0, te_visible = True, te_fg = 7, te_bg = 0, te_attr = 0,
        te_default_fg = 7, te_default_bg = 0, te_state = STATE_NORMAL, te_params = \<lambda>_. 0, te_count = 0, te_private = False,
        te_origin = False, te_autowrap = True, te_insert = False, te_linefeed = False, te_keys_app = False, te_top = 0,
        te_bottom = HEIGHT - 1, te_tabs = \<lambda>x. x mod 8 = 0, te_chars = 0, te_escapes = 0, te_vga = vga, te_hw_cursor = 0,
        te_hw_on = False\<rparr>) (\<lambda>t. Inr (vga_enable_cursor t))"

text \<open>The flag is that the terminal was initialised.\<close>

definition term_get_main :: "bool \<Rightarrow> terminal \<Rightarrow> terminal option" where
  "term_get_main initialized t = (if initialized then Some t else None)"

definition term_kprint :: "u8 list \<Rightarrow> terminal \<Rightarrow> tres" where
  "term_kprint cs t = term_puts cs t"

end
