(* ===== verification/Terminal_Correct.thy ===== *)
theory Terminal_Correct
  imports Terminal
begin

text \<open>
  The terminal emulator never leaves its arrays, whatever bytes it is given; the text memory of the display shows the screen; a
  cursor address sent as decimal digits is the place the cursor goes to. Then what goes wrong.
\<close>

section \<open>What drawing does not change\<close>

definition hist_ok :: "terminal \<Rightarrow> bool" where
  "hist_ok t \<longleftrightarrow> 0 \<le> te_sb_write t \<and> te_sb_write t < SCROLLBACK \<and> 0 \<le> te_sb_lines t \<and> te_sb_lines t \<le> SCROLLBACK"

definition same_core :: "terminal \<Rightarrow> terminal \<Rightarrow> bool" where
  "same_core t t' \<longleftrightarrow>
     te_sb_pos t' = te_sb_pos t \<and> te_x t' = te_x t \<and> te_y t' = te_y t \<and> te_saved_x t' = te_saved_x t \<and> te_saved_y t' = te_saved_y t \<and>
     te_visible t' = te_visible t \<and> te_fg t' = te_fg t \<and> te_bg t' = te_bg t \<and> te_attr t' = te_attr t \<and>
     te_default_fg t' = te_default_fg t \<and> te_default_bg t' = te_default_bg t \<and> te_state t' = te_state t \<and>
     te_params t' = te_params t \<and> te_count t' = te_count t \<and> te_private t' = te_private t \<and> te_origin t' = te_origin t \<and>
     te_autowrap t' = te_autowrap t \<and> te_insert t' = te_insert t \<and> te_linefeed t' = te_linefeed t \<and>
     te_top t' = te_top t \<and> te_bottom t' = te_bottom t \<and> te_tabs t' = te_tabs t \<and> (hist_ok t \<longrightarrow> hist_ok t')"

lemma same_core_refl [simp]: "same_core t t"
  by (simp add: same_core_def)

lemma same_core_trans: "same_core t u \<Longrightarrow> same_core u v \<Longrightarrow> same_core t v"
  by (simp add: same_core_def)

lemma same_coreD:
  assumes "same_core t t'"
  shows "te_x t' = te_x t" "te_y t' = te_y t" "te_visible t' = te_visible t" "te_fg t' = te_fg t" "te_bg t' = te_bg t"
    "te_attr t' = te_attr t" "te_default_fg t' = te_default_fg t" "te_default_bg t' = te_default_bg t" "te_state t' = te_state t"
    "te_count t' = te_count t" "te_origin t' = te_origin t" "te_autowrap t' = te_autowrap t" "te_insert t' = te_insert t"
    "te_linefeed t' = te_linefeed t" "te_top t' = te_top t" "te_bottom t' = te_bottom t" "te_sb_pos t' = te_sb_pos t"
    "hist_ok t \<Longrightarrow> hist_ok t'"
  using assms by (simp_all add: same_core_def)

text \<open>The cells the display does not show.\<close>

definition dirty :: "terminal \<Rightarrow> (int \<times> int) set" where
  "dirty t = {(x, y). on_screen x y \<and> te_vga t (y * WIDTH + x) \<noteq> cell_entry (te_screen t y x)}"

definition rows :: "int set \<Rightarrow> (int \<times> int) set" where
  "rows Y = {(x, y). y \<in> Y}"

lemma andthen_simps [simp]: "andthen (Inr t) f = f t" "andthen (Inl e) f = Inl e"
  by (simp_all add: andthen_def)

lemma andthen_assoc: "andthen (andthen r f) g = andthen r (\<lambda>t. andthen (f t) g)"
  by (cases r) simp_all

lemma each_append: "each f (xs @ ys) t = andthen (each f xs t) (each f ys)"
  by (induction xs arbitrary: t) (auto simp: andthen_def split: sum.splits)

text \<open>Steps that may leave the cells of \<open>A\<close> unshown, and steps that show cells.\<close>

definition draws :: "(int \<times> int) set \<Rightarrow> terminal \<Rightarrow> tres \<Rightarrow> bool" where
  "draws A t r \<longleftrightarrow> (\<exists>t'. r = Inr t' \<and> same_core t t' \<and> dirty t' \<subseteq> dirty t \<union> A)"

definition shows_cells :: "(int \<times> int) set \<Rightarrow> terminal \<Rightarrow> tres \<Rightarrow> bool" where
  "shows_cells B t r \<longleftrightarrow> (\<exists>t'. r = Inr t' \<and> same_core t t' \<and> dirty t' \<subseteq> dirty t - B)"

lemma draws_mono: "draws A t r \<Longrightarrow> A \<subseteq> B \<Longrightarrow> draws B t r"
  unfolding draws_def by blast

lemma each_draws:
  assumes "\<And>x u. x \<in> set xs \<Longrightarrow> same_core t u \<Longrightarrow> draws A u (f x u)"
  shows "draws A t (each f xs t)"
proof -
  have "same_core t u \<Longrightarrow> draws A u (each f xs u)" for u
    using assms
  proof (induction xs arbitrary: u)
    case Nil
    then show ?case by (simp add: draws_def)
  next
    case (Cons x xs)
    obtain v where v: "f x u = Inr v" "same_core u v" "dirty v \<subseteq> dirty u \<union> A"
      using Cons.prems(2) [of x u] Cons.prems(1) by (auto simp: draws_def)
    have "draws A v (each f xs v)"
      by (rule Cons.IH [OF same_core_trans [OF Cons.prems(1) v(2)]]) (use Cons.prems(2) in simp)
    then obtain w where w: "each f xs v = Inr w" "same_core v w" "dirty w \<subseteq> dirty v \<union> A" by (auto simp: draws_def)
    have "dirty w \<subseteq> dirty u \<union> A" using v(3) w(3) by blast
    then show ?case using v(1) w(1) same_core_trans [OF v(2) w(2)] by (simp add: draws_def)
  qed
  then show ?thesis by simp
qed

lemma each_shows:
  assumes "\<And>x u. x \<in> set xs \<Longrightarrow> shows_cells (B x) u (f x u)"
  shows "shows_cells (\<Union>x\<in>set xs. B x) t (each f xs t)"
  using assms
proof (induction xs arbitrary: t)
  case Nil
  then show ?case by (simp add: shows_cells_def)
next
  case (Cons x xs)
  obtain v where v: "f x t = Inr v" "same_core t v" "dirty v \<subseteq> dirty t - B x"
    using Cons.prems [of x t] by (auto simp: shows_cells_def)
  have "shows_cells (\<Union>x\<in>set xs. B x) v (each f xs v)" by (rule Cons.IH) (use Cons.prems in simp)
  then obtain w where w: "each f xs v = Inr w" "same_core v w" "dirty w \<subseteq> dirty v - (\<Union>x\<in>set xs. B x)" by (auto simp: shows_cells_def)
  have "dirty w \<subseteq> dirty t - (\<Union>x\<in>set (x # xs). B x)" using v(3) w(3) by auto
  then show ?case using v(1) w(1) same_core_trans [OF v(2) w(2)] by (simp add: shows_cells_def)
qed

lemma draws_then:
  assumes "draws A t r" "\<And>u. same_core t u \<Longrightarrow> draws B u (f u)"
  shows "draws (A \<union> B) t (andthen r f)"
proof -
  obtain u where u: "r = Inr u" "same_core t u" "dirty u \<subseteq> dirty t \<union> A" using assms(1) by (auto simp: draws_def)
  then obtain v where v: "f u = Inr v" "same_core u v" "dirty v \<subseteq> dirty u \<union> B" using assms(2) [OF u(2)] by (auto simp: draws_def)
  have "dirty v \<subseteq> dirty t \<union> (A \<union> B)" using u(3) v(3) by blast
  then show ?thesis using u(1) v(1) same_core_trans [OF u(2) v(2)] by (simp add: draws_def)
qed

text \<open>Drawing and then showing what was drawn.\<close>

lemma draws_shown:
  assumes "draws A t r" "\<And>u. same_core t u \<Longrightarrow> shows_cells B u (f u)" "A \<subseteq> B"
  shows "draws {} t (andthen r f)"
proof -
  obtain u where u: "r = Inr u" "same_core t u" "dirty u \<subseteq> dirty t \<union> A" using assms(1) by (auto simp: draws_def)
  then obtain v where v: "f u = Inr v" "same_core u v" "dirty v \<subseteq> dirty u - B" using assms(2) [OF u(2)] by (auto simp: shows_cells_def)
  have "dirty v \<subseteq> dirty t" using u(3) v(3) assms(3) by blast
  then show ?thesis using u(1) v(1) same_core_trans [OF u(2) v(2)] by (simp add: draws_def)
qed

section \<open>Cells and lines\<close>

lemma put_cell_draws: "on_screen x y \<Longrightarrow> draws {(x, y)} t (put_cell x y ce t)"
  by (auto simp: draws_def put_cell_def same_core_def dirty_def hist_ok_def split: if_splits)

lemma vga_place: "on_screen x y \<Longrightarrow> on_screen x' y' \<Longrightarrow> y * WIDTH + x = y' * WIDTH + x' \<longleftrightarrow> x = x' \<and> y = y'"
proof
  assume a: "on_screen x y" "on_screen x' y'" "y * WIDTH + x = y' * WIDTH + x'"
  then have "(y * 80 + x) div 80 = y" "(y' * 80 + x') div 80 = y'" by (simp_all add: on_screen_def)
  then have "y = y'" using a(3) by metis
  then show "x = x' \<and> y = y'" using a(3) by simp
qed simp

lemma render_cell_shows: "on_screen x y \<Longrightarrow> shows_cells {(x, y)} t (term_render_cell x y t)"
  by (auto simp: shows_cells_def term_render_cell_def put_vga_def same_core_def dirty_def hist_ok_def split: if_splits
      dest: vga_place [THEN iffD1, rotated 2])

lemma render_line_shows: "0 \<le> y \<Longrightarrow> y < HEIGHT \<Longrightarrow> shows_cells (rows {y}) t (term_render_line y t)"
proof -
  assume y: "0 \<le> y" "y < HEIGHT"
  have "shows_cells (\<Union>x\<in>set [0..WIDTH - 1]. {(x, y)}) t (term_render_line y t)"
    unfolding term_render_line_def by (rule each_shows) (use y in \<open>auto intro!: render_cell_shows simp: on_screen_def\<close>)
  then show ?thesis by (force simp: shows_cells_def rows_def dirty_def on_screen_def)
qed

lemma render_lines_show:
  assumes "0 \<le> a" "b < HEIGHT"
  shows "shows_cells (rows {a..b}) t (each term_render_line [a..b] t)"
proof -
  have "shows_cells (\<Union>y\<in>set [a..b]. rows {y}) t (each term_render_line [a..b] t)"
    by (rule each_shows) (use assms in \<open>auto intro!: render_line_shows\<close>)
  moreover have "(\<Union>y\<in>set [a..b]. rows {y}) = rows {a..b}" by (auto simp: rows_def)
  ultimately show ?thesis by simp
qed

lemma show_cursor_core [simp]: "same_core t (show_cursor t)" "dirty (show_cursor t) = dirty t" "te_screen (show_cursor t) = te_screen t"
  by (simp_all add: show_cursor_def vga_set_cursor_def same_core_def hist_ok_def dirty_def)

lemma render_screen_shows: "shows_cells UNIV t (term_render_screen t)"
proof -
  obtain u where u: "each term_render_line [0..HEIGHT - 1] t = Inr u" "same_core t u" "dirty u \<subseteq> dirty t - rows {0..HEIGHT - 1}"
    using render_lines_show [of 0 "HEIGHT - 1" t] by (auto simp: shows_cells_def)
  have "dirty t \<subseteq> rows {0..HEIGHT - 1}" by (auto simp: dirty_def rows_def on_screen_def)
  then have "dirty u = {}" using u(3) by blast
  then show ?thesis using u same_core_trans [OF u(2) show_cursor_core(1)] by (simp add: shows_cells_def term_render_screen_def)
qed

lemma clear_line_draws: "0 \<le> y \<Longrightarrow> y < HEIGHT \<Longrightarrow> draws (rows {y}) t (clear_line ce y t)"
  unfolding clear_line_def
  by (rule each_draws, rule draws_mono [OF put_cell_draws]) (auto simp: on_screen_def rows_def)

lemma clear_lines_draw: "0 \<le> a \<Longrightarrow> b < HEIGHT \<Longrightarrow> draws (rows {a..b}) t (each (clear_line ce) [a..b] t)"
  by (rule each_draws, rule draws_mono [OF clear_line_draws]) (auto simp: rows_def)

lemma copy_line_draws: "on_screen 0 a \<Longrightarrow> on_screen 0 b \<Longrightarrow> draws (rows {a}) t (copy_line a b t)"
  by (auto simp: draws_def copy_line_def same_core_def dirty_def hist_ok_def rows_def split: if_splits)

lemma save_line_draws:
  assumes "on_screen 0 y" "hist_ok t"
  shows "draws {} t (term_save_line_to_scrollback y t)"
  using assms
  by (auto simp: draws_def term_save_line_to_scrollback_def same_core_def dirty_def hist_ok_def split: option.split)

section \<open>Scrolling\<close>

lemma scroll_up_draws:
  assumes "0 \<le> a" "b < HEIGHT" "hist_ok t"
  shows "draws {} t (term_scroll_up a b k t)"
proof (cases "k \<le> 0")
  case True
  then show ?thesis by (simp add: term_scroll_up_def draws_def)
next
  case False
  define n where "n = (if b - a + 1 < k then b - a + 1 else k)"
  have n: "n \<le> b - a + 1" "0 < n \<or> n = b - a + 1" using False by (auto simp: n_def)
  have s1: "draws {} t (if a = te_top t then each (\<lambda>i. term_save_line_to_scrollback (a + i)) [0..n - 1] t else Inr t)"
  proof (cases "a = te_top t")
    case True
    have "draws {} t (each (\<lambda>i. term_save_line_to_scrollback (a + i)) [0..n - 1] t)"
      by (rule each_draws, rule save_line_draws) (use assms n in \<open>auto simp: on_screen_def dest: same_coreD(18)\<close>)
    then show ?thesis using True by simp
  qed (simp add: draws_def)
  have s2: "draws (rows {a..b}) u (each (\<lambda>y. copy_line y (y + n)) [a..b - n] u)" for u
    by (rule each_draws, rule draws_mono [OF copy_line_draws]) (use assms n in \<open>auto simp: on_screen_def rows_def\<close>)
  have s3: "draws (rows {a..b}) u (each (clear_line ce) [b - n + 1..b] u)" for u ce
    by (rule draws_mono [OF clear_lines_draw]) (use assms n in \<open>auto simp: rows_def\<close>)
  have s4: "shows_cells (rows {a..b}) u (each term_render_line [a..b] u)" for u by (rule render_lines_show [OF assms(1,2)])
  have e: "term_scroll_up a b k t = andthen (andthen (andthen (if a = te_top t then each (\<lambda>i. term_save_line_to_scrollback (a + i)) [0..n - 1] t else Inr t)
      (\<lambda>t. each (\<lambda>y. copy_line y (y + n)) [a..b - n] t)) (\<lambda>t. each (clear_line (blank (te_default_fg t) (te_default_bg t))) [b - n + 1..b] t))
      (\<lambda>t. each term_render_line [a..b] t)"
    unfolding term_scroll_up_def Let_def n_def [symmetric] andthen_assoc using False by simp
  show ?thesis unfolding e
    by (rule draws_shown [OF draws_then [OF draws_then [OF s1 s2] s3] s4]) auto
qed

lemma scroll_down_draws:
  assumes "0 \<le> a" "b < HEIGHT"
  shows "draws {} t (term_scroll_down a b k t)"
proof (cases "k \<le> 0")
  case True
  then show ?thesis by (simp add: term_scroll_down_def draws_def)
next
  case False
  define n where "n = (if b - a + 1 < k then b - a + 1 else k)"
  have n: "n \<le> b - a + 1" "0 < n \<or> n = b - a + 1" using False by (auto simp: n_def)
  have s2: "draws (rows {a..b}) u (each (\<lambda>y. copy_line y (y - n)) (rev [a + n..b]) u)" for u
    by (rule each_draws, rule draws_mono [OF copy_line_draws]) (use assms n in \<open>auto simp: on_screen_def rows_def\<close>)
  have s3: "draws (rows {a..b}) u (each (clear_line ce) [a..a + n - 1] u)" for u ce
    by (rule draws_mono [OF clear_lines_draw]) (use assms n in \<open>auto simp: rows_def\<close>)
  have s4: "shows_cells (rows {a..b}) u (each term_render_line [a..b] u)" for u by (rule render_lines_show [OF assms(1,2)])
  have e: "term_scroll_down a b k t = andthen (andthen (each (\<lambda>y. copy_line y (y - n)) (rev [a + n..b]) t)
      (\<lambda>t. each (clear_line (blank (te_default_fg t) (te_default_bg t))) [a..a + n - 1] t)) (\<lambda>t. each term_render_line [a..b] t)"
    unfolding term_scroll_down_def Let_def n_def [symmetric] andthen_assoc using False by simp
  show ?thesis unfolding e
    by (rule draws_shown [OF draws_then [OF s2 s3] s4]) auto
qed


section \<open>The invariant\<close>

definition term_inv :: "terminal \<Rightarrow> bool" where
  "term_inv t \<longleftrightarrow> hist_ok t \<and> on_screen (te_x t) (te_y t) \<and> 0 \<le> te_top t \<and> te_top t < te_bottom t \<and> te_bottom t < HEIGHT \<and>
     0 \<le> te_count t \<and> te_count t \<le> 16 \<and> 0 \<le> te_sb_pos t \<and> te_sb_pos t \<le> SCROLLBACK"

lemma term_inv_core: "term_inv t \<Longrightarrow> same_core t t' \<Longrightarrow> term_inv t'"
  by (simp add: term_inv_def same_core_def)

text \<open>A step keeps the invariant and, outside insert mode, what is shown; the only fault it can have is an overflow.\<close>

definition step_ok :: "terminal \<Rightarrow> tres \<Rightarrow> bool" where
  "step_ok t r \<longleftrightarrow>
     (case r of Inl e \<Rightarrow> e = Overflow | Inr t' \<Rightarrow> term_inv t' \<and> (\<not> te_insert t \<longrightarrow> dirty t' \<subseteq> dirty t))"

lemma step_ok_Inr: "term_inv t' \<Longrightarrow> dirty t' \<subseteq> dirty t \<Longrightarrow> step_ok t (Inr t')"
  by (simp add: step_ok_def)

lemma draws_step: "draws {} t r \<Longrightarrow> term_inv t \<Longrightarrow> step_ok t r"
  by (auto simp: draws_def step_ok_def dest: term_inv_core)

lemma move_cursor_ok:
  assumes "hist_ok t" "0 \<le> te_top t" "te_top t < te_bottom t" "te_bottom t < HEIGHT" "0 \<le> te_count t" "te_count t \<le> 16"
    "0 \<le> te_sb_pos t" "te_sb_pos t \<le> SCROLLBACK"
  shows "term_inv (term_move_cursor x y t) \<and> dirty (term_move_cursor x y t) = dirty t \<and>
    te_screen (term_move_cursor x y t) = te_screen t \<and> te_insert (term_move_cursor x y t) = te_insert t"
proof -
  define t1 where "t1 = t\<lparr>te_x := (let x1 = (if x < 0 then 0 else x) in if WIDTH \<le> x1 then WIDTH - 1 else x1),
     te_y := (let tp = (if te_origin t then te_top t else 0); bt = (if te_origin t then te_bottom t else HEIGHT - 1);
                  y1 = (if y < tp then tp else y) in if bt < y1 then bt else y1)\<rparr>"
  have "term_inv t1" using assms by (auto simp: t1_def term_inv_def on_screen_def hist_ok_def Let_def)
  moreover have "dirty t1 = dirty t" "te_screen t1 = te_screen t" "te_insert t1 = te_insert t" by (simp_all add: t1_def dirty_def)
  moreover have "term_move_cursor x y t = show_cursor t1" by (simp add: term_move_cursor_def t1_def Let_def)
  ultimately show ?thesis using term_inv_core [OF _ show_cursor_core(1), of t1] same_coreD(13) [OF show_cursor_core(1), of t1] by simp
qed

lemmas move_ok = move_cursor_ok [THEN conjunct1] move_cursor_ok [THEN conjunct2, THEN conjunct1]

lemma term_invD:
  assumes "term_inv t"
  shows "hist_ok t" "0 \<le> te_x t" "te_x t < WIDTH" "0 \<le> te_y t" "te_y t < HEIGHT" "0 \<le> te_top t" "te_top t < te_bottom t"
    "te_bottom t < HEIGHT" "0 \<le> te_count t" "te_count t \<le> 16" "0 \<le> te_sb_pos t" "te_sb_pos t \<le> SCROLLBACK"
  using assms by (simp_all add: term_inv_def on_screen_def)

lemma move_step: "term_inv t \<Longrightarrow> step_ok t (Inr (term_move_cursor x y t))"
  by (rule step_ok_Inr) (simp_all add: move_ok term_invD)

text \<open>Only fields the invariant and the display do not look at, or a cursor in range.\<close>

lemma dirty_cong: "te_vga t' = te_vga t \<Longrightarrow> te_screen t' = te_screen t \<Longrightarrow> dirty t' = dirty t"
  by (simp add: dirty_def)

lemma newline_ok:
  assumes "term_inv t"
  shows "\<exists>t'. term_newline t = Inr t' \<and> term_inv t' \<and> dirty t' \<subseteq> dirty t \<and> te_insert t' = te_insert t"
proof -
  note I = term_invD [OF assms]
  have "\<exists>u. (if te_bottom t \<le> te_y t then term_scroll_up (te_top t) (te_bottom t) 1 t else Inr (t\<lparr>te_y := te_y t + 1\<rparr>)) = Inr u \<and>
      term_inv u \<and> dirty u \<subseteq> dirty t \<and> te_insert u = te_insert t"
  proof (cases "te_bottom t \<le> te_y t")
    case True
    then show ?thesis using scroll_up_draws [OF I(6,8,1), of 1] assms term_inv_core by (auto simp: draws_def dest: same_coreD(13))
  next
    case False
    then show ?thesis using assms by (auto simp: term_inv_def on_screen_def hist_ok_def dirty_def)
  qed
  then obtain u where u: "(if te_bottom t \<le> te_y t then term_scroll_up (te_top t) (te_bottom t) 1 t else Inr (t\<lparr>te_y := te_y t + 1\<rparr>)) = Inr u"
    "term_inv u" "dirty u \<subseteq> dirty t" "te_insert u = te_insert t" by blast
  let ?v = "if te_linefeed u then u\<lparr>te_x := 0\<rparr> else u"
  have v: "term_inv ?v" "dirty ?v = dirty u" "te_insert ?v = te_insert u"
    using u(2) by (auto simp: term_inv_def on_screen_def hist_ok_def dirty_def)
  have "term_newline t = Inr (show_cursor ?v)" unfolding term_newline_def u(1) by simp
  moreover have "term_inv (show_cursor ?v)" using term_inv_core [OF v(1) show_cursor_core(1)] .
  moreover have "te_insert (show_cursor ?v) = te_insert ?v" by (rule same_coreD(13) [OF show_cursor_core(1)])
  ultimately show ?thesis using u(3,4) v(2,3) by (intro exI [of _ "show_cursor ?v"]) simp
qed

section \<open>Control sequences keep it\<close>

lemma sgr_param_fields:
  "term_inv (sgr_param p t) = term_inv t" "dirty (sgr_param p t) = dirty t"
proof -
  have "te_vga (sgr_param p t) = te_vga t" "te_screen (sgr_param p t) = te_screen t" by (simp_all add: sgr_param_def)
  then show "dirty (sgr_param p t) = dirty t" by (rule dirty_cong)
  have "te_x (sgr_param p t) = te_x t" "te_y (sgr_param p t) = te_y t" "te_top (sgr_param p t) = te_top t"
    "te_bottom (sgr_param p t) = te_bottom t" "te_sb_write (sgr_param p t) = te_sb_write t" "te_sb_lines (sgr_param p t) = te_sb_lines t"
    "te_sb_pos (sgr_param p t) = te_sb_pos t"
    by (simp_all add: sgr_param_def)
  then show "term_inv (sgr_param p t) = term_inv t" by (simp add: term_inv_def hist_ok_def)
qed

lemma sgr_ok: "term_inv t \<Longrightarrow> term_inv (sgr_loop i t) \<and> dirty (sgr_loop i t) = dirty t"
proof (induction i t rule: sgr_loop.induct)
  case (1 i t)
  define p where "p = term_get_param i 0 t"
  define c where "c = te_params t (i + 2)"
  define u where "u = (if c < 16 then if p = 38 then t\<lparr>te_fg := of_int c\<rparr> else t\<lparr>te_bg := of_int c\<rparr> else t)"
  have u: "term_inv u" "dirty u = dirty t" using "1.prems" by (auto simp: u_def term_inv_def hist_ok_def dirty_def)
  show ?case
  proof (cases "i < te_count t \<or> i = 0")
    case False
    then show ?thesis using "1.prems" by (subst (1 2) sgr_loop.simps) simp
  next
    case go: True
    show ?thesis
    proof (cases "p = 38 \<or> p = 48")
      case False
      then have "sgr_loop i t = sgr_loop (i + 1) (sgr_param p t)"
        using go by (subst sgr_loop.simps) (simp add: Let_def p_def)
      then show ?thesis
        using "1.IH"(3) [OF go p_def refl refl False] "1.prems" sgr_param_fields [of p t] by simp
    next
      case True
      show ?thesis
      proof (cases "i + 2 < te_count t \<and> te_params t (i + 1) = 5")
        case three: True
        then have "sgr_loop i t = sgr_loop (i + 3) u"
          using go True by (subst sgr_loop.simps) (auto simp: Let_def p_def u_def c_def)
        then show ?thesis using "1.IH"(1) [OF go p_def refl c_def True three, folded u_def] u by simp
      next
        case False
        then have "sgr_loop i t = sgr_loop (i + 1) t"
          using go True by (subst sgr_loop.simps) (auto simp: Let_def p_def)
        then show ?thesis using "1.IH"(2) [OF go p_def refl c_def True False] "1.prems" by simp
      qed
    qed
  qed
qed


lemma step_ok_cong: "dirty u = dirty t \<Longrightarrow> te_insert u = te_insert t \<Longrightarrow> step_ok u r \<Longrightarrow> step_ok t r"
  by (cases r) (simp_all add: step_ok_def)

lemma shown_all: "draws A t r \<Longrightarrow> draws {} t (andthen r term_render_screen)"
  by (rule draws_shown [where B = UNIV]) (simp_all add: render_screen_shows)

lemma erase_display_ok:
  assumes "term_inv t"
  shows "step_ok t (csi_erase_display t)"
proof -
  note I = term_invD [OF assms]
  let ?m = "term_get_param 0 0 t" and ?b = "pen_blank t"
  have cells: "draws UNIV u (each (\<lambda>x. put_cell x (te_y t) ?b) [a..b] u)" if "0 \<le> a" "b < WIDTH" for a b u
    by (rule each_draws, rule draws_mono [OF put_cell_draws]) (use that I in \<open>auto simp: on_screen_def\<close>)
  have lines: "draws UNIV u (each (clear_line ?b) [a..b] u)" if "0 \<le> a" "b < HEIGHT" for a b u
    by (rule draws_mono [OF clear_lines_draw [OF that]]) simp
  have two: "draws {} t (andthen (each (\<lambda>x. put_cell x (te_y t) ?b) [a..b] t) (\<lambda>t1. andthen (each (clear_line ?b) [c..d] t1) term_render_screen))"
    if "0 \<le> a" "b < WIDTH" "0 \<le> c" "d < HEIGHT" for a b c d
  proof -
    have "draws (UNIV \<union> UNIV) t (andthen (each (\<lambda>x. put_cell x (te_y t) ?b) [a..b] t) (\<lambda>t1. each (clear_line ?b) [c..d] t1))"
      by (rule draws_then [OF cells [OF that(1,2)]]) (rule lines [OF that(3,4)])
    from shown_all [OF this] show ?thesis by (simp add: andthen_assoc)
  qed
  consider "?m = 0" | "?m = 1" | "?m = 2" | "?m = 3" | "?m \<notin> {0, 1, 2, 3}" by auto
  then show ?thesis
  proof cases
    case 1
    then show ?thesis using draws_step [OF two assms] I by (simp add: csi_erase_display_def Let_def)
  next
    case 2
    then show ?thesis using draws_step [OF two assms] I by (simp add: csi_erase_display_def Let_def)
  next
    case 3
    then show ?thesis using draws_step [OF shown_all [OF lines] assms] by (simp add: csi_erase_display_def Let_def)
  next
    case 4
    let ?t = "t\<lparr>te_sb_lines := 0, te_sb_write := 0\<rparr>"
    have i: "term_inv ?t" "dirty ?t = dirty t" using assms by (simp_all add: term_inv_def hist_ok_def dirty_def)
    have "draws {} ?t (andthen (each (clear_line ?b) [0..HEIGHT - 1] ?t) term_render_screen)" by (rule shown_all, rule lines) simp_all
    then have "step_ok ?t (csi_erase_display t)" using draws_step [OF _ i(1)] 4 by (simp add: csi_erase_display_def Let_def)
    then show ?thesis by (rule step_ok_cong [OF i(2), rotated]) simp
  next
    case 5
    then show ?thesis using assms by (simp add: csi_erase_display_def Let_def step_ok_def)
  qed
qed

lemma erase_line_ok:
  assumes "term_inv t"
  shows "step_ok t (csi_erase_line t)"
proof (cases "0 \<le> term_get_param 0 0 t \<and> term_get_param 0 0 t \<le> 2")
  case True
  note I = term_invD [OF assms]
  define m where "m = term_get_param 0 0 t"
  have "draws (rows {te_y t}) t (each (\<lambda>x. put_cell x (te_y t) (pen_blank t))
      (if m = 0 then [te_x t..WIDTH - 1] else if m = 1 then [0..te_x t] else [0..WIDTH - 1]) t)"
    by (rule each_draws, rule draws_mono [OF put_cell_draws]) (use I in \<open>auto simp: on_screen_def rows_def split: if_splits\<close>)
  from draws_shown [OF this render_line_shows [OF I(4,5)] subset_refl]
  have "draws {} t (csi_erase_line t)"
    unfolding csi_erase_line_def Let_def m_def [symmetric] if_P [OF True [folded m_def]] .
  then show ?thesis by (rule draws_step [OF _ assms])
next
  case False
  then have "csi_erase_line t = Inr t" unfolding csi_erase_line_def Let_def by (rule if_not_P)
  then show ?thesis using step_ok_Inr [OF assms subset_refl] by simp
qed

lemma margins_ok: "term_inv t \<Longrightarrow> step_ok t (Inr (csi_margins t))"
proof (rule step_ok_Inr)
  assume i: "term_inv t"
  define a where "a = (if term_get_param 0 1 t - 1 < 0 then 0 else term_get_param 0 1 t - 1)"
  define b where "b = (if HEIGHT \<le> term_get_param 1 HEIGHT t - 1 then HEIGHT - 1 else term_get_param 1 HEIGHT t - 1)"
  define u where "u = t\<lparr>te_top := a, te_bottom := b\<rparr>"
  have e: "csi_margins t = (if a < b then term_move_cursor 0 (if te_origin u then a else 0) u else t)"
    by (simp add: csi_margins_def Let_def a_def b_def u_def)
  have ab: "0 \<le> a" "b < HEIGHT" by (auto simp: a_def b_def)
  have d: "dirty u = dirty t" by (simp add: u_def dirty_def)
  have m: "term_inv (term_move_cursor x y u)" "dirty (term_move_cursor x y u) = dirty t" if "a < b" for x y
    using move_ok [of u x y] term_invD [OF i] ab that d by (simp_all add: u_def hist_ok_def)
  show "term_inv (csi_margins t)" "dirty (csi_margins t) \<subseteq> dirty t" using i m e by auto
qed

lemma mode_ok: "term_inv t \<Longrightarrow> step_ok t (Inr (csi_mode on t))"
proof (rule step_ok_Inr)
  assume i: "term_inv t"
  note I = term_invD [OF i]
  have m: "term_inv (term_move_cursor x y (t\<lparr>te_origin := on\<rparr>))" "dirty (term_move_cursor x y (t\<lparr>te_origin := on\<rparr>)) = dirty t" for x y
    using move_ok [of "t\<lparr>te_origin := on\<rparr>" x y] I by (simp_all add: hist_ok_def dirty_def)
  show "term_inv (csi_mode on t)"
    using i m by (simp add: csi_mode_def Let_def term_inv_def hist_ok_def vga_set_cursor_def vga_enable_cursor_def vga_disable_cursor_def)
  show "dirty (csi_mode on t) \<subseteq> dirty t"
    using m by (simp add: csi_mode_def Let_def dirty_def vga_set_cursor_def vga_enable_cursor_def vga_disable_cursor_def)
qed

lemma add_int_ok: "(\<And>v. step_ok t (f v)) \<Longrightarrow> step_ok t (add_int a b f)"
  by (simp add: add_int_def step_ok_def)

lemma handle_csi_ok:
  assumes "term_inv t"
  shows "step_ok t (term_handle_csi c t)"
proof (rule step_ok_cong)
  let ?t = "t\<lparr>te_escapes := te_escapes t + 1\<rparr>"
  show "dirty ?t = dirty t" "te_insert ?t = te_insert t" by (simp_all add: dirty_def)
  have i: "term_inv ?t" using assms by (simp add: term_inv_def hist_ok_def)
  note I = term_invD [OF i]
  have sc: "step_ok ?t (term_scroll_up a (te_bottom ?t) k ?t)" "step_ok ?t (term_scroll_down a (te_bottom ?t) k ?t)" if "0 \<le> a" for a k
    using draws_step [OF scroll_up_draws [OF that I(8,1)] i] draws_step [OF scroll_down_draws [OF that I(8)] i] by blast+
  have sg: "step_ok ?t (Inr (term_csi_sgr ?t))" using sgr_ok [OF i, of 0] by (intro step_ok_Inr) (simp_all add: term_csi_sgr_def)
  have sv: "step_ok ?t (Inr (?t\<lparr>te_saved_x := te_x ?t, te_saved_y := te_y ?t\<rparr>))"
    using i by (intro step_ok_Inr) (simp_all add: term_inv_def hist_ok_def dirty_def)
  have self: "step_ok ?t (Inr ?t)" using i by (intro step_ok_Inr) simp_all
  show "step_ok ?t (term_handle_csi c t)"
    unfolding term_handle_csi_def Let_def
    using add_int_ok [OF move_step [OF i]] move_step [OF i] erase_display_ok [OF i] erase_line_ok [OF i] sc [OF I(4)] sc [OF I(6)]
      sg sv margins_ok [OF i] mode_ok [OF i] self
    by (simp only: if_split) blast
qed

section \<open>Characters keep it\<close>

lemma put_printable_ok:
  assumes "term_inv t"
  shows "step_ok t (put_printable c t)"
proof -
  note I = term_invD [OF assms]
  let ?ce = "\<lambda>t. \<lparr>ce_c = c, ce_fg = te_fg t, ce_bg = te_bg t, ce_attr = te_attr t\<rparr>"
  have "\<exists>u. (if te_insert t then each (\<lambda>x t. put_cell x (te_y t) (te_screen t (te_y t) (x - 1)) t) (rev [te_x t + 1..WIDTH - 1]) t
      else Inr t) = Inr u \<and> same_core t u \<and> (\<not> te_insert t \<longrightarrow> u = t)"
  proof (cases "te_insert t")
    case True
    have "draws UNIV t (each (\<lambda>x t. put_cell x (te_y t) (te_screen t (te_y t) (x - 1)) t) (rev [te_x t + 1..WIDTH - 1]) t)"
      by (rule each_draws, rule draws_mono [OF put_cell_draws]) (use I in \<open>auto simp: on_screen_def dest: same_coreD(2)\<close>)
    then show ?thesis using True by (auto simp: draws_def)
  qed simp
  then obtain u where u: "(if te_insert t then each (\<lambda>x t. put_cell x (te_y t) (te_screen t (te_y t) (x - 1)) t) (rev [te_x t + 1..WIDTH - 1]) t
      else Inr t) = Inr u" "same_core t u" "\<not> te_insert t \<Longrightarrow> u = t" by blast
  have iu: "term_inv u" using term_inv_core [OF assms u(2)] .
  have on: "on_screen (te_x u) (te_y u)" using iu by (simp add: term_inv_def)
  obtain v where v: "put_cell (te_x u) (te_y u) (?ce u) u = Inr v" "same_core u v" "dirty v \<subseteq> dirty u \<union> {(te_x u, te_y u)}"
    using put_cell_draws [OF on, of u "?ce u"] by (auto simp: draws_def)
  obtain w where w: "term_render_cell (te_x v) (te_y v) v = Inr w" "same_core v w" "dirty w \<subseteq> dirty v - {(te_x u, te_y u)}"
    using render_cell_shows [OF on, of v] same_coreD(1,2) [OF v(2)] by (auto simp: shows_cells_def)
  have iw: "term_inv w" using term_inv_core [OF term_inv_core [OF iu v(2)] w(2)] .
  note W = term_invD [OF iw]
  have ins: "te_insert w = te_insert t" using same_coreD(13) [OF u(2)] same_coreD(13) [OF v(2)] same_coreD(13) [OF w(2)] by simp
  have dw: "\<not> te_insert t \<Longrightarrow> dirty w \<subseteq> dirty t" using v(3) w(3) u(3) by auto
  let ?t1 = "w\<lparr>te_x := te_x w + 1, te_chars := te_chars w + 1\<rparr>"
  have "\<exists>z. (if WIDTH \<le> te_x ?t1 then if te_autowrap ?t1 then term_newline (?t1\<lparr>te_x := 0\<rparr>) else Inr (?t1\<lparr>te_x := WIDTH - 1\<rparr>)
      else Inr ?t1) = Inr z \<and> term_inv z \<and> dirty z \<subseteq> dirty w"
  proof (cases "WIDTH \<le> te_x ?t1 \<and> te_autowrap ?t1")
    case True
    have "term_inv (?t1\<lparr>te_x := 0\<rparr>)" "dirty (?t1\<lparr>te_x := 0\<rparr>) = dirty w"
      using iw by (simp_all add: term_inv_def hist_ok_def dirty_def on_screen_def)
    then show ?thesis using newline_ok [of "?t1\<lparr>te_x := 0\<rparr>"] True by auto
  next
    case False
    then show ?thesis using iw by (auto simp: term_inv_def hist_ok_def dirty_def on_screen_def)
  qed
  then obtain z where z: "(if WIDTH \<le> te_x ?t1 then if te_autowrap ?t1 then term_newline (?t1\<lparr>te_x := 0\<rparr>) else Inr (?t1\<lparr>te_x := WIDTH - 1\<rparr>)
      else Inr ?t1) = Inr z" "term_inv z" "dirty z \<subseteq> dirty w" by blast
  have "put_printable c t = Inr (show_cursor z)"
    unfolding put_printable_def u(1) andthen_simps v(1) w(1) Let_def z(1) ..
  moreover have "term_inv (show_cursor z)" using term_inv_core [OF z(2) show_cursor_core(1)] .
  ultimately show ?thesis using z(3) dw by (auto simp: step_ok_def)
qed

lemma newline_step: "term_inv t \<Longrightarrow> step_ok t (term_newline t)"
  using newline_ok [of t] by (auto simp: step_ok_def)

lemma next_tab_range: "term_inv t \<Longrightarrow> 0 \<le> next_tab t \<and> next_tab t < WIDTH"
  by (auto simp: next_tab_def term_inv_def on_screen_def find_Some_iff set_upto [symmetric] simp del: set_upto split: option.split dest!: nth_mem)

lemma internal_ok:
  assumes "term_inv t"
  shows "step_ok t (term_putchar_internal c t)"
proof -
  note I = term_invD [OF assms]
  have x: "step_ok t (Inr (t\<lparr>te_x := x\<rparr>))" if "0 \<le> x" "x < WIDTH" for x
    using assms that by (intro step_ok_Inr) (simp_all add: term_inv_def hist_ok_def on_screen_def dirty_def)
  have e: "step_ok t (Inr (start_escape t))"
    using assms by (intro step_ok_Inr) (simp_all add: term_inv_def hist_ok_def start_escape_def dirty_def)
  have s: "step_ok t (Inr t)" using assms by (intro step_ok_Inr) simp_all
  have b: "step_ok t (Inr (if 0 < te_x t then t\<lparr>te_x := te_x t - 1\<rparr> else t))" using x [of "te_x t - 1"] s I by simp
  show ?thesis
    unfolding term_putchar_internal_def
    using s b x [of "next_tab t"] next_tab_range [OF assms] newline_step [OF assms] x [of 0] e put_printable_ok [OF assms]
    by (simp only: if_split) auto
qed

lemma to_normal_step: "step_ok t r \<Longrightarrow> step_ok t (andthen r (\<lambda>t. Inr (to_normal t)))"
  by (auto simp: step_ok_def andthen_def to_normal_def term_inv_def hist_ok_def dirty_def split: sum.splits)

lemma to_normal_Inr: "step_ok t (Inr u) \<Longrightarrow> step_ok t (Inr (to_normal u))"
  using to_normal_step [of t "Inr u"] by simp

lemma esc_ok:
  assumes "term_inv t"
  shows "step_ok t (esc_char c t)"
proof -
  note I = term_invD [OF assms]
  have st: "step_ok t (Inr (t\<lparr>te_state := q\<rparr>))" for q
    using assms by (intro step_ok_Inr) (simp_all add: term_inv_def hist_ok_def dirty_def)
  have s: "step_ok t (Inr (t\<lparr>te_saved_x := te_x t, te_saved_y := te_y t\<rparr>))" "step_ok t (Inr t)"
    using assms by (intro step_ok_Inr; simp add: term_inv_def hist_ok_def dirty_def)+
  have x0: "term_inv (t\<lparr>te_x := 0\<rparr>)" "dirty (t\<lparr>te_x := 0\<rparr>) = dirty t" "te_insert (t\<lparr>te_x := 0\<rparr>) = te_insert t"
    using assms by (simp_all add: term_inv_def hist_ok_def on_screen_def dirty_def)
  have nel: "step_ok t (term_newline (t\<lparr>te_x := 0\<rparr>))" by (rule step_ok_cong [OF x0(2,3) newline_step [OF x0(1)]])
  have ri: "step_ok t (if te_y t \<le> te_top t then term_scroll_down (te_top t) (te_bottom t) 1 t else Inr (t\<lparr>te_y := te_y t - 1\<rparr>))"
  proof (cases "te_y t \<le> te_top t")
    case True
    then show ?thesis using draws_step [OF scroll_down_draws [OF I(6,8)] assms] by simp
  next
    case False
    then have "step_ok t (Inr (t\<lparr>te_y := te_y t - 1\<rparr>))"
      using assms by (intro step_ok_Inr) (auto simp: term_inv_def hist_ok_def on_screen_def dirty_def)
    then show ?thesis using False by simp
  qed
  have ris: "step_ok t (Inr (t\<lparr>te_fg := te_default_fg t, te_bg := te_default_bg t, te_attr := 0, te_x := 0, te_y := 0, te_top := 0,
      te_bottom := HEIGHT - 1\<rparr>))"
    using assms by (intro step_ok_Inr) (simp_all add: term_inv_def hist_ok_def on_screen_def dirty_def)
  show ?thesis
    unfolding esc_char_def
    using st to_normal_Inr [OF s(1)] to_normal_Inr [OF s(2)] to_normal_Inr [OF move_step [OF assms]] to_normal_step [OF newline_step [OF assms]]
      to_normal_step [OF nel] to_normal_step [OF ri] to_normal_Inr [OF ris]
    by (simp only: if_split) blast
qed

lemma csi_final_ok: "term_inv t \<Longrightarrow> step_ok t (csi_final c t)"
  using to_normal_step [OF handle_csi_ok [of t c]] to_normal_Inr [of t t]
  by (simp add: csi_final_def) (simp add: step_ok_def)

lemma putchar_ok:
  assumes "term_inv t"
  shows "step_ok t (term_putchar c t)"
proof -
  have s: "step_ok t (Inr t)" using assms by (intro step_ok_Inr) simp_all
  have c: "step_ok t (csi_char c t)"
    using assms csi_final_ok [OF assms, of c]
    by (simp add: csi_char_def) (auto simp: step_ok_def term_inv_def hist_ok_def dirty_def)
  have p: "step_ok t (csi_param_char c t)"
    using assms csi_final_ok [OF assms, of c] term_invD(9,10) [OF assms]
    by (simp add: csi_param_char_def Let_def) (auto simp: step_ok_def term_inv_def hist_ok_def dirty_def)
  show ?thesis
    using internal_ok [OF assms] esc_ok [OF assms] c p to_normal_Inr [OF s] s
    by (cases "te_state t") (simp_all add: term_putchar_def)
qed

section \<open>From the start of the system on\<close>

lemma clear_ok:
  assumes "term_inv t"
  shows "\<exists>t'. term_clear t = Inr t' \<and> term_inv t' \<and> dirty t' = {} \<and> te_state t' = te_state t \<and> te_insert t' = te_insert t \<and>
    te_origin t' = te_origin t \<and> te_x t' = 0 \<and> te_y t' = 0"
proof -
  let ?b = "blank (te_default_fg t) (te_default_bg t)"
  obtain u where u: "each (clear_line ?b) [0..HEIGHT - 1] t = Inr u" "same_core t u"
    using clear_lines_draw [of 0 "HEIGHT - 1" t ?b] by (auto simp: draws_def)
  let ?u = "u\<lparr>te_x := 0, te_y := 0\<rparr>"
  have iu: "term_inv ?u" using term_inv_core [OF assms u(2)] by (simp add: term_inv_def hist_ok_def on_screen_def)
  obtain v where v: "term_render_screen ?u = Inr v" "same_core ?u v" "dirty v \<subseteq> dirty ?u - UNIV"
    using render_screen_shows [of ?u] by (auto simp: shows_cells_def)
  have "term_clear t = Inr v" unfolding term_clear_def u(1) andthen_simps v(1) ..
  moreover have "term_inv v" using term_inv_core [OF iu v(2)] .
  moreover have "dirty v = {}" using v(3) by simp
  ultimately show ?thesis
    using same_coreD(1,2,9,11,13) [OF v(2)] same_coreD(9,11,13) [OF u(2)] by simp
qed

lemma init_ok:
  "\<exists>t. term_init ok vga = Inr t \<and> term_inv t \<and> dirty t = {} \<and> te_state t = STATE_NORMAL \<and> \<not> te_insert t \<and> \<not> te_origin t \<and>
     te_x t = 0 \<and> te_y t = 0"
proof -
  define t0 where "t0 = \<lparr>te_screen = \<lambda>_ _. zero_cell, te_history = (if ok then Some (\<lambda>_ _. zero_cell) else None), te_sb_lines = 0, te_sb_pos = 0,
        te_sb_write = 0, te_x = 0, te_y = 0, te_saved_x = 0, te_saved_y = 0, te_visible = True, te_fg = 7, te_bg = 0, te_attr = 0,
        te_default_fg = 7, te_default_bg = 0, te_state = STATE_NORMAL, te_params = \<lambda>_. 0, te_count = 0, te_private = False,
        te_origin = False, te_autowrap = True, te_insert = False, te_linefeed = False, te_keys_app = False, te_top = 0,
        te_bottom = HEIGHT - 1, te_tabs = \<lambda>x. x mod 8 = 0, te_chars = 0, te_escapes = 0, te_vga = vga, te_hw_cursor = 0,
        te_hw_on = False\<rparr>"
  have "term_inv t0" by (simp add: t0_def term_inv_def hist_ok_def on_screen_def)
  from clear_ok [OF this] obtain t where t: "term_clear t0 = Inr t" "term_inv t" "dirty t = {}" "te_state t = STATE_NORMAL"
    "\<not> te_insert t" "\<not> te_origin t" "te_x t = 0" "te_y t = 0"
    by (auto simp: t0_def)
  have "term_init ok vga = Inr (vga_enable_cursor t)" unfolding term_init_def t0_def [symmetric] t(1) andthen_simps ..
  moreover have "term_inv (vga_enable_cursor t)" "dirty (vga_enable_cursor t) = {}"
    using t(2,3) by (simp_all add: vga_enable_cursor_def term_inv_def hist_ok_def dirty_def)
  ultimately show ?thesis using t(4-) by (simp add: vga_enable_cursor_def)
qed

lemma write_ok: "term_inv t \<Longrightarrow> (case term_write cs t of Inl f \<Rightarrow> f = Overflow | Inr t' \<Rightarrow> term_inv t')"
proof (induction cs arbitrary: t)
  case Nil
  then show ?case by (simp add: term_write_def)
next
  case (Cons c cs)
  show ?case
  proof (cases "term_putchar c t")
    case (Inl f)
    then show ?thesis using putchar_ok [OF Cons.prems, of c] by (simp add: term_write_def step_ok_def)
  next
    case (Inr u)
    then have "term_inv u" using putchar_ok [OF Cons.prems, of c] by (simp add: step_ok_def)
    from Cons.IH [OF this] show ?thesis using Inr by (simp add: term_write_def)
  qed
qed

text \<open>Insert mode is off before every character and after the last.\<close>

primrec no_insert :: "u8 list \<Rightarrow> terminal \<Rightarrow> bool" where
  "no_insert [] t \<longleftrightarrow> \<not> te_insert t"
| "no_insert (c # cs) t \<longleftrightarrow> \<not> te_insert t \<and> (case term_putchar c t of Inl _ \<Rightarrow> True | Inr u \<Rightarrow> no_insert cs u)"

text \<open>C19 (the terminal stays inside its arrays). Whatever bytes are written to the terminal after it was initialised, with or without
  memory for the history, no access is outside the screen, the text memory, the history or the parameters, and the cursor, the
  margins and the ring of saved lines stay in range: the only thing that can go wrong is an addition that overflows.
\<close>

theorem term_stays_in_bounds:
  "case andthen (term_init ok vga) (term_write cs) of Inl f \<Rightarrow> f = Overflow | Inr t \<Rightarrow> term_inv t"
proof -
  obtain t where "term_init ok vga = Inr t" "term_inv t" using init_ok by blast
  then show ?thesis using write_ok [of t cs] by simp
qed

text \<open>C20 (the display shows the screen). As long as insert mode is off, after any bytes the text memory of the display holds at
  every place the character and the colours of the cell of the screen at that place.
\<close>

theorem display_shows_screen:
  assumes "term_inv t" "dirty t = {}" "no_insert cs t" "term_write cs t = Inr t'"
  shows "\<forall>y \<in> {0..24}. \<forall>x \<in> {0..79}. te_vga t' (y * 80 + x) = cell_entry (te_screen t' y x)"
proof -
  have "term_inv t \<Longrightarrow> dirty t = {} \<Longrightarrow> no_insert cs t \<Longrightarrow> term_write cs t = Inr t' \<Longrightarrow> dirty t' = {}"
  proof (induction cs arbitrary: t)
    case Nil
    then show ?case by (simp add: term_write_def)
  next
    case (Cons c cs)
    obtain u where u: "term_putchar c t = Inr u" using Cons.prems(4) by (cases "term_putchar c t") (simp_all add: term_write_def)
    then have "term_inv u" "dirty u = {}" using putchar_ok [OF Cons.prems(1), of c] Cons.prems(2,3) by (simp_all add: step_ok_def)
    then show ?case using Cons.IH [of u] Cons.prems(3,4) u by (simp add: term_write_def)
  qed
  then have "dirty t' = {}" using assms by blast
  then show ?thesis by (auto simp: dirty_def on_screen_def)
qed

theorem display_shows_screen_witness:
  "\<exists>t'. andthen (term_init True (\<lambda>_. 0)) (term_write [27, 0x44]) = Inr t' \<and>
     (\<forall>y \<in> {0..24}. \<forall>x \<in> {0..79}. te_vga t' (y * 80 + x) = cell_entry (te_screen t' y x))"
proof -
  obtain t where t: "term_init True (\<lambda>_. 0) = Inr t" "term_inv t" "dirty t = {}" "te_state t = STATE_NORMAL" "\<not> te_insert t"
    using init_ok [of True "\<lambda>_. 0"] by blast
  let ?u = "start_escape t"
  have u: "term_putchar 27 t = Inr ?u" by (simp add: term_putchar_def t(4) term_putchar_internal_def)
  have iu: "term_inv ?u" "\<not> te_insert ?u" using t(2,5) by (simp_all add: start_escape_def term_inv_def hist_ok_def)
  obtain v where v: "term_newline ?u = Inr v" "te_insert v = te_insert ?u" using newline_ok [OF iu(1)] by blast
  have p: "term_putchar 0x44 ?u = Inr (to_normal v)" using v(1) by (simp add: term_putchar_def start_escape_def esc_char_def)
  have w: "term_write [27, 0x44] t = Inr (to_normal v)" by (simp add: term_write_def u p)
  have "no_insert [27, 0x44] t" using t(5) iu(2) v(2) by (simp add: u p to_normal_def)
  from display_shows_screen [OF t(2,3) this w] show ?thesis using t(1) w by simp
qed

section \<open>Cursor addresses\<close>

text \<open>A number as decimal digits.\<close>

fun digits :: "nat \<Rightarrow> u8 list" where
  "digits n = (if n < 10 then [of_nat (48 + n)] else digits (n div 10) @ [of_nat (48 + n mod 10)])"

declare digits.simps [simp del]

lemma digit_byte: "n < 10 \<Longrightarrow> is_digit (of_nat (48 + n)) \<and> digit_of (of_nat (48 + n)) = int n"
proof -
  assume "n < 10"
  then have "n \<in> {0, 1, 2, 3, 4, 5, 6, 7, 8, 9}" by auto
  then show ?thesis by (auto simp: is_digit_def digit_of_def)
qed

lemma csi_digit:
  assumes "te_state t = STATE_CSI_PARAM" "1 \<le> te_count t" "te_count t \<le> 16" "d < 10" "0 \<le> te_params t (te_count t - 1)"
    "te_params t (te_count t - 1) * 10 + int d \<le> 2147483647"
  shows "term_putchar (of_nat (48 + d)) t =
    Inr (t\<lparr>te_params := (te_params t)(te_count t - 1 := te_params t (te_count t - 1) * 10 + int d)\<rparr>)"
  using assms digit_byte [OF assms(4)] by (simp add: term_putchar_def csi_param_char_def Let_def)

text \<open>The digits of a later parameter.\<close>

lemma later_param:
  assumes "te_state t = STATE_CSI_PARAM" "1 \<le> te_count t" "te_count t \<le> 16" "te_params t (te_count t - 1) = 0" "n \<le> 2147483647"
  shows "term_write (digits n) t = Inr (t\<lparr>te_params := (te_params t)(te_count t - 1 := int n)\<rparr>)"
  using assms(5)
proof (induction n rule: digits.induct)
  case (1 n)
  show ?case
  proof (cases "n < 10")
    case True
    then show ?thesis using csi_digit [OF assms(1-3) True] assms(4) by (subst digits.simps) (simp add: term_write_def)
  next
    case False
    let ?u = "t\<lparr>te_params := (te_params t)(te_count t - 1 := int (n div 10))\<rparr>"
    have e: "int (n div 10) * 10 + int (n mod 10) = int n" by presburger
    have "term_write (digits (n div 10)) t = Inr ?u" by (rule "1.IH" [OF False]) (use "1.prems" in simp)
    moreover have "term_putchar (of_nat (48 + n mod 10)) ?u = Inr (t\<lparr>te_params := (te_params t)(te_count t - 1 := int n)\<rparr>)"
      using csi_digit [of ?u "n mod 10"] assms(1-3) "1.prems" e by simp
    ultimately show ?thesis using False by (subst digits.simps) (simp add: term_write_def each_append)
  qed
qed

text \<open>The digits of the first one.\<close>

lemma first_param:
  assumes "te_state t = STATE_CSI" "n \<le> 2147483647"
  shows "term_write (digits n) t = Inr (t\<lparr>te_state := STATE_CSI_PARAM, te_params := (te_params t)(0 := int n), te_count := 1\<rparr>)"
  using assms(2)
proof (induction n rule: digits.induct)
  case (1 n)
  show ?case
  proof (cases "n < 10")
    case True
    have "is_digit c \<Longrightarrow> c \<noteq> 0x3F" for c by (auto simp: is_digit_def)
    then show ?thesis using digit_byte [OF True] assms(1) True
      by (subst digits.simps) (simp add: term_write_def term_putchar_def csi_char_def)
  next
    case False
    let ?u = "t\<lparr>te_state := STATE_CSI_PARAM, te_params := (te_params t)(0 := int (n div 10)), te_count := 1\<rparr>"
    have e: "int (n div 10) * 10 + int (n mod 10) = int n" by presburger
    have "term_write (digits (n div 10)) t = Inr ?u" by (rule "1.IH" [OF False]) (use "1.prems" in simp)
    moreover have "term_putchar (of_nat (48 + n mod 10)) ?u =
        Inr (t\<lparr>te_state := STATE_CSI_PARAM, te_params := (te_params t)(0 := int n), te_count := 1\<rparr>)"
      using csi_digit [of ?u "n mod 10"] "1.prems" e by simp
    ultimately show ?thesis using False by (subst digits.simps) (simp add: term_write_def each_append)
  qed
qed

lemma write_append: "term_write (as @ bs) t = andthen (term_write as t) (term_write bs)"
proof -
  have "term_write bs = each term_putchar bs" by (rule ext) (simp add: term_write_def)
  then show ?thesis by (simp add: term_write_def each_append)
qed

text \<open>C21 (a cursor address goes where it says). The sequence ESC [ row ; column H, with the row and the column in decimal digits and
  counted from one, moves the cursor to that row and column, or to the last ones of the screen when they are beyond it, draws
  nothing and leaves the terminal ready for text.
\<close>

theorem cursor_address_roundtrip:
  assumes "te_state t = STATE_NORMAL" "\<not> te_origin t" "1 \<le> row" "1 \<le> col" "row \<le> 2147483647" "col \<le> 2147483647"
  shows "\<exists>t'. term_write ([27, 0x5B] @ digits row @ [0x3B] @ digits col @ [0x48]) t = Inr t' \<and>
    te_x t' = min 79 (int col - 1) \<and> te_y t' = min 24 (int row - 1) \<and> te_screen t' = te_screen t \<and> te_vga t' = te_vga t \<and>
    te_state t' = STATE_NORMAL"
proof -
  define t1 where "t1 = (start_escape t)\<lparr>te_state := STATE_CSI\<rparr>"
  define t2 where "t2 = t1\<lparr>te_state := STATE_CSI_PARAM, te_params := (te_params t1)(0 := int row), te_count := 1\<rparr>"
  define t3 where "t3 = t2\<lparr>te_count := 2\<rparr>"
  define t4 where "t4 = t3\<lparr>te_params := (te_params t3)(1 := int col)\<rparr>"
  have 1: "term_write [27, 0x5B] t = Inr t1"
    using assms(1) by (simp add: term_write_def term_putchar_def term_putchar_internal_def esc_char_def start_escape_def t1_def)
  have 2: "term_write (digits row) t1 = Inr t2" unfolding t2_def by (rule first_param [OF _ assms(5)]) (simp add: t1_def)
  have 3: "term_write [0x3B] t2 = Inr t3"
    by (simp add: term_write_def term_putchar_def csi_param_char_def is_digit_def t2_def t3_def)
  have 4: "term_write (digits col) t3 = Inr t4"
    using later_param [of t3 col] assms(6) by (simp add: t4_def t3_def t2_def t1_def start_escape_def)
  define t5 where "t5 = t4\<lparr>te_escapes := te_escapes t4 + 1\<rparr>"
  have 5: "term_write [0x48] t4 = Inr (to_normal (term_move_cursor (int col - 1) (int row - 1) t5))"
    using assms(3,4)
    by (simp add: term_write_def term_putchar_def csi_param_char_def is_digit_def csi_final_def term_handle_csi_def t5_def term_get_param_def
        t4_def t3_def t2_def t1_def start_escape_def)
  have o: "\<not> te_origin t5" "te_screen t5 = te_screen t" "te_vga t5 = te_vga t"
    using assms(2) by (simp_all add: t5_def t4_def t3_def t2_def t1_def start_escape_def)
  have "term_write ([27, 0x5B] @ digits row @ [0x3B] @ digits col @ [0x48]) t =
      Inr (to_normal (term_move_cursor (int col - 1) (int row - 1) t5))"
    unfolding write_append 1 2 3 4 5 andthen_simps ..
  then show ?thesis
    using assms(3,4) o by (auto simp: to_normal_def term_move_cursor_def show_cursor_def vga_set_cursor_def)
qed

theorem cursor_address_roundtrip_witness:
  "\<exists>t'. andthen (term_init False (\<lambda>_. 0)) (term_write ([27, 0x5B] @ digits 12 @ [0x3B] @ digits 345 @ [0x48])) = Inr t' \<and>
     te_x t' = 79 \<and> te_y t' = 11"
proof -
  obtain t where t: "term_init False (\<lambda>_. 0) = Inr t" "te_state t = STATE_NORMAL" "\<not> te_origin t"
    using init_ok [of False "\<lambda>_. 0"] by blast
  show ?thesis using cursor_address_roundtrip [OF t(2,3), of 12 345] t(1) by auto
qed

section \<open>What is lost\<close>

text \<open>The full reset keeps the text on the screen and the modes.\<close>

lemma reset_keeps_screen:
  assumes "te_state t = STATE_NORMAL"
  shows "\<exists>t'. term_write [27, 0x63] t = Inr t' \<and> te_screen t' = te_screen t \<and> te_origin t' = te_origin t \<and> te_insert t' = te_insert t \<and>
    te_autowrap t' = te_autowrap t"
  using assms by (simp add: term_write_def term_putchar_def term_putchar_internal_def esc_char_def start_escape_def to_normal_def)

text \<open>After the sixteenth parameter the digits of the next one are appended to the sixteenth.\<close>

lemma seventeenth_parameter_appends:
  assumes "te_state t = STATE_CSI_PARAM" "te_count t = 16" "te_params t 15 = 1"
  shows "\<exists>t'. term_write [0x3B, 0x32] t = Inr t' \<and> te_count t' = 16 \<and> te_params t' 15 = 12"
  using assms by (simp add: term_write_def term_putchar_def csi_param_char_def is_digit_def digit_of_def)

text \<open>A parameter that is too large overflows.\<close>

lemma parameter_overflows:
  assumes "te_state t = STATE_CSI_PARAM" "te_count t = 1" "te_params t 0 = 214748364"
  shows "term_putchar 0x39 t = Inl Overflow"
  using assms by (simp add: term_putchar_def csi_param_char_def is_digit_def digit_of_def)

text \<open>Backspace moves the cursor of the terminal and leaves the one of the display where it is.\<close>

lemma backspace_leaves_display_cursor:
  assumes "te_state t = STATE_NORMAL" "0 < te_x t"
  shows "\<exists>t'. term_putchar 8 t = Inr t' \<and> te_x t' = te_x t - 1 \<and> te_hw_cursor t' = te_hw_cursor t"
  using assms by (simp add: term_putchar_def term_putchar_internal_def)

text \<open>An omitted first parameter: the digits after the semicolon become the first parameter, not the second.\<close>

lemma omitted_parameter_lost:
  assumes "te_state t = STATE_CSI" "te_params t = (\<lambda>_. 0)"
  shows "\<exists>t'. term_write [0x3B, 0x35] t = Inr t' \<and> te_count t' = 1 \<and> te_params t' 0 = 5 \<and> te_params t' 1 = 0"
  using assms by (simp add: term_write_def term_putchar_def csi_char_def csi_param_char_def is_digit_def digit_of_def)

end
