(* ===== verification/Chrdev.thy ===== *)
theory Chrdev
  imports Keyboard_Correct
begin

text \<open>
  \<^verbatim>\<open>drivers/chrdev.c\<close>: the table of character devices by major number and the null, zero, random, log and memory devices. A
  call that fills a buffer returns the bytes; the messages of \<^verbatim>\<open>printk\<close> are kept only for the log device, which writes them.
  Operations of other drivers are numbers.
\<close>

section \<open>Table of major numbers\<close>

datatype chr_fops = NullFops | ZeroFops | RandomFops | KmsgFops | MemFops | DriverFops nat

record chrdev_entry =
  che_name :: "u8 list"
  che_fops :: "chr_fops option"
  che_registered :: bool

record chrdev =
  cd_table :: "nat \<Rightarrow> chrdev_entry"
  cd_prng :: u64
  cd_mem :: "u64 \<Rightarrow> u8"
  cd_log :: "u8 list list"

abbreviation (input) CHRDEV_MAJOR_MAX :: u32 where "CHRDEV_MAJOR_MAX \<equiv> 256"
abbreviation (input) EBUSY_CHR :: int where "EBUSY_CHR \<equiv> 16"

definition chrdev_register :: "u32 \<Rightarrow> u8 list \<Rightarrow> chr_fops option \<Rightarrow> chrdev \<Rightarrow> int \<times> chrdev" where
  "chrdev_register major nm fops s =
     (if CHRDEV_MAJOR_MAX \<le> major then (- EINVAL, s)
      else if fops = None then (- EINVAL, s)
      else if che_registered (cd_table s (unat major)) then (- EBUSY_CHR, s)
      else (0, s\<lparr>cd_table := (cd_table s)(unat major := \<lparr>che_name = nm, che_fops = fops, che_registered = True\<rparr>)\<rparr>))"

definition chrdev_unregister :: "u32 \<Rightarrow> chrdev \<Rightarrow> int \<times> chrdev" where
  "chrdev_unregister major s =
     (if CHRDEV_MAJOR_MAX \<le> major then (- EINVAL, s)
      else (0, s\<lparr>cd_table := (cd_table s)(unat major := \<lparr>che_name = [], che_fops = None, che_registered = False\<rparr>)\<rparr>))"

definition chrdev_get_fops :: "u32 \<Rightarrow> chrdev \<Rightarrow> chr_fops option" where
  "chrdev_get_fops major s =
     (if CHRDEV_MAJOR_MAX \<le> major then None
      else if \<not> che_registered (cd_table s (unat major)) then None
      else che_fops (cd_table s (unat major)))"

section \<open>Null and zero\<close>

text \<open>The value of a call, and the bytes it puts into the buffer.\<close>

definition null_read :: "u64 \<Rightarrow> int \<times> u8 list" where
  "null_read count = (0, [])"

definition null_write :: "u64 \<Rightarrow> int" where
  "null_write count = sint count"

definition null_llseek :: "u64 \<Rightarrow> int \<Rightarrow> int" where
  "null_llseek offset whence = 0"

text \<open>Here and below the first argument tells whether the buffer is not null.\<close>

definition zero_read :: "bool \<Rightarrow> u64 \<Rightarrow> int \<times> u8 list" where
  "zero_read buf count = (if \<not> buf then (- EFAULT, []) else (sint count, replicate (unat count) 0))"

definition zero_write :: "u64 \<Rightarrow> int" where
  "zero_write count = sint count"

section \<open>Random numbers\<close>

text \<open>The cycle counter, the tick count and the address of the state.\<close>

definition prng_seed :: "u64 \<Rightarrow> u64 \<Rightarrow> u64 \<Rightarrow> u64" where
  "prng_seed tsc jiffies addr =
     (let v = tsc XOR jiffies XOR addr in if v = 0 then 0xDEADBEEFCAFEBABE else v)"

definition prng_next :: "u64 \<Rightarrow> u64" where
  "prng_next s0 =
     (let s1 = s0 XOR push_bit 13 s0; s2 = s1 XOR drop_bit 7 s1 in s2 XOR push_bit 17 s2)"

text \<open>The bytes and the state afterwards.\<close>

fun random_fill :: "nat \<Rightarrow> u64 \<Rightarrow> u8 list \<times> u64" where
  "random_fill n s =
     (if n = 0 then ([], s)
      else let v = prng_next s; c = min n 8; r = random_fill (n - c) v in (take c (le_bytes 8 v) @ fst r, snd r))"

declare random_fill.simps [simp del]

definition random_read :: "bool \<Rightarrow> u64 \<Rightarrow> chrdev \<Rightarrow> (int \<times> u8 list) \<times> chrdev" where
  "random_read buf count s =
     (if \<not> buf then ((- EFAULT, []), s)
      else let r = random_fill (unat count) (cd_prng s) in ((sint count, fst r), s\<lparr>cd_prng := snd r\<rparr>))"

fun random_mix :: "u8 list \<Rightarrow> u64 \<Rightarrow> u64" where
  "random_mix bs s = (if length bs < 8 then s else random_mix (drop 8 bs) (s XOR le_word (take 8 bs)))"

declare random_mix.simps [simp del]

definition random_write :: "u8 list \<Rightarrow> chrdev \<Rightarrow> int \<times> chrdev" where
  "random_write bs s = (int (length bs), s\<lparr>cd_prng := random_mix bs (cd_prng s)\<rparr>)"

definition sys_getrandom :: "bool \<Rightarrow> u64 \<Rightarrow> u32 \<Rightarrow> chrdev \<Rightarrow> (int \<times> u8 list) \<times> chrdev" where
  "sys_getrandom buf buflen flags s = (if \<not> buf then ((- EFAULT, []), s) else random_read buf buflen s)"

section \<open>Kernel log\<close>

definition kmsg_read :: "u64 \<Rightarrow> int \<times> u8 list" where
  "kmsg_read count = (0, [])"

definition kmsg_write :: "u8 list \<Rightarrow> chrdev \<Rightarrow> int \<times> chrdev" where
  "kmsg_write bs s = (int (length bs), s\<lparr>cd_log := cd_log s @ [takeWhile (\<lambda>c. c \<noteq> 0) (take 255 bs)]\<rparr>)"

section \<open>Physical memory\<close>

abbreviation (input) PHYS_KERNEL_BASE :: u64 where "PHYS_KERNEL_BASE \<equiv> 0xFFFFFFFF80000000"

text \<open>The position is \<open>None\<close> for a null pointer.\<close>

definition mem_read :: "bool \<Rightarrow> u64 \<Rightarrow> u64 option \<Rightarrow> chrdev \<Rightarrow> (int \<times> u8 list) \<times> u64 option" where
  "mem_read buf count ppos s =
     (case ppos of None \<Rightarrow> ((- EFAULT, []), None)
      | Some phys \<Rightarrow>
          if \<not> buf then ((- EFAULT, []), ppos)
          else ((sint count, map (\<lambda>i. cd_mem s (phys + PHYS_KERNEL_BASE + of_nat i)) [0..<unat count]), Some (phys + count)))"

definition poke :: "u64 \<Rightarrow> u8 list \<Rightarrow> (u64 \<Rightarrow> u8) \<Rightarrow> u64 \<Rightarrow> u8" where
  "poke a bs mem = fold (\<lambda>i m. m(a + of_nat i := bs ! i)) [0..<length bs] mem"

definition mem_write :: "u8 list option \<Rightarrow> u64 option \<Rightarrow> chrdev \<Rightarrow> int \<times> u64 option \<times> chrdev" where
  "mem_write buf ppos s =
     (case (buf, ppos) of
        (Some bs, Some phys) \<Rightarrow>
          (int (length bs), Some (phys + of_nat (length bs)), s\<lparr>cd_mem := poke (phys + PHYS_KERNEL_BASE) bs (cd_mem s)\<rparr>)
      | _ \<Rightarrow> (- EFAULT, ppos, s))"

text \<open>The new position of the file, when it changes.\<close>

definition mem_llseek :: "u64 \<Rightarrow> int \<Rightarrow> int \<times> u64 option" where
  "mem_llseek offset whence = (if whence = 0 then (sint offset, Some offset) else (- EINVAL, None))"

section \<open>Operations of a device\<close>

text \<open>\<open>None\<close>: the table of operations has no such call, or the call belongs to another driver.\<close>

definition chr_read :: "chr_fops \<Rightarrow> bool \<Rightarrow> u64 \<Rightarrow> u64 option \<Rightarrow> chrdev \<Rightarrow> ((int \<times> u8 list) \<times> u64 option \<times> chrdev) option" where
  "chr_read f buf count ppos s =
     (case f of
        NullFops \<Rightarrow> Some (null_read count, ppos, s)
      | ZeroFops \<Rightarrow> Some (zero_read buf count, ppos, s)
      | RandomFops \<Rightarrow> (case random_read buf count s of (r, s') \<Rightarrow> Some (r, ppos, s'))
      | KmsgFops \<Rightarrow> Some (kmsg_read count, ppos, s)
      | MemFops \<Rightarrow> (case mem_read buf count ppos s of (r, p) \<Rightarrow> Some (r, p, s))
      | DriverFops _ \<Rightarrow> None)"

definition chr_write :: "chr_fops \<Rightarrow> u8 list \<Rightarrow> u64 option \<Rightarrow> chrdev \<Rightarrow> (int \<times> u64 option \<times> chrdev) option" where
  "chr_write f bs ppos s =
     (case f of
        NullFops \<Rightarrow> Some (null_write (of_nat (length bs)), ppos, s)
      | ZeroFops \<Rightarrow> Some (zero_write (of_nat (length bs)), ppos, s)
      | RandomFops \<Rightarrow> (case random_write bs s of (r, s') \<Rightarrow> Some (r, ppos, s'))
      | KmsgFops \<Rightarrow> (case kmsg_write bs s of (r, s') \<Rightarrow> Some (r, ppos, s'))
      | MemFops \<Rightarrow> Some (mem_write (Some bs) ppos s)
      | DriverFops _ \<Rightarrow> None)"

section \<open>Start and names\<close>

text \<open>The names in ASCII.\<close>

abbreviation (input) ascii :: "string \<Rightarrow> u8 list" where "ascii cs \<equiv> map of_char cs"

definition chrdev_entry_zero :: chrdev_entry where
  "chrdev_entry_zero = \<lparr>che_name = [], che_fops = None, che_registered = False\<rparr>"

definition chrdev_init :: "u64 \<Rightarrow> u64 \<Rightarrow> u64 \<Rightarrow> chrdev \<Rightarrow> chrdev" where
  "chrdev_init tsc jiffies addr s =
     (let s0 = s\<lparr>cd_prng := prng_seed tsc jiffies addr, cd_table := \<lambda>_. chrdev_entry_zero\<rparr>;
          s1 = snd (chrdev_register 1 (ascii ''mem'') (Some MemFops) s0);
          s2 = snd (chrdev_register 240 (ascii ''nullzero'') (Some NullFops) s1)
      in snd (chrdev_register 241 (ascii ''kmsg'') (Some KmsgFops) s2))"

definition MKDEV :: "u32 \<Rightarrow> u32 \<Rightarrow> u32" where
  "MKDEV ma mi = push_bit 8 ma OR mi"

definition known_devs :: "(u8 list \<times> u32 \<times> chr_fops) list" where
  "known_devs =
     [(ascii ''null'', MKDEV 1 3, NullFops), (ascii ''zero'', MKDEV 1 5, ZeroFops), (ascii ''random'', MKDEV 1 8, RandomFops),
      (ascii ''urandom'', MKDEV 1 9, RandomFops), (ascii ''kmsg'', MKDEV 241 0, KmsgFops), (ascii ''mem'', MKDEV 1 1, MemFops)]"

definition chrdev_lookup_by_name :: "u8 list \<Rightarrow> (u32 \<times> chr_fops) option" where
  "chrdev_lookup_by_name nm = map_of known_devs nm"

end
