(* ===== verification/Chrdev_Correct.thy ===== *)
theory Chrdev_Correct
  imports Chrdev
begin

text \<open>
  The table of major numbers is a partial map; the generator of the random device is a permutation without a fixed zero, whose
  output tells its state; writing the state to it stops it for good.
\<close>

section \<open>The table is a map\<close>

datatype reg_call = Register u32 "u8 list" "chr_fops option" | Unregister u32

fun reg_exec :: "reg_call \<Rightarrow> chrdev \<Rightarrow> int \<times> chrdev" where
  "reg_exec (Register m nm f) s = chrdev_register m nm f s"
| "reg_exec (Unregister m) s = chrdev_unregister m s"

fun reg_spec :: "reg_call \<Rightarrow> (u32 \<rightharpoonup> chr_fops) \<Rightarrow> int \<times> (u32 \<rightharpoonup> chr_fops)" where
  "reg_spec (Register m nm f) r =
     (case f of None \<Rightarrow> (- EINVAL, r)
      | Some g \<Rightarrow> if 256 \<le> m then (- EINVAL, r) else if r m \<noteq> None then (- 16, r) else (0, r(m \<mapsto> g)))"
| "reg_spec (Unregister m) r = (if 256 \<le> m then (- EINVAL, r) else (0, r(m := None)))"

primrec run_calls :: "('c \<Rightarrow> 's \<Rightarrow> int \<times> 's) \<Rightarrow> 'c list \<Rightarrow> 's \<Rightarrow> int list \<times> 's" where
  "run_calls f [] s = ([], s)"
| "run_calls f (c # cs) s = (let r = f c s; q = run_calls f cs (snd r) in (fst r # fst q, snd q))"

definition reg_map :: "chrdev \<Rightarrow> u32 \<rightharpoonup> chr_fops" where
  "reg_map s = (\<lambda>m. chrdev_get_fops m s)"

definition reg_ok :: "chrdev \<Rightarrow> bool" where
  "reg_ok s \<longleftrightarrow> (\<forall>m. che_registered (cd_table s m) \<longrightarrow> che_fops (cd_table s m) \<noteq> None)"

lemma unat_same: "unat (x :: u32) = unat y \<longleftrightarrow> x = y"
  by (simp add: word_unat_eq_iff)

lemma reg_ok_fops: "reg_ok s \<Longrightarrow> m < 256 \<Longrightarrow> che_registered (cd_table s (unat m)) \<longleftrightarrow> reg_map s m \<noteq> None"
  by (auto simp: reg_map_def chrdev_get_fops_def reg_ok_def not_le)

lemma reg_step:
  assumes "reg_ok s"
  shows "fst (reg_exec c s) = fst (reg_spec c (reg_map s)) \<and> reg_map (snd (reg_exec c s)) = snd (reg_spec c (reg_map s)) \<and>
    reg_ok (snd (reg_exec c s))"
proof (cases c)
  case (Register m nm f)
  then show ?thesis
    using assms reg_ok_fops [OF assms, of m]
    by (auto simp: chrdev_register_def not_le reg_map_def fun_eq_iff chrdev_get_fops_def reg_ok_def unat_same split: option.split)
next
  case (Unregister m)
  then show ?thesis
    using assms by (auto simp: chrdev_unregister_def reg_map_def fun_eq_iff chrdev_get_fops_def reg_ok_def unat_same)
qed

lemma reg_run:
  "reg_ok s \<Longrightarrow> fst (run_calls reg_exec cs s) = fst (run_calls reg_spec cs (reg_map s)) \<and>
     reg_map (snd (run_calls reg_exec cs s)) = snd (run_calls reg_spec cs (reg_map s))"
proof (induction cs arbitrary: s)
  case (Cons c cs)
  then show ?case using reg_step [OF Cons.prems, of c] by (simp add: Let_def)
qed simp

lemma unat_is: "unat (x :: u32) = Suc 0 \<longleftrightarrow> x = 1" "unat x = 240 \<longleftrightarrow> x = 240" "unat x = 241 \<longleftrightarrow> x = 241"
  using unat_same [of x 1] unat_same [of x 240] unat_same [of x 241] by simp_all

lemma one_in_range: "\<not> 256 \<le> (1 :: u32)"
  by (simp add: word_le_nat_alt)

lemma chrdev_init_map:
  "reg_ok (chrdev_init tsc jiffies addr s)"
  "reg_map (chrdev_init tsc jiffies addr s) = [1 \<mapsto> MemFops, 240 \<mapsto> NullFops, 241 \<mapsto> KmsgFops]"
  by (auto simp: chrdev_init_def chrdev_register_def reg_ok_def reg_map_def chrdev_get_fops_def chrdev_entry_zero_def fun_eq_iff
      unat_is one_in_range Let_def)

text \<open>C25 (the device table is a map). After \<^verbatim>\<open>chrdev_init\<close> any registrations and removals answer, and leave the operations found
  by \<^verbatim>\<open>chrdev_get_fops\<close>, as on a partial map from major numbers below 256: a number in use, a number out of range and a null
  table of operations are refused.\<close>

theorem device_table_is_map:
  "(let s = chrdev_init tsc jiffies addr s0; r = run_calls reg_exec cs s in (fst r, \<lambda>m. chrdev_get_fops m (snd r))) =
   run_calls reg_spec cs [1 \<mapsto> MemFops, 240 \<mapsto> NullFops, 241 \<mapsto> KmsgFops]"
  using reg_run [OF chrdev_init_map(1), of cs tsc jiffies addr s0]
  by (simp add: Let_def prod_eq_iff chrdev_init_map(2)) (simp add: reg_map_def)

section \<open>The generator\<close>

text \<open>A word that is its own shift is zero.\<close>

lemma shift_left_zero:
  fixes z :: "'a::len word"
  assumes "z = push_bit k z" "0 < k"
  shows "z = 0"
proof (rule bit_eqI)
  fix n assume "possible_bit TYPE('a word) n"
  have "\<not> bit z n"
  proof (induction n rule: less_induct)
    case (less n)
    have "bit z n = bit (push_bit k z) n" by (rule arg_cong [OF assms(1)])
    then have "bit z n \<Longrightarrow> k \<le> n \<and> bit z (n - k)" by (simp only: bit_push_bit_iff)
    then show ?case using less.IH [of "n - k"] assms(2) by auto
  qed
  then show "bit z n = bit 0 n" by simp
qed

lemma shift_right_zero:
  fixes z :: "'a::len word"
  assumes "z = drop_bit k z" "0 < k"
  shows "z = 0"
proof (rule bit_eqI)
  fix n assume "possible_bit TYPE('a word) n"
  have b: "bit z m \<longleftrightarrow> bit z (k + m)" for m
  proof -
    have "bit z m = bit (drop_bit k z) m" by (rule arg_cong [OF assms(1)])
    then show ?thesis by (simp only: bit_drop_bit_eq comp_apply)
  qed
  have all: "bit z m \<Longrightarrow> bit z (m + j * k)" for m j
  proof (induction j)
    case (Suc j)
    then show ?case using b [of "m + j * k"] by (simp add: algebra_simps)
  qed simp
  have "\<not> bit z n"
  proof
    assume "bit z n"
    then have "n + LENGTH('a) * k < LENGTH('a)" using all [of n "LENGTH('a)"] by (intro bit_imp_le_length)
    moreover have "LENGTH('a) \<le> LENGTH('a) * k" using assms(2) by simp
    ultimately show False by linarith
  qed
  then show "bit z n = bit 0 n" by simp
qed

lemma xor_zeroD: "x XOR y = 0 \<Longrightarrow> x = (y :: 'a::len word)"
proof -
  assume "x XOR y = 0"
  moreover have "x = (x XOR y) XOR y" by (simp add: xor.assoc)
  ultimately show "x = y" by simp
qed

lemma xor_push_inj:
  assumes "x XOR push_bit k x = y XOR push_bit k (y :: 'a::len word)" "0 < k"
  shows "x = y"
proof -
  have "(x XOR y) XOR push_bit k (x XOR y) = (x XOR push_bit k x) XOR (y XOR push_bit k y)"
    by (rule bit_word_eqI) (auto simp: bit_simps)
  also have "\<dots> = 0" using assms(1) by simp
  finally have "x XOR y = push_bit k (x XOR y)" by (rule xor_zeroD)
  from shift_left_zero [OF this assms(2)] show ?thesis by (rule xor_zeroD)
qed

lemma xor_drop_inj:
  assumes "x XOR drop_bit k x = y XOR drop_bit k (y :: 'a::len word)" "0 < k"
  shows "x = y"
proof -
  have "(x XOR y) XOR drop_bit k (x XOR y) = (x XOR drop_bit k x) XOR (y XOR drop_bit k y)"
    by (rule bit_word_eqI) (auto simp: bit_simps)
  also have "\<dots> = 0" using assms(1) by simp
  finally have "x XOR y = drop_bit k (x XOR y)" by (rule xor_zeroD)
  from shift_right_zero [OF this assms(2)] show ?thesis by (rule xor_zeroD)
qed

lemma prng_next_inj: "inj prng_next"
proof (rule injI)
  fix x y assume e: "prng_next x = prng_next y"
  show "x = y"
    by (rule xor_push_inj [where k = 13], rule xor_drop_inj [where k = 7], rule xor_push_inj [where k = 17])
       (use e in \<open>simp_all add: prng_next_def Let_def\<close>)
qed

lemma prng_next_zero: "prng_next s = 0 \<longleftrightarrow> s = 0"
proof
  have "prng_next 0 = 0" by (simp add: prng_next_def)
  then show "prng_next s = 0 \<Longrightarrow> s = 0" using injD [OF prng_next_inj, of s 0] by simp
qed (simp add: prng_next_def)

lemma random_fill_nonzero: "s \<noteq> 0 \<Longrightarrow> snd (random_fill n s) \<noteq> 0"
proof (induction n s rule: random_fill.induct)
  case (1 n s)
  then show ?case by (subst random_fill.simps) (simp add: Let_def prng_next_zero)
qed

text \<open>The states after each step.\<close>

fun prng_states :: "nat \<Rightarrow> u64 \<Rightarrow> u64 list" where
  "prng_states 0 s = []"
| "prng_states (Suc n) s = prng_next s # prng_states n (prng_next s)"

lemma length_prng_states [simp]: "length (prng_states n s) = n"
  by (induction n arbitrary: s) simp_all

lemma random_fill_words:
  "random_fill (8 * n) s = (concat (map (le_bytes 8) (prng_states n s)), (prng_next ^^ n) s)"
proof (induction n arbitrary: s)
  case 0
  then show ?case by (simp add: random_fill.simps)
next
  case (Suc n)
  have "8 * Suc n - 8 = 8 * n" by simp
  then show ?case by (subst random_fill.simps) (simp add: Let_def Suc.IH funpow_swap1)
qed

text \<open>\<^emph>\<open>The generator never stops by itself and never forgets.\<close> Distinct states of the random device have distinct successors, and
  only zero leads to zero: from any other state the states run through a cycle and no read ends in the state that gives zeros.\<close>

theorem prng_permutation: "bij prng_next \<and> (\<forall>s. prng_next s = 0 \<longleftrightarrow> s = 0)"
  using prng_next_inj finite_UNIV_inj_surj [of prng_next] prng_next_zero by (auto simp: bij_def)

section \<open>What goes wrong\<close>

text \<open>Eight bytes read from the device are its state: whoever reads them knows all that follow, for other readers too.\<close>

lemma random_output_is_state:
  assumes "random_read True 8 s = ((r, bs), s')"
  shows "le_word bs = cd_prng s'"
proof -
  have "random_fill 8 (cd_prng s) = (le_bytes 8 (prng_next (cd_prng s)), prng_next (cd_prng s))"
    using random_fill_words [of 1 "cd_prng s"] by simp
  then show ?thesis using assms le_bytes_roundtrip [of 8 "prng_next (cd_prng s)"] by (auto simp: random_read_def Let_def)
qed

text \<open>Writing them back stops it: all further reads give zeros.\<close>

lemma random_fill_stuck: "random_fill n 0 = (replicate n 0, 0)"
proof (induction n "0 :: u64" rule: random_fill.induct)
  case (1 n)
  have z: "prng_next 0 = 0" by (simp add: prng_next_def)
  have "le_bytes 8 (0 :: u64) = replicate 8 0" by (simp add: le_bytes_def map_replicate_const)
  then show ?case
    using "1.hyps" z by (subst random_fill.simps) (auto simp: Let_def replicate_add [symmetric] take_replicate)
qed

lemma random_write_stops:
  assumes "random_read True 8 s = ((r, bs), s1)" "random_write bs s1 = (r', s2)"
  shows "random_read True n s2 = ((sint n, replicate (unat n) 0), s2)"
proof -
  have "random_fill 8 (cd_prng s) = (le_bytes 8 (prng_next (cd_prng s)), prng_next (cd_prng s))"
    using random_fill_words [of 1 "cd_prng s"] by simp
  then have l: "length bs = 8" using assms(1) by (auto simp: random_read_def Let_def)
  have "random_mix bs (cd_prng s1) = random_mix [] (cd_prng s1 XOR le_word bs)" using l by (subst random_mix.simps) simp
  also have "\<dots> = 0" using random_output_is_state [OF assms(1)] by (simp add: random_mix.simps)
  finally have "cd_prng s2 = 0" using assms(2) by (auto simp: random_write_def)
  then show ?thesis by (simp add: random_read_def random_fill_stuck Let_def)
qed

text \<open>The zero and random devices are found by name, not by the major number of their device number.\<close>

lemma lookup_number_mismatch:
  "\<exists>dev. chrdev_lookup_by_name (ascii ''zero'') = Some (dev, ZeroFops) \<and> reg_map (chrdev_init tsc j a s) (drop_bit 8 dev) = Some MemFops"
  unfolding chrdev_init_map(2) by (simp add: chrdev_lookup_by_name_def known_devs_def MKDEV_def)

end
