(* ===== verification/Devfs.thy ===== *)
theory Devfs
  imports Vfs_Correct Keyboard_Correct
begin

text \<open>
  \<^verbatim>\<open>fs/devfs.c\<close>: the device files of \<^verbatim>\<open>/dev\<close> and their operations. The choice of the operations when a device is opened is in
  \<open>Vfs\<close>. The serial port is the bytes sent to it and the next character read, which the environment provides; the text
  screen gets the same bytes as the port.
\<close>

section \<open>Devices\<close>

record devs =
  dv_random_seed :: u64
  dv_serial_out :: "u8 list"
  dv_next_ino :: u64
  dv_input_ino :: u64

text \<open>A call that fills the buffer returns its value and the bytes.\<close>

definition dev_null_read :: "u64 \<Rightarrow> int \<times> u8 list" where
  "dev_null_read count = (0, [])"

definition dev_null_write :: "u8 list \<Rightarrow> int" where
  "dev_null_write bs = int (length bs)"

definition dev_zero_read :: "u64 \<Rightarrow> int \<times> u8 list" where
  "dev_zero_read count = (sint count, replicate (unat count) 0)"

definition dev_full_write :: "u8 list \<Rightarrow> int" where
  "dev_full_write bs = - 28"

definition dev_random_step :: "u64 \<Rightarrow> u64" where
  "dev_random_step seed = seed * 6364136223846793005 + 1442695040888963407"

fun dev_random_bytes :: "nat \<Rightarrow> u64 \<Rightarrow> u8 list \<times> u64" where
  "dev_random_bytes 0 seed = ([], seed)"
| "dev_random_bytes (Suc n) seed =
     (let s1 = dev_random_step seed; r = dev_random_bytes n s1 in (ucast (drop_bit 32 s1 AND 0xFF) # fst r, snd r))"

definition dev_random_read :: "u64 \<Rightarrow> devs \<Rightarrow> (int \<times> u8 list) \<times> devs" where
  "dev_random_read count s =
     (let r = dev_random_bytes (unat count) (dv_random_seed s) in ((sint count, fst r), s\<lparr>dv_random_seed := snd r\<rparr>))"

text \<open>The second argument is what \<^verbatim>\<open>serial_getc_blocking\<close> answers.\<close>

definition dev_console_read :: "u64 \<Rightarrow> int \<Rightarrow> int \<times> u8 list" where
  "dev_console_read count c =
     (if count = 0 then (0, [])
      else if c < 0 then (- EIO, [])
      else let ch = of_int c :: u8 in (1, [if ch = 13 then 10 else ch]))"

definition dev_console_write :: "u8 list \<Rightarrow> devs \<Rightarrow> int \<times> devs" where
  "dev_console_write bs s = (int (length bs), s\<lparr>dv_serial_out := dv_serial_out s @ bs\<rparr>)"

text \<open>The value and the bytes stored at the argument.\<close>

definition dev_console_ioctl :: "u32 \<Rightarrow> int \<times> u8 list" where
  "dev_console_ioctl cmd =
     (if cmd = 0x5401
      then (0, le_bytes 4 (0x6d02 :: u32) @ le_bytes 4 (0x05 :: u32) @ le_bytes 4 (0xbf :: u32) @ le_bytes 4 (0x8a3b :: u32) @
               [0] @ [3, 28, 127, 21, 4, 0, 1, 0, 17, 19, 26, 0, 18, 15, 23, 22, 0, 0, 0])
      else if cmd = 0x5413 then (0, le_bytes 2 (24 :: u16) @ le_bytes 2 (80 :: u16) @ le_bytes 2 (0 :: u16) @ le_bytes 2 (0 :: u16))
      else if cmd \<in> {0x5402, 0x5403, 0x5404, 0x5414, 0x540E, 0x5410} then (0, [])
      else if cmd = 0x540F then (0, le_bytes 4 (2 :: u32))
      else (- 25, []))"

text \<open>\<open>None\<close>: the frame buffer, whose operations are in \<^verbatim>\<open>drivers/fb/fb.c\<close>.\<close>

definition dev_read :: "devop \<Rightarrow> u64 \<Rightarrow> int \<Rightarrow> devs \<Rightarrow> ((int \<times> u8 list) \<times> devs) option" where
  "dev_read d count c s =
     (case d of
        DevNull \<Rightarrow> Some (dev_null_read count, s)
      | DevZero \<Rightarrow> Some (dev_zero_read count, s)
      | DevFull \<Rightarrow> Some (dev_zero_read count, s)
      | DevRandom \<Rightarrow> Some (dev_random_read count s)
      | DevConsole \<Rightarrow> Some (dev_console_read count c, s)
      | DevFb \<Rightarrow> None)"

definition dev_write :: "devop \<Rightarrow> u8 list \<Rightarrow> devs \<Rightarrow> (int \<times> devs) option" where
  "dev_write d bs s =
     (case d of
        DevNull \<Rightarrow> Some (dev_null_write bs, s)
      | DevZero \<Rightarrow> Some (dev_null_write bs, s)
      | DevFull \<Rightarrow> Some (dev_full_write bs, s)
      | DevRandom \<Rightarrow> Some (dev_null_write bs, s)
      | DevConsole \<Rightarrow> Some (dev_console_write bs s)
      | DevFb \<Rightarrow> None)"

text \<open>\<^verbatim>\<open>vfs_read\<close> and \<^verbatim>\<open>vfs_write\<close> of an open device file.\<close>

definition dev_file_read :: "vfile \<Rightarrow> u64 \<Rightarrow> int \<Rightarrow> devs \<Rightarrow> ((int \<times> u8 list) \<times> devs) option" where
  "dev_file_read f count c s =
     (case f_op f of
        Some (DeviceFops d) \<Rightarrow> if f_mode f AND 1 = 0 then Some ((- EBADF, []), s) else dev_read d count c s
      | _ \<Rightarrow> Some ((- EINVAL, []), s))"

definition dev_file_write :: "vfile \<Rightarrow> u8 list \<Rightarrow> devs \<Rightarrow> (int \<times> devs) option" where
  "dev_file_write f bs s =
     (case f_op f of
        Some (DeviceFops d) \<Rightarrow> if f_mode f AND 2 = 0 then Some (- EBADF, s) else dev_write d bs s
      | _ \<Rightarrow> Some (- EINVAL, s))"

section \<open>Nodes\<close>

abbreviation (input) S_IFCHR :: u32 where "S_IFCHR \<equiv> 0x2000"
abbreviation (input) ascii :: "string \<Rightarrow> u8 list" where "ascii cs \<equiv> map of_char cs"

definition DEV :: "u32 \<Rightarrow> u32 \<Rightarrow> u32" where
  "DEV ma mi = push_bit 20 ma OR mi"

definition devfs_mknod :: "vfs_alloc \<Rightarrow> nat \<Rightarrow> name \<Rightarrow> u32 \<Rightarrow> u32 \<Rightarrow> vfs \<times> devs \<Rightarrow> int \<times> vfs \<times> devs" where
  "devfs_mknod va parent nm mode dev sd =
     (case sd of (s, dv) \<Rightarrow>
        (case d_alloc va (Some parent) nm s of
           (None, s1) \<Rightarrow> (- ENOMEM, s1, dv)
         | (Some a, s1) \<Rightarrow>
             (case new_inode va (d_sb (dent s1 parent)) s1 of
                (None, s2) \<Rightarrow> (- ENOMEM, dput a s2, dv)
              | (Some i, s2) \<Rightarrow>
                  (0, d_instantiate a (Some i)
                        (upd_ind i (\<lambda>x. x\<lparr>i_ino := dv_next_ino dv, i_mode := mode, i_rdev := dev, i_uid := 0, i_gid := 0,
                           i_nlink := 1, i_fop := Some DevfsChrFops\<rparr>) s2),
                   dv\<lparr>dv_next_ino := dv_next_ino dv + 1\<rparr>))))"

definition dev_nodes :: "(name \<times> u32 \<times> u32) list" where
  "dev_nodes =
     [(ascii ''null'', S_IFCHR OR 0x1B6, DEV 1 3), (ascii ''zero'', S_IFCHR OR 0x1B6, DEV 1 5),
      (ascii ''full'', S_IFCHR OR 0x1B6, DEV 1 7), (ascii ''random'', S_IFCHR OR 0x1B6, DEV 1 8),
      (ascii ''urandom'', S_IFCHR OR 0x124, DEV 1 9), (ascii ''kmsg'', S_IFCHR OR 0x1B0, DEV 1 11),
      (ascii ''mem'', S_IFCHR OR 0x1A0, DEV 1 1), (ascii ''tty'', S_IFCHR OR 0x1B6, DEV 5 0),
      (ascii ''console'', S_IFCHR OR 0x180, DEV 5 1), (ascii ''ptmx'', S_IFCHR OR 0x1B6, DEV 5 2),
      (ascii ''fb0'', S_IFCHR OR 0x1B0, DEV 29 0)] @
     map (\<lambda>i. (ascii ''tty'' @ [48 + of_nat i], S_IFCHR OR 0x190, DEV 4 (of_nat i))) [0..<8]"

definition input_nodes :: "(name \<times> u32 \<times> u32) list" where
  "input_nodes = [(ascii ''event0'', S_IFCHR OR 0x1B0, DEV 13 0), (ascii ''event1'', S_IFCHR OR 0x1B0, DEV 13 1)]"

text \<open>The answers of \<^verbatim>\<open>devfs_mknod\<close> are not looked at.\<close>

definition make_nodes :: "vfs_alloc \<Rightarrow> nat \<Rightarrow> (name \<times> u32 \<times> u32) list \<Rightarrow> vfs \<times> devs \<Rightarrow> vfs \<times> devs" where
  "make_nodes va d = fold (\<lambda>(nm, mode, dev) sd. snd (devfs_mknod va d nm mode dev sd))"

text \<open>The fields of a new directory inode.\<close>

definition dir_inode :: "u64 \<Rightarrow> inode \<Rightarrow> inode" where
  "dir_inode ino x = x\<lparr>i_ino := ino, i_mode := S_IFDIR OR 0x1ED, i_nlink := 2, i_op := Some RamfsDirOps, i_fop := Some RamfsDirFileOps\<rparr>"

definition devfs_input_dir :: "vfs_alloc \<Rightarrow> nat \<Rightarrow> nat \<Rightarrow> vfs \<times> devs \<Rightarrow> vfs \<times> devs" where
  "devfs_input_dir va root d sd =
     (case sd of (s, dv) \<Rightarrow>
        (case d_alloc va (Some d) (ascii ''input'') s of
           (None, s1) \<Rightarrow> (s1, dv)
         | (Some a, s1) \<Rightarrow>
             (case new_inode va (d_sb (dent s1 root)) s1 of
                (None, s2) \<Rightarrow> (s2, dv)
              | (Some i, s2) \<Rightarrow>
                  make_nodes va a input_nodes
                    (d_instantiate a (Some i) (upd_ind i (dir_inode (dv_input_ino dv)) s2), dv\<lparr>dv_input_ino := dv_input_ino dv + 1\<rparr>))))"

text \<open>The directory, found or made.\<close>

definition devfs_dir :: "vfs_alloc \<Rightarrow> nat \<Rightarrow> vfs \<Rightarrow> nat option \<times> vfs" where
  "devfs_dir va root s =
     (case d_lookup root (ascii ''dev'') s of
        (Some d, s1) \<Rightarrow> (Some d, s1)
      | (None, s1) \<Rightarrow>
          (case d_alloc va (Some root) (ascii ''dev'') s1 of
             (None, s2) \<Rightarrow> (None, s2)
           | (Some d, s2) \<Rightarrow>
               (case new_inode va (d_sb (dent s2 root)) s2 of
                  (None, s3) \<Rightarrow> (None, dput d s3)
                | (Some i, s3) \<Rightarrow> (Some d, d_instantiate d (Some i) (upd_ind i (dir_inode 2) s3)))))"

definition init_devfs :: "vfs_alloc \<Rightarrow> vfs \<times> devs \<Rightarrow> int \<times> vfs \<times> devs" where
  "init_devfs va sd =
     (case sd of (s, dv) \<Rightarrow>
        (case v_root s of
           None \<Rightarrow> (- EINVAL, s, dv)
         | Some root \<Rightarrow>
             (case devfs_dir va root s of
                (None, s1) \<Rightarrow> (- ENOMEM, s1, dv)
              | (Some d, s1) \<Rightarrow> (0, devfs_input_dir va root d (make_nodes va d dev_nodes (s1, dv))))))"

end
