(* ===== verification/Devfs_Correct.thy ===== *)
theory Devfs_Correct
  imports Devfs
begin

text \<open>
  Every device file made at the start is found by its path and opens with the operations of its number; the files for which
  there are none cannot be read or written.
\<close>

declare domIff [iff del]

section \<open>Entries added to directories\<close>

text \<open>\<open>t\<close> is a later state with further children: each pair of \<open>A\<close> is a directory and the name of a new child.\<close>

definition adds :: "(nat \<times> name) set \<Rightarrow> vfs \<Rightarrow> vfs \<Rightarrow> bool" where
  "adds A s t \<longleftrightarrow> wf_vfs t \<and> v_root t = v_root s \<and> v_mounts t = v_mounts s \<and> dom (v_dentries s) \<subseteq> dom (v_dentries t) \<and>
     dom (v_inodes s) \<subseteq> dom (v_inodes t) \<and> (\<forall>i \<in> dom (v_inodes s). ind t i = ind s i) \<and>
     (\<forall>x \<in> dom (v_dentries s). d_name (dent t x) = d_name (dent s x) \<and> d_inode (dent t x) = d_inode (dent s x) \<and>
        (\<exists>xs. d_subdirs (dent t x) = xs @ d_subdirs (dent s x) \<and> (\<forall>y \<in> set xs. (x, d_name (dent t y)) \<in> A)))"

lemma addsD:
  assumes "adds A s t"
  shows "wf_vfs t" "v_root t = v_root s" "v_mounts t = v_mounts s" "x \<in> dom (v_dentries s) \<Longrightarrow> x \<in> dom (v_dentries t)"
    "i \<in> dom (v_inodes s) \<Longrightarrow> i \<in> dom (v_inodes t)" "i \<in> dom (v_inodes s) \<Longrightarrow> ind t i = ind s i"
    "x \<in> dom (v_dentries s) \<Longrightarrow> d_name (dent t x) = d_name (dent s x)"
    "x \<in> dom (v_dentries s) \<Longrightarrow> d_inode (dent t x) = d_inode (dent s x)"
  using assms unfolding adds_def by blast+

lemma adds_children:
  assumes "adds A s t" "x \<in> dom (v_dentries s)"
  obtains xs where "d_subdirs (dent t x) = xs @ d_subdirs (dent s x)" "\<forall>y \<in> set xs. (x, d_name (dent t y)) \<in> A"
  using assms unfolding adds_def by blast

lemma adds_refl: "wf_vfs s \<Longrightarrow> adds A s s"
  unfolding adds_def by force

lemma adds_mono: "adds A s t \<Longrightarrow> A \<subseteq> B \<Longrightarrow> adds B s t"
  unfolding adds_def by blast

lemma adds_trans:
  assumes "adds A s t" "adds B t u"
  shows "adds (A \<union> B) s u"
proof -
  note 1 = addsD [OF assms(1)]
  note 2 = addsD [OF assms(2)]
  have "\<exists>xs. d_subdirs (dent u x) = xs @ d_subdirs (dent s x) \<and> (\<forall>y \<in> set xs. (x, d_name (dent u y)) \<in> A \<union> B)"
    if x: "x \<in> dom (v_dentries s)" for x
  proof -
    obtain xs where xs: "d_subdirs (dent t x) = xs @ d_subdirs (dent s x)" "\<forall>y \<in> set xs. (x, d_name (dent t y)) \<in> A"
      using adds_children [OF assms(1) x] by blast
    obtain ys where ys: "d_subdirs (dent u x) = ys @ d_subdirs (dent t x)" "\<forall>y \<in> set ys. (x, d_name (dent u y)) \<in> B"
      using adds_children [OF assms(2) 1(4) [OF x]] by blast
    have "y \<in> dom (v_dentries t)" if "y \<in> set xs" for y using wf_subdirs [OF 1(1), of x] xs(1) that by auto
    then have "\<forall>y \<in> set xs. (x, d_name (dent u y)) \<in> A" using xs(2) 2(7) by auto
    then show ?thesis using xs(1) ys by (intro exI [of _ "ys @ xs"]) auto
  qed
  moreover have "d_name (dent u x) = d_name (dent s x)" "d_inode (dent u x) = d_inode (dent s x)" if "x \<in> dom (v_dentries s)" for x
    using 1(7,8) [OF that] 2(7,8) [OF 1(4) [OF that]] by simp_all
  moreover have "ind u i = ind s i" if "i \<in> dom (v_inodes s)" for i using 1(6) [OF that] 2(6) [OF 1(5) [OF that]] by simp
  ultimately show ?thesis using 2(1-5) 1(2-5) unfolding adds_def by auto
qed

lemma adds_find:
  assumes "adds A s t" "wf_vfs s" "x \<in> dom (v_dentries s)" "(x, nm) \<notin> A"
  shows "find_child t nm (d_subdirs (dent t x)) = find_child s nm (d_subdirs (dent s x))"
proof -
  obtain xs where xs: "d_subdirs (dent t x) = xs @ d_subdirs (dent s x)" "\<forall>y \<in> set xs. (x, d_name (dent t y)) \<in> A"
    by (rule adds_children [OF assms(1,3)])
  have "find_child t nm (xs @ cs) = find_child t nm cs" if "\<forall>y \<in> set xs. (x, d_name (dent t y)) \<in> A" for xs cs
    using that assms(4) by (induction xs) auto
  then have "find_child t nm (d_subdirs (dent t x)) = find_child t nm (d_subdirs (dent s x))" using xs by simp
  also have "\<dots> = find_child s nm (d_subdirs (dent s x))"
    by (rule find_child_cong) (use addsD(7) [OF assms(1)] wf_subdirs [OF assms(2), of x] in auto)
  finally show ?thesis .
qed

section \<open>A new child with an inode\<close>

definition named :: "vfs \<Rightarrow> nat \<Rightarrow> name \<Rightarrow> nat \<Rightarrow> inode \<Rightarrow> bool" where
  "named s d nm a x \<longleftrightarrow> find_child s nm (d_subdirs (dent s d)) = Some a \<and> a \<in> dom (v_dentries s) \<and>
     (\<exists>i. d_inode (dent s a) = Some i \<and> i \<in> dom (v_inodes s) \<and> ind s i = x)"

lemma named_adds:
  assumes "named s d nm a x" "adds A s t" "wf_vfs s" "d \<in> dom (v_dentries s)" "(d, nm) \<notin> A"
  shows "named t d nm a x"
  using assms(1) adds_find [OF assms(2-5)] addsD(4-6,8) [OF assms(2)] unfolding named_def by auto

lemma child_ok:
  assumes "alloc_ok va" "wf_vfs s" "d \<in> dom (v_dentries s)"
  obtains a i s1 s2 where "d_alloc va (Some d) nm s = (Some a, s1)" "new_inode va (g s1) s1 = (Some i, s2)" "a \<notin> dom (v_dentries s)"
    "adds {(d, nm)} s (d_instantiate a (Some i) (upd_ind i f s2))"
    "named (d_instantiate a (Some i) (upd_ind i f s2)) d nm a (f (inode_zero\<lparr>i_sb := g s1, i_count := 1, i_state := 8\<rparr>))"
proof -
  obtain a s1 where a: "d_alloc va (Some d) nm s = (Some a, s1)" "v_dentries s a = None" "forget s1 = forget (new_entry a d nm s)"
    using d_alloc_ok [OF assms(1) conjunct1 [OF wf_finite [OF assms(2)]]] by metis
  have ad: "a \<noteq> d" using a(2) assms(3) by (auto simp: domIff)
  have na: "a \<notin> dom (v_dentries s)" using a(2) by (simp add: domIff)
  have e1: "ext s s1" "a \<in> dom (v_dentries s1)"
    using ext_d_alloc [OF alloc_okD(1) [OF assms(1)] assms(2) a(1)] assms(3) by auto
  obtain i where i: "va_inode va (v_inodes s1) = Some i" "v_inodes s1 i = None"
    using alloc_okD(6) [OF assms(1)] wf_finite [OF ext_wf [OF e1(1)]] by metis
  define z where "z = inode_zero\<lparr>i_sb := g s1, i_count := 1, i_state := 8\<rparr>"
  define s2 where "s2 = s1\<lparr>v_inodes := (v_inodes s1)(i \<mapsto> z), v_nr_inodes := v_nr_inodes s1 + 1, v_inode_in_use := i # v_inode_in_use s1\<rparr>"
  have n: "new_inode va (g s1) s1 = (Some i, s2)" using i(1) by (simp add: new_inode_def s2_def z_def)
  define t where "t = d_instantiate a (Some i) (upd_ind i f s2)"
  have e2: "ext s1 s2" "i \<in> dom (v_inodes s2)" using ext_new_inode [OF ext_wf [OF e1(1)] n] by blast+
  have it: "v_inodes t = (v_inodes s1)(i \<mapsto> f z)" by (simp add: t_def d_instantiate_def upd_ind_def s2_def upd_dent_def)
  have ut: "ext s2 (upd_ind i f s2)" by (rule ext_upd_ind [OF ext_wf [OF e2(1)]])
  have wt: "wf_vfs t"
    unfolding t_def
    by (rule ext_wf [OF ext_d_instantiate [OF ext_wf [OF ut]]]) (use ext_inode [OF ut e2(2)] in simp)
  have dt: "dent t x = (if x = a then (dent s1 a)\<lparr>d_inode := Some i\<rparr> else dent s1 x)" for x
    using e1(2) by (auto simp: t_def d_instantiate_def upd_ind_def s2_def upd_dent_def dent_def domIff)
  have dd: "dom (v_dentries t) = dom (v_dentries s1)"
    using e1(2) by (auto simp: t_def d_instantiate_def upd_ind_def s2_def upd_dent_def domIff)
  have rt: "v_root t = v_root s1" "v_mounts t = v_mounts s1" by (simp_all add: t_def d_instantiate_def upd_ind_def s2_def upd_dent_def)
  note F = forget_eq_fields [OF a(3)]
  have s1: "v_root s1 = v_root s" "v_mounts s1 = v_mounts s" "v_inodes s1 = v_inodes s" using F(1-3) by simp_all
  have fresh: "i \<notin> dom (v_inodes s)" using i(2) s1(3) by (simp add: domIff)
  have old: "d_name (dent t x) = d_name (dent s x)" "d_inode (dent t x) = d_inode (dent s x)"
    "d_subdirs (dent t x) = (if x = d then [a] else []) @ d_subdirs (dent s x)" if "x \<in> dom (v_dentries s)" for x
    using that na ad F(4-6) by (auto simp: dt dent_new_entry [OF assms(3) ad])
  have new: "d_name (dent t a) = nm" "d_inode (dent t a) = Some i"
    using F(5) ad by (simp_all add: dt dent_new_entry [OF assms(3) ad])
  have "adds {(d, nm)} s t"
    unfolding adds_def
  proof (intro conjI ballI)
    show "dom (v_dentries s) \<subseteq> dom (v_dentries t)" using dd e1(1) by (auto simp: ext_def)
    show "dom (v_inodes s) \<subseteq> dom (v_inodes t)" using it s1(3) by auto
    show "ind t j = ind s j" if "j \<in> dom (v_inodes s)" for j using that fresh it s1(3) by (auto simp: ind_def)
    show "\<exists>xs. d_subdirs (dent t x) = xs @ d_subdirs (dent s x) \<and> (\<forall>y \<in> set xs. (x, d_name (dent t y)) \<in> {(d, nm)})"
      if "x \<in> dom (v_dentries s)" for x
      using old(3) [OF that] new(1) by (intro exI [of _ "if x = d then [a] else []"]) simp
  qed (use wt rt s1 old in auto)
  moreover have "find_child t nm (d_subdirs (dent t d)) = Some a" using old(3) [OF assms(3)] new(1) by simp
  then have "named t d nm a (f z)" using new(2) dd e1(2) it by (simp add: named_def ind_def)
  ultimately show thesis using that [OF a(1) n na] unfolding t_def z_def by blast
qed

section \<open>The device files\<close>

definition is_node :: "vfs \<Rightarrow> nat \<Rightarrow> name \<times> u32 \<times> u32 \<Rightarrow> bool" where
  "is_node s d e \<longleftrightarrow>
     (\<exists>a x. named s d (fst e) a x \<and> i_fop x = Some DevfsChrFops \<and> i_mode x = fst (snd e) \<and> i_rdev x = snd (snd e))"

lemma is_node_adds:
  "is_node s d e \<Longrightarrow> adds A s t \<Longrightarrow> wf_vfs s \<Longrightarrow> d \<in> dom (v_dentries s) \<Longrightarrow> (d, fst e) \<notin> A \<Longrightarrow> is_node t d e"
  unfolding is_node_def using named_adds by blast

lemma devfs_mknod_ok:
  assumes "alloc_ok va" "wf_vfs s" "d \<in> dom (v_dentries s)"
  shows "\<exists>t dv'. devfs_mknod va d nm mode dev (s, dv) = (0, t, dv') \<and> adds {(d, nm)} s t \<and> is_node t d (nm, mode, dev)"
proof -
  let ?f = "\<lambda>x. x\<lparr>i_ino := dv_next_ino dv, i_mode := mode, i_rdev := dev, i_uid := 0, i_gid := 0, i_nlink := 1,
    i_fop := Some DevfsChrFops\<rparr>"
  obtain a i s1 s2 where c: "d_alloc va (Some d) nm s = (Some a, s1)" "new_inode va (d_sb (dent s1 d)) s1 = (Some i, s2)"
      "adds {(d, nm)} s (d_instantiate a (Some i) (upd_ind i ?f s2))"
      "named (d_instantiate a (Some i) (upd_ind i ?f s2)) d nm a (?f (inode_zero\<lparr>i_sb := d_sb (dent s1 d), i_count := 1, i_state := 8\<rparr>))"
    using child_ok [OF assms, of nm "\<lambda>s1. d_sb (dent s1 d)" ?f] by metis
  have "devfs_mknod va d nm mode dev (s, dv) =
      (0, d_instantiate a (Some i) (upd_ind i ?f s2), dv\<lparr>dv_next_ino := dv_next_ino dv + 1\<rparr>)"
    using c(1,2) by (simp add: devfs_mknod_def)
  moreover have "is_node (d_instantiate a (Some i) (upd_ind i ?f s2)) d (nm, mode, dev)"
    unfolding is_node_def by (rule exI, rule exI, rule conjI, unfold fst_conv, rule c(4)) simp
  ultimately show ?thesis using c(3) by blast
qed

lemma make_nodes_ok:
  assumes "alloc_ok va" "wf_vfs s" "d \<in> dom (v_dentries s)" "distinct (map fst L)"
  shows "\<exists>t dv'. make_nodes va d L (s, dv) = (t, dv') \<and> adds ({d} \<times> fst ` set L) s t \<and> (\<forall>e \<in> set L. is_node t d e)"
  using assms(2-4)
proof (induction L arbitrary: s dv)
  case Nil
  then show ?case by (simp add: make_nodes_def adds_refl)
next
  case (Cons e L)
  obtain nm mode dev where e: "e = (nm, mode, dev)" by (cases e)
  obtain s1 dv1 where s1: "devfs_mknod va d nm mode dev (s, dv) = (0, s1, dv1)" "adds {(d, nm)} s s1" "is_node s1 d e"
    using devfs_mknod_ok [OF assms(1) Cons.prems(1,2)] e by blast
  have d1: "d \<in> dom (v_dentries s1)" by (rule addsD(4) [OF s1(2) Cons.prems(2)])
  obtain t dv' where t: "make_nodes va d L (s1, dv1) = (t, dv')" "adds ({d} \<times> fst ` set L) s1 t" "\<forall>e \<in> set L. is_node t d e"
    using Cons.IH [OF addsD(1) [OF s1(2)] d1, of dv1] Cons.prems(3) by auto
  have "make_nodes va d (e # L) (s, dv) = (t, dv')" using s1(1) t(1) by (simp add: make_nodes_def e)
  moreover have "adds ({d} \<times> fst ` set (e # L)) s t"
    by (rule adds_mono [OF adds_trans [OF s1(2) t(2)]]) (auto simp: e)
  moreover have "is_node t d e"
    by (rule is_node_adds [OF s1(3) t(2) addsD(1) [OF s1(2)] d1]) (use Cons.prems(3) e in auto)
  ultimately show ?case using t(3) by auto
qed

lemma dev_names: "distinct (map fst dev_nodes)" "ascii ''input'' \<notin> fst ` set dev_nodes"
  by (simp_all add: dev_nodes_def upt_rec)

lemma input_names: "distinct (map fst input_nodes)"
  by (simp add: input_nodes_def)

lemma input_dir_ok:
  assumes "alloc_ok va" "wf_vfs s" "d \<in> dom (v_dentries s)"
  obtains t dv' a A where "devfs_input_dir va root d (s, dv) = (t, dv')" "adds A s t"
    "\<And>nm x. x \<in> dom (v_dentries s) \<Longrightarrow> (x, nm) \<in> A \<Longrightarrow> x = d \<and> nm = ascii ''input''"
    "\<And>e. e \<in> set input_nodes \<Longrightarrow> is_node t a e" "find_child t (ascii ''input'') (d_subdirs (dent t d)) = Some a"
    "a \<notin> dom (v_dentries s)"
proof -
  let ?f = "dir_inode (dv_input_ino dv)"
  obtain a i s1 s2 where c: "d_alloc va (Some d) (ascii ''input'') s = (Some a, s1)"
      "new_inode va (d_sb (dent s1 root)) s1 = (Some i, s2)" "a \<notin> dom (v_dentries s)"
      "adds {(d, ascii ''input'')} s (d_instantiate a (Some i) (upd_ind i ?f s2))"
      "named (d_instantiate a (Some i) (upd_ind i ?f s2)) d (ascii ''input'') a
         (?f (inode_zero\<lparr>i_sb := d_sb (dent s1 root), i_count := 1, i_state := 8\<rparr>))"
    using child_ok [OF assms, of "ascii ''input''" "\<lambda>s1. d_sb (dent s1 root)" ?f] by metis
  let ?t = "d_instantiate a (Some i) (upd_ind i ?f s2)"
  have at: "a \<in> dom (v_dentries ?t)" using c(5) by (simp add: named_def)
  obtain t dv' where t: "make_nodes va a input_nodes (?t, dv\<lparr>dv_input_ino := dv_input_ino dv + 1\<rparr>) = (t, dv')"
      "adds ({a} \<times> fst ` set input_nodes) ?t t" "\<forall>e \<in> set input_nodes. is_node t a e"
    using make_nodes_ok [OF assms(1) addsD(1) [OF c(4)] at input_names] by blast
  have "d \<noteq> a" using c(3) assms(3) by blast
  then have "named t d (ascii ''input'') a (?f (inode_zero\<lparr>i_sb := d_sb (dent s1 root), i_count := 1, i_state := 8\<rparr>))"
    using named_adds [OF c(5) t(2) addsD(1) [OF c(4)] addsD(4) [OF c(4) assms(3)]] by blast
  then have f: "find_child t (ascii ''input'') (d_subdirs (dent t d)) = Some a" by (simp add: named_def)
  have "devfs_input_dir va root d (s, dv) = (t, dv')" unfolding devfs_input_dir_def using c(1,2) t(1) by simp
  then show thesis
    by (rule that [OF _ adds_trans [OF c(4) t(2)] _ _ f c(3)]) (use c(3) t(3) in auto)
qed

section \<open>After the start\<close>

text \<open>No file system is mounted on a directory.\<close>

definition no_mounts :: "vfs \<Rightarrow> bool" where
  "no_mounts s \<longleftrightarrow> (\<forall>m \<in> set (v_mounts s). fst m = None)"

lemma no_mounts_mounted: "no_mounts s \<Longrightarrow> mounted s x = x"
  by (force simp: no_mounts_def mounted_def find_Some_iff split: option.split)

lemma init_devfs_nodes:
  assumes "alloc_ok va" "wf_vfs s" "v_root s = Some r" "find_child s (ascii ''dev'') (d_subdirs (dent s r)) = Some d" "d \<noteq> r"
  obtains t dv' a where "init_devfs va (s, dv) = (0, t, dv')" "wf_vfs t" "v_root t = Some r" "v_mounts t = v_mounts s"
    "find_child t (ascii ''dev'') (d_subdirs (dent t r)) = Some d" "\<And>e. e \<in> set dev_nodes \<Longrightarrow> is_node t d e"
    "find_child t (ascii ''input'') (d_subdirs (dent t d)) = Some a" "\<And>e. e \<in> set input_nodes \<Longrightarrow> is_node t a e"
proof -
  let ?s = "dget d s"
  have f: "forget ?s = forget s" by simp
  note F = forget_eq_fields [OF f]
  have w: "wf_vfs ?s" by (rule ext_wf [OF ext_dget [OF assms(2)]])
  have r: "r \<in> dom (v_dentries s)" by (rule wf_root [OF assms(2,3)])
  have d: "d \<in> dom (v_dentries s)" using wf_subdirs [OF assms(2), of r] find_child_in [OF assms(4)] by auto
  have rd: "r \<in> dom (v_dentries ?s)" "d \<in> dom (v_dentries ?s)" using r d F(9) by simp_all
  have dir: "devfs_dir va r s = (Some d, ?s)" using assms(4) by (simp add: devfs_dir_def d_lookup_def)
  obtain s1 dv1 where m: "make_nodes va d dev_nodes (?s, dv) = (s1, dv1)" "adds ({d} \<times> fst ` set dev_nodes) ?s s1"
    "\<forall>e \<in> set dev_nodes. is_node s1 d e"
    using make_nodes_ok [OF assms(1) w rd(2) dev_names(1)] by blast
  note 1 = addsD [OF m(2)]
  obtain t dv' a A where i: "devfs_input_dir va r d (s1, dv1) = (t, dv')" "adds A s1 t"
    "\<And>nm x. x \<in> dom (v_dentries s1) \<Longrightarrow> (x, nm) \<in> A \<Longrightarrow> x = d \<and> nm = ascii ''input''"
    "\<And>e. e \<in> set input_nodes \<Longrightarrow> is_node t a e" "find_child t (ascii ''input'') (d_subdirs (dent t d)) = Some a"
    using input_dir_ok [OF assms(1) 1(1) 1(4) [OF rd(2)], of r dv1] by metis
  note 2 = addsD [OF i(2)]
  have "find_child s1 (ascii ''dev'') (d_subdirs (dent s1 r)) = find_child ?s (ascii ''dev'') (d_subdirs (dent ?s r))"
    by (rule adds_find [OF m(2) w rd(1)]) (use assms(5) in auto)
  also have "\<dots> = find_child s (ascii ''dev'') (d_subdirs (dent s r))" unfolding F(4) by (rule find_child_cong) (simp add: F)
  finally have f1: "find_child s1 (ascii ''dev'') (d_subdirs (dent s1 r)) = Some d" using assms(4) by simp
  have f2: "find_child t (ascii ''dev'') (d_subdirs (dent t r)) = Some d"
    using adds_find [OF i(2) 1(1) 1(4) [OF rd(1)], of "ascii ''dev''"] i(3) [OF 1(4) [OF rd(1)]] assms(5) f1 by auto
  have nd: "is_node t d e" if "e \<in> set dev_nodes" for e
    by (rule is_node_adds [OF bspec [OF m(3) that] i(2) 1(1) 1(4) [OF rd(2)]])
       (use i(3) [OF 1(4) [OF rd(2)]] dev_names(2) that in force)
  have "init_devfs va (s, dv) = (0, t, dv')" by (simp add: init_devfs_def assms(3) dir m(1) i(1))
  then show thesis by (rule that [OF _ 2(1) _ _ f2 nd i(5,4)]) (use 1(2,3) 2(2,3) F(1,2) assms(3) in simp_all)
qed

text \<open>The path of a name in \<^verbatim>\<open>/dev\<close>.\<close>

definition dev_path :: "name \<Rightarrow> name" where
  "dev_path nm = ascii ''/dev'' @ SLASH # nm"

lemma node_opens:
  assumes "wf_vfs t" "v_root t = Some r" "no_mounts t" "find_child t (ascii ''dev'') (d_subdirs (dent t r)) = Some d"
    "is_node t d (nm, mode, dev)" "nm \<noteq> []" "SLASH \<notin> set nm" "nm \<noteq> [DOT]" "nm \<noteq> [DOT, DOT]" "mode AND 0xF000 = S_IFCHR" "va_file va"
  shows "\<exists>f u. filp_open va (dev_path nm) flags m t = (Inr f, u) \<and>
    f_op f = (case get_chrdev_fops dev of None \<Rightarrow> Some DevfsChrFops | Some x \<Rightarrow> Some (DeviceFops x)) \<and>
    f_mode f = (if flags AND 3 = 0 then 1 else if flags AND 3 = 1 then 2 else 3)"
proof -
  have "components (ascii ''/dev'') = [ascii ''dev'']"
    by (simp add: components.simps Let_def)
  then have c: "components (dev_path nm) = [ascii ''dev'', nm]"
    using components_file [OF assms(6,7), of "ascii ''/dev''"] by (simp add: dev_path_def)
  obtain a i where a: "find_child t nm (d_subdirs (dent t d)) = Some a" "d_inode (dent t a) = Some i"
    "i_fop (ind t i) = Some DevfsChrFops" "i_mode (ind t i) = mode" "i_rdev (ind t i) = dev"
    using assms(5) by (auto simp: is_node_def named_def)
  have "resolve t r [ascii ''dev'', nm] = Some a"
    using assms(4,8,9) a(1) by (simp add: resolve1_def no_mounts_mounted [OF assms(3)])
  moreover have "\<not> is_link t a" using a(2,4) assms(10) by (simp add: is_link_def mode_is_def)
  ultimately obtain u where u: "kern_path va (dev_path nm) LOOKUP_FOLLOW t = (Inr a, u)" "forget u = forget t"
    using kern_path_resolve [OF assms(2), of LOOKUP_FOLLOW "dev_path nm" a va] c by auto
  have "d_inode (dent u a) = Some i" "ind u i = ind t i" using forget_eq_fields(6,8) [OF u(2)] a(2) by simp_all
  then show ?thesis
    using u(1) a(3-5) assms(10,11) by (simp add: filp_open_def mode_is_def opened_fop_def devfs_open_def split: option.split)
qed

lemma dev_node_names:
  "(nm, mode, dev) \<in> set dev_nodes \<Longrightarrow>
     nm \<noteq> [] \<and> SLASH \<notin> set nm \<and> nm \<noteq> [DOT] \<and> nm \<noteq> [DOT, DOT] \<and> mode AND 0xF000 = S_IFCHR"
  by (simp add: dev_nodes_def upt_rec) auto


text \<open>A root with one directory, \<^verbatim>\<open>/dev\<close>.\<close>

definition demo_root :: vfs where
  "demo_root = vfs_init\<lparr>
     v_dentries := [5 \<mapsto> dentry_zero\<lparr>d_name := [SLASH], d_parent := 5, d_inode := Some 5, d_count := 1, d_subdirs := [6]\<rparr>,
                    6 \<mapsto> dentry_zero\<lparr>d_name := ascii ''dev'', d_parent := 5, d_inode := Some 6, d_count := 1\<rparr>],
     v_inodes := [5 \<mapsto> inode_zero\<lparr>i_mode := S_IFDIR, i_op := Some RamfsDirOps, i_fop := Some RamfsDirFileOps, i_nlink := 2\<rparr>,
                  6 \<mapsto> inode_zero\<lparr>i_mode := S_IFDIR, i_op := Some RamfsDirOps, i_fop := Some RamfsDirFileOps, i_nlink := 2\<rparr>],
     v_root := Some 5\<rparr>"

lemma demo_root_ok:
  "wf_vfs demo_root" "v_root demo_root = Some 5" "find_child demo_root (ascii ''dev'') (d_subdirs (dent demo_root 5)) = Some 6"
  "no_mounts demo_root"
  by (auto simp: wf_vfs_def dent_ok_def demo_root_def vfs_init_def dent_def dentry_zero_def no_mounts_def split: if_splits)


section \<open>What does not work\<close>

text \<open>The files without operations.\<close>

lemma devices_without_operations:
  "\<forall>(nm, mode, dev) \<in> set dev_nodes.
     get_chrdev_fops dev = None \<longleftrightarrow> nm \<in> {ascii ''kmsg'', ascii ''mem'', ascii ''ptmx''} \<union> {ascii ''tty'' @ [48 + of_nat i] | i. i < 8}"
proof -
  have *: "ascii ''tty'' @ [48 + of_nat i] = ascii ''tty'' @ [c] \<longleftrightarrow> c = (48 + of_nat i :: u8)" for i :: nat and c by auto
  have "{ascii ''tty'' @ [48 + of_nat i] | i. i < 8} = set (map (\<lambda>i. ascii ''tty'' @ [48 + of_nat i]) [0..<8])" by auto
  then show ?thesis by (simp add: dev_nodes_def upt_rec get_chrdev_fops_def DEV_def)
qed

lemma events_without_operations: "\<forall>(nm, mode, dev) \<in> set input_nodes. get_chrdev_fops dev = None"
  by (simp add: input_nodes_def get_chrdev_fops_def DEV_def)

lemma no_operations_no_io:
  assumes "f_op f = Some DevfsChrFops"
  shows "dev_file_read f count c s = Some ((- EINVAL, []), s)" "dev_file_write f bs s = Some (- EINVAL, s)"
  using assms by (simp_all add: dev_file_read_def dev_file_write_def)

end
