(* ===== verification/Mach.thy ===== *)
theory Mach
  imports Input
begin

text \<open>
  \<^verbatim>\<open>kernel/xnu_mach.c\<close>: the port table of a task, semaphores, and the dispatch of Mach traps. The objects of semaphore ports are
  addresses of semaphores that may have been freed: an access to one that was is \<open>None\<close>. What other tasks do while this one
  yields, the allocator, the cycle counter, the process table and the memory of the caller are the environment. A trap returns
  its value, what it stores in the memory of the caller, and the state.
\<close>

section \<open>State\<close>

datatype port_type = PORT_NONE | PORT_TASK | PORT_THREAD | PORT_SEMAPHORE | PORT_HOST

record mach_port_slot =
  mp_type :: port_type
  mp_object :: "nat option"
  mp_refs :: u32

record mach_semaphore =
  ms_value :: u32
  ms_waiters :: u32

record mach =
  mk_self :: nat
  mk_tgid :: u32
  mk_tls :: u64
  mk_ports :: "(nat \<Rightarrow> mach_port_slot) option"
  mk_task_port :: u32
  mk_thread_port :: u32
  mk_sems :: "nat \<rightharpoonup> mach_semaphore"
  mk_sleeps :: "(u64 \<times> u64) list"

record mach_env =
  me_ports :: bool
  me_sem :: "(nat \<rightharpoonup> mach_semaphore) \<Rightarrow> nat option"
  me_others :: "nat \<Rightarrow> mach \<Rightarrow> mach"
  me_tsc :: u64
  me_pid :: "u32 \<Rightarrow> bool"
  me_remote :: "u64 \<Rightarrow> u32"

abbreviation (input) PORT_MAX_SLOTS :: nat where "PORT_MAX_SLOTS \<equiv> 32"
abbreviation (input) NAME_FIRST_FREE :: nat where "NAME_FIRST_FREE \<equiv> 4"
abbreviation (input) KERN_INVALID_ADDRESS :: int where "KERN_INVALID_ADDRESS \<equiv> 1"
abbreviation (input) KERN_PROTECTION_FAILURE :: int where "KERN_PROTECTION_FAILURE \<equiv> 2"
abbreviation (input) KERN_NO_SPACE :: int where "KERN_NO_SPACE \<equiv> 3"
abbreviation (input) KERN_INVALID_ARGUMENT :: int where "KERN_INVALID_ARGUMENT \<equiv> 4"
abbreviation (input) KERN_FAILURE :: int where "KERN_FAILURE \<equiv> 5"
abbreviation (input) KERN_RESOURCE_SHORTAGE :: int where "KERN_RESOURCE_SHORTAGE \<equiv> 6"
abbreviation (input) KERN_ABORTED :: int where "KERN_ABORTED \<equiv> 14"
abbreviation (input) KERN_NOT_SUPPORTED :: int where "KERN_NOT_SUPPORTED \<equiv> 46"
abbreviation (input) MACH_SEND_INVALID_DEST :: int where "MACH_SEND_INVALID_DEST \<equiv> 0x10000003"
abbreviation (input) MACH_RCV_TIMED_OUT :: int where "MACH_RCV_TIMED_OUT \<equiv> 0x10004003"

section \<open>Ports\<close>

definition slot_zero :: mach_port_slot where
  "slot_zero = \<lparr>mp_type = PORT_NONE, mp_object = None, mp_refs = 0\<rparr>"

definition mach_ports_init_task :: "mach_env \<Rightarrow> mach \<Rightarrow> mach" where
  "mach_ports_init_task e s =
     (if mk_ports s \<noteq> None then s
      else if \<not> me_ports e then s
      else s\<lparr>mk_ports := Some ((\<lambda>_. slot_zero)
               (1 := \<lparr>mp_type = PORT_TASK, mp_object = Some (mk_self s), mp_refs = 1\<rparr>,
                2 := \<lparr>mp_type = PORT_THREAD, mp_object = Some (mk_self s), mp_refs = 1\<rparr>,
                3 := \<lparr>mp_type = PORT_HOST, mp_object = None, mp_refs = 1\<rparr>)),
             mk_task_port := 1, mk_thread_port := 2\<rparr>)"

definition mach_port_alloc_task :: "mach_env \<Rightarrow> mach \<Rightarrow> u32 \<times> mach" where
  "mach_port_alloc_task e s = (1, mach_ports_init_task e s)"

definition mach_port_alloc_thread :: "mach_env \<Rightarrow> mach \<Rightarrow> u32 \<times> mach" where
  "mach_port_alloc_thread e s = (2, mach_ports_init_task e s)"

definition mach_port_alloc_host :: "mach_env \<Rightarrow> mach \<Rightarrow> u32 \<times> mach" where
  "mach_port_alloc_host e s = (3, mach_ports_init_task e s)"

definition set_slot :: "nat \<Rightarrow> mach_port_slot \<Rightarrow> mach \<Rightarrow> mach" where
  "set_slot n x s = s\<lparr>mk_ports := map_option (\<lambda>p. p(n := x)) (mk_ports s)\<rparr>"

definition mach_port_new_slot :: "port_type \<Rightarrow> nat option \<Rightarrow> mach \<Rightarrow> u32 \<times> mach" where
  "mach_port_new_slot ty ob s =
     (case mk_ports s of None \<Rightarrow> (0, s)
      | Some p \<Rightarrow>
          (case List.find (\<lambda>i. mp_type (p i) = PORT_NONE) [NAME_FIRST_FREE..<PORT_MAX_SLOTS] of
             None \<Rightarrow> (0, s)
           | Some i \<Rightarrow> (of_nat i, set_slot i \<lparr>mp_type = ty, mp_object = ob, mp_refs = 1\<rparr> s)))"

definition mach_port_lookup :: "u32 \<Rightarrow> mach \<Rightarrow> mach_port_slot option" where
  "mach_port_lookup name s =
     (case mk_ports s of None \<Rightarrow> None
      | Some p \<Rightarrow> if name = 0 \<or> 32 \<le> name then None
                  else if mp_type (p (unat name)) = PORT_NONE then None else Some (p (unat name)))"

section \<open>Semaphores\<close>

text \<open>The value of the call, and the name stored if the caller gave a place for it.\<close>

definition mach_semaphore_create :: "mach_env \<Rightarrow> u32 \<Rightarrow> mach \<Rightarrow> (int \<times> u32 option) \<times> mach" where
  "mach_semaphore_create e v s =
     (case me_sem e (mk_sems s) of None \<Rightarrow> ((KERN_RESOURCE_SHORTAGE, None), s)
      | Some a \<Rightarrow>
          let s1 = mach_ports_init_task e (s\<lparr>mk_sems := (mk_sems s)(a \<mapsto> \<lparr>ms_value = v, ms_waiters = 0\<rparr>)\<rparr>);
              r = mach_port_new_slot PORT_SEMAPHORE (Some a) s1
          in if fst r = 0 then ((KERN_NO_SPACE, None), (snd r)\<lparr>mk_sems := (mk_sems (snd r))(a := None)\<rparr>)
             else ((0, Some (fst r)), snd r))"

text \<open>The semaphore of a name: no such port, or a pointer that must not be followed.\<close>

datatype sem_ref = NoSem | BadSem | Sem nat mach_semaphore

definition sem_of :: "u32 \<Rightarrow> mach \<Rightarrow> sem_ref" where
  "sem_of name s =
     (case mach_port_lookup name s of None \<Rightarrow> NoSem
      | Some x \<Rightarrow>
          if mp_type x \<noteq> PORT_SEMAPHORE then NoSem
          else (case mp_object x of None \<Rightarrow> BadSem
                | Some a \<Rightarrow> (case mk_sems s a of None \<Rightarrow> BadSem | Some m \<Rightarrow> Sem a m)))"

definition mach_semaphore_destroy :: "u32 \<Rightarrow> mach \<Rightarrow> (int \<times> mach) option" where
  "mach_semaphore_destroy name s =
     (case sem_of name s of
        NoSem \<Rightarrow> Some (KERN_INVALID_ARGUMENT, s)
      | BadSem \<Rightarrow> None
      | Sem a m \<Rightarrow> Some (0, set_slot (unat name) slot_zero (s\<lparr>mk_sems := (mk_sems s)(a := None)\<rparr>)))"

definition mach_semaphore_signal :: "u32 \<Rightarrow> mach \<Rightarrow> (int \<times> mach) option" where
  "mach_semaphore_signal name s =
     (case sem_of name s of
        NoSem \<Rightarrow> Some (KERN_INVALID_ARGUMENT, s)
      | BadSem \<Rightarrow> None
      | Sem a m \<Rightarrow> Some (0, s\<lparr>mk_sems := (mk_sems s)(a \<mapsto> m\<lparr>ms_value := ms_value m + 1\<rparr>)\<rparr>))"

definition mach_semaphore_signal_all :: "u32 \<Rightarrow> mach \<Rightarrow> (int \<times> mach) option" where
  "mach_semaphore_signal_all name s =
     (case sem_of name s of
        NoSem \<Rightarrow> Some (KERN_INVALID_ARGUMENT, s)
      | BadSem \<Rightarrow> None
      | Sem a m \<Rightarrow>
          Some (0, if 0 < sint (ms_waiters m)
                   then s\<lparr>mk_sems := (mk_sems s)(a \<mapsto> m\<lparr>ms_value := ms_value m + ms_waiters m\<rparr>)\<rparr> else s))"

text \<open>The wait holds the address of the semaphore while others run; it looks at most 10001 times.\<close>

function sem_wait :: "mach_env \<Rightarrow> nat \<Rightarrow> nat \<Rightarrow> mach \<Rightarrow> (int \<times> mach) option" where
  "sem_wait e a tries s =
     (case mk_sems s a of None \<Rightarrow> None
      | Some m \<Rightarrow>
          if sint (ms_value m) \<le> 0
          then if 10000 < tries + 1 then Some (KERN_ABORTED, me_others e tries s)
               else sem_wait e a (tries + 1) (me_others e tries s)
          else Some (0, s\<lparr>mk_sems := (mk_sems s)(a \<mapsto> m\<lparr>ms_value := ms_value m - 1\<rparr>)\<rparr>))"
  by pat_completeness auto
termination by (relation "measure (\<lambda>(e, a, tries, s). 10000 - tries)") auto

declare sem_wait.simps [simp del]

definition mach_semaphore_wait :: "mach_env \<Rightarrow> u32 \<Rightarrow> mach \<Rightarrow> (int \<times> mach) option" where
  "mach_semaphore_wait e name s =
     (case sem_of name s of
        NoSem \<Rightarrow> Some (KERN_INVALID_ARGUMENT, s)
      | BadSem \<Rightarrow> None
      | Sem a m \<Rightarrow> sem_wait e a 0 s)"

section \<open>Messages, memory and timers\<close>

definition xnu_mach_msg :: "mach_env \<Rightarrow> u64 \<Rightarrow> u32 \<Rightarrow> mach \<Rightarrow> int" where
  "xnu_mach_msg e msg opts s =
     (if opts AND 1 \<noteq> 0
      then if msg = 0 then MACH_SEND_INVALID_DEST
           else if mach_port_lookup (me_remote e msg) s = None then MACH_SEND_INVALID_DEST else 0
      else if opts AND 2 \<noteq> 0 then MACH_RCV_TIMED_OUT else 0)"

text \<open>
  The memory calls of the kernel are arguments, on a state of their own. The place of the address is \<open>None\<close> for a null
  pointer; the new contents of that place are returned.
\<close>

definition xnu_vm_allocate ::
  "(u64 \<Rightarrow> u64 \<Rightarrow> u32 \<Rightarrow> u32 \<Rightarrow> 'm \<Rightarrow> int \<times> 'm) \<Rightarrow> u64 option \<Rightarrow> u64 \<Rightarrow> u32 \<Rightarrow> 'm \<Rightarrow> (int \<times> u64 option) \<times> 'm" where
  "xnu_vm_allocate mmap addr len flags m =
     (let hint = (case addr of None \<Rightarrow> 0 | Some a \<Rightarrow> if flags AND 1 = 0 then a else 0);
          fl = (if hint \<noteq> 0 \<and> flags AND 1 = 0 then 0x22 OR 0x10 else 0x22 :: u32);
          r = mmap hint len 3 fl m
      in if fst r < 0 then ((KERN_NO_SPACE, addr), snd r)
         else ((0, map_option (\<lambda>_. of_int (fst r)) addr), snd r))"

definition xnu_vm_deallocate :: "(u64 \<Rightarrow> u64 \<Rightarrow> 'm \<Rightarrow> int \<times> 'm) \<Rightarrow> u64 \<Rightarrow> u64 \<Rightarrow> 'm \<Rightarrow> int \<times> 'm" where
  "xnu_vm_deallocate munmap addr len m =
     (let r = munmap addr len m in (if fst r < 0 then KERN_INVALID_ADDRESS else 0, snd r))"

definition xnu_vm_protect :: "(u64 \<Rightarrow> u64 \<Rightarrow> u32 \<Rightarrow> 'm \<Rightarrow> int \<times> 'm) \<Rightarrow> u64 \<Rightarrow> u64 \<Rightarrow> u32 \<Rightarrow> 'm \<Rightarrow> int \<times> 'm" where
  "xnu_vm_protect mprotect addr len prot m =
     (let r = mprotect addr len prot m in (if fst r < 0 then KERN_PROTECTION_FAILURE else 0, snd r))"

type_synonym stores = "(u64 \<times> u8 list) list"

definition xnu_mach_timebase_info :: "u64 \<Rightarrow> int \<times> stores" where
  "xnu_mach_timebase_info info =
     (if info = 0 then (KERN_INVALID_ARGUMENT, []) else (0, [(info, le_bytes 4 (1 :: u32)), (info + 4, le_bytes 4 (1 :: u32))]))"

definition nanosleep :: "u64 \<Rightarrow> u64 \<Rightarrow> mach \<Rightarrow> mach" where
  "nanosleep sec nsec s = s\<lparr>mk_sleeps := mk_sleeps s @ [(sec, nsec)]\<rparr>"

definition xnu_mach_wait_until :: "mach_env \<Rightarrow> u64 \<Rightarrow> mach \<Rightarrow> int \<times> mach" where
  "xnu_mach_wait_until e deadline s =
     (if deadline \<le> me_tsc e then (0, s)
      else let delta = deadline - me_tsc e in (0, nanosleep (delta div 1000000000) (delta mod 1000000000) s))"

definition xnu_mk_timer_create :: "mach_env \<Rightarrow> mach \<Rightarrow> int \<times> mach" where
  "xnu_mk_timer_create e s =
     (let r = mach_port_new_slot PORT_TASK None (mach_ports_init_task e s) in (uint (fst r), snd r))"

definition xnu_mk_timer_destroy :: "u32 \<Rightarrow> mach \<Rightarrow> int \<times> mach" where
  "xnu_mk_timer_destroy timer s =
     (case mach_port_lookup timer s of None \<Rightarrow> (KERN_INVALID_ARGUMENT, s)
      | Some x \<Rightarrow> (0, set_slot (unat timer) (x\<lparr>mp_type := PORT_NONE\<rparr>) s))"

definition xnu_mk_timer_cancel :: "u64 \<Rightarrow> int \<times> stores" where
  "xnu_mk_timer_cancel result = (0, if result \<noteq> 0 then [(result, le_bytes 8 (0 :: u64))] else [])"

definition xnu_task_for_pid :: "mach_env \<Rightarrow> u32 \<Rightarrow> u64 \<Rightarrow> int \<times> stores" where
  "xnu_task_for_pid e pid out =
     (if \<not> me_pid e pid then (KERN_FAILURE, []) else (0, if out \<noteq> 0 then [(out, le_bytes 4 (1 :: u32))] else []))"

definition xnu_pid_for_task :: "u64 \<Rightarrow> mach \<Rightarrow> int \<times> stores" where
  "xnu_pid_for_task out s = (0, if out \<noteq> 0 then [(out, le_bytes 4 (mk_tgid s))] else [])"

section \<open>Dispatch\<close>

type_synonym trap_result = "(int \<times> stores \<times> mach) option"

definition plain :: "(int \<times> mach) option \<Rightarrow> trap_result" where
  "plain r = map_option (\<lambda>(v, s). (v, [], s)) r"

definition wait_signal :: "mach_env \<Rightarrow> u32 \<Rightarrow> u32 \<Rightarrow> mach \<Rightarrow> (int \<times> mach) option" where
  "wait_signal e w g s =
     (case mach_semaphore_wait e w s of None \<Rightarrow> None
      | Some (r, s1) \<Rightarrow> (case mach_semaphore_signal g s1 of None \<Rightarrow> None | Some (_, s2) \<Rightarrow> Some (r, s2)))"

definition xnu_mach_dispatch :: "mach_env \<Rightarrow> u32 \<Rightarrow> u64 \<Rightarrow> u64 \<Rightarrow> u64 \<Rightarrow> u64 \<Rightarrow> mach \<Rightarrow> trap_result" where
  "xnu_mach_dispatch e nr a1 a2 a3 a4 s =
     (if nr = 28 then (let s1 = mach_ports_init_task e s in Some (uint (mk_task_port s1), [], s1))
      else if nr = 27 \<or> nr = 26 then (let s1 = mach_ports_init_task e s in Some (uint (mk_thread_port s1), [], s1))
      else if nr = 29 then Some (3, [], mach_ports_init_task e s)
      else if nr = 31 \<or> nr = 32 \<or> nr = 70 then Some (xnu_mach_msg e a1 (ucast a2) s, [], s)
      else if nr = 33 then plain (mach_semaphore_signal (ucast a1) s)
      else if nr = 34 \<or> nr = 35 then plain (mach_semaphore_signal_all (ucast a1) s)
      else if nr = 36 \<or> nr = 38 then plain (mach_semaphore_wait e (ucast a1) s)
      else if nr = 37 \<or> nr = 39 then plain (wait_signal e (ucast a1) (ucast a2) s)
      else if nr = 59 \<or> nr = 60 \<or> nr = 61 then Some (0, [], me_others e 0 s)
      else if nr = 62 then Some (0, [], nanosleep a3 a4 s)
      else if nr = 89 then (case xnu_mach_timebase_info a1 of (r, w) \<Rightarrow> Some (r, w, s))
      else if nr = 90 then plain (Some (xnu_mach_wait_until e a1 s))
      else if nr = 91 then plain (Some (xnu_mk_timer_create e s))
      else if nr = 92 then plain (Some (xnu_mk_timer_destroy (ucast a1) s))
      else if nr = 93 then Some (0, [], s)
      else if nr = 94 then (case xnu_mk_timer_cancel a2 of (r, w) \<Rightarrow> Some (r, w, s))
      else if nr = 45 then (case xnu_task_for_pid e (ucast a2) a3 of (r, w) \<Rightarrow> Some (r, w, s))
      else if nr = 46 then (case xnu_pid_for_task a2 s of (r, w) \<Rightarrow> Some (r, w, s))
      else if nr = 100 then Some (- KERN_NOT_SUPPORTED, [], s)
      else Some (KERN_NOT_SUPPORTED, [], s))"

text \<open>The calls of the BSD class, \<^verbatim>\<open>kernel/xnu_bsd.c\<close>, are an argument.\<close>

definition xnu_syscall_dispatch ::
  "mach_env \<Rightarrow> (u32 \<Rightarrow> u64 list \<Rightarrow> mach \<Rightarrow> trap_result) \<Rightarrow> u64 \<Rightarrow> u64 \<Rightarrow> u64 \<Rightarrow> u64 \<Rightarrow> u64 \<Rightarrow> u64 \<Rightarrow> u64 \<Rightarrow> mach \<Rightarrow> trap_result" where
  "xnu_syscall_dispatch e bsd raw a1 a2 a3 a4 a5 a6 s =
     (let cls = ucast (drop_bit 24 raw) :: u32; nr = ucast (raw AND 0x00FFFFFF) :: u32 in
      if cls = 2 then bsd nr [a1, a2, a3, a4, a5, a6] s
      else if cls = 1 then xnu_mach_dispatch e nr a1 a2 a3 a4 s
      else if cls = 3 then if nr = 3 then Some (0, [], s\<lparr>mk_tls := a1\<rparr>) else Some (- ENOSYS, [], s)
      else Some (- ENOSYS, [], s))"

end
