(* ===== verification/Mach_Correct.thy ===== *)
theory Mach_Correct
  imports Mach
begin

text \<open>
  The ports of a task refine a map from names to counters: no call follows a pointer to a freed semaphore as long as no other
  task destroys one that is waited for. Waiting ends.
\<close>

section \<open>Invariant\<close>

definition sem_port :: "mach_port_slot \<Rightarrow> bool" where
  "sem_port x \<longleftrightarrow> mp_type x = PORT_SEMAPHORE"

text \<open>Semaphore ports have a live semaphore, each its own; nobody waits in the wait queue.\<close>

definition mach_ok :: "mach \<Rightarrow> bool" where
  "mach_ok s \<longleftrightarrow> finite (dom (mk_sems s)) \<and> (\<forall>m \<in> ran (mk_sems s). ms_waiters m = 0) \<and>
     (\<forall>p. mk_ports s = Some p \<longrightarrow>
        (\<forall>i < 32. sem_port (p i) \<longrightarrow> (\<exists>a m. mp_object (p i) = Some a \<and> mk_sems s a = Some m)) \<and>
        (\<forall>i < 32. \<forall>j < 32. sem_port (p i) \<longrightarrow> sem_port (p j) \<longrightarrow> mp_object (p i) = mp_object (p j) \<longrightarrow> i = j))"

lemma lookup_iff:
  "mach_port_lookup n s = Some x \<longleftrightarrow> (\<exists>p. mk_ports s = Some p \<and> n \<noteq> 0 \<and> n < 32 \<and> mp_type (p (unat n)) \<noteq> PORT_NONE \<and> x = p (unat n))"
  by (auto simp: mach_port_lookup_def not_le split: option.splits)

lemma unat_32: "(n :: u32) < 32 \<Longrightarrow> unat n < 32"
  by (simp add: word_less_nat_alt)

lemma mach_live:
  "mach_ok s \<Longrightarrow> mk_ports s = Some p \<Longrightarrow> i < 32 \<Longrightarrow> mp_type (p i) = PORT_SEMAPHORE \<Longrightarrow>
     \<exists>a m. mp_object (p i) = Some a \<and> mk_sems s a = Some m"
  unfolding mach_ok_def sem_port_def by blast

lemma sem_of_ok: "mach_ok s \<Longrightarrow> sem_of n s \<noteq> BadSem"
  using unat_32 [of n] by (auto simp: sem_of_def lookup_iff dest: mach_live split: option.split)

lemma sem_ofD:
  assumes "sem_of n s = Sem a m"
  obtains p where "mk_ports s = Some p" "n \<noteq> 0" "unat n < 32" "sem_port (p (unat n))" "mp_object (p (unat n)) = Some a"
    "mk_sems s a = Some m"
  using assms unat_32 [of n] by (auto simp: sem_of_def lookup_iff sem_port_def split: option.splits if_splits)

section \<open>The abstract ports\<close>

datatype aport = ASem u32 | AOther

definition aport :: "mach \<Rightarrow> mach_port_slot \<Rightarrow> aport" where
  "aport s x = (if sem_port x then ASem (ms_value (the (mk_sems s (the (mp_object x))))) else AOther)"

definition ports :: "mach \<Rightarrow> u32 \<rightharpoonup> aport" where
  "ports s = (\<lambda>n. map_option (aport s) (mach_port_lookup n s))"

datatype mcall = Create u32 | Destroy u32 | Signal u32 | SignalAll u32 | Wait u32 | TimerCreate | TimerDestroy u32

fun mach_exec :: "mach_env \<Rightarrow> mcall \<Rightarrow> mach \<Rightarrow> ((int \<times> u32 option) \<times> mach) option" where
  "mach_exec e (Create v) s = Some (mach_semaphore_create e v s)"
| "mach_exec e (Destroy n) s = map_option (map_prod (\<lambda>r. (r, None)) id) (mach_semaphore_destroy n s)"
| "mach_exec e (Signal n) s = map_option (map_prod (\<lambda>r. (r, None)) id) (mach_semaphore_signal n s)"
| "mach_exec e (SignalAll n) s = map_option (map_prod (\<lambda>r. (r, None)) id) (mach_semaphore_signal_all n s)"
| "mach_exec e (Wait n) s = map_option (map_prod (\<lambda>r. (r, None)) id) (mach_semaphore_wait e n s)"
| "mach_exec e TimerCreate s = Some (map_prod (\<lambda>r. (r, None)) id (xnu_mk_timer_create e s))"
| "mach_exec e (TimerDestroy n) s = Some (map_prod (\<lambda>r. (r, None)) id (xnu_mk_timer_destroy n s))"

definition free_name :: "(u32 \<rightharpoonup> aport) \<Rightarrow> u32 option" where
  "free_name r = List.find (\<lambda>n. r n = None) (map of_nat [4..<32])"

text \<open>Names are the lowest free ones; a signal to all wakes nobody.\<close>

fun mach_spec :: "mcall \<Rightarrow> (u32 \<rightharpoonup> aport) \<Rightarrow> (int \<times> u32 option) \<times> (u32 \<rightharpoonup> aport)" where
  "mach_spec (Create v) r =
     (case free_name r of None \<Rightarrow> ((3, None), r) | Some n \<Rightarrow> ((0, Some n), r(n \<mapsto> ASem v)))"
| "mach_spec (Destroy n) r = (case r n of Some (ASem v) \<Rightarrow> ((0, None), r(n := None)) | _ \<Rightarrow> ((4, None), r))"
| "mach_spec (Signal n) r = (case r n of Some (ASem v) \<Rightarrow> ((0, None), r(n \<mapsto> ASem (v + 1))) | _ \<Rightarrow> ((4, None), r))"
| "mach_spec (SignalAll n) r = (case r n of Some (ASem v) \<Rightarrow> ((0, None), r) | _ \<Rightarrow> ((4, None), r))"
| "mach_spec (Wait n) r =
     (case r n of Some (ASem v) \<Rightarrow> if 0 < sint v then ((0, None), r(n \<mapsto> ASem (v - 1))) else ((14, None), r) | _ \<Rightarrow> ((4, None), r))"
| "mach_spec TimerCreate r = (case free_name r of None \<Rightarrow> ((0, None), r) | Some n \<Rightarrow> ((uint n, None), r(n \<mapsto> AOther)))"
| "mach_spec (TimerDestroy n) r = (case r n of None \<Rightarrow> ((4, None), r) | Some _ \<Rightarrow> ((0, None), r(n := None)))"

text \<open>Memory is never short, the semaphore allocator gives free addresses, and nobody else runs.\<close>

definition quiet :: "mach_env \<Rightarrow> bool" where
  "quiet e \<longleftrightarrow> me_ports e \<and> (\<forall>m. finite (dom m) \<longrightarrow> (\<exists>a. me_sem e m = Some a \<and> m a = None)) \<and> (\<forall>i s. me_others e i s = s)"

lemma sem_wait_quiet:
  assumes "\<forall>i s. me_others e i s = s" "mk_sems s a = Some m"
  shows "sem_wait e a k s =
    Some (if sint (ms_value m) \<le> 0 then (14, s) else (0, s\<lparr>mk_sems := (mk_sems s)(a \<mapsto> m\<lparr>ms_value := ms_value m - 1\<rparr>)\<rparr>))"
proof (induction "10000 - k" arbitrary: k)
  case 0
  then show ?case using assms by (subst sem_wait.simps) simp
next
  case (Suc d)
  have "d = 10000 - (k + 1)" using Suc.hyps(2) by simp
  from Suc.hyps(1) [OF this] show ?case using assms by (subst sem_wait.simps) simp
qed

text \<open>A new value in the semaphore of one port.\<close>

lemma set_value:
  assumes "mach_ok s" "sem_of n s = Sem a m"
  shows "ports (s\<lparr>mk_sems := (mk_sems s)(a \<mapsto> m\<lparr>ms_value := v\<rparr>)\<rparr>) = (ports s)(n \<mapsto> ASem v)"
    "mach_ok (s\<lparr>mk_sems := (mk_sems s)(a \<mapsto> m\<lparr>ms_value := v\<rparr>)\<rparr>)"
proof -
  obtain p where p: "mk_ports s = Some p" "n \<noteq> 0" "unat n < 32" "sem_port (p (unat n))" "mp_object (p (unat n)) = Some a"
    "mk_sems s a = Some m" by (rule sem_ofD [OF assms(2)])
  let ?t = "s\<lparr>mk_sems := (mk_sems s)(a \<mapsto> m\<lparr>ms_value := v\<rparr>)\<rparr>"
  have uniq: "k = unat n" if "k < 32" "sem_port (p k)" "mp_object (p k) = Some a" for k
    using assms(1) p that unfolding mach_ok_def by auto
  have live: "\<exists>b m'. mp_object (p k) = Some b \<and> mk_sems s b = Some m'" if "k < 32" "sem_port (p k)" for k
    using assms(1) p(1) that unfolding mach_ok_def by blast
  have l: "mach_port_lookup k ?t = mach_port_lookup k s" for k by (simp add: mach_port_lookup_def)
  show "ports ?t = (ports s)(n \<mapsto> ASem v)"
  proof
    fix k
    show "ports ?t k = ((ports s)(n \<mapsto> ASem v)) k"
    proof (cases "k = n")
      case True
      have "mach_port_lookup n s = Some (p (unat n))"
        using p by (auto simp: lookup_iff sem_port_def word_less_nat_alt)
      then show ?thesis using True p by (simp add: ports_def l aport_def)
    next
      case False
      have "aport ?t x = aport s x" if "mach_port_lookup k s = Some x" for x
      proof -
        have x: "x = p (unat k)" "unat k < 32" using that p(1) unat_32 [of k] by (auto simp: lookup_iff)
        have "unat k \<noteq> unat n" using False by (simp add: word_unat_eq_iff)
        then have "sem_port x \<Longrightarrow> mp_object x \<noteq> Some a" using uniq x by auto
        moreover have "sem_port x \<Longrightarrow> \<exists>b. mp_object x = Some b" using live x by blast
        ultimately show ?thesis by (auto simp: aport_def)
      qed
      then show ?thesis using False by (auto simp: ports_def l intro!: option.map_cong0)
    qed
  qed
  show "mach_ok ?t"
    unfolding mach_ok_def
  proof (intro conjI allI impI ballI)
    show "finite (dom (mk_sems ?t))" using assms(1) by (simp add: mach_ok_def)
    show "ms_waiters x = 0" if "x \<in> ran (mk_sems ?t)" for x
      using that assms(1) p(6) by (auto simp: mach_ok_def ran_def split: if_splits)
    show "\<exists>b m'. mp_object (q i) = Some b \<and> mk_sems ?t b = Some m'" if "mk_ports ?t = Some q" "i < 32" "sem_port (q i)" for q i
      using live [of i] that p(1) by auto
    show "i = j" if "mk_ports ?t = Some q" "i < 32" "j < 32" "sem_port (q i)" "sem_port (q j)" "mp_object (q i) = mp_object (q j)" for q i j
      using assms(1) that unfolding mach_ok_def by auto
  qed
qed

lemma ports_sem: "mach_ok s \<Longrightarrow> ports s n = Some (ASem v) \<longleftrightarrow> (\<exists>a m. sem_of n s = Sem a m \<and> ms_value m = v)"
proof -
  assume ok: "mach_ok s"
  show ?thesis
    using sem_of_ok [OF ok, of n]
    by (auto simp: ports_def sem_of_def aport_def sem_port_def split: option.splits if_splits)
qed

lemma ports_no_sem: "mach_ok s \<Longrightarrow> sem_of n s = NoSem \<longleftrightarrow> (\<forall>v. ports s n \<noteq> Some (ASem v))"
  using ports_sem [of s n] sem_of_ok [of s n] by (cases "sem_of n s") auto

lemma no_sem: "mach_ok s \<Longrightarrow> sem_of n s = NoSem \<Longrightarrow> ports s n = None \<or> ports s n = Some AOther"
  using ports_no_sem [of s n] by (metis aport.exhaust option.exhaust)

section \<open>Taking and giving names\<close>

lemma find_cong_list: "(\<And>x. x \<in> set xs \<Longrightarrow> P x = Q x) \<Longrightarrow> List.find P xs = List.find Q xs"
  by (induction xs) auto

lemma find_cong_upt: "(\<And>i. a \<le> i \<Longrightarrow> i < b \<Longrightarrow> P i = Q i) \<Longrightarrow> List.find P [a..<b] = List.find Q [a..<b]"
  by (rule find_cong_list) simp

lemma find_map: "List.find P (map f xs) = map_option f (List.find (P \<circ> f) xs)"
  by (induction xs) auto

lemma of_nat_32: "i < 32 \<Longrightarrow> unat (of_nat i :: u32) = i \<and> (of_nat i :: u32) < 32"
  by (simp add: word_less_nat_alt unsigned_of_nat take_bit_nat_eq_self)

lemma ports_none:
  assumes "mk_ports s = Some p" "4 \<le> i" "i < 32"
  shows "ports s (of_nat i) = None \<longleftrightarrow> mp_type (p i) = PORT_NONE"
proof -
  have "(of_nat i :: u32) \<noteq> 0" using of_nat_32 [OF assms(3)] assms(2) by (metis not_numeral_le_zero unat_0)
  then show ?thesis using assms of_nat_32 [OF assms(3)] by (auto simp: ports_def mach_port_lookup_def not_le)
qed

lemma free_name_ports:
  assumes "mk_ports s = Some p"
  shows "free_name (ports s) = map_option of_nat (List.find (\<lambda>i. mp_type (p i) = PORT_NONE) [4..<32])"
  unfolding free_name_def find_map comp_def
  by (rule arg_cong [where f = "map_option of_nat"], rule find_cong_upt) (rule ports_none [OF assms])

lemma find_upt: "List.find P [a..<b] = Some i \<Longrightarrow> P i \<and> a \<le> i \<and> i < b"
  by (auto simp: find_Some_iff)

lemmas find_range = find_upt [of _ 4 32]

text \<open>A slot that becomes something else.\<close>

lemma set_slot_ports:
  assumes "mk_ports s = Some p" "n \<noteq> 0" "(n :: u32) < 32"
  shows "ports (set_slot (unat n) x s) = (ports s)(n := if mp_type x = PORT_NONE then None else Some (aport s x))"
proof
  fix k :: u32
  have "aport (set_slot (unat n) x s) = aport s" by (rule ext) (simp add: aport_def set_slot_def)
  then show "ports (set_slot (unat n) x s) k = ((ports s)(n := if mp_type x = PORT_NONE then None else Some (aport s x))) k"
  proof (cases "k = n")
    case True
    then show ?thesis
      using assms(1,2) unat_32 [OF assms(3)] \<open>aport _ = _\<close> by (simp add: ports_def mach_port_lookup_def set_slot_def word_le_nat_alt)
  next
    case False
    then have "unat k \<noteq> unat n" by (simp add: word_unat_eq_iff)
    then show ?thesis using False assms \<open>aport _ = _\<close> by (simp add: ports_def mach_port_lookup_def set_slot_def)
  qed
qed

lemma set_slot_ok:
  assumes "mach_ok s" "mk_ports s = Some p" "sem_port x \<Longrightarrow> \<exists>a m. mp_object x = Some a \<and> mk_sems s a = Some m"
    "\<And>i. sem_port x \<Longrightarrow> i < 32 \<Longrightarrow> i \<noteq> n \<Longrightarrow> sem_port (p i) \<Longrightarrow> mp_object (p i) \<noteq> mp_object x"
  shows "mach_ok (set_slot n x s)"
proof -
  have "mk_sems (set_slot n x s) = mk_sems s" "mk_ports (set_slot n x s) = Some (p(n := x))"
    using assms(2) by (simp_all add: set_slot_def)
  moreover have "i = j" if "i < 32" "j < 32" "sem_port ((p(n := x)) i)" "sem_port ((p(n := x)) j)"
      "mp_object ((p(n := x)) i) = mp_object ((p(n := x)) j)" for i j
  proof (cases "i = n \<or> j = n")
    case True
    then show ?thesis using that assms(4) [of i] assms(4) [of j] by (auto split: if_splits)
  next
    case False
    then show ?thesis using that assms(1,2) unfolding mach_ok_def by auto
  qed
  moreover have "\<exists>a m. mp_object ((p(n := x)) i) = Some a \<and> mk_sems s a = Some m" if "i < 32" "sem_port ((p(n := x)) i)" for i
  proof (cases "i = n")
    case True
    then show ?thesis using that assms(3) by simp
  next
    case False
    then show ?thesis using that mach_live [OF assms(1,2), of i] by (simp add: sem_port_def)
  qed
  ultimately show ?thesis using assms(1) by (simp add: mach_ok_def)
qed

lemma init_noop: "mk_ports s = Some p \<Longrightarrow> mach_ports_init_task e s = s"
  by (simp add: mach_ports_init_task_def)

text \<open>A semaphore nobody has a port to.\<close>

lemma new_sem:
  assumes "mach_ok s" "mk_sems s a = None"
  shows "mach_ok (s\<lparr>mk_sems := (mk_sems s)(a \<mapsto> \<lparr>ms_value = v, ms_waiters = 0\<rparr>)\<rparr>)"
    "ports (s\<lparr>mk_sems := (mk_sems s)(a \<mapsto> \<lparr>ms_value = v, ms_waiters = 0\<rparr>)\<rparr>) = ports s"
proof -
  let ?t = "s\<lparr>mk_sems := (mk_sems s)(a \<mapsto> \<lparr>ms_value = v, ms_waiters = 0\<rparr>)\<rparr>"
  have l: "mach_port_lookup k ?t = mach_port_lookup k s" for k by (simp add: mach_port_lookup_def)
  have "aport ?t x = aport s x" if "mach_port_lookup k s = Some x" for k x
  proof -
    have "sem_port x \<Longrightarrow> \<exists>b m. mp_object x = Some b \<and> mk_sems s b = Some m"
      using that unat_32 [of k] by (auto simp: lookup_iff sem_port_def dest: mach_live [OF assms(1)])
    then show ?thesis using assms(2) by (auto simp: aport_def)
  qed
  then show "ports ?t = ports s" by (auto simp: ports_def l fun_eq_iff intro!: option.map_cong0)
  have "\<exists>b m. mp_object (p i) = Some b \<and> mk_sems ?t b = Some m" if "mk_ports s = Some p" "i < 32" "sem_port (p i)" for p i
    using mach_live [OF assms(1) that(1,2)] that(3) by (auto simp: sem_port_def)
  moreover have "ms_waiters m = 0" if "m \<in> ran (mk_sems ?t)" for m
    using that assms by (auto simp: mach_ok_def ran_def split: if_splits)
  ultimately show "mach_ok ?t" using assms(1) by (simp add: mach_ok_def)
qed

section \<open>Every call follows the specification\<close>

definition follows :: "mcall \<Rightarrow> mach_env \<Rightarrow> mach \<Rightarrow> bool" where
  "follows c e s \<longleftrightarrow> (\<exists>t. mach_exec e c s = Some (fst (mach_spec c (ports s)), t) \<and> mach_ok t \<and> mk_ports t \<noteq> None \<and>
     ports t = snd (mach_spec c (ports s)))"

lemma new_slot:
  assumes "mach_ok s" "mk_ports s = Some p" "sem_port x \<Longrightarrow> \<exists>a m. mp_object x = Some a \<and> mk_sems s a = Some m"
    "\<And>i. sem_port x \<Longrightarrow> i < 32 \<Longrightarrow> sem_port (p i) \<Longrightarrow> mp_object (p i) \<noteq> mp_object x" "mp_type x = ty" "mp_object x = ob" "mp_refs x = 1"
    "ty \<noteq> PORT_NONE" "free_name (ports s) = Some n"
  obtains t where "mach_port_new_slot ty ob s = (n, t)" "n \<noteq> 0" "mach_ok t" "mk_ports t \<noteq> None"
    "ports t = (ports s)(n \<mapsto> aport s x)"
proof -
  have x: "x = \<lparr>mp_type = ty, mp_object = ob, mp_refs = 1\<rparr>" using assms(5-7) by simp
  obtain i where i: "List.find (\<lambda>i. mp_type (p i) = PORT_NONE) [4..<32] = Some i" "n = of_nat i"
    using assms(9) unfolding free_name_ports [OF assms(2)] by blast
  note r = find_range [OF i(1)]
  have u: "unat n = i" "n < 32" using of_nat_32 [of i] r i(2) by simp_all
  then have n0: "n \<noteq> 0" using r by auto
  have "mach_port_new_slot ty ob s = (n, set_slot (unat n) x s)"
    unfolding mach_port_new_slot_def assms(2) option.case i(1) x u(1) by (simp add: i(2))
  moreover have "mach_ok (set_slot (unat n) x s)" by (rule set_slot_ok [OF assms(1,2,3)]) (use assms(4) in blast)+
  moreover have "mk_ports (set_slot (unat n) x s) \<noteq> None" using assms(2) by (simp add: set_slot_def)
  ultimately show thesis using that n0 set_slot_ports [OF assms(2) n0 u(2), of x] assms(5,8) by simp
qed

lemma no_new_slot:
  assumes "mk_ports s = Some p" "free_name (ports s) = None"
  shows "mach_port_new_slot ty ob s = (0, s)"
proof -
  have "List.find (\<lambda>i. mp_type (p i) = PORT_NONE) [4..<32] = None" using assms(2) unfolding free_name_ports [OF assms(1)] by blast
  then show ?thesis unfolding mach_port_new_slot_def assms(1) option.case by (simp only: option.case)
qed

lemma create_follows:
  assumes "mach_ok s" "mk_ports s = Some p" "quiet e"
  shows "follows (Create v) e s"
proof -
  have "finite (dom (mk_sems s))" using assms(1) by (simp add: mach_ok_def)
  then obtain a where a: "me_sem e (mk_sems s) = Some a" "mk_sems s a = None" using assms(3) by (auto simp: quiet_def)
  let ?s = "s\<lparr>mk_sems := (mk_sems s)(a \<mapsto> \<lparr>ms_value = v, ms_waiters = 0\<rparr>)\<rparr>"
  let ?x = "\<lparr>mp_type = PORT_SEMAPHORE, mp_object = Some a, mp_refs = 1\<rparr>"
  note n = new_sem [OF assms(1) a(2), of v]
  have p: "mk_ports ?s = Some p" using assms(2) by simp
  show ?thesis
  proof (cases "free_name (ports s)")
    case None
    have r: "mach_port_new_slot PORT_SEMAPHORE (Some a) ?s = (0, ?s)" by (rule no_new_slot [OF p]) (simp add: n(2) None)
    have "(mk_sems s)(a := None) = mk_sems s" using a(2) by (simp add: fun_upd_idem)
    then have "mach_semaphore_create e v s = ((3, None), s)"
      unfolding mach_semaphore_create_def a(1) option.case init_noop [OF p] Let_def r by simp
    then show ?thesis using None assms(1,2) by (simp add: follows_def)
  next
    case (Some n)
    have fresh: "mp_object (p i) \<noteq> mp_object ?x" if "i < 32" "sem_port (p i)" for i
      using mach_live [OF assms(1,2) that(1)] that(2) a(2) by (auto simp: sem_port_def)
    have live: "\<exists>b m. mp_object ?x = Some b \<and> mk_sems ?s b = Some m" by simp
    obtain t where t: "mach_port_new_slot PORT_SEMAPHORE (Some a) ?s = (n, t)" "n \<noteq> 0" "mach_ok t" "mk_ports t \<noteq> None"
        "ports t = (ports ?s)(n \<mapsto> aport ?s ?x)"
      by (rule new_slot [OF n(1) p, of ?x PORT_SEMAPHORE "Some a" n]) (use fresh Some n(2) live in simp_all)
    have "mach_semaphore_create e v s = ((0, Some n), t)"
      unfolding mach_semaphore_create_def a(1) option.case init_noop [OF p] Let_def t(1) using t(2) by simp
    then show ?thesis using Some t(3-5) n(2) by (simp add: follows_def aport_def sem_port_def)
  qed
qed

lemma destroy_follows:
  assumes "mach_ok s" "mk_ports s = Some p"
  shows "follows (Destroy n) e s"
proof (cases "sem_of n s")
  case NoSem
  then show ?thesis using assms no_sem [OF assms(1) NoSem] by (auto simp: follows_def mach_semaphore_destroy_def)
next
  case BadSem
  then show ?thesis using sem_of_ok [OF assms(1)] by simp
next
  case (Sem a m)
  obtain q where q: "mk_ports s = Some q" "n \<noteq> 0" "unat n < 32" "sem_port (q (unat n))" "mp_object (q (unat n)) = Some a"
    "mk_sems s a = Some m" by (rule sem_ofD [OF Sem])
  have n32: "n < 32" using q(3) by (simp add: word_less_nat_alt)
  let ?t = "set_slot (unat n) slot_zero s"
  let ?u = "?t\<lparr>mk_sems := (mk_sems s)(a := None)\<rparr>"
  have z: "\<not> sem_port slot_zero" by (simp add: sem_port_def slot_zero_def)
  have t: "mach_ok ?t" "ports ?t = (ports s)(n := None)"
    using set_slot_ok [OF assms(1) q(1), of slot_zero "unat n"] z set_slot_ports [OF q(1,2) n32, of slot_zero]
    by (simp_all add: slot_zero_def)
  have pt: "mk_ports ?t = Some (q(unat n := slot_zero))" "mk_sems ?t = mk_sems s" using q(1) by (simp_all add: set_slot_def)
  have other: "mp_object ((q(unat n := slot_zero)) i) \<noteq> Some a" if "i < 32" "sem_port ((q(unat n := slot_zero)) i)" for i
    using that z assms(1) q unfolding mach_ok_def by (auto split: if_splits)
  have live: "\<exists>b m'. mp_object ((q(unat n := slot_zero)) i) = Some b \<and> b \<noteq> a \<and> mk_sems s b = Some m'"
    if "i < 32" "sem_port ((q(unat n := slot_zero)) i)" for i
    using mach_live [OF t(1) pt(1) that(1)] that other [OF that] by (auto simp: sem_port_def pt(2))
  have "mach_ok ?u"
    unfolding mach_ok_def
  proof (intro conjI allI impI ballI)
    show "finite (dom (mk_sems ?u))" using assms(1) by (simp add: mach_ok_def)
    show "ms_waiters x = 0" if "x \<in> ran (mk_sems ?u)" for x
      using that assms(1) by (auto simp: mach_ok_def ran_def split: if_splits)
    show "\<exists>b m'. mp_object (r i) = Some b \<and> mk_sems ?u b = Some m'" if ri: "mk_ports ?u = Some r" "i < 32" "sem_port (r i)" for r i
    proof -
      have r: "r = q(unat n := slot_zero)" using ri(1) pt(1) by simp
      obtain b m' where "mp_object (r i) = Some b" "b \<noteq> a" "mk_sems s b = Some m'" using live [of i] ri(2,3) r by blast
      then show ?thesis by auto
    qed
    show "i = j" if "mk_ports ?u = Some r" "i < 32" "j < 32" "sem_port (r i)" "sem_port (r j)" "mp_object (r i) = mp_object (r j)" for r i j
      using t(1) that unfolding mach_ok_def by auto
  qed
  moreover have "ports ?u = ports ?t"
  proof
    fix k
    have "aport ?u x = aport ?t x" if l: "mach_port_lookup k ?t = Some x" for x
    proof -
      have "x = (q(unat n := slot_zero)) (unat k)" "unat k < 32" using l pt(1) unat_32 [of k] by (auto simp: lookup_iff)
      then show ?thesis using live [of "unat k"] by (auto simp: aport_def pt(2))
    qed
    then show "ports ?u k = ports ?t k" by (auto simp: ports_def mach_port_lookup_def split: option.split)
  qed
  moreover have "mach_semaphore_destroy n s = Some (0, ?u)" using Sem by (simp add: mach_semaphore_destroy_def set_slot_def)
  moreover have "ports s n = Some (ASem (ms_value m))" using ports_sem [OF assms(1)] Sem by blast
  ultimately show ?thesis using t(2) pt(1) by (simp add: follows_def)
qed

lemma value_follows:
  assumes "mach_ok s" "mk_ports s = Some p" "quiet e"
  shows "follows (Signal n) e s" "follows (SignalAll n) e s" "follows (Wait n) e s"
proof -
  have q: "\<forall>i s. me_others e i s = s" using assms(3) by (simp add: quiet_def)
  have "follows (Signal n) e s \<and> follows (SignalAll n) e s \<and> follows (Wait n) e s"
  proof (cases "sem_of n s")
    case NoSem
    then show ?thesis
      using assms no_sem [OF assms(1) NoSem]
      by (auto simp: follows_def mach_semaphore_signal_def mach_semaphore_signal_all_def mach_semaphore_wait_def)
  next
    case BadSem
    then show ?thesis using sem_of_ok [OF assms(1)] by simp
  next
    case (Sem a m)
    then have m: "mk_sems s a = Some m" by (rule sem_ofD)
    have w: "ms_waiters m = 0" using assms(1) m by (auto simp: mach_ok_def ran_def)
    have p: "ports s n = Some (ASem (ms_value m))" using ports_sem [OF assms(1)] Sem by blast
    note v = set_value [OF assms(1) Sem]
    show ?thesis
      using p v w assms(1,2) Sem sem_wait_quiet [OF q m, of 0]
      by (simp add: follows_def mach_semaphore_signal_def mach_semaphore_signal_all_def mach_semaphore_wait_def not_le)
  qed
  then show "follows (Signal n) e s" "follows (SignalAll n) e s" "follows (Wait n) e s" by blast+
qed

lemma timer_follows:
  assumes "mach_ok s" "mk_ports s = Some p"
  shows "follows TimerCreate e s" "follows (TimerDestroy n) e s"
proof -
  let ?x = "\<lparr>mp_type = PORT_TASK, mp_object = None, mp_refs = 1\<rparr>"
  show "follows TimerCreate e s"
  proof (cases "free_name (ports s)")
    case None
    then show ?thesis
      using assms no_new_slot [OF assms(2) None, of PORT_TASK None] by (simp add: follows_def xnu_mk_timer_create_def init_noop [OF assms(2)])
  next
    case (Some n)
    obtain t where t: "mach_port_new_slot PORT_TASK None s = (n, t)" "mach_ok t" "mk_ports t \<noteq> None" "ports t = (ports s)(n \<mapsto> aport s ?x)"
      by (rule new_slot [OF assms, of ?x PORT_TASK None n]) (use Some in \<open>simp_all add: sem_port_def\<close>)
    then show ?thesis
      using Some by (simp add: follows_def xnu_mk_timer_create_def init_noop [OF assms(2)] aport_def sem_port_def)
  qed
  show "follows (TimerDestroy n) e s"
  proof (cases "mach_port_lookup n s")
    case None
    then show ?thesis using assms by (simp add: follows_def xnu_mk_timer_destroy_def ports_def)
  next
    case (Some x)
    then have n: "n \<noteq> 0" "n < 32" by (auto simp: lookup_iff)
    let ?y = "x\<lparr>mp_type := PORT_NONE\<rparr>"
    have "\<not> sem_port ?y" by (simp add: sem_port_def)
    then have "mach_ok (set_slot (unat n) ?y s)" using set_slot_ok [OF assms, of ?y "unat n"] by simp
    moreover have "ports (set_slot (unat n) ?y s) = (ports s)(n := None)" using set_slot_ports [OF assms(2) n, of ?y] by simp
    moreover have "ports s n = Some (aport s x)" using Some by (simp add: ports_def)
    ultimately show ?thesis using assms(2) by (simp add: follows_def xnu_mk_timer_destroy_def Some) (simp add: set_slot_def)
  qed
qed

lemma exec_follows:
  assumes "mach_ok s" "mk_ports s \<noteq> None" "quiet e"
  shows "follows c e s"
proof -
  obtain p where p: "mk_ports s = Some p" using assms(2) by blast
  show ?thesis
    using create_follows [OF assms(1) p assms(3)] destroy_follows [OF assms(1) p] value_follows [OF assms(1) p assms(3)]
      timer_follows [OF assms(1) p]
    by (cases c) auto
qed

text \<open>A history of calls; \<open>None\<close> when one of them follows a bad pointer.\<close>

primrec mach_run :: "mach_env \<Rightarrow> mcall list \<Rightarrow> mach \<Rightarrow> ((int \<times> u32 option) list \<times> mach) option" where
  "mach_run e [] s = Some ([], s)"
| "mach_run e (c # cs) s =
     (case mach_exec e c s of None \<Rightarrow> None
      | Some (r, s1) \<Rightarrow> map_option (map_prod ((#) r) id) (mach_run e cs s1))"

primrec spec_run :: "mcall list \<Rightarrow> (u32 \<rightharpoonup> aport) \<Rightarrow> (int \<times> u32 option) list \<times> (u32 \<rightharpoonup> aport)" where
  "spec_run [] r = ([], r)"
| "spec_run (c # cs) r = (let x = mach_spec c r; y = spec_run cs (snd x) in (fst x # fst y, snd y))"

lemma run_follows:
  assumes "mach_ok s" "mk_ports s \<noteq> None" "quiet e"
  shows "\<exists>t. mach_run e cs s = Some (fst (spec_run cs (ports s)), t) \<and> ports t = snd (spec_run cs (ports s))"
  using assms(1,2)
proof (induction cs arbitrary: s)
  case (Cons c cs)
  obtain u where u: "mach_exec e c s = Some (fst (mach_spec c (ports s)), u)" "mach_ok u" "mk_ports u \<noteq> None"
      "ports u = snd (mach_spec c (ports s))"
    using exec_follows [OF Cons.prems assms(3), of c] by (auto simp: follows_def)
  then show ?case using Cons.IH [OF u(2,3)] by (auto simp: Let_def)
qed simp

lemma init_ports:
  assumes "mk_ports s = None" "mk_sems s = Map.empty" "me_ports e"
  shows "mach_ok (mach_ports_init_task e s)" "mk_ports (mach_ports_init_task e s) \<noteq> None"
    "ports (mach_ports_init_task e s) = [1 \<mapsto> AOther, 2 \<mapsto> AOther, 3 \<mapsto> AOther]"
proof -
  show "mach_ok (mach_ports_init_task e s)"
    using assms by (auto simp: mach_ok_def mach_ports_init_task_def sem_port_def slot_zero_def)
  show "mk_ports (mach_ports_init_task e s) \<noteq> None" using assms by (simp add: mach_ports_init_task_def)
  have u: "unat (n :: u32) = Suc 0 \<longleftrightarrow> n = 1" "unat n = 2 \<longleftrightarrow> n = 2" "unat n = 3 \<longleftrightarrow> n = 3" for n
    using word_unat_eq_iff [of n 1] word_unat_eq_iff [of n 2] word_unat_eq_iff [of n 3] by simp_all
  show "ports (mach_ports_init_task e s) = [1 \<mapsto> AOther, 2 \<mapsto> AOther, 3 \<mapsto> AOther]"
    using assms
    by (auto simp: ports_def mach_port_lookup_def mach_ports_init_task_def fun_eq_iff slot_zero_def aport_def sem_port_def u word_le_nat_alt)
qed


definition demo_env :: mach_env where
  "demo_env = \<lparr>me_ports = True, me_sem = (\<lambda>m. Some (LEAST a. m a = None)), me_others = (\<lambda>_ s. s), me_tsc = 0,
     me_pid = (\<lambda>_. True), me_remote = (\<lambda>_. 0)\<rparr>"

definition demo_mach :: mach where
  "demo_mach = \<lparr>mk_self = 1, mk_tgid = 1, mk_tls = 0, mk_ports = None, mk_task_port = 0, mk_thread_port = 0,
     mk_sems = Map.empty, mk_sleeps = []\<rparr>"

lemma demo_quiet: "quiet demo_env"
proof -
  have "m (LEAST a :: nat. m a = None) = None" if "finite (dom m)" for m :: "nat \<rightharpoonup> mach_semaphore"
    using ex_new_if_finite [OF infinite_UNIV_nat that] by (auto simp: domIff intro: LeastI)
  then show ?thesis by (simp add: quiet_def demo_env_def)
qed


section \<open>Waiting for others\<close>

text \<open>C24 (a wait takes the first positive value it sees). Whatever the other tasks do between the looks, if the first look at
  which the counter is positive is one of the first ten thousand and one, and the semaphore is alive until then, the wait ends
  with success and takes one from the counter it saw.\<close>

theorem semaphore_wait_takes_first:
  assumes "sem_of n s = Sem a m0" "st 0 = s" "\<And>i. st (Suc i) = me_others e i (st i)" "k \<le> 10000"
    "\<And>i. i < k \<Longrightarrow> \<exists>m. mk_sems (st i) a = Some m \<and> sint (ms_value m) \<le> 0" "mk_sems (st k) a = Some m" "0 < sint (ms_value m)"
  shows "mach_semaphore_wait e n s = Some (0, (st k)\<lparr>mk_sems := (mk_sems (st k))(a \<mapsto> m\<lparr>ms_value := ms_value m - 1\<rparr>)\<rparr>)"
proof -
  have "sem_wait e a i (st i) = Some (0, (st k)\<lparr>mk_sems := (mk_sems (st k))(a \<mapsto> m\<lparr>ms_value := ms_value m - 1\<rparr>)\<rparr>)" if "i \<le> k" for i
    using that
  proof (induction "k - i" arbitrary: i)
    case 0
    then have "i = k" by simp
    then show ?case using assms(6,7) by (subst sem_wait.simps) simp
  next
    case (Suc d)
    then have i: "i < k" "d = k - Suc i" "Suc i \<le> k" by simp_all
    obtain m1 where "mk_sems (st i) a = Some m1" "sint (ms_value m1) \<le> 0" using assms(5) [OF i(1)] by blast
    then show ?case using Suc.hyps(1) [OF i(2,3)] i(1) assms(3,4) by (subst sem_wait.simps) simp
  qed
  from this [of 0] show ?thesis using assms(1,2) by (simp add: mach_semaphore_wait_def)
qed

theorem semaphore_wait_takes_first_witness:
  "\<exists>e s. (\<exists>m. mk_sems s 7 = Some m \<and> ms_value m = 0) \<and> (\<exists>t. mach_semaphore_wait e 4 s = Some (0, t) \<and> mk_sems t 7 \<noteq> None)"
proof -
  define e where "e = demo_env\<lparr>me_others := (\<lambda>_ s. snd (the (mach_semaphore_signal 4 s)))\<rparr>"
  define s where "s = demo_mach\<lparr>mk_ports := Some ((\<lambda>_. slot_zero)(4 := \<lparr>mp_type = PORT_SEMAPHORE, mp_object = Some 7, mp_refs = 1\<rparr>)),
    mk_sems := [7 \<mapsto> \<lparr>ms_value = 0, ms_waiters = 0\<rparr>]\<rparr>"
  have l: "(32 :: u32) \<le> 4 \<longleftrightarrow> False" by (simp add: word_le_nat_alt)
  have ref: "sem_of 4 s = Sem 7 \<lparr>ms_value = 0, ms_waiters = 0\<rparr>" by (simp add: sem_of_def mach_port_lookup_def s_def l)
  define st where "st i = ((\<lambda>s. snd (the (mach_semaphore_signal 4 s))) ^^ i) s" for i
  have step: "st (Suc i) = me_others e i (st i)" for i by (simp add: st_def e_def)
  have one: "mk_sems (st 1) 7 = Some \<lparr>ms_value = 1, ms_waiters = 0\<rparr>" by (simp add: st_def mach_semaphore_signal_def ref)
  have "mach_semaphore_wait e 4 s = Some (0, (st 1)\<lparr>mk_sems := (mk_sems (st 1))(7 \<mapsto> \<lparr>ms_value = 1, ms_waiters = 0\<rparr>\<lparr>ms_value := 1 - 1\<rparr>)\<rparr>)"
    using semaphore_wait_takes_first [OF ref _ step, of 1 "\<lparr>ms_value = 1, ms_waiters = 0\<rparr>"] one by (simp add: st_def s_def)
  then show ?thesis by (intro exI [of _ e] exI [of _ s]) (simp add: s_def)
qed

text \<open>Another task destroys the semaphore while this one waits: the wait goes on with freed memory.\<close>

lemma wait_uses_freed_semaphore:
  assumes "sem_of n s = Sem a m" "sint (ms_value m) \<le> 0" "me_others e 0 s = snd (the (mach_semaphore_destroy n s))"
  shows "mach_semaphore_wait e n s = None"
proof -
  obtain p where "mk_sems s a = Some m" by (rule sem_ofD [OF assms(1)])
  moreover have "mk_sems (me_others e 0 s) a = None" using assms(1,3) by (simp add: mach_semaphore_destroy_def set_slot_def)
  ultimately have "sem_wait e a 0 s = None" using assms(2) by (subst sem_wait.simps, subst sem_wait.simps) simp
  then show ?thesis using assms(1) by (simp add: mach_semaphore_wait_def)
qed

text \<open>Destroying a timer with the name of a semaphore takes the port away and leaves the semaphore allocated for ever.\<close>

lemma timer_destroy_leaks_semaphore:
  assumes "sem_of n s = Sem a m"
  shows "fst (xnu_mk_timer_destroy n s) = 0 \<and> mk_sems (snd (xnu_mk_timer_destroy n s)) a = Some m \<and>
    mach_port_lookup n (snd (xnu_mk_timer_destroy n s)) = None"
proof -
  obtain p where p: "mk_ports s = Some p" "n \<noteq> 0" "unat n < 32" "sem_port (p (unat n))" "mk_sems s a = Some m" by (rule sem_ofD [OF assms])
  then have "mach_port_lookup n s = Some (p (unat n))" by (auto simp: lookup_iff sem_port_def word_less_nat_alt)
  then show ?thesis using p by (simp add: xnu_mk_timer_destroy_def set_slot_def mach_port_lookup_def)
qed

text \<open>A wait that is given up still gives the other semaphore its signal.\<close>

lemma wait_signal_after_abort:
  assumes "mach_semaphore_wait e w s = Some (14, s1)" "mach_semaphore_signal g s1 = Some (0, s2)"
  shows "wait_signal e w g s = Some (14, s2)"
  using assms by (simp add: wait_signal_def)

end
