(* ===== verification/Spec2Isabelle.thy ===== *)
theory Spec2Isabelle
  imports Prelude Fifo Fdtable Pipe Signal Sched Sched_Correct Sched_Balance
    Cred Pid Pmm Paging Slab Mm Process Process_Correct Tty Ramfs Vfs Vfs_Path Vfs_Inv Vfs_Correct
    Net Net_Correct Tcp Tcp_Correct Cstring Printk Printk_Correct
    Klist Timer Timer_Correct Input Keyboard Keyboard_Correct
    Hyper Hyper_Correct Hyper_Choice Buddy Buddy_Correct Buddy_Lru Cow Cow_Correct
    Terminal Terminal_Correct Chrdev Chrdev_Correct Devfs Devfs_Correct
    Mach Mach_Correct
begin

text \<open>
  A verification development for the kernel of Picomimi-x64, the C sources under
  \<^verbatim>\<open>src/Picomimi-x64_latest_src\<close>. Paths below are relative to that directory.

  \<^bold>\<open>The program.\<close> A monolithic kernel for x86-64. \<^verbatim>\<open>kernel/init.c\<close> brings up physical memory, page tables and
  the heap; \<^verbatim>\<open>kernel/process.c\<close> keeps the task table, forks and ends processes; \<^verbatim>\<open>kernel/wait.c\<close> reaps them;
  \<^verbatim>\<open>kernel/sched.c\<close> chooses what runs; \<^verbatim>\<open>kernel/signal.c\<close> and \<^verbatim>\<open>kernel/cred.c\<close> hold signals and identities;
  \<^verbatim>\<open>kernel/mmap.c\<close> and \<^verbatim>\<open>kernel/page_fault.c\<close> manage address spaces; \<^verbatim>\<open>fs/vfs.c\<close>, \<^verbatim>\<open>fs/vfs_ops.c\<close>,
  \<^verbatim>\<open>fs/ramfs.c\<close> and \<^verbatim>\<open>fs/pipe.c\<close> are files, names and pipes; \<^verbatim>\<open>drivers/tty\<close> is the terminal. They meet in
  the task structure (address space, descriptor table, signal handlers, credentials), in the page
  tables and in the heap.

  \<^bold>\<open>The theories\<close>, in the order of their imports.
  \<^item> \<open>Prelude\<close>: types of machine integers, error numbers, lemmas on words, lists and bits that the components share.
  \<^item> \<open>Fifo\<close>: rings and bounded queues as locales; \<open>bounded_fifo\<close> is interpreted on the pipe buffer and on both
    terminal rings.
  \<^item> \<open>Fdtable\<close>: \<^verbatim>\<open>files_struct\<close> of \<^verbatim>\<open>kernel/process.c\<close>. The invariant \<open>files_inv\<close> and exact reference counts \<open>refs_ok\<close>
    are kept by installing, closing and copying.
  \<^item> \<open>Pipe\<close>: \<^verbatim>\<open>fs/pipe.c\<close>. A blocked call is a value that is resumed later; any history delivers the accepted bytes in order.
  \<^item> \<open>Signal\<close>: \<^verbatim>\<open>kernel/signal.c\<close> and the sending functions of \<^verbatim>\<open>kernel/process.c\<close>.
  \<^item> \<open>Sched\<close>, \<open>Sched_Correct\<close>, \<open>Sched_Balance\<close>: \<^verbatim>\<open>kernel/sched.c\<close>: run queues with bitmaps, the decision, policies, load
    averages and balancing. \<open>sched_inv\<close> ties lists, counts and bitmaps together.
  \<^item> \<open>Cred\<close>: \<^verbatim>\<open>kernel/cred.c\<close>. \<open>Pid\<close>: the two bitmaps of process numbers. \<open>Pmm\<close>: the bitmap of physical pages.
  \<^item> \<open>Paging\<close>: the four-level walks of \<^verbatim>\<open>kernel/init.c\<close> and \<^verbatim>\<open>fs/vfs_ops.c\<close> on a memory of 64-bit words.
  \<^item> \<open>Slab\<close>: the kernel heap. Allocation and release refine a set of disjoint live blocks.
  \<^item> \<open>Mm\<close>: areas, \<^verbatim>\<open>brk\<close>, \<^verbatim>\<open>mmap\<close>, \<^verbatim>\<open>munmap\<close>, \<^verbatim>\<open>mprotect\<close>, page faults and the copy of an address space, over \<open>Paging\<close> and \<open>Pmm\<close>.
  \<^item> \<open>Process\<close>, \<open>Process_Correct\<close>: \<^verbatim>\<open>task_fork\<close>, the exit paths, \<^verbatim>\<open>do_wait\<close> and \<^verbatim>\<open>reap_zombie\<close> on an explicit store of tasks and
    blocks, over \<open>Fdtable\<close>, \<open>Signal\<close>, \<open>Cred\<close>, \<open>Pid\<close> and \<open>Mm\<close>.
  \<^item> \<open>Tty\<close>: \<^verbatim>\<open>drivers/tty/tty.c\<close> and the rings and output of \<^verbatim>\<open>tty_ldisc.c\<close>; the terminal refines a line editor on lists.
  \<^item> \<open>Ramfs\<close>: contents of files and directory listing of \<^verbatim>\<open>fs/ramfs.c\<close>.
  \<^item> \<open>Vfs\<close>: names, paths, open files and mounts of \<^verbatim>\<open>fs/vfs.c\<close>, the inode operations of \<^verbatim>\<open>fs/ramfs.c\<close>, the calls on names of
    \<^verbatim>\<open>fs/vfs_ops.c\<close>. \<open>Vfs_Path\<close> shows that \<^verbatim>\<open>kern_path\<close> walks the components of a path; \<open>Vfs_Inv\<close> that every call keeps the
    pointers of the name tree valid; \<open>Vfs_Correct\<close> follows a file from its creation to its contents.
  \<^item> \<open>Net\<close>, \<open>Net_Correct\<close>: \<^verbatim>\<open>net/net_core.c\<close>: packet buffers, checksums, address resolution, sending, the rings of sockets
    (an interpretation of \<open>bounded_fifo\<close>), ports and the table of sockets. \<open>Tcp\<close>, \<open>Tcp_Correct\<close>: \<^verbatim>\<open>net/tcp.c\<close> and the receive
    path; the state machine against the diagram of RFC 793, the accept queues, the bytes delivered.
  \<^item> \<open>Cstring\<close>: \<^verbatim>\<open>lib/string.c\<close> on a memory of bytes. \<open>Printk\<close>, \<open>Printk_Correct\<close>: the formatter of \<^verbatim>\<open>lib/printk.c\<close>, which writes a
    prefix of the text a reference function computes from the directives.
  \<^item> \<open>Klist\<close>: the doubly linked lists of \<^verbatim>\<open>include/kernel/types.h\<close>, as the list a head stands for. \<open>Timer\<close>, \<open>Timer_Correct\<close>:
    \<^verbatim>\<open>kernel/timer.c\<close> on them; a pending timer runs once, on its tick.
  \<^item> \<open>Input\<close>: rings with a free slot (an interpretation of \<open>bounded_fifo\<close>) and \<^verbatim>\<open>drivers/input/input.c\<close>. \<open>Keyboard\<close>,
    \<open>Keyboard_Correct\<close>: \<^verbatim>\<open>drivers/keyboard/keyboard.c\<close> and \<^verbatim>\<open>drivers/mouse/mouse.c\<close>; a typed line reaches the reader of \<open>Tty\<close>.
  \<^item> \<open>Hyper\<close>, \<open>Hyper_Correct\<close>, \<open>Hyper_Choice\<close>: \<^verbatim>\<open>kernel/sched_hyper.c\<close>. The contract of a scheduling class is the locale
    \<open>sched_policy\<close>, interpreted on all five; \<open>hyper_inv\<close> is kept by every call; the deadline class runs the earliest deadline first.
  \<^item> \<open>Buddy\<close>, \<open>Buddy_Correct\<close>, \<open>Buddy_Lru\<close>: the zones, the buddy allocator and page reclaim of \<^verbatim>\<open>mm/advanced_mm.c\<close>, a file the
    build does not include; free blocks and blocks held partition memory. \<open>Cow\<close>, \<open>Cow_Correct\<close>: its page sharing, faults and areas.
  \<^item> \<open>Terminal\<close>, \<open>Terminal_Correct\<close>: the terminal emulator of \<^verbatim>\<open>drivers/tty/terminal.c\<close>. Whatever bytes it is given it stays
    inside its arrays, and outside insert mode the display shows the screen.
  \<^item> \<open>Chrdev\<close>, \<open>Chrdev_Correct\<close>: the table of character devices and the random generator of \<^verbatim>\<open>drivers/chrdev.c\<close>. \<open>Devfs\<close>,
    \<open>Devfs_Correct\<close>: \<^verbatim>\<open>fs/devfs.c\<close> over \<open>Vfs\<close>: the files of \<^verbatim>\<open>/dev\<close> open with the operations of their numbers.
  \<^item> \<open>Mach\<close>, \<open>Mach_Correct\<close>: the Mach traps of \<^verbatim>\<open>kernel/xnu_mach.c\<close>. The ports of a task refine a map from names to counters.

  \<^bold>\<open>Conventions.\<close> A struct is a record with the fields the code reads or writes; a machine integer is a word of its width where
  overflow can matter. A pointer is an address in a map, and a null pointer is \<open>None\<close>. A negative error number is the value the C
  function returns. A call of the allocator is a parameter that answers an address or fails. A function that may read or
  write outside a buffer, or a freed block, returns \<open>None\<close> then. Spin locks, barriers and TLB flushes have no
  counterpart: each operation runs alone.

  \<^bold>\<open>Fuel.\<close> The search of \<^verbatim>\<open>alloc_pid\<close> has fuel; 65536 units are enough for every bitmap (\<open>alloc_pid_correct\<close>). The walk of
  \<^verbatim>\<open>kmalloc\<close> has one unit for each block of the heap. At most eight symbolic links are followed, as in the code. The
  other loops end by a measure.

  \<^bold>\<open>What the theorems show.\<close> Each component keeps its invariant on every branch, error branches included; its operations do what
  their contracts say; and where they do not, a theorem states what happens instead: reaping a child frees the parent's
  signal block, \<^verbatim>\<open>munmap\<close> leaves a freed area on the list, a name once missed can never be created, \<^verbatim>\<open>unlink\<close> leaves the name, \<^verbatim>\<open>rename\<close>
  loses the file, no IP packet is ever sent and none reaches a socket, and others.

  \<^bold>\<open>Not modelled.\<close> Boot code, descriptor tables, interrupt entry and the context switch are assembly or device access. Drawing
  (frame buffer, window manager), network card, PCI and serial drivers only move data to devices. The
  shell and the programs under \<^verbatim>\<open>userspace\<close> run outside the kernel. Still to be modelled: the system calls on descriptors, the
  process and system file systems, program loading, the socket calls and the BSD
  compatibility layer.
\<close>

end
